(* ===== verification/Prelude.thy ===== *)
theory Prelude
  imports Main "HOL-Library.Word"
begin

text \<open>
  Shared vocabulary of the development.

  The C program is modelled by functions that return a value of \<open>'a res\<close>: \<open>Inr x\<close> is an
  ordinary result, \<open>Inl f\<close> says that the C code left its defined behaviour, called
  \<^verbatim>\<open>exit\<close>, or (for the loops that need not end) did not end within the fuel it was given.
  Strings are the C strings of the program without their terminating NUL; a copy into a buffer
  of fixed size is written with the buffer's size, so that truncation, overrun and a missing
  terminator are branches of the model. The functions of the C library that the sources call
  on strings and numbers are defined here once: \<^verbatim>\<open>snprintf\<close>, \<^verbatim>\<open>sprintf\<close>, \<^verbatim>\<open>strncpy\<close>,
  \<^verbatim>\<open>strtok\<close>, \<^verbatim>\<open>strstr\<close>, \<^verbatim>\<open>strchr\<close>, \<^verbatim>\<open>strrchr\<close>, \<^verbatim>\<open>strtol\<close> and its kin, \<^verbatim>\<open>fgets\<close>.
\<close>

unbundle bit_operations_syntax

section \<open>Results and faults\<close>

datatype fault =
    Exit int            \<comment> \<open>the process called \<open>exit\<close> with this status\<close>
  | BufferOverflow      \<comment> \<open>a write past the end of a buffer\<close>
  | Unterminated        \<comment> \<open>\<open>strncpy\<close> filled a buffer and left no terminator\<close>
  | OutOfBounds         \<comment> \<open>a read past the end of a buffer\<close>
  | NullPointer         \<comment> \<open>a null pointer was dereferenced\<close>
  | Uninitialised       \<comment> \<open>an indeterminate value was used\<close>
  | BadFormat           \<comment> \<open>a \<open>printf\<close> conversion without its argument, or other than \<open>%d\<close> and \<open>%%\<close>\<close>
  | DivideByZero        \<comment> \<open>an integer was divided by zero\<close>
  | SignedOverflow      \<comment> \<open>a value that does not fit a signed C integer\<close>
  | OutOfFuel           \<comment> \<open>the loop was still running when the fuel was used up\<close>
  | Unmodelled          \<comment> \<open>the run enters code that is outside the development\<close>

type_synonym 'a res = "fault + 'a"

named_theorems res_simps \<open>rewriting of computations in the result type\<close>
named_theorems cstr_simps \<open>rewriting of the C string functions\<close>
named_theorems bytes_simps \<open>rewriting of byte sequences and the integers stored in them\<close>

definition and_then :: "'a res \<Rightarrow> ('a \<Rightarrow> 'b res) \<Rightarrow> 'b res" where
  "and_then r f = (case r of Inl e \<Rightarrow> Inl e | Inr x \<Rightarrow> f x)"

lemma and_then_Inl [simp, res_simps]: "and_then (Inl e) f = Inl e"
  by (simp add: and_then_def)

lemma and_then_Inr [simp, res_simps]: "and_then (Inr x) f = f x"
  by (simp add: and_then_def)

lemma and_then_cong [fundef_cong]:
  "r = r' \<Longrightarrow> (\<And>x. r' = Inr x \<Longrightarrow> f x = g x) \<Longrightarrow> and_then r f = and_then r' g"
  by (cases r') (auto simp: and_then_def)

lemma and_then_eq_Inr [res_simps]:
  "and_then r f = Inr y \<longleftrightarrow> (\<exists>x. r = Inr x \<and> f x = Inr y)"
  by (cases r) auto

lemma and_then_eq_Inl [res_simps]:
  "and_then r f = Inl e \<longleftrightarrow> r = Inl e \<or> (\<exists>x. r = Inr x \<and> f x = Inl e)"
  by (cases r) auto

lemma and_then_assoc: "and_then (and_then r f) g = and_then r (\<lambda>x. and_then (f x) g)"
  by (cases r) auto

text \<open>Running a fallible step over a list, from left to right, stopping at the first fault.\<close>

fun res_fold :: "('s \<Rightarrow> 'a \<Rightarrow> 's res) \<Rightarrow> 's \<Rightarrow> 'a list \<Rightarrow> 's res" where
  "res_fold f s [] = Inr s"
| "res_fold f s (x # xs) = and_then (f s x) (\<lambda>s'. res_fold f s' xs)"

lemma res_fold_append:
  "res_fold f s (xs @ ys) = and_then (res_fold f s xs) (\<lambda>s'. res_fold f s' ys)"
  by (induction xs arbitrary: s) (auto simp: and_then_assoc)

lemma res_fold_invariant:
  assumes "res_fold f s xs = Inr t" and "P s"
    and "\<And>s x s'. x \<in> set xs \<Longrightarrow> P s \<Longrightarrow> f s x = Inr s' \<Longrightarrow> P s'"
  shows "P t"
  using assms
proof (induction xs arbitrary: s)
  case Nil
  then show ?case by simp
next
  case (Cons x xs)
  then obtain s' where s': "f s x = Inr s'" "res_fold f s' xs = Inr t"
    by (auto simp: and_then_eq_Inr)
  moreover have "P s'" using Cons.prems s' by (meson list.set_intros(1))
  ultimately show ?case using Cons.IH Cons.prems(3) by (meson list.set_intros(2))
qed

section \<open>C strings and fixed buffers\<close>

definition cstr :: "string \<Rightarrow> string" where
  "cstr s = takeWhile (\<lambda>c. c \<noteq> CHR 0x00) s"

text \<open>\<open>snprintf(buf, n, ...)\<close>: at most \<open>n - 1\<close> characters and the terminator.\<close>

definition snprintf :: "nat \<Rightarrow> string \<Rightarrow> string" where
  "snprintf n s = take (n - 1) s"

text \<open>\<open>sprintf\<close> into a buffer of \<open>n\<close> bytes: the text and its terminator have to fit.\<close>

definition sprintf :: "nat \<Rightarrow> string \<Rightarrow> string res" where
  "sprintf n s = (if length s < n then Inr s else Inl BufferOverflow)"

text \<open>
  \<open>strncpy(buf, s, n)\<close> into a buffer of exactly \<open>n\<close> bytes: a source of \<open>n\<close> or more
  characters leaves the buffer without a terminator.
\<close>

definition strncpy :: "nat \<Rightarrow> string \<Rightarrow> string res" where
  "strncpy n s = (if length s < n then Inr s else Inl Unterminated)"

text \<open>\<open>strncpy(buf, s, n)\<close> into a buffer that has a zero byte at index \<open>n\<close>.\<close>

definition strncpy0 :: "nat \<Rightarrow> string \<Rightarrow> string" where
  "strncpy0 n s = take n s"

lemma snprintf_fits [simp, cstr_simps]: "length s < n \<Longrightarrow> snprintf n s = s"
  by (simp add: snprintf_def)

lemma snprintf_length: "0 < n \<Longrightarrow> length (snprintf n s) < n"
  by (simp add: snprintf_def)

lemma sprintf_fits [simp, cstr_simps]: "length s < n \<Longrightarrow> sprintf n s = Inr s"
  by (simp add: sprintf_def)

lemma sprintf_Inr_iff [cstr_simps]: "sprintf n s = Inr t \<longleftrightarrow> length s < n \<and> t = s"
  by (auto simp: sprintf_def)

lemma strncpy_fits [simp, cstr_simps]: "length s < n \<Longrightarrow> strncpy n s = Inr s"
  by (simp add: strncpy_def)

lemma strncpy_Inr_iff [cstr_simps]: "strncpy n s = Inr t \<longleftrightarrow> length s < n \<and> t = s"
  by (auto simp: strncpy_def)

lemma cstr_no_nul [simp, cstr_simps]: "CHR 0x00 \<notin> set s \<Longrightarrow> cstr s = s"
  unfolding cstr_def by (induction s) auto

lemma cstr_idem [simp, cstr_simps]: "cstr (cstr s) = cstr s"
  unfolding cstr_def by (metis takeWhile_idem)

definition starts_with :: "string \<Rightarrow> string \<Rightarrow> bool" where
  "starts_with p s \<longleftrightarrow> take (length p) s = p"

lemma starts_with_append [simp, cstr_simps]: "starts_with p (p @ s)"
  by (simp add: starts_with_def)

lemma starts_with_iff: "starts_with p s \<longleftrightarrow> (\<exists>t. s = p @ t)"
  by (metis append_take_drop_id starts_with_append starts_with_def)

text \<open>\<open>strstr\<close>: the suffix of the text that begins at the first occurrence.\<close>

fun strstr :: "string \<Rightarrow> string \<Rightarrow> string option" where
  "strstr [] p = (if p = [] then Some [] else None)"
| "strstr (c # s) p = (if starts_with p (c # s) then Some (c # s) else strstr s p)"

lemma strstr_Some: "strstr s p = Some t \<Longrightarrow> (\<exists>u. s = u @ t) \<and> starts_with p t"
proof (induction s)
  case Nil
  then show ?case by (auto simp: starts_with_def split: if_splits)
next
  case (Cons c s)
  show ?case
  proof (cases "starts_with p (c # s)")
    case True
    with Cons.prems show ?thesis by auto
  next
    case False
    with Cons obtain u where "s = u @ t" "starts_with p t" by auto
    then have "c # s = (c # u) @ t" by simp
    with \<open>starts_with p t\<close> show ?thesis by blast
  qed
qed

lemma strstr_prefixed: "strstr (p @ s) p = Some (p @ s)"
proof (cases "p @ s")
  case Nil
  then show ?thesis by simp
next
  case (Cons c t)
  then have "starts_with p (c # t)" by (metis starts_with_append)
  with Cons show ?thesis by simp
qed

lemma strstr_sub: "strstr s p \<noteq> None \<longleftrightarrow> (\<exists>u v. s = u @ p @ v)"
proof
  assume "strstr s p \<noteq> None"
  then obtain t where "strstr s p = Some t" by auto
  from strstr_Some [OF this] show "\<exists>u v. s = u @ p @ v" by (auto simp: starts_with_iff)
next
  assume "\<exists>u v. s = u @ p @ v"
  then obtain u v where "s = u @ p @ v" by blast
  then show "strstr s p \<noteq> None"
  proof (induction u arbitrary: s)
    case Nil
    then show ?case using strstr_prefixed by simp
  next
    case (Cons a u)
    then show ?case by simp
  qed
qed

text \<open>\<open>strchr\<close>: the suffix that begins at the first occurrence of a character.\<close>

definition strchr :: "string \<Rightarrow> char \<Rightarrow> string option" where
  "strchr s c = (case dropWhile (\<lambda>x. x \<noteq> c) s of [] \<Rightarrow> None | t \<Rightarrow> Some t)"

text \<open>\<open>strrchr\<close>: the text after the last occurrence of a character.\<close>

definition after_last :: "char \<Rightarrow> string \<Rightarrow> string option" where
  "after_last c s = (if c \<in> set s then Some (rev (takeWhile (\<lambda>x. x \<noteq> c) (rev s))) else None)"

lemma after_last_append [cstr_simps]: "c \<notin> set t \<Longrightarrow> after_last c (s @ c # t) = Some t"
  by (simp add: after_last_def takeWhile_append)

text \<open>
  One call of \<open>strtok\<close>: leading delimiters are skipped, the token runs to the next delimiter
  and that one delimiter is consumed. \<open>None\<close> is the null pointer.
\<close>

definition strtok :: "char list \<Rightarrow> string \<Rightarrow> (string \<times> string) option" where
  "strtok ds s =
     (let t = dropWhile (\<lambda>c. c \<in> set ds) s
      in if t = [] then None
         else Some (takeWhile (\<lambda>c. c \<notin> set ds) t, drop 1 (dropWhile (\<lambda>c. c \<notin> set ds) t)))"

lemma strtok_shorter: "strtok ds s = Some (t, r) \<Longrightarrow> length r < length s"
proof -
  assume a: "strtok ds s = Some (t, r)"
  let ?t = "dropWhile (\<lambda>c. c \<in> set ds) s"
  from a have ne: "?t \<noteq> []" and r: "r = drop 1 (dropWhile (\<lambda>c. c \<notin> set ds) ?t)"
    by (auto simp: strtok_def Let_def split: if_splits)
  have "length (dropWhile (\<lambda>c. c \<notin> set ds) ?t) \<le> length ?t" by (rule length_dropWhile_le)
  moreover have "length ?t \<le> length s" by (rule length_dropWhile_le)
  moreover have "0 < length ?t" using ne by blast
  moreover have "length r = length (dropWhile (\<lambda>c. c \<notin> set ds) ?t) - 1" using r by (simp only: length_drop)
  ultimately show ?thesis by linarith
qed

text \<open>All tokens, as a loop of \<open>strtok(NULL, ds)\<close> calls sees them.\<close>

function strtok_all :: "char list \<Rightarrow> string \<Rightarrow> string list" where
  "strtok_all ds s = (case strtok ds s of None \<Rightarrow> [] | Some (t, r) \<Rightarrow> t # strtok_all ds r)"
  by pat_completeness auto
termination
  by (relation "measure (\<lambda>(ds, s). length s)") (auto intro: strtok_shorter)

declare strtok_all.simps [simp del]

lemma strtok_hit:
  "c \<notin> set ds \<Longrightarrow> set t \<inter> set ds = {} \<Longrightarrow> d \<in> set ds \<Longrightarrow> strtok ds (c # t @ d # s) = Some (c # t, s)"
  by (auto simp: strtok_def Let_def takeWhile_append dropWhile_append)

lemma strtok_last:
  "c \<notin> set ds \<Longrightarrow> set t \<inter> set ds = {} \<Longrightarrow> strtok ds (c # t) = Some (c # t, [])"
proof -
  assume a: "c \<notin> set ds" "set t \<inter> set ds = {}"
  then have "\<forall>x \<in> set (c # t). x \<notin> set ds" by auto
  then have "takeWhile (\<lambda>c. c \<notin> set ds) (c # t) = c # t"
    and "dropWhile (\<lambda>c. c \<notin> set ds) (c # t) = []"
    by (simp_all only: takeWhile_eq_all_conv dropWhile_eq_Nil_conv)
  moreover have "dropWhile (\<lambda>c. c \<in> set ds) (c # t) = c # t" using a by simp
  ultimately show ?thesis by (simp only: strtok_def Let_def) simp
qed

lemma strtok_skip: "d \<in> set ds \<Longrightarrow> strtok ds (d # s) = strtok ds s"
  by (simp add: strtok_def)

lemma strtok_empty [simp]: "strtok ds [] = None"
  by (simp add: strtok_def)

section \<open>Lines of a text file\<close>

text \<open>
  One call of \<open>fgets(buf, n, f)\<close> on the rest of a file: at most \<open>n - 1\<close> characters, up to
  and including a newline. The callers see the buffer as a C string.
\<close>

fun take_line :: "nat \<Rightarrow> string \<Rightarrow> string \<times> string" where
  "take_line 0 s = ([], s)"
| "take_line (Suc n) [] = ([], [])"
| "take_line (Suc n) (c # s) =
     (if c = CHR 0x0A then ([c], s) else (let (l, r) = take_line n s in (c # l, r)))"

lemma take_line_split: "take_line n s = (l, r) \<Longrightarrow> s = l @ r \<and> length l \<le> n"
  by (induction n s arbitrary: l r rule: take_line.induct) (auto split: if_splits prod.splits)

lemma take_line_progress: "take_line (Suc n) (c # s) = (l, r) \<Longrightarrow> length r \<le> length s"
  using take_line_split [of "Suc n" "c # s" l r]
  by (auto split: if_splits prod.splits)

lemma take_line_whole:
  "CHR 0x0A \<notin> set t \<Longrightarrow> length t < n \<Longrightarrow> take_line n (t @ CHR 0x0A # s) = (t @ [CHR 0x0A], s)"
proof (induction t arbitrary: n)
  case Nil
  then show ?case by (cases n) auto
next
  case (Cons c t)
  then show ?case by (cases n) auto
qed

text \<open>The lines a \<open>while (fgets(...))\<close> loop sees, for a buffer of \<open>n\<close> bytes.\<close>

function fgets_all :: "nat \<Rightarrow> string \<Rightarrow> string list" where
  "fgets_all n s =
     (if n \<le> 1 \<or> s = [] then []
      else (case take_line (n - 1) s of (l, r) \<Rightarrow> cstr l # fgets_all n r))"
  by pat_completeness auto
termination
proof (relation "measure (\<lambda>(n, s). length s)", goal_cases)
  case 1
  show ?case by simp
next
  case (2 n s l r)
  then have "s \<noteq> []" and "0 < n - 1" by auto
  then obtain c t m where s: "s = c # t" and n: "n - 1 = Suc m"
    by (meson gr0_conv_Suc neq_Nil_conv)
  with 2 have "take_line (Suc m) (c # t) = (l, r)" by simp
  then show ?case using s take_line_progress by (simp add: le_imp_less_Suc)
qed

declare fgets_all.simps [simp del]

lemma fgets_all_Nil [simp]: "fgets_all n [] = []"
  by (simp add: fgets_all.simps)

lemma fgets_all_line [cstr_simps]:
  assumes "CHR 0x0A \<notin> set t" and "CHR 0x00 \<notin> set t" and "Suc (length t) < n"
  shows "fgets_all n (t @ CHR 0x0A # s) = (t @ [CHR 0x0A]) # fgets_all n s"
proof -
  have "take_line (n - 1) (t @ CHR 0x0A # s) = (t @ [CHR 0x0A], s)"
    using assms by (intro take_line_whole) auto
  then show ?thesis using assms by (subst fgets_all.simps) auto
qed

text \<open>\<open>buffer[strcspn(buffer, "\\n")] = 0\<close>.\<close>

definition cut_newline :: "string \<Rightarrow> string" where
  "cut_newline s = takeWhile (\<lambda>c. c \<noteq> CHR 0x0A) s"

end
