(* ===== verification/Numbers.thy ===== *)
theory Numbers
  imports Prelude
begin

text \<open>
  Decimal and hexadecimal text, as \<^verbatim>\<open>printf\<close> writes it and \<^verbatim>\<open>atoi\<close>, \<^verbatim>\<open>strtol\<close>,
  \<^verbatim>\<open>strtoll\<close>, \<^verbatim>\<open>strtoul\<close> and \<^verbatim>\<open>strtoull\<close> read it, and the machine integers that lie in a
  sequence of bytes. The targets of the build are LP64 Linux systems: \<open>int\<close> has 32 bits,
  \<open>long\<close>, \<open>size_t\<close>, \<open>dev_t\<close> and pointers have 64. The byte order is an argument of the
  definitions that load integers from memory.
\<close>

section \<open>Digits\<close>

definition digit_char :: "nat \<Rightarrow> char" where
  "digit_char d = char_of (48 + d)"

definition is_digit :: "char \<Rightarrow> bool" where
  "is_digit c \<longleftrightarrow> 48 \<le> (of_char c :: nat) \<and> (of_char c :: nat) \<le> 57"

definition digit_val :: "char \<Rightarrow> nat" where
  "digit_val c = of_char c - 48"

definition is_space :: "char \<Rightarrow> bool" where
  "is_space c \<longleftrightarrow> of_char c = (32::nat) \<or> (9 \<le> (of_char c :: nat) \<and> (of_char c :: nat) \<le> 13)"

lemma of_char_digit_char [simp]: "d < 10 \<Longrightarrow> (of_char (digit_char d) :: nat) = 48 + d"
  by (simp add: digit_char_def)

lemma is_digit_digit_char [simp]: "d < 10 \<Longrightarrow> is_digit (digit_char d)"
  by (simp add: is_digit_def)

lemma digit_val_digit_char [simp]: "d < 10 \<Longrightarrow> digit_val (digit_char d) = d"
  by (simp add: digit_val_def)

lemma is_digit_not_space: "is_digit c \<Longrightarrow> \<not> is_space c"
  by (auto simp: is_digit_def is_space_def)

lemma digit_char_neq [simp]:
  assumes "d < 10" and "\<not> is_digit c"
  shows "digit_char d \<noteq> c" and "c \<noteq> digit_char d"
  using assms is_digit_digit_char by blast+

lemma not_digits [simp]:
  "\<not> is_digit (CHR '':'')" "\<not> is_digit (CHR '' '')" "\<not> is_digit (CHR 0x0A)"
  "\<not> is_digit (CHR 0x00)" "\<not> is_digit (CHR ''-'')" "\<not> is_digit (CHR ''+'')" "\<not> is_digit (CHR ''.'')"
  "\<not> is_digit (CHR 0x0D)" "\<not> is_digit (CHR ''/'')" "\<not> is_digit (CHR '','')"
  by (simp_all add: is_digit_def)

section \<open>Printing\<close>

fun dec_of_nat :: "nat \<Rightarrow> string" where
  "dec_of_nat n = (if n < 10 then [digit_char n] else dec_of_nat (n div 10) @ [digit_char (n mod 10)])"

declare dec_of_nat.simps [simp del]

text \<open>\<open>%d\<close>.\<close>

definition dec_of_int :: "int \<Rightarrow> string" where
  "dec_of_int i = (if i < 0 then CHR ''-'' # dec_of_nat (nat (- i)) else dec_of_nat (nat i))"

lemma dec_of_nat_nonempty [simp]: "dec_of_nat n \<noteq> []"
  by (subst dec_of_nat.simps) simp

lemma dec_of_nat_digits: "c \<in> set (dec_of_nat n) \<Longrightarrow> is_digit c"
proof (induction n rule: dec_of_nat.induct)
  case (1 n)
  then show ?case
    by (cases "n < 10") (auto simp: dec_of_nat.simps [of n])
qed

definition digits_val :: "string \<Rightarrow> nat" where
  "digits_val s = foldl (\<lambda>a c. 10 * a + digit_val c) 0 s"

lemma digits_val_snoc: "digits_val (s @ [c]) = 10 * digits_val s + digit_val c"
  by (simp add: digits_val_def)

lemma digits_val_dec_of_nat [simp]: "digits_val (dec_of_nat n) = n"
proof (induction n rule: dec_of_nat.induct)
  case (1 n)
  then show ?case
    by (cases "n < 10") (auto simp: dec_of_nat.simps [of n] digits_val_snoc, simp add: digits_val_def)
qed

lemma dec_of_nat_inject [simp]: "dec_of_nat m = dec_of_nat n \<longleftrightarrow> m = n"
  by (metis digits_val_dec_of_nat)

lemma dec_of_nat_length_le: "n < 10 ^ k \<Longrightarrow> 0 < k \<Longrightarrow> length (dec_of_nat n) \<le> k"
proof (induction k arbitrary: n)
  case 0
  then show ?case by simp
next
  case (Suc k)
  show ?case
  proof (cases "n < 10")
    case True
    then show ?thesis by (simp add: dec_of_nat.simps [of n])
  next
    case False
    with Suc.prems have "n div 10 < 10 ^ k" and "0 < k"
      by (auto simp: less_mult_imp_div_less mult.commute intro: gr0I)
    then have "length (dec_of_nat (n div 10)) \<le> k" by (rule Suc.IH)
    with False show ?thesis by (simp add: dec_of_nat.simps [of n])
  qed
qed

section \<open>Scanning\<close>

text \<open>
  The common shape of the \<open>strto*\<close> functions in base 10: white space, an optional sign, digits.
  The result is the sign, the digits and the text after them; with no digit the rest is the
  whole argument (\<open>endptr = nptr\<close>).
\<close>

definition scan_dec :: "string \<Rightarrow> bool \<times> string \<times> string" where
  "scan_dec s =
     (let t = dropWhile is_space s;
          (neg, u) = (case t of
              [] \<Rightarrow> (False, [])
            | c # u \<Rightarrow> if c = CHR ''-'' then (True, u) else if c = CHR ''+'' then (False, u) else (False, t));
          ds = takeWhile is_digit u
      in if ds = [] then (False, [], s) else (neg, ds, dropWhile is_digit u))"

definition scan_int :: "string \<Rightarrow> int" where
  "scan_int s = (case scan_dec s of (neg, ds, r) \<Rightarrow> if neg then - int (digits_val ds) else int (digits_val ds))"

text \<open>\<open>strtoll\<close> saturates at the ends of its range.\<close>

definition strtoll :: "string \<Rightarrow> int" where
  "strtoll s = max (- (2 ^ 63)) (min (2 ^ 63 - 1) (scan_int s))"

text \<open>\<open>strtoull\<close> and the 64-bit \<open>strtoul\<close>: saturate the magnitude, then apply the sign modulo \<open>2^64\<close>.\<close>

definition strtoull :: "string \<Rightarrow> 64 word" where
  "strtoull s =
     (case scan_dec s of (neg, ds, r) \<Rightarrow>
        if 2 ^ 64 \<le> digits_val ds then - 1
        else if neg then - of_nat (digits_val ds) else of_nat (digits_val ds))"

definition strto_end :: "string \<Rightarrow> string" where
  "strto_end s = (case scan_dec s of (neg, ds, r) \<Rightarrow> r)"

text \<open>\<open>atoi\<close> on a value outside \<open>int\<close> is undefined.\<close>

definition atoi :: "string \<Rightarrow> int res" where
  "atoi s = (let i = scan_int s in if - (2 ^ 31) \<le> i \<and> i < 2 ^ 31 then Inr i else Inl SignedOverflow)"

lemma takeWhile_digits_append:
  "(\<And>x. x \<in> set ds \<Longrightarrow> is_digit x) \<Longrightarrow> (r = [] \<or> \<not> is_digit (hd r)) \<Longrightarrow>
   takeWhile is_digit (ds @ r) = ds \<and> dropWhile is_digit (ds @ r) = r"
  by (induction ds) (cases r; auto)+

lemma scan_dec_digits:
  assumes ds: "\<And>x. x \<in> set ds \<Longrightarrow> is_digit x" and ne: "ds \<noteq> []" and r: "r = [] \<or> \<not> is_digit (hd r)"
  shows "scan_dec (ds @ r) = (False, ds, r)"
proof -
  obtain c t where c: "ds = c # t" using ne by (cases ds) auto
  then have dc: "is_digit c" using ds by simp
  then have 1: "dropWhile is_space (ds @ r) = ds @ r"
    using c by (simp add: is_digit_not_space)
  have 2: "c \<noteq> CHR ''-''" "c \<noteq> CHR ''+''" using dc by auto
  have "takeWhile is_digit (ds @ r) = ds \<and> dropWhile is_digit (ds @ r) = r"
    by (rule takeWhile_digits_append [OF ds r]) simp
  then show ?thesis using 1 2 c by (simp add: scan_dec_def Let_def)
qed

lemma scan_dec_dec_of_nat [simp]:
  "r = [] \<or> \<not> is_digit (hd r) \<Longrightarrow> scan_dec (dec_of_nat n @ r) = (False, dec_of_nat n, r)"
  by (rule scan_dec_digits) (auto dest: dec_of_nat_digits)

lemma scan_int_dec_of_nat [simp]:
  "r = [] \<or> \<not> is_digit (hd r) \<Longrightarrow> scan_int (dec_of_nat n @ r) = int n"
  by (simp add: scan_int_def)

lemma scan_int_dec_of_nat0 [simp]: "scan_int (dec_of_nat n) = int n"
  using scan_int_dec_of_nat [of "[]" n] by simp

lemma strtoull_dec_of_nat:
  "n < 2 ^ 64 \<Longrightarrow> r = [] \<or> \<not> is_digit (hd r) \<Longrightarrow> strtoull (dec_of_nat n @ r) = of_nat n"
  by (simp add: strtoull_def)

lemma strto_end_dec_of_nat:
  "r = [] \<or> \<not> is_digit (hd r) \<Longrightarrow> strto_end (dec_of_nat n @ r) = r"
  by (simp add: strto_end_def)

lemma atoi_dec_of_nat: "n < 2 ^ 31 \<Longrightarrow> atoi (dec_of_nat n) = Inr (int n)"
  by (simp add: atoi_def)

lemma scan_dec_dec_of_int:
  assumes "r = [] \<or> \<not> is_digit (hd r)"
  shows "scan_dec (dec_of_int i @ r) = (i < 0, dec_of_nat (nat \<bar>i\<bar>), r)"
proof (cases "i < 0")
  case False
  then show ?thesis using assms by (simp add: dec_of_int_def)
next
  case True
  have "takeWhile is_digit (dec_of_nat (nat (- i)) @ r) = dec_of_nat (nat (- i)) \<and>
        dropWhile is_digit (dec_of_nat (nat (- i)) @ r) = r"
    by (rule takeWhile_digits_append [OF _ assms]) (auto dest: dec_of_nat_digits)
  moreover have "\<not> is_space (CHR ''-'')" by (simp add: is_space_def)
  ultimately show ?thesis using True by (simp add: scan_dec_def dec_of_int_def)
qed

lemma strtoull_dec_of_int:
  assumes "r = [] \<or> \<not> is_digit (hd r)" and "\<bar>i\<bar> < 2 ^ 32"
  shows "strtoull (dec_of_int i @ r) = of_int i"
proof -
  have "nat \<bar>i\<bar> < 2 ^ 64" using assms(2) by simp
  then show ?thesis using assms by (auto simp: strtoull_def scan_dec_dec_of_int)
qed

text \<open>\<open>sscanf\<close>'s \<open>%[0-9]\<close>: a nonempty run of digits, with no white space skipped.\<close>

definition scan_digits :: "string \<Rightarrow> (string \<times> string) option" where
  "scan_digits s = (let ds = takeWhile is_digit s in if ds = [] then None else Some (ds, dropWhile is_digit s))"

lemma scan_digits_dec_of_nat [simp]:
  "r = [] \<or> \<not> is_digit (hd r) \<Longrightarrow> scan_digits (dec_of_nat n @ r) = Some (dec_of_nat n, r)"
  using takeWhile_digits_append [of "dec_of_nat n" r] dec_of_nat_digits
  by (simp add: scan_digits_def)

section \<open>Bytes\<close>

type_synonym byte = "8 word"
type_synonym u8 = "8 word"
type_synonym u16 = "16 word"
type_synonym u32 = "32 word"
type_synonym u64 = "64 word"

fun word_of_le :: "byte list \<Rightarrow> 'a::len word" where
  "word_of_le [] = 0"
| "word_of_le (b # bs) = ucast b OR push_bit 8 (word_of_le bs)"

definition word_of_be :: "byte list \<Rightarrow> 'a::len word" where
  "word_of_be bs = word_of_le (rev bs)"

text \<open>A load of an integer through a pointer, on a machine of the given byte order.\<close>

definition load_native :: "bool \<Rightarrow> byte list \<Rightarrow> 'a::len word" where
  "load_native big_endian bs = (if big_endian then word_of_be bs else word_of_le bs)"

fun le_of_word :: "nat \<Rightarrow> 'a::len word \<Rightarrow> byte list" where
  "le_of_word 0 w = []"
| "le_of_word (Suc n) w = ucast w # le_of_word n (drop_bit 8 w)"

lemma length_le_of_word [simp]: "length (le_of_word n w) = n"
  by (induction n arbitrary: w) auto

lemma word_of_le_le_of_word: "word_of_le (le_of_word n w) = take_bit (8 * n) w"
proof (induction n arbitrary: w)
  case 0
  then show ?case by simp
next
  case (Suc n)
  show ?case
    by (rule bit_word_eqI) (auto simp: Suc bit_simps not_le Suc_le_eq)
qed

lemma word_of_le_roundtrip [simp]:
  "LENGTH('a) \<le> 8 * n \<Longrightarrow> word_of_le (le_of_word n (w :: 'a::len word)) = w"
  by (simp add: word_of_le_le_of_word take_bit_word_eq_self)

text \<open>A read of \<open>n\<close> bytes at an offset of a buffer, with its bounds check.\<close>

definition read_at :: "byte list \<Rightarrow> nat \<Rightarrow> nat \<Rightarrow> byte list res" where
  "read_at bs off n = (if off + n \<le> length bs then Inr (take n (drop off bs)) else Inl OutOfBounds)"

lemma read_at_ok [simp, bytes_simps]: "off + n \<le> length bs \<Longrightarrow> read_at bs off n = Inr (take n (drop off bs))"
  by (simp add: read_at_def)

lemma read_at_Inr_iff: "read_at bs off n = Inr r \<longleftrightarrow> off + n \<le> length bs \<and> r = take n (drop off bs)"
  by (auto simp: read_at_def)

definition char_of_byte :: "byte \<Rightarrow> char" where
  "char_of_byte b = char_of (unat b)"

definition byte_of_char :: "char \<Rightarrow> byte" where
  "byte_of_char c = of_nat (of_char c)"

lemma byte_of_char_of_byte [simp]: "byte_of_char (char_of_byte b) = b"
proof -
  have "unat b < 256" using unsigned_less [of b] by simp
  then show ?thesis by (simp add: byte_of_char_def char_of_byte_def of_char_of)
qed

lemma char_of_byte_of_char [simp]: "char_of_byte (byte_of_char c) = c"
proof -
  have "(of_char c :: nat) < 256" using nat_of_char_less_256 [of c] by simp
  then show ?thesis by (simp add: byte_of_char_def char_of_byte_def unat_of_nat)
qed

lemma char_of_byte_inject [simp]: "char_of_byte a = char_of_byte b \<longleftrightarrow> a = b"
  by (metis byte_of_char_of_byte)

section \<open>Counters\<close>

lemma unat_add_1_if_less [bytes_simps]: "w < v \<Longrightarrow> unat (w + 1) = Suc (unat w)"
proof -
  assume "w < v"
  then have "unat w < unat v" by (simp add: word_less_nat_alt)
  also have "unat v < 2 ^ LENGTH('a)" by (rule unsigned_less)
  finally have "unat w + unat (1 :: 'a word) < 2 ^ LENGTH('a)"
    by (metis Suc_eq_plus1 \<open>unat v < 2 ^ LENGTH('a)\<close> \<open>unat w < unat v\<close> less_trans_Suc unsigned_1 add.commute less_eq_Suc_le order.strict_trans1)
  then show ?thesis by (simp add: unat_word_ariths)
qed

end
