(* ===== verification/Vectors.thy ===== *)
theory Vectors
  imports Numbers
begin

text \<open>
  The growable array of \<^verbatim>\<open>src/src/utils.c\<close> (\<open>struct Vector\<close>). The storage is the block that
  the allocator granted, one slot per \<open>uint64_t\<close>; a slot that no store has reached is
  \<open>None\<close>, and reading it is a fault. The allocator is an argument: \<open>alloc n\<close> says whether a
  request of \<open>n\<close> bytes succeeds. The operations refine lists: \<open>vector_list\<close> is the
  abstraction and \<open>vector_inv\<close> the invariant that every operation keeps.
\<close>

section \<open>The code\<close>

record Vector =
  vdata :: "u64 option list"
  vsize :: nat
  vcapacity :: nat

definition vector_init :: Vector where
  "vector_init = \<lparr>vdata = [], vsize = 0, vcapacity = 0\<rparr>"

text \<open>
  \<open>realloc\<close>: the old contents are kept up to the new length, the rest is indeterminate. The C
  libraries refuse a request above \<open>PTRDIFF_MAX\<close> bytes.
\<close>

definition realloc_slots :: "(nat \<Rightarrow> bool) \<Rightarrow> u64 option list \<Rightarrow> nat \<Rightarrow> u64 option list option" where
  "realloc_slots alloc d bytes =
     (let n = bytes div 8 in if bytes < 2 ^ 63 \<and> alloc bytes then Some (take n (d @ replicate n None)) else None)"

definition size_t :: "nat \<Rightarrow> nat" where
  "size_t n = n mod 2 ^ 64"

text \<open>\<open>vector->data[vector->size++] = value\<close>.\<close>

definition vector_store :: "Vector \<Rightarrow> u64 \<Rightarrow> Vector res" where
  "vector_store v x =
     (if vsize v < length (vdata v)
      then Inr (v\<lparr>vdata := (vdata v)[vsize v := Some x], vsize := vsize v + 1\<rparr>)
      else Inl BufferOverflow)"

definition vector_pushBack :: "(nat \<Rightarrow> bool) \<Rightarrow> Vector \<Rightarrow> u64 \<Rightarrow> Vector res" where
  "vector_pushBack alloc v x =
     (if vsize v = vcapacity v
      then (let newCapacity = (if vcapacity v = 0 then 1 else size_t (vcapacity v * 2))
            in case realloc_slots alloc (vdata v) (size_t (newCapacity * 8)) of
                 None \<Rightarrow> Inl (Exit 1)
               | Some newData \<Rightarrow> vector_store (v\<lparr>vdata := newData, vcapacity := newCapacity\<rparr>) x)
      else vector_store v x)"

text \<open>The casts of the pointer variants keep the 64-bit value.\<close>

definition vector_pushBackp :: "(nat \<Rightarrow> bool) \<Rightarrow> Vector \<Rightarrow> u64 \<Rightarrow> Vector res" where
  "vector_pushBackp alloc v value = vector_pushBack alloc v value"

definition vector_popBack :: "(nat \<Rightarrow> bool) \<Rightarrow> Vector \<Rightarrow> Vector" where
  "vector_popBack alloc v =
     (if vsize v > 0
      then (let v1 = v\<lparr>vsize := vsize v - 1\<rparr>
            in if vsize v1 \<le> vcapacity v1 div 4
               then (let newCapacity = vcapacity v1 div 2;
                         newData = realloc_slots alloc (vdata v1) (size_t (newCapacity * 8))
                     in if newData \<noteq> None \<or> newCapacity = 0
                        then v1\<lparr>vdata := (case newData of None \<Rightarrow> [] | Some d \<Rightarrow> d),
                                vcapacity := newCapacity\<rparr>
                        else v1)
               else v1)
      else v)"

definition vector_get :: "Vector \<Rightarrow> nat \<Rightarrow> u64 res" where
  "vector_get v index =
     (if index < vsize v
      then (if index < length (vdata v)
            then (case vdata v ! index of Some x \<Rightarrow> Inr x | None \<Rightarrow> Inl OutOfBounds)
            else Inl OutOfBounds)
      else Inl (Exit 1))"

definition vector_getp :: "Vector \<Rightarrow> nat \<Rightarrow> u64 res" where
  "vector_getp v index = vector_get v index"

text \<open>
  \<open>vector_free\<close> releases the items (when asked to) and the storage. The model returns the
  emptied vector and the addresses given to \<open>free\<close>, in order.
\<close>

definition vector_free :: "Vector \<Rightarrow> bool \<Rightarrow> Vector \<times> u64 option list" where
  "vector_free v freeitems =
     (vector_init, if freeitems \<and> vdata v \<noteq> [] then take (vsize v) (vdata v) else [])"

section \<open>Invariant and abstraction\<close>

definition vector_inv :: "Vector \<Rightarrow> bool" where
  "vector_inv v \<longleftrightarrow>
     vsize v \<le> vcapacity v \<and> length (vdata v) = vcapacity v \<and> vcapacity v * 8 < 2 ^ 63 \<and>
     list_all (\<lambda>x. x \<noteq> None) (take (vsize v) (vdata v))"

definition vector_list :: "Vector \<Rightarrow> u64 list" where
  "vector_list v = map the (take (vsize v) (vdata v))"

lemma vector_inv_init [simp]: "vector_inv vector_init" and vector_list_init [simp]: "vector_list vector_init = []"
  by (simp_all add: vector_inv_def vector_init_def vector_list_def)

lemma length_vector_list: "vector_inv v \<Longrightarrow> length (vector_list v) = vsize v"
  by (simp add: vector_inv_def vector_list_def)

lemma vector_store_ok:
  assumes "vsize v < length (vdata v)" and "list_all (\<lambda>x. x \<noteq> None) (take (vsize v) (vdata v))"
    and "length (vdata v) = vcapacity v" and "vcapacity v * 8 < 2 ^ 63"
  shows "\<exists>w. vector_store v x = Inr w \<and> vector_inv w \<and> vector_list w = vector_list v @ [x]"
  using assms
  by (simp add: vector_store_def vector_inv_def vector_list_def take_Suc_conv_app_nth)

lemma realloc_slots_Some:
  "realloc_slots alloc d bytes = Some d' \<Longrightarrow>
   bytes < 2 ^ 63 \<and> length d' = bytes div 8 \<and> (\<forall>k \<le> min (length d) (bytes div 8). take k d' = take k d)"
  by (auto simp: realloc_slots_def Let_def min_def split: if_splits)

lemma vector_pushBack_spec:
  assumes inv: "vector_inv v"
  shows "vector_pushBack alloc v x = Inl (Exit 1) \<or>
         (\<exists>w. vector_pushBack alloc v x = Inr w \<and> vector_inv w \<and> vector_list w = vector_list v @ [x])"
proof (cases "vsize v = vcapacity v")
  case False
  with inv show ?thesis
    using vector_store_ok [of v x] by (auto simp: vector_pushBack_def vector_inv_def)
next
  case True
  define n where "n = (if vcapacity v = 0 then 1 else vcapacity v * 2)"
  have small: "vcapacity v * 8 < 2 ^ 63" using inv by (simp add: vector_inv_def)
  then have n: "(if vcapacity v = 0 then 1 else size_t (vcapacity v * 2)) = n" "size_t (n * 8) = n * 8"
    by (auto simp: n_def size_t_def)
  show ?thesis
  proof (cases "realloc_slots alloc (vdata v) (n * 8)")
    case None
    then show ?thesis using True n by (simp add: vector_pushBack_def)
  next
    case (Some d)
    define v' where "v' = v\<lparr>vdata := d, vcapacity := n\<rparr>"
    from realloc_slots_Some [OF Some]
    have d: "n * 8 < 2 ^ 63" "length d = n" "\<forall>k \<le> min (length (vdata v)) n. take k d = take k (vdata v)"
      by auto
    have sz: "vsize v \<le> min (length (vdata v)) n" "vsize v < n"
      using inv True by (auto simp: vector_inv_def n_def)
    with d sz inv
    have "\<exists>w. vector_store v' x = Inr w \<and> vector_inv w \<and> vector_list w = vector_list v' @ [x]"
      by (intro vector_store_ok) (auto simp: v'_def vector_inv_def)
    moreover have "vector_list v' = vector_list v" using d(3) sz by (auto simp: v'_def vector_list_def)
    moreover have "vector_pushBack alloc v x = vector_store v' x"
      using True n Some by (simp add: vector_pushBack_def v'_def)
    ultimately show ?thesis by auto
  qed
qed

lemma vector_popBack_spec:
  assumes inv: "vector_inv v"
  shows "vector_inv (vector_popBack alloc v) \<and> vector_list (vector_popBack alloc v) = butlast (vector_list v)"
proof (cases "vsize v")
  case 0
  with inv show ?thesis by (simp add: vector_popBack_def vector_list_def)
next
  case (Suc k)
  define v1 where "v1 = v\<lparr>vsize := k\<rparr>"
  have l: "vector_list v1 = butlast (vector_list v)"
    using inv Suc by (simp add: v1_def vector_list_def vector_inv_def take_Suc_conv_app_nth map_butlast)
  have i: "vector_inv v1"
    using inv Suc by (auto simp: v1_def vector_inv_def take_Suc_conv_app_nth)
  define n where "n = vcapacity v div 2"
  have small: "size_t (n * 8) = n * 8" "n * 8 < 2 ^ 63"
    using inv by (auto simp: n_def size_t_def vector_inv_def)
  have shrink: "vector_inv (v1\<lparr>vdata := d, vcapacity := n\<rparr>) \<and>
      vector_list (v1\<lparr>vdata := d, vcapacity := n\<rparr>) = vector_list v1"
    if "k \<le> vcapacity v div 4" and "length d = n" and "\<forall>j \<le> min (length (vdata v)) n. take j d = take j (vdata v)" for d
  proof -
    have "k \<le> min (length (vdata v)) n" using that inv by (auto simp: n_def vector_inv_def)
    then show ?thesis using that i small by (auto simp: v1_def vector_inv_def vector_list_def)
  qed
  have nil: "n = 0 \<Longrightarrow> length [] = n \<and> (\<forall>j \<le> min (length (vdata v)) n. take j [] = take j (vdata v))" by simp
  have pop: "vector_popBack alloc v =
     (if k \<le> vcapacity v div 4
      then (if realloc_slots alloc (vdata v) (n * 8) \<noteq> None \<or> n = 0
            then v1\<lparr>vdata := (case realloc_slots alloc (vdata v) (n * 8) of None \<Rightarrow> [] | Some d \<Rightarrow> d),
                    vcapacity := n\<rparr> else v1) else v1)"
    using Suc small by (simp add: vector_popBack_def v1_def n_def Let_def)
  show ?thesis
    using i l shrink [OF _ conjunct1 [OF nil] conjunct2 [OF nil]] shrink realloc_slots_Some [of alloc "vdata v" "n * 8"]
    by (auto simp: pop split: option.splits)
qed

lemma vector_get_spec:
  assumes "vector_inv v"
  shows "vector_get v i = (if i < length (vector_list v) then Inr (vector_list v ! i) else Inl (Exit 1))"
proof (cases "i < vsize v")
  case True
  with assms have "i < length (vdata v)" and "vdata v ! i \<noteq> None"
    by (auto simp: vector_inv_def list_all_length)
  with True assms show ?thesis
    by (auto simp: vector_get_def vector_list_def length_vector_list)
next
  case False
  with assms show ?thesis by (simp add: vector_get_def length_vector_list)
qed

lemma vector_free_spec:
  assumes "vector_inv v"
  shows "vector_free v b = (vector_init, if b then map Some (vector_list v) else [])"
proof -
  have "map Some (vector_list v) = take (vsize v) (vdata v)"
    using assms unfolding vector_list_def vector_inv_def
    by (simp add: list_all_iff map_idI)
  then show ?thesis using assms
    by (auto simp: vector_free_def vector_inv_def)
qed

section \<open>The interface the rest of the program uses\<close>

text \<open>
  What the clients of the array rely on: pushes append, pops remove the last item, reads are
  checked, and the only fault is the \<open>exit(1)\<close> of a refused allocation or a bad index.
\<close>

locale growable =
  fixes empty :: "'v"
    and push :: "'v \<Rightarrow> 'x \<Rightarrow> 'v res"
    and pop :: "'v \<Rightarrow> 'v"
    and get :: "'v \<Rightarrow> nat \<Rightarrow> 'x res"
    and items :: "'v \<Rightarrow> 'x list"
    and invar :: "'v \<Rightarrow> bool"
  assumes empty_law: "invar empty \<and> items empty = []"
    and push_law: "invar v \<Longrightarrow> push v x = Inl (Exit 1) \<or>
          (\<exists>w. push v x = Inr w \<and> invar w \<and> items w = items v @ [x])"
    and pop_law: "invar v \<Longrightarrow> invar (pop v) \<and> items (pop v) = butlast (items v)"
    and get_law: "invar v \<Longrightarrow> get v i = (if i < length (items v) then Inr (items v ! i) else Inl (Exit 1))"
begin

lemma push_Inr: "invar v \<Longrightarrow> push v x = Inr w \<Longrightarrow> invar w \<and> items w = items v @ [x]"
  using push_law [of v x] by auto

lemma push_all: "invar v \<Longrightarrow> res_fold push v xs = Inr w \<Longrightarrow> invar w \<and> items w = items v @ xs"
proof (induction xs arbitrary: v)
  case Nil
  then show ?case by simp
next
  case (Cons x xs)
  then obtain u where u: "push v x = Inr u" "res_fold push u xs = Inr w"
    by (auto simp: and_then_eq_Inr)
  then have "invar u" "items u = items v @ [x]" using push_Inr Cons.prems(1) by blast+
  then show ?case using Cons.IH u(2) by fastforce
qed

lemma push_all_fault: "invar v \<Longrightarrow> res_fold push v xs = Inl e \<Longrightarrow> e = Exit 1"
proof (induction xs arbitrary: v)
  case Nil
  then show ?case by simp
next
  case (Cons x xs)
  then show ?case using push_law [OF Cons.prems(1), of x] by auto
qed

lemma push_all_get:
  "res_fold push empty xs = Inr w \<Longrightarrow> get w i = (if i < length xs then Inr (xs ! i) else Inl (Exit 1))"
  using push_all [of empty xs w] empty_law by (simp add: get_law)

lemma pop_push: "invar v \<Longrightarrow> push v x = Inr w \<Longrightarrow> items (pop w) = items v"
  using push_Inr [of v x w] by (simp add: pop_law)

end

interpretation vec: growable vector_init "vector_pushBack alloc" "vector_popBack alloc" vector_get vector_list vector_inv
  for alloc
  by unfold_locales
    (simp_all add: vector_pushBack_spec vector_popBack_spec vector_get_spec)

section \<open>Properties\<close>

text \<open>
  C30: building a vector by any sequence of \<open>vector_pushBack\<close> calls, with an allocator that may
  refuse any request, either ends in the \<open>exit(1)\<close> of a refused allocation or gives a vector
  from which \<open>vector_get\<close> returns exactly the pushed values, in order, and from which every
  index past the last one is refused; no store ever leaves the allocated block.
\<close>

theorem vector_push_get:
  "res_fold (vector_pushBack alloc) vector_init xs = Inl (Exit 1) \<or>
   (\<exists>v. res_fold (vector_pushBack alloc) vector_init xs = Inr v \<and> vector_inv v \<and>
        vsize v = length xs \<and>
        (\<forall>i. vector_get v i = (if i < length xs then Inr (xs ! i) else Inl (Exit 1))))"
proof (cases "res_fold (vector_pushBack alloc) vector_init xs")
  case (Inl e)
  then show ?thesis using vec.push_all_fault [OF vector_inv_init Inl] by simp
next
  case (Inr v)
  then have "vector_inv v" "vector_list v = xs"
    using vec.push_all [OF vector_inv_init Inr] by auto
  moreover from this have "vsize v = length xs" using length_vector_list by metis
  ultimately show ?thesis using Inr vec.push_all_get [OF Inr] by auto
qed

end
