(* ===== verification/Hash_Map.thy ===== *)
theory Hash_Map
  imports Numbers "HOL-Library.Multiset"
begin

text \<open>
  The chained hash table of \<^verbatim>\<open>src/src/map.c\<close>. A bucket is the list of the nodes reached from
  its head pointer. Node keys are C strings and node values are the copied value bytes, of any
  type \<open>'v\<close>. The allocator is an argument: \<open>map_newnode\<close> and \<open>map_resize\<close> ask whether a request of
  a size is granted, and \<open>map_set_\<close> passes each its own answer (request 0 is the \<open>malloc\<close> of the
  node, request 1 the \<open>realloc\<close> of the bucket array), so that a size may be granted at one
  request and refused at another. \<open>char_signed\<close> says
  whether plain \<open>char\<close> is signed on the target, which matters to \<open>map_hash\<close>. A reference into a
  chain (\<open>map_node_t **\<close>) is the pair of the bucket's index and the position in its chain.
  The source's names that end in an underscore (\<open>map_get_\<close>) end in a prime here.
\<close>

section \<open>The code\<close>

record 'v map_node_t =
  nhash :: u32
  nkey :: string
  nvalue :: 'v

record 'v map_base_t =
  buckets :: "'v map_node_t list list"
  nbuckets :: u32
  nnodes :: u32

definition map_init :: "'v map_base_t" where
  "map_init = \<lparr>buckets = [], nbuckets = 0, nnodes = 0\<rparr>"

definition char_value :: "bool \<Rightarrow> char \<Rightarrow> u32" where
  "char_value char_signed c = (if char_signed then scast (byte_of_char c) else ucast (byte_of_char c))"

fun map_hash_loop :: "bool \<Rightarrow> u32 \<Rightarrow> string \<Rightarrow> u32" where
  "map_hash_loop char_signed hash [] = hash"
| "map_hash_loop char_signed hash (c # str) =
     map_hash_loop char_signed ((push_bit 5 hash + hash) XOR char_value char_signed c) str"

definition map_hash :: "bool \<Rightarrow> string \<Rightarrow> u32" where
  "map_hash char_signed str = map_hash_loop char_signed 5381 str"

text \<open>
  The size of a node with its key and value: \<open>sizeof(map_node_t)\<close> is 24 with 8-byte pointers.
  The source computes \<open>ksize\<close> and \<open>voffset\<close> as \<open>int\<close>; the numbers here are exact, which is the same for
  keys shorter than \<open>2^31 - 8\<close> characters.
\<close>

definition map_node_bytes :: "string \<Rightarrow> nat \<Rightarrow> nat" where
  "map_node_bytes key vsize =
     (let ksize = length key + 1; voffset = ksize + nat ((8 - int ksize) mod 8) in 24 + voffset + vsize)"

definition map_newnode :: "bool \<Rightarrow> (nat \<Rightarrow> bool) \<Rightarrow> string \<Rightarrow> 'v \<Rightarrow> nat \<Rightarrow> 'v map_node_t option" where
  "map_newnode char_signed alloc key value vsize =
     (if alloc (map_node_bytes key vsize)
      then Some \<lparr>nhash = map_hash char_signed key, nkey = key, nvalue = value\<rparr> else None)"

definition map_bucketidx :: "'v map_base_t \<Rightarrow> u32 \<Rightarrow> nat" where
  "map_bucketidx m hash = unat (hash AND (nbuckets m - 1))"

definition map_addnode :: "'v map_base_t \<Rightarrow> 'v map_node_t \<Rightarrow> 'v map_base_t" where
  "map_addnode m node =
     (let n = map_bucketidx m (nhash node) in m\<lparr>buckets := (buckets m)[n := node # buckets m ! n]\<rparr>)"

text \<open>Chain all nodes together: the last bucket first, every node pushed on the front.\<close>

definition map_chain :: "'v map_base_t \<Rightarrow> 'v map_node_t list" where
  "map_chain m = fold (\<lambda>bucket nodes. fold (\<lambda>node chain. node # chain) bucket nodes) (rev (buckets m)) []"

text \<open>
  \<open>map_resize\<close>: \<open>nbuckets\<close> is an \<open>int\<close>, so a count of \<open>2^31\<close> or more arrives as a negative
  number whose product with the pointer size is beyond what \<open>realloc\<close> grants. When \<open>realloc\<close>
  fails the old bucket array is refilled and the result is \<open>-1\<close>.
\<close>

definition map_resize :: "(nat \<Rightarrow> bool) \<Rightarrow> 'v map_base_t \<Rightarrow> u32 \<Rightarrow> int \<times> 'v map_base_t" where
  "map_resize alloc m n =
     (let nodes = map_chain m;
          ok = (unat n < 2 ^ 31 \<and> alloc (8 * unat n));
          m1 = (if ok then m\<lparr>nbuckets := n\<rparr> else m);
          m2 = m1\<lparr>buckets := replicate (unat (nbuckets m1)) []\<rparr>
      in (if ok then 0 else - 1, fold (\<lambda>node m. map_addnode m node) nodes m2))"

fun find_node :: "u32 \<Rightarrow> string \<Rightarrow> 'v map_node_t list \<Rightarrow> nat option" where
  "find_node hash key [] = None"
| "find_node hash key (node # chain) =
     (if nhash node = hash \<and> nkey node = key then Some 0 else map_option Suc (find_node hash key chain))"

definition map_getref :: "bool \<Rightarrow> 'v map_base_t \<Rightarrow> string \<Rightarrow> (nat \<times> nat) option" where
  "map_getref char_signed m key =
     (let hash = map_hash char_signed key
      in if nbuckets m > 0
         then (let b = map_bucketidx m hash in map_option (\<lambda>i. (b, i)) (find_node hash key (buckets m ! b)))
         else None)"

definition map_get' :: "bool \<Rightarrow> 'v map_base_t \<Rightarrow> string \<Rightarrow> 'v option" where
  "map_get' char_signed m key =
     (case map_getref char_signed m key of None \<Rightarrow> None | Some (b, i) \<Rightarrow> Some (nvalue (buckets m ! b ! i)))"

definition map_set' :: "bool \<Rightarrow> (nat \<Rightarrow> nat \<Rightarrow> bool) \<Rightarrow> 'v map_base_t \<Rightarrow> string \<Rightarrow> 'v \<Rightarrow> nat \<Rightarrow> int \<times> 'v map_base_t" where
  "map_set' char_signed alloc m key value vsize =
     (case map_getref char_signed m key of
        Some (b, i) \<Rightarrow>
          (0, m\<lparr>buckets := (buckets m)[b := (buckets m ! b)[i := (buckets m ! b ! i)\<lparr>nvalue := value\<rparr>]]\<rparr>)
      | None \<Rightarrow>
          (case map_newnode char_signed (alloc 0) key value vsize of
             None \<Rightarrow> (- 1, m)
           | Some node \<Rightarrow>
               (let (err, m1) = (if nnodes m \<ge> nbuckets m
                                 then map_resize (alloc 1) m (if nbuckets m > 0 then push_bit 1 (nbuckets m) else 1)
                                 else (0, m))
                in if err \<noteq> 0 then (- 1, m1)
                   else (let m2 = map_addnode m1 node in (0, m2\<lparr>nnodes := nnodes m2 + 1\<rparr>)))))"

definition map_remove' :: "bool \<Rightarrow> 'v map_base_t \<Rightarrow> string \<Rightarrow> 'v map_base_t" where
  "map_remove' char_signed m key =
     (case map_getref char_signed m key of
        None \<Rightarrow> m
      | Some (b, i) \<Rightarrow>
          m\<lparr>buckets := (buckets m)[b := take i (buckets m ! b) @ drop (Suc i) (buckets m ! b)],
            nnodes := nnodes m - 1\<rparr>)"

text \<open>\<open>map_deinit_\<close>: the nodes handed to \<open>free\<close>, in order (the last bucket first).\<close>

definition map_deinit' :: "'v map_base_t \<Rightarrow> 'v map_node_t list" where
  "map_deinit' m = concat (rev (buckets m))"

text \<open>The iterator: \<open>inode\<close> is the chain that starts at the current node, \<open>[]\<close> for a null pointer.\<close>

record 'v map_iter_t =
  bucketidx :: u32
  inode :: "'v map_node_t list"

definition map_iter' :: "'v map_iter_t" where
  "map_iter' = \<lparr>bucketidx = - 1, inode = []\<rparr>"

function next_bucket :: "'v map_base_t \<Rightarrow> u32 \<Rightarrow> 'v map_iter_t" where
  "next_bucket m idx =
     (let idx' = idx + 1
      in if idx' \<ge> nbuckets m then \<lparr>bucketidx = idx', inode = []\<rparr>
         else if buckets m ! unat idx' = [] then next_bucket m idx'
         else \<lparr>bucketidx = idx', inode = buckets m ! unat idx'\<rparr>)"
  by pat_completeness auto
termination
proof (relation "measure (\<lambda>(m, idx). unat (nbuckets m) - unat (idx + 1))", goal_cases)
  case 1
  show ?case by simp
next
  case (2 m idx x)
  then have "idx + 1 < nbuckets m" by auto
  then have "unat (idx + 1) < unat (nbuckets m)" and "unat (idx + 1 + 1) = Suc (unat (idx + 1))"
    by (simp only: word_less_nat_alt, metis unat_add_1_if_less)
  with 2 show ?case by (simp only: in_measure case_prod_conv)
qed

declare next_bucket.simps [simp del]

definition map_next' :: "'v map_base_t \<Rightarrow> 'v map_iter_t \<Rightarrow> string option \<times> 'v map_iter_t" where
  "map_next' m iter =
     (let iter' = (case inode iter of
                     node # n # chain \<Rightarrow> iter\<lparr>inode := n # chain\<rparr>
                   | _ \<Rightarrow> next_bucket m (bucketidx iter))
      in case inode iter' of [] \<Rightarrow> (None, iter') | node # chain \<Rightarrow> (Some (nkey node), iter'))"

section \<open>Invariant and abstraction\<close>

definition nodes_of :: "'v map_base_t \<Rightarrow> 'v map_node_t multiset" where
  "nodes_of m = mset (concat (buckets m))"

definition entries_of :: "'v map_base_t \<Rightarrow> (string \<times> 'v) list" where
  "entries_of m = map (\<lambda>n. (nkey n, nvalue n)) (concat (buckets m))"

definition map_abs :: "'v map_base_t \<Rightarrow> string \<rightharpoonup> 'v" where
  "map_abs m = map_of (entries_of m)"

text \<open>Every node lies in the bucket of its key's hash, which it carries.\<close>

definition well_placed :: "bool \<Rightarrow> 'v map_base_t \<Rightarrow> bool" where
  "well_placed char_signed m \<longleftrightarrow>
     length (buckets m) = unat (nbuckets m) \<and>
     (nbuckets m = 0 \<or> (\<exists>k \<le> 30. nbuckets m = 2 ^ k)) \<and>
     (\<forall>i < length (buckets m). \<forall>n \<in> set (buckets m ! i).
        nhash n = map_hash char_signed (nkey n) \<and> map_bucketidx m (map_hash char_signed (nkey n)) = i)"

definition map_inv :: "bool \<Rightarrow> 'v map_base_t \<Rightarrow> bool" where
  "map_inv char_signed m \<longleftrightarrow>
     well_placed char_signed m \<and> distinct (map nkey (concat (buckets m))) \<and>
     unat (nnodes m) = length (concat (buckets m)) \<and> nnodes m \<le> nbuckets m"

lemma unat_pow2 [simp]: "k \<le> 31 \<Longrightarrow> unat (2 ^ k :: u32) = 2 ^ k"
proof -
  assume "k \<le> 31"
  then have "(2::nat) ^ k < 2 ^ 32" by (intro power_strict_increasing) auto
  moreover have "(2 ^ k :: u32) = of_nat (2 ^ k)" by simp
  ultimately show ?thesis by (simp only: unat_of_nat len_num1 mod_less) simp
qed

lemma map_bucketidx_bound:
  assumes "well_placed sg m" and "nbuckets m \<noteq> 0"
  shows "map_bucketidx m h < length (buckets m)"
proof -
  from assms obtain k where k: "k \<le> 30" "nbuckets m = 2 ^ k" by (auto simp: well_placed_def)
  have "h AND (2 ^ k - 1) = take_bit k h" by (simp add: take_bit_eq_mask mask_eq_exp_minus_1)
  then have "unat (h AND (2 ^ k - 1)) < 2 ^ k" by (simp add: unsigned_take_bit_eq)
  then show ?thesis using assms(1) k by (simp add: map_bucketidx_def well_placed_def)
qed

lemma mset_concat_update:
  "i < length bs \<Longrightarrow> mset (concat (bs[i := b])) + mset (bs ! i) = mset (concat bs) + mset b"
proof (induction bs arbitrary: i)
  case Nil
  then show ?case by simp
next
  case (Cons a bs)
  then show ?case by (cases i) (simp_all add: ac_simps)
qed

lemma well_placed_update:
  assumes "well_placed sg m" and "i < length (buckets m)"
    and "\<And>n. n \<in> set b \<Longrightarrow> nhash n = map_hash sg (nkey n) \<and> map_bucketidx m (map_hash sg (nkey n)) = i"
  shows "well_placed sg (m\<lparr>buckets := (buckets m)[i := b]\<rparr>)"
proof -
  let ?m = "m\<lparr>buckets := (buckets m)[i := b]\<rparr>"
  have idx: "map_bucketidx ?m = map_bucketidx m" by (simp add: map_bucketidx_def fun_eq_iff)
  have "nhash n = map_hash sg (nkey n) \<and> map_bucketidx m (map_hash sg (nkey n)) = j"
    if "j < length (buckets m)" and "n \<in> set ((buckets m)[i := b] ! j)" for j n
  proof (cases "j = i")
    case True
    then have "n \<in> set b" using that assms(2) by simp
    then show ?thesis using assms(3) True by blast
  next
    case False
    then have "n \<in> set (buckets m ! j)" using that by simp
    then show ?thesis using that(1) assms(1) unfolding well_placed_def by blast
  qed
  then show ?thesis using assms(1) unfolding well_placed_def idx by simp
qed

lemma map_addnode_spec:
  assumes "well_placed sg m" and "nbuckets m \<noteq> 0" and "nhash node = map_hash sg (nkey node)"
  shows "well_placed sg (map_addnode m node)" and "nodes_of (map_addnode m node) = add_mset node (nodes_of m)"
    and "nbuckets (map_addnode m node) = nbuckets m" and "nnodes (map_addnode m node) = nnodes m"
proof -
  let ?n = "map_bucketidx m (nhash node)"
  have n: "?n < length (buckets m)" by (rule map_bucketidx_bound [OF assms(1,2)])
  have old: "\<And>x. x \<in> set (buckets m ! ?n) \<Longrightarrow> nhash x = map_hash sg (nkey x) \<and> map_bucketidx m (map_hash sg (nkey x)) = ?n"
    using assms(1) n unfolding well_placed_def by blast
  show "well_placed sg (map_addnode m node)"
    unfolding map_addnode_def Let_def
  proof (rule well_placed_update [OF assms(1) n])
    fix x assume "x \<in> set (node # buckets m ! ?n)"
    then show "nhash x = map_hash sg (nkey x) \<and> map_bucketidx m (map_hash sg (nkey x)) = ?n"
      using old assms(3) by auto
  qed
  show "nodes_of (map_addnode m node) = add_mset node (nodes_of m)"
    using mset_concat_update [OF n, of "node # buckets m ! ?n"]
    by (simp add: map_addnode_def nodes_of_def Let_def)
qed (simp_all add: map_addnode_def Let_def)

lemma fold_map_addnode:
  assumes "well_placed sg m" and "nbuckets m \<noteq> 0 \<or> ns = []" and "\<And>n. n \<in> set ns \<Longrightarrow> nhash n = map_hash sg (nkey n)"
  shows "well_placed sg (fold (\<lambda>n m. map_addnode m n) ns m) \<and>
         nodes_of (fold (\<lambda>n m. map_addnode m n) ns m) = mset ns + nodes_of m \<and>
         nbuckets (fold (\<lambda>n m. map_addnode m n) ns m) = nbuckets m \<and>
         nnodes (fold (\<lambda>n m. map_addnode m n) ns m) = nnodes m"
  using assms
proof (induction ns arbitrary: m)
  case Nil
  then show ?case by simp
next
  case (Cons n ns)
  then have nz: "nbuckets m \<noteq> 0" and h: "nhash n = map_hash sg (nkey n)" by auto
  note step = map_addnode_spec [OF Cons.prems(1) nz h]
  show ?case using Cons.IH [OF step(1)] Cons.prems(3) nz step by auto
qed

lemma mset_map_chain: "mset (map_chain m) = nodes_of m"
proof -
  have cons: "fold (\<lambda>x c. x # c) b ns = rev b @ ns" for b ns :: "'a map_node_t list"
    by (induction b arbitrary: ns) auto
  have "mset (fold (\<lambda>b ns. fold (\<lambda>x c. x # c) b ns) bs ns) = mset (concat bs) + mset ns" for bs and ns :: "'a map_node_t list"
    by (induction bs arbitrary: ns) (auto simp: cons)
  then have "mset (map_chain m) = mset (concat (rev (buckets m)))" by (simp add: map_chain_def)
  also have "mset (concat (rev bs)) = mset (concat bs)" for bs :: "'a map_node_t list list"
    by (induction bs) auto
  finally show ?thesis by (simp add: nodes_of_def)
qed

lemma well_placed_hash: "well_placed sg m \<Longrightarrow> n \<in># nodes_of m \<Longrightarrow> nhash n = map_hash sg (nkey n)"
  unfolding well_placed_def nodes_of_def set_mset_mset set_concat by (metis UN_E in_set_conv_nth)

text \<open>The abstraction depends on the nodes only, not on where they lie.\<close>

lemma map_abs_cong:
  assumes "nodes_of m = nodes_of m'" and "distinct (map nkey (concat (buckets m)))"
  shows "map_abs m = map_abs m' \<and> distinct (map nkey (concat (buckets m')))"
proof -
  have "mset (map nkey (concat (buckets m))) = mset (map nkey (concat (buckets m')))"
    using assms(1) by (simp add: nodes_of_def)
  then have d: "distinct (map nkey (concat (buckets m')))"
    using assms(2) by (metis mset_eq_imp_distinct_iff)
  have "set (concat (buckets m)) = set (concat (buckets m'))"
    using assms(1) unfolding nodes_of_def by (rule mset_eq_setD)
  then have "set (entries_of m) = set (entries_of m')" by (simp add: entries_of_def)
  moreover have "map fst (entries_of n) = map nkey (concat (buckets n))" for n :: "'a map_base_t"
    by (simp add: entries_of_def)
  ultimately show ?thesis using assms(2) d
    by (simp add: map_abs_def map_of_inject_set)
qed

section \<open>The operations against the abstraction\<close>

lemma find_node_Some:
  "find_node h k c = Some i \<Longrightarrow> i < length c \<and> nhash (c ! i) = h \<and> nkey (c ! i) = k"
  by (induction c arbitrary: i) (auto split: if_splits)

lemma find_node_None:
  "find_node h k c = None \<longleftrightarrow> (\<forall>n \<in> set c. \<not> (nhash n = h \<and> nkey n = k))"
  by (induction c) auto

lemma map_getref_Some:
  assumes "well_placed sg m" and "map_getref sg m key = Some (b, i)"
  shows "b < length (buckets m) \<and> i < length (buckets m ! b) \<and> nkey (buckets m ! b ! i) = key"
  using assms map_bucketidx_bound [OF assms(1)] find_node_Some
  by (fastforce simp: map_getref_def Let_def split: if_splits)

lemma map_getref_None:
  assumes "well_placed sg m"
  shows "map_getref sg m key = None \<longleftrightarrow> (\<forall>n \<in># nodes_of m. nkey n \<noteq> key)"
proof (cases "nbuckets m = 0")
  case True
  with assms show ?thesis by (simp add: map_getref_def well_placed_def nodes_of_def)
next
  case False
  let ?b = "map_bucketidx m (map_hash sg key)"
  have b: "?b < length (buckets m)" by (rule map_bucketidx_bound [OF assms False])
  have "map_getref sg m key = None \<longleftrightarrow> (\<forall>n \<in> set (buckets m ! ?b). \<not> (nhash n = map_hash sg key \<and> nkey n = key))"
    using False by (simp add: map_getref_def Let_def find_node_None word_gt_0)
  also have "\<dots> \<longleftrightarrow> (\<forall>n \<in> set (concat (buckets m)). nkey n \<noteq> key)"
  proof (intro iffI ballI)
    fix n assume a: "\<forall>n \<in> set (buckets m ! ?b). \<not> (nhash n = map_hash sg key \<and> nkey n = key)"
      and n: "n \<in> set (concat (buckets m))"
    from n obtain j where j: "j < length (buckets m)" "n \<in> set (buckets m ! j)"
      unfolding set_concat by (metis UN_E in_set_conv_nth)
    then have "nhash n = map_hash sg (nkey n)" "map_bucketidx m (map_hash sg (nkey n)) = j"
      using assms unfolding well_placed_def by blast+
    then show "nkey n \<noteq> key" using a j by metis
  qed (use b in auto)
  finally show ?thesis by (simp add: nodes_of_def)
qed

lemma nodes_at: "b < length (buckets m) \<Longrightarrow> i < length (buckets m ! b) \<Longrightarrow> buckets m ! b ! i \<in> set (concat (buckets m))"
  by (auto intro!: nth_mem)

lemma map_abs_Some_iff:
  assumes "distinct (map nkey (concat (buckets m)))"
  shows "map_abs m k = Some v \<longleftrightarrow> (\<exists>n \<in> set (concat (buckets m)). nkey n = k \<and> nvalue n = v)"
proof -
  have "distinct (map fst (entries_of m))" using assms by (simp add: entries_of_def comp_def)
  then have "map_abs m k = Some v \<longleftrightarrow> (k, v) \<in> set (entries_of m)"
    by (simp add: map_abs_def)
  then show ?thesis by (auto simp: entries_of_def)
qed

lemma map_abs_None_iff: "map_abs m k = None \<longleftrightarrow> (\<forall>n \<in># nodes_of m. nkey n \<noteq> k)"
proof -
  have "map_abs m k = None \<longleftrightarrow> k \<notin> nkey ` set (concat (buckets m))"
    by (simp add: map_abs_def entries_of_def map_of_eq_None_iff image_image del: set_concat)
  then show ?thesis by (auto simp: nodes_of_def)
qed

lemma map_get_spec:
  assumes "map_inv sg m"
  shows "map_get' sg m key = map_abs m key"
proof (cases "map_getref sg m key")
  case None
  then show ?thesis
    using assms map_getref_None [of sg m key] map_abs_None_iff [of m key]
    by (simp add: map_get'_def map_inv_def)
next
  case (Some bi)
  obtain b i where bi: "bi = (b, i)" by (cases bi)
  have g: "b < length (buckets m)" "i < length (buckets m ! b)" "nkey (buckets m ! b ! i) = key"
    using map_getref_Some [of sg m key b i] assms Some bi by (auto simp: map_inv_def)
  have "map_abs m key = Some (nvalue (buckets m ! b ! i))"
    using map_abs_Some_iff [of m key] nodes_at [OF g(1,2)] g(3) assms unfolding map_inv_def by blast
  then show ?thesis using Some bi by (simp add: map_get'_def)
qed

text \<open>One node of the table, with what stands before and after it in the concatenation.\<close>

lemma concat_split_at:
  assumes "b < length bs" and "i < length (bs ! b)"
  shows "\<exists>pre post. concat bs = pre @ bs ! b ! i # post \<and>
           (\<forall>x. concat (bs[b := (bs ! b)[i := x]]) = pre @ x # post) \<and>
           concat (bs[b := take i (bs ! b) @ drop (Suc i) (bs ! b)]) = pre @ post"
proof -
  let ?pre = "concat (take b bs) @ take i (bs ! b)"
  let ?post = "drop (Suc i) (bs ! b) @ concat (drop (Suc b) bs)"
  have up: "concat (bs[b := c]) = concat (take b bs) @ c @ concat (drop (Suc b) bs)" for c
    using assms(1) by (simp add: upd_conv_take_nth_drop)
  have "concat bs = ?pre @ bs ! b ! i # ?post"
    using up [of "bs ! b"] assms id_take_nth_drop [of i "bs ! b"] by simp
  moreover have "\<forall>x. concat (bs[b := (bs ! b)[i := x]]) = ?pre @ x # ?post"
    using assms(2) by (simp add: up upd_conv_take_nth_drop)
  moreover have "concat (bs[b := take i (bs ! b) @ drop (Suc i) (bs ! b)]) = ?pre @ ?post"
    by (simp add: up)
  ultimately show ?thesis by blast
qed

lemma map_of_middle:
  "nkey n \<notin> nkey ` set pre \<Longrightarrow>
   map_of (map (\<lambda>n. (nkey n, nvalue n)) (pre @ n # post)) =
   (map_of (map (\<lambda>n. (nkey n, nvalue n)) (pre @ post)))(nkey n \<mapsto> nvalue n)"
  by (induction pre) (auto simp: fun_eq_iff)

lemma well_placed_bucket:
  "well_placed sg m \<Longrightarrow> b < length (buckets m) \<Longrightarrow> n \<in> set (buckets m ! b) \<Longrightarrow>
   nhash n = map_hash sg (nkey n) \<and> map_bucketidx m (map_hash sg (nkey n)) = b"
  unfolding well_placed_def by blast

lemma map_set_existing:
  assumes inv: "map_inv sg m" and ref: "map_getref sg m key = Some (b, i)"
    and m'_def: "m' = m\<lparr>buckets := (buckets m)[b := (buckets m ! b)[i := (buckets m ! b ! i)\<lparr>nvalue := v\<rparr>]]\<rparr>"
  shows "map_inv sg m' \<and> map_abs m' = (map_abs m)(key \<mapsto> v)"
proof -
  let ?n = "buckets m ! b ! i"
  have g: "b < length (buckets m)" "i < length (buckets m ! b)" "nkey ?n = key"
    using map_getref_Some [OF _ ref] inv by (auto simp: map_inv_def)
  from concat_split_at [OF g(1,2)] obtain pre post where
    c: "concat (buckets m) = pre @ ?n # post" "concat (buckets m') = pre @ ?n\<lparr>nvalue := v\<rparr> # post"
    unfolding m'_def by auto
  have keys: "map nkey (concat (buckets m')) = map nkey (concat (buckets m))" using c by simp
  have "well_placed sg m'"
    unfolding m'_def
  proof (rule well_placed_update)
    show "well_placed sg m" "b < length (buckets m)" using inv g by (auto simp: map_inv_def)
    fix n assume "n \<in> set ((buckets m ! b)[i := ?n\<lparr>nvalue := v\<rparr>])"
    then have "n \<in> set (buckets m ! b) \<or> n = ?n\<lparr>nvalue := v\<rparr>"
      using set_update_subset_insert by fastforce
    then show "nhash n = map_hash sg (nkey n) \<and> map_bucketidx m (map_hash sg (nkey n)) = b"
      using well_placed_bucket [of sg m b] inv g unfolding map_inv_def by auto
  qed
  then have "map_inv sg m'" using inv keys c unfolding map_inv_def by (simp add: m'_def)
  moreover have "key \<notin> nkey ` set pre"
    using inv c(1) g(3) unfolding map_inv_def by auto
  then have "map_abs m' = (map_abs m)(key \<mapsto> v)"
    using g(3) map_of_middle [of ?n pre post] map_of_middle [of "?n\<lparr>nvalue := v\<rparr>" pre post]
    by (simp add: map_abs_def entries_of_def c del: map_append)
  ultimately show ?thesis by simp
qed

lemma map_remove_spec:
  assumes inv: "map_inv sg m"
  shows "map_inv sg (map_remove' sg m key) \<and> map_abs (map_remove' sg m key) = (map_abs m)(key := None)"
proof (cases "map_getref sg m key")
  case None
  then have "map_abs m key = None" using map_get_spec [OF inv, of key] by (simp add: map_get'_def)
  then show ?thesis using None inv by (simp add: map_remove'_def fun_upd_idem)
next
  case (Some bi)
  obtain b i where bi: "bi = (b, i)" by (cases bi)
  let ?n = "buckets m ! b ! i"
  let ?c = "take i (buckets m ! b) @ drop (Suc i) (buckets m ! b)"
  define m' where "m' = m\<lparr>buckets := (buckets m)[b := ?c]\<rparr>"
  have rem: "map_remove' sg m key = m'\<lparr>nnodes := nnodes m - 1\<rparr>"
    using Some bi by (simp add: map_remove'_def m'_def)
  have g: "b < length (buckets m)" "i < length (buckets m ! b)" "nkey ?n = key"
    using map_getref_Some [of sg m key b i] Some bi inv by (auto simp: map_inv_def)
  from concat_split_at [OF g(1,2)] obtain pre post where
    c: "concat (buckets m) = pre @ ?n # post" "concat (buckets m') = pre @ post"
    unfolding m'_def by auto
  have wp: "well_placed sg m'"
    unfolding m'_def
  proof (rule well_placed_update)
    show "well_placed sg m" "b < length (buckets m)" using inv g by (auto simp: map_inv_def)
    fix n assume "n \<in> set ?c"
    then have "n \<in> set (buckets m ! b)" by (auto dest: in_set_takeD in_set_dropD)
    then show "nhash n = map_hash sg (nkey n) \<and> map_bucketidx m (map_hash sg (nkey n)) = b"
      using well_placed_bucket [of sg m b] inv g unfolding map_inv_def by auto
  qed
  have cnt: "unat (nnodes m) = Suc (length (pre @ post))" using inv c unfolding map_inv_def by simp
  then have nz: "1 \<le> nnodes m" by (simp add: word_le_nat_alt)
  then have dec: "unat (nnodes m - 1) = unat (nnodes m) - 1" by (simp add: unat_sub)
  have "nnodes m \<le> nbuckets m" using inv unfolding map_inv_def by blast
  then have le: "nnodes m - 1 \<le> nbuckets m" using dec by (simp add: word_le_nat_alt)
  have d: "distinct (map nkey (pre @ ?n # post))" using inv c(1) unfolding map_inv_def by simp
  have wp': "well_placed sg (map_remove' sg m key)"
    using wp unfolding rem well_placed_def by (simp add: map_bucketidx_def)
  have "map_inv sg (map_remove' sg m key)"
    using wp' d cnt dec le c(2) by (simp add: map_inv_def rem) (simp add: m'_def)
  moreover have "map_abs m' = (map_abs m)(key := None)"
  proof -
    have "key \<notin> nkey ` set pre" and "key \<notin> nkey ` set (pre @ post)" using d g(3) by auto
    then have "map_abs m = (map_of (map (\<lambda>n. (nkey n, nvalue n)) (pre @ post)))(key \<mapsto> nvalue ?n)"
      and "map_of (map (\<lambda>n. (nkey n, nvalue n)) (pre @ post)) key = None"
      using g(3) map_of_middle [of ?n pre post]
      by (auto simp: map_abs_def entries_of_def c image_image map_of_eq_None_iff simp del: map_append)
    then show ?thesis by (simp add: map_abs_def entries_of_def c fun_upd_idem)
  qed
  ultimately show ?thesis by (simp add: rem map_abs_def entries_of_def)
qed

lemma map_resize_spec:
  assumes inv: "map_inv sg m" and n: "n = 2 ^ k" "k \<le> 31" and res: "map_resize alloc m n = (err, m')"
  shows "well_placed sg m' \<and> nodes_of m' = nodes_of m \<and> nnodes m' = nnodes m \<and>
         (err = 0 \<and> k \<le> 30 \<and> nbuckets m' = n \<and> alloc (8 * unat n) \<or>
          err = - 1 \<and> nbuckets m' = nbuckets m \<and> \<not> (k \<le> 30 \<and> alloc (8 * unat n)))"
proof -
  define ok where "ok = (unat n < 2 ^ 31 \<and> alloc (8 * unat n))"
  define m2 where "m2 = m\<lparr>nbuckets := (if ok then n else nbuckets m),
     buckets := replicate (unat (if ok then n else nbuckets m)) []\<rparr>"
  have k: "k \<le> 30 \<longleftrightarrow> unat n < 2 ^ 31"
  proof -
    have "unat n = 2 ^ k" using n by simp
    then show ?thesis using power_less_imp_less_exp [of "2::nat" k 31] power_strict_increasing [of k 31 "2::nat"]
      by (cases "k \<le> 30") (auto simp: less_Suc_eq_le)
  qed
  have wp: "well_placed sg m2"
    using inv n k by (auto simp: m2_def ok_def well_placed_def map_inv_def)
  have nz: "nbuckets m2 \<noteq> 0 \<or> map_chain m = []"
  proof (cases "nbuckets m2 = 0")
    case True
    then have "nbuckets m = 0" using n by (auto simp: m2_def split: if_splits simp flip: unat_eq_0)
    then have "nodes_of m = {#}" using inv by (simp add: nodes_of_def map_inv_def well_placed_def)
    then show ?thesis using mset_map_chain [of m] by simp
  qed simp
  have h: "\<And>x. x \<in> set (map_chain m) \<Longrightarrow> nhash x = map_hash sg (nkey x)"
    using well_placed_hash [of sg m] inv mset_map_chain [of m] unfolding map_inv_def
    by (metis set_mset_mset)
  have eq: "err = (if ok then 0 else - 1)" "m' = fold (\<lambda>x m. map_addnode m x) (map_chain m) m2"
    using res by (auto simp: map_resize_def Let_def ok_def m2_def split: if_splits)
  have "nodes_of m2 = {#}" by (simp add: nodes_of_def m2_def)
  then show ?thesis
    using fold_map_addnode [OF wp nz h] k by (auto simp: eq mset_map_chain ok_def) (auto simp: m2_def ok_def)
qed

lemma map_grow:
  assumes inv: "map_inv sg m" and full: "nbuckets m \<le> nnodes m"
    and res: "map_resize alloc m (if nbuckets m > 0 then push_bit 1 (nbuckets m) else 1) = (err, m1)"
  shows "err = 0 \<and> map_inv sg m1 \<and> nnodes m1 < nbuckets m1 \<and> map_abs m1 = map_abs m \<and> nodes_of m1 = nodes_of m \<or>
         err = - 1 \<and> map_inv sg m1 \<and> map_abs m1 = map_abs m"
proof -
  let ?n = "if nbuckets m > 0 then push_bit 1 (nbuckets m) else 1"
  obtain k where k: "?n = 2 ^ k" "k \<le> 31" "unat (nbuckets m) < 2 ^ k"
  proof (cases "nbuckets m = 0")
    case True
    then show thesis using that [of 0] by simp
  next
    case False
    then obtain j where j: "j \<le> 30" "nbuckets m = 2 ^ j" using inv by (auto simp: map_inv_def well_placed_def)
    have "push_bit 1 (2 ^ j :: u32) = 2 ^ Suc j" by (simp add: push_bit_eq_mult)
    then show thesis using that [of "Suc j"] j False by (simp add: word_gt_0)
  qed
  note r = map_resize_spec [OF inv k(1,2) res]
  have d: "distinct (map nkey (concat (buckets m)))" using inv unfolding map_inv_def by blast
  have abs: "map_abs m1 = map_abs m" "distinct (map nkey (concat (buckets m1)))"
    using map_abs_cong [OF _ d, of m1] r by auto
  have cnt: "length (concat (buckets m1)) = length (concat (buckets m))"
    using r unfolding nodes_of_def by (metis size_mset)
  have le: "unat (nnodes m) \<le> unat (nbuckets m)"
    using inv unfolding map_inv_def by (simp add: word_le_nat_alt)
  have i: "nnodes m1 \<le> nbuckets m1 \<Longrightarrow> map_inv sg m1"
    using r abs cnt inv unfolding map_inv_def by metis
  show ?thesis
  proof (cases "err = 0")
    case True
    then have "nbuckets m1 = 2 ^ k" "nnodes m1 = nnodes m" using r k(1) by auto
    then have "nnodes m1 < nbuckets m1" using le k by (simp add: word_less_nat_alt)
    then show ?thesis using True i r abs by auto
  next
    case False
    then have "nbuckets m1 = nbuckets m" "nnodes m1 = nnodes m" "err = - 1" using r by auto
    then show ?thesis using i le abs by (simp add: word_le_nat_alt)
  qed
qed

lemma map_insert_new:
  assumes inv: "map_inv sg m" and room: "nnodes m < nbuckets m" and new: "map_abs m key = None"
    and node: "node = \<lparr>nhash = map_hash sg key, nkey = key, nvalue = v\<rparr>"
    and m': "m' = (map_addnode m node)\<lparr>nnodes := nnodes (map_addnode m node) + 1\<rparr>"
  shows "map_inv sg m' \<and> map_abs m' = (map_abs m)(key \<mapsto> v)"
proof -
  have nz: "nbuckets m \<noteq> 0" using room by auto
  have wp: "well_placed sg m" using inv unfolding map_inv_def by blast
  have h: "nhash node = map_hash sg (nkey node)" by (simp add: node)
  note add = map_addnode_spec [OF wp nz h]
  have ns: "mset (concat (buckets m')) = add_mset node (mset (concat (buckets m)))"
    using add(2) by (simp add: nodes_of_def m')
  have fresh: "key \<notin> nkey ` set (concat (buckets m))"
    using new map_abs_None_iff [of m key] by (auto simp: nodes_of_def)
  have "mset (map nkey (concat (buckets m'))) = mset (map nkey (node # concat (buckets m)))"
    using ns by simp
  moreover have "distinct (map nkey (node # concat (buckets m)))"
    using fresh inv unfolding map_inv_def by (simp add: node del: set_concat)
  ultimately have d: "distinct (map nkey (concat (buckets m')))"
    by (metis mset_eq_imp_distinct_iff)
  have cnt: "unat (nnodes m') = length (concat (buckets m'))"
    using arg_cong [OF ns, of size] inv room add(4) unfolding map_inv_def
    by (simp add: m' unat_add_1_if_less)
  have le: "nnodes m' \<le> nbuckets m'"
    using room add by (simp add: m' word_less_nat_alt word_le_nat_alt unat_add_1_if_less [OF room])
  have "well_placed sg m'" using add(1) unfolding m' well_placed_def by (simp add: map_bucketidx_def)
  then have "map_inv sg m'" using d cnt le unfolding map_inv_def by blast
  moreover have "map_abs m' = (map_abs m)(key \<mapsto> v)"
  proof -
    have "set (concat (buckets m')) = insert node (set (concat (buckets m)))"
      using arg_cong [OF ns, of set_mset] by (simp only: set_mset_mset set_mset_add_mset_insert)
    then have "map_abs m' = map_of (map (\<lambda>n. (nkey n, nvalue n)) (node # concat (buckets m)))"
      using d fresh inv unfolding map_abs_def entries_of_def map_inv_def
      by (intro map_of_inject_set [THEN iffD2]) (auto simp: node comp_def)
    then show ?thesis by (simp add: node map_abs_def entries_of_def)
  qed
  ultimately show ?thesis by simp
qed

lemma map_set_spec:
  assumes inv: "map_inv sg m" and res: "map_set' sg alloc m key v vsize = (r, m')"
  shows "map_inv sg m' \<and> (r = 0 \<and> map_abs m' = (map_abs m)(key \<mapsto> v) \<or> r = - 1 \<and> map_abs m' = map_abs m)"
proof (cases "map_getref sg m key")
  case (Some bi)
  obtain b i where "bi = (b, i)" by (cases bi)
  then show ?thesis using map_set_existing [OF inv, of key b i m' v] Some res by (auto simp: map_set'_def)
next
  case None
  then have new: "map_abs m key = None" using map_get_spec [OF inv, of key] by (simp add: map_get'_def)
  let ?n = "if nbuckets m > 0 then push_bit 1 (nbuckets m) else 1"
  show ?thesis
  proof (cases "alloc 0 (map_node_bytes key vsize)")
    case False
    then show ?thesis using None res inv by (auto simp: map_set'_def map_newnode_def)
  next
    case True
    define node where "node = \<lparr>nhash = map_hash sg key, nkey = key, nvalue = v\<rparr>"
    obtain err m1 where grow: "(if nnodes m \<ge> nbuckets m then map_resize (alloc 1) m ?n else (0, m)) = (err, m1)"
      by (cases "if nnodes m \<ge> nbuckets m then map_resize (alloc 1) m ?n else (0, m)")
    have out: "(r, m') = (if err \<noteq> 0 then (- 1, m1)
        else (0, (map_addnode m1 node)\<lparr>nnodes := nnodes (map_addnode m1 node) + 1\<rparr>))"
      using res None True grow by (auto simp: map_set'_def map_newnode_def node_def Let_def split: if_splits)
    have m1: "err = 0 \<and> map_inv sg m1 \<and> nnodes m1 < nbuckets m1 \<and> map_abs m1 = map_abs m \<or>
              err = - 1 \<and> map_inv sg m1 \<and> map_abs m1 = map_abs m"
    proof (cases "nbuckets m \<le> nnodes m")
      case True
      then show ?thesis using map_grow [OF inv True] grow by auto
    next
      case False
      then show ?thesis using grow inv by auto
    qed
    then show ?thesis using out map_insert_new [of sg m1 key node v m'] new node_def by auto
  qed
qed

section \<open>Iteration\<close>

text \<open>The nodes an iterator has not yet returned.\<close>

definition iter_rest :: "'v map_base_t \<Rightarrow> 'v map_iter_t \<Rightarrow> 'v map_node_t list" where
  "iter_rest m it = tl (inode it) @ concat (drop (unat (bucketidx it + 1)) (buckets m))"

lemma next_bucket_spec:
  assumes "length (buckets m) = unat (nbuckets m)"
  shows "if inode (next_bucket m idx) = [] then concat (drop (unat (idx + 1)) (buckets m)) = []
         else concat (drop (unat (idx + 1)) (buckets m)) =
              hd (inode (next_bucket m idx)) # iter_rest m (next_bucket m idx)"
  using assms
proof (induction m idx rule: next_bucket.induct)
  case (1 m idx)
  define j where "j = idx + 1"
  show ?case
  proof (cases "nbuckets m \<le> j")
    case True
    then have "length (buckets m) \<le> unat j" using 1(2) by (simp add: word_le_nat_alt)
    then show ?thesis using True by (simp add: next_bucket.simps [of m idx] Let_def flip: j_def)
  next
    case False
    then have lt: "unat j < length (buckets m)" and sj: "unat (j + 1) = Suc (unat j)"
      using 1(2) by (auto simp: word_le_nat_alt not_le word_less_nat_alt intro: unat_add_1_if_less)
    then have split: "drop (unat j) (buckets m) = buckets m ! unat j # drop (unat (j + 1)) (buckets m)"
      by (simp add: Cons_nth_drop_Suc)
    show ?thesis
    proof (cases "buckets m ! unat j = []")
      case True
      then have "next_bucket m idx = next_bucket m j"
        using False by (simp add: next_bucket.simps [of m idx] Let_def flip: j_def)
      moreover have "concat (drop (unat j) (buckets m)) = concat (drop (unat (j + 1)) (buckets m))"
        using True split by simp
      ultimately show ?thesis using 1(1) [OF j_def] 1(2) True False
        unfolding j_def [symmetric] by metis
    next
      case ne: False
      then have "next_bucket m idx = \<lparr>bucketidx = j, inode = buckets m ! unat j\<rparr>"
        using False by (simp add: next_bucket.simps [of m idx] Let_def flip: j_def)
      then show ?thesis using ne split by (simp add: iter_rest_def flip: j_def)
    qed
  qed
qed

lemma map_next_spec:
  assumes "length (buckets m) = unat (nbuckets m)"
  shows "case iter_rest m it of
           [] \<Rightarrow> fst (map_next' m it) = None
         | n # ns \<Rightarrow> fst (map_next' m it) = Some (nkey n) \<and> iter_rest m (snd (map_next' m it)) = ns"
proof -
  have nb: "tl (inode it) = [] \<Longrightarrow> ?thesis"
  proof -
    assume t: "tl (inode it) = []"
    then have "map_next' m it = (let it' = next_bucket m (bucketidx it)
        in case inode it' of [] \<Rightarrow> (None, it') | node # chain \<Rightarrow> (Some (nkey node), it'))"
      by (cases "inode it" rule: remdups_adj.cases) (auto simp: map_next'_def)
    moreover have "iter_rest m it = concat (drop (unat (bucketidx it + 1)) (buckets m))"
      using t by (simp add: iter_rest_def)
    ultimately show ?thesis
      using next_bucket_spec [OF assms, of "bucketidx it"]
      by (cases "inode (next_bucket m (bucketidx it))") (simp_all add: Let_def del: concat_eq_Nil_conv)
  qed
  show ?thesis
  proof (cases "tl (inode it)")
    case Nil
    then show ?thesis by (rule nb)
  next
    case (Cons n ns)
    then obtain a where "inode it = a # n # ns" by (cases "inode it") auto
    then show ?thesis by (simp add: map_next'_def iter_rest_def Let_def)
  qed
qed

text \<open>The results of a number of successive calls of \<open>map_next_\<close>.\<close>

fun iter_calls :: "nat \<Rightarrow> 'v map_base_t \<Rightarrow> 'v map_iter_t \<Rightarrow> string option list" where
  "iter_calls 0 m it = []"
| "iter_calls (Suc n) m it = (case map_next' m it of (k, it') \<Rightarrow> k # iter_calls n m it')"

lemma iter_calls_spec:
  assumes "length (buckets m) = unat (nbuckets m)"
  shows "iter_calls (Suc (length (iter_rest m it))) m it = map (\<lambda>n. Some (nkey n)) (iter_rest m it) @ [None]"
proof (induction "iter_rest m it" arbitrary: it)
  case Nil
  then show ?case using map_next_spec [OF assms, of it] by (auto simp flip: Nil split: prod.splits)
next
  case (Cons n ns)
  then have *: "fst (map_next' m it) = Some (nkey n)" "iter_rest m (snd (map_next' m it)) = ns"
    using map_next_spec [OF assms, of it] by (auto split: list.splits)
  then have "iter_calls (Suc (length ns)) m (snd (map_next' m it)) = map (\<lambda>n. Some (nkey n)) ns @ [None]"
    using Cons(1) [of "snd (map_next' m it)"] by simp
  then show ?case using * by (simp flip: Cons(2) split: prod.splits) (cases "map_next' m it", simp)
qed

section \<open>The interface\<close>

text \<open>
  A dictionary whose insertions may be refused: what a client sees after each operation.
\<close>

locale dictionary =
  fixes empty :: "'m"
    and lookup :: "'m \<Rightarrow> 'k \<Rightarrow> 'v option"
    and insert :: "'m \<Rightarrow> 'k \<Rightarrow> 'v \<Rightarrow> int \<times> 'm"
    and delete :: "'m \<Rightarrow> 'k \<Rightarrow> 'm"
    and abs :: "'m \<Rightarrow> 'k \<rightharpoonup> 'v"
    and invar :: "'m \<Rightarrow> bool"
  assumes empty_law: "invar empty \<and> abs empty = Map.empty"
    and lookup_law: "invar m \<Longrightarrow> lookup m k = abs m k"
    and insert_law: "invar m \<Longrightarrow> insert m k v = (r, m') \<Longrightarrow>
          invar m' \<and> (r = 0 \<and> abs m' = (abs m)(k \<mapsto> v) \<or> r = - 1 \<and> abs m' = abs m)"
    and delete_law: "invar m \<Longrightarrow> invar (delete m k) \<and> abs (delete m k) = (abs m)(k := None)"
begin

lemma lookup_insert:
  assumes "invar m" and "insert m k v = (0, m')"
  shows "lookup m' k' = (if k' = k then Some v else lookup m k')"
  using insert_law [OF assms] assms(1) by (auto simp: lookup_law)

lemma lookup_refused:
  assumes "invar m" and "insert m k v = (r, m')" and "r \<noteq> 0"
  shows "lookup m' k' = lookup m k'"
  using insert_law [OF assms(1,2)] assms(1,3) by (auto simp: lookup_law)

lemma lookup_delete: "invar m \<Longrightarrow> lookup (delete m k) k' = (if k' = k then None else lookup m k')"
  using delete_law [of m k] by (auto simp: lookup_law)

end

lemma map_init_spec [simp]: "map_inv sg map_init" "map_abs map_init = Map.empty"
  by (simp_all add: map_inv_def well_placed_def map_init_def map_abs_def entries_of_def)

interpretation table: dictionary map_init "map_get' char_signed" "\<lambda>m k v. map_set' char_signed alloc m k v vsize"
    "map_remove' char_signed" map_abs "map_inv char_signed"
  for char_signed alloc vsize
  by unfold_locales (simp_all add: map_get_spec map_set_spec map_remove_spec)

section \<open>Properties\<close>

text \<open>
  A client's calls, and the dictionary they should leave given what each call returned. The
  allocator of a run answers by the number of the call, the request within the call and the size.
\<close>

datatype 'v map_op = SetOp string 'v | RemoveOp string

fun map_run :: "bool \<Rightarrow> (nat \<Rightarrow> nat \<Rightarrow> nat \<Rightarrow> bool) \<Rightarrow> nat \<Rightarrow> 'v map_op list \<Rightarrow> 'v map_base_t \<Rightarrow> int list \<times> 'v map_base_t" where
  "map_run sg alloc vsize [] m = ([], m)"
| "map_run sg alloc vsize (SetOp k v # ops) m =
     (let (r, m1) = map_set' sg (alloc 0) m k v vsize; (rs, m2) = map_run sg (\<lambda>call. alloc (Suc call)) vsize ops m1
      in (r # rs, m2))"
| "map_run sg alloc vsize (RemoveOp k # ops) m =
     (let (rs, m2) = map_run sg (\<lambda>call. alloc (Suc call)) vsize ops (map_remove' sg m k) in (0 # rs, m2))"

fun dict_run :: "'v map_op list \<Rightarrow> int list \<Rightarrow> (string \<rightharpoonup> 'v) \<Rightarrow> (string \<rightharpoonup> 'v)" where
  "dict_run (SetOp k v # ops) (r # rs) d = dict_run ops rs (if r = 0 then d(k \<mapsto> v) else d)"
| "dict_run (RemoveOp k # ops) (r # rs) d = dict_run ops rs (d(k := None))"
| "dict_run _ _ d = d"

lemma map_run_spec:
  "map_inv sg m \<Longrightarrow> map_run sg alloc vsize ops m = (rs, m') \<Longrightarrow>
   map_inv sg m' \<and> map_abs m' = dict_run ops rs (map_abs m)"
proof (induction ops arbitrary: alloc m rs)
  case Nil
  then show ?case by simp
next
  case (Cons op ops)
  let ?alloc = "\<lambda>call. alloc (Suc call)"
  show ?case
  proof (cases op)
    case (SetOp k v)
    obtain r m1 where 1: "map_set' sg (alloc 0) m k v vsize = (r, m1)" by fastforce
    obtain rs' where rs: "rs = r # rs'" "map_run sg ?alloc vsize ops m1 = (rs', m')"
      using Cons.prems(2) 1 by (auto simp: SetOp split: prod.splits)
    note law = table.insert_law [OF Cons.prems(1) 1]
    then have "map_inv sg m' \<and> map_abs m' = dict_run ops rs' (map_abs m1)" using Cons.IH rs(2) by blast
    then show ?thesis using law rs(1) by (auto simp: SetOp)
  next
    case (RemoveOp k)
    obtain rs' where rs: "rs = 0 # rs'" "map_run sg ?alloc vsize ops (map_remove' sg m k) = (rs', m')"
      using Cons.prems(2) by (auto simp: RemoveOp split: prod.splits)
    then show ?thesis using Cons.IH [of "map_remove' sg m k" ?alloc rs'] table.delete_law [OF Cons.prems(1), of k]
      by (simp add: RemoveOp fun_upd_def)
  qed
qed

text \<open>
  C5: for every sequence of \<open>map_set_\<close> and \<open>map_remove_\<close> calls on an empty table, whatever
  the allocator answers to each single request (it may grant a size in one call and refuse it in
  another, or grant a node and refuse the bucket array), \<open>map_get_\<close> afterwards answers as the dictionary that
  takes over exactly the sets that returned 0, and the table invariant (every node in the
  bucket of its hash, keys distinct, the count exact, a power of two of buckets, at most one
  node per bucket on average) holds.
\<close>

theorem map_run_refines:
  "map_inv char_signed (snd (map_run char_signed alloc vsize ops map_init)) \<and>
   map_get' char_signed (snd (map_run char_signed alloc vsize ops map_init)) =
   dict_run ops (fst (map_run char_signed alloc vsize ops map_init)) Map.empty"
proof -
  obtain rs m where r: "map_run char_signed alloc vsize ops map_init = (rs, m)" by fastforce
  from map_run_spec [OF _ this] have "map_inv char_signed m" "map_abs m = dict_run ops rs Map.empty" by auto
  then show ?thesis using r table.lookup_law [of char_signed m] by (simp add: fun_eq_iff)
qed

text \<open>
  An insertion is refused only for lack of memory or at the maximal table size: when the
  allocator grants the request and the table holds fewer than \<open>2^30\<close> nodes, \<open>map_set_\<close>
  returns 0 and the key is bound to the new value.
\<close>

theorem map_set_succeeds:
  assumes "map_inv char_signed m" and "unat (nnodes m) < 2 ^ 30"
  shows "fst (map_set' char_signed (\<lambda>_ _. True) m key v vsize) = 0 \<and>
         map_get' char_signed (snd (map_set' char_signed (\<lambda>_ _. True) m key v vsize)) key = Some v"
proof -
  obtain r m' where s: "map_set' char_signed (\<lambda>_ _. True) m key v vsize = (r, m')" by fastforce
  have "r = 0"
  proof (cases "map_getref char_signed m key = None \<and> nbuckets m \<le> nnodes m")
    case False
    then show ?thesis using s by (auto simp: map_set'_def map_newnode_def Let_def split: option.splits)
  next
    case True
    let ?n = "if nbuckets m > 0 then push_bit 1 (nbuckets m) else 1"
    have "unat (nbuckets m) < 2 ^ 30" using True assms(2) by (simp add: word_le_nat_alt)
    then have "unat ?n < 2 ^ 31" by (simp add: push_bit_eq_mult unat_word_ariths)
    then have "fst (map_resize (\<lambda>_. True) m ?n) = 0" by (simp add: map_resize_def Let_def)
    then show ?thesis using s True
      by (auto simp: map_set'_def map_newnode_def Let_def split: prod.splits if_splits)
  qed
  then show ?thesis using s table.lookup_insert [of char_signed m "\<lambda>_ _. True" key v vsize m'] assms(1) by simp
qed

theorem map_set_succeeds_witness:
  "map_get' True (snd (map_set' True (\<lambda>_ _. True) map_init ''eth0'' (7::nat) 4)) ''eth0'' = Some 7"
  using map_set_succeeds [of True "map_init :: nat map_base_t" "''eth0''" 7 4] by (simp add: map_init_def [THEN arg_cong [of _ _ nnodes]])

text \<open>
  iterating with \<open>map_iter_\<close> and \<open>map_next_\<close> visits every node exactly once: on a table
  that satisfies the invariant the calls return the keys of all nodes, which are distinct and
  are the domain of the dictionary, and then a null pointer.
\<close>

theorem map_iteration_complete:
  assumes "map_inv char_signed m"
  shows "\<exists>ks. iter_calls (Suc (unat (nnodes m))) m map_iter' = map Some ks @ [None] \<and>
              distinct ks \<and> set ks = dom (map_get' char_signed m)"
proof (intro exI conjI)
  let ?ks = "map nkey (concat (buckets m))"
  have len: "length (buckets m) = unat (nbuckets m)" and cnt: "unat (nnodes m) = length (concat (buckets m))"
    using assms unfolding map_inv_def well_placed_def by blast+
  have "iter_rest m map_iter' = concat (buckets m)" by (simp add: iter_rest_def map_iter'_def)
  then show "iter_calls (Suc (unat (nnodes m))) m map_iter' = map Some ?ks @ [None]"
    using iter_calls_spec [OF len, of map_iter'] by (simp add: cnt)
  show "distinct ?ks" using assms unfolding map_inv_def by blast
  have "map_get' char_signed m = map_abs m" using map_get_spec [OF assms] by (simp add: fun_eq_iff)
  then show "set ?ks = dom (map_get' char_signed m)"
    by (simp add: map_abs_def entries_of_def dom_map_of_conv_image_fst image_image)
qed

theorem map_iteration_complete_witness:
  "let m = snd (map_run True (\<lambda>_ _ _. True) 4 [SetOp ''lo'' (1::nat), SetOp ''eth0'' 2] map_init)
   in \<exists>ks. iter_calls (Suc (unat (nnodes m))) m map_iter' = map Some ks @ [None] \<and>
           distinct ks \<and> set ks = dom (map_get' True m)"
  unfolding Let_def
  by (rule map_iteration_complete) (rule conjunct1 [OF map_run_spec [OF _ prod.collapse [symmetric]]], simp)

end
