(* ===== verification/Byte_Order.thy ===== *)
theory Byte_Order
  imports Numbers
begin

text \<open>
  The byte-order helpers of \<^verbatim>\<open>src/src/fs.h\<close> and \<open>isBigEndian\<close> of \<^verbatim>\<open>src/src/utils.c\<close>. The byte
  order of the machine is the argument \<open>be\<close> (true: big endian). The lemmas show that on either
  kind of machine the code reads the on-disk byte order: \<open>from_be16\<close>, \<open>from_be32\<close> and
  \<open>from_be64\<close> of a native load are the big-endian value of the bytes, and a swap on a
  big-endian machine gives the little-endian value.
\<close>

section \<open>Byte order helpers (fs.h)\<close>

definition ext2fs_swab16 :: "u16 \<Rightarrow> u16" where
  "ext2fs_swab16 val = drop_bit 8 val OR push_bit 8 val"

definition ext2fs_swab32 :: "u32 \<Rightarrow> u32" where
  "ext2fs_swab32 val =
     drop_bit 24 val OR (drop_bit 8 val AND 0xFF00) OR (push_bit 8 val AND 0xFF0000) OR push_bit 24 val"

definition ext2fs_swab64 :: "u64 \<Rightarrow> u64" where
  "ext2fs_swab64 val =
     ucast (ext2fs_swab32 (ucast (drop_bit 32 val))) OR
     push_bit 32 (ucast (ext2fs_swab32 (ucast (val AND 0xFFFFFFFF))))"

text \<open>\<open>isBigEndian\<close> of utils.c: the first byte in memory of the \<open>int\<close> 1 is zero.\<close>

definition store_native :: "bool \<Rightarrow> nat \<Rightarrow> 'a::len word \<Rightarrow> byte list" where
  "store_native be n w = (if be then rev (le_of_word n w) else le_of_word n w)"

definition isBigEndian :: "bool \<Rightarrow> bool" where
  "isBigEndian be \<longleftrightarrow> hd (store_native be 4 (1 :: u32)) = 0"

definition from_be16 :: "bool \<Rightarrow> u16 \<Rightarrow> u16" where
  "from_be16 be val = (if isBigEndian be then val else drop_bit 8 val OR push_bit 8 val)"

definition from_be32 :: "bool \<Rightarrow> u32 \<Rightarrow> u32" where
  "from_be32 be val =
     (if isBigEndian be then val
      else drop_bit 24 val OR (drop_bit 8 val AND 0xFF00) OR (push_bit 8 val AND 0xFF0000) OR push_bit 24 val)"

definition from_be64 :: "bool \<Rightarrow> u64 \<Rightarrow> u64" where
  "from_be64 be val = (if isBigEndian be then val else ext2fs_swab64 val)"

section \<open>Bit positions under a swap\<close>

lemma isBigEndian_iff [simp]: "isBigEndian be \<longleftrightarrow> be"
  by (cases be) (simp_all add: isBigEndian_def store_native_def numeral_eq_Suc)

lemma bit_word_of_le:
  "bit (word_of_le bs :: 'a::len word) n \<longleftrightarrow> n < LENGTH('a) \<and> n div 8 < length bs \<and> bit (bs ! (n div 8)) (n mod 8)"
proof (induction bs arbitrary: n)
  case Nil
  then show ?case by simp
next
  case (Cons b bs)
  show ?case
  proof (cases "n < 8")
    case True
    then show ?thesis by (auto simp: bit_simps)
  next
    case False
    then have "n div 8 = Suc ((n - 8) div 8)" "(n - 8) mod 8 = n mod 8" by (auto simp: le_div_geq le_mod_geq)
    moreover have "\<not> bit b n" using False bit_imp_le_length [of b n] by auto
    ultimately show ?thesis using False by (auto simp: bit_simps Cons)
  qed
qed

lemma bit_swab16:
  "n < 16 \<Longrightarrow> bit (ext2fs_swab16 w) n \<longleftrightarrow> bit w (8 * (1 - n div 8) + n mod 8)"
proof -
  assume n: "n < 16"
  define q r where "q = n div 8" and "r = n mod 8"
  have eq: "n = 8 * q + r" "r < 8" "q < 2" using n by (auto simp: q_def r_def)
  then show ?thesis
    by (auto simp: ext2fs_swab16_def bit_simps less_2_cases_iff dest: bit_imp_le_length)
qed

lemma masks32: "(0xFF00 :: u32) = push_bit 8 (mask 8)" "(0xFF0000 :: u32) = push_bit 16 (mask 8)"
  by (simp_all add: mask_eq_exp_minus_1)

lemma bit_swab32:
  "n < 32 \<Longrightarrow> bit (ext2fs_swab32 w) n \<longleftrightarrow> bit w (8 * (3 - n div 8) + n mod 8)"
proof -
  assume n: "n < 32"
  define q r where "q = n div 8" and "r = n mod 8"
  have eq: "n = 8 * q + r" "r < 8" "q < 4" using n by (auto simp: q_def r_def)
  have q: "q = 0 \<or> q = 1 \<or> q = 2 \<or> q = 3" using eq by auto
  then show ?thesis using eq(2) unfolding ext2fs_swab32_def masks32 eq(1)
    by (auto simp: bit_simps dest: bit_imp_le_length)
qed

lemma bit_swab64:
  "n < 64 \<Longrightarrow> bit (ext2fs_swab64 w) n \<longleftrightarrow> bit w (8 * (7 - n div 8) + n mod 8)"
proof -
  assume n: "n < 64"
  have m: "(0xFFFFFFFF :: u64) = mask 32" by (simp add: mask_eq_exp_minus_1)
  show ?thesis
  proof (cases "n < 32")
    case True
    define X where "X = 8 * (3 - n div 8) + n mod 8"
    have q: "n div 8 \<le> 3" "n mod 8 < 8" using True by auto
    have Y: "8 * (7 - n div 8) + n mod 8 = 32 + X" using q unfolding X_def by linarith
    have X: "X < 32" using q unfolding X_def by linarith
    have sw: "bit (ext2fs_swab32 v) n = bit v X" for v using bit_swab32 True by (simp add: X_def)
    show ?thesis unfolding Y using True X
      by (simp only: ext2fs_swab64_def m bit_or_iff bit_push_bit_iff bit_ucast_iff sw bit_drop_bit_eq bit_and_iff bit_mask_iff)
         (simp add: bit_simps)
  next
    case False
    then obtain k where k: "n = 32 + k" "k < 32" using n by (metis add_diff_inverse_nat less_diff_conv2 not_less numeral_Bit0 add.commute nat_add_left_cancel_less)
    define X where "X = 8 * (3 - k div 8) + k mod 8"
    have dm: "n div 8 = 4 + k div 8" "n mod 8 = k mod 8" unfolding k by presburger+
    have q: "k div 8 \<le> 3" "k mod 8 < 8" using k by auto
    have Y: "8 * (7 - n div 8) + n mod 8 = X" using q unfolding X_def dm by linarith
    have X: "X < 32" using q unfolding X_def by linarith
    have sw: "bit (ext2fs_swab32 v) k = bit v X" for v using bit_swab32 k by (simp add: X_def)
    show ?thesis unfolding Y unfolding k(1) using X k(2)
      by (auto simp: ext2fs_swab64_def m bit_simps sw dest: bit_imp_le_length)
  qed
qed

text \<open>A byte swap turns the big-endian reading of bytes into the little-endian one.\<close>

lemma swab_generic:
  fixes sw :: "'a::len word \<Rightarrow> 'a word"
  assumes "\<And>n w. n < LENGTH('a) \<Longrightarrow> bit (sw w) n \<longleftrightarrow> bit w (8 * (k - 1 - n div 8) + n mod 8)"
    and "LENGTH('a) = 8 * k" and "length bs = k"
  shows "sw (word_of_be bs) = word_of_le bs" and "sw (word_of_le bs) = word_of_be bs"
proof -
  have idx: "n div 8 < k" "(8 * (k - 1 - n div 8) + n mod 8) div 8 = k - 1 - n div 8"
    "(8 * (k - 1 - n div 8) + n mod 8) < 8 * k" if "n < 8 * k" for n
  proof -
    show 1: "n div 8 < k" using that by (simp add: less_mult_imp_div_less mult.commute)
    show 2: "(8 * (k - 1 - n div 8) + n mod 8) div 8 = k - 1 - n div 8" by simp
    have "k - 1 - n div 8 + 1 \<le> k" using 1 by arith
    then have "8 * (k - 1 - n div 8 + 1) \<le> 8 * k" by (rule mult_le_mono2)
    then show "(8 * (k - 1 - n div 8) + n mod 8) < 8 * k"
      using mod_less_divisor [of 8 n] by (simp only: add_mult_distrib2)
  qed
  show "sw (word_of_be bs) = word_of_le bs"
    using assms idx
    by (intro bit_word_eqI) (auto simp: word_of_be_def bit_word_of_le rev_nth)
  show "sw (word_of_le bs) = word_of_be bs"
    using assms idx
    by (intro bit_word_eqI) (auto simp: word_of_be_def bit_word_of_le rev_nth)
qed

lemma swab16_word:
  "length bs = 2 \<Longrightarrow> ext2fs_swab16 (word_of_be bs) = word_of_le bs"
  "length bs = 2 \<Longrightarrow> ext2fs_swab16 (word_of_le bs) = word_of_be bs"
  using swab_generic [of ext2fs_swab16 2 bs] bit_swab16 by simp_all

lemma swab32_word:
  "length bs = 4 \<Longrightarrow> ext2fs_swab32 (word_of_be bs) = word_of_le bs"
  "length bs = 4 \<Longrightarrow> ext2fs_swab32 (word_of_le bs) = word_of_be bs"
  using swab_generic [of ext2fs_swab32 4 bs] bit_swab32 by simp_all

lemma swab64_word:
  "length bs = 8 \<Longrightarrow> ext2fs_swab64 (word_of_be bs) = word_of_le bs"
  "length bs = 8 \<Longrightarrow> ext2fs_swab64 (word_of_le bs) = word_of_be bs"
  using swab_generic [of ext2fs_swab64 8 bs] bit_swab64 by simp_all


lemma from_be_load [bytes_simps]:
  "length bs = 2 \<Longrightarrow> from_be16 be (load_native be bs) = word_of_be bs"
  "length bs = 4 \<Longrightarrow> from_be32 be (load_native be bs) = word_of_be bs"
  "length bs = 8 \<Longrightarrow> from_be64 be (load_native be bs) = word_of_be bs"
  using swab16_word(2) [of bs] swab32_word(2) [of bs] swab64_word(2) [of bs]
  by (simp_all add: from_be16_def from_be32_def from_be64_def load_native_def
      flip: ext2fs_swab16_def ext2fs_swab32_def)

lemma le_load [bytes_simps]:
  "length bs = 2 \<Longrightarrow> (if be then ext2fs_swab16 (load_native be bs) else load_native be bs) = word_of_le bs"
  "length bs = 4 \<Longrightarrow> (if be then ext2fs_swab32 (load_native be bs) else load_native be bs) = word_of_le bs"
  using swab16_word(1) [of bs] swab32_word(1) [of bs]
  by (simp_all add: load_native_def)

lemma load32_eq_0 [bytes_simps]:
  "length bs = 4 \<Longrightarrow> (load_native be bs :: u32) = 0 \<longleftrightarrow> (word_of_le bs :: u32) = 0"
proof -
  assume l: "length bs = 4"
  have z: "ext2fs_swab32 0 = 0" by (simp add: ext2fs_swab32_def)
  have "(word_of_be bs :: u32) = 0 \<longleftrightarrow> (word_of_le bs :: u32) = 0"
    using swab32_word [OF l] z by metis
  then show ?thesis by (simp add: load_native_def)
qed

lemma word_of_be_rev [simp]: "LENGTH('a) \<le> 8 * n \<Longrightarrow> word_of_be (rev (le_of_word n (w :: 'a::len word))) = w"
  by (simp add: word_of_be_def)

lemma le_of_word_nth: "i < n \<Longrightarrow> le_of_word n w ! i = ucast (drop_bit (8 * i) w)"
  by (induction n arbitrary: w i) (auto simp: nth_Cons' drop_bit_drop_bit less_Suc_eq_0_disj add.commute split: if_splits)

lemma le_of_word_word_of_le:
  assumes "length bs = n" and "8 * n \<le> LENGTH('a)"
  shows "le_of_word n (word_of_le bs :: 'a::len word) = bs"
proof (rule nth_equalityI)
  fix i assume "i < length (le_of_word n (word_of_le bs :: 'a word))"
  then have i: "i < n" by simp
  show "le_of_word n (word_of_le bs :: 'a word) ! i = bs ! i"
  proof (rule bit_word_eqI)
    fix k assume "k < LENGTH(8)"
    then have k: "k < 8" by simp
    have "8 * i + k < LENGTH('a)" using i k assms(2) by linarith
    moreover have "(8 * i + k) div 8 = i" "(8 * i + k) mod 8 = k" using k by simp_all
    ultimately show "bit (le_of_word n (word_of_le bs :: 'a word) ! i) k = bit (bs ! i) k"
      using i k assms(1) by (simp add: le_of_word_nth bit_ucast_iff bit_drop_bit_eq bit_word_of_le)
  qed
qed (simp add: assms)

text \<open>The upper half of a 64-bit number, stored big endian, as the first four bytes.\<close>

lemma upper_bytes:
  "word_of_be (take 4 (rev (le_of_word 8 (ino :: u64)))) = (ucast (drop_bit 32 ino) :: u32)"
  "word_of_be (take 2 (rev (le_of_word 8 (ino :: u64)))) = (ucast (drop_bit 48 ino) :: u16)"
proof -
  have d: "rev (take k (rev (le_of_word 8 ino))) = drop (8 - k) (le_of_word 8 ino)" for k
    by (simp add: rev_take)
  have dd: "k \<le> n \<Longrightarrow> drop k (le_of_word n w) = le_of_word (n - k) (drop_bit (8 * k) w)" for k n and w :: u64
    by (induction k arbitrary: n w) (case_tac n; auto simp: drop_bit_drop_bit add.commute)+
  have cast4: "word_of_le (le_of_word 4 (w :: u64)) = (ucast w :: u32)" for w
    by (rule bit_word_eqI) (auto simp: bit_word_of_le bit_simps le_of_word_nth)
  have cast2: "word_of_le (le_of_word 2 (w :: u64)) = (ucast w :: u16)" for w
    by (rule bit_word_eqI) (auto simp: bit_word_of_le bit_simps le_of_word_nth)
  show "word_of_be (take 4 (rev (le_of_word 8 ino))) = (ucast (drop_bit 32 ino) :: u32)"
    unfolding word_of_be_def d by (simp add: dd cast4)
  show "word_of_be (take 2 (rev (le_of_word 8 ino))) = (ucast (drop_bit 48 ino) :: u16)"
    unfolding word_of_be_def d by (simp add: dd cast2)
qed


end
