(* ===== verification/Dir_Entry.thy ===== *)
theory Dir_Entry
  imports Byte_Order
begin

text \<open>
  Directory entries as the program keeps them (\<open>struct my_dir_entry\<close> of \<^verbatim>\<open>src/src/fs.h\<close>) and
  \<open>do_dir\<close> of \<^verbatim>\<open>src/src/fs.c\<close>, which lists a directory through the system.
\<close>

text \<open>\<open>struct my_dir_entry\<close>; \<open>de_name\<close> holds the \<open>name_len\<close> copied bytes, which a NUL follows.\<close>

record my_dir_entry =
  de_inode :: u64
  de_name_len :: u8
  de_file_type :: u8
  de_myflags :: u32
  de_name :: "byte list"

text \<open>What one iteration of a parsing loop does: leave the loop, or advance with or without an entry.\<close>

datatype walk = Stop | Skip nat | Emit nat my_dir_entry

definition dot :: byte where "dot = 46"

section \<open>Listing through the system\<close>

record dirent =
  d_ino :: u64
  d_type :: u8
  d_name :: string

definition dirent_entry :: "dirent \<Rightarrow> my_dir_entry" where
  "dirent_entry entry =
     \<lparr>de_inode = d_ino entry, de_name_len = of_nat (length (d_name entry)), de_file_type = d_type entry,
      de_myflags = 0, de_name = map byte_of_char (d_name entry)\<rparr>"

text \<open>\<open>do_dir\<close>: \<open>listing\<close> is what \<open>opendir\<close> and \<open>readdir\<close> give, \<open>None\<close> when \<open>opendir\<close> fails.\<close>

definition do_dir :: "dirent list option \<Rightarrow> my_dir_entry list \<Rightarrow> int \<times> my_dir_entry list" where
  "do_dir listing files =
     (case listing of
        None \<Rightarrow> (1, files)
      | Some entries \<Rightarrow>
          (0, files @ map dirent_entry (filter (\<lambda>e. d_name e \<noteq> ''.'' \<and> d_name e \<noteq> ''..'') entries)))"

text \<open>What a parsed entry holds: a name that lies in the buffer and is no dot entry.\<close>

definition entry_in :: "byte list \<Rightarrow> my_dir_entry \<Rightarrow> bool" where
  "entry_in buf e \<longleftrightarrow>
     length (de_name e) = unat (de_name_len e) \<and> de_name e \<noteq> [] \<and> de_name e \<noteq> [dot] \<and> de_name e \<noteq> [dot, dot] \<and>
     (\<exists>k. k + length (de_name e) \<le> length buf \<and> de_name e = take (length (de_name e)) (drop k buf))"

end
