(* ===== verification/Text_Utils.thy ===== *)
theory Text_Utils
  imports Numbers
begin

text \<open>
  The text helpers of \<^verbatim>\<open>src/src/utils.c\<close>: \<open>trimch\<close>, \<open>toLowerCase\<close>, \<open>find_command\<close> and
  \<open>path_join\<close>, on C strings. \<open>trimch\<close> edits its buffer and returns a pointer into it; the model
  returns the string that pointer denotes. \<open>find_command\<close> takes the value of \<open>PATH\<close> and the
  answers of \<open>access(_, F_OK | X_OK)\<close> as arguments.
\<close>

section \<open>The code\<close>

text \<open>First loop of \<open>trimch\<close>: overwrite trailing \<open>ch\<close> with NUL, but never the first character.\<close>

fun trim_tail :: "char \<Rightarrow> string \<Rightarrow> string" where
  "trim_tail ch buffer =
     (if length buffer > 1 \<and> last buffer = ch then trim_tail ch (butlast buffer) else buffer)"

declare trim_tail.simps [simp del]

text \<open>Second loop: skip leading \<open>ch\<close>.\<close>

fun trim_head :: "char \<Rightarrow> string \<Rightarrow> string" where
  "trim_head ch [] = []"
| "trim_head ch (c # pos) = (if c = ch then trim_head ch pos else c # pos)"

definition trimch :: "string \<Rightarrow> char \<Rightarrow> string" where
  "trimch buffer ch = trim_head ch (trim_tail ch buffer)"

definition tolower :: "char \<Rightarrow> char" where
  "tolower c = (if 65 \<le> (of_char c :: nat) \<and> (of_char c :: nat) \<le> 90 then char_of ((of_char c :: nat) + 32) else c)"

fun toLowerCase :: "string \<Rightarrow> string" where
  "toLowerCase [] = []"
| "toLowerCase (c # str) = tolower c # toLowerCase str"

definition extra_path :: string where
  "extra_path = '':/bin:/sbin:/usr/bin:/usr/sbin:/usr/local/bin:/usr/local/sbin''"

fun find_command_loop :: "(string \<Rightarrow> bool) \<Rightarrow> nat \<Rightarrow> string \<Rightarrow> string list \<Rightarrow> int \<times> string" where
  "find_command_loop access_x bufsize cname [] = (0, [])"
| "find_command_loop access_x bufsize cname (token # tokens) =
     (let fullPathBuf = snprintf (bufsize - 1) (token @ ''/'' @ cname)
      in if access_x fullPathBuf then (1, fullPathBuf)
         else find_command_loop access_x bufsize cname tokens)"

definition find_command :: "string option \<Rightarrow> (string \<Rightarrow> bool) \<Rightarrow> string \<Rightarrow> nat \<Rightarrow> int \<times> string" where
  "find_command getenv_path access_x cname bufsize =
     (case getenv_path of
        None \<Rightarrow> (0, [])
      | Some path \<Rightarrow> find_command_loop access_x bufsize cname (strtok_all '':'' (path @ extra_path)))"

definition path_join :: "string \<Rightarrow> string \<Rightarrow> nat \<Rightarrow> string" where
  "path_join path1 path2 bufsize =
     (if path1 = [] \<or> (path2 \<noteq> [] \<and> hd path2 = CHR ''/'')
      then snprintf (bufsize - 1) path2
      else if last path1 = CHR ''/''
           then snprintf (bufsize - 1) (path1 @ path2)
           else snprintf (bufsize - 1) (path1 @ ''/'' @ path2))"

section \<open>Facts\<close>

lemma trim_head_dropWhile [cstr_simps]: "trim_head ch s = dropWhile (\<lambda>c. c = ch) s"
  by (induction s) auto

lemma trim_tail_spec:
  "trim_tail ch s = (if s \<noteq> [] \<and> (\<forall>c \<in> set s. c = ch) then [ch] else rev (dropWhile (\<lambda>c. c = ch) (rev s)))"
proof (induction ch s rule: trim_tail.induct)
  case (1 ch s)
  show ?case
  proof (cases "length s > 1 \<and> last s = ch")
    case True
    then obtain t where s: "s = t @ [ch]" and t: "t \<noteq> []"
      by (cases s rule: rev_cases) auto
    have "trim_tail ch s = trim_tail ch t" using True s by (subst trim_tail.simps) simp
    then show ?thesis using 1 True s t by auto
  next
    case False
    then have "trim_tail ch s = s" by (subst trim_tail.simps) auto
    moreover have "s = (if s \<noteq> [] \<and> (\<forall>c \<in> set s. c = ch) then [ch] else rev (dropWhile (\<lambda>c. c = ch) (rev s)))"
    proof (cases s rule: rev_cases)
      case Nil
      then show ?thesis by simp
    next
      case (snoc t y)
      show ?thesis
      proof (cases "y = ch")
        case True
        then have "t = []" using False snoc by (cases t) auto
        then show ?thesis using True snoc by simp
      next
        case ne: False
        then show ?thesis using snoc by simp
      qed
    qed
    ultimately show ?thesis by metis
  qed
qed

lemma toLowerCase_map: "toLowerCase s = map tolower s"
  by (induction s) auto

lemma tolower_idem [simp]: "tolower (tolower c) = tolower c"
proof (cases "65 \<le> (of_char c :: nat) \<and> (of_char c :: nat) \<le> 90")
  case True
  then have "(of_char (char_of ((of_char c :: nat) + 32)) :: nat) = of_char c + 32" by simp
  with True show ?thesis by (simp add: tolower_def)
next
  case False
  then have "tolower c = c" by (auto simp: tolower_def)
  then show ?thesis by simp
qed

lemma toLowerCase_idem [simp]: "toLowerCase (toLowerCase s) = toLowerCase s"
  by (simp add: toLowerCase_map)

lemma find_command_loop_Some:
  "find_command_loop access_x n cname ds = (1, p) \<Longrightarrow>
   \<exists>us d vs. ds = us @ d # vs \<and> p = snprintf (n - 1) (d @ ''/'' @ cname) \<and> access_x p \<and>
     (\<forall>u \<in> set us. \<not> access_x (snprintf (n - 1) (u @ ''/'' @ cname)))"
proof (induction ds)
  case Nil
  then show ?case by simp
next
  case (Cons d ds)
  show ?case
  proof (cases "access_x (snprintf (n - 1) (d @ ''/'' @ cname))")
    case True
    with Cons.prems have "d # ds = [] @ d # ds" "p = snprintf (n - 1) (d @ ''/'' @ cname)" "access_x p" by (auto simp: Let_def)
    then show ?thesis by fastforce
  next
    case False
    with Cons obtain us e vs where "ds = us @ e # vs" "p = snprintf (n - 1) (e @ ''/'' @ cname)" "access_x p"
      "\<forall>u \<in> set us. \<not> access_x (snprintf (n - 1) (u @ ''/'' @ cname))" by (auto simp: Let_def)
    with False have "d # ds = (d # us) @ e # vs" "\<forall>u \<in> set (d # us). \<not> access_x (snprintf (n - 1) (u @ ''/'' @ cname))"
      by auto
    then show ?thesis using \<open>p = _\<close> \<open>access_x p\<close> by blast
  qed
qed

lemma find_command_loop_None:
  "fst (find_command_loop access_x n cname ds) \<noteq> 1 \<longleftrightarrow>
   (\<forall>d \<in> set ds. \<not> access_x (snprintf (n - 1) (d @ ''/'' @ cname)))"
  by (induction ds) (auto simp: Let_def)

lemma path_join_length: "2 < n \<Longrightarrow> length (path_join p q n) < n - 1"
  by (simp add: path_join_def snprintf_length)

lemma trimch_strip: "trimch s ch = dropWhile (\<lambda>c. c = ch) (rev (dropWhile (\<lambda>c. c = ch) (rev s)))"
proof (cases "s \<noteq> [] \<and> (\<forall>c \<in> set s. c = ch)")
  case True
  then have "dropWhile (\<lambda>c. c = ch) (rev s) = []" by (simp add: dropWhile_eq_Nil_conv)
  with True show ?thesis
    by (simp add: trimch_def trim_head_dropWhile trim_tail_spec del: dropWhile_eq_Nil_conv)
next
  case False
  then show ?thesis by (simp only: trimch_def trim_head_dropWhile trim_tail_spec if_False)
qed

lemma trimch_bracketed:
  "s \<noteq> [] \<Longrightarrow> hd s \<noteq> ch \<Longrightarrow> last s \<noteq> ch \<Longrightarrow> trimch (replicate n ch @ s @ replicate m ch) ch = s"
proof -
  assume s: "s \<noteq> []" "hd s \<noteq> ch" "last s \<noteq> ch"
  have drop: "dropWhile (\<lambda>c. c = ch) (replicate k ch @ t) = t" if "t \<noteq> []" "hd t \<noteq> ch" for k t
    using that by (induction k) (cases t; auto)+
  have "dropWhile (\<lambda>c. c = ch) (rev (replicate n ch @ s @ replicate m ch)) = rev s @ replicate n ch"
    using drop [of "rev s @ replicate n ch" m] s by (simp add: hd_append hd_rev)
  then show ?thesis using drop [of s n] s by (simp add: trimch_strip)
qed

section \<open>Properties\<close>

text \<open>
  \<open>trimch\<close> removes exactly the leading and the trailing runs of the character, although
  its first loop never removes the first character of the buffer (a buffer of blanks only
  still trims to the empty string).
\<close>

theorem trimch_spec: "trimch s ch = dropWhile (\<lambda>c. c = ch) (rev (dropWhile (\<lambda>c. c = ch) (rev s)))"
  by (rule trimch_strip)

text \<open>
  \<open>find_command\<close> answers the first directory, in the order of \<open>PATH\<close> and then of the built-in
  list, in which the command is accessible; it answers 0 exactly when there is none.
\<close>

theorem find_command_first:
  "case find_command (Some path) access_x cname n of (found, p) \<Rightarrow>
     if found = 1
     then (\<exists>us d vs. strtok_all '':'' (path @ extra_path) = us @ d # vs \<and>
             p = snprintf (n - 1) (d @ ''/'' @ cname) \<and> access_x p \<and>
             list_all (\<lambda>u. \<not> access_x (snprintf (n - 1) (u @ ''/'' @ cname))) us)
     else found = 0 \<and> p = [] \<and>
          list_all (\<lambda>d. \<not> access_x (snprintf (n - 1) (d @ ''/'' @ cname))) (strtok_all '':'' (path @ extra_path))"
proof -
  let ?ds = "strtok_all '':'' (path @ extra_path)"
  obtain f p where r: "find_command_loop access_x n cname ?ds = (f, p)" by fastforce
  have fp: "fst (find_command_loop a k c ds) \<noteq> 1 \<Longrightarrow> find_command_loop a k c ds = (0, [])" for a k c ds
    by (induction ds) (auto simp: Let_def)
  show ?thesis
  proof (cases "f = 1")
    case True
    then show ?thesis using find_command_loop_Some [of access_x n cname ?ds p] r
      by (auto simp: find_command_def list_all_iff)
  next
    case False
    then show ?thesis using find_command_loop_None [of access_x n cname ?ds] fp [of access_x n cname ?ds] r
      by (simp add: find_command_def list_all_iff)
  qed
qed

end
