(* ===== verification/System.thy ===== *)
theory System
  imports Dir_Entry Text_Utils
begin

text \<open>
  The operating system as the program sees it: a record of the answers of the system calls and
  library calls it makes on paths, commands and devices. Every definition that asks the system
  takes such a record, so a theorem holds for whatever a system (or a rootkit) answers. The
  macros \<open>major\<close>, \<open>minor\<close> and \<open>makedev\<close> of \<^verbatim>\<open>sys/sysmacros.h\<close> are written out.
\<close>

datatype file_kind = S_REG | S_DIR | S_LNK | S_BLK | S_OTHER

record stat =
  st_kind :: file_kind
  st_dev :: u64
  st_rdev :: u64
  st_ino :: u64
  st_blksize :: nat
  st_blocks :: u64

record os =
  os_stat :: "string \<Rightarrow> stat option"                 \<comment> \<open>\<open>stat\<close>; \<open>None\<close>: it returned -1\<close>
  os_lstat :: "string \<Rightarrow> stat option"
  os_access :: "string \<Rightarrow> bool"                      \<comment> \<open>\<open>access(_, F_OK) == 0\<close>\<close>
  os_access_x :: "string \<Rightarrow> bool"                    \<comment> \<open>\<open>access(_, F_OK | X_OK) == 0\<close>\<close>
  os_readdir :: "string \<Rightarrow> dirent list option"       \<comment> \<open>\<open>opendir\<close> and the \<open>readdir\<close> results\<close>
  os_text :: "string \<Rightarrow> string option"               \<comment> \<open>\<open>fopen(_, "r")\<close> and the contents\<close>
  os_realpath :: "string \<Rightarrow> string option"
  os_popen :: "string \<Rightarrow> (string \<times> int option) option"  \<comment> \<open>output, and exit status if it exited\<close>
  os_path_env :: "string option"                     \<comment> \<open>\<open>getenv("PATH")\<close>\<close>
  os_device :: "string \<Rightarrow> byte list option"          \<comment> \<open>\<open>fopen(_, "rb")\<close> and the contents\<close>

type_synonym dev_t = u64

definition major :: "dev_t \<Rightarrow> u32" where
  "major x = ucast ((drop_bit 32 x AND 0xfffff000) OR (drop_bit 8 x AND 0xfff))"

definition minor :: "dev_t \<Rightarrow> u32" where
  "minor x = ucast ((drop_bit 12 x AND 0xffffff00) OR (x AND 0xff))"

definition makedev :: "u64 \<Rightarrow> u64 \<Rightarrow> dev_t" where
  "makedev x y =
     push_bit 32 (x AND 0xfffff000) OR push_bit 8 (x AND 0xfff) OR push_bit 12 (y AND 0xffffff00) OR (y AND 0xff)"

lemma makedev_masks:
  "(0xfffff000 :: u64) = push_bit 12 (mask 20)" "(0xfff :: u64) = mask 12"
  "(0xffffff00 :: u64) = push_bit 8 (mask 24)" "(0xff :: u64) = mask 8"
  by (simp_all add: mask_eq_exp_minus_1)

text \<open>
  \<open>makedev\<close> masks its arguments to 32 bits, so an \<open>int\<close> that was sign-extended does no harm.
\<close>

lemma bit_major: "n < 32 \<Longrightarrow> bit (major d) n \<longleftrightarrow> (if n < 12 then bit d (8 + n) else bit d (32 + n))"
  unfolding major_def makedev_masks by (auto simp: bit_simps)

lemma bit_minor: "n < 32 \<Longrightarrow> bit (minor d) n \<longleftrightarrow> (if n < 8 then bit d n else bit d (12 + n))"
  unfolding minor_def makedev_masks by (auto simp: bit_simps)

lemma bit_makedev:
  "n < 64 \<Longrightarrow> bit (makedev x y) n \<longleftrightarrow>
     (if n < 8 then bit y n else if n < 20 then bit x (n - 8) else if n < 44 then bit y (n - 12) else bit x (n - 32))"
  unfolding makedev_def makedev_masks by (auto simp: bit_simps)

lemma bit_scast_low: "n < 32 \<Longrightarrow> bit (scast (w :: u32) :: u64) n \<longleftrightarrow> bit w n"
  by (cases "n = 31") (auto simp: bit_simps min_def)

lemma makedev_major_minor: "makedev (scast (major d)) (scast (minor d)) = d"
proof (rule bit_word_eqI)
  fix n assume "n < LENGTH(64)"
  then have n: "n < 64" by simp
  then consider "n < 8" | "8 \<le> n \<and> n < 20" | "20 \<le> n \<and> n < 44" | "44 \<le> n \<and> n < 64" by linarith
  then show "bit (makedev (scast (major d)) (scast (minor d))) n = bit d n"
    using n by cases (auto simp: bit_makedev bit_scast_low bit_major bit_minor split: if_splits)
qed

text \<open>\<open>snprintf(buf, n, "%d:%d", major(devno), minor(devno))\<close>.\<close>

definition majmin_text :: "dev_t \<Rightarrow> string" where
  "majmin_text devno = dec_of_int (sint (major devno)) @ '':'' @ dec_of_int (sint (minor devno))"

lemma dec_of_int_length: "- (2 ^ 31) \<le> i \<Longrightarrow> i < 2 ^ 31 \<Longrightarrow> length (dec_of_int i) \<le> 11"
proof -
  assume i: "- (2 ^ 31) \<le> i" "i < 2 ^ 31"
  have "length (dec_of_nat (nat \<bar>i\<bar>)) \<le> 10" using i by (intro dec_of_nat_length_le) auto
  then show ?thesis by (auto simp: dec_of_int_def abs_if)
qed

lemma majmin_text_length: "length (majmin_text d) < 24"
proof -
  have "- (2 ^ 31) \<le> sint w \<and> sint w < 2 ^ 31" for w :: u32
    using sint_range_size [of w] by (simp add: word_size)
  then have "length (dec_of_int (sint w)) \<le> 11" for w :: u32 by (intro dec_of_int_length) auto
  from this [of "major d"] this [of "minor d"] show ?thesis by (simp add: majmin_text_def)
qed

text \<open>A system in which no call succeeds; concrete systems are built from it by record update.\<close>

definition quiet_os :: os where
  "quiet_os = \<lparr>os_stat = \<lambda>_. None, os_lstat = \<lambda>_. None, os_access = \<lambda>_. False, os_access_x = \<lambda>_. False,
     os_readdir = \<lambda>_. None, os_text = \<lambda>_. None, os_realpath = \<lambda>_. None, os_popen = \<lambda>_. None,
     os_path_env = None, os_device = \<lambda>_. None\<rparr>"

lemma ucast_scast: "(ucast (scast (w :: u32) :: u64) :: u32) = w"
  by (rule bit_word_eqI) (simp add: bit_ucast_iff bit_scast_low)

lemma sint_abs_bound: "\<bar>sint (w :: u32)\<bar> < 2 ^ 32"
  using sint_range_size [of w] by (simp add: word_size abs_less_iff)

end
