(* ===== verification/Blk_Dev.thy ===== *)
theory Blk_Dev
  imports System
begin

text \<open>
  Block devices in \<^verbatim>\<open>src/src/blk.c\<close> and \<^verbatim>\<open>src/src/blk.h\<close>: from a device number to its directory
  under /sys, its name under /dev, its file-system type, its kind (partition, LVM, RAID) and
  its parent device. An output parameter of the C code is a component of the result; where the
  code may leave it untouched, its old value is an argument. Paths are cut where the code's
  buffers cut them. \<open>searchDevDirs\<close> recurses over directories; its fuel bounds the depth.
\<close>

section \<open>Records and small helpers\<close>

record DeviceInfo =
  di_name :: string
  di_dev :: string
  di_md :: string
  di_maj_min :: string
  di_type :: string
  di_fstype :: string

definition empty_device :: DeviceInfo where
  "empty_device = \<lparr>di_name = [], di_dev = [], di_md = [], di_maj_min = [], di_type = [], di_fstype = []\<rparr>"

fun replace_char :: "char \<Rightarrow> char \<Rightarrow> string \<Rightarrow> string" where
  "replace_char a b [] = []"
| "replace_char a b (c # s) = (if c = a then b else c) # replace_char a b s"

definition sysfs_devname_sys_to_dev :: "string \<Rightarrow> string" where
  "sysfs_devname_sys_to_dev name = replace_char (CHR ''!'') (CHR ''/'') name"

definition sysfs_devname_dev_to_sys :: "string \<Rightarrow> string" where
  "sysfs_devname_dev_to_sys name = replace_char (CHR ''/'') (CHR ''!'') name"

definition access_file :: "os \<Rightarrow> string \<Rightarrow> string \<Rightarrow> bool" where
  "access_file os dir name = os_access os (snprintf 255 (dir @ ''/'' @ name))"

definition ingore_dev_dir :: "string \<Rightarrow> bool" where
  "ingore_dev_dir name \<longleftrightarrow>
     name \<in> {''subsystem'', ''holders'', ''slaves'', ''integrity'', ''mq'', ''power'', ''queue'', ''trace''}"

definition is_dot :: "string \<Rightarrow> bool" where
  "is_dot name \<longleftrightarrow> name = ''.'' \<or> name = ''..''"

section \<open>Finding a device under /sys\<close>

text \<open>The check of a regular file named \<open>dev\<close>: its first line, cut at the line end, is \<open>majmin\<close>.\<close>

definition dev_file_matches :: "os \<Rightarrow> string \<Rightarrow> string \<Rightarrow> bool" where
  "dev_file_matches os path majmin =
     (case os_text os path of
        None \<Rightarrow> False
      | Some content \<Rightarrow>
          (case fgets_all 128 content of
             [] \<Rightarrow> False
           | line # _ \<Rightarrow> (case strtok [CHR 0x0D, CHR 0x0A] line of None \<Rightarrow> False | Some (text, _) \<Rightarrow> text = majmin)))"

fun searchDevDirs :: "nat \<Rightarrow> os \<Rightarrow> string \<Rightarrow> string \<Rightarrow> bool \<Rightarrow> string option res"
  and search_entries :: "nat \<Rightarrow> os \<Rightarrow> string \<Rightarrow> string \<Rightarrow> bool \<Rightarrow> dirent list \<Rightarrow> string option res" where
  "searchDevDirs 0 os majmin basePath followlink = Inl OutOfFuel"
| "searchDevDirs (Suc fuel) os majmin basePath followlink =
     (case os_readdir os basePath of
        None \<Rightarrow> Inr None
      | Some entries \<Rightarrow> search_entries fuel os majmin basePath followlink entries)"
| "search_entries fuel os majmin basePath followlink [] = Inr None"
| "search_entries fuel os majmin basePath followlink (entry # entries) =
     (if is_dot (d_name entry) then search_entries fuel os majmin basePath followlink entries
      else (let path = path_join basePath (d_name entry) 256
            in case os_lstat os path of
                 None \<Rightarrow> search_entries fuel os majmin basePath followlink entries
               | Some statbuf \<Rightarrow>
                   if st_kind statbuf = S_DIR
                   then (if ingore_dev_dir (d_name entry)
                         then search_entries fuel os majmin basePath followlink entries
                         else (case searchDevDirs fuel os majmin path followlink of
                                 Inl e \<Rightarrow> Inl e
                               | Inr (Some found) \<Rightarrow> Inr (Some found)
                               | Inr None \<Rightarrow> search_entries fuel os majmin basePath followlink entries))
                   else if st_kind statbuf = S_LNK \<and> followlink
                   then (if ingore_dev_dir (d_name entry)
                         then search_entries fuel os majmin basePath followlink entries
                         else (case searchDevDirs fuel os majmin path False of
                                 Inl e \<Rightarrow> Inl e
                               | Inr (Some found) \<Rightarrow> Inr (Some found)
                               | Inr None \<Rightarrow> search_entries fuel os majmin basePath followlink entries))
                   else if st_kind statbuf = S_REG \<and> d_name entry = ''dev'' \<and> dev_file_matches os path majmin
                   then Inr (Some (snprintf 256 basePath))
                   else search_entries fuel os majmin basePath followlink entries))"

text \<open>\<open>realpath\<close> writes into a buffer of 256 bytes here.\<close>

definition find_devmm_block_path :: "nat \<Rightarrow> os \<Rightarrow> string \<Rightarrow> nat \<Rightarrow> string option res" where
  "find_devmm_block_path fuel os majmin bufsiz =
     (let search = and_then (searchDevDirs fuel os majmin ''/sys/block'' True) (\<lambda>r.
                     Inr (map_option (snprintf (bufsiz - 1)) r));
          devmm = snprintf 255 (''/sys/dev/block/'' @ majmin)
      in if os_access os ''/sys/dev/block'' \<and> os_access os devmm
         then (case os_realpath os devmm of
                 None \<Rightarrow> Inr None
               | Some p \<Rightarrow>
                   and_then (sprintf 256 p) (\<lambda>devpath.
                     if strstr devpath ''/block/'' \<noteq> None then Inr (Some (snprintf (bufsiz - 1) devpath))
                     else search))
         else search)"

definition find_dev_block_path :: "nat \<Rightarrow> os \<Rightarrow> dev_t \<Rightarrow> nat \<Rightarrow> string option res" where
  "find_dev_block_path fuel os devno bufsiz = find_devmm_block_path fuel os (snprintf 31 (majmin_text devno)) bufsiz"

definition sysfs_blkdev_get_path :: "nat \<Rightarrow> os \<Rightarrow> dev_t \<Rightarrow> nat \<Rightarrow> string option res" where
  "sysfs_blkdev_get_path fuel os devno bufsiz =
     and_then (find_dev_block_path fuel os devno 256) (\<lambda>r.
       case r of
         None \<Rightarrow> Inr None
       | Some devpath \<Rightarrow>
           (case after_last (CHR ''/'') devpath of
              None \<Rightarrow> Inr None
            | Some name \<Rightarrow> Inr (Some (sysfs_devname_sys_to_dev (snprintf (bufsiz - 1) (''/dev/'' @ name))))))"

definition sysfs_blkdev_from_path :: "os \<Rightarrow> string \<Rightarrow> dev_t \<Rightarrow> int \<times> dev_t" where
  "sysfs_blkdev_from_path os path devno =
     (case os_stat os path of
        None \<Rightarrow> (- 1, devno)
      | Some st \<Rightarrow>
          if st_kind st = S_BLK
          then (if starts_with ''/dev/'' path then (0, st_rdev st) else (0, st_dev st))
          else (1, devno))"

definition devno_from_path :: "os \<Rightarrow> string \<Rightarrow> dev_t option" where
  "devno_from_path os path = map_option st_dev (os_stat os path)"

definition majmin_to_dev_t :: "string \<Rightarrow> dev_t \<Rightarrow> int \<times> dev_t" where
  "majmin_to_dev_t maj_min result =
     (let imaj = (ucast (strtoull maj_min) :: u32)
      in case strto_end maj_min of
           c # endptr \<Rightarrow>
             if c = CHR '':''
             then (let imin = (ucast (strtoull endptr) :: u32) in (0, makedev (scast imaj) (scast imin)))
             else (1, result)
         | [] \<Rightarrow> (1, result))"

section \<open>The file-system type of a device\<close>

fun mountinfo_loop :: "string \<Rightarrow> nat \<Rightarrow> string \<Rightarrow> string list \<Rightarrow> (int \<times> string) res" where
  "mountinfo_loop majmin fstsize fstype [] = Inr (- 1, fstype)"
| "mountinfo_loop majmin fstsize fstype (sline # slines) =
     (case strtok ''-'' sline of
        None \<Rightarrow> Inl NullPointer
      | Some (token, rest) \<Rightarrow>
          if strstr token majmin \<noteq> None
          then (case strtok '' '' rest of
                  Some (token_fstype, _) \<Rightarrow>
                    and_then (strncpy fstsize token_fstype) (\<lambda>f. Inr (0, toLowerCase f))
                | None \<Rightarrow> mountinfo_loop majmin fstsize fstype slines)
          else mountinfo_loop majmin fstsize fstype slines)"

definition get_blkdev_fstype_from_mountinfo :: "os \<Rightarrow> dev_t \<Rightarrow> nat \<Rightarrow> (int \<times> string) res" where
  "get_blkdev_fstype_from_mountinfo os devno fstsize =
     (let fstype = snprintf fstsize ''unknown''
      in case os_text os ''/proc/self/mountinfo'' of
           None \<Rightarrow> Inr (- 1, fstype)
         | Some f \<Rightarrow> mountinfo_loop ('' '' @ majmin_text devno @ '' '') fstsize fstype (fgets_all 512 f))"

fun mounts_loop :: "os \<Rightarrow> dev_t \<Rightarrow> nat \<Rightarrow> string \<Rightarrow> string list \<Rightarrow> (int \<times> string) res" where
  "mounts_loop os devno fstsize fstype [] = Inr (- 1, fstype)"
| "mounts_loop os devno fstsize fstype (line # ls) =
     (case strtok '' '' line of
        None \<Rightarrow> mounts_loop os devno fstsize fstype ls
      | Some (devPath, r1) \<Rightarrow>
          if hd devPath \<noteq> CHR ''/'' then mounts_loop os devno fstsize fstype ls
          else (case strtok '' '' r1 of
                  None \<Rightarrow> mounts_loop os devno fstsize fstype ls
                | Some (mountPath, r2) \<Rightarrow>
                    (case strtok '' '' r2 of
                       None \<Rightarrow> mounts_loop os devno fstsize fstype ls
                     | Some (fst', r3) \<Rightarrow>
                         (case devno_from_path os mountPath of
                            None \<Rightarrow> mounts_loop os devno fstsize fstype ls
                          | Some mdevno \<Rightarrow>
                              if devno = mdevno
                              then and_then (strncpy fstsize fst') (\<lambda>f. Inr (0, toLowerCase f))
                              else mounts_loop os devno fstsize fstype ls))))"

definition get_blkdev_fstype_from_mounts :: "os \<Rightarrow> dev_t \<Rightarrow> nat \<Rightarrow> string \<Rightarrow> (int \<times> string) res" where
  "get_blkdev_fstype_from_mounts os devno fstsize fstype =
     (case os_text os ''/proc/self/mounts'' of
        None \<Rightarrow> Inr (- 1, fstype)
      | Some file \<Rightarrow> mounts_loop os devno fstsize fstype (fgets_all 512 file))"

definition get_blkdev_fstype :: "os \<Rightarrow> dev_t \<Rightarrow> nat \<Rightarrow> string \<Rightarrow> (int \<times> string) res" where
  "get_blkdev_fstype os devno fstsize fstype =
     (if access_file os ''/proc/self'' ''mountinfo'' then get_blkdev_fstype_from_mountinfo os devno fstsize
      else if access_file os ''/proc/self'' ''mounts'' then get_blkdev_fstype_from_mounts os devno fstsize fstype
      else Inr (- 1, fstype))"

definition get_path_fstype :: "os \<Rightarrow> string \<Rightarrow> nat \<Rightarrow> string \<Rightarrow> (int \<times> string) res" where
  "get_path_fstype os path fstsize fstype =
     (case os_stat os path of
        None \<Rightarrow> Inr (- 1, fstype)
      | Some fs \<Rightarrow>
          if st_kind fs = S_BLK \<and> starts_with ''/dev/'' path
          then get_blkdev_fstype os (st_rdev fs) fstsize fstype
          else get_blkdev_fstype os (st_dev fs) fstsize fstype)"

section \<open>Kind and parent of a device\<close>

fun startswith_loop :: "os \<Rightarrow> string \<Rightarrow> string \<Rightarrow> dirent list \<Rightarrow> string option" where
  "startswith_loop os path starts [] = None"
| "startswith_loop os path starts (entry # entries) =
     (if is_dot (d_name entry) then startswith_loop os path starts entries
      else if starts_with starts (d_name entry)
      then (case os_stat os (path_join path (d_name entry) 512) of
              None \<Rightarrow> startswith_loop os path starts entries
            | Some statbuf \<Rightarrow>
                if st_kind statbuf = S_DIR then Some (d_name entry)
                else startswith_loop os path starts entries)
      else startswith_loop os path starts entries)"

text \<open>The callers pass a zeroed buffer one byte longer than \<open>bufsize\<close>.\<close>

definition find_dir_startswith :: "os \<Rightarrow> string \<Rightarrow> string \<Rightarrow> string \<Rightarrow> nat \<Rightarrow> int \<times> string" where
  "find_dir_startswith os dirpath subdirname starts bufsize =
     (let path = path_join dirpath subdirname 512
      in case os_readdir os path of
           None \<Rightarrow> (2, [])
         | Some entries \<Rightarrow>
             (case startswith_loop os path starts entries of
                Some name \<Rightarrow> (0, strncpy0 bufsize name)
              | None \<Rightarrow> (4, [])))"

text \<open>The part of \<open>get_blkdev_type\<close> after the directory is known; the result is the code and the type.\<close>

definition blockpath_type :: "os \<Rightarrow> string \<Rightarrow> nat \<Rightarrow> int \<times> string" where
  "blockpath_type os blockpath tsize =
     (let unknown = snprintf tsize ''unknown'';
          uuidpath = snprintf 255 (blockpath @ ''/dm/uuid'');
          rd = find_dir_startswith os blockpath ''md'' ''rd'' 15
      in if os_access os (snprintf 255 (blockpath @ ''/partition''))
         then (0, toLowerCase (snprintf tsize ''part''))
         else if os_access os uuidpath
         then (case os_text os uuidpath of
                 None \<Rightarrow> (1, unknown)
               | Some content \<Rightarrow>
                   (let uuid = (case fgets_all 255 content of [] \<Rightarrow> [] | line # _ \<Rightarrow> line)
                    in if CHR ''-'' \<notin> set uuid then (1, unknown)
                       else (let head = takeWhile (\<lambda>c. c \<noteq> CHR ''-'') uuid
                             in if length head > 8 then (1, unknown)
                                else (0, toLowerCase (snprintf tsize head)))))
         else if access_file os blockpath ''start'' \<and> access_file os blockpath ''size'' \<and>
                 \<not> access_file os blockpath ''range'' \<and> \<not> access_file os blockpath ''removable''
         then (0, toLowerCase (snprintf tsize ''part''))
         else if fst rd = 0 \<and> os_access os (snprintf 255 (blockpath @ ''/md/'' @ snd rd @ ''/block/partition''))
         then (0, toLowerCase (snprintf tsize ''raid''))
         else (1, unknown))"

definition get_blkdev_type :: "nat \<Rightarrow> os \<Rightarrow> dev_t \<Rightarrow> nat \<Rightarrow> (int \<times> string) res" where
  "get_blkdev_type fuel os devno tsize =
     and_then (find_devmm_block_path fuel os (snprintf 31 (majmin_text devno)) 255) (\<lambda>r.
       case r of
         None \<Rightarrow> Inr (1, snprintf tsize ''unknown'')
       | Some blockpath \<Rightarrow> Inr (blockpath_type os blockpath tsize))"

definition read_1st :: "os \<Rightarrow> string \<Rightarrow> nat \<Rightarrow> int \<times> string" where
  "read_1st os path bufsize =
     (case os_text os path of
        None \<Rightarrow> (2, [])
      | Some content \<Rightarrow> (0, case fgets_all bufsize content of [] \<Rightarrow> [] | line # _ \<Rightarrow> line))"

text \<open>
  The path components below the first \<open>/block/\<close>, as the \<open>strtok\<close> loop collects them, and the
  text there (\<open>blockroot\<close>), \<open>None\<close> when the path has no \<open>/block/\<close>.
\<close>

definition block_nodes :: "string \<Rightarrow> string list" where
  "block_nodes path = (case strstr path ''/block/'' of None \<Rightarrow> [] | Some t \<Rightarrow> strtok_all ''/'' (drop 7 t))"

definition under_block_md :: "string \<Rightarrow> string \<Rightarrow> bool" where
  "under_block_md path path' =
     (case strstr path ''/block/'' of
        None \<Rightarrow> False
      | Some t \<Rightarrow> starts_with ''md'' (drop (length path - length (drop 7 t)) path'))"

text \<open>The last directory entry that the \<open>readdir\<close> loop copies into \<open>slave[128]\<close>, and the count.\<close>

definition last_slave :: "dirent list \<Rightarrow> (nat \<times> string) res" where
  "last_slave entries =
     (let names = filter (\<lambda>n. \<not> is_dot n) (map d_name entries)
      in res_fold (\<lambda>(n, s) name. and_then (strncpy 128 name) (\<lambda>s'. Inr (Suc n, s'))) (0, []) names)"

definition get_blkdev_parent :: "nat \<Rightarrow> os \<Rightarrow> dev_t \<Rightarrow> dev_t \<Rightarrow> string \<Rightarrow> nat \<Rightarrow> (int \<times> dev_t \<times> string) res" where
  "get_blkdev_parent fuel os devno parent mdname mdnamelen =
     and_then (find_devmm_block_path fuel os (snprintf 31 (majmin_text devno)) 255) (\<lambda>r.
       case r of
         None \<Rightarrow> Inr (1, parent, mdname)
       | Some blockpath \<Rightarrow>
           (let path = snprintf 255 blockpath; pnode = block_nodes path; sznode = length pnode
            in if sznode > 32 then Inr (5, parent, mdname)
               else if sznode > 1
               then (let (ret, d) = sysfs_blkdev_from_path os (snprintf 255 (''/dev/'' @ pnode ! (sznode - 2))) parent
                     in Inr (if ret = 0 then (0, d, mdname) else (1, parent, mdname)))
               else (let path1 = snprintf 255 (blockpath @ ''/slaves/'')
                     in case os_readdir os path1 of
                          None \<Rightarrow> Inr (2, parent, mdname)
                        | Some entries \<Rightarrow>
                            and_then (last_slave entries) (\<lambda>(filecount, slave).
                              if filecount = 0 then Inr (2, parent, mdname)
                              else if under_block_md path path1
                              then (let (ret, majmin) = read_1st os (snprintf 255 (blockpath @ ''/slaves/'' @ slave @ ''/../dev'')) 32;
                                        (ret2, d) = majmin_to_dev_t majmin parent
                                    in if ret \<noteq> 0 then Inr (3, parent, mdname)
                                       else if ret2 \<noteq> 0 then Inr (3, parent, mdname)
                                       else Inr (0, d, snprintf (mdnamelen - 1) (''/dev/'' @ slave)))
                              else if filecount \<noteq> 1 then Inr (4, parent, mdname)
                              else (let (ret, d) = sysfs_blkdev_from_path os (snprintf 255 (''/dev/'' @ slave)) parent
                                    in Inr (if ret = 0 then (0, d, mdname) else (1, parent, mdname)))))))"

definition get_one_blk_info :: "nat \<Rightarrow> os \<Rightarrow> dev_t \<Rightarrow> DeviceInfo \<Rightarrow> (int \<times> DeviceInfo) res" where
  "get_one_blk_info fuel os devno device =
     and_then (sysfs_blkdev_get_path fuel os devno 256) (\<lambda>r.
       case r of
         None \<Rightarrow> Inr (1, device)
       | Some devpath \<Rightarrow>
           (case after_last (CHR ''/'') devpath of
              None \<Rightarrow> Inl NullPointer
            | Some base \<Rightarrow>
                and_then (strncpy 128 base) (\<lambda>name.
                and_then (strncpy 128 devpath) (\<lambda>dev.
                and_then (get_blkdev_fstype os devno 32 (di_fstype device)) (\<lambda>(r1, fstype).
                and_then (get_blkdev_type fuel os devno 32) (\<lambda>(r2, type).
                  Inr (0, device\<lparr>di_name := name, di_dev := dev, di_maj_min := snprintf 31 (majmin_text devno),
                                 di_fstype := fstype, di_type := type\<rparr>)))))))"

definition myLsblk :: "nat \<Rightarrow> os \<Rightarrow> dev_t \<Rightarrow> DeviceInfo \<Rightarrow> DeviceInfo \<Rightarrow> (int \<times> DeviceInfo \<times> DeviceInfo) res" where
  "myLsblk fuel os devno device parent =
     and_then (get_one_blk_info fuel os devno device) (\<lambda>(ret, device1).
       if ret \<noteq> 0 then Inr (ret, device1, parent)
       else and_then (get_blkdev_parent fuel os devno 0 (di_md parent) 128) (\<lambda>(ret2, devno_parent, md).
         if ret2 \<noteq> 0
         then (if ret2 = 2 then Inr (0, device1, parent\<lparr>di_md := md\<rparr>) else Inr (ret2, device1, parent\<lparr>di_md := md\<rparr>))
         else and_then (get_one_blk_info fuel os devno_parent (parent\<lparr>di_md := md\<rparr>)) (\<lambda>(ret3, parent1).
           Inr (ret3, device1, parent1))))"

section \<open>Search\<close>

text \<open>
  How the search goes on from an entry of a directory: into a directory with the flag \<open>followlink\<close> kept, through
  a link only while the flag is set and without it afterwards; and the entry it looks for.
\<close>

definition entry_step :: "os \<Rightarrow> string \<Rightarrow> bool \<Rightarrow> dirent \<Rightarrow> string \<times> bool \<Rightarrow> bool" where
  "entry_step os base followlink e next \<longleftrightarrow>
     \<not> is_dot (d_name e) \<and> \<not> ingore_dev_dir (d_name e) \<and>
     (\<exists>s. os_lstat os (path_join base (d_name e) 256) = Some s \<and>
       (st_kind s = S_DIR \<and> next = (path_join base (d_name e) 256, followlink) \<or>
        st_kind s = S_LNK \<and> followlink \<and> next = (path_join base (d_name e) 256, False)))"

definition dev_entry :: "os \<Rightarrow> string \<Rightarrow> string \<Rightarrow> dirent \<Rightarrow> bool" where
  "dev_entry os majmin base e \<longleftrightarrow>
     d_name e = ''dev'' \<and> (\<exists>s. os_lstat os (path_join base ''dev'' 256) = Some s \<and> st_kind s = S_REG) \<and>
     dev_file_matches os (path_join base ''dev'' 256) majmin"

inductive search_step :: "os \<Rightarrow> string \<times> bool \<Rightarrow> string \<times> bool \<Rightarrow> bool" for os where
  "os_readdir os base = Some es \<Longrightarrow> e \<in> set es \<Longrightarrow> entry_step os base followlink e next \<Longrightarrow>
   search_step os (base, followlink) next"

inductive_simps search_step_iff: "search_step os (base, followlink) next"

definition holds_dev :: "os \<Rightarrow> string \<Rightarrow> string \<Rightarrow> bool" where
  "holds_dev os majmin base \<longleftrightarrow> (\<exists>es e. os_readdir os base = Some es \<and> e \<in> set es \<and> dev_entry os majmin base e)"

text \<open>An answer of the search from a directory: one of those it can reach, or that there is none.\<close>

definition search_answer :: "os \<Rightarrow> string \<Rightarrow> string \<times> bool \<Rightarrow> string option \<Rightarrow> bool" where
  "search_answer os majmin start r \<longleftrightarrow>
     (case r of
        Some p \<Rightarrow> \<exists>b f. (search_step os)\<^sup>*\<^sup>* start (b, f) \<and> holds_dev os majmin b \<and> p = snprintf 256 b
      | None \<Rightarrow> \<forall>b f. (search_step os)\<^sup>*\<^sup>* start (b, f) \<longrightarrow> \<not> holds_dev os majmin b)"

definition entries_answer :: "os \<Rightarrow> string \<Rightarrow> string \<Rightarrow> bool \<Rightarrow> dirent list \<Rightarrow> string option \<Rightarrow> bool" where
  "entries_answer os majmin base fl es r \<longleftrightarrow>
     (case r of
        Some p \<Rightarrow> \<exists>e \<in> set es. dev_entry os majmin base e \<and> p = snprintf 256 base \<or>
                    (\<exists>x. entry_step os base fl e x \<and> search_answer os majmin x (Some p))
      | None \<Rightarrow> \<forall>e \<in> set es. \<not> dev_entry os majmin base e \<and> (\<forall>x. entry_step os base fl e x \<longrightarrow> search_answer os majmin x None))"

lemma entries_answer_Nil [simp]: "entries_answer os majmin base fl [] r \<longleftrightarrow> r = None"
  by (cases r) (auto simp: entries_answer_def)

lemma entries_answer_skip:
  assumes "entries_answer os majmin base fl es r" "\<not> dev_entry os majmin base e"
    and "\<And>x. entry_step os base fl e x \<Longrightarrow> search_answer os majmin x None"
  shows "entries_answer os majmin base fl (e # es) r"
  using assms by (cases r) (auto simp: entries_answer_def)

lemma entries_answer_found:
  "entry_step os base fl e x \<Longrightarrow> search_answer os majmin x (Some p) \<Longrightarrow> entries_answer os majmin base fl (e # es) (Some p)"
  by (cases x) (auto simp: entries_answer_def)

lemma search_entries_answer:
  assumes "\<And>e path f. e \<in> set es \<Longrightarrow> entry_step os base fl e (path, f) \<Longrightarrow>
     \<exists>r. searchDevDirs fuel os majmin path f = Inr r \<and> search_answer os majmin (path, f) r"
  shows "\<exists>r. search_entries fuel os majmin base fl es = Inr r \<and> entries_answer os majmin base fl es r"
  using assms
proof (induction es)
  case Nil
  then show ?case by simp
next
  case (Cons e es)
  let ?path = "path_join base (d_name e) 256"
  obtain r where rest: "search_entries fuel os majmin base fl es = Inr r" "entries_answer os majmin base fl es r"
    using Cons.IH Cons.prems by (meson list.set_intros(2))
  show ?case
  proof (cases "\<exists>f. entry_step os base fl e (?path, f)")
    case True
    then obtain f where f: "entry_step os base fl e (?path, f)" by blast
    obtain q where q: "searchDevDirs fuel os majmin ?path f = Inr q" "search_answer os majmin (?path, f) q"
      using Cons.prems [OF _ f] by auto
    have only: "entry_step os base fl e x \<Longrightarrow> x = (?path, f)" for x using f by (auto simp: entry_step_def)
    have nd: "\<not> dev_entry os majmin base e" using f by (auto simp: entry_step_def dev_entry_def)
    have "search_entries fuel os majmin base fl (e # es) = (case q of Some found \<Rightarrow> Inr (Some found) | None \<Rightarrow> Inr r)"
      using f q(1) rest(1) by (auto simp: entry_step_def Let_def split: option.split)
    moreover have "entries_answer os majmin base fl (e # es) (case q of Some found \<Rightarrow> Some found | None \<Rightarrow> r)"
      using q(2) only entries_answer_skip [OF rest(2) nd] entries_answer_found [OF f] by (cases q) auto
    ultimately show ?thesis by (cases q) auto
  next
    case no: False
    then have none: "\<not> entry_step os base fl e x" for x by (auto simp: entry_step_def)
    show ?thesis
    proof (cases "dev_entry os majmin base e")
      case True
      then have "search_entries fuel os majmin base fl (e # es) = Inr (Some (snprintf 256 base))"
        by (auto simp: dev_entry_def is_dot_def)
      then show ?thesis using True by (auto simp: entries_answer_def)
    next
      case False
      then have "search_entries fuel os majmin base fl (e # es) = Inr r"
        using no rest(1) by (auto simp: entry_step_def dev_entry_def Let_def split: option.split)
      then show ?thesis using entries_answer_skip [OF rest(2) False] none by blast
    qed
  qed
qed

lemma search_answer_dir:
  assumes "os_readdir os base = Some es" "entries_answer os majmin base fl es r"
  shows "search_answer os majmin (base, fl) r"
proof (cases r)
  case None
  have "\<not> holds_dev os majmin b" if "(search_step os)\<^sup>*\<^sup>* (base, fl) (b, f)" for b f
    using that
  proof (cases rule: converse_rtranclpE)
    case base
    then show ?thesis using assms None by (auto simp: holds_dev_def entries_answer_def)
  next
    case (step x)
    then obtain e where "e \<in> set es" "entry_step os base fl e x" using assms(1) by (auto simp: search_step_iff)
    then have "search_answer os majmin x None" using assms(2) None by (cases x) (auto simp: entries_answer_def)
    then show ?thesis using step(2) unfolding search_answer_def by simp blast
  qed
  then show ?thesis using None by (simp add: search_answer_def)
next
  case (Some p)
  then obtain e where e: "e \<in> set es" "dev_entry os majmin base e \<and> p = snprintf 256 base \<or>
      (\<exists>x. entry_step os base fl e x \<and> search_answer os majmin x (Some p))"
    using assms(2) by (auto simp: entries_answer_def)
  show ?thesis
  proof (cases "dev_entry os majmin base e \<and> p = snprintf 256 base")
    case True
    then show ?thesis using Some assms(1) e(1) unfolding search_answer_def holds_dev_def by fastforce
  next
    case False
    then obtain x where "search_step os (base, fl) x" "search_answer os majmin x (Some p)"
      using e assms(1) by (auto simp: search_step_iff)
    then show ?thesis using Some unfolding search_answer_def by (auto intro: converse_rtranclp_into_rtranclp)
  qed
qed

text \<open>Fuel is enough when no chain of that many steps starts at the directory.\<close>

lemma search_answers:
  "(\<And>x. \<not> (search_step os ^^ fuel) (base, fl) x) \<Longrightarrow>
   \<exists>r. searchDevDirs fuel os majmin base fl = Inr r \<and> search_answer os majmin (base, fl) r"
proof (induction fuel arbitrary: base fl)
  case 0
  then show ?case by auto
next
  case (Suc fuel)
  show ?case
  proof (cases "os_readdir os base")
    case None
    then have "\<not> search_step os (base, fl) x" for x by (simp add: search_step_iff)
    then have "search_answer os majmin (base, fl) None"
      using None by (auto simp: search_answer_def holds_dev_def elim: converse_rtranclpE)
    then show ?thesis using None by simp
  next
    case (Some es)
    have "\<exists>r. search_entries fuel os majmin base fl es = Inr r \<and> entries_answer os majmin base fl es r"
    proof (rule search_entries_answer)
      fix e path f
      assume "e \<in> set es" "entry_step os base fl e (path, f)"
      then have "search_step os (base, fl) (path, f)" using Some by (auto simp: search_step_iff)
      then show "\<exists>r. searchDevDirs fuel os majmin path f = Inr r \<and> search_answer os majmin (path, f) r"
        using Suc.prems by (intro Suc.IH) (blast intro: relpowp_Suc_I2)
    qed
    then show ?thesis using Some search_answer_dir [OF Some] by auto
  qed
qed

lemma replace_char_id: "a \<notin> set s \<Longrightarrow> replace_char a b s = s"
  by (induction s) auto

lemma sysfs_devname_roundtrip:
  "CHR ''/'' \<notin> set name \<Longrightarrow> sysfs_devname_dev_to_sys (sysfs_devname_sys_to_dev name) = name"
  unfolding sysfs_devname_dev_to_sys_def sysfs_devname_sys_to_dev_def by (induction name) auto

section \<open>Properties\<close>

text \<open>
  The string \<open>major:minor\<close> that the program prints for a device number is read back by
  \<open>majmin_to_dev_t\<close> as the same device number, for all 64-bit device numbers (also those whose
  major or minor number prints as a negative \<open>int\<close>) and whatever non-digit follows.
\<close>

theorem majmin_roundtrip:
  assumes "r = [] \<or> \<not> is_digit (hd r)"
  shows "majmin_to_dev_t (majmin_text d @ r) result = (0, d)"
proof -
  let ?a = "dec_of_int (sint (major d))" and ?b = "dec_of_int (sint (minor d))"
  have c: "CHR '':'' # ?b @ r = [] \<or> \<not> is_digit (hd (CHR '':'' # ?b @ r))" by simp
  have 1: "strtoull (?a @ CHR '':'' # ?b @ r) = of_int (sint (major d))"
    by (rule strtoull_dec_of_int [OF c sint_abs_bound])
  have 2: "strto_end (?a @ CHR '':'' # ?b @ r) = CHR '':'' # ?b @ r"
    unfolding strto_end_def scan_dec_dec_of_int [OF c] by simp
  have 3: "strtoull (?b @ r) = of_int (sint (minor d))"
    by (rule strtoull_dec_of_int [OF assms sint_abs_bound])
  show ?thesis
    by (simp add: majmin_to_dev_t_def majmin_text_def 1 2 3 Let_def ucast_scast makedev_major_minor)
qed

theorem majmin_roundtrip_witness: "majmin_to_dev_t (majmin_text 2049 @ [CHR 0x0A]) 0 = (0, 2049)"
  by (rule majmin_roundtrip) simp

text \<open>
  C32: \<open>searchDevDirs\<close> answers, and answers right, on every tree of directories of finite depth: when no chain
  of as many steps as the fuel starts at the directory (a step goes into a directory, or through a link
  if \<open>followlink\<close> is set, after which no link is followed; the dot entries and the ignored names are
  passed over), it returns without a fault. A path it returns is that of a directory so reached with a
  regular file \<open>dev\<close> whose first line is the wanted \<open>major:minor\<close>, and when it returns none, no
  directory it can reach has one.
\<close>

theorem searchDevDirs_correct:
  assumes "\<forall>x. \<not> (search_step os ^^ fuel) (base, followlink) x"
  shows "\<exists>r. searchDevDirs fuel os majmin base followlink = Inr r \<and>
     (\<forall>p. r = Some p \<longrightarrow> (\<exists>b f. (search_step os)\<^sup>*\<^sup>* (base, followlink) (b, f) \<and> holds_dev os majmin b \<and> p = snprintf 256 b)) \<and>
     (r = None \<longrightarrow> (\<forall>b f. (search_step os)\<^sup>*\<^sup>* (base, followlink) (b, f) \<longrightarrow> \<not> holds_dev os majmin b))"
  using search_answers [where os = os and fuel = fuel and base = base and fl = followlink and majmin = majmin] assms
  by (fastforce simp: search_answer_def split: option.splits)

definition sysblock_os :: os where
  "sysblock_os = quiet_os\<lparr>
     os_readdir := (\<lambda>p. if p = ''/sys/block'' then Some [\<lparr>d_ino = 1, d_type = 4, d_name = ''sda''\<rparr>]
                        else if p = ''/sys/block/sda'' then Some [\<lparr>d_ino = 2, d_type = 8, d_name = ''dev''\<rparr>] else None),
     os_lstat := (\<lambda>p. Some \<lparr>st_kind = (if p = ''/sys/block/sda'' then S_DIR else S_REG), st_dev = 0, st_rdev = 0, st_ino = 1, st_blksize = 4096, st_blocks = 8\<rparr>),
     os_text := (\<lambda>p. Some (''8:0'' @ [CHR 0x0A]))\<rparr>"

theorem searchDevDirs_correct_witness:
  "\<exists>r. searchDevDirs 2 sysblock_os ''8:0'' ''/sys/block'' True = Inr r \<and>
     (\<forall>p. r = Some p \<longrightarrow> (\<exists>b f. (search_step sysblock_os)\<^sup>*\<^sup>* (''/sys/block'', True) (b, f) \<and> holds_dev sysblock_os ''8:0'' b \<and> p = snprintf 256 b)) \<and>
     (r = None \<longrightarrow> (\<forall>b f. (search_step sysblock_os)\<^sup>*\<^sup>* (''/sys/block'', True) (b, f) \<longrightarrow> \<not> holds_dev sysblock_os ''8:0'' b))"
proof (rule searchDevDirs_correct)
  have 1: "search_step sysblock_os (''/sys/block'', True) x \<Longrightarrow> x = (''/sys/block/sda'', True)" for x
    by (auto simp: search_step_iff entry_step_def sysblock_os_def path_join_def snprintf_def)
  have 2: "\<not> search_step sysblock_os (''/sys/block/sda'', True) x" for x
    by (auto simp: search_step_iff entry_step_def sysblock_os_def path_join_def snprintf_def)
  show "\<forall>x. \<not> (search_step sysblock_os ^^ 2) (''/sys/block'', True) x"
    using 1 2 by (auto simp: numeral_2_eq_2 OO_def)
qed

text \<open>
  the file-system type that \<open>get_blkdev_fstype_from_mountinfo\<close> answers is the word after the
  FIRST hyphen of the line that mentions the device, in lower case. It is the type field of
  mountinfo only if no hyphen occurs before the separator.
\<close>

theorem mountinfo_first_hyphen:
  assumes txt1: "os_text os ''/proc/self/mountinfo'' = Some (pre @ ''-'' @ sp @ word @ '' '' @ rest @ [CHR 0x0A] @ others)"
    and pre: "\<exists>u v. pre = u @ '' '' @ majmin_text devno @ '' '' @ v" "CHR ''-'' \<notin> set pre"
    and sp: "set sp \<subseteq> {CHR '' ''}"
    and word: "word \<noteq> []" "CHR '' '' \<notin> set word" "length word < fstsize"
    and line: "CHR 0x0A \<notin> set (pre @ sp @ word @ rest)" "CHR 0x00 \<notin> set (pre @ sp @ word @ rest)"
      "length (pre @ ''-'' @ sp @ word @ '' '' @ rest) < 511"
  shows "get_blkdev_fstype_from_mountinfo os devno fstsize = Inr (0, toLowerCase word)"
proof -
  let ?mm = "'' '' @ majmin_text devno @ '' ''"
  let ?line = "pre @ ''-'' @ sp @ word @ '' '' @ rest"
  have fg: "fgets_all 512 (?line @ CHR 0x0A # others) = (?line @ [CHR 0x0A]) # fgets_all 512 others"
    using line by (intro fgets_all_line) auto
  obtain c t where ct: "pre = c # t" using pre(1) by (cases pre) auto
  have tk: "strtok ''-'' (?line @ [CHR 0x0A]) = Some (pre, sp @ word @ '' '' @ rest @ [CHR 0x0A])"
    using strtok_hit [of c "''-''" t "CHR ''-''" "sp @ word @ '' '' @ rest @ [CHR 0x0A]"] pre(2) ct by auto
  have sk: "strtok '' '' (sp @ x) = strtok '' '' x" for x
    using sp by (induction sp) (auto simp: strtok_skip)
  obtain d w where w: "word = d # w" using word(1) by (cases word) auto
  have tk2: "strtok '' '' (sp @ word @ '' '' @ rest @ [CHR 0x0A]) = Some (word, rest @ [CHR 0x0A])"
    unfolding sk using strtok_hit [of d "'' ''" w "CHR '' ''" "rest @ [CHR 0x0A]"] word(2) w by auto
  have has: "strstr pre ?mm \<noteq> None" using pre(1) strstr_sub [of pre ?mm] by auto
  have file': "os_text os ''/proc/self/mountinfo'' = Some (?line @ CHR 0x0A # others)" using txt1 by simp
  show ?thesis
    unfolding get_blkdev_fstype_from_mountinfo_def Let_def file' option.case fg mountinfo_loop.simps tk prod.case tk2
    using has word(3) by simp
qed

definition hyphen_os :: os where
  "hyphen_os = quiet_os\<lparr>os_text := (\<lambda>_. Some (''25 1 8:1 / /mnt/my-disk rw - ext4 /dev/sda1 rw'' @ [CHR 0x0A]))\<rparr>"

lemma majmin_text_sda1: "majmin_text 2049 = ''8:1''"
  by (simp add: majmin_text_def major_def minor_def dec_of_int_def dec_of_nat.simps digit_char_def char_of_def bit_0)

text \<open>The mount point \<open>/mnt/my-disk\<close> of an ext4 file system is taken for type \<open>disk\<close>.\<close>

theorem mountinfo_first_hyphen_witness:
  "get_blkdev_fstype_from_mountinfo hyphen_os 2049 32 = Inr (0, toLowerCase ''disk'')"
proof (rule mountinfo_first_hyphen [where pre = "''25 1 8:1 / /mnt/my''" and sp = "[]" and rest = "''rw - ext4 /dev/sda1 rw''" and others = "[]"])
  show "\<exists>u v. ''25 1 8:1 / /mnt/my'' = u @ '' '' @ majmin_text 2049 @ '' '' @ v"
    by (rule exI [of _ "''25 1''"], rule exI [of _ "''/ /mnt/my''"]) (simp add: majmin_text_sda1)
qed (simp_all add: hyphen_os_def)

text \<open>
  for a partition, whose directory under /sys ends in \<open>/block/disk/partition\<close>,
  \<open>get_blkdev_parent\<close> answers the device number of \<open>/dev/disk\<close>.
\<close>

theorem parent_of_partition:
  assumes path: "find_devmm_block_path fuel os (snprintf 31 (majmin_text devno)) 255 = Inr (Some blockpath)"
    and root: "strstr blockpath ''/block/'' = Some (''/block/'' @ disk @ ''/'' @ part)"
    and names: "disk \<noteq> []" "CHR ''/'' \<notin> set disk" "part \<noteq> []" "CHR ''/'' \<notin> set part" "length blockpath < 254" "length disk < 249"
    and st: "os_stat os (''/dev/'' @ disk) = Some st" "st_kind st = S_BLK"
  shows "get_blkdev_parent fuel os devno p md n = Inr (0, st_rdev st, md)"
proof -
  obtain c t where ct: "disk = c # t" using names(1) by (cases disk) auto
  obtain d w where dw: "part = d # w" using names(3) by (cases part) auto
  have "strtok ''/'' (disk @ ''/'' @ part) = Some (disk, part)"
    using strtok_hit [of c "''/''" t "CHR ''/''" part] names ct by auto
  moreover have "strtok ''/'' part = Some (part, [])"
    using strtok_last [of d "''/''" w] names dw by auto
  ultimately have nodes: "block_nodes blockpath = [disk, part]"
    using root by (simp add: block_nodes_def strtok_all.simps [of _ "disk @ _"] strtok_all.simps [of _ part] strtok_all.simps [of _ "[]"])
  have sn: "snprintf 255 blockpath = blockpath" "snprintf 255 (''/dev/'' @ disk) = ''/dev/'' @ disk"
    using names by simp_all
  show ?thesis unfolding get_blkdev_parent_def path
    using st names(6) by (simp only: and_then_Inr option.case Let_def sn nodes) (simp add: sysfs_blkdev_from_path_def starts_with_def)
qed

definition sda_os :: os where
  "sda_os = quiet_os\<lparr>os_access := (\<lambda>_. True), os_realpath := (\<lambda>_. Some ''/sys/devices/ata1/block/sda/sda1''),
     os_stat := (\<lambda>_. Some \<lparr>st_kind = S_BLK, st_dev = 6, st_rdev = 2048, st_ino = 11, st_blksize = 4096, st_blocks = 8\<rparr>)\<rparr>"

theorem parent_of_partition_witness: "get_blkdev_parent 5 sda_os 2049 0 [] 128 = Inr (0, 2048, [])"
  using parent_of_partition [of 5 sda_os 2049 "''/sys/devices/ata1/block/sda/sda1''" "''sda''" "''sda1''" _ 0 "[]" 128]
  by (simp add: sda_os_def find_devmm_block_path_def Let_def starts_with_def)

end
