(* ===== verification/Blk_Ranges.thy ===== *)
theory Blk_Ranges
  imports Blk_Dev
begin

text \<open>
  Where the data of a file lies, in \<^verbatim>\<open>src/src/blk.c\<close>: the range of a partition or a logical
  volume on its parent device (\<open>ext_parse_volume_range\<close>, \<open>lvm_parse_pvs_pestart\<close>,
  \<open>lvm_parse_volume_range\<close>) and the block numbers of a file (\<open>xfs_get_path_extents\<close> from the
  output of xfs_bmap, \<open>ext_get_inode_datablocks\<close> through the callback of \<open>lsblks\<close>, or from
  the output of debugfs in the build without e2fsprogs). Block lists are the values pushed on
  the vector; \<open>- 1\<close> marks the start of an extent, as in the code.
\<close>

section \<open>Scanning helpers\<close>

text \<open>\<open>sscanf(s, "%[0-9]SEP%[0-9]", a, b)\<close> with \<open>char a[64], b[64]\<close>: the count and the two texts.\<close>

definition scan_pair :: "string \<Rightarrow> string \<Rightarrow> (nat \<times> string \<times> string) res" where
  "scan_pair sep s =
     (case scan_digits s of
        None \<Rightarrow> Inr (0, [], [])
      | Some (a, r) \<Rightarrow>
          and_then (sprintf 64 a) (\<lambda>a.
            if starts_with sep r
            then (case scan_digits (drop (length sep) r) of
                    None \<Rightarrow> Inr (1, a, [])
                  | Some (b, _) \<Rightarrow> and_then (sprintf 64 b) (\<lambda>b. Inr (2, a, b)))
            else Inr (1, a, [])))"

text \<open>The loop \<open>while (istart <= iend) ... istart++\<close>; it cannot end when \<open>iend\<close> is the largest number.\<close>

function range_loop :: "u64 \<Rightarrow> u64 \<Rightarrow> u64 list" where
  "range_loop istart iend = (if istart \<le> iend \<and> iend \<noteq> - 1 then istart # range_loop (istart + 1) iend else [])"
  by pat_completeness auto
termination
proof (relation "measure (\<lambda>(i, e). Suc (unat e) - unat i)", goal_cases)
  case 1
  show ?case by simp
next
  case (2 i e)
  then have "unat i \<le> unat e" by (simp add: word_le_nat_alt)
  moreover have "e < - 1" using 2 by (simp add: word_le_less_eq [symmetric] order.not_eq_order_implies_strict)
  then have "unat (i + 1) = Suc (unat i)" using 2 by (intro unat_add_1_if_less [of i "- 1"]) auto
  ultimately show ?case by simp
qed

declare range_loop.simps [simp del]

definition block_range :: "u64 \<Rightarrow> u64 \<Rightarrow> u64 list res" where
  "block_range istart iend = (if istart \<le> iend \<and> iend = - 1 then Inl OutOfFuel else Inr (range_loop istart iend))"

section \<open>Partitions\<close>

definition ext_parse_volume_range :: "os \<Rightarrow> string \<Rightarrow> string \<Rightarrow> u64 \<Rightarrow> u64 \<Rightarrow> (int \<times> u64 \<times> u64) res" where
  "ext_parse_volume_range os dev volume sector_start sector_end =
     (let dev_basename = drop 5 dev; volume_basename = drop 5 volume
      in and_then (sprintf 1024 (''/sys/block/'' @ dev_basename @ ''/'' @ volume_basename @ ''/start'')) (\<lambda>path1.
         let tmp1 = snd (read_1st os path1 128)
         in if tmp1 = [] then Inr (1, sector_start, sector_end)
            else (let start = of_int (strtoll tmp1)
                  in and_then (sprintf 1024 (''/sys/block/'' @ dev_basename @ ''/'' @ volume_basename @ ''/size'')) (\<lambda>path2.
                     let tmp2 = snd (read_1st os path2 128)
                     in if tmp2 = [] then Inr (1, start, sector_end)
                        else Inr (0, start, start + of_int (strtoll tmp2) - 1)))))"

section \<open>Logical volumes\<close>

fun pestart_loop :: "nat \<Rightarrow> nat \<Rightarrow> u64 \<Rightarrow> string list \<Rightarrow> nat \<times> u64" where
  "pestart_loop nLine matched pe_start [] = (matched, pe_start)"
| "pestart_loop nLine matched pe_start (buffer # buffers) =
     (let nLine' = nLine + 1; token = trimch (cut_newline buffer) (CHR '' '')
      in if nLine' = 1
         then (if token \<noteq> ''1st PE'' then (matched, pe_start)
               else pestart_loop nLine' (matched + 1) pe_start buffers)
         else if nLine' = 2 then (matched + 1, of_int (strtoll token))
         else pestart_loop nLine' matched pe_start buffers)"

definition lvm_parse_pvs_pestart :: "os \<Rightarrow> string \<Rightarrow> u64 \<Rightarrow> (int \<times> u64) res" where
  "lvm_parse_pvs_pestart os dev pe_start =
     (let (found, cmd_app) = find_command (os_path_env os) (os_access_x os) ''pvs'' 255
      in if found = 0 then Inr (2, pe_start)
         else and_then (sprintf 512 (cmd_app @ '' -o pe_start --units s '' @ dev)) (\<lambda>cmd.
           case os_popen os cmd of
             None \<Rightarrow> Inr (2, pe_start)
           | Some (out, _) \<Rightarrow>
               (let (matched, pe) = pestart_loop 0 0 pe_start (fgets_all 512 out)
                in Inr (if matched \<noteq> 2 then 1 else 0, pe))))"

text \<open>\<open>sscanf(token, "%[0-9] to %[0-9]", szFrom, szTo)\<close>: blanks in the format match any white space.\<close>

definition scan_from_to :: "string \<Rightarrow> (nat \<times> string \<times> string) res" where
  "scan_from_to s =
     (case scan_digits s of
        None \<Rightarrow> Inr (0, [], [])
      | Some (a, r) \<Rightarrow>
          and_then (sprintf 64 a) (\<lambda>a.
            let r1 = dropWhile is_space r
            in if starts_with ''to'' r1
               then (case scan_digits (dropWhile is_space (drop 2 r1)) of
                       None \<Rightarrow> Inr (1, a, [])
                     | Some (b, _) \<Rightarrow> and_then (sprintf 64 b) (\<lambda>b. Inr (2, a, b)))
               else Inr (1, a, [])))"

record lvm_state =
  lv_matched :: nat
  lv_nLine :: int
  lv_nLine_PE :: int
  lv_from :: string
  lv_to :: string
  lv_start :: u64
  lv_end :: u64
  lv_size :: u64

text \<open>One line of pvdisplay; the flag says whether the loop is left.\<close>

definition volume_line :: "os \<Rightarrow> string \<Rightarrow> lvm_state \<Rightarrow> string \<Rightarrow> (bool \<times> lvm_state) res" where
  "volume_line os volume s buffer =
     (let token = trimch (cut_newline buffer) (CHR '' '');
          s1 = s\<lparr>lv_nLine := lv_nLine s + 1\<rparr>;
          s2 = (if starts_with ''PE Size '' token
                then s1\<lparr>lv_size := of_int (strtoll (trimch (drop 8 token) (CHR '' ''))), lv_matched := lv_matched s1 + 1\<rparr>
                else s1)
      in and_then (if starts_with ''Physical extent '' token
                   then (let t = trimch (drop 16 token) (CHR '' '')
                         in and_then (scan_from_to t) (\<lambda>(n, a, b).
                            Inr (t, if n = 2 then s2\<lparr>lv_from := a, lv_to := b, lv_nLine_PE := lv_nLine s2\<rparr>
                                    else if n = 1 then s2\<lparr>lv_from := a\<rparr> else s2)))
                   else Inr (token, s2)) (\<lambda>(token', s3).
         if lv_nLine s3 = lv_nLine_PE s3 + 1 \<and> starts_with (''Logical volume'' @ [CHR 0x09]) token'
         then (case os_realpath os (trimch (drop 15 token') (CHR '' '')) of
                 None \<Rightarrow> Inr (False, s3)
               | Some p \<Rightarrow>
                   and_then (sprintf 256 p) (\<lambda>szPath.
                     if szPath = volume
                     then Inr (True, s3\<lparr>lv_start := of_int (strtoll (lv_from s3)), lv_end := of_int (strtoll (lv_to s3)),
                                        lv_matched := lv_matched s3 + 1\<rparr>)
                     else Inr (False, s3)))
         else Inr (False, s3)))"

fun volume_loop :: "os \<Rightarrow> string \<Rightarrow> lvm_state \<Rightarrow> string list \<Rightarrow> lvm_state res" where
  "volume_loop os volume s [] = Inr s"
| "volume_loop os volume s (buffer # buffers) =
     and_then (volume_line os volume s buffer) (\<lambda>(stop, s'). if stop then Inr s' else volume_loop os volume s' buffers)"

definition lvm_parse_volume_range :: "os \<Rightarrow> string \<Rightarrow> string \<Rightarrow> u64 \<Rightarrow> u64 \<Rightarrow> u64 \<Rightarrow> (int \<times> u64 \<times> u64 \<times> u64) res" where
  "lvm_parse_volume_range os dev volume pe_start pe_end pe_size =
     (let (found, cmd_app) = find_command (os_path_env os) (os_access_x os) ''pvdisplay'' 255
      in if found = 0 then Inr (2, pe_start, pe_end, pe_size)
         else and_then (sprintf 512 (cmd_app @ '' -m --units s '' @ dev)) (\<lambda>cmd.
           case os_popen os cmd of
             None \<Rightarrow> Inr (2, pe_start, pe_end, pe_size)
           | Some (out, _) \<Rightarrow>
               and_then (volume_loop os volume
                   \<lparr>lv_matched = 0, lv_nLine = 0, lv_nLine_PE = - 1, lv_from = [], lv_to = [],
                    lv_start = pe_start, lv_end = pe_end, lv_size = pe_size\<rparr> (fgets_all 512 out)) (\<lambda>s.
                 Inr (if lv_matched s \<noteq> 2 then 1 else 0, lv_start s, lv_end s, lv_size s))))"

section \<open>Blocks of a file\<close>

text \<open>\<open>pclose\<close> and \<open>WIFEXITED\<close>: the exit status, or 1 when the command did not exit.\<close>

definition exit_status :: "int option \<Rightarrow> int" where
  "exit_status ret = (case ret of Some st \<Rightarrow> st | None \<Rightarrow> 1)"

text \<open>A line of xfs_bmap; the state is the block vector and the count.\<close>

definition extent_line :: "u64 list \<times> nat \<Rightarrow> string \<Rightarrow> (u64 list \<times> nat) res" where
  "extent_line s buffer =
     (case strstr buffer '']:'' of
        None \<Rightarrow> Inr s
      | Some token \<Rightarrow>
          and_then (scan_pair ''..'' (trimch (drop 2 token) (CHR '' ''))) (\<lambda>(nssc, start, ende).
            if nssc = 2
            then and_then (block_range (strtoull start) (strtoull ende)) (\<lambda>bs.
                   Inr (fst s @ - 1 # bs, snd s + length bs))
            else Inr s))"

definition xfs_get_path_extents :: "os \<Rightarrow> string \<Rightarrow> u64 list \<Rightarrow> (int \<times> u64 list \<times> nat) res" where
  "xfs_get_path_extents os path pblocks =
     (let (found, cmd_app) = find_command (os_path_env os) (os_access_x os) ''xfs_bmap'' 255
      in if found = 0 then Inr (2, pblocks, 0)
         else (case os_popen os (snprintf 255 (cmd_app @ '' '' @ [CHR 0x22] @ path @ [CHR 0x22])) of
                 None \<Rightarrow> Inr (2, pblocks, 0)
               | Some (out, ret) \<Rightarrow>
                   and_then (res_fold extent_line (pblocks, 0) (fgets_all 1024 out)) (\<lambda>(blocks, pcount).
                     Inr (exit_status ret, blocks, pcount))))"

text \<open>The callback that \<open>lsblks\<close> calls for each data block.\<close>

definition lsb_cb :: "u64 list \<times> nat \<Rightarrow> u64 \<Rightarrow> u64 list \<times> nat" where
  "lsb_cb lb blknum =
     ((if snd lb = 0 then fst lb @ [- 1] else fst lb) @ [blknum], snd lb + 1)"

text \<open>
  \<open>lsblks\<close> calls its callback in order on the data blocks and its result is ignored. It enters
  as the function that runs a callback from a state.
\<close>

type_synonym 's lsblks_fn = "string \<Rightarrow> u64 \<Rightarrow> ('s \<Rightarrow> u64 \<Rightarrow> 's) \<Rightarrow> 's \<Rightarrow> (int \<times> 's) res"

definition ext_get_inode_datablocks ::
  "(u64 list \<times> nat) lsblks_fn \<Rightarrow> string \<Rightarrow> u64 \<Rightarrow> u64 list \<Rightarrow> (int \<times> u64 list \<times> nat) res" where
  "ext_get_inode_datablocks lsblks dev ino pblocks =
     and_then (lsblks dev ino lsb_cb (pblocks, 0)) (\<lambda>(ret, blocks, pcount). Inr (0, blocks, pcount))"

definition ext_get_path_datablocks ::
  "(u64 list \<times> nat) lsblks_fn \<Rightarrow> os \<Rightarrow> string \<Rightarrow> string \<Rightarrow> u64 list \<Rightarrow> nat \<Rightarrow> (int \<times> u64 list \<times> nat) res" where
  "ext_get_path_datablocks lsblks os dev path pblocks pcount =
     (case os_stat os path of
        None \<Rightarrow> Inr (- 1, pblocks, pcount)
      | Some fs \<Rightarrow> ext_get_inode_datablocks lsblks dev (st_ino fs) pblocks)"

section \<open>Blocks of a file, from debugfs\<close>

text \<open>
  The build without e2fsprogs reads the line of block numbers that debugfs prints. The state is
  \<open>matched\<close>, the block vector and the count; the flag says whether the inner loop is left.
\<close>

definition debugfs_token :: "int \<times> u64 list \<times> nat \<Rightarrow> string \<Rightarrow> (bool \<times> int \<times> u64 list \<times> nat) res" where
  "debugfs_token s token0 =
     (case s of (matched, blocks, pcount) \<Rightarrow>
      let token1 = dropWhile (\<lambda>c. c = CHR '' '') token0
      in if starts_with ''(ETB'' token1 then Inr (False, s)
         else case strstr token1 '':'' of
           None \<Rightarrow> Inr (True, - 1, blocks, pcount)
         | Some token \<Rightarrow>
             and_then (scan_pair ''-'' (dropWhile (\<lambda>c. c = CHR '' '') (drop 1 token))) (\<lambda>(nssc, start, ende).
               if nssc = 1 then Inr (False, matched, blocks @ [strtoull start], pcount + 1)
               else if nssc = 2
               then and_then (block_range (strtoull start) (strtoull ende)) (\<lambda>bs.
                      Inr (False, matched, blocks @ bs, pcount + length bs))
               else Inr (False, - 1, blocks, pcount)))"

fun debugfs_tokens :: "int \<times> u64 list \<times> nat \<Rightarrow> string list \<Rightarrow> (int \<times> u64 list \<times> nat) res" where
  "debugfs_tokens s [] = Inr s"
| "debugfs_tokens s (token # tokens) =
     and_then (debugfs_token s token) (\<lambda>(stop, s'). if stop then Inr s' else debugfs_tokens s' tokens)"

fun debugfs_loop :: "int \<times> u64 list \<times> nat \<Rightarrow> string list \<Rightarrow> (int \<times> u64 list \<times> nat) res" where
  "debugfs_loop s [] = Inr s"
| "debugfs_loop (matched, blocks, pcount) (line # lines) =
     (let buffer = cut_newline line
      in if matched = 1
         then (case strtok_all '','' buffer of
                 [] \<Rightarrow> Inr (matched, blocks, pcount)
               | tokens \<Rightarrow> and_then (debugfs_tokens (matched, blocks @ [- 1], pcount) tokens) (\<lambda>(matched, blocks, pcount).
                             Inr (matched + 1, blocks, pcount)))
         else if matched = 0 \<and> (starts_with ''BLOCKS:'' buffer \<or> starts_with ''EXTENTS:'' buffer)
         then debugfs_loop (matched + 1, blocks, pcount) lines
         else debugfs_loop (matched, blocks, pcount) lines)"

text \<open>The argument \<open>pipefd\<close> is the write end of the pipe that \<open>pipe\<close> opened, \<open>None\<close> if it failed.\<close>

definition debugfs_inode_datablocks :: "os \<Rightarrow> nat option \<Rightarrow> string \<Rightarrow> u64 \<Rightarrow> u64 list \<Rightarrow> (int \<times> u64 list \<times> nat) res" where
  "debugfs_inode_datablocks os pipefd dev ino pblocks =
     (let (found, cmd_app) = find_command (os_path_env os) (os_access_x os) ''debugfs'' 255
      in if found = 0 then Inr (2, pblocks, 0)
         else case pipefd of
           None \<Rightarrow> Inr (5, pblocks, 0)
         | Some fd \<Rightarrow>
             (case os_popen os (snprintf 255 (cmd_app @ '' '' @ dev @ '' -R '' @ [CHR 0x27] @ ''stat <'' @ dec_of_nat (unat ino) @ ''>'' @ [CHR 0x27] @ '' 2>&'' @ dec_of_nat fd)) of
                None \<Rightarrow> Inr (2, pblocks, 0)
              | Some (out, ret) \<Rightarrow>
                  and_then (debugfs_loop (0, pblocks, 0) (fgets_all 2048 out)) (\<lambda>(matched, blocks, pcount).
                    Inr (if matched \<noteq> 2 then 1 else 0, blocks, pcount))))"

section \<open>Facts\<close>

lemma range_loop_upto:
  "b \<noteq> - 1 \<Longrightarrow> range_loop a b = map of_nat [unat a..<Suc (unat b)]"
proof (induction a b rule: range_loop.induct)
  case (1 a b)
  show ?case
  proof (cases "a \<le> b")
    case True
    then have le: "unat a \<le> unat b" by (simp add: word_le_nat_alt)
    have "b < - 1" using 1 by (simp add: order.not_eq_order_implies_strict)
    then have "unat (a + 1) = Suc (unat a)" using True by (intro unat_add_1_if_less [of a "- 1"]) auto
    then have "range_loop a b = a # map of_nat [Suc (unat a)..<Suc (unat b)]"
      using 1 True by (simp add: range_loop.simps [of a b])
    moreover have "[unat a..<Suc (unat b)] = unat a # [Suc (unat a)..<Suc (unat b)]" using le by (intro upt_conv_Cons) simp
    ultimately show ?thesis by (simp del: upt_Suc)
  next
    case False
    then have "unat b < unat a" by (simp add: word_le_nat_alt)
    with False show ?thesis by (simp add: range_loop.simps [of a b])
  qed
qed

lemma block_range_upto:
  assumes "e < 2 ^ 64 - 1" and "s \<le> e"
  shows "block_range (of_nat s) (of_nat e) = Inr (map of_nat [s..<Suc e])"
proof -
  have u: "unat (of_nat k :: u64) = k" if "k < 2 ^ 64 - 1" for k using that by (simp add: unat_of_nat)
  have "unat (- 1 :: u64) = 2 ^ 64 - 1" by (simp add: unsigned_minus_1_eq_mask mask_eq_exp_minus_1)
  then have "(of_nat e :: u64) \<noteq> - 1" using u [of e] assms by (metis nat_neq_iff)
  then show ?thesis using assms u [of e] u [of s] by (simp add: block_range_def range_loop_upto)
qed

lemma dec_of_nat_short: "n < 2 ^ 64 \<Longrightarrow> length (dec_of_nat n) < 64"
  using dec_of_nat_length_le [of n 20] by simp

lemma scan_pair_printed:
  assumes "m < 2 ^ 64" "n < 2 ^ 64" "sep \<noteq> []" "\<not> is_digit (hd sep)" "r = [] \<or> \<not> is_digit (hd r)"
  shows "scan_pair sep (dec_of_nat m @ sep @ dec_of_nat n @ r) = Inr (2, dec_of_nat m, dec_of_nat n)"
  using assms dec_of_nat_short [of m] dec_of_nat_short [of n]
  by (simp add: scan_pair_def)

lemma scan_pair_single:
  assumes "m < 2 ^ 64" "r = [] \<or> (\<not> is_digit (hd r) \<and> \<not> starts_with sep r)" "sep \<noteq> []"
  shows "scan_pair sep (dec_of_nat m @ r) = Inr (1, dec_of_nat m, [])"
  using assms dec_of_nat_short [of m] scan_digits_dec_of_nat [of r m] scan_digits_dec_of_nat [of "[]" m]
  by (auto simp: scan_pair_def starts_with_def)

lemma strstr_pair: "c \<notin> set pre \<Longrightarrow> strstr (pre @ c # d # s) [c, d] = Some (c # d # s)"
  by (induction pre) (auto simp: starts_with_def)

lemma strstr_absent: "c \<notin> set s \<Longrightarrow> strstr s (c # p) = None"
  by (induction s) (auto simp: starts_with_def)

section \<open>Output of the tools\<close>

text \<open>
  The lines xfs_bmap(8) prints: the path and a colon, then for each extent its number, the range
  of file offsets and the range of blocks, or \<open>hole\<close>.
\<close>

datatype bmap_extent = Extent nat nat nat nat | Hole nat nat

fun bmap_line :: "nat \<Rightarrow> bmap_extent \<Rightarrow> string" where
  "bmap_line k (Extent a b s e) =
     [CHR 0x09] @ dec_of_nat k @ '': ['' @ dec_of_nat a @ ''..'' @ dec_of_nat b @ '']: '' @ dec_of_nat s @ ''..'' @ dec_of_nat e @ [CHR 0x0A]"
| "bmap_line k (Hole a b) =
     [CHR 0x09] @ dec_of_nat k @ '': ['' @ dec_of_nat a @ ''..'' @ dec_of_nat b @ '']: hole'' @ [CHR 0x0A]"

fun bmap_lines :: "nat \<Rightarrow> bmap_extent list \<Rightarrow> string" where
  "bmap_lines k [] = []"
| "bmap_lines k (x # xs) = bmap_line k x @ bmap_lines (Suc k) xs"

definition bmap_text :: "string \<Rightarrow> bmap_extent list \<Rightarrow> string" where
  "bmap_text path xs = path @ '':'' @ [CHR 0x0A] @ bmap_lines 0 xs"

fun bmap_ok :: "bmap_extent \<Rightarrow> bool" where
  "bmap_ok (Extent a b s e) \<longleftrightarrow> a < 2 ^ 64 \<and> b < 2 ^ 64 \<and> s \<le> e \<and> e < 2 ^ 64 - 1"
| "bmap_ok (Hole a b) \<longleftrightarrow> a < 2 ^ 64 \<and> b < 2 ^ 64"

fun bmap_blocks :: "bmap_extent \<Rightarrow> u64 list" where
  "bmap_blocks (Extent a b s e) = - 1 # map of_nat [s..<Suc e]"
| "bmap_blocks (Hole a b) = []"

fun bmap_count :: "bmap_extent \<Rightarrow> nat" where
  "bmap_count (Extent a b s e) = Suc e - s"
| "bmap_count (Hole a b) = 0"

lemma dec_of_nat_free: "\<not> is_digit c \<Longrightarrow> c \<notin> set (dec_of_nat n)"
  using dec_of_nat_digits by blast

lemma not_digit_marks [simp]: "\<not> is_digit (CHR '']'')" "\<not> is_digit (CHR ''['')" "\<not> is_digit (CHR 0x09)" "\<not> is_digit (CHR ''h'')"
  by (simp_all add: is_digit_def)

lemma extent_line_Extent:
  assumes "bmap_ok (Extent a b s e)"
  shows "extent_line (bs, n) (bmap_line k (Extent a b s e)) =
           Inr (bs @ bmap_blocks (Extent a b s e), n + bmap_count (Extent a b s e))"
proof -
  let ?tail = "dec_of_nat s @ ''..'' @ dec_of_nat e @ [CHR 0x0A]"
  have 1: "strstr (bmap_line k (Extent a b s e)) '']:'' = Some ('']:'' @ '' '' @ ?tail)"
    using strstr_pair [of "CHR '']''" "[CHR 0x09] @ dec_of_nat k @ '': ['' @ dec_of_nat a @ ''..'' @ dec_of_nat b" "CHR '':''" "'' '' @ ?tail"]
    by (simp add: dec_of_nat_free)
  have "hd ?tail \<noteq> CHR '' ''"
    using dec_of_nat_free [of "CHR '' ''" s] hd_in_set [of "dec_of_nat s"] by (metis dec_of_nat_nonempty hd_append not_digits(2))
  then have 2: "trimch ('' '' @ ?tail) (CHR '' '') = ?tail"
    using trimch_bracketed [of ?tail "CHR '' ''" 1 0] by simp
  have 3: "scan_pair ''..'' ?tail = Inr (2, dec_of_nat s, dec_of_nat e)"
    using assms by (intro scan_pair_printed) auto
  have 4: "strtoull (dec_of_nat s) = of_nat s" "strtoull (dec_of_nat e) = of_nat e"
    using strtoull_dec_of_nat [of s "[]"] strtoull_dec_of_nat [of e "[]"] assms by auto
  have "extent_line (bs, n) (bmap_line k (Extent a b s e)) =
          and_then (block_range (of_nat s) (of_nat e)) (\<lambda>cs. Inr (bs @ - 1 # cs, n + length cs))"
    unfolding extent_line_def 1 option.case using 2 3 4 by simp
  then show ?thesis using block_range_upto [of e s] assms by (simp del: upt_Suc)
qed

lemma extent_line_Hole: "extent_line (bs, n) (bmap_line k (Hole a b)) = Inr (bs, n)"
proof -
  have 1: "strstr (bmap_line k (Hole a b)) '']:'' = Some ('']:'' @ '' '' @ ''hole'' @ [CHR 0x0A])"
    using strstr_pair [of "CHR '']''" "[CHR 0x09] @ dec_of_nat k @ '': ['' @ dec_of_nat a @ ''..'' @ dec_of_nat b" "CHR '':''" "'' '' @ ''hole'' @ [CHR 0x0A]"]
    by (simp add: dec_of_nat_free)
  have 2: "trimch ('' '' @ ''hole'' @ [CHR 0x0A]) (CHR '' '') = ''hole'' @ [CHR 0x0A]"
    using trimch_bracketed [of "''hole'' @ [CHR 0x0A]" "CHR '' ''" 1 0] by simp
  show ?thesis unfolding extent_line_def 1 option.case using 2 by (simp add: scan_pair_def scan_digits_def)
qed

lemma bmap_line_split:
  assumes "bmap_ok x" and "k < 2 ^ 64"
  shows "fgets_all 1024 (bmap_line k x @ r) = bmap_line k x # fgets_all 1024 r"
proof -
  have "fgets_all 1024 (butlast (bmap_line k x) @ CHR 0x0A # r) = (butlast (bmap_line k x) @ [CHR 0x0A]) # fgets_all 1024 r"
  proof (rule fgets_all_line)
    show "Suc (length (butlast (bmap_line k x))) < 1024"
    proof (cases x)
      case (Extent a b s e)
      then show ?thesis using assms dec_of_nat_short [of k] dec_of_nat_short [of a] dec_of_nat_short [of b]
          dec_of_nat_short [of s] dec_of_nat_short [of e] by simp
    next
      case (Hole a b)
      then show ?thesis using assms dec_of_nat_short [of k] dec_of_nat_short [of a] dec_of_nat_short [of b] by simp
    qed
  qed (cases x; simp add: butlast_append dec_of_nat_free)+
  moreover have "butlast (bmap_line k x) @ [CHR 0x0A] = bmap_line k x"
    by (cases x) (simp_all add: butlast_append)
  ultimately show ?thesis by (metis append.assoc append_Cons append_Nil)
qed

lemma bmap_fold:
  assumes "list_all bmap_ok xs" and "k + length xs < 2 ^ 64"
  shows "res_fold extent_line (bs, n) (fgets_all 1024 (bmap_lines k xs)) =
           Inr (bs @ concat (map bmap_blocks xs), n + sum_list (map bmap_count xs))"
  using assms
proof (induction xs arbitrary: k bs n)
  case Nil
  then show ?case by simp
next
  case (Cons x xs)
  then have "extent_line (bs, n) (bmap_line k x) = Inr (bs @ bmap_blocks x, n + bmap_count x)"
    using extent_line_Extent extent_line_Hole by (cases x) (auto simp del: bmap_line.simps bmap_ok.simps)
  moreover have "fgets_all 1024 (bmap_lines k (x # xs)) = bmap_line k x # fgets_all 1024 (bmap_lines (Suc k) xs)"
    using Cons.prems by (simp add: bmap_line_split)
  ultimately show ?case using Cons by (simp del: bmap_line.simps)
qed

section \<open>Properties\<close>

text \<open>
  C28: reading what xfs_bmap prints gives the block numbers of the extents, in order, with the
  mark \<open>- 1\<close> at the start of each extent, no blocks for holes, and the count of the blocks, for
  every list of extents with block numbers below \<open>2^64 - 1\<close>.
\<close>

theorem xfs_extents_roundtrip:
  assumes "find_command (os_path_env os) (os_access_x os) ''xfs_bmap'' 255 = (1, app)"
    and "os_popen os (snprintf 255 (app @ '' '' @ [CHR 0x22] @ path @ [CHR 0x22])) = Some (bmap_text path xs, Some 0)"
    and path: "CHR 0x0A \<notin> set path" "CHR 0x00 \<notin> set path" "CHR '']'' \<notin> set path" "length path < 1000"
    and "list_all bmap_ok xs" and "length xs < 2 ^ 64"
  shows "xfs_get_path_extents os path pblocks =
           Inr (0, pblocks @ concat (map bmap_blocks xs), sum_list (map bmap_count xs))"
proof -
  have "fgets_all 1024 (bmap_text path xs) = (path @ '':'' @ [CHR 0x0A]) # fgets_all 1024 (bmap_lines 0 xs)"
    using fgets_all_line [of "path @ '':''" 1024 "bmap_lines 0 xs"] path by (simp add: bmap_text_def)
  moreover have "extent_line s (path @ '':'' @ [CHR 0x0A]) = Inr s" for s
    using path strstr_absent [of "CHR '']''" "path @ '':'' @ [CHR 0x0A]" "'':''"] by (simp add: extent_line_def)
  ultimately have "res_fold extent_line (pblocks, 0) (fgets_all 1024 (bmap_text path xs)) =
      Inr (pblocks @ concat (map bmap_blocks xs), sum_list (map bmap_count xs))"
    using bmap_fold [of xs 0 pblocks 0] assms by simp
  then show ?thesis unfolding xfs_get_path_extents_def using assms(1,2) by (simp add: exit_status_def)
qed

definition bmap_os :: os where
  "bmap_os = quiet_os\<lparr>os_path_env := Some ''/bin'', os_access_x := (\<lambda>_. True),
     os_popen := (\<lambda>_. Some (bmap_text ''/d'' [Extent 0 7 96 103, Hole 8 15, Extent 16 16 7 7], Some 0))\<rparr>"

theorem xfs_extents_roundtrip_witness:
  "xfs_get_path_extents bmap_os ''/d'' [] =
     Inr (0, [] @ concat (map bmap_blocks [Extent 0 7 96 103, Hole 8 15, Extent 16 16 7 7]),
             sum_list (map bmap_count [Extent 0 7 96 103, Hole 8 15, Extent 16 16 7 7]))"
proof (rule xfs_extents_roundtrip)
  show "find_command (os_path_env bmap_os) (os_access_x bmap_os) ''xfs_bmap'' 255 = (1, ''/bin/xfs_bmap'')"
    by (simp add: bmap_os_def quiet_os_def find_command_def extra_path_def strtok_all.simps strtok_def Let_def snprintf_def)
qed (simp_all add: bmap_os_def)

lemma read_1st_number:
  assumes "os_text os path = Some (dec_of_nat n @ CHR 0x0A # r)" and "n < 2 ^ 63"
  shows "snd (read_1st os path 128) = dec_of_nat n @ [CHR 0x0A]"
    and "strtoll (dec_of_nat n @ [CHR 0x0A]) = int n"
proof -
  have "length (dec_of_nat n) < 64" using assms dec_of_nat_short by simp
  then show "snd (read_1st os path 128) = dec_of_nat n @ [CHR 0x0A]"
    using assms fgets_all_line [of "dec_of_nat n" 128 r] by (simp add: read_1st_def dec_of_nat_free)
  show "strtoll (dec_of_nat n @ [CHR 0x0A]) = int n"
    using assms by (simp add: strtoll_def)
qed

text \<open>
  For a partition whose first sector and size the kernel shows under /sys,
  \<open>ext_parse_volume_range\<close> answers its first and its last sector, modulo \<open>2^64\<close>.
\<close>

lemma volume_range_of_partition:
  assumes "os_text os (''/sys/block/'' @ disk @ ''/'' @ part @ ''/start'') = Some (dec_of_nat s @ CHR 0x0A # r1)"
    and "os_text os (''/sys/block/'' @ disk @ ''/'' @ part @ ''/size'') = Some (dec_of_nat n @ CHR 0x0A # r2)"
    and "s < 2 ^ 63" "n < 2 ^ 63" "length disk + length part < 1000"
  shows "ext_parse_volume_range os (''/dev/'' @ disk) (''/dev/'' @ part) a b =
           Inr (0, of_nat s, of_nat s + of_nat n - 1)"
  using read_1st_number [OF assms(1,3)] read_1st_number [OF assms(2,4)] assms(5)
  by (simp add: ext_parse_volume_range_def Let_def)

end
