(* ===== verification/Ext2_Dir.thy ===== *)
theory Ext2_Dir
  imports Dir_Entry
begin

text \<open>
  \<open>parse_ext2_dir\<close> of \<^verbatim>\<open>src/src/fs.c\<close>: the walk over the raw blocks of an ext2, ext3 or ext4
  directory. The buffer is the list of bytes that are readable from \<open>buf\<close>; \<open>datalen\<close> is the
  length the caller passes; every load is checked against the buffer, so an overrun would be
  the fault \<open>OutOfBounds\<close>. A pointer \<open>p\<close> into the buffer is its offset.
\<close>

section \<open>ext2, ext3 and ext4 directories\<close>

definition ext2_step :: "bool \<Rightarrow> byte list \<Rightarrow> nat \<Rightarrow> nat \<Rightarrow> walk res" where
  "ext2_step be buf datalen p =
     and_then (read_at buf p 8) (\<lambda>h.
       let entry_inode = load_native be (take 4 h) :: u32;
           entry_rec_len = load_native be (take 2 (drop 4 h)) :: u16;
           name_len = h ! 6;
           file_type = h ! 7;
           rec_len1 = (ucast (if isBigEndian be then ext2fs_swab16 entry_rec_len else entry_rec_len) :: u32);
           inode = (if isBigEndian be then ext2fs_swab32 entry_inode else entry_inode)
       in if rec_len1 = 65535 \<or> rec_len1 = 0 then Inr Stop
          else (let rec_len = (rec_len1 AND 65532) OR push_bit 16 (rec_len1 AND 3)
                in if rec_len < 8 \<or> rec_len mod 4 \<noteq> 0 \<or> p + unat rec_len > datalen then Inr Stop
                   else if ucast name_len + 8 > rec_len then Inr Stop
                   else if entry_inode = 0 then Inr (Skip (unat rec_len))
                   else and_then (read_at buf (p + 8) (unat name_len)) (\<lambda>name.
                          if name_len = 1 \<and> name ! 0 = dot then Inr (Skip (unat rec_len))
                          else if name_len = 2 \<and> name ! 0 = dot \<and> name ! 1 = dot then Inr (Skip (unat rec_len))
                          else if name_len = 0 then Inr (Skip (unat rec_len))
                          else Inr (Emit (unat rec_len)
                            \<lparr>de_inode = ucast inode, de_name_len = name_len, de_file_type = file_type,
                             de_myflags = 0, de_name = name\<rparr>))))"

lemma ext2_step_progress:
  "ext2_step be buf datalen p = Inr (Skip n) \<or> ext2_step be buf datalen p = Inr (Emit n e) \<Longrightarrow> 8 \<le> n \<and> p + n \<le> datalen"
  by (auto simp: ext2_step_def Let_def and_then_eq_Inr word_less_nat_alt not_less split: if_splits)

function ext2_loop :: "bool \<Rightarrow> byte list \<Rightarrow> nat \<Rightarrow> nat \<Rightarrow> my_dir_entry list \<Rightarrow> my_dir_entry list res" where
  "ext2_loop be buf datalen p files =
     (if p + 8 < datalen
      then (case ext2_step be buf datalen p of
              Inl e \<Rightarrow> Inl e
            | Inr Stop \<Rightarrow> Inr files
            | Inr (Skip rec_len) \<Rightarrow> ext2_loop be buf datalen (p + rec_len) files
            | Inr (Emit rec_len entrycp) \<Rightarrow> ext2_loop be buf datalen (p + rec_len) (files @ [entrycp]))
      else Inr files)"
  by pat_completeness auto
termination
  by (relation "measure (\<lambda>(be, buf, datalen, p, files). datalen - p)")
     (auto dest: ext2_step_progress [OF disjI1] ext2_step_progress [OF disjI2])

declare ext2_loop.simps [simp del]

definition parse_ext2_dir :: "bool \<Rightarrow> byte list \<Rightarrow> u32 \<Rightarrow> my_dir_entry list \<Rightarrow> (int \<times> my_dir_entry list) res" where
  "parse_ext2_dir be buf datalen files =
     and_then (ext2_loop be buf (unat datalen) 0 files) (\<lambda>files'. Inr (0, files'))"

section \<open>Memory safety\<close>

lemma ext2_step_safe:
  assumes "p + 8 < datalen" and "datalen \<le> length buf"
  shows "\<exists>w. ext2_step be buf datalen p = Inr w"
proof -
  define h where "h = take 8 (drop p buf)"
  define rl where "rl = (ucast (if be then ext2fs_swab16 (load_native be (take 2 (drop 4 h))) else load_native be (take 2 (drop 4 h))) :: u32)"
  define rec_len where "rec_len = (rl AND 65532) OR push_bit 16 (rl AND 3)"
  have r: "read_at buf p 8 = Inr h" using assms by (simp add: h_def)
  have nm: "\<exists>name. read_at buf (p + 8) (unat (h ! 6)) = Inr name"
    if "\<not> p + unat rec_len > datalen" and "\<not> ucast (h ! 6) + 8 > rec_len"
  proof -
    have "unat (ucast (h ! 6) + 8 :: u32) = unat (h ! 6) + 8"
    proof -
      have "unat (h ! 6) < 256" using unsigned_less [of "h ! 6"] by simp
      then show ?thesis by (simp add: unat_word_ariths unsigned_ucast_eq take_bit_nat_eq_self)
    qed
    then have "p + (unat (h ! 6) + 8) \<le> datalen" using that by (simp add: not_less word_le_nat_alt)
    then show ?thesis using assms(2) by simp
  qed
  show ?thesis
    using nm unfolding ext2_step_def r by (auto simp: Let_def rl_def rec_len_def isBigEndian_iff)
qed

lemma ext2_loop_safe:
  "datalen \<le> length buf \<Longrightarrow> \<exists>es. ext2_loop be buf datalen p files = Inr es"
proof (induction be buf datalen p files rule: ext2_loop.induct)
  case (1 be buf datalen p files)
  show ?case
  proof (cases "p + 8 < datalen")
    case True
    then obtain w where w: "ext2_step be buf datalen p = Inr w" using ext2_step_safe 1 by blast
    then show ?thesis using 1 True by (cases w) (simp_all add: ext2_loop.simps [of be buf datalen p])
  next
    case False
    then show ?thesis by (simp add: ext2_loop.simps [of be buf datalen p])
  qed
qed


lemma ext2_step_entry: "ext2_step be buf datalen p = Inr (Emit n e) \<Longrightarrow> entry_in buf e"
proof -
  assume "ext2_step be buf datalen p = Inr (Emit n e)"
  then obtain l where nm: "read_at buf (p + 8) (unat l) = Inr (de_name e)" and l: "de_name_len e = l"
    and ex: "\<not> (l = 1 \<and> de_name e ! 0 = dot)" "\<not> (l = 2 \<and> de_name e ! 0 = dot \<and> de_name e ! 1 = dot)" "l \<noteq> 0"
    by (auto simp: ext2_step_def Let_def and_then_eq_Inr split: if_splits)
  from nm have k: "p + 8 + unat l \<le> length buf" "de_name e = take (unat l) (drop (p + 8) buf)"
    by (auto simp: read_at_Inr_iff)
  then have len: "length (de_name e) = unat l" by simp
  have "de_name e \<noteq> []" using len ex(3) by (metis list.size(3) unat_eq_0)
  moreover have "de_name e \<noteq> [dot]"
  proof
    assume a: "de_name e = [dot]"
    then have "unat l = unat (1 :: u8)" using len by simp
    then show False using a ex(1) by (simp add: word_unat_eq_iff)
  qed
  moreover have "de_name e \<noteq> [dot, dot]"
  proof
    assume a: "de_name e = [dot, dot]"
    then have "unat l = unat (2 :: u8)" using len by simp
    then show False using a ex(2) by (simp add: word_unat_eq_iff)
  qed
  ultimately show ?thesis using k len l by (auto simp: entry_in_def intro!: exI [of _ "p + 8"])
qed

lemma ext2_loop_entries:
  "ext2_loop be buf datalen p files = Inr files' \<Longrightarrow> \<exists>es. files' = files @ es \<and> list_all (entry_in buf) es"
proof (induction be buf datalen p files rule: ext2_loop.induct)
  case (1 be buf datalen p files)
  show ?case
  proof (cases "p + 8 < datalen")
    case False
    with "1.prems" show ?thesis by (simp add: ext2_loop.simps [of be buf datalen p])
  next
    case True
    with "1.prems" obtain w where w: "ext2_step be buf datalen p = Inr w"
      by (auto simp: ext2_loop.simps [of be buf datalen p] split: sum.splits)
    show ?thesis
    proof (cases w)
      case Stop
      with "1.prems" w True show ?thesis by (simp add: ext2_loop.simps [of be buf datalen p])
    next
      case (Skip n)
      with "1.prems" w True show ?thesis using "1.IH"(1) [OF True w Skip] by (simp add: ext2_loop.simps [of be buf datalen p])
    next
      case (Emit n e)
      have "entry_in buf e" using ext2_step_entry w Emit by blast
      moreover obtain es where "files' = (files @ [e]) @ es" "list_all (entry_in buf) es"
        using "1.IH"(2) [OF True w Emit] "1.prems" w True Emit by (auto simp: ext2_loop.simps [of be buf datalen p])
      ultimately show ?thesis by (intro exI [of _ "e # es"]) simp
    qed
  qed
qed

section \<open>Encoding: what a directory block means\<close>

record ext2_rec =
  r_inode :: u32
  r_type :: u8
  r_name :: "byte list"
  r_pad :: "byte list"

definition ext2_rec_len :: "ext2_rec \<Rightarrow> nat" where
  "ext2_rec_len r = 8 + length (r_name r) + length (r_pad r)"

definition ext2_encode :: "ext2_rec \<Rightarrow> byte list" where
  "ext2_encode r =
     le_of_word 4 (r_inode r) @ le_of_word 2 (of_nat (ext2_rec_len r) :: u16) @
     [of_nat (length (r_name r)), r_type r] @ r_name r @ r_pad r"

definition ext2_rec_ok :: "ext2_rec \<Rightarrow> bool" where
  "ext2_rec_ok r \<longleftrightarrow> length (r_name r) \<le> 255 \<and> 4 dvd ext2_rec_len r \<and> 12 \<le> ext2_rec_len r \<and> ext2_rec_len r \<le> 65532"

definition ext2_live :: "ext2_rec \<Rightarrow> bool" where
  "ext2_live r \<longleftrightarrow> r_inode r \<noteq> 0 \<and> r_name r \<notin> {[], [dot], [dot, dot]}"

definition ext2_entry_of :: "ext2_rec \<Rightarrow> my_dir_entry" where
  "ext2_entry_of r =
     \<lparr>de_inode = ucast (r_inode r), de_name_len = of_nat (length (r_name r)), de_file_type = r_type r,
      de_myflags = 0, de_name = r_name r\<rparr>"

lemma length_ext2_encode [simp]: "length (ext2_encode r) = ext2_rec_len r"
  by (simp add: ext2_encode_def ext2_rec_len_def)

lemma rec_len_plain:
  assumes "4 dvd n" and "n \<le> 65532"
  shows "((of_nat n :: u32) AND 65532) OR push_bit 16 (of_nat n AND 3) = of_nat n"
    and "unat (of_nat n :: u32) = n" and "(ucast (of_nat n :: u16) :: u32) = of_nat n"
proof -
  show u: "unat (of_nat n :: u32) = n" using assms(2) by (simp add: unat_of_nat)
  show c: "(ucast (of_nat n :: u16) :: u32) = of_nat n"
    using assms(2) by (intro word_unat_eq_iff [THEN iffD2]) (simp add: unsigned_ucast_eq unat_of_nat take_bit_nat_eq_self)
  have m: "(65532 :: u32) = push_bit 2 (mask 14)" "(3 :: u32) = mask 2" by (simp_all add: mask_eq_exp_minus_1)
  have low: "take_bit 2 (of_nat n :: u32) = 0"
  proof -
    have "unat (take_bit 2 (of_nat n :: u32)) = take_bit 2 n" by (simp only: unsigned_take_bit_eq u)
    moreover have "take_bit 2 n = 0" using assms(1) by (simp add: take_bit_eq_mod)
    ultimately show ?thesis by (simp only: unat_eq_0)
  qed
  have high: "take_bit 16 (of_nat n :: u32) = of_nat n"
    using assms by (intro word_unat_eq_iff [THEN iffD2]) (simp add: unsigned_take_bit_eq u take_bit_nat_eq_self)
  have "(of_nat n :: u32) AND 65532 = of_nat n"
  proof (rule bit_word_eqI)
    fix k assume "k < LENGTH(32)"
    have "bit (of_nat n :: u32) k \<Longrightarrow> 2 \<le> k \<and> k < 16"
      using low high by (metis bit_0_eq bit_take_bit_iff bot_apply bot_bool_def not_le)
    then show "bit ((of_nat n :: u32) AND 65532) k = bit (of_nat n :: u32) k"
      by (auto simp: m bit_simps)
  qed
  moreover have "(of_nat n :: u32) AND 3 = 0" using low by (simp add: m take_bit_eq_mask)
  ultimately show "((of_nat n :: u32) AND 65532) OR push_bit 16 (of_nat n AND 3) = of_nat n"
    by (simp add: c)
qed

lemma take_encode:
  "take 8 (ext2_encode r @ rest) = le_of_word 4 (r_inode r) @ le_of_word 2 (of_nat (ext2_rec_len r) :: u16) @ [of_nat (length (r_name r)), r_type r]"
  by (simp add: ext2_encode_def)

lemma name_of_encode:
  "take (length (r_name r)) (drop 8 (ext2_encode r @ rest)) = r_name r"
  by (simp add: ext2_encode_def)

lemma ext2_step_encode:
  assumes ok: "ext2_rec_ok r" and fits: "length pre + ext2_rec_len r \<le> datalen"
  shows "ext2_step be (pre @ ext2_encode r @ rest) datalen (length pre) =
         Inr (if ext2_live r then Emit (ext2_rec_len r) (ext2_entry_of r) else Skip (ext2_rec_len r))"
proof -
  let ?buf = "pre @ ext2_encode r @ rest"
  let ?n = "ext2_rec_len r"
  let ?l = "of_nat (length (r_name r)) :: u8"
  let ?h = "le_of_word 4 (r_inode r) @ le_of_word 2 (of_nat ?n :: u16) @ [?l, r_type r]"
  have n: "4 dvd ?n" "12 \<le> ?n" "?n \<le> 65532" "length (r_name r) \<le> 255" using ok by (auto simp: ext2_rec_ok_def)
  note rl = rec_len_plain [OF n(1,3)]
  have h: "read_at ?buf (length pre) 8 = Inr ?h" using n take_encode [of r rest] by simp
  have nl: "unat ?l = length (r_name r)" using n(4) by (simp add: unat_of_nat)
  have nm: "read_at ?buf (length pre + 8) (unat ?l) = Inr (r_name r)"
    using nl name_of_encode [of r rest] by (simp add: ext2_rec_len_def)
  have parts: "take 4 ?h = le_of_word 4 (r_inode r)" "take 2 (drop 4 ?h) = le_of_word 2 (of_nat ?n :: u16)" "?h ! 6 = ?l" "?h ! 7 = r_type r"
    by (simp_all add: nth_append)
  have ino: "(word_of_le (le_of_word 4 (r_inode r)) :: u32) = r_inode r" by simp
  have rec: "(word_of_le (le_of_word 2 (of_nat ?n :: u16)) :: u16) = of_nat ?n" by simp
  have lt: "\<not> (of_nat ?n :: u32) < 8" "(of_nat ?n :: u32) \<noteq> 65535" "(of_nat ?n :: u32) \<noteq> 0" "\<not> ucast ?l + 8 > (of_nat ?n :: u32)"
  proof -
    show "\<not> (of_nat ?n :: u32) < 8" "(of_nat ?n :: u32) \<noteq> 65535" "(of_nat ?n :: u32) \<noteq> 0"
      using n rl(2) by (auto simp: word_less_nat_alt dest!: arg_cong [of _ _ unat])
    have "unat (ucast ?l + 8 :: u32) = length (r_name r) + 8"
      using n(4) by (simp add: unat_word_ariths unsigned_ucast_eq nl take_bit_nat_eq_self)
    then show "\<not> ucast ?l + 8 > (of_nat ?n :: u32)" using rl(2) by (simp add: word_less_nat_alt ext2_rec_len_def)
  qed
  have md: "(of_nat ?n :: u32) mod 4 = 0"
    using n(1) rl(2) by (intro word_unat_eq_iff [THEN iffD2]) (simp add: unat_mod mod_eq_0_iff_dvd)
  have live: "ext2_live r \<longleftrightarrow> r_inode r \<noteq> 0 \<and> \<not> (?l = 1 \<and> r_name r ! 0 = dot) \<and> \<not> (?l = 2 \<and> r_name r ! 0 = dot \<and> r_name r ! 1 = dot) \<and> ?l \<noteq> 0"
  proof -
    have "?l = 1 \<longleftrightarrow> length (r_name r) = 1" "?l = 2 \<longleftrightarrow> length (r_name r) = 2" "?l = 0 \<longleftrightarrow> length (r_name r) = 0"
      using nl by (auto dest!: arg_cong [of _ _ unat])
    then show ?thesis by (auto simp: ext2_live_def length_Suc_conv numeral_2_eq_2)
  qed
  show ?thesis
    unfolding ext2_step_def h and_then_Inr Let_def parts isBigEndian_iff le_load [OF length_le_of_word]
      load32_eq_0 [OF length_le_of_word] ino rec rl(3) rl(1) nm and_then_Inr
    using lt md fits rl(2) by (auto simp: live ext2_entry_of_def)
qed

lemma ext2_loop_encode:
  "list_all ext2_rec_ok rs \<Longrightarrow>
   ext2_loop be (pre @ concat (map ext2_encode rs) @ post) (length pre + length (concat (map ext2_encode rs))) (length pre) files =
   Inr (files @ map ext2_entry_of (filter ext2_live rs))"
proof (induction rs arbitrary: pre files)
  case Nil
  then show ?case by (subst ext2_loop.simps) simp
next
  case (Cons r rs)
  let ?n = "ext2_rec_len r"
  let ?rest = "concat (map ext2_encode rs) @ post"
  let ?fin = "length pre + length (concat (map ext2_encode (r # rs)))"
  have ok: "ext2_rec_ok r" "list_all ext2_rec_ok rs" using Cons.prems by auto
  have n: "12 \<le> ?n" using ok by (simp add: ext2_rec_ok_def)
  have step: "ext2_step be (pre @ ext2_encode r @ ?rest) ?fin (length pre) =
      Inr (if ext2_live r then Emit ?n (ext2_entry_of r) else Skip ?n)"
    by (rule ext2_step_encode [OF ok(1)]) simp
  have "ext2_loop be (pre @ ext2_encode r @ ?rest) ?fin (length pre) files =
      ext2_loop be (pre @ ext2_encode r @ ?rest) ?fin (length pre + ?n) (if ext2_live r then files @ [ext2_entry_of r] else files)"
    using n step by (subst ext2_loop.simps) simp
  also have "\<dots> = ext2_loop be ((pre @ ext2_encode r) @ ?rest)
      (length (pre @ ext2_encode r) + length (concat (map ext2_encode rs))) (length (pre @ ext2_encode r))
      (if ext2_live r then files @ [ext2_entry_of r] else files)"
    by (simp add: add.assoc)
  also have "\<dots> = Inr ((if ext2_live r then files @ [ext2_entry_of r] else files) @ map ext2_entry_of (filter ext2_live rs))"
    using Cons.IH [OF ok(2), of "pre @ ext2_encode r"] by simp
  finally show ?case by simp
qed

section \<open>Properties\<close>

text \<open>
  C23: on any block contents, however corrupt, \<open>parse_ext2_dir\<close> returns 0 without reading
  outside the \<open>datalen\<close> bytes it was given; it only appends entries, and each appended entry has
  a name of the recorded length that is copied from inside the buffer, is not empty and is
  neither the dot nor the dot-dot entry.
\<close>

theorem parse_ext2_dir_safe:
  assumes "unat datalen \<le> length buf"
  shows "\<exists>es. parse_ext2_dir be buf datalen files = Inr (0, files @ es) \<and> list_all (entry_in buf) es"
proof -
  obtain files' where f: "ext2_loop be buf (unat datalen) 0 files = Inr files'"
    using ext2_loop_safe [OF assms] by blast
  with ext2_loop_entries [OF f] show ?thesis by (auto simp: parse_ext2_dir_def)
qed

theorem parse_ext2_dir_safe_witness:
  "\<exists>es. parse_ext2_dir False [7, 0, 0, 0, 12, 0, 200, 1, 97, 98, 99, 100] 12 [] = Inr (0, [] @ es) \<and>
        list_all (entry_in [7, 0, 0, 0, 12, 0, 200, 1, 97, 98, 99, 100]) es"
  by (rule parse_ext2_dir_safe) simp

text \<open>
  C2: \<open>parse_ext2_dir\<close> inverts the on-disk format: from the encoding of any sequence of
  well-formed directory records (in use or deleted, with any padding) it recovers, on machines
  of either byte order, exactly the records in use other than the dot entries, in order, with
  inode, type and name.
\<close>

theorem parse_ext2_dir_roundtrip:
  assumes "list_all ext2_rec_ok rs" and "length (concat (map ext2_encode rs)) < 2 ^ 32"
  shows "parse_ext2_dir be (concat (map ext2_encode rs)) (of_nat (length (concat (map ext2_encode rs)))) files =
         Inr (0, files @ map ext2_entry_of (filter ext2_live rs))"
proof -
  have "unat (of_nat (length (concat (map ext2_encode rs))) :: u32) = length (concat (map ext2_encode rs))"
    using assms(2) by (simp add: unat_of_nat)
  then show ?thesis
    using ext2_loop_encode [OF assms(1), of be "[]" "[]" files] by (simp add: parse_ext2_dir_def)
qed

theorem parse_ext2_dir_roundtrip_witness:
  "let rs = [\<lparr>r_inode = 2, r_type = 2, r_name = [dot], r_pad = [0, 0, 0]\<rparr>,
             \<lparr>r_inode = 0, r_type = 1, r_name = [97], r_pad = [0, 0, 0]\<rparr>,
             \<lparr>r_inode = 13, r_type = 1, r_name = [114, 107], r_pad = [0, 0]\<rparr>]
   in parse_ext2_dir True (concat (map ext2_encode rs)) (of_nat (length (concat (map ext2_encode rs)))) [] =
      Inr (0, [\<lparr>de_inode = 13, de_name_len = 2, de_file_type = 1, de_myflags = 0, de_name = [114, 107]\<rparr>])"
  unfolding Let_def
  by (subst parse_ext2_dir_roundtrip)
     (simp_all add: ext2_rec_ok_def ext2_rec_len_def ext2_live_def ext2_entry_of_def dot_def)

end
