(* ===== verification/Xfs_Dir.thy ===== *)
theory Xfs_Dir
  imports Dir_Entry
begin

text \<open>
  \<open>parse_xfs_dir\<close> of \<^verbatim>\<open>src/src/fs.c\<close>: the walk over the data blocks of an XFS directory, with
  the constants of \<^verbatim>\<open>src/src/fs.h\<close>. Loads are checked against the readable bytes. The loop
  advances by lengths taken from the block, so it runs on fuel; \<open>parse_xfs_dir_terminates\<close> says
  how much is enough and \<open>parse_xfs_dir_zero_free_diverges\<close> when no amount is.
\<close>

section \<open>XFS directories\<close>

definition XFS_DIR2_DATA_FREE_TAG :: u16 where "XFS_DIR2_DATA_FREE_TAG = 0xffff"
definition XFS_DIR2_BLOCK_MAGIC :: u32 where "XFS_DIR2_BLOCK_MAGIC = 0x58443242"
definition XFS_DIR2_DATA_MAGIC :: u32 where "XFS_DIR2_DATA_MAGIC = 0x58443244"
definition XFS_DIR3_BLOCK_MAGIC :: u32 where "XFS_DIR3_BLOCK_MAGIC = 0x58444233"
definition XFS_DIR3_DATA_MAGIC :: u32 where "XFS_DIR3_DATA_MAGIC = 0x58444433"

text \<open>The header length and the \<open>multiblock\<close> flag for a magic number; \<open>None\<close> is \<open>return 1\<close>.\<close>

definition xfs_header :: "u32 \<Rightarrow> (nat \<times> bool) option" where
  "xfs_header magic =
     (if magic = XFS_DIR3_BLOCK_MAGIC then Some (0x40, False)
      else if magic = XFS_DIR3_DATA_MAGIC then Some (0x40, True)
      else if magic = XFS_DIR2_BLOCK_MAGIC then Some (0x10, False)
      else if magic = XFS_DIR2_DATA_MAGIC then Some (0x10, True)
      else None)"

definition xfs_step :: "bool \<Rightarrow> bool \<Rightarrow> byte list \<Rightarrow> nat \<Rightarrow> walk res" where
  "xfs_step be multiblock buf p =
     and_then (read_at buf p 4) (\<lambda>m.
       let magic = from_be32 be (load_native be m)
       in if multiblock \<and> magic = XFS_DIR2_DATA_MAGIC then Inr (Skip 0x10)
          else if multiblock \<and> magic = XFS_DIR3_DATA_MAGIC then Inr (Skip 0x40)
          else if (load_native be (take 2 m) :: u16) = XFS_DIR2_DATA_FREE_TAG
          then Inr (Skip (unat (from_be16 be (load_native be (drop 2 m)))))
          else and_then (read_at buf p 9) (\<lambda>h.
            let inode = from_be64 be (load_native be (take 8 h));
                namelen = h ! 8;
                rec_len = ((8 + 1 + ucast namelen + 3 + 7) AND NOT 7 :: u32)
            in and_then (read_at buf (p + 9) (unat namelen)) (\<lambda>name.
               if namelen = 1 \<and> name ! 0 = dot then Inr (Skip (unat rec_len))
               else if namelen = 2 \<and> name ! 0 = dot \<and> name ! 1 = dot then Inr (Skip (unat rec_len))
               else if namelen = 0 then Inr Stop
               else and_then (read_at buf (p + 9 + unat namelen) 1) (\<lambda>t.
                 Inr (Emit (unat rec_len)
                   \<lparr>de_inode = inode, de_name_len = namelen, de_file_type = t ! 0,
                    de_myflags = 0, de_name = name\<rparr>)))))"

text \<open>
  The loop advances by a length that the block itself holds, which may be 0; the fuel bounds
  the number of iterations.
\<close>

fun xfs_loop :: "nat \<Rightarrow> bool \<Rightarrow> bool \<Rightarrow> byte list \<Rightarrow> nat \<Rightarrow> nat \<Rightarrow> my_dir_entry list \<Rightarrow> my_dir_entry list res" where
  "xfs_loop 0 be multiblock buf datalen p files = Inl OutOfFuel"
| "xfs_loop (Suc fuel) be multiblock buf datalen p files =
     (if p + 9 < datalen
      then and_then (xfs_step be multiblock buf p) (\<lambda>w.
             case w of
               Stop \<Rightarrow> Inr files
             | Skip rec_len \<Rightarrow> xfs_loop fuel be multiblock buf datalen (p + rec_len) files
             | Emit rec_len entrycp \<Rightarrow> xfs_loop fuel be multiblock buf datalen (p + rec_len) (files @ [entrycp]))
      else Inr files)"

definition parse_xfs_dir :: "nat \<Rightarrow> bool \<Rightarrow> byte list \<Rightarrow> u32 \<Rightarrow> my_dir_entry list \<Rightarrow> (int \<times> my_dir_entry list) res" where
  "parse_xfs_dir fuel be buf datalen files =
     and_then (read_at buf 0 4) (\<lambda>m.
       case xfs_header (from_be32 be (load_native be m)) of
         None \<Rightarrow> Inr (1, files)
       | Some (hdrlen, multiblock) \<Rightarrow>
           and_then (xfs_loop fuel be multiblock buf (unat datalen) hdrlen files) (\<lambda>files'. Inr (0, files')))"

section \<open>Progress\<close>

lemma unat_and_not_7: "unat (x AND NOT 7 :: u32) = 8 * (unat x div 8)"
proof -
  have "x AND NOT 7 = push_bit 3 (drop_bit 3 x)"
  proof (rule bit_word_eqI)
    have m: "(7 :: u32) = mask 3" by (simp add: mask_eq_exp_minus_1)
    fix n assume "n < LENGTH(32)"
    then show "bit (x AND NOT 7) n = bit (push_bit 3 (drop_bit 3 x)) n"
      unfolding m by (auto simp: bit_simps)
  qed
  moreover have "unat (drop_bit 3 x) = unat x div 8" by (simp add: drop_bit_eq_div unat_div)
  moreover have "8 * (unat x div 8) < 2 ^ 32"
  proof -
    have "unat x < 2 ^ 32" using unsigned_less [of x] by simp
    then show ?thesis by (metis le_less_trans times_div_less_eq_dividend)
  qed
  ultimately show ?thesis by (simp add: push_bit_eq_mult unat_word_ariths mult.commute)
qed

lemma xfs_rec_len: "unat ((8 + 1 + ucast (l :: u8) + 3 + 7) AND NOT 7 :: u32) = 8 * ((unat l + 19) div 8)"
proof -
  have "unat l < 256" using unsigned_less [of l] by simp
  then have "unat (8 + 1 + ucast l + 3 + 7 :: u32) = unat l + 19"
    by (simp add: unat_word_ariths unsigned_ucast_eq take_bit_nat_eq_self)
  then show ?thesis by (simp only: unat_and_not_7)
qed

lemma xfs_step_Emit_pos: "xfs_step be multiblock buf p = Inr (Emit n e) \<Longrightarrow> 0 < n"
  using xfs_rec_len by (auto simp: xfs_step_def Let_def and_then_eq_Inr split: if_splits)

lemma xfs_loop_enough:
  assumes "\<And>q. xfs_step be multiblock buf q \<noteq> Inr (Skip 0)"
  shows "datalen - p < fuel \<Longrightarrow> xfs_loop fuel be multiblock buf datalen p files \<noteq> Inl OutOfFuel"
proof (induction fuel arbitrary: p files)
  case 0
  then show ?case by simp
next
  case (Suc fuel)
  show ?case
  proof (cases "p + 9 < datalen")
    case False
    then show ?thesis by simp
  next
    case True
    have rd: "read_at buf a b \<noteq> Inl OutOfFuel" for a b by (simp add: read_at_def)
    show ?thesis
    proof (cases "xfs_step be multiblock buf p")
      case (Inl e)
      then have "e \<noteq> OutOfFuel" using rd
        by (auto simp: xfs_step_def Let_def and_then_eq_Inl split: if_splits)
      then show ?thesis using Inl True by simp
    next
      case (Inr w)
      show ?thesis
      proof (cases w)
        case Stop
        then show ?thesis using Inr True by simp
      next
        case (Skip n)
        then have "0 < n" using Inr assms [of p] by (cases n) auto
        then show ?thesis using Inr True Skip Suc by simp
      next
        case (Emit n e)
        have "0 < n" using xfs_step_Emit_pos Inr Emit by blast
        then show ?thesis using Inr True Emit Suc by simp
      qed
    qed
  qed
qed

section \<open>Encoding: what a data block means\<close>

text \<open>
  The records of a directory block: an entry (inode number, length, name, the byte after the
  name, which is the file type in file systems that record it, and padding with the tag), a free
  area, and in directories of several blocks the header of the next block.
\<close>

datatype xfs_rec =
    XEntry u64 "byte list" u8 "byte list"
  | XFree "byte list"
  | XHeader2 "byte list"
  | XHeader3 "byte list"

fun xfs_encode :: "xfs_rec \<Rightarrow> byte list" where
  "xfs_encode (XEntry ino name ftype pad) = rev (le_of_word 8 ino) @ [of_nat (length name)] @ name @ [ftype] @ pad"
| "xfs_encode (XFree body) = [0xff, 0xff] @ rev (le_of_word 2 (of_nat (4 + length body) :: u16)) @ body"
| "xfs_encode (XHeader2 body) = rev (le_of_word 4 XFS_DIR2_DATA_MAGIC) @ body"
| "xfs_encode (XHeader3 body) = rev (le_of_word 4 XFS_DIR3_DATA_MAGIC) @ body"

text \<open>
  The inode numbers that the code cannot mistake for a free-space tag or, in a directory of
  several blocks, for the magic number of the next block.
\<close>

fun xfs_rec_ok :: "bool \<Rightarrow> xfs_rec \<Rightarrow> bool" where
  "xfs_rec_ok multiblock (XEntry ino name ftype pad) \<longleftrightarrow>
     name \<noteq> [] \<and> length name \<le> 255 \<and> length name + 10 + length pad = 8 * ((length name + 19) div 8) \<and>
     (ucast (drop_bit 48 ino) :: u16) \<noteq> 0xffff \<and>
     (multiblock \<longrightarrow> (ucast (drop_bit 32 ino) :: u32) \<notin> {XFS_DIR2_DATA_MAGIC, XFS_DIR3_DATA_MAGIC})"
| "xfs_rec_ok multiblock (XFree body) \<longleftrightarrow> 4 \<le> length body \<and> length body < 65532"
| "xfs_rec_ok multiblock (XHeader2 body) \<longleftrightarrow> multiblock \<and> length body = 12"
| "xfs_rec_ok multiblock (XHeader3 body) \<longleftrightarrow> multiblock \<and> length body = 60"

fun xfs_entries :: "xfs_rec \<Rightarrow> my_dir_entry list" where
  "xfs_entries (XEntry ino name ftype pad) =
     (if name \<in> {[dot], [dot, dot]} then []
      else [\<lparr>de_inode = ino, de_name_len = of_nat (length name), de_file_type = ftype, de_myflags = 0, de_name = name\<rparr>])"
| "xfs_entries _ = []"

text \<open>
  A directory of one block (\<open>XD2B\<close>, \<open>XDB3\<close>) ends with the array of its names' hashes and
  addresses, sorted by hash, and the counts of the array and of its stale slots. The dot entries are
  among them: 0x2e is the hash of their first name and 0x172e that of the second.
\<close>

type_synonym xfs_tail = "((u32 \<times> u32) list \<times> u32) option"

definition xfs_leaf :: "u32 \<times> u32 \<Rightarrow> byte list" where
  "xfs_leaf = (\<lambda>(hashval, address). rev (le_of_word 4 hashval) @ rev (le_of_word 4 address))"

fun xfs_tail_encode :: "xfs_tail \<Rightarrow> byte list" where
  "xfs_tail_encode None = []"
| "xfs_tail_encode (Some (leaves, stale)) =
     concat (map xfs_leaf leaves) @ rev (le_of_word 4 (of_nat (length leaves) :: u32)) @ rev (le_of_word 4 stale)"

fun xfs_tail_ok :: "bool \<Rightarrow> xfs_tail \<Rightarrow> bool" where
  "xfs_tail_ok multiblock None \<longleftrightarrow> True"
| "xfs_tail_ok multiblock (Some (leaves, stale)) \<longleftrightarrow>
     \<not> multiblock \<and> sorted (map fst leaves) \<and> 0x2e \<in> set (map fst leaves) \<and> 0x172e \<in> set (map fst leaves)"

lemma freetag_load [bytes_simps]:
  "length bs = 2 \<Longrightarrow> (load_native be bs :: u16) = XFS_DIR2_DATA_FREE_TAG \<longleftrightarrow> (word_of_be bs :: u16) = 0xffff"
proof -
  assume l: "length bs = 2"
  have z: "ext2fs_swab16 0xffff = 0xffff"
  proof (rule bit_word_eqI)
    have m: "(0xffff :: u16) = mask 16" by (simp add: mask_eq_exp_minus_1)
    fix n assume "n < LENGTH(16)"
    then show "bit (ext2fs_swab16 0xffff) n = bit (0xffff :: u16) n"
      unfolding m by (auto simp: bit_swab16 bit_simps)
  qed
  have "(word_of_be bs :: u16) = 0xffff \<longleftrightarrow> (word_of_le bs :: u16) = 0xffff"
    using swab16_word [OF l] z by metis
  then show ?thesis by (simp add: load_native_def XFS_DIR2_DATA_FREE_TAG_def)
qed

lemma xfs_step_header:
  assumes "xfs_rec_ok True r" and "r = XHeader2 body \<or> r = XHeader3 body"
  shows "xfs_step be True (pre @ xfs_encode r @ rest) (length pre) = Inr (Skip (length (xfs_encode r)))"
proof -
  have "read_at (pre @ xfs_encode r @ rest) (length pre) 4 = Inr (take 4 (xfs_encode r))"
    using assms by auto
  then show ?thesis using assms
    by (auto simp: xfs_step_def from_be_load XFS_DIR2_DATA_MAGIC_def XFS_DIR3_DATA_MAGIC_def)
qed

lemma xfs_step_free:
  assumes "xfs_rec_ok multiblock (XFree body)"
  shows "xfs_step be multiblock (pre @ xfs_encode (XFree body) @ rest) (length pre) = Inr (Skip (4 + length body))"
proof -
  define m where "m = [0xff, 0xff] @ rev (le_of_word 2 (of_nat (4 + length body) :: u16))"
  have l: "length m = 4" by (simp add: m_def)
  have r: "read_at (pre @ xfs_encode (XFree body) @ rest) (length pre) 4 = Inr m" by (simp add: m_def)
  have t: "(word_of_be (take 2 m) :: u16) = 0xffff" by (simp add: m_def word_of_be_def push_bit_eq_mult)
  have d: "(word_of_be (drop 2 m) :: u16) = of_nat (4 + length body)"
    by (simp add: m_def del: of_nat_add)
  have u: "unat (of_nat (4 + length body) :: u16) = 4 + length body" using assms by (simp add: unat_of_nat del: of_nat_add)
  have mg: "(word_of_be m :: u32) \<noteq> XFS_DIR2_DATA_MAGIC \<and> (word_of_be m :: u32) \<noteq> XFS_DIR3_DATA_MAGIC"
  proof -
    have "bit (word_of_be m :: u32) 31"
      unfolding word_of_be_def by (simp add: bit_word_of_le rev_nth l) (simp add: m_def)
    moreover have "\<not> bit XFS_DIR2_DATA_MAGIC 31" "\<not> bit XFS_DIR3_DATA_MAGIC 31"
      by (simp_all add: XFS_DIR2_DATA_MAGIC_def XFS_DIR3_DATA_MAGIC_def)
    ultimately show ?thesis by metis
  qed
  show ?thesis using r l t d u mg by (simp add: xfs_step_def from_be_load freetag_load Let_def)
qed

lemma xfs_step_entry:
  assumes ok: "xfs_rec_ok multiblock (XEntry ino name ftype pad)"
  defines "r \<equiv> XEntry ino name ftype pad"
  shows "xfs_step be multiblock (pre @ xfs_encode r @ rest) (length pre) =
     Inr (case xfs_entries r of [] \<Rightarrow> Skip (length (xfs_encode r)) | e # _ \<Rightarrow> Emit (length (xfs_encode r)) e)"
proof -
  let ?buf = "pre @ xfs_encode r @ rest"
  let ?i = "rev (le_of_word 8 ino)"
  let ?l = "of_nat (length name) :: u8"
  have ne: "name \<noteq> []" and l: "length name \<le> 255" using ok by auto
  have nl: "unat ?l = length name" using l by (simp add: unat_of_nat)
  have enc: "xfs_encode r = ?i @ [?l] @ name @ [ftype] @ pad" by (simp add: r_def)
  have len: "length (xfs_encode r) = 8 * ((length name + 19) div 8)" using ok by (simp add: enc)
  have r4: "read_at ?buf (length pre) 4 = Inr (take 4 ?i)" by (simp add: enc)
  have r9: "read_at ?buf (length pre) 9 = Inr (?i @ [?l])" by (simp add: enc)
  have rn: "read_at ?buf (length pre + 9) (unat ?l) = Inr name" by (simp add: enc nl)
  have rt: "read_at ?buf (length pre + 9 + unat ?l) 1 = Inr [ftype]" by (simp add: enc nl)
  have mg: "\<not> (multiblock \<and> word_of_be (take 4 ?i) = XFS_DIR2_DATA_MAGIC)" "\<not> (multiblock \<and> word_of_be (take 4 ?i) = XFS_DIR3_DATA_MAGIC)"
    and ft: "(word_of_be (take 2 (take 4 ?i)) :: u16) \<noteq> 0xffff"
    using ok by (auto simp: upper_bytes)
  have eq: "?l = 1 \<longleftrightarrow> length name = 1" "?l = 2 \<longleftrightarrow> length name = 2" "?l \<noteq> 0"
    using nl ne by (auto dest!: arg_cong [of _ _ unat])
  have dots: "name \<in> {[dot], [dot, dot]} \<longleftrightarrow> ?l = 1 \<and> name ! 0 = dot \<or> ?l = 2 \<and> name ! 0 = dot \<and> name ! 1 = dot"
    unfolding eq by (auto simp: length_Suc_conv numeral_2_eq_2)
  have parts: "take 8 (?i @ [?l]) = ?i" "(?i @ [?l]) ! 8 = ?l" by (simp_all add: nth_append)
  have rec: "unat ((8 + 1 + ucast ?l + 3 + 7) AND NOT 7 :: u32) = length (xfs_encode r)" by (simp only: xfs_rec_len nl len)
  have l4: "length (take 4 ?i) = 4" and l2: "length (take 2 (take 4 ?i)) = 2" and l8: "length ?i = 8" by simp_all
  show ?thesis
    unfolding xfs_step_def r4 and_then_Inr Let_def from_be_load(2) [OF l4] freetag_load [OF l2]
      r9 parts rec rn from_be_load(3) [OF l8] rt
    using mg ft eq(3) dots by (auto simp: r_def)
qed


lemma xfs_step_encode:
  assumes "xfs_rec_ok multiblock r"
  shows "xfs_step be multiblock (pre @ xfs_encode r @ rest) (length pre) =
     Inr (case xfs_entries r of [] \<Rightarrow> Skip (length (xfs_encode r)) | e # _ \<Rightarrow> Emit (length (xfs_encode r)) e)"
proof (cases r)
  case (XEntry ino name ftype pad)
  then show ?thesis using xfs_step_entry assms by blast
next
  case (XFree body)
  then show ?thesis using xfs_step_free assms by simp
next
  case (XHeader2 body)
  then show ?thesis using xfs_step_header [of r body] assms by simp
next
  case (XHeader3 body)
  then show ?thesis using xfs_step_header [of r body] assms by simp
qed

lemma xfs_encode_length: "xfs_rec_ok multiblock r \<Longrightarrow> 8 \<le> length (xfs_encode r)"
  by (cases r) auto

lemma xfs_short_record: "xfs_rec_ok multiblock r \<Longrightarrow> length (xfs_encode r) \<le> 9 \<Longrightarrow> xfs_entries r = []"
  by (cases r) auto

text \<open>One record, where the loop has not come to the end of the data.\<close>

lemma xfs_loop_record:
  assumes "xfs_rec_ok multiblock r" and "length pre + 9 < datalen"
  shows "xfs_loop (Suc fuel) be multiblock (pre @ xfs_encode r @ rest) datalen (length pre) files =
     xfs_loop fuel be multiblock (pre @ xfs_encode r @ rest) datalen (length pre + length (xfs_encode r)) (files @ xfs_entries r)"
proof -
  have "xfs_entries r = [] \<or> (\<exists>e. xfs_entries r = [e])" by (cases r) auto
  then show ?thesis using xfs_step_encode [OF assms(1), of be pre rest] assms(2) by auto
qed

text \<open>The records up to a position from which at least ten bytes are left.\<close>

lemma xfs_loop_records:
  "list_all (xfs_rec_ok multiblock) rs \<Longrightarrow> length pre + length (concat (map xfs_encode rs)) + 9 < datalen \<Longrightarrow>
   xfs_loop (length rs + fuel) be multiblock (pre @ concat (map xfs_encode rs) @ post) datalen (length pre) files =
   xfs_loop fuel be multiblock (pre @ concat (map xfs_encode rs) @ post) datalen
     (length pre + length (concat (map xfs_encode rs))) (files @ concat (map xfs_entries rs))"
proof (induction rs arbitrary: pre files)
  case Nil
  then show ?case by simp
next
  case (Cons r rs)
  then have "length pre + 9 < datalen" by simp
  then show ?case
    using xfs_loop_record [of multiblock r pre datalen "length rs + fuel" be "concat (map xfs_encode rs) @ post" files]
      Cons.IH [of "pre @ xfs_encode r" "files @ xfs_entries r"] Cons.prems by (simp add: add.assoc)
qed

lemma xfs_loop_encode:
  "list_all (xfs_rec_ok multiblock) rs \<Longrightarrow> length rs < fuel \<Longrightarrow>
   xfs_loop fuel be multiblock (pre @ concat (map xfs_encode rs) @ post)
     (length pre + length (concat (map xfs_encode rs))) (length pre) files =
   Inr (files @ concat (map xfs_entries rs))"
proof (induction rs arbitrary: fuel pre files)
  case Nil
  then show ?case by (cases fuel) simp_all
next
  case (Cons r rs)
  obtain f where f: "fuel = Suc f" "length rs < f" using Cons.prems(2) by (cases fuel) auto
  have ok: "xfs_rec_ok multiblock r" "list_all (xfs_rec_ok multiblock) rs" using Cons.prems by auto
  show ?case
  proof (cases "9 < length (concat (map xfs_encode (r # rs)))")
    case True
    then show ?thesis
      using xfs_loop_record [OF ok(1), of pre "length pre + length (concat (map xfs_encode (r # rs)))" f be "concat (map xfs_encode rs) @ post" files]
        Cons.IH [OF ok(2) f(2), of "pre @ xfs_encode r"] f(1) by (simp add: add.assoc)
  next
    case False
    then have "rs = []" using ok xfs_encode_length [of multiblock] by (cases rs) (auto dest!: xfs_encode_length)
    then show ?thesis using False ok(1) f(1) by (simp add: xfs_short_record)
  qed
qed

text \<open>At the array of hashes the loop reads a name length of 0 and stops.\<close>

lemma tail_first_hashes:
  assumes "xfs_tail_ok multiblock (Some (leaves, stale))"
  obtains h0 a0 h1 a1 rest where "leaves = (h0, a0) # (h1, a1) # rest" "h0 \<le> 0x172e" "h1 \<le> 0x172e"
proof (cases leaves rule: remdups_adj.cases)
  case (3 x y rest)
  have "0x172e \<in> set (map fst (y # rest))"
  proof (rule ccontr)
    assume "0x172e \<notin> set (map fst (y # rest))"
    then have "fst x = 0x172e" using assms 3 by auto
    moreover have "0x2e \<in> set (map fst (y # rest))" using assms 3 calculation by auto
    ultimately have "(0x172e :: u32) \<le> 0x2e" using assms 3 by auto
    then show False by simp
  qed
  then have "fst y \<le> 0x172e" "fst x \<le> 0x172e" using assms 3 by auto
  then show ?thesis using that [of "fst x" "snd x" "fst y" "snd y" rest] 3 by simp
qed (use assms in auto)

lemma high_byte_small: "h \<le> 0x172e \<Longrightarrow> rev (le_of_word 4 (h :: u32)) = [0, 0, ucast (drop_bit 8 h), ucast h]"
proof -
  assume "h \<le> 0x172e"
  then have "unat h < 2 ^ 16" by (simp add: word_le_nat_alt)
  then have "drop_bit 16 h = 0" "drop_bit 24 h = 0" by (simp_all add: word_unat_eq_iff drop_bit_eq_div unat_div)
  then show ?thesis by (simp add: eval_nat_numeral)
qed

lemma xfs_step_tail:
  assumes "xfs_tail_ok multiblock (Some (leaves, stale))"
  shows "xfs_step be multiblock (pre @ xfs_tail_encode (Some (leaves, stale)) @ post) (length pre) = Inr Stop"
proof -
  let ?buf = "pre @ xfs_tail_encode (Some (leaves, stale)) @ post"
  obtain h0 a0 h1 a1 rest where l: "leaves = (h0, a0) # (h1, a1) # rest" and h: "h0 \<le> 0x172e" "h1 \<le> 0x172e"
    using tail_first_hashes [OF assms] by metis
  let ?m = "[0, 0, ucast (drop_bit 8 h0), ucast h0] :: byte list"
  have nm: "\<not> multiblock" using assms by simp
  have r4: "read_at ?buf (length pre) 4 = Inr ?m" by (simp add: l xfs_leaf_def high_byte_small [OF h(1)])
  have r9: "read_at ?buf (length pre) 9 = Inr (?m @ rev (le_of_word 4 a0) @ [0])"
    by (simp add: l xfs_leaf_def high_byte_small [OF h(1)] high_byte_small [OF h(2)])
  have r0: "read_at ?buf (length pre + 9) 0 = Inr []" by (simp add: read_at_def l xfs_leaf_def)
  have nth: "(?m @ rev (le_of_word 4 a0) @ [0]) ! 8 = 0" by (simp add: nth_append)
  have ft: "(word_of_be (take 2 ?m) :: u16) \<noteq> 0xffff" by (simp add: word_of_be_def)
  show ?thesis
    unfolding xfs_step_def r4 r9 and_then_Inr Let_def nth
    using nm r0 ft by (simp add: freetag_load)
qed

lemma xfs_tail_length: "xfs_tail_ok multiblock (Some (leaves, stale)) \<Longrightarrow> 24 \<le> length (xfs_tail_encode (Some (leaves, stale)))"
  by (erule tail_first_hashes) (simp add: xfs_leaf_def)

text \<open>A whole block: its records and, in the block form, the array behind them.\<close>

lemma xfs_loop_block:
  assumes rs: "list_all (xfs_rec_ok multiblock) rs" and tail: "xfs_tail_ok multiblock tail" and fuel: "length rs < fuel"
    and len: "datalen = length pre + length (concat (map xfs_encode rs)) + length (xfs_tail_encode tail)"
  shows "xfs_loop fuel be multiblock (pre @ concat (map xfs_encode rs) @ xfs_tail_encode tail @ post) datalen (length pre) files =
     Inr (files @ concat (map xfs_entries rs))"
proof (cases tail)
  case None
  then show ?thesis using xfs_loop_encode [OF rs fuel, of be pre post files] len by simp
next
  case (Some t)
  obtain leaves stale where t: "tail = Some (leaves, stale)" using Some by (cases t) auto
  obtain f where f: "fuel = length rs + Suc f" using fuel less_imp_Suc_add by (metis add_Suc_right)
  let ?pre = "pre @ concat (map xfs_encode rs)"
  have long: "length ?pre + 9 < datalen" using xfs_tail_length [of multiblock leaves stale] tail len t by simp
  then have "xfs_loop fuel be multiblock (?pre @ xfs_tail_encode tail @ post) datalen (length pre) files =
      xfs_loop (Suc f) be multiblock (?pre @ xfs_tail_encode tail @ post) datalen (length ?pre) (files @ concat (map xfs_entries rs))"
    using xfs_loop_records [OF rs, of pre datalen "Suc f" be "xfs_tail_encode tail @ post" files] f by simp
  also have "\<dots> = Inr (files @ concat (map xfs_entries rs))"
    using xfs_step_tail [of multiblock leaves stale be ?pre post] tail t long by simp
  finally show ?thesis by simp
qed

lemma xfs_loop_stuck:
  assumes "xfs_step be multiblock buf p = Inr (Skip 0)" and "p + 9 < datalen"
  shows "xfs_loop fuel be multiblock buf datalen p files = Inl OutOfFuel"
  using assms by (induction fuel) simp_all

lemma xfs_loop_stuck_after:
  assumes "list_all (xfs_rec_ok multiblock) rs"
    and "xfs_step be multiblock (pre @ concat (map xfs_encode rs) @ post) (length pre + length (concat (map xfs_encode rs))) = Inr (Skip 0)"
    and "length pre + length (concat (map xfs_encode rs)) + 9 < datalen"
  shows "xfs_loop fuel be multiblock (pre @ concat (map xfs_encode rs) @ post) datalen (length pre) files = Inl OutOfFuel"
  using assms
proof (induction rs arbitrary: fuel pre files)
  case Nil
  then show ?case using xfs_loop_stuck [of be multiblock "pre @ post" "length pre"] by simp
next
  case (Cons r rs)
  show ?case
  proof (cases fuel)
    case (Suc f)
    then show ?thesis
      using xfs_loop_record [of multiblock r pre datalen f be "concat (map xfs_encode rs) @ post" files]
        Cons.IH [of "pre @ xfs_encode r" f "files @ xfs_entries r"] Cons.prems by (simp add: add.assoc)
  qed simp
qed

section \<open>Properties\<close>

text \<open>
  C14: \<open>parse_xfs_dir\<close> inverts the on-disk format: from a block header of one of the four magic
  numbers followed by any sequence of well-formed entries, free areas (of eight bytes or more) and
  (for directories of several blocks) further block headers, and in the block form the sorted array of
  hashes with its counts, it recovers, on machines of either byte order, exactly the entries other
  than the dot entries, with inode, type and name.
\<close>

theorem parse_xfs_dir_roundtrip:
  assumes hdr: "xfs_header magic = Some (4 + length body, multiblock)"
    and rs: "list_all (xfs_rec_ok multiblock) rs" and tail: "xfs_tail_ok multiblock tail"
    and buf: "buf = rev (le_of_word 4 magic) @ body @ concat (map xfs_encode rs) @ xfs_tail_encode tail"
    and len: "length buf < 2 ^ 32" and fuel: "length rs < fuel"
  shows "parse_xfs_dir fuel be buf (of_nat (length buf)) files = Inr (0, files @ concat (map xfs_entries rs))"
proof -
  let ?pre = "rev (le_of_word 4 magic) @ body"
  have u: "unat (of_nat (length buf) :: u32) = length buf" using len by (simp add: unat_of_nat)
  have r: "read_at buf 0 4 = Inr (rev (le_of_word 4 magic))" by (simp add: buf)
  have "xfs_loop fuel be multiblock buf (length buf) (length ?pre) files = Inr (files @ concat (map xfs_entries rs))"
    using xfs_loop_block [OF rs tail fuel, of "length buf" ?pre be "[]" files] by (simp add: buf)
  then show ?thesis using r hdr u by (simp add: parse_xfs_dir_def from_be_load)
qed

text \<open>
  A directory of one block with both dot entries, a file, a free area and the array of the three
  hashes.
\<close>

theorem parse_xfs_dir_roundtrip_witness:
  "let rs = [XEntry 128 [46] 2 [0, 0, 0, 0, 16], XEntry 128 [46, 46] 2 [0, 0, 0, 32],
             XEntry 131 [114, 107] 1 [0, 0, 0, 64], XFree (replicate 4 0)];
       tail = Some ([(0x2e, 2), (0x172e, 4), (0x396b, 6)], 0);
       buf = rev (le_of_word 4 XFS_DIR2_BLOCK_MAGIC) @ replicate 12 0 @ concat (map xfs_encode rs) @ xfs_tail_encode tail
   in parse_xfs_dir 5 False buf (of_nat (length buf)) [] =
      Inr (0, [] @ [\<lparr>de_inode = 131, de_name_len = 2, de_file_type = 1, de_myflags = 0, de_name = [114, 107]\<rparr>])"
  unfolding Let_def
  by (subst parse_xfs_dir_roundtrip [where multiblock = False and body = "replicate 12 0" and magic = XFS_DIR2_BLOCK_MAGIC
        and rs = "[XEntry 128 [46] 2 [0, 0, 0, 0, 16], XEntry 128 [46, 46] 2 [0, 0, 0, 32],
             XEntry 131 [114, 107] 1 [0, 0, 0, 64], XFree (replicate 4 0)]"
        and tail = "Some ([(0x2e, 2), (0x172e, 4), (0x396b, 6)], 0)"])
     (simp_all add: xfs_header_def XFS_DIR2_BLOCK_MAGIC_def XFS_DIR2_DATA_MAGIC_def XFS_DIR3_BLOCK_MAGIC_def
        XFS_DIR3_DATA_MAGIC_def dot_def drop_bit_eq_div xfs_leaf_def)

text \<open>
  C33: the loop of \<open>parse_xfs_dir\<close> does not end on a block that holds, after its header and any
  sequence of well-formed records, a free-space tag with length 0: no number of iterations is enough.
\<close>

theorem parse_xfs_dir_zero_free_diverges:
  assumes hdr: "xfs_header magic = Some (4 + length body, multiblock)" and rs: "list_all (xfs_rec_ok multiblock) rs"
    and buf: "buf = rev (le_of_word 4 magic) @ body @ concat (map xfs_encode rs) @ [0xff, 0xff, 0, 0] @ rest"
    and len: "4 + length body + length (concat (map xfs_encode rs)) + 9 < unat datalen"
  shows "parse_xfs_dir fuel be buf datalen files = Inl OutOfFuel"
proof -
  let ?pre = "rev (le_of_word 4 magic) @ body" and ?rs = "concat (map xfs_encode rs)" and ?post = "[0xff, 0xff, 0, 0] @ rest"
  have r: "read_at buf 0 4 = Inr (rev (le_of_word 4 magic))" by (simp add: buf)
  have r4: "read_at buf (length ?pre + length ?rs) 4 = Inr [0xff, 0xff, 0, 0]"
    by (simp add: buf)
  have "xfs_step be multiblock buf (length ?pre + length ?rs) = Inr (Skip 0)"
    unfolding xfs_step_def r4
    by (simp add: from_be_load freetag_load)
       (simp add: from_be_load word_of_be_def push_bit_eq_mult XFS_DIR2_DATA_MAGIC_def XFS_DIR3_DATA_MAGIC_def)
  then have "xfs_loop fuel be multiblock buf (unat datalen) (length ?pre) files = Inl OutOfFuel"
    using xfs_loop_stuck_after [OF rs, of be ?pre ?post "unat datalen" fuel files] len by (simp add: buf)
  then show ?thesis using r hdr by (simp add: parse_xfs_dir_def from_be_load)
qed

theorem parse_xfs_dir_zero_free_diverges_witness:
  "parse_xfs_dir 1000 False (rev (le_of_word 4 XFS_DIR2_BLOCK_MAGIC) @ replicate 12 0 @
       concat (map xfs_encode [XEntry 131 [114, 107] 1 [0, 0, 0, 64]]) @ [0xff, 0xff, 0, 0] @ replicate 12 0) 48 [] =
   Inl OutOfFuel"
  by (rule parse_xfs_dir_zero_free_diverges [where multiblock = False and body = "replicate 12 0" and rs = "[XEntry 131 [114, 107] 1 [0, 0, 0, 64]]"
        and magic = XFS_DIR2_BLOCK_MAGIC and rest = "replicate 12 0"])
     (simp_all add: xfs_header_def XFS_DIR2_BLOCK_MAGIC_def XFS_DIR2_DATA_MAGIC_def XFS_DIR3_BLOCK_MAGIC_def XFS_DIR3_DATA_MAGIC_def drop_bit_eq_div)

text \<open>
  that is the only way for the loop to run on: when no position of the block reads as an
  advance by 0, \<open>datalen\<close> iterations are enough for \<open>parse_xfs_dir\<close> to return (or to read past
  the buffer).
\<close>

theorem parse_xfs_dir_terminates:
  assumes "\<And>multiblock p. xfs_step be multiblock buf p \<noteq> Inr (Skip 0)" and "unat datalen < fuel"
  shows "parse_xfs_dir fuel be buf datalen files \<noteq> Inl OutOfFuel"
proof -
  have "read_at buf 0 4 \<noteq> Inl OutOfFuel" by (simp add: read_at_def)
  then show ?thesis using xfs_loop_enough [OF assms(1)] assms(2)
    by (auto simp: parse_xfs_dir_def and_then_eq_Inl split: option.splits)
qed

theorem parse_xfs_dir_terminates_witness:
  "parse_xfs_dir 20 False [] 16 [] \<noteq> Inl OutOfFuel"
  by (rule parse_xfs_dir_terminates) (simp_all add: xfs_step_def read_at_def)

text \<open>
  C34: \<open>parse_xfs_dir\<close> does not check that the name of an entry ends inside the data: on a
  block whose first entry announces a name longer than what is left of the buffer it reads
  past the end of the buffer.
\<close>

theorem parse_xfs_dir_overread:
  assumes hdr: "xfs_header magic = Some (4 + length body, multiblock)"
    and ino: "(ucast (drop_bit 48 (ino :: u64)) :: u16) \<noteq> 0xffff"
      "(ucast (drop_bit 32 ino) :: u32) \<notin> {XFS_DIR2_DATA_MAGIC, XFS_DIR3_DATA_MAGIC}"
    and buf: "buf = rev (le_of_word 4 magic) @ body @ rev (le_of_word 8 ino) @ [namelen] @ rest"
    and over: "length rest < unat namelen" and len: "4 + length body + 9 < unat datalen"
  shows "parse_xfs_dir (Suc fuel) be buf datalen files = Inl OutOfBounds"
proof -
  let ?p = "4 + length body" and ?i = "rev (le_of_word 8 ino)"
  have r: "read_at buf 0 4 = Inr (rev (le_of_word 4 magic))" by (simp add: buf)
  have r4: "read_at buf ?p 4 = Inr (take 4 ?i)" by (simp add: buf)
  have r9: "read_at buf ?p 9 = Inr (?i @ [namelen])" by (simp add: buf)
  have rn: "read_at buf (?p + 9) (unat namelen) = Inl OutOfBounds" using over by (simp add: buf read_at_def)
  have nth: "(?i @ [namelen]) ! 8 = namelen" by (simp add: nth_append)
  have "xfs_step be multiblock buf ?p = Inl OutOfBounds"
    unfolding xfs_step_def r4 and_then_Inr r9 Let_def nth rn and_then_Inl
    using ino upper_bytes [of ino] by (auto simp: from_be_load freetag_load)
  then show ?thesis using r hdr len by (simp add: parse_xfs_dir_def from_be_load)
qed

theorem parse_xfs_dir_overread_witness:
  "parse_xfs_dir (Suc 0) False
     (rev (le_of_word 4 XFS_DIR2_BLOCK_MAGIC) @ replicate 12 0 @ rev (le_of_word 8 (131 :: u64)) @ [200] @ [97, 98, 99]) 28 [] =
   Inl OutOfBounds"
  by (rule parse_xfs_dir_overread [where multiblock = False and body = "replicate 12 0" and ino = 131
        and magic = XFS_DIR2_BLOCK_MAGIC and namelen = 200 and rest = "[97, 98, 99]"])
     (simp_all add: xfs_header_def XFS_DIR2_BLOCK_MAGIC_def XFS_DIR2_DATA_MAGIC_def XFS_DIR3_BLOCK_MAGIC_def
        XFS_DIR3_DATA_MAGIC_def drop_bit_eq_div)

end
