(* ===== verification/Keyed_Diff.thy ===== *)
theory Keyed_Diff
  imports Prelude
begin

text \<open>
  The interface of the two comparisons of the program: \<open>vector_dirent_cmp\<close> in
  \<^verbatim>\<open>src/src/fhf.c\<close> on directory entries and \<open>vector_string_cmp\<close> in \<^verbatim>\<open>src/src/atrk.c\<close> on
  strings. Each goes through its first vector, looks the key of an element up in the second
  with an index function that answers \<open>- 1\<close> for an absent key, and pushes the elements that
  are absent. What follows from that is proved here once.
\<close>

locale keyed_vector =
  fixes key :: "'a \<Rightarrow> string"
    and index :: "'a list \<Rightarrow> string \<Rightarrow> int"
    and cmp :: "'a list \<Rightarrow> 'a list \<Rightarrow> 'a list \<Rightarrow> 'a list"
  assumes index_absent: "index v name = - 1 \<longleftrightarrow> name \<notin> key ` set v"
    and cmp_Nil: "cmp [] v2 acc = acc"
    and cmp_Cons: "cmp (x # v1) v2 acc =
      (if index v2 (key x) = - 1 then cmp v1 v2 (acc @ [x]) else cmp v1 v2 acc)"
begin

lemma cmp_filter: "cmp v1 v2 acc = acc @ filter (\<lambda>x. key x \<notin> key ` set v2) v1"
  by (induction v1 arbitrary: acc) (auto simp: cmp_Nil cmp_Cons index_absent)

lemma cmp_self: "cmp v v acc = acc"
  by (simp add: cmp_filter)

lemma cmp_append_left: "cmp (u @ v) v2 acc = cmp v v2 (cmp u v2 acc)"
  by (simp add: cmp_filter)

lemma cmp_append_right: "cmp v1 (u @ w) [] = cmp (cmp v1 u []) w []"
  by (simp add: cmp_filter image_Un conj_commute)

lemma cmp_sound: "x \<in> set (cmp v1 v2 []) \<longleftrightarrow> x \<in> set v1 \<and> key x \<notin> key ` set v2"
  by (simp add: cmp_filter)

end

end
