(* ===== verification/Fhf.thy ===== *)
theory Fhf
  imports Blk_Ranges Ext2_Dir Xfs_Dir Keyed_Diff
begin

text \<open>
  \<^verbatim>\<open>src/src/fhf.c\<close>, the search for hidden files: \<open>query_blocks\<close> finds the device of a path, its
  block numbers and the offset of the device in its parent; \<open>dump_blocks\<close> reads the blocks from
  the raw device; \<open>find_hidden_files\<close> parses them as a directory and compares the names with
  those the system lists; \<open>fhf_main\<close> compares the data read through the device and through its
  parent and prints what it found. A pointer into the dumped data is its offset. What
  \<open>getopt_long\<close> returns is the argument of \<open>fhf_main\<close>; messages on stderr are left out.
\<close>

section \<open>Finding the blocks\<close>

record QueryBlocks =
  qb_path :: string
  qb_fs :: stat
  qb_dev :: DeviceInfo
  qb_parent_dev :: DeviceInfo
  qb_parentoffset :: u64
  qb_blkunitsz :: int
  qb_blknums :: "u64 list"
  qb_blkcount :: nat

definition empty_stat :: stat where
  "empty_stat = \<lparr>st_kind = S_OTHER, st_dev = 0, st_rdev = 0, st_ino = 0, st_blksize = 0, st_blocks = 0\<rparr>"

definition empty_qb :: QueryBlocks where
  "empty_qb = \<lparr>qb_path = [], qb_fs = empty_stat, qb_dev = empty_device, qb_parent_dev = empty_device,
     qb_parentoffset = 0, qb_blkunitsz = 0, qb_blknums = [], qb_blkcount = 0\<rparr>"

definition clean_queryblock :: "QueryBlocks \<Rightarrow> QueryBlocks" where
  "clean_queryblock qb = qb\<lparr>qb_blknums := []\<rparr>"

text \<open>The part of \<open>query_blocks\<close> that depends on the file system; 0: go on.\<close>

definition query_fs_blocks ::
  "os \<Rightarrow> (u64 list \<times> nat) lsblks_fn \<Rightarrow> string \<Rightarrow> stat \<Rightarrow> DeviceInfo \<Rightarrow> QueryBlocks \<Rightarrow> (int \<times> QueryBlocks) res" where
  "query_fs_blocks os lsblks path fs di qb =
     (if starts_with ''xfs'' (di_fstype di)
      then and_then (xfs_get_path_extents os path (qb_blknums qb)) (\<lambda>(ret, blocks, count).
             let qb1 = qb\<lparr>qb_blknums := blocks, qb_blkcount := count\<rparr>
             in if ret \<noteq> 0 then Inr (1, qb1)
                else if count = 0 then Inr (1, qb1)
                else Inr (0, qb1\<lparr>qb_blkunitsz := 512\<rparr>))
      else if starts_with ''ext'' (di_fstype di)
      then (let blocksize = sint (of_nat (st_blksize fs) :: u32)
            in and_then (ext_get_inode_datablocks lsblks (di_dev di) (st_ino fs) (qb_blknums qb)) (\<lambda>(ret, blocks, count).
               if ret \<noteq> 0
               then and_then (ext_get_inode_datablocks lsblks (di_dev di) (st_ino fs) []) (\<lambda>(ret2, blocks2, count2).
                      let qb2 = qb\<lparr>qb_blknums := blocks2, qb_blkcount := count2\<rparr>
                      in if ret2 \<noteq> 0 then Inr (1, qb2) else Inr (0, qb2\<lparr>qb_blkunitsz := blocksize\<rparr>))
               else Inr (0, qb\<lparr>qb_blknums := blocks, qb_blkcount := count, qb_blkunitsz := blocksize\<rparr>)))
      else Inr (1, qb))"

text \<open>The part of \<open>query_blocks\<close> that finds the offset of the device in its parent.\<close>

definition query_parent_offset :: "os \<Rightarrow> DeviceInfo \<Rightarrow> DeviceInfo \<Rightarrow> QueryBlocks \<Rightarrow> (int \<times> QueryBlocks) res" where
  "query_parent_offset os di diparent qb =
     (if di_dev diparent = [] then Inr (101, qb)
      else if di_type di = ''part''
      then and_then (ext_parse_volume_range os (di_dev diparent) (di_dev di) 0 0) (\<lambda>(ret, start, ende).
             if ret \<noteq> 0 then Inr (1, qb) else Inr (0, qb\<lparr>qb_parentoffset := start * 512\<rparr>))
      else if di_type di = ''raid''
      then and_then (ext_parse_volume_range os (di_dev diparent) (di_md diparent) 0 0) (\<lambda>(ret, start, ende).
             if ret \<noteq> 0 then Inr (1, qb) else Inr (0, qb\<lparr>qb_parentoffset := start * 512\<rparr>))
      else if di_type di = ''lvm''
      then and_then (lvm_parse_pvs_pestart os (di_dev diparent) 0) (\<lambda>(ret, pe).
             if ret \<noteq> 0 then Inr (1, qb)
             else (let qb1 = qb\<lparr>qb_parentoffset := pe * 512\<rparr>
                   in and_then (lvm_parse_volume_range os (di_dev diparent) (di_dev di) 0 0 0) (\<lambda>(ret2, start, ende, usize).
                      if ret2 \<noteq> 0 then Inr (1, qb1)
                      else Inr (0, qb1\<lparr>qb_parentoffset := qb_parentoffset qb1 + start * usize * 512\<rparr>))))
      else Inr (1, qb))"

definition query_blocks ::
  "nat \<Rightarrow> os \<Rightarrow> (u64 list \<times> nat) lsblks_fn \<Rightarrow> string \<Rightarrow> QueryBlocks \<Rightarrow> (int \<times> QueryBlocks) res" where
  "query_blocks fuel os lsblks path qb =
     (case os_stat os path of
        None \<Rightarrow> Inr (2, qb)
      | Some fs \<Rightarrow>
          let qb1 = qb\<lparr>qb_path := strncpy0 255 path, qb_fs := fs\<rparr>
          in if \<not> os_access os ''/sys/block'' \<and> \<not> os_access os ''/sys/dev/block'' then Inr (2, qb1)
             else and_then (myLsblk fuel os (st_dev fs) empty_device empty_device) (\<lambda>(ret, di, diparent).
               if ret \<noteq> 0 then Inr (2, qb1)
               else and_then (query_fs_blocks os lsblks path fs di (qb1\<lparr>qb_dev := di, qb_parent_dev := diparent\<rparr>)) (\<lambda>(ret2, qb2).
                 if ret2 \<noteq> 0 then Inr (ret2, qb2) else query_parent_offset os di diparent qb2)))"

section \<open>Reading the blocks\<close>

text \<open>
  The loop of \<open>dump_blocks\<close>: \<open>mem\<close> holds the bytes read so far (\<open>j\<close> blocks), \<open>memsize\<close> is what
  was allocated, \<open>exts\<close> the offsets of the extent starts. \<open>None\<close>: a read failed. The allocation itself
  succeeds here, also that of no bytes, for which \<open>malloc\<close> of glibc returns a pointer.
\<close>

fun dump_loop ::
  "byte list \<Rightarrow> u64 \<Rightarrow> int \<Rightarrow> nat \<Rightarrow> u64 list \<Rightarrow> byte list \<Rightarrow> nat \<Rightarrow> nat list \<Rightarrow> (byte list option \<times> nat list) res" where
  "dump_loop dev base blkunitsz memsize [] mem j exts = Inr (Some mem, exts)"
| "dump_loop dev base blkunitsz memsize (bno # blknums) mem j exts =
     (if bno = - 1 then dump_loop dev base blkunitsz memsize blknums mem j (exts @ [length mem])
      else (let offset = base + bno * of_int blkunitsz; unit = nat blkunitsz
            in if sint offset < 0 then Inr (None, exts)
               else if 2 ^ 31 \<le> int j * blkunitsz then Inl SignedOverflow
               else if memsize < j * unit + unit then Inl BufferOverflow
               else if unit = 0 \<or> length dev < unat offset + unit then Inr (None, exts)
               else dump_loop dev base blkunitsz memsize blknums (mem @ take unit (drop (unat offset) dev)) (j + 1) exts))"

definition dump_blocks :: "os \<Rightarrow> QueryBlocks \<Rightarrow> bool \<Rightarrow> (int \<times> byte list option \<times> nat list) res" where
  "dump_blocks os qb readparent =
     (case os_device os (if readparent then di_dev (qb_parent_dev qb) else di_dev (qb_dev qb)) of
        None \<Rightarrow> Inr (2, None, [])
      | Some dev \<Rightarrow>
          and_then (dump_loop dev (if readparent then qb_parentoffset qb else 0) (qb_blkunitsz qb)
              (unat (of_int (qb_blkunitsz qb) * of_nat (qb_blkcount qb) :: u64)) (qb_blknums qb) [] 0 []) (\<lambda>(mem, exts).
            case mem of
              None \<Rightarrow> Inr (1, None, exts)
            | Some data \<Rightarrow> Inr (0, Some data, exts)))"

section \<open>Comparing names\<close>

text \<open>The name of an entry as a C string: \<open>strcmp\<close> and \<open>%s\<close> stop at a NUL.\<close>

definition de_text :: "my_dir_entry \<Rightarrow> string" where
  "de_text e = cstr (map char_of_byte (de_name e))"

fun dirent_index_loop :: "int \<Rightarrow> my_dir_entry list \<Rightarrow> string \<Rightarrow> int" where
  "dirent_index_loop n [] name = - 1"
| "dirent_index_loop n (entry # rest) name = (if name = de_text entry then n else dirent_index_loop (n + 1) rest name)"

definition vector_dirent_index :: "my_dir_entry list \<Rightarrow> string \<Rightarrow> int" where
  "vector_dirent_index v name = dirent_index_loop 0 v name"

text \<open>With \<open>onlyref\<close> the pointers are shared, otherwise the entries are copied: the same values.\<close>

fun vector_dirent_cmp :: "my_dir_entry list \<Rightarrow> my_dir_entry list \<Rightarrow> my_dir_entry list \<Rightarrow> my_dir_entry list" where
  "vector_dirent_cmp [] vector2 in1_notin2 = in1_notin2"
| "vector_dirent_cmp (entry # vector1) vector2 in1_notin2 =
     (if vector_dirent_index vector2 (de_text entry) = - 1
      then vector_dirent_cmp vector1 vector2 (in1_notin2 @ [entry])
      else vector_dirent_cmp vector1 vector2 in1_notin2)"

text \<open>
  The loop over the extents; each is parsed up to the start of the next. \<open>None\<close> is the early
  return for an unknown type; the result of the parser is overwritten and never looked at.
\<close>

fun parse_extents ::
  "nat \<Rightarrow> bool \<Rightarrow> string \<Rightarrow> byte list \<Rightarrow> u64 \<Rightarrow> nat \<Rightarrow> nat list \<Rightarrow> my_dir_entry list \<Rightarrow> my_dir_entry list option res" where
  "parse_extents fuel be fstype data datalen first [] raw = Inr (Some raw)"
| "parse_extents fuel be fstype data datalen first (pos # ptrs) raw =
     (let poslen = (case ptrs of
                      next # _ \<Rightarrow> of_nat next - of_nat pos
                    | [] \<Rightarrow> of_nat first + datalen - of_nat pos) :: u64
      in if starts_with ''ext'' fstype
         then and_then (parse_ext2_dir be (drop pos data) (ucast poslen) raw) (\<lambda>(ret, raw').
                parse_extents fuel be fstype data datalen first ptrs raw')
         else if starts_with ''xfs'' fstype
         then and_then (parse_xfs_dir fuel be (drop pos data) (ucast poslen) raw) (\<lambda>(ret, raw').
                parse_extents fuel be fstype data datalen first ptrs raw')
         else Inr None)"

record hidden_search =
  hs_ret :: int
  hs_raw :: "my_dir_entry list"
  hs_dir :: "my_dir_entry list"
  hs_hidden :: "my_dir_entry list"

definition find_hidden_files ::
  "nat \<Rightarrow> bool \<Rightarrow> os \<Rightarrow> string \<Rightarrow> byte list \<Rightarrow> nat list \<Rightarrow> u64 \<Rightarrow> string \<Rightarrow> hidden_search res" where
  "find_hidden_files fuel be os fstype data vecdata datalen dirpath =
     (let dirfiles = snd (do_dir (os_readdir os dirpath) [])
      in case vecdata of
           [] \<Rightarrow> Inr \<lparr>hs_ret = 1, hs_raw = [], hs_dir = dirfiles, hs_hidden = []\<rparr>
         | first # _ \<Rightarrow>
             and_then (parse_extents fuel be fstype data datalen first vecdata []) (\<lambda>raw.
               case raw of
                 None \<Rightarrow> Inr \<lparr>hs_ret = 1, hs_raw = [], hs_dir = dirfiles, hs_hidden = []\<rparr>
               | Some rawfiles \<Rightarrow>
                   Inr \<lparr>hs_ret = 0, hs_raw = rawfiles, hs_dir = dirfiles,
                        hs_hidden = vector_dirent_cmp rawfiles dirfiles []\<rparr>))"

section \<open>Facts on names\<close>

lemma dirent_index_loop_absent: "0 \<le> n \<Longrightarrow> dirent_index_loop n v name = - 1 \<longleftrightarrow> name \<notin> de_text ` set v"
  by (induction v arbitrary: n) auto

interpretation dirents: keyed_vector de_text vector_dirent_index vector_dirent_cmp
  by unfold_locales (auto simp: vector_dirent_index_def dirent_index_loop_absent)

lemmas vector_dirent_cmp_filter = dirents.cmp_filter

lemma de_text_dirent_entry: "CHR 0x00 \<notin> set (d_name d) \<Longrightarrow> de_text (dirent_entry d) = d_name d"
  by (simp add: de_text_def dirent_entry_def comp_def)

definition listed :: "dirent list \<Rightarrow> dirent list" where
  "listed entries = filter (\<lambda>e. d_name e \<noteq> ''.'' \<and> d_name e \<noteq> ''..'') entries"

lemma do_dir_names:
  assumes "\<And>d. d \<in> set entries \<Longrightarrow> CHR 0x00 \<notin> set (d_name d)"
  shows "de_text ` set (snd (do_dir (Some entries) [])) = d_name ` set (listed entries)"
proof -
  have "de_text ` set (snd (do_dir (Some entries) [])) = (\<lambda>d. de_text (dirent_entry d)) ` set (listed entries)"
    by (auto simp: do_dir_def listed_def image_image)
  also have "\<dots> = d_name ` set (listed entries)"
    using assms by (intro image_cong) (auto simp: listed_def de_text_dirent_entry)
  finally show ?thesis .
qed

section \<open>Facts on the dump\<close>

definition block_offset :: "u64 \<Rightarrow> nat \<Rightarrow> u64 \<Rightarrow> u64" where
  "block_offset base unit bno = base + bno * of_nat unit"

definition block_at :: "byte list \<Rightarrow> u64 \<Rightarrow> nat \<Rightarrow> u64 \<Rightarrow> byte list" where
  "block_at dev base unit bno = take unit (drop (unat (block_offset base unit bno)) dev)"

definition block_readable :: "byte list \<Rightarrow> u64 \<Rightarrow> nat \<Rightarrow> u64 \<Rightarrow> bool" where
  "block_readable dev base unit bno \<longleftrightarrow>
     0 \<le> sint (block_offset base unit bno) \<and> unat (block_offset base unit bno) + unit \<le> length dev"

definition real_blocks :: "u64 list \<Rightarrow> u64 list" where
  "real_blocks nums = filter (\<lambda>b. b \<noteq> - 1) nums"

fun extent_starts :: "nat \<Rightarrow> nat \<Rightarrow> u64 list \<Rightarrow> nat list" where
  "extent_starts unit off [] = []"
| "extent_starts unit off (b # bs) =
     (if b = - 1 then off # extent_starts unit off bs else extent_starts unit (off + unit) bs)"

lemma dump_loop_reads:
  assumes "0 < unit" and "list_all (block_readable dev base unit) (real_blocks nums)"
    and "(j + length (real_blocks nums)) * unit \<le> memsize" and "(j + length (real_blocks nums)) * unit < 2 ^ 31"
    and "length mem = j * unit"
  shows "dump_loop dev base (int unit) memsize nums mem j exts =
           Inr (Some (mem @ concat (map (block_at dev base unit) (real_blocks nums))), exts @ extent_starts unit (length mem) nums)"
  using assms(2-5)
proof (induction nums arbitrary: mem j exts)
  case Nil
  then show ?case by (simp add: real_blocks_def)
next
  case (Cons b nums)
  show ?case
  proof (cases "b = - 1")
    case True
    then show ?thesis using Cons by (simp add: real_blocks_def)
  next
    case False
    then have r: "block_readable dev base unit b"
      and len: "length (mem @ block_at dev base unit b) = Suc j * unit"
      and js: "(Suc j + length (real_blocks nums)) * unit \<le> memsize" "(Suc j + length (real_blocks nums)) * unit < 2 ^ 31"
      using Cons.prems by (auto simp: real_blocks_def block_readable_def block_at_def)
    have "Suc j * unit \<le> (Suc j + length (real_blocks nums)) * unit" by (intro mult_le_mono1) simp
    with js have mem1: "j * unit + unit \<le> memsize" and small: "j * unit < 2 ^ 31" by (simp_all add: add_mult_distrib)
    then have "\<not> 2 ^ 31 \<le> int j * int unit" by (simp flip: of_nat_mult)
    then have "dump_loop dev base (int unit) memsize (b # nums) mem j exts =
        dump_loop dev base (int unit) memsize nums (mem @ block_at dev base unit b) (Suc j) exts"
      using False r mem1 assms(1) by (simp add: Let_def block_readable_def block_at_def block_offset_def)
    moreover have "list_all (block_readable dev base unit) (real_blocks nums)" using Cons.prems False by (simp add: real_blocks_def)
    moreover have "extent_starts unit (length mem) (b # nums) = extent_starts unit (length (mem @ block_at dev base unit b)) nums"
      using False len Cons.prems(4) by (simp add: add.commute)
    ultimately show ?thesis using Cons.IH [OF _ js len] False by (simp add: real_blocks_def)
  qed
qed

lemma dump_blocks_reads:
  assumes "os_device os (if readparent then di_dev (qb_parent_dev qb) else di_dev (qb_dev qb)) = Some dev"
    and "qb_blkunitsz qb = int unit" and "0 < unit" and "qb_blkcount qb = length (real_blocks (qb_blknums qb))"
    and "length (real_blocks (qb_blknums qb)) * unit < 2 ^ 31"
    and "list_all (block_readable dev (if readparent then qb_parentoffset qb else 0) unit) (real_blocks (qb_blknums qb))"
  shows "dump_blocks os qb readparent =
     Inr (0, Some (concat (map (block_at dev (if readparent then qb_parentoffset qb else 0) unit) (real_blocks (qb_blknums qb)))),
             extent_starts unit 0 (qb_blknums qb))"
proof -
  let ?n = "length (real_blocks (qb_blknums qb))"
  have "unat (of_nat (?n * unit) :: u64) = ?n * unit" using assms(5) by (simp add: unat_of_nat del: of_nat_mult)
  then have "unat (of_int (qb_blkunitsz qb) * of_nat (qb_blkcount qb) :: u64) = ?n * unit"
    using assms(2,4) by (simp add: mult.commute)
  then show ?thesis
    using dump_loop_reads [OF assms(3,6), of 0 "?n * unit" "[]" "[]"] assms(1,2,5) by (simp add: dump_blocks_def)
qed

lemma block_at_length: "block_readable dev base unit b \<Longrightarrow> length (block_at dev base unit b) = unit"
  by (auto simp: block_at_def block_readable_def)

lemma sint_nonneg: "unat (w :: u64) < 2 ^ 63 \<Longrightarrow> 0 \<le> sint w"
proof -
  assume "unat w < 2 ^ 63"
  moreover have "uint w = int (unat w)" by simp
  ultimately have "uint w < 2 ^ 63" by (metis of_nat_less_iff of_nat_numeral of_nat_power)
  then have "uint w div 2 ^ 63 = 0" by (simp add: div_pos_pos_trivial)
  then have "\<not> bit (uint w) 63" by (simp add: bit_iff_odd)
  then show ?thesis by (simp add: sint_uint)
qed

text \<open>A device that is the part of its parent that begins at byte \<open>off\<close>.\<close>

definition part_of :: "byte list \<Rightarrow> nat \<Rightarrow> byte list \<Rightarrow> bool" where
  "part_of dev off parent \<longleftrightarrow> off + length dev \<le> length parent \<and> dev = take (length dev) (drop off parent)"

lemma part_of_block:
  assumes "part_of dev (unat off) parent" and "block_readable dev 0 unit b" and "length parent < 2 ^ 63"
  shows "block_readable parent off unit b" and "block_at parent off unit b = block_at dev 0 unit b"
proof -
  let ?o = "block_offset 0 unit b"
  have fits: "unat ?o + unit \<le> length dev" "unat off + length dev \<le> length parent"
    using assms by (auto simp: block_readable_def part_of_def)
  have bo: "block_offset off unit b = off + ?o" by (simp add: block_offset_def)
  have sum: "unat (block_offset off unit b) = unat off + unat ?o"
    using fits assms(3) unfolding bo by (simp add: unat_word_ariths)
  have "unat off + unat ?o < 2 ^ 63" using fits assms(3) by linarith
  then have "0 \<le> sint (block_offset off unit b)"
    using sum by (intro sint_nonneg) simp
  then show "block_readable parent off unit b" using fits sum by (simp add: block_readable_def)
  have "dev = take (length dev) (drop (unat off) parent)" using assms(1) by (simp add: part_of_def)
  then have "take unit (drop (unat ?o) dev) = take unit (drop (unat ?o) (take (length dev) (drop (unat off) parent)))" by simp
  also have "\<dots> = take unit (drop (unat off + unat ?o) parent)"
    using fits by (simp add: drop_take add.commute min_def)
  finally show "block_at parent off unit b = block_at dev 0 unit b"
    using sum by (simp add: block_at_def)
qed

section \<open>Facts on the search\<close>

lemma parse_extents_ext2:
  assumes "starts_with ''ext'' fstype" and "list_all ext2_rec_ok rs" and "data = concat (map ext2_encode rs)"
    and "length data < 2 ^ 32"
  shows "parse_extents fuel be fstype data (of_nat (length data)) 0 [0] [] =
           Inr (Some (map ext2_entry_of (filter ext2_live rs)))"
proof -
  have "(ucast (of_nat (length data) :: u64) :: u32) = of_nat (length data)"
    using assms(4) by (simp add: word_unat_eq_iff unsigned_ucast_eq unat_of_nat take_bit_nat_eq_self)
  then show ?thesis
    using ext2_loop_encode [OF assms(2), of be "[]" "[]" "[]"] assms
    by (simp add: parse_ext2_dir_def unat_of_nat)
qed

text \<open>
  An extent of an XFS directory: directory blocks (magic number, the rest of the first header,
  records, and in the block form the array of hashes), or blocks of the directory that hold no
  entries, as the leaf, node and free-index blocks behind the data blocks do; their first word is
  none of the four magic numbers and \<open>parse_xfs_dir\<close> returns 1.
\<close>

datatype xfs_extent =
    XBlocks u32 "byte list" bool "xfs_rec list" xfs_tail
  | XIndex "byte list"

fun xfs_chunk_ok :: "nat \<Rightarrow> xfs_extent \<Rightarrow> bool" where
  "xfs_chunk_ok fuel (XBlocks magic body multiblock rs tail) \<longleftrightarrow>
     xfs_header magic = Some (4 + length body, multiblock) \<and> list_all (xfs_rec_ok multiblock) rs \<and>
     xfs_tail_ok multiblock tail \<and> length rs < fuel"
| "xfs_chunk_ok fuel (XIndex bytes) \<longleftrightarrow> 4 \<le> length bytes \<and> xfs_header (word_of_be (take 4 bytes)) = None"

fun xfs_chunk :: "xfs_extent \<Rightarrow> byte list" where
  "xfs_chunk (XBlocks magic body multiblock rs tail) =
     rev (le_of_word 4 magic) @ body @ concat (map xfs_encode rs) @ xfs_tail_encode tail"
| "xfs_chunk (XIndex bytes) = bytes"

fun xfs_chunk_entries :: "xfs_extent \<Rightarrow> my_dir_entry list" where
  "xfs_chunk_entries (XBlocks magic body multiblock rs tail) = concat (map xfs_entries rs)"
| "xfs_chunk_entries (XIndex bytes) = []"

lemma parse_xfs_chunk:
  assumes "xfs_chunk_ok fuel c" and "unat datalen = length (xfs_chunk c)"
  shows "\<exists>ret. parse_xfs_dir fuel be (xfs_chunk c @ post) datalen files = Inr (ret, files @ xfs_chunk_entries c)"
proof (cases c)
  case c: (XBlocks magic body multiblock rs tail)
  let ?pre = "rev (le_of_word 4 magic) @ body"
  have "xfs_loop fuel be multiblock (?pre @ concat (map xfs_encode rs) @ xfs_tail_encode tail @ post) (unat datalen) (length ?pre) files =
      Inr (files @ concat (map xfs_entries rs))"
    using assms by (intro xfs_loop_block) (auto simp: c)
  moreover have "read_at (xfs_chunk c @ post) 0 4 = Inr (rev (le_of_word 4 magic))" by (simp add: c)
  ultimately show ?thesis using assms(1) by (simp add: parse_xfs_dir_def c from_be_load)
next
  case (XIndex bytes)
  then show ?thesis using assms(1) by (simp add: parse_xfs_dir_def from_be_load)
qed

fun chunk_starts :: "nat \<Rightarrow> byte list list \<Rightarrow> nat list" where
  "chunk_starts off [] = []"
| "chunk_starts off (c # cs) = off # chunk_starts (off + length c) cs"

lemma chunk_starts_head: "cs \<noteq> [] \<Longrightarrow> \<exists>rest. chunk_starts off cs = off # rest"
  by (cases cs) auto

lemma parse_extents_xfs:
  assumes "starts_with ''xfs'' fstype" and "list_all (xfs_chunk_ok fuel) cs"
    and "length (pre @ concat (map xfs_chunk cs)) < 2 ^ 32"
  shows "parse_extents fuel be fstype (pre @ concat (map xfs_chunk cs)) (of_nat (length (pre @ concat (map xfs_chunk cs)))) 0
           (chunk_starts (length pre) (map xfs_chunk cs)) raw =
         Inr (Some (raw @ concat (map xfs_chunk_entries cs)))"
  using assms(2,3)
proof (induction cs arbitrary: pre raw)
  case Nil
  then show ?case by simp
next
  case (Cons c cs)
  let ?data = "pre @ concat (map xfs_chunk (c # cs))" and ?ptrs = "chunk_starts (length pre + length (xfs_chunk c)) (map xfs_chunk cs)"
  define poslen :: u64 where "poslen = (case ?ptrs of next # _ \<Rightarrow> of_nat next - of_nat (length pre)
      | [] \<Rightarrow> of_nat 0 + of_nat (length ?data) - of_nat (length pre))"
  have "poslen = of_nat (length (xfs_chunk c))"
    using chunk_starts_head [of "map xfs_chunk cs" "length pre + length (xfs_chunk c)"]
    by (cases "cs = []") (auto simp: poslen_def)
  moreover have "length (xfs_chunk c) < 2 ^ 32" using Cons.prems by simp
  ultimately have len: "unat (ucast poslen :: u32) = length (xfs_chunk c)"
    by (simp add: unsigned_ucast_eq unat_of_nat take_bit_nat_eq_self)
  obtain ret where ret: "parse_xfs_dir fuel be (xfs_chunk c @ concat (map xfs_chunk cs)) (ucast poslen) raw = Inr (ret, raw @ xfs_chunk_entries c)"
    using parse_xfs_chunk [OF _ len, of fuel] Cons.prems(1) by fastforce
  have ne: "\<not> starts_with ''ext'' fstype" using assms(1) by (auto simp: starts_with_iff)
  have "parse_extents fuel be fstype ?data (of_nat (length ?data)) 0 (length pre # ?ptrs) raw =
      and_then (parse_xfs_dir fuel be (drop (length pre) ?data) (ucast poslen) raw) (\<lambda>(ret, raw').
        parse_extents fuel be fstype ?data (of_nat (length ?data)) 0 ?ptrs raw')"
    using assms(1) ne by (simp only: parse_extents.simps Let_def poslen_def if_True if_False)
  also have "drop (length pre) ?data = xfs_chunk c @ concat (map xfs_chunk cs)" by simp
  also have "parse_xfs_dir fuel be \<dots> (ucast poslen) raw = Inr (ret, raw @ xfs_chunk_entries c)" by (rule ret)
  also have "and_then (Inr (ret, raw @ xfs_chunk_entries c)) (\<lambda>(ret, raw'). parse_extents fuel be fstype ?data (of_nat (length ?data)) 0 ?ptrs raw') =
      parse_extents fuel be fstype ?data (of_nat (length ?data)) 0 ?ptrs (raw @ xfs_chunk_entries c)" by simp
  also have "\<dots> = Inr (Some (raw @ concat (map xfs_chunk_entries (c # cs))))"
    using Cons.IH [of "pre @ xfs_chunk c" "raw @ xfs_chunk_entries c"] Cons.prems by (simp add: add.assoc)
  finally show ?case by simp
qed

end
