(* ===== verification/Fhf_Main.thy ===== *)
theory Fhf_Main
  imports Fhf
begin

text \<open>
  \<open>fhf_main\<close> of \<^verbatim>\<open>src/src/fhf.c\<close> and \<open>writedata\<close>. The environment of a run is a record: the
  system, \<open>lsblks\<close>, the byte order of the machine, the fuel of the searches, what \<open>fwrite\<close>
  accepts of a buffer and which output files can be created. The effects of a run are the text
  on stdout and the bytes of the output file.
\<close>

section \<open>Environment and effects\<close>

record fhf_env =
  fe_fuel :: nat
  fe_be :: bool
  fe_os :: os
  fe_lsblks :: "(u64 list \<times> nat) lsblks_fn"
  fe_fwrite :: "byte list \<Rightarrow> nat"          \<comment> \<open>how many bytes of a buffer \<open>fwrite\<close> accepts\<close>
  fe_creat :: "string \<Rightarrow> bool"             \<comment> \<open>\<open>fopen(_, "wb")\<close> succeeds\<close>

datatype sink = NoSink | Stdout | OutFile

record fhf_io =
  io_out :: string
  io_file :: "byte list option"
  io_sink :: sink

definition put :: "string \<Rightarrow> fhf_io \<Rightarrow> fhf_io" where
  "put s io = io\<lparr>io_out := io_out io @ s\<rparr>"

abbreviation nl :: string where "nl \<equiv> [CHR 0x0A]"

text \<open>\<open>writedata\<close>: the return value and the bytes that reached the stream.\<close>

function writedata :: "(byte list \<Rightarrow> nat) \<Rightarrow> byte list \<Rightarrow> int \<times> byte list" where
  "writedata fwrite data =
     (if data = [] then (0, [])
      else (let writeBytes = min (fwrite data) (length data)
            in if writeBytes = 0 then (1, [])
               else (let (ret, written) = writedata fwrite (drop writeBytes data)
                     in (ret, take writeBytes data @ written))))"
  by pat_completeness auto
termination
  by (relation "measure (\<lambda>(fwrite, data). length data)") (auto simp: min_def split: if_splits)

declare writedata.simps [simp del]

definition write_sink :: "fhf_env \<Rightarrow> byte list \<Rightarrow> fhf_io \<Rightarrow> fhf_io" where
  "write_sink env data io =
     (let written = snd (writedata (fe_fwrite env) data)
      in case io_sink io of
           NoSink \<Rightarrow> io
         | Stdout \<Rightarrow> put (map char_of_byte written) io
         | OutFile \<Rightarrow> io\<lparr>io_file := Some ((case io_file io of Some bs \<Rightarrow> bs | None \<Rightarrow> []) @ written)\<rparr>)"

text \<open>\<open>if (output && outputfp == NULL) outputfp = fopen(output, "wb")\<close>; \<open>None\<close>: \<open>fopen\<close> failed.\<close>

definition open_output :: "fhf_env \<Rightarrow> string option \<Rightarrow> fhf_io \<Rightarrow> fhf_io option" where
  "open_output env output io =
     (case output of
        None \<Rightarrow> Some io
      | Some path \<Rightarrow>
          if io_sink io \<noteq> NoSink then Some io
          else if fe_creat env path then Some (io\<lparr>io_sink := OutFile, io_file := Some []\<rparr>) else None)"

section \<open>Options\<close>

record fhf_opts =
  fo_fileName :: "string option"
  fo_read_parent :: nat
  fo_cmp_parent_only :: bool
  fo_output :: "string option"
  fo_verbose :: nat

text \<open>The results of \<open>getopt_long\<close> in order; \<open>Inl\<close> is an early return.\<close>

fun fhf_options :: "(char \<times> string) list \<Rightarrow> fhf_opts \<Rightarrow> int + fhf_opts" where
  "fhf_options [] opts = Inr opts"
| "fhf_options ((option, optarg) # rest) opts =
     (if option = CHR ''f'' then fhf_options rest (opts\<lparr>fo_fileName := Some optarg\<rparr>)
      else if option = CHR ''o'' then fhf_options rest (opts\<lparr>fo_output := Some optarg\<rparr>)
      else if option = CHR ''p'' then fhf_options rest (opts\<lparr>fo_read_parent := fo_read_parent opts + 1\<rparr>)
      else if option = CHR ''c'' then fhf_options rest (opts\<lparr>fo_cmp_parent_only := True\<rparr>)
      else if option = CHR ''v'' then fhf_options rest (opts\<lparr>fo_verbose := fo_verbose opts + 1\<rparr>)
      else if option = CHR ''h'' then Inl 0
      else if option = CHR ''?'' then Inl 1
      else fhf_options rest opts)"

section \<open>Details\<close>

fun block_list :: "nat \<Rightarrow> u64 list \<Rightarrow> string" where
  "block_list i [] = []"
| "block_list i (bno # blknums) =
     (if bno = - 1 then (if i > 0 then '', '' else []) else dec_of_nat (unat bno) @ '' '') @ block_list (Suc i) blknums"

definition print_details :: "string \<Rightarrow> nat \<Rightarrow> QueryBlocks \<Rightarrow> string" where
  "print_details fileName verbose qb =
     (if di_dev (qb_dev qb) = []
      then ''query blocks: '' @ fileName @ '': no partition details.'' @ nl
      else if verbose \<ge> 1
      then ''----details of partition----'' @ nl @ ''FILE='' @ fileName @ nl @
           ''DEV_NAME='' @ di_name (qb_dev qb) @ nl @ ''DEV='' @ di_dev (qb_dev qb) @ nl @
           ''DEV_MAJ_MIN='' @ di_maj_min (qb_dev qb) @ nl @ ''INODE='' @ dec_of_nat (unat (st_ino (qb_fs qb))) @ nl @
           ''BLOCKS='' @ dec_of_nat (unat (st_blocks (qb_fs qb))) @ nl @ ''TYPE='' @ di_type (qb_dev qb) @ nl @
           ''FSTYPE='' @ di_fstype (qb_dev qb) @ nl @ ''PARENT_DEV='' @ di_dev (qb_parent_dev qb) @ nl @
           ''----details of blocks----'' @ nl @
           (if di_dev (qb_parent_dev qb) \<noteq> []
            then ''offset resides in parentdev='' @ dec_of_nat (unat (qb_parentoffset qb)) @ nl else []) @
           ''blocksize='' @ dec_of_int (qb_blkunitsz qb) @ nl @ ''blockcount='' @ dec_of_nat (qb_blkcount qb) @ nl @
           (if verbose \<ge> 2 \<and> qb_blkcount qb \<noteq> 0 then block_list 0 (qb_blknums qb) @ nl else [])
      else [])"

section \<open>Comparing with the parent\<close>

definition separator :: "byte list" where
  "separator = map byte_of_char (nl @ ''--------0274d4295e64cd697adfad0028b9ee--------'' @ nl)"

text \<open>The first \<open>do ... while (0)\<close> after the dumps: the return value so far and the effects.\<close>

definition compare_parent ::
  "fhf_env \<Rightarrow> string option \<Rightarrow> byte list option \<Rightarrow> byte list option \<Rightarrow> u64 \<Rightarrow> int \<Rightarrow> fhf_io \<Rightarrow> (int \<times> fhf_io) res" where
  "compare_parent env output blkdata0 blkdatap datalen ret io =
     (case (blkdata0, blkdatap) of
        (Some d0, Some dp) \<Rightarrow>
          and_then (read_at d0 0 (unat datalen)) (\<lambda>a. and_then (read_at dp 0 (unat datalen)) (\<lambda>b.
            if a \<noteq> b
            then (let io1 = put (''compare_blocks: DIFF! (Suspicious!)'' @ nl) io
                  in case open_output env output io1 of
                       None \<Rightarrow> Inr (1, io1)
                     | Some io2 \<Rightarrow> Inr (ret, write_sink env b (write_sink env separator (write_sink env a io2))))
            else Inr (ret, put (''compare_blocks: NODIFF.'' @ nl) io)))
      | _ \<Rightarrow> Inr (1, io))"

section \<open>Reporting hidden files\<close>

definition name_lines :: "my_dir_entry list \<Rightarrow> string" where
  "name_lines es = concat (map (\<lambda>e. de_text e @ nl) es)"

definition report_hidden :: "string \<Rightarrow> nat \<Rightarrow> hidden_search \<Rightarrow> string" where
  "report_hidden fileName verbose hs =
     ''Found '' @ dec_of_nat (length (hs_dir hs)) @ '' files in path of '' @ fileName @ nl @
     ''Parsed out '' @ dec_of_nat (length (hs_raw hs)) @ '' files in blocks of '' @ fileName @ nl @
     (if verbose \<ge> 2
      then (if hs_raw hs \<noteq> [] then ''----file list start----'' @ nl else []) @ name_lines (hs_raw hs) @
           (if hs_raw hs \<noteq> [] then ''----file list end----'' @ nl else [])
      else []) @
     (if hs_hidden hs \<noteq> []
      then ''(Suspicious!) Found hidden files in '' @ fileName @ nl @ name_lines (hs_hidden hs)
      else ''No hidden files found in '' @ fileName @ nl)"

definition known_fstype :: "string \<Rightarrow> bool" where
  "known_fstype fstype \<longleftrightarrow> fstype = ''ext4'' \<or> fstype = ''ext3'' \<or> fstype = ''ext2'' \<or> fstype = ''xfs''"

text \<open>The part of \<open>fhf_main\<close> under \<open>if (!cmp_parent_only)\<close>.\<close>

definition analyse_data ::
  "fhf_env \<Rightarrow> fhf_opts \<Rightarrow> string \<Rightarrow> stat \<Rightarrow> QueryBlocks \<Rightarrow> byte list option \<times> nat list \<Rightarrow> byte list option \<times> nat list \<Rightarrow>
   u64 \<Rightarrow> int \<Rightarrow> fhf_io \<Rightarrow> (int \<times> fhf_io) res" where
  "analyse_data env opts fileName st qb dump0 dumpp datalen ret io =
     (let (blkdata, extent_ptr) =
        (if fo_read_parent opts \<ge> 2 then dumpp
         else if fo_read_parent opts \<ge> 1 \<and> fst dumpp \<noteq> None then dumpp
         else dump0)
      in case blkdata of
           None \<Rightarrow> Inr (1, io)
         | Some data \<Rightarrow>
             (case open_output env (fo_output opts) io of
                None \<Rightarrow> Inr (1, io)
              | Some io1 \<Rightarrow>
                  and_then (read_at data 0 (unat datalen)) (\<lambda>bytes.
                    let io2 = write_sink env bytes io1
                    in if st_kind st \<noteq> S_DIR then Inr (ret, io2)
                       else if known_fstype (di_fstype (qb_dev qb))
                       then and_then (find_hidden_files (fe_fuel env) (fe_be env) (fe_os env) (di_fstype (qb_dev qb)) data
                                extent_ptr datalen fileName) (\<lambda>hs.
                              Inr (ret, put (report_hidden fileName (fo_verbose opts) hs) io2))
                       else Inr (1, put (''Unsupported fstype('' @ di_fstype (qb_dev qb) @ '')'' @ nl) io2))))"

section \<open>The program\<close>

text \<open>\<open>fhf_main\<close> from the block dumps on, for the answer of \<open>query_blocks\<close>.\<close>

definition fhf_inspect :: "fhf_env \<Rightarrow> fhf_opts \<Rightarrow> string \<Rightarrow> stat \<Rightarrow> QueryBlocks \<Rightarrow> fhf_io \<Rightarrow> (int \<times> fhf_io) res" where
  "fhf_inspect env opts fileName st qb io =
     (let io1 = put (''----FHF----'' @ nl) (io\<lparr>io_sink := (if fo_output opts = Some ''-'' then Stdout else NoSink)\<rparr>);
          datalen = of_int (qb_blkunitsz qb) * of_nat (qb_blkcount qb) :: u64
      in and_then (dump_blocks (fe_os env) qb False) (\<lambda>(ret0, blkdata0, extent_ptr0).
         and_then (if di_dev (qb_parent_dev qb) \<noteq> [] then dump_blocks (fe_os env) qb True else Inr (ret0, None, []))
           (\<lambda>(ret1, blkdatap, extent_ptrp).
         and_then (compare_parent env (fo_output opts) blkdata0 blkdatap datalen ret1 io1) (\<lambda>(ret2, io2).
           if fo_cmp_parent_only opts then Inr (ret2, io2)
           else analyse_data env opts fileName st qb (blkdata0, extent_ptr0) (blkdatap, extent_ptrp) datalen ret2 io2))))"

definition fhf_main :: "fhf_env \<Rightarrow> (char \<times> string) list \<Rightarrow> (int \<times> fhf_io) res" where
  "fhf_main env options =
     (let io = \<lparr>io_out = [], io_file = None, io_sink = NoSink\<rparr>
      in case fhf_options options \<lparr>fo_fileName = None, fo_read_parent = 0, fo_cmp_parent_only = False, fo_output = None, fo_verbose = 0\<rparr> of
           Inl ret \<Rightarrow> Inr (ret, io)
         | Inr opts \<Rightarrow>
             (case fo_fileName opts of
                None \<Rightarrow> Inr (1, io)
              | Some fileName \<Rightarrow>
                  (case os_stat (fe_os env) fileName of
                     None \<Rightarrow> Inr (1, io)
                   | Some st \<Rightarrow>
                       and_then (query_blocks (fe_fuel env) (fe_os env) (fe_lsblks env) fileName empty_qb) (\<lambda>(ret, qb).
                         let io1 = put (print_details fileName (fo_verbose opts) qb) io
                         in if ret \<noteq> 0 \<and> ret \<noteq> 101 then Inr (1, io1)
                            else fhf_inspect env opts fileName st qb io1))))"

section \<open>Facts\<close>

lemma writedata_prefix: "\<exists>k. snd (writedata fwrite data) = take k data"
proof (induction fwrite data rule: writedata.induct)
  case (1 fwrite data)
  let ?w = "min (fwrite data) (length data)"
  show ?case
  proof (cases "data = [] \<or> ?w = 0")
    case True
    then show ?thesis by (auto simp: writedata.simps [of fwrite data] Let_def intro: exI [of _ 0])
  next
    case False
    then obtain k where "snd (writedata fwrite (drop ?w data)) = take k (drop ?w data)" using 1 by blast
    then have "snd (writedata fwrite data) = take ?w data @ take k (drop ?w data)"
      using False by (subst writedata.simps) (auto simp: Let_def min_def split: prod.splits if_splits)
    also have "\<dots> = take (?w + k) data" by (simp add: take_add)
    finally show ?thesis by blast
  qed
qed

lemma writedata_all:
  "(\<And>d. d \<noteq> [] \<Longrightarrow> 0 < fwrite d) \<Longrightarrow> writedata fwrite data = (0, data)"
proof (induction fwrite data rule: writedata.induct)
  case (1 fwrite data)
  show ?case
  proof (cases "data = []")
    case True
    then show ?thesis by (simp add: writedata.simps)
  next
    case False
    with 1(2) have "0 < min (fwrite data) (length data)" by simp
    with False 1 show ?thesis by (subst writedata.simps) (auto simp: Let_def)
  qed
qed

text \<open>What the search answers for a directory with the given raw entries and listing.\<close>

definition hidden_of :: "my_dir_entry list \<Rightarrow> dirent list \<Rightarrow> hidden_search" where
  "hidden_of raw entries =
     \<lparr>hs_ret = 0, hs_raw = raw, hs_dir = map dirent_entry (listed entries),
      hs_hidden = filter (\<lambda>e. de_text e \<notin> d_name ` set (listed entries)) raw\<rparr>"

lemma find_hidden_files_raw:
  assumes "os_readdir os dir = Some entries" and "\<And>d. d \<in> set entries \<Longrightarrow> CHR 0x00 \<notin> set (d_name d)"
    and "vecdata = first # rest" and "parse_extents fuel be fstype data datalen first vecdata [] = Inr (Some raw)"
  shows "find_hidden_files fuel be os fstype data vecdata datalen dir = Inr (hidden_of raw entries)"
proof -
  have dirs: "snd (do_dir (Some entries) []) = map dirent_entry (listed entries)"
    by (simp add: do_dir_def listed_def)
  have "de_text ` dirent_entry ` set (listed entries) = d_name ` set (listed entries)"
    using do_dir_names [of entries] assms(2) by (simp add: dirs)
  then show ?thesis using assms(1,3,4) dirs
    by (simp add: find_hidden_files_def hidden_of_def Let_def vector_dirent_cmp_filter)
qed

lemma find_hidden_files_ext2:
  assumes "os_readdir os dir = Some entries" and "\<And>d. d \<in> set entries \<Longrightarrow> CHR 0x00 \<notin> set (d_name d)"
    and "starts_with ''ext'' fstype" and "list_all ext2_rec_ok rs" and "data = concat (map ext2_encode rs)"
    and "length data < 2 ^ 32"
  shows "find_hidden_files fuel be os fstype data [0] (of_nat (length data)) dir =
           Inr (hidden_of (map ext2_entry_of (filter ext2_live rs)) entries)"
  by (rule find_hidden_files_raw [OF assms(1,2) refl parse_extents_ext2 [OF assms(3-6)]])

lemma concat_blocks_length:
  "list_all (block_readable dev base unit) bs \<Longrightarrow> length (concat (map (block_at dev base unit) bs)) = length bs * unit"
  by (induction bs) (auto simp: block_at_length)

lemma extent_starts_single: "- 1 \<notin> set bs \<Longrightarrow> extent_starts unit off bs = []"
  by (induction bs arbitrary: off) auto

lemma parent_dump_same:
  assumes "part_of dev (unat off) parent" and "length parent < 2 ^ 63" and "list_all (block_readable dev 0 unit) bs"
  shows "list_all (block_readable parent off unit) bs"
    and "concat (map (block_at parent off unit) bs) = concat (map (block_at dev 0 unit) bs)"
  using assms(3) part_of_block [OF assms(1) _ assms(2)] by (induction bs) auto

lemma compare_parent_same:
  assumes "unat datalen \<le> length d"
  shows "compare_parent env output (Some d) (Some d) datalen ret io = Inr (ret, put (''compare_blocks: NODIFF.'' @ nl) io)"
  using assms by (simp add: compare_parent_def)

section \<open>Properties\<close>

lemma fhf_inspect_hidden:
  assumes dir: "st_kind st = S_DIR" "os_readdir (fe_os env) fileName = Some entries"
      "\<And>d. d \<in> set entries \<Longrightarrow> CHR 0x00 \<notin> set (d_name d)"
    and opts: "fo_output opts = None" "\<not> fo_cmp_parent_only opts"
    and fs: "di_fstype (qb_dev qb) \<in> {''ext2'', ''ext3'', ''ext4''}"
    and nums: "qb_blknums qb = - 1 # bs" "- 1 \<notin> set bs" "qb_blkcount qb = length bs"
      "qb_blkunitsz qb = int unit" "0 < unit" "length bs * unit < 2 ^ 31"
    and dev: "os_device (fe_os env) (di_dev (qb_dev qb)) = Some dev" "list_all (block_readable dev 0 unit) bs"
    and parent: "di_dev (qb_parent_dev qb) \<noteq> []" "os_device (fe_os env) (di_dev (qb_parent_dev qb)) = Some pdev"
      "part_of dev (unat (qb_parentoffset qb)) pdev" "length pdev < 2 ^ 63"
    and recs: "concat (map (block_at dev 0 unit) bs) = concat (map ext2_encode rs)" "list_all ext2_rec_ok rs"
  shows "fhf_inspect env opts fileName st qb io =
     Inr (0, io\<lparr>io_sink := NoSink, io_out := io_out io @ ''----FHF----'' @ nl @ ''compare_blocks: NODIFF.'' @ nl @
       report_hidden fileName (fo_verbose opts) (hidden_of (map ext2_entry_of (filter ext2_live rs)) entries)\<rparr>)"
proof -
  let ?data = "concat (map ext2_encode rs)"
  have rb: "real_blocks (qb_blknums qb) = bs" using nums(1,2) by (simp add: real_blocks_def filter_id_conv) metis
  have es: "extent_starts unit 0 (qb_blknums qb) = [0]" using nums(1,2) by (simp add: extent_starts_single)
  have len: "length ?data = length bs * unit" using concat_blocks_length [OF dev(2)] recs(1) by simp
  have d0: "dump_blocks (fe_os env) qb False = Inr (0, Some ?data, [0])"
    using dump_blocks_reads [of "fe_os env" False qb dev unit] dev nums rb es recs by simp
  have dp: "dump_blocks (fe_os env) qb True = Inr (0, Some ?data, [0])"
    using dump_blocks_reads [of "fe_os env" True qb pdev unit] parent nums rb es recs
      parent_dump_same [OF parent(3,4) dev(2)] by simp
  have dl: "of_int (qb_blkunitsz qb) * of_nat (qb_blkcount qb) = (of_nat (length ?data) :: u64)"
    using nums len by simp
  have ul: "unat (of_nat (length ?data) :: u64) = length ?data" using nums(6) len by (simp add: unat_of_nat del: of_nat_mult)
  have kn: "known_fstype (di_fstype (qb_dev qb))" "starts_with ''ext'' (di_fstype (qb_dev qb))"
    using fs by (auto simp: known_fstype_def starts_with_def)
  have fh: "find_hidden_files (fe_fuel env) (fe_be env) (fe_os env) (di_fstype (qb_dev qb)) ?data [0] (of_nat (length ?data)) fileName =
      Inr (hidden_of (map ext2_entry_of (filter ext2_live rs)) entries)"
    using nums(6) len by (intro find_hidden_files_ext2 [OF dir(2,3) kn(2) recs(2)]) auto
  show ?thesis
    unfolding fhf_inspect_def Let_def d0 and_then_Inr dl prod.case
    using opts parent(1) dp kn fh dir(1) ul
    by (simp add: compare_parent_same analyse_data_def open_output_def write_sink_def put_def)
qed

text \<open>
  End to end, on a directory of an ext2, ext3 or ext4 partition: when the blocks that were
  found hold any sequence of well-formed directory records and the partition is the part of the
  parent device at the offset that was found, a run without options reads the blocks through
  both devices, reports that they agree and then prints exactly the report for the live records,
  naming as hidden exactly those whose names the system does not list.
\<close>

theorem fhf_reports_hidden:
  assumes dir: "st_kind st = S_DIR" "os_readdir (fe_os env) fileName = Some entries"
      "\<And>d. d \<in> set entries \<Longrightarrow> CHR 0x00 \<notin> set (d_name d)"
    and opts: "fo_output opts = None" "\<not> fo_cmp_parent_only opts"
    and fs: "di_fstype (qb_dev qb) \<in> {''ext2'', ''ext3'', ''ext4''}"
    and nums: "qb_blknums qb = - 1 # bs" "- 1 \<notin> set bs" "qb_blkcount qb = length bs"
      "qb_blkunitsz qb = int unit" "0 < unit" "length bs * unit < 2 ^ 31"
    and dev: "os_device (fe_os env) (di_dev (qb_dev qb)) = Some dev" "list_all (block_readable dev 0 unit) bs"
    and parent: "di_dev (qb_parent_dev qb) \<noteq> []" "os_device (fe_os env) (di_dev (qb_parent_dev qb)) = Some pdev"
      "part_of dev (unat (qb_parentoffset qb)) pdev" "length pdev < 2 ^ 63"
    and recs: "concat (map (block_at dev 0 unit) bs) = concat (map ext2_encode rs)" "list_all ext2_rec_ok rs"
  shows "fhf_inspect env opts fileName st qb io =
     Inr (0, io\<lparr>io_sink := NoSink, io_out := io_out io @ ''----FHF----'' @ nl @ ''compare_blocks: NODIFF.'' @ nl @
       report_hidden fileName (fo_verbose opts) (hidden_of (map ext2_entry_of (filter ext2_live rs)) entries)\<rparr>)"
  using assms by (rule fhf_inspect_hidden)

definition rk_rec :: ext2_rec where
  "rk_rec = \<lparr>r_inode = 13, r_type = 1, r_name = [114, 107], r_pad = [0, 0, 0, 0, 0, 0]\<rparr>"

definition rk_dev :: "byte list" where
  "rk_dev = replicate 16 0 @ ext2_encode rk_rec"

definition rk_env :: fhf_env where
  "rk_env = \<lparr>fe_fuel = 9, fe_be = False,
     fe_os = quiet_os\<lparr>os_readdir := (\<lambda>_. Some []), os_device := (\<lambda>p. if p = ''/dev/sda1'' then Some rk_dev else Some (replicate 8 0 @ rk_dev))\<rparr>,
     fe_lsblks = (\<lambda>dev ino f s. Inr (0, f s 1)), fe_fwrite = length, fe_creat = (\<lambda>_. True)\<rparr>"

definition rk_qb :: QueryBlocks where
  "rk_qb = empty_qb\<lparr>qb_dev := empty_device\<lparr>di_dev := ''/dev/sda1'', di_fstype := ''ext4''\<rparr>,
     qb_parent_dev := empty_device\<lparr>di_dev := ''/dev/sda''\<rparr>, qb_parentoffset := 8, qb_blkunitsz := int 16,
     qb_blknums := [- 1, 1], qb_blkcount := 1\<rparr>"

definition plain_opts :: fhf_opts where
  "plain_opts = \<lparr>fo_fileName = Some ''/d'', fo_read_parent = 0, fo_cmp_parent_only = False, fo_output = None, fo_verbose = 0\<rparr>"

definition silent_io :: fhf_io where
  "silent_io = \<lparr>io_out = [], io_file = None, io_sink = NoSink\<rparr>"

theorem fhf_reports_hidden_witness:
  "fhf_inspect rk_env plain_opts ''/d'' (empty_stat\<lparr>st_kind := S_DIR\<rparr>) rk_qb silent_io =
     Inr (0, silent_io\<lparr>io_sink := NoSink, io_out := io_out silent_io @ ''----FHF----'' @ nl @ ''compare_blocks: NODIFF.'' @ nl @
       report_hidden ''/d'' (fo_verbose plain_opts) (hidden_of (map ext2_entry_of (filter ext2_live [rk_rec])) [])\<rparr>)"
proof (rule fhf_reports_hidden [where unit = 16 and bs = "[1]" and dev = rk_dev and pdev = "replicate 8 0 @ rk_dev"])
  show "list_all (block_readable rk_dev 0 16) [1]"
    by (simp add: block_readable_def block_offset_def rk_dev_def rk_rec_def ext2_rec_len_def)
  show "concat (map (block_at rk_dev 0 16) [1]) = concat (map ext2_encode [rk_rec])"
    by (simp add: block_at_def block_offset_def rk_dev_def rk_rec_def ext2_rec_len_def)
  show "list_all ext2_rec_ok [rk_rec]" by (simp add: ext2_rec_ok_def rk_rec_def ext2_rec_len_def)
  show "part_of rk_dev (unat (qb_parentoffset rk_qb)) (replicate 8 0 @ rk_dev)"
    by (simp add: part_of_def rk_qb_def)
qed (simp_all add: rk_env_def rk_qb_def plain_opts_def rk_dev_def rk_rec_def ext2_rec_len_def)

text \<open>
  C22: on an XFS directory whose extents each hold directory blocks from their first byte (single
  or several blocks in data form, or one in block form with its array of hashes) or blocks without
  entries (leaf, node and free-index blocks), the search parses every extent up to the next one and
  names as hidden exactly the entries, over all the extents, whose names the system does not list; a fuel
  above the number of records of every extent is enough.
\<close>

theorem hidden_files_xfs:
  assumes "os_readdir os dir = Some entries" and "\<And>d. d \<in> set entries \<Longrightarrow> CHR 0x00 \<notin> set (d_name d)"
    and "cs \<noteq> []" and "list_all (xfs_chunk_ok fuel) cs" and "length (concat (map xfs_chunk cs)) < 2 ^ 32"
  shows "find_hidden_files fuel be os ''xfs'' (concat (map xfs_chunk cs)) (chunk_starts 0 (map xfs_chunk cs))
           (of_nat (length (concat (map xfs_chunk cs)))) dir =
         Inr (hidden_of (concat (map xfs_chunk_entries cs)) entries)"
proof -
  obtain rest where "chunk_starts 0 (map xfs_chunk cs) = 0 # rest" using chunk_starts_head assms(3) by blast
  moreover have "parse_extents fuel be ''xfs'' ([] @ concat (map xfs_chunk cs)) (of_nat (length ([] @ concat (map xfs_chunk cs)))) 0
      (chunk_starts (length ([] :: byte list)) (map xfs_chunk cs)) [] = Inr (Some ([] @ concat (map xfs_chunk_entries cs)))"
    using assms by (intro parse_extents_xfs) (auto simp: starts_with_def)
  ultimately show ?thesis by (intro find_hidden_files_raw [OF assms(1,2)]) auto
qed

text \<open>
  A directory of three extents: two data blocks in one extent (the dot entries and a file in the
  first, a file and a free area in the second), and a leaf block, which begins with the address of
  its right sibling, 0.
\<close>

theorem hidden_files_xfs_witness:
  "let cs = [XBlocks XFS_DIR2_DATA_MAGIC (replicate 12 0) True
               [XEntry 128 [46] 2 [0, 0, 0, 0, 16], XEntry 128 [46, 46] 2 [0, 0, 0, 32], XEntry 131 [114, 107] 1 [0, 0, 0, 64],
                XFree (replicate 4 0), XHeader2 (replicate 12 0), XEntry 132 [97] 1 [0, 0, 0, 0, 16], XFree (replicate 20 0)] None,
             XBlocks XFS_DIR2_DATA_MAGIC (replicate 12 0) True [XFree (replicate 44 0)] None,
             XIndex ([0, 0, 0, 0, 0, 0, 0, 0, 0xd2, 0xf1] @ replicate 54 0)]
   in find_hidden_files 9 False (quiet_os\<lparr>os_readdir := (\<lambda>_. Some [\<lparr>d_ino = 132, d_type = 8, d_name = ''a''\<rparr>])\<rparr>) ''xfs''
        (concat (map xfs_chunk cs)) (chunk_starts 0 (map xfs_chunk cs)) (of_nat (length (concat (map xfs_chunk cs)))) ''/d'' =
      Inr (hidden_of (concat (map xfs_chunk_entries cs)) [\<lparr>d_ino = 132, d_type = 8, d_name = ''a''\<rparr>])"
  unfolding Let_def
  by (rule hidden_files_xfs)
     (simp_all add: xfs_header_def XFS_DIR2_BLOCK_MAGIC_def XFS_DIR2_DATA_MAGIC_def XFS_DIR3_BLOCK_MAGIC_def
        XFS_DIR3_DATA_MAGIC_def dot_def drop_bit_eq_div word_of_be_def)

text \<open>
  Reading the blocks through the parent device at the offset of the partition gives the same
  bytes and the same extents as reading them through the partition itself, and what is read are
  the blocks named in the list, in order, without the extent marks.
\<close>

theorem dump_blocks_parent_agrees:
  assumes "os_device os (di_dev (qb_dev qb)) = Some dev" and "os_device os (di_dev (qb_parent_dev qb)) = Some pdev"
    and "part_of dev (unat (qb_parentoffset qb)) pdev" and "length pdev < 2 ^ 63"
    and "qb_blkunitsz qb = int unit" and "0 < unit" and "qb_blkcount qb = length (real_blocks (qb_blknums qb))"
    and "length (real_blocks (qb_blknums qb)) * unit < 2 ^ 31"
    and "list_all (block_readable dev 0 unit) (real_blocks (qb_blknums qb))"
  shows "dump_blocks os qb readparent =
     Inr (0, Some (concat (map (block_at dev 0 unit) (real_blocks (qb_blknums qb)))), extent_starts unit 0 (qb_blknums qb))"
proof (cases readparent)
  case False
  then show ?thesis using dump_blocks_reads [of os False qb dev unit] assms by simp
next
  case True
  then show ?thesis using dump_blocks_reads [of os True qb pdev unit] assms parent_dump_same [OF assms(3,4,9)] by simp
qed

theorem dump_blocks_parent_agrees_witness:
  "dump_blocks (fe_os rk_env) rk_qb True =
     Inr (0, Some (concat (map (block_at rk_dev 0 16) (real_blocks (qb_blknums rk_qb)))), extent_starts 16 0 (qb_blknums rk_qb))"
proof (rule dump_blocks_parent_agrees [where pdev = "replicate 8 0 @ rk_dev"])
  show "part_of rk_dev (unat (qb_parentoffset rk_qb)) (replicate 8 0 @ rk_dev)"
    by (simp add: part_of_def rk_qb_def)
  show "list_all (block_readable rk_dev 0 16) (real_blocks (qb_blknums rk_qb))"
    by (simp add: real_blocks_def rk_qb_def block_readable_def block_offset_def rk_dev_def rk_rec_def ext2_rec_len_def)
qed (simp_all add: rk_env_def rk_qb_def rk_dev_def rk_rec_def ext2_rec_len_def real_blocks_def)

lemma dump_loop_overflow:
  assumes "0 < unit" and "list_all (block_readable dev base unit) (real_blocks nums)"
    and "(j + length (real_blocks nums)) * unit \<le> memsize" and "2 ^ 31 + unit \<le> (j + length (real_blocks nums)) * unit"
    and "j * unit < 2 ^ 31 + unit"
  shows "dump_loop dev base (int unit) memsize nums mem j exts = Inl SignedOverflow"
  using assms(2-5)
proof (induction nums arbitrary: mem j exts)
  case Nil
  then show ?case by (simp add: real_blocks_def)
next
  case (Cons b nums)
  show ?case
  proof (cases "b = - 1")
    case True
    then show ?thesis using Cons by (simp add: real_blocks_def)
  next
    case False
    have r: "block_readable dev base unit b" using Cons.prems False by (simp add: real_blocks_def)
    show ?thesis
    proof (cases "2 ^ 31 \<le> j * unit")
      case True
      then have "2 ^ 31 \<le> int j * int unit" by (simp flip: of_nat_mult)
      then show ?thesis using False r by (simp add: Let_def block_readable_def block_offset_def)
    next
      case small: False
      then have nov: "\<not> 2 ^ 31 \<le> int j * int unit" by (simp flip: of_nat_mult)
      have "Suc j * unit \<le> (j + length (real_blocks (b # nums))) * unit"
        using False by (intro mult_le_mono1) (simp add: real_blocks_def)
      then have "j * unit + unit \<le> memsize" using Cons.prems(2) by simp
      then have "dump_loop dev base (int unit) memsize (b # nums) mem j exts =
          dump_loop dev base (int unit) memsize nums (mem @ block_at dev base unit b) (Suc j) exts"
        using False r nov assms(1) by (simp add: Let_def block_readable_def block_at_def block_offset_def)
      moreover have "dump_loop dev base (int unit) memsize nums (mem @ block_at dev base unit b) (Suc j) exts = Inl SignedOverflow"
        using Cons.prems False small by (intro Cons.IH) (auto simp: real_blocks_def)
      ultimately show ?thesis by simp
    qed
  qed
qed

text \<open>
  C36: \<open>dump_blocks\<close> computes the place of a block in memory as a product of two values of type
  \<open>int\<close>: on a file of 2 GiB and one block or more, all of whose blocks are readable, that product
  overflows.
\<close>

theorem dump_blocks_int_overflow:
  assumes "os_device os (di_dev (qb_dev qb)) = Some dev" and "qb_blkunitsz qb = int unit" and "0 < unit"
    and "qb_blkcount qb = length (real_blocks (qb_blknums qb))"
    and "list_all (block_readable dev 0 unit) (real_blocks (qb_blknums qb))"
    and "2 ^ 31 + unit \<le> length (real_blocks (qb_blknums qb)) * unit" "length (real_blocks (qb_blknums qb)) * unit < 2 ^ 64"
  shows "dump_blocks os qb False = Inl SignedOverflow"
proof -
  let ?n = "length (real_blocks (qb_blknums qb))"
  have "unat (of_nat (?n * unit) :: u64) = ?n * unit" using assms(7) by (simp add: unat_of_nat del: of_nat_mult)
  then have "unat (of_int (qb_blkunitsz qb) * of_nat (qb_blkcount qb) :: u64) = ?n * unit"
    using assms(2,4) by (simp add: mult.commute)
  then show ?thesis
    using dump_loop_overflow [OF assms(3,5), of 0 "?n * unit" "[]" "[]"] assms by (simp add: dump_blocks_def)
qed

definition big_qb :: QueryBlocks where
  "big_qb = empty_qb\<lparr>qb_blkunitsz := int 4096, qb_blknums := replicate 524289 0, qb_blkcount := 524289\<rparr>"

theorem dump_blocks_int_overflow_witness:
  "dump_blocks (quiet_os\<lparr>os_device := (\<lambda>_. Some (replicate 4096 0))\<rparr>) big_qb False = Inl SignedOverflow"
proof (rule dump_blocks_int_overflow [where unit = 4096 and dev = "replicate 4096 0"])
  have rb: "real_blocks (qb_blknums big_qb) = replicate 524289 0"
    by (simp add: real_blocks_def big_qb_def filter_replicate)
  show "qb_blkcount big_qb = length (real_blocks (qb_blknums big_qb))" by (simp only: rb length_replicate) (simp add: big_qb_def)
  show "list_all (block_readable (replicate 4096 0) 0 4096) (real_blocks (qb_blknums big_qb))"
    unfolding rb by (simp add: list_all_iff block_readable_def block_offset_def)
  show "2 ^ 31 + 4096 \<le> length (real_blocks (qb_blknums big_qb)) * 4096" "length (real_blocks (qb_blknums big_qb)) * 4096 < 2 ^ 64"
    by (simp_all only: rb length_replicate) simp_all
qed (simp_all add: big_qb_def)

text \<open>
  \<open>writedata\<close> retries short writes: as long as \<open>fwrite\<close> accepts at least one byte it returns 0
  with everything written, and in every case what was written is a prefix of the data.
\<close>

theorem writedata_complete:
  "(\<exists>k. snd (writedata fwrite data) = take k data) \<and>
   ((\<forall>d. d \<noteq> [] \<longrightarrow> 0 < fwrite d) \<longrightarrow> writedata fwrite data = (0, data))"
  using writedata_prefix writedata_all by blast

theorem writedata_complete_witness:
  "writedata (\<lambda>_. 1) [1, 2, 3] = (0, [1, 2, 3])"
  using writedata_complete [of "\<lambda>_. 1" "[1, 2, 3]"] by simp

end
