(* ===== verification/Scan_Applets.thy ===== *)
theory Scan_Applets
  imports System
begin

text \<open>
  The applets of \<^verbatim>\<open>src/src/atrk.c\<close> that probe a range of numbers: \<open>applet_file\<close> (names in a
  directory, by exclusive creation), \<open>applet_access\<close> (paths) and \<open>applet_kill\<close> (process ids),
  and \<open>applet_echo\<close>. Arguments are the strings of \<open>argv\<close> after the applet's name; the result is
  the exit status and the text on stdout.
\<close>

section \<open>Counting loops\<close>

text \<open>
  \<open>for (int num = start; num <= end; ++num)\<close> with a body that prints; \<open>++num\<close> on the largest
  \<open>int\<close> is an overflow.
\<close>

definition INT_MAX :: int where "INT_MAX = 2 ^ 31 - 1"

function int_for :: "('s \<Rightarrow> int \<Rightarrow> ('s \<times> string) res) \<Rightarrow> int \<Rightarrow> int \<Rightarrow> 's \<Rightarrow> ('s \<times> string) res" where
  "int_for body num ende s =
     (if num \<le> ende
      then and_then (body s num) (\<lambda>(s', out).
             if num = INT_MAX then Inl SignedOverflow
             else and_then (int_for body (num + 1) ende s') (\<lambda>(s'', out'). Inr (s'', out @ out')))
      else Inr (s, []))"
  by pat_completeness auto
termination
  by (relation "measure (\<lambda>(body, num, ende, s). nat (ende - num + 1))") auto

declare int_for.simps [simp del]

definition print_num :: "int \<Rightarrow> string" where
  "print_num num = dec_of_int num @ [CHR 0x0A]"

section \<open>Files\<close>

text \<open>
  A directory as the kernel keeps it, whatever a listing shows: which names exist, which can be
  created and which removed. \<open>open\<close> with \<open>O_CREAT | O_EXCL\<close> creates a name or says why not; \<open>unlink\<close> may
  fail, and \<open>test_exists\<close> does not look at its result.
\<close>

record dir_state =
  ds_exists :: "string \<Rightarrow> bool"
  ds_creatable :: "string \<Rightarrow> bool"
  ds_removable :: "string \<Rightarrow> bool"

datatype open_answer = Fd | EEXIST | OtherError

definition open_excl :: "string \<Rightarrow> dir_state \<Rightarrow> open_answer \<times> dir_state" where
  "open_excl name d =
     (if ds_exists d name then (EEXIST, d)
      else if ds_creatable d name then (Fd, d\<lparr>ds_exists := (ds_exists d)(name := True)\<rparr>)
      else (OtherError, d))"

definition unlink :: "string \<Rightarrow> dir_state \<Rightarrow> dir_state" where
  "unlink name d = (if ds_removable d name then d\<lparr>ds_exists := (ds_exists d)(name := False)\<rparr> else d)"

definition test_exists :: "string \<Rightarrow> dir_state \<Rightarrow> int \<times> dir_state" where
  "test_exists filename d =
     (case open_excl filename d of
        (EEXIST, d') \<Rightarrow> (0, d')
      | (OtherError, d') \<Rightarrow> (1, d')
      | (Fd, d') \<Rightarrow> (2, unlink filename d'))"

text \<open>The process: its working directory and the directories it can change to.\<close>

record proc_dirs =
  pd_cwd :: string
  pd_dir :: "string \<Rightarrow> dir_state option"

definition file_body :: "dir_state \<Rightarrow> int \<Rightarrow> (dir_state \<times> string) res" where
  "file_body d num =
     and_then (sprintf 32 (dec_of_int num)) (\<lambda>snum.
       let (r, d') = test_exists snum d
       in Inr (d', if r = 0 then print_num num else []))"

definition chdir :: "string \<Rightarrow> proc_dirs \<Rightarrow> bool \<times> proc_dirs" where
  "chdir path p = (if pd_dir p path = None then (False, p) else (True, p\<lparr>pd_cwd := path\<rparr>))"

definition applet_file :: "string list \<Rightarrow> proc_dirs \<Rightarrow> (int \<times> string \<times> proc_dirs) res" where
  "applet_file args p =
     (case args of
        [target_dir, a, b] \<Rightarrow>
          and_then (atoi a) (\<lambda>start. and_then (atoi b) (\<lambda>ende.
            let current_dir = (if length (pd_cwd p) < 512 then pd_cwd p else []);
                (ok, p1) = chdir target_dir p
            in if \<not> ok then Inr (1, [], p1)
               else (case pd_dir p1 target_dir of
                       None \<Rightarrow> Inr (1, [], p1)
                     | Some d \<Rightarrow>
                         and_then (int_for file_body start ende d) (\<lambda>(d', out).
                           Inr (0, out, snd (chdir current_dir (p1\<lparr>pd_dir := (pd_dir p1)(target_dir := Some d')\<rparr>)))))))
      | _ \<Rightarrow> Inr (1, [], p))"

section \<open>Paths and processes\<close>

text \<open>\<open>sprintf(path, fmt, num)\<close> for formats with \<open>%d\<close> and \<open>%%\<close>; one argument is passed.\<close>

fun format_num :: "string \<Rightarrow> int option \<Rightarrow> string res" where
  "format_num [] arg = Inr []"
| "format_num [c] arg = (if c = CHR ''%'' then Inl BadFormat else Inr [c])"
| "format_num (c # d # fmt) arg =
     (if c \<noteq> CHR ''%'' then and_then (format_num (d # fmt) arg) (\<lambda>s. Inr (c # s))
      else if d = CHR ''%'' then and_then (format_num fmt arg) (\<lambda>s. Inr (CHR ''%'' # s))
      else if d = CHR ''d''
      then (case arg of
              None \<Rightarrow> Inl BadFormat
            | Some num \<Rightarrow> and_then (format_num fmt None) (\<lambda>s. Inr (dec_of_int num @ s)))
      else Inl BadFormat)"

definition access_body :: "os \<Rightarrow> string \<Rightarrow> unit \<Rightarrow> int \<Rightarrow> (unit \<times> string) res" where
  "access_body os fmt s num =
     and_then (format_num fmt (Some num)) (\<lambda>t. and_then (sprintf 512 t) (\<lambda>path.
       Inr ((), if os_access os path then print_num num else [])))"

definition applet_access :: "os \<Rightarrow> string list \<Rightarrow> (int \<times> string) res" where
  "applet_access os args =
     (case args of
        [fmt, a, b] \<Rightarrow>
          and_then (atoi a) (\<lambda>start. and_then (atoi b) (\<lambda>ende.
            and_then (int_for (access_body os fmt) start ende ()) (\<lambda>(_, out). Inr (0, out))))
      | _ \<Rightarrow> Inr (1, []))"

text \<open>\<open>alive num\<close>: \<open>kill(num, 0) == 0\<close>.\<close>

definition kill_body :: "(int \<Rightarrow> bool) \<Rightarrow> unit \<Rightarrow> int \<Rightarrow> (unit \<times> string) res" where
  "kill_body alive s num = Inr ((), if alive num then print_num num else [])"

definition applet_kill :: "(int \<Rightarrow> bool) \<Rightarrow> string list \<Rightarrow> (int \<times> string) res" where
  "applet_kill alive args =
     (case args of
        [a, b] \<Rightarrow>
          and_then (atoi a) (\<lambda>start. and_then (atoi b) (\<lambda>ende.
            and_then (int_for (kill_body alive) start ende ()) (\<lambda>(_, out). Inr (0, out))))
      | _ \<Rightarrow> Inr (1, []))"

definition applet_echo :: "string list \<Rightarrow> int \<times> string" where
  "applet_echo args = (case args of [s] \<Rightarrow> (0, s @ [CHR 0x0A]) | _ \<Rightarrow> (1, []))"

section \<open>Facts\<close>

lemma int_for_prints:
  assumes "\<And>num. start \<le> num \<Longrightarrow> num \<le> ende \<Longrightarrow> body s num = Inr (s, if P num then print_num num else [])"
    and "ende < INT_MAX"
  shows "int_for body start ende s = Inr (s, concat (map print_num (filter P [start..ende])))"
  using assms
proof (induction body start ende s rule: int_for.induct)
  case (1 body num ende s)
  show ?case
  proof (cases "num \<le> ende")
    case True
    have "int_for body (num + 1) ende s = Inr (s, concat (map print_num (filter P [num + 1..ende])))"
      using 1 True by auto
    then show ?thesis using True 1(2) [of num] 1(3)
      by (simp add: int_for.simps [of body num] upto_rec1)
  next
    case False
    then show ?thesis by (simp add: int_for.simps [of body num])
  qed
qed

lemma int_for_max:
  assumes "\<And>num. start \<le> num \<Longrightarrow> num \<le> INT_MAX \<Longrightarrow> \<exists>out. body s num = Inr (s, out)" and "start \<le> INT_MAX"
  shows "int_for body start INT_MAX s = Inl SignedOverflow"
  using assms
proof (induction body start INT_MAX s rule: int_for.induct)
  case (1 body num s)
  then obtain out where "body s num = Inr (s, out)" by blast
  moreover have "num \<noteq> INT_MAX \<Longrightarrow> int_for body (num + 1) INT_MAX s = Inl SignedOverflow"
    using 1 calculation by auto
  ultimately show ?case using 1(3) by (subst int_for.simps) (cases "num = INT_MAX"; simp)
qed

lemma test_exists_spec:
  "test_exists name d =
     (if ds_exists d name then 0 else if ds_creatable d name then 2 else 1,
      if \<not> ds_exists d name \<and> ds_creatable d name \<and> \<not> ds_removable d name then d\<lparr>ds_exists := (ds_exists d)(name := True)\<rparr> else d)"
  by (simp add: test_exists_def open_excl_def unlink_def fun_upd_idem)

text \<open>A directory after a scan: the names that could be created and not be removed again are there.\<close>

definition probed :: "int \<Rightarrow> int \<Rightarrow> dir_state \<Rightarrow> dir_state" where
  "probed start ende d =
     d\<lparr>ds_exists := (\<lambda>name. ds_exists d name \<or> name \<in> dec_of_int ` {start..ende} \<and> ds_creatable d name \<and> \<not> ds_removable d name)\<rparr>"

lemma probed_removable: "(\<And>name. ds_creatable d name \<Longrightarrow> ds_removable d name) \<Longrightarrow> probed start ende d = d"
  by (rule dir_state.equality) (auto simp: probed_def)

lemma file_body_prints:
  assumes "- (2 ^ 31) \<le> num" and "num < 2 ^ 31"
  shows "file_body d num = Inr (probed num num d, if ds_exists d (dec_of_int num) then print_num num else [])"
proof -
  have "sprintf 32 (dec_of_int num) = Inr (dec_of_int num)" using dec_of_int_length [OF assms] by (intro sprintf_fits) simp
  moreover have "probed num num d = snd (test_exists (dec_of_int num) d)"
    by (rule dir_state.equality) (auto simp: test_exists_spec probed_def fun_eq_iff)
  ultimately show ?thesis by (simp add: file_body_def test_exists_spec)
qed

lemma atoi_dec_of_int:
  assumes "- (2 ^ 31) \<le> i" and "i < 2 ^ 31"
  shows "atoi (dec_of_int i) = Inr i"
  using assms scan_dec_dec_of_int [of "[]" i] by (auto simp: atoi_def scan_int_def)

lemma atoi_bounds: "atoi s = Inr i \<Longrightarrow> - (2 ^ 31) \<le> i \<and> i < 2 ^ 31"
  by (auto simp: atoi_def Let_def split: if_splits)

lemma dec_of_int_inj:
  assumes "dec_of_int i = dec_of_int j" "- (2 ^ 31) \<le> i" "i < 2 ^ 31" "- (2 ^ 31) \<le> j" "j < 2 ^ 31"
  shows "i = j"
  using atoi_dec_of_int [OF assms(2,3)] atoi_dec_of_int [OF assms(4,5)] unfolding assms(1) by (metis sum.inject(2))

lemma probed_later:
  assumes "- (2 ^ 31) \<le> num" "num < n" "n < 2 ^ 31"
  shows "ds_exists (probed num num d) (dec_of_int n) = ds_exists d (dec_of_int n)"
  using dec_of_int_inj [of n num] assms by (auto simp: probed_def)

lemma probed_step: "num \<le> ende \<Longrightarrow> probed (num + 1) ende (probed num num d) = probed num ende d"
proof -
  assume "num \<le> ende"
  then have "{num..ende} = insert num {num + 1..ende}" by auto
  then show ?thesis by (intro dir_state.equality) (auto simp: probed_def fun_eq_iff)
qed

lemma int_for_file:
  assumes "- (2 ^ 31) \<le> start" "ende < INT_MAX"
  shows "int_for file_body start ende d =
     Inr (probed start ende d, concat (map print_num (filter (\<lambda>n. ds_exists d (dec_of_int n)) [start..ende])))"
  using assms
proof (induction "nat (ende - start + 1)" arbitrary: start d)
  case 0
  then show ?case by (simp add: int_for.simps [of file_body start] probed_def)
next
  case (Suc k)
  then have le: "start \<le> ende" by simp
  then have step: "file_body d start = Inr (probed start start d, if ds_exists d (dec_of_int start) then print_num start else [])"
    using Suc.prems by (intro file_body_prints) (simp_all add: INT_MAX_def)
  have "filter (\<lambda>n. ds_exists (probed start start d) (dec_of_int n)) [start + 1..ende] = filter (\<lambda>n. ds_exists d (dec_of_int n)) [start + 1..ende]"
    using Suc.prems by (intro filter_cong refl probed_later) (auto simp: INT_MAX_def)
  moreover have "int_for file_body (start + 1) ende (probed start start d) = Inr (probed (start + 1) ende (probed start start d),
      concat (map print_num (filter (\<lambda>n. ds_exists (probed start start d) (dec_of_int n)) [start + 1..ende])))"
    using Suc by (intro Suc.hyps) auto
  ultimately show ?case
    using le step Suc.prems by (simp add: int_for.simps [of file_body start] upto_rec1 probed_step)
qed

section \<open>Properties\<close>

text \<open>
  \<open>applet_file\<close> prints exactly the numbers of the range whose names exist in the directory for
  the kernel, however the directory is listed, and leaves all other directories and the
  working directory as they were; in the directory itself the files stay that it created and that
  \<open>unlink\<close> failed to remove.
\<close>

theorem applet_file_correct:
  assumes "atoi a = Inr start" "atoi b = Inr ende" "ende < INT_MAX"
    and "pd_dir p target = Some d" and "length (pd_cwd p) < 512" and "pd_dir p (pd_cwd p) \<noteq> None"
  shows "applet_file [target, a, b] p =
           Inr (0, concat (map print_num (filter (\<lambda>n. ds_exists d (dec_of_int n)) [start..ende])),
             p\<lparr>pd_dir := (pd_dir p)(target \<mapsto> probed start ende d)\<rparr>)"
  using assms int_for_file [of start ende d] atoi_bounds [OF assms(1)] by (auto simp: applet_file_def chdir_def Let_def)

text \<open>
  \<open>applet_kill\<close> prints exactly the process ids of the range that accept signal 0.
\<close>

theorem applet_kill_correct:
  assumes "- (2 ^ 31) \<le> start" "start < 2 ^ 31" "- (2 ^ 31) \<le> ende" "ende < INT_MAX"
  shows "applet_kill alive [dec_of_int start, dec_of_int ende] = Inr (0, concat (map print_num (filter alive [start..ende])))"
proof -
  have "int_for (kill_body alive) start ende () = Inr ((), concat (map print_num (filter alive [start..ende])))"
    using assms by (intro int_for_prints) (auto simp: kill_body_def)
  moreover have "ende < 2 ^ 31" using assms(4) by (simp add: INT_MAX_def)
  ultimately show ?thesis using assms by (simp add: applet_kill_def atoi_dec_of_int)
qed

theorem applet_kill_correct_witness:
  "applet_kill (\<lambda>n. n = 7) [dec_of_int 5, dec_of_int 9] = Inr (0, concat (map print_num (filter (\<lambda>n. n = 7) [5..9])))"
  by (rule applet_kill_correct) (simp_all add: INT_MAX_def)

text \<open>
  A range that ends at the largest \<open>int\<close> cannot be scanned: the counting loop increments past
  it, whatever the range starts with.
\<close>

theorem applet_kill_overflow:
  assumes "- (2 ^ 31) \<le> start" "start < 2 ^ 31"
  shows "applet_kill alive [dec_of_int start, dec_of_int INT_MAX] = Inl SignedOverflow"
proof -
  have "int_for (kill_body alive) start INT_MAX () = Inl SignedOverflow"
    using assms by (intro int_for_max) (auto simp: kill_body_def INT_MAX_def)
  moreover have "atoi (dec_of_int INT_MAX) = Inr INT_MAX" by (rule atoi_dec_of_int) (simp_all add: INT_MAX_def)
  ultimately show ?thesis using assms by (simp add: applet_kill_def atoi_dec_of_int)
qed

theorem applet_kill_overflow_witness: "applet_kill (\<lambda>_. False) [dec_of_int 1, dec_of_int INT_MAX] = Inl SignedOverflow"
  by (rule applet_kill_overflow) simp_all

lemma format_num_plain: "CHR ''%'' \<notin> set s \<Longrightarrow> format_num s arg = Inr s"
  by (induction s arg rule: format_num.induct) auto

lemma format_num_pre: "CHR ''%'' \<notin> set s \<Longrightarrow> format_num (s @ CHR ''%'' # fmt) arg = and_then (format_num (CHR ''%'' # fmt) arg) (\<lambda>t. Inr (s @ t))"
proof (induction s)
  case Nil
  then show ?case by (cases "format_num (CHR ''%'' # fmt) arg") auto
next
  case (Cons c s)
  obtain d r where d: "s @ CHR ''%'' # fmt = d # r" by (cases s) auto
  have "format_num (c # d # r) arg = and_then (format_num (d # r) arg) (\<lambda>t. Inr (c # t))" using Cons.prems by auto
  then show ?case using Cons d [symmetric] by (simp add: and_then_assoc)
qed

text \<open>
  With the format \<open>pre%dpost\<close>, as the scripts call it, \<open>applet_access\<close> prints exactly the numbers
  of the range for which the path \<open>pre\<close>, number, \<open>post\<close> is accessible.
\<close>

theorem applet_access_correct:
  assumes "- (2 ^ 31) \<le> start" "start < 2 ^ 31" "- (2 ^ 31) \<le> ende" "ende < INT_MAX"
    and "CHR ''%'' \<notin> set pre" "CHR ''%'' \<notin> set post" "length pre + length post < 500"
  shows "applet_access os [pre @ ''%d'' @ post, dec_of_int start, dec_of_int ende] =
           Inr (0, concat (map print_num (filter (\<lambda>n. os_access os (pre @ dec_of_int n @ post)) [start..ende])))"
proof -
  have "access_body os (pre @ ''%d'' @ post) () n = Inr ((), if os_access os (pre @ dec_of_int n @ post) then print_num n else [])"
    if "start \<le> n" "n \<le> ende" for n
  proof -
    have "length (dec_of_int n) \<le> 11" using that assms by (intro dec_of_int_length) (auto simp: INT_MAX_def)
    then have "sprintf 512 (pre @ dec_of_int n @ post) = Inr (pre @ dec_of_int n @ post)" using assms(7) by (intro sprintf_fits) simp
    then show ?thesis using assms(5,6) by (simp add: access_body_def format_num_pre format_num_plain)
  qed
  then have "int_for (access_body os (pre @ ''%d'' @ post)) start ende () =
      Inr ((), concat (map print_num (filter (\<lambda>n. os_access os (pre @ dec_of_int n @ post)) [start..ende])))"
    using assms(4) by (intro int_for_prints)
  moreover have "ende < 2 ^ 31" using assms(4) by (simp add: INT_MAX_def)
  ultimately show ?thesis using assms by (simp add: applet_access_def atoi_dec_of_int)
qed

theorem applet_access_correct_witness:
  "applet_access (quiet_os\<lparr>os_access := (\<lambda>p. p = ''/proc/2/fd'')\<rparr>) [''/proc/'' @ ''%d'' @ ''/fd'', dec_of_int 1, dec_of_int 3] =
   Inr (0, concat (map print_num (filter (\<lambda>n. os_access (quiet_os\<lparr>os_access := (\<lambda>p. p = ''/proc/2/fd'')\<rparr>) (''/proc/'' @ dec_of_int n @ ''/fd'')) [1..3])))"
  by (rule applet_access_correct) (simp_all add: INT_MAX_def)

end
