(* ===== verification/Proc_Net.thy ===== *)
theory Proc_Net
  imports System
begin

text \<open>
  The applets of \<^verbatim>\<open>src/src/atrk.c\<close> that read the socket tables under /proc/net:
  \<open>parse_procnet\<close> and \<open>getlistening\<close> for TCP, \<open>get_udp_ports\<close> and \<open>applet_hiddenudp1\<close> for UDP, with the
  conversion of hexadecimal addresses (\<open>hexStringToBinary\<close>, \<open>hexToInAddr\<close>). \<open>sscanf\<close> and
  \<open>inet_ntop\<close> are those of the C library the program is linked with (musl). A local variable
  that \<open>sscanf\<close> did not assign is \<open>None\<close>, and its use the fault \<open>Uninitialised\<close>.
\<close>

section \<open>Hexadecimal numbers\<close>

definition hex_val :: "char \<Rightarrow> nat option" where
  "hex_val c =
     (let n = of_char c :: nat
      in if 48 \<le> n \<and> n \<le> 57 then Some (n - 48)
         else if 65 \<le> n \<and> n \<le> 70 then Some (n - 55)
         else if 97 \<le> n \<and> n \<le> 102 then Some (n - 87) else None)"

definition is_hex :: "char \<Rightarrow> bool" where
  "is_hex c \<longleftrightarrow> hex_val c \<noteq> None"

definition hex_digits_val :: "string \<Rightarrow> nat" where
  "hex_digits_val ds = foldl (\<lambda>a c. 16 * a + (case hex_val c of Some v \<Rightarrow> v | None \<Rightarrow> 0)) 0 ds"

text \<open>
  Base 16 for \<open>strtol\<close> and \<open>%X\<close>: white space, a sign, an optional \<open>0x\<close>, digits. Without a digit
  \<open>sscanf\<close> fails and \<open>strtol\<close> gives 0.
\<close>

definition scan_hex :: "string \<Rightarrow> (int \<times> string) option" where
  "scan_hex s =
     (let t = dropWhile is_space s;
          (neg, u) = (case t of
              [] \<Rightarrow> (False, [])
            | c # u \<Rightarrow> if c = CHR ''-'' then (True, u) else if c = CHR ''+'' then (False, u) else (False, t));
          w = (if starts_with ''0x'' u \<or> starts_with ''0X'' u then drop 2 u else u);
          ds = takeWhile is_hex w
      in if ds = [] then None
         else Some (if neg then - int (hex_digits_val ds) else int (hex_digits_val ds), dropWhile is_hex w))"

text \<open>\<open>strtol(s, NULL, 16)\<close> on texts of at most two characters, which cannot overflow.\<close>

definition strtol16 :: "string \<Rightarrow> int" where
  "strtol16 s = (case scan_hex s of Some (v, r) \<Rightarrow> v | None \<Rightarrow> 0)"

section \<open>Addresses\<close>

definition isLittleEndian :: "bool \<Rightarrow> int" where
  "isLittleEndian be = (let ptr = store_native be 4 (1 :: u32) in int (unat (ptr ! 0)))"

text \<open>The loop of \<open>hexStringToBinary\<close> from index \<open>j\<close> of the buffer, on the rest of the text.\<close>

fun hex_loop :: "string \<Rightarrow> nat \<Rightarrow> byte list \<Rightarrow> byte list" where
  "hex_loop [] j buffer = buffer"
| "hex_loop [c] j buffer = (if j < length buffer then buffer[j := of_int (strtol16 [c])] else buffer)"
| "hex_loop (c # d # rest) j buffer =
     (if j < length buffer then hex_loop rest (Suc j) (buffer[j := of_int (strtol16 [c, d])]) else buffer)"

definition hexStringToBinary :: "string \<Rightarrow> byte list \<Rightarrow> byte list" where
  "hexStringToBinary hexString buffer = hex_loop hexString 0 buffer"

definition swap_dw :: "u32 \<Rightarrow> u32" where
  "swap_dw dw =
     push_bit 24 (dw AND 0xFF) OR push_bit 8 (dw AND 0xFF00) OR drop_bit 8 (dw AND 0xFF0000) OR drop_bit 24 (dw AND 0xFF000000)"

text \<open>
  The loop of \<open>hexToInAddr\<close>; \<open>dw\<close> holds the bytes of the variable \<open>dw\<close>, which a short text leaves
  as they were.
\<close>

function inaddr_loop :: "bool \<Rightarrow> string \<Rightarrow> nat \<Rightarrow> byte list \<Rightarrow> byte list \<Rightarrow> byte list res" where
  "inaddr_loop be hexString j dw buffer =
     (if hexString \<noteq> [] \<and> j < length buffer
      then (let temp = take 8 hexString;
                dw1 = hexStringToBinary temp dw;
                dw2 = (if isLittleEndian be \<noteq> 0 then store_native be 4 (swap_dw (load_native be dw1)) else dw1)
            in if length buffer < j + 4 then Inl BufferOverflow
               else inaddr_loop be (drop 8 hexString) (j + 4) dw2 (take j buffer @ dw2 @ drop (j + 4) buffer))
      else Inr buffer)"
  by pat_completeness auto
termination
  by (relation "measure (\<lambda>(be, hexString, j, dw, buffer). length hexString)") auto

declare inaddr_loop.simps [simp del]

definition hexToInAddr :: "bool \<Rightarrow> string \<Rightarrow> byte list \<Rightarrow> byte list res" where
  "hexToInAddr be hexString buffer = inaddr_loop be hexString 0 (replicate 4 0) buffer"

section \<open>The C library\<close>

definition INET_ADDRSTRLEN :: nat where "INET_ADDRSTRLEN = 16"

definition ntop4 :: "byte list \<Rightarrow> string" where
  "ntop4 a = dec_of_nat (unat (a ! 0)) @ ''.'' @ dec_of_nat (unat (a ! 1)) @ ''.'' @ dec_of_nat (unat (a ! 2)) @ ''.'' @ dec_of_nat (unat (a ! 3))"

definition hex_char :: "nat \<Rightarrow> char" where
  "hex_char d = char_of (if d < 10 then 48 + d else 87 + d)"

fun hex_of_nat :: "nat \<Rightarrow> string" where
  "hex_of_nat n = (if n < 16 then [hex_char n] else hex_of_nat (n div 16) @ [hex_char (n mod 16)])"

declare hex_of_nat.simps [simp del]

text \<open>The eight groups of an IPv6 address, and the replacement of the longest run of zeros.\<close>

definition group6 :: "byte list \<Rightarrow> nat \<Rightarrow> string" where
  "group6 a i = hex_of_nat (256 * unat (a ! (2 * i)) + unat (a ! (2 * i + 1)))"

fun zero_run :: "string \<Rightarrow> nat \<Rightarrow> nat \<times> nat \<Rightarrow> nat \<times> nat" where
  "zero_run [] i (best, m) = (best, m)"
| "zero_run (c # s) i (best, m) =
     (let j = length (takeWhile (\<lambda>x. x = CHR '':'' \<or> x = CHR ''0'') (c # s))
      in zero_run s (Suc i) (if (i = 0 \<or> c = CHR '':'') \<and> m < j then (i, j) else (best, m)))"

definition ntop6 :: "byte list \<Rightarrow> string" where
  "ntop6 a =
     (let mapped = (take 12 a = replicate 10 0 @ [0xff, 0xff]);
          buf = (if mapped
                 then concat (map (\<lambda>i. group6 a i @ '':'') [0..<6]) @ ntop4 (drop 12 a)
                 else concat (map (\<lambda>i. group6 a i @ '':'') [0..<7]) @ group6 a 7);
          (best, m) = zero_run buf 0 (0, 2)
      in if m > 3 then take best buf @ ''::'' @ drop (best + m) buf else buf)"

text \<open>\<open>inet_ntop\<close> into a buffer of \<open>INET_ADDRSTRLEN\<close> bytes; \<open>None\<close>: too long, nothing written.\<close>

definition inet_ntop :: "int \<Rightarrow> byte list \<Rightarrow> string option" where
  "inet_ntop v a =
     (let buf = (if v = 4 then ntop4 a else ntop6 a) in if length buf < INET_ADDRSTRLEN then Some buf else None)"

text \<open>The variables that \<open>sscanf(line, "%*s %<w>s:%X %<w>s:%X %X", ...)\<close> assigned.\<close>

record net_line =
  nl_local_addr :: "string option"
  nl_local_port :: "u32 option"
  nl_state :: "u32 option"

definition scan_word :: "nat \<Rightarrow> string \<Rightarrow> (string \<times> string) option" where
  "scan_word w s =
     (let t = dropWhile is_space s; word = take w (takeWhile (\<lambda>c. \<not> is_space c) t)
      in if word = [] then None else Some (word, drop (length word) t))"

definition scan_port :: "string \<Rightarrow> (u32 \<times> string) option" where
  "scan_port s =
     (case s of
        [] \<Rightarrow> None
      | c # r \<Rightarrow> if c = CHR '':'' then (case scan_hex r of None \<Rightarrow> None | Some (v, r') \<Rightarrow> Some (of_int v, r')) else None)"

definition scan_net :: "nat \<Rightarrow> string \<Rightarrow> net_line" where
  "scan_net w line =
     (let none = \<lparr>nl_local_addr = None, nl_local_port = None, nl_state = None\<rparr>
      in case scan_word (length line) line of
           None \<Rightarrow> none
         | Some (_, r1) \<Rightarrow>
             (case scan_word w r1 of
                None \<Rightarrow> none
              | Some (la, r2) \<Rightarrow>
                  (case scan_port r2 of
                     None \<Rightarrow> none\<lparr>nl_local_addr := Some la\<rparr>
                   | Some (lp, r3) \<Rightarrow>
                       let got = none\<lparr>nl_local_addr := Some la, nl_local_port := Some lp\<rparr>
                       in case scan_word w r3 of
                            None \<Rightarrow> got
                          | Some (ra, r4) \<Rightarrow>
                              (case scan_port r4 of
                                 None \<Rightarrow> got
                               | Some (rp, r5) \<Rightarrow>
                                   (case scan_hex r5 of
                                      None \<Rightarrow> got
                                    | Some (v, r6) \<Rightarrow> got\<lparr>nl_state := Some (of_int v)\<rparr>)))))"

section \<open>Listening TCP sockets\<close>

definition addr_width :: "int \<Rightarrow> nat" where
  "addr_width v = (if v = 4 then 8 else 32)"

text \<open>
  One line of \<open>parse_procnet\<close>: what it prints. The address text is printed only for a socket that
  listens; a text shorter than the address leaves bytes of it indeterminate.
\<close>

definition procnet_line :: "bool \<Rightarrow> int \<Rightarrow> string \<Rightarrow> string res" where
  "procnet_line be v line =
     (let n = scan_net (addr_width v) line; state = (case nl_state n of Some x \<Rightarrow> x | None \<Rightarrow> 0)
      in case nl_local_addr n of
           None \<Rightarrow> Inl Uninitialised
         | Some local_addr \<Rightarrow>
             and_then (hexToInAddr be local_addr (replicate (if v = 4 then 4 else 16) 0)) (\<lambda>addr.
               if state \<noteq> 0x0A then Inr []
               else (case (nl_local_port n, if length local_addr < addr_width v then None else inet_ntop v addr) of
                       (Some local_port, Some strip) \<Rightarrow> Inr (strip @ '':'' @ dec_of_nat (unat local_port) @ [CHR 0x0A])
                     | _ \<Rightarrow> Inl Uninitialised)))"

fun procnet_lines :: "bool \<Rightarrow> int \<Rightarrow> string list \<Rightarrow> string res" where
  "procnet_lines be v [] = Inr []"
| "procnet_lines be v (line # lines) =
     and_then (procnet_line be v line) (\<lambda>out. and_then (procnet_lines be v lines) (\<lambda>out'. Inr (out @ out')))"

definition parse_procnet :: "bool \<Rightarrow> os \<Rightarrow> string \<Rightarrow> int \<Rightarrow> (int \<times> string) res" where
  "parse_procnet be os nettcp v =
     (case os_text os nettcp of
        None \<Rightarrow> Inr (1, [])
      | Some content \<Rightarrow> and_then (procnet_lines be v (drop 1 (fgets_all 256 content))) (\<lambda>out. Inr (0, out)))"

definition getlistening :: "bool \<Rightarrow> os \<Rightarrow> (int \<times> string) res" where
  "getlistening be os =
     and_then (parse_procnet be os ''/proc/net/tcp'' 4) (\<lambda>(r1, out1).
     and_then (parse_procnet be os ''/proc/net/tcp6'' 6) (\<lambda>(r2, out2). Inr (0, out1 @ out2)))"

section \<open>Hidden UDP sockets\<close>

text \<open>The table \<open>ports\<close> as the function from an index below 65536 to whether the entry is set.\<close>

definition udp_line :: "bool \<Rightarrow> int \<Rightarrow> (nat \<Rightarrow> bool) \<Rightarrow> string \<Rightarrow> (nat \<Rightarrow> bool) res" where
  "udp_line be v ports line =
     (let n = scan_net (addr_width v) line
      in case nl_local_addr n of
           None \<Rightarrow> Inl Uninitialised
         | Some local_addr \<Rightarrow>
             and_then (hexToInAddr be local_addr (replicate (if v = 4 then 4 else 16) 0)) (\<lambda>addr.
               case nl_local_port n of
                 None \<Rightarrow> Inl Uninitialised
               | Some local_port \<Rightarrow> Inr (ports(unat (local_port AND 0xffff) := True))))"

definition get_udp_ports :: "bool \<Rightarrow> os \<Rightarrow> string \<Rightarrow> int \<Rightarrow> (nat \<Rightarrow> bool) \<Rightarrow> (int \<times> (nat \<Rightarrow> bool)) res" where
  "get_udp_ports be os netudp v ports =
     (case os_text os netudp of
        None \<Rightarrow> Inr (1, ports)
      | Some content \<Rightarrow> and_then (res_fold (udp_line be v) ports (drop 1 (fgets_all 256 content))) (\<lambda>ports'. Inr (0, ports')))"

text \<open>\<open>sock port\<close>: \<open>socket\<close> succeeds; \<open>bind port\<close>: \<open>bind\<close> to the port succeeds.\<close>

definition udp_probe :: "(nat \<Rightarrow> bool) \<Rightarrow> (nat \<Rightarrow> bool) \<Rightarrow> (nat \<Rightarrow> bool) \<Rightarrow> nat \<Rightarrow> string" where
  "udp_probe sock bind ports port =
     (if \<not> sock port then []
      else if \<not> bind port \<and> \<not> ports (port mod 65536) then dec_of_nat port @ [CHR 0x0A] else [])"

definition applet_hiddenudp1 :: "bool \<Rightarrow> os \<Rightarrow> (nat \<Rightarrow> bool) \<Rightarrow> (nat \<Rightarrow> bool) \<Rightarrow> (int \<times> string) res" where
  "applet_hiddenudp1 be os sock bind =
     and_then (get_udp_ports be os ''/proc/net/udp'' 4 (\<lambda>_. False)) (\<lambda>(r1, ports1).
     and_then (get_udp_ports be os ''/proc/net/udp6'' 6 ports1) (\<lambda>(r2, ports2).
       Inr (0, concat (map (udp_probe sock bind ports2) [1..<65536]))))"

section \<open>Facts on hexadecimal text\<close>

text \<open>The digits the kernel prints for \<open>%X\<close>.\<close>

definition hexU :: "nat \<Rightarrow> char" where
  "hexU d = char_of (if d < 10 then 48 + d else 55 + d)"

definition hex_byte :: "byte \<Rightarrow> string" where
  "hex_byte b = [hexU (unat b div 16), hexU (unat b mod 16)]"

definition hex_bytes :: "byte list \<Rightarrow> string" where
  "hex_bytes bs = concat (map hex_byte bs)"

lemma of_char_hexU: "d < 16 \<Longrightarrow> (of_char (hexU d) :: nat) = (if d < 10 then 48 + d else 55 + d)"
  by (simp add: hexU_def)

lemma hex_val_hexU [simp]: "d < 16 \<Longrightarrow> hex_val (hexU d) = Some d"
  by (simp add: hex_val_def of_char_hexU Let_def)

lemma hexU_plain:
  assumes "d < 16"
  shows "\<not> is_space (hexU d)" "is_hex (hexU d)" "hexU d \<noteq> CHR ''-''" "hexU d \<noteq> CHR ''+''" "hexU d \<noteq> CHR ''x''" "hexU d \<noteq> CHR ''X''"
    "hexU d \<noteq> CHR 0x0A" "hexU d \<noteq> CHR 0x00"
proof -
  have of: "(of_char (hexU d) :: nat) = (if d < 10 then 48 + d else 55 + d)" using assms by (rule of_char_hexU)
  then show "\<not> is_space (hexU d)" by (auto simp: is_space_def)
  show "is_hex (hexU d)" using assms by (simp add: is_hex_def)
  have ne: "hexU d \<noteq> c" if "(of_char c :: nat) \<noteq> (if d < 10 then 48 + d else 55 + d)" for c using that of by metis
  show "hexU d \<noteq> CHR ''-''" "hexU d \<noteq> CHR ''+''" "hexU d \<noteq> CHR ''x''" "hexU d \<noteq> CHR ''X''" "hexU d \<noteq> CHR 0x0A" "hexU d \<noteq> CHR 0x00"
    using assms by (auto intro!: ne split: if_splits)
qed

lemma nibbles: "unat (b :: byte) div 16 < 16" "unat b mod 16 < 16"
proof -
  have "unat b < 256" using unsigned_less [of b] by simp
  then show "unat b div 16 < 16" by (simp add: less_mult_imp_div_less)
qed simp

lemma hex_bytes_chars: "c \<in> set (hex_bytes bs) \<Longrightarrow> \<exists>d < 16. c = hexU d"
proof -
  assume "c \<in> set (hex_bytes bs)"
  then obtain b :: byte where "c = hexU (unat b div 16) \<or> c = hexU (unat b mod 16)"
    by (auto simp: hex_bytes_def hex_byte_def)
  then show ?thesis using nibbles [of b] by blast
qed

lemma length_hex_bytes [simp]: "length (hex_bytes bs) = 2 * length bs"
  by (induction bs) (auto simp: hex_bytes_def hex_byte_def)

lemma hex_bytes_simps [simp]: "hex_bytes [] = []" "hex_bytes (b # bs) = hex_byte b @ hex_bytes bs"
  "hex_bytes (as @ bs) = hex_bytes as @ hex_bytes bs"
  by (simp_all add: hex_bytes_def)

lemma hex_digits_val_snoc: "hex_digits_val (ds @ [c]) = 16 * hex_digits_val ds + (case hex_val c of Some v \<Rightarrow> v | None \<Rightarrow> 0)"
  by (simp add: hex_digits_val_def)

lemma hex_digits_val_byte: "hex_digits_val (ds @ hex_byte b) = 256 * hex_digits_val ds + unat b"
proof -
  have "hex_digits_val (ds @ hex_byte b) = 16 * (16 * hex_digits_val ds + unat b div 16) + unat b mod 16"
    using hex_digits_val_snoc [of "ds @ [hexU (unat b div 16)]"] hex_digits_val_snoc [of ds] nibbles [of b]
    by (simp add: hex_byte_def)
  also have "\<dots> = 256 * hex_digits_val ds + (16 * (unat b div 16) + unat b mod 16)" by simp
  finally show ?thesis by simp
qed

lemma scan_hex_digits:
  assumes "ds \<noteq> []" and "\<And>c. c \<in> set ds \<Longrightarrow> \<exists>d < 16. c = hexU d" and "r = [] \<or> hd r = CHR '' ''"
  shows "scan_hex (ds @ r) = Some (int (hex_digits_val ds), r)"
proof -
  obtain c t where c: "ds = c # t" using assms(1) by (cases ds) auto
  then obtain d where d: "d < 16" "c = hexU d" using assms(2) by auto
  have all: "takeWhile is_hex (ds @ r) = ds \<and> dropWhile is_hex (ds @ r) = r"
  proof -
    have "\<And>x. x \<in> set ds \<Longrightarrow> is_hex x" using assms(2) hexU_plain(2) by blast
    moreover have "r = [] \<or> \<not> is_hex (hd r)" using assms(3) by (auto simp: is_hex_def hex_val_def)
    ultimately show ?thesis by (induction ds) (cases r; auto)+
  qed
  have no: "\<not> starts_with ''0x'' (ds @ r)" "\<not> starts_with ''0X'' (ds @ r)"
  proof -
    have "t @ r = [] \<or> (hd (t @ r) \<noteq> CHR ''x'' \<and> hd (t @ r) \<noteq> CHR ''X'')"
    proof (cases t)
      case Nil
      then show ?thesis using assms(3) by auto
    next
      case (Cons e u)
      then obtain k where "k < 16" "e = hexU k" using assms(2) [of e] c by auto
      then show ?thesis using Cons hexU_plain(5,6) by simp
    qed
    then show "\<not> starts_with ''0x'' (ds @ r)" "\<not> starts_with ''0X'' (ds @ r)"
      by (cases "t @ r"; simp add: c starts_with_def)+
  qed
  have sp: "dropWhile is_space (ds @ r) = ds @ r" using hexU_plain(1) [OF d(1)] by (simp add: c d(2))
  show ?thesis
    using all no sp hexU_plain [OF d(1)] assms(1) by (auto simp: scan_hex_def c d(2) Let_def)
qed

lemma strtol16_hex_byte: "strtol16 (hex_byte b) = int (unat b)"
proof -
  have "scan_hex (hex_byte b @ []) = Some (int (hex_digits_val (hex_byte b)), [])"
    using hex_bytes_chars [of _ "[b]"] by (intro scan_hex_digits) (auto simp: hex_byte_def)
  then show ?thesis using hex_digits_val_byte [of "[]" b] by (simp add: strtol16_def hex_digits_val_def)
qed

lemma hex_loop_bytes:
  "j + length bs \<le> length buffer \<Longrightarrow>
   hex_loop (hex_bytes bs) j buffer = take j buffer @ bs @ drop (j + length bs) buffer"
proof (induction bs arbitrary: j buffer)
  case Nil
  then show ?case by simp
next
  case (Cons b bs)
  have "hex_loop (hex_bytes (b # bs)) j buffer = hex_loop (hex_bytes bs) (Suc j) (buffer[j := b])"
    using Cons.prems strtol16_hex_byte [of b] by (simp add: hex_byte_def)
  also have "\<dots> = take (Suc j) (buffer[j := b]) @ bs @ drop (Suc j + length bs) (buffer[j := b])"
    using Cons.prems by (intro Cons.IH) simp
  also have "take (Suc j) (buffer[j := b]) = take j buffer @ [b]"
    using Cons.prems by (simp add: take_Suc_conv_app_nth)
  finally show ?case by simp
qed

section \<open>Facts on addresses\<close>

text \<open>What the kernel prints for the bytes of an address: each group of four as a native word.\<close>

fun kernel_hex :: "bool \<Rightarrow> byte list \<Rightarrow> string" where
  "kernel_hex be (a # b # c # d # rest) = hex_bytes (if be then [a, b, c, d] else [d, c, b, a]) @ kernel_hex be rest"
| "kernel_hex be rest = []"

lemma isLittleEndian_iff [simp]: "isLittleEndian be = (if be then 0 else 1)"
  by (simp add: isLittleEndian_def store_native_def numeral_eq_Suc)

lemma swap_dw_swab: "swap_dw w = ext2fs_swab32 w"
proof (rule bit_word_eqI)
  fix n assume "n < LENGTH(32)"
  then have n: "n < 32" by simp
  have m: "(0xFF :: u32) = mask 8" "(0xFF00 :: u32) = push_bit 8 (mask 8)" "(0xFF0000 :: u32) = push_bit 16 (mask 8)"
    "(0xFF000000 :: u32) = push_bit 24 (mask 8)"
    by (simp_all add: mask_eq_exp_minus_1)
  consider "n < 8" | "8 \<le> n \<and> n < 16" | "16 \<le> n \<and> n < 24" | "24 \<le> n \<and> n < 32" using n by linarith
  then show "bit (swap_dw w) n = bit (ext2fs_swab32 w) n"
    unfolding swap_dw_def ext2fs_swab32_def m by cases (auto simp: bit_simps dest: bit_imp_le_length)
qed

lemma swap_native:
  assumes "length dw = 4"
  shows "store_native False 4 (swap_dw (load_native False dw)) = rev dw"
proof -
  have "swap_dw (load_native False dw) = (word_of_le (rev dw) :: u32)"
    using swab32_word(2) [OF assms] by (simp add: swap_dw_swab load_native_def word_of_be_def)
  then show ?thesis using le_of_word_word_of_le [of "rev dw" 4, where ?'a = 32] assms
    by (simp add: store_native_def)
qed

lemma inaddr_loop_end: "inaddr_loop be [] j dw buffer = Inr buffer"
  by (subst inaddr_loop.simps) (simp only: simp_thms if_False)

lemma inaddr_loop_kernel:
  assumes "4 dvd length a" and "length dw = 4" and "j + length a = length buffer"
  shows "inaddr_loop be (kernel_hex be a) j dw buffer = Inr (take j buffer @ a)"
  using assms
proof (induction be a arbitrary: j dw buffer rule: kernel_hex.induct)
  case (1 be a b c d rest)
  let ?w = "if be then [a, b, c, d] else [d, c, b, a]"
  have dw1: "hexStringToBinary (hex_bytes ?w) dw = ?w"
    using hex_loop_bytes [of 0 ?w dw] 1(3) by (simp add: hexStringToBinary_def)
  have text8: "take 8 (hex_bytes ?w @ kernel_hex be rest) = hex_bytes ?w" "drop 8 (hex_bytes ?w @ kernel_hex be rest) = kernel_hex be rest"
    by simp_all
  have dw2: "(if isLittleEndian be \<noteq> 0 then store_native be 4 (swap_dw (load_native be ?w)) else ?w) = [a, b, c, d]"
    using swap_native [of "[d, c, b, a]"] by simp
  have ne: "kernel_hex be (a # b # c # d # rest) \<noteq> []" by (simp add: hex_byte_def)
  have "inaddr_loop be (kernel_hex be (a # b # c # d # rest)) j dw buffer =
      inaddr_loop be (kernel_hex be rest) (j + 4) [a, b, c, d] (take j buffer @ [a, b, c, d] @ drop (j + 4) buffer)"
    using ne 1(4) by (subst inaddr_loop.simps) (simp only: kernel_hex.simps Let_def text8 dw1 dw2, simp)
  also have "\<dots> = Inr (take (j + 4) (take j buffer @ [a, b, c, d] @ drop (j + 4) buffer) @ rest)"
  proof (rule 1(1))
    show "4 dvd length rest" using 1(2) by simp presburger
  qed (use 1(4) in auto)
  finally show ?case using 1(4) by simp
qed (auto simp: inaddr_loop_end dest: dvd_imp_le)

lemma hexToInAddr_kernel:
  "4 dvd length a \<Longrightarrow> length buffer = length a \<Longrightarrow> hexToInAddr be (kernel_hex be a) buffer = Inr a"
  by (simp add: hexToInAddr_def inaddr_loop_kernel)

section \<open>Facts on table lines\<close>

text \<open>A row of /proc/net/tcp or udp as the kernel prints it, up to the state, and the rest of the line.\<close>

record sock_row =
  sr_lead :: nat
  sr_sl :: nat
  sr_addr :: "byte list"
  sr_port :: u16
  sr_rem :: "byte list"
  sr_rport :: u16
  sr_state :: byte
  sr_tail :: string

definition hex_port :: "u16 \<Rightarrow> string" where
  "hex_port p = hex_bytes (rev (le_of_word 2 p))"

definition row_line :: "bool \<Rightarrow> sock_row \<Rightarrow> string" where
  "row_line be r =
     replicate (sr_lead r) (CHR '' '') @ dec_of_nat (sr_sl r) @ '':'' @ '' '' @ kernel_hex be (sr_addr r) @ '':'' @ hex_port (sr_port r) @
     '' '' @ kernel_hex be (sr_rem r) @ '':'' @ hex_port (sr_rport r) @ '' '' @ hex_byte (sr_state r) @ '' '' @ sr_tail r"

definition row_ok :: "int \<Rightarrow> sock_row \<Rightarrow> bool" where
  "row_ok v r \<longleftrightarrow> (let n = (if v = 4 then 4 else 16) in length (sr_addr r) = n \<and> length (sr_rem r) = n) \<and>
     length (row_line False r) < 255 \<and> CHR 0x0A \<notin> set (sr_tail r) \<and> CHR 0x00 \<notin> set (sr_tail r)"

lemma kernel_hex_chars: "c \<in> set (kernel_hex be a) \<Longrightarrow> \<exists>d < 16. c = hexU d"
  by (induction be a rule: kernel_hex.induct) (auto simp del: hex_bytes_simps dest: hex_bytes_chars)

lemma length_kernel_hex: "4 dvd length a \<Longrightarrow> length (kernel_hex be a) = 2 * length a"
proof (induction be a rule: kernel_hex.induct)
  case (1 be a b c d rest)
  have "4 dvd length rest" using 1(2) by simp presburger
  then show ?case using 1 by (simp del: hex_bytes_simps)
qed (auto dest: dvd_imp_le)

lemma scan_word_full:
  assumes "\<And>c. c \<in> set word \<Longrightarrow> \<not> is_space c" and "word \<noteq> []"
  shows "scan_word (length word) ('' '' @ word @ r) = Some (word, r)"
proof -
  have "dropWhile is_space ('' '' @ word @ r) = word @ r"
    using assms by (cases word) (auto simp: is_space_def)
  moreover have "take (length word) (takeWhile (\<lambda>c. \<not> is_space c) (word @ r)) = word"
    using assms(1) by (simp add: takeWhile_append1 takeWhile_append)
  ultimately show ?thesis using assms(2) unfolding scan_word_def by (simp only: Let_def) simp
qed

lemma scan_word_run:
  assumes "\<And>c. c \<in> set word \<Longrightarrow> \<not> is_space c" and "word \<noteq> []" and "length word \<le> n"
  shows "scan_word n (replicate k (CHR '' '') @ word @ '' '' @ r) = Some (word, '' '' @ r)"
proof -
  have "dropWhile is_space (replicate k (CHR '' '') @ word @ '' '' @ r) = dropWhile is_space (word @ '' '' @ r)"
    by (rule dropWhile_append2) (auto simp: is_space_def)
  also have "\<dots> = word @ '' '' @ r" using assms by (cases word) auto
  finally have "dropWhile is_space (replicate k (CHR '' '') @ word @ '' '' @ r) = word @ '' '' @ r" .
  moreover have "takeWhile (\<lambda>c. \<not> is_space c) (word @ '' '' @ r) = word"
    using assms(1) by (simp add: takeWhile_append is_space_def)
  moreover have "take n word = word" using assms(3) by simp
  ultimately show ?thesis using assms(2) unfolding scan_word_def by (simp only: Let_def) simp
qed

lemma scan_port_hex:
  "scan_port ('':'' @ hex_port p @ '' '' @ r) = Some (ucast p, '' '' @ r)"
proof -
  let ?ds = "hex_port p"
  have "scan_hex (?ds @ '' '' @ r) = Some (int (hex_digits_val ?ds), '' '' @ r)"
  proof (rule scan_hex_digits)
    show "?ds \<noteq> []" by (simp add: hex_port_def numeral_2_eq_2 hex_byte_def)
    show "\<And>c. c \<in> set ?ds \<Longrightarrow> \<exists>d < 16. c = hexU d" unfolding hex_port_def by (rule hex_bytes_chars)
  qed simp
  moreover have "hex_digits_val ?ds = unat p"
  proof -
    have "hex_digits_val ?ds = 256 * unat (ucast (drop_bit 8 p) :: byte) + unat (ucast p :: byte)"
      using hex_digits_val_byte [of "hex_byte (ucast (drop_bit 8 p))"] hex_digits_val_byte [of "[]"]
      by (simp add: hex_port_def numeral_2_eq_2 hex_digits_val_def)
    also have "\<dots> = unat p"
    proof -
      have "unat p < 65536" using unsigned_less [of p] by simp
      then have "unat p div 256 < 256" by (simp add: less_mult_imp_div_less)
      then show ?thesis
        by (simp add: unsigned_ucast_eq drop_bit_eq_div take_bit_eq_mod unat_div)
    qed
    finally show ?thesis .
  qed
  moreover have "(of_int (int (unat p)) :: u32) = ucast p" by simp
  ultimately show ?thesis by (simp add: scan_port_def)
qed

lemma scan_hex_byte: "scan_hex ('' '' @ hex_byte b @ '' '' @ r) = Some (int (unat b), '' '' @ r)"
proof -
  have "scan_hex (hex_byte b @ '' '' @ r) = Some (int (hex_digits_val (hex_byte b)), '' '' @ r)"
    using hex_bytes_chars [of _ "[b]"] by (intro scan_hex_digits) (auto simp: hex_byte_def)
  moreover have "scan_hex ('' '' @ s) = scan_hex s" for s by (simp add: scan_hex_def is_space_def)
  ultimately show ?thesis using hex_digits_val_byte [of "[]" b] by (simp add: hex_digits_val_def)
qed

lemma scan_net_row:
  assumes "row_ok v r"
  shows "scan_net (addr_width v) (row_line be r @ q) =
    \<lparr>nl_local_addr = Some (kernel_hex be (sr_addr r)), nl_local_port = Some (ucast (sr_port r)),
     nl_state = Some (of_nat (unat (sr_state r)))\<rparr>"
proof -
  let ?a = "kernel_hex be (sr_addr r)" and ?b = "kernel_hex be (sr_rem r)"
  let ?t5 = "'' '' @ hex_byte (sr_state r) @ '' '' @ sr_tail r @ q"
  let ?t4 = "'':'' @ hex_port (sr_rport r) @ ?t5"
  let ?t3 = "'' '' @ ?b @ ?t4"
  let ?t2 = "'':'' @ hex_port (sr_port r) @ ?t3"
  let ?line = "replicate (sr_lead r) (CHR '' '') @ (dec_of_nat (sr_sl r) @ '':'') @ '' '' @ ?a @ ?t2"
  have len: "length ?a = addr_width v" "length ?b = addr_width v" "?a \<noteq> []" "?b \<noteq> []"
    using assms length_kernel_hex [of "sr_addr r" be] length_kernel_hex [of "sr_rem r" be]
    by (auto simp: row_ok_def addr_width_def Let_def split: if_splits)
  have ns: "\<And>c. c \<in> set ?a \<Longrightarrow> \<not> is_space c" "\<And>c. c \<in> set ?b \<Longrightarrow> \<not> is_space c"
    using kernel_hex_chars hexU_plain(1) by blast+
  have sl: "\<And>c. c \<in> set (dec_of_nat (sr_sl r) @ '':'') \<Longrightarrow> \<not> is_space c"
    using dec_of_nat_digits is_digit_not_space by (auto simp: is_space_def [of "CHR '':''"])
  have 1: "scan_word (length ?line) ?line = Some (dec_of_nat (sr_sl r) @ '':'', '' '' @ ?a @ ?t2)"
    by (rule scan_word_run [OF sl]) simp_all
  have 2: "scan_word (addr_width v) ('' '' @ ?a @ ?t2) = Some (?a, ?t2)"
    using scan_word_full [OF ns(1) len(3)] len(1) by simp
  have 3: "scan_word (addr_width v) ?t3 = Some (?b, ?t4)"
    using scan_word_full [OF ns(2) len(4)] len(2) by simp
  have line: "row_line be r @ q = ?line" by (simp add: row_line_def)
  show ?thesis
    unfolding line scan_net_def Let_def 1 option.case prod.case 2 scan_port_hex 3 scan_hex_byte by simp
qed

lemma row_line_fgets:
  assumes "row_ok v r"
  shows "fgets_all 256 (row_line be r @ CHR 0x0A # q) = (row_line be r @ [CHR 0x0A]) # fgets_all 256 q"
proof (rule fgets_all_line)
  have hex: "c \<noteq> CHR 0x0A \<and> c \<noteq> CHR 0x00" if "\<exists>d < 16. c = hexU d" for c using that hexU_plain(7,8) by auto
  have parts: "c \<noteq> CHR 0x0A \<and> c \<noteq> CHR 0x00" if "c \<in> set (kernel_hex be x) \<or> c \<in> set (hex_port p) \<or> c \<in> set (hex_byte b)" for c x p b
    using that hex kernel_hex_chars [of c be x] hex_bytes_chars [of c "rev (le_of_word 2 p)"] hex_bytes_chars [of c "[b]"]
    by (auto simp: hex_port_def)
  have dec: "CHR 0x0A \<notin> set (dec_of_nat n)" "CHR 0x00 \<notin> set (dec_of_nat n)" for n
    using dec_of_nat_digits not_digits by blast+
  show "CHR 0x0A \<notin> set (row_line be r)" "CHR 0x00 \<notin> set (row_line be r)"
    using assms parts dec unfolding row_line_def row_ok_def by auto
  have "length (kernel_hex be (sr_addr r)) = length (kernel_hex False (sr_addr r))"
    "length (kernel_hex be (sr_rem r)) = length (kernel_hex False (sr_rem r))"
    using assms length_kernel_hex [of "sr_addr r"] length_kernel_hex [of "sr_rem r"]
    by (auto simp: row_ok_def Let_def split: if_splits)
  then have "length (row_line be r) = length (row_line False r)" by (simp add: row_line_def)
  then show "Suc (length (row_line be r)) < 256" using assms by (simp add: row_ok_def)
qed

text \<open>A whole table: a header line and the rows.\<close>

definition net_table :: "bool \<Rightarrow> string \<Rightarrow> sock_row list \<Rightarrow> string" where
  "net_table be header rows = header @ [CHR 0x0A] @ concat (map (\<lambda>r. row_line be r @ [CHR 0x0A]) rows)"

definition header_ok :: "string \<Rightarrow> bool" where
  "header_ok h \<longleftrightarrow> CHR 0x0A \<notin> set h \<and> CHR 0x00 \<notin> set h \<and> length h < 254"

lemma net_table_lines:
  assumes "header_ok h" and "list_all (row_ok v) rows"
  shows "drop 1 (fgets_all 256 (net_table be h rows)) = map (\<lambda>r. row_line be r @ [CHR 0x0A]) rows"
proof -
  have "fgets_all 256 (concat (map (\<lambda>r. row_line be r @ [CHR 0x0A]) rows)) = map (\<lambda>r. row_line be r @ [CHR 0x0A]) rows"
    using assms(2)
  proof (induction rows)
    case (Cons r rows)
    then show ?case using row_line_fgets [of v r be "concat (map (\<lambda>r. row_line be r @ [CHR 0x0A]) rows)"] by simp
  qed simp
  then show ?thesis
    using fgets_all_line [of h 256 "concat (map (\<lambda>r. row_line be r @ [CHR 0x0A]) rows)"] assms(1)
    by (simp add: net_table_def header_ok_def)
qed

lemma procnet_line_row:
  assumes "row_ok v r"
  shows "procnet_line be v (row_line be r @ q) =
    (if sr_state r \<noteq> 0x0A then Inr []
     else case inet_ntop v (sr_addr r) of
            None \<Rightarrow> Inl Uninitialised
          | Some strip \<Rightarrow> Inr (strip @ '':'' @ dec_of_nat (unat (sr_port r)) @ [CHR 0x0A]))"
proof -
  let ?n = "if v = 4 then 4 else 16 :: nat"
  have a: "length (sr_addr r) = ?n" using assms by (simp add: row_ok_def Let_def)
  then have h: "hexToInAddr be (kernel_hex be (sr_addr r)) (replicate ?n 0) = Inr (sr_addr r)"
    by (intro hexToInAddr_kernel) auto
  have w: "length (kernel_hex be (sr_addr r)) = addr_width v"
    using a length_kernel_hex [of "sr_addr r" be] by (auto simp: addr_width_def)
  have "(of_nat (unat (sr_state r)) :: u32) = 0x0A \<longleftrightarrow> sr_state r = 0x0A"
  proof -
    have "unat (sr_state r) < 256" using unsigned_less [of "sr_state r"] by simp
    then have "(of_nat (unat (sr_state r)) :: u32) = of_nat 10 \<longleftrightarrow> unat (sr_state r) = 10"
      by (simp add: word_unat_eq_iff unsigned_ucast_eq take_bit_nat_eq_self)
    then show ?thesis by (simp add: word_unat_eq_iff)
  qed
  moreover have "unat (ucast (sr_port r) :: u32) = unat (sr_port r)"
  proof -
    have "unat (sr_port r) < 65536" using unsigned_less [of "sr_port r"] by simp
    then show ?thesis by (simp add: unsigned_ucast_eq take_bit_nat_eq_self)
  qed
  ultimately show ?thesis
    unfolding procnet_line_def scan_net_row [OF assms] Let_def using h w
    by (simp split: option.split)
qed

section \<open>Properties\<close>

text \<open>
  On machines of either byte order, \<open>hexToInAddr\<close> recovers the bytes of an IPv4 or IPv6 address,
  in network order, from the hexadecimal text in which the kernel prints it.
\<close>

theorem hexToInAddr_inverts_kernel:
  assumes "length a \<in> {4, 16}" and "length buffer = length a"
  shows "hexToInAddr be (kernel_hex be a) buffer = Inr a"
  using assms by (intro hexToInAddr_kernel) auto

theorem hexToInAddr_inverts_kernel_witness:
  "hexToInAddr False (kernel_hex False [127, 0, 0, 1]) [0, 0, 0, 0] = Inr [127, 0, 0, 1]"
  by (rule hexToInAddr_inverts_kernel) simp_all

lemma ntop4_length: "length (ntop4 a) < INET_ADDRSTRLEN"
proof -
  have "length (dec_of_nat (unat b)) \<le> 3" for b :: byte
  proof -
    have "unat b < 256" using unsigned_less [of b] by simp
    then show ?thesis by (intro dec_of_nat_length_le) auto
  qed
  from this [of "a ! 0"] this [of "a ! 1"] this [of "a ! 2"] this [of "a ! 3"]
  show ?thesis by (simp add: ntop4_def INET_ADDRSTRLEN_def)
qed

text \<open>
  C26: \<open>parse_procnet\<close> on the IPv4 socket table prints address and port of exactly the sockets that
  listen, in the order of the table, for rows in the format of the kernel (any number of spaces
  before the slot, any text behind the state) that fit the line buffer of 256 bytes.
\<close>

theorem parse_procnet_listening:
  assumes "os_text os path = Some (net_table be h rows)" and "header_ok h" and "list_all (row_ok 4) rows"
  shows "parse_procnet be os path 4 =
     Inr (0, concat (map (\<lambda>r. ntop4 (sr_addr r) @ '':'' @ dec_of_nat (unat (sr_port r)) @ [CHR 0x0A]) (filter (\<lambda>r. sr_state r = 0x0A) rows)))"
proof -
  have "procnet_lines be 4 (map (\<lambda>r. row_line be r @ [CHR 0x0A]) rows) =
      Inr (concat (map (\<lambda>r. ntop4 (sr_addr r) @ '':'' @ dec_of_nat (unat (sr_port r)) @ [CHR 0x0A]) (filter (\<lambda>r. sr_state r = 0x0A) rows)))"
    using assms(3) by (induction rows) (auto simp: procnet_line_row inet_ntop_def ntop4_length)
  then show ?thesis using assms net_table_lines [OF assms(2,3)] by (simp add: parse_procnet_def)
qed

text \<open>The first sample line in the comment of \<open>parse_procnet\<close>, and the same socket connected.\<close>

definition ssh_row :: sock_row where
  "ssh_row = \<lparr>sr_lead = 3, sr_sl = 3, sr_addr = [127, 0, 0, 1], sr_port = 0x277, sr_rem = [0, 0, 0, 0], sr_rport = 0, sr_state = 0x0A,
     sr_tail = ''00000000:00000000 00:00000000 00000000     0        0 21875 1 ffff8800395407c0 100 0 0 10 0                     ''\<rparr>"

lemma ssh_row_text:
  "row_line False ssh_row =
   ''   3: 0100007F:0277 00000000:0000 0A 00000000:00000000 00:00000000 00000000     0        0 21875 1 ffff8800395407c0 100 0 0 10 0                     ''"
  by code_simp

lemma ssh_row_ok: "row_ok 4 ssh_row" "row_ok 4 (ssh_row\<lparr>sr_state := s\<rparr>)" "row_ok 4 (ssh_row\<lparr>sr_port := p\<rparr>)"
proof -
  have len: "length (row_line False (ssh_row\<lparr>sr_state := s\<rparr>)) = length (row_line False ssh_row)"
    "length (row_line False (ssh_row\<lparr>sr_port := p\<rparr>)) = length (row_line False ssh_row)"
    by (simp_all add: row_line_def hex_port_def hex_byte_def numeral_2_eq_2)
  show "row_ok 4 ssh_row" "row_ok 4 (ssh_row\<lparr>sr_state := s\<rparr>)" "row_ok 4 (ssh_row\<lparr>sr_port := p\<rparr>)"
    by (simp_all add: row_ok_def len ssh_row_text) (simp_all add: ssh_row_def)
qed

theorem parse_procnet_listening_witness:
  "parse_procnet False (quiet_os\<lparr>os_text := (\<lambda>_. Some (net_table False ''sl'' [ssh_row, ssh_row\<lparr>sr_state := 1\<rparr>]))\<rparr>) ''/proc/net/tcp'' 4 =
   Inr (0, concat (map (\<lambda>r. ntop4 (sr_addr r) @ '':'' @ dec_of_nat (unat (sr_port r)) @ [CHR 0x0A])
     (filter (\<lambda>r. sr_state r = 0x0A) [ssh_row, ssh_row\<lparr>sr_state := 1\<rparr>])))"
  by (rule parse_procnet_listening [where h = "''sl''"]) (simp_all add: header_ok_def ssh_row_ok)

text \<open>
  the text buffer for an IPv6 address has the size for an IPv4 address: for a listening socket
  whose address needs 16 characters or more \<open>inet_ntop\<close> fails and the program prints an
  uninitialised buffer.
\<close>

theorem parse_procnet_ipv6_uninitialised:
  assumes "os_text os path = Some (net_table be h (r # rows))" and "header_ok h" and "list_all (row_ok 6) (r # rows)"
    and "sr_state r = 0x0A" and "INET_ADDRSTRLEN \<le> length (ntop6 (sr_addr r))"
  shows "parse_procnet be os path 6 = Inl Uninitialised"
  using assms net_table_lines [OF assms(2,3), of be]
  by (simp add: parse_procnet_def procnet_line_row inet_ntop_def)

definition lan_row :: sock_row where
  "lan_row = ssh_row\<lparr>sr_addr := replicate 16 0x11, sr_rem := replicate 16 0\<rparr>"

lemma lan_row_ok: "row_ok 6 lan_row"
proof -
  have ssh: "length (sr_addr ssh_row) = 4" "length (sr_rem ssh_row) = 4" by (simp_all add: ssh_row_def)
  have "length (row_line False lan_row) = length (row_line False ssh_row) + 48"
    using length_kernel_hex [of "replicate 16 0x11" False] length_kernel_hex [of "replicate 16 0" False]
      length_kernel_hex [of "sr_addr ssh_row" False] length_kernel_hex [of "sr_rem ssh_row" False] ssh
    by (simp add: row_line_def lan_row_def)
  then show ?thesis by (simp add: row_ok_def ssh_row_text) (simp add: lan_row_def ssh_row_def)
qed

lemma hex_char_1: "hex_char 1 \<noteq> CHR '':''" "hex_char 1 \<noteq> CHR ''0''"
  by (simp_all add: hex_char_def char_of_def bit_0)

lemma group6_ones: "i < 8 \<Longrightarrow> group6 (replicate 16 0x11) i = [hex_char 1, hex_char 1, hex_char 1, hex_char 1]"
  by (simp only: group6_def nth_replicate) (simp add: hex_of_nat.simps [of 4369] hex_of_nat.simps [of 273] hex_of_nat.simps [of 17] hex_of_nat.simps [of "Suc 0"])

lemma ntop6_ones: "length (ntop6 (replicate 16 0x11)) = 39"
proof -
  let ?x = "hex_char 1"
  let ?g = "[?x, ?x, ?x, ?x, CHR '':'']"
  have up: "[0..<7] = [0, 1, 2, 3, 4, 5, 6 :: nat]" by (simp add: upt_conv_Cons)
  have buf: "concat (map (\<lambda>i. group6 (replicate 16 0x11) i @ '':'') [0..<7]) @ group6 (replicate 16 0x11) 7 =
      ?g @ ?g @ ?g @ ?g @ ?g @ ?g @ ?g @ [?x, ?x, ?x, ?x]"
    unfolding up by (simp add: group6_ones)
  have z: "zero_run (?g @ ?g @ ?g @ ?g @ ?g @ ?g @ ?g @ [?x, ?x, ?x, ?x]) 0 (0, 2) = (0, 2)"
    using hex_char_1 by (simp add: Let_def)
  have "take 12 (replicate 16 (0x11 :: byte)) \<noteq> replicate 10 0 @ [0xff, 0xff]"
  proof
    assume "take 12 (replicate 16 (0x11 :: byte)) = replicate 10 0 @ [0xff, 0xff]"
    then have "hd (take 12 (replicate 16 (0x11 :: byte))) = hd (replicate 10 0 @ [0xff, 0xff])" by (rule arg_cong)
    then show False by (simp add: hd_append)
  qed
  then show ?thesis unfolding ntop6_def Let_def by (simp only: if_False buf z prod.case) simp
qed

theorem parse_procnet_ipv6_uninitialised_witness:
  "parse_procnet False (quiet_os\<lparr>os_text := (\<lambda>_. Some (net_table False ''sl'' [lan_row]))\<rparr>) ''/proc/net/tcp6'' 6 = Inl Uninitialised"
proof (rule parse_procnet_ipv6_uninitialised [where h = "''sl''" and rows = "[]"])
  show "INET_ADDRSTRLEN \<le> length (ntop6 (sr_addr lan_row))"
    using ntop6_ones by (simp add: INET_ADDRSTRLEN_def lan_row_def)
qed (simp_all add: header_ok_def lan_row_ok, simp add: lan_row_def ssh_row_def)

lemma unat_port_low: "unat ((ucast (p :: u16) :: u32) AND 0xffff) = unat p"
proof -
  have "(ucast p :: u32) AND 0xffff = ucast p"
  proof (rule bit_word_eqI)
    fix n assume "n < LENGTH(32)"
    have m: "(0xffff :: u32) = mask 16" by (simp add: mask_eq_exp_minus_1)
    show "bit ((ucast p :: u32) AND 0xffff) n = bit (ucast p :: u32) n"
      unfolding m by (auto simp: bit_simps dest: bit_imp_le_length)
  qed
  moreover have "unat p < 65536" using unsigned_less [of p] by simp
  ultimately show ?thesis by (simp add: unsigned_ucast_eq take_bit_nat_eq_self)
qed

lemma udp_line_row:
  assumes "row_ok v r"
  shows "udp_line be v ports (row_line be r @ q) = Inr (ports(unat (sr_port r) := True))"
proof -
  have "hexToInAddr be (kernel_hex be (sr_addr r)) (replicate (if v = 4 then 4 else 16) 0) = Inr (sr_addr r)"
    using assms by (intro hexToInAddr_kernel) (auto simp: row_ok_def Let_def)
  then show ?thesis unfolding udp_line_def scan_net_row [OF assms] by (simp add: unat_port_low)
qed

lemma get_udp_ports_table:
  assumes "os_text os path = Some (net_table be h rows)" and "header_ok h" and "list_all (row_ok v) rows"
  shows "get_udp_ports be os path v ports = Inr (0, \<lambda>p. ports p \<or> p \<in> unat ` sr_port ` set rows)"
proof -
  have "res_fold (udp_line be v) ports (map (\<lambda>r. row_line be r @ [CHR 0x0A]) rows) = Inr (\<lambda>p. ports p \<or> p \<in> unat ` sr_port ` set rows)"
    using assms(3)
  proof (induction rows arbitrary: ports)
    case (Cons r rows)
    then show ?case by (simp add: udp_line_row) (rule ext, auto)
  qed simp
  then show ?thesis using assms net_table_lines [OF assms(2,3)] by (simp add: get_udp_ports_def)
qed

text \<open>
  C27: the hidden UDP ports that \<open>applet_hiddenudp1\<close> prints are exactly those from 1 to 65535 on which
  a socket could be made and \<open>bind\<close> fails although neither of the two UDP socket tables has a socket with
  that local port; a port for which \<open>socket\<close> fails is passed over. The rows of the tables have the format of the
  kernel and fit the line buffer, as above.
\<close>

theorem hidden_udp_ports:
  assumes "os_text os ''/proc/net/udp'' = Some (net_table be h4 rows4)" "header_ok h4" "list_all (row_ok 4) rows4"
    and "os_text os ''/proc/net/udp6'' = Some (net_table be h6 rows6)" "header_ok h6" "list_all (row_ok 6) rows6"
  shows "applet_hiddenudp1 be os sock bind =
     Inr (0, concat (map (\<lambda>p. dec_of_nat p @ [CHR 0x0A])
       (filter (\<lambda>p. sock p \<and> \<not> bind p \<and> p \<notin> unat ` sr_port ` (set rows4 \<union> set rows6)) [1..<65536])))"
proof -
  let ?ports = "\<lambda>p. p \<in> unat ` sr_port ` set rows4 \<or> p \<in> unat ` sr_port ` set rows6"
  have run: "applet_hiddenudp1 be os sock bind = Inr (0, concat (map (udp_probe sock bind ?ports) [1..<65536]))"
    using get_udp_ports_table [OF assms(1-3), of "\<lambda>_. False"] get_udp_ports_table [OF assms(4-6)]
    by (simp add: applet_hiddenudp1_def)
  have "concat (map (udp_probe sock bind ?ports) ps) =
      concat (map (\<lambda>p. dec_of_nat p @ [CHR 0x0A]) (filter (\<lambda>p. sock p \<and> \<not> bind p \<and> p \<notin> unat ` sr_port ` (set rows4 \<union> set rows6)) ps))"
    if "\<And>p. p \<in> set ps \<Longrightarrow> p < 65536" for ps
    using that by (induction ps) (auto simp: udp_probe_def)
  from this [of "[1..<65536]"] run show ?thesis by (simp only: set_upt atLeastLessThan_iff)
qed

definition udp_os :: os where
  "udp_os = quiet_os\<lparr>os_text := (\<lambda>p. if p = ''/proc/net/udp'' then Some (net_table False ''sl'' [ssh_row\<lparr>sr_port := 53\<rparr>])
     else Some (net_table False ''sl'' []))\<rparr>"

theorem hidden_udp_ports_witness:
  "applet_hiddenudp1 False udp_os (\<lambda>p. p \<noteq> 7) (\<lambda>p. p \<notin> {7, 53, 666}) =
     Inr (0, concat (map (\<lambda>p. dec_of_nat p @ [CHR 0x0A])
       (filter (\<lambda>p. p \<noteq> 7 \<and> \<not> p \<notin> {7, 53, 666} \<and> p \<notin> unat ` sr_port ` (set [ssh_row\<lparr>sr_port := 53\<rparr>] \<union> set [])) [1..<65536])))"
  by (rule hidden_udp_ports [where ?h4.0 = "''sl''" and ?h6.0 = "''sl''" and sock = "\<lambda>p. p \<noteq> 7" and bind = "\<lambda>p. p \<notin> {7, 53, 666}"
        and ?rows4.0 = "[ssh_row\<lparr>sr_port := 53\<rparr>]" and ?rows6.0 = "[]" and os = udp_os and be = False])
     (simp_all add: udp_os_def header_ok_def ssh_row_ok)

end
