(* ===== verification/Tcp_Scan.thy ===== *)
theory Tcp_Scan
  imports System "HOL-Library.Multiset"
begin

text \<open>
  \<open>applet_tcp\<close> of \<^verbatim>\<open>src/src/atrk.c\<close>, the TCP port scan, with \<open>wait_conn\<close>, \<open>connect2\<close>, \<open>connect1\<close> and
  \<open>process_events\<close>. The answers of the kernel are data: one record for each attempt to connect
  and one value for each call of \<open>epoll_wait\<close>, consumed in order. The sockets that are open are part of the state: \<open>socket\<close> adds its result and
  every \<open>close\<close> takes one away, so that leaks show. The scan loop can
  run for ever; it stops with \<open>OutOfFuel\<close> when the answers are used up. The descriptors are assumed to
  lie below \<open>FD_SETSIZE\<close>, so that \<open>FD_SET\<close> in \<open>wait_conn\<close> stays in bounds, and the time-out in seconds to be
  small enough for its product with 1000.
\<close>

section \<open>One connection\<close>

datatype select_answer = SelError | SelEINTR | SelTimeout | SelReady
datatype connect_answer = Connected | InProgress | ConnFailed

text \<open>The answers to the calls for one socket; \<open>ca_fd\<close> is the result of \<open>socket\<close>.\<close>

record conn_answers =
  ca_fd :: int
  ca_fcntl :: bool
  ca_connect :: connect_answer
  ca_select :: select_answer
  ca_getsockopt :: bool
  ca_valopt :: int

definition wait_conn :: "conn_answers \<Rightarrow> int" where
  "wait_conn ca =
     (case ca_select ca of
        SelError \<Rightarrow> - 1
      | SelReady \<Rightarrow> if \<not> ca_getsockopt ca then - 1 else if ca_valopt ca \<noteq> 0 then - 1 else 0
      | _ \<Rightarrow> - 1)"

text \<open>\<open>close\<close> on the open sockets: one of them is gone.\<close>

definition close_fd :: "int \<Rightarrow> int list \<Rightarrow> int list" where
  "close_fd fd open_fds = remove1 fd open_fds"

text \<open>The result and the sockets that are open afterwards.\<close>

definition connect2 :: "conn_answers \<Rightarrow> int \<Rightarrow> int list \<Rightarrow> int \<times> int list" where
  "connect2 ca timeout_sec open_fds =
     (let sockfd = ca_fd ca
      in if sockfd < 0 then (- 2, open_fds)
         else (let open1 = open_fds @ [sockfd]
               in if \<not> ca_fcntl ca then (- 1, open1)
                  else case ca_connect ca of
                    Connected \<Rightarrow> (sockfd, open1)
                  | InProgress \<Rightarrow>
                      if timeout_sec = - 2 then (sockfd, open1)
                      else if wait_conn ca = 0 then (sockfd, open1) else (- 1, close_fd sockfd open1)
                  | ConnFailed \<Rightarrow> (- 1, close_fd sockfd open1)))"

text \<open>
  \<open>inet_pton(AF_INET, ...)\<close> of the C library: four decimal numbers up to 255 without leading
  zeros, separated by dots, to the end of the text.
\<close>

fun pton_loop :: "nat \<Rightarrow> string \<Rightarrow> byte list option" where
  "pton_loop 0 s = None"
| "pton_loop (Suc n) s =
     (let ds = takeWhile is_digit (take 3 s); v = digits_val ds; r = drop (length ds) s
      in if ds = [] \<or> (1 < length ds \<and> hd ds = CHR ''0'') \<or> 255 < v then None
         else if n = 0 then (if r = [] then Some [of_nat v] else None)
         else (case r of
                 [] \<Rightarrow> None
               | c # r' \<Rightarrow> if c = CHR ''.'' then map_option (\<lambda>a. of_nat v # a) (pton_loop n r') else None))"

definition connect1 :: "conn_answers \<Rightarrow> string \<Rightarrow> int \<Rightarrow> int list \<Rightarrow> int \<times> int list" where
  "connect1 ca ip timeout_sec open_fds =
     (if pton_loop 4 ip = None then (- 1, open_fds) else connect2 ca timeout_sec open_fds)"

section \<open>Waiting for the connections\<close>

text \<open>
  An event: the event bits, the descriptor, the port \<open>getpeername\<close> gives (\<open>None\<close>: it failed), the
  answers for the second connection and whether \<open>EPOLL_CTL_DEL\<close> succeeds.
\<close>

record epoll_event =
  ee_events :: u32
  ee_fd :: int
  ee_peer :: "u16 option"
  ee_conn :: conn_answers
  ee_del :: bool

definition EPOLLOUT :: u32 where "EPOLLOUT = 4"

datatype epoll_answer = EpollError | Ready "epoll_event list"

text \<open>The output so far and the open sockets.\<close>

record scan_out =
  so_out :: string
  so_open :: "int list"

text \<open>One event of the inner loop: the second connection, if any, is printed and closed.\<close>

definition probe_event :: "int \<Rightarrow> epoll_event \<Rightarrow> scan_out \<Rightarrow> scan_out" where
  "probe_event timeout_sec e o1 =
     (if ee_events e = EPOLLOUT
      then (case ee_peer e of
              None \<Rightarrow> o1
            | Some port \<Rightarrow>
                (let (s, open1) = connect2 (ee_conn e) timeout_sec (so_open o1)
                 in if s \<ge> 0
                    then o1\<lparr>so_out := so_out o1 @ dec_of_nat (unat port) @ [CHR 0x0A], so_open := close_fd s open1\<rparr>
                    else o1\<lparr>so_open := open1\<rparr>))
      else o1)"

text \<open>The loop over the ready events; the flag says that \<open>epoll_ctl\<close> failed.\<close>

fun event_loop :: "int \<Rightarrow> epoll_event list \<Rightarrow> int \<Rightarrow> scan_out \<Rightarrow> bool \<times> int \<times> scan_out" where
  "event_loop timeout_sec [] total1 o1 = (False, total1, o1)"
| "event_loop timeout_sec (e # es) total1 o1 =
     (let o2 = probe_event timeout_sec e o1
      in if \<not> ee_del e then (True, total1, o2) else event_loop timeout_sec es (total1 - 1) o2)"

text \<open>
  \<open>process_events\<close>: the return value, \<open>*ecount\<close>, the output and the answers of \<open>epoll_wait\<close> that are
  left. \<open>evls\<close> has 256 entries, the maximum that is passed to the kernel. An exhausted list is a
  time-out.
\<close>

fun process_events :: "int \<Rightarrow> epoll_answer list \<Rightarrow> int \<Rightarrow> scan_out \<Rightarrow> int \<times> int \<times> scan_out \<times> epoll_answer list" where
  "process_events timeout_sec [] total1 o1 = (0, total1, o1, [])"
| "process_events timeout_sec (a # answers) total1 o1 =
     (if total1 > 0
      then (case a of
              EpollError \<Rightarrow> (- 1, total1, o1, answers)
            | Ready es \<Rightarrow>
                (case take 256 es of
                   [] \<Rightarrow> (0, total1, o1, answers)
                 | ready \<Rightarrow>
                     (let (failed, total2, o2) = event_loop timeout_sec ready total1 o1
                      in if failed then (- 1, total2, o2, answers)
                         else process_events timeout_sec answers total2 o2)))
      else (0, total1, o1, a # answers))"

section \<open>The scan\<close>

record tcp_state =
  ts_port :: int
  ts_pending :: "int list"
  ts_ecount :: int
  ts_io :: scan_out
  ts_epoll :: "epoll_answer list"
  ts_ret :: int

text \<open>The answers for one iteration: those for the connection and whether \<open>EPOLL_CTL_ADD\<close> succeeds.\<close>

record attempt =
  at_conn :: conn_answers
  at_add :: bool

text \<open>
  The loop that closes the pending sockets, the last one first, for \<open>nPending = n\<close>: \<open>ts_pending\<close> holds
  the first \<open>nPending\<close> entries of \<open>pending_sd\<close>.
\<close>

fun close_pending :: "nat \<Rightarrow> tcp_state \<Rightarrow> tcp_state" where
  "close_pending 0 t = t"
| "close_pending (Suc n) t =
     close_pending n
       (t\<lparr>ts_io := (ts_io t)\<lparr>so_open := close_fd (ts_pending t ! n) (so_open (ts_io t))\<rparr>, ts_pending := take n (ts_pending t)\<rparr>)"

text \<open>\<open>process_events\<close>, closing of the pending sockets, \<open>ecount = 0\<close>.\<close>

definition drain :: "int \<Rightarrow> tcp_state \<Rightarrow> tcp_state" where
  "drain timeout_sec t =
     (let (r, ecount, o1, answers) = process_events timeout_sec (ts_epoll t) (ts_ecount t) (ts_io t);
          t1 = close_pending (length (ts_pending t)) (t\<lparr>ts_ecount := ecount, ts_io := o1, ts_epoll := answers\<rparr>)
      in t1\<lparr>ts_ecount := 0\<rparr>)"

text \<open>
  One iteration of the scan loop; the flag says that it was left by \<open>break\<close>. \<open>pending_sd\<close> has 256
  entries; \<open>++port\<close> may overflow.
\<close>

definition tcp_step :: "string \<Rightarrow> int \<Rightarrow> attempt \<Rightarrow> tcp_state \<Rightarrow> (bool \<times> tcp_state) res" where
  "tcp_step ip timeout_sec a t =
     (let (s, open1) = connect1 (at_conn a) ip (- 2) (so_open (ts_io t));
          t0 = t\<lparr>ts_io := (ts_io t)\<lparr>so_open := open1\<rparr>\<rparr>;
          advance = (\<lambda>t. let t1 = (if s = - 2 \<or> ts_ecount t \<ge> 256 then drain timeout_sec t else t)
                         in if s = - 2 then Inr (False, t1)
                            else if ts_port t1 = 2 ^ 31 - 1 then Inl SignedOverflow
                            else Inr (False, t1\<lparr>ts_port := ts_port t1 + 1\<rparr>))
      in if s \<ge> 0
         then if length (ts_pending t) \<ge> 256 then Inl BufferOverflow
              else (let t1 = t0\<lparr>ts_pending := ts_pending t @ [s]\<rparr>
                    in if \<not> at_add a then Inr (True, t1\<lparr>ts_ret := 1\<rparr>)
                       else advance (t1\<lparr>ts_ecount := ts_ecount t1 + 1\<rparr>))
         else advance t0)"

fun tcp_loop :: "string \<Rightarrow> int \<Rightarrow> int \<Rightarrow> attempt list \<Rightarrow> tcp_state \<Rightarrow> tcp_state res" where
  "tcp_loop ip timeout_sec end_port [] t = (if ts_port t \<le> end_port then Inl OutOfFuel else Inr t)"
| "tcp_loop ip timeout_sec end_port (a # as) t =
     (if ts_port t \<le> end_port
      then and_then (tcp_step ip timeout_sec a t) (\<lambda>(stop, t').
             if stop then Inr t' else tcp_loop ip timeout_sec end_port as t')
      else Inr t)"

text \<open>The results of \<open>getopt\<close> (option and argument) and the arguments from \<open>optind\<close> on.\<close>

fun tcp_options :: "(char \<times> string) list \<Rightarrow> int \<Rightarrow> (int + int) res" where
  "tcp_options [] timeout_sec = Inr (Inr timeout_sec)"
| "tcp_options ((option, optarg) # rest) timeout_sec =
     (if option = CHR ''w'' then and_then (atoi optarg) (\<lambda>w. tcp_options rest w)
      else if option = CHR ''h'' then Inr (Inl 0)
      else if option = CHR ''?'' then Inr (Inl 1)
      else tcp_options rest timeout_sec)"

definition tcp_scan :: "int \<Rightarrow> string \<Rightarrow> string \<Rightarrow> string \<Rightarrow> attempt list \<Rightarrow> epoll_answer list \<Rightarrow> (int \<times> tcp_state option) res" where
  "tcp_scan timeout_sec ip a b attempts epolls =
     and_then (atoi a) (\<lambda>start_port. and_then (atoi b) (\<lambda>end_port.
       if start_port > end_port then Inr (1, None)
       else and_then (tcp_loop ip timeout_sec end_port attempts
                \<lparr>ts_port = start_port, ts_pending = [], ts_ecount = 0, ts_io = \<lparr>so_out = [], so_open = []\<rparr>,
                 ts_epoll = epolls, ts_ret = 0\<rparr>) (\<lambda>t.
              Inr (ts_ret t, Some (drain timeout_sec t)))))"

definition applet_tcp ::
  "(char \<times> string) list \<Rightarrow> string list \<Rightarrow> attempt list \<Rightarrow> epoll_answer list \<Rightarrow> (int \<times> tcp_state option) res" where
  "applet_tcp options args attempts epolls =
     and_then (tcp_options options 10) (\<lambda>r.
       case r of
         Inl ret \<Rightarrow> Inr (ret, None)
       | Inr timeout_sec \<Rightarrow>
           if length args \<noteq> 3 then Inr (1, None)
           else tcp_scan timeout_sec (args ! 0) (args ! 1) (args ! 2) attempts epolls)"

section \<open>Facts\<close>

lemma close_pending_simps [simp]:
  "ts_ecount (close_pending n t) = ts_ecount t" "ts_port (close_pending n t) = ts_port t"
  "ts_ret (close_pending n t) = ts_ret t" "ts_epoll (close_pending n t) = ts_epoll t" "so_out (ts_io (close_pending n t)) = so_out (ts_io t)"
  by (induction n t rule: close_pending.induct) simp_all

lemma close_pending_all: "length (ts_pending t) = n \<Longrightarrow> ts_pending (close_pending n t) = []"
  by (induction n t rule: close_pending.induct) simp_all

lemma drain_simps [simp]:
  "ts_pending (drain w t) = []" "ts_ecount (drain w t) = 0" "ts_port (drain w t) = ts_port t" "ts_ret (drain w t) = ts_ret t"
  by (simp_all add: drain_def close_pending_all split: prod.splits)

text \<open>What holds whenever the scan loop tests its condition.\<close>

definition tcp_inv :: "tcp_state \<Rightarrow> bool" where
  "tcp_inv t \<longleftrightarrow> ts_ecount t = int (length (ts_pending t)) \<and> length (ts_pending t) < 256"

lemma tcp_step_inv:
  assumes "tcp_inv t"
  shows "tcp_step ip w a t \<noteq> Inl BufferOverflow" and "tcp_step ip w a t = Inr (False, t') \<Longrightarrow> tcp_inv t'"
  using assms by (auto simp: tcp_step_def tcp_inv_def Let_def split: prod.splits if_splits)

lemma tcp_loop_safe: "tcp_inv t \<Longrightarrow> tcp_loop ip w e as t \<noteq> Inl BufferOverflow"
proof (induction as arbitrary: t)
  case (Cons a as)
  have "\<And>t'. tcp_step ip w a t = Inr (False, t') \<Longrightarrow> tcp_loop ip w e as t' \<noteq> Inl BufferOverflow"
    using Cons tcp_step_inv(2) by blast
  then show ?case using tcp_step_inv(1) [OF Cons.prems] by (auto simp: and_then_eq_Inl)
qed simp

text \<open>The result of the attempt, as the scan loop sees it.\<close>

definition attempt_fd :: "string \<Rightarrow> attempt \<Rightarrow> int" where
  "attempt_fd ip a = fst (connect1 (at_conn a) ip (- 2) [])"

lemma connect2_result: "connect2 ca w fds = (s, fds') \<Longrightarrow> fst (connect2 ca w []) = s"
  by (auto simp: connect2_def Let_def split: if_splits connect_answer.splits)

lemma attempt_fd_connect1: "connect1 (at_conn a) ip (- 2) fds = (s, fds') \<Longrightarrow> attempt_fd ip a = s"
  by (auto simp: attempt_fd_def connect1_def dest: connect2_result split: if_splits)

lemma tcp_step_port:
  assumes "tcp_step ip w a t = Inr (False, t')"
  shows "ts_port t' = (if attempt_fd ip a = - 2 then ts_port t else ts_port t + 1)"
  using assms by (auto simp: tcp_step_def attempt_fd_connect1 Let_def split: prod.splits if_splits)

lemma tcp_step_returns:
  assumes "tcp_inv t" and "ts_port t < 2 ^ 31 - 1"
  shows "\<exists>r. tcp_step ip w a t = Inr r"
  using assms by (auto simp: tcp_step_def tcp_inv_def Let_def split: prod.splits)

lemma tcp_loop_returns:
  assumes "tcp_inv t" and "e < 2 ^ 31 - 1" and "e - ts_port t < int (length (filter (\<lambda>a. attempt_fd ip a \<noteq> - 2) as))"
  shows "\<exists>t'. tcp_loop ip w e as t = Inr t' \<and> (ts_ret t' = ts_ret t \<longrightarrow> e < ts_port t' \<or> ts_ret t = 1)"
  using assms
proof (induction as arbitrary: t)
  case Nil
  then show ?case by simp
next
  case (Cons a as)
  show ?case
  proof (cases "ts_port t \<le> e")
    case False
    then show ?thesis by simp
  next
    case True
    then obtain stop t' where st: "tcp_step ip w a t = Inr (stop, t')"
      using tcp_step_returns [OF Cons.prems(1)] Cons.prems(2) by fastforce
    show ?thesis
    proof (cases stop)
      case True
      then have "ts_ret t' = 1" using st by (auto simp: tcp_step_def Let_def split: prod.splits if_splits)
      then show ?thesis using st True \<open>ts_port t \<le> e\<close> by simp
    next
      case False
      then have inv: "tcp_inv t'" using tcp_step_inv(2) [OF Cons.prems(1)] st by simp
      have "e - ts_port t' < int (length (filter (\<lambda>a. attempt_fd ip a \<noteq> - 2) as))"
        using Cons.prems(3) tcp_step_port st False by auto
      then obtain t'' where "tcp_loop ip w e as t' = Inr t''" "ts_ret t'' = ts_ret t' \<longrightarrow> e < ts_port t'' \<or> ts_ret t' = 1"
        using Cons.IH [OF inv Cons.prems(2)] by blast
      moreover have "ts_ret t' = ts_ret t" using st False by (auto simp: tcp_step_def Let_def split: prod.splits if_splits)
      ultimately show ?thesis using st False True by simp
    qed
  qed
qed

lemma tcp_loop_stuck:
  assumes "list_all (\<lambda>a. attempt_fd ip a = - 2) as" and "ts_port t \<le> e"
  shows "tcp_loop ip w e as t = Inl OutOfFuel"
  using assms
proof (induction as arbitrary: t)
  case (Cons a as)
  then have "\<exists>t'. tcp_step ip w a t = Inr (False, t') \<and> ts_port t' = ts_port t"
    by (auto simp: tcp_step_def attempt_fd_connect1 Let_def split: prod.splits)
  then show ?case using Cons by auto
qed simp

lemma atoi_range: "atoi s = Inr i \<Longrightarrow> i < 2 ^ 31"
  by (auto simp: atoi_def Let_def split: if_splits)

text \<open>A port that an event confirms: writable, named by its peer, and reached a second time.\<close>

definition confirms :: "int \<Rightarrow> epoll_event \<Rightarrow> u16 \<Rightarrow> bool" where
  "confirms w e port \<longleftrightarrow> ee_events e = EPOLLOUT \<and> ee_peer e = Some port \<and> 0 \<le> fst (connect2 (ee_conn e) w [])"

definition port_lines :: "u16 list \<Rightarrow> string" where
  "port_lines ps = concat (map (\<lambda>p. dec_of_nat (unat p) @ [CHR 0x0A]) ps)"

lemma probe_event_out:
  "\<exists>ps. so_out (probe_event w e o1) = so_out o1 @ port_lines ps \<and> (\<forall>p \<in> set ps. confirms w e p)"
  by (auto simp: probe_event_def confirms_def port_lines_def connect2_result Let_def split: option.splits prod.splits
      intro: exI [of _ "[]"] exI [of _ "[p]" for p])

lemma port_lines_append: "port_lines (ps @ qs) = port_lines ps @ port_lines qs"
  by (simp add: port_lines_def)

lemma event_loop_out:
  "event_loop w es n o1 = (f, n', o2) \<Longrightarrow>
   \<exists>ps. so_out o2 = so_out o1 @ port_lines ps \<and> (\<forall>p \<in> set ps. \<exists>e \<in> set es. confirms w e p)"
proof (induction es arbitrary: n o1)
  case Nil
  then show ?case by (auto simp: port_lines_def intro: exI [of _ "[]"])
next
  case (Cons e es)
  obtain ps where ps: "so_out (probe_event w e o1) = so_out o1 @ port_lines ps" "\<forall>p \<in> set ps. confirms w e p"
    using probe_event_out by blast
  show ?case
  proof (cases "ee_del e")
    case False
    then show ?thesis using Cons.prems ps by auto
  next
    case True
    then have "event_loop w es (n - 1) (probe_event w e o1) = (f, n', o2)" using Cons.prems by (simp add: Let_def)
    from Cons.IH [OF this] obtain qs where
      "so_out o2 = so_out (probe_event w e o1) @ port_lines qs" "\<forall>p \<in> set qs. \<exists>e \<in> set es. confirms w e p"
      by blast
    then have "so_out o2 = so_out o1 @ port_lines (ps @ qs)" "\<forall>p \<in> set (ps @ qs). \<exists>e \<in> set (e # es). confirms w e p"
      using ps by (auto simp: port_lines_append)
    then show ?thesis by blast
  qed
qed

definition events_of :: "epoll_answer list \<Rightarrow> epoll_event set" where
  "events_of as = {e. \<exists>es. Ready es \<in> set as \<and> e \<in> set es}"

lemma process_events_out:
  "process_events w as n o1 = (r, n', o2, as') \<Longrightarrow>
   \<exists>ps. so_out o2 = so_out o1 @ port_lines ps \<and> (\<forall>p \<in> set ps. \<exists>e \<in> events_of as. confirms w e p)"
proof (induction as arbitrary: n o1)
  case Nil
  then show ?case by (auto simp: port_lines_def intro: exI [of _ "[]"])
next
  case (Cons a as)
  have none: ?case if "so_out o2 = so_out o1" using that by (auto simp: port_lines_def intro: exI [of _ "[]"])
  show ?case
  proof (cases "0 < n \<and> (\<exists>es. a = Ready es \<and> take 256 es \<noteq> [])")
    case False
    then show ?thesis using Cons.prems none by (auto split: if_splits epoll_answer.splits list.splits)
  next
    case True
    then obtain es where a: "a = Ready es" and ne: "take 256 es \<noteq> []" and n: "0 < n" by blast
    obtain f m o3 where ev: "event_loop w (take 256 es) n o1 = (f, m, o3)" by (cases "event_loop w (take 256 es) n o1") auto
    obtain ps where ps: "so_out o3 = so_out o1 @ port_lines ps" "\<forall>p \<in> set ps. \<exists>e \<in> set (take 256 es). confirms w e p"
      using event_loop_out [OF ev] by blast
    have sub: "\<exists>e \<in> events_of (a # as). confirms w e p" if "p \<in> set ps" for p
      using ps(2) that a set_take_subset [of 256 es] by (auto simp: events_of_def) blast
    have mono: "events_of as \<subseteq> events_of (a # as)" by (auto simp: events_of_def)
    have run: "(if f then (- 1, m, o3, as) else process_events w as m o3) = (r, n', o2, as')"
      using Cons.prems a ne n ev by (cases "take 256 es") (auto simp: Let_def)
    show ?thesis
    proof (cases f)
      case True
      then show ?thesis using run ps(1) sub by auto
    next
      case False
      then have "process_events w as m o3 = (r, n', o2, as')" using run by simp
      from Cons.IH [OF this] obtain qs where
        "so_out o2 = so_out o3 @ port_lines qs" "\<forall>p \<in> set qs. \<exists>e \<in> events_of as. confirms w e p" by blast
      then have "so_out o2 = so_out o1 @ port_lines (ps @ qs)" "\<forall>p \<in> set (ps @ qs). \<exists>e \<in> events_of (a # as). confirms w e p"
        using ps(1) sub mono by (simp_all add: port_lines_append) blast
      then show ?thesis by blast
    qed
  qed
qed

section \<open>The open sockets\<close>

text \<open>
  The sockets that the calls for a connection lose: \<open>connect2\<close> returns without closing when \<open>fcntl\<close>
  fails.
\<close>

definition lost_fds :: "conn_answers \<Rightarrow> int multiset" where
  "lost_fds ca = (if 0 \<le> ca_fd ca \<and> \<not> ca_fcntl ca then {#ca_fd ca#} else {#})"

definition lost_by_attempts :: "attempt list \<Rightarrow> int multiset" where
  "lost_by_attempts as = sum_list (map (\<lambda>a. lost_fds (at_conn a)) as)"

fun lost_by_events :: "epoll_answer list \<Rightarrow> int multiset" where
  "lost_by_events [] = {#}"
| "lost_by_events (EpollError # as) = lost_by_events as"
| "lost_by_events (Ready es # as) = sum_list (map (\<lambda>e. lost_fds (ee_conn e)) es) + lost_by_events as"

lemma connect2_open:
  "connect2 ca w fds = (s, fds') \<Longrightarrow> mset fds' = mset fds + (if 0 \<le> s then {#s#} else lost_fds ca)"
  by (auto simp: connect2_def lost_fds_def close_fd_def Let_def split: if_splits connect_answer.splits)

lemma connect1_open:
  "connect1 ca ip w fds = (s, fds') \<Longrightarrow>
   \<exists>l. mset fds' = mset fds + (if 0 \<le> s then {#s#} else {#}) + l \<and> l \<subseteq># lost_fds ca"
  by (auto simp: connect1_def dest: connect2_open split: if_splits)

lemma probe_event_open: "\<exists>l. mset (so_open (probe_event w e o1)) = mset (so_open o1) + l \<and> l \<subseteq># lost_fds (ee_conn e)"
  by (auto simp: probe_event_def close_fd_def Let_def dest: connect2_open split: option.split prod.split)

lemma event_loop_open:
  "event_loop w es n o1 = (f, n', o2) \<Longrightarrow>
   \<exists>l. mset (so_open o2) = mset (so_open o1) + l \<and> l \<subseteq># sum_list (map (\<lambda>e. lost_fds (ee_conn e)) es)"
proof (induction es arbitrary: n o1)
  case (Cons e es)
  let ?o = "probe_event w e o1"
  obtain l1 where 1: "mset (so_open ?o) = mset (so_open o1) + l1" "l1 \<subseteq># lost_fds (ee_conn e)" using probe_event_open by blast
  obtain l2 where "mset (so_open o2) = mset (so_open ?o) + l2" "l2 \<subseteq># sum_list (map (\<lambda>e. lost_fds (ee_conn e)) es)"
    using Cons.prems Cons.IH [of "n - 1" ?o] by (auto simp: Let_def split: if_splits)
  then show ?case using 1 by (intro exI [of _ "l1 + l2"]) (simp add: subset_mset.add_mono)
qed simp

lemma lost_take: "sum_list (map (\<lambda>e. lost_fds (ee_conn e)) (take k es)) \<subseteq># sum_list (map (\<lambda>e. lost_fds (ee_conn e)) es)"
proof -
  have "sum_list (map (\<lambda>e. lost_fds (ee_conn e)) (take k es @ drop k es)) =
      sum_list (map (\<lambda>e. lost_fds (ee_conn e)) (take k es)) + sum_list (map (\<lambda>e. lost_fds (ee_conn e)) (drop k es))"
    by (simp only: map_append sum_list.append)
  then show ?thesis by simp
qed

lemma process_events_open:
  "process_events w as n o1 = (r, n', o2, as') \<Longrightarrow>
   \<exists>l. mset (so_open o2) = mset (so_open o1) + l \<and> l + lost_by_events as' \<subseteq># lost_by_events as"
proof (induction as arbitrary: n o1)
  case (Cons a as)
  show ?case
  proof (cases "0 < n \<and> (\<exists>es. a = Ready es \<and> take 256 es \<noteq> [])")
    case False
    then show ?thesis using Cons.prems by (auto split: if_splits epoll_answer.splits list.splits)
  next
    case True
    then obtain es where a: "a = Ready es" and ne: "take 256 es \<noteq> []" and n: "0 < n" by blast
    let ?l = "sum_list (map (\<lambda>e. lost_fds (ee_conn e)) es)"
    obtain f m o3 where ev: "event_loop w (take 256 es) n o1 = (f, m, o3)" by (cases "event_loop w (take 256 es) n o1") auto
    obtain l1 where l1: "mset (so_open o3) = mset (so_open o1) + l1" "l1 \<subseteq># ?l"
      using event_loop_open [OF ev] lost_take [of 256 es] by (blast intro: subset_mset.order_trans)
    have run: "(if f then (- 1, m, o3, as) else process_events w as m o3) = (r, n', o2, as')"
      using Cons.prems a ne n ev by (cases "take 256 es") (auto simp: Let_def)
    show ?thesis
    proof (cases f)
      case True
      then show ?thesis using run l1 a by (intro exI [of _ l1]) simp
    next
      case False
      then obtain l2 where "mset (so_open o2) = mset (so_open o3) + l2" "l2 + lost_by_events as' \<subseteq># lost_by_events as"
        using Cons.IH run by fastforce
      then show ?thesis using l1 a by (intro exI [of _ "l1 + l2"]) (simp add: add.assoc subset_mset.add_mono)
    qed
  qed
qed simp

lemma close_pending_open:
  "length (ts_pending t) = n \<Longrightarrow> mset (so_open (ts_io (close_pending n t))) = mset (so_open (ts_io t)) - mset (ts_pending t)"
proof (induction n t rule: close_pending.induct)
  case (2 n t)
  have "ts_pending t = take n (ts_pending t) @ [ts_pending t ! n]" using 2(2) by (metis lessI take_Suc_conv_app_nth take_all_iff order_refl)
  then have "mset (ts_pending t) = add_mset (ts_pending t ! n) (mset (take n (ts_pending t)))"
    by (metis mset.simps(2) mset_append union_mset_add_mset_right mset.simps(1) add.right_neutral)
  then show ?case using 2 by (simp add: close_fd_def)
qed simp

text \<open>
  What holds of the open sockets throughout: they are the pending ones and some that were lost, where
  \<open>lost\<close> counts also those that the answers still to come may lose.
\<close>

definition open_inv :: "int multiset \<Rightarrow> attempt list \<Rightarrow> tcp_state \<Rightarrow> bool" where
  "open_inv lost as t \<longleftrightarrow>
     (\<exists>l. mset (so_open (ts_io t)) = mset (ts_pending t) + l \<and> l + lost_by_attempts as + lost_by_events (ts_epoll t) \<subseteq># lost)"

lemma drain_open:
  assumes "open_inv lost as t"
  shows "open_inv lost as (drain w t)"
proof -
  obtain r n o2 as' where p: "process_events w (ts_epoll t) (ts_ecount t) (ts_io t) = (r, n, o2, as')"
    by (cases "process_events w (ts_epoll t) (ts_ecount t) (ts_io t)") auto
  obtain l1 where l1: "mset (so_open o2) = mset (so_open (ts_io t)) + l1" "l1 + lost_by_events as' \<subseteq># lost_by_events (ts_epoll t)"
    using process_events_open [OF p] by blast
  obtain l where l: "mset (so_open (ts_io t)) = mset (ts_pending t) + l" "l + lost_by_attempts as + lost_by_events (ts_epoll t) \<subseteq># lost"
    using assms by (auto simp: open_inv_def)
  have "l + lost_by_attempts as + (l1 + lost_by_events as') \<subseteq># lost"
    using l(2) l1(2) by (metis subset_mset.add_left_mono subset_mset.order_trans)
  then show ?thesis unfolding open_inv_def
    using l(1) l1(1) by (intro exI [of _ "l + l1"]) (simp add: drain_def p close_pending_open close_pending_all ac_simps)
qed

lemma tcp_step_open:
  assumes "tcp_step ip w a t = Inr (stop, t')" and "open_inv lost (a # as) t"
  shows "open_inv lost as t'"
proof -
  obtain s fds where c: "connect1 (at_conn a) ip (- 2) (so_open (ts_io t)) = (s, fds)" by fastforce
  obtain k where k: "mset fds = mset (so_open (ts_io t)) + (if 0 \<le> s then {#s#} else {#}) + k" "k \<subseteq># lost_fds (at_conn a)"
    using connect1_open [OF c] by blast
  obtain l where l: "mset (so_open (ts_io t)) = mset (ts_pending t) + l" "l + lost_by_attempts (a # as) + lost_by_events (ts_epoll t) \<subseteq># lost"
    using assms(2) by (auto simp: open_inv_def)
  have "l + k + lost_by_attempts as + lost_by_events (ts_epoll t) \<subseteq># l + lost_by_attempts (a # as) + lost_by_events (ts_epoll t)"
    using k(2) by (simp add: lost_by_attempts_def ac_simps)
  then have sub: "l + k + lost_by_attempts as + lost_by_events (ts_epoll t) \<subseteq># lost" using l(2) by (rule subset_mset.order_trans)
  have inv: "open_inv lost as u"
    if "ts_io u = (ts_io t)\<lparr>so_open := fds\<rparr>" "ts_pending u = ts_pending t @ (if 0 \<le> s then [s] else [])" "ts_epoll u = ts_epoll t" for u
    unfolding open_inv_def using k(1) l(1) sub that by (intro exI [of _ "l + k"]) simp
  then have drained: "open_inv lost as (drain w u)"
    if "ts_io u = (ts_io t)\<lparr>so_open := fds\<rparr>" "ts_pending u = ts_pending t @ (if 0 \<le> s then [s] else [])" "ts_epoll u = ts_epoll t" for u
    using that by (blast intro: drain_open)
  have port: "open_inv lost as (u\<lparr>ts_port := q\<rparr>) = open_inv lost as u" for u q by (simp add: open_inv_def)
  show ?thesis
    using assms(1) c by (auto simp: tcp_step_def Let_def port drained inv split: if_splits)
qed

lemma tcp_loop_open: "tcp_loop ip w e as t = Inr t' \<Longrightarrow> open_inv lost as t \<Longrightarrow> open_inv lost [] t'"
proof (induction as arbitrary: t)
  case Nil
  then show ?case by (simp split: if_splits)
next
  case (Cons a as)
  have more: "open_inv lost [] u" if "open_inv lost bs u" for bs u
  proof -
    have "l + lost_by_attempts [] + x \<subseteq># l + lost_by_attempts bs + x" for l x
      by (simp add: lost_by_attempts_def)
    then show ?thesis using that unfolding open_inv_def by (meson subset_mset.order_trans)
  qed
  show ?case
  proof (cases "ts_port t \<le> e")
    case False
    then show ?thesis using Cons.prems more by auto
  next
    case True
    then obtain stop u where u: "tcp_step ip w a t = Inr (stop, u)" "(if stop then Inr u else tcp_loop ip w e as u) = Inr t'"
      using Cons.prems(1) by (auto simp: and_then_eq_Inr)
    then show ?thesis using Cons.IH tcp_step_open [OF u(1) Cons.prems(2)] more by (auto split: if_splits)
  qed
qed

lemma tcp_options_safe: "tcp_options os w \<noteq> Inl BufferOverflow"
  by (induction os w rule: tcp_options.induct) (auto simp: and_then_eq_Inl atoi_def Let_def)

lemma tcp_scan_safe: "tcp_scan w ip a b attempts epolls \<noteq> Inl BufferOverflow"
proof -
  have "tcp_loop ip w e attempts \<lparr>ts_port = s, ts_pending = [], ts_ecount = 0, ts_io = io, ts_epoll = epolls, ts_ret = 0\<rparr> \<noteq> Inl BufferOverflow"
    for e s io by (rule tcp_loop_safe) (simp add: tcp_inv_def)
  moreover have "atoi s \<noteq> Inl BufferOverflow" for s by (simp add: atoi_def Let_def)
  ultimately show ?thesis by (auto simp: tcp_scan_def and_then_eq_Inl split: if_splits)
qed

lemma tcp_scan_drained:
  assumes "tcp_scan w ip a b attempts epolls = Inr (ret, Some t)"
  shows "ts_pending t = [] \<and> ts_ecount t = 0 \<and> mset (so_open (ts_io t)) \<subseteq># lost_by_attempts attempts + lost_by_events epolls"
proof -
  let ?lost = "lost_by_attempts attempts + lost_by_events epolls"
  obtain start_port end_port u where u: "tcp_loop ip w end_port attempts
      \<lparr>ts_port = start_port, ts_pending = [], ts_ecount = 0, ts_io = \<lparr>so_out = [], so_open = []\<rparr>, ts_epoll = epolls, ts_ret = 0\<rparr> = Inr u"
    and t: "t = drain w u"
    using assms by (auto simp: tcp_scan_def and_then_eq_Inr split: if_splits)
  have "open_inv ?lost [] t" unfolding t by (intro drain_open tcp_loop_open [OF u]) (simp add: open_inv_def)
  then show ?thesis unfolding open_inv_def t
    by (auto simp: lost_by_attempts_def intro: subset_mset.order_trans [OF mset_subset_eq_add_left])
qed

lemma applet_tcp_safe: "applet_tcp options args attempts epolls \<noteq> Inl BufferOverflow"
  using tcp_options_safe [of options 10] tcp_scan_safe
  by (auto simp: applet_tcp_def and_then_eq_Inl split: sum.splits)

lemma applet_tcp_drained:
  "applet_tcp options args attempts epolls = Inr (ret, Some t) \<Longrightarrow>
   ts_pending t = [] \<and> ts_ecount t = 0 \<and> mset (so_open (ts_io t)) \<subseteq># lost_by_attempts attempts + lost_by_events epolls"
proof -
  assume run: "applet_tcp options args attempts epolls = Inr (ret, Some t)"
  then obtain x where x: "tcp_options options 10 = Inr x" by (auto simp: applet_tcp_def and_then_eq_Inr)
  with run show ?thesis by (cases x) (auto simp: applet_tcp_def dest: tcp_scan_drained split: if_splits)
qed

section \<open>Properties\<close>

text \<open>
  C24: whatever the kernel answers, the scan never writes past the 256 entries of \<open>pending_sd\<close>, and
  when it returns no socket is pending, no event is counted any more, and of all the sockets it made none
  is open but those on which \<open>fcntl\<close> failed: these \<open>connect2\<close> does not close. When \<open>fcntl\<close> never
  fails every socket has been closed.
\<close>

theorem applet_tcp_pending_safe:
  "applet_tcp options args attempts epolls \<noteq> Inl BufferOverflow \<and>
   (case applet_tcp options args attempts epolls of
      Inr (ret, Some t) \<Rightarrow>
        ts_pending t = [] \<and> ts_ecount t = 0 \<and> mset (so_open (ts_io t)) \<subseteq># lost_by_attempts attempts + lost_by_events epolls
    | _ \<Rightarrow> True)"
  using applet_tcp_safe [of options args attempts epolls] applet_tcp_drained [of options args attempts epolls]
  by (auto split: sum.split prod.split option.split)

text \<open>
  C25: the scan returns: with as many successful calls of \<open>socket\<close> among the answers as there are
  ports in the range (below the largest \<open>int\<close>), however they are mixed with failures, it ends, and
  unless \<open>epoll_ctl\<close> failed (result 1) it has passed every port of the range.
\<close>

theorem tcp_scan_returns:
  assumes "end_port < 2 ^ 31 - 1" and "end_port - start_port < int (length (filter (\<lambda>a. attempt_fd ip a \<noteq> - 2) attempts))"
  shows "\<exists>t. tcp_loop ip w end_port attempts
            \<lparr>ts_port = start_port, ts_pending = [], ts_ecount = 0, ts_io = io, ts_epoll = epolls, ts_ret = 0\<rparr> = Inr t \<and>
          (ts_ret t = 0 \<longrightarrow> end_port < ts_port t)"
  using tcp_loop_returns [of "\<lparr>ts_port = start_port, ts_pending = [], ts_ecount = 0, ts_io = io, ts_epoll = epolls, ts_ret = 0\<rparr>" end_port ip attempts w] assms
  by (auto simp: tcp_inv_def)

definition closed_attempt :: attempt where
  "closed_attempt = \<lparr>at_conn = \<lparr>ca_fd = 4, ca_fcntl = True, ca_connect = ConnFailed, ca_select = SelTimeout, ca_getsockopt = True, ca_valopt = 0\<rparr>, at_add = True\<rparr>"

theorem tcp_scan_returns_witness:
  "\<exists>t. tcp_loop ''127.0.0.1'' 10 81 [closed_attempt, closed_attempt]
            \<lparr>ts_port = 80, ts_pending = [], ts_ecount = 0, ts_io = \<lparr>so_out = [], so_open = []\<rparr>, ts_epoll = [], ts_ret = 0\<rparr> = Inr t \<and>
          (ts_ret t = 0 \<longrightarrow> 81 < ts_port t)"
  by (rule tcp_scan_returns) (simp_all add: attempt_fd_def closed_attempt_def connect1_def connect2_def)

text \<open>
  C37: if \<open>socket\<close> keeps failing, the scan of a valid address never ends: it retries the same port for
  as long as answers last.
\<close>

theorem tcp_scan_spins:
  assumes "pton_loop 4 ip \<noteq> None" and "list_all (\<lambda>a. ca_fd (at_conn a) < 0) attempts"
    and "atoi a = Inr start_port" "atoi b = Inr end_port" "start_port \<le> end_port"
  shows "applet_tcp [] [ip, a, b] attempts epolls = Inl OutOfFuel"
proof -
  have "list_all (\<lambda>x. attempt_fd ip x = - 2) attempts"
    using assms(1,2) by (auto simp: list_all_iff attempt_fd_def connect1_def connect2_def)
  then show ?thesis using assms(3-5) by (simp add: applet_tcp_def tcp_scan_def tcp_loop_stuck)
qed

theorem tcp_scan_spins_witness:
  "applet_tcp [] [''127.0.0.1'', dec_of_nat 80, dec_of_nat 81] (replicate 1000 (closed_attempt\<lparr>at_conn := (at_conn closed_attempt)\<lparr>ca_fd := - 1\<rparr>\<rparr>)) [] = Inl OutOfFuel"
proof (rule tcp_scan_spins)
  show "pton_loop 4 ''127.0.0.1'' \<noteq> None"
    by (simp add: numeral_eq_Suc Let_def is_digit_def digits_val_def digit_val_def)
  show "atoi (dec_of_nat 80) = Inr (int 80)" "atoi (dec_of_nat 81) = Inr (int 81)" by (rule atoi_dec_of_nat, simp)+
qed (simp_all add: list_all_iff)

text \<open>
  Every port that \<open>process_events\<close> prints was confirmed: the kernel reported its socket as
  writable without error, named it as the peer, and a second connection to it succeeded.
\<close>

theorem process_events_sound:
  "case process_events w answers ecount o1 of
     (r, ecount', o2, answers') \<Rightarrow>
       \<exists>ps. so_out o2 = so_out o1 @ port_lines ps \<and> list_all (\<lambda>p. \<exists>e. e \<in> events_of answers \<and> confirms w e p) ps"
  using process_events_out [of w answers ecount o1]
  by (cases "process_events w answers ecount o1") (auto simp: list_all_iff Bex_def)

text \<open>
  \<open>connect2\<close> answers a descriptor only for a socket that is connected, or still connecting when no
  wait was asked for, and closes the socket in every other case but one: when \<open>fcntl\<close> fails the
  socket stays open and is lost.
\<close>

lemma connect2_descriptors:
  "ca_fd ca \<notin> set fds \<Longrightarrow> connect2 ca w fds =
     (if ca_fd ca < 0 then (- 2, fds)
      else if \<not> ca_fcntl ca then (- 1, fds @ [ca_fd ca])
      else if ca_connect ca = Connected \<or> (ca_connect ca = InProgress \<and>
                (w = - 2 \<or> (ca_select ca = SelReady \<and> ca_getsockopt ca \<and> ca_valopt ca = 0)))
      then (ca_fd ca, fds @ [ca_fd ca]) else (- 1, fds))"
  by (auto simp: connect2_def wait_conn_def close_fd_def remove1_append Let_def split: connect_answer.splits select_answer.splits)

end
