(* ===== verification/Diffs.thy ===== *)
theory Diffs
  imports Keyed_Diff Text_Utils
begin

text \<open>
  \<open>applet_diffs\<close> of \<^verbatim>\<open>src/src/atrk.c\<close>: lines of stdin up to a marker line form the first part,
  the lines after it the second; the lines of the first part that are not in the second are
  printed. The vectors hold pointers to strings and are the lists of those strings.
\<close>

section \<open>The code\<close>

fun string_index_loop :: "int \<Rightarrow> string list \<Rightarrow> string \<Rightarrow> int" where
  "string_index_loop n [] name = - 1"
| "string_index_loop n (item1 # rest) name = (if name = item1 then n else string_index_loop (n + 1) rest name)"

definition vector_string_index :: "string list \<Rightarrow> string \<Rightarrow> int" where
  "vector_string_index v name = string_index_loop 0 v name"

fun vector_string_cmp :: "string list \<Rightarrow> string list \<Rightarrow> string list \<Rightarrow> string list" where
  "vector_string_cmp [] vector2 in1_notin2 = in1_notin2"
| "vector_string_cmp (item1 # vector1) vector2 in1_notin2 =
     (if vector_string_index vector2 item1 = - 1
      then vector_string_cmp vector1 vector2 (in1_notin2 @ [item1])
      else vector_string_cmp vector1 vector2 in1_notin2)"

definition part_marker :: string where
  "part_marker = ''21552e15-c081-4e48-9b0d-747de203c68a''"

text \<open>The loop that cuts carriage returns and newlines off the end of \<open>line\<close>.\<close>

fun chomp :: "string \<Rightarrow> string" where
  "chomp line =
     (if line \<noteq> [] \<and> (last line = CHR 0x0D \<or> last line = CHR 0x0A) then chomp (butlast line) else line)"

declare chomp.simps [simp del]

fun diffs_loop :: "bool \<Rightarrow> string list \<Rightarrow> string list \<Rightarrow> string list \<Rightarrow> string list \<times> string list" where
  "diffs_loop npart sptr1 sptr2 [] = (sptr1, sptr2)"
| "diffs_loop npart sptr1 sptr2 (buffer # buffers) =
     (let line = chomp buffer
      in if line = [] then diffs_loop npart sptr1 sptr2 buffers
         else if length line = 36 \<and> line = part_marker then diffs_loop True sptr1 sptr2 buffers
         else if \<not> npart then diffs_loop npart (sptr1 @ [line]) sptr2 buffers
         else diffs_loop npart sptr1 (sptr2 @ [line]) buffers)"

definition applet_diffs :: "string \<Rightarrow> int \<times> string" where
  "applet_diffs stdin =
     (let (sptr1, sptr2) = diffs_loop False [] [] (fgets_all 1024 stdin);
          dptr = vector_string_cmp sptr1 sptr2 []
      in (0, concat (map (\<lambda>s. s @ [CHR 0x0A]) dptr)))"

section \<open>Facts\<close>

lemma string_index_loop_absent: "0 \<le> n \<Longrightarrow> string_index_loop n v name = - 1 \<longleftrightarrow> name \<notin> set v"
  by (induction v arbitrary: n) auto

interpretation strings: keyed_vector "\<lambda>s. s" vector_string_index vector_string_cmp
  by unfold_locales (auto simp: vector_string_index_def string_index_loop_absent)

lemma chomp_plain: "line = [] \<or> (last line \<noteq> CHR 0x0D \<and> last line \<noteq> CHR 0x0A) \<Longrightarrow> chomp line = line"
  by (subst chomp.simps) auto

lemma chomp_newline: "line = [] \<or> (last line \<noteq> CHR 0x0D \<and> last line \<noteq> CHR 0x0A) \<Longrightarrow> chomp (line @ [CHR 0x0A]) = line"
  by (subst chomp.simps) (simp add: chomp_plain)

text \<open>A line that the program sees whole.\<close>

definition plain_line :: "string \<Rightarrow> bool" where
  "plain_line l \<longleftrightarrow> l \<noteq> [] \<and> length l < 1023 \<and> set l \<inter> {CHR 0x00, CHR 0x0A, CHR 0x0D} = {} \<and> l \<noteq> part_marker"

definition print_lines :: "string list \<Rightarrow> string" where
  "print_lines ls = concat (map (\<lambda>s. s @ [CHR 0x0A]) ls)"

lemma plain_line_chomp: "plain_line l \<Longrightarrow> chomp (l @ [CHR 0x0A]) = l"
  by (intro chomp_newline) (auto simp: plain_line_def dest: last_in_set)

lemma fgets_lines:
  "list_all plain_line ls \<Longrightarrow> fgets_all 1024 (print_lines ls @ r) = map (\<lambda>l. l @ [CHR 0x0A]) ls @ fgets_all 1024 r"
proof (induction ls)
  case Nil
  then show ?case by (simp add: print_lines_def)
next
  case (Cons l ls)
  then show ?case using fgets_all_line [of l 1024 "print_lines ls @ r"]
    by (auto simp: print_lines_def plain_line_def)
qed

lemma diffs_loop_first:
  "list_all plain_line xs \<Longrightarrow>
   diffs_loop False s1 s2 (map (\<lambda>l. l @ [CHR 0x0A]) xs @ r) = diffs_loop False (s1 @ xs) s2 r"
  by (induction xs arbitrary: s1) (auto simp: plain_line_chomp, auto simp: plain_line_def)

lemma diffs_loop_second:
  "list_all plain_line ys \<Longrightarrow>
   diffs_loop True s1 s2 (map (\<lambda>l. l @ [CHR 0x0A]) ys) = (s1, s2 @ ys)"
  by (induction ys arbitrary: s2) (auto simp: plain_line_chomp, auto simp: plain_line_def)

lemma marker_line: "fgets_all 1024 (part_marker @ CHR 0x0A # r) = (part_marker @ [CHR 0x0A]) # fgets_all 1024 r"
  by (rule fgets_all_line) (simp_all add: part_marker_def)

lemma diffs_loop_marker: "diffs_loop False s1 s2 ((part_marker @ [CHR 0x0A]) # r) = diffs_loop True s1 s2 r"
proof -
  have "chomp (part_marker @ [CHR 0x0A]) = part_marker" by (rule chomp_newline) (simp add: part_marker_def)
  then show ?thesis by (simp add: Let_def) (simp add: part_marker_def)
qed

section \<open>Properties\<close>

text \<open>
  C29: given the lines of two listings with the marker line between them, \<open>applet_diffs\<close> prints
  exactly the lines of the first that are not in the second, in order and with repetitions,
  provided that no line is empty, as long as the buffer, or equal to the marker.
\<close>

theorem applet_diffs_correct:
  assumes "list_all plain_line xs" and "list_all plain_line ys"
  shows "applet_diffs (print_lines xs @ part_marker @ [CHR 0x0A] @ print_lines ys) =
           (0, print_lines (filter (\<lambda>l. l \<notin> set ys) xs))"
proof -
  have "fgets_all 1024 (print_lines xs @ part_marker @ [CHR 0x0A] @ print_lines ys) =
      map (\<lambda>l. l @ [CHR 0x0A]) xs @ (part_marker @ [CHR 0x0A]) # map (\<lambda>l. l @ [CHR 0x0A]) ys"
    using fgets_lines [OF assms(1)] fgets_lines [OF assms(2), of "[]"] marker_line by simp
  then have "diffs_loop False [] [] (fgets_all 1024 (print_lines xs @ part_marker @ [CHR 0x0A] @ print_lines ys)) = (xs, ys)"
    using assms by (simp add: diffs_loop_first diffs_loop_marker diffs_loop_second del: diffs_loop.simps)
  then show ?thesis by (simp add: applet_diffs_def strings.cmp_filter print_lines_def)
qed

theorem applet_diffs_correct_witness:
  "applet_diffs (print_lines [''1'', ''666'', ''2''] @ part_marker @ [CHR 0x0A] @ print_lines [''2'', ''1'']) =
     (0, print_lines (filter (\<lambda>l. l \<notin> set [''2'', ''1'']) [''1'', ''666'', ''2'']))"
  by (rule applet_diffs_correct) (simp_all add: plain_line_def part_marker_def)

end
