(* ===== verification/Atrk_Main.thy ===== *)
theory Atrk_Main
  imports Fhf_Main Scan_Applets Proc_Net Tcp_Scan Diffs
begin

text \<open>
  \<open>main\<close> of \<^verbatim>\<open>src/src/atrk.c\<close>: the first argument selects an applet, which gets the arguments
  after its name. The build defines \<open>FHF_MAIN\<close> (\<^verbatim>\<open>src/src/def.txt\<close>), so the applet fhf is there.
  What the applets ask of the system is collected in one record.
\<close>

record world =
  w_be :: bool
  w_os :: os
  w_dirs :: proc_dirs
  w_alive :: "int \<Rightarrow> bool"
  w_sock :: "nat \<Rightarrow> bool"
  w_bind :: "nat \<Rightarrow> bool"
  w_stdin :: string
  w_attempts :: "attempt list"
  w_epolls :: "epoll_answer list"
  w_getopt :: "string list \<Rightarrow> (char \<times> string) list \<times> string list"  \<comment> \<open>options and the rest of argv\<close>
  w_fhf :: fhf_env

text \<open>The result: the exit status, the text on stdout and the directories afterwards.\<close>

type_synonym outcome = "(int \<times> string \<times> proc_dirs) res"

definition applet_fhf :: "world \<Rightarrow> string list \<Rightarrow> (int \<times> string) res" where
  "applet_fhf w args = and_then (fhf_main (w_fhf w) (fst (w_getopt w args))) (\<lambda>(ret, io). Inr (ret, io_out io))"

definition plain :: "world \<Rightarrow> (int \<times> string) res \<Rightarrow> outcome" where
  "plain w r = and_then r (\<lambda>(ret, out). Inr (ret, out, w_dirs w))"

definition main :: "world \<Rightarrow> string list \<Rightarrow> outcome" where
  "main w argv =
     (if length argv < 2 then Inr (1, [], w_dirs w)
      else (let applet = argv ! 1; args = drop 2 argv
            in if applet = ''echo'' then plain w (Inr (applet_echo args))
               else if applet = ''tcp''
               then (let (options, rest) = w_getopt w args
                     in plain w (and_then (applet_tcp options rest (w_attempts w) (w_epolls w)) (\<lambda>(ret, t).
                          Inr (ret, case t of None \<Rightarrow> [] | Some t \<Rightarrow> so_out (ts_io t)))))
               else if applet = ''file'' then applet_file args (w_dirs w)
               else if applet = ''access'' then plain w (applet_access (w_os w) args)
               else if applet = ''kill'' then plain w (applet_kill (w_alive w) args)
               else if applet = ''listen'' then plain w (getlistening (w_be w) (w_os w))
               else if applet = ''diffs'' then plain w (Inr (applet_diffs (w_stdin w)))
               else if applet = ''fhudp1'' then plain w (applet_hiddenudp1 (w_be w) (w_os w) (w_sock w) (w_bind w))
               else if applet = ''fhf'' then plain w (applet_fhf w args)
               else Inr (1, [], w_dirs w)))"

section \<open>Properties\<close>

text \<open>
  C31: \<open>main\<close> with the applet file prints exactly the numbers of the range whose names exist in the
  directory for the kernel, whatever a listing of it shows, for ranges that end below the largest \<open>int\<close>. It returns to the
  working directory, if that can be entered and its path has less than 512 characters, leaves
  every other directory as it was, and in the directory it probes exactly those files stay behind that it
  created and \<open>unlink\<close>, whose result is not looked at, failed to remove; where every name that can be created can
  be removed, the directory is as before.
\<close>

theorem main_file_probe:
  assumes "atoi a = Inr start" "atoi b = Inr ende" "ende < INT_MAX"
    and "pd_dir (w_dirs w) target = Some d" "length (pd_cwd (w_dirs w)) < 512" "pd_dir (w_dirs w) (pd_cwd (w_dirs w)) \<noteq> None"
  shows "main w [prog, ''file'', target, a, b] =
     Inr (0, concat (map print_num (filter (\<lambda>n. ds_exists d (dec_of_int n)) [start..ende])),
       (w_dirs w)\<lparr>pd_dir := (pd_dir (w_dirs w))(target \<mapsto> probed start ende d)\<rparr>) \<and>
   ((\<forall>name. ds_creatable d name \<longrightarrow> ds_removable d name) \<longrightarrow>
     (w_dirs w)\<lparr>pd_dir := (pd_dir (w_dirs w))(target \<mapsto> probed start ende d)\<rparr> = w_dirs w)"
  using applet_file_correct [OF assms] assms(4) by (simp add: main_def probed_removable fun_upd_idem)

text \<open>
  A directory with the file 2 in which 1 and 3 can be created, and only 1 be removed again: 2 is
  printed and 3 stays.
\<close>

definition odd_dir :: dir_state where
  "odd_dir = \<lparr>ds_exists = (\<lambda>n. n = dec_of_int 2), ds_creatable = (\<lambda>n. True), ds_removable = (\<lambda>n. n = dec_of_int 1)\<rparr>"

definition odd_world :: world where
  "odd_world = \<lparr>w_be = False, w_os = quiet_os, w_dirs = \<lparr>pd_cwd = ''/'', pd_dir = (\<lambda>_. Some odd_dir)\<rparr>, w_alive = (\<lambda>_. False),
     w_sock = (\<lambda>_. True), w_bind = (\<lambda>_. True), w_stdin = [], w_attempts = [], w_epolls = [], w_getopt = (\<lambda>a. ([], a)), w_fhf = rk_env\<rparr>"

theorem main_file_probe_witness:
  "\<exists>dirs d'. main odd_world [''atrk'', ''file'', ''/tmp'', dec_of_int 1, dec_of_int 3] = Inr (0, print_num 2, dirs) \<and>
     pd_dir dirs ''/tmp'' = Some d' \<and> ds_exists d' (dec_of_int 3) \<and> \<not> ds_exists d' (dec_of_int 1)"
proof -
  have at: "atoi (dec_of_int 1) = Inr 1" "atoi (dec_of_int 3) = Inr 3" by (simp_all add: atoi_dec_of_int)
  have ne: "dec_of_int 1 \<noteq> dec_of_int 2" "dec_of_int 3 \<noteq> dec_of_int 2" "dec_of_int 3 \<noteq> dec_of_int 1"
    using dec_of_int_inj [of 1 2] dec_of_int_inj [of 3 2] dec_of_int_inj [of 3 1] by auto
  have "[1..3 :: int] = [1, 2, 3]" by (simp add: upto_rec1)
  then show ?thesis
    using main_file_probe [OF at, of odd_world "''/tmp''" odd_dir "''atrk''"] ne
    by (simp add: odd_world_def INT_MAX_def) (simp add: odd_dir_def probed_def)
qed

end
