(* ===== verification/E2fs_Base.thy ===== *)
theory E2fs_Base
  imports Numbers
begin

text \<open>
  What the theories on \<^verbatim>\<open>src/e2fsprogs/lib/ext2fs\<close> share: the error codes (the build generates them from
  ext2_err.et) and little-endian loads from a byte buffer.
\<close>

text \<open>\<open>EXT2_ET_IO\<close> stands for the values of \<open>errno\<close> that input and output can give.\<close>

datatype ext2_err =
    EXT2_ET_BAD_INODE_NUM | EXT2_ET_INODE_NOT_EXTENT | EXT2_ET_EXTENT_HEADER_BAD | EXT2_ET_NO_CURRENT_NODE
  | EXT2_ET_EXTENT_NO_NEXT | EXT2_ET_EXTENT_NO_PREV | EXT2_ET_EXTENT_NO_UP | EXT2_ET_EXTENT_NO_DOWN
  | EXT2_ET_EXTENT_CYCLE | EXT2_ET_EXTENT_CSUM_INVALID | EXT2_ET_OP_NOT_SUPPORTED | EXT2_ET_RO_BLOCK_ITERATE
  | EXT2_ET_BAD_IND_BLOCK | EXT2_ET_BAD_DIND_BLOCK | EXT2_ET_BAD_TIND_BLOCK | EXT2_ET_INLINE_DATA_CANT_ITERATE
  | EXT2_ET_FILE_TOO_BIG | EXT2_ET_IO
  | EXT2_ET_SHORT_READ | EXT2_ET_SHORT_WRITE | EXT2_ET_UNIMPLEMENTED | EXT2_ET_INVALID_ARGUMENT | EXT2_ET_BAD_DEVICE_NAME
  | EXT2_ET_UNKNOWN_CSUM | EXT2_ET_SB_CSUM_INVALID | EXT2_ET_BAD_MAGIC | EXT2_ET_REV_TOO_HIGH | EXT2_ET_UNSUPP_FEATURE
  | EXT2_ET_RO_UNSUPP_FEATURE | EXT2_ET_CORRUPT_SUPERBLOCK | EXT2_ET_CANT_USE_LEGACY_BITMAPS | EXT2_ET_BAD_DESC_SIZE
  | EXT2_ET_UNEXPECTED_BLOCK_SIZE | EXT2_ET_EXTERNAL_JOURNAL_NOSUPP | EXT2_FILSYS_CORRUPTED | EXT2_ET_MISSING_INODE_TABLE
  | EXT2_ET_GDESC_BAD_INODE_TABLE | EXT2_ET_INODE_CSUM_INVALID | EXT2_ET_RO_FILSYS | EXT2_ET_NO_DIRECTORY
  | EXT2_ET_DB_NOT_FOUND | EXT2_ET_DIR_CORRUPTED | EXT2_ET_DIR_NO_SPACE_FOR_CSUM
  | EXT2_ET_EXTENT_NOT_FOUND | EXT2_ET_SET_BMAP_NO_IND | EXT2_ET_INLINE_DATA_NO_BLOCK | EOVERFLOW
  | EXT2_ET_EXTENT_INVALID_LENGTH | EXT2_ET_CANT_INSERT_EXTENT

text \<open>\<open>errcode_t\<close>; \<open>None\<close> is 0.\<close>

type_synonym errcode_t = "ext2_err option"

text \<open>Loads from a buffer that came from the disk.\<close>

definition le16_at :: "byte list \<Rightarrow> nat \<Rightarrow> u16" where
  "le16_at buf off = word_of_le (take 2 (drop off buf))"

definition le32_at :: "byte list \<Rightarrow> nat \<Rightarrow> u32" where
  "le32_at buf off = word_of_le (take 4 (drop off buf))"

lemma unat_u32: "unat (x :: u32) < 2 ^ 32"
  using unsigned_less [of x] by simp

lemma unat_ucast_u64 [simp]: "unat (ucast (x :: u32) :: u64) = unat x"
  using unat_u32 [of x] by (simp add: unsigned_ucast_eq take_bit_nat_eq_self)

lemma ucast_zero [simp]: "(ucast (b :: u32) :: u64) = 0 \<longleftrightarrow> b = 0"
  using unat_ucast_u64 [of b] by (metis unat_eq_0)

end
