(* ===== verification/Extent.thy ===== *)
theory Extent
  imports E2fs_Base
begin

text \<open>
  Walking the extent tree of an inode, from \<^verbatim>\<open>src/e2fsprogs/lib/ext2fs/extent.c\<close>: the handle, the
  verification of a node header, \<open>ext2fs_extent_open2\<close>, \<open>ext2fs_extent_get\<close> with all its
  operations, \<open>ext2fs_extent_get_info\<close>, the search for a logical block (\<open>ext2fs_extent_goto2\<close>) and
  \<open>ext2fs_count_blocks\<close>. A node is the bytes of its block (of \<open>i_block\<close> for the
  root); a pointer to an entry is the index of the entry, and every load of an entry is checked
  against the buffer. Numbers on disk are little endian, which the loads undo. The walk sees the
  file system through the record \<open>ext2_filsys\<close>, which \<open>Disk_Blocks\<close> fills from an open file system.
\<close>

section \<open>File system and inode\<close>

text \<open>\<open>i_block\<close> holds the 60 bytes as they are on disk.\<close>

record ext2_inode =
  i_mode_dir :: bool
  i_flags :: u32
  i_size :: u32
  i_size_high :: u32
  i_block :: "byte list"
  i_translator :: u32

record ext2_filsys =
  fs_blocksize :: nat
  fs_log_block_size :: nat
  fs_inodes_count :: u32
  fs_blocks_count :: u64
  fs_first_data_block :: u32
  fs_hurd :: bool                                 \<comment> \<open>\<open>s_creator_os == EXT2_OS_HURD\<close>\<close>
  fs_image_flag :: bool                           \<comment> \<open>\<open>EXT2_FLAG_IMAGE_FILE\<close>\<close>
  fs_image_io :: bool                             \<comment> \<open>\<open>io == image_io\<close>\<close>
  fs_ignore_csum :: bool                          \<comment> \<open>\<open>EXT2_FLAG_IGNORE_CSUM_ERRORS\<close>\<close>
  fs_csum_verify :: "u32 \<Rightarrow> byte list \<Rightarrow> bool"     \<comment> \<open>\<open>ext2fs_extent_block_csum_verify\<close>\<close>
  fs_read_inode :: "u32 \<Rightarrow> ext2_err + ext2_inode"  \<comment> \<open>\<open>ext2fs_read_inode\<close>\<close>
  fs_read_blk :: "u64 \<Rightarrow> byte list option"         \<comment> \<open>\<open>io_channel_read_blk64\<close> of one block\<close>
  fs_write_inode :: "u32 \<Rightarrow> errcode_t"               \<comment> \<open>the result of \<open>ext2fs_write_inode\<close>\<close>
  fs_write_blk :: "u64 \<Rightarrow> bool"                     \<comment> \<open>\<open>io_channel_write_blk\<close> of one block succeeds\<close>
  fs_rw :: bool                                   \<comment> \<open>\<open>EXT2_FLAG_RW\<close>\<close>
  fs_csum_set :: "u32 \<Rightarrow> byte list \<Rightarrow> (errcode_t \<times> byte list) res"  \<comment> \<open>\<open>ext2fs_extent_block_csum_set\<close>\<close>

text \<open>The test before a block is read: an image file whose blocks are elsewhere reads as zeros.\<close>

definition fs_image_file :: "ext2_filsys \<Rightarrow> bool" where
  "fs_image_file fs \<longleftrightarrow> fs_image_flag fs \<and> \<not> fs_image_io fs"

definition EXT4_EXTENTS_FL :: u32 where "EXT4_EXTENTS_FL = 0x00080000"
definition EXT4_INLINE_DATA_FL :: u32 where "EXT4_INLINE_DATA_FL = 0x10000000"

definition EXT2_I_SIZE :: "ext2_inode \<Rightarrow> u64" where
  "EXT2_I_SIZE i = ucast (i_size i) OR push_bit 32 (ucast (i_size_high i))"

section \<open>Nodes\<close>

text \<open>The fields of \<open>struct ext3_extent_header\<close>.\<close>

definition eh_magic :: "byte list \<Rightarrow> u16" where "eh_magic buf = le16_at buf 0"
definition eh_entries :: "byte list \<Rightarrow> nat" where "eh_entries buf = unat (le16_at buf 2)"
definition eh_max :: "byte list \<Rightarrow> nat" where "eh_max buf = unat (le16_at buf 4)"
definition eh_depth :: "byte list \<Rightarrow> nat" where "eh_depth buf = unat (le16_at buf 6)"

definition EXT3_EXT_MAGIC :: u16 where "EXT3_EXT_MAGIC = 0xf30a"

text \<open>Both kinds of entries have 12 bytes, so \<open>entry_size\<close> is 12 at every depth.\<close>

definition ext2fs_extent_header_verify :: "byte list \<Rightarrow> nat \<Rightarrow> errcode_t" where
  "ext2fs_extent_header_verify buf size1 =
     (if eh_magic buf \<noteq> EXT3_EXT_MAGIC then Some EXT2_ET_EXTENT_HEADER_BAD
      else if eh_entries buf > eh_max buf then Some EXT2_ET_EXTENT_HEADER_BAD
      else (let m = int ((size1 - 12) div 12)
            in if int (eh_max buf) > m \<or> int (eh_max buf) < m - 2 then Some EXT2_ET_EXTENT_HEADER_BAD else None))"

text \<open>The 12 bytes of entry \<open>k\<close>, and the fields of \<open>struct ext3_extent\<close> and \<open>struct ext3_extent_idx\<close>.\<close>

definition entry_at :: "byte list \<Rightarrow> int \<Rightarrow> byte list res" where
  "entry_at buf k = (if k < - 1 then Inl OutOfBounds else read_at buf (nat (12 + 12 * k)) 12)"

definition ee_block :: "byte list \<Rightarrow> u32" where "ee_block e = le32_at e 0"
definition ee_len :: "byte list \<Rightarrow> u16" where "ee_len e = le16_at e 4"
definition ee_pblk :: "byte list \<Rightarrow> u64" where "ee_pblk e = ucast (le32_at e 8) + push_bit 32 (ucast (le16_at e 6))"
definition ei_block :: "byte list \<Rightarrow> u32" where "ei_block e = le32_at e 0"
definition ei_leaf :: "byte list \<Rightarrow> u64" where "ei_leaf e = ucast (le32_at e 4) + push_bit 32 (ucast (le16_at e 8))"

section \<open>Handles\<close>

record extent_path =
  ep_buf :: "byte list"
  ep_entries :: nat
  ep_max_entries :: nat
  ep_left :: nat
  ep_visit_num :: nat
  ep_end_blk :: u64
  ep_blk :: u64
  ep_curr :: "int option"

record extent_handle =
  h_ino :: u32
  h_inode :: ext2_inode
  h_level :: nat
  h_max_depth :: nat
  h_path :: "extent_path list"

definition empty_path :: extent_path where
  "empty_path = \<lparr>ep_buf = [], ep_entries = 0, ep_max_entries = 0, ep_left = 0, ep_visit_num = 0, ep_end_blk = 0, ep_blk = 0, ep_curr = None\<rparr>"

text \<open>\<open>handle->path + handle->level\<close>, and its update.\<close>

definition cur_path :: "extent_handle \<Rightarrow> extent_path" where
  "cur_path h = h_path h ! h_level h"

definition set_path :: "(extent_path \<Rightarrow> extent_path) \<Rightarrow> extent_handle \<Rightarrow> extent_handle" where
  "set_path f h = h\<lparr>h_path := (h_path h)[h_level h := f (cur_path h)]\<rparr>"

text \<open>
  \<open>ext2fs_extent_open2\<close>; the inode is given or read. The header that an all-zero \<open>i_block\<close> gets:
  magic, no entries, room for four, depth 0.
\<close>

definition fresh_header :: "byte list" where
  "fresh_header = [0x0a, 0xf3, 0, 0, 4, 0, 0, 0]"

definition ext2fs_extent_open2 :: "ext2_filsys \<Rightarrow> u32 \<Rightarrow> ext2_inode option \<Rightarrow> ext2_err + extent_handle" where
  "ext2fs_extent_open2 fs ino inode_opt =
     (if inode_opt = None \<and> (ino = 0 \<or> ino > fs_inodes_count fs) then Inl EXT2_ET_BAD_INODE_NUM
      else case (case inode_opt of Some i \<Rightarrow> Inr i | None \<Rightarrow> fs_read_inode fs ino) of
        Inl e \<Rightarrow> Inl e
      | Inr inode0 \<Rightarrow>
          (let inode = (if (\<forall>b \<in> set (i_block inode0). b = 0)
                        then inode0\<lparr>i_block := fresh_header @ drop 8 (i_block inode0), i_flags := i_flags inode0 OR EXT4_EXTENTS_FL\<rparr>
                        else inode0);
               eh = i_block inode
           in if i_flags inode AND EXT4_EXTENTS_FL = 0 then Inl EXT2_ET_INODE_NOT_EXTENT
              else case ext2fs_extent_header_verify eh 60 of
                Some e \<Rightarrow> Inl e
              | None \<Rightarrow>
                  (let root = \<lparr>ep_buf = eh, ep_entries = eh_entries eh, ep_max_entries = eh_max eh, ep_left = eh_entries eh,
                               ep_visit_num = 1,
                               ep_end_blk = drop_bit (fs_log_block_size fs + 10) (EXT2_I_SIZE inode + of_nat (fs_blocksize fs) - 1),
                               ep_blk = 0, ep_curr = None\<rparr>
                   in Inr \<lparr>h_ino = ino, h_inode = inode, h_level = 0, h_max_depth = eh_depth eh,
                           h_path = root # replicate (eh_depth eh) empty_path\<rparr>)))"

definition ext2fs_extent_open :: "ext2_filsys \<Rightarrow> u32 \<Rightarrow> ext2_err + extent_handle" where
  "ext2fs_extent_open fs ino = ext2fs_extent_open2 fs ino None"

record extent_info =
  in_curr_entry :: int
  in_curr_level :: nat
  in_num_entries :: nat
  in_max_entries :: nat
  in_max_depth :: nat
  in_bytes_avail :: int
  in_max_lblk :: u64
  in_max_pblk :: u64
  in_max_len :: u32
  in_max_uninit_len :: u32

definition ext2fs_extent_get_info :: "extent_handle \<Rightarrow> errcode_t \<times> extent_info" where
  "ext2fs_extent_get_info h =
     (let path = cur_path h
      in (None, \<lparr>in_curr_entry = (case ep_curr path of Some k \<Rightarrow> k + 1 | None \<Rightarrow> 0), in_curr_level = h_level h,
                 in_num_entries = ep_entries path, in_max_entries = ep_max_entries path, in_max_depth = h_max_depth h,
                 in_bytes_avail = (int (ep_max_entries path) - int (ep_entries path)) * 12,
                 in_max_lblk = 2 ^ 32 - 1, in_max_pblk = 2 ^ 48 - 1, in_max_len = 2 ^ 15, in_max_uninit_len = 2 ^ 15 - 1\<rparr>))"

section \<open>Moving in the tree\<close>

datatype extent_op =
    EXT2_EXTENT_CURRENT | EXT2_EXTENT_ROOT | EXT2_EXTENT_LAST_LEAF | EXT2_EXTENT_FIRST_SIB | EXT2_EXTENT_LAST_SIB
  | EXT2_EXTENT_NEXT_SIB | EXT2_EXTENT_PREV_SIB | EXT2_EXTENT_NEXT_LEAF | EXT2_EXTENT_PREV_LEAF | EXT2_EXTENT_NEXT
  | EXT2_EXTENT_PREV | EXT2_EXTENT_UP | EXT2_EXTENT_DOWN | EXT2_EXTENT_DOWN_AND_LAST

record extent =
  e_pblk :: u64
  e_lblk :: u64
  e_len :: u32
  e_leaf :: bool              \<comment> \<open>\<open>EXT2_EXTENT_FLAGS_LEAF\<close>\<close>
  e_uninit :: bool            \<comment> \<open>\<open>EXT2_EXTENT_FLAGS_UNINIT\<close>\<close>
  e_second_visit :: bool      \<comment> \<open>\<open>EXT2_EXTENT_FLAGS_SECOND_VISIT\<close>\<close>

text \<open>
  The first part of \<open>ext2fs_extent_get\<close>: which single step the operation means here. The handle
  may change (\<open>visit_num\<close>); \<open>Inl\<close> is an early return.
\<close>

definition extent_choose :: "extent_handle \<Rightarrow> extent_op \<Rightarrow> (ext2_err + extent_op) \<times> extent_handle" where
  "extent_choose h orig_op =
     (let path = cur_path h; interior = h_level h < h_max_depth h;
          up = (if h_level h > 0 then Inr EXT2_EXTENT_UP else Inl EXT2_ET_EXTENT_NO_NEXT);
          up' = (if h_level h > 0 then Inr EXT2_EXTENT_UP else Inl EXT2_ET_EXTENT_NO_PREV)
      in if orig_op = EXT2_EXTENT_NEXT \<or> orig_op = EXT2_EXTENT_NEXT_LEAF
         then (if interior \<and> ep_visit_num path = 0
               then (Inr EXT2_EXTENT_DOWN, set_path (\<lambda>p. p\<lparr>ep_visit_num := ep_visit_num p + 1\<rparr>) h)
               else (if ep_left path > 0 then Inr EXT2_EXTENT_NEXT_SIB else up, h))
         else if orig_op = EXT2_EXTENT_PREV \<or> orig_op = EXT2_EXTENT_PREV_LEAF
         then (if interior \<and> ep_visit_num path > 0 then Inr EXT2_EXTENT_DOWN_AND_LAST
               else if int (ep_left path) < int (ep_entries path) - 1 then Inr EXT2_EXTENT_PREV_SIB else up', h)
         else if orig_op = EXT2_EXTENT_LAST_LEAF
         then (Inr (if interior \<and> ep_left path = 0 then EXT2_EXTENT_DOWN else EXT2_EXTENT_LAST_SIB), h)
         else (Inr orig_op, h))"

text \<open>The step to the next entry of the node, shared by the cases that fall through to it.\<close>

definition next_sib :: "extent_handle \<Rightarrow> errcode_t \<times> extent_handle \<times> int option" where
  "next_sib h =
     (let path = cur_path h
      in if ep_left path = 0 then (Some EXT2_ET_EXTENT_NO_NEXT, h, None)
         else (let ix = (case ep_curr path of Some k \<Rightarrow> k + 1 | None \<Rightarrow> 0)
               in (None, set_path (\<lambda>p. p\<lparr>ep_left := ep_left p - 1, ep_curr := Some ix, ep_visit_num := 0\<rparr>) h, Some ix)))"

text \<open>
  The step down: the block the current entry names is read into the next level. The flag in the
  result is \<open>failed_csum\<close>.
\<close>

definition extent_down :: "ext2_filsys \<Rightarrow> bool \<Rightarrow> extent_handle \<Rightarrow> (errcode_t \<times> bool \<times> extent_handle \<times> int option) res" where
  "extent_down fs to_last h =
     (let path = cur_path h; l = h_level h
      in case ep_curr path of
           None \<Rightarrow> Inr (Some EXT2_ET_EXTENT_NO_DOWN, False, h, None)
         | Some k \<Rightarrow>
             if l \<ge> h_max_depth h then Inr (Some EXT2_ET_EXTENT_NO_DOWN, False, h, None)
             else and_then (entry_at (ep_buf path) k) (\<lambda>ix.
               let blk = ei_leaf ix
               in if \<exists>i \<in> {1..l}. ep_blk (h_path h ! i) = blk then Inr (Some EXT2_ET_EXTENT_CYCLE, False, h, None)
                  else (let np0 = (h_path h ! Suc l)\<lparr>ep_blk := blk\<rparr>;
                            h0 = h\<lparr>h_path := (h_path h)[Suc l := np0]\<rparr>
                        in case (if fs_image_file fs then Some (replicate (fs_blocksize fs) 0) else fs_read_blk fs blk) of
                             None \<Rightarrow> Inr (Some EXT2_ET_IO, False, h0, None)
                           | Some buf \<Rightarrow>
                               (let h1 = h\<lparr>h_path := (h_path h)[Suc l := np0\<lparr>ep_buf := buf\<rparr>]\<rparr>
                                in case ext2fs_extent_header_verify buf (fs_blocksize fs) of
                                     Some e \<Rightarrow> Inr (Some e, False, h1, None)
                                   | None \<Rightarrow>
                                       (let failed_csum = (\<not> fs_ignore_csum fs \<and> \<not> fs_csum_verify fs (h_ino h) buf);
                                            n = eh_entries buf;
                                            np1 = np0\<lparr>ep_buf := buf, ep_entries := n, ep_left := n, ep_max_entries := eh_max buf\<rparr>
                                        in if n = 0
                                           then Inr (Some EXT2_ET_EXTENT_NO_DOWN, failed_csum,
                                                     h\<lparr>h_level := Suc l, h_path := (h_path h)[Suc l := np1]\<rparr>, None)
                                           else and_then (if ep_left path > 0
                                                          then and_then (entry_at (ep_buf path) (k + 1)) (\<lambda>e. Inr (ucast (ei_block e)))
                                                          else Inr (ep_end_blk path)) (\<lambda>end_blk.
                                             let np2 = np1\<lparr>ep_end_blk := end_blk\<rparr>;
                                                 np3 = (if \<not> to_last
                                                        then np2\<lparr>ep_curr := Some 0, ep_left := n - 1, ep_visit_num := 0\<rparr>
                                                        else np2\<lparr>ep_curr := Some (int n - 1), ep_left := 0,
                                                                 ep_visit_num := (if Suc l < h_max_depth h then 1 else ep_visit_num np2)\<rparr>)
                                             in Inr (None, failed_csum, h\<lparr>h_level := Suc l, h_path := (h_path h)[Suc l := np3]\<rparr>, ep_curr np3)))))))"

text \<open>The \<open>switch (op)\<close>; \<open>orig_op\<close> matters for the step up.\<close>

definition extent_move :: "ext2_filsys \<Rightarrow> extent_handle \<Rightarrow> extent_op \<Rightarrow> extent_op \<Rightarrow> (errcode_t \<times> bool \<times> extent_handle \<times> int option) res" where
  "extent_move fs h orig_op op =
     (let path = cur_path h;
          restart = (\<lambda>h. set_path (\<lambda>p. p\<lparr>ep_left := ep_entries p, ep_curr := None\<rparr>) h);
          with_ok = (\<lambda>(r, h', ix). Inr (r, False, h', ix))
      in case op of
           EXT2_EXTENT_CURRENT \<Rightarrow> Inr (None, False, h, ep_curr path)
         | EXT2_EXTENT_ROOT \<Rightarrow> with_ok (next_sib (restart (h\<lparr>h_level := 0\<rparr>)))
         | EXT2_EXTENT_FIRST_SIB \<Rightarrow> with_ok (next_sib (restart h))
         | EXT2_EXTENT_NEXT_SIB \<Rightarrow> with_ok (next_sib h)
         | EXT2_EXTENT_PREV_SIB \<Rightarrow>
             (case ep_curr path of
                None \<Rightarrow> Inr (Some EXT2_ET_EXTENT_NO_PREV, False, h, None)
              | Some k \<Rightarrow>
                  if ep_left path + 1 \<ge> ep_entries path then Inr (Some EXT2_ET_EXTENT_NO_PREV, False, h, None)
                  else Inr (None, False,
                         set_path (\<lambda>p. p\<lparr>ep_curr := Some (k - 1), ep_left := ep_left p + 1,
                                     ep_visit_num := (if h_level h < h_max_depth h then 1 else ep_visit_num p)\<rparr>) h, Some (k - 1)))
         | EXT2_EXTENT_LAST_SIB \<Rightarrow>
             (let k = int (eh_entries (ep_buf path)) - 1
              in Inr (None, False, set_path (\<lambda>p. p\<lparr>ep_curr := Some k, ep_left := 0, ep_visit_num := 0\<rparr>) h, Some k))
         | EXT2_EXTENT_UP \<Rightarrow>
             if h_level h = 0 then Inr (Some EXT2_ET_EXTENT_NO_UP, False, h, None)
             else (let h1 = h\<lparr>h_level := h_level h - 1\<rparr>; ix = ep_curr (cur_path h1)
                   in Inr (None, False,
                        if orig_op = EXT2_EXTENT_PREV \<or> orig_op = EXT2_EXTENT_PREV_LEAF
                        then set_path (\<lambda>p. p\<lparr>ep_visit_num := 0\<rparr>) h1 else h1, ix))
         | EXT2_EXTENT_DOWN \<Rightarrow> extent_down fs False h
         | EXT2_EXTENT_DOWN_AND_LAST \<Rightarrow> extent_down fs True h
         | _ \<Rightarrow> Inr (Some EXT2_ET_OP_NOT_SUPPORTED, False, h, None))"

text \<open>The last part: the entry is decoded into the caller's extent.\<close>

definition extent_decode :: "extent_handle \<Rightarrow> int \<Rightarrow> extent res" where
  "extent_decode h ix =
     (let path = cur_path h; second = (ep_visit_num path \<noteq> 0)
      in and_then (entry_at (ep_buf path) ix) (\<lambda>ex.
         if h_level h = h_max_depth h
         then (let len = ucast (ee_len ex) :: u32
               in Inr (if len > 0x8000
                       then \<lparr>e_pblk = ee_pblk ex, e_lblk = ucast (ee_block ex), e_len = len - 0x8000, e_leaf = True, e_uninit = True, e_second_visit = second\<rparr>
                       else \<lparr>e_pblk = ee_pblk ex, e_lblk = ucast (ee_block ex), e_len = len, e_leaf = True, e_uninit = False, e_second_visit = second\<rparr>))
         else and_then (if ep_left path > 0 then and_then (entry_at (ep_buf path) (ix + 1)) (\<lambda>e. Inr (ucast (ei_block e)))
                        else Inr (ep_end_blk path)) (\<lambda>end_blk.
                Inr \<lparr>e_pblk = ei_leaf ex, e_lblk = ucast (ei_block ex), e_len = ucast (end_blk - ucast (ei_block ex) :: u64),
                     e_leaf = False, e_uninit = False, e_second_visit = second\<rparr>)))"

text \<open>The whole of \<open>ext2fs_extent_get\<close>; the fuel bounds the jumps to \<open>retry\<close>.\<close>

fun extent_get_loop :: "nat \<Rightarrow> ext2_filsys \<Rightarrow> bool \<Rightarrow> extent_handle \<Rightarrow> extent_op \<Rightarrow> extent \<Rightarrow> (errcode_t \<times> extent_handle \<times> extent) res" where
  "extent_get_loop 0 fs failed h orig_op ext = Inl OutOfFuel"
| "extent_get_loop (Suc fuel) fs failed h orig_op ext =
     (case extent_choose h orig_op of
        (Inl e, h1) \<Rightarrow> Inr (Some e, h1, ext)
      | (Inr op, h1) \<Rightarrow>
          and_then (extent_move fs h1 orig_op op) (\<lambda>(r, failed_csum, h2, ix).
            case r of
              Some e \<Rightarrow> Inr (Some e, h2, ext)
            | None \<Rightarrow>
                (case ix of
                   None \<Rightarrow> Inr (Some EXT2_ET_NO_CURRENT_NODE, h2, ext)
                 | Some k \<Rightarrow>
                     and_then (extent_decode h2 k) (\<lambda>ext'.
                       let failed' = (failed \<or> failed_csum)
                       in if (orig_op = EXT2_EXTENT_NEXT_LEAF \<or> orig_op = EXT2_EXTENT_PREV_LEAF) \<and> h_level h2 \<noteq> h_max_depth h2
                          then extent_get_loop fuel fs failed' h2 orig_op ext'
                          else if orig_op = EXT2_EXTENT_LAST_LEAF \<and> (h_level h2 \<noteq> h_max_depth h2 \<or> ep_left (cur_path h2) \<noteq> 0)
                          then extent_get_loop fuel fs failed' h2 orig_op ext'
                          else Inr (if failed' then Some EXT2_ET_EXTENT_CSUM_INVALID else None, h2, ext')))))"

definition ext2fs_extent_get :: "nat \<Rightarrow> ext2_filsys \<Rightarrow> extent_handle \<Rightarrow> extent_op \<Rightarrow> extent \<Rightarrow> (errcode_t \<times> extent_handle \<times> extent) res" where
  "ext2fs_extent_get fuel fs h flags ext = extent_get_loop fuel fs False h flags ext"

section \<open>Searching\<close>

text \<open>
  The loop of \<open>ext2fs_extent_goto2\<close>: \<open>leaf_level\<close> is the height above the leaves at which to stop, \<open>ext\<close> the
  extent at which the handle stands.
\<close>

fun goto_loop :: "nat \<Rightarrow> ext2_filsys \<Rightarrow> int \<Rightarrow> u64 \<Rightarrow> extent_handle \<Rightarrow> extent \<Rightarrow> (errcode_t \<times> extent_handle) res" where
  "goto_loop 0 fs leaf_level blk h ext = Inl OutOfFuel"
| "goto_loop (Suc fuel) fs leaf_level blk h ext =
     (let down = (\<lambda>h1 ext1. and_then (ext2fs_extent_get (Suc fuel) fs h1 EXT2_EXTENT_DOWN ext1) (\<lambda>(r, h2, ext2).
            if r \<noteq> None then Inr (r, h2) else goto_loop fuel fs leaf_level blk h2 ext2))
      in if int (h_max_depth h) - int (h_level h) = leaf_level
         then (if e_lblk ext \<le> blk \<and> blk < e_lblk ext + ucast (e_len ext) then Inr (None, h)
               else if blk < e_lblk ext
               then and_then (ext2fs_extent_get (Suc fuel) fs h EXT2_EXTENT_PREV_SIB ext) (\<lambda>(r, h1, ext1). Inr (Some EXT2_ET_EXTENT_NOT_FOUND, h1))
               else and_then (ext2fs_extent_get (Suc fuel) fs h EXT2_EXTENT_NEXT_SIB ext) (\<lambda>(r, h1, ext1).
                 if r = Some EXT2_ET_EXTENT_NO_NEXT then Inr (Some EXT2_ET_EXTENT_NOT_FOUND, h1)
                 else if r \<noteq> None then Inr (r, h1)
                 else goto_loop fuel fs leaf_level blk h1 ext1))
         else and_then (ext2fs_extent_get (Suc fuel) fs h EXT2_EXTENT_NEXT_SIB ext) (\<lambda>(r, h1, ext1).
                if r = Some EXT2_ET_EXTENT_NO_NEXT then down h1 ext1
                else if r \<noteq> None then Inr (r, h1)
                else if blk = e_lblk ext1 then down h1 ext1
                else if blk > e_lblk ext1 then goto_loop fuel fs leaf_level blk h1 ext1
                else and_then (ext2fs_extent_get (Suc fuel) fs h1 EXT2_EXTENT_PREV_SIB ext1) (\<lambda>(r, h2, ext2).
                  if r \<noteq> None then Inr (r, h2) else down h2 ext2)))"

text \<open>A variable of type \<open>struct ext2fs_extent\<close> before it is filled.\<close>

definition no_extent :: extent where
  "no_extent = \<lparr>e_pblk = 0, e_lblk = 0, e_len = 0, e_leaf = False, e_uninit = False, e_second_visit = False\<rparr>"

definition ext2fs_extent_goto2 :: "nat \<Rightarrow> ext2_filsys \<Rightarrow> extent_handle \<Rightarrow> int \<Rightarrow> u64 \<Rightarrow> (errcode_t \<times> extent_handle) res" where
  "ext2fs_extent_goto2 fuel fs h leaf_level blk =
     and_then (ext2fs_extent_get fuel fs h EXT2_EXTENT_ROOT no_extent) (\<lambda>(r, h1, ext).
       if r \<noteq> None then Inr (if r = Some EXT2_ET_EXTENT_NO_NEXT then Some EXT2_ET_EXTENT_NOT_FOUND else r, h1)
       else if leaf_level > int (h_max_depth h1) then Inr (Some EXT2_ET_OP_NOT_SUPPORTED, h1)
       else goto_loop fuel fs leaf_level blk h1 ext)"

definition ext2fs_extent_goto :: "nat \<Rightarrow> ext2_filsys \<Rightarrow> extent_handle \<Rightarrow> u64 \<Rightarrow> (errcode_t \<times> extent_handle) res" where
  "ext2fs_extent_goto fuel fs h blk = ext2fs_extent_goto2 fuel fs h 0 blk"

section \<open>Depth, decoding and counting\<close>

fun ul_log2_loop :: "nat \<Rightarrow> nat" where
  "ul_log2_loop arg = (if arg = 0 then 0 else Suc (ul_log2_loop (arg div 2)))"

declare ul_log2_loop.simps [simp del]

definition ul_log2 :: "nat \<Rightarrow> nat" where
  "ul_log2 arg = ul_log2_loop (arg div 2)"

text \<open>
  \<open>ext2fs_max_extent_depth\<close> with its two static variables, \<open>last_blocksize\<close> and \<open>last_result\<close>;
  \<open>EXT_MAX_EXTENT_LBLK\<close> is \<open>2^32 - 1\<close> and \<open>i_block\<close> has room for four entries.
\<close>

definition ext2fs_max_extent_depth :: "ext2_filsys \<Rightarrow> nat \<times> nat \<Rightarrow> (nat \<times> nat \<times> nat) res" where
  "ext2fs_max_extent_depth fs statics =
     (let (last_blocksize, last_result) = statics; per_block = (fs_blocksize fs - 12) div 12
      in if last_blocksize \<noteq> 0 \<and> last_blocksize = fs_blocksize fs then Inr (last_result, statics)
         else if ul_log2 per_block = 0 then Inl DivideByZero
         else (let r = 1 + (ul_log2 (2 ^ 32 - 1) - ul_log2 ((60 - 12) div 12)) div ul_log2 per_block in Inr (r, fs_blocksize fs, r)))"

definition ext2fs_decode_extent :: "byte list \<Rightarrow> int \<Rightarrow> ext2_err + extent" where
  "ext2fs_decode_extent addr len =
     (if len \<noteq> 12 then Inl EXT2_ET_INVALID_ARGUMENT
      else (let l = ucast (ee_len addr) :: u32
            in Inr \<lparr>e_pblk = ee_pblk addr, e_lblk = ucast (ee_block addr), e_len = (if l > 0x8000 then l - 0x8000 else l),
                    e_leaf = True, e_uninit = (l > 0x8000), e_second_visit = False\<rparr>))"

text \<open>
  \<open>ext2fs_count_blocks\<close>; \<open>nodes\<close> is the array \<open>intermediate_nodes\<close>, whose first contents are whatever the
  allocated memory holds. The loop over the levels above the leaf, and the loop over the tree.
\<close>

fun count_levels :: "u64 list \<Rightarrow> extent_path list \<Rightarrow> u64 \<times> u64 list" where
  "count_levels (n # nodes) (p # path) =
     (let (c, ns) = count_levels nodes path in (if n \<noteq> ep_end_blk p then c + 1 else c, ep_end_blk p # ns))"
| "count_levels nodes path = (0, nodes)"

fun count_loop :: "nat \<Rightarrow> ext2_filsys \<Rightarrow> extent_handle \<Rightarrow> extent \<Rightarrow> u64 list \<Rightarrow> u64 \<Rightarrow> u64 res" where
  "count_loop 0 fs h ext nodes blkcount = Inl OutOfFuel"
| "count_loop (Suc fuel) fs h ext nodes blkcount =
     (let (blkcount1, nodes1) = (if e_leaf ext
            then (let (c, ns) = count_levels nodes (take (h_level h) (h_path h)) in (blkcount + ucast (e_len ext) + c, ns))
            else (blkcount, nodes))
      in and_then (ext2fs_extent_get (Suc fuel) fs h EXT2_EXTENT_NEXT ext) (\<lambda>(r, h1, ext1).
           if r = None then count_loop fuel fs h1 ext1 nodes1 blkcount1 else Inr blkcount1))"

definition ext2fs_count_blocks :: "nat \<Rightarrow> ext2_filsys \<Rightarrow> u32 \<Rightarrow> ext2_inode option \<Rightarrow> u64 list \<Rightarrow> (errcode_t \<times> u64) res" where
  "ext2fs_count_blocks fuel fs ino inode nodes =
     (case ext2fs_extent_open2 fs ino inode of
        Inl e \<Rightarrow> Inr (None, 0)
      | Inr h \<Rightarrow> and_then (ext2fs_extent_get fuel fs h EXT2_EXTENT_ROOT no_extent) (\<lambda>(r, h1, ext).
          if r \<noteq> None then Inr (None, 0)
          else and_then (count_loop fuel fs h1 ext nodes (of_nat (h_level h1))) (\<lambda>c. Inr (None, c))))"

end
