(* ===== verification/Block_Iterate.thy ===== *)
theory Block_Iterate
  imports Extent
begin

text \<open>
  Iterating over the blocks of an inode that has no extents, from
  \<^verbatim>\<open>src/e2fsprogs/lib/ext2fs/block.c\<close>: \<open>block_iterate_ind\<close>, \<open>block_iterate_dind\<close>, \<open>block_iterate_tind\<close>
  and the part of \<open>ext2fs_block_iterate3\<close> that such inodes take, with \<open>ext2fs_read_ind_block\<close> and
  \<open>ext2fs_write_ind_block\<close> of ind_block.c. The callback gets the block number, the logical block
  (negative for indirect blocks), the block that refers to it and the offset there; it may
  change the number, and answers flags. The branch for inodes with extents is in \<open>Extent_Iterate\<close>, which uses the
  operations on extent trees; a run of \<open>block_iterate3\<close> that enters it is \<open>Unmodelled\<close> (\<open>lsblks\<close> takes another way for them).
\<close>

section \<open>Flags and context\<close>

definition BLOCK_CHANGED :: u32 where "BLOCK_CHANGED = 1"
definition BLOCK_ABORT :: u32 where "BLOCK_ABORT = 2"
definition BLOCK_ERROR :: u32 where "BLOCK_ERROR = 4"
definition BLOCK_FLAG_APPEND :: u32 where "BLOCK_FLAG_APPEND = 1"
definition BLOCK_FLAG_DEPTH_TRAVERSE :: u32 where "BLOCK_FLAG_DEPTH_TRAVERSE = 2"
definition BLOCK_FLAG_DATA_ONLY :: u32 where "BLOCK_FLAG_DATA_ONLY = 4"
definition BLOCK_FLAG_READ_ONLY :: u32 where "BLOCK_FLAG_READ_ONLY = 8"
definition BLOCK_FLAG_NO_LARGE :: u32 where "BLOCK_FLAG_NO_LARGE = 0x1000"

definition has :: "u32 \<Rightarrow> u32 \<Rightarrow> bool" where
  "has w f \<longleftrightarrow> w AND f \<noteq> 0"

type_synonym 's block_func = "u64 \<Rightarrow> int \<Rightarrow> u32 \<Rightarrow> nat \<Rightarrow> 's \<Rightarrow> u32 \<times> u64 \<times> 's"

text \<open>The context; \<open>bc_disk\<close> holds the blocks as they are on disk now, \<open>None\<close>: not readable.\<close>

record 's block_context =
  bc_bcount :: int
  bc_errcode :: errcode_t
  bc_disk :: "u64 \<Rightarrow> byte list option"
  bc_priv :: 's

text \<open>\<open>check_for_ro_violation\<close>: whether it fires, and the flags it adds.\<close>

definition ro_violation :: "u32 \<Rightarrow> u32 \<Rightarrow> bool" where
  "ro_violation flags ret \<longleftrightarrow> has flags BLOCK_FLAG_READ_ONLY \<and> has ret BLOCK_CHANGED"

definition ro_error :: "'s block_context \<Rightarrow> 's block_context" where
  "ro_error ctx = ctx\<lparr>bc_errcode := Some EXT2_ET_RO_BLOCK_ITERATE\<rparr>"

section \<open>Indirect blocks\<close>

fun words_of :: "byte list \<Rightarrow> u32 list" where
  "words_of (a # b # c # d # rest) = word_of_le [a, b, c, d] # words_of rest"
| "words_of _ = []"

text \<open>The block numbers of an indirect block, in the byte order of the machine.\<close>

definition ext2fs_read_ind_block :: "ext2_filsys \<Rightarrow> (u64 \<Rightarrow> byte list option) \<Rightarrow> u32 \<Rightarrow> ext2_err + u32 list" where
  "ext2fs_read_ind_block fs disk blk =
     (if fs_image_file fs then Inr (words_of (replicate (fs_blocksize fs) 0))
      else case disk (ucast blk) of None \<Rightarrow> Inl EXT2_ET_IO | Some buf \<Rightarrow> Inr (words_of buf))"

definition ext2fs_write_ind_block ::
  "ext2_filsys \<Rightarrow> (u64 \<Rightarrow> byte list option) \<Rightarrow> u32 \<Rightarrow> u32 list \<Rightarrow> errcode_t \<times> (u64 \<Rightarrow> byte list option)" where
  "ext2fs_write_ind_block fs disk blk ws =
     (if fs_image_flag fs then (None, disk)
      else if \<not> fs_write_blk fs (ucast blk) then (Some EXT2_ET_IO, disk)
      else (None, disk(ucast blk \<mapsto> concat (map (le_of_word 4) ws))))"

text \<open>The two loops of \<open>block_iterate_ind\<close>; the result has the numbers, \<open>changed\<close> and whether it broke off.\<close>

fun ind_loop ::
  "'s block_func \<Rightarrow> bool \<Rightarrow> u32 \<Rightarrow> u32 list \<Rightarrow> nat \<Rightarrow> u32 \<Rightarrow> 's block_context \<Rightarrow> u32 list \<times> u32 \<times> bool \<times> 's block_context" where
  "ind_loop func append1 ind_block [] offset changed ctx = ([], changed, False, ctx)"
| "ind_loop func append1 ind_block (b # bs) offset changed ctx =
     (if \<not> append1 \<and> b = 0
      then (let (ws, ch, ab, c) = ind_loop func append1 ind_block bs (offset + 4) changed (ctx\<lparr>bc_bcount := bc_bcount ctx + 1\<rparr>)
            in (b # ws, ch, ab, c))
      else (let (flags, blk64, priv) = func (ucast b) (bc_bcount ctx) ind_block offset (bc_priv ctx);
                b' = ucast blk64; ctx1 = ctx\<lparr>bc_priv := priv\<rparr>
            in if has flags BLOCK_ABORT then (b' # bs, changed OR flags, True, ctx1)
               else (let (ws, ch, ab, c) = ind_loop func append1 ind_block bs (offset + 4) (changed OR flags)
                                             (ctx1\<lparr>bc_bcount := bc_bcount ctx1 + 1\<rparr>)
                     in (b' # ws, ch, ab, c))))"

text \<open>
  The common frame of the three functions: the callback on the block itself before or after its
  contents, the range check, reading, and writing back what changed. \<open>count\<close> is the negative
  logical number, \<open>span\<close> the number of data blocks below, \<open>bad\<close> the error for a bad number and
  \<open>body\<close> the loop, which gives the numbers, \<open>changed\<close> and the flags for \<open>ret\<close>.
\<close>

definition iterate_frame ::
  "ext2_filsys \<Rightarrow> u32 \<Rightarrow> 's block_func \<Rightarrow> int \<Rightarrow> int \<Rightarrow> ext2_err \<Rightarrow>
   (u32 \<Rightarrow> u32 list \<Rightarrow> 's block_context \<Rightarrow> u32 list \<times> u32 \<times> u32 \<times> 's block_context) \<Rightarrow>
   u32 \<Rightarrow> u32 \<Rightarrow> nat \<Rightarrow> 's block_context \<Rightarrow> u32 \<times> u32 \<times> 's block_context" where
  "iterate_frame fs flags func count span bad body blk ref_block ref_offset ctx =
     (let depth = has flags BLOCK_FLAG_DEPTH_TRAVERSE; only = has flags BLOCK_FLAG_DATA_ONLY;
          (ret, blk1, ctx1) = (if \<not> depth \<and> \<not> only
             then (let (r, b, p) = func (ucast blk) count ref_block ref_offset (bc_priv ctx) in (r, ucast b, ctx\<lparr>bc_priv := p\<rparr>))
             else (0, blk, ctx))
      in if ro_violation flags ret then (ret OR BLOCK_ABORT OR BLOCK_ERROR, blk1, ro_error ctx1)
         else if blk1 = 0 \<or> has ret BLOCK_ABORT then (ret, blk1, ctx1\<lparr>bc_bcount := bc_bcount ctx1 + span\<rparr>)
         else if ucast blk1 \<ge> fs_blocks_count fs \<or> blk1 < fs_first_data_block fs
         then (ret OR BLOCK_ERROR, blk1, ctx1\<lparr>bc_errcode := Some bad\<rparr>)
         else case ext2fs_read_ind_block fs (bc_disk ctx1) blk1 of
           Inl e \<Rightarrow> (ret OR BLOCK_ERROR, blk1, ctx1\<lparr>bc_errcode := Some e\<rparr>)
         | Inr ws \<Rightarrow>
             (let (ws', changed, add, ctx2) = body blk1 ws (ctx1\<lparr>bc_errcode := None\<rparr>);
                  ret2 = ret OR add
              in if ro_violation flags changed
                 then (changed OR BLOCK_ABORT OR BLOCK_ERROR, blk1, ro_error ctx2)
                 else (let (ret3, ctx3) = (if has changed BLOCK_CHANGED
                             then (let (e, disk) = ext2fs_write_ind_block fs (bc_disk ctx2) blk1 ws'
                                   in (if e \<noteq> None then ret2 OR BLOCK_ERROR OR BLOCK_ABORT else ret2,
                                       ctx2\<lparr>bc_errcode := e, bc_disk := disk\<rparr>))
                             else (ret2, ctx2));
                           (ret4, blk2, ctx4) = (if depth \<and> \<not> only \<and> \<not> has ret3 BLOCK_ABORT
                             then (let (r, b, p) = func (ucast blk1) count ref_block ref_offset (bc_priv ctx3)
                                   in (ret3 OR r, ucast b, ctx3\<lparr>bc_priv := p\<rparr>))
                             else (ret3, blk1, ctx3))
                       in if ro_violation flags ret4 then (ret4 OR BLOCK_ABORT OR BLOCK_ERROR, blk2, ro_error ctx4)
                          else (ret4, blk2, ctx4))))"

definition block_iterate_ind ::
  "ext2_filsys \<Rightarrow> u32 \<Rightarrow> 's block_func \<Rightarrow> u32 \<Rightarrow> u32 \<Rightarrow> nat \<Rightarrow> 's block_context \<Rightarrow> u32 \<times> u32 \<times> 's block_context" where
  "block_iterate_ind fs flags func =
     (let limit = int (fs_blocksize fs div 4)
      in iterate_frame fs flags func (- 1) limit EXT2_ET_BAD_IND_BLOCK
           (\<lambda>blk ws ctx. let (ws', changed, ab, c) = ind_loop func (has flags BLOCK_FLAG_APPEND) blk ws 0 0 ctx
                          in (ws', changed, if ab then BLOCK_ABORT else 0, c)))"

text \<open>
  The loop of \<open>block_iterate_dind\<close> and \<open>block_iterate_tind\<close> over the numbers of the block, with the
  next function down as \<open>sub\<close>. A zero number skips \<open>span\<close> blocks and, as in the code, does not
  advance the offset.
\<close>

fun sub_loop ::
  "(u32 \<Rightarrow> u32 \<Rightarrow> nat \<Rightarrow> 's block_context \<Rightarrow> u32 \<times> u32 \<times> 's block_context) \<Rightarrow> bool \<Rightarrow> int \<Rightarrow> u32 \<Rightarrow> u32 list \<Rightarrow> nat \<Rightarrow> u32 \<Rightarrow>
   's block_context \<Rightarrow> u32 list \<times> u32 \<times> u32 \<times> 's block_context" where
  "sub_loop iter append1 span blk [] offset changed ctx = ([], changed, 0, ctx)"
| "sub_loop iter append1 span blk (b # bs) offset changed ctx =
     (if \<not> append1 \<and> b = 0
      then (let (ws, ch, add, c) = sub_loop iter append1 span blk bs offset changed (ctx\<lparr>bc_bcount := bc_bcount ctx + span\<rparr>)
            in (b # ws, ch, add, c))
      else (let (flags, b', ctx1) = iter b blk offset ctx
            in if has flags (BLOCK_ABORT OR BLOCK_ERROR)
               then (b' # bs, changed OR flags, flags AND (BLOCK_ABORT OR BLOCK_ERROR), ctx1)
               else (let (ws, ch, add, c) = sub_loop iter append1 span blk bs (offset + 4) (changed OR flags) ctx1
                     in (b' # ws, ch, add, c))))"

definition block_iterate_dind ::
  "ext2_filsys \<Rightarrow> u32 \<Rightarrow> 's block_func \<Rightarrow> u32 \<Rightarrow> u32 \<Rightarrow> nat \<Rightarrow> 's block_context \<Rightarrow> u32 \<times> u32 \<times> 's block_context" where
  "block_iterate_dind fs flags func =
     (let limit = int (fs_blocksize fs div 4)
      in iterate_frame fs flags func (- 2) (limit * limit) EXT2_ET_BAD_DIND_BLOCK
           (\<lambda>blk ws ctx. sub_loop (block_iterate_ind fs flags func) (has flags BLOCK_FLAG_APPEND) limit blk ws 0 0 ctx))"

definition block_iterate_tind ::
  "ext2_filsys \<Rightarrow> u32 \<Rightarrow> 's block_func \<Rightarrow> u32 \<Rightarrow> u32 \<Rightarrow> nat \<Rightarrow> 's block_context \<Rightarrow> u32 \<times> u32 \<times> 's block_context" where
  "block_iterate_tind fs flags func =
     (let limit = int (fs_blocksize fs div 4)
      in iterate_frame fs flags func (- 3) (limit * limit * limit) EXT2_ET_BAD_TIND_BLOCK
           (\<lambda>blk ws ctx. sub_loop (block_iterate_dind fs flags func) (has flags BLOCK_FLAG_APPEND) (limit * limit) blk ws 0 0 ctx))"

section \<open>All blocks of an inode\<close>

text \<open>The loop over the direct blocks; the flag says that it left through \<open>abort_exit\<close>.\<close>

fun direct_loop ::
  "'s block_func \<Rightarrow> bool \<Rightarrow> u32 list \<Rightarrow> nat \<Rightarrow> u32 \<Rightarrow> 's block_context \<Rightarrow> u32 list \<times> u32 \<times> bool \<times> 's block_context" where
  "direct_loop func append1 [] i ret ctx = ([], ret, False, ctx)"
| "direct_loop func append1 (b # bs) i ret ctx =
     (if b \<noteq> 0 \<or> append1
      then (let (r, blk64, priv) = func (ucast b) (bc_bcount ctx) 0 i (bc_priv ctx);
                b' = ucast blk64; ctx1 = ctx\<lparr>bc_priv := priv\<rparr>
            in if has (ret OR r) BLOCK_ABORT then (b' # bs, ret OR r, True, ctx1)
               else (let (ws, ret', ab, c) = direct_loop func append1 bs (Suc i) (ret OR r) (ctx1\<lparr>bc_bcount := bc_bcount ctx1 + 1\<rparr>)
                     in (b' # ws, ret', ab, c)))
      else (let (ws, ret', ab, c) = direct_loop func append1 bs (Suc i) ret (ctx\<lparr>bc_bcount := bc_bcount ctx + 1\<rparr>)
            in (b # ws, ret', ab, c)))"

text \<open>One of the three indirect blocks of the inode, or the blocks it would have had.\<close>

definition iterate_root ::
  "(u32 \<Rightarrow> u32 \<Rightarrow> nat \<Rightarrow> 's block_context \<Rightarrow> u32 \<times> u32 \<times> 's block_context) \<Rightarrow> bool \<Rightarrow> int \<Rightarrow> nat \<Rightarrow>
   u32 \<times> u32 list \<times> 's block_context \<Rightarrow> u32 \<times> u32 list \<times> 's block_context" where
  "iterate_root iter append1 span i =
     (\<lambda>(ret, ws, ctx).
        if has ret BLOCK_ABORT then (ret, ws, ctx)
        else if ws ! i \<noteq> 0 \<or> append1
        then (let (r, b, c) = iter (ws ! i) 0 i ctx in (ret OR r, ws[i := b], c))
        else (ret, ws, ctx\<lparr>bc_bcount := bc_bcount ctx + span\<rparr>))"

definition iterate_blocks ::
  "ext2_filsys \<Rightarrow> u32 \<Rightarrow> 's block_func \<Rightarrow> u32 \<Rightarrow> u32 list \<Rightarrow> 's block_context \<Rightarrow> u32 \<times> u32 list \<times> 's block_context" where
  "iterate_blocks fs flags func ret ws ctx =
     (let limit = int (fs_blocksize fs div 4); append1 = has flags BLOCK_FLAG_APPEND;
          (ds, ret1, ab, ctx1) = direct_loop func append1 (take 12 ws) 0 ret ctx; ws1 = ds @ drop 12 ws
      in if ab then (ret1, ws1, ctx1)
         else if ro_violation flags ret1 then (ret1 OR BLOCK_ABORT OR BLOCK_ERROR, ws1, ro_error ctx1)
         else iterate_root (block_iterate_tind fs flags func) append1 0 14
                (iterate_root (block_iterate_dind fs flags func) append1 (limit * limit) 13
                  (iterate_root (block_iterate_ind fs flags func) append1 limit 12 (ret1, ws1, ctx1))))"

text \<open>The translator block of Hurd file systems; the flag says that \<open>abort_exit\<close> is taken.\<close>

definition iterate_translator ::
  "ext2_filsys \<Rightarrow> u32 \<Rightarrow> 's block_func \<Rightarrow> ext2_inode \<Rightarrow> 's block_context \<Rightarrow> u32 \<times> bool \<times> u32 \<times> 's block_context" where
  "iterate_translator fs flags func inode ctx =
     (if fs_hurd fs \<and> \<not> has flags BLOCK_FLAG_DATA_ONLY \<and> i_translator inode \<noteq> 0
      then (let (r, b, p) = func (ucast (i_translator inode)) (- 4) 0 0 (bc_priv ctx); ctx1 = ctx\<lparr>bc_priv := p\<rparr>
            in if has r BLOCK_ABORT then (r, True, ucast b, ctx1)
               else if ro_violation flags r then (r OR BLOCK_ABORT OR BLOCK_ERROR, True, ucast b, ro_error ctx1)
               else (r, False, ucast b, ctx1))
      else (0, False, i_translator inode, ctx))"

text \<open>
  \<open>ext2fs_block_iterate3\<close>: the return value, the private data, the disk, and the inode that was
  written back if one was.
\<close>

definition block_iterate3 ::
  "ext2_filsys \<Rightarrow> u32 \<Rightarrow> u32 \<Rightarrow> 's block_func \<Rightarrow> 's \<Rightarrow> (errcode_t \<times> 's \<times> (u64 \<Rightarrow> byte list option) \<times> ext2_inode option) res" where
  "block_iterate3 fs ino flags func priv =
     (case fs_read_inode fs ino of
        Inl e \<Rightarrow> Inr (Some e, priv, fs_read_blk fs, None)
      | Inr inode \<Rightarrow>
          if i_flags inode AND EXT4_INLINE_DATA_FL \<noteq> 0 then Inr (Some EXT2_ET_INLINE_DATA_CANT_ITERATE, priv, fs_read_blk fs, None)
          else if has flags BLOCK_FLAG_NO_LARGE \<and> \<not> i_mode_dir inode \<and> i_size_high inode \<noteq> 0
          then Inr (Some EXT2_ET_FILE_TOO_BIG, priv, fs_read_blk fs, None)
          else (let ctx0 = \<lparr>bc_bcount = 0, bc_errcode = None, bc_disk = fs_read_blk fs, bc_priv = priv\<rparr>;
                    (ret0, ab, trans, ctx1) = iterate_translator fs flags func inode ctx0;
                    (ret, ws, ctx) = (if ab then (ret0, words_of (i_block inode), ctx1)
                                      else iterate_blocks fs flags func ret0 (words_of (i_block inode)) ctx1);
                    inode' = inode\<lparr>i_block := concat (map (le_of_word 4) ws), i_translator := trans\<rparr>;
                    err = (if has ret BLOCK_ERROR then bc_errcode ctx else None)
                in if \<not> ab \<and> i_flags inode AND EXT4_EXTENTS_FL \<noteq> 0 then Inl Unmodelled
                   else if has ret BLOCK_CHANGED
                   then (case fs_write_inode fs ino of
                           Some e \<Rightarrow> Inr (Some e, bc_priv ctx, bc_disk ctx, None)
                         | None \<Rightarrow> Inr (err, bc_priv ctx, bc_disk ctx, Some inode'))
                   else Inr (err, bc_priv ctx, bc_disk ctx, None)))"

end
