(* ===== verification/Lsblks.thy ===== *)
theory Lsblks
  imports Block_Iterate
begin

text \<open>
  \<open>lsblks\<close> of \<^verbatim>\<open>src/e2fsprogs/stat/lsblks.c\<close>: it calls a function on every data block of an inode,
  through the extent tree or the indirect blocks. The callback works on a state of any type.
  \<open>ext2fs_open\<close>, with its flags, is an argument here (\<open>Disk_Blocks\<close> gives it), as are the numbers of the
  error codes, which the build generates.
\<close>

definition list_blocks_proc :: "('s \<Rightarrow> u64 \<Rightarrow> 's) \<Rightarrow> 's block_func" where
  "list_blocks_proc func blocknr blockcnt ref_block ref_offset priv =
     (if blocknr \<noteq> 0 \<and> blockcnt \<ge> 0 then (0, blocknr, func priv blocknr) else (0, blocknr, priv))"

definition lsblks_dump_blocks :: "ext2_filsys \<Rightarrow> u32 \<Rightarrow> ('s \<Rightarrow> u64 \<Rightarrow> 's) \<Rightarrow> 's \<Rightarrow> (errcode_t \<times> 's) res" where
  "lsblks_dump_blocks fs inode func priv =
     and_then (block_iterate3 fs inode BLOCK_FLAG_READ_ONLY (list_blocks_proc func) priv) (\<lambda>(ret, priv', disk, written).
       Inr (ret, priv'))"

text \<open>The calls for one extent.\<close>

fun run_blocks :: "('s \<Rightarrow> u64 \<Rightarrow> 's) \<Rightarrow> u64 \<Rightarrow> nat \<Rightarrow> nat \<Rightarrow> 's \<Rightarrow> 's" where
  "run_blocks func pblk i 0 priv = priv"
| "run_blocks func pblk i (Suc n) priv = run_blocks func pblk (Suc i) n (func priv (pblk + of_nat i))"

definition extent_calls :: "('s \<Rightarrow> u64 \<Rightarrow> 's) \<Rightarrow> extent \<Rightarrow> 's \<Rightarrow> 's" where
  "extent_calls func e priv =
     (if e_len e = 0 then priv
      else if e_len e = 1 then func priv (e_pblk e)
      else run_blocks func (e_pblk e) 0 (unat (e_len e)) priv)"

text \<open>The body of the loop after \<open>ext2fs_extent_get\<close>, with the flags for leaves and nodes.\<close>

definition extent_visit :: "bool \<Rightarrow> bool \<Rightarrow> ('s \<Rightarrow> u64 \<Rightarrow> 's) \<Rightarrow> extent_handle \<Rightarrow> extent \<Rightarrow> 's \<Rightarrow> 's" where
  "extent_visit leaves nodes func h e priv =
     (if e_second_visit e then priv
      else if e_leaf e \<and> \<not> leaves then priv
      else if \<not> e_leaf e \<and> \<not> nodes then priv
      else if fst (ext2fs_extent_get_info h) \<noteq> None then priv
      else if \<not> e_leaf e then priv
      else extent_calls func e priv)"

fun dump_extents_loop ::
  "nat \<Rightarrow> ext2_filsys \<Rightarrow> bool \<Rightarrow> bool \<Rightarrow> ('s \<Rightarrow> u64 \<Rightarrow> 's) \<Rightarrow> extent_handle \<Rightarrow> extent_op \<Rightarrow> extent \<Rightarrow> 's \<Rightarrow> 's res" where
  "dump_extents_loop 0 fs leaves nodes func h op e priv = Inl OutOfFuel"
| "dump_extents_loop (Suc fuel) fs leaves nodes func h op e priv =
     and_then (ext2fs_extent_get (Suc fuel) fs h op e) (\<lambda>(errcode, h', e').
       if errcode \<noteq> None then Inr priv
       else dump_extents_loop fuel fs leaves nodes func h' EXT2_EXTENT_NEXT e' (extent_visit leaves nodes func h' e' priv))"

definition dump_extents ::
  "nat \<Rightarrow> ext2_filsys \<Rightarrow> u32 \<Rightarrow> bool \<Rightarrow> bool \<Rightarrow> ('s \<Rightarrow> u64 \<Rightarrow> 's) \<Rightarrow> 's \<Rightarrow> (errcode_t \<times> 's) res" where
  "dump_extents fuel fs ino leaves nodes func priv =
     (case ext2fs_extent_open fs ino of
        Inl e \<Rightarrow> Inr (Some e, priv)
      | Inr h \<Rightarrow> and_then (dump_extents_loop fuel fs leaves nodes func h EXT2_EXTENT_ROOT no_extent priv) (\<lambda>priv'. Inr (None, priv')))"

definition lsblks ::
  "nat \<Rightarrow> (string \<Rightarrow> (int + ext2_filsys) res) \<Rightarrow> (ext2_err \<Rightarrow> int) \<Rightarrow> string \<Rightarrow> u64 \<Rightarrow> ('s \<Rightarrow> u64 \<Rightarrow> 's) \<Rightarrow> 's \<Rightarrow> (int \<times> 's) res" where
  "lsblks fuel ext2fs_open code dev ino func priv =
     (let inode_num = ucast ino
      in and_then (ext2fs_open dev) (\<lambda>r. case r of
           Inl retval \<Rightarrow> Inr (retval, priv)
         | Inr fs \<Rightarrow>
             (case fs_read_inode fs inode_num of
                Inl e \<Rightarrow> Inr (code e, priv)
              | Inr inode \<Rightarrow>
                  if i_flags inode AND EXT4_EXTENTS_FL \<noteq> 0
                  then and_then (dump_extents fuel fs inode_num True True func priv) (\<lambda>(e, priv'). Inr (0, priv'))
                  else if i_flags inode AND EXT4_INLINE_DATA_FL \<noteq> 0 then Inr (0, priv)
                  else and_then (lsblks_dump_blocks fs inode_num func priv) (\<lambda>(e, priv'). Inr (0, priv')))))"

end
