(* ===== verification/Block_Walk.thy ===== *)
theory Block_Walk
  imports Lsblks
begin

text \<open>
  What iterating over the indirect blocks of an inode does for \<open>lsblks\<close>: the callback is called
  on exactly the data blocks, in the order of the file. The specification is a recursion over
  the levels of indirection.
\<close>

section \<open>Specification\<close>

text \<open>The data blocks below the block number \<open>b\<close> with \<open>d\<close> levels of indirection.\<close>

fun tree_blocks :: "ext2_filsys \<Rightarrow> nat \<Rightarrow> u32 \<Rightarrow> u64 list" where
  "tree_blocks fs 0 b = (if b = 0 then [] else [ucast b])"
| "tree_blocks fs (Suc d) b =
     (if b = 0 then []
      else case ext2fs_read_ind_block fs (fs_read_blk fs) b of
        Inl e \<Rightarrow> []
      | Inr ws \<Rightarrow> concat (map (tree_blocks fs d) ws))"

text \<open>All indirect blocks are in range and readable.\<close>

fun tree_ok :: "ext2_filsys \<Rightarrow> nat \<Rightarrow> u32 \<Rightarrow> bool" where
  "tree_ok fs 0 b \<longleftrightarrow> True"
| "tree_ok fs (Suc d) b \<longleftrightarrow>
     b = 0 \<or> (ucast b < fs_blocks_count fs \<and> fs_first_data_block fs \<le> b \<and>
              (case ext2fs_read_ind_block fs (fs_read_blk fs) b of
                 Inl e \<Rightarrow> False
               | Inr ws \<Rightarrow> list_all (tree_ok fs d) ws))"

definition mapped_blocks :: "ext2_filsys \<Rightarrow> u32 list \<Rightarrow> u64 list" where
  "mapped_blocks fs ws =
     concat (map (tree_blocks fs 0) (take 12 ws)) @ tree_blocks fs 1 (ws ! 12) @ tree_blocks fs 2 (ws ! 13) @ tree_blocks fs 3 (ws ! 14)"

definition mapped_ok :: "ext2_filsys \<Rightarrow> u32 list \<Rightarrow> bool" where
  "mapped_ok fs ws \<longleftrightarrow> length ws = 15 \<and> tree_ok fs 1 (ws ! 12) \<and> tree_ok fs 2 (ws ! 13) \<and> tree_ok fs 3 (ws ! 14)"

section \<open>The walk\<close>

lemma has_0 [simp]: "\<not> has 0 f"
  by (simp add: has_def)

lemma has_read_only [simp]:
  "\<not> has BLOCK_FLAG_READ_ONLY BLOCK_FLAG_APPEND" "\<not> has BLOCK_FLAG_READ_ONLY BLOCK_FLAG_DEPTH_TRAVERSE"
  "\<not> has BLOCK_FLAG_READ_ONLY BLOCK_FLAG_DATA_ONLY" "\<not> has BLOCK_FLAG_READ_ONLY BLOCK_FLAG_NO_LARGE"
  by (simp_all add: has_def BLOCK_FLAG_READ_ONLY_def BLOCK_FLAG_APPEND_def BLOCK_FLAG_DEPTH_TRAVERSE_def BLOCK_FLAG_DATA_ONLY_def
      BLOCK_FLAG_NO_LARGE_def)

lemma no_violation [simp]: "\<not> ro_violation flags 0"
  by (simp add: ro_violation_def)

lemma ucast_back [simp]: "(ucast (ucast (b :: u32) :: u64) :: u32) = b"
  by (rule bit_word_eqI) (simp add: bit_ucast_iff)

text \<open>What a step of the walk does to the context: it calls the function on a list of blocks.\<close>

definition walked :: "('s \<Rightarrow> u64 \<Rightarrow> 's) \<Rightarrow> u64 list \<Rightarrow> 's block_context \<Rightarrow> 's block_context \<Rightarrow> bool" where
  "walked func bs ctx ctx' \<longleftrightarrow>
     bc_priv ctx' = foldl func (bc_priv ctx) bs \<and> bc_disk ctx' = bc_disk ctx \<and> (0 \<le> bc_bcount ctx \<longrightarrow> 0 \<le> bc_bcount ctx')"

lemma walked_trans: "walked func as c c1 \<Longrightarrow> walked func bs c1 c2 \<Longrightarrow> walked func (as @ bs) c c2"
  by (auto simp: walked_def)

lemma list_blocks_proc_data:
  "0 \<le> n \<Longrightarrow> list_blocks_proc func (ucast b) n r off p = (0, ucast (b :: u32), foldl func p (tree_blocks fs 0 b))"
  by (simp add: list_blocks_proc_def)

lemma ind_loop_walk:
  assumes "0 \<le> bc_bcount ctx"
  shows "\<exists>ctx'. ind_loop (list_blocks_proc func) False ib ws off 0 ctx = (ws, 0, False, ctx') \<and>
           walked func (concat (map (tree_blocks fs 0) ws)) ctx ctx' \<and> 0 \<le> bc_bcount ctx'"
  using assms
proof (induction ws arbitrary: off ctx)
  case Nil
  then show ?case by (simp add: walked_def)
next
  case (Cons b ws)
  define c where "c = (if b = 0 then ctx\<lparr>bc_bcount := bc_bcount ctx + 1\<rparr>
    else ctx\<lparr>bc_priv := func (bc_priv ctx) (ucast b), bc_bcount := bc_bcount ctx + 1\<rparr>)"
  have "0 \<le> bc_bcount c" using Cons.prems by (simp add: c_def)
  from Cons.IH [OF this] obtain ctx' where r: "ind_loop (list_blocks_proc func) False ib ws (off + 4) 0 c = (ws, 0, False, ctx')"
      "walked func (concat (map (tree_blocks fs 0) ws)) c ctx'" "0 \<le> bc_bcount ctx'"
    by blast
  have "walked func (tree_blocks fs 0 b) ctx c" by (simp add: walked_def c_def)
  from walked_trans [OF this r(2)] have "walked func (concat (map (tree_blocks fs 0) (b # ws))) ctx ctx'" by simp
  moreover have "ind_loop (list_blocks_proc func) False ib (b # ws) off 0 ctx = (b # ws, 0, False, ctx')"
    using r(1) Cons.prems by (cases "b = 0") (simp_all add: c_def list_blocks_proc_def)
  ultimately show ?case using r(3) by blast
qed

text \<open>An iterator that walks the tree of \<open>d\<close> levels below a block.\<close>

definition walks ::
  "ext2_filsys \<Rightarrow> ('s \<Rightarrow> u64 \<Rightarrow> 's) \<Rightarrow> nat \<Rightarrow> (u32 \<Rightarrow> u32 \<Rightarrow> nat \<Rightarrow> 's block_context \<Rightarrow> u32 \<times> u32 \<times> 's block_context) \<Rightarrow> bool" where
  "walks fs func d iter \<longleftrightarrow>
     (\<forall>b r off ctx. tree_ok fs d b \<longrightarrow> bc_disk ctx = fs_read_blk fs \<longrightarrow> 0 \<le> bc_bcount ctx \<longrightarrow>
        (\<exists>ctx'. iter b r off ctx = (0, b, ctx') \<and> walked func (tree_blocks fs d b) ctx ctx'))"

lemma iterate_frame_walks:
  assumes "0 \<le> span" and "count < 0"
    and body: "\<And>b ws ctx. list_all (tree_ok fs d) ws \<Longrightarrow> bc_disk ctx = fs_read_blk fs \<Longrightarrow> 0 \<le> bc_bcount ctx \<Longrightarrow>
      \<exists>ctx'. body b ws ctx = (ws, 0, 0, ctx') \<and> walked func (concat (map (tree_blocks fs d) ws)) ctx ctx'"
  shows "walks fs func (Suc d) (iterate_frame fs BLOCK_FLAG_READ_ONLY (list_blocks_proc func) count span bad body)"
  unfolding walks_def
proof (intro allI impI)
  fix b r off and ctx :: "'a block_context"
  assume ok: "tree_ok fs (Suc d) b" and disk: "bc_disk ctx = fs_read_blk fs" and n: "0 \<le> bc_bcount ctx"
  have self: "list_blocks_proc func (ucast b) count r off (bc_priv ctx) = (0, ucast b, bc_priv ctx)"
    using assms(2) by (simp add: list_blocks_proc_def)
  show "\<exists>ctx'. iterate_frame fs BLOCK_FLAG_READ_ONLY (list_blocks_proc func) count span bad body b r off ctx = (0, b, ctx') \<and>
      walked func (tree_blocks fs (Suc d) b) ctx ctx'"
  proof (cases "b = 0")
    case True
    then show ?thesis using self n assms(1) by (auto simp: iterate_frame_def Let_def walked_def)
  next
    case False
    with ok obtain ws where ws: "ext2fs_read_ind_block fs (fs_read_blk fs) b = Inr ws" "list_all (tree_ok fs d) ws"
      and range: "ucast b < fs_blocks_count fs" "fs_first_data_block fs \<le> b"
      by (auto split: sum.splits)
    obtain ctx' where "body b ws (ctx\<lparr>bc_errcode := None\<rparr>) = (ws, 0, 0, ctx')"
        "walked func (concat (map (tree_blocks fs d) ws)) (ctx\<lparr>bc_errcode := None\<rparr>) ctx'"
      using body [OF ws(2), of "ctx\<lparr>bc_errcode := None\<rparr>" b] disk n by auto
    moreover have "\<not> fs_blocks_count fs \<le> ucast b" "\<not> b < fs_first_data_block fs" using range by simp_all
    ultimately show ?thesis using self False ws(1) disk
      by (simp add: iterate_frame_def Let_def walked_def)
  qed
qed

lemma sub_loop_walks:
  assumes "walks fs func d iter" and "0 \<le> span" and "\<And>b. tree_blocks fs d 0 = []"
  shows "list_all (tree_ok fs d) ws \<Longrightarrow> bc_disk ctx = fs_read_blk fs \<Longrightarrow> 0 \<le> bc_bcount ctx \<Longrightarrow>
    \<exists>ctx'. sub_loop iter False span blk ws off 0 ctx = (ws, 0, 0, ctx') \<and> walked func (concat (map (tree_blocks fs d) ws)) ctx ctx'"
proof (induction ws arbitrary: off ctx)
  case Nil
  then show ?case by (simp add: walked_def)
next
  case (Cons b ws)
  show ?case
  proof (cases "b = 0")
    case True
    let ?c = "ctx\<lparr>bc_bcount := bc_bcount ctx + span\<rparr>"
    obtain ctx' where "sub_loop iter False span blk ws off 0 ?c = (ws, 0, 0, ctx')" "walked func (concat (map (tree_blocks fs d) ws)) ?c ctx'"
      using Cons.IH [of ?c off] Cons.prems assms(2) by auto
    then show ?thesis using True assms(2,3) by (auto simp: walked_def)
  next
    case False
    obtain c1 where c1: "iter b blk off ctx = (0, b, c1)" "walked func (tree_blocks fs d b) ctx c1"
      using assms(1) Cons.prems unfolding walks_def by fastforce
    then have "bc_disk c1 = fs_read_blk fs" "0 \<le> bc_bcount c1" using Cons.prems by (auto simp: walked_def)
    then obtain ctx' where "sub_loop iter False span blk ws (off + 4) 0 c1 = (ws, 0, 0, ctx')" "walked func (concat (map (tree_blocks fs d) ws)) c1 ctx'"
      using Cons.IH [of c1 "off + 4"] Cons.prems by auto
    then show ?thesis using False c1 walked_trans by fastforce
  qed
qed

lemma tree_blocks_0 [simp]: "tree_blocks fs d 0 = []"
  by (cases d) simp_all

lemma walks_ind: "walks fs func 1 (block_iterate_ind fs BLOCK_FLAG_READ_ONLY (list_blocks_proc func))"
proof -
  have body: "\<exists>ctx'. (let (ws', changed, ab, c) = ind_loop (list_blocks_proc func) False b ws 0 0 ctx
        in (ws', changed, if ab then BLOCK_ABORT else 0, c)) = (ws, 0, 0, ctx') \<and> walked func (concat (map (tree_blocks fs 0) ws)) ctx ctx'"
    if "0 \<le> bc_bcount ctx" for b ws and ctx :: "'a block_context"
    using ind_loop_walk [OF that, of func b ws 0 fs] by auto
  show ?thesis unfolding block_iterate_ind_def Let_def One_nat_def
    using body by (intro iterate_frame_walks) (auto simp: Let_def)
qed

lemma walks_dind: "walks fs func 2 (block_iterate_dind fs BLOCK_FLAG_READ_ONLY (list_blocks_proc func))"
  unfolding block_iterate_dind_def Let_def numeral_2_eq_2
  using sub_loop_walks [OF walks_ind, where span = "int (fs_blocksize fs div 4)"] by (intro iterate_frame_walks) auto

lemma walks_tind: "walks fs func 3 (block_iterate_tind fs BLOCK_FLAG_READ_ONLY (list_blocks_proc func))"
  unfolding block_iterate_tind_def Let_def numeral_3_eq_3
  using sub_loop_walks [OF walks_dind, where span = "int (fs_blocksize fs div 4) * int (fs_blocksize fs div 4)"]
  by (intro iterate_frame_walks) (auto simp: numeral_2_eq_2)

lemma direct_loop_walk:
  assumes "0 \<le> bc_bcount ctx"
  shows "\<exists>ctx'. direct_loop (list_blocks_proc func) False ws i 0 ctx = (ws, 0, False, ctx') \<and>
           walked func (concat (map (tree_blocks fs 0) ws)) ctx ctx' \<and> 0 \<le> bc_bcount ctx'"
  using assms
proof (induction ws arbitrary: i ctx)
  case Nil
  then show ?case by (simp add: walked_def)
next
  case (Cons b ws)
  define c where "c = (if b = 0 then ctx\<lparr>bc_bcount := bc_bcount ctx + 1\<rparr>
    else ctx\<lparr>bc_priv := func (bc_priv ctx) (ucast b), bc_bcount := bc_bcount ctx + 1\<rparr>)"
  have "0 \<le> bc_bcount c" using Cons.prems by (simp add: c_def)
  from Cons.IH [OF this] obtain ctx' where r: "direct_loop (list_blocks_proc func) False ws (Suc i) 0 c = (ws, 0, False, ctx')"
      "walked func (concat (map (tree_blocks fs 0) ws)) c ctx'" "0 \<le> bc_bcount ctx'"
    by blast
  have "walked func (tree_blocks fs 0 b) ctx c" by (simp add: walked_def c_def)
  from walked_trans [OF this r(2)] have "walked func (concat (map (tree_blocks fs 0) (b # ws))) ctx ctx'" by simp
  moreover have "direct_loop (list_blocks_proc func) False (b # ws) i 0 ctx = (b # ws, 0, False, ctx')"
    using r(1) Cons.prems by (cases "b = 0") (simp_all add: c_def list_blocks_proc_def)
  ultimately show ?case using r(3) by blast
qed

lemma iterate_root_walk:
  assumes "walks fs func d iter" and "tree_ok fs d (ws ! i)" and "bc_disk ctx = fs_read_blk fs" and "0 \<le> bc_bcount ctx" and "0 \<le> span"
  shows "\<exists>ctx'. iterate_root iter False span i (0, ws, ctx) = (0, ws, ctx') \<and> walked func (tree_blocks fs d (ws ! i)) ctx ctx'"
proof (cases "ws ! i = 0")
  case True
  then show ?thesis using assms(4,5) by (simp add: iterate_root_def walked_def)
next
  case False
  then obtain c where "iter (ws ! i) 0 i ctx = (0, ws ! i, c)" "walked func (tree_blocks fs d (ws ! i)) ctx c"
    using assms(1-4) unfolding walks_def by fastforce
  then show ?thesis using False by (simp add: iterate_root_def)
qed

lemma iterate_blocks_walk:
  assumes ok: "mapped_ok fs ws" and disk: "bc_disk ctx = fs_read_blk fs" and n: "0 \<le> bc_bcount ctx"
  shows "\<exists>ctx'. iterate_blocks fs BLOCK_FLAG_READ_ONLY (list_blocks_proc func) 0 ws ctx = (0, ws, ctx') \<and>
           walked func (mapped_blocks fs ws) ctx ctx'"
proof -
  let ?limit = "int (fs_blocksize fs div 4)"
  obtain c0 where d: "direct_loop (list_blocks_proc func) False (take 12 ws) 0 0 ctx = (take 12 ws, 0, False, c0)"
      "walked func (concat (map (tree_blocks fs 0) (take 12 ws))) ctx c0"
    using direct_loop_walk [OF n, of func "take 12 ws" 0 fs] by blast
  have inv: "bc_disk c' = fs_read_blk fs \<and> 0 \<le> bc_bcount c'" if "walked func bs c c'" "bc_disk c = fs_read_blk fs \<and> 0 \<le> bc_bcount c" for bs c c'
    using that by (auto simp: walked_def)
  have i0: "bc_disk c0 = fs_read_blk fs \<and> 0 \<le> bc_bcount c0" using inv [OF d(2)] disk n by blast
  obtain c1 where s1: "iterate_root (block_iterate_ind fs BLOCK_FLAG_READ_ONLY (list_blocks_proc func)) False ?limit 12 (0, ws, c0) = (0, ws, c1)"
      "walked func (tree_blocks fs 1 (ws ! 12)) c0 c1"
    using iterate_root_walk [OF walks_ind, of fs ws 12 c0 ?limit] ok i0 by (auto simp: mapped_ok_def simp del: tree_ok.simps)
  have i1: "bc_disk c1 = fs_read_blk fs \<and> 0 \<le> bc_bcount c1" using inv [OF s1(2) i0] .
  obtain c2 where s2: "iterate_root (block_iterate_dind fs BLOCK_FLAG_READ_ONLY (list_blocks_proc func)) False (?limit * ?limit) 13 (0, ws, c1) = (0, ws, c2)"
      "walked func (tree_blocks fs 2 (ws ! 13)) c1 c2"
    using iterate_root_walk [OF walks_dind, of fs ws 13 c1 "?limit * ?limit"] ok i1 by (auto simp: mapped_ok_def simp del: tree_ok.simps)
  have i2: "bc_disk c2 = fs_read_blk fs \<and> 0 \<le> bc_bcount c2" using inv [OF s2(2) i1] .
  obtain c3 where s3: "iterate_root (block_iterate_tind fs BLOCK_FLAG_READ_ONLY (list_blocks_proc func)) False 0 14 (0, ws, c2) = (0, ws, c3)"
      "walked func (tree_blocks fs 3 (ws ! 14)) c2 c3"
    using iterate_root_walk [OF walks_tind, of fs ws 14 c2 0] ok i2 by (auto simp: mapped_ok_def simp del: tree_ok.simps)
  have "walked func (mapped_blocks fs ws) ctx c3"
    unfolding mapped_blocks_def by (intro walked_trans [OF d(2)] walked_trans [OF s1(2)] walked_trans [OF s2(2)] s3(2))
  moreover have "iterate_blocks fs BLOCK_FLAG_READ_ONLY (list_blocks_proc func) 0 ws ctx = (0, ws, c3)"
    unfolding iterate_blocks_def Let_def using d(1) s1(1) s2(1) s3(1) by (simp add: append_take_drop_id)
  ultimately show ?thesis by blast
qed

section \<open>Properties\<close>

lemma dump_mapped_blocks:
  assumes "fs_read_inode fs ino = Inr inode" and "i_flags inode AND EXT4_INLINE_DATA_FL = 0"
    and "i_flags inode AND EXT4_EXTENTS_FL = 0" and "mapped_ok fs (words_of (i_block inode))"
  shows "lsblks_dump_blocks fs ino func priv = Inr (None, foldl func priv (mapped_blocks fs (words_of (i_block inode))))"
proof -
  let ?ctx = "\<lparr>bc_bcount = 0, bc_errcode = None, bc_disk = fs_read_blk fs, bc_priv = priv\<rparr>"
  have "iterate_translator fs BLOCK_FLAG_READ_ONLY (list_blocks_proc func) inode ?ctx = (0, False, i_translator inode, ?ctx)"
    by (simp add: iterate_translator_def list_blocks_proc_def)
  moreover obtain c where "iterate_blocks fs BLOCK_FLAG_READ_ONLY (list_blocks_proc func) 0 (words_of (i_block inode)) ?ctx = (0, words_of (i_block inode), c)"
      "walked func (mapped_blocks fs (words_of (i_block inode))) ?ctx c"
    using iterate_blocks_walk [OF assms(4), of ?ctx func] by auto
  ultimately show ?thesis
    using assms(1-3) by (simp add: lsblks_dump_blocks_def block_iterate3_def walked_def Let_def)
qed

text \<open>
  C15: for an inode without extents whose indirect blocks are in range and readable, \<open>dump_blocks\<close> of
  lsblks calls its function on exactly the data blocks (direct, single, double and triple
  indirect), in the order of the file, skipping holes and the indirect blocks themselves, and
  succeeds.
\<close>

theorem dump_blocks_in_file_order:
  assumes "fs_read_inode fs ino = Inr inode" and "i_flags inode AND EXT4_INLINE_DATA_FL = 0"
    and "i_flags inode AND EXT4_EXTENTS_FL = 0" and "mapped_ok fs (words_of (i_block inode))"
  shows "lsblks_dump_blocks fs ino func priv = Inr (None, foldl func priv (mapped_blocks fs (words_of (i_block inode))))"
  using assms by (rule dump_mapped_blocks)

lemma words_of_word: "words_of (le_of_word 4 w @ rest) = w # words_of rest"
proof -
  have "length (le_of_word 4 w) = 4" by simp
  then obtain a b c d where le: "le_of_word 4 w = [a, b, c, d]" by (auto simp: numeral_eq_Suc length_Suc_conv)
  have "word_of_le [a, b, c, d] = w" using word_of_le_roundtrip [of 4 w] le by simp
  then show ?thesis using le by simp
qed

lemma words_of_le_words: "words_of (concat (map (le_of_word 4) ws)) = ws"
  by (induction ws) (simp_all add: words_of_word)

lemma tree_ok_0 [simp]: "tree_ok fs d 0"
  by (cases d) simp_all

definition flat_words :: "u32 list" where
  "flat_words = [7, 0, 0, 0, 0, 0, 0, 0, 0, 0, 0, 0, 9, 0, 0]"

definition flat_fs :: ext2_filsys where
  "flat_fs = \<lparr>fs_blocksize = 8, fs_log_block_size = 0, fs_inodes_count = 32, fs_blocks_count = 100, fs_first_data_block = 1,
     fs_hurd = False, fs_image_flag = False, fs_image_io = False, fs_ignore_csum = True, fs_csum_verify = (\<lambda>_ _. True),
     fs_read_inode = (\<lambda>_. Inr \<lparr>i_mode_dir = True, i_flags = 0, i_size = 0, i_size_high = 0,
        i_block = concat (map (le_of_word 4) flat_words), i_translator = 0\<rparr>),
     fs_read_blk = (\<lambda>b. if b = 9 then Some [0, 0, 0, 0, 21, 0, 0, 0] else None), fs_write_inode = (\<lambda>_. None), fs_write_blk = (\<lambda>_. False),
     fs_rw = False, fs_csum_set = (\<lambda>_ eh. Inr (None, eh))\<rparr>"

lemma flat_ok: "mapped_ok flat_fs flat_words"
proof -
  have nth: "flat_words ! 12 = 9" "flat_words ! 13 = 0" "flat_words ! 14 = 0" "length flat_words = 15" by (simp_all add: flat_words_def)
  have "tree_ok flat_fs (Suc 0) 9" by (simp add: flat_fs_def ext2fs_read_ind_block_def fs_image_file_def)
  then show ?thesis unfolding mapped_ok_def nth One_nat_def by (simp only: tree_ok_0)
qed

theorem dump_blocks_in_file_order_witness:
  "lsblks_dump_blocks flat_fs 2 (\<lambda>bs b. bs @ [b]) [] = Inr (None, foldl (\<lambda>bs b. bs @ [b]) [] (mapped_blocks flat_fs flat_words))"
proof -
  let ?inode = "\<lparr>i_mode_dir = True, i_flags = 0, i_size = 0, i_size_high = 0, i_block = concat (map (le_of_word 4) flat_words), i_translator = 0\<rparr>"
  have words: "words_of (i_block ?inode) = flat_words" by (simp only: ext2_inode.simps words_of_le_words)
  have "lsblks_dump_blocks flat_fs 2 (\<lambda>bs b. bs @ [b]) [] = Inr (None, foldl (\<lambda>bs b. bs @ [b]) [] (mapped_blocks flat_fs (words_of (i_block ?inode))))"
    by (rule dump_blocks_in_file_order) (simp add: flat_fs_def, simp, simp, simp only: words flat_ok)
  then show ?thesis by (simp only: words)
qed

end
