(* ===== verification/Extent_Walk.thy ===== *)
theory Extent_Walk
  imports Block_Walk Byte_Order
begin

text \<open>
  What walking an extent tree with \<open>EXT2_EXTENT_ROOT\<close> and then \<open>EXT2_EXTENT_NEXT\<close> does for \<open>lsblks\<close>: on a
  tree whose nodes verify, \<open>dump_extents\<close> returns after having called its function on exactly
  the blocks of the leaf extents, from left to right. The walk with its explicit stack of paths
  is related to a recursion over the depth of the tree.
\<close>

section \<open>Specification\<close>

definition ent :: "byte list \<Rightarrow> nat \<Rightarrow> byte list" where
  "ent buf k = take 12 (drop (12 + 12 * k) buf)"

text \<open>The length of a leaf extent; more than \<open>0x8000\<close> marks an uninitialised one.\<close>

definition leaf_len :: "byte list \<Rightarrow> nat" where
  "leaf_len e = (let len = unat (ee_len e) in if len > 0x8000 then len - 0x8000 else len)"

definition leaf_blocks :: "byte list \<Rightarrow> u64 list" where
  "leaf_blocks e = map (\<lambda>i. ee_pblk e + of_nat i) [0..<leaf_len e]"

text \<open>The extent that is returned for the entry of a leaf, and the blocks of an extent.\<close>

definition leaf_extent :: "byte list \<Rightarrow> extent" where
  "leaf_extent e =
     (let len = ucast (ee_len e) :: u32
      in \<lparr>e_pblk = ee_pblk e, e_lblk = ucast (ee_block e), e_len = (if len > 0x8000 then len - 0x8000 else len), e_leaf = True,
          e_uninit = (len > 0x8000), e_second_visit = False\<rparr>)"

definition extent_blocks :: "extent \<Rightarrow> u64 list" where
  "extent_blocks ext = map (\<lambda>i. e_pblk ext + of_nat i) [0..<unat (e_len ext)]"

text \<open>The node that entry \<open>k\<close> of an interior node names.\<close>

definition child :: "ext2_filsys \<Rightarrow> byte list \<Rightarrow> nat \<Rightarrow> byte list" where
  "child fs buf k = the (fs_read_blk fs (ei_leaf (ent buf k)))"

fun node_blocks :: "ext2_filsys \<Rightarrow> nat \<Rightarrow> byte list \<Rightarrow> u64 list" where
  "node_blocks fs 0 buf = concat (map (\<lambda>k. leaf_blocks (ent buf k)) [0..<eh_entries buf])"
| "node_blocks fs (Suc d) buf = concat (map (\<lambda>k. node_blocks fs d (child fs buf k)) [0..<eh_entries buf])"

fun node_leaves :: "ext2_filsys \<Rightarrow> nat \<Rightarrow> byte list \<Rightarrow> extent list" where
  "node_leaves fs 0 buf = map (\<lambda>k. leaf_extent (ent buf k)) [0..<eh_entries buf]"
| "node_leaves fs (Suc d) buf = concat (map (\<lambda>k. node_leaves fs d (child fs buf k)) [0..<eh_entries buf])"

text \<open>
  A node of depth \<open>d\<close> that can be walked: the header verifies for its size, there is an entry, and
  the children are readable, not among the blocks on the way from the root, and walkable.
\<close>

fun node_ok :: "ext2_filsys \<Rightarrow> u64 set \<Rightarrow> nat \<Rightarrow> nat \<Rightarrow> byte list \<Rightarrow> bool" where
  "node_ok fs anc size1 0 buf \<longleftrightarrow> length buf = size1 \<and> ext2fs_extent_header_verify buf size1 = None \<and> 0 < eh_entries buf"
| "node_ok fs anc size1 (Suc d) buf \<longleftrightarrow>
     length buf = size1 \<and> ext2fs_extent_header_verify buf size1 = None \<and> 0 < eh_entries buf \<and>
     (\<forall>k < eh_entries buf. let blk = ei_leaf (ent buf k) in
        blk \<notin> anc \<and> fs_read_blk fs blk \<noteq> None \<and> node_ok fs (insert blk anc) (fs_blocksize fs) d (child fs buf k))"

definition plain_fs :: "ext2_filsys \<Rightarrow> bool" where
  "plain_fs fs \<longleftrightarrow> \<not> fs_image_file fs \<and> fs_ignore_csum fs \<and> 12 \<le> fs_blocksize fs"

section \<open>Entries\<close>

lemma verify_bound:
  assumes "ext2fs_extent_header_verify buf size1 = None" and "length buf = size1" and "12 \<le> size1" and "k < eh_entries buf"
  shows "12 + 12 * k + 12 \<le> length buf"
proof -
  have "eh_entries buf \<le> eh_max buf" "int (eh_max buf) \<le> int ((size1 - 12) div 12)"
    using assms(1) by (auto simp: ext2fs_extent_header_verify_def Let_def split: if_splits)
  then have "Suc k \<le> (size1 - 12) div 12" using assms(4) by linarith
  then have "12 * Suc k \<le> 12 * ((size1 - 12) div 12)" by simp
  also have "\<dots> \<le> size1 - 12" by simp
  finally show ?thesis using assms(2,3) by simp
qed

lemma entry_at_ent:
  assumes "12 + 12 * k + 12 \<le> length buf"
  shows "entry_at buf (int k) = Inr (ent buf k)"
proof -
  have "nat (12 + 12 * int k) = 12 + 12 * k" by simp
  then show ?thesis using assms unfolding entry_at_def ent_def by simp
qed

lemma node_entries:
  assumes "node_ok fs anc size1 d buf" and "12 \<le> size1" and "k < eh_entries buf"
  shows "entry_at buf (int k) = Inr (ent buf k)"
proof -
  have "ext2fs_extent_header_verify buf size1 = None" "length buf = size1" using assms(1) by (cases d; simp)+
  then show ?thesis using verify_bound [of buf size1 k] assms(2,3) by (intro entry_at_ent) simp
qed

lemma node_ok_child:
  assumes "node_ok fs anc size1 (Suc d) buf" and "k < eh_entries buf"
  shows "ei_leaf (ent buf k) \<notin> anc" "fs_read_blk fs (ei_leaf (ent buf k)) = Some (child fs buf k)"
    "node_ok fs (insert (ei_leaf (ent buf k)) anc) (fs_blocksize fs) d (child fs buf k)"
  using assms by (auto simp: Let_def child_def)

lemma node_ok_nonempty: "node_ok fs anc size1 d buf \<Longrightarrow> 0 < eh_entries buf"
  by (cases d) auto

lemma node_ok_verify: "node_ok fs anc size1 d buf \<Longrightarrow> ext2fs_extent_header_verify buf size1 = None"
  by (cases d) auto

section \<open>States of the walk\<close>

text \<open>The handle stands at entry \<open>i\<close> of the node \<open>buf\<close>.\<close>

definition at_entry :: "extent_handle \<Rightarrow> byte list \<Rightarrow> nat \<Rightarrow> nat \<Rightarrow> bool" where
  "at_entry h buf i v \<longleftrightarrow>
     length (h_path h) = Suc (h_max_depth h) \<and> h_level h \<le> h_max_depth h \<and> i < eh_entries buf \<and>
     (let p = cur_path h in ep_buf p = buf \<and> ep_entries p = eh_entries buf \<and> ep_left p = eh_entries buf - 1 - i \<and>
        ep_curr p = Some (int i) \<and> ep_visit_num p = v)"

text \<open>The blocks on the way from the root, which the step down compares with.\<close>

definition ancestors :: "extent_handle \<Rightarrow> u64 set" where
  "ancestors h = (\<lambda>i. ep_blk (h_path h ! i)) ` {1..h_level h}"

text \<open>The same way from the root and the same tree; the paths below may differ.\<close>

definition same_way :: "extent_handle \<Rightarrow> extent_handle \<Rightarrow> bool" where
  "same_way h h' \<longleftrightarrow> h_level h' = h_level h \<and> h_max_depth h' = h_max_depth h \<and> length (h_path h') = length (h_path h) \<and>
     take (h_level h) (h_path h') = take (h_level h) (h_path h) \<and> ep_blk (cur_path h') = ep_blk (cur_path h)"

lemma same_way_refl [simp]: "same_way h h"
  by (simp add: same_way_def)

lemma same_way_trans: "same_way a b \<Longrightarrow> same_way b c \<Longrightarrow> same_way a c"
  by (auto simp: same_way_def)

lemma same_way_ancestors:
  assumes "same_way h h'" and "h_level h < length (h_path h)"
  shows "ancestors h' = ancestors h"
proof -
  have "ep_blk (h_path h' ! i) = ep_blk (h_path h ! i)" if "i \<in> {1..h_level h}" for i
  proof (cases "i = h_level h")
    case True
    have "ep_blk (h_path h' ! h_level h') = ep_blk (h_path h ! h_level h)" "h_level h' = h_level h"
      using assms(1) by (auto simp: same_way_def cur_path_def)
    then show ?thesis using True by simp
  next
    case False
    then have "i < h_level h" using that by simp
    then show ?thesis using assms(1) unfolding same_way_def by (metis nth_take)
  qed
  then show ?thesis using assms(1) by (simp add: ancestors_def same_way_def)
qed

text \<open>Changes below a node leave the node's own entry as it is.\<close>

lemma same_way_up:
  assumes "same_way h1 h2" and "h_level h1 = Suc l"
  shows "at_entry (h1\<lparr>h_level := l\<rparr>) buf i v \<Longrightarrow> at_entry (h2\<lparr>h_level := h_level h2 - 1\<rparr>) buf i v"
    and "same_way (h1\<lparr>h_level := l\<rparr>) (h2\<lparr>h_level := h_level h2 - 1\<rparr>)"
proof -
  have t: "take (Suc l) (h_path h2) = take (Suc l) (h_path h1)" and l2: "h_level h2 = Suc l"
    and m: "h_max_depth h2 = h_max_depth h1" "length (h_path h2) = length (h_path h1)"
    using assms by (auto simp: same_way_def)
  have n: "h_path h2 ! l = h_path h1 ! l" using t by (metis lessI nth_take)
  have "take l (h_path h2) = take l (h_path h1)" using arg_cong [OF t, of "take l"] by (simp add: min_def)
  then show "same_way (h1\<lparr>h_level := l\<rparr>) (h2\<lparr>h_level := h_level h2 - 1\<rparr>)"
    using n l2 m by (simp add: same_way_def cur_path_def)
  show "at_entry (h1\<lparr>h_level := l\<rparr>) buf i v \<Longrightarrow> at_entry (h2\<lparr>h_level := h_level h2 - 1\<rparr>) buf i v"
    using n l2 m by (simp add: at_entry_def cur_path_def)
qed

text \<open>One step with \<open>EXT2_EXTENT_NEXT\<close> that returns an extent, and the extents of a sequence of them.\<close>

definition next_to :: "ext2_filsys \<Rightarrow> extent_handle \<Rightarrow> extent \<Rightarrow> extent_handle \<Rightarrow> bool" where
  "next_to fs h ext h' \<longleftrightarrow> (\<forall>fuel e. ext2fs_extent_get (Suc fuel) fs h EXT2_EXTENT_NEXT e = Inr (None, h', ext))"

inductive walk :: "ext2_filsys \<Rightarrow> extent_handle \<Rightarrow> extent list \<Rightarrow> extent_handle \<Rightarrow> bool"
  for fs where
  stay: "walk fs h [] h"
| step: "next_to fs h ext h1 \<Longrightarrow> walk fs h1 exts h2 \<Longrightarrow> walk fs h (ext # exts) h2"

inductive_cases walk_NilE: "walk fs h [] h'"
inductive_cases walk_ConsE: "walk fs h (ext # exts) h'"

lemma walk_trans: "walk fs a xs b \<Longrightarrow> walk fs b ys c \<Longrightarrow> walk fs a (xs @ ys) c"
  by (induction rule: walk.induct) (auto intro: walk.intros)

section \<open>Single steps\<close>

lemma set_path_simps [simp]:
  "h_level (set_path f h) = h_level h" "h_max_depth (set_path f h) = h_max_depth h"
  "length (h_path (set_path f h)) = length (h_path h)"
  "take (h_level h) (h_path (set_path f h)) = take (h_level h) (h_path h)"
  by (simp_all add: set_path_def)

lemma cur_path_set_path [simp]:
  "h_level h < length (h_path h) \<Longrightarrow> cur_path (set_path f h) = f (cur_path h)"
  by (simp add: set_path_def cur_path_def)

text \<open>The leaf extents among those returned on arriving at entry \<open>k\<close>: none in an interior node.\<close>

definition arrive :: "nat \<Rightarrow> byte list \<Rightarrow> nat \<Rightarrow> extent list" where
  "arrive d buf k = (if d = 0 then [leaf_extent (ent buf k)] else [])"

lemma leaf_len_word:
  "unat (if (ucast (ee_len x) :: u32) > 0x8000 then ucast (ee_len x) - 0x8000 else (ucast (ee_len x) :: u32)) = leaf_len x"
proof -
  have "unat (ee_len x) < 2 ^ 16" using unsigned_less [of "ee_len x"] by simp
  then have u: "unat (ucast (ee_len x) :: u32) = unat (ee_len x)" by (simp add: unsigned_ucast_eq take_bit_nat_eq_self)
  have "unat ((ucast (ee_len x) :: u32) - 0x8000) = unat (ee_len x) - 0x8000" if "(ucast (ee_len x) :: u32) > 0x8000"
    using that u unat_sub [of "0x8000" "ucast (ee_len x) :: u32"] by simp
  then show ?thesis using u by (simp add: leaf_len_def Let_def word_less_nat_alt)
qed

lemma leaf_extent_len: "unat (e_len (leaf_extent x)) = leaf_len x"
  using leaf_len_word [of x] by (simp add: leaf_extent_def Let_def)

lemma leaf_extent_blocks: "extent_blocks (leaf_extent e) = leaf_blocks e"
proof -
  have "e_pblk (leaf_extent e) = ee_pblk e" by (simp add: leaf_extent_def Let_def)
  then show ?thesis by (simp add: extent_blocks_def leaf_blocks_def leaf_extent_len)
qed

lemma node_leaves_blocks: "concat (map extent_blocks (node_leaves fs d buf)) = node_blocks fs d buf"
proof (induction d arbitrary: buf)
  case (Suc d)
  have "concat (map extent_blocks (concat (map (\<lambda>k. node_leaves fs d (child fs buf k)) ks))) = concat (map (\<lambda>k. node_blocks fs d (child fs buf k)) ks)" for ks
    using Suc.IH by (induction ks) simp_all
  then show ?case by simp
qed (simp add: comp_def leaf_extent_blocks)

text \<open>Decoding the entry at which the handle stands.\<close>

lemma decode_at_entry:
  assumes at: "at_entry h buf i v" and d: "h_max_depth h = h_level h + d" and ok: "node_ok fs anc size1 d buf" "12 \<le> size1" and v: "d = 0 \<Longrightarrow> v = 0"
  shows "\<exists>ext. extent_decode h (int i) = Inr ext \<and> filter e_leaf [ext] = arrive d buf i"
proof -
  have e: "entry_at buf (int i) = Inr (ent buf i)" using at by (intro node_entries [OF ok]) (simp add: at_entry_def)
  have e1: "entry_at buf (int i + 1) = Inr (ent buf (Suc i))" if "ep_left (cur_path h) > 0"
    using node_entries [OF ok, of "Suc i"] that at by (simp add: at_entry_def Let_def add.commute)
  have p: "ep_buf (cur_path h) = buf" "ep_visit_num (cur_path h) = v" using at by (simp_all add: at_entry_def Let_def)
  show ?thesis
  proof (cases d)
    case 0
    then show ?thesis using e p d v by (simp add: extent_decode_def Let_def arrive_def leaf_extent_def)
  next
    case (Suc d')
    then show ?thesis using e e1 p d by (auto simp: extent_decode_def Let_def arrive_def)
  qed
qed

lemma next_sib_step:
  assumes at: "at_entry h buf i v" and d: "h_max_depth h = h_level h + d" and ok: "node_ok fs anc size1 d buf" "12 \<le> size1"
    and v: "d = 0 \<or> v \<noteq> 0" and i: "Suc i < eh_entries buf"
  shows "\<exists>h' ext. next_to fs h ext h' \<and> filter e_leaf [ext] = arrive d buf (Suc i) \<and> at_entry h' buf (Suc i) 0 \<and> same_way h h'"
proof -
  let ?h = "set_path (\<lambda>p. p\<lparr>ep_left := ep_left p - 1, ep_curr := Some (int i + 1), ep_visit_num := 0\<rparr>) h"
  have lt: "h_level h < length (h_path h)" using at by (simp add: at_entry_def)
  have at': "at_entry ?h buf (Suc i) 0" using at i lt by (auto simp: at_entry_def Let_def)
  have sw: "same_way h ?h" using lt by (simp add: same_way_def)
  obtain ext where e: "extent_decode ?h (int (Suc i)) = Inr ext" "filter e_leaf [ext] = arrive d buf (Suc i)"
    using decode_at_entry [OF at' _ ok] d by auto
  have "extent_choose h EXT2_EXTENT_NEXT = (Inr EXT2_EXTENT_NEXT_SIB, h)"
    using at v d i by (auto simp: extent_choose_def at_entry_def Let_def)
  moreover have "extent_move fs h EXT2_EXTENT_NEXT EXT2_EXTENT_NEXT_SIB = Inr (None, False, ?h, Some (int i + 1))"
    using at i by (simp add: extent_move_def next_sib_def at_entry_def Let_def)
  ultimately have "next_to fs h ext ?h" using e(1) by (simp add: next_to_def ext2fs_extent_get_def add.commute)
  then show ?thesis using at' sw e(2) by blast
qed

lemma up_step:
  assumes at: "at_entry h cbuf (eh_entries cbuf - 1) v" and d: "h_max_depth h = h_level h + d" and v: "d = 0 \<or> v \<noteq> 0" and l: "0 < h_level h"
    and hp: "hp = h\<lparr>h_level := h_level h - 1\<rparr>" and atp: "at_entry hp buf i 1"
    and ok: "node_ok fs anc size1 (Suc d) buf" "12 \<le> size1"
  shows "\<exists>ext. next_to fs h ext hp \<and> filter e_leaf [ext] = []"
proof -
  have "h_max_depth hp = h_level hp + Suc d" using hp d l by simp
  then obtain ext where e: "extent_decode hp (int i) = Inr ext" "filter e_leaf [ext] = []"
    using decode_at_entry [OF atp _ ok] by (auto simp: arrive_def)
  have "extent_choose h EXT2_EXTENT_NEXT = (Inr EXT2_EXTENT_UP, h)"
    using at v d l by (auto simp: extent_choose_def at_entry_def Let_def)
  moreover have "extent_move fs h EXT2_EXTENT_NEXT EXT2_EXTENT_UP = Inr (None, False, hp, Some (int i))"
    using atp hp l by (simp add: extent_move_def at_entry_def Let_def)
  ultimately have "next_to fs h ext hp" using e(1) by (simp add: next_to_def ext2fs_extent_get_def)
  then show ?thesis using e(2) by blast
qed

lemma extent_down_at:
  assumes at: "at_entry h buf i v" and d: "h_max_depth h = h_level h + Suc d" and fs: "plain_fs fs"
    and ok: "node_ok fs (ancestors h) size1 (Suc d) buf" "12 \<le> size1"
  shows "\<exists>h'. extent_down fs False h = Inr (None, False, h', Some 0) \<and> at_entry h' (child fs buf i) 0 0 \<and>
     h_level h' = Suc (h_level h) \<and> h_max_depth h' = h_max_depth h \<and> ancestors h' = insert (ei_leaf (ent buf i)) (ancestors h) \<and>
     at_entry (h'\<lparr>h_level := h_level h\<rparr>) buf i v \<and> same_way h (h'\<lparr>h_level := h_level h\<rparr>)"
proof -
  let ?c = "child fs buf i" and ?blk = "ei_leaf (ent buf i)" and ?l = "h_level h"
  have i: "i < eh_entries buf" and len: "length (h_path h) = Suc (h_max_depth h)" using at by (simp_all add: at_entry_def)
  have lt: "?l < length (h_path h)" "Suc ?l < length (h_path h)" using len d by simp_all
  note c = node_ok_child [OF ok(1) i]
  have n: "0 < eh_entries ?c" and ver: "ext2fs_extent_header_verify ?c (fs_blocksize fs) = None"
    using node_ok_nonempty [OF c(3)] node_ok_verify [OF c(3)] .
  have h: "ep_buf (cur_path h) = buf" "ep_curr (cur_path h) = Some (int i)" "ep_left (cur_path h) = eh_entries buf - 1 - i"
    using at by (simp_all add: at_entry_def Let_def)
  have anc: "\<not> (\<exists>j \<in> {1..?l}. ep_blk (h_path h ! j) = ?blk)" using c(1) by (auto simp: ancestors_def image_iff)
  have e: "entry_at buf (int i) = Inr (ent buf i)" by (rule node_entries [OF ok i])
  have "\<exists>end_blk. (if ep_left (cur_path h) > 0 then and_then (entry_at buf (int i + 1)) (\<lambda>e. Inr (ucast (ei_block e)))
                        else Inr (ep_end_blk (cur_path h))) = (Inr end_blk :: u64 res)"
    using node_entries [OF ok, of "Suc i"] h(3) by (auto simp: add.commute)
  then obtain end_blk :: u64 where eb: "(if ep_left (cur_path h) > 0 then and_then (entry_at buf (int i + 1)) (\<lambda>e. Inr (ucast (ei_block e)))
                        else Inr (ep_end_blk (cur_path h))) = Inr end_blk" by blast
  define np where "np = (h_path h ! Suc ?l)\<lparr>ep_blk := ?blk, ep_buf := ?c, ep_entries := eh_entries ?c,
    ep_max_entries := eh_max ?c, ep_end_blk := end_blk, ep_curr := Some 0, ep_left := eh_entries ?c - 1, ep_visit_num := 0\<rparr>"
  define h2 where "h2 = h\<lparr>h_level := Suc ?l, h_path := (h_path h)[Suc ?l := np]\<rparr>"
  have "at_entry h2 ?c 0 0" using lt len d n by (simp add: at_entry_def h2_def cur_path_def np_def)
  moreover have "extent_down fs False h = Inr (None, False, h2, Some 0)"
    using h anc e eb c(2) ver n fs d
    by (cases "ep_left (cur_path h) > 0") (auto simp: extent_down_def Let_def plain_fs_def h2_def np_def and_then_def split: sum.splits)
  moreover have "ep_blk (h_path h2 ! j) = (if j = Suc ?l then ?blk else ep_blk (h_path h ! j))" for j
    using lt by (simp add: h2_def np_def)
  then have "ancestors h2 = insert ?blk (ancestors h)"
    by (auto simp: ancestors_def h2_def atLeastAtMostSuc_conv image_iff)
  moreover have "at_entry (h2\<lparr>h_level := ?l\<rparr>) buf i v"
    using at lt by (simp add: at_entry_def Let_def h2_def cur_path_def)
  moreover have "same_way h (h2\<lparr>h_level := ?l\<rparr>)"
    using lt by (simp add: same_way_def h2_def cur_path_def)
  ultimately show ?thesis by (auto simp: h2_def)
qed

lemma down_step:
  assumes at: "at_entry h buf i 0" and d: "h_max_depth h = h_level h + Suc d" and fs: "plain_fs fs"
    and ok: "node_ok fs (ancestors h) size1 (Suc d) buf" "12 \<le> size1"
  shows "\<exists>h' ext. next_to fs h ext h' \<and> filter e_leaf [ext] = arrive d (child fs buf i) 0 \<and> at_entry h' (child fs buf i) 0 0 \<and>
     h_level h' = Suc (h_level h) \<and> h_max_depth h' = h_max_depth h \<and> ancestors h' = insert (ei_leaf (ent buf i)) (ancestors h) \<and>
     at_entry (h'\<lparr>h_level := h_level h\<rparr>) buf i 1 \<and> same_way h (h'\<lparr>h_level := h_level h\<rparr>)"
proof -
  let ?c = "child fs buf i"
  have lt: "h_level h < length (h_path h)" using at by (simp add: at_entry_def)
  define h1 where "h1 = set_path (\<lambda>p. p\<lparr>ep_visit_num := ep_visit_num p + 1\<rparr>) h"
  have at1: "at_entry h1 buf i 1" using at lt by (simp add: h1_def at_entry_def Let_def)
  have sw: "same_way h h1" using lt by (simp add: h1_def same_way_def)
  have l1: "h_level h1 = h_level h" "h_max_depth h1 = h_max_depth h" by (simp_all add: h1_def)
  have anc: "ancestors h1 = ancestors h" by (rule same_way_ancestors [OF sw lt])
  obtain h2 where h2: "extent_down fs False h1 = Inr (None, False, h2, Some 0)" "at_entry h2 ?c 0 0"
    "h_level h2 = Suc (h_level h1)" "h_max_depth h2 = h_max_depth h1" "ancestors h2 = insert (ei_leaf (ent buf i)) (ancestors h1)"
    "at_entry (h2\<lparr>h_level := h_level h1\<rparr>) buf i 1" "same_way h1 (h2\<lparr>h_level := h_level h1\<rparr>)"
    using extent_down_at [OF at1 _ fs, of d size1] d ok anc l1 by auto
  have "node_ok fs (ancestors h2) (fs_blocksize fs) d ?c"
    using node_ok_child(3) [OF ok(1), of i] at h2(5) anc by (simp add: at_entry_def)
  then obtain ext where e: "extent_decode h2 (int 0) = Inr ext" "filter e_leaf [ext] = arrive d ?c 0"
    using decode_at_entry [OF h2(2), of d fs "ancestors h2" "fs_blocksize fs"] d h2(3,4) l1 fs by (auto simp: plain_fs_def)
  have "extent_choose h EXT2_EXTENT_NEXT = (Inr EXT2_EXTENT_DOWN, h1)"
    using at d by (auto simp: extent_choose_def at_entry_def Let_def h1_def)
  then have "next_to fs h ext h2"
    using e(1) h2(1) by (simp add: next_to_def ext2fs_extent_get_def extent_move_def)
  then show ?thesis using h2 l1 anc e(2) same_way_trans [OF sw] by (intro exI [of _ h2] exI [of _ ext]) auto
qed

section \<open>Whole nodes\<close>

text \<open>The leaf extents below entry \<open>k\<close>, and those the walk has still to find when it has arrived at entry \<open>i\<close>.\<close>

definition entry_leaves :: "ext2_filsys \<Rightarrow> nat \<Rightarrow> byte list \<Rightarrow> nat \<Rightarrow> extent list" where
  "entry_leaves fs d buf k = (case d of 0 \<Rightarrow> [leaf_extent (ent buf k)] | Suc d' \<Rightarrow> node_leaves fs d' (child fs buf k))"

definition rest_leaves :: "ext2_filsys \<Rightarrow> nat \<Rightarrow> byte list \<Rightarrow> nat \<Rightarrow> extent list" where
  "rest_leaves fs d buf i =
     (if d = 0 then [] else entry_leaves fs d buf i) @ concat (map (entry_leaves fs d buf) [Suc i..<eh_entries buf])"

lemma node_leaves_entries: "node_leaves fs d buf = concat (map (entry_leaves fs d buf) [0..<eh_entries buf])"
proof -
  have "map f xs = concat (map (\<lambda>x. [f x]) xs)" for f :: "nat \<Rightarrow> extent" and xs by (induction xs) simp_all
  then show ?thesis by (cases d) (simp_all add: entry_leaves_def [abs_def])
qed

lemma arrive_rest_leaves: "i < eh_entries buf \<Longrightarrow>
   arrive d buf i @ rest_leaves fs d buf i = concat (map (entry_leaves fs d buf) [i..<eh_entries buf])"
  by (cases d) (simp_all add: arrive_def rest_leaves_def entry_leaves_def upt_conv_Cons)

lemma rest_leaves_step: "Suc i < eh_entries buf \<Longrightarrow>
   rest_leaves fs d buf i = (if d = 0 then [] else entry_leaves fs d buf i) @ arrive d buf (Suc i) @ rest_leaves fs d buf (Suc i)"
  by (simp add: arrive_rest_leaves) (simp add: rest_leaves_def)

lemma rest_leaves_last: "rest_leaves fs d buf (eh_entries buf - 1) = (if d = 0 then [] else entry_leaves fs d buf (eh_entries buf - 1))"
  by (cases "eh_entries buf") (simp_all add: rest_leaves_def)

text \<open>From entry \<open>i\<close> on, when each entry on its own can be walked through in \<open>through\<close>.\<close>

definition tree_walks :: "ext2_filsys \<Rightarrow> nat \<Rightarrow> byte list \<Rightarrow> extent_handle \<Rightarrow> nat \<Rightarrow> bool" where
  "tree_walks fs d buf h i \<longleftrightarrow> (\<exists>exts h' v. walk fs h exts h' \<and> filter e_leaf exts = rest_leaves fs d buf i \<and>
     at_entry h' buf (eh_entries buf - 1) v \<and> (d = 0 \<or> v \<noteq> 0) \<and> same_way h h')"

definition through :: "ext2_filsys \<Rightarrow> nat \<Rightarrow> byte list \<Rightarrow> extent_handle \<Rightarrow> nat \<Rightarrow> bool" where
  "through fs d buf h i \<longleftrightarrow> (\<exists>exts h' v. walk fs h exts h' \<and> filter e_leaf exts = (if d = 0 then [] else entry_leaves fs d buf i) \<and>
     at_entry h' buf i v \<and> (d = 0 \<or> v \<noteq> 0) \<and> same_way h h')"

lemma walks_entries:
  assumes step: "\<And>h i. at_entry h buf i 0 \<Longrightarrow> h_max_depth h = h_level h + d \<Longrightarrow> ancestors h = anc \<Longrightarrow> through fs d buf h i"
    and ok: "node_ok fs anc size1 d buf" "12 \<le> size1"
  shows "at_entry h buf i 0 \<Longrightarrow> h_max_depth h = h_level h + d \<Longrightarrow> ancestors h = anc \<Longrightarrow> tree_walks fs d buf h i"
proof (induction "eh_entries buf - 1 - i" arbitrary: h i)
  case (0 i h)
  then have i: "i = eh_entries buf - 1" by (auto simp: at_entry_def)
  show ?case using step [OF 0(2-4)] unfolding tree_walks_def through_def i rest_leaves_last .
next
  case (Suc k i h)
  obtain xs h1 v where 1: "walk fs h xs h1" "filter e_leaf xs = (if d = 0 then [] else entry_leaves fs d buf i)"
    "at_entry h1 buf i v" "d = 0 \<or> v \<noteq> 0" "same_way h h1"
    using step [OF Suc(3-5)] unfolding through_def by blast
  have i: "Suc i < eh_entries buf" using Suc(2) by linarith
  have d1: "h_max_depth h1 = h_level h1 + d" using 1(5) Suc(4) by (simp add: same_way_def)
  obtain h2 ext where 2: "next_to fs h1 ext h2" "filter e_leaf [ext] = arrive d buf (Suc i)" "at_entry h2 buf (Suc i) 0" "same_way h1 h2"
    using next_sib_step [OF 1(3) d1 ok 1(4) i] by blast
  have sw: "same_way h h2" by (rule same_way_trans [OF 1(5) 2(4)])
  have "h_level h < length (h_path h)" using Suc(3) by (simp add: at_entry_def)
  then have "ancestors h2 = anc" using same_way_ancestors [OF sw] Suc(5) by simp
  moreover have "h_max_depth h2 = h_level h2 + d" using sw Suc(4) by (simp add: same_way_def)
  moreover have "k = eh_entries buf - 1 - Suc i" using Suc(2) by simp
  ultimately obtain ys h3 v' where 3: "walk fs h2 ys h3" "filter e_leaf ys = rest_leaves fs d buf (Suc i)"
    "at_entry h3 buf (eh_entries buf - 1) v'" "d = 0 \<or> v' \<noteq> 0" "same_way h2 h3"
    using Suc(1) 2(3) unfolding tree_walks_def by blast
  have "walk fs h (xs @ ext # ys) h3" by (rule walk_trans [OF 1(1) walk.step [OF 2(1) 3(1)]])
  moreover have "filter e_leaf (xs @ [ext] @ ys) = rest_leaves fs d buf i"
    unfolding filter_append 1(2) 2(2) 3(2) rest_leaves_step [OF i] ..
  ultimately show ?case unfolding tree_walks_def using 3(3,4) same_way_trans [OF sw 3(5)]
    by (intro exI [of _ "xs @ ext # ys"] exI [of _ h3] exI [of _ v']) simp
qed

lemma through_entry:
  assumes IH: "\<And>d' h buf i size1. d = Suc d' \<Longrightarrow> at_entry h buf i 0 \<Longrightarrow> h_max_depth h = h_level h + d' \<Longrightarrow>
      node_ok fs (ancestors h) size1 d' buf \<Longrightarrow> 12 \<le> size1 \<Longrightarrow> tree_walks fs d' buf h i"
    and fs: "plain_fs fs" and at: "at_entry h buf i 0" and d: "h_max_depth h = h_level h + d"
    and ok: "node_ok fs (ancestors h) size1 d buf" "12 \<le> size1"
  shows "through fs d buf h i"
proof (cases d)
  case 0
  then show ?thesis using at walk.stay [of fs h] unfolding through_def by (intro exI [of _ "[]"] exI [of _ h] exI [of _ 0]) simp
next
  case (Suc d')
  let ?c = "child fs buf i"
  have i: "i < eh_entries buf" using at by (simp add: at_entry_def)
  have bs: "12 \<le> fs_blocksize fs" using fs by (simp add: plain_fs_def)
  obtain h1 ext where 1: "next_to fs h ext h1" "filter e_leaf [ext] = arrive d' ?c 0" "at_entry h1 ?c 0 0"
    "h_level h1 = Suc (h_level h)" "h_max_depth h1 = h_max_depth h" "ancestors h1 = insert (ei_leaf (ent buf i)) (ancestors h)"
    "at_entry (h1\<lparr>h_level := h_level h\<rparr>) buf i 1" "same_way h (h1\<lparr>h_level := h_level h\<rparr>)"
    using down_step [OF at d [unfolded Suc] fs ok(1) [unfolded Suc] ok(2)] by blast
  have okc: "node_ok fs (ancestors h1) (fs_blocksize fs) d' ?c" using node_ok_child(3) [OF ok(1) [unfolded Suc] i] 1(6) by simp
  have "tree_walks fs d' ?c h1 0" using IH [OF Suc 1(3) _ okc bs] 1(4,5) d Suc by simp
  then obtain xs h2 v where 2: "walk fs h1 xs h2" "filter e_leaf xs = rest_leaves fs d' ?c 0"
    "at_entry h2 ?c (eh_entries ?c - 1) v" "d' = 0 \<or> v \<noteq> 0" "same_way h1 h2"
    unfolding tree_walks_def by blast
  define h3 where "h3 = h2\<lparr>h_level := h_level h2 - 1\<rparr>"
  have up: "at_entry h3 buf i 1" "same_way h h3"
    using same_way_up [OF 2(5) 1(4), folded h3_def] 1(7,8) by (auto intro: same_way_trans)
  obtain ext' where 3: "next_to fs h2 ext' h3" "filter e_leaf [ext'] = []"
    using up_step [OF 2(3) _ 2(4) _ h3_def up(1) ok(1) [unfolded Suc] ok(2)] 2(5) 1(4,5) d Suc by (auto simp: same_way_def)
  have "walk fs h (ext # xs @ [ext']) h3"
    using walk_trans [OF walk.step [OF 1(1) 2(1)] walk.step [OF 3(1) walk.stay]] by simp
  moreover have "filter e_leaf ([ext] @ xs @ [ext']) = entry_leaves fs d buf i"
    unfolding filter_append 1(2) 2(2) 3(2) using arrive_rest_leaves [OF node_ok_nonempty [OF okc], of d' fs]
    by (simp add: Suc entry_leaves_def node_leaves_entries)
  ultimately show ?thesis unfolding through_def using up Suc by (intro exI [of _ "[ext] @ xs @ [ext']"] exI [of _ h3] exI [of _ 1]) simp
qed

lemma walks_node:
  assumes "plain_fs fs"
  shows "at_entry h buf i 0 \<Longrightarrow> h_max_depth h = h_level h + d \<Longrightarrow> node_ok fs (ancestors h) size1 d buf \<Longrightarrow> 12 \<le> size1 \<Longrightarrow>
    tree_walks fs d buf h i"
proof (induction d arbitrary: h buf i size1 rule: less_induct)
  case (less d)
  have "through fs d buf h' i'"
    if "at_entry h' buf i' 0" "h_max_depth h' = h_level h' + d" "ancestors h' = ancestors h" for h' i'
    using less.IH less.prems(3,4) that by (intro through_entry [OF _ assms that(1,2)]) auto
  then show ?case by (rule walks_entries [OF _ less.prems(3,4,1,2) refl])
qed

section \<open>The whole tree\<close>

text \<open>
  The root is entered at its first entry; a root without entries ends the walk at once. \<open>walks_from\<close>: the extents that
  \<open>EXT2_EXTENT_ROOT\<close> and then \<open>EXT2_EXTENT_NEXT\<close> return until there is none any more.
\<close>

definition ends_at :: "ext2_filsys \<Rightarrow> extent_handle \<Rightarrow> bool" where
  "ends_at fs h \<longleftrightarrow> (\<forall>fuel e. ext2fs_extent_get (Suc fuel) fs h EXT2_EXTENT_NEXT e = Inr (Some EXT2_ET_EXTENT_NO_NEXT, h, e))"

definition walks_from :: "ext2_filsys \<Rightarrow> extent_handle \<Rightarrow> extent list \<Rightarrow> bool" where
  "walks_from fs h exts \<longleftrightarrow> (\<exists>ext rest h1 h2. exts = ext # rest \<and> (\<forall>fuel e. ext2fs_extent_get (Suc fuel) fs h EXT2_EXTENT_ROOT e = Inr (None, h1, ext)) \<and>
     walk fs h1 rest h2 \<and> ends_at fs h2)"

lemma empty_root:
  assumes "h_level h = 0" and "length (h_path h) = Suc (h_max_depth h)" and "ep_entries (cur_path h) = 0"
  shows "\<exists>h'. ext2fs_extent_get (Suc fuel) fs h EXT2_EXTENT_ROOT e = Inr (Some EXT2_ET_EXTENT_NO_NEXT, h', e)"
  using assms by (simp add: ext2fs_extent_get_def extent_choose_def extent_move_def next_sib_def Let_def set_path_def cur_path_def)

lemma root_step:
  assumes h: "h_level h = 0" "length (h_path h) = Suc (h_max_depth h)" "cur_path h = p" "ep_buf p = buf" "ep_entries p = eh_entries buf"
    and ok: "node_ok fs {} size1 (h_max_depth h) buf" "12 \<le> size1"
  shows "\<exists>h' ext. at_entry h' buf 0 0 \<and> h_level h' = 0 \<and> h_max_depth h' = h_max_depth h \<and>
    (\<forall>fuel e. ext2fs_extent_get (Suc fuel) fs h EXT2_EXTENT_ROOT e = Inr (None, h', ext)) \<and> filter e_leaf [ext] = arrive (h_max_depth h) buf 0"
proof -
  let ?h = "set_path (\<lambda>p. p\<lparr>ep_left := eh_entries buf - 1, ep_curr := Some 0, ep_visit_num := 0\<rparr>) h"
  have lt: "h_level h < length (h_path h)" and n: "0 < eh_entries buf" using h node_ok_nonempty [OF ok(1)] by simp_all
  have at: "at_entry ?h buf 0 0" using h lt n by (simp add: at_entry_def)
  obtain ext where e: "extent_decode ?h (int 0) = Inr ext" "filter e_leaf [ext] = arrive (h_max_depth h) buf 0"
    using decode_at_entry [OF at _ ok] h by auto
  have "h\<lparr>h_level := 0\<rparr> = h" using h(1) by (cases h) simp
  then have "extent_move fs h EXT2_EXTENT_ROOT EXT2_EXTENT_ROOT = Inr (None, False, ?h, Some 0)"
    using h n by (simp add: extent_move_def next_sib_def Let_def set_path_def cur_path_def)
  moreover have "extent_choose h EXT2_EXTENT_ROOT = (Inr EXT2_EXTENT_ROOT, h)" by (simp add: extent_choose_def Let_def)
  ultimately show ?thesis using e at h(1) by (intro exI [of _ ?h] exI [of _ ext]) (simp add: ext2fs_extent_get_def)
qed

lemma root_end:
  assumes "at_entry h buf (eh_entries buf - 1) v" and "h_level h = 0" and "h_max_depth h = 0 \<or> v \<noteq> 0"
  shows "ends_at fs h"
  using assms by (auto simp: ends_at_def ext2fs_extent_get_def extent_choose_def at_entry_def Let_def)

lemma walks_tree:
  assumes h: "h_level h = 0" "length (h_path h) = Suc (h_max_depth h)" "cur_path h = p" "ep_buf p = buf" "ep_entries p = eh_entries buf"
    and ok: "node_ok fs {} size1 (h_max_depth h) buf" "12 \<le> size1" and fs: "plain_fs fs"
  shows "\<exists>exts. walks_from fs h exts \<and> filter e_leaf exts = node_leaves fs (h_max_depth h) buf"
proof -
  let ?d = "h_max_depth h"
  obtain h1 ext where 1: "at_entry h1 buf 0 0" "h_level h1 = 0" "h_max_depth h1 = ?d"
    "\<forall>fuel e. ext2fs_extent_get (Suc fuel) fs h EXT2_EXTENT_ROOT e = Inr (None, h1, ext)" "filter e_leaf [ext] = arrive ?d buf 0"
    using root_step [OF h ok] by blast
  have "ancestors h1 = {}" using 1(2) by (simp add: ancestors_def)
  then have "tree_walks fs ?d buf h1 0" using walks_node [OF fs 1(1), of ?d size1] 1 ok by simp
  then obtain xs h2 v where 2: "walk fs h1 xs h2" "filter e_leaf xs = rest_leaves fs ?d buf 0"
    "at_entry h2 buf (eh_entries buf - 1) v" "?d = 0 \<or> v \<noteq> 0" "same_way h1 h2"
    unfolding tree_walks_def by blast
  have "ends_at fs h2" using 2(4,5) 1(2,3) by (intro root_end [OF 2(3)]) (auto simp: same_way_def)
  then have "walks_from fs h (ext # xs)" using 1(4) 2(1) by (auto simp: walks_from_def)
  moreover have "filter e_leaf ([ext] @ xs) = node_leaves fs ?d buf"
    unfolding filter_append 1(5) 2(2) using arrive_rest_leaves [OF node_ok_nonempty [OF ok(1)], of ?d fs] by (simp add: node_leaves_entries)
  ultimately show ?thesis by auto
qed

lemma node_leaves_first: "ext \<in> set (node_leaves fs d buf) \<Longrightarrow> e_leaf ext \<and> \<not> e_second_visit ext"
  by (induction d arbitrary: buf) (auto simp: leaf_extent_def Let_def)

section \<open>The calls of \<open>lsblks\<close>\<close>

lemma run_blocks_foldl: "run_blocks func pblk i n s = foldl func s (map (\<lambda>j. pblk + of_nat j) [i..<i + n])"
proof (induction n arbitrary: i s)
  case (Suc n)
  have "[i..<i + Suc n] = i # [Suc i..<Suc i + n]" by (simp add: upt_rec)
  then show ?case by (simp add: Suc.IH)
qed simp

lemma extent_calls_foldl: "extent_calls func e s = foldl func s (extent_blocks e)"
proof -
  have "unat (e_len e) = 1" if "e_len e = 1" using that by simp
  then show ?thesis by (auto simp: extent_calls_def run_blocks_foldl extent_blocks_def)
qed

lemma extent_visit_blocks:
  assumes "e_leaf e \<Longrightarrow> \<not> e_second_visit e"
  shows "extent_visit True True func h e s = foldl func s (concat (map extent_blocks (filter e_leaf [e])))"
  using assms by (simp add: extent_visit_def ext2fs_extent_get_info_def Let_def extent_calls_foldl)

lemma dump_extents_walk:
  assumes "walk fs h exts h'" "ends_at fs h'" "\<And>e. e \<in> set exts \<Longrightarrow> e_leaf e \<Longrightarrow> \<not> e_second_visit e"
  shows "dump_extents_loop (Suc (length exts) + m) fs True True func h EXT2_EXTENT_NEXT e s =
    Inr (foldl func s (concat (map extent_blocks (filter e_leaf exts))))"
  using assms
proof (induction arbitrary: e s rule: walk.induct)
  case (step h ext h1 exts h2)
  have g: "ext2fs_extent_get (Suc (Suc (length exts + m))) fs h EXT2_EXTENT_NEXT e = Inr (None, h1, ext)"
    using step.hyps(1) by (simp add: next_to_def)
  have v: "extent_visit True True func h1 ext s = foldl func s (concat (map extent_blocks (filter e_leaf [ext])))"
    using step.prems(2) by (intro extent_visit_blocks) simp
  have "dump_extents_loop (Suc (length exts) + m) fs True True func h1 EXT2_EXTENT_NEXT e' s' =
      Inr (foldl func s' (concat (map extent_blocks (filter e_leaf exts))))" for e' s'
    using step.IH step.prems by simp
  then show ?case using g v by simp
qed (simp add: ends_at_def)

lemma dump_extents_from:
  assumes "walks_from fs h exts" "\<And>e. e \<in> set exts \<Longrightarrow> e_leaf e \<Longrightarrow> \<not> e_second_visit e"
  shows "dump_extents_loop (Suc (length exts) + m) fs True True func h EXT2_EXTENT_ROOT e s =
    Inr (foldl func s (concat (map extent_blocks (filter e_leaf exts))))"
proof -
  obtain ext rest h1 h2 where w: "exts = ext # rest" "\<And>fuel e. ext2fs_extent_get (Suc fuel) fs h EXT2_EXTENT_ROOT e = Inr (None, h1, ext)"
    "walk fs h1 rest h2" "ends_at fs h2" using assms(1) unfolding walks_from_def by blast
  have "extent_visit True True func h1 ext s = foldl func s (concat (map extent_blocks (filter e_leaf [ext])))"
    using assms(2) w(1) by (intro extent_visit_blocks) simp
  moreover have "dump_extents_loop (Suc (length rest) + m) fs True True func h1 EXT2_EXTENT_NEXT e' s' =
      Inr (foldl func s' (concat (map extent_blocks (filter e_leaf rest))))" for e' s'
    using assms(2) w(1) by (intro dump_extents_walk [OF w(3,4)]) simp
  ultimately show ?thesis using w(1,2) by simp
qed

lemma dump_extents_loop_node:
  assumes h: "h_level h = 0" "length (h_path h) = Suc (h_max_depth h)" "cur_path h = p" "ep_buf p = buf" "ep_entries p = eh_entries buf"
    and ok: "node_ok fs {} size1 (h_max_depth h) buf" "12 \<le> size1" and fs: "plain_fs fs"
  shows "\<exists>n. \<forall>m. dump_extents_loop (n + m) fs True True func h EXT2_EXTENT_ROOT e s = Inr (foldl func s (node_blocks fs (h_max_depth h) buf))"
proof -
  obtain exts where w: "walks_from fs h exts" "filter e_leaf exts = node_leaves fs (h_max_depth h) buf"
    using walks_tree [OF h ok fs] by blast
  have "\<not> e_second_visit e" if "e \<in> set exts" "e_leaf e" for e
  proof -
    have "e \<in> set (node_leaves fs (h_max_depth h) buf)" unfolding w(2) [symmetric] using that by simp
    then show ?thesis using node_leaves_first by blast
  qed
  then have "dump_extents_loop (Suc (length exts) + m) fs True True func h EXT2_EXTENT_ROOT e s = Inr (foldl func s (node_blocks fs (h_max_depth h) buf))" for m
    using dump_extents_from [OF w(1), of m func e s] by (simp add: w(2) node_leaves_blocks)
  then show ?thesis by blast
qed

text \<open>An all-zero \<open>i_block\<close> is not a header, so \<open>ext2fs_extent_open2\<close> takes a verified one as it is.\<close>

lemma zero_header: "(\<forall>b \<in> set buf. b = 0) \<Longrightarrow> ext2fs_extent_header_verify buf size1 \<noteq> None"
proof -
  assume z: "\<forall>b \<in> set buf. b = 0"
  then have "take 2 buf ! i = 0" if "i < length (take 2 buf)" for i
    using that by (meson nth_mem in_set_takeD)
  then have "eh_magic buf = 0"
    by (intro bit_word_eqI) (auto simp: eh_magic_def le16_at_def bit_word_of_le)
  then show ?thesis by (simp add: ext2fs_extent_header_verify_def EXT3_EXT_MAGIC_def)
qed

lemma extent_open2_root:
  assumes "(case inode_opt of Some i \<Rightarrow> Inr i | None \<Rightarrow> fs_read_inode fs ino) = Inr inode" "inode_opt = None \<longrightarrow> ino \<noteq> 0 \<and> ino \<le> fs_inodes_count fs"
    and "i_flags inode AND EXT4_EXTENTS_FL \<noteq> 0" and "ext2fs_extent_header_verify (i_block inode) 60 = None"
  shows "\<exists>h. ext2fs_extent_open2 fs ino inode_opt = Inr h \<and> h_level h = 0 \<and> h_max_depth h = eh_depth (i_block inode) \<and> h_inode h = inode \<and>
    length (h_path h) = Suc (h_max_depth h) \<and> ep_buf (cur_path h) = i_block inode \<and> ep_entries (cur_path h) = eh_entries (i_block inode)"
proof -
  have "(\<forall>b \<in> set (i_block inode). b = 0) = False" using zero_header assms(4) by blast
  moreover have "(inode_opt = None \<and> (ino = 0 \<or> ino > fs_inodes_count fs)) = False" using assms(2) by (auto simp: linorder_not_less)
  ultimately show ?thesis using assms(3,4) unfolding ext2fs_extent_open2_def Let_def assms(1)
    by (simp only: sum.case simp_thms if_False option.case) (simp add: cur_path_def)
qed

lemma extent_open_root:
  assumes "ino \<noteq> 0" "ino \<le> fs_inodes_count fs" "fs_read_inode fs ino = Inr inode" "i_flags inode AND EXT4_EXTENTS_FL \<noteq> 0"
    and "ext2fs_extent_header_verify (i_block inode) 60 = None"
  shows "\<exists>h. ext2fs_extent_open fs ino = Inr h \<and> h_level h = 0 \<and> h_max_depth h = eh_depth (i_block inode) \<and>
    length (h_path h) = Suc (h_max_depth h) \<and> ep_buf (cur_path h) = i_block inode \<and> ep_entries (cur_path h) = eh_entries (i_block inode)"
  using extent_open2_root [where inode_opt = None and fs = fs and ino = ino and inode = inode] assms unfolding ext2fs_extent_open_def by auto

lemma dump_extents_blocks:
  assumes ino: "ino \<noteq> 0" "ino \<le> fs_inodes_count fs" "fs_read_inode fs ino = Inr inode" "i_flags inode AND EXT4_EXTENTS_FL \<noteq> 0"
    and root: "length (i_block inode) = 60" "ext2fs_extent_header_verify (i_block inode) 60 = None"
      "eh_entries (i_block inode) = 0 \<or> node_ok fs {} 60 (eh_depth (i_block inode)) (i_block inode)"
    and fs: "plain_fs fs"
  shows "\<exists>n. \<forall>m. dump_extents (n + m) fs ino True True func priv =
     Inr (None, foldl func priv (node_blocks fs (eh_depth (i_block inode)) (i_block inode)))"
proof -
  let ?root = "i_block inode"
  obtain h where open2: "ext2fs_extent_open fs ino = Inr h" and h: "h_level h = 0" "h_max_depth h = eh_depth ?root"
    "length (h_path h) = Suc (h_max_depth h)" "ep_buf (cur_path h) = ?root" "ep_entries (cur_path h) = eh_entries ?root"
    using extent_open_root [OF ino root(2)] by blast
  have "\<exists>n. \<forall>m. dump_extents_loop (n + m) fs True True func h EXT2_EXTENT_ROOT no_extent priv = Inr (foldl func priv (node_blocks fs (eh_depth ?root) ?root))"
  proof (cases "eh_entries ?root = 0")
    case True
    then have "dump_extents_loop (Suc 0 + m) fs True True func h EXT2_EXTENT_ROOT no_extent priv = Inr (foldl func priv (node_blocks fs (eh_depth ?root) ?root))" for m
      using empty_root [OF h(1,3), of m fs no_extent] h(5) True by (cases "eh_depth ?root") auto
    then show ?thesis by blast
  next
    case False
    then show ?thesis using dump_extents_loop_node [OF h(1,3) refl h(4,5) _ _ fs, of 60 func no_extent priv] root(3) h(2) by simp
  qed
  then show ?thesis unfolding dump_extents_def open2 by (metis and_then_Inr sum.simps(6))
qed

section \<open>The blocks of an inode\<close>

text \<open>The data blocks of an inode in the order of the file, and when the code can list them.\<close>

definition file_blocks :: "ext2_filsys \<Rightarrow> ext2_inode \<Rightarrow> u64 list" where
  "file_blocks fs nd =
     (if i_flags nd AND EXT4_EXTENTS_FL \<noteq> 0 then node_blocks fs (eh_depth (i_block nd)) (i_block nd)
      else if i_flags nd AND EXT4_INLINE_DATA_FL \<noteq> 0 then []
      else mapped_blocks fs (words_of (i_block nd)))"

definition inode_ok :: "ext2_filsys \<Rightarrow> u32 \<Rightarrow> ext2_inode \<Rightarrow> bool" where
  "inode_ok fs ino nd \<longleftrightarrow>
     (if i_flags nd AND EXT4_EXTENTS_FL \<noteq> 0
      then ino \<noteq> 0 \<and> ino \<le> fs_inodes_count fs \<and> plain_fs fs \<and> length (i_block nd) = 60 \<and>
        ext2fs_extent_header_verify (i_block nd) 60 = None \<and>
        (eh_entries (i_block nd) = 0 \<or> node_ok fs {} 60 (eh_depth (i_block nd)) (i_block nd))
      else i_flags nd AND EXT4_INLINE_DATA_FL \<noteq> 0 \<or> mapped_ok fs (words_of (i_block nd)))"

lemma lsblks_file_blocks:
  assumes "opener dev = Inr (Inr fs)" and "fs_read_inode fs (ucast ino) = Inr nd" and "inode_ok fs (ucast ino) nd"
  shows "\<exists>n. \<forall>m. lsblks (n + m) opener code dev ino func priv = Inr (0, foldl func priv (file_blocks fs nd))"
proof (cases "i_flags nd AND EXT4_EXTENTS_FL \<noteq> 0")
  case True
  then obtain n where "\<forall>m. dump_extents (n + m) fs (ucast ino) True True func priv =
      Inr (None, foldl func priv (node_blocks fs (eh_depth (i_block nd)) (i_block nd)))"
    using dump_extents_blocks [of "ucast ino" fs nd func priv] assms(2,3) by (auto simp: inode_ok_def)
  then show ?thesis using True assms(1,2) by (intro exI [of _ n]) (simp add: lsblks_def file_blocks_def)
next
  case False
  then show ?thesis using dump_mapped_blocks [OF assms(2), of func priv] assms
    by (auto simp: lsblks_def file_blocks_def inode_ok_def)
qed

section \<open>Property\<close>

text \<open>
  C3: for an inode with extents whose tree verifies and has no cycle, \<open>dump_extents\<close> of lsblks ends,
  reports no error and has called its function on exactly the blocks of the leaf extents, in the
  order of the tree from left to right, uninitialised extents included, whatever the depth.
\<close>

theorem dump_extents_in_file_order:
  assumes ino: "ino \<noteq> 0" "ino \<le> fs_inodes_count fs" "fs_read_inode fs ino = Inr inode" "i_flags inode AND EXT4_EXTENTS_FL \<noteq> 0"
    and root: "length (i_block inode) = 60" "ext2fs_extent_header_verify (i_block inode) 60 = None"
      "eh_entries (i_block inode) = 0 \<or> node_ok fs {} 60 (eh_depth (i_block inode)) (i_block inode)"
    and fs: "plain_fs fs"
  shows "\<exists>n. \<forall>m. dump_extents (n + m) fs ino True True func priv =
     Inr (None, foldl func priv (node_blocks fs (eh_depth (i_block inode)) (i_block inode)))"
  using assms by (rule dump_extents_blocks)

definition tree_root :: "byte list" where
  "tree_root = [0x0a, 0xf3, 1, 0, 4, 0, 1, 0, 0, 0, 0, 0, 0, 0, 0, 0, 5, 0, 0, 0, 0, 0, 0, 0] @ replicate 36 0"

definition tree_leaf :: "byte list" where
  "tree_leaf = [0x0a, 0xf3, 2, 0, 84, 0, 0, 0, 0, 0, 0, 0, 0, 0, 0, 0, 2, 0, 0, 0, 100, 0, 0, 0,
     2, 0, 0, 0, 1, 0x80, 0, 0, 200, 0, 0, 0] @ replicate 988 0"

definition tree_fs :: ext2_filsys where
  "tree_fs = flat_fs\<lparr>fs_blocksize := 1024,
     fs_read_inode := (\<lambda>_. Inr \<lparr>i_mode_dir = True, i_flags = EXT4_EXTENTS_FL, i_size = 3072, i_size_high = 0, i_block = tree_root, i_translator = 0\<rparr>),
     fs_read_blk := (\<lambda>b. if b = 5 then Some tree_leaf else None)\<rparr>"

lemmas node_eval = eh_magic_def eh_entries_def eh_max_def eh_depth_def le16_at_def le32_at_def ent_def ei_leaf_def
  ext2fs_extent_header_verify_def EXT3_EXT_MAGIC_def

lemma tree_root_eval: "ext2fs_extent_header_verify tree_root 60 = None" "length tree_root = 60" "eh_entries tree_root = 1"
  "eh_depth tree_root = 1" "ei_leaf (ent tree_root 0) = 5"
  by (simp_all add: node_eval tree_root_def)

lemma tree_leaf_eval: "ext2fs_extent_header_verify tree_leaf 1024 = None" "length tree_leaf = 1024" "eh_entries tree_leaf = 2"
  by (simp_all add: node_eval tree_leaf_def)

theorem dump_extents_in_file_order_witness:
  "\<exists>n. \<forall>m. dump_extents (n + m) tree_fs 2 True True (\<lambda>bs b. bs @ [b]) [] =
     Inr (None, foldl (\<lambda>bs b. bs @ [b]) [] (node_blocks tree_fs (eh_depth tree_root) tree_root))"
proof -
  let ?inode = "\<lparr>i_mode_dir = True, i_flags = EXT4_EXTENTS_FL, i_size = 3072, i_size_high = 0, i_block = tree_root, i_translator = 0\<rparr>"
  have c: "fs_read_blk tree_fs 5 = Some tree_leaf" "fs_blocksize tree_fs = 1024" by (simp_all add: tree_fs_def)
  have "node_ok tree_fs {} 60 (Suc 0) tree_root"
    using tree_leaf_eval by (simp add: tree_root_eval c child_def)
  then have "\<exists>n. \<forall>m. dump_extents (n + m) tree_fs 2 True True (\<lambda>bs b. bs @ [b]) [] =
     Inr (None, foldl (\<lambda>bs b. bs @ [b]) [] (node_blocks tree_fs (eh_depth (i_block ?inode)) (i_block ?inode)))"
    by (intro dump_extents_in_file_order)
      (simp_all add: tree_root_eval tree_fs_def flat_fs_def plain_fs_def fs_image_file_def EXT4_EXTENTS_FL_def word_le_nat_alt)
  then show ?thesis by simp
qed

end
