(* ===== verification/Extent_Search.thy ===== *)
theory Extent_Search
  imports Extent_Walk
begin

text \<open>
  Searching an extent tree: the tree is an association list from logical to physical blocks, which the
  iteration of \<open>lsblks\<close> visits from left to right. For trees whose keys are in order \<open>ext2fs_extent_goto2\<close> ends
  and leaves the handle at the extent that has the block, or answers that there is none.
\<close>

section \<open>The mapping of an extent tree\<close>

definition leaf_map :: "byte list \<Rightarrow> (nat \<times> u64) list" where
  "leaf_map e = map (\<lambda>i. (unat (ee_block e) + i, ee_pblk e + of_nat i)) [0..<leaf_len e]"

fun tree_map :: "ext2_filsys \<Rightarrow> nat \<Rightarrow> byte list \<Rightarrow> (nat \<times> u64) list" where
  "tree_map fs 0 buf = concat (map (\<lambda>k. leaf_map (ent buf k)) [0..<eh_entries buf])"
| "tree_map fs (Suc d) buf = concat (map (\<lambda>k. tree_map fs d (child fs buf k)) [0..<eh_entries buf])"

lemma tree_map_blocks: "map snd (tree_map fs d buf) = node_blocks fs d buf"
  by (induction d arbitrary: buf) (simp_all add: map_concat comp_def leaf_map_def leaf_blocks_def)

text \<open>
  The keys of a node are in order and the blocks below an entry lie between its key and the next one.
  \<open>lo\<close> and \<open>hi\<close> bound the whole node.
\<close>

definition ekey :: "byte list \<Rightarrow> nat \<Rightarrow> nat" where
  "ekey buf k = unat (ee_block (ent buf k))"

definition upper :: "byte list \<Rightarrow> nat \<Rightarrow> nat \<Rightarrow> nat" where
  "upper buf hi k = (if Suc k < eh_entries buf then ekey buf (Suc k) else hi)"

fun ordered :: "ext2_filsys \<Rightarrow> nat \<Rightarrow> nat \<Rightarrow> nat \<Rightarrow> byte list \<Rightarrow> bool" where
  "ordered fs 0 lo hi buf \<longleftrightarrow>
     (\<forall>k < eh_entries buf. lo \<le> ekey buf k \<and> ekey buf k + leaf_len (ent buf k) \<le> upper buf hi k)"
| "ordered fs (Suc d) lo hi buf \<longleftrightarrow>
     (\<forall>k < eh_entries buf. lo \<le> ekey buf k \<and> ekey buf k < upper buf hi k \<and> ordered fs d (ekey buf k) (upper buf hi k) (child fs buf k))"

text \<open>The part of the mapping below one entry.\<close>

definition entry_map :: "ext2_filsys \<Rightarrow> nat \<Rightarrow> byte list \<Rightarrow> nat \<Rightarrow> (nat \<times> u64) list" where
  "entry_map fs d buf k = (case d of 0 \<Rightarrow> leaf_map (ent buf k) | Suc d' \<Rightarrow> tree_map fs d' (child fs buf k))"

lemma tree_map_entries: "tree_map fs d buf = concat (map (entry_map fs d buf) [0..<eh_entries buf])"
  by (cases d) (simp_all add: entry_map_def [abs_def])

lemma ordered_entry:
  assumes "ordered fs d lo hi buf" "k < eh_entries buf"
  shows "lo \<le> ekey buf k" "ekey buf k \<le> upper buf hi k"
  using assms by (cases d; force)+

lemma ordered_mono:
  assumes "ordered fs d lo hi buf"
  shows "j \<le> k \<Longrightarrow> k < eh_entries buf \<Longrightarrow> ekey buf j \<le> ekey buf k"
proof (induction k rule: dec_induct)
  case (step k)
  then show ?case using ordered_entry(2) [OF assms, of k] by (simp add: upper_def)
qed simp

lemma ordered_upper_mono:
  assumes "ordered fs d lo hi buf" "j < k" "k < eh_entries buf"
  shows "upper buf hi j \<le> ekey buf k"
  using ordered_mono [OF assms(1), of "Suc j" k] assms(2,3) by (simp add: upper_def)

lemma ordered_upper_hi:
  assumes "ordered fs d lo hi buf" "k < eh_entries buf"
  shows "upper buf hi k \<le> hi"
proof (cases "Suc k < eh_entries buf")
  case True
  have "ekey buf (Suc k) \<le> ekey buf (eh_entries buf - 1)" using True by (intro ordered_mono [OF assms(1)]) auto
  moreover have "ekey buf (eh_entries buf - 1) \<le> hi"
    using ordered_entry(2) [OF assms(1), of "eh_entries buf - 1"] assms(2) by (simp add: upper_def)
  ultimately show ?thesis by (simp add: upper_def)
qed (simp add: upper_def)

text \<open>The blocks below an entry lie in the range of the entry.\<close>

lemma tree_map_range:
  "ordered fs d lo hi buf \<Longrightarrow> (b, p) \<in> set (tree_map fs d buf) \<Longrightarrow> lo \<le> b \<and> b < hi"
proof (induction d arbitrary: lo hi buf)
  case 0
  then obtain k where k: "k < eh_entries buf" "(b, p) \<in> set (leaf_map (ent buf k))" by auto
  then have "ekey buf k \<le> b" "b < ekey buf k + leaf_len (ent buf k)" by (auto simp: leaf_map_def ekey_def)
  then show ?case using 0(1) k(1) ordered_upper_hi [OF 0(1) k(1)] by fastforce
next
  case (Suc d)
  then obtain k where k: "k < eh_entries buf" "(b, p) \<in> set (tree_map fs d (child fs buf k))" by auto
  then have "ekey buf k \<le> b \<and> b < upper buf hi k" using Suc by auto
  then show ?case using Suc(2) k(1) ordered_upper_hi [OF Suc(2) k(1)] by fastforce
qed

lemma entry_map_range:
  assumes "ordered fs d lo hi buf" "k < eh_entries buf" "(b, p) \<in> set (entry_map fs d buf k)"
  shows "ekey buf k \<le> b" "b < upper buf hi k"
proof -
  have "ekey buf k \<le> b \<and> b < upper buf hi k"
  proof (cases d)
    case 0
    then show ?thesis using assms by (auto simp: entry_map_def leaf_map_def ekey_def dest!: spec [of _ k])
  next
    case (Suc d')
    then show ?thesis using assms tree_map_range [of fs d' "ekey buf k" "upper buf hi k" "child fs buf k" b p] by (simp add: entry_map_def)
  qed
  then show "ekey buf k \<le> b" "b < upper buf hi k" by simp_all
qed

text \<open>A concatenation of lists is in order when each list is and their ranges follow each other.\<close>

lemma sorted_concat:
  assumes "\<And>k. k < n \<Longrightarrow> sorted_wrt (<) (f k :: nat list)" "\<And>j k x y. j < k \<Longrightarrow> k < n \<Longrightarrow> x \<in> set (f j) \<Longrightarrow> y \<in> set (f k) \<Longrightarrow> x < y"
  shows "sorted_wrt (<) (concat (map f [0..<n]))"
  using assms
proof (induction n)
  case (Suc n)
  have "sorted_wrt (<) (concat (map f [0..<n]))"
    by (rule Suc.IH) (blast intro: Suc.prems(1) less_SucI, blast intro: Suc.prems(2) less_SucI)
  then show ?case using Suc.prems(1) [of n] Suc.prems(2) [of _ n] by (auto simp: sorted_wrt_append)
qed simp

lemma entry_maps_apart:
  assumes "ordered fs d lo hi buf" "j < k" "k < eh_entries buf" "x \<in> fst ` set (entry_map fs d buf j)" "y \<in> fst ` set (entry_map fs d buf k)"
  shows "x < y"
proof -
  obtain p q where pq: "(x, p) \<in> set (entry_map fs d buf j)" "(y, q) \<in> set (entry_map fs d buf k)" using assms(4,5) by auto
  have "x < upper buf hi j" using entry_map_range(2) [OF assms(1) _ pq(1)] assms(2,3) by simp
  also have "\<dots> \<le> ekey buf k" by (rule ordered_upper_mono [OF assms(1-3)])
  also have "\<dots> \<le> y" by (rule entry_map_range(1) [OF assms(1,3) pq(2)])
  finally show ?thesis .
qed

lemma entries_sorted:
  assumes o: "ordered fs d lo hi buf" and s: "\<And>k. k < eh_entries buf \<Longrightarrow> sorted_wrt (<) (map fst (entry_map fs d buf k))"
  shows "sorted_wrt (<) (map fst (tree_map fs d buf))"
  unfolding tree_map_entries map_concat map_map comp_def
proof (rule sorted_concat)
  fix j k x y
  assume "j < k" "k < eh_entries buf" "x \<in> set (map fst (entry_map fs d buf j))" "y \<in> set (map fst (entry_map fs d buf k))"
  then show "x < y" by (intro entry_maps_apart [OF o, of j k x y]) simp_all
qed (rule s)

lemma tree_map_sorted: "ordered fs d lo hi buf \<Longrightarrow> sorted_wrt (<) (map fst (tree_map fs d buf))"
proof (induction d arbitrary: lo hi buf)
  case 0
  have "sorted_wrt (<) (map fst (leaf_map e))" for e
    by (simp add: leaf_map_def comp_def sorted_wrt_map)
  then show ?case by (intro entries_sorted [OF 0]) (simp add: entry_map_def)
next
  case (Suc d)
  then show ?case by (intro entries_sorted [OF Suc(2)]) (auto simp: entry_map_def)
qed

section \<open>Looking up in the list\<close>

lemma map_of_concat_at:
  assumes "k < n" "\<And>j. j < n \<Longrightarrow> j \<noteq> k \<Longrightarrow> b \<notin> fst ` set (f j)"
  shows "map_of (concat (map f [0..<n])) b = map_of (f k) b"
proof -
  have none: "map_of (concat (map f xs)) b = None" if "\<forall>j \<in> set xs. b \<notin> fst ` set (f j)" for xs
    using that by (induction xs) (auto simp: map_of_eq_None_iff)
  have "[0..<n] = [0..<k] @ k # [Suc k..<n]" using assms(1) upt_add_eq_append [of 0 k "n - k"] by (simp add: upt_conv_Cons)
  moreover have "map_of (concat (map f [0..<k])) b = None" "map_of (concat (map f [Suc k..<n])) b = None"
    using assms(1) by (intro none ballI assms(2); simp)+
  ultimately show ?thesis by (simp add: map_add_def split: option.split)
qed

text \<open>Only the entry whose range has the block can have it below.\<close>

lemma map_of_entry:
  assumes o: "ordered fs d lo hi buf" and k: "k < eh_entries buf" "k = 0 \<or> ekey buf k \<le> b" "Suc k < eh_entries buf \<Longrightarrow> b < ekey buf (Suc k)"
  shows "map_of (tree_map fs d buf) b = map_of (entry_map fs d buf k) b"
  unfolding tree_map_entries
proof (rule map_of_concat_at [OF k(1)])
  fix j assume j: "j < eh_entries buf" "j \<noteq> k"
  show "b \<notin> fst ` set (entry_map fs d buf j)"
  proof
    assume "b \<in> fst ` set (entry_map fs d buf j)"
    then have r: "ekey buf j \<le> b" "b < upper buf hi j" using entry_map_range [OF o j(1)] by auto
    show False
    proof (cases "j < k")
      case True
      then show False using r(2) ordered_upper_mono [OF o True k(1)] k(2) by simp
    next
      case False
      then have "ekey buf (Suc k) \<le> ekey buf j" "Suc k < eh_entries buf" using j by (auto intro: ordered_mono [OF o])
      then show False using r(1) k(3) by simp
    qed
  qed
qed

lemma map_of_leaf:
  "map_of (leaf_map e) b =
     (if unat (ee_block e) \<le> b \<and> b < unat (ee_block e) + leaf_len e then Some (ee_pblk e + of_nat (b - unat (ee_block e))) else None)"
proof -
  have "map_of (map (\<lambda>i. (s + i, g i)) [0..<n]) b = (if s \<le> b \<and> b < s + n then Some (g (b - s)) else None)" for s n :: nat and g
    by (induction n) (auto simp: map_add_def)
  from this [of "unat (ee_block e)" "\<lambda>i. ee_pblk e + of_nat i" "leaf_len e"] show ?thesis unfolding leaf_map_def .
qed

section \<open>Single steps of the search\<close>

text \<open>What the code knows of the entry it stands at.\<close>

definition decoded :: "nat \<Rightarrow> byte list \<Rightarrow> extent \<Rightarrow> bool" where
  "decoded d e ext \<longleftrightarrow> e_lblk ext = ucast (ee_block e) \<and>
     (d = 0 \<longrightarrow> unat (e_len ext) = leaf_len e \<and> e_pblk ext = ee_pblk e \<and> e_uninit ext = (0x8000 < unat (ee_len e)))"

lemma unat_len: "unat (ee_len x) < 2 ^ 16"
  using unsigned_less [of "ee_len x"] by simp

lemma decode_at:
  assumes at: "at_entry h buf i v" and d: "h_max_depth h = h_level h + d" and ok: "node_ok fs anc size1 d buf" "12 \<le> size1"
  shows "\<exists>ext. extent_decode h (int i) = Inr ext \<and> decoded d (ent buf i) ext"
proof -
  have e: "entry_at buf (int i) = Inr (ent buf i)" using at by (intro node_entries [OF ok]) (simp add: at_entry_def)
  have e1: "entry_at buf (int i + 1) = Inr (ent buf (Suc i))" if "ep_left (cur_path h) > 0"
    using node_entries [OF ok, of "Suc i"] that at by (simp add: at_entry_def Let_def add.commute)
  have p: "ep_buf (cur_path h) = buf" "ep_visit_num (cur_path h) = v" using at by (simp_all add: at_entry_def Let_def)
  have u: "(0x8000 < (ucast (ee_len x) :: u32)) = (0x8000 < unat (ee_len x))" for x
    using unat_len [of x] by (simp add: word_less_nat_alt unsigned_ucast_eq take_bit_nat_eq_self)
  show ?thesis
  proof (cases d)
    case 0
    then show ?thesis using e p d leaf_len_word [of "ent buf i"] u [of "ent buf i"] by (auto simp: extent_decode_def Let_def decoded_def)
  next
    case (Suc d')
    then show ?thesis using e e1 p d by (auto simp: extent_decode_def Let_def decoded_def ei_block_def ee_block_def)
  qed
qed

text \<open>A movement that succeeds returns the entry at which it arrives.\<close>

lemma get_step:
  assumes "extent_move fs h op op = Inr (None, False, h', Some (int i))" "at_entry h' buf i v" "h_max_depth h' = h_level h' + d"
    and "node_ok fs anc size1 d buf" "12 \<le> size1" and op: "op \<in> {EXT2_EXTENT_CURRENT, EXT2_EXTENT_ROOT, EXT2_EXTENT_NEXT_SIB, EXT2_EXTENT_PREV_SIB, EXT2_EXTENT_DOWN}"
  shows "\<exists>ext'. extent_decode h' (int i) = Inr ext' \<and> decoded d (ent buf i) ext' \<and> (\<forall>fuel ext. ext2fs_extent_get (Suc fuel) fs h op ext = Inr (None, h', ext'))"
proof -
  have "extent_choose h op = (Inr op, h)" using op by (auto simp: extent_choose_def Let_def)
  then show ?thesis using decode_at [OF assms(2-5)] assms(1) op by (auto simp: ext2fs_extent_get_def)
qed

lemma get_fails:
  assumes "extent_move fs h op op = Inr (Some e, False, h', None)" "op \<in> {EXT2_EXTENT_ROOT, EXT2_EXTENT_NEXT_SIB, EXT2_EXTENT_PREV_SIB, EXT2_EXTENT_DOWN}"
  shows "ext2fs_extent_get (Suc fuel) fs h op ext = Inr (Some e, h', ext)"
proof -
  have "extent_choose h op = (Inr op, h)" using assms(2) by (auto simp: extent_choose_def Let_def)
  then show ?thesis using assms(1) by (simp add: ext2fs_extent_get_def)
qed

lemma get_next_sib:
  assumes at: "at_entry h buf i v" and i: "Suc i < eh_entries buf" and d: "h_max_depth h = h_level h + d"
    and ok: "node_ok fs anc size1 d buf" "12 \<le> size1"
  shows "\<exists>h' ext'. at_entry h' buf (Suc i) 0 \<and> same_way h h' \<and> extent_decode h' (int (Suc i)) = Inr ext' \<and> decoded d (ent buf (Suc i)) ext' \<and>
    (\<forall>fuel ext. ext2fs_extent_get (Suc fuel) fs h EXT2_EXTENT_NEXT_SIB ext = Inr (None, h', ext'))"
proof -
  let ?h = "set_path (\<lambda>p. p\<lparr>ep_left := ep_left p - 1, ep_curr := Some (int i + 1), ep_visit_num := 0\<rparr>) h"
  have lt: "h_level h < length (h_path h)" using at by (simp add: at_entry_def)
  have at': "at_entry ?h buf (Suc i) 0" using at i lt by (auto simp: at_entry_def Let_def)
  have "extent_move fs h EXT2_EXTENT_NEXT_SIB EXT2_EXTENT_NEXT_SIB = Inr (None, False, ?h, Some (int (Suc i)))"
    using at i by (simp add: extent_move_def next_sib_def at_entry_def Let_def add.commute)
  then show ?thesis using get_step [OF _ at' _ ok, of h EXT2_EXTENT_NEXT_SIB] at' d lt by (auto simp: same_way_def)
qed

lemma get_next_sib_last:
  assumes "at_entry h buf i v" "Suc i = eh_entries buf"
  shows "ext2fs_extent_get (Suc fuel) fs h EXT2_EXTENT_NEXT_SIB ext = Inr (Some EXT2_ET_EXTENT_NO_NEXT, h, ext)"
  using assms by (intro get_fails) (auto simp: extent_move_def next_sib_def at_entry_def Let_def)

lemma get_prev_sib:
  assumes at: "at_entry h buf (Suc i) v" and d: "h_max_depth h = h_level h + d" and ok: "node_ok fs anc size1 d buf" "12 \<le> size1"
  shows "\<exists>h' v' ext'. at_entry h' buf i v' \<and> same_way h h' \<and>
    (\<forall>fuel ext. ext2fs_extent_get (Suc fuel) fs h EXT2_EXTENT_PREV_SIB ext = Inr (None, h', ext'))"
proof -
  let ?v = "if h_level h < h_max_depth h then 1 else v"
  let ?h = "set_path (\<lambda>p. p\<lparr>ep_curr := Some (int i), ep_left := ep_left p + 1, ep_visit_num := if h_level h < h_max_depth h then 1 else ep_visit_num p\<rparr>) h"
  have lt: "h_level h < length (h_path h)" using at by (simp add: at_entry_def)
  have at': "at_entry ?h buf i ?v" using at lt by (auto simp: at_entry_def Let_def)
  have "extent_move fs h EXT2_EXTENT_PREV_SIB EXT2_EXTENT_PREV_SIB = Inr (None, False, ?h, Some (int i))"
    using at by (auto simp: extent_move_def at_entry_def Let_def)
  then show ?thesis using get_step [OF _ at' _ ok, of h EXT2_EXTENT_PREV_SIB] at' d lt by (auto simp: same_way_def)
qed

lemma get_prev_sib_first:
  assumes "at_entry h buf 0 v"
  shows "ext2fs_extent_get (Suc fuel) fs h EXT2_EXTENT_PREV_SIB ext = Inr (Some EXT2_ET_EXTENT_NO_PREV, h, ext)"
  using assms by (intro get_fails) (auto simp: extent_move_def at_entry_def Let_def)

lemma get_down:
  assumes at: "at_entry h buf i v" and d: "h_max_depth h = h_level h + Suc d" and fs: "plain_fs fs"
    and ok: "node_ok fs (ancestors h) size1 (Suc d) buf" "12 \<le> size1"
  shows "\<exists>h' ext'. at_entry h' (child fs buf i) 0 0 \<and> h_max_depth h' = h_max_depth h \<and> h_level h' = Suc (h_level h) \<and>
    node_ok fs (ancestors h') (fs_blocksize fs) d (child fs buf i) \<and> extent_decode h' (int 0) = Inr ext' \<and> decoded d (ent (child fs buf i) 0) ext' \<and>
    (\<forall>fuel ext. ext2fs_extent_get (Suc fuel) fs h EXT2_EXTENT_DOWN ext = Inr (None, h', ext'))"
proof -
  obtain h' where h': "extent_down fs False h = Inr (None, False, h', Some 0)" "at_entry h' (child fs buf i) 0 0"
    "h_level h' = Suc (h_level h)" "h_max_depth h' = h_max_depth h" "ancestors h' = insert (ei_leaf (ent buf i)) (ancestors h)"
    using extent_down_at [OF assms] by blast
  have "i < eh_entries buf" using at by (simp add: at_entry_def)
  then have ok': "node_ok fs (ancestors h') (fs_blocksize fs) d (child fs buf i)" using node_ok_child(3) [OF ok(1)] h'(5) by simp
  have "extent_move fs h EXT2_EXTENT_DOWN EXT2_EXTENT_DOWN = Inr (None, False, h', Some (int 0))" using h'(1) by (simp add: extent_move_def)
  then show ?thesis using get_step [OF _ h'(2) _ ok', of h EXT2_EXTENT_DOWN] h' ok' d fs by (auto simp: plain_fs_def)
qed

section \<open>The search\<close>

text \<open>
  What a search for block \<open>b\<close> must answer, given the mapping: the handle at a leaf entry that has the block,
  or that the block is not mapped.
\<close>

definition stands_at :: "extent_handle \<Rightarrow> byte list \<Rightarrow> bool" where
  "stands_at h e \<longleftrightarrow> (\<exists>ext k. ep_curr (cur_path h) = Some k \<and> extent_decode h k = Inr ext \<and> decoded 0 e ext)"

definition answers :: "(nat \<rightharpoonup> u64) \<Rightarrow> nat \<Rightarrow> errcode_t \<Rightarrow> extent_handle \<Rightarrow> bool" where
  "answers m b r h \<longleftrightarrow>
     (case r of
        None \<Rightarrow> \<exists>e. stands_at h e \<and> unat (ee_block e) \<le> b \<and> b < unat (ee_block e) + leaf_len e \<and>
          m b = Some (ee_pblk e + of_nat (b - unat (ee_block e)))
      | Some err \<Rightarrow> err = EXT2_ET_EXTENT_NOT_FOUND \<and> m b = None)"

definition finds :: "ext2_filsys \<Rightarrow> u64 \<Rightarrow> extent_handle \<Rightarrow> extent \<Rightarrow> (nat \<rightharpoonup> u64) \<Rightarrow> bool" where
  "finds fs blk h ext m \<longleftrightarrow> (\<exists>n r h'. (\<forall>k. goto_loop (n + k) fs 0 blk h ext = Inr (r, h')) \<and> answers m (unat blk) r h')"

lemma finds_step:
  assumes "\<And>fuel. goto_loop (Suc fuel) fs 0 blk h ext = goto_loop fuel fs 0 blk h1 ext1" "finds fs blk h1 ext1 m"
  shows "finds fs blk h ext m"
proof -
  obtain n r h' where "\<forall>k. goto_loop (n + k) fs 0 blk h1 ext1 = Inr (r, h')" "answers m (unat blk) r h'" using assms(2) by (auto simp: finds_def)
  then show ?thesis unfolding finds_def using assms(1) by (intro exI [of _ "Suc n"]) auto
qed

lemma finds_end: "(\<And>fuel. goto_loop (Suc fuel) fs 0 blk h ext = Inr (r, h')) \<Longrightarrow> answers m (unat blk) r h' \<Longrightarrow> finds fs blk h ext m"
  unfolding finds_def by (intro exI [of _ "Suc 0"] exI [of _ r] exI [of _ h']) simp

text \<open>The tests of the loop, on numbers.\<close>

lemma decoded_key: "decoded d e ext \<Longrightarrow> unat (e_lblk ext) = unat (ee_block e)"
  by (simp add: decoded_def)

lemma decoded_has:
  assumes "decoded 0 e ext"
  shows "blk < e_lblk ext + ucast (e_len ext) \<longleftrightarrow> unat blk < unat (ee_block e) + leaf_len e"
proof -
  have "unat (e_lblk ext + ucast (e_len ext)) = unat (ee_block e) + leaf_len e"
    using assms unat_u32 [of "ee_block e"] unat_u32 [of "e_len ext"] by (simp add: unat_word_ariths decoded_def)
  then show ?thesis by (simp add: word_less_nat_alt)
qed

text \<open>In a leaf the entries are tried from left to right.\<close>

lemma leaf_search:
  assumes ok: "node_ok fs anc size1 0 buf" "12 \<le> size1" and o: "ordered fs 0 lo hi buf"
  shows "at_entry h buf i v \<Longrightarrow> h_max_depth h = h_level h \<Longrightarrow> extent_decode h (int i) = Inr ext \<Longrightarrow> decoded 0 (ent buf i) ext \<Longrightarrow>
    \<forall>j < i. ekey buf j + leaf_len (ent buf j) \<le> unat blk \<Longrightarrow> finds fs blk h ext (map_of (tree_map fs 0 buf))"
proof (induction "eh_entries buf - i" arbitrary: h i v ext)
  case 0
  then show ?case by (simp add: at_entry_def)
next
  case (Suc x)
  let ?e = "ent buf i" and ?b = "unat blk"
  have i: "i < eh_entries buf" using Suc(3) by (simp add: at_entry_def)
  have key: "unat (e_lblk ext) = ekey buf i" using decoded_key [OF Suc(6)] by (simp add: ekey_def)
  have k0: "i = 0 \<or> ekey buf i \<le> ?b" if "ekey buf i \<le> ?b" using that by simp
  consider (found) "ekey buf i \<le> ?b" "?b < ekey buf i + leaf_len ?e" | (before) "?b < ekey buf i" | (after) "ekey buf i \<le> ?b" "ekey buf i + leaf_len ?e \<le> ?b"
    by linarith
  then show ?case
  proof cases
    case found
    have g: "goto_loop (Suc fuel) fs 0 blk h ext = Inr (None, h)" for fuel
      using found decoded_has [OF Suc(6), of blk] key Suc(4) by (simp add: word_le_nat_alt ekey_def)
    have "?b < ekey buf (Suc i)" if "Suc i < eh_entries buf" using found(2) spec [OF o [unfolded ordered.simps], of i] i that by (simp add: upper_def)
    then have "map_of (tree_map fs 0 buf) ?b = map_of (leaf_map ?e) ?b"
      using map_of_entry [OF o i, of ?b] found by (simp add: entry_map_def)
    then have "map_of (tree_map fs 0 buf) ?b = Some (ee_pblk ?e + of_nat (?b - unat (ee_block ?e)))"
      using found unfolding map_of_leaf ekey_def by (simp only: simp_thms if_True)
    moreover have "stands_at h ?e" using Suc(3,5,6) by (auto simp: stands_at_def at_entry_def Let_def)
    ultimately have "answers (map_of (tree_map fs 0 buf)) ?b None h"
      using found unfolding answers_def ekey_def option.case by blast
    then show ?thesis by (intro finds_end [OF g])
  next
    case before
    have none: "map_of (tree_map fs 0 buf) ?b = None"
    proof (rule ccontr)
      assume "map_of (tree_map fs 0 buf) ?b \<noteq> None"
      then obtain p where "(?b, p) \<in> set (tree_map fs 0 buf)" by (auto dest: map_of_SomeD)
      then obtain j where j: "j < eh_entries buf" "(?b, p) \<in> set (leaf_map (ent buf j))" by auto
      then have r: "ekey buf j \<le> ?b" "?b < ekey buf j + leaf_len (ent buf j)" by (auto simp: leaf_map_def ekey_def)
      then have "i \<le> j" using Suc(7) by (meson leD not_le_imp_less)
      then show False using r(1) before ordered_mono [OF o _ j(1), of i] by simp
    qed
    have "\<exists>h'. \<forall>fuel. goto_loop (Suc fuel) fs 0 blk h ext = Inr (Some EXT2_ET_EXTENT_NOT_FOUND, h')"
    proof (cases i)
      case 0
      then show ?thesis using before get_prev_sib_first [of h buf v] Suc(3,4) key by (auto simp: word_le_nat_alt word_less_nat_alt)
    next
      case (Suc j)
      then show ?thesis using before get_prev_sib [of h buf j v 0 fs anc size1] ok Suc.prems(1,2) key by (auto simp: word_le_nat_alt word_less_nat_alt)
    qed
    then show ?thesis using none finds_end [of fs blk h ext "Some EXT2_ET_EXTENT_NOT_FOUND"] by (fastforce simp: answers_def)
  next
    case after
    have prev: "\<forall>j < Suc i. ekey buf j + leaf_len (ent buf j) \<le> ?b" using Suc(7) after(2) less_Suc_eq by auto
    have c: "\<not> (e_lblk ext \<le> blk \<and> blk < e_lblk ext + ucast (e_len ext))" "\<not> blk < e_lblk ext"
      using after decoded_has [OF Suc(6), of blk] key by (auto simp: word_less_nat_alt ekey_def)
    show ?thesis
    proof (cases "Suc i < eh_entries buf")
      case True
      obtain h' ext' where n: "at_entry h' buf (Suc i) 0" "same_way h h'" "extent_decode h' (int (Suc i)) = Inr ext'" "decoded 0 (ent buf (Suc i)) ext'"
        "\<And>fuel ext. ext2fs_extent_get (Suc fuel) fs h EXT2_EXTENT_NEXT_SIB ext = Inr (None, h', ext')"
        using get_next_sib [OF Suc(3) True, of 0 fs anc size1] Suc(4) ok by auto
      have d': "h_max_depth h' = h_level h'" using n(2) Suc(4) by (simp add: same_way_def)
      have f: "finds fs blk h' ext' (map_of (tree_map fs 0 buf))"
        using Suc(1) [of "Suc i" h' 0 ext'] Suc(2) n(1,3,4) d' prev by simp
      have "goto_loop (Suc fuel) fs 0 blk h ext = goto_loop fuel fs 0 blk h' ext'" for fuel using c n(5) Suc(4) by simp
      then show ?thesis by (rule finds_step [OF _ f])
    next
      case False
      then have l: "Suc i = eh_entries buf" using i by simp
      have "map_of (tree_map fs 0 buf) ?b = map_of (leaf_map ?e) ?b"
        using map_of_entry [OF o i, of ?b] after(1) False by (simp add: entry_map_def)
      then have "map_of (tree_map fs 0 buf) ?b = None" using after by (simp add: map_of_leaf ekey_def)
      then show ?thesis using c get_next_sib_last [OF Suc(3) l] Suc(4) by (intro finds_end) (auto simp: answers_def)
    qed
  qed
qed

text \<open>The search below a node of depth \<open>d\<close>, begun at its first entry, finds what the mapping has.\<close>

definition searches :: "ext2_filsys \<Rightarrow> u64 \<Rightarrow> nat \<Rightarrow> bool" where
  "searches fs blk d \<longleftrightarrow> (\<forall>h buf size1 lo hi ext. at_entry h buf 0 0 \<longrightarrow> h_max_depth h = h_level h + d \<longrightarrow> extent_decode h (int 0) = Inr ext \<longrightarrow>
     decoded d (ent buf 0) ext \<longrightarrow> node_ok fs (ancestors h) size1 d buf \<longrightarrow> 12 \<le> size1 \<longrightarrow> ordered fs d lo hi buf \<longrightarrow>
     finds fs blk h ext (map_of (tree_map fs d buf)))"

text \<open>In an interior node the search goes on to the last entry whose key is not above the block, and down.\<close>

lemma down_search:
  assumes at: "at_entry h buf i v" and d: "h_max_depth h = h_level h + Suc d" and fs: "plain_fs fs"
    and ok: "node_ok fs (ancestors h) size1 (Suc d) buf" "12 \<le> size1" and o: "ordered fs (Suc d) lo hi buf"
    and IH: "searches fs blk d"
    and i: "i = 0 \<or> ekey buf i \<le> unat blk" "Suc i < eh_entries buf \<longrightarrow> unat blk < ekey buf (Suc i)"
  shows "\<exists>h1 ext1. (\<forall>fuel ext. ext2fs_extent_get (Suc fuel) fs h EXT2_EXTENT_DOWN ext = Inr (None, h1, ext1)) \<and>
    finds fs blk h1 ext1 (map_of (tree_map fs (Suc d) buf))"
proof -
  obtain h' ext' where h': "at_entry h' (child fs buf i) 0 0" "h_max_depth h' = h_max_depth h" "h_level h' = Suc (h_level h)"
    "node_ok fs (ancestors h') (fs_blocksize fs) d (child fs buf i)" "extent_decode h' (int 0) = Inr ext'" "decoded d (ent (child fs buf i) 0) ext'"
    and g: "\<forall>fuel ext. ext2fs_extent_get (Suc fuel) fs h EXT2_EXTENT_DOWN ext = Inr (None, h', ext')"
    using get_down [OF at d fs ok] by blast
  have lt: "i < eh_entries buf" using at by (simp add: at_entry_def)
  have "map_of (tree_map fs (Suc d) buf) (unat blk) = map_of (tree_map fs d (child fs buf i)) (unat blk)"
    using map_of_entry [OF o lt i(1)] i(2) by (simp add: entry_map_def)
  moreover have "finds fs blk h' ext' (map_of (tree_map fs d (child fs buf i)))"
    using IH h' d fs o lt unfolding searches_def by (auto simp: plain_fs_def)
  ultimately have "finds fs blk h' ext' (map_of (tree_map fs (Suc d) buf))" unfolding finds_def answers_def by (simp only:)
  then show ?thesis using g by blast
qed

lemma interior_search:
  assumes fs: "plain_fs fs" and ok: "12 \<le> size1" and o: "ordered fs (Suc d) lo hi buf"
    and IH: "searches fs blk d"
  shows "at_entry h buf i v \<Longrightarrow> h_max_depth h = h_level h + Suc d \<Longrightarrow> node_ok fs (ancestors h) size1 (Suc d) buf \<Longrightarrow>
    i = 0 \<or> ekey buf i \<le> unat blk \<Longrightarrow> finds fs blk h ext (map_of (tree_map fs (Suc d) buf))"
proof (induction "eh_entries buf - i" arbitrary: h i v ext)
  case 0
  then show ?case by (simp add: at_entry_def)
next
  case (Suc x)
  let ?m = "map_of (tree_map fs (Suc d) buf)"
  have lt: "i < eh_entries buf" "h_level h < length (h_path h)" using Suc(3) by (simp_all add: at_entry_def)
  show ?case
  proof (cases "Suc i < eh_entries buf")
    case False
    then have l: "Suc i = eh_entries buf" using lt by simp
    have i2: "Suc i < eh_entries buf \<longrightarrow> unat blk < ekey buf (Suc i)" using False by simp
    obtain h1 ext1 where g: "\<forall>fuel ext. ext2fs_extent_get (Suc fuel) fs h EXT2_EXTENT_DOWN ext = Inr (None, h1, ext1)" "finds fs blk h1 ext1 ?m"
      using down_search [OF Suc(3,4) fs Suc(5) ok o IH Suc(6) i2] by blast
    have "goto_loop (Suc fuel) fs 0 blk h ext = goto_loop fuel fs 0 blk h1 ext1" for fuel
      using get_next_sib_last [OF Suc(3) l] Suc(4) g(1) by simp
    then show ?thesis by (rule finds_step [OF _ g(2)])
  next
    case True
    obtain h' ext' where n: "at_entry h' buf (Suc i) 0" "same_way h h'" "decoded (Suc d) (ent buf (Suc i)) ext'"
      "\<And>fuel ext. ext2fs_extent_get (Suc fuel) fs h EXT2_EXTENT_NEXT_SIB ext = Inr (None, h', ext')"
      using get_next_sib [OF Suc(3) True Suc(4,5) ok] by blast
    have key: "unat (e_lblk ext') = ekey buf (Suc i)" using decoded_key [OF n(3)] by (simp add: ekey_def)
    have d': "h_max_depth h' = h_level h' + Suc d" and ok': "node_ok fs (ancestors h') size1 (Suc d) buf"
      using n(2) Suc(4,5) same_way_ancestors [OF n(2) lt(2)] by (simp_all add: same_way_def)
    have below: "Suc (Suc i) < eh_entries buf \<longrightarrow> unat blk < ekey buf (Suc (Suc i))" if "unat blk = ekey buf (Suc i)"
      using that True spec [OF o [unfolded ordered.simps], of "Suc i"] by (auto simp: upper_def)
    consider (eq) "unat blk = ekey buf (Suc i)" | (gt) "ekey buf (Suc i) < unat blk" | (lt) "unat blk < ekey buf (Suc i)" by linarith
    then show ?thesis
    proof cases
      case eq
      have i1: "Suc i = 0 \<or> ekey buf (Suc i) \<le> unat blk" using eq by simp
      obtain h1 ext1 where g: "\<forall>fuel ext. ext2fs_extent_get (Suc fuel) fs h' EXT2_EXTENT_DOWN ext = Inr (None, h1, ext1)" "finds fs blk h1 ext1 ?m"
        using down_search [OF n(1) d' fs ok' ok o IH i1 below [OF eq]] by blast
      have "blk = e_lblk ext'" using eq key by (simp add: word_unat_eq_iff)
      then have "goto_loop (Suc fuel) fs 0 blk h ext = goto_loop fuel fs 0 blk h1 ext1" for fuel using n(4) Suc(4) g(1) by simp
      then show ?thesis by (rule finds_step [OF _ g(2)])
    next
      case gt
      have f: "finds fs blk h' ext' ?m" using Suc(1) [of "Suc i" h' 0 ext'] Suc(2) n(1) d' ok' gt by simp
      have "blk \<noteq> e_lblk ext'" "blk > e_lblk ext'" using gt key by (auto simp: word_less_nat_alt)
      then have "goto_loop (Suc fuel) fs 0 blk h ext = goto_loop fuel fs 0 blk h' ext'" for fuel using n(4) Suc(4) by simp
      then show ?thesis by (rule finds_step [OF _ f])
    next
      case lt
      obtain h2 v2 ext2 where p: "at_entry h2 buf i v2" "same_way h' h2"
        "\<And>fuel ext. ext2fs_extent_get (Suc fuel) fs h' EXT2_EXTENT_PREV_SIB ext = Inr (None, h2, ext2)"
        using get_prev_sib [OF n(1) d' ok' ok] by blast
      have "h_level h' < length (h_path h')" using n(1) by (simp add: at_entry_def)
      then have d2: "h_max_depth h2 = h_level h2 + Suc d" and ok2: "node_ok fs (ancestors h2) size1 (Suc d) buf"
        using p(2) d' ok' same_way_ancestors [OF p(2)] by (simp_all add: same_way_def)
      obtain h1 ext1 where g: "\<forall>fuel ext. ext2fs_extent_get (Suc fuel) fs h2 EXT2_EXTENT_DOWN ext = Inr (None, h1, ext1)" "finds fs blk h1 ext1 ?m"
        using down_search [OF p(1) d2 fs ok2 ok o IH Suc(6)] lt by blast
      have "blk \<noteq> e_lblk ext'" "\<not> blk > e_lblk ext'" using lt key by (auto simp: word_less_nat_alt)
      then have "goto_loop (Suc fuel) fs 0 blk h ext = goto_loop fuel fs 0 blk h1 ext1" for fuel using n(4) p(3) Suc(4) g(1) by simp
      then show ?thesis by (rule finds_step [OF _ g(2)])
    qed
  qed
qed

lemma tree_search:
  assumes "plain_fs fs"
  shows "searches fs blk d"
proof (induction d)
  case 0
  show ?case unfolding searches_def
  proof (intro allI impI)
    fix h buf size1 lo hi ext
    assume "at_entry h buf 0 0" "h_max_depth h = h_level h + 0" "extent_decode h (int 0) = Inr ext" "decoded 0 (ent buf 0) ext"
      "node_ok fs (ancestors h) size1 0 buf" "12 \<le> size1" "ordered fs 0 lo hi buf"
    then show "finds fs blk h ext (map_of (tree_map fs 0 buf))" by (intro leaf_search [of fs "ancestors h" size1 buf lo hi h 0 0]) simp_all
  qed
next
  case (Suc d)
  show ?case unfolding searches_def
  proof (intro allI impI)
    fix h buf size1 lo hi ext
    assume a: "at_entry h buf 0 0" "h_max_depth h = h_level h + Suc d" "node_ok fs (ancestors h) size1 (Suc d) buf" "12 \<le> size1" "ordered fs (Suc d) lo hi buf"
    show "finds fs blk h ext (map_of (tree_map fs (Suc d) buf))" by (rule interior_search [OF assms a(4,5) Suc a(1-3)]) simp
  qed
qed

section \<open>Searching from the root\<close>

lemma get_root:
  assumes h: "h_level h = 0" "length (h_path h) = Suc (h_max_depth h)" "ep_buf (cur_path h) = buf" "ep_entries (cur_path h) = eh_entries buf"
    and ok: "node_ok fs {} size1 (h_max_depth h) buf" "12 \<le> size1"
  shows "\<exists>h' ext'. at_entry h' buf 0 0 \<and> h_level h' = 0 \<and> h_max_depth h' = h_max_depth h \<and> extent_decode h' (int 0) = Inr ext' \<and>
    decoded (h_max_depth h) (ent buf 0) ext' \<and> (\<forall>fuel ext. ext2fs_extent_get (Suc fuel) fs h EXT2_EXTENT_ROOT ext = Inr (None, h', ext'))"
proof -
  let ?h = "set_path (\<lambda>p. p\<lparr>ep_left := eh_entries buf - 1, ep_curr := Some 0, ep_visit_num := 0\<rparr>) h"
  have lt: "h_level h < length (h_path h)" and n: "0 < eh_entries buf" using h node_ok_nonempty [OF ok(1)] by simp_all
  have at: "at_entry ?h buf 0 0" using h lt n by (simp add: at_entry_def)
  have "h\<lparr>h_level := 0\<rparr> = h" using h(1) by (cases h) simp
  then have "extent_move fs h EXT2_EXTENT_ROOT EXT2_EXTENT_ROOT = Inr (None, False, ?h, Some (int 0))"
    using h n by (simp add: extent_move_def next_sib_def Let_def set_path_def cur_path_def)
  then show ?thesis using get_step [OF _ at _ ok, of h EXT2_EXTENT_ROOT] at h(1) by auto
qed

lemma goto_answers:
  assumes h: "h_level h = 0" "length (h_path h) = Suc (h_max_depth h)" "ep_buf (cur_path h) = buf" "ep_entries (cur_path h) = eh_entries buf"
    and ok: "eh_entries buf = 0 \<or> node_ok fs {} size1 (h_max_depth h) buf" "12 \<le> size1" and o: "ordered fs (h_max_depth h) lo hi buf" and fs: "plain_fs fs"
  shows "\<exists>n r h'. (\<forall>k. ext2fs_extent_goto (n + k) fs h blk = Inr (r, h')) \<and> answers (map_of (tree_map fs (h_max_depth h) buf)) (unat blk) r h'"
proof (cases "eh_entries buf = 0")
  case True
  have "h\<lparr>h_level := 0\<rparr> = h" using h(1) by (cases h) simp
  then have "extent_move fs h EXT2_EXTENT_ROOT EXT2_EXTENT_ROOT =
      Inr (Some EXT2_ET_EXTENT_NO_NEXT, False, set_path (\<lambda>p. p\<lparr>ep_left := ep_entries p, ep_curr := None\<rparr>) h, None)"
    using h True by (simp add: extent_move_def next_sib_def Let_def set_path_def cur_path_def)
  from get_fails [OF this] have "ext2fs_extent_goto (Suc 0 + k) fs h blk =
      Inr (Some EXT2_ET_EXTENT_NOT_FOUND, set_path (\<lambda>p. p\<lparr>ep_left := ep_entries p, ep_curr := None\<rparr>) h)" for k
    by (simp add: ext2fs_extent_goto_def ext2fs_extent_goto2_def)
  moreover have "tree_map fs (h_max_depth h) buf = []" using True by (simp add: tree_map_entries)
  ultimately show ?thesis by (intro exI [of _ "Suc 0"]) (auto simp: answers_def)
next
  case False
  then have ok0: "node_ok fs {} size1 (h_max_depth h) buf" using ok(1) by simp
  obtain h1 ext1 where r: "at_entry h1 buf 0 0" "h_level h1 = 0" "h_max_depth h1 = h_max_depth h" "extent_decode h1 (int 0) = Inr ext1"
    "decoded (h_max_depth h) (ent buf 0) ext1" "\<forall>fuel ext. ext2fs_extent_get (Suc fuel) fs h EXT2_EXTENT_ROOT ext = Inr (None, h1, ext1)"
    using get_root [OF h ok0 ok(2)] by blast
  have "finds fs blk h1 ext1 (map_of (tree_map fs (h_max_depth h) buf))"
    using tree_search [OF fs, of blk "h_max_depth h"] r(1-5) ok False o unfolding searches_def by (auto simp: ancestors_def)
  then obtain n rr h' where n: "\<And>k. goto_loop (n + k) fs 0 blk h1 ext1 = Inr (rr, h')" "answers (map_of (tree_map fs (h_max_depth h) buf)) (unat blk) rr h'"
    unfolding finds_def by blast
  have "ext2fs_extent_goto (Suc n + k) fs h blk = Inr (rr, h')" for k
    using n(1) [of "Suc k"] r(6) by (simp add: ext2fs_extent_goto_def ext2fs_extent_goto2_def del: goto_loop.simps)
  then show ?thesis using n(2) by blast
qed

end
