(* ===== verification/Crc.thy ===== *)
theory Crc
  imports E2fs_Base Byte_Order
begin

text \<open>
  Cyclic redundancy checks: \<^verbatim>\<open>src/e2fsprogs/lib/ext2fs/crc32c.c\<close> with the tables of
  \<^verbatim>\<open>gen_crc32ctable.c\<close>, on a little-endian machine, and \<^verbatim>\<open>crc16.c\<close>. The source of crc32c has one variant
  for each number of bits that are taken at a time (1, 2, 4, 8, 32 or 64; the build takes 64). The
  locale \<open>shift_register\<close> has the algebra of the register, from which all variants compute the same
  function and every change within four consecutive bytes changes the result.
\<close>

unbundle bit_operations_syntax

section \<open>The register\<close>

definition crc_step :: "'a::len word \<Rightarrow> 'a word \<Rightarrow> 'a word" where
  "crc_step poly crc = drop_bit 1 crc XOR (if crc AND 1 \<noteq> 0 then poly else 0)"

lemma odd_bit: "crc AND 1 \<noteq> 0 \<longleftrightarrow> bit crc 0" for crc :: "'a::len word"
  by (simp add: and_one_eq bit_0 odd_iff_mod_2_eq_one)

lemma xor_right_cancel: "a XOR p = b XOR p \<longleftrightarrow> a = b" for a b p :: "'a::len word"
  by (metis xor.assoc xor.right_neutral xor_self_eq)

lemma drop_take_bit: "x = push_bit k (drop_bit k x) XOR take_bit k x" for x :: "'a::len word"
  by (rule bit_eqI) (auto simp: bit_simps)

locale shift_register =
  fixes poly :: "'a::len word"
  assumes top: "bit poly (LENGTH('a) - 1)"
begin

lemma step_xor: "crc_step poly (a XOR b) = crc_step poly a XOR crc_step poly b"
  by (rule bit_eqI) (auto simp: crc_step_def odd_bit bit_simps)

lemma step_0: "crc_step poly 0 = 0"
  by (simp add: crc_step_def)

lemma steps_xor: "(crc_step poly ^^ k) (a XOR b) = (crc_step poly ^^ k) a XOR (crc_step poly ^^ k) b"
  by (induction k) (simp_all add: step_xor)

lemma steps_0: "(crc_step poly ^^ k) 0 = 0"
  by (induction k) (simp_all add: step_0)

text \<open>As long as no bit is shifted out the register is only shifted.\<close>

lemma steps_low: "take_bit k x = 0 \<Longrightarrow> (crc_step poly ^^ k) x = drop_bit k x"
proof (induction k)
  case (Suc k)
  have z: "\<not> bit x n" if "n < Suc k" for n using Suc(2) that by (metis bit_0_eq bit_take_bit_iff bot_apply bot_bool_def)
  then have "take_bit k x = 0" by (intro bit_eqI) (auto simp: bit_simps)
  then have "(crc_step poly ^^ Suc k) x = crc_step poly (drop_bit k x)" using Suc(1) by simp
  moreover have "\<not> bit (drop_bit k x) 0" using z [of k] by (simp add: bit_drop_bit_eq)
  then have "crc_step poly (drop_bit k x) = drop_bit (Suc k) x" by (simp add: crc_step_def odd_bit)
  ultimately show ?case by simp
qed simp

lemma steps_split: "(crc_step poly ^^ k) x = drop_bit k x XOR (crc_step poly ^^ k) (take_bit k x)"
proof -
  have "take_bit k (push_bit k (drop_bit k x)) = 0" by (rule bit_eqI) (auto simp: bit_simps)
  moreover have "drop_bit k (push_bit k (drop_bit k x)) = drop_bit k x" by (rule bit_eqI) (auto simp: bit_simps dest: bit_imp_le_length)
  ultimately have "(crc_step poly ^^ k) (push_bit k (drop_bit k x)) = drop_bit k x" using steps_low by metis
  then show ?thesis using steps_xor [of k "push_bit k (drop_bit k x)" "take_bit k x"] drop_take_bit [of x k] by simp
qed

text \<open>The polynomial has its highest bit, so that bit of the result tells which bit was shifted out.\<close>

lemma step_inj: "crc_step poly a = crc_step poly b \<Longrightarrow> a = b"
proof -
  assume eq: "crc_step poly a = crc_step poly b"
  have b: "bit (crc_step poly x) (LENGTH('a) - 1) = bit x 0" for x
  proof -
    have "\<not> bit x (LENGTH('a))" by (rule not_bit_length)
    then show ?thesis using top by (simp add: crc_step_def odd_bit bit_xor_iff bit_drop_bit_eq)
  qed
  have 0: "bit a 0 = bit b 0" using b [of a] b [of b] eq by simp
  then have "drop_bit 1 a = drop_bit 1 b" using eq by (auto simp: crc_step_def odd_bit xor_right_cancel)
  then have "bit a (Suc n) = bit b (Suc n)" for n by (metis bit_drop_bit_eq One_nat_def plus_1_eq_Suc comp_apply)
  then show "a = b" using 0 by (metis bit_eqI not0_implies_Suc)
qed

lemma steps_inj: "(crc_step poly ^^ k) a = (crc_step poly ^^ k) b \<Longrightarrow> a = b"
  by (induction k) (auto dest: step_inj)

end

section \<open>Tables and variants of crc32c\<close>

definition CRC32C_POLY_LE :: u32 where "CRC32C_POLY_LE = 0x82F63B78"

definition LE_TABLE_ROWS :: "nat \<Rightarrow> nat" where
  "LE_TABLE_ROWS bits = (if bits > 8 then bits div 8 else 1)"

definition LE_TABLE_SIZE :: "nat \<Rightarrow> nat" where
  "LE_TABLE_SIZE bits = (if bits > 8 then 256 else 2 ^ bits)"

text \<open>The loops of \<open>crc32cinit_le\<close>: the multiples of a stride, the strides, and the other rows.\<close>

function init_stride :: "nat \<Rightarrow> nat \<Rightarrow> u32 \<Rightarrow> nat \<Rightarrow> u32 list \<Rightarrow> u32 list" where
  "init_stride size1 i crc j tab =
     (if j < size1 \<and> 0 < i then init_stride size1 i crc (j + 2 * i) (tab[i + j := crc XOR tab ! j]) else tab)"
  by pat_completeness auto
termination
  by (relation "measure (\<lambda>(size1, i, crc, j, tab). size1 - j)") auto

function init_row :: "nat \<Rightarrow> nat \<Rightarrow> u32 \<Rightarrow> u32 list \<Rightarrow> u32 list" where
  "init_row size1 i crc tab =
     (if i = 0 then tab
      else (let crc1 = crc_step CRC32C_POLY_LE crc in init_row size1 (i div 2) crc1 (init_stride size1 i crc1 0 tab)))"
  by pat_completeness auto
termination
  by (relation "measure (\<lambda>(size1, i, crc, tab). i)") auto

declare init_stride.simps [simp del] init_row.simps [simp del]

definition init_entry :: "nat \<Rightarrow> nat \<Rightarrow> u32 \<times> u32 list list \<Rightarrow> u32 \<times> u32 list list" where
  "init_entry i j = (\<lambda>(crc, tab). let crc1 = tab ! 0 ! unat (crc AND 0xff) XOR drop_bit 8 crc in (crc1, tab[j := (tab ! j)[i := crc1]]))"

definition init_column :: "nat \<Rightarrow> nat \<Rightarrow> u32 list list \<Rightarrow> u32 list list" where
  "init_column rows i tab = snd (fold (init_entry i) [1..<rows] (tab ! 0 ! i, tab))"

definition crc32cinit_le :: "nat \<Rightarrow> u32 list list" where
  "crc32cinit_le bits =
     (let size1 = LE_TABLE_SIZE bits; rows = LE_TABLE_ROWS bits
      in fold (init_column rows) [0..<size1]
           ((replicate rows (replicate 256 0))[0 := init_row size1 (size1 div 2) 1 (replicate 256 0)]))"

text \<open>One byte, and the four lookups for a word.\<close>

definition do_crc :: "u32 list list \<Rightarrow> u32 \<Rightarrow> byte \<Rightarrow> u32" where
  "do_crc tab crc x = tab ! 0 ! unat ((crc XOR ucast x) AND 255) XOR drop_bit 8 crc"

definition do_crc4 :: "u32 list list \<Rightarrow> u32 \<Rightarrow> u32" where
  "do_crc4 tab q = tab ! 3 ! unat (q AND 255) XOR tab ! 2 ! unat (drop_bit 8 q AND 255) XOR
     tab ! 1 ! unat (drop_bit 16 q AND 255) XOR tab ! 0 ! unat (drop_bit 24 q AND 255)"

definition do_crc8 :: "u32 list list \<Rightarrow> u32 \<Rightarrow> u32" where
  "do_crc8 tab q = tab ! 7 ! unat (q AND 255) XOR tab ! 6 ! unat (drop_bit 8 q AND 255) XOR
     tab ! 5 ! unat (drop_bit 16 q AND 255) XOR tab ! 4 ! unat (drop_bit 24 q AND 255)"

text \<open>\<open>crc32_body\<close> on a buffer at the address \<open>addr\<close>: bytes up to a multiple of four, words, and the rest.\<close>

fun align_loop :: "u32 list list \<Rightarrow> nat \<Rightarrow> u32 \<Rightarrow> byte list \<Rightarrow> u32 \<times> byte list" where
  "align_loop tab addr crc [] = (crc, [])"
| "align_loop tab addr crc (x # xs) =
     (if addr mod 4 = 0 then (crc, x # xs) else align_loop tab (addr + 1) (do_crc tab crc x) xs)"

fun words_loop :: "nat \<Rightarrow> u32 list list \<Rightarrow> nat \<Rightarrow> u32 \<Rightarrow> byte list \<Rightarrow> u32 \<times> byte list" where
  "words_loop bits tab 0 crc buf = (crc, buf)"
| "words_loop bits tab (Suc n) crc buf =
     (let q = crc XOR le32_at buf 0
      in if bits = 32 then words_loop bits tab n (do_crc4 tab q) (drop 4 buf)
         else words_loop bits tab n (do_crc8 tab q XOR do_crc4 tab (le32_at buf 4)) (drop 8 buf))"

definition crc32_body :: "nat \<Rightarrow> nat \<Rightarrow> u32 \<Rightarrow> byte list \<Rightarrow> u32 list list \<Rightarrow> u32" where
  "crc32_body bits addr crc buf tab =
     (let (crc1, buf1) = align_loop tab addr crc buf;
          (crc2, buf2) = words_loop bits tab (length buf1 div (if bits = 32 then 4 else 8)) crc1 buf1
      in foldl (do_crc tab) crc2 buf2)"

definition crc32_le_generic :: "nat \<Rightarrow> nat \<Rightarrow> u32 \<Rightarrow> byte list \<Rightarrow> u32 list list \<Rightarrow> u32 \<Rightarrow> u32" where
  "crc32_le_generic bits addr crc p tab polynomial =
     (if bits = 1 then foldl (\<lambda>crc b. (crc_step polynomial ^^ 8) (crc XOR ucast b)) crc p
      else if bits = 2 then foldl (\<lambda>crc b. ((\<lambda>c. drop_bit 2 c XOR tab ! 0 ! unat (c AND 3)) ^^ 4) (crc XOR ucast b)) crc p
      else if bits = 4 then foldl (\<lambda>crc b. ((\<lambda>c. drop_bit 4 c XOR tab ! 0 ! unat (c AND 15)) ^^ 2) (crc XOR ucast b)) crc p
      else if bits = 8 then foldl (\<lambda>crc b. let c = crc XOR ucast b in drop_bit 8 c XOR tab ! 0 ! unat (c AND 255)) crc p
      else crc32_body bits addr crc p tab)"

definition crc32ctable_le :: "u32 list list" where
  "crc32ctable_le = crc32cinit_le 64"

text \<open>The address of the buffer is an argument; the result does not depend on it, so the callers below pass 0.\<close>

definition ext2fs_crc32c_le :: "nat \<Rightarrow> u32 \<Rightarrow> byte list \<Rightarrow> u32" where
  "ext2fs_crc32c_le addr crc p = crc32_le_generic 64 addr crc p crc32ctable_le CRC32C_POLY_LE"

section \<open>Slicing\<close>

text \<open>
  What \<open>crc32_body\<close> relies on: taking in a byte is linear, and the bits above the byte that leaves the
  register are only shifted down. The register of \<open>crc32c\<close> has these laws, and so has the
  byte-swapped register of the big-endian variant.
\<close>

definition slice_row :: "(u32 \<Rightarrow> u32) \<Rightarrow> nat \<Rightarrow> u32 list \<Rightarrow> bool" where
  "slice_row f k row \<longleftrightarrow> (\<forall>v < 256. row ! v = (f ^^ k) (of_nat v))"

definition slice_table :: "(u32 \<Rightarrow> u32) \<Rightarrow> nat \<Rightarrow> u32 list list \<Rightarrow> bool" where
  "slice_table f n tab \<longleftrightarrow> (\<forall>j < n. slice_row f (Suc j) (tab ! j))"

definition register_bytes :: "(u32 \<Rightarrow> u32) \<Rightarrow> u32 \<Rightarrow> byte list \<Rightarrow> u32" where
  "register_bytes f crc p = foldl (\<lambda>crc b. f (crc XOR ucast b)) crc p"

lemma register_bytes_append: "register_bytes f crc (xs @ ys) = register_bytes f (register_bytes f crc xs) ys"
  by (simp add: register_bytes_def)

lemma register_bytes_simps [simp]:
  "register_bytes f crc [] = crc" "register_bytes f crc (b # bs) = register_bytes f (f (crc XOR ucast b)) bs"
  by (simp_all add: register_bytes_def)

lemma word_of_le_bound: "\<not> bit (word_of_le bs :: u32) (8 * length bs + n)"
proof (induction bs arbitrary: n)
  case (Cons b bs)
  have "\<not> bit b m" if "8 \<le> m" for m using that bit_imp_le_length [of b m] by auto
  then show ?case using Cons [of n] by (auto simp: bit_simps)
qed simp

lemma and_low_bits: "c AND 3 = take_bit 2 c" "c AND 15 = take_bit 4 c" "c AND 255 = take_bit 8 c" for c :: u32
  by (simp_all add: take_bit_eq_mask mask_numeral)

lemma row_word: "slice_row f k row \<Longrightarrow> row ! unat (q AND 255) = (f ^^ k) (take_bit 8 q)"
proof -
  assume r: "slice_row f k row"
  have "unat (take_bit 8 q) < 256" using take_bit_nat_less_exp [of 8 "unat q"] by (simp add: unsigned_take_bit_eq)
  then show ?thesis using r by (simp add: slice_row_def and_low_bits)
qed

locale byte_register =
  fixes bstep :: "u32 \<Rightarrow> u32"
  assumes bstep_xor: "bstep (a XOR b) = bstep a XOR bstep b"
    and bstep_split: "bstep x = drop_bit 8 x XOR bstep (take_bit 8 x)"
begin

lemma bsteps_xor: "(bstep ^^ k) (a XOR b) = (bstep ^^ k) a XOR (bstep ^^ k) b"
  by (induction k) (simp_all add: bstep_xor)

lemma bsteps_0: "(bstep ^^ k) 0 = 0"
  by (metis bsteps_xor xor_self_eq)

lemma bsteps_add: "(bstep ^^ m) ((bstep ^^ n) c) = (bstep ^^ (m + n)) c"
  by (simp add: funpow_add)

lemma bsteps_byte: "(bstep ^^ Suc m) q = (bstep ^^ m) (drop_bit 8 q) XOR (bstep ^^ Suc m) (take_bit 8 q)"
  using bstep_split [of q] by (simp only: funpow_Suc_right o_apply bsteps_xor [symmetric])

lemma bsteps_four:
  "(bstep ^^ (m + 4)) q = (bstep ^^ (m + 4)) (take_bit 8 q) XOR (bstep ^^ (m + 3)) (take_bit 8 (drop_bit 8 q)) XOR
     (bstep ^^ (m + 2)) (take_bit 8 (drop_bit 16 q)) XOR (bstep ^^ (m + 1)) (take_bit 8 (drop_bit 24 q))"
proof -
  have s: "m + 4 = Suc (m + 3)" "m + 3 = Suc (m + 2)" "m + 2 = Suc (m + 1)" "m + 1 = Suc m" by simp_all
  have z: "drop_bit 32 q = 0" by (rule bit_eqI) (auto simp: bit_simps dest: bit_imp_le_length)
  have "(bstep ^^ (m + 4)) q = (bstep ^^ (m + 3)) (drop_bit 8 q) XOR (bstep ^^ (m + 4)) (take_bit 8 q)"
    unfolding s(1) by (rule bsteps_byte)
  moreover have "(bstep ^^ (m + 3)) (drop_bit 8 q) = (bstep ^^ (m + 2)) (drop_bit 16 q) XOR (bstep ^^ (m + 3)) (take_bit 8 (drop_bit 8 q))"
    using bsteps_byte [of "m + 2" "drop_bit 8 q"] by (simp only: s(2) drop_bit_drop_bit) simp
  moreover have "(bstep ^^ (m + 2)) (drop_bit 16 q) = (bstep ^^ (m + 1)) (drop_bit 24 q) XOR (bstep ^^ (m + 2)) (take_bit 8 (drop_bit 16 q))"
    using bsteps_byte [of "m + 1" "drop_bit 16 q"] by (simp only: s(3) drop_bit_drop_bit) simp
  moreover have "(bstep ^^ (m + 1)) (drop_bit 24 q) = (bstep ^^ (m + 1)) (take_bit 8 (drop_bit 24 q))"
    using bsteps_byte [of m "drop_bit 24 q"] z by (simp only: s(4) drop_bit_drop_bit) (simp add: bsteps_0)
  ultimately show ?thesis by (simp only: ac_simps)
qed

text \<open>Up to four bytes enter the register together.\<close>

lemma bytes_word: "length bs \<le> 4 \<Longrightarrow> register_bytes bstep crc bs = (bstep ^^ length bs) (crc XOR word_of_le bs)"
proof (induction bs arbitrary: crc)
  case (Cons b bs)
  let ?w = "word_of_le bs :: u32"
  have low: "take_bit 8 (push_bit 8 ?w) = 0" by (rule bit_eqI) (auto simp: bit_simps)
  have "bit ?w n \<Longrightarrow> n < 24" for n
    using word_of_le_bound [of bs "n - 8 * length bs"] Cons(2) by (cases "8 * length bs \<le> n") auto
  then have "drop_bit 8 (push_bit 8 ?w) = ?w" by (intro bit_eqI) (auto simp: bit_simps)
  then have p: "bstep (push_bit 8 ?w) = ?w" using bstep_split [of "push_bit 8 ?w"] bsteps_0 [of 1] low by simp
  have "register_bytes bstep crc (b # bs) = (bstep ^^ length bs) (bstep (crc XOR ucast b) XOR bstep (push_bit 8 ?w))"
    using Cons by (simp add: p)
  also have "\<dots> = (bstep ^^ length bs) (bstep (crc XOR (ucast b XOR push_bit 8 ?w)))"
    by (simp only: bstep_xor [symmetric] xor.assoc)
  also have "ucast b XOR push_bit 8 ?w = word_of_le (b # bs)"
    by (rule bit_eqI) (auto simp: bit_simps dest: bit_imp_le_length)
  finally show ?case by (simp only: list.size funpow_Suc_right o_apply add_Suc_right add_0_right)
qed simp

text \<open>A table with one row takes in a byte, one with more rows a word.\<close>

lemma do_crc_bstep: "slice_row bstep 1 (tab ! 0) \<Longrightarrow> do_crc tab crc x = bstep (crc XOR ucast x)"
proof -
  assume r: "slice_row bstep 1 (tab ! 0)"
  have "drop_bit 8 (crc XOR ucast x) = drop_bit 8 crc" by (rule bit_eqI) (auto simp: bit_simps dest: bit_imp_le_length)
  then show ?thesis
    using row_word [OF r, of "crc XOR ucast x"] bstep_split [of "crc XOR ucast x"] by (simp add: do_crc_def xor.commute)
qed

lemma do_crc4_bsteps:
  assumes "slice_table bstep 4 tab"
  shows "do_crc4 tab q = (bstep ^^ 4) q"
proof -
  have r: "slice_row bstep 1 (tab ! 0)" "slice_row bstep 2 (tab ! 1)" "slice_row bstep 3 (tab ! 2)" "slice_row bstep 4 (tab ! 3)"
    using assms [unfolded slice_table_def, rule_format, of 0] assms [unfolded slice_table_def, rule_format, of 1]
      assms [unfolded slice_table_def, rule_format, of 2] assms [unfolded slice_table_def, rule_format, of 3]
    by (simp_all add: eval_nat_numeral)
  show ?thesis using bsteps_four [of 0 q] by (simp only: do_crc4_def row_word [OF r(1)] row_word [OF r(2)] row_word [OF r(3)] row_word [OF r(4)] add_0)
qed

lemma do_crc8_bsteps:
  assumes "slice_table bstep 8 tab"
  shows "do_crc8 tab q = (bstep ^^ 8) q"
proof -
  have r: "slice_row bstep 5 (tab ! 4)" "slice_row bstep 6 (tab ! 5)" "slice_row bstep 7 (tab ! 6)" "slice_row bstep 8 (tab ! 7)"
    using assms [unfolded slice_table_def, rule_format, of 4] assms [unfolded slice_table_def, rule_format, of 5]
      assms [unfolded slice_table_def, rule_format, of 6] assms [unfolded slice_table_def, rule_format, of 7] by simp_all
  have "(4::nat) + 4 = 8" "(4::nat) + 3 = 7" "(4::nat) + 2 = 6" "(4::nat) + 1 = 5" by simp_all
  then show ?thesis using bsteps_four [of 4 q] by (simp only: do_crc8_def row_word [OF r(1)] row_word [OF r(2)] row_word [OF r(3)] row_word [OF r(4)])
qed

lemma foldl_do_crc: "slice_row bstep 1 (tab ! 0) \<Longrightarrow> foldl (do_crc tab) crc bs = register_bytes bstep crc bs"
  by (induction bs arbitrary: crc) (simp_all add: do_crc_bstep)

lemma align_loop_bytes:
  "slice_row bstep 1 (tab ! 0) \<Longrightarrow> align_loop tab addr crc bs = (c, r) \<Longrightarrow> \<exists>pre. bs = pre @ r \<and> c = register_bytes bstep crc pre"
proof (induction tab addr crc bs rule: align_loop.induct)
  case (2 tab addr crc x xs)
  show ?case
  proof (cases "addr mod 4 = 0")
    case True
    then show ?thesis using 2(3) by auto
  next
    case False
    then obtain pre where "xs = pre @ r" "c = register_bytes bstep (do_crc tab crc x) pre" using 2 by auto
    then show ?thesis using do_crc_bstep [OF 2(2)] by (intro exI [of _ "x # pre"]) simp
  qed
qed simp

lemma take4_bytes: "4 \<le> length buf \<Longrightarrow> register_bytes bstep crc (take 4 buf) = (bstep ^^ 4) (crc XOR le32_at buf 0)"
  by (simp add: bytes_word le32_at_def)

lemma words_loop_bytes:
  assumes "bits \<in> {32, 64}" "slice_table bstep (bits div 8) tab" "n * (bits div 8) \<le> length buf"
  shows "words_loop bits tab n crc buf = (register_bytes bstep crc (take (n * (bits div 8)) buf), drop (n * (bits div 8)) buf)"
  using assms(3)
proof (induction n arbitrary: crc buf)
  case (Suc n)
  consider "bits = 32" | "bits = 64" using assms(1) by blast
  then show ?case
  proof cases
    case 1
    have "register_bytes bstep crc (take (4 + n * 4) buf) = register_bytes bstep (register_bytes bstep crc (take 4 buf)) (take (n * 4) (drop 4 buf))"
      by (simp only: take_add register_bytes_append)
    then show ?thesis
      using Suc(1) [of "drop 4 buf" "(bstep ^^ 4) (crc XOR le32_at buf 0)"] Suc(2) assms(2) 1
      by (simp add: Let_def do_crc4_bsteps take4_bytes add.commute)
  next
    case 2
    have a: "register_bytes bstep crc (take (8 + n * 8) buf) =
        register_bytes bstep (register_bytes bstep (register_bytes bstep crc (take 4 buf)) (take 4 (drop 4 buf))) (take (n * 8) (drop 8 buf))"
      using take_add [of 8 "n * 8" buf] take_add [of 4 4 buf] by (simp add: register_bytes_append)
    have t: "slice_table bstep 4 tab" "slice_table bstep 8 tab" using assms(2) 2 by (simp_all add: slice_table_def)
    have "le32_at (drop 4 buf) 0 = le32_at buf 4" by (simp add: le32_at_def)
    moreover have "(4::nat) + 4 = 8" by simp
    ultimately have "register_bytes bstep (register_bytes bstep crc (take 4 buf)) (take 4 (drop 4 buf)) =
        (bstep ^^ 8) (crc XOR le32_at buf 0) XOR (bstep ^^ 4) (le32_at buf 4)"
      using Suc(2) 2 bsteps_add [of 4 4 "crc XOR le32_at buf 0"] by (simp add: take4_bytes bsteps_xor)
    then show ?thesis
      using Suc(1) [of "drop 8 buf" "(bstep ^^ 8) (crc XOR le32_at buf 0) XOR (bstep ^^ 4) (le32_at buf 4)"] Suc(2) 2 a
      by (simp add: Let_def do_crc4_bsteps [OF t(1)] do_crc8_bsteps [OF t(2)] add.commute)
  qed
qed simp

lemma crc32_body_bytes:
  assumes "bits \<in> {32, 64}" "slice_table bstep (bits div 8) tab"
  shows "crc32_body bits addr crc p tab = register_bytes bstep crc p"
proof -
  have d: "(if bits = 32 then 4 else 8) = bits div 8" using assms(1) by auto
  have "0 < bits div 8" using assms(1) by auto
  then have r: "slice_row bstep 1 (tab ! 0)" using assms(2) by (simp add: slice_table_def)
  obtain c q where a: "align_loop tab addr crc p = (c, q)" by fastforce
  then obtain pre where "p = pre @ q" "c = register_bytes bstep crc pre" using align_loop_bytes [OF r] by blast
  moreover have "words_loop bits tab (length q div (bits div 8)) c q =
      (register_bytes bstep c (take (length q div (bits div 8) * (bits div 8)) q), drop (length q div (bits div 8) * (bits div 8)) q)"
    by (rule words_loop_bytes [OF assms]) simp
  ultimately show ?thesis
    using a by (simp add: crc32_body_def d foldl_do_crc [OF r] register_bytes_append [symmetric])
qed

end

interpretation crc32c: shift_register CRC32C_POLY_LE
  by unfold_locales (simp add: CRC32C_POLY_LE_def)

section \<open>The tables are what the variants need\<close>

abbreviation steps :: "nat \<Rightarrow> u32 \<Rightarrow> u32" where
  "steps k \<equiv> crc_step CRC32C_POLY_LE ^^ k"

lemma funpow_steps: "(steps k ^^ n) c = steps (n * k) c"
  by (induction n) (simp_all add: funpow_add)

lemma length_init_stride: "length (init_stride size1 i crc j tab) = length tab"
  by (induction size1 i crc j tab rule: init_stride.induct) (subst init_stride.simps, simp)

lemma init_stride_nth:
  assumes "0 < i" "2 * i dvd j" "2 * i dvd size1" "size1 \<le> length tab" "v < length tab"
  shows "init_stride size1 i crc j tab ! v =
    (if j + i \<le> v \<and> v < size1 \<and> 2 * i dvd v - i then crc XOR tab ! (v - i) else tab ! v)"
  using assms
proof (induction size1 i crc j tab rule: init_stride.induct)
  case (1 size1 i crc j tab)
  show ?case
  proof (cases "j < size1")
    case True
    obtain a b where ab: "j = 2 * i * a" "size1 = 2 * i * b" using 1(3,4) by (auto elim!: dvdE)
    then have "a + 1 \<le> b" using True 1(2) by simp
    then have "2 * i * (a + 1) \<le> 2 * i * b" by (rule mult_le_mono2)
    then have in1: "j + 2 * i \<le> size1" using ab by simp
    then have "i + j < length tab" using 1(2,5) by linarith
    then have t: "tab[i + j := crc XOR tab ! j] ! x = (if x = i + j then crc XOR tab ! j else tab ! x)" for x by auto
    have ih: "init_stride size1 i crc (j + 2 * i) (tab[i + j := crc XOR tab ! j]) ! v =
        (if j + 2 * i + i \<le> v \<and> v < size1 \<and> 2 * i dvd v - i then crc XOR tab[i + j := crc XOR tab ! j] ! (v - i) else tab[i + j := crc XOR tab ! j] ! v)"
      by (rule 1(1)) (use True 1(2-6) in auto)
    have odd: "\<not> 2 * i dvd i" using 1(2) by (auto dest: dvd_imp_le)
    have mid: "v = j + i" if "2 * i dvd v - i" "j + i \<le> v" "v < j + 2 * i + i"
    proof -
      have "2 * i dvd (v - i) - j" using that(1) 1(3) by (rule dvd_diff_nat)
      then show ?thesis using that(2,3) by (auto dest: dvd_imp_le)
    qed
    have skip: "v - i \<noteq> i + j" if "2 * i dvd v - i" "j + 2 * i + i \<le> v"
    proof
      assume "v - i = i + j"
      then have "2 * i dvd i" using that(1) 1(3) by (metis dvd_add_left_iff)
      then show False using odd by simp
    qed
    have u: "init_stride size1 i crc j tab = init_stride size1 i crc (j + 2 * i) (tab[i + j := crc XOR tab ! j])"
      using True 1(2) by (subst init_stride.simps) simp
    consider "v = i + j" | "v \<noteq> i + j" "j + i \<le> v" "2 * i dvd v - i" | "v \<noteq> i + j" "\<not> (j + i \<le> v \<and> 2 * i dvd v - i)" by blast
    then show ?thesis
    proof cases
      case 1
      then show ?thesis unfolding u ih t using in1 \<open>2 * i dvd j\<close> \<open>0 < i\<close> by simp
    next
      case 2
      then have "j + 2 * i + i \<le> v" using mid [OF 2(3,2)] by linarith
      then show ?thesis using skip [OF 2(3)] 2 by (simp add: u ih t)
    next
      case 3
      then have "\<not> (j + 2 * i + i \<le> v \<and> v < size1 \<and> 2 * i dvd v - i)" by auto
      then show ?thesis using 3 by (auto simp: u ih t)
    qed
  next
    case False
    then show ?thesis by (subst init_stride.simps) auto
  qed
qed

lemma nat_split_word:
  assumes "2 ^ Suc m dvd j"
  shows "(of_nat (2 ^ m + j) :: u32) = 2 ^ m XOR of_nat j"
proof -
  obtain q where q: "j = push_bit (Suc m) q" using assms by (auto simp: push_bit_eq_mult mult.commute elim!: dvdE)
  have "push_bit m 1 AND j = 0" unfolding q by (rule bit_eqI) (auto simp: bit_simps simp del: push_bit_Suc)
  then have "2 ^ m + j = 2 ^ m XOR j" using disjunctive_add_eq_xor [of "push_bit m 1" j] by (simp add: push_bit_eq_mult)
  then show ?thesis by (simp add: of_nat_xor_eq)
qed

lemma steps_exp:
  assumes "m < 32" "m \<le> k"
  shows "steps k (2 ^ m) = steps (k - m) 1"
proof -
  have "take_bit m (2 ^ m :: u32) = 0" by (rule bit_eqI) (auto simp: bit_simps)
  moreover have "drop_bit m (2 ^ m :: u32) = 1" using assms(1) by (simp add: drop_bit_exp_eq)
  ultimately have "steps m (2 ^ m) = 1" using crc32c.steps_low by metis
  then have "steps ((k - m) + m) (2 ^ m) = steps (k - m) 1" by (simp only: funpow_add o_apply)
  then show ?thesis using assms(2) by simp
qed

lemma init_stride_steps:
  assumes k: "m < k" "k \<le> 8" "2 ^ k \<le> length tab" and tab: "\<forall>v < 2 ^ k. 2 ^ Suc m dvd v \<longrightarrow> tab ! v = steps k (of_nat v)"
    and v: "v < 2 ^ k" "2 ^ m dvd v"
  shows "init_stride (2 ^ k) (2 ^ m) (steps (k - m) 1) 0 tab ! v = steps k (of_nat v)"
proof -
  have "2 * 2 ^ m dvd (2 ^ k :: nat)" using k(1) by (metis Suc_leI le_imp_power_dvd power_Suc)
  then have n: "init_stride (2 ^ k) (2 ^ m) (steps (k - m) 1) 0 tab ! v =
      (if 2 ^ m \<le> v \<and> 2 * 2 ^ m dvd v - 2 ^ m then steps (k - m) 1 XOR tab ! (v - 2 ^ m) else tab ! v)"
    using init_stride_nth [of "2 ^ m" 0 "2 ^ k" tab v "steps (k - m) 1"] k(3) v(1) by simp
  show ?thesis
  proof (cases "2 * 2 ^ m dvd v")
    case True
    have "\<not> (2 ^ m \<le> v \<and> 2 * 2 ^ m dvd v - 2 ^ m)"
    proof
      assume "2 ^ m \<le> v \<and> 2 * 2 ^ m dvd v - 2 ^ m"
      then have "2 * 2 ^ m dvd (2 ^ m :: nat)" using True by (metis dvd_diffD1)
      then show False by (auto dest: dvd_imp_le)
    qed
    then have "init_stride (2 ^ k) (2 ^ m) (steps (k - m) 1) 0 tab ! v = tab ! v" using n by (simp only: if_False)
    then show ?thesis using tab v(1) True by simp
  next
    case False
    obtain a where a: "v = 2 ^ m * a" using v(2) by (rule dvdE)
    then have "odd a" using False by (auto elim!: evenE)
    then obtain b where b: "a = 2 * b + 1" by (rule oddE)
    then have e: "v = 2 ^ m + 2 ^ Suc m * b" using a by simp
    then have "v - 2 ^ m = 2 ^ Suc m * b" "2 ^ m \<le> v" by simp_all
    then have "init_stride (2 ^ k) (2 ^ m) (steps (k - m) 1) 0 tab ! v = steps (k - m) 1 XOR steps k (of_nat (2 ^ Suc m * b))"
      using n tab v(1) by simp
    also have "\<dots> = steps k (2 ^ m XOR of_nat (2 ^ Suc m * b))"
      using steps_exp [of m k] k by (simp add: crc32c.steps_xor)
    also have "\<dots> = steps k (of_nat v)" unfolding e by (subst nat_split_word) auto
    finally show ?thesis .
  qed
qed

lemma init_row_nth:
  assumes "m < k" "k \<le> 8" "2 ^ k \<le> length tab" "crc = steps (k - 1 - m) 1"
    and "\<forall>v < 2 ^ k. 2 ^ Suc m dvd v \<longrightarrow> tab ! v = steps k (of_nat v)" and "v < 2 ^ k"
  shows "init_row (2 ^ k) (2 ^ m) crc tab ! v = steps k (of_nat v)"
  using assms
proof (induction m arbitrary: crc tab)
  case 0
  have "Suc (k - 1 - 0) = k - 0" using 0(1) by simp
  then have "crc_step CRC32C_POLY_LE crc = steps (k - 0) 1" using 0(4) by (metis funpow.simps(2) o_apply)
  then show ?case using init_stride_steps [of 0 k tab v] 0 by (subst init_row.simps) (simp add: init_row.simps [of _ 0])
next
  case (Suc m)
  have "Suc (k - 1 - Suc m) = k - Suc m" using Suc(2) by simp
  then have c: "crc_step CRC32C_POLY_LE crc = steps (k - Suc m) 1" using Suc(5) by (metis funpow.simps(2) o_apply)
  have "init_row (2 ^ k) (2 ^ m) (steps (k - Suc m) 1) (init_stride (2 ^ k) (2 ^ Suc m) (steps (k - Suc m) 1) 0 tab) ! v = steps k (of_nat v)"
  proof (rule Suc(1))
    show "\<forall>v < 2 ^ k. 2 ^ Suc m dvd v \<longrightarrow> init_stride (2 ^ k) (2 ^ Suc m) (steps (k - Suc m) 1) 0 tab ! v = steps k (of_nat v)"
      using init_stride_steps [OF Suc(2-4,6)] by blast
  qed (use Suc(2-4,7) in \<open>auto simp: length_init_stride\<close>)
  then show ?case by (subst init_row.simps) (simp add: c Let_def)
qed

lemma length_init_row: "length (init_row size1 i crc tab) = length tab"
  by (induction size1 i crc tab rule: init_row.induct) (subst init_row.simps, simp add: Let_def length_init_stride)

lemma row_lookup:
  assumes "\<forall>v < 2 ^ k. row ! v = steps k (of_nat v)"
  shows "drop_bit k c XOR row ! unat (take_bit k c) = steps k c"
proof -
  have "unat (take_bit k c) < 2 ^ k" by (simp add: unsigned_take_bit_eq)
  then show ?thesis using assms crc32c.steps_split [of k c] by simp
qed

definition row_ok :: "nat \<Rightarrow> u32 list \<Rightarrow> bool" where
  "row_ok k row \<longleftrightarrow> (\<forall>v < 256. row ! v = steps k (of_nat v))"

text \<open>
  The other rows of a table, for any function \<open>nx\<close> that computes the next value of the register from the
  first row: row \<open>j\<close> holds the values after \<open>j\<close> more applications.
\<close>

definition fill_entry :: "(u32 list \<Rightarrow> u32 \<Rightarrow> u32) \<Rightarrow> nat \<Rightarrow> nat \<Rightarrow> u32 \<times> u32 list list \<Rightarrow> u32 \<times> u32 list list" where
  "fill_entry nx i j = (\<lambda>(crc, tab). let crc1 = nx (tab ! 0) crc in (crc1, tab[j := (tab ! j)[i := crc1]]))"

definition fill_column :: "(u32 list \<Rightarrow> u32 \<Rightarrow> u32) \<Rightarrow> nat \<Rightarrow> nat \<Rightarrow> u32 list list \<Rightarrow> u32 list list" where
  "fill_column nx rows i tab = snd (fold (fill_entry nx i) [1..<rows] (tab ! 0 ! i, tab))"

lemma fill_column_fold:
  assumes "nx (tab ! 0) = f" "\<forall>r \<in> set tab. length r = 256" "i < 256" "n < length tab"
  shows "\<exists>tab'. fold (fill_entry nx i) [1..<Suc n] (tab ! 0 ! i, tab) = ((f ^^ n) (tab ! 0 ! i), tab') \<and> length tab' = length tab \<and>
    (\<forall>r \<in> set tab'. length r = 256) \<and> tab' ! 0 = tab ! 0 \<and>
    (\<forall>j < length tab. \<forall>v < 256. tab' ! j ! v = (if v = i \<and> 0 < j \<and> j \<le> n then (f ^^ j) (tab ! 0 ! i) else tab ! j ! v))"
  using assms(4)
proof (induction n)
  case 0
  then show ?case using assms(2) by auto
next
  case (Suc n)
  then obtain tab' where t: "fold (fill_entry nx i) [1..<Suc n] (tab ! 0 ! i, tab) = ((f ^^ n) (tab ! 0 ! i), tab')" "length tab' = length tab"
    "\<forall>r \<in> set tab'. length r = 256" "tab' ! 0 = tab ! 0"
    "\<forall>j < length tab. \<forall>v < 256. tab' ! j ! v = (if v = i \<and> 0 < j \<and> j \<le> n then (f ^^ j) (tab ! 0 ! i) else tab ! j ! v)"
    by auto
  let ?c = "(f ^^ Suc n) (tab ! 0 ! i)"
  have e: "fill_entry nx i (Suc n) ((f ^^ n) (tab ! 0 ! i), tab') = (?c, tab'[Suc n := (tab' ! Suc n)[i := ?c]])"
    using t(4) assms(1) by (simp add: fill_entry_def Let_def)
  have "[1..<Suc (Suc n)] = [1..<Suc n] @ [Suc n]" by simp
  then have f: "fold (fill_entry nx i) [1..<Suc (Suc n)] (tab ! 0 ! i, tab) = (?c, tab'[Suc n := (tab' ! Suc n)[i := ?c]])"
    using t(1) e by (simp only: fold_append fold.simps o_apply id_apply)
  have n: "Suc n < length tab'" "length (tab' ! Suc n) = 256" using Suc(2) t(2,3) by auto
  show ?case unfolding f
  proof (intro exI conjI)
    show "\<forall>j < length tab. \<forall>v < 256. tab'[Suc n := (tab' ! Suc n)[i := ?c]] ! j ! v =
        (if v = i \<and> 0 < j \<and> j \<le> Suc n then (f ^^ j) (tab ! 0 ! i) else tab ! j ! v)"
      using t(5) n assms(3) by (auto simp: nth_list_update le_Suc_eq)
    show "\<forall>r \<in> set (tab'[Suc n := (tab' ! Suc n)[i := ?c]]). length r = 256"
      using t(3) n(2) by (auto dest!: subsetD [OF set_update_subset_insert])
  qed (use t(2,4) in auto)
qed

lemma fill_columns:
  assumes "nx (tab ! 0) = f" "\<forall>r \<in> set tab. length r = 256" "0 < length tab" "n \<le> 256"
  shows "let tab' = fold (fill_column nx (length tab)) [0..<n] tab
    in length tab' = length tab \<and> (\<forall>r \<in> set tab'. length r = 256) \<and> tab' ! 0 = tab ! 0 \<and>
       (\<forall>j < length tab. \<forall>v < n. tab' ! j ! v = (f ^^ j) (tab ! 0 ! v))"
  using assms(4)
proof (induction n)
  case 0
  then show ?case using assms by simp
next
  case (Suc n)
  let ?t = "fold (fill_column nx (length tab)) [0..<n] tab"
  have t: "length ?t = length tab" "\<forall>r \<in> set ?t. length r = 256" "?t ! 0 = tab ! 0"
    "\<forall>j < length tab. \<forall>v < n. ?t ! j ! v = (f ^^ j) (tab ! 0 ! v)"
    using Suc by (simp_all add: Let_def)
  obtain m where m: "length tab = Suc m" using assms(3) gr0_conv_Suc by auto
  obtain tab' where t': "fold (fill_entry nx n) [1..<Suc m] (?t ! 0 ! n, ?t) = ((f ^^ m) (?t ! 0 ! n), tab')" "length tab' = length tab"
      "\<forall>r \<in> set tab'. length r = 256" "tab' ! 0 = tab ! 0"
      "\<forall>j < length tab. \<forall>v < 256. tab' ! j ! v = (if v = n \<and> 0 < j \<and> j \<le> m then (f ^^ j) (?t ! 0 ! n) else ?t ! j ! v)"
    using fill_column_fold [of nx ?t f n m] assms(1) t(1-3) Suc(2) m by (simp del: upt_Suc) blast
  have "fold (fill_column nx (length tab)) [0..<Suc n] tab = tab'" using t'(1) m by (simp add: fill_column_def)
  moreover have "\<forall>j < length tab. \<forall>v < Suc n. tab' ! j ! v = (f ^^ j) (tab ! 0 ! v)"
  proof (intro allI impI)
    fix j v
    assume "j < length tab" "v < Suc n"
    then show "tab' ! j ! v = (f ^^ j) (tab ! 0 ! v)" using t'(4,5) t(3,4) Suc(2) m by (cases "j = 0"; cases "v = n") auto
  qed
  ultimately show ?case using t'(2-4) by (simp add: Let_def)
qed

lemma init_column_fill: "init_column = fill_column (\<lambda>row crc. row ! unat (crc AND 0xff) XOR drop_bit 8 crc)"
proof -
  have "init_entry = fill_entry (\<lambda>row crc. row ! unat (crc AND 0xff) XOR drop_bit 8 crc)"
    by (simp add: fun_eq_iff init_entry_def fill_entry_def)
  then show ?thesis by (intro ext) (simp only: init_column_def fill_column_def)
qed

lemma init_row_ok: "0 < k \<Longrightarrow> k \<le> 8 \<Longrightarrow> v < 2 ^ k \<Longrightarrow> init_row (2 ^ k) (2 ^ k div 2) 1 (replicate 256 0) ! v = steps k (of_nat v)"
proof -
  assume k: "0 < k" "k \<le> 8" "v < 2 ^ k"
  have "(2 :: nat) ^ k \<le> 2 ^ 8" using k(2) by (intro power_increasing) auto
  then have len: "2 ^ k \<le> length (replicate 256 (0 :: u32))" by simp
  have "init_row (2 ^ k) (2 ^ (k - 1)) 1 (replicate 256 0) ! v = steps k (of_nat v)"
  proof (rule init_row_nth [OF _ k(2) len _ _ k(3)])
    show "\<forall>v < 2 ^ k. 2 ^ Suc (k - 1) dvd v \<longrightarrow> replicate 256 0 ! v = steps k (of_nat v)"
      using k(1) len by (auto simp: crc32c.steps_0 dest: dvd_imp_le)
  qed (use k(1) in auto)
  moreover have "(2 :: nat) ^ k div 2 = 2 ^ (k - 1)" using k(1) by (cases k) auto
  ultimately show ?thesis by simp
qed

lemma crc32cinit_le_small:
  assumes "0 < bits" "bits \<le> 8" "v < 2 ^ bits"
  shows "crc32cinit_le bits ! 0 ! v = steps bits (of_nat v)"
proof -
  have "init_column (Suc 0) i tab = tab" for i tab by (simp add: init_column_def)
  then have "fold (init_column (Suc 0)) is tab = tab" for "is" tab by (induction "is" arbitrary: tab) auto
  then show ?thesis using assms init_row_ok by (simp add: crc32cinit_le_def LE_TABLE_SIZE_def LE_TABLE_ROWS_def Let_def)
qed

lemma crc32cinit_le_rows:
  assumes "8 < bits" "j < bits div 8"
  shows "row_ok (8 * Suc j) (crc32cinit_le bits ! j)"
proof -
  let ?tab = "(replicate (bits div 8) (replicate 256 0))[0 := init_row 256 (256 div 2) 1 (replicate 256 0)]"
  have r: "0 < bits div 8" using assms by simp
  have 0: "row_ok 8 (?tab ! 0)" using r init_row_ok [of 8] by (simp add: row_ok_def)
  have l: "\<forall>r \<in> set ?tab. length r = 256" by (auto simp: length_init_row dest!: subsetD [OF set_update_subset_insert])
  have "crc32cinit_le bits = fold (init_column (length ?tab)) [0..<256] ?tab"
    using assms by (simp add: crc32cinit_le_def LE_TABLE_SIZE_def LE_TABLE_ROWS_def Let_def)
  moreover have "(\<lambda>crc. ?tab ! 0 ! unat (crc AND 0xff) XOR drop_bit 8 crc) = steps 8"
    using row_lookup [of 8 "?tab ! 0"] 0 by (simp add: row_ok_def and_low_bits xor.commute)
  moreover have s: "steps (8 * Suc j) c = (steps 8 ^^ j) (steps 8 c)" for c
    using funpow_steps [of "Suc j" 8 c] by (simp only: funpow_Suc_right o_apply mult.commute)
  ultimately have c: "crc32cinit_le bits ! j ! v = (steps 8 ^^ j) (?tab ! 0 ! v)" if "v < 256" for v
    using fill_columns [of "\<lambda>row crc. row ! unat (crc AND 0xff) XOR drop_bit 8 crc" ?tab "steps 8" 256, unfolded Let_def] l r assms(2) that
    unfolding init_column_fill by simp
  show ?thesis unfolding row_ok_def
  proof (intro allI impI)
    fix v :: nat
    assume v: "v < 256"
    then have "?tab ! 0 ! v = steps 8 (of_nat v)" using 0 by (simp only: row_ok_def)
    then show "crc32cinit_le bits ! j ! v = steps (8 * Suc j) (of_nat v)" using c [OF v] s by (simp only:)
  qed
qed

section \<open>All variants compute the same\<close>

definition crc32c_bytes :: "u32 \<Rightarrow> byte list \<Rightarrow> u32" where
  "crc32c_bytes crc p = foldl (\<lambda>crc b. steps 8 (crc XOR ucast b)) crc p"

lemma crc32c_bytes_append: "crc32c_bytes crc (xs @ ys) = crc32c_bytes (crc32c_bytes crc xs) ys"
  by (simp add: crc32c_bytes_def)

lemma crc32c_bytes_simps [simp]: "crc32c_bytes crc [] = crc" "crc32c_bytes crc (b # bs) = crc32c_bytes (steps 8 (crc XOR ucast b)) bs"
  by (simp_all add: crc32c_bytes_def)

lemma steps_add: "steps m (steps n c) = steps (m + n) c"
  by (simp add: funpow_add)

interpretation crc32c_byte: byte_register "steps 8"
proof
  show "steps 8 x = drop_bit 8 x XOR steps 8 (take_bit 8 x)" for x by (rule crc32c.steps_split)
qed (rule crc32c.steps_xor)

lemma crc32c_bytes_register: "crc32c_bytes = register_bytes (steps 8)"
  by (simp add: fun_eq_iff crc32c_bytes_def register_bytes_def)

lemma crc32c_bytes_word: "length bs \<le> 4 \<Longrightarrow> crc32c_bytes crc bs = steps (8 * length bs) (crc XOR word_of_le bs)"
  using crc32c_byte.bytes_word [of bs crc] by (simp only: crc32c_bytes_register funpow_steps mult.commute)

lemma row_ok_slice: "row_ok (8 * k) row \<longleftrightarrow> slice_row (steps 8) k row"
  by (simp only: row_ok_def slice_row_def funpow_steps mult.commute)

lemma crc32cinit_le_table: "8 < bits \<Longrightarrow> slice_table (steps 8) (bits div 8) (crc32cinit_le bits)"
  using crc32cinit_le_rows [of bits] by (simp only: row_ok_slice slice_table_def) simp

lemma crc32_le_generic_bytes:
  assumes "bits \<in> {1, 2, 4, 8, 32, 64}"
  shows "crc32_le_generic bits addr crc p (crc32cinit_le bits) CRC32C_POLY_LE = crc32c_bytes crc p"
proof -
  have look: "drop_bit k c XOR crc32cinit_le k ! 0 ! unat (take_bit k c) = steps k c" if "0 < k" "k \<le> 8" for k c
    using row_lookup crc32cinit_le_small [OF that] by blast
  have "(\<lambda>c. drop_bit 2 c XOR crc32cinit_le 2 ! 0 ! unat (c AND 3)) = steps 2"
    "(\<lambda>c. drop_bit 4 c XOR crc32cinit_le 4 ! 0 ! unat (c AND 15)) = steps 4"
    "drop_bit 8 c XOR crc32cinit_le 8 ! 0 ! unat (c AND 255) = steps 8 c" for c
    using look by (simp_all add: and_low_bits)
  then show ?thesis
    using assms crc32c_byte.crc32_body_bytes [of bits "crc32cinit_le bits" addr crc p] crc32cinit_le_table [of bits]
    by (auto simp: crc32_le_generic_def crc32c_bytes_def register_bytes_def funpow_steps Let_def)
qed

lemma ext2fs_crc32c_le_bytes: "ext2fs_crc32c_le addr crc p = crc32c_bytes crc p"
  by (simp add: ext2fs_crc32c_le_def crc32ctable_le_def crc32_le_generic_bytes)

section \<open>CRC-16\<close>

definition crc16_table :: "u16 list" where
  "crc16_table =
     [0x0000, 0xC0C1, 0xC181, 0x0140, 0xC301, 0x03C0, 0x0280, 0xC241, 0xC601, 0x06C0, 0x0780, 0xC741, 0x0500, 0xC5C1, 0xC481, 0x0440,
      0xCC01, 0x0CC0, 0x0D80, 0xCD41, 0x0F00, 0xCFC1, 0xCE81, 0x0E40, 0x0A00, 0xCAC1, 0xCB81, 0x0B40, 0xC901, 0x09C0, 0x0880, 0xC841,
      0xD801, 0x18C0, 0x1980, 0xD941, 0x1B00, 0xDBC1, 0xDA81, 0x1A40, 0x1E00, 0xDEC1, 0xDF81, 0x1F40, 0xDD01, 0x1DC0, 0x1C80, 0xDC41,
      0x1400, 0xD4C1, 0xD581, 0x1540, 0xD701, 0x17C0, 0x1680, 0xD641, 0xD201, 0x12C0, 0x1380, 0xD341, 0x1100, 0xD1C1, 0xD081, 0x1040,
      0xF001, 0x30C0, 0x3180, 0xF141, 0x3300, 0xF3C1, 0xF281, 0x3240, 0x3600, 0xF6C1, 0xF781, 0x3740, 0xF501, 0x35C0, 0x3480, 0xF441,
      0x3C00, 0xFCC1, 0xFD81, 0x3D40, 0xFF01, 0x3FC0, 0x3E80, 0xFE41, 0xFA01, 0x3AC0, 0x3B80, 0xFB41, 0x3900, 0xF9C1, 0xF881, 0x3840,
      0x2800, 0xE8C1, 0xE981, 0x2940, 0xEB01, 0x2BC0, 0x2A80, 0xEA41, 0xEE01, 0x2EC0, 0x2F80, 0xEF41, 0x2D00, 0xEDC1, 0xEC81, 0x2C40,
      0xE401, 0x24C0, 0x2580, 0xE541, 0x2700, 0xE7C1, 0xE681, 0x2640, 0x2200, 0xE2C1, 0xE381, 0x2340, 0xE101, 0x21C0, 0x2080, 0xE041,
      0xA001, 0x60C0, 0x6180, 0xA141, 0x6300, 0xA3C1, 0xA281, 0x6240, 0x6600, 0xA6C1, 0xA781, 0x6740, 0xA501, 0x65C0, 0x6480, 0xA441,
      0x6C00, 0xACC1, 0xAD81, 0x6D40, 0xAF01, 0x6FC0, 0x6E80, 0xAE41, 0xAA01, 0x6AC0, 0x6B80, 0xAB41, 0x6900, 0xA9C1, 0xA881, 0x6840,
      0x7800, 0xB8C1, 0xB981, 0x7940, 0xBB01, 0x7BC0, 0x7A80, 0xBA41, 0xBE01, 0x7EC0, 0x7F80, 0xBF41, 0x7D00, 0xBDC1, 0xBC81, 0x7C40,
      0xB401, 0x74C0, 0x7580, 0xB541, 0x7700, 0xB7C1, 0xB681, 0x7640, 0x7200, 0xB2C1, 0xB381, 0x7340, 0xB101, 0x71C0, 0x7080, 0xB041,
      0x5000, 0x90C1, 0x9181, 0x5140, 0x9301, 0x53C0, 0x5280, 0x9241, 0x9601, 0x56C0, 0x5780, 0x9741, 0x5500, 0x95C1, 0x9481, 0x5440,
      0x9C01, 0x5CC0, 0x5D80, 0x9D41, 0x5F00, 0x9FC1, 0x9E81, 0x5E40, 0x5A00, 0x9AC1, 0x9B81, 0x5B40, 0x9901, 0x59C0, 0x5880, 0x9841,
      0x8801, 0x48C0, 0x4980, 0x8941, 0x4B00, 0x8BC1, 0x8A81, 0x4A40, 0x4E00, 0x8EC1, 0x8F81, 0x4F40, 0x8D01, 0x4DC0, 0x4C80, 0x8C41,
      0x4400, 0x84C1, 0x8581, 0x4540, 0x8701, 0x47C0, 0x4680, 0x8641, 0x8201, 0x42C0, 0x4380, 0x8341, 0x4100, 0x81C1, 0x8081, 0x4040]"

definition ext2fs_crc16 :: "u32 \<Rightarrow> byte list \<Rightarrow> u32" where
  "ext2fs_crc16 crc buffer =
     foldl (\<lambda>crc b. ((drop_bit 8 crc AND 0xff) XOR ucast (crc16_table ! unat ((crc XOR ucast b) AND 0xff))) AND 0xffff) crc buffer"

interpretation crc16: shift_register "0xA001 :: u16"
  by unfold_locales simp

text \<open>The sums of the elements of a basis, in binary order of the elements taken.\<close>

fun xor_span :: "'a::len word list \<Rightarrow> 'a word list" where
  "xor_span [] = [0]"
| "xor_span (b # bs) = xor_span bs @ map (\<lambda>x. b XOR x) (xor_span bs)"

lemma length_xor_span: "length (xor_span bs) = 2 ^ length bs"
  by (induction bs) simp_all

lemma nat_join_word: "w < 2 ^ k \<Longrightarrow> (of_nat (2 ^ k + w) :: 'a::len word) = 2 ^ k XOR of_nat w"
proof -
  assume w: "w < 2 ^ k"
  have "\<not> bit w k" using w by (simp add: bit_iff_odd)
  then have "push_bit k 1 AND w = 0" by (intro bit_eqI) (auto simp: bit_simps)
  then have "2 ^ k + w = 2 ^ k XOR w" using disjunctive_add_eq_xor [of "push_bit k 1" w] by (simp add: push_bit_eq_mult)
  then show ?thesis by (simp add: of_nat_xor_eq)
qed

lemma xor_span_nth:
  assumes "\<And>a b. f (a XOR b) = f a XOR f b" "f 0 = (0 :: 'a::len word)" "v < 2 ^ k"
  shows "xor_span (map (\<lambda>i. f (2 ^ i)) (rev [0..<k])) ! v = f (of_nat v :: 'a word)"
  using assms(3)
proof (induction k arbitrary: v)
  case (Suc k)
  let ?t = "xor_span (map (\<lambda>i. f (2 ^ i)) (rev [0..<k]))"
  have l: "length ?t = 2 ^ k" by (simp add: length_xor_span)
  show ?case
  proof (cases "v < 2 ^ k")
    case True
    then show ?thesis using Suc(1) l by (simp add: nth_append)
  next
    case False
    define w where "w = v - 2 ^ k"
    have w: "w < 2 ^ k" "v = 2 ^ k + w" using False Suc(2) by (simp_all add: w_def)
    show ?thesis using Suc(1) [OF w(1)] l w assms(1) nat_join_word [OF w(1), where 'a = 'a] by (simp add: nth_append)
  qed
qed (simp add: assms(2))

lemma crc16_basis: "map (\<lambda>i. (crc_step (0xA001 :: u16) ^^ 8) (2 ^ i)) (rev [0..<8]) =
    [0xA001, 0xF001, 0xD801, 0xCC01, 0xC601, 0xC301, 0xC181, 0xC0C1]"
  by code_simp

lemma crc16_table_span: "crc16_table = xor_span [0xA001, 0xF001, 0xD801, 0xCC01, 0xC601, 0xC301, 0xC181, 0xC0C1]"
  by (simp add: crc16_table_def)

definition crc16_bytes :: "u16 \<Rightarrow> byte list \<Rightarrow> u16" where
  "crc16_bytes crc p = foldl (\<lambda>crc b. (crc_step 0xA001 ^^ 8) (crc XOR ucast b)) crc p"

lemma crc16_table_nth: "v < 256 \<Longrightarrow> crc16_table ! v = (crc_step 0xA001 ^^ 8) (of_nat v)"
  using xor_span_nth [of "crc_step (0xA001 :: u16) ^^ 8" v 8] crc16.steps_xor crc16.steps_0
  by (simp only: crc16_table_span crc16_basis) simp

lemma unat_low_byte: "unat (ucast (take_bit 8 c) :: u32) = unat (take_bit 8 c)" "unat (take_bit 8 c) < 256" for c :: u16
proof -
  show b: "unat (take_bit 8 c) < 256" using take_bit_nat_less_exp [of 8 "unat c"] by (simp add: unsigned_take_bit_eq)
  then show "unat (ucast (take_bit 8 c) :: u32) = unat (take_bit 8 c)" by (simp add: unsigned_ucast_eq take_bit_nat_eq_self)
qed

lemma crc16_step:
  "ucast (((drop_bit 8 crc AND 0xff) XOR ucast (crc16_table ! unat ((crc XOR ucast b) AND 0xff))) AND 0xffff) =
     (crc_step (0xA001 :: u16) ^^ 8) (ucast (crc :: u32) XOR ucast (b :: byte))"
proof -
  let ?c = "ucast crc XOR ucast b :: u16"
  have m: "(0xff :: u32) = mask 8" "(0xffff :: u32) = mask 16" by (simp_all add: mask_numeral)
  have i: "(crc XOR ucast b) AND 0xff = ucast (take_bit 8 ?c)" unfolding m by (rule bit_eqI) (auto simp: bit_simps)
  have u: "unat (ucast (take_bit 8 ?c) :: u32) = unat (take_bit 8 ?c)" "unat (take_bit 8 ?c) < 256" by (rule unat_low_byte)+
  have t: "crc16_table ! unat ((crc XOR ucast b) AND 0xff) = (crc_step 0xA001 ^^ 8) (take_bit 8 ?c)"
    unfolding i u(1) using crc16_table_nth [OF u(2)] by simp
  have "ucast (((drop_bit 8 crc AND 0xff) XOR ucast t) AND 0xffff) = drop_bit 8 ?c XOR t" for t :: u16
    unfolding m by (rule bit_eqI) (auto simp: bit_simps dest: bit_imp_le_length)
  then show ?thesis using crc16.steps_split [of 8 ?c] t by simp
qed

lemma ext2fs_crc16_bytes: "ucast (ext2fs_crc16 crc p) = crc16_bytes (ucast crc) p"
  by (induction p arbitrary: crc) (simp_all add: ext2fs_crc16_def crc16_bytes_def crc16_step del: funpow.simps)

section \<open>Properties\<close>

lemma crc32c_bytes_inj: "crc32c_bytes c p = crc32c_bytes d p \<Longrightarrow> c = d"
proof (induction p arbitrary: c d)
  case (Cons b p)
  then have "steps 8 (c XOR ucast b) = steps 8 (d XOR ucast b)" by (auto simp del: funpow.simps)
  then have "c XOR ucast b = d XOR ucast b" by (rule crc32c.steps_inj)
  then show ?case by (simp only: xor_right_cancel)
qed simp

text \<open>Every checksum is that of any given bytes, from some seed.\<close>

lemma crc32c_bytes_surj: "\<exists>s. crc32c_bytes s p = v"
proof -
  define f where "f = (\<lambda>s. crc32c_bytes s p)"
  have "inj f" using crc32c_bytes_inj by (auto simp: f_def inj_def)
  then have "surj f" using finite_UNIV_inj_surj [of f] by simp
  then obtain s where "v = f s" by (rule surjE)
  then show ?thesis unfolding f_def by blast
qed

lemma crc32c_burst:
  assumes "length mid = length mid'" "length mid \<le> 4" "mid \<noteq> mid'"
  shows "crc32c_bytes crc (pre @ mid @ post) \<noteq> crc32c_bytes crc (pre @ mid' @ post)"
proof
  let ?c = "crc32c_bytes crc pre"
  assume "crc32c_bytes crc (pre @ mid @ post) = crc32c_bytes crc (pre @ mid' @ post)"
  then have "crc32c_bytes ?c mid = crc32c_bytes ?c mid'" using crc32c_bytes_inj [of _ post] by (simp add: crc32c_bytes_append)
  then have "?c XOR word_of_le mid = ?c XOR word_of_le mid'"
    using assms(1,2) crc32c.steps_inj by (metis crc32c_bytes_word)
  then have "(word_of_le mid :: u32) = word_of_le mid'" by (metis xor.commute xor_right_cancel)
  moreover have "8 * length mid \<le> LENGTH(32)" using assms(2) by simp
  ultimately show False using assms le_of_word_word_of_le [of mid "length mid", where 'a = 32] le_of_word_word_of_le [of mid' "length mid", where 'a = 32]
    by metis
qed

text \<open>
  C16: whatever number of bits the source is built for, with the tables that the generator makes for
  that number and whatever the address of the buffer, the checksum is the bitwise one: the
  register is shifted eight times for each byte. The slicing by four and by eight included.
\<close>

theorem crc32c_variants_agree:
  assumes "bits \<in> {1, 2, 4, 8, 32, 64}"
  shows "crc32_le_generic bits addr crc p (crc32cinit_le bits) CRC32C_POLY_LE =
    foldl (\<lambda>crc b. (crc_step CRC32C_POLY_LE ^^ 8) (crc XOR ucast b)) crc p"
  using crc32_le_generic_bytes [OF assms] by (simp add: crc32c_bytes_def)

theorem crc32c_variants_agree_witness:
  "crc32_le_generic 64 3 0xFFFFFFFF [0x31] (crc32cinit_le 64) CRC32C_POLY_LE = 0x6F0A661C"
proof -
  have "(crc_step CRC32C_POLY_LE ^^ 8) (0xFFFFFFFF XOR ucast (0x31 :: byte)) = 0x6F0A661C" by code_simp
  then show ?thesis using crc32c_variants_agree [where bits = 64 and addr = 3 and crc = "0xFFFFFFFF" and p = "[0x31]"] by simp
qed

text \<open>
  two buffers of the same length that differ, and only within four consecutive bytes, have
  different checksums, from any seed and at any addresses.
\<close>

theorem crc32c_burst_detected:
  assumes "length mid = length mid'" "length mid \<le> 4" "mid \<noteq> mid'"
  shows "ext2fs_crc32c_le addr crc (pre @ mid @ post) \<noteq> ext2fs_crc32c_le addr' crc (pre @ mid' @ post)"
  using crc32c_burst [OF assms] by (simp add: ext2fs_crc32c_le_bytes)

theorem crc32c_burst_detected_witness:
  "ext2fs_crc32c_le 0 0 [1, 2, 3, 4, 5, 6] \<noteq> ext2fs_crc32c_le 1 0 [1, 7, 3, 4, 8, 6]"
  using crc32c_burst_detected [of "[2, 3, 4, 5]" "[7, 3, 4, 8]" 0 0 "[1]" "[6]" 1] by simp

end
