(* ===== verification/Super_Block.thy ===== *)
theory Super_Block
  imports E2fs_Base
begin

unbundle bit_operations_syntax

text \<open>
  The superblock: the fields of \<^verbatim>\<open>struct ext2_super_block\<close> (lib/ext2fs/ext2_fs.h) that the library uses to find
  its way, the macros over them, and the checks of \<open>ext2fs_open2\<close> (openfs.c). Arithmetic is that
  of \<open>unsigned int\<close>, so products wrap around.
\<close>

section \<open>Fields\<close>

record ext2_super_block =
  s_inodes_count :: u32
  s_blocks_count :: u32
  s_first_data_block :: u32
  s_log_block_size :: u32
  s_log_cluster_size :: u32
  s_blocks_per_group :: u32
  s_clusters_per_group :: u32
  s_inodes_per_group :: u32
  s_magic :: u16
  s_creator_os :: u32
  s_rev_level :: u32
  s_inode_size :: u16
  s_feature_compat :: u32
  s_feature_incompat :: u32
  s_feature_ro_compat :: u32
  s_desc_size :: u16
  s_first_meta_bg :: u32
  s_blocks_count_hi :: u32
  s_log_groups_per_flex :: byte
  s_backup_bgs0 :: u32
  s_backup_bgs1 :: u32
  s_uuid :: "byte list"
  s_checksum_type :: byte
  s_checksum_seed :: u32

text \<open>The fields where the structure has them in the 1024 bytes of the superblock.\<close>

definition super_of :: "byte list \<Rightarrow> ext2_super_block" where
  "super_of buf =
     \<lparr>s_inodes_count = le32_at buf 0x00, s_blocks_count = le32_at buf 0x04, s_first_data_block = le32_at buf 0x14,
      s_log_block_size = le32_at buf 0x18, s_log_cluster_size = le32_at buf 0x1c, s_blocks_per_group = le32_at buf 0x20,
      s_clusters_per_group = le32_at buf 0x24, s_inodes_per_group = le32_at buf 0x28, s_magic = le16_at buf 0x38,
      s_creator_os = le32_at buf 0x48, s_rev_level = le32_at buf 0x4c, s_inode_size = le16_at buf 0x58,
      s_feature_compat = le32_at buf 0x5c, s_feature_incompat = le32_at buf 0x60, s_feature_ro_compat = le32_at buf 0x64,
      s_desc_size = le16_at buf 0xfe, s_first_meta_bg = le32_at buf 0x104, s_blocks_count_hi = le32_at buf 0x150,
      s_log_groups_per_flex = buf ! 0x174, s_backup_bgs0 = le32_at buf 0x24c, s_backup_bgs1 = le32_at buf 0x250,
      s_uuid = take 16 (drop 0x68 buf), s_checksum_type = buf ! 0x175, s_checksum_seed = le32_at buf 0x270\<rparr>"

definition EXT2_SUPER_MAGIC :: u16 where "EXT2_SUPER_MAGIC = 0xEF53"
definition EXT2_OS_HURD :: u32 where "EXT2_OS_HURD = 1"

text \<open>The test functions that ext2_fs.h generates for the features.\<close>

definition ext2fs_has_feature_sparse_super2 :: "ext2_super_block \<Rightarrow> bool" where
  "ext2fs_has_feature_sparse_super2 sb \<longleftrightarrow> s_feature_compat sb AND 0x0200 \<noteq> 0"
definition ext2fs_has_feature_sparse_super :: "ext2_super_block \<Rightarrow> bool" where
  "ext2fs_has_feature_sparse_super sb \<longleftrightarrow> s_feature_ro_compat sb AND 0x0001 \<noteq> 0"
definition ext2fs_has_feature_gdt_csum :: "ext2_super_block \<Rightarrow> bool" where
  "ext2fs_has_feature_gdt_csum sb \<longleftrightarrow> s_feature_ro_compat sb AND 0x0010 \<noteq> 0"
definition ext2fs_has_feature_bigalloc :: "ext2_super_block \<Rightarrow> bool" where
  "ext2fs_has_feature_bigalloc sb \<longleftrightarrow> s_feature_ro_compat sb AND 0x0200 \<noteq> 0"
definition ext2fs_has_feature_metadata_csum :: "ext2_super_block \<Rightarrow> bool" where
  "ext2fs_has_feature_metadata_csum sb \<longleftrightarrow> s_feature_ro_compat sb AND 0x0400 \<noteq> 0"
definition ext2fs_has_feature_journal_dev :: "ext2_super_block \<Rightarrow> bool" where
  "ext2fs_has_feature_journal_dev sb \<longleftrightarrow> s_feature_incompat sb AND 0x0008 \<noteq> 0"
definition ext2fs_has_feature_meta_bg :: "ext2_super_block \<Rightarrow> bool" where
  "ext2fs_has_feature_meta_bg sb \<longleftrightarrow> s_feature_incompat sb AND 0x0010 \<noteq> 0"
definition ext2fs_has_feature_64bit :: "ext2_super_block \<Rightarrow> bool" where
  "ext2fs_has_feature_64bit sb \<longleftrightarrow> s_feature_incompat sb AND 0x0080 \<noteq> 0"
definition ext2fs_has_feature_mmp :: "ext2_super_block \<Rightarrow> bool" where
  "ext2fs_has_feature_mmp sb \<longleftrightarrow> s_feature_incompat sb AND 0x0100 \<noteq> 0"

text \<open>The masks of the features that the library supports, written out.\<close>

definition EXT2_LIB_FEATURE_INCOMPAT_SUPP :: u32 where "EXT2_LIB_FEATURE_INCOMPAT_SUPP = 0x3E7DE"
definition EXT2_LIB_FEATURE_RO_COMPAT_SUPP :: u32 where "EXT2_LIB_FEATURE_RO_COMPAT_SUPP = 0x1F77B"
definition EXT2_LIB_SOFTSUPP_RO_COMPAT :: u32 where "EXT2_LIB_SOFTSUPP_RO_COMPAT = 0x0800"

section \<open>Macros\<close>

definition EXT2_BLOCK_SIZE :: "ext2_super_block \<Rightarrow> u32" where
  "EXT2_BLOCK_SIZE sb = push_bit (unat (s_log_block_size sb)) 1024"
definition EXT2_CLUSTER_SIZE :: "ext2_super_block \<Rightarrow> u32" where
  "EXT2_CLUSTER_SIZE sb = push_bit (unat (s_log_cluster_size sb)) 1024"
definition EXT2_INODE_SIZE :: "ext2_super_block \<Rightarrow> u32" where
  "EXT2_INODE_SIZE sb = (if s_rev_level sb = 0 then 128 else ucast (s_inode_size sb))"
definition EXT2_DESC_SIZE :: "ext2_super_block \<Rightarrow> u32" where
  "EXT2_DESC_SIZE sb = (if ext2fs_has_feature_64bit sb then ucast (s_desc_size sb) else 32)"
definition EXT2_MAX_BLOCKS_PER_GROUP :: "ext2_super_block \<Rightarrow> u32" where
  "EXT2_MAX_BLOCKS_PER_GROUP sb = (0x10000 - 8) * (EXT2_CLUSTER_SIZE sb div EXT2_BLOCK_SIZE sb)"
definition EXT2_MAX_INODES_PER_GROUP :: "ext2_super_block \<Rightarrow> u32" where
  "EXT2_MAX_INODES_PER_GROUP sb = 0x10000 - EXT2_BLOCK_SIZE sb div EXT2_INODE_SIZE sb"

text \<open>A descriptor size of 0 stops the process.\<close>

definition EXT2_DESC_PER_BLOCK :: "ext2_super_block \<Rightarrow> u32 res" where
  "EXT2_DESC_PER_BLOCK sb = (if EXT2_DESC_SIZE sb = 0 then Inl DivideByZero else Inr (EXT2_BLOCK_SIZE sb div EXT2_DESC_SIZE sb))"

definition ext2fs_blocks_count :: "ext2_super_block \<Rightarrow> u64" where
  "ext2fs_blocks_count sb =
     ucast (s_blocks_count sb) OR (if ext2fs_has_feature_64bit sb then push_bit 32 (ucast (s_blocks_count_hi sb)) else 0)"

definition ext2fs_div_ceil :: "u32 \<Rightarrow> u32 \<Rightarrow> u32" where
  "ext2fs_div_ceil a b = (if a = 0 then 0 else (a - 1) div b + 1)"
definition ext2fs_div64_ceil :: "u64 \<Rightarrow> u64 \<Rightarrow> u64" where
  "ext2fs_div64_ceil a b = (if a = 0 then 0 else (a - 1) div b + 1)"

definition inode_blocks_per_group :: "ext2_super_block \<Rightarrow> u32" where
  "inode_blocks_per_group sb =
     (s_inodes_per_group sb * EXT2_INODE_SIZE sb + EXT2_BLOCK_SIZE sb - 1) div EXT2_BLOCK_SIZE sb"

section \<open>The checks of ext2fs\_open2\<close>

definition EXT2_FLAG_RW :: u32 where "EXT2_FLAG_RW = 0x01"
definition EXT2_FLAG_SWAP_BYTES :: u32 where "EXT2_FLAG_SWAP_BYTES = 0x40"
definition EXT2_FLAG_FORCE :: u32 where "EXT2_FLAG_FORCE = 0x400"
definition EXT2_FLAG_SUPER_ONLY :: u32 where "EXT2_FLAG_SUPER_ONLY = 0x800"
definition EXT2_FLAG_JOURNAL_DEV_OK :: u32 where "EXT2_FLAG_JOURNAL_DEV_OK = 0x1000"
definition EXT2_FLAG_IMAGE_FILE :: u32 where "EXT2_FLAG_IMAGE_FILE = 0x2000"
definition EXT2_FLAG_EXCLUSIVE :: u32 where "EXT2_FLAG_EXCLUSIVE = 0x4000"
definition EXT2_FLAG_SOFTSUPP_FEATURES :: u32 where "EXT2_FLAG_SOFTSUPP_FEATURES = 0x8000"
definition EXT2_FLAG_64BITS :: u32 where "EXT2_FLAG_64BITS = 0x20000"
definition EXT2_FLAG_DIRECT_IO :: u32 where "EXT2_FLAG_DIRECT_IO = 0x80000"
definition EXT2_FLAG_SKIP_MMP :: u32 where "EXT2_FLAG_SKIP_MMP = 0x100000"
definition EXT2_FLAG_IGNORE_CSUM_ERRORS :: u32 where "EXT2_FLAG_IGNORE_CSUM_ERRORS = 0x200000"
definition EXT2_FLAG_SHARE_DUP :: u32 where "EXT2_FLAG_SHARE_DUP = 0x400000"
definition EXT2_FLAG_IGNORE_SB_ERRORS :: u32 where "EXT2_FLAG_IGNORE_SB_ERRORS = 0x800000"
definition EXT2_FLAG_THREADS :: u32 where "EXT2_FLAG_THREADS = 0x4000000"

definition flag :: "u32 \<Rightarrow> u32 \<Rightarrow> bool" where
  "flag flags f \<longleftrightarrow> flags AND f \<noteq> 0"

definition check_features :: "u32 \<Rightarrow> ext2_super_block \<Rightarrow> errcode_t" where
  "check_features flags sb =
     (if flag flags EXT2_FLAG_FORCE then None
      else if s_feature_incompat sb AND NOT EXT2_LIB_FEATURE_INCOMPAT_SUPP \<noteq> 0 then Some EXT2_ET_UNSUPP_FEATURE
      else (let features = (if flag flags EXT2_FLAG_SOFTSUPP_FEATURES then s_feature_ro_compat sb AND NOT EXT2_LIB_SOFTSUPP_RO_COMPAT
                            else s_feature_ro_compat sb)
            in if flag flags EXT2_FLAG_RW \<and> features AND NOT EXT2_LIB_FEATURE_RO_COMPAT_SUPP \<noteq> 0 then Some EXT2_ET_RO_UNSUPP_FEATURE
               else if \<not> flag flags EXT2_FLAG_JOURNAL_DEV_OK \<and> ext2fs_has_feature_journal_dev sb then Some EXT2_ET_UNSUPP_FEATURE
               else None))"

definition check_sizes :: "u32 \<Rightarrow> u32 \<Rightarrow> ext2_super_block \<Rightarrow> errcode_t" where
  "check_sizes flags block_size sb =
     (let bs = EXT2_BLOCK_SIZE sb; inode_size = EXT2_INODE_SIZE sb; desc_size = ucast (s_desc_size sb) :: u32
      in if s_log_block_size sb > 6 \<or> s_log_cluster_size sb > 19 \<or> s_log_block_size sb > s_log_cluster_size sb \<or>
           s_log_groups_per_flex sb > 31 then Some EXT2_ET_CORRUPT_SUPERBLOCK
         else if ext2fs_has_feature_bigalloc sb \<and> \<not> flag flags EXT2_FLAG_64BITS then Some EXT2_ET_CANT_USE_LEGACY_BITMAPS
         else if \<not> ext2fs_has_feature_bigalloc sb \<and> s_log_block_size sb \<noteq> s_log_cluster_size sb then Some EXT2_ET_CORRUPT_SUPERBLOCK
         else if inode_size < 128 \<or> inode_size > bs \<or> inode_size AND (inode_size - 1) \<noteq> 0 then Some EXT2_ET_CORRUPT_SUPERBLOCK
         else if \<not> flag flags EXT2_FLAG_IGNORE_SB_ERRORS \<and> ext2fs_has_feature_64bit sb \<and>
           (desc_size < 64 \<or> desc_size > 1024 \<or> desc_size AND (desc_size - 1) \<noteq> 0) then Some EXT2_ET_BAD_DESC_SIZE
         else if s_blocks_per_group sb \<noteq> push_bit (unat (s_log_cluster_size sb - s_log_block_size sb)) (s_clusters_per_group sb)
         then Some EXT2_ET_CORRUPT_SUPERBLOCK
         else if block_size \<noteq> 0 \<and> block_size \<noteq> bs then Some EXT2_ET_UNEXPECTED_BLOCK_SIZE
         else None)"

definition check_super :: "u32 \<Rightarrow> u32 \<Rightarrow> ext2_super_block \<Rightarrow> errcode_t" where
  "check_super flags block_size sb =
     (if s_rev_level sb > 1 then Some EXT2_ET_REV_TOO_HIGH
      else case check_features flags sb of Some e \<Rightarrow> Some e | None \<Rightarrow> check_sizes flags block_size sb)"

text \<open>The number of groups and of blocks of descriptors.\<close>

definition check_groups :: "u32 \<Rightarrow> ext2_super_block \<Rightarrow> (ext2_err + u32 \<times> u32) res" where
  "check_groups flags sb =
     (let blocks_per_group = s_blocks_per_group sb; first = ucast (s_first_data_block sb) :: u64
      in if s_inodes_per_group sb = 0 then Inr (Inl EXT2_ET_CORRUPT_SUPERBLOCK)
         else if blocks_per_group < 8 \<or> blocks_per_group > EXT2_MAX_BLOCKS_PER_GROUP sb \<or>
           inode_blocks_per_group sb > EXT2_MAX_INODES_PER_GROUP sb then Inr (Inl EXT2_ET_CORRUPT_SUPERBLOCK)
         else and_then (EXT2_DESC_PER_BLOCK sb) (\<lambda>desc_per_block.
           if desc_per_block = 0 \<or> first \<ge> ext2fs_blocks_count sb then Inr (Inl EXT2_ET_CORRUPT_SUPERBLOCK)
           else (let groups_cnt = ext2fs_div64_ceil (ext2fs_blocks_count sb - first) (ucast blocks_per_group);
                     group_desc_count = ucast groups_cnt :: u32; desc_blocks = ext2fs_div_ceil group_desc_count desc_per_block
                 in if drop_bit 32 groups_cnt \<noteq> 0 then Inr (Inl EXT2_ET_CORRUPT_SUPERBLOCK)
                    else if \<not> flag flags EXT2_FLAG_IGNORE_SB_ERRORS \<and>
                      ucast group_desc_count * ucast (s_inodes_per_group sb) \<noteq> (ucast (s_inodes_count sb) :: u64)
                    then Inr (Inl EXT2_ET_CORRUPT_SUPERBLOCK)
                    else if ext2fs_has_feature_meta_bg sb \<and> s_first_meta_bg sb > desc_blocks \<and> \<not> flag flags EXT2_FLAG_IGNORE_SB_ERRORS
                    then Inr (Inl EXT2_ET_CORRUPT_SUPERBLOCK)
                    else Inr (Inr (group_desc_count, desc_blocks)))))"

end
