(* ===== verification/Csum.thy ===== *)
theory Csum
  imports Crc Super_Block
begin

text \<open>
  \<^verbatim>\<open>src/e2fsprogs/lib/ext2fs/csum.c\<close>, the checksums of the superblock and of inodes, on the bytes as they lie on disk.
  The buffers of the caller have the sizes of the structures. A function that stores a checksum
  returns the buffer. The machine is little endian, so that a number in memory is the number on disk.
\<close>

unbundle bit_operations_syntax

section \<open>Stores into a buffer\<close>

definition put_le :: "nat \<Rightarrow> nat \<Rightarrow> 'a::len word \<Rightarrow> byte list \<Rightarrow> byte list" where
  "put_le n off v buf = take off buf @ le_of_word n v @ drop (off + n) buf"

lemma length_put_le [simp]: "off + n \<le> length buf \<Longrightarrow> length (put_le n off v buf) = length buf"
  by (simp add: put_le_def)

lemma take_put_le: "m \<le> off \<Longrightarrow> off \<le> length buf \<Longrightarrow> take m (put_le n off v buf) = take m buf"
  by (simp add: put_le_def)

lemma drop_put_le: "off + n \<le> m \<Longrightarrow> off + n \<le> length buf \<Longrightarrow> drop m (put_le n off v buf) = drop m buf"
  by (simp add: put_le_def)

lemma put_le_put_le: "off + n \<le> length buf \<Longrightarrow> put_le n off v (put_le n off w buf) = put_le n off v buf"
  by (simp add: put_le_def)

text \<open>Fields that do not overlap.\<close>

lemma field_put_le:
  assumes "off + n \<le> length buf" "a + m \<le> off \<or> off + n \<le> a"
  shows "take m (drop a (put_le n off v buf)) = take m (drop a buf)"
  using assms(2)
proof
  assume "a + m \<le> off"
  then have "take (a + m) (put_le n off v buf) = take (a + m) buf" using assms(1) by (intro take_put_le) auto
  then show ?thesis by (metis add.commute take_drop)
next
  assume "off + n \<le> a"
  then show ?thesis using assms(1) by (simp add: drop_put_le)
qed

lemma field_put_le_same: "off + n \<le> length buf \<Longrightarrow> take n (drop off (put_le n off v buf)) = le_of_word n v"
  by (simp add: put_le_def)

lemma word_of_le_zeros [simp]: "word_of_le (replicate n 0) = 0"
  by (induction n) simp_all

lemma word_of_field: "off + n \<le> length buf \<Longrightarrow> LENGTH('a) \<le> 8 * n \<Longrightarrow> word_of_le (take n (drop off (put_le n off v buf))) = (v :: 'a::len word)"
  by (simp add: field_put_le_same)

lemma put_le_field:
  assumes "off + n \<le> length buf" "8 * n \<le> LENGTH('a)"
  shows "put_le n off (word_of_le (take n (drop off buf)) :: 'a::len word) buf = buf"
proof -
  have "le_of_word n (word_of_le (take n (drop off buf)) :: 'a word) = take n (drop off buf)"
    using assms by (intro le_of_word_word_of_le) auto
  then show ?thesis unfolding put_le_def by (metis append_take_drop_id drop_drop add.commute)
qed

lemma le_at_put_le:
  "off + n \<le> length buf \<Longrightarrow> a + 2 \<le> off \<or> off + n \<le> a \<Longrightarrow> le16_at (put_le n off v buf) a = le16_at buf a"
  "off + n \<le> length buf \<Longrightarrow> a + 4 \<le> off \<or> off + n \<le> a \<Longrightarrow> le32_at (put_le n off v buf) a = le32_at buf a"
  by (simp_all add: le16_at_def le32_at_def field_put_le)

lemma nth_put_le: "off + n \<le> length buf \<Longrightarrow> a < off \<Longrightarrow> put_le n off v buf ! a = buf ! a"
  by (simp add: put_le_def nth_append)

lemma le_at_put_same:
  "off + 2 \<le> length buf \<Longrightarrow> le16_at (put_le 2 off v buf) off = v"
  "off + 4 \<le> length buf \<Longrightarrow> le32_at (put_le 4 off w buf) off = w"
  by (simp_all add: le16_at_def le32_at_def word_of_field)

lemma put_le_commute:
  assumes "a + n \<le> b" "b + m \<le> length buf"
  shows "put_le n a v (put_le m b w buf) = put_le m b w (put_le n a v buf)"
  using assms by (simp add: put_le_def drop_take)

section \<open>Sealed structures\<close>

text \<open>
  A structure of \<open>len\<close> bytes with a checksum in the \<open>n\<close> bytes at \<open>off\<close> that does not depend on those
  bytes; and, where the checksum is kept whole, that changes with any change of at most four neighbouring
  bytes around them.
\<close>

locale sealed =
  fixes n off len :: nat and calc :: "byte list \<Rightarrow> 'a::len word"
  assumes width: "8 * n = LENGTH('a)"
    and skips: "length buf = len \<Longrightarrow> off + n \<le> len \<Longrightarrow> calc (put_le n off (v :: 'a word) buf) = calc buf"
begin

lemma sealed_verifies:
  "length buf = len \<Longrightarrow> off + n \<le> len \<Longrightarrow>
   word_of_le (take n (drop off (put_le n off (calc buf) buf))) = calc (put_le n off (calc buf) buf)"
  using width skips [of buf "calc buf"] by (simp add: word_of_field)

lemma verified_sealed:
  "length buf = len \<Longrightarrow> off + n \<le> len \<Longrightarrow> word_of_le (take n (drop off buf)) = calc buf \<Longrightarrow> put_le n off (calc buf) buf = buf"
  using width put_le_field [of off n buf, where 'a = 'a] by simp

end

locale tamper_evident = sealed +
  assumes burst: "\<lbrakk>length (a @ mid @ b) = len; length mid' = length mid; length mid \<le> 4; mid' \<noteq> mid; off + n \<le> len;
                 length a + length mid \<le> off \<or> off + n \<le> length a\<rbrakk> \<Longrightarrow> calc (a @ mid' @ b) \<noteq> calc (a @ mid @ b)"
begin

lemma broken_seal:
  assumes "length (a @ mid @ b) = len" "length mid' = length mid" "length mid \<le> 4" "mid' \<noteq> mid" "off + n \<le> len"
    "length a + length mid \<le> off \<or> off + n \<le> length a"
    and ver: "word_of_le (take n (drop off (a @ mid @ b))) = calc (a @ mid @ b)"
  shows "word_of_le (take n (drop off (a @ mid' @ b))) \<noteq> calc (a @ mid' @ b)"
proof -
  have "take n (drop off (a @ mid' @ b)) = take n (drop off (a @ mid @ b))"
    using assms(6)
  proof
    assume "length a + length mid \<le> off"
    then show ?thesis using assms(2) by simp
  next
    assume "off + n \<le> length a"
    then show ?thesis by simp
  qed
  then show ?thesis using ver burst [OF assms(1-6)] by metis
qed

end

section \<open>The superblock\<close>

definition ext2fs_has_feature_csum_seed :: "ext2_super_block \<Rightarrow> bool" where
  "ext2fs_has_feature_csum_seed sb \<longleftrightarrow> s_feature_incompat sb AND 0x2000 \<noteq> 0"
definition ext2fs_has_feature_ea_inode :: "ext2_super_block \<Rightarrow> bool" where
  "ext2fs_has_feature_ea_inode sb \<longleftrightarrow> s_feature_incompat sb AND 0x0400 \<noteq> 0"

text \<open>The seed is 0 where the function leaves it unset.\<close>

definition ext2fs_init_csum_seed :: "ext2_super_block \<Rightarrow> u32" where
  "ext2fs_init_csum_seed sb =
     (if ext2fs_has_feature_csum_seed sb then s_checksum_seed sb
      else if ext2fs_has_feature_metadata_csum sb \<or> ext2fs_has_feature_ea_inode sb then ext2fs_crc32c_le 0 (- 1) (s_uuid sb)
      else 0)"

definition EXT2_CRC32C_CHKSUM :: byte where "EXT2_CRC32C_CHKSUM = 1"

definition ext2fs_verify_csum_type :: "byte list \<Rightarrow> bool" where
  "ext2fs_verify_csum_type sb =
     (if \<not> ext2fs_has_feature_metadata_csum (super_of sb) then True else s_checksum_type (super_of sb) = EXT2_CRC32C_CHKSUM)"

definition ext2fs_superblock_csum :: "byte list \<Rightarrow> u32" where
  "ext2fs_superblock_csum sb = ext2fs_crc32c_le 0 (- 1) (take 0x3fc sb)"

definition ext2fs_superblock_csum_verify :: "byte list \<Rightarrow> bool" where
  "ext2fs_superblock_csum_verify sb =
     (if \<not> ext2fs_has_feature_metadata_csum (super_of sb) then True else le32_at sb 0x3fc = ext2fs_superblock_csum sb)"

definition ext2fs_superblock_csum_set :: "byte list \<Rightarrow> byte list" where
  "ext2fs_superblock_csum_set sb =
     (if \<not> ext2fs_has_feature_metadata_csum (super_of sb) then sb else put_le 4 0x3fc (ext2fs_superblock_csum sb) sb)"

section \<open>Inodes\<close>

definition inode_has_hi :: "ext2_super_block \<Rightarrow> byte list \<Rightarrow> bool" where
  "inode_has_hi sb inode \<longleftrightarrow> EXT2_INODE_SIZE sb > 128 \<and> le16_at inode 0x80 \<ge> 4"

definition ext2fs_inode_csum :: "ext2_super_block \<Rightarrow> u32 \<Rightarrow> u32 \<Rightarrow> byte list \<Rightarrow> bool \<Rightarrow> u32" where
  "ext2fs_inode_csum sb csum_seed inum inode has_hi =
     (let desc = put_le 2 0x7c (0 :: u16) inode;
          desc1 = (if has_hi then put_le 2 0x82 (0 :: u16) desc else desc);
          gen = le32_at inode 0x64;
          crc = ext2fs_crc32c_le 0 csum_seed (le_of_word 4 inum);
          crc1 = ext2fs_crc32c_le 0 crc (le_of_word 4 gen)
      in ext2fs_crc32c_le 0 crc1 (take (unat (EXT2_INODE_SIZE sb)) desc1))"

definition ext2fs_inode_csum_verify :: "ext2_super_block \<Rightarrow> u32 \<Rightarrow> u32 \<Rightarrow> byte list \<Rightarrow> bool" where
  "ext2fs_inode_csum_verify sb csum_seed inum inode =
     (if \<not> ext2fs_has_feature_metadata_csum sb then True
      else (let has_hi = inode_has_hi sb inode; calculated = ext2fs_inode_csum sb csum_seed inum inode has_hi;
                lo = ucast (le16_at inode 0x7c) :: u32;
                provided = (if has_hi then lo OR push_bit 16 (ucast (le16_at inode 0x82)) else lo);
                calculated1 = (if has_hi then calculated else calculated AND 0xFFFF)
            in if provided = calculated1 then True else list_all (\<lambda>b. b = 0) (take 128 inode)))"

definition ext2fs_inode_csum_set :: "ext2_super_block \<Rightarrow> u32 \<Rightarrow> u32 \<Rightarrow> byte list \<Rightarrow> byte list" where
  "ext2fs_inode_csum_set sb csum_seed inum inode =
     (if \<not> ext2fs_has_feature_metadata_csum sb then inode
      else (let has_hi = inode_has_hi sb inode; crc = ext2fs_inode_csum sb csum_seed inum inode has_hi;
                inode1 = put_le 2 0x7c (ucast (crc AND 0xFFFF) :: u16) inode
            in if has_hi then put_le 2 0x82 (ucast (drop_bit 16 crc) :: u16) inode1 else inode1))"

section \<open>Seals of the superblock\<close>

text \<open>A checksum at the end of the structure, of all bytes before it.\<close>

lemma prefix_crc_seal: "tamper_evident 4 off (off + 4) (\<lambda>buf. ext2fs_crc32c_le 0 seed (take off buf))"
proof
  fix buf :: "byte list" and v :: u32
  assume "length buf = off + 4" "off + 4 \<le> off + 4"
  then show "ext2fs_crc32c_le 0 seed (take off (put_le 4 off v buf)) = ext2fs_crc32c_le 0 seed (take off buf)" by (simp add: take_put_le)
next
  fix a mid b mid' :: "byte list"
  assume a: "length (a @ mid @ b) = off + 4" "length mid' = length mid" "length mid \<le> 4" "mid' \<noteq> mid"
    "length a + length mid \<le> off \<or> off + 4 \<le> length a"
  have "0 < length mid" using a(2,4) by auto
  then have len: "length a + length mid \<le> off" using a(1,5) unfolding length_append by linarith
  have split: "take off (a @ m @ b) = a @ m @ take (off - length a - length m) b" if "length m = length mid" for m
    using len that by simp
  have "crc32c_bytes seed (a @ mid' @ take (off - length a - length mid') b) \<noteq> crc32c_bytes seed (a @ mid @ take (off - length a - length mid) b)"
    unfolding a(2) by (rule crc32c_burst) (use a in simp_all)
  then show "ext2fs_crc32c_le 0 seed (take off (a @ mid' @ b)) \<noteq> ext2fs_crc32c_le 0 seed (take off (a @ mid @ b))"
    unfolding ext2fs_crc32c_le_bytes split [OF a(2)] split [OF refl] .
qed simp

interpretation super_seal: tamper_evident 4 "0x3fc" 1024 ext2fs_superblock_csum
  unfolding ext2fs_superblock_csum_def [abs_def] using prefix_crc_seal [of "0x3fc" "- 1"] by simp

lemma super_of_sealed: "length sb = 1024 \<Longrightarrow> super_of (put_le 4 0x3fc v sb) = super_of sb"
  by (simp add: super_of_def le_at_put_le nth_put_le field_put_le)

text \<open>The fields that the checksum does not cover are those of the checksum itself: a changed superblock that still asks for the checksum fails.\<close>

lemma superblock_change_detected:
  assumes "length (a @ mid @ b) = 1024" "length mid' = length mid" "length mid \<le> 4" "mid' \<noteq> mid" "length a + length mid \<le> 0x3fc"
    and "ext2fs_superblock_csum_verify (a @ mid @ b)"
    and "ext2fs_has_feature_metadata_csum (super_of (a @ mid @ b))" "ext2fs_has_feature_metadata_csum (super_of (a @ mid' @ b))"
  shows "\<not> ext2fs_superblock_csum_verify (a @ mid' @ b)"
  using super_seal.broken_seal [OF assms(1-4)] assms(5-8) by (simp add: ext2fs_superblock_csum_verify_def le32_at_def)

text \<open>
  \<open>ext2fs_superblock_csum_set\<close> gives a superblock that passes the check, with all other fields as
  they were, and leaves a superblock that already passes unchanged.
\<close>

theorem superblock_csum_roundtrip:
  assumes "length sb = 1024"
  shows "ext2fs_superblock_csum_verify (ext2fs_superblock_csum_set sb) \<and> super_of (ext2fs_superblock_csum_set sb) = super_of sb \<and>
    take 0x3fc (ext2fs_superblock_csum_set sb) = take 0x3fc sb \<and>
    (ext2fs_superblock_csum_set sb = sb \<longleftrightarrow> ext2fs_superblock_csum_verify sb)"
proof (cases "ext2fs_has_feature_metadata_csum (super_of sb)")
  case True
  let ?sb = "put_le 4 0x3fc (ext2fs_superblock_csum sb) sb"
  have "le32_at ?sb 0x3fc = ext2fs_superblock_csum ?sb" using super_seal.sealed_verifies [OF assms] by (simp add: le32_at_def)
  moreover have "?sb = sb" if "le32_at sb 0x3fc = ext2fs_superblock_csum sb"
    using super_seal.verified_sealed [OF assms] that by (simp add: le32_at_def)
  moreover have "ext2fs_superblock_csum ?sb = ext2fs_superblock_csum sb" by (rule super_seal.skips) (simp_all add: assms)
  ultimately show ?thesis using assms True
    by (auto simp: ext2fs_superblock_csum_set_def ext2fs_superblock_csum_verify_def super_of_sealed take_put_le)
next
  case False
  then show ?thesis by (simp add: ext2fs_superblock_csum_set_def ext2fs_superblock_csum_verify_def)
qed

text \<open>A superblock of revision 1 with inodes of 256 bytes and checksums of metadata.\<close>

definition csum_sb :: "byte list" where
  "csum_sb = replicate 56 0 @ [0x53, 0xEF] @ replicate 18 0 @ [1] @ replicate 12 0 @ [1] @ replicate 11 0 @ [4] @ replicate 922 0"

lemma csum_sb: "length csum_sb = 1024" "ext2fs_has_feature_metadata_csum (super_of csum_sb)" "EXT2_INODE_SIZE (super_of csum_sb) = 256"
  "s_magic (super_of csum_sb) = EXT2_SUPER_MAGIC"
  by (simp_all add: EXT2_SUPER_MAGIC_def csum_sb_def super_of_def le32_at_def le16_at_def ext2fs_has_feature_metadata_csum_def EXT2_INODE_SIZE_def)

theorem superblock_csum_roundtrip_witness:
  "ext2fs_superblock_csum_verify (ext2fs_superblock_csum_set csum_sb) \<and> ext2fs_has_feature_metadata_csum (super_of (ext2fs_superblock_csum_set csum_sb))"
  using superblock_csum_roundtrip [OF csum_sb(1)] csum_sb(2) by simp

section \<open>Seals of inodes\<close>

lemma crc_halves: "ucast (ucast (c AND 0xFFFF) :: u16) OR push_bit 16 (ucast (ucast (drop_bit 16 c) :: u16)) = c" for c :: u32
proof -
  have "0xFFFF = (mask 16 :: u32)" by (simp add: mask_eq_exp_minus_1)
  then have lo: "c AND 0xFFFF = take_bit 16 c" by (simp add: take_bit_eq_mask)
  show ?thesis unfolding lo by (rule bit_word_eqI) (auto simp: bit_simps)
qed

lemma crc_low_half: "ucast (ucast (c AND 0xFFFF) :: u16) = c AND 0xFFFF" for c :: u32
proof -
  have "0xFFFF = (mask 16 :: u32)" by (simp add: mask_eq_exp_minus_1)
  then have lo: "c AND 0xFFFF = take_bit 16 c" by (simp add: take_bit_eq_mask)
  show ?thesis unfolding lo by (rule bit_word_eqI) (auto simp: bit_simps)
qed

text \<open>The checksum of an inode does not depend on its fields for the checksum.\<close>

lemma inode_csum_skips:
  assumes "128 \<le> length inode" "has_hi \<Longrightarrow> 132 \<le> length inode"
  shows "ext2fs_inode_csum sb seed ino (put_le 2 0x7c v inode) has_hi = ext2fs_inode_csum sb seed ino inode has_hi"
    "has_hi \<Longrightarrow> ext2fs_inode_csum sb seed ino (put_le 2 0x82 w inode) has_hi = ext2fs_inode_csum sb seed ino inode has_hi"
  using assms put_le_commute [of "0x7c" 2 "0x82" 2 inode "0 :: u16" w]
  by (simp_all add: ext2fs_inode_csum_def Let_def put_le_put_le le_at_put_le)

lemma has_hi_put:
  "132 \<le> length inode \<or> EXT2_INODE_SIZE sb = 128 \<and> 128 \<le> length inode \<Longrightarrow> off = 0x7c \<or> off = 0x82 \<and> 132 \<le> length inode \<Longrightarrow>
   inode_has_hi sb (put_le 2 off v inode) = inode_has_hi sb inode"
  by (auto simp: inode_has_hi_def le_at_put_le)

text \<open>
  C21: \<open>ext2fs_inode_csum_set\<close> gives an inode that passes the check, with the checksum in 16 or, where
  the inode has room for it, 32 bits, and with all other bytes as they were: the bytes before
  \<open>l_i_checksum_lo\<close> at 0x7c, those between it and \<open>i_checksum_hi\<close> at 0x82 and those behind; where only
  16 bits are kept, every byte from 0x7e on, those of \<open>i_checksum_hi\<close> included; and without
  \<open>metadata_csum\<close> the inode is unchanged.
\<close>

theorem inode_csum_roundtrip:
  assumes "length inode = unat (EXT2_INODE_SIZE sb)" "length inode = 128 \<or> 132 \<le> length inode"
  shows "ext2fs_inode_csum_verify sb seed ino (ext2fs_inode_csum_set sb seed ino inode) \<and>
    take 0x7c (ext2fs_inode_csum_set sb seed ino inode) = take 0x7c inode \<and>
    take 4 (drop 0x7e (ext2fs_inode_csum_set sb seed ino inode)) = take 4 (drop 0x7e inode) \<and>
    drop 0x84 (ext2fs_inode_csum_set sb seed ino inode) = drop 0x84 inode \<and>
    length (ext2fs_inode_csum_set sb seed ino inode) = length inode \<and>
    (\<not> inode_has_hi sb inode \<longrightarrow> drop 0x7e (ext2fs_inode_csum_set sb seed ino inode) = drop 0x7e inode) \<and>
    (\<not> ext2fs_has_feature_metadata_csum sb \<longrightarrow> ext2fs_inode_csum_set sb seed ino inode = inode)"
proof (cases "ext2fs_has_feature_metadata_csum sb")
  case csum: True
  let ?hi = "inode_has_hi sb inode" and ?crc = "ext2fs_inode_csum sb seed ino inode (inode_has_hi sb inode)"
  let ?lo = "put_le 2 0x7c (ucast (?crc AND 0xFFFF) :: u16) inode"
  have len: "128 \<le> length inode" using assms(2) by auto
  have one: "length inode = 128 \<Longrightarrow> EXT2_INODE_SIZE sb = 128" using assms(1) by (simp add: word_unat_eq_iff)
  have size: "132 \<le> length inode \<or> EXT2_INODE_SIZE sb = 128 \<and> 128 \<le> length inode" using assms(2) one len by auto
  show ?thesis
  proof (cases ?hi)
    case hi: True
    then have big: "132 \<le> length inode" using assms(2) one by (auto simp: inode_has_hi_def)
    let ?all = "put_le 2 0x82 (ucast (drop_bit 16 ?crc) :: u16) ?lo"
    have set1: "ext2fs_inode_csum_set sb seed ino inode = ?all" using csum hi by (simp add: ext2fs_inode_csum_set_def Let_def)
    have "inode_has_hi sb ?all" using hi big by (simp add: has_hi_put)
    moreover have "ext2fs_inode_csum sb seed ino ?all True = ?crc" using hi big by (simp add: inode_csum_skips)
    moreover have "le16_at ?all 0x7c = ucast (?crc AND 0xFFFF)" "le16_at ?all 0x82 = ucast (drop_bit 16 ?crc)"
      using big by (simp_all add: le_at_put_le le_at_put_same)
    ultimately have "ext2fs_inode_csum_verify sb seed ino ?all" using csum by (simp add: ext2fs_inode_csum_verify_def Let_def crc_halves)
    then show ?thesis unfolding set1 using big hi csum by (simp add: take_put_le field_put_le drop_put_le)
  next
    case lo: False
    have set1: "ext2fs_inode_csum_set sb seed ino inode = ?lo" using csum lo by (simp add: ext2fs_inode_csum_set_def Let_def)
    have "\<not> inode_has_hi sb ?lo" using lo size by (simp add: has_hi_put)
    moreover have "ext2fs_inode_csum sb seed ino ?lo False = ?crc" using lo len by (simp add: inode_csum_skips)
    moreover have "le16_at ?lo 0x7c = ucast (?crc AND 0xFFFF)" using len by (simp add: le_at_put_same)
    ultimately have "ext2fs_inode_csum_verify sb seed ino ?lo" using csum by (simp add: ext2fs_inode_csum_verify_def Let_def crc_low_half)
    then show ?thesis unfolding set1 using len csum by (simp add: take_put_le field_put_le drop_put_le)
  qed
qed (simp add: ext2fs_inode_csum_set_def ext2fs_inode_csum_verify_def)

text \<open>
  An inode of 256 bytes with 32 additional bytes in use, and one with none in use, whose bytes at
  0x82 are not a checksum and stay.
\<close>

theorem inode_csum_roundtrip_witness:
  "ext2fs_inode_csum_verify (super_of csum_sb) 7 12 (ext2fs_inode_csum_set (super_of csum_sb) 7 12 (replicate 128 1 @ [32] @ replicate 127 0)) \<and>
   inode_has_hi (super_of csum_sb) (replicate 128 1 @ [32] @ replicate 127 0) \<and>
   ext2fs_inode_csum_verify (super_of csum_sb) 7 12 (ext2fs_inode_csum_set (super_of csum_sb) 7 12 (replicate 128 1 @ [0, 0] @ replicate 126 9)) \<and>
   drop 0x7e (ext2fs_inode_csum_set (super_of csum_sb) 7 12 (replicate 128 1 @ [0, 0] @ replicate 126 9)) =
   drop 0x7e (replicate 128 1 @ [0, 0] @ replicate 126 9)"
proof -
  have "\<not> inode_has_hi (super_of csum_sb) (replicate 128 1 @ [0, 0] @ replicate 126 9)"
    using csum_sb by (simp add: inode_has_hi_def le16_at_def)
  then show ?thesis
    using inode_csum_roundtrip [of "replicate 128 1 @ [32] @ replicate 127 0" "super_of csum_sb" 7 12]
      inode_csum_roundtrip [of "replicate 128 1 @ [0, 0] @ replicate 126 9" "super_of csum_sb" 7 12] csum_sb
    by (simp add: inode_has_hi_def le16_at_def)
qed

end
