(* ===== verification/Extent_Edit.thy ===== *)
theory Extent_Edit
  imports Block_Iterate Csum
begin

text \<open>
  Changing the extent tree of an inode, from \<^verbatim>\<open>src/e2fsprogs/lib/ext2fs/extent.c\<close>: replacing, inserting and
  deleting the entry at which a handle stands, correcting the keys of the nodes above it, and mapping
  one logical block (\<open>ext2fs_extent_set_bmap\<close>). The node of the root lies in the inode that the handle
  shares with its owner. A write changes the answers of the file system. Splitting a full node and
  giving back the block of an empty one need the allocator, which is outside the development: a
  run that enters them is \<open>Unmodelled\<close>.
\<close>

type_synonym edit = "(errcode_t \<times> extent_handle \<times> ext2_filsys) res"

text \<open>\<open>retval = ...; if (retval) goto done;\<close>\<close>

definition on_ok :: "edit \<Rightarrow> (extent_handle \<Rightarrow> ext2_filsys \<Rightarrow> edit) \<Rightarrow> edit" where
  "on_ok m k = and_then m (\<lambda>(r, h, fs). if r = None then k h fs else Inr (r, h, fs))"

section \<open>Storing a node\<close>

text \<open>The inode as it lies in memory: \<open>path[0].buf\<close> is its \<open>i_block\<close>.\<close>

definition handle_inode :: "extent_handle \<Rightarrow> ext2_inode" where
  "handle_inode h = (h_inode h)\<lparr>i_block := ep_buf (h_path h ! 0)\<rparr>"

definition update_path :: "ext2_filsys \<Rightarrow> extent_handle \<Rightarrow> edit" where
  "update_path fs h =
     (if h_level h = 0
      then (case fs_write_inode fs (h_ino h) of
              Some e \<Rightarrow> Inr (Some e, h, fs)
            | None \<Rightarrow> Inr (None, h, fs\<lparr>fs_read_inode := (fs_read_inode fs)(h_ino h := Inr (handle_inode h))\<rparr>))
      else (let parent = h_path h ! (h_level h - 1)
            in case ep_curr parent of
                 None \<Rightarrow> Inl NullPointer
               | Some k \<Rightarrow>
                   and_then (entry_at (ep_buf parent) k) (\<lambda>ix.
                   and_then (fs_csum_set fs (h_ino h) (ep_buf (cur_path h))) (\<lambda>(r, buf).
                     let h1 = set_path (\<lambda>p. p\<lparr>ep_buf := buf\<rparr>) h; blk = ei_leaf ix
                     in if r \<noteq> None then Inr (r, h1, fs)
                        else if \<not> fs_write_blk fs blk then Inr (Some EXT2_ET_IO, h1, fs)
                        else Inr (None, h1, fs\<lparr>fs_read_blk := (fs_read_blk fs)(blk \<mapsto> buf)\<rparr>)))))"

section \<open>Replacing an entry\<close>

definition EXT_INIT_MAX_LEN :: nat where "EXT_INIT_MAX_LEN = 2 ^ 15"
definition EXT_UNINIT_MAX_LEN :: nat where "EXT_UNINIT_MAX_LEN = EXT_INIT_MAX_LEN - 1"

text \<open>
  The stores into the entry at \<open>curr\<close>. The length of a leaf extent is checked only after the block numbers are
  stored. What \<open>update_path\<close> returns is ignored.
\<close>

definition put_leaf :: "nat \<Rightarrow> extent \<Rightarrow> byte list \<Rightarrow> errcode_t \<times> byte list" where
  "put_leaf o1 ext buf =
     (let buf1 = put_le 4 o1 (ucast (e_lblk ext) :: u32) buf;
          buf2 = put_le 4 (o1 + 8) (ucast (e_pblk ext AND 0xFFFFFFFF) :: u32) buf1;
          buf3 = put_le 2 (o1 + 6) (ucast (drop_bit 32 (e_pblk ext)) :: u16) buf2
      in if e_uninit ext
         then (if unat (e_len ext) > EXT_UNINIT_MAX_LEN then (Some EXT2_ET_EXTENT_INVALID_LENGTH, buf3)
               else (None, put_le 2 (o1 + 4) (ucast (e_len ext + of_nat EXT_INIT_MAX_LEN) :: u16) buf3))
         else (if unat (e_len ext) > EXT_INIT_MAX_LEN then (Some EXT2_ET_EXTENT_INVALID_LENGTH, buf3)
               else (None, put_le 2 (o1 + 4) (ucast (e_len ext) :: u16) buf3)))"

definition put_index :: "nat \<Rightarrow> extent \<Rightarrow> byte list \<Rightarrow> byte list" where
  "put_index o1 ext buf =
     put_le 2 (o1 + 10) (0 :: u16) (put_le 4 o1 (ucast (e_lblk ext) :: u32)
       (put_le 2 (o1 + 8) (ucast (drop_bit 32 (e_pblk ext)) :: u16) (put_le 4 (o1 + 4) (ucast (e_pblk ext AND 0xFFFFFFFF) :: u32) buf)))"

definition ext2fs_extent_replace :: "ext2_filsys \<Rightarrow> extent_handle \<Rightarrow> extent \<Rightarrow> edit" where
  "ext2fs_extent_replace fs h ext =
     (let path = cur_path h
      in if \<not> fs_rw fs then Inr (Some EXT2_ET_RO_FILSYS, h, fs)
         else case ep_curr path of
           None \<Rightarrow> Inr (Some EXT2_ET_NO_CURRENT_NODE, h, fs)
         | Some k \<Rightarrow>
             and_then (entry_at (ep_buf path) k) (\<lambda>_.
               let o1 = nat (12 + 12 * k);
                   (r, buf) = (if h_level h = h_max_depth h then put_leaf o1 ext (ep_buf path) else (None, put_index o1 ext (ep_buf path)));
                   h1 = set_path (\<lambda>p. p\<lparr>ep_buf := buf\<rparr>) h
               in if r \<noteq> None then Inr (r, h1, fs)
                  else and_then (update_path fs h1) (\<lambda>(_, h2, fs2). Inr (None, h2, fs2))))"

section \<open>Deleting and inserting\<close>

definition EXT2_EXTENT_INSERT_AFTER :: u32 where "EXT2_EXTENT_INSERT_AFTER = 1"
definition EXT2_EXTENT_INSERT_NOSPLIT :: u32 where "EXT2_EXTENT_INSERT_NOSPLIT = 2"
definition EXT2_EXTENT_DELETE_KEEP_EMPTY :: u32 where "EXT2_EXTENT_DELETE_KEEP_EMPTY = 1"
definition EXT2_EXTENT_SET_BMAP_UNINIT :: u32 where "EXT2_EXTENT_SET_BMAP_UNINIT = 1"

text \<open>\<open>memmove\<close> of \<open>n\<close> entries from entry \<open>src\<close> to entry \<open>dst\<close>.\<close>

definition move_entries :: "int \<Rightarrow> int \<Rightarrow> nat \<Rightarrow> byte list \<Rightarrow> byte list res" where
  "move_entries dst src n buf =
     (let d = nat (12 + 12 * dst); s = nat (12 + 12 * src)
      in if dst < - 1 \<or> src < - 1 \<or> s + 12 * n > length buf then Inl OutOfBounds
         else if d + 12 * n > length buf then Inl BufferOverflow
         else Inr (take d buf @ take (12 * n) (drop s buf) @ drop (d + 12 * n) buf))"

text \<open>The number of entries in the header.\<close>

definition put_entries :: "nat \<Rightarrow> byte list \<Rightarrow> byte list" where
  "put_entries n buf = put_le 2 2 (of_nat n :: u16) buf"

definition ext2fs_extent_delete :: "ext2_filsys \<Rightarrow> extent_handle \<Rightarrow> u32 \<Rightarrow> edit" where
  "ext2fs_extent_delete fs h flags =
     (let path = cur_path h; left = ep_left path
      in if \<not> fs_rw fs then Inr (Some EXT2_ET_RO_FILSYS, h, fs)
         else case ep_curr path of
           None \<Rightarrow> Inr (Some EXT2_ET_NO_CURRENT_NODE, h, fs)
         | Some k \<Rightarrow>
             if ep_entries path = 0 then Inl Unmodelled
             else and_then (if left > 0 then move_entries k (k + 1) left (ep_buf path) else Inr (ep_buf path)) (\<lambda>buf.
               let n = ep_entries path - 1;
                   curr = (if n = 0 then None else if left > 0 then Some k else Some (k - 1));
                   moved = (\<lambda>p. p\<lparr>ep_buf := buf, ep_left := left - 1, ep_entries := n, ep_curr := curr\<rparr>)
               in if n = 0 \<and> h_level h > 0
                  then (if has flags EXT2_EXTENT_DELETE_KEEP_EMPTY then Inr (None, set_path moved h, fs) else Inl Unmodelled)
                  else (let buf1 = put_entries n buf;
                            emptied = (n = 0 \<and> h_level h = 0);
                            buf2 = (if emptied then put_le 2 6 (0 :: u16) buf1 else buf1);
                            h1 = set_path (\<lambda>p. (moved p)\<lparr>ep_buf := buf2\<rparr>) h
                        in update_path fs (if emptied then h1\<lparr>h_max_depth := 0\<rparr> else h1))))"

text \<open>
  In the code \<open>left\<close> may be \<open>-1\<close> between the two statements that change it. An entry that
  cannot be stored is taken out again.
\<close>

definition ext2fs_extent_insert :: "ext2_filsys \<Rightarrow> extent_handle \<Rightarrow> u32 \<Rightarrow> extent \<Rightarrow> edit" where
  "ext2fs_extent_insert fs h flags ext =
     (let path = cur_path h
      in if \<not> fs_rw fs then Inr (Some EXT2_ET_RO_FILSYS, h, fs)
         else if ep_entries path \<ge> ep_max_entries path
         then (if has flags EXT2_EXTENT_INSERT_NOSPLIT then Inr (Some EXT2_ET_CANT_INSERT_EXTENT, h, fs) else Inl Unmodelled)
         else (let (ix, left) = (case ep_curr path of
                     Some k \<Rightarrow> if has flags EXT2_EXTENT_INSERT_AFTER then (k + 1, int (ep_left path) - 1) else (k, int (ep_left path))
                   | None \<Rightarrow> (0, - 1))
               in and_then (if left \<ge> 0 then move_entries (ix + 1) ix (nat (left + 1)) (ep_buf path) else Inr (ep_buf path)) (\<lambda>buf.
                    let n = ep_entries path + 1;
                        h1 = set_path (\<lambda>p. p\<lparr>ep_buf := put_entries n buf, ep_left := nat (left + 1), ep_entries := n, ep_curr := Some ix\<rparr>) h;
                        errout = (\<lambda>r h fs. and_then (ext2fs_extent_delete fs h 0) (\<lambda>(_, h', fs'). Inr (r, h', fs')))
                    in and_then (ext2fs_extent_replace fs h1 ext) (\<lambda>(r, h2, fs2).
                         if r \<noteq> None then errout r h2 fs2
                         else and_then (update_path fs2 h2) (\<lambda>(r, h3, fs3). if r \<noteq> None then errout r h3 fs3 else Inr (None, h3, fs3))))))"

section \<open>The keys of the nodes above\<close>

text \<open>The loop of \<open>ext2fs_extent_fix_parents\<close>; the flag tells that the function returns at once. The level bounds the turns.\<close>

fun fix_loop :: "nat \<Rightarrow> nat \<Rightarrow> ext2_filsys \<Rightarrow> extent_handle \<Rightarrow> u64 \<Rightarrow> (bool \<times> errcode_t \<times> extent_handle \<times> ext2_filsys) res" where
  "fix_loop 0 fuel fs h start = Inr (False, None, h, fs)"
| "fix_loop (Suc n) fuel fs h start =
     (if h_level h > 0 \<and> int (ep_left (cur_path h)) = int (ep_entries (cur_path h)) - 1
      then and_then (ext2fs_extent_get fuel fs h EXT2_EXTENT_UP no_extent) (\<lambda>(r, h1, ext).
             if r \<noteq> None then Inr (True, r, h1, fs)
             else if e_lblk ext = start then Inr (False, None, h1, fs)
             else and_then (ext2fs_extent_replace fs h1 (ext\<lparr>e_len := e_len ext + ucast (e_lblk ext - start), e_lblk := start\<rparr>)) (\<lambda>(r, h2, fs2).
               if r \<noteq> None then Inr (True, r, h2, fs2)
               else and_then (update_path fs2 h2) (\<lambda>(_, h3, fs3). fix_loop n fuel fs3 h3 start)))
      else Inr (False, None, h, fs))"

definition ext2fs_extent_fix_parents :: "nat \<Rightarrow> ext2_filsys \<Rightarrow> extent_handle \<Rightarrow> edit" where
  "ext2fs_extent_fix_parents fuel fs h =
     (if \<not> fs_rw fs then Inr (Some EXT2_ET_RO_FILSYS, h, fs)
      else if ep_curr (cur_path h) = None then Inr (Some EXT2_ET_NO_CURRENT_NODE, h, fs)
      else and_then (ext2fs_extent_get fuel fs h EXT2_EXTENT_CURRENT no_extent) (\<lambda>(r, h1, ext).
        if r \<noteq> None then Inr (r, h1, fs)
        else (let start = e_lblk ext; orig_height = int (h_max_depth h1) - int (h_level h1)
              in and_then (fix_loop (h_level h1) fuel fs h1 start) (\<lambda>(stop, r, h2, fs2).
                   if stop then Inr (r, h2, fs2)
                   else and_then (ext2fs_extent_goto2 fuel fs2 h2 orig_height start) (\<lambda>(r, h3). Inr (r, h3, fs2))))))"


section \<open>Mapping a block\<close>

text \<open>The extent with a block more, after its last or before its first, and the one that is inserted.\<close>

definition grow_after :: "extent \<Rightarrow> extent" where
  "grow_after ext = ext\<lparr>e_len := e_len ext + 1\<rparr>"

definition grow_before :: "extent \<Rightarrow> extent" where
  "grow_before ext = ext\<lparr>e_len := e_len ext + 1, e_lblk := e_lblk ext - 1, e_pblk := e_pblk ext - 1\<rparr>"

definition new_extent :: "u64 \<Rightarrow> u64 \<Rightarrow> bool \<Rightarrow> extent" where
  "new_extent logical physical uninit =
     \<lparr>e_pblk = physical, e_lblk = logical, e_len = 1, e_leaf = True, e_uninit = uninit, e_second_visit = False\<rparr>"

text \<open>The conditions under which the block joins an extent: it is the next one, or the one before, on both sides of the mapping.\<close>

definition joins_after :: "u64 \<Rightarrow> u64 \<Rightarrow> bool \<Rightarrow> int \<Rightarrow> extent \<Rightarrow> bool" where
  "joins_after logical physical uninit max_len ext \<longleftrightarrow>
     logical = e_lblk ext + ucast (e_len ext) \<and> physical = e_pblk ext + ucast (e_len ext) \<and> uninit = e_uninit ext \<and> sint (e_len ext) < max_len - 1"

definition joins_before :: "u64 \<Rightarrow> u64 \<Rightarrow> bool \<Rightarrow> int \<Rightarrow> extent \<Rightarrow> bool" where
  "joins_before logical physical uninit max_len ext \<longleftrightarrow>
     logical = e_lblk ext - 1 \<and> physical = e_pblk ext - 1 \<and> uninit = e_uninit ext \<and> sint (e_len ext) < max_len - 1"

text \<open>The moves to the leaf extent after or before, and the growth of the extent there.\<close>

definition grow_next :: "nat \<Rightarrow> ext2_filsys \<Rightarrow> extent_handle \<Rightarrow> edit" where
  "grow_next fuel fs h =
     and_then (ext2fs_extent_get fuel fs h EXT2_EXTENT_NEXT_LEAF no_extent) (\<lambda>(r, h1, next).
       if r \<noteq> None then Inr (r, h1, fs) else ext2fs_extent_replace fs h1 (grow_before next))"

definition grow_prev :: "nat \<Rightarrow> ext2_filsys \<Rightarrow> extent_handle \<Rightarrow> edit" where
  "grow_prev fuel fs h =
     and_then (ext2fs_extent_get fuel fs h EXT2_EXTENT_PREV_LEAF no_extent) (\<lambda>(r, h1, prev).
       if r \<noteq> None then Inr (r, h1, fs) else ext2fs_extent_replace fs h1 (grow_after prev))"

text \<open>
  The branches of \<open>ext2fs_extent_set_bmap\<close>, in their order: the block is not mapped yet; it is the only block of
  its extent, the last, the first, or one in the middle. \<open>ext\<close> is the extent at which the search stopped,
  \<open>next_ext\<close> and \<open>prev_ext\<close> its neighbours, when it has them.
\<close>

definition map_unmapped :: "nat \<Rightarrow> ext2_filsys \<Rightarrow> extent_handle \<Rightarrow> u64 \<Rightarrow> u64 \<Rightarrow> bool \<Rightarrow> int \<Rightarrow> extent \<Rightarrow> extent option \<Rightarrow> edit" where
  "map_unmapped fuel fs h logical physical uninit max_len ext next_ext =
     on_ok (if joins_after logical physical uninit max_len ext then ext2fs_extent_replace fs h (grow_after ext)
            else if joins_before logical physical uninit max_len ext then ext2fs_extent_replace fs h (grow_before ext)
            else if (case next_ext of Some next \<Rightarrow> joins_before logical physical uninit max_len next | None \<Rightarrow> False) then grow_next fuel fs h
            else if logical < e_lblk ext then ext2fs_extent_insert fs h 0 (new_extent logical physical uninit)
            else ext2fs_extent_insert fs h EXT2_EXTENT_INSERT_AFTER (new_extent logical physical uninit))
       (\<lambda>h1 fs1. ext2fs_extent_fix_parents fuel fs1 h1)"

definition map_only :: "nat \<Rightarrow> ext2_filsys \<Rightarrow> extent_handle \<Rightarrow> u64 \<Rightarrow> u64 \<Rightarrow> bool \<Rightarrow> edit" where
  "map_only fuel fs h logical physical uninit =
     (if physical \<noteq> 0 then ext2fs_extent_replace fs h (new_extent logical physical uninit)
      else on_ok (ext2fs_extent_delete fs h 0) (\<lambda>h1 fs1.
        and_then (ext2fs_extent_fix_parents fuel fs1 h1) (\<lambda>(ec, h2, fs2). Inr (if ec = Some EXT2_ET_NO_CURRENT_NODE then None else ec, h2, fs2))))"

definition map_last :: "nat \<Rightarrow> ext2_filsys \<Rightarrow> extent_handle \<Rightarrow> u64 \<Rightarrow> u64 \<Rightarrow> bool \<Rightarrow> int \<Rightarrow> extent \<Rightarrow> extent option \<Rightarrow> edit" where
  "map_last fuel fs h logical physical uninit max_len ext next_ext =
     (let shorten = (\<lambda>h fs ext. ext2fs_extent_replace fs h (ext\<lparr>e_len := e_len ext - 1\<rparr>))
      in if physical = 0 then shorten h fs ext
         else on_ok (on_ok (if (case next_ext of Some next \<Rightarrow> joins_before logical physical uninit max_len next | None \<Rightarrow> False) then grow_next fuel fs h
                            else ext2fs_extent_insert fs h EXT2_EXTENT_INSERT_AFTER (new_extent logical physical uninit))
                      (\<lambda>h1 fs1. ext2fs_extent_fix_parents fuel fs1 h1))
                (\<lambda>h2 fs2. and_then (ext2fs_extent_goto fuel fs2 h2 logical) (\<lambda>(r, h3).
                   if r \<noteq> None then Inr (r, h3, fs2)
                   else and_then (ext2fs_extent_get fuel fs2 h3 EXT2_EXTENT_CURRENT no_extent) (\<lambda>(r, h4, ext1).
                     if r \<noteq> None then Inr (r, h4, fs2) else shorten h4 fs2 ext1))))"

definition map_first :: "nat \<Rightarrow> ext2_filsys \<Rightarrow> extent_handle \<Rightarrow> u64 \<Rightarrow> u64 \<Rightarrow> bool \<Rightarrow> int \<Rightarrow> extent \<Rightarrow> extent option \<Rightarrow> edit" where
  "map_first fuel fs h logical physical uninit max_len ext prev_ext =
     (let shorten = (\<lambda>h fs ext.
            on_ok (ext2fs_extent_replace fs h (ext\<lparr>e_pblk := e_pblk ext + 1, e_lblk := e_lblk ext + 1, e_len := e_len ext - 1\<rparr>))
              (\<lambda>h1 fs1. ext2fs_extent_fix_parents fuel fs1 h1))
      in if physical = 0 then shorten h fs ext
         else on_ok (on_ok (if (case prev_ext of Some prev \<Rightarrow> joins_after logical physical uninit max_len prev | None \<Rightarrow> False) then grow_prev fuel fs h
                            else ext2fs_extent_insert fs h 0 (new_extent logical physical uninit))
                      (\<lambda>h1 fs1. ext2fs_extent_fix_parents fuel fs1 h1))
                (\<lambda>h2 fs2. and_then (ext2fs_extent_get fuel fs2 h2 EXT2_EXTENT_NEXT_LEAF no_extent) (\<lambda>(r, h3, ext1).
                   if r \<noteq> None then Inr (r, h3, fs2) else shorten h3 fs2 ext1)))"

text \<open>In the middle the extent is cut in two; when an insertion fails what was done before is undone.\<close>

definition undo_cut :: "nat \<Rightarrow> extent \<Rightarrow> errcode_t \<Rightarrow> extent_handle \<Rightarrow> ext2_filsys \<Rightarrow> edit" where
  "undo_cut fuel save r h fs =
     and_then (ext2fs_extent_goto fuel fs h (e_lblk save)) (\<lambda>(r2, h1).
       if r2 \<noteq> None then Inr (r, h1, fs)
       else and_then (ext2fs_extent_replace fs h1 save) (\<lambda>(_, h2, fs2). Inr (r, h2, fs2)))"

definition map_middle :: "nat \<Rightarrow> ext2_filsys \<Rightarrow> extent_handle \<Rightarrow> u64 \<Rightarrow> u64 \<Rightarrow> bool \<Rightarrow> extent \<Rightarrow> edit" where
  "map_middle fuel fs h logical physical uninit ext =
     (let head = ext\<lparr>e_len := ucast (logical - e_lblk ext)\<rparr>;
          tail = head\<lparr>e_pblk := e_pblk head + ucast (e_len head + 1), e_lblk := e_lblk head + ucast (e_len head + 1),
                      e_len := e_len ext - e_len head - 1\<rparr>
      in on_ok (ext2fs_extent_replace fs h head) (\<lambda>h1 fs1.
           and_then (if physical \<noteq> 0 then ext2fs_extent_insert fs1 h1 EXT2_EXTENT_INSERT_AFTER (new_extent logical physical uninit)
                     else Inr (None, h1, fs1)) (\<lambda>(r, h2, fs2).
             if r \<noteq> None then undo_cut fuel ext r h2 fs2
             else and_then (ext2fs_extent_insert fs2 h2 EXT2_EXTENT_INSERT_AFTER tail) (\<lambda>(r, h3, fs3).
               if r = None then Inr (None, h3, fs3)
               else and_then (if physical \<noteq> 0
                              then and_then (ext2fs_extent_goto fuel fs3 h3 logical) (\<lambda>(r2, h4).
                                     if r2 \<noteq> None then Inr (h4, fs3)
                                     else and_then (ext2fs_extent_delete fs3 h4 0) (\<lambda>(_, h5, fs5). Inr (h5, fs5)))
                              else Inr (h3, fs3)) (\<lambda>(h6, fs6). undo_cut fuel ext r h6 fs6)))))"

text \<open>From the search for the block to the label \<open>done\<close>.\<close>

definition set_bmap_at :: "nat \<Rightarrow> ext2_filsys \<Rightarrow> extent_handle \<Rightarrow> u64 \<Rightarrow> u64 \<Rightarrow> bool \<Rightarrow> int \<Rightarrow> edit" where
  "set_bmap_at fuel fs h logical physical uninit max_len =
     (let bad = (\<lambda>r. r \<noteq> None \<and> r \<noteq> Some EXT2_ET_EXTENT_NOT_FOUND)
      in and_then (ext2fs_extent_goto fuel fs h logical) (\<lambda>(r, h1).
         let mapped = (r = None)
         in if bad r then Inr (r, h1, fs)
            else if \<not> mapped \<and> physical = 0 then Inr (None, h1, fs)
            else and_then (ext2fs_extent_get fuel fs h1 EXT2_EXTENT_CURRENT no_extent) (\<lambda>(r, h2, ext).
              if r \<noteq> None then Inr (r, h2, fs)
              else and_then (ext2fs_extent_get fuel fs h2 EXT2_EXTENT_NEXT_LEAF no_extent) (\<lambda>(rn, h3, next).
                if rn \<noteq> None \<and> rn \<noteq> Some EXT2_ET_EXTENT_NO_NEXT then Inr (rn, h3, fs)
                else and_then (ext2fs_extent_goto fuel fs h3 logical) (\<lambda>(r, h4).
                  if bad r then Inr (r, h4, fs)
                  else and_then (ext2fs_extent_get fuel fs h4 EXT2_EXTENT_PREV_LEAF no_extent) (\<lambda>(rp, h5, prev).
                    if rp \<noteq> None \<and> rp \<noteq> Some EXT2_ET_EXTENT_NO_PREV then Inr (rp, h5, fs)
                    else and_then (ext2fs_extent_goto fuel fs h5 logical) (\<lambda>(r, h6).
                      let next_ext = (if rn = None then Some next else None); prev_ext = (if rp = None then Some prev else None)
                      in if bad r then Inr (r, h6, fs)
                         else if mapped \<and> uninit = e_uninit ext \<and> e_pblk ext + (logical - e_lblk ext) = physical then Inr (r, h6, fs)
                         else if \<not> mapped then map_unmapped fuel fs h6 logical physical uninit max_len ext next_ext
                         else if logical = e_lblk ext \<and> e_len ext = 1 then map_only fuel fs h6 logical physical uninit
                         else if logical = e_lblk ext + ucast (e_len ext) - 1 then map_last fuel fs h6 logical physical uninit max_len ext next_ext
                         else if logical = e_lblk ext then map_first fuel fs h6 logical physical uninit max_len ext prev_ext
                         else map_middle fuel fs h6 logical physical uninit ext)))))))"

text \<open>
  The whole function. In a tree without entries the extent is inserted, which is not initialised when the
  block is to be unmapped. At the end the handle is put back to where it was, or as high.
\<close>

definition ext2fs_extent_set_bmap :: "nat \<Rightarrow> ext2_filsys \<Rightarrow> extent_handle \<Rightarrow> u64 \<Rightarrow> u64 \<Rightarrow> u32 \<Rightarrow> edit" where
  "ext2fs_extent_set_bmap fuel fs h logical physical flags =
     (let uninit = has flags EXT2_EXTENT_SET_BMAP_UNINIT;
          max_len = int (if uninit then EXT_UNINIT_MAX_LEN else EXT_INIT_MAX_LEN)
      in if \<not> fs_rw fs then Inr (Some EXT2_ET_RO_FILSYS, h, fs)
         else if h_max_depth h = 0 \<and> ep_entries (cur_path h) = 0
         then (if physical = 0 then Inl Uninitialised else ext2fs_extent_insert fs h 0 (new_extent logical physical uninit))
         else and_then (ext2fs_extent_get fuel fs h EXT2_EXTENT_CURRENT no_extent) (\<lambda>(r, h1, ext).
           if r \<noteq> None \<and> r \<noteq> Some EXT2_ET_NO_CURRENT_NODE then Inr (r, h1, fs)
           else (let orig_height = int (h_max_depth h1) - int (h_level h1); orig_lblk = (if r = None then e_lblk ext else 0)
                 in and_then (set_bmap_at fuel fs h1 logical physical uninit max_len) (\<lambda>(r, h2, fs2).
                      and_then (ext2fs_extent_goto2 fuel fs2 h2 (min orig_height (int (h_max_depth h2))) orig_lblk) (\<lambda>(_, h3).
                        Inr (r, h3, fs2))))))"


section \<open>Storing the checksums of a tree again\<close>

text \<open>
  \<open>ext2fs_fix_extents_checksums\<close>; \<open>meta_csum\<close> is \<open>ext2fs_has_feature_metadata_csum\<close>. While the tree is walked, wrong
  checksums are not ignored; a node that has one is written with the right one.
\<close>

fun fix_csums_loop :: "nat \<Rightarrow> ext2_filsys \<Rightarrow> extent_handle \<Rightarrow> extent \<Rightarrow> edit" where
  "fix_csums_loop 0 fs h ext = Inl OutOfFuel"
| "fix_csums_loop (Suc fuel) fs h ext =
     and_then (if e_leaf ext then ext2fs_extent_get (Suc fuel) fs h EXT2_EXTENT_LAST_SIB ext else Inr (None, h, ext)) (\<lambda>(r, h1, ext1).
       if r \<noteq> None then Inr (r, h1, fs)
       else and_then (ext2fs_extent_get (Suc fuel) fs h1 EXT2_EXTENT_NEXT ext1) (\<lambda>(r, h2, ext2).
         and_then (if r = Some EXT2_ET_EXTENT_CSUM_INVALID then update_path fs h2 else Inr (r, h2, fs)) (\<lambda>(r, h3, fs3).
           if r = None then fix_csums_loop fuel fs3 h3 ext2 else Inr (r, h3, fs3))))"

definition ext2fs_fix_extents_checksums :: "nat \<Rightarrow> bool \<Rightarrow> ext2_filsys \<Rightarrow> u32 \<Rightarrow> ext2_inode option \<Rightarrow> (errcode_t \<times> ext2_filsys) res" where
  "ext2fs_fix_extents_checksums fuel meta_csum fs ino inode =
     (if \<not> meta_csum \<or> (case inode of Some i \<Rightarrow> i_flags i AND EXT4_EXTENTS_FL = 0 | None \<Rightarrow> False) then Inr (None, fs)
      else case ext2fs_extent_open2 fs ino inode of
        Inl e \<Rightarrow> Inr (if e = EXT2_ET_INODE_NOT_EXTENT then None else Some e, fs)
      | Inr h \<Rightarrow>
          (let fs1 = fs\<lparr>fs_ignore_csum := False\<rparr>; out = (\<lambda>r fs2. (if r = Some EXT2_ET_EXTENT_NO_NEXT then None else r, fs2\<lparr>fs_ignore_csum := fs_ignore_csum fs\<rparr>))
           in and_then (ext2fs_extent_get fuel fs1 h EXT2_EXTENT_ROOT no_extent) (\<lambda>(r, h1, ext).
                if r \<noteq> None then Inr (out r fs1)
                else and_then (fix_csums_loop fuel fs1 h1 ext) (\<lambda>(r, h2, fs2). Inr (out r fs2)))))"

section \<open>Where the code goes wrong\<close>

text \<open>An extent whose length does not fit is refused, when its block numbers are already in the node and its length is not.\<close>

lemma put_leaf_refused:
  assumes "EXT_INIT_MAX_LEN < unat (e_len ext)" "o1 + 12 \<le> length buf"
  shows "\<exists>buf'. put_leaf o1 ext buf = (Some EXT2_ET_EXTENT_INVALID_LENGTH, buf') \<and> le32_at buf' o1 = ucast (e_lblk ext) \<and> le16_at buf' (o1 + 4) = le16_at buf (o1 + 4)"
proof -
  have "EXT_UNINIT_MAX_LEN < unat (e_len ext)" using assms(1) by (simp add: EXT_UNINIT_MAX_LEN_def)
  then show ?thesis using assms by (simp add: put_leaf_def Let_def le_at_put_le le_at_put_same)
qed

text \<open>Unmapping a block of a file that has none inserts an extent that was never filled.\<close>

lemma set_bmap_uninitialised:
  "fs_rw fs \<Longrightarrow> h_max_depth h = 0 \<Longrightarrow> ep_entries (cur_path h) = 0 \<Longrightarrow> ext2fs_extent_set_bmap fuel fs h logical 0 flags = Inl Uninitialised"
  by (simp add: ext2fs_extent_set_bmap_def Let_def)

text \<open>A failed write of the node is not reported.\<close>

lemma replace_hides_failure:
  assumes "fs_rw fs" "h_level h = 0" "h_max_depth h = 0" "length (h_path h) = 1" "ep_curr (cur_path h) = Some 0" "24 \<le> length (ep_buf (cur_path h))"
    and "unat (e_len ext) \<le> EXT_UNINIT_MAX_LEN" "fs_write_inode fs (h_ino h) = Some e"
  shows "\<exists>h'. ext2fs_extent_replace fs h ext = Inr (None, h', fs)"
proof -
  have l: "unat (e_len ext) \<le> EXT_INIT_MAX_LEN" using assms(7) by (simp add: EXT_UNINIT_MAX_LEN_def)
  have "entry_at (ep_buf (cur_path h)) 0 \<noteq> Inl x" for x using assms(6) by (simp add: entry_at_def)
  then obtain y where "entry_at (ep_buf (cur_path h)) 0 = Inr y" by (cases "entry_at (ep_buf (cur_path h)) 0") auto
  then show ?thesis using assms l
    by (auto simp: ext2fs_extent_replace_def put_leaf_def Let_def update_path_def set_path_def linorder_not_less [symmetric])
qed

end
