(* ===== verification/Bmap.thy ===== *)
theory Bmap
  imports Extent_Edit
begin

text \<open>
  From a logical block of a file to the block of the device, \<^verbatim>\<open>src/e2fsprogs/lib/ext2fs/bmap.c\<close>: looking a
  block up, or setting it, through extents or through indirect blocks.
  The file system is the record of answers of \<open>Extent\<close>; a write changes its answers. Allocating
  (\<open>BMAP_ALLOC\<close>) and zeroing (\<open>BMAP_ZERO\<close>) run into code outside the development.
\<close>

definition BMAP_ALLOC :: u32 where "BMAP_ALLOC = 1"
definition BMAP_SET :: u32 where "BMAP_SET = 2"
definition BMAP_UNINIT :: u32 where "BMAP_UNINIT = 4"
definition BMAP_ZERO :: u32 where "BMAP_ZERO = 8"
definition BMAP_RET_UNINIT :: u32 where "BMAP_RET_UNINIT = 1"

definition EXT2_NDIR_BLOCKS :: nat where "EXT2_NDIR_BLOCKS = 12"
definition EXT2_IND_BLOCK :: nat where "EXT2_IND_BLOCK = 12"
definition EXT2_DIND_BLOCK :: nat where "EXT2_DIND_BLOCK = 13"
definition EXT2_TIND_BLOCK :: nat where "EXT2_TIND_BLOCK = 14"

text \<open>The macro \<open>inode_bmap\<close>, read and assigned.\<close>

definition inode_bmap :: "ext2_inode \<Rightarrow> nat \<Rightarrow> u32" where
  "inode_bmap inode nr = le32_at (i_block inode) (4 * nr)"

definition set_inode_bmap :: "nat \<Rightarrow> u32 \<Rightarrow> ext2_inode \<Rightarrow> ext2_inode" where
  "set_inode_bmap nr b inode = inode\<lparr>i_block := put_le 4 (4 * nr) b (i_block inode)\<rparr>"

section \<open>Indirect blocks\<close>

text \<open>
  The number in slot \<open>nr\<close> of the indirect block \<open>ind\<close> is read into \<open>ret_blk\<close> or, with \<open>BMAP_SET\<close>, replaced by it.
  The result has \<open>ret_blk\<close> as it is afterwards.
\<close>

definition block_ind_bmap :: "ext2_filsys \<Rightarrow> u32 \<Rightarrow> u32 \<Rightarrow> nat \<Rightarrow> u32 \<Rightarrow> (errcode_t \<times> u32 \<times> ext2_filsys) res" where
  "block_ind_bmap fs flags ind nr ret_blk =
     (if ind = 0 then Inr (if has flags BMAP_SET then (Some EXT2_ET_SET_BMAP_NO_IND, ret_blk, fs) else (None, 0, fs))
      else case fs_read_blk fs (ucast ind) of
        None \<Rightarrow> Inr (Some EXT2_ET_IO, ret_blk, fs)
      | Some buf \<Rightarrow>
          and_then (read_at buf (4 * nr) 4) (\<lambda>bs.
            if has flags BMAP_SET
            then Inr (if \<not> fs_write_blk fs (ucast ind) then (Some EXT2_ET_IO, ret_blk, fs)
                      else (None, ret_blk, fs\<lparr>fs_read_blk := (fs_read_blk fs)(ucast ind \<mapsto> put_le 4 (4 * nr) ret_blk buf)\<rparr>))
            else if word_of_le bs = (0 :: u32) \<and> has flags BMAP_ALLOC then Inl Unmodelled
            else Inr (None, word_of_le bs, fs)))"

text \<open>Two and three levels; on the way down nothing is set.\<close>

definition block_dind_bmap :: "ext2_filsys \<Rightarrow> u32 \<Rightarrow> u32 \<Rightarrow> nat \<Rightarrow> u32 \<Rightarrow> (errcode_t \<times> u32 \<times> ext2_filsys) res" where
  "block_dind_bmap fs flags dind nr ret_blk =
     (let addr_per_block = fs_blocksize fs div 4
      in and_then (block_ind_bmap fs (flags AND NOT BMAP_SET) dind (nr div addr_per_block) 0) (\<lambda>(e, b, fs1).
           if e \<noteq> None then Inr (e, ret_blk, fs1)
           else block_ind_bmap fs1 flags b (nr mod addr_per_block) ret_blk))"

definition block_tind_bmap :: "ext2_filsys \<Rightarrow> u32 \<Rightarrow> u32 \<Rightarrow> nat \<Rightarrow> u32 \<Rightarrow> (errcode_t \<times> u32 \<times> ext2_filsys) res" where
  "block_tind_bmap fs flags tind nr ret_blk =
     (let addr_per_block = fs_blocksize fs div 4
      in and_then (block_dind_bmap fs (flags AND NOT BMAP_SET) tind (nr div addr_per_block) 0) (\<lambda>(e, b, fs1).
           if e \<noteq> None then Inr (e, ret_blk, fs1)
           else block_ind_bmap fs1 flags b (nr mod addr_per_block) ret_blk))"

section \<open>Extents\<close>

text \<open>
  The result has \<open>*phys_blk\<close>, \<open>*ret_flags\<close>, the inode that the handle shares and the file system as they are afterwards.
\<close>

definition extent_bmap ::
  "nat \<Rightarrow> ext2_filsys \<Rightarrow> extent_handle \<Rightarrow> u32 \<Rightarrow> u64 \<Rightarrow> u32 \<Rightarrow> u64 \<Rightarrow> (errcode_t \<times> u64 \<times> u32 \<times> ext2_inode \<times> ext2_filsys) res" where
  "extent_bmap fuel fs h bmap_flags block ret_flags phys_blk =
     (let got_block = (\<lambda>phys rf. if phys = 0 \<and> has bmap_flags BMAP_ALLOC then Inl Unmodelled else Inr (None, phys, rf, h_inode h, fs))
      in if has bmap_flags BMAP_SET
         then and_then (ext2fs_extent_set_bmap fuel fs h block phys_blk (if has bmap_flags BMAP_UNINIT then EXT2_EXTENT_SET_BMAP_UNINIT else 0))
                (\<lambda>(r, h1, fs1). Inr (r, phys_blk, ret_flags, handle_inode h1, fs1))
         else and_then (ext2fs_extent_goto fuel fs h block) (\<lambda>(r, h1).
           if r = Some EXT2_ET_EXTENT_NOT_FOUND then got_block phys_blk ret_flags
           else if r \<noteq> None then Inr (r, phys_blk, ret_flags, h_inode h, fs)
           else and_then (ext2fs_extent_get fuel fs h1 EXT2_EXTENT_CURRENT no_extent) (\<lambda>(r, h2, ext).
             if r \<noteq> None then Inr (r, phys_blk, ret_flags, h_inode h, fs)
             else (let offset = ucast (block - e_lblk ext) :: u32
                   in if e_lblk ext \<le> block \<and> offset \<le> e_len ext
                      then got_block (e_pblk ext + ucast offset) (if e_uninit ext then ret_flags OR BMAP_RET_UNINIT else ret_flags)
                      else got_block phys_blk ret_flags))))"

section \<open>The mapping of an inode\<close>

definition ext2fs_file_block_offset_too_big :: "ext2_filsys \<Rightarrow> ext2_inode \<Rightarrow> u64 \<Rightarrow> bool" where
  "ext2fs_file_block_offset_too_big fs inode offset =
     (if offset \<ge> 2 ^ 32 - 1 then True
      else if i_flags inode AND EXT4_EXTENTS_FL \<noteq> 0 then False
      else (let n = of_nat (fs_blocksize fs div 4) in offset \<ge> n + n * n + n * n * n + 12))"

text \<open>
  The part of \<open>ext2fs_bmap2\<close> for inodes without extents: the direct, the single, the double and the triple
  indirect blocks. The goal for an allocation, which only \<open>BMAP_ALLOC\<close> uses, is left out. The result has \<open>*phys_blk\<close>, the inode, whether it changed, and the file system.
\<close>

definition mapped_bmap :: "ext2_filsys \<Rightarrow> ext2_inode \<Rightarrow> u32 \<Rightarrow> nat \<Rightarrow> u64 \<Rightarrow> (errcode_t \<times> u64 \<times> ext2_inode \<times> bool \<times> ext2_filsys) res" where
  "mapped_bmap fs inode bmap_flags block phys_blk =
     (let n = fs_blocksize fs div 4;
          indirect = (\<lambda>root bmap nr. let b = inode_bmap inode root
             in if b = 0
                then (if has bmap_flags BMAP_ALLOC then Inl Unmodelled
                      else Inr (if has bmap_flags BMAP_SET then Some EXT2_ET_SET_BMAP_NO_IND else None, phys_blk, inode, False, fs))
                else and_then (bmap fs bmap_flags b nr (ucast phys_blk)) (\<lambda>(e, blk32, fs1).
                       Inr (e, if e = None then ucast (blk32 :: u32) else phys_blk, inode, False, fs1)))
      in if block < EXT2_NDIR_BLOCKS
         then (if has bmap_flags BMAP_SET then Inr (None, phys_blk, set_inode_bmap block (ucast phys_blk) inode, True, fs)
               else if inode_bmap inode block = 0 \<and> has bmap_flags BMAP_ALLOC then Inl Unmodelled
               else Inr (None, ucast (inode_bmap inode block), inode, False, fs))
         else if block - EXT2_NDIR_BLOCKS < n then indirect EXT2_IND_BLOCK block_ind_bmap (block - EXT2_NDIR_BLOCKS)
         else if block - EXT2_NDIR_BLOCKS - n < n * n then indirect EXT2_DIND_BLOCK block_dind_bmap (block - EXT2_NDIR_BLOCKS - n)
         else indirect EXT2_TIND_BLOCK block_tind_bmap (block - EXT2_NDIR_BLOCKS - n - n * n))"

text \<open>
  The whole of \<open>ext2fs_bmap2\<close>; the result has \<open>*phys_blk\<close>, \<open>*ret_flags\<close>, the inode and the file system as they
  are afterwards. A changed inode is written; the handle on an extent tree shares the inode.
\<close>

definition ext2fs_bmap2 ::
  "nat \<Rightarrow> ext2_filsys \<Rightarrow> u32 \<Rightarrow> ext2_inode option \<Rightarrow> u32 \<Rightarrow> u64 \<Rightarrow> u64 \<Rightarrow> (errcode_t \<times> u64 \<times> u32 \<times> ext2_inode option \<times> ext2_filsys) res" where
  "ext2fs_bmap2 fuel fs ino inode_opt bmap_flags block phys0 =
     (let phys_blk = (if has bmap_flags BMAP_SET then phys0 else 0)
      in case (case inode_opt of Some i \<Rightarrow> Inr i | None \<Rightarrow> fs_read_inode fs ino) of
           Inl e \<Rightarrow> Inr (Some e, phys_blk, 0, inode_opt, fs)
         | Inr inode \<Rightarrow>
             if ext2fs_file_block_offset_too_big fs inode block then Inr (Some EXT2_ET_FILE_TOO_BIG, phys_blk, 0, inode_opt, fs)
             else if i_flags inode AND EXT4_INLINE_DATA_FL \<noteq> 0 then Inr (Some EXT2_ET_INLINE_DATA_NO_BLOCK, phys_blk, 0, inode_opt, fs)
             else and_then (if i_flags inode AND EXT4_EXTENTS_FL \<noteq> 0
                then (case ext2fs_extent_open2 fs ino (Some inode) of
                        Inl e \<Rightarrow> Inr (Some e, phys_blk, 0, inode, False, fs)
                      | Inr h \<Rightarrow> and_then (extent_bmap fuel fs h bmap_flags block 0 phys_blk) (\<lambda>(e, phys, rf, i, fs1). Inr (e, phys, rf, i, False, fs1)))
                else and_then (mapped_bmap fs inode bmap_flags (unat block) phys_blk) (\<lambda>(e, phys, i, dirty, fs1). Inr (e, phys, 0, i, dirty, fs1)))
              (\<lambda>(e, phys, rf, i, dirty, fs1).
                 if phys \<noteq> 0 \<and> e = None \<and> has bmap_flags BMAP_ZERO then Inl Unmodelled
                 else (let ret = map_option (\<lambda>_. i) inode_opt
                       in if e = None \<and> dirty
                          then (case fs_write_inode fs1 ino of
                                  Some e' \<Rightarrow> Inr (Some e', phys, rf, ret, fs1)
                                | None \<Rightarrow> Inr (None, phys, rf, ret, fs1\<lparr>fs_read_inode := (fs_read_inode fs1)(ino := Inr i)\<rparr>))
                          else Inr (e, phys, rf, ret, fs1))))"

text \<open>The older interface, with block numbers of 32 bits.\<close>

definition ext2fs_bmap ::
  "nat \<Rightarrow> ext2_filsys \<Rightarrow> u32 \<Rightarrow> ext2_inode option \<Rightarrow> u32 \<Rightarrow> u32 \<Rightarrow> u32 \<Rightarrow> (errcode_t \<times> u32 \<times> ext2_inode option \<times> ext2_filsys) res" where
  "ext2fs_bmap fuel fs ino inode_opt bmap_flags block phys_blk =
     and_then (ext2fs_bmap2 fuel fs ino inode_opt bmap_flags (ucast block) (ucast phys_blk)) (\<lambda>(e, ret_blk, rf, i, fs1).
       if e \<noteq> None then Inr (e, phys_blk, i, fs1)
       else if ret_blk \<ge> 2 ^ 32 then Inr (Some EOVERFLOW, phys_blk, i, fs1)
       else Inr (None, ucast ret_blk, i, fs1))"

end
