(* ===== verification/Bmap_Lookup.thy ===== *)
theory Bmap_Lookup
  imports Extent_Search Bmap
begin

text \<open>
  Looking a logical block up agrees with listing the blocks: with extents or with indirect blocks, the inode is
  an association list from logical to physical blocks. The iterations of \<open>lsblks\<close> visit it in order, and
  \<open>ext2fs_bmap2\<close> answers what \<open>map_of\<close> finds in it, or 0 for a hole.
\<close>

section \<open>The mapping of an inode with extents\<close>

text \<open>What a lookup answers: 0 stands for a hole.\<close>

definition phys_of :: "(nat \<times> u64) list \<Rightarrow> u64 \<Rightarrow> u64" where
  "phys_of m blk = (case map_of m (unat blk) of None \<Rightarrow> 0 | Some p \<Rightarrow> p)"

definition lookup_flags :: "u32 \<Rightarrow> bool" where
  "lookup_flags flags \<longleftrightarrow> \<not> has flags BMAP_SET \<and> \<not> has flags BMAP_ALLOC \<and> \<not> has flags BMAP_ZERO"

lemma decoded_offset:
  assumes "decoded 0 e ext" "unat (ee_block e) \<le> unat blk" "unat blk < unat (ee_block e) + leaf_len e"
  shows "e_lblk ext \<le> blk" "(ucast (blk - e_lblk ext) :: u32) \<le> e_len ext" "ucast (ucast (blk - e_lblk ext) :: u32) = (of_nat (unat blk - unat (ee_block e)) :: u64)"
proof -
  have l: "e_lblk ext = ucast (ee_block e)" "unat (e_len ext) = leaf_len e" using assms(1) by (simp_all add: decoded_def)
  show le: "e_lblk ext \<le> blk" using assms(2) l(1) by (simp add: word_le_nat_alt)
  have d: "unat (blk - e_lblk ext) = unat blk - unat (ee_block e)" using unat_sub [OF le] l(1) by simp
  then have lt: "unat (blk - e_lblk ext) < leaf_len e" using assms(2,3) by simp
  then have b: "unat (blk - e_lblk ext) < 2 ^ 32" using l(2) unat_u32 [of "e_len ext"] by simp
  then have u: "unat (ucast (blk - e_lblk ext) :: u32) = unat (blk - e_lblk ext)" by (simp add: unsigned_ucast_eq take_bit_nat_eq_self)
  show "(ucast (blk - e_lblk ext) :: u32) \<le> e_len ext" using u lt l(2) by (simp add: word_le_nat_alt)
  have "unat (ucast (ucast (blk - e_lblk ext) :: u32) :: u64) = unat blk - unat (ee_block e)" unfolding unat_ucast_u64 u d ..
  from arg_cong [OF this, of "of_nat :: nat \<Rightarrow> u64"]
  show "ucast (ucast (blk - e_lblk ext) :: u32) = (of_nat (unat blk - unat (ee_block e)) :: u64)"
    unfolding of_nat_unat by (simp only: ucast_id)
qed

lemma extent_bmap_lookup:
  assumes h: "h_level h = 0" "length (h_path h) = Suc (h_max_depth h)" "ep_buf (cur_path h) = buf" "ep_entries (cur_path h) = eh_entries buf"
    and ok: "eh_entries buf = 0 \<or> node_ok fs {} size1 (h_max_depth h) buf" "12 \<le> size1" and o: "ordered fs (h_max_depth h) lo hi buf" and fs: "plain_fs fs"
    and flags: "lookup_flags flags"
  shows "\<exists>n rf. \<forall>k. extent_bmap (n + k) fs h flags blk 0 0 = Inr (None, phys_of (tree_map fs (h_max_depth h) buf) blk, rf, h_inode h, fs)"
proof -
  let ?m = "map_of (tree_map fs (h_max_depth h) buf)"
  obtain n r h' where n: "\<forall>k. ext2fs_extent_goto (n + k) fs h blk = Inr (r, h')" and a: "answers ?m (unat blk) r h'"
    using goto_answers [OF h ok o fs] by blast
  have fl: "\<not> has flags BMAP_SET" "\<not> has flags BMAP_ALLOC" using flags by (simp_all add: lookup_flags_def)
  show ?thesis
  proof (cases r)
    case (Some e)
    then have "e = EXT2_ET_EXTENT_NOT_FOUND" "?m (unat blk) = None" using a by (simp_all add: answers_def)
    then have "extent_bmap (n + k) fs h flags blk 0 0 = Inr (None, phys_of (tree_map fs (h_max_depth h) buf) blk, 0, h_inode h, fs)" for k
      using n fl Some by (simp add: extent_bmap_def phys_of_def)
    then show ?thesis by blast
  next
    case None
    then obtain e where e: "stands_at h' e" "unat (ee_block e) \<le> unat blk" "unat blk < unat (ee_block e) + leaf_len e"
      "?m (unat blk) = Some (ee_pblk e + of_nat (unat blk - unat (ee_block e)))" using a unfolding answers_def by auto
    obtain ext j where x: "ep_curr (cur_path h') = Some j" "extent_decode h' j = Inr ext" "decoded 0 e ext" using e(1) by (auto simp: stands_at_def)
    have g: "ext2fs_extent_get (Suc fuel) fs h' EXT2_EXTENT_CURRENT x = Inr (None, h', ext)" for fuel x
      using x by (simp add: ext2fs_extent_get_def extent_choose_def extent_move_def Let_def)
    note off = decoded_offset [OF x(3) e(2,3)]
    have p: "phys_of (tree_map fs (h_max_depth h) buf) blk = e_pblk ext + ucast (ucast (blk - e_lblk ext) :: u32)"
      unfolding phys_of_def e(4) off(3) using x(3) by (simp add: decoded_def)
    have "extent_bmap (Suc n + k) fs h flags blk 0 0 =
        Inr (None, phys_of (tree_map fs (h_max_depth h) buf) blk, if e_uninit ext then BMAP_RET_UNINIT else 0, h_inode h, fs)" for k
      using n [rule_format, of "Suc k"] g [of "n + k"] fl off(1,2) None unfolding p extent_bmap_def Let_def by simp
    then show ?thesis by blast
  qed
qed

section \<open>The mapping of an inode without extents\<close>

text \<open>The blocks below the number \<open>b\<close> with \<open>d\<close> levels of indirection, \<open>base\<close> being the first logical block.\<close>

abbreviation per_block :: "ext2_filsys \<Rightarrow> nat" where
  "per_block fs \<equiv> fs_blocksize fs div 4"

fun ind_map :: "ext2_filsys \<Rightarrow> nat \<Rightarrow> nat \<Rightarrow> u32 \<Rightarrow> (nat \<times> u64) list" where
  "ind_map fs 0 base b = (if b = 0 then [] else [(base, ucast b)])"
| "ind_map fs (Suc d) base b =
     (if b = 0 then []
      else case ext2fs_read_ind_block fs (fs_read_blk fs) b of
        Inl e \<Rightarrow> []
      | Inr ws \<Rightarrow> concat (map (\<lambda>k. ind_map fs d (base + k * per_block fs ^ d) (ws ! k)) [0..<length ws]))"

lemma concat_nth: "concat (map (\<lambda>k. f (xs ! k)) [0..<length xs]) = concat (map f xs)"
proof -
  have "map (\<lambda>k. f (xs ! k)) [0..<length xs] = map f xs" by (rule nth_equalityI) simp_all
  then show ?thesis by simp
qed

lemma ind_map_blocks: "map snd (ind_map fs d base b) = tree_blocks fs d b"
proof (induction d arbitrary: base b)
  case (Suc d)
  show ?case
  proof (cases "ext2fs_read_ind_block fs (fs_read_blk fs) b")
    case (Inr ws)
    then show ?thesis using concat_nth [of "tree_blocks fs d" ws] by (simp add: map_concat comp_def Suc.IH)
  qed simp
qed simp

text \<open>Where the fifteen numbers of an inode begin.\<close>

definition top_depth :: "nat \<Rightarrow> nat" where
  "top_depth k = (if k < 12 then 0 else k - 11)"

definition top_base :: "nat \<Rightarrow> nat \<Rightarrow> nat" where
  "top_base n k = (if k < 12 then k else if k = 12 then 12 else if k = 13 then 12 + n else 12 + n + n * n)"

definition file_map :: "ext2_filsys \<Rightarrow> u32 list \<Rightarrow> (nat \<times> u64) list" where
  "file_map fs ws = concat (map (\<lambda>k. ind_map fs (top_depth k) (top_base (per_block fs) k) (ws ! k)) [0..<15])"

lemma file_map_blocks:
  assumes "length ws = 15"
  shows "map snd (file_map fs ws) = mapped_blocks fs ws"
proof -
  have u: "[0..<15] = [0..<12] @ [12, 13, 14]" by (simp add: upt_rec)
  have "map (\<lambda>k. tree_blocks fs (top_depth k) (ws ! k)) [0..<12] = map (tree_blocks fs 0) (take 12 ws)"
    by (rule nth_equalityI) (use assms in \<open>simp_all add: top_depth_def del: tree_blocks.simps\<close>)
  then show ?thesis unfolding file_map_def mapped_blocks_def map_concat map_map comp_def ind_map_blocks u
    by (simp del: tree_blocks.simps) (simp add: top_depth_def numeral_2_eq_2 numeral_3_eq_3)
qed

text \<open>Blocks are read whole, and hold a whole number of block numbers.\<close>

definition whole_blocks :: "ext2_filsys \<Rightarrow> bool" where
  "whole_blocks fs \<longleftrightarrow> \<not> fs_image_file fs \<and> 4 \<le> fs_blocksize fs \<and> (\<forall>b buf. fs_read_blk fs b = Some buf \<longrightarrow> length buf = fs_blocksize fs)"

lemma per_block_pos: "whole_blocks fs \<Longrightarrow> 0 < per_block fs"
  by (simp add: whole_blocks_def div_greater_zero_iff)

lemma length_words_of: "length (words_of buf) = length buf div 4"
  by (induction buf rule: words_of.induct) auto

lemma words_of_nth: "nr < length buf div 4 \<Longrightarrow> words_of buf ! nr = le32_at buf (4 * nr)"
proof (induction buf arbitrary: nr rule: words_of.induct)
  case (1 a b c d rest)
  show ?case
  proof (cases nr)
    case (Suc k)
    have "4 * nr = Suc (Suc (Suc (Suc (4 * k))))" using Suc by simp
    then have "le32_at (a # b # c # d # rest) (4 * nr) = le32_at rest (4 * k)" by (simp only: le32_at_def drop_Suc_Cons)
    then show ?thesis using 1 Suc by simp
  qed (simp add: le32_at_def)
qed auto

text \<open>The number in slot \<open>nr\<close> of an indirect block, and the one at the end of \<open>d\<close> levels.\<close>

definition ind_slot :: "ext2_filsys \<Rightarrow> u32 \<Rightarrow> nat \<Rightarrow> u32" where
  "ind_slot fs b nr = (if b = 0 then 0 else words_of (the (fs_read_blk fs (ucast b))) ! nr)"

fun slot :: "ext2_filsys \<Rightarrow> nat \<Rightarrow> u32 \<Rightarrow> nat \<Rightarrow> u32" where
  "slot fs 0 b nr = b"
| "slot fs (Suc d) b nr = ind_slot fs (slot fs d b (nr div per_block fs)) (nr mod per_block fs)"

lemma ind_slot_0 [simp]: "ind_slot fs 0 nr = 0"
  by (simp add: ind_slot_def)

lemma slot_0 [simp]: "slot fs d 0 nr = 0"
  by (induction d arbitrary: nr) simp_all

lemma slot_down:
  "nr < per_block fs ^ Suc d \<Longrightarrow> slot fs (Suc d) b nr = slot fs d (ind_slot fs b (nr div per_block fs ^ d)) (nr mod per_block fs ^ d)"
proof (induction d arbitrary: nr)
  case (Suc d)
  let ?n = "per_block fs"
  have lt: "nr div ?n < ?n ^ Suc d" using Suc.prems by (simp add: less_mult_imp_div_less mult.commute)
  have m: "nr mod ?n ^ Suc d = ?n * (nr div ?n mod ?n ^ d) + nr mod ?n" by (simp add: mod_mult2_eq)
  have n: "0 < ?n" using Suc.prems by (cases "?n = 0") simp_all
  have "slot fs (Suc (Suc d)) b nr = ind_slot fs (slot fs d (ind_slot fs b (nr div ?n div ?n ^ d)) (nr div ?n mod ?n ^ d)) (nr mod ?n)"
    using Suc.IH [OF lt] by simp
  also have "\<dots> = slot fs (Suc d) (ind_slot fs b (nr div ?n ^ Suc d)) (nr mod ?n ^ Suc d)"
    unfolding m slot.simps using n by (simp add: div_mult2_eq)
  finally show ?case .
qed simp

lemma read_whole:
  assumes "whole_blocks fs" "tree_ok fs (Suc d) b" "b \<noteq> 0"
  obtains buf where "fs_read_blk fs (ucast b) = Some buf" "length buf = fs_blocksize fs"
    "ext2fs_read_ind_block fs (fs_read_blk fs) b = Inr (words_of buf)" "list_all (tree_ok fs d) (words_of buf)"
  using assms by (auto simp: ext2fs_read_ind_block_def whole_blocks_def split: option.splits)

lemma ind_slot_ok:
  assumes "whole_blocks fs" "tree_ok fs (Suc d) b" "nr < per_block fs"
  shows "tree_ok fs d (ind_slot fs b nr)"
proof (cases "b = 0")
  case True
  then show ?thesis by (cases d) simp_all
next
  case False
  obtain buf where "fs_read_blk fs (ucast b) = Some buf" "length buf = fs_blocksize fs" "list_all (tree_ok fs d) (words_of buf)"
    by (rule read_whole [OF assms(1,2) False])
  then show ?thesis using False assms(3) by (simp add: ind_slot_def list_all_length length_words_of)
qed

lemma ind_map_0 [simp]: "ind_map fs d base 0 = []"
  by (cases d) simp_all

lemma ind_map_Suc:
  assumes "whole_blocks fs" "tree_ok fs (Suc d) b"
  shows "ind_map fs (Suc d) base b = concat (map (\<lambda>k. ind_map fs d (base + k * per_block fs ^ d) (ind_slot fs b k)) [0..<per_block fs])"
proof (cases "b = 0")
  case False
  obtain buf where "fs_read_blk fs (ucast b) = Some buf" "length buf = fs_blocksize fs" "ext2fs_read_ind_block fs (fs_read_blk fs) b = Inr (words_of buf)"
    by (rule read_whole [OF assms False])
  then show ?thesis using False by (simp add: ind_slot_def length_words_of)
qed simp

lemma ind_map_range:
  assumes "whole_blocks fs"
  shows "tree_ok fs d b \<Longrightarrow> (x, p) \<in> set (ind_map fs d base b) \<Longrightarrow> base \<le> x \<and> x < base + per_block fs ^ d"
proof (induction d arbitrary: base b)
  case 0
  then show ?case by (auto split: if_split_asm)
next
  case (Suc d)
  let ?n = "per_block fs"
  obtain k where k: "k < ?n" "(x, p) \<in> set (ind_map fs d (base + k * ?n ^ d) (ind_slot fs b k))"
    using Suc.prems(2) unfolding ind_map_Suc [OF assms Suc.prems(1)] by auto
  then have r: "base + k * ?n ^ d \<le> x" "x < base + k * ?n ^ d + ?n ^ d"
    using Suc.IH [OF ind_slot_ok [OF assms Suc.prems(1) k(1)] k(2)] by simp_all
  have "Suc k * ?n ^ d \<le> ?n * ?n ^ d" using k(1) by (intro mult_le_mono1) simp
  then show ?case using r by simp
qed

text \<open>The parts of an indirect block follow each other.\<close>

lemma ind_parts_apart:
  assumes "whole_blocks fs" "tree_ok fs (Suc d) b" "j < k" "k < per_block fs"
    and "x \<in> fst ` set (ind_map fs d (base + j * per_block fs ^ d) (ind_slot fs b j))" "y \<in> fst ` set (ind_map fs d (base + k * per_block fs ^ d) (ind_slot fs b k))"
  shows "x < y"
proof -
  have j: "j < per_block fs" using assms(3,4) by simp
  obtain p q where pq: "(x, p) \<in> set (ind_map fs d (base + j * per_block fs ^ d) (ind_slot fs b j))"
    "(y, q) \<in> set (ind_map fs d (base + k * per_block fs ^ d) (ind_slot fs b k))" using assms(5,6) by auto
  have "x < base + j * per_block fs ^ d + per_block fs ^ d"
    using ind_map_range [OF assms(1) ind_slot_ok [OF assms(1,2) j] pq(1)] by simp
  also have "\<dots> = base + Suc j * per_block fs ^ d" by simp
  also have "\<dots> \<le> base + k * per_block fs ^ d" using assms(3) by (intro add_left_mono mult_le_mono1) simp
  also have "\<dots> \<le> y" using ind_map_range [OF assms(1) ind_slot_ok [OF assms(1,2,4)] pq(2)] by simp
  finally show ?thesis .
qed

lemma ind_map_sorted:
  assumes "whole_blocks fs"
  shows "tree_ok fs d b \<Longrightarrow> sorted_wrt (<) (map fst (ind_map fs d base b))"
proof (induction d arbitrary: base b)
  case (Suc d)
  show ?case unfolding ind_map_Suc [OF assms Suc.prems] map_concat map_map comp_def
  proof (rule sorted_concat)
    fix j k x y
    assume "j < k" "k < per_block fs" "x \<in> set (map fst (ind_map fs d (base + j * per_block fs ^ d) (ind_slot fs b j)))"
      "y \<in> set (map fst (ind_map fs d (base + k * per_block fs ^ d) (ind_slot fs b k)))"
    then show "x < y" by (intro ind_parts_apart [OF assms Suc.prems, of j k x base y]) simp_all
  qed (rule Suc.IH [OF ind_slot_ok [OF assms Suc.prems]])
qed simp

text \<open>A lookup in the list finds the number at the end of the levels, unless it is 0.\<close>

definition mapped :: "u32 \<Rightarrow> u64 option" where
  "mapped w = (if w = 0 then None else Some (ucast w))"

lemma map_of_ind_map:
  assumes "whole_blocks fs"
  shows "tree_ok fs d b \<Longrightarrow> nr < per_block fs ^ d \<Longrightarrow> map_of (ind_map fs d base b) (base + nr) = mapped (slot fs d b nr)"
proof (induction d arbitrary: base b nr)
  case 0
  then show ?case by (simp add: mapped_def)
next
  case (Suc d)
  let ?n = "per_block fs" and ?k = "nr div per_block fs ^ d" and ?f = "\<lambda>k. ind_map fs d (base + k * per_block fs ^ d) (ind_slot fs b k)"
  have p: "0 < ?n ^ d" using per_block_pos [OF assms] by simp
  have k: "?k < ?n" using Suc.prems(2) by (simp add: less_mult_imp_div_less)
  have "map_of (concat (map ?f [0..<?n])) (base + nr) = map_of (?f ?k) (base + nr)"
  proof (rule map_of_concat_at [OF k])
    fix j assume j: "j < ?n" "j \<noteq> ?k"
    show "base + nr \<notin> fst ` set (?f j)"
    proof
      assume "base + nr \<in> fst ` set (?f j)"
      then have "j * ?n ^ d \<le> nr" "nr < Suc j * ?n ^ d" using ind_map_range [OF assms ind_slot_ok [OF assms Suc.prems(1) j(1)]] by fastforce+
      then have "?k = j" using p by (simp add: div_nat_eqI mult.commute)
      then show False using j(2) by simp
    qed
  qed
  also have "\<dots> = map_of (?f ?k) (base + ?k * ?n ^ d + nr mod ?n ^ d)" by (simp only: add.assoc div_mult_mod_eq)
  also have "\<dots> = mapped (slot fs d (ind_slot fs b ?k) (nr mod ?n ^ d))"
    using p by (intro Suc.IH ind_slot_ok [OF assms Suc.prems(1) k]) simp
  finally show ?case unfolding ind_map_Suc [OF assms Suc.prems(1)] slot_down [OF Suc.prems(2)] .
qed

section \<open>Lookups through indirect blocks\<close>

lemma block_ind_bmap_slot:
  assumes "whole_blocks fs" "tree_ok fs (Suc d) b" "nr < per_block fs" "\<not> has flags BMAP_SET" "\<not> has flags BMAP_ALLOC"
  shows "block_ind_bmap fs flags b nr r = Inr (None, ind_slot fs b nr, fs)"
proof (cases "b = 0")
  case False
  obtain buf where buf: "fs_read_blk fs (ucast b) = Some buf" "length buf = fs_blocksize fs" by (rule read_whole [OF assms(1,2) False])
  have "4 * nr + 4 \<le> length buf" using assms(3) buf(2) by linarith
  then have "read_at buf (4 * nr) 4 = Inr (take 4 (drop (4 * nr) buf))" by simp
  then show ?thesis using buf assms(3-5) False by (simp add: block_ind_bmap_def ind_slot_def words_of_nth le32_at_def)
qed (use assms(4) in \<open>simp add: block_ind_bmap_def\<close>)

lemma has_clear: "\<not> has (flags AND NOT BMAP_SET) BMAP_SET" "\<not> has flags BMAP_ALLOC \<Longrightarrow> \<not> has (flags AND NOT BMAP_SET) BMAP_ALLOC"
  by (simp_all add: has_def BMAP_SET_def BMAP_ALLOC_def and.assoc)

lemma block_dind_bmap_slot:
  assumes "whole_blocks fs" "tree_ok fs (Suc (Suc d)) b" "nr < per_block fs ^ 2" "\<not> has flags BMAP_SET" "\<not> has flags BMAP_ALLOC"
  shows "block_dind_bmap fs flags b nr r = Inr (None, slot fs 2 b nr, fs)" "tree_ok fs d (slot fs 2 b nr)"
proof -
  let ?n = "per_block fs"
  have k: "nr div ?n < ?n" "nr mod ?n < ?n"
    using per_block_pos [OF assms(1)] assms(3) by (simp_all add: power2_eq_square less_mult_imp_div_less)
  have t: "tree_ok fs (Suc d) (ind_slot fs b (nr div ?n))" by (rule ind_slot_ok [OF assms(1,2) k(1)])
  show "block_dind_bmap fs flags b nr r = Inr (None, slot fs 2 b nr, fs)"
    using block_ind_bmap_slot [OF assms(1,2) k(1) has_clear(1) has_clear(2) [OF assms(5)]] block_ind_bmap_slot [OF assms(1) t k(2) assms(4,5)] k(1)
    by (simp add: block_dind_bmap_def Let_def numeral_2_eq_2)
  show "tree_ok fs d (slot fs 2 b nr)" using ind_slot_ok [OF assms(1) t k(2)] k(1) by (simp add: numeral_2_eq_2)
qed

lemma block_tind_bmap_slot:
  assumes "whole_blocks fs" "tree_ok fs 3 b" "nr < per_block fs ^ 3" "\<not> has flags BMAP_SET" "\<not> has flags BMAP_ALLOC"
  shows "block_tind_bmap fs flags b nr r = Inr (None, slot fs 3 b nr, fs)"
proof -
  let ?n = "per_block fs"
  have n: "0 < ?n" by (rule per_block_pos [OF assms(1)])
  have k: "nr div ?n < ?n ^ 2" using assms(3) by (simp add: power2_eq_square power3_eq_cube less_mult_imp_div_less)
  have ok: "tree_ok fs (Suc (Suc (Suc 0))) b" using assms(2) by (simp add: numeral_3_eq_3)
  note 2 = block_dind_bmap_slot [OF assms(1) ok k has_clear(1) has_clear(2) [OF assms(5)]]
  show ?thesis
    using 2(1) block_ind_bmap_slot [OF assms(1) 2(2) _ assms(4,5), of "nr mod ?n"] n
    by (simp add: block_tind_bmap_def Let_def numeral_2_eq_2 numeral_3_eq_3 del: slot.simps) simp
qed

text \<open>The fifteen parts of an inode follow each other, and hold the whole range of blocks.\<close>

lemma top_end: "k < 15 \<Longrightarrow> Suc k < 15 \<Longrightarrow> top_base n k + n ^ top_depth k = top_base n (Suc k)"
proof -
  assume "k < 15" "Suc k < 15"
  then have "k < 11 \<or> k = 11 \<or> k = 12 \<or> k = 13" by linarith
  then show ?thesis by (auto simp: top_base_def top_depth_def power2_eq_square)
qed

lemma top_mono: "j < k \<Longrightarrow> k < 15 \<Longrightarrow> top_base n j + n ^ top_depth j \<le> top_base n k"
proof (induction k)
  case (Suc k)
  show ?case
  proof (cases "j = k")
    case False
    then have "top_base n j + n ^ top_depth j \<le> top_base n k" using Suc by simp
    then show ?thesis using top_end [of k n] Suc.prems(2) by linarith
  qed (use top_end [of k n] Suc.prems(2) in simp)
qed simp

lemma mapped_ok_top: "mapped_ok fs ws \<Longrightarrow> k < 15 \<Longrightarrow> tree_ok fs (top_depth k) (ws ! k)"
proof -
  assume m: "mapped_ok fs ws" and "k < 15"
  then have "k < 12 \<or> k = 12 \<or> k = 13 \<or> k = 14" by linarith
  then show ?thesis using m by (auto simp: mapped_ok_def top_depth_def numeral_2_eq_2 numeral_3_eq_3)
qed

lemma top_range:
  assumes "whole_blocks fs" "mapped_ok fs ws" "k < 15" "x \<in> fst ` set (ind_map fs (top_depth k) (top_base (per_block fs) k) (ws ! k))"
  shows "top_base (per_block fs) k \<le> x" "x < top_base (per_block fs) k + per_block fs ^ top_depth k"
  using ind_map_range [OF assms(1) mapped_ok_top [OF assms(2,3)]] assms(4) by fastforce+

lemma file_map_sorted:
  assumes "whole_blocks fs" "mapped_ok fs ws"
  shows "sorted_wrt (<) (map fst (file_map fs ws))"
  unfolding file_map_def map_concat map_map comp_def
proof (rule sorted_concat)
  fix j k x y
  assume jk: "j < k" "k < 15" and x: "x \<in> set (map fst (ind_map fs (top_depth j) (top_base (per_block fs) j) (ws ! j)))"
    and y: "y \<in> set (map fst (ind_map fs (top_depth k) (top_base (per_block fs) k) (ws ! k)))"
  have "x < top_base (per_block fs) j + per_block fs ^ top_depth j" using top_range(2) [OF assms, of j x] jk x by simp
  also have "\<dots> \<le> top_base (per_block fs) k" by (rule top_mono [OF jk])
  also have "\<dots> \<le> y" using top_range(1) [OF assms jk(2), of y] y by simp
  finally show "x < y" .
qed (rule ind_map_sorted [OF assms(1) mapped_ok_top [OF assms(2)]])

lemma map_of_file_map:
  assumes "whole_blocks fs" "mapped_ok fs ws" "k < 15" "nr < per_block fs ^ top_depth k"
  shows "map_of (file_map fs ws) (top_base (per_block fs) k + nr) = mapped (slot fs (top_depth k) (ws ! k) nr)"
proof -
  let ?b = "top_base (per_block fs)" and ?f = "\<lambda>k. ind_map fs (top_depth k) (top_base (per_block fs) k) (ws ! k)"
  have "map_of (concat (map ?f [0..<15])) (?b k + nr) = map_of (?f k) (?b k + nr)"
  proof (rule map_of_concat_at [OF assms(3)])
    fix j assume j: "j < 15" "j \<noteq> k"
    show "?b k + nr \<notin> fst ` set (?f j)"
    proof
      assume "?b k + nr \<in> fst ` set (?f j)"
      from top_range [OF assms(1,2) j(1) this] show False
        using top_mono [of j k "per_block fs"] top_mono [of k j "per_block fs"] j assms(3,4) by (cases "j < k") auto
    qed
  qed
  then show ?thesis unfolding file_map_def using map_of_ind_map [OF assms(1) mapped_ok_top [OF assms(2,3)] assms(4)] by simp
qed

lemma phys_of_file_map:
  assumes "whole_blocks fs" "mapped_ok fs ws" "k < 15" "nr < per_block fs ^ top_depth k" "unat blk = top_base (per_block fs) k + nr"
  shows "phys_of (file_map fs ws) blk = ucast (slot fs (top_depth k) (ws ! k) nr)"
  using map_of_file_map [OF assms(1-4)] unfolding phys_of_def assms(5) by (simp add: mapped_def)

lemma block_cases:
  fixes b n :: nat
  assumes "b < 12 + n + n ^ 2 + n ^ 3"
  obtains (direct) "b < 12" | (ind) nr where "b = 12 + nr" "nr < n" | (dind) nr where "b = 12 + n + nr" "nr < n ^ 2"
    | (tind) nr where "b = 12 + n + n ^ 2 + nr" "nr < n ^ 3"
proof -
  consider "b < 12" | "12 \<le> b" "b < 12 + n" | "12 + n \<le> b" "b < 12 + n + n ^ 2" | "12 + n + n ^ 2 \<le> b" using assms by linarith
  then show ?thesis
  proof cases
    case 2 then show ?thesis using ind [of "b - 12"] by simp
  next
    case 3 then show ?thesis using dind [of "b - (12 + n)"] by simp
  next
    case 4 then show ?thesis using tind [of "b - (12 + n + n ^ 2)"] assms by simp
  qed (rule direct)
qed

lemma mapped_bmap_lookup:
  assumes w: "whole_blocks fs" and ok: "mapped_ok fs ws" "ws = words_of (i_block inode)" and flags: "lookup_flags flags"
    and blk: "unat blk < 12 + per_block fs + per_block fs ^ 2 + per_block fs ^ 3"
  shows "mapped_bmap fs inode flags (unat blk) 0 = Inr (None, phys_of (file_map fs ws) blk, inode, False, fs)"
proof -
  let ?n = "per_block fs" and ?b = "unat blk"
  have fl: "\<not> has flags BMAP_SET" "\<not> has flags BMAP_ALLOC" using flags by (simp_all add: lookup_flags_def)
  have "length (i_block inode) div 4 = 15" using ok by (simp add: mapped_ok_def length_words_of)
  then have ib: "inode_bmap inode k = ws ! k" if "k < 15" for k using that ok(2) by (simp add: inode_bmap_def words_of_nth)
  have t: "tree_ok fs (Suc 0) (ws ! 12)" "tree_ok fs (Suc (Suc 0)) (ws ! 13)" "tree_ok fs 3 (ws ! 14)" using ok(1) by (simp_all add: mapped_ok_def numeral_2_eq_2)
  consider (direct) "?b < 12" | (ind) nr where "?b = 12 + nr" "nr < ?n" | (dind) nr where "?b = 12 + ?n + nr" "nr < ?n ^ 2"
    | (tind) nr where "?b = 12 + ?n + ?n ^ 2 + nr" "nr < ?n ^ 3"
    by (rule block_cases [OF blk])
  then show ?thesis
  proof cases
    case direct
    then have "phys_of (file_map fs ws) blk = ucast (ws ! ?b)"
      using phys_of_file_map [OF w ok(1), of ?b 0 blk] by (simp add: top_base_def top_depth_def)
    then show ?thesis using direct fl ib [of ?b] by (simp add: mapped_bmap_def Let_def EXT2_NDIR_BLOCKS_def)
  next
    case (ind nr)
    then have "phys_of (file_map fs ws) blk = ucast (ind_slot fs (ws ! 12) nr)"
      using phys_of_file_map [OF w ok(1), of 12 nr blk] by (simp add: top_base_def top_depth_def)
    then show ?thesis using ind fl ib [of 12] block_ind_bmap_slot [OF w t(1) ind(2) fl]
      by (simp add: mapped_bmap_def Let_def EXT2_NDIR_BLOCKS_def EXT2_IND_BLOCK_def)
  next
    case (dind nr)
    then have "phys_of (file_map fs ws) blk = ucast (slot fs 2 (ws ! 13) nr)"
      using phys_of_file_map [OF w ok(1), of 13 nr blk] by (simp add: top_base_def top_depth_def)
    then show ?thesis using dind fl ib [of 13] block_dind_bmap_slot(1) [OF w t(2) dind(2) fl]
      by (simp add: mapped_bmap_def Let_def EXT2_NDIR_BLOCKS_def EXT2_DIND_BLOCK_def power2_eq_square)
  next
    case (tind nr)
    then have "phys_of (file_map fs ws) blk = ucast (slot fs 3 (ws ! 14) nr)"
      using phys_of_file_map [OF w ok(1), of 14 nr blk] by (simp add: top_base_def top_depth_def power2_eq_square)
    then show ?thesis using tind fl ib [of 14] block_tind_bmap_slot [OF w t(3) tind(2) fl]
      by (simp add: mapped_bmap_def Let_def EXT2_NDIR_BLOCKS_def EXT2_TIND_BLOCK_def power2_eq_square)
  qed
qed

section \<open>The mapping of an inode\<close>

definition inode_map :: "ext2_filsys \<Rightarrow> ext2_inode \<Rightarrow> (nat \<times> u64) list" where
  "inode_map fs inode =
     (if i_flags inode AND EXT4_EXTENTS_FL \<noteq> 0 then tree_map fs (eh_depth (i_block inode)) (i_block inode)
      else file_map fs (words_of (i_block inode)))"

text \<open>An inode whose blocks can be listed and looked up.\<close>

definition map_ok :: "ext2_filsys \<Rightarrow> ext2_inode \<Rightarrow> bool" where
  "map_ok fs inode \<longleftrightarrow> i_flags inode AND EXT4_INLINE_DATA_FL = 0 \<and>
     (if i_flags inode AND EXT4_EXTENTS_FL \<noteq> 0
      then plain_fs fs \<and> ext2fs_extent_header_verify (i_block inode) 60 = None \<and>
        (eh_entries (i_block inode) = 0 \<or> node_ok fs {} 60 (eh_depth (i_block inode)) (i_block inode)) \<and>
        ordered fs (eh_depth (i_block inode)) 0 (2 ^ 33) (i_block inode)
      else whole_blocks fs \<and> mapped_ok fs (words_of (i_block inode)))"

lemma inode_map_sorted: "map_ok fs inode \<Longrightarrow> sorted_wrt (<) (map fst (inode_map fs inode))"
  by (auto simp: map_ok_def inode_map_def intro: tree_map_sorted file_map_sorted split: if_split_asm)

lemma in_range_of_mapped:
  assumes "\<not> ext2fs_file_block_offset_too_big fs inode blk" "i_flags inode AND EXT4_EXTENTS_FL = 0"
  shows "unat blk < 12 + per_block fs + per_block fs ^ 2 + per_block fs ^ 3"
proof -
  let ?n = "per_block fs"
  have "blk < of_nat (?n + ?n * ?n + ?n * ?n * ?n + 12)"
    using assms by (simp add: ext2fs_file_block_offset_too_big_def Let_def not_le split: if_split_asm)
  then have "unat blk < unat (of_nat (?n + ?n * ?n + ?n * ?n * ?n + 12) :: u64)" by (simp only: word_less_nat_alt)
  also have "\<dots> \<le> ?n + ?n * ?n + ?n * ?n * ?n + 12" unfolding unat_of_nat by (rule mod_less_eq_dividend)
  finally show ?thesis by (simp add: power2_eq_square power3_eq_cube)
qed

lemma bmap2_lookup:
  assumes inode: "(case inode_opt of Some i \<Rightarrow> Inr i | None \<Rightarrow> fs_read_inode fs ino) = Inr inode"
    and ok: "map_ok fs inode" and flags: "lookup_flags flags" and blk: "\<not> ext2fs_file_block_offset_too_big fs inode blk"
  shows "\<exists>n rf. \<forall>k. ext2fs_bmap2 (n + k) fs ino inode_opt flags blk phys0 = Inr (None, phys_of (inode_map fs inode) blk, rf, inode_opt, fs)"
proof -
  have ret: "map_option (\<lambda>_. inode) inode_opt = inode_opt" using inode by (cases inode_opt) simp_all
  have fl: "\<not> has flags BMAP_SET" "\<not> has flags BMAP_ZERO" "i_flags inode AND EXT4_INLINE_DATA_FL = 0"
    using flags ok by (simp_all add: lookup_flags_def map_ok_def)
  show ?thesis
  proof (cases "i_flags inode AND EXT4_EXTENTS_FL \<noteq> 0")
    case True
    then have r: "plain_fs fs" "ext2fs_extent_header_verify (i_block inode) 60 = None" "ordered fs (eh_depth (i_block inode)) 0 (2 ^ 33) (i_block inode)"
      "eh_entries (i_block inode) = 0 \<or> node_ok fs {} 60 (eh_depth (i_block inode)) (i_block inode)" using ok by (simp_all add: map_ok_def)
    obtain h where h: "ext2fs_extent_open2 fs ino (Some inode) = Inr h" "h_level h = 0" "h_max_depth h = eh_depth (i_block inode)" "h_inode h = inode"
      "length (h_path h) = Suc (h_max_depth h)" "ep_buf (cur_path h) = i_block inode" "ep_entries (cur_path h) = eh_entries (i_block inode)"
      using extent_open2_root [where inode_opt = "Some inode" and fs = fs and ino = ino, OF _ _ True r(2)] by force
    obtain n rf where "\<forall>k. extent_bmap (n + k) fs h flags blk 0 0 = Inr (None, phys_of (tree_map fs (h_max_depth h) (i_block inode)) blk, rf, h_inode h, fs)"
      using extent_bmap_lookup [OF h(2,5,6,7), of fs 60 0 "2 ^ 33" flags blk] r flags h(3) by auto
    then have "ext2fs_bmap2 (n + k) fs ino inode_opt flags blk phys0 = Inr (None, phys_of (inode_map fs inode) blk, rf, inode_opt, fs)" for k
      using True blk fl h(1,3,4) unfolding ext2fs_bmap2_def Let_def inode by (simp add: inode_map_def ret)
    then show ?thesis by blast
  next
    case False
    then have r: "whole_blocks fs" "mapped_ok fs (words_of (i_block inode))" using ok by (simp_all add: map_ok_def)
    have "mapped_bmap fs inode flags (unat blk) 0 = Inr (None, phys_of (file_map fs (words_of (i_block inode))) blk, inode, False, fs)"
      using mapped_bmap_lookup [OF r refl flags] in_range_of_mapped [OF blk] False by simp
    then have "ext2fs_bmap2 (0 + k) fs ino inode_opt flags blk phys0 = Inr (None, phys_of (inode_map fs inode) blk, 0, inode_opt, fs)" for k
      using False blk fl unfolding ext2fs_bmap2_def Let_def inode by (simp add: inode_map_def ret)
    then show ?thesis by blast
  qed
qed

lemma inode_map_blocks: "map_ok fs inode \<Longrightarrow> map snd (inode_map fs inode) = file_blocks fs inode"
  by (auto simp: inode_map_def file_blocks_def map_ok_def tree_map_blocks mapped_ok_def intro: file_map_blocks)

section \<open>Property\<close>

text \<open>
  C7: listing and looking up agree. For an inode whose extents are in order, or whose indirect blocks are
  readable, there is one list of pairs of logical and physical blocks, in the order of the file, such
  that \<open>lsblks\<close> calls its function on exactly its physical blocks, and \<open>ext2fs_bmap2\<close> answers for every logical
  block the physical block the list has for it, or 0 when it has none. Extents of any depth and all
  levels of indirection are covered, and both ways end.
\<close>

theorem bmap_agrees_with_listing:
  assumes open1: "opener dev = Inr (Inr fs)" and inode: "fs_read_inode fs (ucast ino) = Inr nd"
    and ok: "inode_ok fs (ucast ino) nd" "map_ok fs nd" and flags: "lookup_flags flags"
  shows "sorted_wrt (<) (map fst (inode_map fs nd)) \<and>
    (\<exists>n. \<forall>m. lsblks (n + m) opener code dev ino func priv = Inr (0, foldl func priv (map snd (inode_map fs nd)))) \<and>
    (\<forall>blk. ext2fs_file_block_offset_too_big fs nd blk \<or>
       (\<exists>n rf. \<forall>m. ext2fs_bmap2 (n + m) fs (ucast ino) None flags blk phys0 = Inr (None, phys_of (inode_map fs nd) blk, rf, None, fs)))"
proof (intro conjI allI)
  show "sorted_wrt (<) (map fst (inode_map fs nd))" by (rule inode_map_sorted [OF ok(2)])
  show "\<exists>n. \<forall>m. lsblks (n + m) opener code dev ino func priv = Inr (0, foldl func priv (map snd (inode_map fs nd)))"
    unfolding inode_map_blocks [OF ok(2)] by (rule lsblks_file_blocks [of opener dev fs ino nd code func priv, OF open1 inode ok(1)])
  show "ext2fs_file_block_offset_too_big fs nd blk \<or>
       (\<exists>n rf. \<forall>m. ext2fs_bmap2 (n + m) fs (ucast ino) None flags blk phys0 = Inr (None, phys_of (inode_map fs nd) blk, rf, None, fs))" for blk
    using bmap2_lookup [where inode_opt = None and fs = fs and ino = "ucast ino" and inode = nd and blk = blk] inode ok(2) flags by auto
qed

text \<open>The tree with one leaf of two extents: blocks 0 and 1 are at 100, block 2 at 200.\<close>

lemma tree_ent_eval: "ee_block (ent tree_root 0) = 0" "ee_block (ent tree_leaf 0) = 0" "ee_block (ent tree_leaf 1) = 2"
  "leaf_len (ent tree_leaf 0) = 2" "leaf_len (ent tree_leaf 1) = 1" "ee_pblk (ent tree_leaf 0) = 100" "ee_pblk (ent tree_leaf 1) = 200"
  by (simp_all add: node_eval tree_root_def tree_leaf_def ee_block_def ee_len_def ee_pblk_def leaf_len_def)

lemma all_less_two: "(\<forall>k < 2. P k) \<longleftrightarrow> P 0 \<and> P (1 :: nat)"
  by (auto simp: less_2_cases_iff)

lemma tree_inode_map:
  assumes "i_block nd = tree_root" "i_flags nd = EXT4_EXTENTS_FL"
  shows "map_ok tree_fs nd" "inode_map tree_fs nd = [(0, 100), (1, 101), (2, 200)]"
proof -
  have c: "child tree_fs tree_root 0 = tree_leaf" "fs_read_blk tree_fs 5 = Some tree_leaf" "fs_blocksize tree_fs = 1024"
    by (simp_all add: child_def tree_root_eval tree_fs_def)
  have d: "eh_depth tree_root = Suc 0" using tree_root_eval by simp
  have u: "[0..<2] = [0, 1]" by (simp add: upt_rec)
  have "node_ok tree_fs {} 60 (Suc 0) tree_root" using tree_leaf_eval by (simp add: tree_root_eval c)
  moreover have "ordered tree_fs (Suc 0) 0 (2 ^ 33) tree_root"
    by (simp add: tree_root_eval tree_leaf_eval ekey_def upper_def c tree_ent_eval all_less_two tree_ent_eval [unfolded One_nat_def])
  moreover have "plain_fs tree_fs" by (simp add: plain_fs_def tree_fs_def flat_fs_def fs_image_file_def)
  ultimately show "map_ok tree_fs nd" unfolding map_ok_def assms d using tree_root_eval by (simp add: EXT4_EXTENTS_FL_def EXT4_INLINE_DATA_FL_def)
  show "inode_map tree_fs nd = [(0, 100), (1, 101), (2, 200)]"
    unfolding inode_map_def assms d
    by (simp add: tree_root_eval tree_leaf_eval c leaf_map_def tree_ent_eval tree_ent_eval [unfolded One_nat_def] u EXT4_EXTENTS_FL_def)
qed

theorem bmap_agrees_with_listing_witness:
  "(\<exists>n. \<forall>m. lsblks (n + m) (\<lambda>_. Inr (Inr tree_fs)) (\<lambda>_. 1) ''/dev/sda1'' 2 (\<lambda>bs b. bs @ [b]) [] = Inr (0, [100, 101, 200])) \<and>
   (\<exists>n rf. \<forall>m. ext2fs_bmap2 (n + m) tree_fs 2 None 0 2 0 = Inr (None, 200, rf, None, tree_fs)) \<and>
   (\<exists>n rf. \<forall>m. ext2fs_bmap2 (n + m) tree_fs 2 None 0 3 0 = Inr (None, 0, rf, None, tree_fs))"
proof -
  let ?nd = "\<lparr>i_mode_dir = True, i_flags = EXT4_EXTENTS_FL, i_size = 3072, i_size_high = 0, i_block = tree_root, i_translator = 0\<rparr>"
  have m: "map_ok tree_fs ?nd" "inode_map tree_fs ?nd = [(0, 100), (1, 101), (2, 200)]" by (rule tree_inode_map; simp)+
  have ok: "inode_ok tree_fs (ucast (2 :: u64)) ?nd" using m(1) tree_root_eval(2)
    by (simp add: inode_ok_def map_ok_def tree_fs_def flat_fs_def EXT4_EXTENTS_FL_def word_le_nat_alt)
  have fl: "lookup_flags 0" by (simp add: lookup_flags_def has_def)
  note b = bmap_agrees_with_listing [of "\<lambda>_. Inr (Inr tree_fs)" "''/dev/sda1''" tree_fs 2 ?nd 0 "\<lambda>_. 1" "\<lambda>bs b. bs @ [b]" "[]" 0, OF refl _ ok m(1) fl, unfolded m(2)]
  have r: "fs_read_inode tree_fs (ucast (2 :: u64)) = Inr ?nd" by (simp add: tree_fs_def)
  have s: "\<not> ext2fs_file_block_offset_too_big tree_fs ?nd 2" "\<not> ext2fs_file_block_offset_too_big tree_fs ?nd 3"
    by (simp_all add: ext2fs_file_block_offset_too_big_def EXT4_EXTENTS_FL_def word_le_nat_alt)
  have p: "phys_of [(0, 100), (1, 101), (2, 200)] 2 = 200" "phys_of [(0, 100), (1, 101), (2, 200)] 3 = 0" by (simp_all add: phys_of_def)
  have u: "(ucast (2 :: u64) :: u32) = 2" by simp
  have l: "\<exists>n. \<forall>m. lsblks (n + m) (\<lambda>_. Inr (Inr tree_fs)) (\<lambda>_. 1) ''/dev/sda1'' 2 (\<lambda>bs b. bs @ [b]) [] = Inr (0, [100, 101, 200])"
    using conjunct1 [OF conjunct2 [OF b [OF r]]] by simp
  note q = conjunct2 [OF conjunct2 [OF b [OF r]], unfolded u, THEN spec]
  show ?thesis using l q [of 2] q [of 3] s unfolding p by blast
qed

end
