(* ===== verification/Array_Store.thy ===== *)
theory Array_Store
  imports E2fs_Base
begin

text \<open>
  The contract of operations that read and write the elements of an array through some state, such as a cache
  over a device: every operation succeeds, a read shows the element (a part of it, which \<open>view\<close> selects)
  and a write changes it (as \<open>upd\<close> says) and no other. Whole sequences of operations then behave as on
  the array. The theories that update inodes and block mappings interpret the locale.
\<close>

datatype ('k, 'q, 'w) store_op = Read_At 'k 'q | Write_At 'k 'w

fun op_key :: "('k, 'q, 'w) store_op \<Rightarrow> 'k" where
  "op_key (Read_At k q) = k"
| "op_key (Write_At k w) = k"

text \<open>Running a sequence: the error codes, with what the reads return.\<close>

fun run_store ::
  "('s \<Rightarrow> 'k \<Rightarrow> 'q \<Rightarrow> (errcode_t \<times> 'r \<times> 's) res) \<Rightarrow> ('s \<Rightarrow> 'k \<Rightarrow> 'w \<Rightarrow> (errcode_t \<times> 's) res) \<Rightarrow>
   's \<Rightarrow> ('k, 'q, 'w) store_op list \<Rightarrow> ((errcode_t \<times> 'r option) list \<times> 's) res" where
  "run_store rd wr s [] = Inr ([], s)"
| "run_store rd wr s (Read_At k q # ops) =
     and_then (rd s k q) (\<lambda>(e, r, s1). and_then (run_store rd wr s1 ops) (\<lambda>(rs, s2). Inr ((e, Some r) # rs, s2)))"
| "run_store rd wr s (Write_At k w # ops) =
     and_then (wr s k w) (\<lambda>(e, s1). and_then (run_store rd wr s1 ops) (\<lambda>(rs, s2). Inr ((e, None) # rs, s2)))"

text \<open>The same on the array.\<close>

fun run_array :: "('v \<Rightarrow> 'q \<Rightarrow> 'r) \<Rightarrow> ('v \<Rightarrow> 'w \<Rightarrow> 'v) \<Rightarrow> ('k \<Rightarrow> 'v) \<Rightarrow> ('k, 'q, 'w) store_op list \<Rightarrow> (errcode_t \<times> 'r option) list \<times> ('k \<Rightarrow> 'v)" where
  "run_array view upd A [] = ([], A)"
| "run_array view upd A (Read_At k q # ops) = (let (rs, B) = run_array view upd A ops in ((None, Some (view (A k) q)) # rs, B))"
| "run_array view upd A (Write_At k w # ops) = (let (rs, B) = run_array view upd (A(k := upd (A k) w)) ops in ((None, None) # rs, B))"

locale array_store =
  fixes rd :: "'s \<Rightarrow> 'k \<Rightarrow> 'q \<Rightarrow> (errcode_t \<times> 'r \<times> 's) res" and wr :: "'s \<Rightarrow> 'k \<Rightarrow> 'w \<Rightarrow> (errcode_t \<times> 's) res"
    and inv :: "'s \<Rightarrow> ('k \<Rightarrow> 'v) \<Rightarrow> bool" and valid :: "'s \<Rightarrow> 'k \<Rightarrow> bool" and view :: "'s \<Rightarrow> 'v \<Rightarrow> 'q \<Rightarrow> 'r" and upd :: "'s \<Rightarrow> 'v \<Rightarrow> 'w \<Rightarrow> 'v"
  assumes rd: "inv s A \<Longrightarrow> valid s k \<Longrightarrow>
      \<exists>s'. rd s k q = Inr (None, view s (A k) q, s') \<and> inv s' A \<and> valid s' = valid s \<and> view s' = view s \<and> upd s' = upd s"
    and wr: "inv s A \<Longrightarrow> valid s k \<Longrightarrow>
      \<exists>s'. wr s k w = Inr (None, s') \<and> inv s' (A(k := upd s (A k) w)) \<and> valid s' = valid s \<and> view s' = view s \<and> upd s' = upd s"
begin

lemma run_refines:
  "inv s A \<Longrightarrow> list_all (\<lambda>op. valid s (op_key op)) ops \<Longrightarrow>
   \<exists>s'. run_store rd wr s ops = Inr (fst (run_array (view s) (upd s) A ops), s') \<and> inv s' (snd (run_array (view s) (upd s) A ops))"
proof (induction ops arbitrary: s A)
  case (Cons op ops)
  show ?case
  proof (cases op)
    case (Read_At k q)
    then obtain s' where s': "rd s k q = Inr (None, view s (A k) q, s')" "inv s' A" "valid s' = valid s" "view s' = view s" "upd s' = upd s"
      using rd [OF Cons(2), of k q] Cons(3) by auto
    then show ?thesis using Cons(1) [OF s'(2)] Cons(3) Read_At by (auto simp: split_beta Let_def)
  next
    case (Write_At k w)
    define B where "B = A(k := upd s (A k) w)"
    have "valid s k" using Cons(3) Write_At by simp
    then obtain s' where s': "wr s k w = Inr (None, s')" "inv s' B" "valid s' = valid s" "view s' = view s" "upd s' = upd s"
      using wr [OF Cons(2), of k w] unfolding B_def [symmetric] by blast
    then show ?thesis using Cons(1) [OF s'(2)] Cons(3) unfolding Write_At run_array.simps B_def [symmetric] by (auto simp: split_beta Let_def)
  qed
qed simp

end

end
