(* ===== verification/Bmap_Update.thy ===== *)
theory Bmap_Update
  imports Bmap_Lookup Array_Store
begin

text \<open>
  Setting blocks of an inode without extents: when no indirect block is referred to twice, \<open>ext2fs_bmap2\<close> with
  \<open>BMAP_SET\<close> changes the mapping at the given block and nowhere else, so that sequences of lookups and settings
  behave as on an array of block numbers (an interpretation of \<open>array_store\<close>).
\<close>

section \<open>Changing one number of an indirect block\<close>

lemma words_of_put:
  "nr < length buf div 4 \<Longrightarrow> words_of (put_le 4 (4 * nr) v buf) = (words_of buf)[nr := v]"
proof (induction buf arbitrary: nr rule: words_of.induct)
  case (1 a b c d rest)
  show ?case
  proof (cases nr)
    case 0
    then show ?thesis by (simp add: put_le_def words_of_word)
  next
    case (Suc k)
    have e: "4 * nr = Suc (Suc (Suc (Suc (4 * k))))" using Suc by simp
    have "put_le 4 (4 * nr) v (a # b # c # d # rest) = a # b # c # d # put_le 4 (4 * k) v rest"
      unfolding e put_le_def by (simp only: add_Suc take_Suc_Cons drop_Suc_Cons append_Cons)
    then show ?thesis using 1 Suc by simp
  qed
qed auto

text \<open>The file system after slot \<open>k\<close> of block \<open>t\<close> was set to \<open>v\<close>.\<close>

definition with_slot :: "u32 \<Rightarrow> nat \<Rightarrow> u32 \<Rightarrow> ext2_filsys \<Rightarrow> ext2_filsys" where
  "with_slot t k v fs = fs\<lparr>fs_read_blk := (fs_read_blk fs)(ucast t \<mapsto> put_le 4 (4 * k) v (the (fs_read_blk fs (ucast t))))\<rparr>"

lemma with_slot_fields [simp]:
  "fs_blocksize (with_slot t k v fs) = fs_blocksize fs" "fs_image_file (with_slot t k v fs) = fs_image_file fs"
  "fs_blocks_count (with_slot t k v fs) = fs_blocks_count fs" "fs_first_data_block (with_slot t k v fs) = fs_first_data_block fs"
  "fs_write_blk (with_slot t k v fs) = fs_write_blk fs" "fs_write_inode (with_slot t k v fs) = fs_write_inode fs"
  "fs_read_inode (with_slot t k v fs) = fs_read_inode fs"
  by (simp_all add: with_slot_def fs_image_file_def)

lemma ucast_eq_u32: "(ucast (x :: u32) :: u64) = ucast y \<longleftrightarrow> x = y"
  by (metis unat_ucast_u64 word_unat_eq_iff)

lemma ind_slot_with_slot:
  assumes "fs_read_blk fs (ucast t) = Some buf" "length buf = fs_blocksize fs" "k < per_block fs" "t \<noteq> 0"
  shows "ind_slot (with_slot t k v fs) b nr = (if b = t \<and> nr = k then v else ind_slot fs b nr)"
proof (cases "b = t")
  case True
  then show ?thesis using assms by (auto simp: ind_slot_def with_slot_def words_of_put length_words_of)
next
  case False
  then show ?thesis by (simp add: ind_slot_def with_slot_def ucast_eq_u32)
qed

lemma whole_with_slot:
  assumes "whole_blocks fs" "fs_read_blk fs (ucast t) = Some buf" "k < per_block fs"
  shows "whole_blocks (with_slot t k v fs)"
proof -
  have len: "length buf = fs_blocksize fs" using assms(1,2) by (simp add: whole_blocks_def)
  then have "4 * k + 4 \<le> length buf" using assms(3) by linarith
  then show ?thesis using assms(1,2) len by (auto simp: whole_blocks_def with_slot_def fs_image_file_def split: if_split_asm)
qed

text \<open>An indirect block can be walked when it is in range and readable, and all its slots can be.\<close>

lemma tree_ok_Suc:
  assumes "whole_blocks fs" "b \<noteq> 0"
  shows "tree_ok fs (Suc d) b \<longleftrightarrow> ucast b < fs_blocks_count fs \<and> fs_first_data_block fs \<le> b \<and> fs_read_blk fs (ucast b) \<noteq> None \<and>
    (\<forall>k < per_block fs. tree_ok fs d (ind_slot fs b k))"
proof (cases "fs_read_blk fs (ucast b)")
  case (Some buf)
  then have "length (words_of buf) = per_block fs" "ind_slot fs b k = words_of buf ! k" for k
    using assms by (simp_all add: whole_blocks_def length_words_of ind_slot_def)
  then show ?thesis using assms Some by (simp add: ext2fs_read_ind_block_def whole_blocks_def list_all_length)
qed (use assms in \<open>simp add: ext2fs_read_ind_block_def whole_blocks_def\<close>)

section \<open>The indirect blocks of a tree\<close>

fun ind_nodes :: "ext2_filsys \<Rightarrow> nat \<Rightarrow> u32 \<Rightarrow> u32 list" where
  "ind_nodes fs 0 b = []"
| "ind_nodes fs (Suc d) b = (if b = 0 then [] else b # concat (map (\<lambda>k. ind_nodes fs d (ind_slot fs b k)) [0..<per_block fs]))"

lemma ind_nodes_zero [simp]: "ind_nodes fs d 0 = []"
  by (cases d) simp_all

lemma distinct_concat_less:
  "distinct (concat (map f [0..<n])) \<Longrightarrow> j < k \<Longrightarrow> k < n \<Longrightarrow> set (f j) \<inter> set (f k) = {}"
proof (induction n)
  case (Suc n)
  then have d: "distinct (concat (map f [0..<n]))" "set (concat (map f [0..<n])) \<inter> set (f n) = {}" by auto
  show ?case
  proof (cases "k = n")
    case True
    then show ?thesis using d(2) Suc.prems(2) by fastforce
  qed (use Suc d(1) in simp)
qed simp

lemma distinct_concat_apart:
  assumes "distinct (concat (map f [0..<n]))" "j < n" "k < n" "j \<noteq> k" "t \<in> set (f k)"
  shows "t \<notin> set (f j)"
  using assms distinct_concat_less [OF assms(1), of j k] distinct_concat_less [OF assms(1), of k j] by (cases "j < k") auto

text \<open>A block at the end of \<open>d\<close> levels is among the indirect blocks of a tree of one level more.\<close>

lemma slot_in_nodes:
  "nr < per_block fs ^ d \<Longrightarrow> slot fs d b nr \<noteq> 0 \<Longrightarrow> slot fs d b nr \<in> set (ind_nodes fs (Suc d) b)"
proof (induction d arbitrary: b nr)
  case 0
  then show ?case by simp
next
  case (Suc d)
  let ?n = "per_block fs" and ?k = "nr div per_block fs ^ d"
  have b: "b \<noteq> 0" using Suc.prems(2) by (auto simp del: slot.simps)
  have n: "0 < ?n ^ d" using Suc.prems(1) by (cases "?n ^ d") simp_all
  have k: "?k < ?n" using Suc.prems(1) by (simp add: less_mult_imp_div_less)
  have "slot fs (Suc d) b nr \<in> set (ind_nodes fs (Suc d) (ind_slot fs b ?k))"
    using Suc.IH [of "nr mod ?n ^ d" "ind_slot fs b ?k"] Suc.prems(2) n unfolding slot_down [OF Suc.prems(1)] by simp
  then show ?case using b k by (auto simp del: slot.simps ind_nodes.simps simp: ind_nodes.simps(2) [of fs "Suc d"])
qed

text \<open>What is below fewer levels.\<close>

lemma in_nodes_iff:
  "x \<in> set (ind_nodes fs (Suc d) b) \<longleftrightarrow> b \<noteq> 0 \<and> (x = b \<or> (\<exists>k < per_block fs. x \<in> set (ind_nodes fs d (ind_slot fs b k))))"
  by auto

lemma ind_nodes_mono: "x \<in> set (ind_nodes fs d b) \<Longrightarrow> x \<in> set (ind_nodes fs (Suc d) b)"
proof (induction d arbitrary: b)
  case (Suc d)
  then show ?case unfolding in_nodes_iff [of x fs "Suc d" b] in_nodes_iff [of x fs d b] by blast
qed simp

lemma tree_ok_mono: "whole_blocks fs \<Longrightarrow> tree_ok fs (Suc d) b \<Longrightarrow> tree_ok fs d b"
proof (induction d arbitrary: b)
  case (Suc d)
  show ?case
  proof (cases "b = 0")
    case False
    then show ?thesis using Suc unfolding tree_ok_Suc [OF Suc.prems(1) False] by blast
  qed simp
qed simp

lemma nodes_readable:
  "whole_blocks fs \<Longrightarrow> tree_ok fs d b \<Longrightarrow> t \<in> set (ind_nodes fs d b) \<Longrightarrow> \<exists>buf. fs_read_blk fs (ucast t) = Some buf"
proof (induction d arbitrary: b)
  case (Suc d)
  show ?case
  proof (cases "b = 0 \<or> t = b")
    case True
    then have "t = b" "b \<noteq> 0" using Suc.prems(3) by (auto split: if_split_asm)
    then show ?thesis using Suc.prems(2) [unfolded tree_ok_Suc [OF Suc.prems(1) \<open>b \<noteq> 0\<close>]] by auto
  next
    case False
    then obtain k where "k < per_block fs" "t \<in> set (ind_nodes fs d (ind_slot fs b k))" using Suc.prems(3) by auto
    then show ?thesis using Suc.IH [OF Suc.prems(1) ind_slot_ok [OF Suc.prems(1,2)]] by blast
  qed
qed simp

text \<open>The last indirect block on the way to a number is none of those above.\<close>

lemma leaf_not_above:
  "distinct (ind_nodes fs (Suc d) b) \<Longrightarrow> nr < per_block fs ^ d \<Longrightarrow> slot fs d b nr \<noteq> 0 \<Longrightarrow> slot fs d b nr \<notin> set (ind_nodes fs d b)"
proof (induction d arbitrary: b nr)
  case (Suc d)
  let ?n = "per_block fs" and ?k = "nr div per_block fs ^ d" and ?f = "\<lambda>j. ind_nodes fs (Suc d) (ind_slot fs b j)"
  have b: "b \<noteq> 0" using Suc.prems(3) by (auto simp del: slot.simps)
  have d: "b \<notin> set (concat (map ?f [0..<?n]))" "distinct (concat (map ?f [0..<?n]))"
    using Suc.prems(1) b by (simp_all del: ind_nodes.simps add: ind_nodes.simps(2) [of fs "Suc d"])
  have k: "?k < ?n" "nr mod ?n ^ d < ?n ^ d" using Suc.prems(2) by (cases "?n ^ d"; simp add: less_mult_imp_div_less)+
  let ?t = "slot fs d (ind_slot fs b ?k) (nr mod ?n ^ d)"
  have t: "slot fs (Suc d) b nr = ?t" "?t \<noteq> 0" using Suc.prems(3) slot_down [OF Suc.prems(2)] by simp_all
  have tk: "?t \<in> set (?f ?k)" by (rule slot_in_nodes [OF k(2) t(2)])
  have dk: "distinct (?f ?k)" using d(2) k(1) by (auto simp: distinct_concat_iff simp del: ind_nodes.simps)
  have "?t \<notin> set (ind_nodes fs d (ind_slot fs b j))" if "j < ?n" for j
  proof (cases "j = ?k")
    case True
    then show ?thesis using Suc.IH [OF dk k(2) t(2)] by simp
  next
    case False
    then show ?thesis using distinct_concat_apart [OF d(2) that k(1) False tk] ind_nodes_mono by metis
  qed
  moreover have "?t \<in> set (concat (map ?f [0..<?n]))"
    by (rule subsetD [OF _ tk]) (use k(1) in \<open>auto simp del: ind_nodes.simps\<close>)
  then have "?t \<noteq> b" using d(1) by metis
  ultimately show ?case unfolding t(1) in_nodes_iff by blast
qed simp

text \<open>A tree without the changed block is as before.\<close>

lemma untouched:
  assumes w: "whole_blocks fs" and t: "fs_read_blk fs (ucast t) = Some buf" "k < per_block fs" "t \<noteq> 0"
  shows "tree_ok fs d b \<Longrightarrow> t \<notin> set (ind_nodes fs d b) \<Longrightarrow>
    tree_ok (with_slot t k v fs) d b \<and> ind_nodes (with_slot t k v fs) d b = ind_nodes fs d b \<and>
    (\<forall>nr < per_block fs ^ d. slot (with_slot t k v fs) d b nr = slot fs d b nr)"
proof (induction d arbitrary: b)
  case (Suc d)
  let ?fs = "with_slot t k v fs" and ?n = "per_block fs"
  have w': "whole_blocks ?fs" by (rule whole_with_slot [OF w t(1,2)])
  have len: "length buf = fs_blocksize fs" using w t(1) by (simp add: whole_blocks_def)
  show ?case
  proof (cases "b = 0")
    case False
    then have bt: "b \<noteq> t" using Suc.prems(2) by auto
    have s: "ind_slot ?fs b j = ind_slot fs b j" for j using ind_slot_with_slot [OF t(1) len t(2,3)] bt by simp
    have ih: "tree_ok ?fs d (ind_slot fs b j) \<and> ind_nodes ?fs d (ind_slot fs b j) = ind_nodes fs d (ind_slot fs b j) \<and>
        (\<forall>nr < ?n ^ d. slot ?fs d (ind_slot fs b j) nr = slot fs d (ind_slot fs b j) nr)" if "j < ?n" for j
      using Suc.IH [OF ind_slot_ok [OF w Suc.prems(1) that]] Suc.prems(2) False that by auto
    have "fs_read_blk ?fs (ucast b) = fs_read_blk fs (ucast b)" using bt by (simp add: with_slot_def ucast_eq_u32)
    then have "tree_ok ?fs (Suc d) b" using Suc.prems(1) ih unfolding tree_ok_Suc [OF w' False] tree_ok_Suc [OF w False] s by simp
    moreover have "ind_nodes ?fs (Suc d) b = ind_nodes fs (Suc d) b" using ih s False by (auto intro!: arg_cong [of _ _ concat])
    moreover have "slot ?fs (Suc d) b nr = slot fs (Suc d) b nr" if nr: "nr < ?n ^ Suc d" for nr
    proof -
      have "nr div ?n ^ d < ?n" "nr mod ?n ^ d < ?n ^ d" using nr by (cases "?n ^ d"; simp add: less_mult_imp_div_less)+
      then show ?thesis using ih [of "nr div ?n ^ d"] slot_down [of nr ?fs d b] slot_down [OF nr, of b] nr s by (simp del: slot.simps)
    qed
    ultimately show ?thesis by blast
  qed (simp del: slot.simps)
qed simp

text \<open>In the tree of the changed block exactly the one number changes.\<close>

definition slot_set :: "ext2_filsys \<Rightarrow> ext2_filsys \<Rightarrow> nat \<Rightarrow> u32 \<Rightarrow> nat \<Rightarrow> u32 \<Rightarrow> bool" where
  "slot_set fs fs' d b nr v \<longleftrightarrow> tree_ok fs' d b \<and> ind_nodes fs' d b = ind_nodes fs d b \<and>
     (\<forall>m < per_block fs ^ d. slot fs' d b m = (if m = nr then v else slot fs d b m))"

lemma touched:
  assumes w: "whole_blocks fs" and t: "fs_read_blk fs (ucast t) = Some buf" "t \<noteq> 0"
  shows "tree_ok fs (Suc d) b \<Longrightarrow> distinct (ind_nodes fs (Suc d) b) \<Longrightarrow> nr < per_block fs ^ Suc d \<Longrightarrow> slot fs d b (nr div per_block fs) = t \<Longrightarrow>
    slot_set fs (with_slot t (nr mod per_block fs) v fs) (Suc d) b nr v"
proof (induction d arbitrary: b nr)
  case 0
  let ?n = "per_block fs" and ?fs = "with_slot t (nr mod per_block fs) v fs"
  have n: "nr < ?n" "b = t" "b \<noteq> 0" using 0 t(2) by simp_all
  have len: "length buf = fs_blocksize fs" using w t(1) by (simp add: whole_blocks_def)
  have w': "whole_blocks ?fs" using whole_with_slot [OF w t(1), of nr v] n by simp
  have "tree_ok ?fs (Suc 0) b" using 0(1) [unfolded tree_ok_Suc [OF w n(3)]] n t(1) unfolding tree_ok_Suc [OF w' n(3)] by (simp add: with_slot_def)
  then show ?case using n t len ind_slot_with_slot [OF t(1) len, of nr v] by (auto simp: slot_set_def)
next
  case (Suc d)
  let ?n = "per_block fs" and ?fs = "with_slot t (nr mod per_block fs) v fs" and ?k = "nr div per_block fs ^ Suc d"
  let ?c = "ind_slot fs b ?k" and ?f = "\<lambda>j. ind_nodes fs (Suc d) (ind_slot fs b j)"
  have n: "0 < ?n" by (rule per_block_pos [OF w])
  have lt: "nr div ?n < ?n ^ Suc d" "?k < ?n" "nr mod ?n ^ Suc d < ?n ^ Suc d"
    using Suc.prems(3) n by (simp_all add: less_mult_imp_div_less mult.commute)
  have m: "nr mod ?n ^ Suc d = ?n * (nr div ?n mod ?n ^ d) + nr mod ?n" by (simp add: mod_mult2_eq)
  have b: "b \<noteq> 0" using Suc.prems(4) t(2) by (auto simp del: slot.simps)
  have d: "b \<notin> set (concat (map ?f [0..<?n]))" "distinct (concat (map ?f [0..<?n]))" using Suc.prems(2) b by (simp_all del: ind_nodes.simps add: ind_nodes.simps(2) [of fs "Suc d"])
  have s: "slot fs d ?c ((nr mod ?n ^ Suc d) div ?n) = t"
    using Suc.prems(4) slot_down [OF lt(1), of b] n unfolding m by (simp add: div_mult2_eq)
  have in_k: "t \<in> set (?f ?k)"
    using slot_in_nodes [of "(nr mod ?n ^ Suc d) div ?n" fs d ?c] s t(2) lt(3) n by (simp add: less_mult_imp_div_less mult.commute)
  then have other: "t \<notin> set (?f j)" if "j < ?n" "j \<noteq> ?k" for j
    using distinct_concat_apart [OF d(2) that(1) lt(2) that(2)] by simp
  have dc: "distinct (?f ?k)" using d(2) lt(2) by (auto simp: distinct_concat_iff simp del: ind_nodes.simps)
  have len: "length buf = fs_blocksize fs" using w t(1) by (simp add: whole_blocks_def)
  have km: "nr mod ?n < ?n" using n by simp
  have "set (?f ?k) \<subseteq> set (concat (map ?f [0..<?n]))" using lt(2) by (auto simp del: ind_nodes.simps)
  then have bt: "b \<noteq> t" using d(1) in_k by blast
  have x: "ind_slot ?fs b j = ind_slot fs b j" for j using ind_slot_with_slot [OF t(1) len km t(2)] bt by simp
  have c: "slot_set fs ?fs (Suc d) ?c (nr mod ?n ^ Suc d) v"
    using Suc.IH [OF ind_slot_ok [OF w Suc.prems(1) lt(2)] _ lt(3) s] dc by (simp add: mod_mod_cancel del: ind_nodes.simps)
  have o: "slot_set fs ?fs (Suc d) (ind_slot fs b j) (?n ^ Suc d) v" if "j < ?n" "j \<noteq> ?k" for j
    using untouched [OF w t(1) km t(2) ind_slot_ok [OF w Suc.prems(1) that(1)] other [OF that], of v] unfolding slot_set_def by auto
  have all: "tree_ok ?fs (Suc d) (ind_slot fs b j) \<and> ind_nodes ?fs (Suc d) (ind_slot fs b j) = ind_nodes fs (Suc d) (ind_slot fs b j)" if "j < ?n" for j
    using c o [OF that] unfolding slot_set_def by (cases "j = ?k") blast+
  have w': "whole_blocks ?fs" by (rule whole_with_slot [OF w t(1) km])
  have "fs_read_blk ?fs (ucast b) = fs_read_blk fs (ucast b)" using bt by (simp add: with_slot_def ucast_eq_u32)
  then have "tree_ok ?fs (Suc (Suc d)) b"
    using Suc.prems(1) [unfolded tree_ok_Suc [OF w b]] all unfolding tree_ok_Suc [OF w' b] x by simp
  moreover have "ind_nodes ?fs (Suc (Suc d)) b = ind_nodes fs (Suc (Suc d)) b"
    using all x b unfolding ind_nodes.simps(2) [of _ "Suc d"] by (auto intro!: arg_cong [of _ _ concat])
  moreover have "slot ?fs (Suc (Suc d)) b m = (if m = nr then v else slot fs (Suc (Suc d)) b m)" if mn: "m < ?n ^ Suc (Suc d)" for m
  proof -
    let ?j = "m div ?n ^ Suc d" and ?r = "m mod ?n ^ Suc d"
    have jr: "?j < ?n" "?r < ?n ^ Suc d" using mn n by (simp_all add: less_mult_imp_div_less)
    have "slot ?fs (Suc (Suc d)) b m = slot ?fs (Suc d) (ind_slot fs b ?j) ?r" using slot_down [of m ?fs "Suc d" b] mn x by simp
    also have "\<dots> = (if ?j = ?k \<and> ?r = nr mod ?n ^ Suc d then v else slot fs (Suc d) (ind_slot fs b ?j) ?r)"
      using c o [OF jr(1)] jr(2) unfolding slot_set_def by (cases "?j = ?k") auto
    also have "?j = ?k \<and> ?r = nr mod ?n ^ Suc d \<longleftrightarrow> m = nr" by (metis div_mult_mod_eq)
    finally show ?thesis unfolding slot_down [OF mn] .
  qed
  ultimately show ?case unfolding slot_set_def by simp
qed

section \<open>The whole mapping of an inode\<close>

definition inode_nodes :: "ext2_filsys \<Rightarrow> u32 list \<Rightarrow> u32 list" where
  "inode_nodes fs ws = concat (map (\<lambda>k. ind_nodes fs (top_depth k) (ws ! k)) [0..<15])"

text \<open>Every block of the file has its place: one of the fifteen numbers and an offset below it.\<close>

definition place :: "ext2_filsys \<Rightarrow> nat \<Rightarrow> nat \<Rightarrow> nat \<Rightarrow> bool" where
  "place fs b k nr \<longleftrightarrow> k < 15 \<and> nr < per_block fs ^ top_depth k \<and> b = top_base (per_block fs) k + nr"

lemma place_exists:
  assumes "b < 12 + per_block fs + per_block fs ^ 2 + per_block fs ^ 3"
  obtains k nr where "place fs b k nr"
  using assms
proof (cases rule: block_cases)
  case direct
  then show ?thesis using that [of b 0] by (simp add: place_def top_base_def top_depth_def)
next
  case (ind nr)
  then show ?thesis using that [of 12 nr] by (simp add: place_def top_base_def top_depth_def)
next
  case (dind nr)
  then show ?thesis using that [of 13 nr] by (simp add: place_def top_base_def top_depth_def)
next
  case (tind nr)
  then show ?thesis using that [of 14 nr] by (simp add: place_def top_base_def top_depth_def power2_eq_square)
qed

lemma place_unique:
  assumes "place fs b k nr" "place fs b j m"
  shows "j = k \<and> m = nr"
proof (rule ccontr)
  assume "\<not> (j = k \<and> m = nr)"
  then have "j \<noteq> k" using assms by (auto simp: place_def)
  then show False using assms top_mono [of j k "per_block fs"] top_mono [of k j "per_block fs"] by (cases "j < k") (auto simp: place_def)
qed

text \<open>The mapping of \<open>fs'\<close> and \<open>ws'\<close> is that of \<open>fs\<close> and \<open>ws\<close> with the number at one place set to \<open>v\<close>.\<close>

definition place_set :: "ext2_filsys \<Rightarrow> u32 list \<Rightarrow> ext2_filsys \<Rightarrow> u32 list \<Rightarrow> nat \<Rightarrow> nat \<Rightarrow> u32 \<Rightarrow> bool" where
  "place_set fs ws fs' ws' k nr v \<longleftrightarrow> fs_blocksize fs' = fs_blocksize fs \<and> whole_blocks fs' \<and> mapped_ok fs' ws' \<and> inode_nodes fs' ws' = inode_nodes fs ws \<and>
     (\<forall>j < 15. \<forall>m < per_block fs ^ top_depth j.
        slot fs' (top_depth j) (ws' ! j) m = (if j = k \<and> m = nr then v else slot fs (top_depth j) (ws ! j) m)) \<and>
     (\<forall>j < 15. \<forall>e. top_depth j = Suc e \<longrightarrow> (\<forall>m < per_block fs ^ e. slot fs' e (ws' ! j) m = slot fs e (ws ! j) m))"

lemma place_set_phys:
  assumes s: "place_set fs ws fs' ws' k nr v" and w: "whole_blocks fs" "mapped_ok fs ws" and b: "place fs (unat blk) k nr"
    and b': "unat blk' < 12 + per_block fs + per_block fs ^ 2 + per_block fs ^ 3"
  shows "phys_of (file_map fs' ws') blk' = (if blk' = blk then ucast v else phys_of (file_map fs ws) blk')"
proof -
  obtain j m where jm: "place fs (unat blk') j m" by (rule place_exists [OF b'])
  have p: "j < 15" "m < per_block fs ^ top_depth j" "unat blk' = top_base (per_block fs) j + m" using jm by (simp_all add: place_def)
  have n: "per_block fs' = per_block fs" "whole_blocks fs'" "mapped_ok fs' ws'" using s by (simp_all add: place_set_def)
  have "phys_of (file_map fs' ws') blk' = ucast (slot fs' (top_depth j) (ws' ! j) m)"
    using phys_of_file_map [OF n(2,3) p(1), of m blk'] p(2,3) n(1) by simp
  moreover have "phys_of (file_map fs ws) blk' = ucast (slot fs (top_depth j) (ws ! j) m)" by (rule phys_of_file_map [OF w p])
  moreover have "blk' = blk \<longleftrightarrow> j = k \<and> m = nr"
    using place_unique [OF b, of j m] jm b by (auto simp: place_def word_unat_eq_iff)
  ultimately show ?thesis using s p(1,2) unfolding place_set_def by simp
qed

lemma mapped_ok_iff: "mapped_ok fs ws \<longleftrightarrow> length ws = 15 \<and> (\<forall>k < 15. tree_ok fs (top_depth k) (ws ! k))"
proof
  assume r: "length ws = 15 \<and> (\<forall>k < 15. tree_ok fs (top_depth k) (ws ! k))"
  then have "tree_ok fs (top_depth 12) (ws ! 12)" "tree_ok fs (top_depth 13) (ws ! 13)" "tree_ok fs (top_depth 14) (ws ! 14)" by simp_all
  then show "mapped_ok fs ws" using r by (simp add: mapped_ok_def top_depth_def numeral_2_eq_2 numeral_3_eq_3)
qed (auto simp: mapped_ok_top mapped_ok_def)

lemma place_set_direct:
  assumes "whole_blocks fs" "mapped_ok fs ws" "k < 12"
  shows "place_set fs ws fs (ws[k := v]) k 0 v"
proof -
  have len: "length ws = 15" using assms(2) by (simp add: mapped_ok_def)
  have "ind_nodes fs (top_depth j) (ws[k := v] ! j) = ind_nodes fs (top_depth j) (ws ! j)" for j
    using assms(3) by (cases "j = k") (simp_all add: top_depth_def)
  moreover have "mapped_ok fs (ws[k := v])" using assms(2,3) by (simp add: mapped_ok_def)
  moreover have "slot fs (top_depth j) (ws[k := v] ! j) m = (if j = k \<and> m = 0 then v else slot fs (top_depth j) (ws ! j) m)"
    if "j < 15" "m < per_block fs ^ top_depth j" for j m using that assms(3) len by (auto simp: nth_list_update top_depth_def)
  moreover have "ws[k := v] ! j = ws ! j" if "top_depth j = Suc e" for j e using that assms(3) by (cases "j = k") (simp_all add: top_depth_def)
  ultimately show ?thesis using assms(1) by (simp add: place_set_def inode_nodes_def)
qed

lemma place_set_indirect:
  assumes w: "whole_blocks fs" and ok: "mapped_ok fs ws" and d: "distinct (inode_nodes fs ws)"
    and k: "k < 15" "top_depth k = Suc e" "nr < per_block fs ^ Suc e" and t: "t = slot fs e (ws ! k) (nr div per_block fs)" "t \<noteq> 0"
  shows "place_set fs ws (with_slot t (nr mod per_block fs) v fs) ws k nr v" "\<exists>buf. fs_read_blk fs (ucast t) = Some buf"
proof -
  let ?n = "per_block fs" and ?fs = "with_slot t (nr mod per_block fs) v fs" and ?f = "\<lambda>j. ind_nodes fs (top_depth j) (ws ! j)"
  have n: "0 < ?n" by (rule per_block_pos [OF w])
  have km: "nr mod ?n < ?n" using n by simp
  have nd: "nr div ?n < ?n ^ e" using k(3) by (simp add: less_mult_imp_div_less mult.commute)
  then have tk: "t \<in> set (?f k)" using slot_in_nodes [of "nr div ?n" fs e "ws ! k"] t k(2) by simp
  show "\<exists>buf. fs_read_blk fs (ucast t) = Some buf" by (rule nodes_readable [OF w mapped_ok_top [OF ok k(1)] tk])
  then obtain buf where buf: "fs_read_blk fs (ucast t) = Some buf" by blast
  have dk: "distinct (?f k)" using d k(1) by (auto simp: inode_nodes_def distinct_concat_iff)
  have c: "slot_set fs ?fs (top_depth k) (ws ! k) nr v"
    unfolding k(2) using touched [OF w buf t(2), of e "ws ! k" nr v] mapped_ok_top [OF ok k(1)] dk k(2,3) t(1) by simp
  have o: "tree_ok ?fs (top_depth j) (ws ! j) \<and> ind_nodes ?fs (top_depth j) (ws ! j) = ?f j \<and>
      (\<forall>m < ?n ^ top_depth j. slot ?fs (top_depth j) (ws ! j) m = slot fs (top_depth j) (ws ! j) m)" if "j < 15" "j \<noteq> k" for j
    using untouched [OF w buf km t(2) mapped_ok_top [OF ok that(1)], of v] distinct_concat_apart [OF d [unfolded inode_nodes_def] that(1) k(1) that(2) tk] by simp
  have "tree_ok ?fs (top_depth j) (ws ! j) \<and> ind_nodes ?fs (top_depth j) (ws ! j) = ?f j" if "j < 15" for j
    using o [OF that] c unfolding slot_set_def by (cases "j = k") auto
  then have "mapped_ok ?fs ws" "inode_nodes ?fs ws = inode_nodes fs ws"
    using ok by (auto simp: mapped_ok_iff inode_nodes_def intro!: arg_cong [of _ _ concat])
  moreover have "slot ?fs (top_depth j) (ws ! j) m = (if j = k \<and> m = nr then v else slot fs (top_depth j) (ws ! j) m)"
    if "j < 15" "m < ?n ^ top_depth j" for j m
    using that o [OF that(1)] c unfolding slot_set_def by (cases "j = k") auto
  moreover have "slot ?fs i (ws ! j) m = slot fs i (ws ! j) m" if j: "j < 15" "top_depth j = Suc i" "m < ?n ^ i" for j i m
  proof -
    have "t \<notin> set (ind_nodes fs i (ws ! j))"
    proof (cases "j = k")
      case True
      then show ?thesis using leaf_not_above [of fs e "ws ! k" "nr div ?n"] dk k(2) j(2) t nd by simp
    next
      case False
      then show ?thesis using distinct_concat_apart [OF d [unfolded inode_nodes_def] j(1) k(1) False tk] ind_nodes_mono [of t fs i "ws ! j"] j(2) by auto
    qed
    then show ?thesis using untouched [OF w buf km t(2) tree_ok_mono [OF w]] mapped_ok_top [OF ok j(1)] j(2,3) by simp
  qed
  ultimately show "place_set fs ws ?fs ws k nr v" using whole_with_slot [OF w buf km] unfolding place_set_def by simp
qed

section \<open>The code\<close>

definition set_flags :: "u32 \<Rightarrow> bool" where
  "set_flags flags \<longleftrightarrow> has flags BMAP_SET \<and> \<not> has flags BMAP_ALLOC \<and> \<not> has flags BMAP_ZERO"

lemma block_ind_bmap_set:
  assumes "whole_blocks fs" "fs_read_blk fs (ucast t) = Some buf" "k < per_block fs" "t \<noteq> 0" "fs_write_blk fs (ucast t)" "has flags BMAP_SET"
  shows "block_ind_bmap fs flags t k v = Inr (None, v, with_slot t k v fs)"
proof -
  have "length buf = fs_blocksize fs" using assms(1,2) by (simp add: whole_blocks_def)
  then have "4 * k + 4 \<le> length buf" using assms(3) by linarith
  then show ?thesis using assms by (simp add: block_ind_bmap_def with_slot_def)
qed

lemma mapped_bmap_set_indirect:
  assumes w: "whole_blocks fs" and ok: "mapped_ok fs ws" "distinct (inode_nodes fs ws)" and p: "place fs (unat blk) k nr"
    and e: "top_depth k = Suc e" "slot fs e (ws ! k) (nr div per_block fs) = t" "t \<noteq> 0"
    and nd: "ws = words_of (i_block nd)" and fl: "set_flags flags" and wr: "fs_write_blk fs (ucast t)"
  shows "mapped_bmap fs nd flags (unat blk) phys = Inr (None, ucast (ucast phys :: u32), nd, False, with_slot t (nr mod per_block fs) (ucast phys) fs)"
proof -
  let ?n = "per_block fs" and ?v = "ucast phys :: u32"
  have kn: "k < 15" "nr < ?n ^ Suc e" "unat blk = top_base ?n k + nr" using p e(1) by (simp_all add: place_def)
  obtain buf where buf: "fs_read_blk fs (ucast t) = Some buf" using place_set_indirect(2) [OF w ok kn(1) e(1) kn(2) e(2) [symmetric] e(3)] by blast
  have n: "0 < ?n" by (rule per_block_pos [OF w])
  have f: "has flags BMAP_SET" "\<not> has flags BMAP_ALLOC" using fl by (simp_all add: set_flags_def)
  note set = block_ind_bmap_set [OF w buf _ e(3) wr f(1)]
  have len: "length (i_block nd) div 4 = 15" using ok(1) nd by (simp add: mapped_ok_def length_words_of)
  have b: "inode_bmap nd k = ws ! k" using kn(1) len nd by (simp add: inode_bmap_def words_of_nth)
  have b0: "ws ! k \<noteq> 0" using e(2,3) by auto
  have ok': "tree_ok fs (Suc e) (ws ! k)" using mapped_ok_top [OF ok(1) kn(1)] e(1) by simp
  have "k = 12 \<and> e = 0 \<or> k = 13 \<and> e = 1 \<or> k = 14 \<and> e = 2" using kn(1) e(1) by (auto simp: top_depth_def split: if_split_asm)
  then consider "k = 12" "e = 0" | "k = 13" "e = Suc 0" | "k = 14" "e = Suc (Suc 0)" by (auto simp: numeral_2_eq_2)
  then show ?thesis
  proof cases
    case 1
    then show ?thesis using kn b b0 f set [of nr ?v] e(2)
      by (simp add: mapped_bmap_def Let_def EXT2_NDIR_BLOCKS_def EXT2_IND_BLOCK_def top_base_def)
  next
    case 2
    have d: "nr div ?n < ?n" using kn(2) 2 by (simp add: less_mult_imp_div_less)
    have "block_ind_bmap fs (flags AND NOT BMAP_SET) (ws ! 13) (nr div ?n) 0 = Inr (None, t, fs)"
      using block_ind_bmap_slot [OF w ok' _ has_clear(1) has_clear(2) [OF f(2)], of "nr div ?n"] d e(2) 2 by simp
    then have "block_dind_bmap fs flags (ws ! 13) nr ?v = Inr (None, ?v, with_slot t (nr mod ?n) ?v fs)"
      using set [of "nr mod ?n" ?v] n by (simp add: block_dind_bmap_def)
    then show ?thesis using kn b b0 2 f by (simp add: mapped_bmap_def Let_def EXT2_NDIR_BLOCKS_def EXT2_DIND_BLOCK_def top_base_def)
  next
    case 3
    have d: "nr div ?n < ?n ^ 2" using kn(2) 3 by (simp add: power2_eq_square less_mult_imp_div_less)
    have "block_dind_bmap fs (flags AND NOT BMAP_SET) (ws ! 14) (nr div ?n) 0 = Inr (None, t, fs)"
      using block_dind_bmap_slot(1) [OF w _ d has_clear(1) has_clear(2) [OF f(2)], of "Suc 0" "ws ! 14" 0] ok' e(2) 3 by (simp only: numeral_2_eq_2)
    then have "block_tind_bmap fs flags (ws ! 14) nr ?v = Inr (None, ?v, with_slot t (nr mod ?n) ?v fs)"
      using set [of "nr mod ?n" ?v] n by (simp add: block_tind_bmap_def)
    then show ?thesis using kn b b0 3 f by (simp add: mapped_bmap_def Let_def EXT2_NDIR_BLOCKS_def EXT2_TIND_BLOCK_def top_base_def)
  qed
qed

lemma mapped_bmap_set_direct:
  assumes "place fs (unat blk) k nr" "top_depth k = 0" "set_flags flags"
  shows "mapped_bmap fs nd flags (unat blk) phys = Inr (None, phys, set_inode_bmap k (ucast phys) nd, True, fs)" "k < 12" "nr = 0"
proof -
  show k: "k < 12" using assms(1,2) by (auto simp: place_def top_depth_def split: if_split_asm)
  show n: "nr = 0" using assms(1,2) by (simp add: place_def)
  show "mapped_bmap fs nd flags (unat blk) phys = Inr (None, phys, set_inode_bmap k (ucast phys) nd, True, fs)"
    using assms k n by (simp add: mapped_bmap_def place_def top_base_def EXT2_NDIR_BLOCKS_def set_flags_def)
qed

text \<open>The inodes the file system returns do not matter for the mapping.\<close>

lemma read_inode_irrelevant [simp]:
  "slot (fs\<lparr>fs_read_inode := g\<rparr>) d b nr = slot fs d b nr" "tree_ok (fs\<lparr>fs_read_inode := g\<rparr>) d b = tree_ok fs d b"
  "ind_nodes (fs\<lparr>fs_read_inode := g\<rparr>) d b = ind_nodes fs d b"
proof -
  have s: "ind_slot (fs\<lparr>fs_read_inode := g\<rparr>) b nr = ind_slot fs b nr" for b nr by (simp add: ind_slot_def)
  show "slot (fs\<lparr>fs_read_inode := g\<rparr>) d b nr = slot fs d b nr" by (induction d arbitrary: nr) (simp_all add: s)
  show "tree_ok (fs\<lparr>fs_read_inode := g\<rparr>) d b = tree_ok fs d b"
  proof (induction d arbitrary: b)
    case (Suc d)
    have "tree_ok (fs\<lparr>fs_read_inode := g\<rparr>) d = tree_ok fs d" using Suc by blast
    then show ?case by (simp add: ext2fs_read_ind_block_def fs_image_file_def split: option.split)
  qed simp
  show "ind_nodes (fs\<lparr>fs_read_inode := g\<rparr>) d b = ind_nodes fs d b" by (induction d arbitrary: b) (simp_all add: s)
qed

lemma place_set_read_inode: "place_set fs ws fs' ws' k nr v \<Longrightarrow> place_set fs ws (fs'\<lparr>fs_read_inode := g\<rparr>) ws' k nr v"
  by (simp add: place_set_def whole_blocks_def fs_image_file_def mapped_ok_iff inode_nodes_def del: tree_ok.simps slot.simps ind_nodes.simps)

section \<open>The inode as an array of block numbers\<close>

text \<open>The state is the file system with the inode; a lookup and a setting of a block.\<close>

definition bmap_get :: "u32 \<Rightarrow> ext2_filsys \<times> ext2_inode \<Rightarrow> u64 \<Rightarrow> unit \<Rightarrow> (errcode_t \<times> u64 \<times> ext2_filsys \<times> ext2_inode) res" where
  "bmap_get ino s blk u = and_then (ext2fs_bmap2 0 (fst s) ino (Some (snd s)) 0 blk 0) (\<lambda>(e, phys, rf, i, fs). Inr (e, phys, fs, the i))"

definition bmap_set :: "u32 \<Rightarrow> ext2_filsys \<times> ext2_inode \<Rightarrow> u64 \<Rightarrow> u64 \<Rightarrow> (errcode_t \<times> ext2_filsys \<times> ext2_inode) res" where
  "bmap_set ino s blk p = and_then (ext2fs_bmap2 0 (fst s) ino (Some (snd s)) BMAP_SET blk p) (\<lambda>(e, phys, rf, i, fs). Inr (e, fs, the i))"

definition block_mapped :: "ext2_inode \<Rightarrow> bool" where
  "block_mapped nd \<longleftrightarrow> i_flags nd AND EXT4_EXTENTS_FL = 0 \<and> i_flags nd AND EXT4_INLINE_DATA_FL = 0 \<and> length (i_block nd) = 60"

definition maps_blocks :: "ext2_filsys \<times> ext2_inode \<Rightarrow> (u64 \<Rightarrow> u64) \<Rightarrow> bool" where
  "maps_blocks s A \<longleftrightarrow> (case s of (fs, nd) \<Rightarrow>
     block_mapped nd \<and> whole_blocks fs \<and> mapped_ok fs (words_of (i_block nd)) \<and> distinct (inode_nodes fs (words_of (i_block nd))) \<and>
     (\<forall>b. fs_write_blk fs b) \<and> (\<forall>i. fs_write_inode fs i = None) \<and>
     (\<forall>blk. \<not> ext2fs_file_block_offset_too_big fs nd blk \<longrightarrow> A blk = phys_of (file_map fs (words_of (i_block nd))) blk))"

text \<open>A block that can be set: it is in range and the indirect blocks on the way to it are there.\<close>

definition settable :: "ext2_filsys \<times> ext2_inode \<Rightarrow> u64 \<Rightarrow> bool" where
  "settable s blk \<longleftrightarrow> (case s of (fs, nd) \<Rightarrow>
     \<not> ext2fs_file_block_offset_too_big fs nd blk \<and>
     (\<forall>k nr e. place fs (unat blk) k nr \<and> top_depth k = Suc e \<longrightarrow> slot fs e (words_of (i_block nd) ! k) (nr div per_block fs) \<noteq> 0))"

lemma too_big_cong:
  "fs_blocksize fs' = fs_blocksize fs \<Longrightarrow> i_flags nd' = i_flags nd \<Longrightarrow> ext2fs_file_block_offset_too_big fs' nd' = ext2fs_file_block_offset_too_big fs nd"
  by (simp add: ext2fs_file_block_offset_too_big_def fun_eq_iff)

text \<open>A changed place is all that changes.\<close>

lemma maps_blocks_set:
  assumes m: "maps_blocks (fs, nd) A" and p: "place fs (unat blk) k nr" and s: "place_set fs (words_of (i_block nd)) fs' (words_of (i_block nd')) k nr v"
    and nd': "block_mapped nd'" "i_flags nd' = i_flags nd" and wr: "fs_write_blk fs' = fs_write_blk fs" "fs_write_inode fs' = fs_write_inode fs"
  shows "maps_blocks (fs', nd') (A(blk := ucast v))" "settable (fs', nd') = settable (fs, nd)"
proof -
  let ?ws = "words_of (i_block nd)" and ?ws' = "words_of (i_block nd')"
  have f: "whole_blocks fs" "mapped_ok fs ?ws" "distinct (inode_nodes fs ?ws)" "block_mapped nd" using m by (simp_all add: maps_blocks_def)
  have n: "fs_blocksize fs' = fs_blocksize fs" "whole_blocks fs'" "mapped_ok fs' ?ws'" "inode_nodes fs' ?ws' = inode_nodes fs ?ws"
    using s by (simp_all add: place_set_def)
  have big: "ext2fs_file_block_offset_too_big fs' nd' = ext2fs_file_block_offset_too_big fs nd" by (rule too_big_cong [OF n(1) nd'(2)])
  have "(A(blk := ucast v)) b = phys_of (file_map fs' ?ws') b" if b: "\<not> ext2fs_file_block_offset_too_big fs nd b" for b
  proof -
    have "unat b < 12 + per_block fs + per_block fs ^ 2 + per_block fs ^ 3"
      by (rule in_range_of_mapped [OF b]) (use f(4) in \<open>simp add: block_mapped_def\<close>)
    from place_set_phys [OF s f(1,2) p this] show ?thesis using m b by (simp add: maps_blocks_def)
  qed
  then show "maps_blocks (fs', nd') (A(blk := ucast v))" using m n nd'(1) wr f(3) by (auto simp: maps_blocks_def big)
  have eq: "slot fs' e (?ws' ! j) (i div per_block fs) = slot fs e (?ws ! j) (i div per_block fs)" if "place fs b j i" "top_depth j = Suc e" for b j i e
  proof -
    have "i div per_block fs < per_block fs ^ e" using that by (simp add: place_def less_mult_imp_div_less mult.commute)
    then show ?thesis using s that by (auto simp: place_set_def place_def)
  qed
  have pl: "place fs' = place fs" using n(1) by (simp add: place_def fun_eq_iff)
  show "settable (fs', nd') = settable (fs, nd)"
  proof
    show "settable (fs', nd') b = settable (fs, nd) b" for b
      unfolding settable_def prod.case big pl n(1) using eq [of "unat b"] by metis
  qed
qed

lemma bmap_set_step:
  assumes m: "maps_blocks (fs, nd) A" and v: "settable (fs, nd) blk"
  shows "\<exists>s'. bmap_set ino (fs, nd) blk p = Inr (None, s') \<and> maps_blocks s' (A(blk := ucast (ucast p :: u32))) \<and> settable s' = settable (fs, nd)"
proof -
  let ?ws = "words_of (i_block nd)" and ?v = "ucast p :: u32"
  have f: "whole_blocks fs" "mapped_ok fs ?ws" "distinct (inode_nodes fs ?ws)" "block_mapped nd" "\<forall>b. fs_write_blk fs b" "\<forall>i. fs_write_inode fs i = None"
    using m by (simp_all add: maps_blocks_def)
  have big: "\<not> ext2fs_file_block_offset_too_big fs nd blk" using v by (simp add: settable_def)
  have fl: "set_flags BMAP_SET" by (simp add: set_flags_def has_def BMAP_SET_def BMAP_ALLOC_def BMAP_ZERO_def)
  have nd: "i_flags nd AND EXT4_EXTENTS_FL = 0" "i_flags nd AND EXT4_INLINE_DATA_FL = 0" "length (i_block nd) = 60" using f(4) by (simp_all add: block_mapped_def)
  obtain k nr where p: "place fs (unat blk) k nr" by (rule place_exists [OF in_range_of_mapped [OF big nd(1)]])
  show ?thesis
  proof (cases "top_depth k")
    case 0
    note d = mapped_bmap_set_direct [OF p 0 fl]
    let ?nd = "set_inode_bmap k ?v nd"
    let ?fs = "fs\<lparr>fs_read_inode := (fs_read_inode fs)(ino := Inr ?nd)\<rparr>"
    have r: "bmap_set ino (fs, nd) blk p = Inr (None, ?fs, ?nd)"
      using d(1) nd big f(6) fl by (simp add: bmap_set_def ext2fs_bmap2_def set_flags_def)
    have ws: "words_of (i_block ?nd) = ?ws[k := ?v]" using words_of_put [of k "i_block nd" ?v] nd(3) d(2) by (simp add: set_inode_bmap_def)
    have "place_set fs ?ws ?fs (words_of (i_block ?nd)) k nr ?v"
      unfolding ws d(3) by (rule place_set_read_inode [OF place_set_direct [OF f(1,2) d(2)]])
    moreover have "block_mapped ?nd" "i_flags ?nd = i_flags nd" using nd d(2) by (simp_all add: block_mapped_def set_inode_bmap_def)
    ultimately show ?thesis using maps_blocks_set [OF m p, of ?fs ?nd ?v] r by simp
  next
    case (Suc e)
    let ?t = "slot fs e (?ws ! k) (nr div per_block fs)"
    let ?fs = "with_slot ?t (nr mod per_block fs) ?v fs"
    have t: "?t \<noteq> 0" using v p Suc by (auto simp: settable_def)
    have kn: "k < 15" "nr < per_block fs ^ Suc e" using p Suc by (simp_all add: place_def)
    have r: "bmap_set ino (fs, nd) blk p = Inr (None, ?fs, nd)"
      using mapped_bmap_set_indirect [OF f(1-3) p Suc refl t refl fl, of p] nd big f(5) fl by (simp add: bmap_set_def ext2fs_bmap2_def set_flags_def)
    have "place_set fs ?ws ?fs ?ws k nr ?v" by (rule place_set_indirect(1) [OF f(1-3) kn(1) Suc kn(2) refl t])
    then show ?thesis using maps_blocks_set [OF m p, of ?fs nd ?v] r f(4) by simp
  qed
qed

lemma bmap_get_step:
  assumes m: "maps_blocks (fs, nd) A" and v: "settable (fs, nd) blk"
  shows "bmap_get ino (fs, nd) blk u = Inr (None, A blk, fs, nd)"
proof -
  have f: "whole_blocks fs" "mapped_ok fs (words_of (i_block nd))" "block_mapped nd" using m by (simp_all add: maps_blocks_def)
  have big: "\<not> ext2fs_file_block_offset_too_big fs nd blk" using v by (simp add: settable_def)
  have nd: "i_flags nd AND EXT4_EXTENTS_FL = 0" "i_flags nd AND EXT4_INLINE_DATA_FL = 0" using f(3) by (simp_all add: block_mapped_def)
  have fl: "lookup_flags 0" by (simp add: lookup_flags_def)
  have "mapped_bmap fs nd 0 (unat blk) 0 = Inr (None, A blk, nd, False, fs)"
    using mapped_bmap_lookup [OF f(1,2) refl fl in_range_of_mapped [OF big nd(1)]] m big by (simp add: maps_blocks_def)
  then show ?thesis using nd big by (simp add: bmap_get_def ext2fs_bmap2_def)
qed

interpretation inode_blocks: array_store "bmap_get ino" "bmap_set ino" maps_blocks settable "\<lambda>_ v (u :: unit). v" "\<lambda>_ _ p. ucast (ucast p :: u32)" for ino
proof
  fix s A blk and u :: unit
  assume "maps_blocks s A" "settable s blk"
  then show "\<exists>s'. bmap_get ino s blk u = Inr (None, A blk, s') \<and> maps_blocks s' A \<and> settable s' = settable s \<and>
      (\<lambda>v (u :: unit). v :: u64) = (\<lambda>v u. v) \<and> (\<lambda>_ p. ucast (ucast p :: u32)) = (\<lambda>(_ :: u64) (p :: u64). ucast (ucast p :: u32) :: u64)"
    using bmap_get_step [of "fst s" "snd s" A blk ino u] by (intro exI [of _ s]) simp
next
  fix s A blk and p :: u64
  assume "maps_blocks s A" "settable s blk"
  then show "\<exists>s'. bmap_set ino s blk p = Inr (None, s') \<and> maps_blocks s' (A(blk := ucast (ucast p :: u32))) \<and> settable s' = settable s \<and>
      (\<lambda>v (u :: unit). v :: u64) = (\<lambda>v u. v) \<and> (\<lambda>_ p. ucast (ucast p :: u32)) = (\<lambda>(_ :: u64) (p :: u64). ucast (ucast p :: u32) :: u64)"
    using bmap_set_step [of "fst s" "snd s" A blk ino p] by simp
qed

section \<open>Property\<close>

text \<open>
  C8: for an inode without extents on a file system that can be written, whose indirect blocks are readable and none of
  which is referred to twice, any sequence of lookups and settings of blocks with \<open>ext2fs_bmap2\<close> behaves as on an array of
  block numbers of 32 bits: every operation succeeds, a lookup returns what was last set, and what is
  stored at the end in the inode and its indirect blocks is the array.
\<close>

theorem bmap_ops_refine_array:
  assumes "maps_blocks s A" "list_all (\<lambda>op. settable s (op_key op)) ops"
  shows "\<exists>s'. run_store (bmap_get ino) (bmap_set ino) s ops = Inr (fst (run_array (\<lambda>v u. v) (\<lambda>v p. ucast (ucast p :: u32)) A ops), s') \<and>
    maps_blocks s' (snd (run_array (\<lambda>v u. v) (\<lambda>v p. ucast (ucast p :: u32)) A ops))"
  by (rule inode_blocks.run_refines [OF assms])

text \<open>The inode with block 7 at the front and one indirect block, 9, on a file system that can be written.\<close>

definition flat_rw :: ext2_filsys where
  "flat_rw = flat_fs\<lparr>fs_write_blk := (\<lambda>_. True)\<rparr>"

definition flat_inode :: ext2_inode where
  "flat_inode = \<lparr>i_mode_dir = True, i_flags = 0, i_size = 0, i_size_high = 0, i_block = concat (map (le_of_word 4) flat_words), i_translator = 0\<rparr>"

lemma flat_words_nth: "flat_words ! 0 = 7" "flat_words ! 12 = 9" "flat_words ! 13 = 0" "flat_words ! 14 = 0" "length flat_words = 15"
  by (simp_all add: flat_words_def)

lemma flat_rw_ok: "whole_blocks flat_rw" "mapped_ok flat_rw flat_words" "words_of (i_block flat_inode) = flat_words" "per_block flat_rw = 2"
proof -
  show "whole_blocks flat_rw" by (auto simp: whole_blocks_def flat_rw_def flat_fs_def fs_image_file_def)
  have "tree_ok flat_rw (Suc 0) 9" by (simp add: flat_rw_def flat_fs_def ext2fs_read_ind_block_def fs_image_file_def)
  then show "mapped_ok flat_rw flat_words" unfolding mapped_ok_def flat_words_nth One_nat_def by (simp only: tree_ok_0)
  show "words_of (i_block flat_inode) = flat_words" by (simp add: flat_inode_def words_of_le_words)
  show "per_block flat_rw = 2" by (simp add: flat_rw_def flat_fs_def)
qed

lemma flat_ind_slot: "ind_slot flat_rw 9 0 = 0" "ind_slot flat_rw 9 1 = 21"
  by (simp_all add: ind_slot_def flat_rw_def flat_fs_def)

lemma flat_nodes: "inode_nodes flat_rw flat_words = [9]"
proof -
  have u: "[0..<15] = [0..<12] @ [12, 13, 14 :: nat]" by (simp add: upt_rec)
  have "ind_nodes flat_rw (top_depth k) (flat_words ! k) = []" if "k < 12" for k using that by (simp add: top_depth_def)
  then have c: "concat (map (\<lambda>k. ind_nodes flat_rw (top_depth k) (flat_words ! k)) [0..<12]) = []" by (simp add: concat_eq_Nil_conv)
  have "top_depth 12 = Suc 0" by (simp add: top_depth_def)
  then show ?thesis unfolding inode_nodes_def u map_append concat_append c by (simp add: flat_words_nth flat_rw_ok upt_rec)
qed

lemma flat_maps: "maps_blocks (flat_rw, flat_inode) (phys_of (file_map flat_rw flat_words))"
proof -
  have "length (i_block flat_inode) = 60" by (simp add: flat_inode_def flat_words_def)
  then show ?thesis using flat_rw_ok flat_nodes
    by (auto simp: maps_blocks_def block_mapped_def flat_inode_def flat_rw_def flat_fs_def EXT4_EXTENTS_FL_def EXT4_INLINE_DATA_FL_def)
qed

lemma flat_settable: "settable (flat_rw, flat_inode) b" if "b \<in> {0, 12, 13}" for b
proof -
  have p: "place flat_rw 0 0 0" "place flat_rw 12 12 0" "place flat_rw 13 12 1" by (simp_all add: place_def flat_rw_ok top_base_def top_depth_def)
  have d: "top_depth 0 = 0" "top_depth 12 = Suc 0" by (simp_all add: top_depth_def)
  have "\<not> ext2fs_file_block_offset_too_big flat_rw flat_inode b"
    using that by (auto simp: ext2fs_file_block_offset_too_big_def flat_rw_def flat_fs_def flat_inode_def word_le_nat_alt)
  moreover have "slot flat_rw e (flat_words ! k) (nr div 2) \<noteq> 0" if "place flat_rw (unat b) k nr" "top_depth k = Suc e" for k nr e
    using that \<open>b \<in> {0, 12, 13}\<close> p [THEN place_unique, of k nr] d by (auto simp: flat_words_nth)
  ultimately show ?thesis unfolding settable_def prod.case flat_rw_ok by blast
qed

lemma flat_phys: "phys_of (file_map flat_rw flat_words) 0 = 7" "phys_of (file_map flat_rw flat_words) 12 = 0" "phys_of (file_map flat_rw flat_words) 13 = 21"
  using phys_of_file_map [OF flat_rw_ok(1,2), of 0 0 0] phys_of_file_map [OF flat_rw_ok(1,2), of 12 0 12] phys_of_file_map [OF flat_rw_ok(1,2), of 12 1 13]
  by (simp_all add: flat_rw_ok top_base_def top_depth_def flat_words_nth flat_ind_slot flat_ind_slot [unfolded One_nat_def])

theorem bmap_ops_refine_array_witness:
  "\<exists>s'. run_store (bmap_get 2) (bmap_set 2) (flat_rw, flat_inode)
       [Read_At 12 (), Write_At 12 33, Read_At 12 (), Read_At 13 (), Read_At 0 (), Write_At 0 5, Read_At 0 ()] =
     Inr ([(None, Some 0), (None, None), (None, Some 33), (None, Some 21), (None, Some 7), (None, None), (None, Some 5)], s')"
proof -
  let ?ops = "[Read_At 12 (), Write_At 12 33, Read_At 12 (), Read_At 13 (), Read_At 0 (), Write_At 0 5, Read_At 0 ()]"
  have "list_all (\<lambda>op. settable (flat_rw, flat_inode) (op_key op)) ?ops" by (simp add: flat_settable)
  from bmap_ops_refine_array [OF flat_maps this, of 2] show ?thesis
    by (elim exE conjE, intro exI) (simp add: flat_phys del: run_store.simps)
qed

end
