(* ===== verification/Extent_Node.thy ===== *)
theory Extent_Node
  imports Extent_Search Extent_Edit
begin

text \<open>
  A leaf node as a list of extents: storing an entry, moving entries and changing their number are
  an update, an insertion and a removal in this list.
\<close>

unbundle bit_operations_syntax

section \<open>Extents\<close>

text \<open>First logical block, number of blocks, first physical block, and whether the blocks are uninitialised.\<close>

type_synonym ext4 = "nat \<times> nat \<times> nat \<times> bool"

definition ext_of :: "byte list \<Rightarrow> ext4" where
  "ext_of e = (unat (ee_block e), leaf_len e, unat (ee_pblk e), 0x8000 < unat (ee_len e))"

definition extents :: "byte list \<Rightarrow> ext4 list" where
  "extents buf = map (\<lambda>k. ext_of (ent buf k)) [0..<eh_entries buf]"

fun fits :: "ext4 \<Rightarrow> bool" where
  "fits (l, n, p, u) \<longleftrightarrow> 1 \<le> n \<and> n \<le> (if u then EXT_UNINIT_MAX_LEN else EXT_INIT_MAX_LEN) \<and> l + n \<le> 2 ^ 32 \<and> 1 \<le> p \<and> p + n \<le> 2 ^ 48"

fun shows_ext :: "extent \<Rightarrow> ext4 \<Rightarrow> bool" where
  "shows_ext ext (l, n, p, u) \<longleftrightarrow> e_lblk ext = of_nat l \<and> e_len ext = of_nat n \<and> e_pblk ext = of_nat p \<and> e_uninit ext = u"

lemma length_extents [simp]: "length (extents buf) = eh_entries buf"
  by (simp add: extents_def)

lemma extents_nth [simp]: "k < eh_entries buf \<Longrightarrow> extents buf ! k = ext_of (ent buf k)"
  by (simp add: extents_def)

lemma extents_eqI:
  assumes "eh_entries buf = length es" "\<And>k. k < length es \<Longrightarrow> ext_of (ent buf k) = es ! k"
  shows "extents buf = es"
  using assms by (intro nth_equalityI) simp_all

section \<open>Bytes of a node\<close>

lemma ent_fields:
  "off + 2 \<le> 12 \<Longrightarrow> le16_at (ent buf k) off = le16_at buf (12 + 12 * k + off)"
  "off + 4 \<le> 12 \<Longrightarrow> le32_at (ent buf k) off = le32_at buf (12 + 12 * k + off)"
  by (simp_all add: le16_at_def le32_at_def ent_def drop_take add.commute)

lemma ent_put_other:
  assumes "off + n \<le> length buf" "12 + 12 * k \<le> off" "off + n \<le> 12 + 12 * Suc k" "j \<noteq> k"
  shows "ent (put_le n off v buf) j = ent buf j"
  unfolding ent_def using assms by (intro field_put_le) auto

lemma header_put:
  assumes "off + n \<le> length buf" "8 \<le> off"
  shows "eh_magic (put_le n off v buf) = eh_magic buf" "eh_entries (put_le n off v buf) = eh_entries buf"
    "eh_max (put_le n off v buf) = eh_max buf" "eh_depth (put_le n off v buf) = eh_depth buf"
  using assms by (simp_all add: eh_magic_def eh_entries_def eh_max_def eh_depth_def le_at_put_le)

lemma pblk_parts:
  fixes p :: u64
  assumes "p < 2 ^ 48"
  shows "(ucast (ucast (p AND 0xFFFFFFFF) :: u32) :: u64) + push_bit 32 (ucast (ucast (drop_bit 32 p) :: u16)) = p"
proof -
  have m: "(0xFFFFFFFF :: u64) = mask 32" by (simp add: mask_numeral)
  have b: "\<not> bit p n" if "48 \<le> n" for n
  proof -
    have "take_bit 48 p = p" using assms by (simp add: less_mask_eq take_bit_eq_mask word_less_nat_alt)
    then show ?thesis using that by (metis bit_take_bit_iff not_le)
  qed
  have "(ucast (ucast (p AND 0xFFFFFFFF) :: u32) :: u64) AND push_bit 32 (ucast (ucast (drop_bit 32 p) :: u16)) = 0"
    unfolding m by (rule bit_eqI) (auto simp: bit_simps)
  then have "(ucast (ucast (p AND 0xFFFFFFFF) :: u32) :: u64) + push_bit 32 (ucast (ucast (drop_bit 32 p) :: u16)) =
      ucast (ucast (p AND 0xFFFFFFFF) :: u32) OR push_bit 32 (ucast (ucast (drop_bit 32 p) :: u16))"
    by (rule disjunctive_add_eq_or)
  also have "\<dots> = p" unfolding m
  proof (rule bit_word_eqI)
    fix n assume "n < LENGTH(64)"
    then show "bit ((ucast (ucast (p AND mask 32) :: u32) :: u64) OR push_bit 32 (ucast (ucast (drop_bit 32 p) :: u16))) n = bit p n"
      using b [of n] by (cases "n < 32"; cases "n < 48") (auto simp: bit_simps)
  qed
  finally show ?thesis .
qed

section \<open>Storing an entry\<close>

definition same_header :: "byte list \<Rightarrow> byte list \<Rightarrow> bool" where
  "same_header buf buf' \<longleftrightarrow> length buf' = length buf \<and> eh_magic buf' = eh_magic buf \<and> eh_max buf' = eh_max buf \<and> eh_depth buf' = eh_depth buf"

lemma put_leaf_ent:
  assumes x: "shows_ext ext x" "fits x" and k: "12 + 12 * k + 12 \<le> length buf"
  shows "\<exists>buf'. put_leaf (12 + 12 * k) ext buf = (None, buf') \<and> same_header buf buf' \<and> eh_entries buf' = eh_entries buf \<and>
    ext_of (ent buf' k) = x \<and> (\<forall>j. j \<noteq> k \<longrightarrow> ent buf' j = ent buf j)"
proof -
  obtain l n p u where xs: "x = (l, n, p, u)" by (cases x)
  define o1 where "o1 = 12 + 12 * k"
  define w :: u16 where "w = (if u then ucast (e_len ext + of_nat EXT_INIT_MAX_LEN) else ucast (e_len ext))"
  define b1 where "b1 = put_le 4 o1 (ucast (e_lblk ext) :: u32) buf"
  define b2 where "b2 = put_le 4 (o1 + 8) (ucast (e_pblk ext AND 0xFFFFFFFF) :: u32) b1"
  define b3 where "b3 = put_le 2 (o1 + 6) (ucast (drop_bit 32 (e_pblk ext)) :: u16) b2"
  define b4 where "b4 = put_le 2 (o1 + 4) w b3"
  have f0: "n \<le> (if u then EXT_UNINIT_MAX_LEN else EXT_INIT_MAX_LEN)" using x(2) xs by simp
  then have f2: "n \<le> (if u then 32767 else 32768)" by (simp add: EXT_UNINIT_MAX_LEN_def EXT_INIT_MAX_LEN_def split: if_splits)
  have f: "1 \<le> n" "n \<le> (if u then 32767 else 32768)" "l + n \<le> 2 ^ 32" "p + n \<le> 2 ^ 48" and e: "e_uninit ext = u" "e_len ext = of_nat n" "e_lblk ext = of_nat l" "e_pblk ext = of_nat p"
    using x xs f2 by simp_all
  have len: "o1 + 12 \<le> length buf" "length b1 = length buf" "length b2 = length buf" "length b3 = length buf" "length b4 = length buf"
    using k by (simp_all add: o1_def b1_def b2_def b3_def b4_def)
  have n16: "n < 2 ^ 16" using f(2) by (auto split: if_splits)
  have un: "unat (e_len ext) = n" using n16 e(2) by (simp add: unat_of_nat take_bit_nat_eq_self)
  have "put_leaf o1 ext buf = (None, b4)"
    using f(2) un e(1) unfolding put_leaf_def Let_def b1_def b2_def b3_def b4_def w_def by (auto simp: EXT_UNINIT_MAX_LEN_def EXT_INIT_MAX_LEN_def)
  moreover have "same_header buf b4" "eh_entries b4 = eh_entries buf"
    using len unfolding same_header_def b4_def b3_def b2_def b1_def by (simp_all add: header_put o1_def)
  moreover have "ent b4 j = ent buf j" if "j \<noteq> k" for j
  proof -
    have "ent b4 j = ent b3 j" "ent b3 j = ent b2 j" "ent b2 j = ent b1 j" "ent b1 j = ent buf j"
      unfolding b4_def b3_def b2_def b1_def using len that by (intro ent_put_other [of _ _ _ k]; simp add: o1_def b1_def b2_def b3_def)+
    then show ?thesis by simp
  qed
  moreover have "ext_of (ent b4 k) = x"
  proof -
    have "le32_at b4 o1 = ucast (e_lblk ext)" "le16_at b4 (o1 + 4) = w" "le16_at b4 (o1 + 6) = ucast (drop_bit 32 (e_pblk ext))"
      "le32_at b4 (o1 + 8) = ucast (e_pblk ext AND 0xFFFFFFFF)"
      unfolding b4_def b3_def b2_def b1_def using len(1) by (simp_all add: le_at_put_le le_at_put_same)
    then have d: "ee_block (ent b4 k) = ucast (e_lblk ext)" "ee_len (ent b4 k) = w" "ee_pblk (ent b4 k) = e_pblk ext"
      using pblk_parts [of "e_pblk ext"] f(1,4) e(4) by (simp_all add: ee_block_def ee_len_def ee_pblk_def ent_fields o1_def word_less_nat_alt unat_of_nat take_bit_nat_eq_self)
    have uw: "unat w = (if u then n + 0x8000 else n)"
      using f(2) n16 e(2) by (auto simp: w_def EXT_INIT_MAX_LEN_def unsigned_ucast_eq unat_word_ariths unat_of_nat take_bit_nat_eq_self split: if_splits)
    have ll: "leaf_len (ent b4 k) = n" using uw f(1,2) by (simp add: leaf_len_def d(2) Let_def split: if_splits)
    have "unat (ucast (e_lblk ext) :: u32) = l" using f(1,3) e(3) by (simp add: unsigned_ucast_eq unat_of_nat take_bit_nat_eq_self)
    moreover have "unat (e_pblk ext) = p" using f(1,4) e(4) by (simp add: unat_of_nat take_bit_nat_eq_self)
    moreover have "(0x8000 < unat w) = u" using uw f(1,2) by (auto split: if_splits)
    ultimately show ?thesis using ll d xs by (simp add: ext_of_def)
  qed
  ultimately show ?thesis unfolding o1_def by blast
qed


section \<open>Moving entries\<close>

lemma take_drop_splice:
  assumes "length mid = m" "d \<le> length buf"
  shows "a + c \<le> d \<Longrightarrow> take c (drop a (take d buf @ mid @ drop (d + m) buf)) = take c (drop a buf)"
    and "d \<le> a \<Longrightarrow> a + c \<le> d + m \<Longrightarrow> take c (drop a (take d buf @ mid @ drop (d + m) buf)) = take c (drop (a - d) mid)"
    and "d + m \<le> a \<Longrightarrow> take c (drop a (take d buf @ mid @ drop (d + m) buf)) = take c (drop a buf)"
proof -
  show "take c (drop a (take d buf @ mid @ drop (d + m) buf)) = take c (drop a buf)" if "a + c \<le> d"
    using assms that by (simp add: drop_take)
qed (use assms in \<open>simp_all add: drop_take\<close>)

lemma move_entries_ent:
  assumes "12 + 12 * (src + m) \<le> length buf" "12 + 12 * (dst + m) \<le> length buf"
  shows "\<exists>buf'. move_entries (int dst) (int src) m buf = Inr buf' \<and> same_header buf buf' \<and> eh_entries buf' = eh_entries buf \<and>
    (\<forall>j. ent buf' j = (if dst \<le> j \<and> j < dst + m then ent buf (src + (j - dst)) else ent buf j))"
proof -
  let ?d = "12 + 12 * dst" and ?s = "12 + 12 * src" and ?mid = "take (12 * m) (drop (12 + 12 * src) buf)"
  let ?b = "take ?d buf @ ?mid @ drop (?d + 12 * m) buf"
  have n: "nat (12 + 12 * int dst) = ?d" "nat (12 + 12 * int src) = ?s" by simp_all
  have l: "length ?mid = 12 * m" "?d \<le> length buf" using assms by simp_all
  note sp = take_drop_splice [OF l]
  have "move_entries (int dst) (int src) m buf = Inr ?b" unfolding move_entries_def n Let_def using assms by simp
  moreover have "same_header buf ?b" "eh_entries ?b = eh_entries buf"
    using assms sp(1) by (simp_all add: same_header_def eh_magic_def eh_max_def eh_depth_def eh_entries_def le16_at_def)
  moreover have "ent ?b j = (if dst \<le> j \<and> j < dst + m then ent buf (src + (j - dst)) else ent buf j)" for j
  proof -
    consider "j < dst" | "dst \<le> j" "j < dst + m" | "dst + m \<le> j" by linarith
    then show ?thesis
    proof cases
      case 1
      then show ?thesis using sp(1) [of "12 + 12 * j" 12] by (simp add: ent_def)
    next
      case 2
      have e: "12 + 12 * j - ?d = 12 * (j - dst)" "12 * (j - dst) + 12 \<le> 12 * m" using 2 by simp_all
      have "take 12 (drop (12 * (j - dst)) ?mid) = take 12 (drop (?s + 12 * (j - dst)) buf)" using e(2) by (simp add: drop_take add.commute)
      moreover have "take 12 (drop (12 + 12 * j) ?b) = take 12 (drop (12 * (j - dst)) ?mid)" using 2 sp(2) [of "12 + 12 * j" 12] unfolding e(1) by linarith
      moreover have "?s + 12 * (j - dst) = 12 + 12 * (src + (j - dst))" by simp
      ultimately show ?thesis using 2 unfolding ent_def by metis
    next
      case 3
      then show ?thesis using sp(3) [of "12 + 12 * j" 12] by (simp add: ent_def)
    qed
  qed
  ultimately show ?thesis by blast
qed

lemma put_entries_node:
  assumes "12 \<le> length buf" "n < 2 ^ 16"
  shows "same_header buf (put_entries n buf)" "eh_entries (put_entries n buf) = n" "ent (put_entries n buf) j = ent buf j"
proof -
  show "same_header buf (put_entries n buf)"
    using assms by (simp add: same_header_def put_entries_def eh_magic_def eh_max_def eh_depth_def le_at_put_le)
  show "eh_entries (put_entries n buf) = n"
    using assms by (simp add: put_entries_def eh_entries_def le_at_put_same unat_of_nat take_bit_nat_eq_self)
  show "ent (put_entries n buf) j = ent buf j" using assms unfolding put_entries_def ent_def by (intro field_put_le) auto
qed

section \<open>Leaf nodes in an inode\<close>

text \<open>The 60 bytes of a root without children, with room for \<open>m\<close> extents.\<close>

definition leaf_root :: "nat \<Rightarrow> byte list \<Rightarrow> bool" where
  "leaf_root m buf \<longleftrightarrow> length buf = 60 \<and> ext2fs_extent_header_verify buf 60 = None \<and> eh_depth buf = 0 \<and> eh_max buf = m"

lemma leaf_root_bounds:
  assumes "leaf_root m buf"
  shows "eh_entries buf \<le> m" "m \<le> 4" "j < m \<Longrightarrow> 12 + 12 * j + 12 \<le> length buf"
  using assms by (auto simp: leaf_root_def ext2fs_extent_header_verify_def Let_def split: if_splits)

lemma leaf_root_same: "leaf_root m buf \<Longrightarrow> same_header buf buf' \<Longrightarrow> eh_entries buf' \<le> m \<Longrightarrow> leaf_root m buf'"
  by (auto simp: leaf_root_def same_header_def ext2fs_extent_header_verify_def Let_def split: if_splits)

lemma same_header_trans: "same_header a b \<Longrightarrow> same_header b c \<Longrightarrow> same_header a c"
  by (simp add: same_header_def)

lemma replace_node:
  assumes b: "leaf_root m buf" "k < eh_entries buf" and x: "shows_ext ext x" "fits x"
  shows "\<exists>buf'. put_leaf (12 + 12 * k) ext buf = (None, buf') \<and> leaf_root m buf' \<and> eh_entries buf' = eh_entries buf \<and> extents buf' = (extents buf)[k := x]"
proof -
  have "12 + 12 * k + 12 \<le> length buf" using leaf_root_bounds [OF b(1)] b(2) by simp
  then obtain buf' where b': "put_leaf (12 + 12 * k) ext buf = (None, buf')" "same_header buf buf'" "eh_entries buf' = eh_entries buf"
    "ext_of (ent buf' k) = x" "\<forall>j. j \<noteq> k \<longrightarrow> ent buf' j = ent buf j" using put_leaf_ent [OF x] by blast
  have "extents buf' = (extents buf)[k := x]" using b'(3-5) b(2) by (intro extents_eqI) (auto simp add: nth_list_update)
  then show ?thesis using b'(1-3) leaf_root_same [OF b(1) b'(2)] leaf_root_bounds(1) [OF b(1)] by auto
qed

text \<open>Making room at \<open>k\<close> for an extent that is then stored there.\<close>

lemma insert_node:
  assumes b: "leaf_root m buf" "k \<le> eh_entries buf" "eh_entries buf < m" and x: "shows_ext ext x" "fits x"
  shows "\<exists>buf1 buf'. (if k < eh_entries buf then move_entries (int k + 1) (int k) (eh_entries buf - k) buf else Inr buf) = Inr buf1 \<and>
    length (put_entries (eh_entries buf + 1) buf1) = 60 \<and>
    put_leaf (12 + 12 * k) ext (put_entries (eh_entries buf + 1) buf1) = (None, buf') \<and> leaf_root m buf' \<and> eh_entries buf' = eh_entries buf + 1 \<and>
    extents buf' = take k (extents buf) @ x # drop k (extents buf)"
proof -
  let ?n = "eh_entries buf"
  have l: "length buf = 60" "m \<le> 4" using b(1) leaf_root_bounds(2) by (auto simp: leaf_root_def)
  obtain buf1 where b1: "(if k < ?n then move_entries (int k + 1) (int k) (?n - k) buf else Inr buf) = Inr buf1" "same_header buf buf1"
    "\<forall>j. ent buf1 j = (if k + 1 \<le> j \<and> j \<le> ?n then ent buf (j - 1) else ent buf j)"
  proof (cases "k < ?n")
    case True
    have "12 + 12 * (k + (?n - k)) \<le> length buf" "12 + 12 * (k + 1 + (?n - k)) \<le> length buf" using b(2,3) l by simp_all
    from move_entries_ent [OF this] obtain buf' where "move_entries (int (k + 1)) (int k) (?n - k) buf = Inr buf'" "same_header buf buf'"
      "\<forall>j. ent buf' j = (if k + 1 \<le> j \<and> j < k + 1 + (?n - k) then ent buf (k + (j - (k + 1))) else ent buf j)" by blast
    then show ?thesis using that [of buf'] True by (auto simp: less_Suc_eq_le add.commute)
  next
    case False
    have "\<forall>j. ent buf j = (if k + 1 \<le> j \<and> j \<le> ?n then ent buf (j - 1) else ent buf j)" using False by auto
    then show ?thesis using that [of buf] False by (simp add: same_header_def)
  qed
  let ?b2 = "put_entries (?n + 1) buf1"
  have l1: "12 \<le> length buf1" "?n + 1 < 2 ^ 16" using b1(2) l b(3) by (simp_all add: same_header_def)
  note b2 = put_entries_node [OF l1]
  have "12 + 12 * k + 12 \<le> length ?b2" using b1(2) b2(1) l b(2,3) by (simp add: same_header_def)
  then obtain buf' where b': "put_leaf (12 + 12 * k) ext ?b2 = (None, buf')" "same_header ?b2 buf'" "eh_entries buf' = ?n + 1"
    "ext_of (ent buf' k) = x" "\<forall>j. j \<noteq> k \<longrightarrow> ent buf' j = ent buf1 j" using put_leaf_ent [OF x, of k ?b2] b2(2,3) by auto
  have "extents buf' = take k (extents buf) @ x # drop k (extents buf)"
  proof (rule extents_eqI)
    fix j assume "j < length (take k (extents buf) @ x # drop k (extents buf))"
    then have "j < Suc ?n" using b(2) by simp
    then show "ext_of (ent buf' j) = (take k (extents buf) @ x # drop k (extents buf)) ! j"
      using b'(4,5) b1(3) b(2) by (auto simp: nth_append nth_Cons' not_less_less_Suc_eq)
  qed (use b'(3) b(2) in simp)
  moreover have "leaf_root m buf'"
    using leaf_root_same [OF b(1)] same_header_trans b1(2) b2(1) b'(2,3) b(3) by (metis Suc_eq_plus1 Suc_leI)
  moreover have "length ?b2 = 60" using b1(2) b2(1) l by (simp add: same_header_def)
  ultimately show ?thesis using b1(1) b'(1,3) by blast
qed

lemma delete_node:
  assumes b: "leaf_root m buf" "k < eh_entries buf"
  shows "\<exists>buf1. (if k < eh_entries buf - 1 then move_entries (int k) (int k + 1) (eh_entries buf - 1 - k) buf else Inr buf) = Inr buf1 \<and>
    leaf_root m (put_entries (eh_entries buf - 1) buf1) \<and> eh_entries (put_entries (eh_entries buf - 1) buf1) = eh_entries buf - 1 \<and>
    extents (put_entries (eh_entries buf - 1) buf1) = take k (extents buf) @ drop (Suc k) (extents buf)"
proof -
  let ?n = "eh_entries buf - 1"
  have l: "length buf = 60" "m \<le> 4" "eh_entries buf \<le> m" using b(1) leaf_root_bounds(1,2) by (auto simp: leaf_root_def)
  obtain buf1 where b1: "(if k < ?n then move_entries (int k) (int k + 1) (?n - k) buf else Inr buf) = Inr buf1" "same_header buf buf1"
    "\<forall>j < ?n. ent buf1 j = (if k \<le> j then ent buf (Suc j) else ent buf j)"
  proof (cases "k < ?n")
    case True
    have "12 + 12 * (k + 1 + (?n - k)) \<le> length buf" "12 + 12 * (k + (?n - k)) \<le> length buf" using True l b(2) by simp_all
    from move_entries_ent [OF this] obtain buf' where "move_entries (int k) (int (k + 1)) (?n - k) buf = Inr buf'" "same_header buf buf'"
      "\<forall>j. ent buf' j = (if k \<le> j \<and> j < k + (?n - k) then ent buf (k + 1 + (j - k)) else ent buf j)" by blast
    then show ?thesis using that [of buf'] True by (auto simp: add.commute)
  next
    case False
    then show ?thesis using that [of buf] b(2) by (auto simp: same_header_def)
  qed
  have l1: "12 \<le> length buf1" "?n < 2 ^ 16" using b1(2) l by (simp_all add: same_header_def)
  note b2 = put_entries_node [OF l1]
  have "extents (put_entries ?n buf1) = take k (extents buf) @ drop (Suc k) (extents buf)"
  proof (rule extents_eqI)
    fix j assume "j < length (take k (extents buf) @ drop (Suc k) (extents buf))"
    then have "j < ?n" using b(2) by simp
    then show "ext_of (ent (put_entries ?n buf1) j) = (take k (extents buf) @ drop (Suc k) (extents buf)) ! j"
      using b1(3) b2(3) b(2) by (auto simp: nth_append)
  qed (use b2(2) b(2) in simp)
  moreover have "leaf_root m (put_entries ?n buf1)" using leaf_root_same [OF b(1)] same_header_trans [OF b1(2) b2(1)] b2(2) l(3) by simp
  ultimately show ?thesis using b1(1) b2(2) by blast
qed

end
