(* ===== verification/Extent_Map.thy ===== *)
theory Extent_Map
  imports Extent_Node
begin

text \<open>
  The operations on a handle of a file whose extents lie in its inode, as operations on the list of these extents:
  the movements and the search find an element of the list; replacing, inserting and deleting change it, and
  the inode that is written has the changed list.
\<close>

section \<open>A handle and its list of extents\<close>

text \<open>The file system when the inode \<open>nd\<close> was written with the root \<open>buf\<close>.\<close>

definition saved :: "ext2_filsys \<Rightarrow> ext2_inode \<Rightarrow> u32 \<Rightarrow> byte list \<Rightarrow> ext2_filsys" where
  "saved fs nd ino buf = fs\<lparr>fs_read_inode := (fs_read_inode fs)(ino := Inr (nd\<lparr>i_block := buf\<rparr>))\<rparr>"

definition writable :: "ext2_filsys \<Rightarrow> u32 \<Rightarrow> bool" where
  "writable fs ino \<longleftrightarrow> fs_rw fs \<and> fs_write_inode fs ino = None"

lemma saved_saved [simp]: "saved (saved fs nd ino a) nd ino b = saved fs nd ino b"
  by (simp add: saved_def)

lemma saved_simps [simp]: "fs_rw (saved fs nd ino b) = fs_rw fs" "fs_write_inode (saved fs nd ino b) = fs_write_inode fs"
  by (simp_all add: saved_def)

text \<open>The file system, the inode, its number and the room of the root stay the same throughout.\<close>

type_synonym opened = "ext2_filsys \<times> ext2_inode \<times> u32 \<times> nat"

definition holds :: "opened \<Rightarrow> ext4 list \<Rightarrow> extent_handle \<Rightarrow> ext2_filsys \<Rightarrow> bool" where
  "holds c es h f \<longleftrightarrow> (case c of (fs, nd, ino, m) \<Rightarrow>
     h_level h = 0 \<and> h_max_depth h = 0 \<and> length (h_path h) = 1 \<and> h_ino h = ino \<and> h_inode h = nd \<and> writable fs ino \<and>
     leaf_root m (ep_buf (cur_path h)) \<and> extents (ep_buf (cur_path h)) = es \<and> ep_entries (cur_path h) = length es \<and>
     ep_max_entries (cur_path h) = m \<and> f = saved fs nd ino (ep_buf (cur_path h)))"

definition at :: "opened \<Rightarrow> ext4 list \<Rightarrow> nat \<Rightarrow> extent_handle \<Rightarrow> ext2_filsys \<Rightarrow> bool" where
  "at c es i h f \<longleftrightarrow> holds c es h f \<and> i < length es \<and> ep_curr (cur_path h) = Some (int i) \<and> ep_left (cur_path h) = length es - 1 - i"

lemma at_holds: "at c es i h f \<Longrightarrow> holds c es h f"
  by (simp add: at_def)

lemma set_path_ino [simp]: "h_ino (set_path g h) = h_ino h" "h_inode (set_path g h) = h_inode h"
  by (simp_all add: set_path_def)

lemma holds_simps:
  assumes "holds c es h f"
  shows "h_level h = 0" "h_max_depth h = 0" "length (h_path h) = 1" "h_level h < length (h_path h)" "fs_rw f" "fs_write_inode f (h_ino h) = None"
    "ep_entries (cur_path h) = length es" "length es = eh_entries (ep_buf (cur_path h))"
  using assms by (auto simp: holds_def writable_def)

lemma holds_move:
  assumes "holds c es h f" "ep_buf (g (cur_path h)) = ep_buf (cur_path h)" "ep_entries (g (cur_path h)) = ep_entries (cur_path h)"
    "ep_max_entries (g (cur_path h)) = ep_max_entries (cur_path h)"
  shows "holds c es (set_path g h) f"
  using assms by (auto simp: holds_def)

text \<open>A changed root that is written.\<close>

lemma holds_edit:
  assumes h: "holds c es h f" and b: "leaf_root (snd (snd (snd c))) buf" "extents buf = es'"
    and g: "ep_buf (g (cur_path h)) = buf" "ep_entries (g (cur_path h)) = length es'" "ep_max_entries (g (cur_path h)) = ep_max_entries (cur_path h)"
  shows "\<exists>f'. update_path f (set_path g h) = Inr (None, set_path g h, f') \<and> holds c es' (set_path g h) f'"
proof -
  obtain fs nd ino m where c: "c = (fs, nd, ino, m)" by (cases c)
  have l: "h_level h < length (h_path h)" "h_level h = 0" using holds_simps(1,4) [OF h] by simp_all
  then have p: "ep_buf (h_path (set_path g h) ! 0) = buf" using cur_path_set_path [OF l(1), of g] g(1) by (simp add: cur_path_def)
  have "update_path f (set_path g h) = Inr (None, set_path g h, saved fs nd ino buf)"
    using h l p by (auto simp: update_path_def handle_inode_def holds_def c writable_def saved_def)
  moreover have "holds c es' (set_path g h) (saved fs nd ino buf)" using h b g l by (auto simp: holds_def c)
  ultimately show ?thesis by blast
qed

section \<open>Movements\<close>

lemma decode_ext:
  assumes "at c es i h f"
  shows "\<exists>ext. extent_decode h (int i) = Inr ext \<and> shows_ext ext (es ! i)"
proof -
  let ?buf = "ep_buf (cur_path h)"
  have h: "holds c es h f" and i: "i < length es" using assms by (simp_all add: at_def)
  then have b: "es = extents ?buf" "node_ok f {} 60 0 ?buf" by (auto simp: holds_def leaf_root_def)
  have "at_entry h ?buf i (ep_visit_num (cur_path h))" using assms holds_simps [OF h] by (simp add: at_def at_entry_def Let_def)
  then obtain ext where e: "extent_decode h (int i) = Inr ext" "decoded 0 (ent ?buf i) ext"
    using decode_at [of h ?buf i _ 0 f "{}" 60] b(2) holds_simps [OF h] by auto
  have "e_len ext = of_nat (leaf_len (ent ?buf i))" using e(2) by (metis decoded_def of_nat_unat ucast_id)
  moreover have "(ucast (ee_block (ent ?buf i)) :: u64) = of_nat (unat (ee_block (ent ?buf i)))" by (simp add: of_nat_unat)
  ultimately have "shows_ext ext (ext_of (ent ?buf i))" using e(2) by (simp add: decoded_def ext_of_def)
  then show ?thesis using e(1) b(1) i holds_simps(8) [OF h] by auto
qed

lemma get_current:
  assumes "at c es i h f"
  shows "\<exists>ext. shows_ext ext (es ! i) \<and> (\<forall>fuel x. ext2fs_extent_get (Suc fuel) f h EXT2_EXTENT_CURRENT x = Inr (None, h, ext))"
proof -
  obtain ext where "extent_decode h (int i) = Inr ext" "shows_ext ext (es ! i)" using decode_ext [OF assms] by blast
  then show ?thesis using assms by (auto simp: at_def ext2fs_extent_get_def extent_choose_def extent_move_def Let_def)
qed

text \<open>A step to a neighbour; at this depth the next leaf is the next entry.\<close>

lemma step_next:
  assumes "at c es i h f" "Suc i < length es" "op \<in> {EXT2_EXTENT_NEXT_SIB, EXT2_EXTENT_NEXT_LEAF}"
  shows "\<exists>h' ext. at c es (Suc i) h' f \<and> shows_ext ext (es ! Suc i) \<and> (\<forall>fuel x. ext2fs_extent_get (Suc fuel) f h op x = Inr (None, h', ext))"
proof -
  let ?h = "set_path (\<lambda>p. p\<lparr>ep_left := ep_left p - 1, ep_curr := Some (int i + 1), ep_visit_num := 0\<rparr>) h"
  have h: "holds c es h f" and i: "ep_curr (cur_path h) = Some (int i)" "ep_left (cur_path h) = length es - 1 - i" using assms(1) by (simp_all add: at_def)
  note s = holds_simps [OF h]
  have a: "at c es (Suc i) ?h f" using holds_move [OF h] i s assms(2) by (simp add: at_def)
  obtain ext where e: "extent_decode ?h (int (Suc i)) = Inr ext" "shows_ext ext (es ! Suc i)" using decode_ext [OF a] by blast
  have c: "extent_choose h op = (Inr EXT2_EXTENT_NEXT_SIB, h)" using assms(2,3) i s by (auto simp: extent_choose_def Let_def)
  have m: "extent_move f h op EXT2_EXTENT_NEXT_SIB = Inr (None, False, ?h, Some (int (Suc i)))"
    using i assms(2) by (simp add: extent_move_def next_sib_def Let_def add.commute)
  have "ext2fs_extent_get (Suc fuel) f h op x = Inr (None, ?h, ext)" for fuel x
    using c m e(1) s(1,2) assms(3) by (auto simp: ext2fs_extent_get_def)
  then show ?thesis using a e(2) by blast
qed

lemma step_next_end:
  assumes "at c es i h f" "Suc i = length es" "op \<in> {EXT2_EXTENT_NEXT_SIB, EXT2_EXTENT_NEXT_LEAF}"
  shows "ext2fs_extent_get (Suc fuel) f h op x = Inr (Some EXT2_ET_EXTENT_NO_NEXT, h, x)"
  using assms holds_simps [of c es h f] by (auto simp: at_def ext2fs_extent_get_def extent_choose_def extent_move_def next_sib_def Let_def)

lemma step_prev:
  assumes "at c es (Suc i) h f" "op \<in> {EXT2_EXTENT_PREV_SIB, EXT2_EXTENT_PREV_LEAF}"
  shows "\<exists>h' ext. at c es i h' f \<and> shows_ext ext (es ! i) \<and> (\<forall>fuel x. ext2fs_extent_get (Suc fuel) f h op x = Inr (None, h', ext))"
proof -
  let ?h = "set_path (\<lambda>p. p\<lparr>ep_curr := Some (int (Suc i) - 1), ep_left := ep_left p + 1, ep_visit_num := if h_level h < h_max_depth h then 1 else ep_visit_num p\<rparr>) h"
  have h: "holds c es h f" and i: "Suc i < length es" "ep_curr (cur_path h) = Some (int (Suc i))" "ep_left (cur_path h) = length es - 1 - Suc i"
    using assms(1) by (simp_all add: at_def)
  note s = holds_simps [OF h]
  have a: "at c es i ?h f" using holds_move [OF h] i s by (simp add: at_def)
  obtain ext where e: "extent_decode ?h (int i) = Inr ext" "shows_ext ext (es ! i)" using decode_ext [OF a] by blast
  have c: "extent_choose h op = (Inr EXT2_EXTENT_PREV_SIB, h)" using assms(2) i s(1,2,7) by (auto simp: extent_choose_def Let_def)
  have m: "extent_move f h op EXT2_EXTENT_PREV_SIB = Inr (None, False, ?h, Some (int i))"
    using i s(7) by (auto simp: extent_move_def Let_def)
  have "ext2fs_extent_get (Suc fuel) f h op x = Inr (None, ?h, ext)" for fuel x
    using c m e(1) s(1,2) assms(2) by (auto simp: ext2fs_extent_get_def)
  then show ?thesis using a e(2) by blast
qed

lemma step_prev_end:
  assumes "at c es 0 h f" "op \<in> {EXT2_EXTENT_PREV_SIB, EXT2_EXTENT_PREV_LEAF}"
  shows "ext2fs_extent_get (Suc fuel) f h op x = Inr (Some EXT2_ET_EXTENT_NO_PREV, h, x)"
  using assms holds_simps [of c es h f] by (auto simp: at_def ext2fs_extent_get_def extent_choose_def extent_move_def Let_def)

lemma get_first:
  assumes h: "holds c es h f" and n: "es \<noteq> []"
  shows "\<exists>h' ext. at c es 0 h' f \<and> shows_ext ext (es ! 0) \<and> (\<forall>fuel x. ext2fs_extent_get (Suc fuel) f h EXT2_EXTENT_ROOT x = Inr (None, h', ext))"
proof -
  let ?h = "set_path (\<lambda>p. p\<lparr>ep_left := length es - 1, ep_curr := Some 0, ep_visit_num := 0\<rparr>) h"
  note s = holds_simps [OF h]
  have a: "at c es 0 ?h f" using holds_move [OF h] s(1-7) n by (simp add: at_def)
  obtain ext where e: "extent_decode ?h (int 0) = Inr ext" "shows_ext ext (es ! 0)" using decode_ext [OF a] by blast
  have "h\<lparr>h_level := 0\<rparr> = h" using s(1) by (cases h) simp
  then have m: "extent_move f h EXT2_EXTENT_ROOT EXT2_EXTENT_ROOT = Inr (None, False, ?h, Some (int 0))"
    using s(1-7) n by (simp add: extent_move_def next_sib_def Let_def set_path_def cur_path_def)
  have "ext2fs_extent_get (Suc fuel) f h EXT2_EXTENT_ROOT x = Inr (None, ?h, ext)" for fuel x
    using m e(1) by (simp add: ext2fs_extent_get_def extent_choose_def Let_def)
  then show ?thesis using a e(2) by blast
qed


section \<open>Searching\<close>

definition ext_start :: "ext4 \<Rightarrow> nat" where "ext_start x = fst x"
definition ext_end :: "ext4 \<Rightarrow> nat" where "ext_end x = fst x + fst (snd x)"

definition covers :: "ext4 \<Rightarrow> nat \<Rightarrow> bool" where "covers x b \<longleftrightarrow> ext_start x \<le> b \<and> b < ext_end x"

lemma shows_numbers:
  assumes "shows_ext ext (l, n, p, u)" "fits (l, n, p, u)"
  shows "unat (e_lblk ext) = l" "unat (e_len ext) = n" "unat (e_pblk ext) = p" "e_uninit ext = u" "unat (ucast (e_len ext) :: u64) = n"
    "unat (e_lblk ext + ucast (e_len ext)) = l + n" "unat (e_pblk ext + ucast (e_len ext)) = p + n"
proof -
  have b: "1 \<le> n" "l + n \<le> 2 ^ 32" "p + n \<le> 2 ^ 48" "n \<le> 32768" using assms(2) by (auto simp: EXT_UNINIT_MAX_LEN_def EXT_INIT_MAX_LEN_def split: if_splits)
  show l: "unat (e_lblk ext) = l" and n: "unat (e_len ext) = n" and p: "unat (e_pblk ext) = p" and "e_uninit ext = u"
    using assms(1) b by (simp_all add: unat_of_nat take_bit_nat_eq_self)
  show n': "unat (ucast (e_len ext) :: u64) = n" using n by simp
  show "unat (e_lblk ext + ucast (e_len ext)) = l + n" "unat (e_pblk ext + ucast (e_len ext)) = p + n"
    using l p n' b by (simp_all add: unat_word_ariths)
qed

lemma shows_covers:
  assumes "shows_ext ext x" "fits x"
  shows "e_lblk ext \<le> blk \<and> blk < e_lblk ext + ucast (e_len ext) \<longleftrightarrow> covers x (unat blk)" "blk < e_lblk ext \<longleftrightarrow> unat blk < ext_start x"
proof -
  obtain l n p u where "x = (l, n, p, u)" by (cases x)
  then show "e_lblk ext \<le> blk \<and> blk < e_lblk ext + ucast (e_len ext) \<longleftrightarrow> covers x (unat blk)" "blk < e_lblk ext \<longleftrightarrow> unat blk < ext_start x"
    using shows_numbers [of ext l n p u] assms by (auto simp: word_le_nat_alt word_less_nat_alt covers_def ext_start_def ext_end_def)
qed

text \<open>The first extent that does not end before the block, and how the search answers.\<close>

definition sought :: "ext4 list \<Rightarrow> nat \<Rightarrow> nat \<Rightarrow> bool" where
  "sought es b i \<longleftrightarrow> (\<forall>j < i. ext_end (es ! j) \<le> b) \<and> i \<le> length es \<and> (i < length es \<longrightarrow> b < ext_end (es ! i))"

definition reached :: "ext4 list \<Rightarrow> nat \<Rightarrow> nat \<Rightarrow> errcode_t \<times> nat" where
  "reached es b i = (if i < length es \<and> ext_start (es ! i) \<le> b then (None, i) else (Some EXT2_ET_EXTENT_NOT_FOUND, i - 1))"

lemma scan:
  assumes "at c es j h f" "shows_ext ext (es ! j)" "\<forall>x \<in> set es. fits x" "sought es (unat blk) i" "reached es (unat blk) i = (r, i')" "j \<le> i" "length es - j < fuel"
  shows "\<exists>h'. goto_loop fuel f 0 blk h ext = Inr (r, h') \<and> at c es i' h' f"
  using assms
proof (induction "length es - j" arbitrary: j h ext fuel)
  case 0
  then show ?case by (simp add: at_def)
next
  case (Suc d)
  note s = holds_simps [OF at_holds [OF Suc(3)]]
  obtain fuel' where fuel: "fuel = Suc fuel'" using Suc(9) by (cases fuel) auto
  have j: "j < length es" using Suc(2) by simp
  have "fits (es ! j)" using Suc(5) j by simp
  note cv = shows_covers [OF Suc(4) this, of blk]
  have start: "ext_start (es ! j) \<le> ext_end (es ! j)" by (simp add: ext_start_def ext_end_def)
  show ?case
  proof (cases "j = i")
    case True
    then have e: "unat blk < ext_end (es ! j)" using Suc(6) j by (auto simp: sought_def)
    show ?thesis
    proof (cases "ext_start (es ! j) \<le> unat blk")
      case True
      then show ?thesis using \<open>j = i\<close> e cv Suc(3,7) s(1,2) j fuel by (auto simp: reached_def covers_def)
    next
      case False
      then have r: "r = Some EXT2_ET_EXTENT_NOT_FOUND" "i' = j - 1" using Suc(7) \<open>j = i\<close> by (auto simp: reached_def)
      have g: "goto_loop fuel f 0 blk h ext = and_then (ext2fs_extent_get (Suc fuel') f h EXT2_EXTENT_PREV_SIB ext) (\<lambda>(r, h1, ext1). Inr (Some EXT2_ET_EXTENT_NOT_FOUND, h1))"
        using False cv s(1,2) fuel by (auto simp: covers_def)
      show ?thesis
      proof (cases j)
        case 0
        then show ?thesis using g r step_prev_end [of c es h f] Suc(3) by auto
      next
        case (Suc k)
        then show ?thesis using g r step_prev [of c es k h f EXT2_EXTENT_PREV_SIB] Suc.prems(1) by auto
      qed
    qed
  next
    case False
    then have e: "ext_end (es ! j) \<le> unat blk" "j < i" using Suc(6,8) by (auto simp: sought_def)
    then have g: "goto_loop fuel f 0 blk h ext = and_then (ext2fs_extent_get (Suc fuel') f h EXT2_EXTENT_NEXT_SIB ext) (\<lambda>(r, h1, ext1).
        if r = Some EXT2_ET_EXTENT_NO_NEXT then Inr (Some EXT2_ET_EXTENT_NOT_FOUND, h1) else if r \<noteq> None then Inr (r, h1) else goto_loop fuel' f 0 blk h1 ext1)"
      using cv s(1,2) fuel start by (auto simp: covers_def)
    show ?thesis
    proof (cases "Suc j < length es")
      case True
      then obtain h' ext' where n: "at c es (Suc j) h' f" "shows_ext ext' (es ! Suc j)" "\<forall>fuel x. ext2fs_extent_get (Suc fuel) f h EXT2_EXTENT_NEXT_SIB x = Inr (None, h', ext')"
        using step_next [OF Suc(3)] by blast
      then have "goto_loop fuel f 0 blk h ext = goto_loop fuel' f 0 blk h' ext'" using g by simp
      then show ?thesis using Suc(1) [OF _ n(1,2) Suc(5-7), of fuel'] Suc(2,9) e(2) fuel by auto
    next
      case False
      then have l: "Suc j = length es" "i = length es" using j e(2) Suc(6) by (auto simp: sought_def)
      then have "(r, i') = (Some EXT2_ET_EXTENT_NOT_FOUND, j)" using Suc(7) by (auto simp: reached_def)
      then show ?thesis using g step_next_end [OF Suc(3) l(1), of EXT2_EXTENT_NEXT_SIB] Suc(3) by auto
    qed
  qed
qed

lemma goto_at:
  assumes "holds c es h f" "es \<noteq> []" "\<forall>x \<in> set es. fits x" "sought es (unat blk) i" "reached es (unat blk) i = (r, i')" "length es + 1 \<le> fuel"
  shows "\<exists>h'. ext2fs_extent_goto2 fuel f h 0 blk = Inr (r, h') \<and> at c es i' h' f"
proof -
  obtain h1 ext where h: "at c es 0 h1 f" "shows_ext ext (es ! 0)" "\<forall>fuel x. ext2fs_extent_get (Suc fuel) f h EXT2_EXTENT_ROOT x = Inr (None, h1, ext)"
    using get_first [OF assms(1,2)] by blast
  obtain h' where "goto_loop fuel f 0 blk h1 ext = Inr (r, h')" "at c es i' h' f" using scan [OF h(1,2) assms(3-5), of fuel] assms(6) by auto
  moreover obtain fuel' where "fuel = Suc fuel'" using assms(6) by (cases fuel) auto
  moreover note holds_simps [OF at_holds [OF h(1)]]
  ultimately show ?thesis using h(3) by (simp add: ext2fs_extent_goto2_def del: goto_loop.simps)
qed

section \<open>Changes\<close>

lemma replace_at:
  assumes a: "at c es i h f" and x: "shows_ext ext x" "fits x"
  shows "\<exists>h' f'. ext2fs_extent_replace f h ext = Inr (None, h', f') \<and> at c (es[i := x]) i h' f'"
proof -
  let ?buf = "ep_buf (cur_path h)" and ?m = "snd (snd (snd c))"
  have h: "holds c es h f" and i: "i < length es" "ep_curr (cur_path h) = Some (int i)" "ep_left (cur_path h) = length es - 1 - i"
    using a by (simp_all add: at_def)
  note s = holds_simps [OF h]
  have b: "leaf_root ?m ?buf" "i < eh_entries ?buf" "extents ?buf = es" using h i(1) s(8) by (auto simp: holds_def)
  obtain buf' where b': "put_leaf (12 + 12 * i) ext ?buf = (None, buf')" "leaf_root ?m buf'" "extents buf' = es[i := x]"
    using replace_node [OF b(1,2) x] b(3) by auto
  let ?h = "set_path (\<lambda>p. p\<lparr>ep_buf := buf'\<rparr>) h"
  obtain f' where u: "update_path f ?h = Inr (None, ?h, f')" "holds c (es[i := x]) ?h f'"
    using holds_edit [OF h b'(2,3), of "\<lambda>p. p\<lparr>ep_buf := buf'\<rparr>"] s(7) by auto
  have e: "entry_at ?buf (int i) = Inr (ent ?buf i)" using leaf_root_bounds [OF b(1)] b(2) by (intro entry_at_ent) simp
  have o: "nat (12 + 12 * int i) = 12 + 12 * i" by simp
  have "ext2fs_extent_replace f h ext = Inr (None, ?h, f')"
    unfolding ext2fs_extent_replace_def Let_def i(2) option.case e and_then_Inr o using s(1,2,5) b'(1) u(1) by simp
  moreover have "at c (es[i := x]) i ?h f'" using u(2) i s(4) by (simp add: at_def)
  ultimately show ?thesis by blast
qed


lemma set_path_set_path [simp]: "h_level h < length (h_path h) \<Longrightarrow> set_path g (set_path g' h) = set_path (\<lambda>p. g (g' p)) h"
  by (simp add: set_path_def cur_path_def)

lemma update_again:
  assumes "holds c es h f"
  shows "update_path f h = Inr (None, h, f)"
proof -
  have "cur_path h = h_path h ! 0" using holds_simps(1) [OF assms] by (simp add: cur_path_def)
  then have "saved f (h_inode h) (h_ino h) (ep_buf (h_path h ! 0)) = f" using assms by (auto simp: holds_def)
  then show ?thesis using holds_simps(1,6) [OF assms] by (simp add: update_path_def handle_inode_def saved_def)
qed

text \<open>An insertion at \<open>k\<close>, wherever the handle stands before.\<close>

lemma insert_holds:
  assumes h: "holds c es h f" and k: "k \<le> length es" "length es < snd (snd (snd c))" and x: "shows_ext ext x" "fits x"
    and pos: "(case ep_curr (cur_path h) of
        Some j \<Rightarrow> if has flags EXT2_EXTENT_INSERT_AFTER then (j + 1, int (ep_left (cur_path h)) - 1) else (j, int (ep_left (cur_path h)))
      | None \<Rightarrow> (0, - 1)) = (int k, int (length es) - 1 - int k)"
  shows "\<exists>h' f'. ext2fs_extent_insert f h flags ext = Inr (None, h', f') \<and> at c (take k es @ x # drop k es) k h' f'"
proof -
  let ?buf = "ep_buf (cur_path h)" and ?m = "snd (snd (snd c))" and ?n = "length es"
  note s = holds_simps [OF h]
  have b: "leaf_root ?m ?buf" "k \<le> eh_entries ?buf" "eh_entries ?buf < ?m" "extents ?buf = es" "ep_max_entries (cur_path h) = ?m"
    using h k s(8) by (auto simp: holds_def)
  obtain buf1 buf' where b1: "(if k < ?n then move_entries (int k + 1) (int k) (?n - k) ?buf else Inr ?buf) = Inr buf1"
    "length (put_entries (?n + 1) buf1) = 60" "put_leaf (12 + 12 * k) ext (put_entries (?n + 1) buf1) = (None, buf')"
    "leaf_root ?m buf'" "extents buf' = take k es @ x # drop k es"
    using insert_node [OF b(1-3) x, unfolded b(4) s(8) [symmetric]] by blast
  let ?g1 = "\<lambda>p. p\<lparr>ep_buf := put_entries (?n + 1) buf1, ep_left := ?n - k, ep_entries := ?n + 1, ep_curr := Some (int k)\<rparr>"
  let ?g = "\<lambda>p. p\<lparr>ep_left := ?n - k, ep_entries := ?n + 1, ep_curr := Some (int k), ep_buf := buf'\<rparr>"
  obtain f' where u: "update_path f (set_path ?g h) = Inr (None, set_path ?g h, f')" "holds c (take k es @ x # drop k es) (set_path ?g h) f'"
    using holds_edit [OF h b1(4,5), of ?g] k(1) by auto
  have e: "entry_at (put_entries (?n + 1) buf1) (int k) = Inr (ent (put_entries (?n + 1) buf1) k)"
    using b1(2) k leaf_root_bounds(2) [OF b(1)] by (intro entry_at_ent) simp
  have o: "nat (12 + 12 * int k) = 12 + 12 * k" by simp
  have "set_path (\<lambda>p. p\<lparr>ep_buf := buf'\<rparr>) (set_path ?g1 h) = set_path ?g h" using s(4) by simp
  then have r: "ext2fs_extent_replace f (set_path ?g1 h) ext = Inr (None, set_path ?g h, f')"
    using s(1,2,4,5) b1(3) u(1) e o by (simp add: ext2fs_extent_replace_def Let_def)
  have mv: "(if int ?n - 1 - int k \<ge> 0 then move_entries (int k + 1) (int k) (?n - k) ?buf else Inr ?buf) = Inr buf1"
    using b1(1) by (cases "k < ?n") simp_all
  have nk: "nat (int ?n - 1 - int k + 1) = ?n - k" using k(1) by simp
  have "ext2fs_extent_insert f h flags ext = Inr (None, set_path ?g h, f')"
    unfolding ext2fs_extent_insert_def Let_def pos prod.case mv and_then_Inr nk s(7) b(5)
    using s(5) k(2) r update_again [OF u(2)] by simp
  moreover have "at c (take k es @ x # drop k es) k (set_path ?g h) f'" using u(2) k(1) s(4) by (simp add: at_def)
  ultimately show ?thesis by blast
qed

lemma insert_before:
  assumes "at c es i h f" "length es < snd (snd (snd c))" "shows_ext ext x" "fits x"
  shows "\<exists>h' f'. ext2fs_extent_insert f h 0 ext = Inr (None, h', f') \<and> at c (take i es @ x # drop i es) i h' f'"
  using assms by (intro insert_holds) (auto simp: at_def)

lemma insert_after:
  assumes "at c es i h f" "length es < snd (snd (snd c))" "shows_ext ext x" "fits x"
  shows "\<exists>h' f'. ext2fs_extent_insert f h EXT2_EXTENT_INSERT_AFTER ext = Inr (None, h', f') \<and> at c (take (Suc i) es @ x # drop (Suc i) es) (Suc i) h' f'"
  using assms by (intro insert_holds) (auto simp: at_def has_def EXT2_EXTENT_INSERT_AFTER_def)

lemma insert_empty:
  assumes "holds c [] h f" "ep_curr (cur_path h) = None" "0 < snd (snd (snd c))" "shows_ext ext x" "fits x"
  shows "\<exists>h' f'. ext2fs_extent_insert f h 0 ext = Inr (None, h', f') \<and> at c [x] 0 h' f'"
  using insert_holds [of c "[]" h f 0 ext x 0] assms by auto

lemma delete_at:
  assumes a: "at c es i h f"
  shows "\<exists>h' f'. ext2fs_extent_delete f h 0 = Inr (None, h', f') \<and>
    (if length es = 1 then holds c [] h' f' \<and> ep_curr (cur_path h') = None
     else at c (take i es @ drop (Suc i) es) (if Suc i < length es then i else i - 1) h' f')"
proof -
  let ?buf = "ep_buf (cur_path h)" and ?m = "snd (snd (snd c))" and ?n = "length es - 1"
  have h: "holds c es h f" and i: "i < length es" "ep_curr (cur_path h) = Some (int i)" "ep_left (cur_path h) = ?n - i" using a by (simp_all add: at_def)
  note s = holds_simps [OF h]
  have b: "leaf_root ?m ?buf" "i < eh_entries ?buf" "extents ?buf = es" using h i(1) s(8) by (auto simp: holds_def)
  obtain buf1 where b1: "(if i < ?n then move_entries (int i) (int i + 1) (?n - i) ?buf else Inr ?buf) = Inr buf1"
    "leaf_root ?m (put_entries ?n buf1)" "extents (put_entries ?n buf1) = take i es @ drop (Suc i) es"
    using delete_node [OF b(1,2), unfolded b(3) s(8) [symmetric]] by blast
  have mv: "(if 0 < ?n - i then move_entries (int i) (int i + 1) (?n - i) ?buf else Inr ?buf) = Inr buf1" using b1(1) by (simp only: zero_less_diff)
  let ?curr = "if ?n = 0 then None else if ?n - i > 0 then Some (int i) else Some (int i - 1)"
  let ?g = "\<lambda>p. p\<lparr>ep_left := ?n - i - 1, ep_entries := ?n, ep_curr := ?curr, ep_buf := put_entries ?n buf1\<rparr>"
  have len: "length (take i es @ drop (Suc i) es) = ?n" using i(1) by simp
  have g: "ep_buf (?g (cur_path h)) = put_entries ?n buf1" "ep_entries (?g (cur_path h)) = length (take i es @ drop (Suc i) es)"
    "ep_max_entries (?g (cur_path h)) = ep_max_entries (cur_path h)" unfolding len by simp_all
  obtain f' where u: "update_path f (set_path ?g h) = Inr (None, set_path ?g h, f')" "holds c (take i es @ drop (Suc i) es) (set_path ?g h) f'"
    using holds_edit [where g = ?g, OF h b1(2,3) g] by blast
  have z: "put_le 2 6 (0 :: u16) (put_entries ?n buf1) = put_entries ?n buf1"
  proof -
    have "word_of_le (take 2 (drop 6 (put_entries ?n buf1))) = (0 :: u16)" "length (put_entries ?n buf1) = 60"
      using b1(2) by (simp_all add: leaf_root_def eh_depth_def le16_at_def unat_eq_0)
    then show ?thesis using put_le_field [of 6 2 "put_entries ?n buf1", where 'a = 16] by simp
  qed
  have "h'\<lparr>h_max_depth := 0\<rparr> = h'" if "h_max_depth h' = 0" for h' :: extent_handle using that by (cases h') simp
  then have d: "(set_path ?g h)\<lparr>h_max_depth := 0\<rparr> = set_path ?g h" using s(2) by simp
  have "ext2fs_extent_delete f h 0 = Inr (None, set_path ?g h, f')"
    unfolding ext2fs_extent_delete_def Let_def i(2,3) option.case s(7) mv and_then_Inr
    using s(1,5) i(1) u(1) d z by (cases "?n = 0") auto
  moreover have "ep_curr (cur_path (set_path ?g h)) = ?curr" "ep_left (cur_path (set_path ?g h)) = ?n - i - 1" using s(4) by simp_all
  ultimately show ?thesis using u(2) i(1) len by (intro exI [of _ "set_path ?g h"] exI [of _ f']) (auto simp: at_def)
qed

lemma fix_parents_at:
  assumes a: "at c es i h f" and es: "\<forall>x \<in> set es. fits x" and r: "sought es (ext_start (es ! i)) j" "reached es (ext_start (es ! i)) j = (None, i')"
    and fuel: "length es + 1 \<le> fuel"
  shows "\<exists>h'. ext2fs_extent_fix_parents fuel f h = Inr (None, h', f) \<and> at c es i' h' f"
proof -
  note s = holds_simps [OF at_holds [OF a]]
  obtain ext where e: "shows_ext ext (es ! i)" "\<forall>fuel x. ext2fs_extent_get (Suc fuel) f h EXT2_EXTENT_CURRENT x = Inr (None, h, ext)"
    using get_current [OF a] by blast
  have i: "i < length es" "ep_curr (cur_path h) = Some (int i)" using a by (simp_all add: at_def)
  obtain l n p u where x: "es ! i = (l, n, p, u)" by (cases "es ! i")
  have "fits (es ! i)" using es i by simp
  then have "unat (e_lblk ext) = ext_start (es ! i)" using shows_numbers(1) [of ext l n p u] e(1) x by (simp add: ext_start_def)
  moreover have "es \<noteq> []" using i by auto
  ultimately obtain h' where "ext2fs_extent_goto2 fuel f h 0 (e_lblk ext) = Inr (None, h')" "at c es i' h' f"
    using goto_at [OF at_holds [OF a] _ es _ _ fuel, of "e_lblk ext" j None i'] r by auto
  moreover obtain fuel' where "fuel = Suc fuel'" using fuel by (cases fuel) auto
  ultimately show ?thesis using e(2) s i(2) by (simp add: ext2fs_extent_fix_parents_def Let_def)
qed

end
