(* ===== verification/Extent_Set.thy ===== *)
theory Extent_Set
  imports Extent_Map
begin

text \<open>
  The branches of \<open>ext2fs_extent_set_bmap\<close> on the list of extents of a root without children: each of them
  changes the mapping at the given block only, and keeps the extents in order and apart.
\<close>

section \<open>The mapping of a list of extents\<close>

fun emap :: "ext4 list \<Rightarrow> nat \<Rightarrow> (nat \<times> bool) option" where
  "emap [] b = None"
| "emap ((l, n, p, u) # es) b = (if l \<le> b \<and> b < l + n then Some (p + (b - l), u) else emap es b)"

definition well :: "ext4 list \<Rightarrow> bool" where
  "well es \<longleftrightarrow> (\<forall>x \<in> set es. fits x) \<and> sorted_wrt (\<lambda>x y. ext_end x \<le> ext_start y) es"

lemma emap_append: "emap (xs @ ys) b = (case emap xs b of None \<Rightarrow> emap ys b | Some v \<Rightarrow> Some v)"
  by (induction xs b rule: emap.induct) simp_all

lemma emap_none: "\<forall>x \<in> set es. \<not> covers x b \<Longrightarrow> emap es b = None"
  by (induction es b rule: emap.induct) (auto simp: covers_def ext_start_def ext_end_def)

text \<open>A change of some consecutive extents.\<close>

lemma emap_splice:
  assumes "\<forall>x \<in> set pre \<union> set post. \<not> covers x b" "emap mid' = (emap mid)(b := v)"
  shows "emap (pre @ mid' @ post) = (emap (pre @ mid @ post))(b := v)"
proof
  fix a
  have "emap pre b = None" "emap post b = None" using assms(1) by (auto intro: emap_none)
  then show "emap (pre @ mid' @ post) a = ((emap (pre @ mid @ post))(b := v)) a"
    using assms(2) by (auto simp: emap_append split: option.splits)
qed

lemma well_splice:
  assumes "well (pre @ mid @ post)" "\<forall>y \<in> set mid'. fits y" "sorted_wrt (\<lambda>x y. ext_end x \<le> ext_start y) mid'"
    and "\<forall>y \<in> set mid'. (\<forall>x \<in> set pre. ext_end x \<le> ext_start y) \<and> (\<forall>z \<in> set post. ext_end y \<le> ext_start z)"
  shows "well (pre @ mid' @ post)"
  using assms by (auto simp: well_def sorted_wrt_append)

definition sets :: "ext4 list \<Rightarrow> nat \<Rightarrow> (nat \<times> bool) option \<Rightarrow> ext4 list \<Rightarrow> bool" where
  "sets es b v es' \<longleftrightarrow> well es' \<and> emap es' = (emap es)(b := v)"

lemma sets_splice:
  assumes "well (pre @ mid @ post)" "\<forall>x \<in> set pre. ext_end x \<le> b" "\<forall>z \<in> set post. b < ext_start z"
    and "\<forall>y \<in> set mid'. fits y" "sorted_wrt (\<lambda>x y. ext_end x \<le> ext_start y) mid'"
    and "\<forall>y \<in> set mid'. (\<forall>x \<in> set pre. ext_end x \<le> ext_start y) \<and> (\<forall>z \<in> set post. ext_end y \<le> ext_start z)"
    and "emap mid' = (emap mid)(b := v)"
  shows "sets (pre @ mid @ post) b v (pre @ mid' @ post)"
proof -
  have "\<forall>x \<in> set pre \<union> set post. \<not> covers x b" using assms(2,3) by (auto simp: covers_def)
  then show ?thesis unfolding sets_def using well_splice [OF assms(1,4,5,6)] emap_splice [OF _ assms(7)] by blast
qed

lemma well_nth:
  assumes "well es" "j < k" "k < length es"
  shows "ext_end (es ! j) \<le> ext_start (es ! k)"
  using assms by (simp add: well_def sorted_wrt_iff_nth_less)

lemma fits_range: "fits x \<Longrightarrow> ext_start x < ext_end x"
  by (cases x) (simp add: ext_start_def ext_end_def)

text \<open>Where the search for a block stops in a list that is in order.\<close>

lemma well_sought:
  assumes "well es" "i < length es"
  shows "sought es (ext_start (es ! i)) i" "reached es (ext_start (es ! i)) i = (None, i)"
proof -
  have "fits (es ! i)" using assms by (simp add: well_def)
  then show "sought es (ext_start (es ! i)) i" "reached es (ext_start (es ! i)) i = (None, i)"
    using assms well_nth [OF assms(1) _ assms(2)] fits_range by (auto simp: sought_def reached_def)
qed

lemma sought_exists: "\<exists>i. sought es b i"
proof (induction es rule: rev_induct)
  case (snoc x es)
  then obtain i where i: "sought es b i" by blast
  show ?case
  proof (cases "i < length es")
    case True
    then show ?thesis using i by (intro exI [of _ i]) (auto simp: sought_def nth_append)
  next
    case False
    then have "i = length es" using i by (simp add: sought_def)
    then show ?thesis using i by (intro exI [of _ "if ext_end x \<le> b then Suc i else i"]) (auto simp: sought_def nth_append less_Suc_eq)
  qed
qed (simp add: sought_def)

lemma fix_parents_well:
  assumes "at c es i h f" "well es" "length es + 1 \<le> fuel"
  shows "\<exists>h'. ext2fs_extent_fix_parents fuel f h = Inr (None, h', f) \<and> at c es i h' f"
proof -
  have "i < length es" "\<forall>x \<in> set es. fits x" using assms(1,2) by (simp_all add: at_def well_def)
  then show ?thesis using fix_parents_at [OF assms(1) _ _ _ assms(3)] well_sought [OF assms(2)] by blast
qed

section \<open>Numbers\<close>

definition max_len :: "bool \<Rightarrow> int" where
  "max_len u = int (if u then EXT_UNINIT_MAX_LEN else EXT_INIT_MAX_LEN)"

lemma max_len_bounds: "max_len u = (if u then 32767 else 32768)"
  by (simp add: max_len_def EXT_UNINIT_MAX_LEN_def EXT_INIT_MAX_LEN_def)

lemma fits_iff: "fits (l, n, p, u) \<longleftrightarrow> 1 \<le> n \<and> int n \<le> max_len u \<and> l + n \<le> 2 ^ 32 \<and> 1 \<le> p \<and> p + n \<le> 2 ^ 48"
  by (auto simp: max_len_def)

declare fits.simps [simp del]

text \<open>The block that is mapped: its numbers, which fit an entry.\<close>

definition block_fits :: "u64 \<Rightarrow> u64 \<Rightarrow> bool" where
  "block_fits logical physical \<longleftrightarrow> unat logical < 2 ^ 32 \<and> unat physical < 2 ^ 48"

lemma u64_eq: "a = b \<longleftrightarrow> unat a = unat b" for a b :: u64
  by (simp add: word_unat_eq_iff)

lemma unat_pred: "unat (a - 1) = (if a = 0 then 2 ^ 64 - 1 else unat a - 1)" for a :: u64
  by (simp add: unat_minus_one unsigned_minus_1_eq_mask mask_eq_exp_minus_1)

lemma sint_len: "n \<le> 32768 \<Longrightarrow> sint (of_nat n :: u32) = int n"
  by (simp add: signed_of_nat signed_take_bit_int_eq_self)

lemma shows_of: "shows_ext ext (l, n, p, u) \<Longrightarrow> fits (l, n, p, u) \<Longrightarrow> l < 2 ^ 32 \<and> n \<le> 32768 \<and> p < 2 ^ 48"
  by (auto simp: fits_iff max_len_bounds split: if_splits)

lemma joins_after_iff:
  assumes s: "shows_ext ext (l, n, p, u')" "fits (l, n, p, u')" and b: "block_fits logical physical"
  shows "joins_after logical physical u (max_len u) ext \<longleftrightarrow> unat logical = l + n \<and> unat physical = p + n \<and> u = u' \<and> int n < max_len u - 1"
  using shows_numbers [OF s] s shows_of [OF s] by (auto simp: joins_after_def u64_eq sint_len)

lemma joins_before_iff:
  assumes s: "shows_ext ext (l, n, p, u')" "fits (l, n, p, u')" and b: "block_fits logical physical"
  shows "joins_before logical physical u (max_len u) ext \<longleftrightarrow> unat logical + 1 = l \<and> unat physical + 1 = p \<and> u = u' \<and> int n < max_len u - 1"
proof -
  have z: "e_lblk ext = 0 \<longleftrightarrow> l = 0" "e_pblk ext = 0 \<longleftrightarrow> p = 0" using shows_numbers(1,3) [OF s] by (auto simp: unat_eq_0)
  then show ?thesis using shows_numbers [OF s] s(1) shows_of [OF s] b
    by (auto simp: joins_before_def u64_eq unat_pred sint_len block_fits_def)
qed

lemma shows_grow_after: "shows_ext ext (l, n, p, u) \<Longrightarrow> shows_ext (grow_after ext) (l, n + 1, p, u)"
  by (simp add: grow_after_def)

lemma shows_grow_before: "shows_ext ext (l + 1, n, p + 1, u) \<Longrightarrow> shows_ext (grow_before ext) (l, n + 1, p, u)"
  by (simp add: grow_before_def)

lemma shows_new: "shows_ext (new_extent logical physical u) (unat logical, 1, unat physical, u)"
  by (simp add: new_extent_def)

lemma fits_new: "block_fits logical physical \<Longrightarrow> physical \<noteq> 0 \<Longrightarrow> fits (unat logical, 1, unat physical, u)"
  using unat_eq_0 [of physical] by (auto simp: fits_iff max_len_bounds block_fits_def)


section \<open>Branches for a mapped block\<close>

text \<open>What an operation achieves: it succeeds, and the list of extents after it has the block mapped as wanted.\<close>

definition target :: "u64 \<Rightarrow> bool \<Rightarrow> (nat \<times> bool) option" where
  "target physical u = (if physical = 0 then None else Some (unat physical, u))"

definition achieves :: "opened \<Rightarrow> ext4 list \<Rightarrow> nat \<Rightarrow> (nat \<times> bool) option \<Rightarrow> edit \<Rightarrow> bool" where
  "achieves c es b v m \<longleftrightarrow> (\<exists>h' f' es'. m = Inr (None, h', f') \<and> holds c es' h' f' \<and> sets es b v es')"

lemma achieves_at: "m = Inr (None, h', f') \<Longrightarrow> at c es' i h' f' \<Longrightarrow> sets es b v es' \<Longrightarrow> achieves c es b v m"
  unfolding achieves_def using at_holds by blast

text \<open>The extent at \<open>i\<close> has the block, between the extents before and after.\<close>

lemma well_sides:
  assumes "well es" "i < length es"
  shows "es = take i es @ [es ! i] @ drop (Suc i) es" "\<forall>x \<in> set (take i es). ext_end x \<le> ext_start (es ! i)"
    "\<forall>z \<in> set (drop (Suc i) es). ext_end (es ! i) \<le> ext_start z"
proof -
  show e: "es = take i es @ [es ! i] @ drop (Suc i) es" using assms(2) by (simp add: id_take_nth_drop)
  have "sorted_wrt (\<lambda>x y. ext_end x \<le> ext_start y) (take i es @ [es ! i] @ drop (Suc i) es)" using assms(1) e by (simp add: well_def)
  then show "\<forall>x \<in> set (take i es). ext_end x \<le> ext_start (es ! i)" "\<forall>z \<in> set (drop (Suc i) es). ext_end (es ! i) \<le> ext_start z"
    by (simp_all add: sorted_wrt_append)
qed

lemma well_around:
  assumes w: "well es" "i < length es" and b: "covers (es ! i) b"
  shows "es = take i es @ [es ! i] @ drop (Suc i) es" "\<forall>x \<in> set (take i es). ext_end x \<le> ext_start (es ! i)"
    "\<forall>z \<in> set (drop (Suc i) es). ext_end (es ! i) \<le> ext_start z" "\<forall>x \<in> set (take i es). ext_end x \<le> b" "\<forall>z \<in> set (drop (Suc i) es). b < ext_start z"
proof -
  show "es = take i es @ [es ! i] @ drop (Suc i) es" and s: "\<forall>x \<in> set (take i es). ext_end x \<le> ext_start (es ! i)"
    "\<forall>z \<in> set (drop (Suc i) es). ext_end (es ! i) \<le> ext_start z" by (rule well_sides [OF w])+
  then show "\<forall>x \<in> set (take i es). ext_end x \<le> b" "\<forall>z \<in> set (drop (Suc i) es). b < ext_start z" using b by (fastforce simp: covers_def)+
qed

lemma sets_one:
  assumes w: "well es" "i < length es" "covers (es ! i) b"
    and m: "\<forall>y \<in> set mid'. fits y" "sorted_wrt (\<lambda>x y. ext_end x \<le> ext_start y) mid'" "\<forall>y \<in> set mid'. ext_start (es ! i) \<le> ext_start y \<and> ext_end y \<le> ext_end (es ! i)"
    and v: "emap mid' = (emap [es ! i])(b := v)"
  shows "sets es b v (take i es @ mid' @ drop (Suc i) es)"
proof -
  note a = well_around [OF w]
  have w': "well (take i es @ [es ! i] @ drop (Suc i) es)" using w(1) a(1) by simp
  have "\<forall>y \<in> set mid'. (\<forall>x \<in> set (take i es). ext_end x \<le> ext_start y) \<and> (\<forall>z \<in> set (drop (Suc i) es). ext_end y \<le> ext_start z)"
    using a(2,3) m(3) by (meson le_trans)
  from sets_splice [OF w' a(4,5) m(1,2) this v] show ?thesis using a(1) by simp
qed

lemma sets_two:
  assumes w: "well es" "Suc i < length es" "ext_start (es ! i) \<le> b" "b < ext_end (es ! Suc i)"
    and m: "\<forall>y \<in> set mid'. fits y" "sorted_wrt (\<lambda>x y. ext_end x \<le> ext_start y) mid'" "\<forall>y \<in> set mid'. ext_start (es ! i) \<le> ext_start y \<and> ext_end y \<le> ext_end (es ! Suc i)"
    and v: "emap mid' = (emap [es ! i, es ! Suc i])(b := v)"
  shows "sets es b v (take i es @ mid' @ drop (Suc (Suc i)) es)"
proof -
  have e: "es = take i es @ [es ! i, es ! Suc i] @ drop (Suc (Suc i)) es" using w(2) by (simp add: Cons_nth_drop_Suc Suc_lessD)
  have w': "well (take i es @ [es ! i, es ! Suc i] @ drop (Suc (Suc i)) es)" using w(1) e by simp
  then have s: "\<forall>x \<in> set (take i es). ext_end x \<le> ext_start (es ! i)" "\<forall>z \<in> set (drop (Suc (Suc i)) es). ext_end (es ! Suc i) \<le> ext_start z"
    unfolding well_def sorted_wrt_append by auto
  then have "\<forall>y \<in> set mid'. (\<forall>x \<in> set (take i es). ext_end x \<le> ext_start y) \<and> (\<forall>z \<in> set (drop (Suc (Suc i)) es). ext_end y \<le> ext_start z)"
    using m(3) by (meson le_trans)
  moreover have "\<forall>x \<in> set (take i es). ext_end x \<le> b" "\<forall>z \<in> set (drop (Suc (Suc i)) es). b < ext_start z" using s w(3,4) by (meson le_trans less_le_trans)+
  ultimately have "sets (take i es @ [es ! i, es ! Suc i] @ drop (Suc (Suc i)) es) b v (take i es @ mid' @ drop (Suc (Suc i)) es)"
    by (intro sets_splice [OF w' _ _ m(1,2) _ v])
  then show ?thesis using e by simp
qed

lemma upd_one: "i < length es \<Longrightarrow> es[i := x] = take i es @ [x] @ drop (Suc i) es"
  by (simp add: upd_conv_take_nth_drop)

lemma upd_two: "Suc i < length es \<Longrightarrow> es[Suc i := y, i := x] = take i es @ [x, y] @ drop (Suc (Suc i)) es"
  by (induction es arbitrary: i) (auto simp: upd_conv_take_nth_drop split: nat.splits)

lemma upd_insert: "i < length es \<Longrightarrow> (take (Suc i) es @ y # ys)[i := x] = take i es @ [x, y] @ ys"
  by (simp add: take_Suc_conv_app_nth list_update_append)

lemma fits_all: "well es \<Longrightarrow> \<forall>x \<in> set es. fits x"
  by (simp add: well_def)

lemma fits_update: "\<forall>x \<in> set es. fits x \<Longrightarrow> fits y \<Longrightarrow> \<forall>x \<in> set (es[i := y]). fits x"
  by (auto dest!: subsetD [OF set_update_subset_insert])

lemma fits_insert: "\<forall>x \<in> set es. fits x \<Longrightarrow> fits y \<Longrightarrow> \<forall>x \<in> set (take k es @ y # drop k es). fits x"
  by (auto dest: in_set_takeD in_set_dropD)

lemma shows_shorter: "shows_ext ext (l, n, p, u) \<Longrightarrow> 1 \<le> n \<Longrightarrow> shows_ext (ext\<lparr>e_len := e_len ext - 1\<rparr>) (l, n - 1, p, u)"
  by (simp add: of_nat_diff)

lemma fits_shorter: "fits (l, n, p, u) \<Longrightarrow> 2 \<le> n \<Longrightarrow> fits (l, n - 1, p, u) \<and> fits (l + 1, n - 1, p + 1, u)"
  by (auto simp: fits_iff)

text \<open>The neighbours of the extent at \<open>i\<close>, as the code has read them.\<close>

definition next_of :: "ext4 list \<Rightarrow> nat \<Rightarrow> ext4 option" where
  "next_of es i = (if Suc i < length es then Some (es ! Suc i) else None)"

definition prev_of :: "ext4 list \<Rightarrow> nat \<Rightarrow> ext4 option" where
  "prev_of es i = (if 0 < i then Some (es ! (i - 1)) else None)"

lemma joins_next:
  assumes "rel_option shows_ext next_ext (next_of es i)" "\<forall>x \<in> set es. fits x" "block_fits logical physical"
    "case next_ext of Some next \<Rightarrow> joins_before logical physical u (max_len u) next | None \<Rightarrow> False"
  shows "\<exists>n. Suc i < length es \<and> es ! Suc i = (unat logical + 1, n, unat physical + 1, u) \<and> int n < max_len u - 1"
proof -
  obtain next_e where n: "next_ext = Some next_e" "joins_before logical physical u (max_len u) next_e" using assms(4) by (cases next_ext) auto
  then have i: "Suc i < length es" "shows_ext next_e (es ! Suc i)" using assms(1) by (auto simp: next_of_def split: if_splits)
  obtain l m p u' where y: "es ! Suc i = (l, m, p, u')" by (cases "es ! Suc i")
  have "fits (es ! Suc i)" using assms(2) i by simp
  then show ?thesis using joins_before_iff [of next_e l m p u'] y i n(2) assms(3) by auto
qed

lemma joins_prev:
  assumes "rel_option shows_ext prev_ext (prev_of es i)" "\<forall>x \<in> set es. fits x" "i < length es" "block_fits logical physical"
    "case prev_ext of Some prev \<Rightarrow> joins_after logical physical u (max_len u) prev | None \<Rightarrow> False"
  shows "\<exists>l n p. 0 < i \<and> es ! (i - 1) = (l, n, p, u) \<and> unat logical = l + n \<and> unat physical = p + n \<and> int n < max_len u - 1"
proof -
  obtain prev where n: "prev_ext = Some prev" "joins_after logical physical u (max_len u) prev" using assms(5) by (cases prev_ext) auto
  then have i: "0 < i" "shows_ext prev (es ! (i - 1))" using assms(1) by (auto simp: prev_of_def split: if_splits)
  obtain l m p u' where y: "es ! (i - 1) = (l, m, p, u')" by (cases "es ! (i - 1)")
  have "fits (es ! (i - 1))" using assms(2,3) i(1) by simp
  then show ?thesis using joins_after_iff [of prev l m p u'] y i n(2) assms(4) by auto
qed

lemma map_only_sets:
  assumes a: "at c es i h f" and w: "well es" "es ! i = (unat logical, 1, p, u')" and b: "block_fits logical physical" and fuel: "length es + 1 \<le> fuel"
  shows "achieves c es (unat logical) (target physical u) (map_only fuel f h logical physical u)"
proof -
  let ?b = "unat logical"
  have i: "i < length es" "covers (es ! i) ?b" using a w(2) by (auto simp: at_def covers_def ext_start_def ext_end_def)
  show ?thesis
  proof (cases "physical = 0")
    case False
    let ?x = "(?b, 1, unat physical, u)"
    obtain h' f' where r: "ext2fs_extent_replace f h (new_extent logical physical u) = Inr (None, h', f')" "at c (es[i := ?x]) i h' f'"
      using replace_at [OF a shows_new fits_new [OF b False]] by blast
    have "sets es ?b (target physical u) (take i es @ [?x] @ drop (Suc i) es)"
      using fits_new [OF b False] w(2) False by (intro sets_one [OF w(1) i]) (auto simp: ext_start_def ext_end_def target_def fun_eq_iff)
    then have "sets es ?b (target physical u) (es[i := ?x])" using i(1) by (simp add: upd_conv_take_nth_drop)
    then show ?thesis using r False by (auto simp: map_only_def intro: achieves_at)
  next
    case True
    let ?es = "take i es @ drop (Suc i) es"
    have s: "sets es ?b (target physical u) ?es"
      using sets_one [OF w(1) i, of "[]" None] w(2) True by (auto simp: target_def fun_eq_iff)
    obtain h' f' where d: "ext2fs_extent_delete f h 0 = Inr (None, h', f')"
      "if length es = 1 then holds c [] h' f' \<and> ep_curr (cur_path h') = None else at c ?es (if Suc i < length es then i else i - 1) h' f'"
      using delete_at [OF a] by blast
    show ?thesis
    proof (cases "length es = 1")
      case True
      then have h: "holds c [] h' f'" "ep_curr (cur_path h') = None" "?es = []" using d(2) i(1) by auto
      have "ext2fs_extent_fix_parents fuel f' h' = Inr (Some EXT2_ET_NO_CURRENT_NODE, h', f')"
        using holds_simps(5) [OF h(1)] h(2) by (simp add: ext2fs_extent_fix_parents_def)
      then show ?thesis using d(1) h s \<open>physical = 0\<close> by (auto simp: map_only_def on_ok_def achieves_def)
    next
      case False
      then have h: "at c ?es (if Suc i < length es then i else i - 1) h' f'" using d(2) by simp
      have "well ?es" using s by (simp add: sets_def)
      moreover have "length ?es + 1 \<le> fuel" using fuel i(1) by simp
      ultimately obtain h'' where
        "ext2fs_extent_fix_parents fuel f' h' = Inr (None, h'', f')" "at c ?es (if Suc i < length es then i else i - 1) h'' f'" using fix_parents_well [OF h] by blast
      then show ?thesis using d(1) s \<open>physical = 0\<close> by (auto simp: map_only_def on_ok_def intro: achieves_at)
    qed
  qed
qed


text \<open>The block as the new first block of the extent after, and as the new last block of the one before.\<close>

lemma grow_next_at:
  assumes a: "at c es i h f" "Suc i < length es" and y: "es ! Suc i = (b + 1, n, p + 1, u)" and f: "fits (b, n + 1, p, u)" and fuel: "1 \<le> fuel"
  shows "\<exists>h' f'. grow_next fuel f h = Inr (None, h', f') \<and> at c (es[Suc i := (b, n + 1, p, u)]) (Suc i) h' f'"
proof -
  obtain h1 ext where n: "at c es (Suc i) h1 f" "shows_ext ext (es ! Suc i)" "\<forall>fuel x. ext2fs_extent_get (Suc fuel) f h EXT2_EXTENT_NEXT_LEAF x = Inr (None, h1, ext)"
    using step_next [OF a] by blast
  obtain fuel' where "fuel = Suc fuel'" using fuel by (cases fuel) auto
  then show ?thesis using replace_at [OF n(1) shows_grow_before f] n(2,3) y by (auto simp: grow_next_def)
qed

lemma grow_prev_at:
  assumes a: "at c es (Suc i) h f" and y: "es ! i = (l, n, p, u)" and f: "fits (l, n + 1, p, u)" and fuel: "1 \<le> fuel"
  shows "\<exists>h' f'. grow_prev fuel f h = Inr (None, h', f') \<and> at c (es[i := (l, n + 1, p, u)]) i h' f'"
proof -
  obtain h1 ext where n: "at c es i h1 f" "shows_ext ext (es ! i)" "\<forall>fuel x. ext2fs_extent_get (Suc fuel) f h EXT2_EXTENT_PREV_LEAF x = Inr (None, h1, ext)"
    using step_prev [OF a] by blast
  obtain fuel' where "fuel = Suc fuel'" using fuel by (cases fuel) auto
  then show ?thesis using replace_at [OF n(1) shows_grow_after f] n(2,3) y by (auto simp: grow_prev_def)
qed

text \<open>The end of \<open>map_last\<close>: the block is in two extents, at \<open>i\<close> and after it, and the one at \<open>i\<close> loses it.\<close>

lemma shorten_last:
  assumes a: "at c es1 (Suc i) h f" and es: "\<forall>x \<in> set es1. fits x" "sought es1 (unat logical) i" and start: "ext_start (es1 ! Suc i) = unat logical"
    and x: "es1 ! i = (l, n, p, u)" "2 \<le> n" "l \<le> unat logical" and fuel: "length es1 + 1 \<le> fuel"
  shows "\<exists>h' f'. on_ok (ext2fs_extent_fix_parents fuel f h)
      (\<lambda>h2 fs2. and_then (ext2fs_extent_goto fuel fs2 h2 logical) (\<lambda>(r, h3).
         if r \<noteq> None then Inr (r, h3, fs2)
         else and_then (ext2fs_extent_get fuel fs2 h3 EXT2_EXTENT_CURRENT no_extent) (\<lambda>(r, h4, ext1).
           if r \<noteq> None then Inr (r, h4, fs2) else ext2fs_extent_replace fs2 h4 (ext1\<lparr>e_len := e_len ext1 - 1\<rparr>)))) = Inr (None, h', f') \<and>
    at c (es1[i := (l, n - 1, p, u)]) i h' f'"
proof -
  have i: "Suc i < length es1" using a by (simp add: at_def)
  have r: "reached es1 (unat logical) i = (None, i)" using i x by (simp add: reached_def ext_start_def)
  obtain h2 where h2: "ext2fs_extent_fix_parents fuel f h = Inr (None, h2, f)" "at c es1 i h2 f"
    using fix_parents_at [OF a es(1) _ _ fuel] es(2) r start by auto
  obtain h3 where h3: "ext2fs_extent_goto fuel f h2 logical = Inr (None, h3)" "at c es1 i h3 f"
    using goto_at [OF at_holds [OF h2(2)] _ es r fuel] i unfolding ext2fs_extent_goto_def by fastforce
  obtain ext where e: "shows_ext ext (es1 ! i)" "\<forall>fuel x. ext2fs_extent_get (Suc fuel) f h3 EXT2_EXTENT_CURRENT x = Inr (None, h3, ext)"
    using get_current [OF h3(2)] by blast
  have f: "fits (l, n, p, u)" using es(1) x(1) i by (metis Suc_lessD nth_mem)
  have "shows_ext (ext\<lparr>e_len := e_len ext - 1\<rparr>) (l, n - 1, p, u)" using shows_shorter [of ext l n p u] e(1) x by simp
  then obtain h' f' where "ext2fs_extent_replace f h3 (ext\<lparr>e_len := e_len ext - 1\<rparr>) = Inr (None, h', f')" "at c (es1[i := (l, n - 1, p, u)]) i h' f'"
    using replace_at [OF h3(2)] fits_shorter [OF f x(2)] by blast
  moreover obtain fuel' where "fuel = Suc fuel'" using fuel by (cases fuel) auto
  ultimately show ?thesis using h2(1) h3(1) e(2) by (auto simp: on_ok_def)
qed

lemma map_last_sets:
  assumes a: "at c es i h f" and w: "well es" and x: "es ! i = (l, n, p, u')" "2 \<le> n" "unat logical + 1 = l + n" and e: "shows_ext ext (es ! i)"
    and nx: "rel_option shows_ext next_ext (next_of es i)" and b: "block_fits logical physical"
    and room: "length es < snd (snd (snd c))" and fuel: "length es + 2 \<le> fuel"
  shows "achieves c es (unat logical) (target physical u) (map_last fuel f h logical physical u (max_len u) ext next_ext)"
proof -
  let ?b = "unat logical" and ?x = "(l, n - 1, p, u')" and ?ph = "unat physical"
  have i: "i < length es" using a by (simp add: at_def)
  have f: "fits (l, n, p, u')" "\<forall>x \<in> set es. fits x" using w x(1) i by (auto simp: well_def dest: nth_mem)
  note fx = conjunct1 [OF fits_shorter [OF f(1) x(2)]]
  have cv: "covers (es ! i) ?b" using x by (simp add: covers_def ext_start_def ext_end_def)
  have sx: "shows_ext (ext\<lparr>e_len := e_len ext - 1\<rparr>) ?x" using shows_shorter [of ext l n p u'] e x by simp
  have so: "\<forall>j < i. ext_end (es ! j) \<le> ?b" using well_nth [OF w _ i] cv by (meson covers_def le_trans)
  show ?thesis
  proof (cases "physical = 0")
    case True
    have "sets es ?b (target physical u) (take i es @ [?x] @ drop (Suc i) es)"
      using fx x True by (intro sets_one [OF w i cv]) (auto simp: ext_start_def ext_end_def target_def fun_eq_iff)
    then show ?thesis using replace_at [OF a sx fx] True by (auto simp: map_last_def upd_one [OF i] intro: achieves_at)
  next
    case False
    have fn: "fits (?b, 1, ?ph, u)" by (rule fits_new [OF b False])
    show ?thesis
    proof (cases "case next_ext of Some next \<Rightarrow> joins_before logical physical u (max_len u) next | None \<Rightarrow> False")
      case True
      obtain k where k: "Suc i < length es" "es ! Suc i = (?b + 1, k, ?ph + 1, u)" "int k < max_len u - 1" using joins_next [OF nx f(2) b True] by blast
      let ?y = "(?b, k + 1, ?ph, u)"
      have "fits (es ! Suc i)" using f(2) k(1) by simp
      then have fy: "fits ?y" using k(2,3) fn by (simp add: fits_iff)
      obtain h1 f1 where g: "grow_next fuel f h = Inr (None, h1, f1)" "at c (es[Suc i := ?y]) (Suc i) h1 f1"
        using grow_next_at [OF a k(1,2) fy, of fuel] fuel by auto
      have s: "sought (es[Suc i := ?y]) ?b i" using so x i by (simp add: sought_def ext_end_def)
      obtain h' f' where m: "map_last fuel f h logical physical u (max_len u) ext next_ext = Inr (None, h', f')" "at c (es[Suc i := ?y, i := ?x]) i h' f'"
        using shorten_last [OF g(2) fits_update [OF f(2) fy] s, of l n p u' fuel] k(1) x fuel g(1) True False
        by (auto simp: map_last_def on_ok_def ext_start_def)
      have "sets es ?b (target physical u) (take i es @ [?x, ?y] @ drop (Suc (Suc i)) es)"
        using fx fy x k(2) False by (intro sets_two [OF w k(1)]) (auto simp: ext_start_def ext_end_def target_def fun_eq_iff)
      then show ?thesis using m upd_two [OF k(1)] by (auto intro: achieves_at)
    next
      case join: False
      let ?y = "(?b, 1, ?ph, u)" and ?es = "take (Suc i) es @ (?b, 1, ?ph, u) # drop (Suc i) es"
      obtain h1 f1 where g: "ext2fs_extent_insert f h EXT2_EXTENT_INSERT_AFTER (new_extent logical physical u) = Inr (None, h1, f1)" "at c ?es (Suc i) h1 f1"
        using insert_after [OF a room shows_new fn] by blast
      have n: "?es ! Suc i = ?y" "?es ! i = es ! i" "length ?es = length es + 1" using i by (simp_all add: nth_append)
      have s: "sought ?es ?b i" using so x i n by (auto simp: sought_def ext_end_def nth_append)
      obtain h' f' where m: "map_last fuel f h logical physical u (max_len u) ext next_ext = Inr (None, h', f')" "at c (?es[i := ?x]) i h' f'"
        using shorten_last [OF g(2) fits_insert [OF f(2) fn] s, of l n p u' fuel] n x fuel g(1) join False
        by (auto simp: map_last_def on_ok_def ext_start_def)
      have "sets es ?b (target physical u) (take i es @ [?x, ?y] @ drop (Suc i) es)"
        using fx fn x False by (intro sets_one [OF w i cv]) (auto simp: ext_start_def ext_end_def target_def fun_eq_iff)
      then show ?thesis using m upd_insert [OF i] by (auto intro: achieves_at)
    qed
  qed
qed


text \<open>The end of \<open>map_first\<close>: the extent at \<open>i\<close> loses its first block.\<close>

definition advance :: "extent \<Rightarrow> extent" where
  "advance ext = ext\<lparr>e_pblk := e_pblk ext + 1, e_lblk := e_lblk ext + 1, e_len := e_len ext - 1\<rparr>"

lemma shows_advance: "shows_ext ext (l, n, p, u) \<Longrightarrow> 1 \<le> n \<Longrightarrow> shows_ext (advance ext) (l + 1, n - 1, p + 1, u)"
  by (simp add: advance_def of_nat_diff)

lemma advance_at:
  assumes a: "at c es1 i h f" and x: "shows_ext ext (l, n, p, u)" "fits (l, n, p, u)" "2 \<le> n"
    and w: "well (es1[i := (l + 1, n - 1, p + 1, u)])" and fuel: "length es1 + 1 \<le> fuel"
  shows "\<exists>h' f'. on_ok (ext2fs_extent_replace f h (advance ext)) (\<lambda>h1 fs1. ext2fs_extent_fix_parents fuel fs1 h1) = Inr (None, h', f') \<and>
    at c (es1[i := (l + 1, n - 1, p + 1, u)]) i h' f'"
proof -
  let ?es = "es1[i := (l + 1, n - 1, p + 1, u)]"
  have "shows_ext (advance ext) (l + 1, n - 1, p + 1, u)" using shows_advance [OF x(1)] x(3) by simp
  then obtain h1 f1 where r: "ext2fs_extent_replace f h (advance ext) = Inr (None, h1, f1)" "at c ?es i h1 f1"
    using replace_at [OF a] fits_shorter [OF x(2,3)] by blast
  then show ?thesis using fix_parents_well [OF r(2) w, of fuel] fuel by (auto simp: on_ok_def)
qed

lemma map_first_sets:
  assumes a: "at c es i h f" and w: "well es" and x: "es ! i = (l, n, p, u')" "2 \<le> n" "unat logical = l" and e: "shows_ext ext (es ! i)"
    and pv: "rel_option shows_ext prev_ext (prev_of es i)" and b: "block_fits logical physical"
    and room: "length es < snd (snd (snd c))" and fuel: "length es + 2 \<le> fuel"
  shows "achieves c es (unat logical) (target physical u) (map_first fuel f h logical physical u (max_len u) ext prev_ext)"
proof -
  let ?b = "unat logical" and ?x = "(l + 1, n - 1, p + 1, u')" and ?ph = "unat physical"
  have i: "i < length es" using a by (simp add: at_def)
  have f: "fits (l, n, p, u')" "\<forall>x \<in> set es. fits x" using w x(1) i by (auto simp: well_def dest: nth_mem)
  note fx = conjunct2 [OF fits_shorter [OF f(1) x(2)]]
  have cv: "covers (es ! i) ?b" using x by (simp add: covers_def ext_start_def ext_end_def)
  have so: "\<forall>j < i. ext_end (es ! j) \<le> ?b" using well_nth [OF w _ i] cv by (meson covers_def le_trans)
  obtain fuel' where fl: "fuel = Suc fuel'" using fuel by (cases fuel) auto
  show ?thesis
  proof (cases "physical = 0")
    case True
    have s: "sets es ?b (target physical u) (take i es @ [?x] @ drop (Suc i) es)"
      using fx x True by (intro sets_one [OF w i cv]) (auto simp: ext_start_def ext_end_def target_def fun_eq_iff)
    then have "well (es[i := ?x])" by (simp add: upd_one [OF i] sets_def)
    then show ?thesis using advance_at [OF a _ f(1) x(2), of ext fuel] e x(1) True fuel s
      by (auto simp: map_first_def advance_def upd_one [OF i] intro: achieves_at)
  next
    case False
    have fn: "fits (?b, 1, ?ph, u)" by (rule fits_new [OF b False])
    show ?thesis
    proof (cases "case prev_ext of Some prev \<Rightarrow> joins_after logical physical u (max_len u) prev | None \<Rightarrow> False")
      case True
      obtain lz nz pz where z: "0 < i" "es ! (i - 1) = (lz, nz, pz, u)" "?b = lz + nz" "?ph = pz + nz" "int nz < max_len u - 1"
        using joins_prev [OF pv f(2) i b True] by blast
      obtain k where k: "i = Suc k" using z(1) by (cases i) auto
      let ?z = "(lz, nz + 1, pz, u)" and ?es1 = "es[k := (lz, nz + 1, pz, u)]"
      have "fits (es ! k)" using f(2) i k by simp
      then have fz: "fits ?z" using z k fn by (simp add: fits_iff)
      obtain h1 f1 where g: "grow_prev fuel f h = Inr (None, h1, f1)" "at c ?es1 k h1 f1"
        using grow_prev_at [of c es k h f lz nz pz u fuel] a k z(2) fz fuel by auto
      have k1: "k < length es" using i k by simp
      have "\<forall>j < k. ext_end (es ! j) \<le> lz" using well_nth [OF w _ k1] z(2) k by (simp add: ext_start_def)
      then have s1: "sought ?es1 lz k" "reached ?es1 lz k = (None, k)" using k1 by (auto simp: sought_def reached_def ext_end_def ext_start_def)
      obtain h2 where h2: "ext2fs_extent_fix_parents fuel f1 h1 = Inr (None, h2, f1)" "at c ?es1 k h2 f1"
        using fix_parents_at [OF g(2) fits_update [OF f(2) fz], of k k fuel] s1 k1 fuel by (auto simp: ext_start_def)
      obtain h3 ext3 where h3: "at c ?es1 i h3 f1" "shows_ext ext3 (l, n, p, u')" "\<forall>fuel x. ext2fs_extent_get (Suc fuel) f1 h2 EXT2_EXTENT_NEXT_LEAF x = Inr (None, h3, ext3)"
        using step_next [OF h2(2), of EXT2_EXTENT_NEXT_LEAF] i k x(1) by auto
      have s: "sets es ?b (target physical u) (take k es @ [?z, ?x] @ drop (Suc (Suc k)) es)"
        using fx fz x z k i False by (intro sets_two [OF w]) (auto simp: ext_start_def ext_end_def target_def fun_eq_iff)
      have up: "?es1[i := ?x] = take k es @ [?z, ?x] @ drop (Suc (Suc k)) es" using upd_two [of k es ?x ?z] i k by (simp add: list_update_swap)
      then obtain h' f' where "on_ok (ext2fs_extent_replace f1 h3 (advance ext3)) (\<lambda>h1 fs1. ext2fs_extent_fix_parents fuel fs1 h1) = Inr (None, h', f')" "at c (?es1[i := ?x]) i h' f'"
        using advance_at [OF h3(1,2) f(1) x(2), of fuel] s fuel by (auto simp: sets_def)
      then show ?thesis using g(1) h2(1) h3(3) True False s fl up by (auto simp: map_first_def advance_def on_ok_def intro!: achieves_at)
    next
      case join: False
      let ?y = "(?b, 1, ?ph, u)" and ?es1 = "take i es @ (?b, 1, ?ph, u) # drop i es"
      obtain h1 f1 where g: "ext2fs_extent_insert f h 0 (new_extent logical physical u) = Inr (None, h1, f1)" "at c ?es1 i h1 f1"
        using insert_before [OF a room shows_new fn] by blast
      have n: "?es1 ! i = ?y" "?es1 ! Suc i = es ! i" "length ?es1 = length es + 1" using i by (simp_all add: nth_append)
      have s1: "sought ?es1 ?b i" "reached ?es1 ?b i = (None, i)" using so i n by (auto simp: sought_def reached_def ext_end_def ext_start_def nth_append)
      obtain h2 where h2: "ext2fs_extent_fix_parents fuel f1 h1 = Inr (None, h2, f1)" "at c ?es1 i h2 f1"
        using fix_parents_at [OF g(2) fits_insert [OF f(2) fn], of i i fuel] s1 n fuel by (auto simp: ext_start_def)
      obtain h3 ext3 where h3: "at c ?es1 (Suc i) h3 f1" "shows_ext ext3 (l, n, p, u')" "\<forall>fuel x. ext2fs_extent_get (Suc fuel) f1 h2 EXT2_EXTENT_NEXT_LEAF x = Inr (None, h3, ext3)"
        using step_next [OF h2(2), of EXT2_EXTENT_NEXT_LEAF] i n x(1) by auto
      have s: "sets es ?b (target physical u) (take i es @ [?y, ?x] @ drop (Suc i) es)"
        using fx fn x False by (intro sets_one [OF w i cv]) (auto simp: ext_start_def ext_end_def target_def fun_eq_iff)
      have up: "?es1[Suc i := ?x] = take i es @ [?y, ?x] @ drop (Suc i) es" using i by (simp add: list_update_append Cons_nth_drop_Suc [symmetric])
      then obtain h' f' where "on_ok (ext2fs_extent_replace f1 h3 (advance ext3)) (\<lambda>h1 fs1. ext2fs_extent_fix_parents fuel fs1 h1) = Inr (None, h', f')" "at c (?es1[Suc i := ?x]) (Suc i) h' f'"
        using advance_at [OF h3(1,2) f(1) x(2), of fuel] s fuel n by (auto simp: sets_def)
      then show ?thesis using g(1) h2(1) h3(3) join False s fl up by (auto simp: map_first_def advance_def on_ok_def intro!: achieves_at)
    qed
  qed
qed


text \<open>The two parts of an extent that is cut.\<close>

lemma ucast_small: "k < 2 ^ 32 \<Longrightarrow> (ucast (of_nat k :: u64) :: u32) = of_nat k" "k < 2 ^ 32 \<Longrightarrow> (ucast (of_nat k :: u32) :: u64) = of_nat k"
  by (simp_all add: unsigned_of_nat take_bit_nat_eq_self)

lemma shows_cut:
  assumes s: "shows_ext ext (l, n, p, u)" "fits (l, n, p, u)" and b: "l < b" "b + 1 < l + n" "b = unat (logical :: u64)"
  shows "shows_ext (ext\<lparr>e_len := ucast (logical - e_lblk ext)\<rparr>) (l, b - l, p, u)"
    "shows_ext (ext\<lparr>e_len := of_nat n - of_nat (b - l) - 1, e_pblk := e_pblk ext + ucast (of_nat (b - l) + 1 :: u32), e_lblk := e_lblk ext + ucast (of_nat (b - l) + 1 :: u32)\<rparr>)
      (b + 1, n - (b - l) - 1, p + (b - l) + 1, u)"
    "fits (l, b - l, p, u)" "fits (b + 1, n - (b - l) - 1, p + (b - l) + 1, u)"
proof -
  have k: "b - l + 1 < 2 ^ 32" using s(2) b by (auto simp: fits_iff max_len_bounds split: if_splits)
  have "logical = of_nat b" using b(3) by simp
  then have "logical - e_lblk ext = of_nat (b - l)" using s(1) b(1) by (simp add: of_nat_diff)
  then show "shows_ext (ext\<lparr>e_len := ucast (logical - e_lblk ext)\<rparr>) (l, b - l, p, u)" using s(1) k by (simp add: ucast_small)
  have c: "ucast (of_nat (b - l) + 1 :: u32) = (of_nat (b - l + 1) :: u64)" using ucast_small(2) [OF k] by (simp add: add.commute)
  have "of_nat n - of_nat (b - l) - 1 = (of_nat (n - (b - l) - 1) :: u32)" using b by (simp add: of_nat_diff)
  moreover have "e_lblk ext + of_nat (b - l + 1) = of_nat (b + 1)" using s(1) b(1) by (simp add: of_nat_diff)
  moreover have "e_pblk ext + of_nat (b - l + 1) = of_nat (p + (b - l) + 1)" using s(1) by simp
  ultimately show "shows_ext (ext\<lparr>e_len := of_nat n - of_nat (b - l) - 1, e_pblk := e_pblk ext + ucast (of_nat (b - l) + 1 :: u32), e_lblk := e_lblk ext + ucast (of_nat (b - l) + 1 :: u32)\<rparr>)
      (b + 1, n - (b - l) - 1, p + (b - l) + 1, u)" unfolding c using s(1) by simp
  show "fits (l, b - l, p, u)" "fits (b + 1, n - (b - l) - 1, p + (b - l) + 1, u)" using s(2) b(1,2) by (auto simp: fits_iff)
qed

lemma map_middle_sets:
  assumes a: "at c es i h f" and w: "well es" and x: "es ! i = (l, n, p, u')" "l < unat logical" "unat logical + 1 < l + n" and e: "shows_ext ext (es ! i)"
    and b: "block_fits logical physical" and room: "length es + 2 \<le> snd (snd (snd c))"
  shows "achieves c es (unat logical) (target physical u) (map_middle fuel f h logical physical u ext)"
proof -
  let ?b = "unat logical" and ?ph = "unat physical"
  let ?x = "(l, ?b - l, p, u')" and ?t = "(?b + 1, n - (?b - l) - 1, p + (?b - l) + 1, u')"
  let ?head = "ext\<lparr>e_len := ucast (logical - e_lblk ext)\<rparr>"
  let ?tail = "?head\<lparr>e_pblk := e_pblk ?head + ucast (e_len ?head + 1), e_lblk := e_lblk ?head + ucast (e_len ?head + 1), e_len := e_len ext - e_len ?head - 1\<rparr>"
  have i: "i < length es" using a by (simp add: at_def)
  have f: "fits (l, n, p, u')" using w x(1) i by (auto simp: well_def dest: nth_mem)
  have sx: "shows_ext ext (l, n, p, u')" using e x(1) by simp
  note cut = shows_cut [OF sx f x(2,3) refl]
  have len: "e_len ?head = of_nat (?b - l)" "e_len ext = of_nat n"
  proof -
    have "e_len ?head = of_nat (?b - l)" using cut(1) by (simp only: shows_ext.simps)
    then show "e_len ?head = of_nat (?b - l)" .
  qed (use sx in simp)
  have st: "shows_ext ?tail ?t" using cut(2) len by simp
  have cv: "covers (es ! i) ?b" using x by (simp add: covers_def ext_start_def ext_end_def)
  obtain h1 f1 where r: "ext2fs_extent_replace f h ?head = Inr (None, h1, f1)" "at c (es[i := ?x]) i h1 f1"
    using replace_at [OF a cut(1,3)] by blast
  show ?thesis
  proof (cases "physical = 0")
    case True
    obtain h3 f3 where t: "ext2fs_extent_insert f1 h1 EXT2_EXTENT_INSERT_AFTER ?tail = Inr (None, h3, f3)"
      "at c (take (Suc i) (es[i := ?x]) @ ?t # drop (Suc i) (es[i := ?x])) (Suc i) h3 f3"
      using insert_after [OF r(2) _ st cut(4)] room by auto
    have l: "take (Suc i) (es[i := ?x]) @ ?t # drop (Suc i) (es[i := ?x]) = take i es @ [?x, ?t] @ drop (Suc i) es"
      using i by (simp add: take_Suc_conv_app_nth)
    have "sets es ?b (target physical u) (take i es @ [?x, ?t] @ drop (Suc i) es)"
      using cut(3,4) x True by (intro sets_one [OF w i cv]) (auto simp: ext_start_def ext_end_def target_def fun_eq_iff)
    then show ?thesis using r(1) t True l by (auto simp: map_middle_def Let_def on_ok_def intro!: achieves_at)
  next
    case False
    let ?y = "(?b, 1, ?ph, u)"
    have fn: "fits ?y" by (rule fits_new [OF b False])
    let ?es2 = "take (Suc i) (es[i := ?x]) @ ?y # drop (Suc i) (es[i := ?x])"
    obtain h2 f2 where n: "ext2fs_extent_insert f1 h1 EXT2_EXTENT_INSERT_AFTER (new_extent logical physical u) = Inr (None, h2, f2)" "at c ?es2 (Suc i) h2 f2"
      using insert_after [OF r(2) _ shows_new fn] room by auto
    have l2: "?es2 = take i es @ [?x, ?y] @ drop (Suc i) es" using i by (simp add: take_Suc_conv_app_nth)
    have rm: "length ?es2 < snd (snd (snd c))" unfolding l2 using room i by simp
    obtain h3 f3 where t: "ext2fs_extent_insert f2 h2 EXT2_EXTENT_INSERT_AFTER ?tail = Inr (None, h3, f3)"
      "at c (take (Suc (Suc i)) ?es2 @ ?t # drop (Suc (Suc i)) ?es2) (Suc (Suc i)) h3 f3"
      using insert_after [OF n(2) rm st cut(4)] by blast
    have l: "take (Suc (Suc i)) ?es2 @ ?t # drop (Suc (Suc i)) ?es2 = take i es @ [?x, ?y, ?t] @ drop (Suc i) es"
      unfolding l2 using i by simp
    have "sets es ?b (target physical u) (take i es @ [?x, ?y, ?t] @ drop (Suc i) es)"
      using cut(3,4) fn x False by (intro sets_one [OF w i cv]) (auto simp: ext_start_def ext_end_def target_def fun_eq_iff)
    then show ?thesis using r(1) n(1) t False l by (auto simp: map_middle_def Let_def on_ok_def intro!: achieves_at)
  qed
qed


section \<open>The branch for an unmapped block\<close>

lemma gap_around:
  assumes w: "well es" and s: "sought es b i" and g: "\<not> (i < length es \<and> ext_start (es ! i) \<le> b)"
  shows "\<forall>x \<in> set (take i es). ext_end x \<le> b" "\<forall>z \<in> set (drop i es). b < ext_start z"
proof -
  have "\<forall>j < i. ext_end (es ! j) \<le> b" using s by (simp add: sought_def)
  moreover have "\<exists>j < i. x = es ! j" if "x \<in> set (take i es)" for x using that [unfolded in_set_conv_nth] by auto
  ultimately show "\<forall>x \<in> set (take i es). ext_end x \<le> b" by blast
  show "\<forall>z \<in> set (drop i es). b < ext_start z"
  proof
    fix z assume "z \<in> set (drop i es)"
    then obtain k where k: "z = es ! (i + k)" "i + k < length es" by (auto simp: in_set_conv_nth)
    have "b < ext_start (es ! i)" using g k(2) by simp
    moreover have "ext_start (es ! i) \<le> z'" if "z' = ext_start (es ! (i + k))" for z'
    proof (cases k)
      case (Suc k')
      have "ext_start (es ! i) < ext_end (es ! i)" using w k(2) fits_range by (simp add: well_def)
      then show ?thesis using that Suc well_nth [OF w, of i "i + k"] k(2) by simp
    qed (use that in simp)
    ultimately show "b < ext_start z" using k(1) by fastforce
  qed
qed

text \<open>A change of some extents before or after the gap.\<close>

lemma sets_gap:
  assumes w: "well es" and g: "\<forall>x \<in> set (take i es). ext_end x \<le> b" "\<forall>z \<in> set (drop i es). b < ext_start z" and j: "j \<le> i" "i \<le> k"
    and m: "\<forall>y \<in> set mid'. fits y" "sorted_wrt (\<lambda>x y. ext_end x \<le> ext_start y) mid'"
    and r: "\<forall>y \<in> set mid'. (\<forall>x \<in> set (take j es). ext_end x \<le> ext_start y) \<and> (\<forall>z \<in> set (drop k es). ext_end y \<le> ext_start z)"
    and v: "emap mid' = (emap (take (k - j) (drop j es)))(b := v)"
  shows "sets es b v (take j es @ mid' @ drop k es)"
proof -
  have "drop j es = take (k - j) (drop j es) @ drop k es" using j by (metis append_take_drop_id drop_drop le_add_diff_inverse2 le_trans)
  then have e: "es = take j es @ take (k - j) (drop j es) @ drop k es" by (metis append_take_drop_id)
  have "set (take j es) \<subseteq> set (take i es)" "set (drop k es) \<subseteq> set (drop i es)" using j by (simp_all add: set_take_subset_set_take set_drop_subset_set_drop)
  then have p: "\<forall>x \<in> set (take j es). ext_end x \<le> b" "\<forall>z \<in> set (drop k es). b < ext_start z" using g by auto
  have "well (take j es @ take (k - j) (drop j es) @ drop k es)" using w e by simp
  from sets_splice [OF this p m r v] show ?thesis using e by simp
qed

lemma take_one: "j < length es \<Longrightarrow> take (Suc 0) (drop j es) = [es ! j]"
  by (simp add: take_Suc_conv_app_nth take_Suc hd_drop_conv_nth)

lemma map_unmapped_sets:
  assumes a: "at c es (i - 1) h f" and w: "well es" and s: "sought es (unat logical) i" and g: "\<not> (i < length es \<and> ext_start (es ! i) \<le> unat logical)"
    and e: "shows_ext ext (es ! (i - 1))" and nx: "rel_option shows_ext next_ext (next_of es (i - 1))"
    and b: "block_fits logical physical" "physical \<noteq> 0" and room: "length es < snd (snd (snd c))" and fuel: "length es + 2 \<le> fuel"
  shows "achieves c es (unat logical) (target physical u) (map_unmapped fuel f h logical physical u (max_len u) ext next_ext)"
proof -
  let ?b = "unat logical" and ?ph = "unat physical" and ?q = "i - 1" and ?v = "target physical u"
  let ?y = "(?b, 1, ?ph, u)"
  have q: "?q < length es" "i \<le> length es" using a s by (simp_all add: at_def sought_def)
  obtain l n p u' where x: "es ! ?q = (l, n, p, u')" by (cases "es ! ?q")
  have f: "\<forall>x \<in> set es. fits x" "fits (l, n, p, u')" using w q(1) x by (auto simp: well_def dest: nth_mem)
  have sx: "shows_ext ext (l, n, p, u')" using e x by simp
  have n: "1 \<le> n" using f(2) by (simp add: fits_iff)
  note ga = gap_around [OF w s g]
  have fn: "fits ?y" by (rule fits_new [OF b])
  have v: "?v = Some (?ph, u)" using b(2) by (simp add: target_def)
  have lt: "logical < e_lblk ext \<longleftrightarrow> ?b < l" using shows_numbers(1) [OF sx f(2)] by (simp add: word_less_nat_alt)
  have first: "?b < l" if "i = 0" using that ga(2) q(1) x by (cases es) (auto simp: ext_start_def)
  have later: "l + n \<le> ?b" if "0 < i" 
  proof -
    have "ext_end (es ! ?q) \<le> ?b" using that s by (simp add: sought_def)
    then show ?thesis using x by (simp add: ext_end_def)
  qed
  have ends: "achieves c es ?b ?v (on_ok m (\<lambda>h1 fs1. ext2fs_extent_fix_parents fuel fs1 h1))"
    if "m = Inr (None, h1, f1)" "at c es1 k h1 f1" "sets es ?b ?v es1" "length es1 \<le> length es + 1" for m h1 f1 es1 k
    using that fix_parents_well [OF that(2), of fuel] fuel by (auto simp: on_ok_def sets_def intro!: achieves_at [of _ _ _ _ es1 k])
  consider (after) "joins_after logical physical u (max_len u) ext"
    | (before) "joins_before logical physical u (max_len u) ext" "\<not> joins_after logical physical u (max_len u) ext"
    | (nxt) "case next_ext of Some next \<Rightarrow> joins_before logical physical u (max_len u) next | None \<Rightarrow> False"
        "\<not> joins_after logical physical u (max_len u) ext" "\<not> joins_before logical physical u (max_len u) ext"
    | (new) "\<not> joins_after logical physical u (max_len u) ext" "\<not> joins_before logical physical u (max_len u) ext"
        "\<not> (case next_ext of Some next \<Rightarrow> joins_before logical physical u (max_len u) next | None \<Rightarrow> False)" by blast
  then show ?thesis
  proof cases
    case after
    then have j: "?b = l + n" "?ph = p + n" "u = u'" "int n < max_len u - 1" using joins_after_iff [OF sx f(2) b(1)] by blast+
    let ?x = "(l, n + 1, p, u')"
    have i: "i = Suc ?q" using first j(1) by (cases i) auto
    have fx: "fits ?x" using j fn f(2) by (simp add: fits_iff)
    obtain h1 f1 where r: "ext2fs_extent_replace f h (grow_after ext) = Inr (None, h1, f1)" "at c (es[?q := ?x]) ?q h1 f1"
      using replace_at [OF a shows_grow_after [OF sx] fx] by blast
    have "\<forall>y \<in> set (take ?q es). ext_end y \<le> l" using well_sides(2) [OF w q(1)] x by (simp add: ext_start_def)
    moreover have "\<forall>z \<in> set (drop i es). l + n + 1 \<le> ext_start z" using ga(2) j(1) by auto
    moreover have "take (i - ?q) (drop ?q es) = [es ! ?q]" using take_one [OF q(1)] i by simp
    ultimately have "sets es ?b ?v (take ?q es @ [?x] @ drop i es)"
      using fx x j v n by (intro sets_gap [OF w ga]) (auto simp: ext_start_def ext_end_def fun_eq_iff)
    then have "sets es ?b ?v (es[?q := ?x])" using upd_one [OF q(1)] i by simp
    then show ?thesis using ends [OF r] after by (simp add: map_unmapped_def)
  next
    case before
    then have j: "?b + 1 = l" "?ph + 1 = p" "u = u'" "int n < max_len u - 1" using joins_before_iff [OF sx f(2) b(1)] by blast+
    let ?x = "(?b, n + 1, ?ph, u')"
    have i: "i = 0" using later j(1) by (cases i) auto
    have fx: "fits ?x" using j fn f(2) by (auto simp: fits_iff)
    have sg: "shows_ext (grow_before ext) ?x" by (rule shows_grow_before) (use sx in \<open>simp only: j(1,2)\<close>)
    obtain h1 f1 where r: "ext2fs_extent_replace f h (grow_before ext) = Inr (None, h1, f1)" "at c (es[?q := ?x]) ?q h1 f1"
      using replace_at [OF a sg fx] by blast
    have "\<forall>z \<in> set (drop 1 es). l + n \<le> ext_start z" using well_sides(3) [OF w q(1)] x i by (simp add: ext_end_def)
    moreover have "take 1 (drop 0 es) = [es ! ?q]" using take_one [of 0 es] q(1) i by simp
    ultimately have "sets es ?b ?v (take 0 es @ [?x] @ drop 1 es)"
      using fx x j v by (intro sets_gap [OF w ga]) (auto simp: i ext_start_def ext_end_def fun_eq_iff)
    then have "sets es ?b ?v (es[?q := ?x])" using upd_one [OF q(1)] i by simp
    then show ?thesis using ends [OF r] before by (simp add: map_unmapped_def)
  next
    case nxt
    obtain k where k: "Suc ?q < length es" "es ! Suc ?q = (?b + 1, k, ?ph + 1, u)" "int k < max_len u - 1" using joins_next [OF nx f(1) b(1) nxt(1)] by blast
    let ?x = "(?b, k + 1, ?ph, u)"
    have i: "i = Suc ?q"
    proof (cases "i = 0")
      case True
      then show ?thesis using first well_nth [OF w, of 0 1] k x n by (auto simp: ext_start_def ext_end_def)
    qed simp
    have fy: "fits (es ! i)" using f(1) k(1) i by simp
    then have fx: "fits ?x" using k i fn by (simp add: fits_iff)
    obtain h1 f1 where r: "grow_next fuel f h = Inr (None, h1, f1)" "at c (es[Suc ?q := ?x]) (Suc ?q) h1 f1"
      using grow_next_at [OF a k(1,2) fx, of fuel] fuel by auto
    have il: "i < length es" using k(1) i by simp
    have "\<forall>z \<in> set (drop (Suc i) es). ext_end (es ! i) \<le> ext_start z" by (rule well_sides(3) [OF w il])
    moreover have "take (Suc i - i) (drop i es) = [es ! i]" using take_one [OF il] by simp
    ultimately have "sets es ?b ?v (take i es @ [?x] @ drop (Suc i) es)"
      using fx k i v ga(1) by (intro sets_gap [OF w ga]) (auto simp: ext_start_def ext_end_def fun_eq_iff)
    then have "sets es ?b ?v (es[Suc ?q := ?x])" using upd_one [OF il] i by simp
    then show ?thesis using ends [OF r] nxt by (simp add: map_unmapped_def)
  next
    case new
    have st: "sets es ?b ?v (take i es @ [?y] @ drop i es)"
      using fn v ga by (intro sets_gap [OF w ga]) (auto simp: ext_start_def ext_end_def fun_eq_iff)
    show ?thesis
    proof (cases "i = 0")
      case True
      obtain h1 f1 where r: "ext2fs_extent_insert f h 0 (new_extent logical physical u) = Inr (None, h1, f1)" "at c (take ?q es @ ?y # drop ?q es) ?q h1 f1"
        using insert_before [OF a room shows_new fn] by blast
      then show ?thesis using ends [OF r] new st True lt first by (auto simp: map_unmapped_def)
    next
      case False
      obtain h1 f1 where r: "ext2fs_extent_insert f h EXT2_EXTENT_INSERT_AFTER (new_extent logical physical u) = Inr (None, h1, f1)"
        "at c (take (Suc ?q) es @ ?y # drop (Suc ?q) es) (Suc ?q) h1 f1"
        using insert_after [OF a room shows_new fn] by blast
      then show ?thesis using ends [OF r] new st False lt later q(2) n by (auto simp: map_unmapped_def)
    qed
  qed
qed


section \<open>The whole function\<close>

text \<open>The extent at which the search stopped and its neighbours are read, and the handle is back there.\<close>

lemma look_around:
  assumes h: "holds c es h f" "es \<noteq> []" and f: "\<forall>x \<in> set es. fits x" and s: "sought es (unat logical) i" "reached es (unat logical) i = (r, q)"
    and fuel: "length es + 1 \<le> fuel" and go: "\<not> (r \<noteq> None \<and> physical = 0)"
  shows "\<exists>h6 ext next_ext prev_ext. at c es q h6 f \<and> shows_ext ext (es ! q) \<and> rel_option shows_ext next_ext (next_of es q) \<and> rel_option shows_ext prev_ext (prev_of es q) \<and>
    set_bmap_at fuel f h logical physical u ml =
      (if r = None \<and> u = e_uninit ext \<and> e_pblk ext + (logical - e_lblk ext) = physical then Inr (r, h6, f)
       else if r \<noteq> None then map_unmapped fuel f h6 logical physical u ml ext next_ext
       else if logical = e_lblk ext \<and> e_len ext = 1 then map_only fuel f h6 logical physical u
       else if logical = e_lblk ext + ucast (e_len ext) - 1 then map_last fuel f h6 logical physical u ml ext next_ext
       else if logical = e_lblk ext then map_first fuel f h6 logical physical u ml ext prev_ext
       else map_middle fuel f h6 logical physical u ext)"
proof -
  obtain fuel' where fl: "fuel = Suc fuel'" using fuel by (cases fuel) auto
  have goto: "\<exists>h'. ext2fs_extent_goto fuel f h0 logical = Inr (r, h') \<and> at c es q h' f" if "holds c es h0 f" for h0
    using goto_at [OF that h(2) f s fuel] by (simp add: ext2fs_extent_goto_def)
  have rr: "r = None \<or> r = Some EXT2_ET_EXTENT_NOT_FOUND" using s(2) by (auto simp: reached_def split: if_splits)
  obtain h1 where h1: "ext2fs_extent_goto fuel f h logical = Inr (r, h1)" "at c es q h1 f" using goto [OF h(1)] by blast
  obtain ext where e: "shows_ext ext (es ! q)" "\<forall>fuel x. ext2fs_extent_get (Suc fuel) f h1 EXT2_EXTENT_CURRENT x = Inr (None, h1, ext)"
    using get_current [OF h1(2)] by blast
  have q: "q < length es" using h1(2) by (simp add: at_def)
  obtain rn h3 next_e where n: "ext2fs_extent_get fuel f h1 EXT2_EXTENT_NEXT_LEAF no_extent = Inr (rn, h3, next_e)" "rn = None \<or> rn = Some EXT2_ET_EXTENT_NO_NEXT"
    "holds c es h3 f" "rel_option shows_ext (if rn = None then Some next_e else None) (next_of es q)"
  proof (cases "Suc q < length es")
    case True
    obtain h' x where "at c es (Suc q) h' f" "shows_ext x (es ! Suc q)" "\<forall>fuel y. ext2fs_extent_get (Suc fuel) f h1 EXT2_EXTENT_NEXT_LEAF y = Inr (None, h', x)"
      using step_next [OF h1(2) True, of EXT2_EXTENT_NEXT_LEAF] by blast
    then show ?thesis using that [of None h' x] True fl by (auto simp: next_of_def dest: at_holds)
  next
    case False
    then show ?thesis using that [of "Some EXT2_ET_EXTENT_NO_NEXT" h1 no_extent] step_next_end [OF h1(2), of EXT2_EXTENT_NEXT_LEAF] q fl at_holds [OF h1(2)]
      by (auto simp: next_of_def)
  qed
  obtain h4 where h4: "ext2fs_extent_goto fuel f h3 logical = Inr (r, h4)" "at c es q h4 f" using goto [OF n(3)] by blast
  obtain rp h5 prev where p: "ext2fs_extent_get fuel f h4 EXT2_EXTENT_PREV_LEAF no_extent = Inr (rp, h5, prev)" "rp = None \<or> rp = Some EXT2_ET_EXTENT_NO_PREV"
    "holds c es h5 f" "rel_option shows_ext (if rp = None then Some prev else None) (prev_of es q)"
  proof (cases q)
    case (Suc k)
    obtain h' x where "at c es k h' f" "shows_ext x (es ! k)" "\<forall>fuel y. ext2fs_extent_get (Suc fuel) f h4 EXT2_EXTENT_PREV_LEAF y = Inr (None, h', x)"
      using step_prev [of c es k h4 f EXT2_EXTENT_PREV_LEAF] h4(2) Suc by blast
    then show ?thesis using that [of None h' x] Suc fl by (auto simp: prev_of_def dest: at_holds)
  next
    case 0
    then show ?thesis using that [of "Some EXT2_ET_EXTENT_NO_PREV" h4 no_extent] step_prev_end [of c es h4 f EXT2_EXTENT_PREV_LEAF] h4(2) fl at_holds [OF h4(2)]
      by (auto simp: prev_of_def)
  qed
  obtain h6 where h6: "ext2fs_extent_goto fuel f h5 logical = Inr (r, h6)" "at c es q h6 f" using goto [OF p(3)] by blast
  have "set_bmap_at fuel f h logical physical u ml =
      (if r = None \<and> u = e_uninit ext \<and> e_pblk ext + (logical - e_lblk ext) = physical then Inr (r, h6, f)
       else if r \<noteq> None then map_unmapped fuel f h6 logical physical u ml ext (if rn = None then Some next_e else None)
       else if logical = e_lblk ext \<and> e_len ext = 1 then map_only fuel f h6 logical physical u
       else if logical = e_lblk ext + ucast (e_len ext) - 1 then map_last fuel f h6 logical physical u ml ext (if rn = None then Some next_e else None)
       else if logical = e_lblk ext then map_first fuel f h6 logical physical u ml ext (if rp = None then Some prev else None)
       else map_middle fuel f h6 logical physical u ext)"
    unfolding set_bmap_at_def Let_def h1(1) and_then_Inr prod.case e(2) [rule_format, of fuel', folded fl] n(1) h4(1) p(1) h6(1) using rr n(2) p(2) go by (elim disjE; simp)
  then show ?thesis using h6(2) e(1) n(4) p(4) by blast
qed

lemma set_bmap_at_sets:
  assumes h: "holds c es h f" "es \<noteq> []" and w: "well es" and b: "block_fits logical physical"
    and room: "length es + 2 \<le> snd (snd (snd c))" and fuel: "length es + 2 \<le> fuel"
  shows "achieves c es (unat logical) (target physical u) (set_bmap_at fuel f h logical physical u (max_len u))"
proof -
  let ?b = "unat logical" and ?v = "target physical u"
  obtain i where s: "sought es ?b i" using sought_exists by blast
  obtain r q where r: "reached es ?b i = (r, q)" by fastforce
  note f = fits_all [OF w]
  have fl: "length es + 1 \<le> fuel" "length es < snd (snd (snd c))" using fuel room by simp_all
  show ?thesis
  proof (cases "r \<noteq> None \<and> physical = 0")
    case True
    then have g: "\<not> (i < length es \<and> ext_start (es ! i) \<le> ?b)" using r by (auto simp: reached_def split: if_splits)
    note ga = gap_around [OF w s g]
    have "\<forall>x \<in> set (take i es) \<union> set (drop i es). \<not> covers x ?b" using ga by (auto simp: covers_def)
    then have "emap (take i es @ drop i es) ?b = None" by (intro emap_none) (simp only: set_append)
    then have "emap es ?b = None" by simp
    then have "sets es ?b ?v es" using w True by (simp add: sets_def target_def fun_upd_idem)
    moreover obtain h1 where "ext2fs_extent_goto fuel f h logical = Inr (r, h1)" "at c es q h1 f"
      using goto_at [OF h f s r fl(1)] by (auto simp: ext2fs_extent_goto_def)
    moreover have "r = Some EXT2_ET_EXTENT_NOT_FOUND" using True r by (auto simp: reached_def split: if_splits)
    ultimately show ?thesis using True by (auto simp: set_bmap_at_def Let_def intro!: achieves_at)
  next
    case False
    obtain h6 ext next_ext prev_ext where a: "at c es q h6 f" and e: "shows_ext ext (es ! q)" and nx: "rel_option shows_ext next_ext (next_of es q)"
      and pv: "rel_option shows_ext prev_ext (prev_of es q)" and eq: "set_bmap_at fuel f h logical physical u (max_len u) =
      (if r = None \<and> u = e_uninit ext \<and> e_pblk ext + (logical - e_lblk ext) = physical then Inr (r, h6, f)
       else if r \<noteq> None then map_unmapped fuel f h6 logical physical u (max_len u) ext next_ext
       else if logical = e_lblk ext \<and> e_len ext = 1 then map_only fuel f h6 logical physical u
       else if logical = e_lblk ext + ucast (e_len ext) - 1 then map_last fuel f h6 logical physical u (max_len u) ext next_ext
       else if logical = e_lblk ext then map_first fuel f h6 logical physical u (max_len u) ext prev_ext
       else map_middle fuel f h6 logical physical u ext)"
      using look_around [OF h f s r fl(1) False, of u "max_len u"] by blast
    have q: "q < length es" using a by (simp add: at_def)
    show ?thesis
    proof (cases "r = None")
      case True
      then have qi: "q = i" "ext_start (es ! i) \<le> ?b" using r by (auto simp: reached_def split: if_splits)
      obtain l n p u' where x: "es ! q = (l, n, p, u')" by (cases "es ! q")
      have lb: "l \<le> ?b" "?b < l + n" using qi s q x by (auto simp: sought_def ext_start_def ext_end_def)
      have sx: "shows_ext ext (l, n, p, u')" "fits (l, n, p, u')" using e x f q by (auto dest: nth_mem)
      note nm = shows_numbers [OF sx]
      have bd: "1 \<le> n" "n \<le> 32768" "l + n \<le> 2 ^ 32" "1 \<le> p" "p + n \<le> 2 ^ 48" using sx(2) by (auto simp: fits_iff max_len_bounds split: if_splits)
      have c1: "e_pblk ext + (logical - e_lblk ext) = physical \<longleftrightarrow> p + (?b - l) = unat physical"
      proof -
        have "unat (logical - e_lblk ext) = ?b - l" using nm(1) lb(1) by (simp add: unat_sub word_le_nat_alt)
        then have "unat (e_pblk ext + (logical - e_lblk ext)) = p + (?b - l)" using nm(3) lb bd by (simp add: unat_word_ariths)
        then show ?thesis by (simp add: u64_eq)
      qed
      have c2: "logical = e_lblk ext \<and> e_len ext = 1 \<longleftrightarrow> ?b = l \<and> n = 1" using nm(1,2) by (simp add: u64_eq word_unat_eq_iff)
      have c3: "logical = e_lblk ext + ucast (e_len ext) - 1 \<longleftrightarrow> ?b + 1 = l + n"
        using nm(6) bd(1) by (auto simp: u64_eq unat_pred unat_eq_0 [symmetric])
      have c4: "logical = e_lblk ext \<longleftrightarrow> ?b = l" using nm(1) by (simp add: u64_eq)
      have fq: "length es + 2 \<le> fuel" by (rule fuel)
      consider (same) "u = u'" "p + (?b - l) = unat physical" | (only) "\<not> (u = u' \<and> p + (?b - l) = unat physical)" "?b = l" "n = 1"
        | (last) "\<not> (u = u' \<and> p + (?b - l) = unat physical)" "?b + 1 = l + n" "2 \<le> n"
        | (first) "\<not> (u = u' \<and> p + (?b - l) = unat physical)" "?b = l" "?b + 1 \<noteq> l + n" "2 \<le> n"
        | (middle) "\<not> (u = u' \<and> p + (?b - l) = unat physical)" "l < ?b" "?b + 1 < l + n" using lb by linarith
      then show ?thesis
      proof cases
        case same
        have "covers (es ! q) ?b" using lb x by (simp add: covers_def ext_start_def ext_end_def)
        then have v: "emap es ?b = Some (p + (?b - l), u')"
          using well_around [OF w q] emap_none [of "take q es" ?b] emap_append [of "take q es" "es ! q # drop (Suc q) es" ?b] lb x
          by (fastforce simp: covers_def)
        moreover have "physical \<noteq> 0" using same(2) bd(4) by (auto simp: u64_eq)
        ultimately have "sets es ?b ?v es" using same w by (simp add: sets_def target_def fun_upd_idem)
        then show ?thesis using eq True same nm(4) c1 a by (auto intro!: achieves_at)
      next
        case only
        then show ?thesis using eq True nm(4) c1 c2 map_only_sets [OF a w _ b, of p u' fuel u] x fl(1) by auto
      next
        case last
        then show ?thesis using eq True nm(4) c1 c2 c3 map_last_sets [OF a w x _ _ e nx b fl(2) fq, of u] by auto
      next
        case first
        then show ?thesis using eq True nm(4) c1 c2 c3 c4 map_first_sets [OF a w x _ _ e pv b fl(2) fq, of u] by auto
      next
        case middle
        then show ?thesis using eq True nm(4) c1 c2 c3 c4 map_middle_sets [OF a w x _ _ e b room, of u fuel] by auto
      qed
    next
      case unm: False
      then have g: "\<not> (i < length es \<and> ext_start (es ! i) \<le> ?b)" "q = i - 1" "physical \<noteq> 0" using r False by (auto simp: reached_def split: if_splits)
      then show ?thesis using eq unm map_unmapped_sets [of c es i h6 f logical ext next_ext physical fuel u] a w s e nx b fl fuel by auto
    qed
  qed
qed


text \<open>Putting the handle back where it was does not change the extents.\<close>

lemma goto_back:
  assumes h: "holds c es h f" and f: "\<forall>x \<in> set es. fits x" and fuel: "length es + 1 \<le> fuel"
  shows "\<exists>r h'. ext2fs_extent_goto2 fuel f h 0 blk = Inr (r, h') \<and> holds c es h' f"
proof (cases "es = []")
  case False
  obtain i where s: "sought es (unat blk) i" using sought_exists by blast
  obtain r q where "reached es (unat blk) i = (r, q)" by fastforce
  then show ?thesis using goto_at [OF h False f s _ fuel] at_holds by blast
next
  case True
  let ?h = "set_path (\<lambda>p. p\<lparr>ep_left := ep_entries p, ep_curr := None\<rparr>) h"
  note s = holds_simps [OF h]
  have "h\<lparr>h_level := 0\<rparr> = h" using s(1) by (cases h) simp
  then have "extent_move f h EXT2_EXTENT_ROOT EXT2_EXTENT_ROOT = Inr (Some EXT2_ET_EXTENT_NO_NEXT, False, ?h, None)"
    using s(1,3,7) True by (simp add: extent_move_def next_sib_def Let_def set_path_def cur_path_def)
  moreover obtain fuel' where "fuel = Suc fuel'" using fuel by (cases fuel) auto
  ultimately have "ext2fs_extent_goto2 fuel f h 0 blk = Inr (Some EXT2_ET_EXTENT_NOT_FOUND, ?h)"
    by (simp add: ext2fs_extent_goto2_def get_fails)
  moreover have "holds c es ?h f" by (rule holds_move [OF h]) simp_all
  ultimately show ?thesis by blast
qed

lemma set_bmap_sets:
  assumes h: "holds c es h f" and pos: "ep_curr (cur_path h) = None \<or> (\<exists>i. at c es i h f)" and w: "well es" and b: "block_fits logical physical"
    and room: "length es + 2 \<le> snd (snd (snd c))" and ne: "es \<noteq> [] \<or> physical \<noteq> 0" and fuel: "snd (snd (snd c)) + 1 \<le> fuel"
  shows "achieves c es (unat logical) (target physical (has flags EXT2_EXTENT_SET_BMAP_UNINIT)) (ext2fs_extent_set_bmap fuel f h logical physical flags)"
proof -
  let ?b = "unat logical" and ?u = "has flags EXT2_EXTENT_SET_BMAP_UNINIT"
  note s = holds_simps [OF h]
  obtain fuel' where fl: "fuel = Suc fuel'" using fuel by (cases fuel) auto
  show ?thesis
  proof (cases "es = []")
    case True
    then have p: "physical \<noteq> 0" "ep_curr (cur_path h) = None" using ne pos by (auto simp: at_def)
    let ?x = "(?b, 1, unat physical, ?u)"
    have fn: "fits ?x" by (rule fits_new [OF b p(1)])
    obtain h' f' where i: "ext2fs_extent_insert f h 0 (new_extent logical physical ?u) = Inr (None, h', f')" "at c [?x] 0 h' f'"
      using insert_empty [OF h [unfolded True] p(2) _ shows_new fn] room by auto
    have "sets es ?b (target physical ?u) [?x]" using True fn p(1) by (auto simp: sets_def well_def target_def fun_eq_iff)
    then show ?thesis using i p(1) s True by (auto simp: ext2fs_extent_set_bmap_def Let_def intro!: achieves_at)
  next
    case False
    obtain r ext where g: "ext2fs_extent_get fuel f h EXT2_EXTENT_CURRENT no_extent = Inr (r, h, ext)" "r = None \<or> r = Some EXT2_ET_NO_CURRENT_NODE"
    proof (cases "ep_curr (cur_path h)")
      case None
      then show ?thesis using that [of "Some EXT2_ET_NO_CURRENT_NODE" no_extent] fl
        by (simp add: ext2fs_extent_get_def extent_choose_def extent_move_def Let_def)
    next
      case (Some k)
      then obtain i where "at c es i h f" using pos by auto
      from get_current [OF this] show ?thesis using that fl by auto
    qed
    have l: "length es + 2 \<le> fuel" using room fuel by simp
    obtain h2 f2 es2 where r: "set_bmap_at fuel f h logical physical ?u (max_len ?u) = Inr (None, h2, f2)" "holds c es2 h2 f2" "sets es ?b (target physical ?u) es2"
      using set_bmap_at_sets [OF h False w b room l, of ?u] unfolding achieves_def by blast
    have "length es2 \<le> snd (snd (snd c))" using r(2) leaf_root_bounds(1) by (auto simp: holds_def)
    then obtain r3 h3 where "ext2fs_extent_goto2 fuel f2 h2 0 (if r = None then e_lblk ext else 0) = Inr (r3, h3)" "holds c es2 h3 f2"
      using goto_back [OF r(2), of fuel "if r = None then e_lblk ext else 0"] r(3) fuel by (auto simp: sets_def well_def)
    then have "ext2fs_extent_set_bmap fuel f h logical physical flags = Inr (None, h3, f2)" "holds c es2 h3 f2"
      using g r(1) s(1,2,5,7) False holds_simps(2) [OF r(2)] by (auto simp: ext2fs_extent_set_bmap_def Let_def max_len_def)
    then show ?thesis using r(3) unfolding achieves_def by blast
  qed
qed

end
