(* ===== verification/Bmap_Extent.thy ===== *)
theory Bmap_Extent
  imports Bmap_Lookup Extent_Set
begin

text \<open>
  Setting a block of a file through \<open>ext2fs_bmap2\<close> when the extents of the file lie in its inode: the
  mapping that \<open>Bmap_Lookup\<close> relates to listing and looking up changes at this block only.
\<close>

section \<open>One mapping for both views\<close>

lemma map_of_extents:
  "map_of (concat (map leaf_map xs)) b = map_option (\<lambda>(p, u). of_nat p) (emap (map ext_of xs) b)"
proof (induction xs)
  case (Cons e xs)
  have "map_of (leaf_map e) b = (if unat (ee_block e) \<le> b \<and> b < unat (ee_block e) + leaf_len e then Some (of_nat (unat (ee_pblk e) + (b - unat (ee_block e)))) else None)"
    unfolding map_of_leaf by simp
  then show ?case using Cons by (auto simp: ext_of_def map_add_def)
qed simp

lemma tree_map_extents: "map_of (tree_map fs 0 buf) b = map_option (\<lambda>(p, u). of_nat p) (emap (extents buf) b)"
  using map_of_extents [of "map (ent buf) [0..<eh_entries buf]"] by (simp add: extents_def comp_def)

lemma well_ordered: "well (extents buf) \<Longrightarrow> ordered fs 0 0 (2 ^ 33) buf"
proof -
  assume w: "well (extents buf)"
  have "ekey buf k + leaf_len (ent buf k) \<le> upper buf (2 ^ 33) k" if k: "k < eh_entries buf" for k
  proof (cases "Suc k < eh_entries buf")
    case True
    then show ?thesis using well_nth [OF w, of k "Suc k"] k by (simp add: upper_def ekey_def ext_of_def ext_start_def ext_end_def)
  next
    case False
    have "extents buf ! k \<in> set (extents buf)" using k by (intro nth_mem) simp
    then have "fits (extents buf ! k)" using w by (simp add: well_def)
    then show ?thesis using False k by (simp add: upper_def ekey_def ext_of_def fits_iff)
  qed
  then show ?thesis by simp
qed

section \<open>Opening\<close>

lemma open_holds:
  assumes i: "fs_read_inode fs ino = Inr inode" and e: "i_flags inode AND EXT4_EXTENTS_FL \<noteq> 0" and r: "leaf_root m (i_block inode)" and w: "writable fs ino"
  shows "\<exists>h. ext2fs_extent_open2 fs ino (Some inode) = Inr h \<and> holds (fs, inode, ino, m) (extents (i_block inode)) h fs \<and> ep_curr (cur_path h) = None"
proof -
  have v: "ext2fs_extent_header_verify (i_block inode) 60 = None" "eh_depth (i_block inode) = 0" "eh_max (i_block inode) = m" using r by (simp_all add: leaf_root_def)
  have z: "(\<forall>b \<in> set (i_block inode). b = 0) = False" using zero_header v(1) by blast
  have "saved fs inode ino (i_block inode) = fs" using i by (simp add: saved_def fun_upd_idem)
  then show ?thesis using e v r w unfolding ext2fs_extent_open2_def Let_def option.case sum.case z
    by (auto simp: holds_def cur_path_def)
qed

section \<open>Property\<close>

text \<open>
  C9: setting a block in the extents of an inode. The extents of the inode lie in the inode itself, are in order and
  apart, with room for two more. Then \<open>ext2fs_bmap2\<close> with \<open>BMAP_SET\<close> succeeds for every logical block that an
  entry can hold, mapped or not; the inode it gives back is the one it wrote, its extents are in order again, and
  the mapping has changed at this block only: to the physical block, or to none when that is 0.
\<close>

theorem bmap_set_in_extents:
  assumes inode: "fs_read_inode fs ino = Inr inode" "i_flags inode AND EXT4_EXTENTS_FL \<noteq> 0" "i_flags inode AND EXT4_INLINE_DATA_FL = 0"
    and root: "leaf_root m (i_block inode)" "well (extents (i_block inode))" "eh_entries (i_block inode) + 2 \<le> m"
    and fs: "plain_fs fs" "writable fs ino" and blk: "unat logical < 2 ^ 32 - 1" "unat physical < 2 ^ 48" "0 < eh_entries (i_block inode) \<or> physical \<noteq> 0"
    and flags: "has flags BMAP_SET" "\<not> has flags BMAP_ZERO" and fuel: "5 \<le> fuel"
  shows "\<exists>inode' fs'. ext2fs_bmap2 fuel fs ino (Some inode) flags logical physical = Inr (None, physical, 0, Some inode', fs') \<and>
    fs_read_inode fs' ino = Inr inode' \<and> leaf_root m (i_block inode') \<and> well (extents (i_block inode')) \<and> map_ok fs' inode' \<and>
    map_of (inode_map fs' inode') = (map_of (inode_map fs inode))(unat logical := if physical = 0 then None else Some physical)"
proof -
  let ?es = "extents (i_block inode)" and ?c = "(fs, inode, ino, m)" and ?sf = "if has flags BMAP_UNINIT then EXT2_EXTENT_SET_BMAP_UNINIT else 0"
  have b: "block_fits logical physical" using blk by (simp add: block_fits_def)
  obtain h where h: "ext2fs_extent_open2 fs ino (Some inode) = Inr h" "holds ?c ?es h fs" "ep_curr (cur_path h) = None"
    using open_holds [OF inode(1,2) root(1) fs(2)] by blast
  have "m \<le> 4" "?es \<noteq> [] \<or> physical \<noteq> 0" using leaf_root_bounds(2) [OF root(1)] blk(3) by (auto simp: extents_def)
  then obtain h' f' es' where r: "ext2fs_extent_set_bmap fuel fs h logical physical ?sf = Inr (None, h', f')" "holds ?c es' h' f'"
    "sets ?es (unat logical) (target physical (has ?sf EXT2_EXTENT_SET_BMAP_UNINIT)) es'"
    using set_bmap_sets [OF h(2) _ root(2) b, of fuel ?sf] h(3) root(3) fuel unfolding achieves_def by auto
  have p: "handle_inode h' = inode\<lparr>i_block := ep_buf (cur_path h')\<rparr>" using r(2) by (simp add: handle_inode_def holds_def cur_path_def)
  let ?buf = "ep_buf (cur_path h')"
  have o: "leaf_root m ?buf" "extents ?buf = es'" "f' = saved fs inode ino ?buf" using r(2) by (simp_all add: holds_def)
  have big: "\<not> ext2fs_file_block_offset_too_big fs inode logical" using blk(1) inode(2) by (simp add: ext2fs_file_block_offset_too_big_def word_le_nat_alt)
  have e: "ext2fs_bmap2 fuel fs ino (Some inode) flags logical physical = Inr (None, physical, 0, Some (handle_inode h'), f')"
    using inode(2,3) big h(1) r(1) flags unfolding ext2fs_bmap2_def Let_def extent_bmap_def by simp
  have w: "well (extents ?buf)" "emap (extents ?buf) = (emap ?es)(unat logical := target physical (has ?sf EXT2_EXTENT_SET_BMAP_UNINIT))"
    using r(3) o(2) by (simp_all add: sets_def)
  have d: "eh_depth ?buf = 0" "eh_depth (i_block inode) = 0" using o(1) root(1) by (simp_all add: leaf_root_def)
  have "map_of (tree_map f' 0 ?buf) = (map_of (tree_map fs 0 (i_block inode)))(unat logical := if physical = 0 then None else Some physical)"
    by (rule ext) (simp add: tree_map_extents w(2) target_def del: tree_map.simps)
  moreover have "plain_fs f'" using fs(1) o(3) by (simp add: plain_fs_def saved_def fs_image_file_def)
  moreover have "eh_entries ?buf = 0 \<or> node_ok f' {} 60 0 ?buf" "ext2fs_extent_header_verify ?buf 60 = None" using o(1) by (auto simp: leaf_root_def)
  ultimately have "map_of (inode_map f' (handle_inode h')) = (map_of (inode_map fs inode))(unat logical := if physical = 0 then None else Some physical)"
    "map_ok f' (handle_inode h')" using inode(2,3) well_ordered [OF w(1), of f'] d
    by (simp_all add: p inode_map_def map_ok_def del: tree_map.simps node_ok.simps ordered.simps)
  moreover have "fs_read_inode f' ino = Inr (handle_inode h')" using o(3) p by (simp add: saved_def)
  ultimately show ?thesis using e o(1) w(1) p by (intro exI [of _ "handle_inode h'"] exI [of _ f']) simp
qed


text \<open>An inode with one extent, blocks 0 to 2 at 100: block 1 is moved to 500.\<close>

definition one_extent :: ext2_inode where
  "one_extent = \<lparr>i_mode_dir = False, i_flags = EXT4_EXTENTS_FL, i_size = 3072, i_size_high = 0,
     i_block = [0x0a, 0xf3, 1, 0, 4, 0, 0, 0, 0, 0, 0, 0, 0, 0, 0, 0, 3, 0, 0, 0, 100, 0, 0, 0] @ replicate 36 0, i_translator = 0\<rparr>"

definition one_fs :: ext2_filsys where
  "one_fs = tree_fs\<lparr>fs_rw := True, fs_read_inode := (\<lambda>_. Inr one_extent)\<rparr>"

lemma one_extent_eval: "leaf_root 4 (i_block one_extent)" "extents (i_block one_extent) = [(0, 3, 100, False)]" "eh_entries (i_block one_extent) = 1"
  by (simp_all add: one_extent_def leaf_root_def extents_def ext_of_def node_eval ee_block_def ee_len_def ee_pblk_def leaf_len_def)

theorem bmap_set_in_extents_witness:
  "\<exists>inode' fs'. ext2fs_bmap2 5 one_fs 2 (Some one_extent) BMAP_SET 1 500 = Inr (None, 500, 0, Some inode', fs') \<and> fs_read_inode fs' 2 = Inr inode' \<and>
     map_of (inode_map fs' inode') 0 = Some 100 \<and> map_of (inode_map fs' inode') 1 = Some 500 \<and> map_of (inode_map fs' inode') 2 = Some 102"
proof -
  have w: "well (extents (i_block one_extent))" by (simp add: one_extent_eval well_def fits_iff max_len_bounds)
  have fl: "i_flags one_extent = EXT4_EXTENTS_FL" by (simp add: one_extent_def)
  have g: "fs_read_inode one_fs 2 = Inr one_extent" "plain_fs one_fs" "writable one_fs 2" "has BMAP_SET BMAP_SET" "\<not> has BMAP_SET BMAP_ZERO"
    by (simp_all add: one_fs_def plain_fs_def writable_def tree_fs_def flat_fs_def fs_image_file_def has_def BMAP_SET_def BMAP_ZERO_def)
  have f: "i_flags one_extent AND EXT4_EXTENTS_FL \<noteq> 0" "i_flags one_extent AND EXT4_INLINE_DATA_FL = 0"
    by (simp_all add: fl EXT4_EXTENTS_FL_def EXT4_INLINE_DATA_FL_def)
  obtain inode' fs' where r: "ext2fs_bmap2 5 one_fs 2 (Some one_extent) BMAP_SET 1 500 = Inr (None, 500, 0, Some inode', fs')" "fs_read_inode fs' 2 = Inr inode'"
    "map_of (inode_map fs' inode') = (map_of (inode_map one_fs one_extent))(1 := Some 500)"
    using bmap_set_in_extents [OF g(1) f one_extent_eval(1) w _ g(2,3) _ _ _ g(4,5), of 1 500 5] by (auto simp: one_extent_eval(3))
  have d: "eh_depth (i_block one_extent) = 0" using one_extent_eval(1) by (simp add: leaf_root_def)
  have "map_of (inode_map one_fs one_extent) b = map_option (\<lambda>(p, u). of_nat p) (emap [(0, 3, 100, False)] b)" for b
    using f(1) by (simp add: inode_map_def d tree_map_extents one_extent_eval(2) del: tree_map.simps)
  then show ?thesis using r by (intro exI [of _ inode'] exI [of _ fs']) simp
qed

end
