(* ===== verification/Extent_Iterate.thy ===== *)
theory Extent_Iterate
  imports Bmap_Lookup
begin

text \<open>
  Iterating over the blocks of an inode with extents: the branch of \<open>ext2fs_block_iterate3\<close> in
  \<^verbatim>\<open>src/e2fsprogs/lib/ext2fs/block.c\<close> that \<open>Block_Iterate\<close> leaves out, and the two older interfaces on top of it. The
  callback may change the block, which is then set in the tree. A callback that only looks is shown to
  see the mapping of the file, in order.
\<close>

section \<open>The loop over the extents\<close>

text \<open>What changes while the tree is walked. \<open>xi_fs\<close> has the answers of the file system after the writes so far.\<close>

record 's extent_iter =
  xi_ret :: u32
  xi_errcode :: errcode_t
  xi_blockcnt :: int
  xi_priv :: 's
  xi_handle :: extent_handle
  xi_fs :: ext2_filsys

text \<open>A call of the function: its answer, the block number as it left it, and the state with the answer added to \<open>ret\<close>.\<close>

definition call_func :: "'s block_func \<Rightarrow> u64 \<Rightarrow> int \<Rightarrow> 's extent_iter \<Rightarrow> u32 \<times> u64 \<times> 's extent_iter" where
  "call_func func blk cnt st =
     (let (r, b, p) = func blk cnt 0 0 (xi_priv st) in (r, b, st\<lparr>xi_ret := xi_ret st OR r, xi_priv := p\<rparr>))"

definition ro_stop :: "'s extent_iter \<Rightarrow> 's extent_iter" where
  "ro_stop st = st\<lparr>xi_errcode := Some EXT2_ET_RO_BLOCK_ITERATE, xi_ret := xi_ret st OR BLOCK_ABORT OR BLOCK_ERROR\<rparr>"

definition iter_set_bmap :: "nat \<Rightarrow> u64 \<Rightarrow> u64 \<Rightarrow> u32 \<Rightarrow> 's extent_iter \<Rightarrow> 's extent_iter res" where
  "iter_set_bmap fuel logical physical uninit st =
     and_then (ext2fs_extent_set_bmap fuel (xi_fs st) (xi_handle st) logical physical uninit) (\<lambda>(e, h, fs).
       Inr (st\<lparr>xi_errcode := e, xi_handle := h, xi_fs := fs\<rparr>))"

text \<open>The label \<open>next_block_set\<close>: with \<open>BLOCK_FLAG_APPEND\<close> the function may go on with new blocks after the last extent.\<close>

fun append_loop :: "nat \<Rightarrow> u32 \<Rightarrow> 's block_func \<Rightarrow> 's extent_iter \<Rightarrow> 's extent_iter res" where
  "append_loop 0 flags func st = Inl OutOfFuel"
| "append_loop (Suc fuel) flags func st =
     (let (r, blk, st1) = call_func func 0 (xi_blockcnt st) st
      in if ro_violation flags (xi_ret st1) then Inr (ro_stop st1)
         else if \<not> has r BLOCK_CHANGED then Inr st1
         else if xi_blockcnt st1 \<ge> 2 ^ 63 - 1 then Inl SignedOverflow
         else and_then (iter_set_bmap (Suc fuel) (of_int (xi_blockcnt st1)) blk 0 (st1\<lparr>xi_blockcnt := xi_blockcnt st1 + 1\<rparr>)) (\<lambda>st2.
           if xi_errcode st2 \<noteq> None \<or> has (xi_ret st2) BLOCK_ABORT \<or> blk = 0 then Inr st2 else append_loop fuel flags func st2))"

text \<open>The blocks of one extent; the flag tells that \<open>extent_done\<close> was reached from inside.\<close>

fun run_loop :: "nat \<Rightarrow> u32 \<Rightarrow> 's block_func \<Rightarrow> u32 \<Rightarrow> nat \<Rightarrow> u64 \<Rightarrow> 's extent_iter \<Rightarrow> (bool \<times> 's extent_iter) res" where
  "run_loop fuel flags func uninit 0 blk st = Inr (False, st)"
| "run_loop fuel flags func uninit (Suc n) blk st =
     (let (r, new_blk, st1) = call_func func blk (xi_blockcnt st) st
      in if ro_violation flags (xi_ret st1) then Inr (True, ro_stop st1)
         else and_then (if has r BLOCK_CHANGED then iter_set_bmap fuel (of_int (xi_blockcnt st1)) new_blk uninit st1 else Inr st1) (\<lambda>st2.
           if xi_errcode st2 \<noteq> None \<or> has (xi_ret st2) BLOCK_ABORT then Inr (True, st2)
           else run_loop fuel flags func uninit n (blk + 1) (st2\<lparr>xi_blockcnt := xi_blockcnt st2 + 1\<rparr>)))"

text \<open>
  An extent of an interior node: the function gets the block of the child, on the way down or on the way
  back, and may move it. There is no check that a read-only iteration changes nothing.
\<close>

definition node_call :: "u32 \<Rightarrow> 's block_func \<Rightarrow> extent \<Rightarrow> 's extent_iter \<Rightarrow> (bool \<times> 's extent_iter) res" where
  "node_call flags func ext st =
     (if has flags BLOCK_FLAG_DATA_ONLY \<or> e_second_visit ext \<noteq> has flags BLOCK_FLAG_DEPTH_TRAVERSE then Inr (False, st)
      else (let (r, blk, st1) = call_func func (e_pblk ext) (- 1) st
            in and_then (if has (xi_ret st1) BLOCK_CHANGED
                         then and_then (ext2fs_extent_replace (xi_fs st1) (xi_handle st1) (ext\<lparr>e_pblk := blk\<rparr>)) (\<lambda>(e, h, fs).
                                Inr (st1\<lparr>xi_errcode := e, xi_handle := h, xi_fs := fs\<rparr>))
                         else Inr st1) (\<lambda>st2. Inr (xi_errcode st2 \<noteq> None \<or> has (xi_ret st2) BLOCK_ABORT, st2))))"

text \<open>
  The loop \<open>while (1)\<close>. The extent after a leaf extent is fetched before the blocks are passed on, and is the next one to
  be treated (\<open>EXT2_EXTENT_CURRENT\<close>), unless the extent lies before the block count, where the next turn fetches again.
  \<open>blk\<close> is moved on by the blocks that were passed on already, but the loop starts at the first one.
\<close>

fun extent_loop :: "nat \<Rightarrow> u32 \<Rightarrow> 's block_func \<Rightarrow> extent_op \<Rightarrow> extent \<Rightarrow> 's extent_iter \<Rightarrow> 's extent_iter res" where
  "extent_loop 0 flags func op ext st = Inl OutOfFuel"
| "extent_loop (Suc fuel) flags func op ext st =
     and_then (if op = EXT2_EXTENT_CURRENT then Inr (None, xi_handle st, ext)
               else ext2fs_extent_get (Suc fuel) (xi_fs st) (xi_handle st) op ext) (\<lambda>(e, h, ext1).
       let st1 = st\<lparr>xi_errcode := (if e = Some EXT2_ET_EXTENT_NO_NEXT then None else e), xi_handle := h\<rparr>
       in if e = Some EXT2_ET_EXTENT_NO_NEXT \<and> has flags BLOCK_FLAG_APPEND then append_loop (Suc fuel) flags func st1
          else if e \<noteq> None then Inr st1
          else if \<not> e_leaf ext1
          then and_then (node_call flags func ext1 st1) (\<lambda>(stop, st2).
                 if stop then Inr st2 else extent_loop fuel flags func EXT2_EXTENT_NEXT ext1 st2)
          else and_then (ext2fs_extent_get (Suc fuel) (xi_fs st1) h EXT2_EXTENT_NEXT no_extent) (\<lambda>(retval, h1, next).
            let st2 = st1\<lparr>xi_handle := h1\<rparr>; cnt = of_int (xi_blockcnt st2) :: u64;
                uninit = (if e_uninit ext1 then EXT2_EXTENT_SET_BMAP_UNINIT else 0)
            in if e_lblk ext1 + ucast (e_len ext1) \<le> cnt then extent_loop fuel flags func EXT2_EXTENT_NEXT ext1 st2
               else (let j = ucast ((if e_lblk ext1 > cnt then e_lblk ext1 else cnt) - e_lblk ext1) :: u32
                     in and_then (run_loop (Suc fuel) flags func uninit (unat (e_len ext1)) (e_pblk ext1 + ucast j)
                                    (st2\<lparr>xi_blockcnt := sint (e_lblk ext1)\<rparr>)) (\<lambda>(stop, st3).
                          if stop then Inr st3
                          else if retval = None then extent_loop fuel flags func EXT2_EXTENT_CURRENT next st3
                          else extent_loop fuel flags func EXT2_EXTENT_NEXT ext1 st3))))"

section \<open>The whole function\<close>

text \<open>
  \<open>ext2fs_block_iterate3\<close>: the return value, the private data and the file system after it. A tree that cannot be opened
  leads to \<open>abort_exit\<close>, where the error code counts only when the function has answered \<open>BLOCK_ERROR\<close>.
\<close>

definition after_write :: "ext2_filsys \<Rightarrow> u32 \<Rightarrow> (u64 \<Rightarrow> byte list option) \<Rightarrow> ext2_inode option \<Rightarrow> ext2_filsys" where
  "after_write fs ino disk written =
     fs\<lparr>fs_read_blk := disk, fs_read_inode := (case written of None \<Rightarrow> fs_read_inode fs | Some i \<Rightarrow> (fs_read_inode fs)(ino := Inr i))\<rparr>"

definition iterate_extents :: "nat \<Rightarrow> ext2_filsys \<Rightarrow> u32 \<Rightarrow> u32 \<Rightarrow> 's block_func \<Rightarrow> u32 \<Rightarrow> ext2_inode \<Rightarrow> 's \<Rightarrow> (errcode_t \<times> 's \<times> ext2_filsys) res" where
  "iterate_extents fuel fs ino flags func ret inode priv =
     (case ext2fs_extent_open2 fs ino (Some inode) of
        Inl e \<Rightarrow>
          (let err = (if has ret BLOCK_ERROR then Some e else None)
           in if \<not> has ret BLOCK_CHANGED then Inr (err, priv, fs)
              else case fs_write_inode fs ino of
                     Some e' \<Rightarrow> Inr (Some e', priv, fs)
                   | None \<Rightarrow> Inr (err, priv, after_write fs ino (fs_read_blk fs) (Some inode)))
      | Inr h \<Rightarrow>
          and_then (extent_loop fuel flags func EXT2_EXTENT_ROOT no_extent
                     \<lparr>xi_ret = ret, xi_errcode = None, xi_blockcnt = 0, xi_priv = priv, xi_handle = h, xi_fs = fs\<rparr>) (\<lambda>st.
            Inr (xi_errcode st, xi_priv st, xi_fs st)))"

definition ext2fs_block_iterate3 :: "nat \<Rightarrow> ext2_filsys \<Rightarrow> u32 \<Rightarrow> u32 \<Rightarrow> 's block_func \<Rightarrow> 's \<Rightarrow> (errcode_t \<times> 's \<times> ext2_filsys) res" where
  "ext2fs_block_iterate3 fuel fs ino flags func priv =
     (let no_extents = and_then (block_iterate3 fs ino flags func priv) (\<lambda>(e, p, disk, written). Inr (e, p, after_write fs ino disk written))
      in case fs_read_inode fs ino of
           Inl e \<Rightarrow> no_extents
         | Inr inode \<Rightarrow>
             if i_flags inode AND EXT4_INLINE_DATA_FL \<noteq> 0 \<or> has flags BLOCK_FLAG_NO_LARGE \<and> \<not> i_mode_dir inode \<and> i_size_high inode \<noteq> 0
             then no_extents
             else (let (ret, ab, trans, ctx) = iterate_translator fs flags func inode
                         \<lparr>bc_bcount = 0, bc_errcode = None, bc_disk = fs_read_blk fs, bc_priv = priv\<rparr>
                   in if ab \<or> i_flags inode AND EXT4_EXTENTS_FL = 0 then no_extents
                      else iterate_extents fuel fs ino flags func ret (inode\<lparr>i_translator := trans\<rparr>) (bc_priv ctx)))"

text \<open>The older interfaces, with block numbers of 32 bits, and with block counts that are an \<open>int\<close>.\<close>

type_synonym 's block_func32 = "u32 \<Rightarrow> int \<Rightarrow> u32 \<Rightarrow> nat \<Rightarrow> 's \<Rightarrow> u32 \<times> u32 \<times> 's"

definition xlate64_func :: "'s block_func32 \<Rightarrow> 's block_func" where
  "xlate64_func func blocknr blockcnt ref_blk ref_offset priv =
     (let (ret, block32, priv') = func (ucast blocknr) blockcnt ref_blk ref_offset priv in (ret, ucast block32, priv'))"

definition ext2fs_block_iterate2 :: "nat \<Rightarrow> ext2_filsys \<Rightarrow> u32 \<Rightarrow> u32 \<Rightarrow> 's block_func32 \<Rightarrow> 's \<Rightarrow> (errcode_t \<times> 's \<times> ext2_filsys) res" where
  "ext2fs_block_iterate2 fuel fs ino flags func priv = ext2fs_block_iterate3 fuel fs ino flags (xlate64_func func) priv"

definition xlate_func :: "(u32 \<Rightarrow> int \<Rightarrow> 's \<Rightarrow> u32 \<times> u32 \<times> 's) \<Rightarrow> 's block_func32" where
  "xlate_func func blocknr blockcnt ref_block ref_offset priv = func blocknr (sint (of_int blockcnt :: u32)) priv"

definition ext2fs_block_iterate :: "nat \<Rightarrow> ext2_filsys \<Rightarrow> u32 \<Rightarrow> u32 \<Rightarrow> (u32 \<Rightarrow> int \<Rightarrow> 's \<Rightarrow> u32 \<times> u32 \<times> 's) \<Rightarrow> 's \<Rightarrow> (errcode_t \<times> 's \<times> ext2_filsys) res" where
  "ext2fs_block_iterate fuel fs ino flags func priv = ext2fs_block_iterate2 fuel fs ino (BLOCK_FLAG_NO_LARGE OR flags) (xlate_func func) priv"

section \<open>A function that only looks\<close>

text \<open>It ignores the blocks of nodes, which have a negative count, and gets the logical and the physical number of the others.\<close>

definition observe :: "('s \<Rightarrow> nat \<times> u64 \<Rightarrow> 's) \<Rightarrow> 's block_func" where
  "observe g blk cnt ref_blk ref_offset s = (0, blk, if cnt < 0 then s else g s (nat cnt, blk))"

definition extent_map :: "extent \<Rightarrow> (nat \<times> u64) list" where
  "extent_map ext = map (\<lambda>i. (unat (e_lblk ext) + i, e_pblk ext + of_nat i)) [0..<unat (e_len ext)]"

lemma call_observe [simp]:
  "call_func (observe g) blk cnt st = (0, blk, if cnt < 0 then st else st\<lparr>xi_priv := g (xi_priv st) (nat cnt, blk)\<rparr>)"
  by (simp add: call_func_def observe_def)

lemma run_observe:
  assumes "xi_ret st = 0" "xi_errcode st = None" "xi_blockcnt st = int c"
  shows "run_loop fuel flags (observe g) uninit n blk st =
    Inr (False, st\<lparr>xi_blockcnt := int (c + n), xi_priv := foldl g (xi_priv st) (map (\<lambda>i. (c + i, blk + of_nat i)) [0..<n])\<rparr>)"
  using assms
proof (induction n arbitrary: blk st c)
  case (Suc n)
  have "[0..<Suc n] = 0 # map Suc [0..<n]" by (metis map_Suc_upt upt_conv_Cons zero_less_Suc)
  then show ?case using Suc.prems Suc.IH [of "st\<lparr>xi_priv := g (xi_priv st) (c, blk), xi_blockcnt := 1 + int c\<rparr>" "Suc c" "blk + 1"]
    by (simp add: ro_violation_def comp_def add.commute add.left_commute)
qed simp

lemma node_observe: "xi_ret st = 0 \<Longrightarrow> xi_errcode st = None \<Longrightarrow> node_call flags (observe g) ext st = Inr (False, st)"
  by (simp add: node_call_def)

text \<open>Leaf extents in order, none of them empty, the first not before \<open>c\<close>.\<close>

fun leaves_ok :: "nat \<Rightarrow> extent list \<Rightarrow> bool" where
  "leaves_ok c [] \<longleftrightarrow> True"
| "leaves_ok c (e # es) \<longleftrightarrow> c \<le> unat (e_lblk e) \<and> unat (e_lblk e) < 2 ^ 33 \<and> 0 < e_len e \<and> leaves_ok (unat (e_lblk e) + unat (e_len e)) es"

lemma leaf_bounds:
  assumes "c \<le> unat l" "unat l < 2 ^ 33" "0 < n"
  shows "\<not> (l :: u64) + ucast (n :: u32) \<le> of_int (int c)" "sint l = int (unat l)" "(if l > of_int (int c) then l else of_int (int c)) = l"
proof -
  have n: "unat (ucast n :: u64) = unat n" by (simp add: unsigned_ucast_eq take_bit_nat_eq_self unsigned_less less_le_trans [OF unsigned_less])
  have "unat n < 2 ^ 32" using unsigned_less [of n] by simp
  then have s: "unat (l + ucast n) = unat l + unat n" using assms(2) n by (intro trans [OF unat_add_lem [THEN iffD1]]) simp_all
  have c: "unat (of_nat c :: u64) = c" using assms(1,2) by (simp add: unsigned_of_nat take_bit_nat_eq_self)
  have "0 < unat n" using assms(3) by (simp add: unat_gt_0 word_gt_0)
  then show "\<not> l + ucast n \<le> of_int (int c)" using s c assms(1) by (simp add: word_le_nat_alt)
  have "int (unat l) < int (2 ^ 33)" using assms(2) by (simp only: of_nat_less_iff)
  moreover have "- (2 ^ 63) \<le> int (unat l)" by (rule order_trans [of _ 0]) simp_all
  ultimately have "signed_take_bit 63 (int (unat l)) = int (unat l)" by (intro signed_take_bit_int_eq_self) simp_all
  moreover have "sint (of_nat (unat l) :: u64) = signed_take_bit 63 (int (unat l))" by (simp only: signed_of_nat) simp
  ultimately show "sint l = int (unat l)" by simp
  have "of_nat c \<le> l" using c assms(1) by (simp add: word_le_nat_alt)
  then show "(if l > of_int (int c) then l else of_int (int c)) = l" by (simp add: less_le)
qed

lemma leaf_turn:
  assumes st: "xi_ret st = 0" "xi_errcode st = None" "xi_blockcnt st = int c" "e_leaf ext" "leaves_ok c (ext # es)"
    and next1: "ext2fs_extent_get (Suc fuel) (xi_fs st) (xi_handle st) EXT2_EXTENT_NEXT no_extent = Inr (retval, h1, next_ext)"
  shows "extent_loop (Suc fuel) flags (observe g) EXT2_EXTENT_CURRENT ext st =
    extent_loop fuel flags (observe g) (if retval = None then EXT2_EXTENT_CURRENT else EXT2_EXTENT_NEXT) (if retval = None then next_ext else ext)
      (st\<lparr>xi_errcode := None, xi_handle := h1, xi_blockcnt := int (unat (e_lblk ext) + unat (e_len ext)), xi_priv := foldl g (xi_priv st) (extent_map ext)\<rparr>)"
proof -
  have b: "\<not> e_lblk ext + ucast (e_len ext) \<le> of_int (int c)" "sint (e_lblk ext) = int (unat (e_lblk ext))"
    "(if e_lblk ext > of_int (int c) then e_lblk ext else of_int (int c)) = e_lblk ext"
    using leaf_bounds [of c "e_lblk ext" "e_len ext"] st(5) by simp_all
  have r: "run_loop (Suc fuel) flags (observe g) u (unat (e_len ext)) (e_pblk ext) (st\<lparr>xi_errcode := None, xi_handle := h1, xi_blockcnt := int (unat (e_lblk ext))\<rparr>) =
    Inr (False, st\<lparr>xi_errcode := None, xi_handle := h1, xi_blockcnt := int (unat (e_lblk ext) + unat (e_len ext)), xi_priv := foldl g (xi_priv st) (extent_map ext)\<rparr>)" for u
    unfolding extent_map_def by (subst run_observe [where c = "unat (e_lblk ext)"]) (use st(1,2) in simp_all)
  show ?thesis
    unfolding extent_loop.simps(2) using next1 st(3,4) b
    by (cases retval) (simp_all add: r Let_def del: of_int_of_nat_eq of_nat_unat split del: if_split cong del: if_weak_cong)
qed

text \<open>The loop from an extent on which it stands: it passes on the blocks of all leaf extents that are left.\<close>

definition passes :: "'s extent_iter res \<Rightarrow> ext2_filsys \<Rightarrow> 's \<Rightarrow> bool" where
  "passes r fs s \<longleftrightarrow> (\<exists>st. r = Inr st \<and> xi_errcode st = None \<and> xi_fs st = fs \<and> xi_priv st = s)"

lemma next_turn:
  "next_to (xi_fs st) (xi_handle st) ext h1 \<Longrightarrow> xi_errcode st = None \<Longrightarrow>
   extent_loop (Suc fuel) flags func EXT2_EXTENT_NEXT e st = extent_loop (Suc fuel) flags func EXT2_EXTENT_CURRENT ext (st\<lparr>xi_handle := h1\<rparr>)"
  by (simp add: next_to_def)

lemma last_turn:
  "ends_at (xi_fs st) (xi_handle st) \<Longrightarrow> \<not> has flags BLOCK_FLAG_APPEND \<Longrightarrow>
   passes (extent_loop (Suc fuel) flags func EXT2_EXTENT_NEXT e st) (xi_fs st) (xi_priv st)"
  by (simp add: ends_at_def passes_def)

lemma extent_loop_walk:
  assumes "walk fs h exts h'" "ends_at fs h'" "\<not> has flags BLOCK_FLAG_APPEND"
    and "xi_ret st = 0" "xi_errcode st = None" "xi_blockcnt st = int c" "xi_handle st = h" "xi_fs st = fs"
    and "leaves_ok c (filter e_leaf (ext # exts))"
  shows "passes (extent_loop (Suc (Suc (length exts)) + m) flags (observe g) EXT2_EXTENT_CURRENT ext st) fs
    (foldl g (xi_priv st) (concat (map extent_map (filter e_leaf (ext # exts)))))"
  using assms
proof (induction arbitrary: ext st c rule: walk.induct)
  case (stay h)
  show ?case
  proof (cases "e_leaf ext")
    case True
    then show ?thesis using stay leaf_turn [OF stay(3-5) True, of "[]" "Suc m" "Some EXT2_ET_EXTENT_NO_NEXT" h no_extent flags g]
        last_turn [where st = "st\<lparr>xi_errcode := None, xi_handle := h, xi_blockcnt := _, xi_priv := _\<rparr>"] by (simp add: ends_at_def passes_def)
  next
    case False
    then show ?thesis using stay by (simp add: node_observe ends_at_def passes_def)
  qed
next
  case (step h e h1 exts h2)
  note st = step.prems
  show ?case
  proof (cases "e_leaf ext")
    case True
    let ?st = "st\<lparr>xi_errcode := None, xi_handle := h1, xi_blockcnt := int (unat (e_lblk ext) + unat (e_len ext)), xi_priv := foldl g (xi_priv st) (extent_map ext)\<rparr>"
    have ok: "leaves_ok c (ext # filter e_leaf (e # exts))" using st(8) True by simp
    have "ext2fs_extent_get (Suc (Suc (Suc (length exts + m)))) fs h EXT2_EXTENT_NEXT no_extent = Inr (None, h1, e)"
      using step.hyps(1) by (simp add: next_to_def)
    then have "extent_loop (Suc (Suc (length (e # exts))) + m) flags (observe g) EXT2_EXTENT_CURRENT ext st =
        extent_loop (Suc (Suc (length exts)) + m) flags (observe g) EXT2_EXTENT_CURRENT e ?st"
      using leaf_turn [OF st(3-5) True ok, of "Suc (Suc (length exts + m))" None h1 e flags g] st(6,7) by simp
    then show ?thesis using step.IH [OF st(1,2), of ?st "unat (e_lblk ext) + unat (e_len ext)" e] st(3-7) ok True by simp
  next
    case False
    have s1: "st\<lparr>xi_errcode := None, xi_handle := xi_handle st\<rparr> = st" using st(4) by simp
    have "extent_loop (Suc (Suc (length (e # exts))) + m) flags (observe g) EXT2_EXTENT_CURRENT ext st =
        extent_loop (Suc (Suc (length exts)) + m) flags (observe g) EXT2_EXTENT_NEXT ext st"
      using False node_observe [OF st(3,4)] by (simp add: s1 del: extent_loop.simps(2)) (simp add: s1)
    also have "\<dots> = extent_loop (Suc (Suc (length exts)) + m) flags (observe g) EXT2_EXTENT_CURRENT e (st\<lparr>xi_handle := h1\<rparr>)"
      using next_turn [of st e h1] step.hyps(1) st(4,6,7) by simp
    finally show ?thesis using step.IH [OF st(1,2), of "st\<lparr>xi_handle := h1\<rparr>" c e] st(3-8) False by simp
  qed
qed

section \<open>The mapping of the file\<close>

lemma leaf_extent_map: "extent_map (leaf_extent e) = leaf_map e"
proof -
  have "unat (ucast (ee_block e) :: u64) = unat (ee_block e)" by (simp add: unsigned_ucast_eq take_bit_nat_eq_self unsigned_less less_le_trans [OF unsigned_less])
  moreover have "e_lblk (leaf_extent e) = ucast (ee_block e)" "e_pblk (leaf_extent e) = ee_pblk e" by (simp_all add: leaf_extent_def Let_def)
  ultimately show ?thesis by (simp add: extent_map_def leaf_map_def leaf_extent_len)
qed

lemma node_leaves_map: "concat (map extent_map (node_leaves fs d buf)) = tree_map fs d buf"
proof (induction d arbitrary: buf)
  case (Suc d)
  have "concat (map extent_map (concat (map (\<lambda>k. node_leaves fs d (child fs buf k)) ks))) = concat (map (\<lambda>k. tree_map fs d (child fs buf k)) ks)" for ks
    using Suc.IH by (induction ks) simp_all
  then show ?case by simp
qed (simp add: comp_def leaf_extent_map)

lemma leaves_ok_sorted:
  assumes "sorted_wrt (<) (map fst (concat (map extent_map es)))" "\<forall>e \<in> set es. 0 < e_len e \<and> unat (e_lblk e) < 2 ^ 33"
    and "\<forall>b \<in> fst ` set (concat (map extent_map es)). c \<le> b"
  shows "leaves_ok c es"
  using assms
proof (induction es arbitrary: c)
  case (Cons e es)
  have n: "0 < unat (e_len e)" "unat (e_lblk e) < 2 ^ 33" using Cons.prems(2) by (simp_all add: unat_gt_0 word_gt_0)
  let ?l = "unat (e_lblk e)" and ?n = "unat (e_len e)"
  have m: "?l + i \<in> fst ` set (extent_map e)" if "i < ?n" for i using that by (force simp: extent_map_def)
  have "c \<le> ?l" using Cons.prems(3) m [OF n(1)] by force
  moreover have "?l + ?n \<le> b" if b: "b \<in> fst ` set (concat (map extent_map es))" for b
  proof -
    have lt: "\<forall>x \<in> fst ` set (extent_map e). \<forall>y \<in> fst ` set (concat (map extent_map es)). x < y"
      using Cons.prems(1) by (simp add: sorted_wrt_append)
    have "?l + (?n - 1) \<in> fst ` set (extent_map e)" by (rule m) (use n(1) in simp)
    then have "?l + (?n - 1) < b" using lt b by blast
    then show ?thesis using n by simp
  qed
  then have "leaves_ok (?l + ?n) es" using Cons.prems(1,2) by (intro Cons.IH) (auto simp: sorted_wrt_append)
  ultimately show ?case using n Cons.prems(2) by simp
qed simp

lemma node_leaves_lblk: "ext \<in> set (node_leaves fs d buf) \<Longrightarrow> unat (e_lblk ext) < 2 ^ 33"
proof (induction d arbitrary: buf)
  case 0
  then obtain e where "ext = leaf_extent e" by auto
  then have "unat (e_lblk ext) = unat (ee_block e)"
    by (simp add: leaf_extent_def Let_def unsigned_ucast_eq take_bit_nat_eq_self unsigned_less less_le_trans [OF unsigned_less])
  moreover have "unat (ee_block e) < 2 ^ 32" using unsigned_less [of "ee_block e"] by simp
  ultimately show ?case by simp
qed auto

lemma translator_observe:
  "iterate_translator fs flags (observe g) inode ctx =
     (0, False, if fs_hurd fs \<and> \<not> has flags BLOCK_FLAG_DATA_ONLY \<and> i_translator inode \<noteq> 0 then ucast (ucast (i_translator inode) :: u64) else i_translator inode, ctx)"
  by (simp add: iterate_translator_def observe_def ro_violation_def)

lemma iterate_extents_observe:
  assumes inode: "i_flags inode AND EXT4_EXTENTS_FL \<noteq> 0" "map_ok fs inode"
    and full: "\<forall>ext \<in> set (node_leaves fs (eh_depth (i_block inode)) (i_block inode)). 0 < e_len ext" and flags: "\<not> has flags BLOCK_FLAG_APPEND"
  shows "\<exists>n. \<forall>m. iterate_extents (n + m) fs ino flags (observe g) 0 inode priv = Inr (None, foldl g priv (inode_map fs inode), fs)"
proof -
  let ?root = "i_block inode" and ?d = "eh_depth (i_block inode)"
  have r: "plain_fs fs" "ext2fs_extent_header_verify ?root 60 = None" "eh_entries ?root = 0 \<or> node_ok fs {} 60 ?d ?root" "ordered fs ?d 0 (2 ^ 33) ?root"
    using inode by (simp_all add: map_ok_def)
  obtain h where h: "ext2fs_extent_open2 fs ino (Some inode) = Inr h" "h_level h = 0" "h_max_depth h = ?d"
    "length (h_path h) = Suc (h_max_depth h)" "ep_buf (cur_path h) = ?root" "ep_entries (cur_path h) = eh_entries ?root"
    using extent_open2_root [where inode_opt = "Some inode" and fs = fs and ino = ino, OF _ _ inode(1) r(2)] by force
  let ?st = "\<lparr>xi_ret = 0, xi_errcode = None, xi_blockcnt = 0, xi_priv = priv, xi_handle = h, xi_fs = fs\<rparr>"
  have m: "inode_map fs inode = tree_map fs ?d ?root" using inode(1) by (simp add: inode_map_def)
  have "\<exists>n. \<forall>m. passes (extent_loop (n + m) flags (observe g) EXT2_EXTENT_ROOT no_extent ?st) fs (foldl g priv (tree_map fs ?d ?root))"
  proof (cases "eh_entries ?root = 0")
    case True
    then have "passes (extent_loop (Suc 0 + k) flags (observe g) EXT2_EXTENT_ROOT no_extent ?st) fs (foldl g priv (tree_map fs ?d ?root))" for k
      using empty_root [OF h(2,4), of k fs no_extent] h(6) flags by (cases ?d) (auto simp: passes_def)
    then show ?thesis by blast
  next
    case False
    then obtain exts where w: "walks_from fs h exts" "filter e_leaf exts = node_leaves fs ?d ?root"
      using walks_tree [OF h(2,4) refl h(5,6), of fs 60] r(1,3) h(3) by auto
    obtain ext rest h1 h2 where e: "exts = ext # rest" "\<And>fuel e. ext2fs_extent_get (Suc fuel) fs h EXT2_EXTENT_ROOT e = Inr (None, h1, ext)"
      "walk fs h1 rest h2" "ends_at fs h2" using w(1) unfolding walks_from_def by blast
    have "leaves_ok 0 (node_leaves fs ?d ?root)"
      using full node_leaves_lblk tree_map_sorted [OF r(4)] by (intro leaves_ok_sorted) (auto simp: node_leaves_map)
    then have "passes (extent_loop (Suc (Suc (length rest)) + k) flags (observe g) EXT2_EXTENT_CURRENT ext (?st\<lparr>xi_handle := h1\<rparr>)) fs
        (foldl g (xi_priv (?st\<lparr>xi_handle := h1\<rparr>)) (concat (map extent_map (filter e_leaf (ext # rest)))))" for k
      using w(2) e(1) by (intro extent_loop_walk [OF e(3,4) flags, where c = 0]) simp_all
    moreover have "extent_loop (Suc (Suc (length rest)) + k) flags (observe g) EXT2_EXTENT_ROOT no_extent ?st =
        extent_loop (Suc (Suc (length rest)) + k) flags (observe g) EXT2_EXTENT_CURRENT ext (?st\<lparr>xi_handle := h1\<rparr>)" for k
      using e(2) by simp
    ultimately have "passes (extent_loop (Suc (Suc (length rest)) + k) flags (observe g) EXT2_EXTENT_ROOT no_extent ?st) fs (foldl g priv (tree_map fs ?d ?root))" for k
      using w(2) e(1) by (simp only: node_leaves_map) simp
    then show ?thesis by blast
  qed
  then obtain n where "\<forall>m. passes (extent_loop (n + m) flags (observe g) EXT2_EXTENT_ROOT no_extent ?st) fs (foldl g priv (inode_map fs inode))"
    unfolding m by blast
  then have "iterate_extents (n + k) fs ino flags (observe g) 0 inode priv = Inr (None, foldl g priv (inode_map fs inode), fs)" for k
    using h(1) by (auto simp: iterate_extents_def passes_def dest: spec [of _ k])
  then show ?thesis by blast
qed

section \<open>Where the code goes wrong\<close>

text \<open>A tree that cannot be opened, as one with a damaged header, is reported as iterated with success, though the function was never called.\<close>

lemma iterate_hides_failure:
  assumes "fs_read_inode fs ino = Inr inode" "i_flags inode AND EXT4_INLINE_DATA_FL = 0" "\<not> has flags BLOCK_FLAG_NO_LARGE" "\<not> fs_hurd fs"
    and "i_flags inode AND EXT4_EXTENTS_FL \<noteq> 0" "ext2fs_extent_open2 fs ino (Some inode) = Inl e"
  shows "ext2fs_block_iterate3 fuel fs ino flags func priv = Inr (None, priv, fs)"
  using assms by (simp add: ext2fs_block_iterate3_def iterate_translator_def iterate_extents_def Let_def)

text \<open>After an extent that lies before the block count the next one is fetched twice, and so left out.\<close>

lemma extent_skipped:
  assumes "e_leaf ext" "e_lblk ext + ucast (e_len ext) \<le> of_int (xi_blockcnt st)" "next_to (xi_fs st) (xi_handle st) ext1 h1" "next_to (xi_fs st) h1 ext2 h2"
  shows "extent_loop (Suc (Suc fuel)) flags func EXT2_EXTENT_CURRENT ext st =
    extent_loop (Suc fuel) flags func EXT2_EXTENT_CURRENT ext2 (st\<lparr>xi_errcode := None, xi_handle := h2\<rparr>)"
  using assms by (simp add: next_to_def)

text \<open>In a read-only iteration a function that moves the block of a node changes the tree; that no change is allowed is not checked.\<close>

lemma node_changed_read_only:
  assumes "has flags BLOCK_FLAG_READ_ONLY" "\<not> has flags BLOCK_FLAG_DATA_ONLY" "e_second_visit ext = has flags BLOCK_FLAG_DEPTH_TRAVERSE"
    and "func (e_pblk ext) (- 1) 0 0 (xi_priv st) = (BLOCK_CHANGED, blk, priv)" "xi_ret st = 0"
    and "ext2fs_extent_replace (xi_fs st) (xi_handle st) (ext\<lparr>e_pblk := blk\<rparr>) = Inr (None, h, fs)"
  shows "node_call flags func ext st = Inr (False, st\<lparr>xi_ret := BLOCK_CHANGED, xi_priv := priv, xi_errcode := None, xi_handle := h, xi_fs := fs\<rparr>)"
  using assms by (simp add: node_call_def call_func_def has_def BLOCK_CHANGED_def BLOCK_ABORT_def)

section \<open>Property\<close>

text \<open>
  C10: iterating over a file with extents. For an inode whose tree can be walked, is in order and has no empty
  extents, \<open>ext2fs_block_iterate3\<close> with a function that only looks ends without error, whatever the flags but for
  appending and the limit on large files. It has passed every data block with its logical number to the function,
  in the order of the file, and thus follows the mapping by which \<open>ext2fs_bmap2\<close> looks up blocks. The file system is left as it was.
\<close>

theorem iterate_extents_in_order:
  assumes inode: "fs_read_inode fs ino = Inr inode" "i_flags inode AND EXT4_EXTENTS_FL \<noteq> 0" "map_ok fs inode"
    and full: "\<forall>ext \<in> set (node_leaves fs (eh_depth (i_block inode)) (i_block inode)). 0 < e_len ext"
    and flags: "\<not> has flags BLOCK_FLAG_APPEND" "\<not> has flags BLOCK_FLAG_NO_LARGE"
  shows "\<exists>n. \<forall>m. ext2fs_block_iterate3 (n + m) fs ino flags (observe g) priv = Inr (None, foldl g priv (inode_map fs inode), fs)"
proof -
  let ?t = "if fs_hurd fs \<and> \<not> has flags BLOCK_FLAG_DATA_ONLY \<and> i_translator inode \<noteq> 0 then ucast (ucast (i_translator inode) :: u64) else i_translator inode"
  let ?i = "inode\<lparr>i_translator := ?t\<rparr>"
  have i: "map_ok fs ?i" "inode_map fs ?i = inode_map fs inode" using inode(2,3) by (simp_all add: map_ok_def inode_map_def)
  have "\<exists>n. \<forall>m. iterate_extents (n + m) fs ino flags (observe g) 0 ?i priv = Inr (None, foldl g priv (inode_map fs inode), fs)"
    using iterate_extents_observe [of ?i fs flags ino g priv] inode(2) i full flags(1) by simp
  moreover have "i_flags inode AND EXT4_INLINE_DATA_FL = 0" using inode(3) by (simp add: map_ok_def)
  then have "ext2fs_block_iterate3 k fs ino flags (observe g) priv = iterate_extents k fs ino flags (observe g) 0 ?i priv" for k
    using inode(1,2) flags(2) unfolding ext2fs_block_iterate3_def translator_observe by (simp add: Let_def)
  ultimately show ?thesis by simp
qed

theorem iterate_extents_in_order_witness:
  "\<exists>n. \<forall>m. ext2fs_block_iterate3 (n + m) tree_fs 2 BLOCK_FLAG_READ_ONLY (observe (\<lambda>bs b. bs @ [b])) [] = Inr (None, [(0, 100), (1, 101), (2, 200)], tree_fs)"
proof -
  let ?nd = "\<lparr>i_mode_dir = True, i_flags = EXT4_EXTENTS_FL, i_size = 3072, i_size_high = 0, i_block = tree_root, i_translator = 0\<rparr>"
  have m: "map_ok tree_fs ?nd" "inode_map tree_fs ?nd = [(0, 100), (1, 101), (2, 200)]" by (rule tree_inode_map; simp)+
  have c: "child tree_fs tree_root 0 = tree_leaf" by (simp add: child_def tree_root_eval tree_fs_def)
  have "unat (e_len (leaf_extent (ent tree_leaf 0))) = 2" "unat (e_len (leaf_extent (ent tree_leaf 1))) = 1" by (simp_all only: leaf_extent_len tree_ent_eval)
  then have "0 < e_len (leaf_extent (ent tree_leaf 0))" "0 < e_len (leaf_extent (ent tree_leaf 1))" by (simp_all add: word_less_nat_alt)
  moreover have "[0..<2] = [0, 1 :: nat]" by (simp add: upt_rec)
  ultimately have "\<forall>ext \<in> set (node_leaves tree_fs (eh_depth (i_block ?nd)) (i_block ?nd)). 0 < e_len ext" by (simp add: tree_root_eval tree_leaf_eval c)
  moreover have "fs_read_inode tree_fs 2 = Inr ?nd" by (simp add: tree_fs_def)
  ultimately show ?thesis
    using iterate_extents_in_order [of tree_fs 2 ?nd BLOCK_FLAG_READ_ONLY "\<lambda>bs b. bs @ [b]" "[]"] m
    by (simp add: EXT4_EXTENTS_FL_def has_def BLOCK_FLAG_READ_ONLY_def BLOCK_FLAG_APPEND_def BLOCK_FLAG_NO_LARGE_def)
qed

end
