(* ===== verification/Unix_Io.thy ===== *)
theory Unix_Io
  imports E2fs_Base
begin

text \<open>
  \<^verbatim>\<open>src/e2fsprogs/lib/ext2fs/unix_io.c\<close>: reading and writing the blocks of a device through a cache of
  eight blocks. The channel and its private data are one record, with the device as the kernel
  keeps it. There is one thread, so the mutexes do nothing; the handlers \<open>read_error\<close> and
  \<open>write_error\<close> are null, as \<open>unix_open_channel\<close> sets them. The counters \<open>access_time\<close> and the
  location on the device wrap around at their width. A single request has fewer than 2 GiB, and
  alignments are powers of two.
\<close>

section \<open>The device\<close>

text \<open>
  The bytes of the device, and which requests (by offset and size) the hardware fails.
\<close>

record blkdev =
  bd_bytes :: "byte list"
  bd_rerr :: "nat \<Rightarrow> nat \<Rightarrow> bool"
  bd_werr :: "nat \<Rightarrow> nat \<Rightarrow> bool"
  bd_fsync :: bool

text \<open>\<open>pread64\<close>, or \<open>lseek\<close> and \<open>read\<close>: \<open>None\<close> is an error, fewer bytes than asked for the end of the device.\<close>

definition dev_read :: "blkdev \<Rightarrow> u64 \<Rightarrow> nat \<Rightarrow> byte list option" where
  "dev_read d loc size1 =
     (if sint loc < 0 \<or> bd_rerr d (unat loc) size1 then None else Some (take size1 (drop (unat loc) (bd_bytes d))))"

definition dev_write :: "blkdev \<Rightarrow> u64 \<Rightarrow> byte list \<Rightarrow> nat option \<times> blkdev" where
  "dev_write d loc bs =
     (if sint loc < 0 \<or> bd_werr d (unat loc) (length bs) \<or> length (bd_bytes d) < unat loc then (None, d)
      else (let n = min (length bs) (length (bd_bytes d) - unat loc)
            in (Some n, d\<lparr>bd_bytes := take (unat loc) (bd_bytes d) @ take n bs @ drop (unat loc + n) (bd_bytes d)\<rparr>)))"

section \<open>The channel\<close>

record unix_cache =
  uc_buf :: "byte list"
  uc_block :: u64
  uc_access_time :: u32
  uc_dirty :: bool
  uc_in_use :: bool
  uc_write_err :: bool

definition CACHE_SIZE :: nat where "CACHE_SIZE = 8"
definition WRITE_DIRECT_SIZE :: int where "WRITE_DIRECT_SIZE = 4"

record io_channel =
  ch_block_size :: nat
  ch_align :: nat
  ch_writethrough :: bool        \<comment> \<open>\<open>CHANNEL_FLAGS_WRITETHROUGH\<close>\<close>
  ud_force_bounce :: bool        \<comment> \<open>\<open>IO_FLAG_FORCE_BOUNCE\<close>\<close>
  ud_nocache :: bool             \<comment> \<open>\<open>IO_FLAG_NOCACHE\<close>\<close>
  ud_access_time :: u32
  ud_offset :: u64
  ud_cache :: "unix_cache list"
  ud_bytes_read :: u64
  ud_bytes_written :: u64
  ud_dev :: blkdev

definition req_size :: "io_channel \<Rightarrow> int \<Rightarrow> nat" where
  "req_size ch count = nat (if count < 0 then - count else count * int (ch_block_size ch))"

definition blk_location :: "io_channel \<Rightarrow> u64 \<Rightarrow> u64" where
  "blk_location ch block = block * of_nat (ch_block_size ch) + ud_offset ch"

section \<open>Raw input and output\<close>

text \<open>The unit of the bounce buffer.\<close>

definition bounce_align :: "io_channel \<Rightarrow> nat" where
  "bounce_align ch = (if ch_align ch = 0 then 1 else ch_align ch)"

definition align_size :: "io_channel \<Rightarrow> nat" where
  "align_size ch =
     (if ch_block_size ch > bounce_align ch \<and> ch_block_size ch mod bounce_align ch = 0 then ch_block_size ch else bounce_align ch)"

text \<open>
  The loop of the bounce read from position \<open>pos\<close>: what was read, and whether all of it was. The
  offset is a remainder modulo the unit, so it is always below it.
\<close>

function bounce_read_loop :: "blkdev \<Rightarrow> nat \<Rightarrow> nat \<Rightarrow> nat \<Rightarrow> nat \<Rightarrow> byte list \<Rightarrow> bool \<times> byte list" where
  "bounce_read_loop d unit pos offset size1 buf =
     (if size1 = 0 \<or> unit \<le> offset then (True, buf)
      else case dev_read d (of_nat pos) unit of
        None \<Rightarrow> (False, buf)
      | Some bounce \<Rightarrow>
          if length bounce \<noteq> unit then (False, buf)
          else (let actual = min (unit - offset) size1
                in bounce_read_loop d unit (pos + unit) 0 (size1 - actual) (buf @ take actual (drop offset bounce))))"
  by pat_completeness auto
termination
  by (relation "measure (\<lambda>(d, unit, pos, offset, size1, buf). size1)") auto

declare bounce_read_loop.simps [simp del]

definition bounce_read :: "io_channel \<Rightarrow> u64 \<Rightarrow> nat \<Rightarrow> errcode_t \<times> io_channel \<times> byte list" where
  "bounce_read ch loc size1 =
     (let ch1 = ch\<lparr>ch_align := bounce_align ch\<rparr>; unit = align_size ch
      in if sint loc < 0 then (Some EXT2_ET_IO, ch1, replicate size1 0)
         else (let (ok, buf) = bounce_read_loop (ud_dev ch) unit (unat loc div unit * unit) (unat loc mod unit) size1 []
               in if ok then (None, ch1, buf) else (Some EXT2_ET_SHORT_READ, ch1, buf @ replicate (size1 - length buf) 0)))"

definition seek_read :: "io_channel \<Rightarrow> u64 \<Rightarrow> nat \<Rightarrow> errcode_t \<times> io_channel \<times> byte list" where
  "seek_read ch loc size1 =
     (if sint loc < 0 then (Some EXT2_ET_IO, ch, replicate size1 0)
      else case dev_read (ud_dev ch) loc size1 of
        None \<Rightarrow> (Some EXT2_ET_IO, ch, replicate size1 0)
      | Some bs \<Rightarrow> if length bs = size1 then (None, ch, bs) else (Some EXT2_ET_SHORT_READ, ch, bs @ replicate (size1 - length bs) 0))"

text \<open>\<open>aligned\<close> is \<open>IS_ALIGNED\<close> of the address of the caller's buffer.\<close>

definition direct_io :: "io_channel \<Rightarrow> bool \<Rightarrow> u64 \<Rightarrow> nat \<Rightarrow> bool" where
  "direct_io ch aligned loc size1 \<longleftrightarrow>
     ch_align ch = 0 \<or> (aligned \<and> unat loc mod ch_align ch = 0 \<and> size1 mod ch_align ch = 0)"

definition raw_read_blk :: "io_channel \<Rightarrow> bool \<Rightarrow> u64 \<Rightarrow> int \<Rightarrow> errcode_t \<times> io_channel \<times> byte list" where
  "raw_read_blk ch aligned block count =
     (let size1 = req_size ch count; loc = blk_location ch block;
          ch1 = ch\<lparr>ud_bytes_read := ud_bytes_read ch + of_nat size1\<rparr>
      in if ud_force_bounce ch \<or> \<not> direct_io ch aligned loc size1 then bounce_read ch1 loc size1
         else case dev_read (ud_dev ch) loc size1 of
           None \<Rightarrow> seek_read ch1 loc size1
         | Some bs \<Rightarrow> if length bs = size1 then (None, ch1, bs) else seek_read ch1 loc size1)"

function bounce_write_loop :: "blkdev \<Rightarrow> nat \<Rightarrow> nat \<Rightarrow> nat \<Rightarrow> byte list \<Rightarrow> errcode_t \<times> blkdev" where
  "bounce_write_loop d unit pos offset buf =
     (if buf = [] \<or> unit \<le> offset then (None, d)
      else case (if length buf < unit \<or> offset \<noteq> 0
                 then map_option (\<lambda>bs. bs @ replicate (unit - length bs) 0) (dev_read d (of_nat pos) unit)
                 else Some (replicate unit 0)) of
        None \<Rightarrow> (Some EXT2_ET_IO, d)
      | Some bounce \<Rightarrow>
          (let actual = min (unit - offset) (length buf);
               bounce' = take offset bounce @ take actual buf @ drop (offset + actual) bounce
           in case dev_write d (of_nat pos) bounce' of
                (None, d') \<Rightarrow> (Some EXT2_ET_IO, d')
              | (Some n, d') \<Rightarrow> if n \<noteq> unit then (Some EXT2_ET_SHORT_WRITE, d')
                                else bounce_write_loop d' unit (pos + unit) 0 (drop actual buf)))"
  by pat_completeness auto
termination
  by (relation "measure (\<lambda>(d, unit, pos, offset, buf). length buf)") auto

declare bounce_write_loop.simps [simp del]

definition bounce_write :: "io_channel \<Rightarrow> u64 \<Rightarrow> byte list \<Rightarrow> errcode_t \<times> io_channel" where
  "bounce_write ch loc buf =
     (let ch1 = ch\<lparr>ch_align := bounce_align ch\<rparr>; unit = align_size ch
      in if buf = [] then (None, ch1)
         else if sint loc < 0 then (Some EXT2_ET_IO, ch1)
         else (let (e, d) = bounce_write_loop (ud_dev ch) unit (unat loc div unit * unit) (unat loc mod unit) buf
               in (e, ch1\<lparr>ud_dev := d\<rparr>)))"

definition seek_write :: "io_channel \<Rightarrow> u64 \<Rightarrow> byte list \<Rightarrow> errcode_t \<times> io_channel" where
  "seek_write ch loc buf =
     (if sint loc < 0 then (Some EXT2_ET_IO, ch)
      else case dev_write (ud_dev ch) loc buf of
        (None, d) \<Rightarrow> (Some EXT2_ET_IO, ch\<lparr>ud_dev := d\<rparr>)
      | (Some n, d) \<Rightarrow> (if n = length buf then None else Some EXT2_ET_SHORT_WRITE, ch\<lparr>ud_dev := d\<rparr>))"

definition raw_write_blk :: "io_channel \<Rightarrow> bool \<Rightarrow> u64 \<Rightarrow> int \<Rightarrow> byte list \<Rightarrow> errcode_t \<times> io_channel" where
  "raw_write_blk ch aligned block count bufv =
     (let size1 = req_size ch count; loc = blk_location ch block; buf = take size1 bufv;
          ch1 = ch\<lparr>ud_bytes_written := ud_bytes_written ch + of_nat size1\<rparr>
      in if ud_force_bounce ch \<or> \<not> direct_io ch aligned loc size1 then bounce_write ch1 loc buf
         else case dev_write (ud_dev ch) loc buf of
           (None, d) \<Rightarrow> seek_write (ch1\<lparr>ud_dev := d\<rparr>) loc buf
         | (Some n, d) \<Rightarrow> if n = size1 then (None, ch1\<lparr>ud_dev := d\<rparr>) else seek_write (ch1\<lparr>ud_dev := d\<rparr>) loc buf)"

section \<open>The cache\<close>

definition empty_cache :: "nat \<Rightarrow> unix_cache" where
  "empty_cache bs = \<lparr>uc_buf = replicate bs 0, uc_block = 0, uc_access_time = 0, uc_dirty = False, uc_in_use = False, uc_write_err = False\<rparr>"

text \<open>\<open>alloc_cache\<close> after \<open>free_cache\<close>, or on a fresh channel; what the new buffers hold is never looked at.\<close>

definition alloc_cache :: "io_channel \<Rightarrow> io_channel" where
  "alloc_cache ch = ch\<lparr>ud_access_time := 0,
     ud_cache := map (\<lambda>c. (empty_cache (ch_block_size ch))\<lparr>uc_write_err := uc_write_err c\<rparr>) (ud_cache ch)\<rparr>"

text \<open>
  The search: the entry that holds the block, and otherwise the entry to reuse (the first one not
  in use, or the one accessed longest ago, by the signed counter).
\<close>

fun find_loop :: "unix_cache list \<Rightarrow> u64 \<Rightarrow> nat \<Rightarrow> nat option \<Rightarrow> (nat \<times> u32) option \<Rightarrow> nat option \<times> nat option" where
  "find_loop [] block i unused oldest = (None, if unused \<noteq> None then unused else map_option fst oldest)"
| "find_loop (c # cs) block i unused oldest =
     (if \<not> uc_in_use c then find_loop cs block (Suc i) (if unused = None then Some i else unused) oldest
      else if uc_block c = block then (Some i, None)
      else find_loop cs block (Suc i) unused
             (case oldest of None \<Rightarrow> Some (i, uc_access_time c)
              | Some (j, t) \<Rightarrow> if sint (uc_access_time c) < sint t then Some (i, uc_access_time c) else oldest))"

definition touch :: "nat \<Rightarrow> io_channel \<Rightarrow> io_channel" where
  "touch i ch = ch\<lparr>ud_access_time := ud_access_time ch + 1,
     ud_cache := (ud_cache ch)[i := (ud_cache ch ! i)\<lparr>uc_access_time := ud_access_time ch + 1\<rparr>]\<rparr>"

definition find_cached_block :: "io_channel \<Rightarrow> u64 \<Rightarrow> nat option \<times> nat option \<times> io_channel" where
  "find_cached_block ch block =
     (case find_loop (ud_cache ch) block 0 None None of
        (Some i, _) \<Rightarrow> (Some i, None, touch i ch)
      | (None, eldest) \<Rightarrow> (None, eldest, ch))"

definition set_entry :: "nat \<Rightarrow> unix_cache \<Rightarrow> io_channel \<Rightarrow> io_channel" where
  "set_entry i c ch = ch\<lparr>ud_cache := (ud_cache ch)[i := c]\<rparr>"

definition reuse_cache :: "io_channel \<Rightarrow> nat \<Rightarrow> u64 \<Rightarrow> errcode_t \<times> io_channel" where
  "reuse_cache ch i block =
     (let c = ud_cache ch ! i;
          (e, ch1) = (if uc_dirty c \<and> uc_in_use c then raw_write_blk ch True (uc_block c) 1 (uc_buf c) else (None, ch))
      in if e \<noteq> None then (e, set_entry i (c\<lparr>uc_write_err := True\<rparr>) ch1)
         else (None, (set_entry i (c\<lparr>uc_in_use := True, uc_dirty := False, uc_write_err := False, uc_block := block,
                                    uc_access_time := ud_access_time ch1 + 1\<rparr>) ch1)
                \<lparr>ud_access_time := ud_access_time ch1 + 1\<rparr>))"

text \<open>
  \<open>flush_cached_blocks\<close>: the first loop, and the loops after an error, which without a handler clear the
  error marks of the entries in use.
\<close>

definition flush_entry :: "bool \<Rightarrow> nat \<Rightarrow> errcode_t \<times> io_channel \<Rightarrow> errcode_t \<times> io_channel" where
  "flush_entry invalidate i =
     (\<lambda>(retval2, ch). let c = ud_cache ch ! i
      in if \<not> uc_in_use c \<or> \<not> uc_dirty c then (retval2, ch)
         else (let (e, ch1) = raw_write_blk ch True (uc_block c) 1 (uc_buf c)
               in if e \<noteq> None then (e, set_entry i (c\<lparr>uc_write_err := True\<rparr>) ch1)
                  else (retval2, set_entry i (c\<lparr>uc_dirty := False, uc_write_err := False,
                                                uc_in_use := (uc_in_use c \<and> \<not> invalidate)\<rparr>) ch1)))"

definition clear_write_err :: "io_channel \<Rightarrow> io_channel" where
  "clear_write_err ch = ch\<lparr>ud_cache := map (\<lambda>c. if uc_in_use c then c\<lparr>uc_write_err := False\<rparr> else c) (ud_cache ch)\<rparr>"

definition flush_cached_blocks :: "io_channel \<Rightarrow> bool \<Rightarrow> errcode_t \<times> io_channel" where
  "flush_cached_blocks ch invalidate =
     (let (retval2, ch1) = fold (flush_entry invalidate) [0..<length (ud_cache ch)] (None, ch)
      in (retval2, if retval2 \<noteq> None then clear_write_err ch1 else ch1))"

section \<open>Reading and writing blocks\<close>

text \<open>How many blocks from the second on are not cached either; \<open>find_cached_block\<close> touches the entry that ends the run.\<close>

fun uncached_run :: "io_channel \<Rightarrow> u64 \<Rightarrow> nat \<Rightarrow> nat \<Rightarrow> nat \<times> io_channel" where
  "uncached_run ch block i 0 = (i, ch)"
| "uncached_run ch block i (Suc n) =
     (case find_cached_block ch (block + of_nat i) of
        (Some _, _, ch1) \<Rightarrow> (i, ch1)
      | (None, _, ch1) \<Rightarrow> uncached_run ch1 block (Suc i) n)"

text \<open>The results of a read are saved in the cache, block by block.\<close>

fun save_blocks :: "io_channel \<Rightarrow> u64 \<Rightarrow> byte list list \<Rightarrow> errcode_t \<times> io_channel" where
  "save_blocks ch block [] = (None, ch)"
| "save_blocks ch block (b # bs) =
     (case find_cached_block ch block of
        (Some _, _, ch1) \<Rightarrow> save_blocks ch1 (block + 1) bs
      | (None, eldest, ch1) \<Rightarrow>
          (let i = the eldest; (e, ch2) = reuse_cache ch1 i block
           in if e \<noteq> None then (e, ch2)
              else save_blocks (set_entry i ((ud_cache ch2 ! i)\<lparr>uc_buf := b\<rparr>) ch2) (block + 1) bs))"

fun chunks :: "nat \<Rightarrow> nat \<Rightarrow> byte list \<Rightarrow> byte list list" where
  "chunks bs 0 xs = []"
| "chunks bs (Suc n) xs = take bs xs # chunks bs n (drop bs xs)"

lemma uncached_run_bounds: "uncached_run ch block i n = (k, ch') \<Longrightarrow> i \<le> k \<and> k \<le> i + n"
  by (induction ch block i n rule: uncached_run.induct) (fastforce split: prod.splits option.splits)+

function read_loop :: "io_channel \<Rightarrow> bool \<Rightarrow> u64 \<Rightarrow> nat \<Rightarrow> byte list \<Rightarrow> errcode_t \<times> io_channel \<times> byte list" where
  "read_loop ch aligned block count buf =
     (if count = 0 then (None, ch, buf)
      else case find_cached_block ch block of
        (Some i, _, ch1) \<Rightarrow> read_loop ch1 aligned (block + 1) (count - 1) (buf @ take (ch_block_size ch) (uc_buf (ud_cache ch1 ! i)))
      | (None, _, ch1) \<Rightarrow>
          (let (i, ch2) = uncached_run ch1 block 1 (count - 1); (e, ch3, data) = raw_read_blk ch2 aligned block (int i)
           in if e \<noteq> None then (e, ch3, buf @ data)
              else (let (e2, ch4) = save_blocks ch3 block (chunks (ch_block_size ch) i data)
                    in if e2 \<noteq> None then (e2, ch4, buf @ data)
                       else read_loop ch4 aligned (block + of_nat i) (count - i) (buf @ data))))"
  by pat_completeness auto
termination
  by (relation "measure (\<lambda>(ch, aligned, block, count, buf). count)") (auto dest!: uncached_run_bounds [OF sym])

declare read_loop.simps [simp del]

definition unix_read_blk64 :: "io_channel \<Rightarrow> bool \<Rightarrow> u64 \<Rightarrow> int \<Rightarrow> errcode_t \<times> io_channel \<times> byte list" where
  "unix_read_blk64 ch aligned block count =
     (if ud_nocache ch then raw_read_blk ch aligned block count
      else if count < 0 \<or> count > WRITE_DIRECT_SIZE
      then (let (e, ch1) = flush_cached_blocks ch False
            in if e \<noteq> None then (e, ch1, []) else raw_read_blk ch1 aligned block count)
      else read_loop ch aligned block (nat count) [])"

text \<open>
  The loop of \<open>unix_write_blk64\<close>. When an entry cannot be reused the loop is left, and what is returned
  is the result of the write-through, not the error.
\<close>

fun write_loop :: "io_channel \<Rightarrow> bool \<Rightarrow> u64 \<Rightarrow> byte list list \<Rightarrow> io_channel" where
  "write_loop ch writethrough block [] = ch"
| "write_loop ch writethrough block (b # bs) =
     (let (hit, reuse, ch1) = find_cached_block ch block;
          (e, i, ch2) = (case hit of
             Some i \<Rightarrow> (None, i, ch1)
           | None \<Rightarrow> (let i = the reuse; (e, ch2) = reuse_cache ch1 i block in (e, i, ch2)))
      in if e \<noteq> None then ch2
         else write_loop (set_entry i ((ud_cache ch2 ! i)\<lparr>uc_buf := b, uc_dirty := \<not> writethrough\<rparr>) ch2)
                writethrough (block + 1) bs)"

definition unix_write_blk64 :: "io_channel \<Rightarrow> bool \<Rightarrow> u64 \<Rightarrow> int \<Rightarrow> byte list \<Rightarrow> errcode_t \<times> io_channel" where
  "unix_write_blk64 ch aligned block count buf =
     (if ud_nocache ch then raw_write_blk ch aligned block count buf
      else if count < 0 \<or> count > WRITE_DIRECT_SIZE
      then (let (e, ch1) = flush_cached_blocks ch True
            in if e \<noteq> None then (e, ch1) else raw_write_blk ch1 aligned block count buf)
      else (let (retval, ch1) = (if ch_writethrough ch then raw_write_blk ch aligned block count buf else (None, ch))
            in (retval, write_loop ch1 (ch_writethrough ch) block (chunks (ch_block_size ch) (nat count) buf))))"

definition unix_write_byte :: "io_channel \<Rightarrow> u64 \<Rightarrow> byte list \<Rightarrow> errcode_t \<times> io_channel" where
  "unix_write_byte ch offset buf =
     (if ch_align ch \<noteq> 0 then (Some EXT2_ET_UNIMPLEMENTED, ch)
      else (let (e, ch1) = flush_cached_blocks ch True
            in if e \<noteq> None then (e, ch1) else seek_write ch1 (offset + ud_offset ch) buf))"

definition unix_flush :: "io_channel \<Rightarrow> errcode_t \<times> io_channel" where
  "unix_flush ch =
     (let (e, ch1) = flush_cached_blocks ch False
      in (if e = None \<and> \<not> bd_fsync (ud_dev ch1) then Some EXT2_ET_IO else e, ch1))"

section \<open>Opening, options and closing\<close>

definition unix_set_blksize :: "io_channel \<Rightarrow> nat \<Rightarrow> errcode_t \<times> io_channel" where
  "unix_set_blksize ch blksize =
     (if ch_block_size ch = blksize then (None, ch)
      else (let (e, ch1) = flush_cached_blocks ch False
            in if e \<noteq> None then (e, ch1) else (None, alloc_cache (ch1\<lparr>ch_block_size := blksize\<rparr>))))"

text \<open>
  \<open>unix_open_channel\<close> on the device that \<open>open\<close> found; \<open>bounce\<close> says that UNIX_IO_FORCE_BOUNCE is in the
  environment and \<open>dio\<close> is the alignment of direct input and output, 0 without \<open>IO_FLAG_DIRECT_IO\<close>.
\<close>

definition unix_open_channel :: "bool \<Rightarrow> nat \<Rightarrow> blkdev \<Rightarrow> io_channel" where
  "unix_open_channel bounce dio dev =
     \<lparr>ch_block_size = 1024, ch_align = dio, ch_writethrough = False, ud_force_bounce = bounce, ud_nocache = False,
      ud_access_time = 0, ud_offset = 0, ud_cache = replicate CACHE_SIZE (empty_cache 1024), ud_bytes_read = 0,
      ud_bytes_written = 0, ud_dev = dev\<rparr>"

definition unix_open :: "(string \<Rightarrow> blkdev option) \<Rightarrow> bool \<Rightarrow> nat \<Rightarrow> string option \<Rightarrow> ext2_err + io_channel" where
  "unix_open open1 bounce dio name =
     (case name of
        None \<Rightarrow> Inl EXT2_ET_BAD_DEVICE_NAME
      | Some path \<Rightarrow> (case open1 path of None \<Rightarrow> Inl EXT2_ET_IO | Some dev \<Rightarrow> Inr (unix_open_channel bounce dio dev)))"

text \<open>
  \<open>strtoull\<close> with base 0: the value and the text after it. Sixteen follows \<open>0x\<close> and eight a zero; with no
  digit the rest is the whole argument.
\<close>

definition base_digit :: "char \<Rightarrow> nat" where
  "base_digit c =
     (let n = of_char c
      in if is_digit c then n - 48 else if 97 \<le> n \<and> n \<le> 102 then n - 87 else if 65 \<le> n \<and> n \<le> 70 then n - 55 else 16)"

definition base_prefix :: "string \<Rightarrow> nat \<times> string" where
  "base_prefix u =
     (case u of
        z # x # d # r \<Rightarrow> if z = CHR ''0'' \<and> x \<in> {CHR ''x'', CHR ''X''} \<and> base_digit d < 16 then (16, d # r)
                        else (if z = CHR ''0'' then 8 else 10, u)
      | z # r \<Rightarrow> (if z = CHR ''0'' then 8 else 10, u)
      | [] \<Rightarrow> (10, u))"

definition strtoull0 :: "string \<Rightarrow> u64 \<times> string" where
  "strtoull0 s =
     (let t = dropWhile is_space s;
          (neg, u) = (case t of
              [] \<Rightarrow> (False, [])
            | c # u \<Rightarrow> if c = CHR ''-'' then (True, u) else if c = CHR ''+'' then (False, u) else (False, t));
          (base, body) = base_prefix u; ds = takeWhile (\<lambda>c. base_digit c < base) body;
          v = foldl (\<lambda>v c. base * v + base_digit c) 0 ds
      in if ds = [] then (0, s)
         else (if 2 ^ 64 \<le> v then - 1 else if neg then - of_nat v else of_nat v, dropWhile (\<lambda>c. base_digit c < base) body))"

definition unix_set_option :: "io_channel \<Rightarrow> string \<Rightarrow> string option \<Rightarrow> errcode_t \<times> io_channel" where
  "unix_set_option ch option arg =
     (if option = ''offset''
      then (case arg of
              None \<Rightarrow> (Some EXT2_ET_INVALID_ARGUMENT, ch)
            | Some a \<Rightarrow> (let (tmp, r) = strtoull0 a
                         in if r \<noteq> [] then (Some EXT2_ET_INVALID_ARGUMENT, ch)
                            else if sint tmp < 0 then (Some EXT2_ET_INVALID_ARGUMENT, ch\<lparr>ud_offset := tmp\<rparr>)
                            else (None, ch\<lparr>ud_offset := tmp\<rparr>)))
      else if option = ''cache''
      then (if arg = Some ''on'' then (None, ch\<lparr>ud_nocache := False\<rparr>)
            else if arg = Some ''off'' then (let (e, ch1) = flush_cached_blocks ch False in (e, ch1\<lparr>ud_nocache := True\<rparr>))
            else (Some EXT2_ET_INVALID_ARGUMENT, ch))
      else (Some EXT2_ET_INVALID_ARGUMENT, ch))"

text \<open>
  \<open>io_channel_set_options\<close> of \<^verbatim>\<open>io_manager.c\<close>: assignments separated by ampersands. \<open>cut_at c s\<close> is the text before the
  first \<open>c\<close> and, when there is one, the text after it.
\<close>

definition cut_at :: "char \<Rightarrow> string \<Rightarrow> string \<times> string option" where
  "cut_at c s = (takeWhile (\<lambda>x. x \<noteq> c) s, if c \<in> set s then Some (tl (dropWhile (\<lambda>x. x \<noteq> c) s)) else None)"

lemma cut_at_shorter: "cut_at c s = (a, Some b) \<Longrightarrow> length b < length s"
  using length_dropWhile_le [of "\<lambda>x. x \<noteq> c" s] by (cases s) (auto simp: cut_at_def split: if_splits)

lemma cut_at_none: "c \<notin> set s \<Longrightarrow> cut_at c s = (s, None)"
  by (auto simp: cut_at_def takeWhile_eq_all_conv)

function set_options_loop :: "io_channel \<Rightarrow> string \<Rightarrow> errcode_t \<times> io_channel" where
  "set_options_loop ch ptr =
     (if ptr = [] then (None, ch)
      else (case cut_at CHR ''&'' ptr of (first, next) \<Rightarrow>
        (let (option, arg) = cut_at CHR ''='' first; (e, ch1) = unix_set_option ch option arg
         in if e \<noteq> None then (e, ch1)
            else case next of None \<Rightarrow> (None, ch1) | Some r \<Rightarrow> set_options_loop ch1 r)))"
  by pat_completeness auto
termination
  by (relation "measure (\<lambda>(ch, ptr). length ptr)") (auto dest: cut_at_shorter sym)

declare set_options_loop.simps [simp del]

definition io_channel_set_options :: "io_channel \<Rightarrow> string option \<Rightarrow> errcode_t \<times> io_channel" where
  "io_channel_set_options ch opts = (case opts of None \<Rightarrow> (None, ch) | Some s \<Rightarrow> set_options_loop ch s)"

text \<open>The last reference is closed: what is left of the channel is the device.\<close>

definition unix_close :: "io_channel \<Rightarrow> bool \<Rightarrow> errcode_t \<times> blkdev" where
  "unix_close ch close_ok =
     (let (e, ch1) = flush_cached_blocks ch False in (if close_ok then e else Some EXT2_ET_IO, ud_dev ch1))"

end
