(* ===== verification/Open_Fs.thy ===== *)
theory Open_Fs
  imports Csum Unix_Io
begin

text \<open>
  \<^verbatim>\<open>src/e2fsprogs/lib/ext2fs/openfs.c\<close>: opening a file system on a channel of the Unix io manager. The superblock is read and
  checked, the channel gets the block size of the file system and the group descriptors are read.
  Allocation succeeds. The number \<open>superblock\<close> of a backup is not negative. Of the flags, \<open>EXT2_FLAG_MASTER_SB_ONLY\<close>, which only writing looks at, is
  left out. Runs that take an image file, multi-mount protection, shared blocks or a backup
  superblock with checksums end in \<open>Unmodelled\<close>.
\<close>

unbundle bit_operations_syntax

section \<open>An open file system\<close>

text \<open>The cache of inodes (inode.c): the slots, and the block that was read last. Slot 0 and block 0 are unused.\<close>

record ext2_inode_cache_ent =
  ic_ino :: u32
  ic_inode :: "byte list"

record ext2_inode_cache =
  ic_buffer :: "byte list"
  ic_buffer_blk :: u64
  ic_cache_last :: int
  ic_cache :: "ext2_inode_cache_ent list"

text \<open>\<open>struct_ext2_filsys\<close>.\<close>

record ext2fs =
  ef_super :: ext2_super_block
  ef_flags :: u32
  ef_blocksize :: u32
  ef_cluster_ratio_bits :: nat
  ef_inode_blocks_per_group :: u32
  ef_group_desc_count :: u32
  ef_desc_blocks :: u32
  ef_group_desc :: "byte list option"
  ef_csum_seed :: u32
  ef_io :: io_channel
  ef_icache :: "ext2_inode_cache option"

section \<open>Where the descriptors are\<close>

text \<open>\<open>test_root\<close> of closefs.c; the callers pass 3, 5 and 7.\<close>

function test_root :: "nat \<Rightarrow> nat \<Rightarrow> bool" where
  "test_root a b = (if a < b \<or> b < 2 then False else if a = b then True else if a mod b \<noteq> 0 then False else test_root (a div b) b)"
  by pat_completeness auto
termination
  by (relation "measure fst") auto

declare test_root.simps [simp del]

definition ext2fs_bg_has_super :: "ext2_super_block \<Rightarrow> u32 \<Rightarrow> bool" where
  "ext2fs_bg_has_super sb grp =
     (if grp = 0 then True
      else if ext2fs_has_feature_sparse_super2 sb then grp = s_backup_bgs0 sb \<or> grp = s_backup_bgs1 sb
      else if grp \<le> 1 \<or> \<not> ext2fs_has_feature_sparse_super sb then True
      else if grp AND 1 = 0 then False
      else test_root (unat grp) 3 \<or> test_root (unat grp) 5 \<or> test_root (unat grp) 7)"

text \<open>\<open>ext2fs_group_first_block2\<close> of blknum.c.\<close>

definition ext2fs_group_first_block2 :: "ext2_super_block \<Rightarrow> u32 \<Rightarrow> u64" where
  "ext2fs_group_first_block2 sb grp = ucast (s_first_data_block sb) + ucast (s_blocks_per_group sb) * ucast grp"

definition ext2fs_descriptor_block_loc2 :: "ext2fs \<Rightarrow> u64 \<Rightarrow> u32 \<Rightarrow> u64 res" where
  "ext2fs_descriptor_block_loc2 fs group_block i =
     (let sb = ef_super fs; group_zero_adjust = of_bool (i = 0 \<and> ef_blocksize fs = 1024 \<and> ef_cluster_ratio_bits fs > 0)
      in if \<not> ext2fs_has_feature_meta_bg sb \<or> i < s_first_meta_bg sb then Inr (group_block + ucast i + 1 + group_zero_adjust)
         else and_then (EXT2_DESC_PER_BLOCK sb) (\<lambda>desc_per_block.
           let bg = desc_per_block * i; has_super = of_bool (ext2fs_bg_has_super sb bg); ret_blk = ext2fs_group_first_block2 sb bg;
               bpg = ucast (s_blocks_per_group sb)
           in if group_block \<noteq> ucast (s_first_data_block sb) \<and> ret_blk + has_super + bpg < ext2fs_blocks_count sb
              then Inr (ret_blk + bpg + of_bool (ext2fs_bg_has_super sb (bg + 1)) + group_zero_adjust)
              else Inr (ret_blk + has_super + group_zero_adjust)))"

section \<open>Reading the descriptors\<close>

text \<open>The loop over the blocks of meta block groups, from block \<open>i\<close> on.\<close>

fun read_meta_bg :: "ext2fs \<Rightarrow> u64 \<Rightarrow> u32 \<Rightarrow> nat \<Rightarrow> io_channel \<Rightarrow> byte list \<Rightarrow> (errcode_t \<times> io_channel \<times> byte list) res" where
  "read_meta_bg fs group_block i 0 ch dest = Inr (None, ch, dest)"
| "read_meta_bg fs group_block i (Suc n) ch dest =
     and_then (ext2fs_descriptor_block_loc2 fs group_block i) (\<lambda>blk.
       let (e, ch1, data) = unix_read_blk64 ch True blk 1
       in if e \<noteq> None then Inr (e, ch1, dest)
          else read_meta_bg fs group_block (i + 1) n ch1 (dest @ data))"

text \<open>The number of blocks that are read at once is passed as an \<open>int\<close>.\<close>

definition read_group_desc :: "ext2fs \<Rightarrow> u64 \<Rightarrow> (errcode_t \<times> io_channel \<times> byte list) res" where
  "read_group_desc fs group_block0 =
     (let sb = ef_super fs; flags = ef_flags fs; desc_blocks = ef_desc_blocks fs;
          group_block = (if group_block0 = 0 then ucast (s_first_data_block sb) else group_block0);
          group_zero_adjust = of_bool (group_block = 0 \<and> ef_blocksize fs = 1024);
          first_meta_bg = (if ext2fs_has_feature_meta_bg sb \<and> \<not> flag flags EXT2_FLAG_IMAGE_FILE
                           then min (s_first_meta_bg sb) desc_blocks else desc_blocks);
          (e, ch1, dest) = (if first_meta_bg = 0 then (None, ef_io fs, [])
                            else unix_read_blk64 (ef_io fs) True (group_block + group_zero_adjust + 1) (sint first_meta_bg))
      in if e \<noteq> None then Inr (e, ch1, dest)
         else read_meta_bg fs group_block first_meta_bg (unat desc_blocks - unat first_meta_bg) ch1 dest)"

section \<open>Opening\<close>

definition SUPERBLOCK_OFFSET :: nat where "SUPERBLOCK_OFFSET = 1024"
definition SUPERBLOCK_SIZE :: int where "SUPERBLOCK_SIZE = 1024"

text \<open>
  The superblock is read again, up to three times, when its checksum does not match.
\<close>

fun read_super ::
  "u32 \<Rightarrow> u64 \<Rightarrow> nat \<Rightarrow> io_channel \<Rightarrow> ext2_err + errcode_t \<times> io_channel \<times> byte list" where
  "read_super flags superblock retries ch =
     (case unix_read_blk64 ch True superblock (- SUPERBLOCK_SIZE) of
        (Some e, ch1, buf) \<Rightarrow> Inl e
      | (None, ch1, buf) \<Rightarrow>
          if flag flags EXT2_FLAG_IGNORE_CSUM_ERRORS then Inr (None, ch1, buf)
          else if \<not> ext2fs_superblock_csum_verify buf
          then (case retries of
                  0 \<Rightarrow> Inr (Some EXT2_ET_SB_CSUM_INVALID, ch1, buf)
                | Suc n \<Rightarrow> read_super flags superblock n ch1)
          else Inr (if ext2fs_verify_csum_type buf then None else Some EXT2_ET_UNKNOWN_CSUM, ch1, buf))"

text \<open>From the superblock on: the checks, the block size of the channel, and the descriptors.\<close>

definition open_super :: "u32 \<Rightarrow> u64 \<Rightarrow> u64 \<Rightarrow> u32 \<Rightarrow> io_channel \<Rightarrow> ext2_super_block \<Rightarrow> (ext2_err + ext2fs) res" where
  "open_super flags superblock group_block block_size ch sb =
     (case check_super flags block_size sb of
        Some e \<Rightarrow> Inr (Inl e)
      | None \<Rightarrow>
          (let (_, ch1) = unix_set_blksize ch (unat (EXT2_BLOCK_SIZE sb));
               fs = \<lparr>ef_super = sb, ef_flags = flags, ef_blocksize = EXT2_BLOCK_SIZE sb,
                     ef_cluster_ratio_bits = unat (s_log_cluster_size sb - s_log_block_size sb),
                     ef_inode_blocks_per_group = inode_blocks_per_group sb, ef_group_desc_count = 0, ef_desc_blocks = 0,
                     ef_group_desc = None, ef_csum_seed = 0, ef_io = ch1, ef_icache = None\<rparr>
           in if ext2fs_has_feature_journal_dev sb then Inr (Inr fs)
              else and_then (check_groups flags sb) (\<lambda>r. case r of
                Inl e \<Rightarrow> Inr (Inl e)
              | Inr (group_desc_count, desc_blocks) \<Rightarrow>
                  (let fs1 = fs\<lparr>ef_group_desc_count := group_desc_count, ef_desc_blocks := desc_blocks,
                                ef_csum_seed := ext2fs_init_csum_seed sb\<rparr>
                   in and_then (if flag flags EXT2_FLAG_SUPER_ONLY then Inr (None, ch1, None)
                                else and_then (read_group_desc fs1 group_block) (\<lambda>(e, ch2, dest). Inr (e, ch2, Some dest))) (\<lambda>(e, ch2, dest).
                        if e \<noteq> None then Inr (Inl (the e))
                        else if \<not> flag flags EXT2_FLAG_SUPER_ONLY \<and> superblock > 1 \<and> (ext2fs_has_feature_gdt_csum sb \<or> ext2fs_has_feature_metadata_csum sb) then Inl Unmodelled
                        else if ext2fs_has_feature_mmp sb \<and> \<not> flag flags EXT2_FLAG_SKIP_MMP \<and>
                          flag flags (EXT2_FLAG_RW OR EXT2_FLAG_EXCLUSIVE) then Inl Unmodelled
                        else if flag flags EXT2_FLAG_SHARE_DUP then Inl Unmodelled
                        else Inr (Inr (fs1\<lparr>ef_io := ch2, ef_group_desc := dest\<rparr>)))))))"

definition ext2fs_open2 ::
  "(string \<Rightarrow> blkdev option) \<Rightarrow> bool \<Rightarrow> nat \<Rightarrow>
   string \<Rightarrow> string option \<Rightarrow> u32 \<Rightarrow> u64 \<Rightarrow> u32 \<Rightarrow> (ext2_err + ext2fs) res" where
  "ext2fs_open2 open1 bounce dio name io_options flags superblock block_size =
     (let (device_name, opts) = (if io_options = None then cut_at CHR ''?'' name else (name, io_options))
      in case unix_open open1 bounce (if flag flags EXT2_FLAG_DIRECT_IO then dio else 0) (Some device_name) of
        Inl e \<Rightarrow> Inr (Inl e)
      | Inr ch0 \<Rightarrow>
          (case io_channel_set_options ch0 opts of
             (Some e, _) \<Rightarrow> Inr (Inl e)
           | (None, ch) \<Rightarrow>
               if flag flags EXT2_FLAG_IMAGE_FILE then Inl Unmodelled
               else if superblock \<noteq> 0 \<and> block_size = 0 then Inr (Inl EXT2_ET_INVALID_ARGUMENT)
               else (let (_, ch1) = unix_set_blksize ch (if superblock \<noteq> 0 then unat block_size else SUPERBLOCK_OFFSET);
                         (blk, group_block) = (if superblock \<noteq> 0 then (superblock, superblock) else (1, 0))
                     in case read_super flags blk 3 ch1 of
                          Inl e \<Rightarrow> Inr (Inl e)
                        | Inr (retval, ch2, buf) \<Rightarrow>
                            if flag flags EXT2_FLAG_SWAP_BYTES then Inr (Inl EXT2_ET_UNIMPLEMENTED)
                            else if s_magic (super_of buf) \<noteq> EXT2_SUPER_MAGIC then Inr (Inl EXT2_ET_BAD_MAGIC)
                            else if retval \<noteq> None then Inr (Inl (the retval))
                            else open_super flags blk group_block block_size ch2 (super_of buf))))"

definition ext2fs_open ::
  "(string \<Rightarrow> blkdev option) \<Rightarrow> bool \<Rightarrow> nat \<Rightarrow>
   string \<Rightarrow> u32 \<Rightarrow> u64 \<Rightarrow> u32 \<Rightarrow> (ext2_err + ext2fs) res" where
  "ext2fs_open open1 bounce dio name flags superblock block_size =
     ext2fs_open2 open1 bounce dio name None flags superblock block_size"

end
