(* ===== verification/Inode.thy ===== *)
theory Inode
  imports Open_Fs Extent
begin

text \<open>
  \<^verbatim>\<open>src/e2fsprogs/lib/ext2fs/inode.c\<close>: reading and writing an inode through the cache of inodes, with the descriptor of its group from
  blknum.c. The callbacks of the file system are not set.
\<close>

unbundle bit_operations_syntax

section \<open>Group descriptors\<close>

text \<open>
  \<open>ext2fs_group_desc\<close>: the descriptors as they were read when the file system was opened, or the
  block that holds the descriptor, with the offset; \<open>None\<close> is the null pointer.
\<close>

definition ext2fs_group_desc :: "ext2fs \<Rightarrow> u32 \<Rightarrow> ((byte list \<times> nat) option \<times> ext2fs) res" where
  "ext2fs_group_desc fs grp =
     and_then (EXT2_DESC_PER_BLOCK (ef_super fs)) (\<lambda>desc_per_blk.
       let desc_size = EXT2_DESC_SIZE (ef_super fs) AND NOT 7
       in if grp > ef_group_desc_count fs then Inr (None, fs)
          else case ef_group_desc fs of
            Some gdp \<Rightarrow> Inr (Some (gdp, unat (grp * desc_size)), fs)
          | None \<Rightarrow>
              if desc_per_blk = 0 then Inl DivideByZero
              else and_then (ext2fs_descriptor_block_loc2 fs (ucast (s_first_data_block (ef_super fs))) (grp div desc_per_blk)) (\<lambda>blk.
                let (e, ch, buf) = unix_read_blk64 (ef_io fs) True blk 1
                in Inr (if e \<noteq> None then None else Some (buf, unat ((grp mod desc_per_blk) * desc_size)), fs\<lparr>ef_io := ch\<rparr>)))"

definition ext2fs_inode_table_loc :: "ext2fs \<Rightarrow> u32 \<Rightarrow> (u64 \<times> ext2fs) res" where
  "ext2fs_inode_table_loc fs grp =
     and_then (ext2fs_group_desc fs grp) (\<lambda>(gdp, fs1).
       case gdp of
         None \<Rightarrow> Inl NullPointer
       | Some (buf, off) \<Rightarrow>
           and_then (read_at buf (off + 8) 4) (\<lambda>lo.
             if ext2fs_has_feature_64bit (ef_super fs)
             then and_then (read_at buf (off + 0x28) 4) (\<lambda>hi. Inr (ucast (le32_at lo 0) OR push_bit 32 (ucast (le32_at hi 0)), fs1))
             else Inr (ucast (le32_at lo 0), fs1)))"

section \<open>The cache of inodes\<close>

definition ext2fs_flush_icache :: "ext2_inode_cache \<Rightarrow> ext2_inode_cache" where
  "ext2fs_flush_icache ic = ic\<lparr>ic_cache := map (\<lambda>c. c\<lparr>ic_ino := 0\<rparr>) (ic_cache ic), ic_buffer_blk := 0\<rparr>"

text \<open>The memory of a new cache is not set; nothing of it is read before it is written.\<close>

definition ext2fs_create_inode_cache :: "ext2fs \<Rightarrow> nat \<Rightarrow> ext2fs" where
  "ext2fs_create_inode_cache fs cache_size =
     (case ef_icache fs of
        Some _ \<Rightarrow> fs
      | None \<Rightarrow> fs\<lparr>ef_icache := Some (ext2fs_flush_icache
          \<lparr>ic_buffer = replicate (unat (ef_blocksize fs)) 0, ic_buffer_blk = 0, ic_cache_last = - 1,
           ic_cache = replicate cache_size \<lparr>ic_ino = 0, ic_inode = replicate (unat (EXT2_INODE_SIZE (ef_super fs))) 0\<rparr>\<rparr>)\<rparr>)"

fun cached_inode :: "ext2_inode_cache_ent list \<Rightarrow> u32 \<Rightarrow> byte list option" where
  "cached_inode [] ino = None"
| "cached_inode (c # cs) ino = (if ic_ino c = ino then Some (ic_inode c) else cached_inode cs ino)"

section \<open>Reading an inode\<close>

text \<open>
  The loop that copies the inode into its slot, block by block. When a block cannot be read the
  buffer has been written all the same, but \<open>buffer_blk\<close> still names the block before.
\<close>

function copy_inode ::
  "nat \<Rightarrow> u64 \<Rightarrow> nat \<Rightarrow> nat \<Rightarrow> io_channel \<Rightarrow> ext2_inode_cache \<Rightarrow> byte list \<Rightarrow> errcode_t \<times> io_channel \<times> ext2_inode_cache \<times> byte list" where
  "copy_inode blocksize block_nr offset len ch ic ptr =
     (if len = 0 \<or> blocksize \<le> offset then (None, ch, ic, ptr)
      else (let clen = (if offset + len > blocksize then blocksize - offset else len);
                (e, ch1, ic1) = (if block_nr = ic_buffer_blk ic then (None, ch, ic)
                                 else (let (e, ch1, data) = unix_read_blk64 ch True block_nr 1
                                       in (e, ch1, if e \<noteq> None then ic\<lparr>ic_buffer := data\<rparr>
                                                   else ic\<lparr>ic_buffer := data, ic_buffer_blk := block_nr\<rparr>)))
            in if e \<noteq> None then (e, ch1, ic1, ptr)
               else copy_inode blocksize (block_nr + 1) 0 (len - clen) ch1 ic1 (ptr @ take clen (drop offset (ic_buffer ic1)))))"
  by pat_completeness auto
termination
  by (relation "measure (\<lambda>(blocksize, block_nr, offset, len, ch, ic, ptr). len)") (auto split: if_split_asm)

declare copy_inode.simps [simp del]

text \<open>Where the inode is: the block and the offset in it. Only reading tests the number of the group first.\<close>

definition inode_place :: "ext2fs \<Rightarrow> u32 \<Rightarrow> ((ext2_err + u64 \<times> nat) \<times> ext2fs) res" where
  "inode_place fs ino =
     (let sb = ef_super fs; grp = (ino - 1) div s_inodes_per_group sb
      in if s_inodes_per_group sb = 0 then Inl DivideByZero
         else (let offset = ((ino - 1) mod s_inodes_per_group sb) * EXT2_INODE_SIZE sb;
                   block = drop_bit (unat (s_log_block_size sb) + 10) offset
               in and_then (ext2fs_inode_table_loc fs grp) (\<lambda>(block_nr, fs1).
                    if block_nr = 0 then Inr (Inl EXT2_ET_MISSING_INODE_TABLE, fs1)
                    else if block_nr < ucast (s_first_data_block sb) \<or>
                      block_nr + ucast (ef_inode_blocks_per_group fs) - 1 \<ge> ext2fs_blocks_count sb
                    then Inr (Inl EXT2_ET_GDESC_BAD_INODE_TABLE, fs1)
                    else Inr (Inr (block_nr + ucast block, unat (offset AND (EXT2_BLOCK_SIZE sb - 1))), fs1))))"

definition inode_location :: "ext2fs \<Rightarrow> u32 \<Rightarrow> ((ext2_err + u64 \<times> nat) \<times> ext2fs) res" where
  "inode_location fs ino =
     (if s_inodes_per_group (ef_super fs) = 0 then Inl DivideByZero
      else if (ino - 1) div s_inodes_per_group (ef_super fs) > ef_group_desc_count fs then Inr (Inl EXT2_ET_BAD_INODE_NUM, fs)
      else inode_place fs ino)"

text \<open>
  \<open>nocsum\<close> says that \<open>READ_INODE_NOCSUM\<close> is set. The result has the error, the bytes that were copied to the caller, and the file system.
\<close>

definition ext2fs_read_inode2 ::
  "ext2fs \<Rightarrow> u32 \<Rightarrow> nat \<Rightarrow> bool \<Rightarrow> (errcode_t \<times> byte list \<times> ext2fs) res" where
  "ext2fs_read_inode2 fs ino bufsize nocsum =
     (let sb = ef_super fs; len = unat (EXT2_INODE_SIZE sb)
      in if ext2fs_has_feature_journal_dev sb then Inr (Some EXT2_ET_EXTERNAL_JOURNAL_NOSUPP, [], fs)
         else if ef_blocksize fs < 1024 then Inr (Some EXT2_FILSYS_CORRUPTED, [], fs)
         else if ino = 0 \<or> ino > s_inodes_count sb then Inr (Some EXT2_ET_BAD_INODE_NUM, [], fs)
         else (let fs0 = ext2fs_create_inode_cache fs 4; ic = the (ef_icache fs0)
               in case cached_inode (ic_cache ic) ino of
                    Some nd \<Rightarrow> Inr (None, take (min len bufsize) nd, fs0)
                  | None \<Rightarrow>
                      if flag (ef_flags fs) EXT2_FLAG_IMAGE_FILE then Inl Unmodelled
                      else and_then (inode_location fs0 ino) (\<lambda>(r, fs1).
                        case r of
                          Inl e \<Rightarrow> Inr (Some e, [], fs1)
                        | Inr (block_nr, offset) \<Rightarrow>
                            (let slot = nat ((ic_cache_last ic + 1) mod int (length (ic_cache ic))); old = ic_cache ic ! slot;
                                 (e, ch, ic1, ptr) = copy_inode (unat (ef_blocksize fs)) block_nr offset len (ef_io fs1) ic [];
                                 nd = ptr @ drop (length ptr) (ic_inode old); ic2 = ic1\<lparr>ic_cache := (ic_cache ic)[slot := old\<lparr>ic_inode := nd\<rparr>]\<rparr>;
                                 fs2 = fs1\<lparr>ef_io := ch, ef_icache := Some ic2\<rparr>
                             in if e \<noteq> None then Inr (e, [], fs2)
                                else (let fail_csum = (\<not> ext2fs_inode_csum_verify sb (ef_csum_seed fs) ino nd);
                                          fs3 = (if fail_csum then fs2
                                                 else fs2\<lparr>ef_icache := Some (ic2\<lparr>ic_cache_last := int slot,
                                                        ic_cache := (ic_cache ic2)[slot := (ic_cache ic2 ! slot)\<lparr>ic_ino := ino\<rparr>]\<rparr>)\<rparr>)
                                      in Inr (if \<not> flag (ef_flags fs) EXT2_FLAG_IGNORE_CSUM_ERRORS \<and> \<not> nocsum \<and> fail_csum
                                              then Some EXT2_ET_INODE_CSUM_INVALID else None, take (min len bufsize) nd, fs3))))))"

definition ext2fs_read_inode :: "ext2fs \<Rightarrow> u32 \<Rightarrow> (errcode_t \<times> byte list \<times> ext2fs) res" where
  "ext2fs_read_inode fs ino = ext2fs_read_inode2 fs ino 128 False"

text \<open>The fields of \<open>struct ext2_inode\<close>.\<close>

definition inode_of :: "byte list \<Rightarrow> ext2_inode" where
  "inode_of buf =
     \<lparr>i_mode_dir = (le16_at buf 0 AND 0xF000 = 0x4000), i_flags = le32_at buf 0x20, i_size = le32_at buf 4,
      i_size_high = le32_at buf 0x6c, i_block = take 60 (drop 0x28 buf), i_translator = le32_at buf 0x24\<rparr>"

definition ext2fs_read_inode_full :: "ext2fs \<Rightarrow> u32 \<Rightarrow> nat \<Rightarrow> (errcode_t \<times> byte list \<times> ext2fs) res" where
  "ext2fs_read_inode_full fs ino bufsize = ext2fs_read_inode2 fs ino bufsize False"

section \<open>Writing an inode\<close>

text \<open>The loop that writes the inode \<open>ptr\<close> into its blocks, through the buffer of the cache.\<close>

function store_inode :: "nat \<Rightarrow> u64 \<Rightarrow> nat \<Rightarrow> byte list \<Rightarrow> io_channel \<Rightarrow> ext2_inode_cache \<Rightarrow> errcode_t \<times> io_channel \<times> ext2_inode_cache" where
  "store_inode blocksize block_nr offset ptr ch ic =
     (if ptr = [] \<or> blocksize \<le> offset then (None, ch, ic)
      else (let clen = (if offset + length ptr > blocksize then blocksize - offset else length ptr);
                (e, ch1, ic1) = (if ic_buffer_blk ic = block_nr then (None, ch, ic)
                                 else (let (e, ch1, data) = unix_read_blk64 ch True block_nr 1
                                       in (e, ch1, if e \<noteq> None then ic\<lparr>ic_buffer := data\<rparr>
                                                   else ic\<lparr>ic_buffer := data, ic_buffer_blk := block_nr\<rparr>)))
            in if e \<noteq> None then (e, ch1, ic1)
               else (let buf = ic_buffer ic1; buf1 = take offset buf @ take clen ptr @ drop (offset + clen) buf;
                         (e2, ch2) = unix_write_blk64 ch1 True block_nr 1 buf1; ic2 = ic1\<lparr>ic_buffer := buf1\<rparr>
                     in if e2 \<noteq> None then (e2, ch2, ic2)
                        else store_inode blocksize (block_nr + 1) 0 (drop clen ptr) ch2 ic2)))"
  by pat_completeness auto
termination
  by (relation "measure (\<lambda>(blocksize, block_nr, offset, ptr, ch, ic). length ptr)") (auto split: if_split_asm)

declare store_inode.simps [simp del]

text \<open>The entry of the cache is updated with what the caller passes, before the file system is known to be writable and without the checksum.\<close>

fun update_cached :: "ext2_inode_cache_ent list \<Rightarrow> u32 \<Rightarrow> byte list \<Rightarrow> ext2_inode_cache_ent list" where
  "update_cached [] ino bytes = []"
| "update_cached (c # cs) ino bytes =
     (if ic_ino c = ino then c\<lparr>ic_inode := bytes @ drop (length bytes) (ic_inode c)\<rparr> # cs else c # update_cached cs ino bytes)"

definition EXT2_FLAG_CHANGED :: u32 where "EXT2_FLAG_CHANGED = 0x02"

text \<open>\<open>inode\<close> are the bytes of the caller and \<open>nocsum\<close> says that \<open>WRITE_INODE_NOCSUM\<close> is set.\<close>

definition ext2fs_write_inode2 :: "ext2fs \<Rightarrow> u32 \<Rightarrow> byte list \<Rightarrow> bool \<Rightarrow> (errcode_t \<times> ext2fs) res" where
  "ext2fs_write_inode2 fs ino inode nocsum =
     (let sb = ef_super fs; len = unat (EXT2_INODE_SIZE sb); bytes = take len inode
      in if ext2fs_has_feature_journal_dev sb then Inr (Some EXT2_ET_EXTERNAL_JOURNAL_NOSUPP, fs)
         else if ino = 0 \<or> ino > s_inodes_count sb then Inr (Some EXT2_ET_BAD_INODE_NUM, fs)
         else and_then (if length inode < len then ext2fs_read_inode2 fs ino len True else Inr (None, [], fs)) (\<lambda>(e, old, fs1).
           if e \<noteq> None then Inr (e, fs1)
           else (let fs2 = (case ef_icache fs1 of
                              Some ic \<Rightarrow> fs1\<lparr>ef_icache := Some (ic\<lparr>ic_cache := update_cached (ic_cache ic) ino bytes\<rparr>)\<rparr>
                            | None \<Rightarrow> ext2fs_create_inode_cache fs1 4);
                     w_inode = bytes @ drop (length bytes) old
                 in if \<not> flag (ef_flags fs) EXT2_FLAG_RW then Inr (Some EXT2_ET_RO_FILSYS, fs2)
                    else (let w_inode1 = (if nocsum then w_inode else ext2fs_inode_csum_set sb (ef_csum_seed fs) ino w_inode)
                          in and_then (inode_place fs2 ino) (\<lambda>(r, fs3).
                               case r of
                                 Inl e \<Rightarrow> Inr (Some e, fs3)
                               | Inr (block_nr, offset) \<Rightarrow>
                                   (let (e, ch, ic) = store_inode (unat (ef_blocksize fs)) block_nr offset w_inode1 (ef_io fs3) (the (ef_icache fs3));
                                        fs4 = fs3\<lparr>ef_io := ch, ef_icache := Some ic\<rparr>
                                    in Inr (if e \<noteq> None then (e, fs4) else (None, fs4\<lparr>ef_flags := ef_flags fs4 OR EXT2_FLAG_CHANGED\<rparr>))))))))"

definition ext2fs_write_inode_full :: "ext2fs \<Rightarrow> u32 \<Rightarrow> byte list \<Rightarrow> (errcode_t \<times> ext2fs) res" where
  "ext2fs_write_inode_full fs ino inode = ext2fs_write_inode2 fs ino inode False"

definition ext2fs_write_inode :: "ext2fs \<Rightarrow> u32 \<Rightarrow> byte list \<Rightarrow> (errcode_t \<times> ext2fs) res" where
  "ext2fs_write_inode fs ino inode = ext2fs_write_inode2 fs ino (take 128 inode) False"

text \<open>
  The times that are 0 are set to \<open>now\<close>, in the structure of the caller as well; of a large inode the
  rest begins with the size of the additional fields and has the time of creation.
\<close>

definition default_time :: "u32 \<Rightarrow> nat \<Rightarrow> byte list \<Rightarrow> byte list" where
  "default_time now off inode = (if le32_at inode off = 0 then put_le 4 off now inode else inode)"

definition ext2fs_write_new_inode :: "u32 \<Rightarrow> ext2fs \<Rightarrow> u32 \<Rightarrow> byte list \<Rightarrow> (errcode_t \<times> byte list \<times> ext2fs) res" where
  "ext2fs_write_new_inode now fs ino inode =
     (let inode1 = default_time now 0x8 (default_time now 0x10 (default_time now 0xc inode)); len = unat (EXT2_INODE_SIZE (ef_super fs))
      in if len = 128 then and_then (ext2fs_write_inode_full fs ino inode1) (\<lambda>(e, fs1). Inr (e, inode1, fs1))
         else if len < 0x94 then Inl BufferOverflow
         else (let buf = inode1 @ replicate (len - 128) 0; buf1 = default_time now 0x90 (put_le 2 0x80 (32 :: u16) buf)
               in and_then (ext2fs_write_inode_full fs ino buf1) (\<lambda>(e, fs1). Inr (e, inode1, fs1))))"

section \<open>Queries\<close>

definition ext2fs_get_blocks :: "ext2fs \<Rightarrow> u32 \<Rightarrow> ((ext2_err + u32 list) \<times> ext2fs) res" where
  "ext2fs_get_blocks fs ino =
     (if ino > s_inodes_count (ef_super fs) then Inr (Inl EXT2_ET_BAD_INODE_NUM, fs)
      else and_then (ext2fs_read_inode fs ino) (\<lambda>(e, inode, fs1).
        Inr (case e of Some e \<Rightarrow> Inl e | None \<Rightarrow> Inr (map (\<lambda>i. le32_at inode (0x28 + 4 * i)) [0..<15]), fs1)))"

definition ext2fs_check_directory :: "ext2fs \<Rightarrow> u32 \<Rightarrow> (errcode_t \<times> ext2fs) res" where
  "ext2fs_check_directory fs ino =
     (if ino > s_inodes_count (ef_super fs) then Inr (Some EXT2_ET_BAD_INODE_NUM, fs)
      else and_then (ext2fs_read_inode fs ino) (\<lambda>(e, inode, fs1).
        Inr (case e of Some e \<Rightarrow> Some e | None \<Rightarrow> if le16_at inode 0 AND 0xF000 \<noteq> 0x4000 then Some EXT2_ET_NO_DIRECTORY else None, fs1)))"

end
