(* ===== verification/Fs_Geometry.thy ===== *)
theory Fs_Geometry
  imports Super_Block
begin

text \<open>
  What the checks of \<open>ext2fs_open2\<close> establish of a superblock they accept: sizes are powers of two that
  divide each other, and the groups and their descriptors cover the file system.
\<close>

unbundle bit_operations_syntax

lemma nat_and_pred: "0 < (n :: nat) \<Longrightarrow> n AND (n - 1) = 0 \<Longrightarrow> \<exists>k. n = 2 ^ k"
proof (induction n rule: less_induct)
  case (less n)
  show ?case
  proof (cases "even n")
    case True
    then obtain m where m: "n = 2 * m" by blast
    then have "0 < m" "(n - 1) div 2 = m - 1" using less(2) by auto
    moreover have "n AND (n - 1) = of_bool (odd n \<and> odd (n - 1)) + 2 * ((n div 2) AND ((n - 1) div 2))" by (rule and_rec)
    ultimately have "m AND (m - 1) = 0" using less(3) m by simp
    then obtain k where "m = 2 ^ k" using less(1) [of m] m \<open>0 < m\<close> by auto
    then show ?thesis using m by (metis power_Suc)
  next
    case False
    then obtain m where m: "n = 2 * m + 1" by (metis oddE)
    have "n AND (n - 1) = of_bool (odd n \<and> odd (n - 1)) + 2 * ((n div 2) AND ((n - 1) div 2))" by (rule and_rec)
    then have "m = 0" using less(3) m by simp
    then show ?thesis using m by (intro exI [of _ 0]) simp
  qed
qed

lemma word_and_pred:
  fixes x :: "'a::len word"
  assumes "x \<noteq> 0" "x AND (x - 1) = 0"
  shows "\<exists>k. unat x = 2 ^ k"
proof -
  have "unat x AND (unat x - 1) = unat (x AND (x - 1))" using assms(1) by (simp add: unsigned_and_eq unat_minus_one)
  then have "unat x AND (unat x - 1) = 0" using assms(2) by simp
  moreover have "0 < unat x" using assms(1) by (simp add: unat_gt_0)
  ultimately show ?thesis by (rule nat_and_pred [rotated])
qed

text \<open>A power of two divides a larger one.\<close>

lemma power_of_two_dvd:
  assumes "a = 2 ^ k" "b = 2 ^ m" "a \<le> (b :: nat)"
  shows "a dvd b"
  using assms by (simp add: le_imp_power_dvd)

section \<open>Sizes\<close>

definition sizes_ok :: "ext2_super_block \<Rightarrow> bool" where
  "sizes_ok sb \<longleftrightarrow>
     unat (s_log_block_size sb) \<le> 6 \<and> unat (EXT2_BLOCK_SIZE sb) = 2 ^ (10 + unat (s_log_block_size sb)) \<and>
     128 \<le> unat (EXT2_INODE_SIZE sb) \<and> unat (EXT2_INODE_SIZE sb) dvd unat (EXT2_BLOCK_SIZE sb) \<and>
     32 \<le> unat (EXT2_DESC_SIZE sb) \<and> unat (EXT2_DESC_SIZE sb) dvd unat (EXT2_BLOCK_SIZE sb) \<and> 8 dvd unat (EXT2_DESC_SIZE sb) \<and>
     (ext2fs_has_feature_64bit sb \<longrightarrow> 64 \<le> unat (EXT2_DESC_SIZE sb))"

lemma block_size_of_log:
  assumes "s_log_block_size sb \<le> 6"
  shows "unat (s_log_block_size sb) \<le> 6" "unat (EXT2_BLOCK_SIZE sb) = 2 ^ (10 + unat (s_log_block_size sb))"
proof -
  show k: "unat (s_log_block_size sb) \<le> 6" using assms by (simp add: word_le_nat_alt)
  have "unat (push_bit n (1024 :: u32)) = 2 ^ (10 + n)" if "n \<le> 6" for n
  proof -
    have "(2::nat) ^ n \<le> 2 ^ 6" using that by (intro power_increasing) auto
    moreover have "push_bit n (1024 :: u32) = of_nat (1024 * 2 ^ n)" by (simp add: push_bit_eq_mult)
    ultimately show ?thesis by (simp add: unat_of_nat power_add del: of_nat_mult of_nat_power)
  qed
  then show "unat (EXT2_BLOCK_SIZE sb) = 2 ^ (10 + unat (s_log_block_size sb))" using k by (simp add: EXT2_BLOCK_SIZE_def)
qed

lemma check_sizes_ok:
  assumes "check_sizes flags block_size sb = None" "\<not> flag flags EXT2_FLAG_IGNORE_SB_ERRORS"
  shows "sizes_ok sb"
proof -
  let ?b = "EXT2_BLOCK_SIZE sb" and ?i = "EXT2_INODE_SIZE sb" and ?d = "EXT2_DESC_SIZE sb"
  have c: "s_log_block_size sb \<le> 6" "128 \<le> ?i" "?i \<le> ?b" "?i AND (?i - 1) = 0"
    "ext2fs_has_feature_64bit sb \<Longrightarrow> 64 \<le> ?d \<and> ?d \<le> 1024 \<and> ?d AND (?d - 1) = 0"
    using assms by (auto simp: check_sizes_def Let_def EXT2_DESC_SIZE_def not_less split: if_split_asm)
  note b = block_size_of_log [OF c(1)]
  have i: "128 \<le> unat ?i" "unat ?i \<le> unat ?b" using c(2,3) by (simp_all add: word_le_nat_alt)
  obtain k where k: "unat ?i = 2 ^ k" using word_and_pred [OF _ c(4)] i(1) by (metis unat_0 not_numeral_le_zero)
  obtain m where d: "unat ?d = 2 ^ m" "32 \<le> unat ?d" "unat ?d \<le> 1024"
  proof (cases "ext2fs_has_feature_64bit sb")
    case True
    then have d: "64 \<le> ?d" "?d \<le> 1024" "?d AND (?d - 1) = 0" using c(5) by auto
    then have "?d \<noteq> 0" by auto
    then show ?thesis using that word_and_pred [OF _ d(3)] d(1,2) by (auto simp: word_le_nat_alt)
  next
    case False
    then show ?thesis by (intro that [of 5]) (simp_all add: EXT2_DESC_SIZE_def)
  qed
  have "(2::nat) ^ 10 \<le> unat ?b" unfolding b(2) by (intro power_increasing) auto
  then have "unat ?d dvd unat ?b" using power_of_two_dvd [OF d(1) b(2)] d(3) by simp
  moreover have "unat ?i dvd unat ?b" by (rule power_of_two_dvd [OF k b(2) i(2)])
  moreover have "8 dvd unat ?d" using power_of_two_dvd [of 8 3 "unat ?d" m] d by simp
  moreover have "ext2fs_has_feature_64bit sb \<Longrightarrow> 64 \<le> unat ?d" using c(5) by (simp add: word_le_nat_alt)
  ultimately show ?thesis using b i d by (simp add: sizes_ok_def)
qed

section \<open>Groups\<close>

definition groups_ok :: "ext2_super_block \<Rightarrow> u32 \<Rightarrow> u32 \<Rightarrow> bool" where
  "groups_ok sb groups desc_blocks \<longleftrightarrow>
     0 < unat (s_inodes_per_group sb) \<and> 8 \<le> unat (s_blocks_per_group sb) \<and>
     unat groups * unat (s_inodes_per_group sb) = unat (s_inodes_count sb) \<and>
     unat (s_first_data_block sb) + (unat groups - 1) * unat (s_blocks_per_group sb) < unat (ext2fs_blocks_count sb) \<and>
     unat (ext2fs_blocks_count sb) \<le> unat (s_first_data_block sb) + unat groups * unat (s_blocks_per_group sb) \<and>
     0 < unat groups \<and> unat groups * unat (EXT2_DESC_SIZE sb) \<le> unat desc_blocks * unat (EXT2_BLOCK_SIZE sb)"

lemma div64_ceil_bounds:
  assumes "a \<noteq> 0" "b \<noteq> 0"
  shows "(unat (ext2fs_div64_ceil a b) - 1) * unat b < unat a" "unat a \<le> unat (ext2fs_div64_ceil a b) * unat b" "0 < unat (ext2fs_div64_ceil a b)"
proof -
  let ?q = "(unat a - 1) div unat b"
  have pos: "0 < unat a" "0 < unat b" using assms by (simp_all add: unat_gt_0)
  have "?q \<le> unat a - 1" by simp
  moreover have "unat a < 2 ^ 64" using unsigned_less [of a, where ?'a = nat] by simp
  ultimately have q: "?q + 1 < 2 ^ 64" using pos by linarith
  have "unat ((a - 1) div b + 1) = ?q + 1"
    using q assms by (simp add: unat_word_ariths unat_div_distrib unat_minus_one)
  then have u: "unat (ext2fs_div64_ceil a b) = ?q + 1" using assms by (simp add: ext2fs_div64_ceil_def)
  have lo: "?q * unat b \<le> unat a - 1" by simp
  have hi: "unat a - 1 < (?q + 1) * unat b"
    using dividend_less_div_times [OF pos(2), of "unat a - 1"] by (simp add: algebra_simps)
  show "(unat (ext2fs_div64_ceil a b) - 1) * unat b < unat a" using lo pos(1) unfolding u add_diff_cancel_right' by linarith
  show "unat a \<le> unat (ext2fs_div64_ceil a b) * unat b" using hi unfolding u by linarith
  show "0 < unat (ext2fs_div64_ceil a b)" unfolding u by simp
qed

lemma div_ceil_bound:
  assumes "b \<noteq> 0"
  shows "unat a \<le> unat (ext2fs_div_ceil a b) * unat b"
proof (cases "a = 0")
  case False
  let ?q = "(unat a - 1) div unat b"
  have pos: "0 < unat a" "0 < unat b" using assms False by (simp_all add: unat_gt_0)
  have "?q \<le> unat a - 1" by simp
  moreover have "unat a < 2 ^ 32" using unsigned_less [of a, where ?'a = nat] by simp
  ultimately have q: "?q + 1 < 2 ^ 32" using pos by linarith
  have u: "unat (ext2fs_div_ceil a b) = ?q + 1"
    using q assms False by (simp add: ext2fs_div_ceil_def unat_word_ariths unat_div_distrib unat_minus_one)
  have "unat a - 1 < (?q + 1) * unat b"
    using dividend_less_div_times [OF pos(2), of "unat a - 1"] by (simp add: algebra_simps)
  then show ?thesis unfolding u by linarith
qed simp

text \<open>On a superblock whose sizes are checked, the check of the groups does not divide by zero.\<close>

lemma desc_per_block:
  assumes "sizes_ok sb"
  obtains n where "EXT2_DESC_PER_BLOCK sb = Inr n" "n \<noteq> 0" "unat n * unat (EXT2_DESC_SIZE sb) = unat (EXT2_BLOCK_SIZE sb)"
proof (rule that)
  let ?b = "EXT2_BLOCK_SIZE sb" and ?d = "EXT2_DESC_SIZE sb"
  have "?d \<noteq> 0" using assms by (auto simp: sizes_ok_def)
  then show "EXT2_DESC_PER_BLOCK sb = Inr (?b div ?d)" by (simp add: EXT2_DESC_PER_BLOCK_def)
  show m: "unat (?b div ?d) * unat ?d = unat ?b" using assms unfolding sizes_ok_def unat_div_distrib by (metis dvd_div_mult_self)
  have "unat ?b \<noteq> 0" using assms by (simp add: sizes_ok_def)
  then show "?b div ?d \<noteq> 0" using m by auto
qed

lemma check_groups_ok:
  assumes sz: "sizes_ok sb" and fl: "\<not> flag flags EXT2_FLAG_IGNORE_SB_ERRORS" and run: "check_groups flags sb = Inr (Inr (groups, desc_blocks))"
  shows "groups_ok sb groups desc_blocks"
proof -
  obtain n where n: "EXT2_DESC_PER_BLOCK sb = Inr n" "n \<noteq> 0" "unat n * unat (EXT2_DESC_SIZE sb) = unat (EXT2_BLOCK_SIZE sb)"
    by (rule desc_per_block [OF sz])
  let ?first = "ucast (s_first_data_block sb) :: u64" and ?c = "ext2fs_blocks_count sb" and ?bpg = "ucast (s_blocks_per_group sb) :: u64"
  let ?g = "ext2fs_div64_ceil (?c - ?first) ?bpg"
  have c: "s_inodes_per_group sb \<noteq> 0" "8 \<le> s_blocks_per_group sb" "?first < ?c" "drop_bit 32 ?g = 0" "groups = ucast ?g"
    "ucast groups * ucast (s_inodes_per_group sb) = (ucast (s_inodes_count sb) :: u64)" "desc_blocks = ext2fs_div_ceil groups n"
    using run fl n(1) by (auto simp: check_groups_def Let_def not_less not_le split: if_split_asm)
  have bpg: "unat ?bpg = unat (s_blocks_per_group sb)" "8 \<le> unat (s_blocks_per_group sb)" using c(2) by (simp_all add: word_le_nat_alt)
  have first: "unat ?first = unat (s_first_data_block sb)" by simp
  have lt: "unat ?first < unat ?c" using c(3) by (simp add: word_less_nat_alt)
  have diff: "unat (?c - ?first) = unat ?c - unat ?first" using c(3) by (simp add: unat_sub order_less_imp_le)
  have "?c - ?first \<noteq> 0" "?bpg \<noteq> 0" using lt diff bpg by (auto simp: unat_eq_0 [symmetric] simp del: unat_eq_0)
  note g = div64_ceil_bounds [OF this]
  have "unat (drop_bit 32 ?g) = 0" using c(4) by simp
  then have "unat ?g div 2 ^ 32 = 0" by (simp add: drop_bit_eq_div unat_div_distrib)
  then have "unat ?g < 2 ^ 32" by (simp add: div_eq_0_iff)
  then have ug: "unat groups = unat ?g" unfolding c(5) by (simp add: unsigned_ucast_eq take_bit_nat_eq_self)
  have "unat groups * unat (s_inodes_per_group sb) = unat (s_inodes_count sb)"
  proof -
    have "unat groups * unat (s_inodes_per_group sb) < 2 ^ 32 * 2 ^ 32"
      using unsigned_less [of groups, where ?'a = nat] unsigned_less [of "s_inodes_per_group sb", where ?'a = nat] by (intro mult_strict_mono) simp_all
    then have "unat (ucast groups * ucast (s_inodes_per_group sb) :: u64) = unat groups * unat (s_inodes_per_group sb)"
      by (simp add: unat_word_ariths)
    then show ?thesis unfolding c(6) by simp
  qed
  moreover have "unat groups * unat (EXT2_DESC_SIZE sb) \<le> unat desc_blocks * unat (EXT2_BLOCK_SIZE sb)"
    using div_ceil_bound [OF n(2), of groups] unfolding c(7) n(3) [symmetric] mult.assoc [symmetric] by (rule mult_le_mono1)
  moreover have "unat (s_first_data_block sb) + (unat groups - 1) * unat (s_blocks_per_group sb) < unat ?c"
    "unat ?c \<le> unat (s_first_data_block sb) + unat groups * unat (s_blocks_per_group sb)"
    using g(1,2) ug diff lt first bpg(1) by simp_all
  ultimately show ?thesis using c(1) bpg(2) g(3) ug by (simp add: groups_ok_def unat_gt_0)
qed

section \<open>Properties\<close>

text \<open>
  C13: a superblock that \<open>check_super\<close> accepts is well formed. The block size is a power of two between
  1024 and 65536, the sizes of inodes and descriptors divide it, the check of the groups ends without
  a division by zero, and when it accepts as well, the groups cover exactly the blocks from the first
  data block on, the number of inodes is that of the groups, and the blocks of descriptors have room for
  all groups.
\<close>

theorem accepted_superblock_geometry:
  assumes "check_super flags block_size sb = None" "\<not> flag flags EXT2_FLAG_IGNORE_SB_ERRORS"
  shows "sizes_ok sb \<and> (\<exists>r. check_groups flags sb = Inr r) \<and>
    (\<forall>groups desc_blocks. check_groups flags sb = Inr (Inr (groups, desc_blocks)) \<longrightarrow> groups_ok sb groups desc_blocks)"
proof -
  have "check_sizes flags block_size sb = None" using assms(1) by (auto simp: check_super_def split: if_split_asm option.splits)
  then have sz: "sizes_ok sb" using assms(2) by (rule check_sizes_ok)
  obtain n where n: "EXT2_DESC_PER_BLOCK sb = Inr n" by (rule desc_per_block [OF sz])
  have "\<exists>r. check_groups flags sb = Inr r" unfolding check_groups_def Let_def n by simp
  then show ?thesis using sz check_groups_ok [OF sz assms(2)] by blast
qed

text \<open>A small file system: one group of 63 blocks of 1024 bytes from block 1 on, and 16 inodes.\<close>

definition small_super :: ext2_super_block where
  "small_super =
     \<lparr>s_inodes_count = 16, s_blocks_count = 64, s_first_data_block = 1, s_log_block_size = 0, s_log_cluster_size = 0,
      s_blocks_per_group = 8192, s_clusters_per_group = 8192, s_inodes_per_group = 16, s_magic = EXT2_SUPER_MAGIC, s_creator_os = 0,
      s_rev_level = 1, s_inode_size = 128, s_feature_compat = 0, s_feature_incompat = 2, s_feature_ro_compat = 0, s_desc_size = 0,
      s_first_meta_bg = 0, s_blocks_count_hi = 0, s_log_groups_per_flex = 0, s_backup_bgs0 = 0, s_backup_bgs1 = 0,
      s_uuid = replicate 16 0, s_checksum_type = 0, s_checksum_seed = 0\<rparr>"

lemma small_super_checks: "check_super 0 0 small_super = None" "check_groups 0 small_super = Inr (Inr (1, 1))"
  by code_simp+

theorem accepted_superblock_geometry_witness: "sizes_ok small_super \<and> groups_ok small_super 1 1"
proof -
  have "\<not> flag 0 EXT2_FLAG_IGNORE_SB_ERRORS" by (simp add: flag_def)
  from accepted_superblock_geometry [OF small_super_checks(1) this] small_super_checks(2) show ?thesis by blast
qed

text \<open>
  with \<open>EXT2_FLAG_IGNORE_SB_ERRORS\<close> the size of a 64-bit descriptor is not checked, and a superblock
  that gives it as 0 stops the process with a division by zero in the check of the groups.
\<close>

theorem zero_descriptor_size_divides:
  "\<exists>sb. check_super EXT2_FLAG_IGNORE_SB_ERRORS 0 sb = None \<and> check_groups EXT2_FLAG_IGNORE_SB_ERRORS sb = Inl DivideByZero"
  by (rule exI [of _ "small_super\<lparr>s_feature_incompat := 0x82\<rparr>"]) code_simp

end
