(* ===== verification/Raw_Io.thy ===== *)
theory Raw_Io
  imports Unix_Io
begin

text \<open>
  What raw input and output of \<^verbatim>\<open>unix_io.c\<close> do to a device, whichever way they take: a read returns the bytes
  of the device, a write replaces them, directly or through the bounce buffer.
\<close>

section \<open>Well-formed channels\<close>

definition dev_pos :: "io_channel \<Rightarrow> u64 \<Rightarrow> nat" where
  "dev_pos ch b = unat b * ch_block_size ch + unat (ud_offset ch)"

text \<open>The \<open>n\<close> blocks from \<open>b\<close> on lie inside the device.\<close>

definition in_range :: "io_channel \<Rightarrow> u64 \<Rightarrow> nat \<Rightarrow> bool" where
  "in_range ch b n \<longleftrightarrow> dev_pos ch b + n * ch_block_size ch \<le> length (bd_bytes (ud_dev ch))"

definition dev_block :: "io_channel \<Rightarrow> u64 \<Rightarrow> byte list" where
  "dev_block ch b = take (ch_block_size ch) (drop (dev_pos ch b) (bd_bytes (ud_dev ch)))"

definition bounces :: "io_channel \<Rightarrow> bool" where
  "bounces ch \<longleftrightarrow> ud_force_bounce ch \<or> ch_align ch \<noteq> 0"

definition chan_ok :: "io_channel \<Rightarrow> bool" where
  "chan_ok ch \<longleftrightarrow> 0 < ch_block_size ch \<and> length (bd_bytes (ud_dev ch)) < 2 ^ 63 \<and> length (ud_cache ch) = CACHE_SIZE \<and>
     (bounces ch \<longrightarrow> align_size ch dvd length (bd_bytes (ud_dev ch)))"

text \<open>Writing does not fail; through the bounce buffer it reads as well.\<close>

definition write_ok :: "io_channel \<Rightarrow> bool" where
  "write_ok ch \<longleftrightarrow> (\<forall>l s. \<not> bd_werr (ud_dev ch) l s) \<and> (bounces ch \<longrightarrow> (\<forall>l s. \<not> bd_rerr (ud_dev ch) l s))"

text \<open>The parts of a channel that raw input leaves alone.\<close>

definition same_but_counters :: "io_channel \<Rightarrow> io_channel \<Rightarrow> bool" where
  "same_but_counters ch ch' \<longleftrightarrow>
     ch_block_size ch' = ch_block_size ch \<and> align_size ch' = align_size ch \<and> bounces ch' = bounces ch \<and>
     ch_writethrough ch' = ch_writethrough ch \<and> ud_nocache ch' = ud_nocache ch \<and> ud_offset ch' = ud_offset ch \<and>
     ud_access_time ch' = ud_access_time ch \<and> ud_cache ch' = ud_cache ch"

lemma small_word: "p < 2 ^ 63 \<Longrightarrow> unat (of_nat p :: u64) = p \<and> 0 \<le> sint (of_nat p :: u64)"
proof -
  assume lt: "p < 2 ^ 63"
  then have u: "unat (of_nat p :: u64) = p" by (simp add: unat_of_nat)
  have "uint (of_nat p :: u64) < 2 ^ 63" using u lt by (metis of_nat_less_iff of_nat_numeral of_nat_power uint_nat)
  then have "\<not> bit (uint (of_nat p :: u64)) 63" by (simp add: bit_iff_odd div_pos_pos_trivial)
  then show ?thesis using u by (simp add: sint_uint)
qed

lemma dev_pos_bound:
  assumes "dev_pos ch b + n \<le> length (bd_bytes (ud_dev ch))" "0 < n" "chan_ok ch"
  shows "dev_pos ch b < 2 ^ 63" "unat (blk_location ch b) = dev_pos ch b" "0 \<le> sint (blk_location ch b)"
proof -
  show lt: "dev_pos ch b < 2 ^ 63" using assms unfolding chan_ok_def by linarith
  have eq: "blk_location ch b = of_nat (dev_pos ch b)" by (simp add: blk_location_def dev_pos_def)
  show "unat (blk_location ch b) = dev_pos ch b" "0 \<le> sint (blk_location ch b)" using small_word [OF lt] by (simp_all add: eq)
qed

section \<open>The bounce buffer\<close>

text \<open>Reading through the bounce buffer gives the bytes that a direct read gives.\<close>

lemma bounce_read_loop_spec:
  assumes "bounce_read_loop d unit pos offset size1 buf = (ok, buf')" and "offset < unit"
    and "pos + offset + size1 \<le> length (bd_bytes d)" and "length (bd_bytes d) < 2 ^ 63" and "unit dvd length (bd_bytes d)" "unit dvd pos"
  shows "(ok \<longrightarrow> buf' = buf @ take size1 (drop (pos + offset) (bd_bytes d))) \<and> ((\<forall>l s. \<not> bd_rerr d l s) \<longrightarrow> ok)"
  using assms
proof (induction d unit pos offset size1 buf rule: bounce_read_loop.induct)
  case (1 d unit pos offset size1 buf)
  show ?case
  proof (cases "size1 = 0")
    case True
    then show ?thesis using 1(2) by (simp add: bounce_read_loop.simps)
  next
    case False
    let ?n = "length (bd_bytes d)" and ?a = "min (unit - offset) size1"
    have "pos < ?n" using 1(4) False by linarith
    then have pu: "pos + unit \<le> ?n" using 1(6,7) by (metis dvd_imp_le dvd_add_right_iff le_add_diff_inverse less_imp_le_nat add_left_mono zero_less_diff)
    have w: "unat (of_nat pos :: u64) = pos" "0 \<le> sint (of_nat pos :: u64)" using small_word [of pos] \<open>pos < ?n\<close> 1(5) by auto
    show ?thesis
    proof (cases "bd_rerr d pos unit")
      case True
      then show ?thesis using 1(2,3) False w by (auto simp: bounce_read_loop.simps [of d unit pos] dev_read_def)
    next
      case rd: False
      then have r: "dev_read d (of_nat pos) unit = Some (take unit (drop pos (bd_bytes d)))" using w by (simp add: dev_read_def)
      let ?b = "take unit (drop pos (bd_bytes d))"
      have l: "length ?b = unit" using pu by simp
      have rec: "bounce_read_loop d unit (pos + unit) 0 (size1 - ?a) (buf @ take ?a (drop offset ?b)) = (ok, buf')"
        using 1(2,3) False r l by (simp add: bounce_read_loop.simps [of d unit pos] Let_def)
      have c: "\<not> (size1 = 0 \<or> unit \<le> offset)" using False 1(3) by simp
      have "(ok \<longrightarrow> buf' = (buf @ take ?a (drop offset ?b)) @ take (size1 - ?a) (drop (pos + unit + 0) (bd_bytes d))) \<and> ((\<forall>l s. \<not> bd_rerr d l s) \<longrightarrow> ok)"
      proof (rule 1(1) [OF c r _ refl rec])
        show "pos + unit + 0 + (size1 - ?a) \<le> ?n"
        proof (cases "size1 \<le> unit - offset")
          case True
          then show ?thesis using pu by simp
        next
          case False
          then show ?thesis using 1(3,4) by simp
        qed
      qed (use l 1(3-7) in simp_all)
      moreover have "take ?a (drop offset ?b) @ take (size1 - ?a) (drop (pos + unit) (bd_bytes d)) = take size1 (drop (pos + offset) (bd_bytes d))"
      proof (cases "size1 \<le> unit - offset")
        case True
        then show ?thesis by (simp add: drop_take take_take min_def add.commute)
      next
        case False
        have "take size1 (drop (pos + offset) (bd_bytes d)) = take (unit - offset) (drop (pos + offset) (bd_bytes d)) @
            take (size1 - (unit - offset)) (drop (unit - offset) (drop (pos + offset) (bd_bytes d)))"
          using False by (metis le_add_diff_inverse linear take_add)
        then show ?thesis using False 1(3) by (simp add: drop_take add.commute min_def)
      qed
      ultimately show ?thesis by simp
    qed
  qed
qed

section \<open>Replacing a part of the device\<close>

definition overlay :: "'a list \<Rightarrow> nat \<Rightarrow> 'a list \<Rightarrow> 'a list" where
  "overlay xs p bs = take p xs @ bs @ drop (p + length bs) xs"

lemma length_overlay [simp]: "p + length bs \<le> length xs \<Longrightarrow> length (overlay xs p bs) = length xs"
  by (simp add: overlay_def)

lemma overlay_Nil [simp]: "overlay xs p [] = xs"
  by (simp add: overlay_def)

lemma nth_overlay:
  assumes "p + length bs \<le> length xs"
  shows "overlay xs p bs ! i = (if p \<le> i \<and> i < p + length bs then bs ! (i - p) else xs ! i)"
proof -
  have "p \<le> length xs" using assms by simp
  then show ?thesis using assms by (auto simp: overlay_def nth_append min_absorb2)
qed

lemma overlay_same: "p + length bs \<le> length xs \<Longrightarrow> take (length bs) (drop p (overlay xs p bs)) = bs"
  by (rule nth_equalityI) (auto simp: nth_overlay)

lemma overlay_other:
  assumes "p + length bs \<le> length xs" and "q + m \<le> p \<or> p + length bs \<le> q"
  shows "take m (drop q (overlay xs p bs)) = take m (drop q xs)"
  by (rule nth_equalityI) (use assms in \<open>auto simp: nth_overlay\<close>)

lemma overlay_overlay:
  assumes "p + length as + length bs \<le> length xs" and "q = p + length as"
  shows "overlay (overlay xs p as) q bs = overlay xs p (as @ bs)"
  by (rule nth_equalityI) (use assms in \<open>auto simp: nth_overlay nth_append\<close>)

lemma overlay_within:
  assumes "length B = u" "k + length as \<le> u" "pos + u \<le> length xs"
    and "\<And>j. j < u \<Longrightarrow> j < k \<or> k + length as \<le> j \<Longrightarrow> B ! j = xs ! (pos + j)"
  shows "overlay xs pos (overlay B k as) = overlay xs (pos + k) as"
proof (rule nth_equalityI)
  show "length (overlay xs pos (overlay B k as)) = length (overlay xs (pos + k) as)" using assms(1-3) by simp
next
  fix i
  assume "i < length (overlay xs pos (overlay B k as))"
  then show "overlay xs pos (overlay B k as) ! i = overlay xs (pos + k) as ! i"
    using assms(1-3) assms(4) [of "i - pos"] by (auto simp: nth_overlay)
qed

lemma dev_write_in_range:
  assumes "p + length bs \<le> length (bd_bytes d)" "length (bd_bytes d) < 2 ^ 63" "\<not> bd_werr d p (length bs)"
    "unat loc = p" "0 \<le> sint loc"
  shows "dev_write d loc bs = (Some (length bs), d\<lparr>bd_bytes := overlay (bd_bytes d) p bs\<rparr>)"
proof -
  have "min (length bs) (length (bd_bytes d) - p) = length bs" using assms(1) by simp
  then show ?thesis using assms by (simp add: dev_write_def overlay_def Let_def)
qed

text \<open>Writing through the bounce buffer has the effect of a direct write.\<close>

lemma bounce_write_loop_spec:
  assumes "offset < unit" and "pos + offset + length buf \<le> length (bd_bytes d)" and "length (bd_bytes d) < 2 ^ 63"
    and "unit dvd length (bd_bytes d)" "unit dvd pos" and "\<forall>l s. \<not> bd_werr d l s" "\<forall>l s. \<not> bd_rerr d l s"
  shows "bounce_write_loop d unit pos offset buf = (None, d\<lparr>bd_bytes := overlay (bd_bytes d) (pos + offset) buf\<rparr>)"
  using assms
proof (induction d unit pos offset buf rule: bounce_write_loop.induct)
  case (1 d unit pos offset buf)
  show ?case
  proof (cases "buf = []")
    case True
    then show ?thesis by (simp add: bounce_write_loop.simps)
  next
    case False
    let ?n = "length (bd_bytes d)" and ?a = "min (unit - offset) (length buf)"
    have "pos < ?n" using 1(3) False by (cases buf) auto
    then have pu: "pos + unit \<le> ?n" using 1(5,6) by (metis dvd_imp_le dvd_add_right_iff le_add_diff_inverse less_imp_le_nat add_left_mono zero_less_diff)
    have w: "unat (of_nat pos :: u64) = pos" "0 \<le> sint (of_nat pos :: u64)" using small_word [of pos] \<open>pos < ?n\<close> 1(4) by auto
    define bounce where "bounce = (if length buf < unit \<or> offset \<noteq> 0 then take unit (drop pos (bd_bytes d)) else replicate unit 0)"
    define new where "new = take offset bounce @ take ?a buf @ drop (offset + ?a) bounce"
    have lB: "length bounce = unit" using pu by (simp add: bounce_def)
    have rd: "(if length buf < unit \<or> offset \<noteq> 0
                 then map_option (\<lambda>bs. bs @ replicate (unit - length bs) 0) (dev_read d (of_nat pos) unit)
                 else Some (replicate unit 0)) = Some bounce"
      using w 1(8) pu by (simp add: dev_read_def bounce_def)
    have len: "length new = unit" using lB 1(2) by (simp add: new_def)
    have sp: "overlay (bd_bytes d) pos new = overlay (bd_bytes d) (pos + offset) (take ?a buf)"
    proof -
      have "new = overlay bounce offset (take ?a buf)" by (simp add: overlay_def new_def min_def)
      moreover have "bounce ! j = bd_bytes d ! (pos + j)" if "j < unit" "j < offset \<or> offset + length (take ?a buf) \<le> j" for j
      proof -
        have "length buf < unit \<or> offset \<noteq> 0" using that by auto
        then show ?thesis using that pu by (simp add: bounce_def)
      qed
      moreover have "offset + length (take ?a buf) \<le> unit" using 1(2) by simp
      ultimately show ?thesis using overlay_within [OF lB _ pu] by metis
    qed
    let ?d = "d\<lparr>bd_bytes := overlay (bd_bytes d) pos new\<rparr>"
    have wr: "dev_write d (of_nat pos) new = (Some unit, ?d)"
      using dev_write_in_range [of pos new d "of_nat pos"] len pu 1(4,7) w by simp
    have c: "\<not> (buf = [] \<or> unit \<le> offset)" using False 1(2) by simp
    have lspl: "length (bd_bytes ?d) = ?n" using len pu by simp
    have "bounce_write_loop ?d unit (pos + unit) 0 (drop ?a buf) =
        (None, ?d\<lparr>bd_bytes := overlay (bd_bytes ?d) (pos + unit + 0) (drop ?a buf)\<rparr>)"
    proof (rule 1(1) [OF c rd refl new_def wr [symmetric] refl])
    qed (use 1(2-8) pu lspl in \<open>auto simp: min_def\<close>)
    moreover have "overlay (bd_bytes ?d) (pos + unit) (drop ?a buf) = overlay (bd_bytes d) (pos + offset) buf"
    proof (cases "length buf \<le> unit - offset")
      case True
      then show ?thesis using sp by (simp add: min_def)
    next
      case False
      then have a: "?a = unit - offset" by simp
      have "overlay (overlay (bd_bytes d) (pos + offset) (take ?a buf)) (pos + unit) (drop ?a buf) =
          overlay (bd_bytes d) (pos + offset) (take ?a buf @ drop ?a buf)"
        by (rule overlay_overlay) (use a False 1(2,3) in simp_all)
      then show ?thesis by (simp add: sp)
    qed
    ultimately show ?thesis using c wr
      by (subst bounce_write_loop.simps, subst rd) (simp add: Let_def new_def [symmetric])
  qed
qed

section \<open>Raw input and output\<close>

lemma align_size_pos: "0 < align_size ch"
  by (simp add: align_size_def bounce_align_def)

lemma bounced:
  assumes "ud_force_bounce ch \<or> \<not> direct_io ch aligned loc n"
  shows "bounces ch"
  using assms by (auto simp: bounces_def direct_io_def)

lemma same_but_counters_bounce:
  assumes "bounces ch"
  shows "same_but_counters ch (ch\<lparr>ud_bytes_read := r, ud_bytes_written := w, ch_align := bounce_align ch, ud_dev := d\<rparr>)"
  using assms by (simp add: same_but_counters_def align_size_def bounce_align_def bounces_def)

lemma same_but_counters_direct: "same_but_counters ch (ch\<lparr>ud_bytes_read := r, ud_bytes_written := w, ud_dev := d\<rparr>)"
  by (simp add: same_but_counters_def align_size_def bounce_align_def bounces_def)

lemma raw_read_spec:
  assumes "chan_ok ch" and fits: "dev_pos ch b + req_size ch count \<le> length (bd_bytes (ud_dev ch))" and "0 < req_size ch count"
    and run: "raw_read_blk ch aligned b count = (e, ch', data)"
  shows "same_but_counters ch ch'" "ud_dev ch' = ud_dev ch"
    "e = None \<Longrightarrow> data = take (req_size ch count) (drop (dev_pos ch b) (bd_bytes (ud_dev ch)))"
    "(\<forall>l s. \<not> bd_rerr (ud_dev ch) l s) \<Longrightarrow> e = None"
proof -
  let ?loc = "blk_location ch b" and ?d = "ud_dev ch" and ?u = "align_size ch"
  define n where "n = req_size ch count"
  note pos = dev_pos_bound [OF assms(2,3,1)] and sz = n_def [symmetric]
  have "same_but_counters ch ch' \<and> ud_dev ch' = ?d \<and>
      (e = None \<longrightarrow> data = take n (drop (dev_pos ch b) (bd_bytes ?d))) \<and>
      ((\<forall>l s. \<not> bd_rerr ?d l s) \<longrightarrow> e = None)"
  proof (cases "ud_force_bounce ch \<or> \<not> direct_io ch aligned ?loc n")
    case True
    then have bo: "bounces ch" by (rule bounced)
    obtain ok buf where lp: "bounce_read_loop ?d ?u (dev_pos ch b div ?u * ?u) (dev_pos ch b mod ?u) n [] = (ok, buf)"
      by force
    have spec: "(ok \<longrightarrow> buf = [] @ take n (drop (dev_pos ch b div ?u * ?u + dev_pos ch b mod ?u) (bd_bytes ?d))) \<and>
        ((\<forall>l s. \<not> bd_rerr ?d l s) \<longrightarrow> ok)"
      by (rule bounce_read_loop_spec [OF lp]) (use fits [folded n_def] assms(1) bo align_size_pos in \<open>simp_all add: chan_ok_def\<close>)
    have "align_size (ch\<lparr>ud_bytes_read := r\<rparr>) = ?u" "bounce_align (ch\<lparr>ud_bytes_read := r\<rparr>) = bounce_align ch" for r
      by (simp_all add: align_size_def bounce_align_def)
    then have "ch' = ch\<lparr>ud_bytes_read := ud_bytes_read ch + of_nat n, ch_align := bounce_align ch\<rparr> \<and>
        (ok \<longrightarrow> e = None \<and> data = buf) \<and> (\<not> ok \<longrightarrow> e \<noteq> None)"
      using run True pos lp by (auto simp: raw_read_blk_def sz bounce_read_def Let_def split: if_split_asm)
    then show ?thesis using spec same_but_counters_bounce [OF bo, where w = "ud_bytes_written ch" and d = "ud_dev ch"] by auto
  next
    case False
    let ?c = "ch\<lparr>ud_bytes_read := ud_bytes_read ch + of_nat n\<rparr>"
    have "if bd_rerr ?d (dev_pos ch b) n then ch' = ?c \<and> e \<noteq> None
        else e = None \<and> ch' = ?c \<and> data = take n (drop (dev_pos ch b) (bd_bytes ?d))"
      using run False pos fits [folded n_def] by (auto simp: raw_read_blk_def sz dev_read_def seek_read_def Let_def split: if_split_asm)
    then show ?thesis using same_but_counters_direct [where ch = ch and w = "ud_bytes_written ch" and d = "ud_dev ch"] by (auto split: if_split_asm)
  qed
  then show "same_but_counters ch ch'" "ud_dev ch' = ud_dev ch"
    "e = None \<Longrightarrow> data = take (req_size ch count) (drop (dev_pos ch b) (bd_bytes (ud_dev ch)))"
    "(\<forall>l s. \<not> bd_rerr (ud_dev ch) l s) \<Longrightarrow> e = None" by (auto simp: n_def)
qed

lemma raw_write_spec:
  assumes "chan_ok ch" "in_range ch b n" "0 < n" "write_ok ch" "length buf = n * ch_block_size ch"
  obtains ch' where "raw_write_blk ch aligned b (int n) buf = (None, ch')" "same_but_counters ch ch'"
    "ud_dev ch' = (ud_dev ch)\<lparr>bd_bytes := overlay (bd_bytes (ud_dev ch)) (dev_pos ch b) buf\<rparr>"
proof -
  let ?loc = "blk_location ch b" and ?d = "ud_dev ch" and ?u = "align_size ch"
  let ?d' = "?d\<lparr>bd_bytes := overlay (bd_bytes ?d) (dev_pos ch b) buf\<rparr>"
  have sz: "req_size ch (int n) = length buf" using assms(5) by (simp add: req_size_def nat_mult_distrib)
  have fits: "dev_pos ch b + length buf \<le> length (bd_bytes ?d)" using assms(2,5) by (simp add: in_range_def)
  have "buf \<noteq> []" using assms(1,3,5) by (auto simp: chan_ok_def)
  then have "0 < length buf" by simp
  note pos = dev_pos_bound [OF fits this assms(1)]
  show ?thesis
  proof (cases "ud_force_bounce ch \<or> \<not> direct_io ch aligned ?loc (length buf)")
    case True
    then have bo: "bounces ch" by (rule bounced)
    have lp: "bounce_write_loop ?d ?u (dev_pos ch b div ?u * ?u) (dev_pos ch b mod ?u) buf =
        (None, ?d\<lparr>bd_bytes := overlay (bd_bytes ?d) (dev_pos ch b div ?u * ?u + dev_pos ch b mod ?u) buf\<rparr>)"
      by (rule bounce_write_loop_spec) (use fits assms(1,4) bo align_size_pos in \<open>simp_all add: chan_ok_def write_ok_def\<close>)
    have "align_size (ch\<lparr>ud_bytes_written := r\<rparr>) = ?u" "bounce_align (ch\<lparr>ud_bytes_written := r\<rparr>) = bounce_align ch" for r
      by (simp_all add: align_size_def bounce_align_def)
    then have "raw_write_blk ch aligned b (int n) buf =
        (None, ch\<lparr>ud_bytes_written := ud_bytes_written ch + of_nat (length buf), ch_align := bounce_align ch, ud_dev := ?d'\<rparr>)"
      using True pos lp \<open>buf \<noteq> []\<close> by (auto simp: raw_write_blk_def sz bounce_write_def Let_def)
    then show ?thesis
      by (rule that) (use same_but_counters_bounce [OF bo, where r = "ud_bytes_read ch" and d = ?d'] in simp_all)
  next
    case False
    have "dev_write ?d ?loc buf = (Some (length buf), ?d')"
      by (rule dev_write_in_range) (use fits assms(1,4) pos in \<open>simp_all add: chan_ok_def write_ok_def\<close>)
    then have "raw_write_blk ch aligned b (int n) buf =
        (None, ch\<lparr>ud_bytes_written := ud_bytes_written ch + of_nat (length buf), ud_dev := ?d'\<rparr>)"
      using False by (auto simp: raw_write_blk_def sz Let_def)
    then show ?thesis
      by (rule that) (use same_but_counters_direct [where ch = ch and r = "ud_bytes_read ch" and d = ?d'] in simp_all)
  qed
qed

end
