(* ===== verification/Block_Cache.thy ===== *)
theory Block_Cache
  imports Raw_Io
begin

text \<open>
  What the cache of \<^verbatim>\<open>unix_io.c\<close> promises. A channel stands for the contents of a disk, one list of bytes
  for each block (\<open>represents\<close>): the blocks in the cache are current, and a block with no modified
  copy in the cache is current on the device. Reads return these contents, writes of up to four
  blocks change them, and flushing makes the device agree with them.
\<close>

type_synonym disk = "u64 \<Rightarrow> byte list"

section \<open>The contents a channel stands for\<close>

definition holds :: "unix_cache \<Rightarrow> u64 \<Rightarrow> bool" where
  "holds c b \<longleftrightarrow> uc_in_use c \<and> uc_block c = b"

definition modified :: "unix_cache \<Rightarrow> bool" where
  "modified c \<longleftrightarrow> uc_in_use c \<and> uc_dirty c"

definition represents :: "io_channel \<Rightarrow> disk \<Rightarrow> bool" where
  "represents ch D \<longleftrightarrow> chan_ok ch \<and>
     (\<forall>i < CACHE_SIZE. \<forall>j < CACHE_SIZE. \<forall>b. holds (ud_cache ch ! i) b \<and> holds (ud_cache ch ! j) b \<longrightarrow> i = j) \<and>
     (\<forall>i < CACHE_SIZE. uc_in_use (ud_cache ch ! i) \<longrightarrow>
        in_range ch (uc_block (ud_cache ch ! i)) 1 \<and> uc_buf (ud_cache ch ! i) = D (uc_block (ud_cache ch ! i)) \<and>
        (uc_dirty (ud_cache ch ! i) \<longrightarrow> write_ok ch)) \<and>
     (\<forall>b. in_range ch b 1 \<longrightarrow> length (D b) = ch_block_size ch \<and>
        ((\<forall>i < CACHE_SIZE. \<not> (holds (ud_cache ch ! i) b \<and> uc_dirty (ud_cache ch ! i))) \<longrightarrow> dev_block ch b = D b))"

text \<open>Two channels with the same geometry and the same faults.\<close>

definition like :: "io_channel \<Rightarrow> io_channel \<Rightarrow> bool" where
  "like ch ch' \<longleftrightarrow>
     ch_block_size ch' = ch_block_size ch \<and> align_size ch' = align_size ch \<and> bounces ch' = bounces ch \<and>
     ch_writethrough ch' = ch_writethrough ch \<and> ud_nocache ch' = ud_nocache ch \<and> ud_offset ch' = ud_offset ch \<and>
     length (ud_cache ch') = length (ud_cache ch) \<and> length (bd_bytes (ud_dev ch')) = length (bd_bytes (ud_dev ch)) \<and>
     bd_rerr (ud_dev ch') = bd_rerr (ud_dev ch) \<and> bd_werr (ud_dev ch') = bd_werr (ud_dev ch) \<and>
     bd_fsync (ud_dev ch') = bd_fsync (ud_dev ch)"

lemma like_refl [simp]: "like ch ch"
  by (simp add: like_def)

lemma like_trans: "like a b \<Longrightarrow> like b c \<Longrightarrow> like a c"
  by (simp add: like_def)

lemma like_geometry:
  assumes "like ch ch'"
  shows "ch_block_size ch' = ch_block_size ch" "dev_pos ch' b = dev_pos ch b" "in_range ch' b n = in_range ch b n"
    "write_ok ch' = write_ok ch" "chan_ok ch' = chan_ok ch" "bd_rerr (ud_dev ch') = bd_rerr (ud_dev ch)"
    "ch_writethrough ch' = ch_writethrough ch" "ud_nocache ch' = ud_nocache ch" "bd_fsync (ud_dev ch') = bd_fsync (ud_dev ch)"
    "length (bd_bytes (ud_dev ch')) = length (bd_bytes (ud_dev ch))"
  using assms by (simp_all add: like_def dev_pos_def in_range_def write_ok_def chan_ok_def)

lemma like_same_but_counters:
  assumes "same_but_counters ch ch'" "length (bd_bytes (ud_dev ch')) = length (bd_bytes (ud_dev ch))"
    "bd_rerr (ud_dev ch') = bd_rerr (ud_dev ch)" "bd_werr (ud_dev ch') = bd_werr (ud_dev ch)" "bd_fsync (ud_dev ch') = bd_fsync (ud_dev ch)"
  shows "like ch ch'"
  using assms by (simp add: same_but_counters_def like_def)

lemma like_set_entry [simp]: "like ch (set_entry i c ch)"
  by (simp add: like_def set_entry_def align_size_def bounce_align_def bounces_def)

lemma like_access [simp]: "like ch (ch\<lparr>ud_access_time := t\<rparr>)"
  by (simp add: like_def align_size_def bounce_align_def bounces_def)

lemma represents_access [simp]: "represents (ch\<lparr>ud_access_time := t\<rparr>) D = represents ch D"
  using like_geometry [OF like_access [of ch t]] by (simp add: represents_def dev_block_def)

lemma representsD:
  assumes "represents ch D"
  shows represents_chan_ok: "chan_ok ch" and represents_length: "length (ud_cache ch) = CACHE_SIZE"
    and represents_held: "i < CACHE_SIZE \<Longrightarrow> uc_in_use (ud_cache ch ! i) \<Longrightarrow>
       in_range ch (uc_block (ud_cache ch ! i)) 1 \<and> uc_buf (ud_cache ch ! i) = D (uc_block (ud_cache ch ! i)) \<and>
       (uc_dirty (ud_cache ch ! i) \<longrightarrow> write_ok ch)"
    and represents_block_length: "in_range ch b 1 \<Longrightarrow> length (D b) = ch_block_size ch"
    and represents_dev: "in_range ch b 1 \<Longrightarrow> (\<And>i. i < CACHE_SIZE \<Longrightarrow> \<not> (holds (ud_cache ch ! i) b \<and> uc_dirty (ud_cache ch ! i))) \<Longrightarrow>
       dev_block ch b = D b"
  using assms unfolding represents_def chan_ok_def by blast+

section \<open>Replacing an entry\<close>

text \<open>
  Every step on the cache replaces one entry. A modified block may only be dropped when the device
  has it already.
\<close>

lemma represents_set_entry:
  assumes rep: "represents ch D" and i: "i < CACHE_SIZE"
    and kept: "modified (ud_cache ch ! i) \<Longrightarrow> dev_block ch (uc_block (ud_cache ch ! i)) = D (uc_block (ud_cache ch ! i)) \<or>
       (modified c \<and> uc_block c = uc_block (ud_cache ch ! i))"
    and fresh: "\<And>j. uc_in_use c \<Longrightarrow> j < CACHE_SIZE \<Longrightarrow> j \<noteq> i \<Longrightarrow> \<not> holds (ud_cache ch ! j) (uc_block c)"
    and new: "uc_in_use c \<Longrightarrow> in_range ch (uc_block c) 1 \<and> length (uc_buf c) = ch_block_size ch \<and>
       (if uc_dirty c then write_ok ch else uc_buf c = D (uc_block c))"
  shows "represents (set_entry i c ch) (if uc_in_use c then D(uc_block c := uc_buf c) else D)"
proof -
  let ?ch = "set_entry i c ch" and ?D = "if uc_in_use c then D(uc_block c := uc_buf c) else D"
  note geo = like_geometry [OF like_set_entry [of ch i c]] and len = represents_length [OF rep]
  have entry: "ud_cache ?ch ! j = (if j = i then c else ud_cache ch ! j)" if "j < CACHE_SIZE" for j
    using that len by (simp add: set_entry_def)
  have dev: "dev_block ?ch b = dev_block ch b" for b by (simp add: dev_block_def set_entry_def dev_pos_def)
  have inj: "holds (ud_cache ch ! j) b \<Longrightarrow> holds (ud_cache ch ! k) b \<Longrightarrow> j < CACHE_SIZE \<Longrightarrow> k < CACHE_SIZE \<Longrightarrow> j = k" for j k b
    using rep unfolding represents_def by blast
  have "dev_block ?ch b = ?D b" if b: "in_range ch b 1"
    and clean: "\<And>j. j < CACHE_SIZE \<Longrightarrow> \<not> (holds (ud_cache ?ch ! j) b \<and> uc_dirty (ud_cache ?ch ! j))" for b
  proof -
    have "dev_block ch b = D b"
    proof (cases "holds (ud_cache ch ! i) b \<and> uc_dirty (ud_cache ch ! i)")
      case True
      then show ?thesis using kept clean [OF i] entry [OF i] by (auto simp: holds_def modified_def)
    next
      case False
      then show ?thesis using clean entry by (intro represents_dev [OF rep b]) (metis (full_types))
    qed
    moreover have "?D b = D b" using new clean [OF i] entry [OF i] by (auto simp: holds_def)
    ultimately show ?thesis using dev by simp
  qed
  moreover have "holds (ud_cache ?ch ! j) b \<Longrightarrow> holds (ud_cache ?ch ! k) b \<Longrightarrow> j < CACHE_SIZE \<Longrightarrow> k < CACHE_SIZE \<Longrightarrow> j = k" for j k b
    using inj [of j b k] fresh entry by (auto simp: holds_def split: if_split_asm)
  moreover have "uc_in_use (ud_cache ?ch ! j) \<Longrightarrow> j < CACHE_SIZE \<Longrightarrow>
      in_range ch (uc_block (ud_cache ?ch ! j)) 1 \<and> uc_buf (ud_cache ?ch ! j) = ?D (uc_block (ud_cache ?ch ! j)) \<and>
      (uc_dirty (ud_cache ?ch ! j) \<longrightarrow> write_ok ch)" for j
    using represents_held [OF rep, of j] fresh [of j] new entry [of j] by (auto simp: holds_def split: if_split_asm)
  moreover have "in_range ch b 1 \<Longrightarrow> length (?D b) = ch_block_size ch" for b
    using represents_block_length [OF rep] new by simp
  ultimately show ?thesis using represents_chan_ok [OF rep] unfolding represents_def geo by blast
qed

section \<open>Searching\<close>

lemma find_loop_hit: "find_loop cs b i unused oldest = (Some j, e) \<Longrightarrow> \<exists>k < length cs. j = i + k \<and> holds (cs ! k) b"
proof (induction cs b i unused oldest rule: find_loop.induct)
  case (2 c cs b i unused oldest)
  show ?case
  proof (cases "holds c b")
    case True
    then show ?thesis using 2(3) by (auto simp: holds_def)
  next
    case False
    then have "\<exists>k < length cs. j = Suc i + k \<and> holds (cs ! k) b" using 2 by (auto simp: holds_def split: if_split_asm)
    then show ?thesis by (metis Suc_less_eq add_Suc_shift length_Cons nth_Cons_Suc)
  qed
qed simp

lemma find_loop_miss: "find_loop cs b i unused oldest = (None, e) \<Longrightarrow> c \<in> set cs \<Longrightarrow> \<not> holds c b"
  by (induction cs b i unused oldest rule: find_loop.induct) (auto simp: holds_def split: if_split_asm)

lemma find_loop_eldest:
  assumes "find_loop cs b i unused oldest = (None, e)" "cs \<noteq> [] \<or> unused \<noteq> None \<or> oldest \<noteq> None" "i + length cs \<le> n"
    "\<And>j. unused = Some j \<Longrightarrow> j < n" "\<And>j t. oldest = Some (j, t) \<Longrightarrow> j < n"
  shows "\<exists>j < n. e = Some j"
  using assms
proof (induction cs b i unused oldest rule: find_loop.induct)
  case (1 b i unused oldest)
  then show ?case by (auto split: if_split_asm)
next
  case (2 c cs b i unused oldest)
  show ?case
  proof (cases "uc_in_use c")
    case True
    show ?thesis
      by (rule 2(2)) (use True 2(3-) in \<open>auto split: if_split_asm option.splits\<close>)
  next
    case False
    show ?thesis
      by (rule 2(1)) (use False 2(3-) in \<open>auto split: if_split_asm option.splits\<close>)
  qed
qed

lemma find_cached_block_spec:
  assumes rep: "represents ch D" and run: "find_cached_block ch b = (hit, eldest, ch')"
  shows find_represents: "represents ch' D" and find_like: "like ch ch'"
    and find_hit: "hit = Some i \<Longrightarrow> i < CACHE_SIZE \<and> holds (ud_cache ch' ! i) b"
    and find_miss: "hit = None \<Longrightarrow> ch' = ch \<and> (\<forall>i < CACHE_SIZE. \<not> holds (ud_cache ch ! i) b) \<and> (\<exists>i < CACHE_SIZE. eldest = Some i)"
    and find_blocks: "i < CACHE_SIZE \<Longrightarrow> holds (ud_cache ch' ! i) b' = holds (ud_cache ch ! i) b'"
proof -
  note len = represents_length [OF rep]
  have "represents ch' D \<and> like ch ch' \<and> (\<forall>i. hit = Some i \<longrightarrow> i < CACHE_SIZE \<and> holds (ud_cache ch' ! i) b) \<and>
    (hit = None \<longrightarrow> ch' = ch \<and> (\<forall>i < CACHE_SIZE. \<not> holds (ud_cache ch ! i) b) \<and> (\<exists>i < CACHE_SIZE. eldest = Some i)) \<and>
    (\<forall>i < CACHE_SIZE. holds (ud_cache ch' ! i) b' = holds (ud_cache ch ! i) b')"
  proof (cases "fst (find_loop (ud_cache ch) b 0 None None)")
    case None
    then have f: "find_loop (ud_cache ch) b 0 None None = (None, eldest)" and c: "hit = None" "ch' = ch"
      using run by (auto simp: find_cached_block_def split: prod.splits)
    have "\<exists>i < CACHE_SIZE. eldest = Some i" by (rule find_loop_eldest [OF f]) (use len in \<open>auto simp: CACHE_SIZE_def\<close>)
    then show ?thesis using find_loop_miss [OF f] c rep len by simp
  next
    case (Some i)
    then obtain e where f: "find_loop (ud_cache ch) b 0 None None = (Some i, e)" by (metis prod.collapse)
    then have c: "hit = Some i" "ch' = touch i ch" using run by (auto simp: find_cached_block_def)
    have i: "i < CACHE_SIZE" "holds (ud_cache ch ! i) b" using find_loop_hit [OF f] len by auto
    let ?c = "(ud_cache ch ! i)\<lparr>uc_access_time := ud_access_time ch + 1\<rparr>"
    have t: "touch i ch = (set_entry i ?c ch)\<lparr>ud_access_time := ud_access_time ch + 1\<rparr>" by (simp add: touch_def set_entry_def)
    have u: "uc_in_use (ud_cache ch ! i)" "uc_block (ud_cache ch ! i) = b" using i by (simp_all add: holds_def)
    have inj: "j < CACHE_SIZE \<Longrightarrow> holds (ud_cache ch ! j) b \<Longrightarrow> j = i" for j using rep i unfolding represents_def by blast
    have "represents (set_entry i ?c ch) (if uc_in_use ?c then D(uc_block ?c := uc_buf ?c) else D)"
      by (rule represents_set_entry [OF rep i(1)])
        (use u inj represents_held [OF rep i(1)] represents_block_length [OF rep] in \<open>auto simp: modified_def\<close>)
    moreover have "D(b := uc_buf (ud_cache ch ! i)) = D" using represents_held [OF rep i(1)] u by (auto simp: fun_upd_idem)
    ultimately show ?thesis using i c u len like_trans [OF like_set_entry like_access]
      by (auto simp: t holds_def set_entry_def nth_list_update)
  qed
  then show "represents ch' D" "like ch ch'" "hit = Some i \<Longrightarrow> i < CACHE_SIZE \<and> holds (ud_cache ch' ! i) b"
    "hit = None \<Longrightarrow> ch' = ch \<and> (\<forall>i < CACHE_SIZE. \<not> holds (ud_cache ch ! i) b) \<and> (\<exists>i < CACHE_SIZE. eldest = Some i)"
    "i < CACHE_SIZE \<Longrightarrow> holds (ud_cache ch' ! i) b' = holds (ud_cache ch ! i) b'" by auto
qed

section \<open>Writing back\<close>

lemma dev_block_overlay:
  assumes "chan_ok ch" "in_range ch b 1" "length buf = ch_block_size ch" "ch_block_size ch' = ch_block_size ch" "ud_offset ch' = ud_offset ch"
    "bd_bytes (ud_dev ch') = overlay (bd_bytes (ud_dev ch)) (dev_pos ch b) buf"
  shows "dev_block ch' b' = (if b' = b then buf else dev_block ch b')"
proof -
  have p: "dev_pos ch' b' = dev_pos ch b'" using assms(4,5) by (simp add: dev_pos_def)
  have fits: "dev_pos ch b + length buf \<le> length (bd_bytes (ud_dev ch))" using assms(2,3) by (simp add: in_range_def)
  show ?thesis
  proof (cases "b' = b")
    case True
    then show ?thesis using overlay_same [OF fits] p assms(3,4,6) by (simp add: dev_block_def)
  next
    case False
    then have "unat b' < unat b \<or> unat b < unat b'" by (metis linorder_neqE_nat word_unat_eq_iff)
    then have "(unat b' + 1) * ch_block_size ch \<le> unat b * ch_block_size ch \<or> (unat b + 1) * ch_block_size ch \<le> unat b' * ch_block_size ch"
      by (metis Suc_eq_plus1 Suc_leI mult_le_mono1)
    then have "dev_pos ch b' + ch_block_size ch \<le> dev_pos ch b \<or> dev_pos ch b + length buf \<le> dev_pos ch b'"
      using assms(3) by (auto simp: dev_pos_def)
    then show ?thesis using overlay_other [OF fits] p False assms(4,6) by (simp add: dev_block_def)
  qed
qed

lemma write_back:
  assumes rep: "represents ch D" and i: "i < CACHE_SIZE" and m: "modified (ud_cache ch ! i)"
  obtains ch' where "raw_write_blk ch True (uc_block (ud_cache ch ! i)) 1 (uc_buf (ud_cache ch ! i)) = (None, ch')"
    "represents ch' D" "like ch ch'" "ud_cache ch' = ud_cache ch"
    "dev_block ch' (uc_block (ud_cache ch ! i)) = D (uc_block (ud_cache ch ! i))"
proof -
  let ?c = "ud_cache ch ! i"
  have c: "in_range ch (uc_block ?c) 1" "uc_buf ?c = D (uc_block ?c)" "write_ok ch"
    using represents_held [OF rep i] m by (auto simp: modified_def)
  then have l: "length (uc_buf ?c) = 1 * ch_block_size ch" using represents_block_length [OF rep] by simp
  obtain ch' where w: "raw_write_blk ch True (uc_block ?c) (int 1) (uc_buf ?c) = (None, ch')" "same_but_counters ch ch'"
    "ud_dev ch' = (ud_dev ch)\<lparr>bd_bytes := overlay (bd_bytes (ud_dev ch)) (dev_pos ch (uc_block ?c)) (uc_buf ?c)\<rparr>"
    by (rule raw_write_spec [OF represents_chan_ok [OF rep] c(1) _ c(3) l]) auto
  have fits: "dev_pos ch (uc_block ?c) + length (uc_buf ?c) \<le> length (bd_bytes (ud_dev ch))" using c(1) l by (simp add: in_range_def)
  have lk: "like ch ch'" by (rule like_same_but_counters) (use w(2,3) fits in simp_all)
  have dev: "dev_block ch' b = (if b = uc_block ?c then uc_buf ?c else dev_block ch b)" for b
    by (rule dev_block_overlay [OF represents_chan_ok [OF rep] c(1)]) (use w(2,3) l in \<open>simp_all add: same_but_counters_def\<close>)
  have same: "ud_cache ch' = ud_cache ch" using w(2) by (simp add: same_but_counters_def)
  have "represents ch' D" using rep c(2) unfolding represents_def same like_geometry [OF lk] dev by auto
  then show ?thesis using that w(1) lk same dev c(2) by simp
qed

text \<open>An entry that is reused takes any block that the cache does not hold.\<close>

lemma reuse_spec:
  assumes rep: "represents ch D" and i: "i < CACHE_SIZE" and b: "in_range ch b 1"
    and unheld: "\<And>j. j < CACHE_SIZE \<Longrightarrow> \<not> holds (ud_cache ch ! j) b"
  obtains ch' where "reuse_cache ch i b = (None, ch')" "like ch ch'" "\<not> uc_dirty (ud_cache ch' ! i)"
    "\<forall>data w. length data = ch_block_size ch \<and> (if w then write_ok ch else data = D b) \<longrightarrow>
       represents (set_entry i ((ud_cache ch' ! i)\<lparr>uc_buf := data, uc_dirty := w\<rparr>) ch') (D(b := data))"
proof -
  let ?c = "ud_cache ch ! i"
  obtain ch1 where w: "(if modified ?c then raw_write_blk ch True (uc_block ?c) 1 (uc_buf ?c) else (None, ch)) = (None, ch1)"
    and r1: "represents ch1 D" and l1: "like ch ch1" and c1: "ud_cache ch1 = ud_cache ch"
    and d1: "modified ?c \<Longrightarrow> dev_block ch1 (uc_block ?c) = D (uc_block ?c)"
  proof (cases "modified ?c")
    case True
    then show ?thesis using write_back [OF rep i True] that by auto
  next
    case False
    then show ?thesis using that [of ch] rep by simp
  qed
  let ?t = "ud_access_time ch1 + 1"
  let ?n = "?c\<lparr>uc_in_use := True, uc_dirty := False, uc_write_err := False, uc_block := b, uc_access_time := ?t\<rparr>"
  let ?ch = "(set_entry i ?n ch1)\<lparr>ud_access_time := ?t\<rparr>"
  have run: "reuse_cache ch i b = (None, ?ch)"
    using w by (simp add: reuse_cache_def modified_def conj_commute split: if_split_asm)
  have n: "ud_cache ?ch ! i = ?n" using i represents_length [OF r1] by (simp add: set_entry_def)
  show ?thesis
  proof (rule that [OF run like_trans [OF like_trans [OF l1 like_set_entry] like_access]])
    show "\<not> uc_dirty (ud_cache ?ch ! i)" unfolding n by simp
  next
    have "represents (set_entry i ((ud_cache ?ch ! i)\<lparr>uc_buf := data, uc_dirty := w\<rparr>) ?ch) (D(b := data))"
      if data: "length data = ch_block_size ch" "if w then write_ok ch else data = D b" for data w
    proof -
    let ?x = "?n\<lparr>uc_buf := data, uc_dirty := w\<rparr>"
    have "represents (set_entry i ?x ch1) (if uc_in_use ?x then D(uc_block ?x := uc_buf ?x) else D)"
      by (rule represents_set_entry [OF r1 i])
        (use d1 unheld data b like_geometry [OF l1] in \<open>auto simp: c1 modified_def\<close>)
    moreover have "set_entry i ?x ?ch = (set_entry i ?x ch1)\<lparr>ud_access_time := ?t\<rparr>" by (simp add: set_entry_def)
    ultimately show ?thesis unfolding n by simp
    qed
    then show "\<forall>data w. length data = ch_block_size ch \<and> (if w then write_ok ch else data = D b) \<longrightarrow>
        represents (set_entry i ((ud_cache ?ch ! i)\<lparr>uc_buf := data, uc_dirty := w\<rparr>) ?ch) (D(b := data))" by blast
  qed
qed

section \<open>Flushing\<close>

lemma flush_entry_spec:
  assumes rep: "represents ch D" and i: "i < CACHE_SIZE"
  obtains ch' where "flush_entry invalidate i (None, ch) = (None, ch')" "represents ch' D" "like ch ch'"
    "\<not> modified (ud_cache ch' ! i)" "\<And>j. j < CACHE_SIZE \<Longrightarrow> \<not> modified (ud_cache ch ! j) \<Longrightarrow> \<not> modified (ud_cache ch' ! j)"
proof (cases "modified (ud_cache ch ! i)")
  case True
  let ?c = "ud_cache ch ! i"
  obtain ch1 where w: "raw_write_blk ch True (uc_block ?c) 1 (uc_buf ?c) = (None, ch1)" "represents ch1 D" "like ch ch1"
    "ud_cache ch1 = ud_cache ch" "dev_block ch1 (uc_block ?c) = D (uc_block ?c)" by (rule write_back [OF rep i True])
  let ?n = "?c\<lparr>uc_dirty := False, uc_write_err := False, uc_in_use := (uc_in_use ?c \<and> \<not> invalidate)\<rparr>"
  have inj: "j < CACHE_SIZE \<Longrightarrow> holds (ud_cache ch ! j) (uc_block ?c) \<Longrightarrow> j = i" for j
    using rep i True unfolding represents_def modified_def by (auto simp: holds_def)
  have c: "in_range ch1 (uc_block ?c) 1" "uc_buf ?c = D (uc_block ?c)"
    using represents_held [OF w(2) i] True w(4) by (auto simp: modified_def)
  have "represents (set_entry i ?n ch1) (if uc_in_use ?n then D(uc_block ?n := uc_buf ?n) else D)"
    by (rule represents_set_entry [OF w(2) i])
      (use inj c w(4,5) represents_block_length [OF w(2) c(1)] in \<open>auto simp: modified_def\<close>)
  then have "represents (set_entry i ?n ch1) D" using c(2) by (simp add: fun_upd_idem split: if_split_asm)
  then show ?thesis
    by (rule that [rotated]) (use True w like_trans [OF w(3) like_set_entry] represents_length [OF rep] i in
      \<open>auto simp: flush_entry_def modified_def set_entry_def nth_list_update\<close>)
next
  case False
  then show ?thesis by (intro that [of ch]) (use rep in \<open>auto simp: flush_entry_def modified_def\<close>)
qed

lemma flush_loop_spec:
  assumes rep: "represents ch D" and "n \<le> CACHE_SIZE"
  shows "\<exists>ch'. fold (flush_entry invalidate) [0..<n] (None, ch) = (None, ch') \<and> represents ch' D \<and> like ch ch' \<and>
    (\<forall>j < n. \<not> modified (ud_cache ch' ! j))"
  using assms(2)
proof (induction n)
  case 0
  then show ?case using rep by simp
next
  case (Suc n)
  then obtain ch1 where f: "fold (flush_entry invalidate) [0..<n] (None, ch) = (None, ch1)" "represents ch1 D" "like ch ch1"
    "\<forall>j < n. \<not> modified (ud_cache ch1 ! j)" by auto
  obtain ch2 where s: "flush_entry invalidate n (None, ch1) = (None, ch2)" "represents ch2 D" "like ch1 ch2"
    "\<not> modified (ud_cache ch2 ! n)" "\<And>j. j < CACHE_SIZE \<Longrightarrow> \<not> modified (ud_cache ch1 ! j) \<Longrightarrow> \<not> modified (ud_cache ch2 ! j)"
    using flush_entry_spec [OF f(2), of n invalidate] Suc(2) by auto
  have "\<not> modified (ud_cache ch2 ! j)" if "j < Suc n" for j
    using that s(4,5) f(4) Suc(2) by (cases "j = n") auto
  then show ?case using f s like_trans [OF f(3) s(3)] by simp
qed

lemma flush_spec:
  assumes "represents ch D"
  obtains ch' where "flush_cached_blocks ch invalidate = (None, ch')" "represents ch' D" "like ch ch'"
    "\<And>b. in_range ch b 1 \<Longrightarrow> dev_block ch' b = D b"
proof -
  obtain ch' where f: "fold (flush_entry invalidate) [0..<CACHE_SIZE] (None, ch) = (None, ch')" "represents ch' D" "like ch ch'"
    "\<forall>j < CACHE_SIZE. \<not> modified (ud_cache ch' ! j)" using flush_loop_spec [OF assms order_refl] by blast
  show ?thesis
  proof (rule that)
    show "flush_cached_blocks ch invalidate = (None, ch')"
      using f(1) represents_length [OF assms] by (simp add: flush_cached_blocks_def)
    show "dev_block ch' b = D b" if "in_range ch b 1" for b
      by (rule represents_dev [OF f(2)]) (use that f(4) like_geometry [OF f(3)] in \<open>auto simp: modified_def holds_def\<close>)
  qed (use f in simp_all)
qed

section \<open>Reading\<close>

text \<open>The abstract operations: reading and writing consecutive blocks.\<close>

primrec disk_read :: "disk \<Rightarrow> u64 \<Rightarrow> nat \<Rightarrow> byte list" where
  "disk_read D b 0 = []"
| "disk_read D b (Suc n) = D b @ disk_read D (b + 1) n"

primrec disk_write :: "disk \<Rightarrow> u64 \<Rightarrow> byte list list \<Rightarrow> disk" where
  "disk_write D b [] = D"
| "disk_write D b (x # xs) = disk_write (D(b := x)) (b + 1) xs"

lemma disk_read_add: "disk_read D b (k + m) = disk_read D b k @ disk_read D (b + of_nat k) m"
  by (induction k arbitrary: b) (simp_all add: ac_simps)

lemma in_range_step:
  assumes "chan_ok ch" "in_range ch b n" "k \<le> n"
  shows "dev_pos ch (b + of_nat k) = dev_pos ch b + k * ch_block_size ch" "in_range ch (b + of_nat k) (n - k)" "in_range ch b k"
proof -
  have c: "1 \<le> ch_block_size ch" "dev_pos ch b + n * ch_block_size ch < 2 ^ 63" using assms(1,2) by (auto simp: chan_ok_def in_range_def)
  have "unat b \<le> unat b * ch_block_size ch" "k \<le> k * ch_block_size ch" "k * ch_block_size ch \<le> n * ch_block_size ch"
    using c(1) assms(3) by auto
  then have lt: "unat b + k < 2 ^ 63" using c(2) unfolding dev_pos_def by linarith
  then have "unat (of_nat k :: u64) = k" by (simp add: unat_of_nat)
  then have u: "unat (b + of_nat k) = unat b + k" using lt by (subst unat_add_lem [THEN iffD1]) auto
  then show p: "dev_pos ch (b + of_nat k) = dev_pos ch b + k * ch_block_size ch" by (simp add: dev_pos_def algebra_simps)
  have "k * ch_block_size ch + (n - k) * ch_block_size ch = n * ch_block_size ch" using assms(3) by (simp flip: add_mult_distrib)
  then show "in_range ch (b + of_nat k) (n - k)" "in_range ch b k" using assms(2) p by (simp_all add: in_range_def)
qed

lemma in_range_Suc:
  assumes "chan_ok ch" "in_range ch b (Suc n)"
  shows "in_range ch b 1" "in_range ch (b + 1) n"
  using in_range_step [OF assms, of 1] by simp_all

lemma dev_read_blocks:
  assumes "chan_ok ch" "in_range ch b n"
  shows "take (n * ch_block_size ch) (drop (dev_pos ch b) (bd_bytes (ud_dev ch))) = disk_read (dev_block ch) b n"
  using assms(2)
proof (induction n arbitrary: b)
  case (Suc n)
  have "dev_pos ch (b + 1) = dev_pos ch b + ch_block_size ch" using in_range_step(1) [OF assms(1) Suc(2), of 1] by simp
  then have "take (n * ch_block_size ch) (drop (ch_block_size ch) (drop (dev_pos ch b) (bd_bytes (ud_dev ch)))) = disk_read (dev_block ch) (b + 1) n"
    using Suc(1) [OF in_range_Suc(2) [OF assms(1) Suc(2)]] by (simp add: add.commute)
  then show ?case by (simp add: take_add dev_block_def [of ch b])
qed simp

lemma disk_read_cong:
  assumes "\<And>b. in_range ch b 1 \<Longrightarrow> D b = D' b" "chan_ok ch" "in_range ch b n"
  shows "disk_read D b n = disk_read D' b n"
  using assms(3) by (induction n arbitrary: b) (use assms(1) in_range_Suc [OF assms(2)] in simp_all)

lemma length_disk_read:
  assumes "represents ch D" "in_range ch b n"
  shows "length (disk_read D b n) = n * ch_block_size ch"
  using assms(2)
  by (induction n arbitrary: b)
    (use in_range_Suc [OF represents_chan_ok [OF assms(1)]] represents_block_length [OF assms(1)] in simp_all)

definition unheld :: "io_channel \<Rightarrow> u64 \<Rightarrow> bool" where
  "unheld ch b \<longleftrightarrow> (\<forall>i < CACHE_SIZE. \<not> holds (ud_cache ch ! i) b)"

lemma find_unheld:
  assumes "represents ch D" "find_cached_block ch b = (hit, eldest, ch')"
  shows "unheld ch' b' = unheld ch b'" and "hit = None \<Longrightarrow> unheld ch' b"
  using find_blocks [OF assms] find_miss [OF assms] by (auto simp: unheld_def)

lemma uncached_run_spec:
  assumes "represents ch D" "uncached_run ch b i n = (k, ch')"
  shows "represents ch' D \<and> like ch ch' \<and> (\<forall>b'. unheld ch' b' = unheld ch b') \<and> (\<forall>j. i \<le> j \<and> j < k \<longrightarrow> unheld ch' (b + of_nat j))"
  using assms
proof (induction n arbitrary: ch i)
  case (Suc n)
  obtain hit eldest ch1 where f: "find_cached_block ch (b + of_nat i) = (hit, eldest, ch1)" by (metis prod_cases3)
  note found = find_represents [OF Suc(2) f] find_like [OF Suc(2) f] find_unheld [OF Suc(2) f]
  show ?case
  proof (cases hit)
    case None
    then have "uncached_run ch1 b (Suc i) n = (k, ch')" using Suc(3) f by simp
    note ih = Suc(1) [OF found(1) this]
    have "unheld ch' (b + of_nat j)" if "i \<le> j" "j < k" for j
      using that ih found(4) None by (cases "j = i") (auto simp: Suc_le_eq)
    moreover have "like ch ch'" using ih like_trans [OF found(2)] by blast
    ultimately show ?thesis using ih found(3) by blast
  next
    case (Some h)
    then have "k = i" "ch' = ch1" using Suc(3) f by simp_all
    then show ?thesis using found(1,2) found(3) [of _] by (metis leD)
  qed
qed auto

text \<open>Saving blocks that were read changes nothing but which blocks are cached.\<close>

lemma save_blocks_spec:
  assumes "represents ch D" "in_range ch b n"
  shows "\<exists>ch'. save_blocks ch b (chunks (ch_block_size ch) n (disk_read D b n)) = (None, ch') \<and> represents ch' D \<and> like ch ch'"
  using assms
proof (induction n arbitrary: ch b)
  case (Suc n)
  note r = in_range_Suc [OF represents_chan_ok [OF Suc(2)] Suc(3)]
  have l: "length (D b) = ch_block_size ch" by (rule represents_block_length [OF Suc(2) r(1)])
  obtain hit eldest ch1 where f: "find_cached_block ch b = (hit, eldest, ch1)" by (metis prod_cases3)
  note found = find_represents [OF Suc(2) f] find_like [OF Suc(2) f] find_miss [OF Suc(2) f]
  have next_block: "\<exists>ch''. save_blocks ch' (b + 1) (chunks (ch_block_size ch) n (disk_read D (b + 1) n)) = (None, ch'') \<and>
      represents ch'' D \<and> like ch ch''" if "represents ch' D" "like ch ch'" for ch'
    using Suc(1) [OF that(1), of "b + 1"] r(2) like_geometry [OF that(2)] like_trans [OF that(2)] by auto
  show ?case
  proof (cases hit)
    case None
    then obtain i where i: "i < CACHE_SIZE" "eldest = Some i" "ch1 = ch" and un: "\<And>j. j < CACHE_SIZE \<Longrightarrow> \<not> holds (ud_cache ch ! j) b"
      using found(3) by auto
    obtain ch2 where re: "reuse_cache ch i b = (None, ch2)" "like ch ch2" "\<not> uc_dirty (ud_cache ch2 ! i)"
      "\<forall>data w. length data = ch_block_size ch \<and> (if w then write_ok ch else data = D b) \<longrightarrow>
         represents (set_entry i ((ud_cache ch2 ! i)\<lparr>uc_buf := data, uc_dirty := w\<rparr>) ch2) (D(b := data))"
      by (rule reuse_spec [OF Suc(2) i(1) r(1) un])
    let ?ch = "set_entry i ((ud_cache ch2 ! i)\<lparr>uc_buf := D b\<rparr>) ch2"
    have eq: "(ud_cache ch2 ! i)\<lparr>uc_buf := D b, uc_dirty := False\<rparr> = (ud_cache ch2 ! i)\<lparr>uc_buf := D b\<rparr>"
      using re(3) by (cases "ud_cache ch2 ! i") simp
    have "represents ?ch D" using re(4) [rule_format, of "D b" False] l unfolding eq by simp
    then show ?thesis using next_block [of ?ch] like_trans [OF re(2) like_set_entry] None f i re(1) l by simp
  next
    case (Some h)
    then show ?thesis using next_block [OF found(1,2)] f l by simp
  qed
qed simp

lemma represents_raw:
  assumes "represents ch D" "same_but_counters ch ch'" "ud_dev ch' = ud_dev ch"
  shows "represents ch' D" "like ch ch'"
proof -
  show lk: "like ch ch'" by (rule like_same_but_counters [OF assms(2)]) (simp_all add: assms(3))
  have "dev_block ch' b = dev_block ch b" for b using like_geometry [OF lk] assms(3) by (simp add: dev_block_def)
  then show "represents ch' D"
    using assms(1,2) unfolding represents_def like_geometry [OF lk] same_but_counters_def by simp
qed

lemma dev_unheld:
  assumes "represents ch D" "in_range ch b n" "\<And>j. j < n \<Longrightarrow> unheld ch (b + of_nat j)"
  shows "disk_read (dev_block ch) b n = disk_read D b n"
  using assms(2,3)
proof (induction n arbitrary: b)
  case (Suc n)
  note r = in_range_Suc [OF represents_chan_ok [OF assms(1)] Suc(2)]
  have "dev_block ch b = D b" by (rule represents_dev [OF assms(1) r(1)]) (use Suc(3) [of 0] in \<open>auto simp: unheld_def\<close>)
  moreover have "unheld ch (b + 1 + of_nat j)" if "j < n" for j using Suc(3) [of "Suc j"] that by (simp add: ac_simps)
  ultimately show ?case using Suc(1) [OF r(2)] by simp
qed simp

text \<open>The blocks up to the next one in the cache are read with one request.\<close>

lemma uncached_read:
  assumes rep: "represents ch D" and rng: "in_range ch b n" and miss: "unheld ch b" and n: "n \<noteq> 0"
    and u: "uncached_run ch b 1 (n - 1) = (k, ch2)" and rd: "raw_read_blk ch2 aligned b (int k) = (e, ch3, data)"
  shows "1 \<le> k" "k \<le> n" "represents ch3 D" "like ch ch3" "e = None \<Longrightarrow> data = disk_read D b k"
    "(\<forall>l s. \<not> bd_rerr (ud_dev ch) l s) \<Longrightarrow> e = None"
proof -
  note ok = represents_chan_ok [OF rep]
  show k: "1 \<le> k" "k \<le> n" using uncached_run_bounds [OF u] n by auto
  note run = uncached_run_spec [OF rep u]
  have r2: "represents ch2 D" "like ch ch2" using run by auto
  have un: "unheld ch2 (b + of_nat j)" if "j < k" for j using that run miss by (cases "j = 0") (auto simp: Suc_le_eq)
  note geo2 = like_geometry [OF r2(2)] and rk = in_range_step [OF ok rng k(2)]
  have sz: "req_size ch2 (int k) = k * ch_block_size ch" by (simp add: req_size_def nat_mult_distrib geo2)
  have ok2: "chan_ok ch2" "in_range ch2 b k" using ok geo2 rk(3) by simp_all
  have fits: "dev_pos ch2 b + req_size ch2 (int k) \<le> length (bd_bytes (ud_dev ch2))" using ok2(2) sz geo2 by (simp add: in_range_def)
  have pos: "0 < req_size ch2 (int k)" using sz k ok by (simp add: chan_ok_def)
  note raw = raw_read_spec [OF ok2(1) fits pos rd]
  note r3 = represents_raw [OF r2(1) raw(1,2)]
  show "data = disk_read D b k" if "e = None"
    using raw(3) [OF that] dev_read_blocks [OF ok2] dev_unheld [OF r2(1) ok2(2) un] sz geo2 by simp
  show "represents ch3 D" "like ch ch3" using r3 like_trans [OF r2(2) r3(2)] by simp_all
  show "e = None" if "\<forall>l s. \<not> bd_rerr (ud_dev ch) l s" using raw(4) that geo2 by simp
qed

lemma read_loop_spec:
  assumes "read_loop ch aligned b n buf = (e, ch', out)" "represents ch D" "in_range ch b n"
  shows "represents ch' D \<and> like ch ch' \<and> (e = None \<longrightarrow> out = buf @ disk_read D b n) \<and>
    ((\<forall>l s. \<not> bd_rerr (ud_dev ch) l s) \<longrightarrow> e = None)"
  using assms
proof (induction n arbitrary: ch b buf rule: less_induct)
  case (less n)
  note rep = less(3) and ok = represents_chan_ok [OF less(3)]
  show ?case
  proof (cases "n = 0")
    case True
    then show ?thesis using less(2) rep by (simp add: read_loop.simps)
  next
    case n: False
    obtain hit eldest ch1 where f: "find_cached_block ch b = (hit, eldest, ch1)" by (metis prod_cases3)
    note found = find_represents [OF rep f] find_like [OF rep f]
    show ?thesis
    proof (cases hit)
      case (Some i)
      note h = find_hit [OF rep f Some]
      have "uc_buf (ud_cache ch1 ! i) = D b" using represents_held [OF found(1)] h by (auto simp: holds_def)
      moreover have "length (D b) = ch_block_size ch" using less(4) in_range_step(3) [OF ok less(4), of 1] n represents_block_length [OF rep] by simp
      ultimately have rl: "read_loop ch1 aligned (b + 1) (n - 1) (buf @ D b) = (e, ch', out)"
        using less(2) n f Some by (simp add: read_loop.simps [of ch])
      have rn: "in_range ch1 (b + 1) (n - 1)" using in_range_step(2) [OF ok less(4), of 1] n like_geometry [OF found(2)] by simp
      have "represents ch' D \<and> like ch1 ch' \<and> (e = None \<longrightarrow> out = (buf @ D b) @ disk_read D (b + 1) (n - 1)) \<and>
          ((\<forall>l s. \<not> bd_rerr (ud_dev ch1) l s) \<longrightarrow> e = None)" 
        by (rule less(1) [OF _ rl found(1) rn]) (use n in simp)
      then show ?thesis using like_trans [OF found(2)] like_geometry [OF found(2)] n by (cases n) auto
    next
      case None
      have miss: "ch1 = ch" "unheld ch b" using find_miss [OF rep f None] by (auto simp: unheld_def)
      obtain k ch2 where u: "uncached_run ch b 1 (n - 1) = (k, ch2)" by force
      obtain e1 ch3 data where rd: "raw_read_blk ch2 aligned b (int k) = (e1, ch3, data)" by (metis prod_cases3)
      note read = uncached_read [OF rep less(4) miss(2) n u rd] and rk = in_range_step [OF ok less(4) uncached_read(2) [OF rep less(4) miss(2) n u rd]]
      have rl: "(e, ch', out) = (if e1 \<noteq> None then (e1, ch3, buf @ data)
          else (let (e2, ch4) = save_blocks ch3 b (chunks (ch_block_size ch) k data)
                in if e2 \<noteq> None then (e2, ch4, buf @ data) else read_loop ch4 aligned (b + of_nat k) (n - k) (buf @ data)))"
        using less(2) n f None miss(1) u rd by (simp add: read_loop.simps [of ch])
      show ?thesis
      proof (cases e1)
        case (Some x)
        then show ?thesis using rl read(3,4,6) by auto
      next
        case e1: None
        obtain ch4 where s: "save_blocks ch3 b (chunks (ch_block_size ch) k data) = (None, ch4)" "represents ch4 D" "like ch3 ch4"
          using save_blocks_spec [OF read(3), of b k] read(5) [OF e1] like_geometry [OF read(4)] rk(3) by auto
        have l4: "like ch ch4" by (rule like_trans [OF read(4) s(3)])
        have rl4: "read_loop ch4 aligned (b + of_nat k) (n - k) (buf @ data) = (e, ch', out)" using rl e1 s by simp
        have "represents ch' D \<and> like ch4 ch' \<and> (e = None \<longrightarrow> out = (buf @ data) @ disk_read D (b + of_nat k) (n - k)) \<and>
            ((\<forall>l s. \<not> bd_rerr (ud_dev ch4) l s) \<longrightarrow> e = None)"
          by (rule less(1) [OF _ rl4 s(2)]) (use n read(1) rk(2) like_geometry [OF l4] in simp_all)
        then show ?thesis
          using like_trans [OF l4] like_geometry [OF l4] read(2) read(5) [OF e1] disk_read_add [of D b k "n - k"] by auto
      qed
    qed
  qed
qed

text \<open>
  What a read of \<open>count\<close> blocks, or of \<open>- count\<close> bytes, is to return.
\<close>

definition spec_read :: "nat \<Rightarrow> disk \<Rightarrow> u64 \<Rightarrow> int \<Rightarrow> byte list" where
  "spec_read bs D b count =
     (if count < 0 then take (nat (- count)) (disk_read D b ((nat (- count) + bs - 1) div bs)) else disk_read D b (nat count))"

definition read_blocks :: "nat \<Rightarrow> int \<Rightarrow> nat" where
  "read_blocks bs count = (if count < 0 then (nat (- count) + bs - 1) div bs else nat count)"

lemma read_blocks_cover:
  assumes "0 < ch_block_size ch"
  shows "req_size ch count \<le> read_blocks (ch_block_size ch) count * ch_block_size ch"
proof (cases "count < 0")
  case True
  let ?n = "nat (- count)" and ?b = "ch_block_size ch"
  have "(?n + ?b - 1) div ?b * ?b + (?n + ?b - 1) mod ?b = ?n + ?b - 1" by simp
  moreover have "(?n + ?b - 1) mod ?b \<le> ?b - 1" using assms by (metis Suc_pred less_Suc_eq_le mod_less_divisor One_nat_def)
  ultimately have "?n \<le> (?n + ?b - 1) div ?b * ?b" using assms by linarith
  then show ?thesis using True by (simp add: req_size_def read_blocks_def)
next
  case False
  then show ?thesis by (simp add: req_size_def read_blocks_def nat_mult_distrib)
qed

lemma spec_read_req:
  "spec_read (ch_block_size ch) D b count =
     (if count < 0 then take (req_size ch count) (disk_read D b (read_blocks (ch_block_size ch) count)) else disk_read D b (nat count))"
  by (simp add: spec_read_def req_size_def read_blocks_def)

lemma unix_read_spec:
  assumes rep: "represents ch D" and c: "\<not> ud_nocache ch" "in_range ch b (read_blocks (ch_block_size ch) count)"
    and run: "unix_read_blk64 ch aligned b count = (e, ch', out)"
  shows "represents ch' D \<and> like ch ch' \<and> (e = None \<longrightarrow> out = spec_read (ch_block_size ch) D b count) \<and>
    ((\<forall>l s. \<not> bd_rerr (ud_dev ch) l s) \<longrightarrow> e = None)"
proof (cases "count < 0 \<or> count > WRITE_DIRECT_SIZE")
  case False
  then have rl: "read_loop ch aligned b (nat count) [] = (e, ch', out)" using run c(1) by (simp add: unix_read_blk64_def)
  show ?thesis using read_loop_spec [OF rl rep] c(2) False by (simp add: spec_read_def read_blocks_def)
next
  case True
  let ?n = "read_blocks (ch_block_size ch) count"
  note ok = represents_chan_ok [OF rep]
  obtain ch1 where f: "flush_cached_blocks ch False = (None, ch1)" "represents ch1 D" "like ch ch1"
    "\<And>b. in_range ch b 1 \<Longrightarrow> dev_block ch1 b = D b" using flush_spec [OF rep] by metis
  note geo = like_geometry [OF f(3)]
  have rd: "raw_read_blk ch1 aligned b count = (e, ch', out)" using run c(1) True f(1) by (auto simp: unix_read_blk64_def)
  have sz: "req_size ch1 count = req_size ch count" by (simp add: req_size_def geo)
  have cover: "req_size ch count \<le> ?n * ch_block_size ch" using read_blocks_cover ok by (simp add: chan_ok_def)
  have fits: "dev_pos ch1 b + req_size ch1 count \<le> length (bd_bytes (ud_dev ch1))" using c(2) cover sz geo by (simp add: in_range_def)
  have pos: "0 < req_size ch1 count" using True ok unfolding sz by (auto simp: req_size_def chan_ok_def WRITE_DIRECT_SIZE_def)
  have ok1: "chan_ok ch1" using ok geo by simp
  note raw = raw_read_spec [OF ok1 fits pos rd] and r = represents_raw [OF f(2) raw_read_spec(1,2) [OF ok1 fits pos rd]]
  have "take (?n * ch_block_size ch) (drop (dev_pos ch b) (bd_bytes (ud_dev ch1))) = disk_read D b ?n"
    using dev_read_blocks [of ch1 b ?n] disk_read_cong [of ch "dev_block ch1" D b ?n] f(4) c(2) ok ok1 geo by simp
  then have "take (req_size ch count) (drop (dev_pos ch b) (bd_bytes (ud_dev ch1))) = take (req_size ch count) (disk_read D b ?n)"
    using cover by (metis min.absorb1 take_take)
  moreover have "take (req_size ch count) (disk_read D b ?n) = spec_read (ch_block_size ch) D b count"
    using length_disk_read [OF rep c(2)] True by (auto simp: spec_read_req req_size_def read_blocks_def nat_mult_distrib)
  ultimately show ?thesis using raw(3,4) r like_trans [OF f(3)] sz geo by auto
qed

section \<open>Writing\<close>

lemma write_loop_spec:
  assumes "represents ch D" "write_ok ch" "in_range ch b (length xs)" "\<forall>x \<in> set xs. length x = ch_block_size ch"
  shows "represents (write_loop ch False b xs) (disk_write D b xs) \<and> like ch (write_loop ch False b xs)"
  using assms
proof (induction xs arbitrary: ch D b)
  case (Cons x xs)
  note rep = Cons(2) and r = in_range_Suc [OF represents_chan_ok [OF Cons(2)], of b "length xs"]
  obtain hit eldest ch1 where f: "find_cached_block ch b = (hit, eldest, ch1)" by (metis prod_cases3)
  note found = find_represents [OF rep f] find_like [OF rep f]
  have rest: "represents (write_loop ch' False (b + 1) xs) (disk_write D b (x # xs)) \<and> like ch (write_loop ch' False (b + 1) xs)"
    if "represents ch' (D(b := x))" "like ch ch'" for ch'
  proof -
    have "represents (write_loop ch' False (b + 1) xs) (disk_write (D(b := x)) (b + 1) xs) \<and> like ch' (write_loop ch' False (b + 1) xs)"
      by (rule Cons(1) [OF that(1)]) (use Cons(3-5) r(2) like_geometry [OF that(2)] in simp_all)
    then show ?thesis using like_trans [OF that(2)] by (simp del: fun_upd_apply)
  qed
  show ?case
  proof (cases hit)
    case (Some i)
    note h = find_hit [OF rep f Some]
    let ?c = "(ud_cache ch1 ! i)\<lparr>uc_buf := x, uc_dirty := True\<rparr>"
    have u: "uc_in_use (ud_cache ch1 ! i)" "uc_block (ud_cache ch1 ! i) = b" using h by (simp_all add: holds_def)
    have inj: "j < CACHE_SIZE \<Longrightarrow> holds (ud_cache ch1 ! j) b \<Longrightarrow> j = i" for j using found(1) h unfolding represents_def by blast
    have "represents (set_entry i ?c ch1) (if uc_in_use ?c then D(uc_block ?c := uc_buf ?c) else D)"
      by (rule represents_set_entry [OF found(1)])
        (use h u inj Cons(3,5) r(1) Cons(4) like_geometry [OF found(2)] in \<open>auto simp: modified_def\<close>)
    then have "represents (set_entry i ?c ch1) (D(b := x))" using u by simp
    then show ?thesis using rest like_trans [OF found(2) like_set_entry] f Some by simp
  next
    case None
    then obtain i where i: "i < CACHE_SIZE" "eldest = Some i" "ch1 = ch" and un: "\<And>j. j < CACHE_SIZE \<Longrightarrow> \<not> holds (ud_cache ch ! j) b"
      using find_miss [OF rep f] by auto
    obtain ch2 where re: "reuse_cache ch i b = (None, ch2)" "like ch ch2" "\<not> uc_dirty (ud_cache ch2 ! i)"
      "\<forall>data w. length data = ch_block_size ch \<and> (if w then write_ok ch else data = D b) \<longrightarrow>
         represents (set_entry i ((ud_cache ch2 ! i)\<lparr>uc_buf := data, uc_dirty := w\<rparr>) ch2) (D(b := data))"
      by (rule reuse_spec [OF rep i(1) _ un]) (use r(1) Cons(4) in auto)
    then show ?thesis using rest like_trans [OF re(2) like_set_entry] re(4) [rule_format, of x True] f None i Cons(3,5) by simp
  qed
qed simp

lemma length_chunks [simp]: "length (chunks bs n xs) = n"
  by (induction n arbitrary: xs) simp_all

lemma length_chunk: "n * bs \<le> length xs \<Longrightarrow> x \<in> set (chunks bs n xs) \<Longrightarrow> length x = bs"
proof (induction n arbitrary: xs)
  case (Suc n)
  have "n * bs \<le> length (drop bs xs)" using Suc(2) by simp
  then show ?case using Suc(1) [of "drop bs xs"] Suc(2,3) by auto
qed simp

lemma unix_write_spec:
  assumes rep: "represents ch D" and c: "\<not> ud_nocache ch" "\<not> ch_writethrough ch" "write_ok ch"
    and "n \<le> nat WRITE_DIRECT_SIZE" "in_range ch b n" "length buf = n * ch_block_size ch"
  obtains ch' where "unix_write_blk64 ch aligned b (int n) buf = (None, ch')"
    "represents ch' (disk_write D b (chunks (ch_block_size ch) n buf))" "like ch ch'"
  using write_loop_spec [OF rep c(3), of b "chunks (ch_block_size ch) n buf"] assms(5-7) length_chunk [of n "ch_block_size ch" buf] c
  by (auto simp: unix_write_blk64_def WRITE_DIRECT_SIZE_def)

end
