(* ===== verification/Io_Device.thy ===== *)
theory Io_Device
  imports Block_Cache
begin

text \<open>
  The interface of an io manager (\<^verbatim>\<open>struct_io_manager\<close>): reading, writing and flushing a channel that stands for the
  contents of a disk. The contract is stated once and holds for every sequence of operations;
  \<^verbatim>\<open>unix_io.c\<close> keeps it.
\<close>

section \<open>Sequences of operations\<close>

datatype io_op = Io_Read bool u64 int | Io_Write bool u64 nat "byte list" | Io_Flush

fun io_step ::
  "('s \<Rightarrow> bool \<Rightarrow> u64 \<Rightarrow> int \<Rightarrow> errcode_t \<times> 's \<times> byte list) \<Rightarrow> ('s \<Rightarrow> bool \<Rightarrow> u64 \<Rightarrow> int \<Rightarrow> byte list \<Rightarrow> errcode_t \<times> 's) \<Rightarrow>
   ('s \<Rightarrow> errcode_t \<times> 's) \<Rightarrow> 's \<Rightarrow> io_op \<Rightarrow> (errcode_t \<times> byte list) \<times> 's" where
  "io_step rd wr fl s (Io_Read aligned b count) = (let (e, s', out) = rd s aligned b count in ((e, out), s'))"
| "io_step rd wr fl s (Io_Write aligned b n buf) = (let (e, s') = wr s aligned b (int n) buf in ((e, []), s'))"
| "io_step rd wr fl s Io_Flush = (let (e, s') = fl s in ((e, []), s'))"

primrec io_run ::
  "('s \<Rightarrow> bool \<Rightarrow> u64 \<Rightarrow> int \<Rightarrow> errcode_t \<times> 's \<times> byte list) \<Rightarrow> ('s \<Rightarrow> bool \<Rightarrow> u64 \<Rightarrow> int \<Rightarrow> byte list \<Rightarrow> errcode_t \<times> 's) \<Rightarrow>
   ('s \<Rightarrow> errcode_t \<times> 's) \<Rightarrow> 's \<Rightarrow> io_op list \<Rightarrow> (errcode_t \<times> byte list) list \<times> 's" where
  "io_run rd wr fl s [] = ([], s)"
| "io_run rd wr fl s (p # ps) =
     (let (r, s1) = io_step rd wr fl s p; (rs, s2) = io_run rd wr fl s1 ps in (r # rs, s2))"

text \<open>The same operations on the contents of the disk.\<close>

fun spec_step :: "nat \<Rightarrow> disk \<Rightarrow> io_op \<Rightarrow> byte list \<times> disk" where
  "spec_step bs D (Io_Read aligned b count) = (spec_read bs D b count, D)"
| "spec_step bs D (Io_Write aligned b n buf) = ([], disk_write D b (chunks bs n buf))"
| "spec_step bs D Io_Flush = ([], D)"

primrec spec_run :: "nat \<Rightarrow> disk \<Rightarrow> io_op list \<Rightarrow> byte list list \<times> disk" where
  "spec_run bs D [] = ([], D)"
| "spec_run bs D (p # ps) = (let (x, D1) = spec_step bs D p; (xs, D2) = spec_run bs D1 ps in (x # xs, D2))"

section \<open>The contract\<close>

locale block_io =
  fixes rd :: "'s \<Rightarrow> bool \<Rightarrow> u64 \<Rightarrow> int \<Rightarrow> errcode_t \<times> 's \<times> byte list"
    and wr :: "'s \<Rightarrow> bool \<Rightarrow> u64 \<Rightarrow> int \<Rightarrow> byte list \<Rightarrow> errcode_t \<times> 's"
    and fl :: "'s \<Rightarrow> errcode_t \<times> 's"
    and stands_for :: "'s \<Rightarrow> disk \<Rightarrow> bool"
    and valid :: "'s \<Rightarrow> io_op \<Rightarrow> bool"
    and block_size :: "'s \<Rightarrow> nat"
    and faultless :: "'s \<Rightarrow> bool"
    and alike :: "'s \<Rightarrow> 's \<Rightarrow> bool"
  assumes step_stands_for: "stands_for s D \<Longrightarrow> valid s p \<Longrightarrow>
      stands_for (snd (io_step rd wr fl s p)) (snd (spec_step (block_size s) D p))"
    and step_result: "stands_for s D \<Longrightarrow> valid s p \<Longrightarrow> fst (fst (io_step rd wr fl s p)) = None \<Longrightarrow>
      snd (fst (io_step rd wr fl s p)) = fst (spec_step (block_size s) D p)"
    and step_no_error: "stands_for s D \<Longrightarrow> valid s p \<Longrightarrow> faultless s \<Longrightarrow> fst (fst (io_step rd wr fl s p)) = None"
    and step_alike: "stands_for s D \<Longrightarrow> valid s p \<Longrightarrow> alike s (snd (io_step rd wr fl s p))"
    and alike_refl: "alike s s" and alike_trans: "alike s t \<Longrightarrow> alike t u \<Longrightarrow> alike s u"
    and alike_same: "alike s t \<Longrightarrow> block_size t = block_size s \<and> faultless t = faultless s \<and> valid t = valid s"
begin

text \<open>Every result is an error or the one the contents of the disk give.\<close>

lemma run_refines:
  assumes "stands_for s D" "\<forall>p \<in> set ps. valid s p"
  shows "stands_for (snd (io_run rd wr fl s ps)) (snd (spec_run (block_size s) D ps)) \<and>
    list_all2 (\<lambda>r x. fst r = None \<longrightarrow> snd r = x) (fst (io_run rd wr fl s ps)) (fst (spec_run (block_size s) D ps)) \<and>
    (faultless s \<longrightarrow> fst (io_run rd wr fl s ps) = map (Pair None) (fst (spec_run (block_size s) D ps))) \<and>
    alike s (snd (io_run rd wr fl s ps))"
  using assms
proof (induction ps arbitrary: s D)
  case (Cons p ps)
  let ?s = "snd (io_step rd wr fl s p)" and ?D = "snd (spec_step (block_size s) D p)"
  have v: "valid s p" using Cons(3) by simp
  have same: "block_size ?s = block_size s" "faultless ?s = faultless s" "valid ?s = valid s"
    using alike_same [OF step_alike [OF Cons(2) v]] by simp_all
  have ih: "stands_for (snd (io_run rd wr fl ?s ps)) (snd (spec_run (block_size s) ?D ps)) \<and>
      list_all2 (\<lambda>r x. fst r = None \<longrightarrow> snd r = x) (fst (io_run rd wr fl ?s ps)) (fst (spec_run (block_size s) ?D ps)) \<and>
      (faultless s \<longrightarrow> fst (io_run rd wr fl ?s ps) = map (Pair None) (fst (spec_run (block_size s) ?D ps))) \<and>
      alike ?s (snd (io_run rd wr fl ?s ps))"
    using Cons(1) [OF step_stands_for [OF Cons(2) v]] Cons(3) same by simp
  then show ?case using step_result [OF Cons(2) v] step_no_error [OF Cons(2) v] alike_trans [OF step_alike [OF Cons(2) v]]
    by (auto simp: split_beta prod_eq_iff)
qed (simp add: alike_refl)

end

section \<open>unix_io.c keeps it\<close>

definition cached :: "io_channel \<Rightarrow> disk \<Rightarrow> bool" where
  "cached ch D \<longleftrightarrow> represents ch D \<and> \<not> ud_nocache ch \<and> \<not> ch_writethrough ch \<and> write_ok ch"

text \<open>Writes of more than four blocks go past the cache and are not part of the contract.\<close>

fun valid_op :: "io_channel \<Rightarrow> io_op \<Rightarrow> bool" where
  "valid_op ch (Io_Read aligned b count) = in_range ch b (read_blocks (ch_block_size ch) count)"
| "valid_op ch (Io_Write aligned b n buf) = (n \<le> nat WRITE_DIRECT_SIZE \<and> in_range ch b n \<and> length buf = n * ch_block_size ch)"
| "valid_op ch Io_Flush = True"

definition no_faults :: "io_channel \<Rightarrow> bool" where
  "no_faults ch \<longleftrightarrow> (\<forall>l s. \<not> bd_rerr (ud_dev ch) l s) \<and> bd_fsync (ud_dev ch)"

lemma like_valid_op:
  assumes "like ch ch'"
  shows "valid_op ch' = valid_op ch"
proof
  fix p
  show "valid_op ch' p = valid_op ch p" using like_geometry [OF assms] by (cases p) simp_all
qed

lemma unix_step:
  assumes "cached ch D" "valid_op ch p"
  shows "cached (snd (io_step unix_read_blk64 unix_write_blk64 unix_flush ch p)) (snd (spec_step (ch_block_size ch) D p)) \<and>
    like ch (snd (io_step unix_read_blk64 unix_write_blk64 unix_flush ch p)) \<and>
    (fst (fst (io_step unix_read_blk64 unix_write_blk64 unix_flush ch p)) = None \<longrightarrow>
      snd (fst (io_step unix_read_blk64 unix_write_blk64 unix_flush ch p)) = fst (spec_step (ch_block_size ch) D p)) \<and>
    (no_faults ch \<longrightarrow> fst (fst (io_step unix_read_blk64 unix_write_blk64 unix_flush ch p)) = None)"
proof (cases p)
  case (Io_Read aligned b count)
  obtain e ch' out where run: "unix_read_blk64 ch aligned b count = (e, ch', out)" by (metis prod_cases3)
  have c: "represents ch D" "\<not> ud_nocache ch" "in_range ch b (read_blocks (ch_block_size ch) count)"
    using assms Io_Read by (simp_all add: cached_def)
  note r = unix_read_spec [OF c run]
  then have "like ch ch'" by simp
  then show ?thesis using r run Io_Read assms(1) like_geometry [of ch ch'] by (simp add: cached_def no_faults_def)
next
  case (Io_Write aligned b n buf)
  obtain ch' where w: "unix_write_blk64 ch aligned b (int n) buf = (None, ch')"
    "represents ch' (disk_write D b (chunks (ch_block_size ch) n buf))" "like ch ch'"
    by (rule unix_write_spec [of ch D n b buf aligned]) (use assms Io_Write in \<open>simp_all add: cached_def\<close>)
  then show ?thesis using Io_Write assms(1) like_geometry [OF w(3)] by (simp add: cached_def)
next
  case Io_Flush
  obtain ch' where f: "flush_cached_blocks ch False = (None, ch')" "represents ch' D" "like ch ch'"
    using flush_spec [of ch D] assms(1) unfolding cached_def by metis
  then show ?thesis using Io_Flush assms(1) like_geometry [OF f(3)] by (simp add: unix_flush_def cached_def no_faults_def)
qed

interpretation unix_io: block_io unix_read_blk64 unix_write_blk64 unix_flush cached valid_op ch_block_size no_faults like
proof
  fix ch D p
  assume c: "cached ch D" "valid_op ch p"
  let ?r = "io_step unix_read_blk64 unix_write_blk64 unix_flush ch p"
  note s = unix_step [OF c]
  show "cached (snd ?r) (snd (spec_step (ch_block_size ch) D p))"
    "fst (fst ?r) = None \<Longrightarrow> snd (fst ?r) = fst (spec_step (ch_block_size ch) D p)"
    "no_faults ch \<Longrightarrow> fst (fst ?r) = None" using s by blast+
  show "like ch (snd ?r)" using s by blast
next
  fix a b
  assume l: "like a b"
  show "ch_block_size b = ch_block_size a \<and> no_faults b = no_faults a \<and> valid_op b = valid_op a"
    using like_geometry [OF l] like_valid_op [OF l] by (simp add: no_faults_def)
qed (simp_all add: like_trans)

section \<open>From opening to closing\<close>

text \<open>A channel that has just been opened stands for its device.\<close>

lemma opened_cached:
  assumes "chan_ok (unix_open_channel bounce dio dev)" "write_ok (unix_open_channel bounce dio dev)"
  shows "cached (unix_open_channel bounce dio dev) (dev_block (unix_open_channel bounce dio dev))"
proof -
  let ?ch = "unix_open_channel bounce dio dev"
  have "\<not> uc_in_use (ud_cache ?ch ! i)" if "i < CACHE_SIZE" for i using that by (simp add: unix_open_channel_def empty_cache_def)
  then have "represents ?ch (dev_block ?ch)"
    using assms(1) by (auto simp: represents_def holds_def dev_block_def in_range_def)
  then show ?thesis using assms(2) by (simp add: cached_def unix_open_channel_def)
qed

definition byte_block :: "byte list \<Rightarrow> nat \<Rightarrow> u64 \<Rightarrow> byte list" where
  "byte_block xs bs b = take bs (drop (unat b * bs) xs)"

lemma dev_block_bytes: "ud_offset ch = 0 \<Longrightarrow> dev_block ch b = byte_block (bd_bytes (ud_dev ch)) (ch_block_size ch) b"
  by (simp add: dev_block_def byte_block_def dev_pos_def)

lemma opened_dev_block: "dev_block (unix_open_channel bounce dio dev) = byte_block (bd_bytes dev) 1024"
  by (rule ext) (simp add: dev_block_bytes unix_open_channel_def)

lemma open_run_close:
  fixes bounce dio dev ps aligned
  defines "ch0 \<equiv> unix_open_channel bounce dio dev"
  defines "run \<equiv> io_run unix_read_blk64 unix_write_blk64 unix_flush ch0 ps"
    and "spec \<equiv> spec_run 1024 (byte_block (bd_bytes dev) 1024) ps"
  assumes "chan_ok ch0" "write_ok ch0" "no_faults ch0" and valid: "\<forall>p \<in> set ps. valid_op ch0 p"
  shows "fst run = map (Pair None) (fst spec)" and "fst (unix_close (snd run) True) = None"
    and "(unat b + 1) * 1024 \<le> length (bd_bytes dev) \<Longrightarrow>
      byte_block (bd_bytes (snd (unix_close (snd run) True))) 1024 b = snd spec b"
proof -
  have bs: "ch_block_size ch0 = 1024" and off: "ud_offset ch0 = 0" and dev: "ud_dev ch0 = dev"
    by (simp_all add: ch0_def unix_open_channel_def)
  have D: "dev_block ch0 = byte_block (bd_bytes dev) 1024" by (simp add: ch0_def opened_dev_block)
  have c: "cached ch0 (dev_block ch0)" unfolding ch0_def by (rule opened_cached) (use assms(4,5) in \<open>simp_all add: ch0_def\<close>)
  note r = unix_io.run_refines [OF c valid, folded run_def, unfolded bs D, folded spec_def]
  show "fst run = map (Pair None) (fst spec)" using r assms(6) by blast
  have rep: "represents (snd run) (snd spec)" using r by (simp add: cached_def)
  obtain ch' where f: "flush_cached_blocks (snd run) False = (None, ch')" "like (snd run) ch'"
    "\<And>b. in_range (snd run) b 1 \<Longrightarrow> dev_block ch' b = snd spec b" using flush_spec [OF rep] by metis
  then show "fst (unix_close (snd run) True) = None" by (simp add: unix_close_def)
  have l: "like ch0 (snd run)" using r by simp
  have l': "ud_offset ch' = 0" "ch_block_size ch' = 1024" "snd (unix_close (snd run) True) = ud_dev ch'"
    using l f(1,2) bs off by (simp_all add: like_def unix_close_def)
  assume "(unat b + 1) * 1024 \<le> length (bd_bytes dev)"
  then have "in_range (snd run) b 1" unfolding like_geometry [OF l] by (simp add: in_range_def dev_pos_def bs off dev)
  then show "byte_block (bd_bytes (snd (unix_close (snd run) True))) 1024 b = snd spec b"
    using f(3) [of b] dev_block_bytes [OF l'(1), of b] l' by simp
qed

text \<open>
  C4: from opening a device to closing it, any sequence of reads (whole blocks or a number of bytes),
  writes of up to four blocks and flushes inside the device returns what the same operations on the
  plain contents return, without an error when the hardware makes none; and after the close every
  block of the device holds what was written last, although the writes went through the cache of
  eight blocks and, where the alignment asks for it, the bounce buffer.
\<close>

theorem unix_io_durable:
  assumes "chan_ok (unix_open_channel bounce dio dev)" "write_ok (unix_open_channel bounce dio dev)"
    "no_faults (unix_open_channel bounce dio dev)" "\<forall>p \<in> set ps. valid_op (unix_open_channel bounce dio dev) p"
  shows "fst (io_run unix_read_blk64 unix_write_blk64 unix_flush (unix_open_channel bounce dio dev) ps) =
      map (Pair None) (fst (spec_run 1024 (byte_block (bd_bytes dev) 1024) ps)) \<and>
    fst (unix_close (snd (io_run unix_read_blk64 unix_write_blk64 unix_flush (unix_open_channel bounce dio dev) ps)) True) = None \<and>
    (\<forall>b. (unat b + 1) * 1024 \<le> length (bd_bytes dev) \<longrightarrow>
      byte_block (bd_bytes (snd (unix_close (snd (io_run unix_read_blk64 unix_write_blk64 unix_flush
        (unix_open_channel bounce dio dev) ps)) True))) 1024 b =
      snd (spec_run 1024 (byte_block (bd_bytes dev) 1024) ps) b)"
  using open_run_close [OF assms] by blast

definition blank_dev :: blkdev where
  "blank_dev = \<lparr>bd_bytes = replicate 8192 0, bd_rerr = (\<lambda>l s. False), bd_werr = (\<lambda>l s. False), bd_fsync = True\<rparr>"

lemmas blank_eval = blank_dev_def unix_open_channel_def chan_ok_def bounces_def align_size_def bounce_align_def write_ok_def no_faults_def
  in_range_def dev_pos_def CACHE_SIZE_def WRITE_DIRECT_SIZE_def read_blocks_def

lemma blank_spec:
  "spec_run 1024 (byte_block (bd_bytes blank_dev) 1024) [Io_Write True 2 1 (replicate 1024 7), Io_Read False 2 1] =
     ([[], replicate 1024 7], (byte_block (bd_bytes blank_dev) 1024)(2 := replicate 1024 7))"
  by (simp add: spec_read_def)

theorem unix_io_durable_witness:
  "fst (io_run unix_read_blk64 unix_write_blk64 unix_flush (unix_open_channel True 0 blank_dev)
      [Io_Write True 2 1 (replicate 1024 7), Io_Read False 2 1]) = [(None, []), (None, replicate 1024 7)] \<and>
   byte_block (bd_bytes (snd (unix_close (snd (io_run unix_read_blk64 unix_write_blk64 unix_flush (unix_open_channel True 0 blank_dev)
      [Io_Write True 2 1 (replicate 1024 7), Io_Read False 2 1])) True))) 1024 2 = replicate 1024 7"
proof -
  let ?ch = "unix_open_channel True 0 blank_dev" and ?ps = "[Io_Write True 2 1 (replicate 1024 7), Io_Read False 2 1]"
  have c: "chan_ok ?ch" "write_ok ?ch" "no_faults ?ch" by (simp_all add: blank_eval)
  have v: "\<forall>p \<in> set ?ps. valid_op ?ch p" by (simp add: blank_eval)
  have l: "(unat (2 :: u64) + 1) * 1024 \<le> length (bd_bytes blank_dev)" by (simp add: blank_dev_def)
  from unix_io_durable [OF c v] l show ?thesis unfolding blank_spec by simp
qed

section \<open>The bounce buffer\<close>

text \<open>
  reading through the bounce buffer is equivalent to reading directly: on a device whose size is
  a multiple of the unit both return the same bytes and succeed.
\<close>

theorem bounce_read_equivalent:
  assumes "chan_ok (ch\<lparr>ud_force_bounce := True\<rparr>)" "dev_pos ch b + req_size ch count \<le> length (bd_bytes (ud_dev ch))" "0 < req_size ch count"
    and "\<forall>l s. \<not> bd_rerr (ud_dev ch) l s"
  shows "(case raw_read_blk (ch\<lparr>ud_force_bounce := True\<rparr>) aligned b count of (e, ch', data) \<Rightarrow> (e, data)) =
         (case raw_read_blk (ch\<lparr>ud_force_bounce := False, ch_align := 0\<rparr>) aligned' b count of (e, ch', data) \<Rightarrow> (e, data))"
proof -
  let ?a = "ch\<lparr>ud_force_bounce := True\<rparr>" and ?b = "ch\<lparr>ud_force_bounce := False, ch_align := 0\<rparr>"
  obtain e1 c1 d1 e2 c2 d2 where r: "raw_read_blk ?a aligned b count = (e1, c1, d1)" "raw_read_blk ?b aligned' b count = (e2, c2, d2)"
    by (metis prod_cases3)
  have p: "dev_pos ?a b = dev_pos ch b" "dev_pos ?b b = dev_pos ch b" "req_size ?a count = req_size ch count" "req_size ?b count = req_size ch count"
    by (simp_all add: dev_pos_def req_size_def)
  have c: "chan_ok ?b" using assms(1) by (simp add: chan_ok_def bounces_def)
  have "d1 = take (req_size ch count) (drop (dev_pos ch b) (bd_bytes (ud_dev ch))) \<and> e1 = None"
    using raw_read_spec(3,4) [OF assms(1) _ _ r(1)] assms(2-4) p by simp
  moreover have "d2 = take (req_size ch count) (drop (dev_pos ch b) (bd_bytes (ud_dev ch))) \<and> e2 = None"
    using raw_read_spec(3,4) [OF c _ _ r(2)] assms(2-4) p by simp
  ultimately show ?thesis using r by simp
qed

theorem bounce_read_equivalent_witness:
  "(case raw_read_blk ((unix_open_channel False 512 blank_dev)\<lparr>ud_force_bounce := True\<rparr>) False 1 (- 700) of (e, ch', data) \<Rightarrow> (e, data)) =
   (case raw_read_blk ((unix_open_channel False 512 blank_dev)\<lparr>ud_force_bounce := False, ch_align := 0\<rparr>) True 1 (- 700) of (e, ch', data) \<Rightarrow> (e, data))"
  by (rule bounce_read_equivalent) (simp_all add: blank_eval req_size_def)

section \<open>Where the cache and the device come apart\<close>

lemma raw_write_cache: "ud_cache (snd (raw_write_blk ch aligned b count buf)) = ud_cache ch"
  by (auto simp: raw_write_blk_def bounce_write_def seek_write_def Let_def split: prod.splits option.splits)

lemma flush_entry_keeps:
  assumes "\<not> modified (ud_cache ch ! j)"
  shows "ud_cache (snd (flush_entry invalidate i (e, ch))) ! j = ud_cache ch ! j"
  using assms raw_write_cache [of ch True "uc_block (ud_cache ch ! i)" 1 "uc_buf (ud_cache ch ! i)"]
  by (cases "i = j") (auto simp: flush_entry_def modified_def set_entry_def Let_def split: prod.splits)

lemma flush_keeps:
  assumes "\<not> modified (ud_cache ch ! j)"
  shows "ud_cache (snd (fold (flush_entry invalidate) is (e, ch))) ! j = ud_cache ch ! j"
  using assms
proof (induction "is" arbitrary: e ch)
  case (Cons i "is")
  obtain e' ch' where f: "flush_entry invalidate i (e, ch) = (e', ch')" by force
  have "ud_cache ch' ! j = ud_cache ch ! j" using flush_entry_keeps [OF Cons(2), of invalidate i e] f by simp
  then show ?case using Cons f by simp
qed simp

text \<open>
  a write of more than four blocks, which goes to the device directly, leaves unmodified copies
  of the blocks it writes in the cache, although it is meant to empty the cache: a later read
  of such a block returns the contents from before the write.
\<close>

theorem large_write_leaves_stale_copy:
  assumes rep: "represents ch D" and c: "\<not> ud_nocache ch" "write_ok ch" and n: "WRITE_DIRECT_SIZE < int n" "in_range ch b n"
    and buf: "length buf = n * ch_block_size ch" and j: "j < CACHE_SIZE" "holds (ud_cache ch ! j) x" "\<not> uc_dirty (ud_cache ch ! j)"
  shows "fst (unix_write_blk64 ch aligned b (int n) buf) = None \<and>
    (case unix_read_blk64 (snd (unix_write_blk64 ch aligned b (int n) buf)) aligned' x 1 of (e, ch', out) \<Rightarrow> e = None \<and> out = D x)"
proof -
  have pos: "0 < n" using n(1) by (simp add: WRITE_DIRECT_SIZE_def)
  obtain ch1 where f: "flush_cached_blocks ch True = (None, ch1)" "represents ch1 D" "like ch ch1" using flush_spec [OF rep] by metis
  note geo = like_geometry [OF f(3)]
  have "ud_cache ch1 ! j = ud_cache ch ! j"
    using f(1) flush_keeps [of ch j True "[0..<length (ud_cache ch)]" None] j(3)
    by (auto simp: flush_cached_blocks_def modified_def split: prod.splits if_split_asm)
  then have h: "holds (ud_cache ch1 ! j) x" using j(2) by simp
  obtain ch2 where w: "raw_write_blk ch1 aligned b (int n) buf = (None, ch2)" "same_but_counters ch1 ch2"
    by (rule raw_write_spec [of ch1 b n buf aligned]) (use geo represents_chan_ok [OF rep] n(2) pos c(2) buf in auto)
  have run: "unix_write_blk64 ch aligned b (int n) buf = (None, ch2)" using c(1) n(1) f(1) w(1) by (simp add: unix_write_blk64_def)
  have same: "ud_cache ch2 = ud_cache ch1" "ud_nocache ch2 = ud_nocache ch" "ch_block_size ch2 = ch_block_size ch"
    using w(2) geo by (simp_all add: same_but_counters_def)
  obtain hit eldest ch3 where g: "find_cached_block ch1 x = (hit, eldest, ch3)" by (metis prod_cases3)
  have "hit \<noteq> None" using find_miss [OF f(2) g] h j(1) by auto
  then obtain i where i: "hit = Some i" by auto
  note at = find_hit [OF f(2) g i]
  have f2: "find_cached_block ch2 x = (Some i, None, touch i ch2)"
    using g i same(1) by (auto simp: find_cached_block_def split: prod.splits option.splits)
  have ch3: "ch3 = touch i ch1" using g i by (auto simp: find_cached_block_def split: prod.splits option.splits)
  have D: "uc_buf (ud_cache ch3 ! i) = D x" "length (D x) = ch_block_size ch"
    using represents_held [OF find_represents [OF f(2) g]] at like_geometry [OF find_like [OF f(2) g]] geo
      represents_block_length [OF f(2)] by (auto simp: holds_def)
  moreover have "i < length (ud_cache ch1)" using at represents_length [OF f(2)] by simp
  ultimately have "uc_buf (ud_cache (touch i ch2) ! i) = D x" using ch3 same(1) by (simp add: touch_def)
  then show ?thesis using run f2 same c(1) D(2)
    by (simp add: unix_read_blk64_def WRITE_DIRECT_SIZE_def read_loop.simps)
qed

definition blank_entry :: unix_cache where
  "blank_entry = (empty_cache 1024)\<lparr>uc_block := 1, uc_in_use := True\<rparr>"

lemma blank_represents:
  "represents (set_entry 0 blank_entry (unix_open_channel False 0 blank_dev)) ((byte_block (bd_bytes blank_dev) 1024)(1 := replicate 1024 0))"
proof -
  let ?ch = "unix_open_channel False 0 blank_dev"
  have "cached ?ch (dev_block ?ch)" by (rule opened_cached) (simp_all add: blank_eval)
  then have r: "represents ?ch (byte_block (bd_bytes blank_dev) 1024)"
    by (simp add: cached_def opened_dev_block)
  have "represents (set_entry 0 blank_entry ?ch)
      (if uc_in_use blank_entry then (byte_block (bd_bytes blank_dev) 1024)(uc_block blank_entry := uc_buf blank_entry)
       else byte_block (bd_bytes blank_dev) 1024)"
    by (rule represents_set_entry [OF r])
      (simp_all add: blank_entry_def empty_cache_def blank_eval modified_def holds_def byte_block_def)
  then show ?thesis by (simp add: blank_entry_def empty_cache_def)
qed

theorem large_write_leaves_stale_copy_witness:
  "case unix_read_blk64 (snd (unix_write_blk64 (set_entry 0 blank_entry (unix_open_channel False 0 blank_dev)) True 0 5 (replicate 5120 7)))
     True 1 1 of (e, ch', out) \<Rightarrow> e = None \<and> out = replicate 1024 0"
proof -
  let ?ch = "set_entry 0 blank_entry (unix_open_channel False 0 blank_dev)"
  have "fst (unix_write_blk64 ?ch True 0 (int 5) (replicate 5120 7)) = None \<and>
      (case unix_read_blk64 (snd (unix_write_blk64 ?ch True 0 (int 5) (replicate 5120 7))) True 1 1 of (e, ch', out) \<Rightarrow>
         e = None \<and> out = ((byte_block (bd_bytes blank_dev) 1024)(1 := replicate 1024 0)) 1)"
    by (rule large_write_leaves_stale_copy [OF blank_represents, where j = 0])
      (simp_all add: blank_eval set_entry_def blank_entry_def empty_cache_def holds_def)
  then show ?thesis by simp
qed

lemma dev_write_fails: "\<forall>l s. bd_werr d l s \<Longrightarrow> dev_write d loc bs = (None, d)"
  by (simp add: dev_write_def)

lemma raw_write_fails:
  assumes "\<forall>l s. bd_werr (ud_dev ch) l s" "0 < ch_block_size ch" "buf \<noteq> []"
  shows "fst (raw_write_blk ch aligned b 1 buf) \<noteq> None" "ud_dev (snd (raw_write_blk ch aligned b 1 buf)) = ud_dev ch"
proof -
  have t: "take (req_size ch 1) buf \<noteq> []" using assms(2,3) by (simp add: req_size_def)
  have loop: "fst (bounce_write_loop (ud_dev ch) u pos k bs) \<noteq> None \<and> snd (bounce_write_loop (ud_dev ch) u pos k bs) = ud_dev ch"
    if "k < u" "bs \<noteq> []" for u pos k bs
    using that by (simp add: bounce_write_loop.simps [of "ud_dev ch"] dev_write_fails [OF assms(1)] Let_def split: option.split)
  have u: "unat loc mod align_size c < align_size c" for loc :: u64 and c using align_size_pos [of c] by simp
  have "fst (raw_write_blk ch aligned b 1 buf) \<noteq> None \<and> ud_dev (snd (raw_write_blk ch aligned b 1 buf)) = ud_dev ch"
    using t loop [OF u t] dev_write_fails [OF assms(1)]
    by (auto simp: raw_write_blk_def bounce_write_def seek_write_def Let_def split_beta)
  then show "fst (raw_write_blk ch aligned b 1 buf) \<noteq> None" "ud_dev (snd (raw_write_blk ch aligned b 1 buf)) = ud_dev ch" by auto
qed

text \<open>
  C40: when the entry to be reused holds a modified block that the device refuses, writing another
  block reports success and loses the data: neither the device nor the cache has the block.
\<close>

theorem unix_write_loses_block:
  assumes "\<not> ud_nocache ch" "\<not> ch_writethrough ch" "0 < ch_block_size ch" "find_cached_block ch b = (None, Some i, ch)"
    and "i < length (ud_cache ch)" "modified (ud_cache ch ! i)" "uc_buf (ud_cache ch ! i) \<noteq> []" "\<forall>l s. bd_werr (ud_dev ch) l s"
  shows "fst (unix_write_blk64 ch aligned b 1 buf) = None \<and>
    ud_dev (snd (unix_write_blk64 ch aligned b 1 buf)) = ud_dev ch \<and>
    (\<forall>c \<in> set (ud_cache (snd (unix_write_blk64 ch aligned b 1 buf))). \<not> holds c b)"
proof -
  let ?c = "ud_cache ch ! i"
  obtain e ch1 where w: "raw_write_blk ch True (uc_block ?c) 1 (uc_buf ?c) = (Some e, ch1)" "ud_dev ch1 = ud_dev ch" "ud_cache ch1 = ud_cache ch"
    using raw_write_fails [OF assms(8,3,7), of True "uc_block ?c"] raw_write_cache [of ch True "uc_block ?c" 1 "uc_buf ?c"]
    by (cases "raw_write_blk ch True (uc_block ?c) 1 (uc_buf ?c)") auto
  have miss: "\<forall>c \<in> set (ud_cache ch). \<not> holds c b"
    using assms(4) find_loop_miss [of "ud_cache ch" b 0 None None] by (auto simp: find_cached_block_def split: prod.splits option.splits)
  have run: "unix_write_blk64 ch aligned b 1 buf = (None, set_entry i (?c\<lparr>uc_write_err := True\<rparr>) ch1)"
    using assms(1,2,4,6) w(1) by (simp add: unix_write_blk64_def WRITE_DIRECT_SIZE_def reuse_cache_def modified_def)
  have "\<forall>c \<in> set (ud_cache (set_entry i (?c\<lparr>uc_write_err := True\<rparr>) ch1)). \<not> holds c b"
    using miss assms(5) w(3) by (auto simp: set_entry_def holds_def dest!: subsetD [OF set_update_subset_insert])
  then show ?thesis using run w(2) by (simp add: set_entry_def)
qed

definition full_cache :: io_channel where
  "full_cache = \<lparr>ch_block_size = 1, ch_align = 0, ch_writethrough = False, ud_force_bounce = False, ud_nocache = False, ud_access_time = 8,
     ud_offset = 0,
     ud_cache = map (\<lambda>k. \<lparr>uc_buf = [1], uc_block = of_nat k, uc_access_time = of_nat (Suc k), uc_dirty = True, uc_in_use = True, uc_write_err = False\<rparr>) [0..<8],
     ud_bytes_read = 0, ud_bytes_written = 0,
     ud_dev = \<lparr>bd_bytes = replicate 16 0, bd_rerr = (\<lambda>l s. False), bd_werr = (\<lambda>l s. True), bd_fsync = True\<rparr>\<rparr>"

theorem unix_write_loses_block_witness:
  "fst (unix_write_blk64 full_cache True 9 1 [5]) = None \<and>
   list_all (\<lambda>c. \<not> holds c 9) (ud_cache (snd (unix_write_blk64 full_cache True 9 1 [5])))"
proof -
  have "find_loop (ud_cache full_cache) 9 0 None None = (None, Some 0)" by code_simp
  then have "find_cached_block full_cache 9 = (None, Some 0, full_cache)" by (simp add: find_cached_block_def)
  moreover have "\<forall>l s. bd_werr (ud_dev full_cache) l s" "modified (ud_cache full_cache ! 0)" "uc_buf (ud_cache full_cache ! 0) \<noteq> []"
    "0 < length (ud_cache full_cache)" "\<not> ud_nocache full_cache" "\<not> ch_writethrough full_cache" "0 < ch_block_size full_cache"
    by (simp_all add: full_cache_def modified_def)
  ultimately show ?thesis using unix_write_loses_block [of full_cache 9 0 True "[5]"] unfolding list_all_iff by blast
qed

end
