(* ===== verification/Inode_Read.thy ===== *)
theory Inode_Read
  imports Inode Fs_Geometry Io_Device
begin

text \<open>
  Reading inodes: on an open file system whose descriptors are in order, \<open>ext2fs_read_inode2\<close> returns
  the bytes that the inode table has at the place of the inode, whichever inodes were read before.
\<close>

unbundle bit_operations_syntax

section \<open>File systems in order\<close>

definition fs_ok :: "ext2fs \<Rightarrow> byte list \<Rightarrow> disk \<Rightarrow> bool" where
  "fs_ok fs gd D \<longleftrightarrow>
     sizes_ok (ef_super fs) \<and> groups_ok (ef_super fs) (ef_group_desc_count fs) (ef_desc_blocks fs) \<and>
     ef_blocksize fs = EXT2_BLOCK_SIZE (ef_super fs) \<and> ef_inode_blocks_per_group fs = inode_blocks_per_group (ef_super fs) \<and>
     ef_group_desc fs = Some gd \<and> length gd = unat (ef_desc_blocks fs) * unat (EXT2_BLOCK_SIZE (ef_super fs)) \<and>
     unat (ef_group_desc_count fs) * unat (EXT2_DESC_SIZE (ef_super fs)) < 2 ^ 32 \<and>
     \<not> ext2fs_has_feature_journal_dev (ef_super fs) \<and> \<not> flag (ef_flags fs) EXT2_FLAG_IMAGE_FILE \<and>
     represents (ef_io fs) D \<and> \<not> ud_nocache (ef_io fs) \<and> ch_block_size (ef_io fs) = unat (EXT2_BLOCK_SIZE (ef_super fs))"

text \<open>The block of the inode table of a group, from the descriptors.\<close>

definition inode_table :: "ext2_super_block \<Rightarrow> byte list \<Rightarrow> u32 \<Rightarrow> u64" where
  "inode_table sb gd grp =
     (let off = unat grp * unat (EXT2_DESC_SIZE sb)
      in ucast (le32_at gd (off + 8)) OR (if ext2fs_has_feature_64bit sb then push_bit 32 (ucast (le32_at gd (off + 0x28))) else 0))"

definition inode_group :: "ext2_super_block \<Rightarrow> u32 \<Rightarrow> u32" where
  "inode_group sb ino = (ino - 1) div s_inodes_per_group sb"

text \<open>The place of the inode in the table of its group, in bytes.\<close>

definition inode_offset :: "ext2_super_block \<Rightarrow> u32 \<Rightarrow> nat" where
  "inode_offset sb ino = (unat ino - 1) mod unat (s_inodes_per_group sb) * unat (EXT2_INODE_SIZE sb)"

definition inode_block :: "ext2_super_block \<Rightarrow> byte list \<Rightarrow> u32 \<Rightarrow> u64" where
  "inode_block sb gd ino = inode_table sb gd (inode_group sb ino) + of_nat (inode_offset sb ino div unat (EXT2_BLOCK_SIZE sb))"

definition inode_bytes :: "ext2_super_block \<Rightarrow> byte list \<Rightarrow> disk \<Rightarrow> u32 \<Rightarrow> byte list" where
  "inode_bytes sb gd D ino =
     take (unat (EXT2_INODE_SIZE sb)) (drop (inode_offset sb ino mod unat (EXT2_BLOCK_SIZE sb)) (D (inode_block sb gd ino)))"

text \<open>The inode number is valid and the table of its group lies where the library accepts it and on the device.\<close>

definition inode_there :: "ext2fs \<Rightarrow> byte list \<Rightarrow> u32 \<Rightarrow> bool" where
  "inode_there fs gd ino \<longleftrightarrow>
     (let sb = ef_super fs; t = inode_table sb gd (inode_group sb ino)
      in ino \<noteq> 0 \<and> ino \<le> s_inodes_count sb \<and> unat (s_inodes_per_group sb) * unat (EXT2_INODE_SIZE sb) < 2 ^ 32 \<and> t \<noteq> 0 \<and>
         ucast (s_first_data_block sb) \<le> t \<and> t + ucast (inode_blocks_per_group sb) - 1 < ext2fs_blocks_count sb \<and>
         in_range (ef_io fs) (inode_block sb gd ino) 1 \<and> inode_block sb gd ino \<noteq> 0)"

section \<open>The group descriptor\<close>

lemma and_not_7:
  assumes "8 dvd unat (d :: u32)"
  shows "d AND NOT 7 = d"
proof (rule bit_word_eqI)
  fix n
  have "unat (d mod 8) = 0" using assms by (simp add: unat_mod_distrib)
  then have "take_bit 3 d = 0" by (simp add: take_bit_eq_mod unat_eq_zero)
  then have low: "\<not> bit d m" if "m < 3" for m using that by (metis bit_0_eq bit_take_bit_iff bot_apply bot_bool_def)
  have m7: "(7 :: u32) = mask 3" by (simp add: mask_eq_exp_minus_1)
  assume n: "n < LENGTH(32)"
  have "bit (7 :: u32) n \<longleftrightarrow> n < 3" unfolding m7 bit_mask_iff using n by simp
  then show "bit (d AND NOT 7) n = bit d n" unfolding bit_and_iff bit_not_iff using low [of n] n by auto
qed

lemma group_of_inode:
  assumes "fs_ok fs gd D" "ino \<noteq> 0" "ino \<le> s_inodes_count (ef_super fs)"
  shows "unat (inode_group (ef_super fs) ino) < unat (ef_group_desc_count fs)"
proof -
  let ?p = "unat (s_inodes_per_group (ef_super fs))"
  have g: "unat (ef_group_desc_count fs) * ?p = unat (s_inodes_count (ef_super fs))" "0 < ?p"
    using assms(1) by (simp_all add: fs_ok_def groups_ok_def)
  have "unat ino \<le> unat (s_inodes_count (ef_super fs))" "0 < unat ino" using assms(2,3) by (simp_all add: word_le_nat_alt unat_gt_0)
  then have "unat ino - 1 < unat (ef_group_desc_count fs) * ?p" using g by linarith
  then show ?thesis using assms(2) by (simp add: inode_group_def unat_div_distrib unat_minus_one less_mult_imp_div_less)
qed

lemma group_desc_at:
  assumes ok: "fs_ok fs gd D" and g: "unat grp < unat (ef_group_desc_count fs)"
  shows "ext2fs_group_desc fs grp = Inr (Some (gd, unat grp * unat (EXT2_DESC_SIZE (ef_super fs))), fs)"
    "unat grp * unat (EXT2_DESC_SIZE (ef_super fs)) + unat (EXT2_DESC_SIZE (ef_super fs)) \<le> length gd"
proof -
  let ?sb = "ef_super fs" and ?d = "unat (EXT2_DESC_SIZE (ef_super fs))"
  have sz: "sizes_ok ?sb" using ok by (simp add: fs_ok_def)
  obtain n where n: "EXT2_DESC_PER_BLOCK ?sb = Inr n" by (rule desc_per_block [OF sz])
  have "(unat grp + 1) * ?d \<le> unat (ef_group_desc_count fs) * ?d" using g by (intro mult_le_mono1) simp
  then have lt: "unat grp * ?d < 2 ^ 32" and fits: "unat grp * ?d + ?d \<le> length gd"
    using ok sz by (auto simp: fs_ok_def groups_ok_def sizes_ok_def)
  show "unat grp * ?d + ?d \<le> length gd" by (rule fits)
  have "unat (grp * EXT2_DESC_SIZE ?sb) = unat grp * ?d" using lt by (simp add: unat_word_ariths)
  moreover have "EXT2_DESC_SIZE ?sb AND NOT 7 = EXT2_DESC_SIZE ?sb" by (rule and_not_7) (use sz in \<open>simp add: sizes_ok_def\<close>)
  moreover have "\<not> grp > ef_group_desc_count fs" using g by (simp add: word_less_nat_alt)
  ultimately show "ext2fs_group_desc fs grp = Inr (Some (gd, unat grp * ?d), fs)"
    using ok n by (simp add: ext2fs_group_desc_def Let_def fs_ok_def)
qed

lemma table_loc:
  assumes ok: "fs_ok fs gd D" and g: "unat grp < unat (ef_group_desc_count fs)"
  shows "ext2fs_inode_table_loc fs grp = Inr (inode_table (ef_super fs) gd grp, fs)"
proof -
  let ?sb = "ef_super fs" and ?d = "unat (EXT2_DESC_SIZE (ef_super fs))"
  note gd = group_desc_at [OF ok g]
  have "32 \<le> ?d" "ext2fs_has_feature_64bit ?sb \<Longrightarrow> 64 \<le> ?d" using ok by (simp_all add: fs_ok_def sizes_ok_def)
  then have "unat grp * ?d + 12 \<le> length gd" "ext2fs_has_feature_64bit ?sb \<Longrightarrow> unat grp * ?d + 0x2c \<le> length gd" using gd(2) by linarith+
  then show ?thesis
    by (auto simp: ext2fs_inode_table_loc_def gd(1) inode_table_def Let_def le32_at_def read_at_def)
qed

section \<open>The place of the inode\<close>

lemma inode_fits:
  assumes "sizes_ok sb"
  shows "inode_offset sb ino mod unat (EXT2_BLOCK_SIZE sb) + unat (EXT2_INODE_SIZE sb) \<le> unat (EXT2_BLOCK_SIZE sb)"
proof -
  let ?i = "unat (EXT2_INODE_SIZE sb)" and ?b = "unat (EXT2_BLOCK_SIZE sb)" and ?r = "inode_offset sb ino mod unat (EXT2_BLOCK_SIZE sb)"
  have d: "?i dvd ?b" "0 < ?b" using assms unfolding sizes_ok_def by auto
  then have "?i dvd ?r" by (simp add: inode_offset_def dvd_mod)
  moreover have "?r < ?b" using d(2) by simp
  ultimately have "?i dvd ?b - ?r" "0 < ?b - ?r" using d(1) by (simp_all add: dvd_diff_nat)
  then have "?i \<le> ?b - ?r" by (rule dvd_imp_le)
  then show ?thesis using \<open>?r < ?b\<close> by linarith
qed

lemma location:
  assumes ok: "fs_ok fs gd D" and there: "inode_there fs gd ino"
  shows "inode_place fs ino = Inr (Inr (inode_block (ef_super fs) gd ino, inode_offset (ef_super fs) ino mod unat (EXT2_BLOCK_SIZE (ef_super fs))), fs)"
    "inode_location fs ino = inode_place fs ino"
proof -
  let ?sb = "ef_super fs" and ?g = "inode_group (ef_super fs) ino"
  let ?off = "((ino - 1) mod s_inodes_per_group ?sb) * EXT2_INODE_SIZE ?sb"
  have v: "ino \<noteq> 0" "ino \<le> s_inodes_count ?sb" "unat (s_inodes_per_group ?sb) * unat (EXT2_INODE_SIZE ?sb) < 2 ^ 32"
    "inode_table ?sb gd ?g \<noteq> 0" "ucast (s_first_data_block ?sb) \<le> inode_table ?sb gd ?g"
    "inode_table ?sb gd ?g + ucast (inode_blocks_per_group ?sb) - 1 < ext2fs_blocks_count ?sb"
    using there by (simp_all add: inode_there_def Let_def)
  note g = group_of_inode [OF ok v(1,2)]
  have p: "0 < unat (s_inodes_per_group ?sb)" using ok by (simp add: fs_ok_def groups_ok_def)
  have sz: "unat (s_log_block_size ?sb) \<le> 6" "unat (EXT2_BLOCK_SIZE ?sb) = 2 ^ (10 + unat (s_log_block_size ?sb))"
    using ok by (simp_all add: fs_ok_def sizes_ok_def)
  have "(unat ino - 1) mod unat (s_inodes_per_group ?sb) \<le> unat (s_inodes_per_group ?sb)" using p by (simp add: less_imp_le)
  then have "inode_offset ?sb ino \<le> unat (s_inodes_per_group ?sb) * unat (EXT2_INODE_SIZE ?sb)"
    unfolding inode_offset_def by (rule mult_le_mono1)
  then have lt: "inode_offset ?sb ino < 2 ^ 32" using v(3) by linarith
  have "unat ((ino - 1) mod s_inodes_per_group ?sb) = (unat ino - 1) mod unat (s_inodes_per_group ?sb)"
    using v(1) by (simp add: unat_mod_distrib unat_minus_one)
  then have off: "unat ?off = inode_offset ?sb ino" using lt unfolding unat_word_ariths inode_offset_def by simp
  have "EXT2_BLOCK_SIZE ?sb = of_nat (unat (EXT2_BLOCK_SIZE ?sb))" by simp
  then have bw: "EXT2_BLOCK_SIZE ?sb = 2 ^ (10 + unat (s_log_block_size ?sb))" unfolding sz(2) by simp
  have block: "ucast (drop_bit (unat (s_log_block_size ?sb) + 10) ?off) = (of_nat (inode_offset ?sb ino div unat (EXT2_BLOCK_SIZE ?sb)) :: u64)"
  proof -
    have "inode_offset ?sb ino div unat (EXT2_BLOCK_SIZE ?sb) < 2 ^ 64"
      by (rule le_less_trans [OF div_le_dividend less_trans [OF lt]]) simp
    moreover have "unat (drop_bit (unat (s_log_block_size ?sb) + 10) ?off) = inode_offset ?sb ino div unat (EXT2_BLOCK_SIZE ?sb)"
    proof -
      have "drop_bit (unat (s_log_block_size ?sb) + 10) ?off = ?off div EXT2_BLOCK_SIZE ?sb" unfolding drop_bit_eq_div bw by (simp add: add.commute)
      then show ?thesis by (simp only: unat_div_distrib off)
    qed
    ultimately show ?thesis by (simp only: word_unat_eq_iff unat_of_nat unat_ucast_u64) simp
  qed
  have low: "unat (?off AND (EXT2_BLOCK_SIZE ?sb - 1)) = inode_offset ?sb ino mod unat (EXT2_BLOCK_SIZE ?sb)"
  proof -
    have "?off AND (EXT2_BLOCK_SIZE ?sb - 1) = take_bit (10 + unat (s_log_block_size ?sb)) ?off"
      unfolding bw by (simp add: take_bit_eq_mask mask_eq_exp_minus_1)
    then have "?off AND (EXT2_BLOCK_SIZE ?sb - 1) = ?off mod EXT2_BLOCK_SIZE ?sb" unfolding bw by (simp add: take_bit_eq_mod)
    then show ?thesis by (simp only: unat_mod_distrib off)
  qed
  have "s_inodes_per_group ?sb \<noteq> 0" "\<not> ?g > ef_group_desc_count fs" using p g by (auto simp: word_less_nat_alt)
  then show "inode_place fs ino = Inr (Inr (inode_block ?sb gd ino, inode_offset ?sb ino mod unat (EXT2_BLOCK_SIZE ?sb)), fs)"
    "inode_location fs ino = inode_place fs ino"
    using table_loc [OF ok g] v(4-6) ok block low
    by (simp_all add: inode_location_def inode_place_def Let_def inode_group_def inode_block_def fs_ok_def not_less not_le)
qed

section \<open>The cache of inodes\<close>

text \<open>The cache holds what the tables hold: the last block and, in the slots in use, whole inodes.\<close>

definition icache_ok :: "ext2_super_block \<Rightarrow> byte list \<Rightarrow> disk \<Rightarrow> ext2_inode_cache \<Rightarrow> bool" where
  "icache_ok sb gd D ic \<longleftrightarrow> length (ic_cache ic) = 4 \<and> - 1 \<le> ic_cache_last ic \<and>
     (ic_buffer_blk ic \<noteq> 0 \<longrightarrow> ic_buffer ic = D (ic_buffer_blk ic)) \<and>
     (\<forall>c \<in> set (ic_cache ic). length (ic_inode c) = unat (EXT2_INODE_SIZE sb) \<and> ic_ino c \<le> s_inodes_count sb \<and>
        (ic_ino c \<noteq> 0 \<longrightarrow> ic_inode c = inode_bytes sb gd D (ic_ino c))) \<and>
     distinct (filter (\<lambda>ino. ino \<noteq> 0) (map ic_ino (ic_cache ic)))"

definition icache_fs_ok :: "ext2fs \<Rightarrow> byte list \<Rightarrow> disk \<Rightarrow> bool" where
  "icache_fs_ok fs gd D \<longleftrightarrow> fs_ok fs gd D \<and> (case ef_icache fs of None \<Rightarrow> True | Some ic \<Rightarrow> icache_ok (ef_super fs) gd D ic)"

lemma cached_inode_ok:
  assumes "icache_ok sb gd D ic" "ino \<noteq> 0" "cached_inode (ic_cache ic) ino = Some nd"
  shows "nd = inode_bytes sb gd D ino"
proof -
  have "\<exists>c \<in> set cs. ic_ino c = ino \<and> ic_inode c = nd" if "cached_inode cs ino = Some nd" for cs
    using that by (induction cs) (auto split: if_split_asm)
  then show ?thesis using assms unfolding icache_ok_def by blast
qed

lemma create_icache_ok:
  assumes "icache_fs_ok fs gd D"
  obtains ic where "ef_icache (ext2fs_create_inode_cache fs 4) = Some ic" "icache_ok (ef_super fs) gd D ic"
    "ext2fs_create_inode_cache fs 4 = fs\<lparr>ef_icache := Some ic\<rparr>"
proof (cases "ef_icache fs")
  case None
  then show ?thesis
    by (intro that) (auto simp: ext2fs_create_inode_cache_def icache_ok_def ext2fs_flush_icache_def)
next
  case (Some ic)
  then show ?thesis using assms by (intro that [of ic]) (simp_all add: ext2fs_create_inode_cache_def icache_fs_ok_def)
qed

lemma length_inode_bytes:
  assumes "fs_ok fs gd D" "in_range (ef_io fs) (inode_block (ef_super fs) gd ino) 1"
  shows "length (inode_bytes (ef_super fs) gd D ino) = unat (EXT2_INODE_SIZE (ef_super fs))"
proof -
  have "length (D (inode_block (ef_super fs) gd ino)) = unat (EXT2_BLOCK_SIZE (ef_super fs))"
    using assms represents_block_length by (metis fs_ok_def)
  moreover have "sizes_ok (ef_super fs)" using assms(1) by (simp add: fs_ok_def)
  ultimately show ?thesis using inode_fits [of "ef_super fs" ino] by (simp add: inode_bytes_def)
qed

text \<open>One block is enough for an inode, and the buffer is current after it was read.\<close>

lemma copy_inode_spec:
  assumes ok: "fs_ok fs gd D" and there: "inode_there fs gd ino" and ic: "icache_ok (ef_super fs) gd D ic"
    and run: "copy_inode (unat (ef_blocksize fs)) (inode_block (ef_super fs) gd ino)
      (inode_offset (ef_super fs) ino mod unat (EXT2_BLOCK_SIZE (ef_super fs))) (unat (EXT2_INODE_SIZE (ef_super fs))) (ef_io fs) ic [] = (e, ch, ic', ptr)"
  shows "represents ch D" "like (ef_io fs) ch" "ic_cache ic' = ic_cache ic" "ic_cache_last ic' = ic_cache_last ic"
    "e = None \<Longrightarrow> ptr = inode_bytes (ef_super fs) gd D ino \<and> ic_buffer ic' = D (ic_buffer_blk ic')"
    "\<forall>l s. \<not> bd_rerr (ud_dev (ef_io fs)) l s \<Longrightarrow> e = None"
proof -
  let ?sb = "ef_super fs" and ?b = "inode_block (ef_super fs) gd ino" and ?bs = "unat (EXT2_BLOCK_SIZE (ef_super fs))"
  let ?o = "inode_offset (ef_super fs) ino mod unat (EXT2_BLOCK_SIZE (ef_super fs))" and ?i = "unat (EXT2_INODE_SIZE (ef_super fs))"
  have sz: "sizes_ok ?sb" "ef_blocksize fs = EXT2_BLOCK_SIZE ?sb" "represents (ef_io fs) D" "\<not> ud_nocache (ef_io fs)"
    "ch_block_size (ef_io fs) = ?bs" using ok by (simp_all add: fs_ok_def)
  have i: "?o + ?i \<le> ?bs" "0 < ?i" using inode_fits [OF sz(1), of ino] sz(1) by (simp_all add: sizes_ok_def)
  have r: "in_range (ef_io fs) ?b 1" "?b \<noteq> 0" using there by (simp_all add: inode_there_def Let_def)
  obtain e1 ch1 data where rd: "unix_read_blk64 (ef_io fs) True ?b 1 = (e1, ch1, data)" by (metis prod_cases3)
  have "represents ch1 D \<and> like (ef_io fs) ch1 \<and> (e1 = None \<longrightarrow> data = spec_read ?bs D ?b 1) \<and>
      ((\<forall>l s. \<not> bd_rerr (ud_dev (ef_io fs)) l s) \<longrightarrow> e1 = None)"
    using unix_read_spec [OF sz(3,4) _ rd] r(1) sz(5) by (simp add: read_blocks_def)
  then have read: "represents ch1 D" "like (ef_io fs) ch1" "e1 = None \<Longrightarrow> data = D ?b"
    "\<forall>l s. \<not> bd_rerr (ud_dev (ef_io fs)) l s \<Longrightarrow> e1 = None" by (simp_all add: spec_read_def)
  have c: "\<not> (?i = 0 \<or> ?bs \<le> ?o)" "(if ?o + ?i > ?bs then ?bs - ?o else ?i) = ?i" using i by auto
  have step: "copy_inode ?bs ?b ?o ?i (ef_io fs) ic [] =
      (if ?b = ic_buffer_blk ic then (None, ef_io fs, ic, take ?i (drop ?o (ic_buffer ic)))
       else if e1 \<noteq> None then (e1, ch1, ic\<lparr>ic_buffer := data\<rparr>, [])
       else (None, ch1, ic\<lparr>ic_buffer := data, ic_buffer_blk := ?b\<rparr>, take ?i (drop ?o data)))"
    by (subst copy_inode.simps, simp only: c rd Let_def split) (simp add: copy_inode.simps [of _ _ 0 0])
  have buf: "?b = ic_buffer_blk ic \<Longrightarrow> ic_buffer ic = D ?b" using ic r(2) by (simp add: icache_ok_def)
  have run': "(e, ch, ic', ptr) = copy_inode ?bs ?b ?o ?i (ef_io fs) ic []" using run sz(2) by simp
  note all = run' [unfolded step]
  show "represents ch D" "like (ef_io fs) ch" "ic_cache ic' = ic_cache ic" "ic_cache_last ic' = ic_cache_last ic"
    using all read(1,2) sz(3) by (auto split: if_split_asm)
  show "ptr = inode_bytes ?sb gd D ino \<and> ic_buffer ic' = D (ic_buffer_blk ic')" if "e = None"
    using all that read(3) buf by (auto simp: inode_bytes_def split: if_split_asm)
  show "e = None" if "\<forall>l s. \<not> bd_rerr (ud_dev (ef_io fs)) l s" using all read(4) [OF that] by (auto split: if_split_asm)
qed

section \<open>Reading\<close>

definition same_fs :: "ext2fs \<Rightarrow> ext2fs \<Rightarrow> bool" where
  "same_fs fs fs' \<longleftrightarrow>
     ef_super fs' = ef_super fs \<and> ef_flags fs' = ef_flags fs \<and> ef_blocksize fs' = ef_blocksize fs \<and>
     ef_cluster_ratio_bits fs' = ef_cluster_ratio_bits fs \<and> ef_inode_blocks_per_group fs' = ef_inode_blocks_per_group fs \<and>
     ef_group_desc_count fs' = ef_group_desc_count fs \<and> ef_desc_blocks fs' = ef_desc_blocks fs \<and>
     ef_group_desc fs' = ef_group_desc fs \<and> ef_csum_seed fs' = ef_csum_seed fs \<and> like (ef_io fs) (ef_io fs')"

lemma same_fs_there: "same_fs fs fs' \<Longrightarrow> inode_there fs' gd ino = inode_there fs gd ino"
  using like_geometry(3) [of "ef_io fs" "ef_io fs'"] by (simp add: same_fs_def inode_there_def)

lemma same_fs_refl: "same_fs fs fs"
  by (simp add: same_fs_def)

lemma same_fs_trans: "same_fs a b \<Longrightarrow> same_fs b c \<Longrightarrow> same_fs a c"
  by (auto simp: same_fs_def intro: like_trans)

lemma fs_ok_io:
  assumes "fs_ok fs gd D" "represents ch D" "like (ef_io fs) ch"
  shows "fs_ok (fs\<lparr>ef_io := ch, ef_icache := ic\<rparr>) gd D"
  using assms like_geometry [OF assms(3)] by (simp add: fs_ok_def)

lemma cached_inode_None: "cached_inode cs ino = None \<longleftrightarrow> ino \<notin> set (map ic_ino cs)"
  by (induction cs) auto

lemma distinct_update:
  assumes "distinct (filter P xs)" "v \<notin> set xs"
  shows "distinct (filter P (xs[i := v]))"
  using assms
proof (induction xs arbitrary: i)
  case (Cons x xs)
  show ?case
  proof (cases i)
    case (Suc k)
    then show ?thesis using Cons set_update_subset_insert [of xs k v] by (auto split: if_split_asm)
  qed (use Cons in \<open>auto split: if_split_asm\<close>)
qed simp

lemma icache_slot_ok:
  assumes "icache_ok sb gd D ic" "cached_inode (ic_cache ic) ino = None" "ino \<le> s_inodes_count sb" "length nd = unat (EXT2_INODE_SIZE sb)" "ic_buffer ic' = D (ic_buffer_blk ic')"
    "ic_cache ic' = (ic_cache ic)[slot := c\<lparr>ic_inode := nd, ic_ino := ino\<rparr>]" "nd = inode_bytes sb gd D ino" "- 1 \<le> ic_cache_last ic'"
  shows "icache_ok sb gd D ic'"
proof -
  have "map ic_ino (ic_cache ic') = (map ic_ino (ic_cache ic))[slot := ino]" using assms(6) by (simp add: map_update)
  then have "distinct (filter (\<lambda>ino. ino \<noteq> 0) (map ic_ino (ic_cache ic')))"
    using assms(1,2) distinct_update [of "\<lambda>ino. ino \<noteq> 0" "map ic_ino (ic_cache ic)" ino slot] by (simp add: icache_ok_def cached_inode_None)
  then show ?thesis using assms by (auto simp: icache_ok_def dest!: subsetD [OF set_update_subset_insert])
qed

text \<open>The slot that the next inode is read into, and the cache after it was read.\<close>

definition next_slot :: "ext2_inode_cache \<Rightarrow> nat" where
  "next_slot ic = nat ((ic_cache_last ic + 1) mod int (length (ic_cache ic)))"

definition slot_filled :: "ext2_inode_cache \<Rightarrow> ext2_inode_cache \<Rightarrow> bool \<Rightarrow> u32 \<Rightarrow> byte list \<Rightarrow> ext2_inode_cache" where
  "slot_filled ic ic1 verified ino nd =
     (let slot = next_slot ic; c = (ic_cache ic ! slot)\<lparr>ic_inode := nd\<rparr>
      in if verified then ic1\<lparr>ic_cache_last := int slot, ic_cache := (ic_cache ic)[slot := c\<lparr>ic_ino := ino\<rparr>]\<rparr>
         else ic1\<lparr>ic_cache := (ic_cache ic)[slot := c]\<rparr>)"

lemma read_inode_checks:
  assumes "fs_ok fs gd D" "ino \<noteq> 0" "ino \<le> s_inodes_count (ef_super fs)"
  shows "\<not> ext2fs_has_feature_journal_dev (ef_super fs)" "\<not> ef_blocksize fs < 1024" "\<not> (ino = 0 \<or> ino > s_inodes_count (ef_super fs))"
    "\<not> flag (ef_flags fs) EXT2_FLAG_IMAGE_FILE"
proof -
  have "2 ^ 10 \<le> unat (ef_blocksize fs)"
    using assms(1) power_increasing [of 10 "10 + unat (s_log_block_size (ef_super fs))" "2 :: nat"] by (simp add: fs_ok_def sizes_ok_def)
  then show "\<not> ext2fs_has_feature_journal_dev (ef_super fs)" "\<not> ef_blocksize fs < 1024" "\<not> (ino = 0 \<or> ino > s_inodes_count (ef_super fs))"
    "\<not> flag (ef_flags fs) EXT2_FLAG_IMAGE_FILE"
    using assms by (simp_all add: fs_ok_def word_less_nat_alt word_le_nat_alt)
qed

abbreviation csum_ok :: "ext2fs \<Rightarrow> u32 \<Rightarrow> byte list \<Rightarrow> bool" where
  "csum_ok fs \<equiv> ext2fs_inode_csum_verify (ef_super fs) (ef_csum_seed fs)"

lemma read_inode_hit:
  assumes ok: "fs_ok fs gd D" and ino: "ino \<noteq> 0" "ino \<le> s_inodes_count (ef_super fs)"
    and hit: "ef_icache (ext2fs_create_inode_cache fs 4) = Some ic" "cached_inode (ic_cache ic) ino = Some nd"
  shows "ext2fs_read_inode2 fs ino bufsize nocsum =
    Inr (None, take (min (unat (EXT2_INODE_SIZE (ef_super fs))) bufsize) nd, ext2fs_create_inode_cache fs 4)"
  using read_inode_checks [OF ok ino] hit by (simp add: ext2fs_read_inode2_def Let_def)

lemma read_inode_miss:
  assumes inv: "icache_fs_ok fs gd D" and there: "inode_there fs gd ino" and "\<forall>l s. \<not> bd_rerr (ud_dev (ef_io fs)) l s"
    and ic: "ext2fs_create_inode_cache fs 4 = fs\<lparr>ef_icache := Some ic\<rparr>" "icache_ok (ef_super fs) gd D ic" "cached_inode (ic_cache ic) ino = None"
  obtains ch ic1 where "ext2fs_read_inode2 fs ino bufsize nocsum =
      Inr (if \<not> flag (ef_flags fs) EXT2_FLAG_IGNORE_CSUM_ERRORS \<and> \<not> nocsum \<and> \<not> csum_ok fs ino (inode_bytes (ef_super fs) gd D ino)
           then Some EXT2_ET_INODE_CSUM_INVALID else None,
           take (min (unat (EXT2_INODE_SIZE (ef_super fs))) bufsize) (inode_bytes (ef_super fs) gd D ino),
           fs\<lparr>ef_io := ch, ef_icache := Some (slot_filled ic ic1 (csum_ok fs ino (inode_bytes (ef_super fs) gd D ino)) ino
             (inode_bytes (ef_super fs) gd D ino))\<rparr>)"
    "represents ch D" "like (ef_io fs) ch" "ic_buffer ic1 = D (ic_buffer_blk ic1)" "ic_cache_last ic1 = ic_cache_last ic"
proof -
  let ?sb = "ef_super fs" and ?i = "unat (EXT2_INODE_SIZE (ef_super fs))" and ?nd = "inode_bytes (ef_super fs) gd D ino"
  let ?fs0 = "fs\<lparr>ef_icache := Some ic\<rparr>"
  have ok: "fs_ok fs gd D" using inv by (simp add: icache_fs_ok_def)
  have ok0: "fs_ok ?fs0 gd D" using ok by (simp add: fs_ok_def)
  have there0: "inode_there ?fs0 gd ino" using there by (simp add: inode_there_def)
  have "ino \<noteq> 0" "ino \<le> s_inodes_count ?sb" using there by (simp_all add: inode_there_def Let_def)
  note pre = read_inode_checks [OF ok this]
  obtain e ch ic1 ptr where run: "copy_inode (unat (ef_blocksize fs)) (inode_block ?sb gd ino) (inode_offset ?sb ino mod unat (EXT2_BLOCK_SIZE ?sb))
      ?i (ef_io fs) ic [] = (e, ch, ic1, ptr)" by (metis prod_cases4)
  note cp = copy_inode_spec [OF ok0 there0, of ic, simplified, OF ic(2) run]
  have e: "e = None" by (rule cp(6)) (use assms(3) in simp)
  have ptr: "ptr = ?nd" "ic_buffer ic1 = D (ic_buffer_blk ic1)" using cp(5) [OF e] by simp_all
  have len: "length ?nd = ?i" by (rule length_inode_bytes [OF ok]) (use there in \<open>simp add: inode_there_def Let_def\<close>)
  have "length (ic_cache ic) = 4" using ic(2) by (simp add: icache_ok_def)
  then have slot: "next_slot ic < length (ic_cache ic)" by (simp add: next_slot_def nat_less_iff)
  then have old: "length (ic_inode (ic_cache ic ! next_slot ic)) = ?i" using ic(2) by (simp add: icache_ok_def)
  show ?thesis
    by (rule that [of ic1 ch])
      (use pre ic location [OF ok0 there0] run e ptr len old slot cp in
        \<open>auto simp: ext2fs_read_inode2_def Let_def slot_filled_def next_slot_def [symmetric]\<close>)
qed

lemma read_inode_spec:
  assumes inv: "icache_fs_ok fs gd D" and there: "inode_there fs gd ino" and dev: "\<forall>l s. \<not> bd_rerr (ud_dev (ef_io fs)) l s"
    and csum: "csum_ok fs ino (inode_bytes (ef_super fs) gd D ino) \<or> flag (ef_flags fs) EXT2_FLAG_IGNORE_CSUM_ERRORS \<or> nocsum"
  obtains fs' where "ext2fs_read_inode2 fs ino bufsize nocsum =
      Inr (None, take (min (unat (EXT2_INODE_SIZE (ef_super fs))) bufsize) (inode_bytes (ef_super fs) gd D ino), fs')" "same_fs fs fs'"
    "csum_ok fs ino (inode_bytes (ef_super fs) gd D ino) \<Longrightarrow> icache_fs_ok fs' gd D"
proof -
  let ?sb = "ef_super fs" and ?nd = "inode_bytes (ef_super fs) gd D ino"
  have ok: "fs_ok fs gd D" using inv by (simp add: icache_fs_ok_def)
  obtain ic where ic: "ef_icache (ext2fs_create_inode_cache fs 4) = Some ic" "icache_ok ?sb gd D ic"
    "ext2fs_create_inode_cache fs 4 = fs\<lparr>ef_icache := Some ic\<rparr>" by (rule create_icache_ok [OF inv])
  have ino: "ino \<noteq> 0" "ino \<le> s_inodes_count ?sb" using there by (simp_all add: inode_there_def Let_def)
  show ?thesis
  proof (cases "cached_inode (ic_cache ic) ino")
    case (Some nd)
    then have "nd = ?nd" using cached_inode_ok [OF ic(2) ino(1)] by simp
    then show ?thesis using read_inode_hit [OF ok ino ic(1) Some, of bufsize nocsum] ok ic(2,3)
      by (intro that) (auto simp: same_fs_def icache_fs_ok_def fs_ok_def)
  next
    case None
    obtain ch ic1 where r: "ext2fs_read_inode2 fs ino bufsize nocsum =
        Inr (if \<not> flag (ef_flags fs) EXT2_FLAG_IGNORE_CSUM_ERRORS \<and> \<not> nocsum \<and> \<not> csum_ok fs ino ?nd then Some EXT2_ET_INODE_CSUM_INVALID else None,
             take (min (unat (EXT2_INODE_SIZE ?sb)) bufsize) ?nd,
             fs\<lparr>ef_io := ch, ef_icache := Some (slot_filled ic ic1 (csum_ok fs ino ?nd) ino ?nd)\<rparr>)"
      "represents ch D" "like (ef_io fs) ch" "ic_buffer ic1 = D (ic_buffer_blk ic1)"
      by (rule read_inode_miss [OF inv there dev ic(3,2) None])
    have len: "length ?nd = unat (EXT2_INODE_SIZE ?sb)"
      by (rule length_inode_bytes [OF ok]) (use there in \<open>simp add: inode_there_def Let_def\<close>)
    have "icache_ok ?sb gd D (slot_filled ic ic1 True ino ?nd)"
      by (rule icache_slot_ok [OF ic(2) None ino(2) len, where slot = "next_slot ic"]) (use r(4) in \<open>simp_all add: slot_filled_def Let_def\<close>)
    then show ?thesis using r csum fs_ok_io [OF ok r(2,3)] by (intro that) (auto simp: same_fs_def icache_fs_ok_def)
  qed
qed

text \<open>A sequence of reads, as the program makes them.\<close>

fun read_inodes :: "ext2fs \<Rightarrow> nat \<Rightarrow> u32 list \<Rightarrow> ((errcode_t \<times> byte list) list \<times> ext2fs) res" where
  "read_inodes fs bufsize [] = Inr ([], fs)"
| "read_inodes fs bufsize (ino # inos) =
     and_then (ext2fs_read_inode2 fs ino bufsize False) (\<lambda>(e, buf, fs1).
       and_then (read_inodes fs1 bufsize inos) (\<lambda>(rs, fs2). Inr ((e, buf) # rs, fs2)))"

lemma read_inodes_spec:
  assumes "icache_fs_ok fs gd D" "\<forall>l s. \<not> bd_rerr (ud_dev (ef_io fs)) l s"
    "\<forall>ino \<in> set inos. inode_there fs gd ino \<and> csum_ok fs ino (inode_bytes (ef_super fs) gd D ino)"
  shows "\<exists>fs'. read_inodes fs bufsize inos =
    Inr (map (\<lambda>ino. (None, take (min (unat (EXT2_INODE_SIZE (ef_super fs))) bufsize) (inode_bytes (ef_super fs) gd D ino))) inos, fs') \<and>
    same_fs fs fs' \<and> icache_fs_ok fs' gd D"
  using assms
proof (induction inos arbitrary: fs)
  case Nil
  then show ?case by (simp add: same_fs_refl)
next
  case (Cons ino inos)
  let ?nd = "\<lambda>ino. take (min (unat (EXT2_INODE_SIZE (ef_super fs))) bufsize) (inode_bytes (ef_super fs) gd D ino)"
  obtain fs1 where r: "ext2fs_read_inode2 fs ino bufsize False = Inr (None, ?nd ino, fs1)" "same_fs fs fs1" "icache_fs_ok fs1 gd D"
    using read_inode_spec [OF Cons(2) _ Cons(3), of ino False bufsize] Cons(4) by auto
  have super: "ef_super fs1 = ef_super fs" "ef_csum_seed fs1 = ef_csum_seed fs" and l: "like (ef_io fs) (ef_io fs1)" using r(2) by (simp_all add: same_fs_def)
  have "\<exists>fs'. read_inodes fs1 bufsize inos = Inr (map (\<lambda>ino. (None, ?nd ino)) inos, fs') \<and> same_fs fs1 fs' \<and> icache_fs_ok fs' gd D"
    using Cons(1) [OF r(3)] Cons(3,4) like_geometry(6) [OF l] same_fs_there [OF r(2)] super by simp
  then show ?case using r(1) same_fs_trans [OF r(2)] by auto
qed

end
