(* ===== verification/Open_Read.thy ===== *)
theory Open_Read
  imports Inode_Read
begin

text \<open>
  Opening a file system: from the bytes of a device with a superblock that passes the checks,
  \<open>ext2fs_open2\<close> gives a file system in order, whose channel stands for the blocks of the device.
\<close>

unbundle bit_operations_syntax

section \<open>Channels with an empty cache\<close>

definition idle :: "blkdev \<Rightarrow> nat \<Rightarrow> io_channel \<Rightarrow> bool" where
  "idle dev bs ch \<longleftrightarrow>
     ud_dev ch = dev \<and> ch_block_size ch = bs \<and> ud_offset ch = 0 \<and> \<not> ud_nocache ch \<and> \<not> ch_writethrough ch \<and> \<not> bounces ch \<and>
     length (ud_cache ch) = CACHE_SIZE \<and> (\<forall>c \<in> set (ud_cache ch). \<not> uc_in_use c)"

lemma idle_open: "idle dev 1024 (unix_open_channel False 0 dev)"
  by (simp add: idle_def unix_open_channel_def bounces_def empty_cache_def)

lemma idle_represents:
  assumes "idle dev bs ch" "0 < bs" "length (bd_bytes dev) < 2 ^ 63"
  shows "represents ch (byte_block (bd_bytes dev) bs)"
proof -
  have unused: "\<not> uc_in_use (ud_cache ch ! i)" if "i < CACHE_SIZE" for i using that assms(1) by (simp add: idle_def)
  have "dev_block ch b = byte_block (bd_bytes dev) bs b" for b using dev_block_bytes [of ch b] assms(1) by (simp add: idle_def)
  then show ?thesis using assms unused
    by (auto simp: represents_def idle_def chan_ok_def holds_def byte_block_def in_range_def dev_pos_def)
qed

lemma idle_flush: "idle dev bs ch \<Longrightarrow> flush_cached_blocks ch invalidate = (None, ch)"
proof -
  assume c: "idle dev bs ch"
  have "fold (flush_entry invalidate) [0..<n] (None, ch) = (None, ch)" if "n \<le> CACHE_SIZE" for n
    using that c by (induction n) (auto simp: flush_entry_def idle_def)
  then show ?thesis using c by (simp add: flush_cached_blocks_def idle_def)
qed

lemma idle_raw_read:
  assumes idle: "idle dev bs ch" and "0 < bs" "length (bd_bytes dev) < 2 ^ 63" "\<forall>l s. \<not> bd_rerr dev l s"
    and "unat b * bs + n \<le> length (bd_bytes dev)" "0 < n"
  obtains ch' where "unix_read_blk64 ch True b (- int n) = (None, ch', take n (drop (unat b * bs) (bd_bytes dev)))" "idle dev bs ch'"
proof -
  have ok: "chan_ok ch" using represents_chan_ok [OF idle_represents [OF idle assms(2,3)]] .
  have sz: "req_size ch (- int n) = n" using assms(6) by (simp add: req_size_def)
  have pos: "dev_pos ch b = unat b * bs" using idle by (simp add: dev_pos_def idle_def)
  obtain e ch' data where rd: "raw_read_blk ch True b (- int n) = (e, ch', data)" by (metis prod_cases3)
  have fits: "dev_pos ch b + req_size ch (- int n) \<le> length (bd_bytes (ud_dev ch))" "0 < req_size ch (- int n)"
    using sz pos assms(5,6) idle by (simp_all add: idle_def)
  note raw = raw_read_spec [OF ok fits rd]
  have "e = None" using raw(4) assms(4) idle by (simp add: idle_def)
  then have "raw_read_blk ch True b (- int n) = (None, ch', take n (drop (unat b * bs) (bd_bytes dev)))"
    using rd raw(3) sz pos idle by (simp add: idle_def)
  then have "unix_read_blk64 ch True b (- int n) = (None, ch', take n (drop (unat b * bs) (bd_bytes dev)))"
    using idle assms(6) idle_flush [OF idle] by (simp add: unix_read_blk64_def idle_def)
  moreover have "idle dev bs ch'" using raw(1,2) idle by (simp add: idle_def same_but_counters_def)
  ultimately show ?thesis by (rule that)
qed

lemma idle_set_blksize:
  assumes "idle dev bs ch"
  obtains ch' where "unix_set_blksize ch bs' = (None, ch')" "idle dev bs' ch'"
proof (cases "bs = bs'")
  case True
  then show ?thesis using assms by (intro that [of ch]) (simp_all add: unix_set_blksize_def idle_def)
next
  case False
  then show ?thesis using assms idle_flush [OF assms, of False]
    by (intro that [of "alloc_cache (ch\<lparr>ch_block_size := bs'\<rparr>)"])
      (auto simp: unix_set_blksize_def idle_def alloc_cache_def empty_cache_def bounces_def)
qed

section \<open>The superblock\<close>

definition plain_flags :: "u32 \<Rightarrow> bool" where
  "plain_flags flags \<longleftrightarrow>
     \<not> flag flags EXT2_FLAG_DIRECT_IO \<and> \<not> flag flags EXT2_FLAG_IMAGE_FILE \<and> \<not> flag flags EXT2_FLAG_SWAP_BYTES \<and>
     \<not> flag flags EXT2_FLAG_SUPER_ONLY \<and> \<not> flag flags (EXT2_FLAG_RW OR EXT2_FLAG_EXCLUSIVE) \<and> \<not> flag flags EXT2_FLAG_SHARE_DUP \<and>
     \<not> flag flags EXT2_FLAG_IGNORE_SB_ERRORS"

definition super_bytes :: "byte list \<Rightarrow> byte list" where
  "super_bytes xs = take 1024 (drop 1024 xs)"

lemma read_super_idle:
  assumes "idle dev 1024 ch" "2048 \<le> length (bd_bytes dev)" "length (bd_bytes dev) < 2 ^ 63" "\<forall>l s. \<not> bd_rerr dev l s"
    and "flag flags EXT2_FLAG_IGNORE_CSUM_ERRORS \<or> ext2fs_verify_csum_type (super_bytes (bd_bytes dev)) \<and> ext2fs_superblock_csum_verify (super_bytes (bd_bytes dev))"
  obtains ch' where "read_super flags 1 retries ch = Inr (None, ch', super_bytes (bd_bytes dev))" "idle dev 1024 ch'"
proof -
  obtain ch' where "unix_read_blk64 ch True 1 (- int 1024) = (None, ch', take 1024 (drop (unat (1 :: u64) * 1024) (bd_bytes dev)))" "idle dev 1024 ch'"
    by (rule idle_raw_read [OF assms(1) _ assms(3,4), of 1 1024]) (use assms(2) in auto)
  then show ?thesis using assms(5)
    by (intro that [of ch']) (auto simp: read_super.simps [of _ _ retries] SUPERBLOCK_SIZE_def super_bytes_def)
qed

section \<open>The descriptors\<close>

text \<open>The first block of descriptors, on a file system without meta block groups.\<close>

definition desc_start :: "ext2_super_block \<Rightarrow> u64" where
  "desc_start sb = (if s_first_data_block sb = 0 \<and> EXT2_BLOCK_SIZE sb = 1024 then 2 else ucast (s_first_data_block sb) + 1)"

definition desc_bytes :: "ext2_super_block \<Rightarrow> u32 \<Rightarrow> byte list \<Rightarrow> byte list" where
  "desc_bytes sb desc_blocks xs =
     take (unat desc_blocks * unat (EXT2_BLOCK_SIZE sb)) (drop (unat (desc_start sb) * unat (EXT2_BLOCK_SIZE sb)) xs)"

lemma disk_read_bytes:
  assumes "represents ch (byte_block xs bs)" "idle dev bs ch" "bd_bytes dev = xs" "in_range ch b n"
  shows "disk_read (byte_block xs bs) b n = take (n * bs) (drop (unat b * bs) xs)"
proof -
  have "dev_block ch = byte_block xs bs" using assms(2,3) dev_block_bytes [of ch] by (auto simp: idle_def)
  then show ?thesis using dev_read_blocks [OF represents_chan_ok [OF assms(1)] assms(4)] assms(2,3) by (simp add: idle_def dev_pos_def)
qed

lemma read_group_desc_idle:
  assumes idle: "idle dev (unat (EXT2_BLOCK_SIZE (ef_super fs))) (ef_io fs)" and sz: "sizes_ok (ef_super fs)"
    and fs: "ef_blocksize fs = EXT2_BLOCK_SIZE (ef_super fs)" "\<not> ext2fs_has_feature_meta_bg (ef_super fs)"
    and db: "0 < unat (ef_desc_blocks fs)" "unat (ef_desc_blocks fs) < 2 ^ 31"
    and dev: "length (bd_bytes dev) < 2 ^ 63" "\<forall>l s. \<not> bd_rerr dev l s"
      "(unat (desc_start (ef_super fs)) + unat (ef_desc_blocks fs)) * unat (EXT2_BLOCK_SIZE (ef_super fs)) \<le> length (bd_bytes dev)"
  obtains ch where "read_group_desc fs 0 = Inr (None, ch, desc_bytes (ef_super fs) (ef_desc_blocks fs) (bd_bytes dev))"
    "represents ch (byte_block (bd_bytes dev) (unat (EXT2_BLOCK_SIZE (ef_super fs))))" "like (ef_io fs) ch"
proof -
  let ?sb = "ef_super fs" and ?bs = "unat (EXT2_BLOCK_SIZE (ef_super fs))" and ?n = "unat (ef_desc_blocks fs)"
  let ?D = "byte_block (bd_bytes dev) ?bs"
  have rep: "represents (ef_io fs) ?D" by (rule idle_represents [OF idle _ dev(1)]) (use sz in \<open>simp add: sizes_ok_def\<close>)
  have rng: "in_range (ef_io fs) (desc_start ?sb) ?n" using dev(3) idle by (simp add: in_range_def dev_pos_def idle_def algebra_simps)
  have cnt: "sint (ef_desc_blocks fs) = int ?n"
  proof -
    have "uint (ef_desc_blocks fs) < 2 ^ 31" using db(2) by (metis of_nat_less_iff of_nat_numeral of_nat_power uint_nat)
    moreover have "0 \<le> uint (ef_desc_blocks fs)" by simp
    ultimately have "signed_take_bit 31 (uint (ef_desc_blocks fs)) = uint (ef_desc_blocks fs)"
      by (intro signed_take_bit_int_eq_self) linarith+
    then show ?thesis unfolding sint_uint by simp
  qed
  obtain e ch out where rd: "unix_read_blk64 (ef_io fs) True (desc_start ?sb) (int ?n) = (e, ch, out)" by (metis prod_cases3)
  have c: "\<not> ud_nocache (ef_io fs)" "in_range (ef_io fs) (desc_start ?sb) (read_blocks (ch_block_size (ef_io fs)) (int ?n))"
    using idle rng by (simp_all add: idle_def read_blocks_def)
  have r: "represents ch ?D" "like (ef_io fs) ch" "e = None" "out = disk_read ?D (desc_start ?sb) ?n"
    using unix_read_spec [OF rep c rd] dev(2) idle by (simp_all add: idle_def spec_read_def)
  have out: "out = desc_bytes ?sb (ef_desc_blocks fs) (bd_bytes dev)"
    using r(4) disk_read_bytes [OF rep idle refl rng] by (simp add: desc_bytes_def)
  have start: "(if (0 :: u64) = 0 then ucast (s_first_data_block ?sb) else 0) + of_bool (ucast (s_first_data_block ?sb) = (0 :: u64) \<and> EXT2_BLOCK_SIZE ?sb = 1024) + 1 =
      desc_start ?sb"
    by (simp add: desc_start_def)
  have "ef_desc_blocks fs \<noteq> 0" using db(1) by auto
  then have "read_group_desc fs 0 = Inr (None, ch, out)"
    using rd r(3) cnt fs start by (simp add: read_group_desc_def Let_def)
  then show ?thesis using r out by (intro that) simp_all
qed

section \<open>Opening\<close>

text \<open>A device with a file system that the library accepts and without meta block groups, all of whose descriptors it holds.\<close>

definition image_ok :: "u32 \<Rightarrow> byte list \<Rightarrow> u32 \<Rightarrow> u32 \<Rightarrow> bool" where
  "image_ok flags xs groups desc_blocks \<longleftrightarrow>
     (let sb = super_of (super_bytes xs)
      in 2048 \<le> length xs \<and> length xs < 2 ^ 63 \<and> s_magic sb = EXT2_SUPER_MAGIC \<and> check_super flags 0 sb = None \<and>
         check_groups flags sb = Inr (Inr (groups, desc_blocks)) \<and> \<not> ext2fs_has_feature_journal_dev sb \<and> \<not> ext2fs_has_feature_meta_bg sb \<and>
         unat desc_blocks < 2 ^ 31 \<and> unat groups * unat (EXT2_DESC_SIZE sb) < 2 ^ 32 \<and>
         (unat (desc_start sb) + unat desc_blocks) * unat (EXT2_BLOCK_SIZE sb) \<le> length xs)"

lemma opened:
  assumes name: "open1 name = Some dev" "CHR ''?'' \<notin> set name" and flags: "plain_flags flags"
    and img: "image_ok flags (bd_bytes dev) groups desc_blocks" and dev: "\<forall>l s. \<not> bd_rerr dev l s"
    and csum: "flag flags EXT2_FLAG_IGNORE_CSUM_ERRORS \<or> ext2fs_verify_csum_type (super_bytes (bd_bytes dev)) \<and> ext2fs_superblock_csum_verify (super_bytes (bd_bytes dev))"
  defines "sb \<equiv> super_of (super_bytes (bd_bytes dev))"
  obtains fs where "ext2fs_open2 open1 False dio name None flags 0 0 = Inr (Inr fs)"
    "icache_fs_ok fs (desc_bytes sb desc_blocks (bd_bytes dev)) (byte_block (bd_bytes dev) (unat (EXT2_BLOCK_SIZE sb)))"
    "ef_super fs = sb" "ef_flags fs = flags" "bd_rerr (ud_dev (ef_io fs)) = bd_rerr dev"
    "\<And>b n. in_range (ef_io fs) b n \<longleftrightarrow> (unat b + n) * unat (EXT2_BLOCK_SIZE sb) \<le> length (bd_bytes dev)"
    "write_ok (ef_io fs) \<longleftrightarrow> (\<forall>l s. \<not> bd_werr dev l s)" "\<not> ch_writethrough (ef_io fs)"
proof -
  let ?xs = "bd_bytes dev" and ?bs = "unat (EXT2_BLOCK_SIZE sb)"
  have i: "2048 \<le> length ?xs" "length ?xs < 2 ^ 63" "s_magic sb = EXT2_SUPER_MAGIC" "check_super flags 0 sb = None"
    "check_groups flags sb = Inr (Inr (groups, desc_blocks))" "\<not> ext2fs_has_feature_journal_dev sb" "\<not> ext2fs_has_feature_meta_bg sb"
    "unat desc_blocks < 2 ^ 31" "unat groups * unat (EXT2_DESC_SIZE sb) < 2 ^ 32" "(unat (desc_start sb) + unat desc_blocks) * ?bs \<le> length ?xs"
    using img by (simp_all add: image_ok_def sb_def Let_def)
  have nf: "\<not> flag flags EXT2_FLAG_IGNORE_SB_ERRORS" using flags by (simp add: plain_flags_def)
  have "check_sizes flags 0 sb = None" using i(4) by (auto simp: check_super_def split: if_split_asm option.splits)
  then have sz: "sizes_ok sb" using nf by (rule check_sizes_ok)
  have gr: "groups_ok sb groups desc_blocks" by (rule check_groups_ok [OF sz nf i(5)])
  have "0 < unat groups * unat (EXT2_DESC_SIZE sb)" using gr sz by (simp add: groups_ok_def sizes_ok_def)
  moreover have "unat groups * unat (EXT2_DESC_SIZE sb) \<le> unat desc_blocks * ?bs" using gr by (simp add: groups_ok_def)
  ultimately have "0 < unat desc_blocks * ?bs" by linarith
  then have db: "0 < unat desc_blocks" by simp
  obtain ch1 where ch1: "read_super flags 1 3 (unix_open_channel False 0 dev) = Inr (None, ch1, super_bytes ?xs)" "idle dev 1024 ch1"
    by (rule read_super_idle [of dev "unix_open_channel False 0 dev" flags 3, OF idle_open i(1,2) dev csum])
  obtain ch2 where ch2: "unix_set_blksize ch1 ?bs = (None, ch2)" "idle dev ?bs ch2" by (rule idle_set_blksize [OF ch1(2)])
  define fs1 where "fs1 = \<lparr>ef_super = sb, ef_flags = flags, ef_blocksize = EXT2_BLOCK_SIZE sb,
      ef_cluster_ratio_bits = unat (s_log_cluster_size sb - s_log_block_size sb), ef_inode_blocks_per_group = inode_blocks_per_group sb,
      ef_group_desc_count = groups, ef_desc_blocks = desc_blocks, ef_group_desc = None, ef_csum_seed = ext2fs_init_csum_seed sb, ef_io = ch2, ef_icache = None\<rparr>"
  obtain ch3 where ch3: "read_group_desc fs1 0 = Inr (None, ch3, desc_bytes sb desc_blocks ?xs)" "represents ch3 (byte_block ?xs ?bs)" "like ch2 ch3"
    using read_group_desc_idle [of dev fs1] ch2(2) sz i(2,7,8,10) db dev by (auto simp: fs1_def)
  let ?fs = "fs1\<lparr>ef_io := ch3, ef_group_desc := Some (desc_bytes sb desc_blocks ?xs)\<rparr>"
  have "ext2fs_open2 open1 False dio name None flags 0 0 = Inr (Inr ?fs)"
  proof -
    have "unix_set_blksize (unix_open_channel False 0 dev) SUPERBLOCK_OFFSET = (None, unix_open_channel False 0 dev)"
      by (simp add: unix_set_blksize_def unix_open_channel_def SUPERBLOCK_OFFSET_def)
    moreover have "open_super flags 1 0 0 ch1 sb = Inr (Inr ?fs)"
      using flags i(4-6) ch2(1) ch3(1) by (simp add: open_super_def Let_def plain_flags_def fs1_def)
    ultimately show ?thesis
      using name flags ch1(1) i(3)
      by (simp add: ext2fs_open2_def cut_at_none io_channel_set_options_def unix_open_def plain_flags_def Let_def sb_def)
  qed
  moreover have "length (desc_bytes sb desc_blocks ?xs) = unat desc_blocks * ?bs"
    using i(10) by (simp add: desc_bytes_def algebra_simps)
  moreover have "like ch2 ch3" by (rule ch3(3))
  ultimately show ?thesis using sz gr i flags ch3(2) ch2(2) like_geometry [OF ch3(3)]
    by (intro that [of ?fs]) (auto simp: icache_fs_ok_def fs_ok_def fs1_def plain_flags_def idle_def in_range_def dev_pos_def algebra_simps write_ok_def)
qed

section \<open>Superblocks with a bad checksum\<close>

lemma read_super_bad:
  assumes "idle dev 1024 ch" "2048 \<le> length (bd_bytes dev)" "length (bd_bytes dev) < 2 ^ 63" "\<forall>l s. \<not> bd_rerr dev l s"
    and "\<not> flag flags EXT2_FLAG_IGNORE_CSUM_ERRORS" "\<not> ext2fs_superblock_csum_verify (super_bytes (bd_bytes dev))"
  shows "\<exists>ch'. read_super flags 1 retries ch = Inr (Some EXT2_ET_SB_CSUM_INVALID, ch', super_bytes (bd_bytes dev))"
  using assms(1)
proof (induction retries arbitrary: ch)
  case 0
  obtain ch' where "unix_read_blk64 ch True 1 (- int 1024) = (None, ch', take 1024 (drop (unat (1 :: u64) * 1024) (bd_bytes dev)))" "idle dev 1024 ch'"
    by (rule idle_raw_read [OF 0 _ assms(3,4), of 1 1024]) (use assms(2) in auto)
  then show ?case using assms(5,6) by (simp add: read_super.simps [of _ _ 0] SUPERBLOCK_SIZE_def super_bytes_def)
next
  case (Suc n)
  obtain ch' where "unix_read_blk64 ch True 1 (- int 1024) = (None, ch', take 1024 (drop (unat (1 :: u64) * 1024) (bd_bytes dev)))" "idle dev 1024 ch'"
    by (rule idle_raw_read [OF Suc(2) _ assms(3,4), of 1 1024]) (use assms(2) in auto)
  then show ?case using assms(5,6) Suc(1) by (simp add: read_super.simps [of _ _ "Suc n"] SUPERBLOCK_SIZE_def super_bytes_def)
qed

lemma open_bad_csum:
  assumes name: "open1 name = Some dev" "CHR ''?'' \<notin> set name" and flags: "plain_flags flags" "\<not> flag flags EXT2_FLAG_IGNORE_CSUM_ERRORS"
    and dev: "2048 \<le> length (bd_bytes dev)" "length (bd_bytes dev) < 2 ^ 63" "\<forall>l s. \<not> bd_rerr dev l s"
    and bad: "\<not> ext2fs_superblock_csum_verify (super_bytes (bd_bytes dev))"
  shows "ext2fs_open2 open1 False dio name None flags 0 0 =
    Inr (Inl (if s_magic (super_of (super_bytes (bd_bytes dev))) = EXT2_SUPER_MAGIC then EXT2_ET_SB_CSUM_INVALID else EXT2_ET_BAD_MAGIC))"
proof -
  obtain ch where "read_super flags 1 3 (unix_open_channel False 0 dev) = Inr (Some EXT2_ET_SB_CSUM_INVALID, ch, super_bytes (bd_bytes dev))"
    using read_super_bad [OF idle_open dev flags(2) bad] by blast
  moreover have "unix_set_blksize (unix_open_channel False 0 dev) SUPERBLOCK_OFFSET = (None, unix_open_channel False 0 dev)"
    by (simp add: unix_set_blksize_def unix_open_channel_def SUPERBLOCK_OFFSET_def)
  ultimately show ?thesis
    using name flags(1) by (simp add: ext2fs_open2_def cut_at_none io_channel_set_options_def unix_open_def plain_flags_def Let_def)
qed

text \<open>
  C18: a device whose superblock differs from one with a valid checksum in up to four neighbouring bytes
  before the checksum, and still asks for checksums, is not opened unless the caller ignores checksums:
  after four reads the library gives up with \<open>EXT2_ET_SB_CSUM_INVALID\<close>, or with \<open>EXT2_ET_BAD_MAGIC\<close> when
  the bytes are those of the magic number.
\<close>

theorem corrupted_superblock_refused:
  assumes "open1 name = Some dev" "CHR ''?'' \<notin> set name" "plain_flags flags" "\<not> flag flags EXT2_FLAG_IGNORE_CSUM_ERRORS"
    and "2048 \<le> length (bd_bytes dev)" "length (bd_bytes dev) < 2 ^ 63" "\<forall>l s. \<not> bd_rerr dev l s"
    and good: "ext2fs_superblock_csum_verify (a @ mid @ b)" "ext2fs_has_feature_metadata_csum (super_of (a @ mid @ b))" "length (a @ mid @ b) = 1024"
    and bad: "super_bytes (bd_bytes dev) = a @ mid' @ b" "ext2fs_has_feature_metadata_csum (super_of (a @ mid' @ b))"
    and change: "length mid' = length mid" "length mid \<le> 4" "mid' \<noteq> mid" "length a + length mid \<le> 0x3fc"
  shows "ext2fs_open2 open1 False dio name None flags 0 0 =
    Inr (Inl (if s_magic (super_of (a @ mid' @ b)) = EXT2_SUPER_MAGIC then EXT2_ET_SB_CSUM_INVALID else EXT2_ET_BAD_MAGIC))"
proof -
  have "\<not> ext2fs_superblock_csum_verify (super_bytes (bd_bytes dev))"
    unfolding bad(1) by (rule superblock_change_detected [OF good(3) change good(1,2) bad(2)])
  then show ?thesis using open_bad_csum [where ?open1.0 = open1 and name = name and dev = dev and dio = dio, OF assms(1-7)] bad(1) by simp
qed

text \<open>The first byte of the superblock changed from 0 to 1.\<close>

definition damaged_sb :: "byte list" where
  "damaged_sb = 1 # tl (ext2fs_superblock_csum_set csum_sb)"

definition damaged_dev :: blkdev where
  "damaged_dev = \<lparr>bd_bytes = replicate 1024 0 @ damaged_sb, bd_rerr = (\<lambda>l s. False), bd_werr = (\<lambda>l s. True), bd_fsync = False\<rparr>"

theorem corrupted_superblock_refused_witness:
  "ext2fs_open2 (\<lambda>_. Some damaged_dev) False 0 ''sda1'' None 0 0 0 = Inr (Inl EXT2_ET_SB_CSUM_INVALID)"
proof -
  let ?sb = "ext2fs_superblock_csum_set csum_sb"
  have put: "?sb = put_le 4 0x3fc (ext2fs_superblock_csum csum_sb) csum_sb" using csum_sb by (simp add: ext2fs_superblock_csum_set_def)
  have len: "length ?sb = 1024" and super: "super_of ?sb = super_of csum_sb" using csum_sb by (simp_all add: put super_of_sealed)
  have good: "ext2fs_superblock_csum_verify ?sb"
    using super_seal.sealed_verifies [OF csum_sb(1)] by (simp add: ext2fs_superblock_csum_verify_def le32_at_def flip: put)
  obtain t where t: "csum_sb = 0 # t" by (simp add: csum_sb_def numeral_eq_Suc)
  have hd: "?sb = [] @ [0] @ tl ?sb" unfolding put put_le_def unfolding t by simp
  have tl: "le32_at (1 # tl ?sb) n = le32_at ?sb n" "le16_at (1 # tl ?sb) n = le16_at ?sb n" if "0 < n" for n
    using that by (cases n; simp add: le32_at_def le16_at_def drop_Suc)+
  have feature: "ext2fs_has_feature_metadata_csum (super_of (1 # tl ?sb))" "s_magic (super_of (1 # tl ?sb)) = EXT2_SUPER_MAGIC"
    using csum_sb super by (simp_all add: ext2fs_has_feature_metadata_csum_def super_of_def tl)
  have "ext2fs_open2 (\<lambda>_. Some damaged_dev) False 0 ''sda1'' None 0 0 0 =
      Inr (Inl (if s_magic (super_of ([] @ [1] @ tl ?sb)) = EXT2_SUPER_MAGIC then EXT2_ET_SB_CSUM_INVALID else EXT2_ET_BAD_MAGIC))"
  proof (rule corrupted_superblock_refused [where dev = damaged_dev and mid = "[0]"])
    show "ext2fs_superblock_csum_verify ([] @ [0] @ tl ?sb)" "ext2fs_has_feature_metadata_csum (super_of ([] @ [0] @ tl ?sb))"
      "length ([] @ [0] @ tl ?sb) = 1024"
      using good super csum_sb(2) len unfolding hd [symmetric] by simp_all
    show "super_bytes (bd_bytes damaged_dev) = [] @ [1] @ tl ?sb" "2048 \<le> length (bd_bytes damaged_dev)" "length (bd_bytes damaged_dev) < 2 ^ 63"
      using len by (simp_all add: super_bytes_def damaged_dev_def damaged_sb_def)
  qed (simp_all add: feature plain_flags_def flag_def damaged_dev_def)
  then show ?thesis by (simp add: feature)
qed

end
