(* ===== verification/Csum_Blocks.thy ===== *)
theory Csum_Blocks
  imports Inode
begin

text \<open>
  The rest of \<^verbatim>\<open>src/e2fsprogs/lib/ext2fs/csum.c\<close>: checksums of extent blocks, directory blocks with a tail, index blocks of
  hashed directories, blocks of extended attributes, the block of multi-mount protection, bitmaps and group descriptors. The checksums
  of blocks that belong to an inode begin with its number and generation, which is read through
  the inode cache, so these functions return the file system. The buffer of a block has the size of
  a block; where the place of a checksum depends on a field of the block, loads and stores outside
  the buffer are faults. The functions that update the descriptors of all groups from the bitmaps are not here.
\<close>

unbundle bit_operations_syntax

section \<open>Blocks of an inode\<close>

text \<open>The checksum of the number and generation of an inode.\<close>

definition inode_seed :: "ext2fs \<Rightarrow> u32 \<Rightarrow> byte list \<Rightarrow> u32" where
  "inode_seed fs inum inode =
     ext2fs_crc32c_le 0 (ext2fs_crc32c_le 0 (ef_csum_seed fs) (le_of_word 4 inum)) (le_of_word 4 (le32_at inode 0x64))"

text \<open>Extents.\<close>

definition EXT3_EXTENT_TAIL_OFFSET :: "byte list \<Rightarrow> nat" where
  "EXT3_EXTENT_TAIL_OFFSET eh = 12 + 12 * eh_max eh"

definition ext2fs_extent_block_csum :: "ext2fs \<Rightarrow> u32 \<Rightarrow> byte list \<Rightarrow> ((ext2_err + u32) \<times> ext2fs) res" where
  "ext2fs_extent_block_csum fs inum eh =
     and_then (ext2fs_read_inode fs inum) (\<lambda>(e, inode, fs1).
       case e of
         Some e \<Rightarrow> Inr (Inl e, fs1)
       | None \<Rightarrow> and_then (read_at eh 0 (EXT3_EXTENT_TAIL_OFFSET eh)) (\<lambda>bs.
           Inr (Inr (ext2fs_crc32c_le 0 (inode_seed fs inum inode) bs), fs1)))"

definition ext2fs_extent_block_csum_verify :: "ext2fs \<Rightarrow> u32 \<Rightarrow> byte list \<Rightarrow> (bool \<times> ext2fs) res" where
  "ext2fs_extent_block_csum_verify fs inum eh =
     (if \<not> ext2fs_has_feature_metadata_csum (ef_super fs) then Inr (True, fs)
      else and_then (read_at eh (EXT3_EXTENT_TAIL_OFFSET eh) 4) (\<lambda>provided.
        and_then (ext2fs_extent_block_csum fs inum eh) (\<lambda>(r, fs1).
          Inr (case r of Inl _ \<Rightarrow> False | Inr calculated \<Rightarrow> word_of_le provided = calculated, fs1))))"

definition ext2fs_extent_block_csum_set :: "ext2fs \<Rightarrow> u32 \<Rightarrow> byte list \<Rightarrow> (errcode_t \<times> byte list \<times> ext2fs) res" where
  "ext2fs_extent_block_csum_set fs inum eh =
     (if \<not> ext2fs_has_feature_metadata_csum (ef_super fs) then Inr (None, eh, fs)
      else and_then (ext2fs_extent_block_csum fs inum eh) (\<lambda>(r, fs1).
        case r of
          Inl e \<Rightarrow> Inr (Some e, eh, fs1)
        | Inr crc \<Rightarrow> if EXT3_EXTENT_TAIL_OFFSET eh + 4 \<le> length eh then Inr (None, put_le 4 (EXT3_EXTENT_TAIL_OFFSET eh) crc eh, fs1)
                     else Inl BufferOverflow))"

section \<open>Directory blocks\<close>

definition EXT2_DIR_NAME_LEN_CSUM :: u16 where "EXT2_DIR_NAME_LEN_CSUM = 0xDE00"

text \<open>\<open>__get_dirent_tail\<close>: the entries have to end where the tail of 12 bytes begins.\<close>

function tail_loop :: "byte list \<Rightarrow> nat \<Rightarrow> nat \<Rightarrow> nat option" where
  "tail_loop dirent stop d =
     (if d < stop
      then (let rec_len = le16_at dirent (d + 4)
            in if rec_len < 8 \<or> rec_len AND 3 \<noteq> 0 then None else tail_loop dirent stop (d + unat rec_len))
      else Some d)"
  by pat_completeness auto
termination
proof (relation "measure (\<lambda>(dirent, stop, d). stop - d)")
  show "((dirent, stop, d + unat x), dirent, stop, d) \<in> measure (\<lambda>(dirent, stop, d). stop - d)"
    if "d < stop" "x = le16_at dirent (d + 4)" "\<not> (x < 8 \<or> x AND 3 \<noteq> 0)" for dirent stop d x
  proof -
    from that(3) have "8 \<le> unat x" by (simp add: word_less_nat_alt)
    then show ?thesis using that(1) by simp
  qed
qed simp

declare tail_loop.simps [simp del]

definition get_dirent_tail :: "ext2fs \<Rightarrow> byte list \<Rightarrow> ext2_err + nat" where
  "get_dirent_tail fs dirent =
     (let bs = unat (ef_blocksize fs); stop = bs - 12
      in if bs < 1024 then Inl EXT2_FILSYS_CORRUPTED
         else case tail_loop dirent stop 0 of
           None \<Rightarrow> Inl EXT2_ET_DIR_CORRUPTED
         | Some d \<Rightarrow>
             if d > bs then Inl EXT2_ET_DIR_CORRUPTED
             else if d \<noteq> stop then Inl EXT2_ET_DIR_NO_SPACE_FOR_CSUM
             else if le32_at dirent d \<noteq> 0 \<or> le16_at dirent (d + 4) \<noteq> 12 \<or> le16_at dirent (d + 6) \<noteq> EXT2_DIR_NAME_LEN_CSUM
             then Inl EXT2_ET_DIR_NO_SPACE_FOR_CSUM
             else Inr d)"

definition ext2fs_dirent_has_tail :: "ext2fs \<Rightarrow> byte list \<Rightarrow> bool" where
  "ext2fs_dirent_has_tail fs dirent \<longleftrightarrow> get_dirent_tail fs dirent \<noteq> Inl EXT2_ET_DIR_NO_SPACE_FOR_CSUM"

definition ext2fs_initialize_dirent_tail :: "byte list" where
  "ext2fs_initialize_dirent_tail = put_le 2 6 EXT2_DIR_NAME_LEN_CSUM (put_le 2 4 (12 :: u16) (replicate 12 0))"

definition ext2fs_dirent_csum :: "ext2fs \<Rightarrow> u32 \<Rightarrow> byte list \<Rightarrow> nat \<Rightarrow> ((ext2_err + u32) \<times> ext2fs) res" where
  "ext2fs_dirent_csum fs inum dirent size1 =
     and_then (ext2fs_read_inode fs inum) (\<lambda>(e, inode, fs1).
       case e of
         Some e \<Rightarrow> Inr (Inl e, fs1)
       | None \<Rightarrow> and_then (read_at dirent 0 size1) (\<lambda>bs. Inr (Inr (ext2fs_crc32c_le 0 (inode_seed fs inum inode) bs), fs1)))"

definition ext2fs_dirent_csum_verify :: "ext2fs \<Rightarrow> u32 \<Rightarrow> byte list \<Rightarrow> (bool \<times> ext2fs) res" where
  "ext2fs_dirent_csum_verify fs inum dirent =
     (case get_dirent_tail fs dirent of
        Inl _ \<Rightarrow> Inr (True, fs)
      | Inr t \<Rightarrow> and_then (ext2fs_dirent_csum fs inum dirent t) (\<lambda>(r, fs1).
          Inr (case r of Inl _ \<Rightarrow> False | Inr calculated \<Rightarrow> le32_at dirent (t + 8) = calculated, fs1)))"

definition ext2fs_dirent_csum_set :: "ext2fs \<Rightarrow> u32 \<Rightarrow> byte list \<Rightarrow> (errcode_t \<times> byte list \<times> ext2fs) res" where
  "ext2fs_dirent_csum_set fs inum dirent =
     (case get_dirent_tail fs dirent of
        Inl e \<Rightarrow> Inr (Some e, dirent, fs)
      | Inr t \<Rightarrow> and_then (ext2fs_dirent_csum fs inum dirent t) (\<lambda>(r, fs1).
          case r of Inl e \<Rightarrow> Inr (Some e, dirent, fs1) | Inr crc \<Rightarrow> Inr (None, put_le 4 (t + 8) crc dirent, fs1)))"

text \<open>Index blocks of a hashed directory: \<open>__get_dx_countlimit\<close> answers where the table begins with its limit and count.\<close>

definition get_dx_countlimit :: "ext2fs \<Rightarrow> byte list \<Rightarrow> ext2_err + nat" where
  "get_dx_countlimit fs dirent =
     (let bs = unat (ef_blocksize fs); rec_len = unat (le16_at dirent 4);
          r = (if rec_len = bs \<and> le16_at dirent 6 = 0 then Inr 8
               else if rec_len = 12
               then (if unat (le16_at dirent 16) \<noteq> bs - 12 \<or> le32_at dirent 24 \<noteq> 0 \<or> dirent ! 29 \<noteq> 8 then Inl EXT2_ET_DB_NOT_FOUND else Inr 32)
               else Inl EXT2_ET_DB_NOT_FOUND)
      in case r of
           Inl e \<Rightarrow> Inl e
         | Inr count_offset \<Rightarrow>
             (let max_sane_entries = (bs - count_offset) div 8
              in if unat (le16_at dirent count_offset) > max_sane_entries \<or> unat (le16_at dirent (count_offset + 2)) > max_sane_entries
                 then Inl EXT2_ET_DIR_NO_SPACE_FOR_CSUM else Inr count_offset))"

text \<open>The checksum and the place of the tail.\<close>

definition ext2fs_dx_csum :: "ext2fs \<Rightarrow> u32 \<Rightarrow> byte list \<Rightarrow> ((ext2_err + u32 \<times> nat) \<times> ext2fs) res" where
  "ext2fs_dx_csum fs inum dirent =
     (case get_dx_countlimit fs dirent of
        Inl e \<Rightarrow> Inr (Inl e, fs)
      | Inr count_offset \<Rightarrow>
          (let limit = unat (le16_at dirent count_offset); count = unat (le16_at dirent (count_offset + 2));
               t = count_offset + limit * 8; size1 = count_offset + count * 8
           in if t > unat (ef_blocksize fs) - 8 then Inr (Inl EXT2_ET_DIR_NO_SPACE_FOR_CSUM, fs)
              else and_then (ext2fs_read_inode fs inum) (\<lambda>(e, inode, fs1).
                case e of
                  Some e \<Rightarrow> Inr (Inl e, fs1)
                | None \<Rightarrow> and_then (read_at dirent 0 size1) (\<lambda>bs. and_then (read_at dirent t 4) (\<lambda>reserved.
                    let crc = ext2fs_crc32c_le 0 (inode_seed fs inum inode) bs; crc1 = ext2fs_crc32c_le 0 crc reserved
                    in Inr (Inr (ext2fs_crc32c_le 0 crc1 (replicate 4 0), t), fs1))))))"

definition ext2fs_dx_csum_verify :: "ext2fs \<Rightarrow> u32 \<Rightarrow> byte list \<Rightarrow> (bool \<times> ext2fs) res" where
  "ext2fs_dx_csum_verify fs inum dirent =
     and_then (ext2fs_dx_csum fs inum dirent) (\<lambda>(r, fs1).
       Inr (case r of Inl _ \<Rightarrow> False | Inr (calculated, t) \<Rightarrow> le32_at dirent (t + 4) = calculated, fs1))"

definition ext2fs_dx_csum_set :: "ext2fs \<Rightarrow> u32 \<Rightarrow> byte list \<Rightarrow> (errcode_t \<times> byte list \<times> ext2fs) res" where
  "ext2fs_dx_csum_set fs inum dirent =
     and_then (ext2fs_dx_csum fs inum dirent) (\<lambda>(r, fs1).
       case r of Inl e \<Rightarrow> Inr (Some e, dirent, fs1) | Inr (crc, t) \<Rightarrow> Inr (None, put_le 4 (t + 4) crc dirent, fs1))"

definition ext2fs_dir_block_csum_verify :: "ext2fs \<Rightarrow> u32 \<Rightarrow> byte list \<Rightarrow> (bool \<times> ext2fs) res" where
  "ext2fs_dir_block_csum_verify fs inum dirent =
     (if \<not> ext2fs_has_feature_metadata_csum (ef_super fs) then Inr (True, fs)
      else if \<not> isl (get_dirent_tail fs dirent) then ext2fs_dirent_csum_verify fs inum dirent
      else if \<not> isl (get_dx_countlimit fs dirent) then ext2fs_dx_csum_verify fs inum dirent
      else Inr (False, fs))"

definition ext2fs_dir_block_csum_set :: "ext2fs \<Rightarrow> u32 \<Rightarrow> byte list \<Rightarrow> (errcode_t \<times> byte list \<times> ext2fs) res" where
  "ext2fs_dir_block_csum_set fs inum dirent =
     (if \<not> ext2fs_has_feature_metadata_csum (ef_super fs) then Inr (None, dirent, fs)
      else if \<not> isl (get_dirent_tail fs dirent) then ext2fs_dirent_csum_set fs inum dirent
      else if \<not> isl (get_dx_countlimit fs dirent) then ext2fs_dx_csum_set fs inum dirent
      else if flag (ef_flags fs) EXT2_FLAG_IGNORE_CSUM_ERRORS then Inr (None, dirent, fs)
      else Inr (Some EXT2_ET_DIR_NO_SPACE_FOR_CSUM, dirent, fs))"

section \<open>Blocks of extended attributes\<close>

definition ext2fs_ext_attr_block_csum :: "ext2fs \<Rightarrow> u64 \<Rightarrow> byte list \<Rightarrow> u32" where
  "ext2fs_ext_attr_block_csum fs block hdr =
     ext2fs_crc32c_le 0 (ext2fs_crc32c_le 0 (ef_csum_seed fs) (le_of_word 8 block))
       (take (unat (ef_blocksize fs)) (put_le 4 16 (0 :: u32) hdr))"

definition ext2fs_ext_attr_block_csum_verify :: "ext2fs \<Rightarrow> u64 \<Rightarrow> byte list \<Rightarrow> bool" where
  "ext2fs_ext_attr_block_csum_verify fs block hdr =
     (if \<not> ext2fs_has_feature_metadata_csum (ef_super fs) then True else le32_at hdr 16 = ext2fs_ext_attr_block_csum fs block hdr)"

definition ext2fs_ext_attr_block_csum_set :: "ext2fs \<Rightarrow> u64 \<Rightarrow> byte list \<Rightarrow> byte list" where
  "ext2fs_ext_attr_block_csum_set fs block hdr =
     (if \<not> ext2fs_has_feature_metadata_csum (ef_super fs) then hdr else put_le 4 16 (ext2fs_ext_attr_block_csum fs block hdr) hdr)"

section \<open>The block of multi-mount protection\<close>

definition ext2fs_mmp_csum :: "ext2fs \<Rightarrow> byte list \<Rightarrow> u32" where
  "ext2fs_mmp_csum fs mmp = ext2fs_crc32c_le 0 (ef_csum_seed fs) (take 0x3fc mmp)"

definition ext2fs_mmp_csum_verify :: "ext2fs \<Rightarrow> byte list \<Rightarrow> bool" where
  "ext2fs_mmp_csum_verify fs mmp =
     (if \<not> ext2fs_has_feature_metadata_csum (ef_super fs) then True else le32_at mmp 0x3fc = ext2fs_mmp_csum fs mmp)"

definition ext2fs_mmp_csum_set :: "ext2fs \<Rightarrow> byte list \<Rightarrow> byte list" where
  "ext2fs_mmp_csum_set fs mmp = (if \<not> ext2fs_has_feature_metadata_csum (ef_super fs) then mmp else put_le 4 0x3fc (ext2fs_mmp_csum fs mmp) mmp)"

section \<open>Bitmaps and descriptors\<close>

text \<open>
  A store into a descriptor changes the descriptors that were read when the file system was
  opened; without them it is lost in the buffer that \<open>ext2fs_group_desc\<close> keeps.
\<close>

definition put_desc :: "byte list \<Rightarrow> nat \<Rightarrow> u16 \<Rightarrow> ext2fs \<Rightarrow> (byte list \<times> ext2fs) res" where
  "put_desc gd off v fs =
     (if off + 2 \<le> length gd
      then (let gd1 = put_le 2 off v gd in Inr (gd1, if ef_group_desc fs = None then fs else fs\<lparr>ef_group_desc := Some gd1\<rparr>))
      else Inl BufferOverflow)"

text \<open>
  The two bitmaps differ in the fields of their checksums: \<open>lo\<close> and \<open>hi\<close>, the latter only in
  descriptors of at least \<open>hi_end\<close> bytes.
\<close>

definition bitmap_csum_verify :: "nat \<Rightarrow> nat \<Rightarrow> u32 \<Rightarrow> ext2fs \<Rightarrow> u32 \<Rightarrow> byte list \<Rightarrow> (bool \<times> ext2fs) res" where
  "bitmap_csum_verify lo hi hi_end fs grp bitmap =
     and_then (ext2fs_group_desc fs grp) (\<lambda>(gdp, fs1).
       if \<not> ext2fs_has_feature_metadata_csum (ef_super fs) then Inr (True, fs1)
       else case gdp of
         None \<Rightarrow> Inl NullPointer
       | Some (gd, off) \<Rightarrow> and_then (read_at gd (off + lo) 2) (\<lambda>p.
           let calculated = ext2fs_crc32c_le 0 (ef_csum_seed fs) bitmap; provided = ucast (word_of_le p :: u16) :: u32
           in if EXT2_DESC_SIZE (ef_super fs) \<ge> hi_end
              then and_then (read_at gd (off + hi) 2) (\<lambda>q. Inr (provided OR push_bit 16 (ucast (word_of_le q :: u16)) = calculated, fs1))
              else Inr (provided = calculated AND 0xFFFF, fs1)))"

definition bitmap_csum_set :: "nat \<Rightarrow> nat \<Rightarrow> u32 \<Rightarrow> ext2fs \<Rightarrow> u32 \<Rightarrow> byte list \<Rightarrow> ext2fs res" where
  "bitmap_csum_set lo hi hi_end fs grp bitmap =
     and_then (ext2fs_group_desc fs grp) (\<lambda>(gdp, fs1).
       if \<not> ext2fs_has_feature_metadata_csum (ef_super fs) then Inr fs1
       else case gdp of
         None \<Rightarrow> Inl NullPointer
       | Some (gd, off) \<Rightarrow>
           (let crc = ext2fs_crc32c_le 0 (ef_csum_seed fs) bitmap
            in and_then (put_desc gd (off + lo) (ucast (crc AND 0xFFFF)) fs1) (\<lambda>(gd1, fs2).
                 if EXT2_DESC_SIZE (ef_super fs) \<ge> hi_end
                 then and_then (put_desc gd1 (off + hi) (ucast (drop_bit 16 crc)) fs2) (\<lambda>(_, fs3). Inr fs3)
                 else Inr fs2)))"

definition ext2fs_inode_bitmap_csum_verify :: "ext2fs \<Rightarrow> u32 \<Rightarrow> byte list \<Rightarrow> (bool \<times> ext2fs) res" where
  "ext2fs_inode_bitmap_csum_verify = bitmap_csum_verify 0x1a 0x3a 0x3c"
definition ext2fs_inode_bitmap_csum_set :: "ext2fs \<Rightarrow> u32 \<Rightarrow> byte list \<Rightarrow> ext2fs res" where
  "ext2fs_inode_bitmap_csum_set = bitmap_csum_set 0x1a 0x3a 0x3c"
definition ext2fs_block_bitmap_csum_verify :: "ext2fs \<Rightarrow> u32 \<Rightarrow> byte list \<Rightarrow> (bool \<times> ext2fs) res" where
  "ext2fs_block_bitmap_csum_verify = bitmap_csum_verify 0x18 0x38 0x3a"
definition ext2fs_block_bitmap_csum_set :: "ext2fs \<Rightarrow> u32 \<Rightarrow> byte list \<Rightarrow> ext2fs res" where
  "ext2fs_block_bitmap_csum_set = bitmap_csum_set 0x18 0x38 0x3a"

definition ext2fs_has_group_desc_csum :: "ext2_super_block \<Rightarrow> bool" where
  "ext2fs_has_group_desc_csum sb \<longleftrightarrow> ext2fs_has_feature_metadata_csum sb \<or> ext2fs_has_feature_gdt_csum sb"

definition desc_csum :: "ext2_super_block \<Rightarrow> u32 \<Rightarrow> u32 \<Rightarrow> byte list \<Rightarrow> u16" where
  "desc_csum sb csum_seed grp desc =
     (if ext2fs_has_feature_metadata_csum sb
      then ucast (ext2fs_crc32c_le 0 (ext2fs_crc32c_le 0 csum_seed (le_of_word 4 grp)) (put_le 2 0x1e (0 :: u16) desc))
      else (let crc = ext2fs_crc16 (- 1) (s_uuid sb); crc1 = ext2fs_crc16 (ucast (ucast crc :: u16)) (le_of_word 4 grp);
                crc2 = ext2fs_crc16 (ucast (ucast crc1 :: u16)) (take 0x1e desc)
            in if 0x20 < length desc then ucast (ext2fs_crc16 (ucast (ucast crc2 :: u16)) (drop 0x20 desc)) else ucast crc2))"

definition ext2fs_group_desc_csum :: "ext2fs \<Rightarrow> u32 \<Rightarrow> (u16 \<times> ext2fs) res" where
  "ext2fs_group_desc_csum fs grp =
     and_then (ext2fs_group_desc fs grp) (\<lambda>(gdp, fs1).
       case gdp of
         None \<Rightarrow> Inl NullPointer
       | Some (gd, off) \<Rightarrow> and_then (read_at gd off (unat (EXT2_DESC_SIZE (ef_super fs)))) (\<lambda>desc.
           Inr (desc_csum (ef_super fs) (ef_csum_seed fs) grp desc, fs1)))"

definition ext2fs_bg_checksum :: "ext2fs \<Rightarrow> u32 \<Rightarrow> (u16 \<times> ext2fs) res" where
  "ext2fs_bg_checksum fs grp =
     and_then (ext2fs_group_desc fs grp) (\<lambda>(gdp, fs1).
       case gdp of None \<Rightarrow> Inl NullPointer
       | Some (gd, off) \<Rightarrow> and_then (read_at gd (off + 0x1e) 2) (\<lambda>p. Inr (word_of_le p, fs1)))"

definition ext2fs_group_desc_csum_verify :: "ext2fs \<Rightarrow> u32 \<Rightarrow> (bool \<times> ext2fs) res" where
  "ext2fs_group_desc_csum_verify fs grp =
     (if ext2fs_has_group_desc_csum (ef_super fs)
      then and_then (ext2fs_bg_checksum fs grp) (\<lambda>(provided, fs1).
        and_then (ext2fs_group_desc_csum fs1 grp) (\<lambda>(calculated, fs2). Inr (provided = calculated, fs2)))
      else Inr (True, fs))"

definition ext2fs_group_desc_csum_set :: "ext2fs \<Rightarrow> u32 \<Rightarrow> ext2fs res" where
  "ext2fs_group_desc_csum_set fs grp =
     (if \<not> ext2fs_has_group_desc_csum (ef_super fs) then Inr fs
      else and_then (ext2fs_group_desc_csum fs grp) (\<lambda>(crc, fs1).
        and_then (ext2fs_group_desc fs1 grp) (\<lambda>(gdp, fs2).
          case gdp of None \<Rightarrow> Inl NullPointer
          | Some (gd, off) \<Rightarrow> and_then (put_desc gd (off + 0x1e) crc fs2) (\<lambda>(_, fs3). Inr fs3))))"

end
