(* ===== verification/Disk_Blocks.thy ===== *)
theory Disk_Blocks
  imports Open_Read Csum_Blocks Lsblks
begin

text \<open>
  The file system as \<open>lsblks\<close> sees it, from the bytes of the device: the open file system answers requests
  for inodes and blocks through the inode cache and the channel. No answer depends on the requests
  before it (\<open>Inode_Read\<close>, \<open>Io_Device\<close>), so the record of \<open>Extent\<close> takes the answers that the file system gives right
  after it was opened. A small image gives the examples.
\<close>

unbundle bit_operations_syntax

section \<open>The file system of lsblks\<close>

definition LSBLKS_FLAGS :: u32 where
  "LSBLKS_FLAGS = EXT2_FLAG_SOFTSUPP_FEATURES OR EXT2_FLAG_64BITS OR EXT2_FLAG_THREADS OR EXT2_FLAG_IGNORE_CSUM_ERRORS"

text \<open>
  On an accepted image no read of an inode faults, so the error that a fault is turned into here is
  never seen there; the file system is open for reading only, so nothing is written. The device takes
  requests at any address: no bounce buffer is in use.
\<close>

definition filsys_of :: "ext2fs \<Rightarrow> ext2_filsys" where
  "filsys_of fs =
     \<lparr>fs_blocksize = unat (ef_blocksize fs), fs_log_block_size = unat (s_log_block_size (ef_super fs)),
      fs_inodes_count = s_inodes_count (ef_super fs), fs_blocks_count = ext2fs_blocks_count (ef_super fs),
      fs_first_data_block = s_first_data_block (ef_super fs), fs_hurd = (s_creator_os (ef_super fs) = EXT2_OS_HURD),
      fs_image_flag = flag (ef_flags fs) EXT2_FLAG_IMAGE_FILE, fs_image_io = True,
      fs_ignore_csum = flag (ef_flags fs) EXT2_FLAG_IGNORE_CSUM_ERRORS, 
      fs_csum_verify = (\<lambda>ino eh. case ext2fs_extent_block_csum_verify fs ino eh of Inr (ok, _) \<Rightarrow> ok | Inl _ \<Rightarrow> False),
      fs_read_inode = (\<lambda>ino. case ext2fs_read_inode fs ino of
          Inr (None, buf, _) \<Rightarrow> Inr (inode_of buf)
        | Inr (Some e, _, _) \<Rightarrow> Inl e
        | Inl _ \<Rightarrow> Inl EXT2_FILSYS_CORRUPTED),
      fs_read_blk = (\<lambda>b. case unix_read_blk64 (ef_io fs) True b 1 of (None, _, data) \<Rightarrow> Some data | _ \<Rightarrow> None),
      fs_write_inode = (\<lambda>_. Some EXT2_ET_RO_FILSYS), fs_write_blk = (\<lambda>_. False),
      fs_rw = flag (ef_flags fs) EXT2_FLAG_RW,
      fs_csum_set = (\<lambda>ino eh. and_then (ext2fs_extent_block_csum_set fs ino eh) (\<lambda>(r, eh1, _). Inr (r, eh1)))\<rparr>"

definition lsblks_open ::
  "(string \<Rightarrow> blkdev option) \<Rightarrow> (ext2_err \<Rightarrow> int) \<Rightarrow> string \<Rightarrow> (int + ext2_filsys) res" where
  "lsblks_open open1 code name =
     and_then (ext2fs_open open1 False 0 name LSBLKS_FLAGS 0 0) (\<lambda>r. Inr (case r of
       Inl e \<Rightarrow> Inl (code e)
     | Inr fs \<Rightarrow> Inr (filsys_of fs)))"

lemma plain_lsblks_flags: "plain_flags LSBLKS_FLAGS" "flag LSBLKS_FLAGS EXT2_FLAG_IGNORE_CSUM_ERRORS"
  by code_simp+

text \<open>The inode is where the library looks for it, and on the device.\<close>

definition inode_on_disk :: "byte list \<Rightarrow> ext2_super_block \<Rightarrow> byte list \<Rightarrow> u32 \<Rightarrow> bool" where
  "inode_on_disk xs sb gd ino \<longleftrightarrow>
     (let t = inode_table sb gd (inode_group sb ino)
      in ino \<noteq> 0 \<and> ino \<le> s_inodes_count sb \<and> unat (s_inodes_per_group sb) * unat (EXT2_INODE_SIZE sb) < 2 ^ 32 \<and> t \<noteq> 0 \<and>
         ucast (s_first_data_block sb) \<le> t \<and> t + ucast (inode_blocks_per_group sb) - 1 < ext2fs_blocks_count sb \<and>
         (unat (inode_block sb gd ino) + 1) * unat (EXT2_BLOCK_SIZE sb) \<le> length xs \<and> inode_block sb gd ino \<noteq> 0)"

text \<open>The bytes of the inode as a part of the device.\<close>

definition disk_inode :: "byte list \<Rightarrow> ext2_super_block \<Rightarrow> byte list \<Rightarrow> u32 \<Rightarrow> byte list" where
  "disk_inode xs sb gd ino =
     take 128 (drop (unat (inode_block sb gd ino) * unat (EXT2_BLOCK_SIZE sb) + inode_offset sb ino mod unat (EXT2_BLOCK_SIZE sb)) xs)"

lemma inode_bytes_on_disk:
  assumes "sizes_ok sb"
  shows "take (min (unat (EXT2_INODE_SIZE sb)) 128) (inode_bytes sb gd (byte_block xs (unat (EXT2_BLOCK_SIZE sb))) ino) = disk_inode xs sb gd ino"
proof -
  have "128 \<le> unat (EXT2_INODE_SIZE sb)" using assms by (simp add: sizes_ok_def)
  moreover note inode_fits [OF assms, of ino]
  ultimately show ?thesis by (simp add: inode_bytes_def byte_block_def disk_inode_def drop_take take_take min_def add.commute)
qed

lemma lsblks_open_image:
  assumes name: "open1 name = Some dev" "CHR ''?'' \<notin> set name" and img: "image_ok LSBLKS_FLAGS (bd_bytes dev) groups desc_blocks"
    and dev: "\<forall>l s. \<not> bd_rerr dev l s"
  defines "sb \<equiv> super_of (super_bytes (bd_bytes dev))"
  obtains fs where "lsblks_open open1 code name = Inr (Inr fs)"
    "fs_blocksize fs = unat (EXT2_BLOCK_SIZE sb)" "fs_inodes_count fs = s_inodes_count sb" "\<not> fs_image_file fs" "fs_ignore_csum fs" "sizes_ok sb"
    "\<And>ino. inode_on_disk (bd_bytes dev) sb (desc_bytes sb desc_blocks (bd_bytes dev)) ino \<Longrightarrow>
       fs_read_inode fs ino = Inr (inode_of (disk_inode (bd_bytes dev) sb (desc_bytes sb desc_blocks (bd_bytes dev)) ino))"
    "\<And>b. (unat b + 1) * unat (EXT2_BLOCK_SIZE sb) \<le> length (bd_bytes dev) \<Longrightarrow>
       fs_read_blk fs b = Some (byte_block (bd_bytes dev) (unat (EXT2_BLOCK_SIZE sb)) b)"
proof -
  let ?gd = "desc_bytes sb desc_blocks (bd_bytes dev)" and ?bs = "unat (EXT2_BLOCK_SIZE sb)"
  obtain fs where o: "ext2fs_open2 open1 False 0 name None LSBLKS_FLAGS 0 0 = Inr (Inr fs)"
    "icache_fs_ok fs ?gd (byte_block (bd_bytes dev) ?bs)" "ef_super fs = sb" "ef_flags fs = LSBLKS_FLAGS"
    "bd_rerr (ud_dev (ef_io fs)) = bd_rerr dev" "\<And>b n. in_range (ef_io fs) b n \<longleftrightarrow> (unat b + n) * ?bs \<le> length (bd_bytes dev)"
    by (rule opened [where dio = 0 and ?open1.0 = open1 and name = name and dev = dev,
        OF name plain_lsblks_flags(1) img dev, folded sb_def]) (use plain_lsblks_flags(2) in auto)
  have ok: "fs_ok fs ?gd (byte_block (bd_bytes dev) ?bs)" using o(2) by (simp add: icache_fs_ok_def)
  have rerr: "\<forall>l s. \<not> bd_rerr (ud_dev (ef_io fs)) l s" using o(5) dev by simp
  have sz: "sizes_ok sb" using ok o(3) by (simp add: fs_ok_def)
  have inode: "fs_read_inode (filsys_of fs) ino = Inr (inode_of (disk_inode (bd_bytes dev) sb ?gd ino))"
    if "inode_on_disk (bd_bytes dev) sb ?gd ino" for ino
  proof -
    have there: "inode_there fs ?gd ino" using that o(3,6) by (simp add: inode_on_disk_def inode_there_def Let_def)
    show ?thesis
      by (rule read_inode_spec [OF o(2) there rerr, of False 128])
        (use o(3,4) plain_lsblks_flags(2) inode_bytes_on_disk [OF sz, of ?gd "bd_bytes dev" ino] in
          \<open>simp_all add: filsys_of_def ext2fs_read_inode_def\<close>)
  qed
  have blk: "fs_read_blk (filsys_of fs) b = Some (byte_block (bd_bytes dev) ?bs b)"
    if "(unat b + 1) * ?bs \<le> length (bd_bytes dev)" for b
  proof -
    obtain e ch out where rd: "unix_read_blk64 (ef_io fs) True b 1 = (e, ch, out)" by (metis prod_cases3)
    have c: "represents (ef_io fs) (byte_block (bd_bytes dev) ?bs)" "\<not> ud_nocache (ef_io fs)" "ch_block_size (ef_io fs) = ?bs"
      using ok o(3) by (simp_all add: fs_ok_def)
    have "e = None \<and> out = byte_block (bd_bytes dev) ?bs b"
      using unix_read_spec [OF c(1,2) _ rd] rerr that o(6) c(3) by (simp add: read_blocks_def spec_read_def)
    then show ?thesis using rd by (simp add: filsys_of_def)
  qed
  show ?thesis
    by (rule that [of "filsys_of fs"])
      (use o inode blk ok sz plain_lsblks_flags in \<open>simp_all add: lsblks_open_def ext2fs_open_def filsys_of_def fs_ok_def fs_image_file_def plain_flags_def\<close>)
qed

section \<open>A small image\<close>

text \<open>
  Eight blocks of 1024 bytes: the superblock, one block of descriptors, the inode table in the blocks
  3 and 4, and in block 5 the directory of inode 2, which one extent maps.
\<close>

definition small_sb :: "byte list" where
  "small_sb =
     [16,0,0,0, 8,0,0,0, 0,0,0,0, 0,0,0,0, 0,0,0,0, 1,0,0,0, 0,0,0,0, 0,0,0,0,
      0,32,0,0, 0,32,0,0, 16,0,0,0, 0,0,0,0, 0,0,0,0, 0,0,0,0, 0x53,0xEF, 0,0, 0,0,0,0,
      0,0,0,0, 0,0,0,0, 0,0,0,0, 1,0,0,0, 0,0,0,0, 0,0,0,0, 128,0, 0,0, 0,0,0,0, 0x42,0,0,0] @ replicate 924 0"

definition small_desc :: "byte list" where
  "small_desc = [0,0,0,0, 0,0,0,0, 3,0,0,0] @ replicate 1012 0"

definition small_inode :: "byte list" where
  "small_inode =
     [0xED,0x41, 0,0, 0,4,0,0, 0,0,0,0, 0,0,0,0, 0,0,0,0, 0,0,0,0, 0,0,0,0, 0,0,0,0, 0,0,8,0, 0,0,0,0,
      0x0a,0xf3, 1,0, 4,0, 0,0, 0,0,0,0, 0,0,0,0, 1,0, 0,0, 5,0,0,0] @ replicate 64 0"

definition small_image :: "byte list \<Rightarrow> byte list" where
  "small_image dir = replicate 1024 0 @ small_sb @ small_desc @ (replicate 128 0 @ small_inode @ replicate 1792 0) @ dir @ replicate 2048 0"

definition small_fs_super :: ext2_super_block where
  "small_fs_super = small_super\<lparr>s_blocks_count := 8, s_feature_incompat := 0x42\<rparr>"

lemma small_lengths [simp]: "length small_sb = 1024" "length small_desc = 1024" "length small_inode = 128"
  by (simp_all add: small_sb_def small_desc_def small_inode_def)

lemma small_super_bytes: "super_bytes (small_image dir) = small_sb"
  by (simp add: super_bytes_def small_image_def)

lemma small_super_of: "super_of small_sb = small_fs_super"
  by (simp add: super_of_def small_fs_super_def small_super_def le32_at_def le16_at_def small_sb_def EXT2_SUPER_MAGIC_def nth_append)

lemma small_checks:
  "check_super LSBLKS_FLAGS 0 small_fs_super = None" "check_groups LSBLKS_FLAGS small_fs_super = Inr (Inr (1, 1))"
  "EXT2_BLOCK_SIZE small_fs_super = 1024" "EXT2_DESC_SIZE small_fs_super = 32" "desc_start small_fs_super = 2"
  "\<not> ext2fs_has_feature_journal_dev small_fs_super" "\<not> ext2fs_has_feature_meta_bg small_fs_super" "s_magic small_fs_super = EXT2_SUPER_MAGIC"
  by code_simp+

lemma small_image_ok: "length dir = 1024 \<Longrightarrow> image_ok LSBLKS_FLAGS (small_image dir) 1 1"
  by (simp add: image_ok_def small_super_bytes small_super_of small_checks) (simp add: small_image_def)

lemma small_desc_bytes: "length dir = 1024 \<Longrightarrow> desc_bytes small_fs_super 1 (small_image dir) = small_desc"
  by (simp add: desc_bytes_def small_checks) (simp add: small_image_def)

lemma small_sizes: "EXT2_INODE_SIZE small_fs_super = 128" "s_inodes_per_group small_fs_super = 16" "s_inodes_count small_fs_super = 16"
  "s_first_data_block small_fs_super = 1" "ext2fs_blocks_count small_fs_super = 8" "inode_blocks_per_group small_fs_super = 2"
  "\<not> ext2fs_has_feature_64bit small_fs_super" "inode_group small_fs_super 2 = 0" "\<not> ext2fs_has_feature_metadata_csum small_fs_super"
  by code_simp+

lemma small_table: "inode_table small_fs_super small_desc 0 = 3" "inode_offset small_fs_super 2 = 128" "inode_block small_fs_super small_desc 2 = 3"
proof -
  show t: "inode_table small_fs_super small_desc 0 = 3" by (simp add: inode_table_def small_sizes small_checks le32_at_def small_desc_def)
  show o: "inode_offset small_fs_super 2 = 128" by (simp add: inode_offset_def small_sizes)
  show "inode_block small_fs_super small_desc 2 = 3" by (simp add: inode_block_def small_sizes t o small_checks)
qed

lemma small_on_disk: "length dir = 1024 \<Longrightarrow> inode_on_disk (small_image dir) small_fs_super small_desc 2"
  by (simp add: inode_on_disk_def small_sizes small_table small_checks word_le_nat_alt word_less_nat_alt) (simp add: small_image_def)

lemma small_inode_bytes: "length dir = 1024 \<Longrightarrow> disk_inode (small_image dir) small_fs_super small_desc 2 = small_inode"
  by (simp add: disk_inode_def small_table small_checks) (simp add: small_image_def)

text \<open>The device with the image, on which reads succeed.\<close>

definition small_dev :: "byte list \<Rightarrow> blkdev" where
  "small_dev dir = \<lparr>bd_bytes = small_image dir, bd_rerr = (\<lambda>l s. False), bd_werr = (\<lambda>l s. True), bd_fsync = False\<rparr>"

definition small_dir :: "byte list" where
  "small_dir = replicate 1024 0"

lemma small_dir [simp]: "length small_dir = 1024" "bd_bytes (small_dev dir) = small_image dir" "bd_rerr (small_dev dir) = (\<lambda>l s. False)"
  by (simp_all add: small_dir_def small_dev_def)

lemma length_small_image [simp]: "length (small_image small_dir) = 8192"
  by (simp add: small_image_def)

lemma small_sizes_ok: "sizes_ok small_fs_super"
proof (rule check_sizes_ok)
  show "check_sizes LSBLKS_FLAGS 0 small_fs_super = None" by code_simp
  show "\<not> flag LSBLKS_FLAGS EXT2_FLAG_IGNORE_SB_ERRORS" by code_simp
qed

lemma small_opened:
  obtains fs where
    "ext2fs_open2 (\<lambda>_. Some (small_dev small_dir)) False 0 ''sda1'' None LSBLKS_FLAGS 0 0 = Inr (Inr fs)"
    "icache_fs_ok fs small_desc (byte_block (small_image small_dir) 1024)" "ef_super fs = small_fs_super" "ef_flags fs = LSBLKS_FLAGS"
    "bd_rerr (ud_dev (ef_io fs)) = (\<lambda>l s. False)" "\<forall>b n. in_range (ef_io fs) b n \<longleftrightarrow> (unat b + n) * 1024 \<le> 8192"
  by (rule opened [where dio = 0 and ?open1.0 = "\<lambda>_. Some (small_dev small_dir)"
        and name = "''sda1''" and dev = "small_dev small_dir" and flags = LSBLKS_FLAGS and groups = 1 and desc_blocks = 1])
    (use small_image_ok [of small_dir] plain_lsblks_flags in
      \<open>simp_all add: small_super_bytes small_super_of small_desc_bytes small_checks\<close>)

section \<open>Properties\<close>

text \<open>
  C6: opening a device for \<open>lsblks\<close>. When the bytes of the device have a superblock that the checks
  accept (without meta block groups) and room for its descriptors, and reads succeed, \<open>ext2fs_open\<close>
  succeeds; after it, every inode whose table lies on the device reads as the 128 bytes at its place in
  the table, and every block of the device as the bytes of the device.
\<close>

theorem lsblks_open_answers:
  assumes "open1 name = Some dev" "CHR ''?'' \<notin> set name" "image_ok LSBLKS_FLAGS (bd_bytes dev) groups desc_blocks" "\<forall>l s. \<not> bd_rerr dev l s"
    and sb: "sb = super_of (super_bytes (bd_bytes dev))" and gd: "gd = desc_bytes sb desc_blocks (bd_bytes dev)"
  shows "\<exists>fs. lsblks_open open1 code name = Inr (Inr fs) \<and>
    (\<forall>ino. inode_on_disk (bd_bytes dev) sb gd ino \<longrightarrow> fs_read_inode fs ino = Inr (inode_of (disk_inode (bd_bytes dev) sb gd ino))) \<and>
    (\<forall>b. (unat b + 1) * unat (EXT2_BLOCK_SIZE sb) \<le> length (bd_bytes dev) \<longrightarrow>
      fs_read_blk fs b = Some (byte_block (bd_bytes dev) (unat (EXT2_BLOCK_SIZE sb)) b))"
  unfolding gd sb
  by (rule lsblks_open_image [where ?open1.0 = open1 and name = name and dev = dev, OF assms(1-4)]) blast

theorem lsblks_open_answers_witness:
  "\<exists>fs. lsblks_open (\<lambda>_. Some (small_dev small_dir)) (\<lambda>_. 1) ''sda1'' = Inr (Inr fs) \<and>
     fs_read_inode fs 2 = Inr (inode_of small_inode) \<and> fs_read_blk fs 5 = Some small_dir"
proof -
  have "\<exists>fs. lsblks_open (\<lambda>_. Some (small_dev small_dir)) (\<lambda>_. 1) ''sda1'' = Inr (Inr fs) \<and>
    (\<forall>ino. inode_on_disk (bd_bytes (small_dev small_dir)) small_fs_super small_desc ino \<longrightarrow>
       fs_read_inode fs ino = Inr (inode_of (disk_inode (bd_bytes (small_dev small_dir)) small_fs_super small_desc ino))) \<and>
    (\<forall>b. (unat b + 1) * unat (EXT2_BLOCK_SIZE small_fs_super) \<le> length (bd_bytes (small_dev small_dir)) \<longrightarrow>
      fs_read_blk fs b = Some (byte_block (bd_bytes (small_dev small_dir)) (unat (EXT2_BLOCK_SIZE small_fs_super)) b))"
    by (rule lsblks_open_answers [where groups = 1 and desc_blocks = 1])
      (simp_all add: small_image_ok small_super_bytes small_super_of small_desc_bytes)
  moreover have "inode_on_disk (small_image small_dir) small_fs_super small_desc 2"
    "disk_inode (small_image small_dir) small_fs_super small_desc 2 = small_inode" by (simp_all add: small_on_disk small_inode_bytes)
  moreover have "byte_block (small_image small_dir) 1024 5 = small_dir" by (simp add: small_image_def byte_block_def small_dir_def)
  ultimately show ?thesis by (auto simp: small_checks)
qed

text \<open>
  C11: on an open file system in order, any sequence of reads of valid inodes whose checksums match
  succeeds when the device does, and returns for each inode the bytes of its place in the inode
  table, whichever inodes and blocks were cached before: the slot of the inode cache, the buffered block
  and the block cache of the channel never show.
\<close>

theorem read_inodes_correct:
  assumes "icache_fs_ok fs gd D" "\<forall>l s. \<not> bd_rerr (ud_dev (ef_io fs)) l s"
    "\<forall>ino \<in> set inos. inode_there fs gd ino \<and> csum_ok fs ino (inode_bytes (ef_super fs) gd D ino)"
  shows "\<exists>fs'. read_inodes fs bufsize inos =
    Inr (map (\<lambda>ino. (None, take (min (unat (EXT2_INODE_SIZE (ef_super fs))) bufsize) (inode_bytes (ef_super fs) gd D ino))) inos, fs')"
  using read_inodes_spec [of fs gd D inos, OF assms] by blast

theorem read_inodes_correct_witness:
  "\<exists>fs fs'. ext2fs_open2 (\<lambda>_. Some (small_dev small_dir)) False 0 ''sda1'' None LSBLKS_FLAGS 0 0 = Inr (Inr fs) \<and>
     read_inodes fs 128 [2, 2] = Inr ([(None, small_inode), (None, small_inode)], fs')"
proof -
  obtain fs where o: "ext2fs_open2 (\<lambda>_. Some (small_dev small_dir)) False 0 ''sda1'' None LSBLKS_FLAGS 0 0 = Inr (Inr fs)"
    "icache_fs_ok fs small_desc (byte_block (small_image small_dir) 1024)" "ef_super fs = small_fs_super" "ef_flags fs = LSBLKS_FLAGS"
    "bd_rerr (ud_dev (ef_io fs)) = (\<lambda>l s. False)" "\<forall>b n. in_range (ef_io fs) b n \<longleftrightarrow> (unat b + n) * 1024 \<le> 8192"
    by (rule small_opened)
  have "inode_there fs small_desc 2"
    using small_on_disk [of small_dir] o(3,6) by (simp add: inode_on_disk_def inode_there_def Let_def small_checks)
  then have "\<exists>fs'. read_inodes fs 128 [2, 2] =
      Inr (map (\<lambda>ino. (None, take (min (unat (EXT2_INODE_SIZE (ef_super fs))) 128) (inode_bytes (ef_super fs) small_desc (byte_block (small_image small_dir) 1024) ino))) [2, 2], fs')"
    by (intro read_inodes_correct [OF o(2)]) (use o(3,5) small_sizes(9) in \<open>auto simp: ext2fs_inode_csum_verify_def\<close>)
  moreover have "take (min (unat (EXT2_INODE_SIZE small_fs_super)) 128) (inode_bytes small_fs_super small_desc (byte_block (small_image small_dir) 1024) 2) = small_inode"
    using inode_bytes_on_disk [OF small_sizes_ok, of small_desc "small_image small_dir" 2] small_inode_bytes [of small_dir] by (simp add: small_checks)
  ultimately show ?thesis using o(1,3) by auto
qed

section \<open>Where the cache of inodes goes wrong\<close>

lemma cached_inode_first:
  "j < length cs \<Longrightarrow> ic_ino (cs ! j) = ino \<Longrightarrow> \<forall>k < j. ic_ino (cs ! k) \<noteq> ino \<Longrightarrow> cached_inode cs ino = Some (ic_inode (cs ! j))"
proof (induction cs arbitrary: j)
  case (Cons c cs)
  show ?case
  proof (cases j)
    case 0
    then show ?thesis using Cons(3) by simp
  next
    case (Suc m)
    have "ic_ino c \<noteq> ino" using Cons(4) Suc by (metis nth_Cons_0 zero_less_Suc)
    moreover have "\<forall>k < m. ic_ino (cs ! k) \<noteq> ino" using Cons(4) Suc by (metis Suc_mono nth_Cons_Suc)
    ultimately show ?thesis using Cons(1) [of m] Cons(2,3) Suc by simp
  qed
qed simp

text \<open>
  C38: an inode whose checksum does not match is read into a slot of the cache that keeps the number of
  the inode it held before. Reading that other inode afterwards succeeds and returns the bytes of
  the inode that failed.
\<close>

theorem csum_failure_poisons_cache:
  assumes inv: "icache_fs_ok fs gd D" and ic: "ef_icache fs = Some ic" "cached_inode (ic_cache ic) ino = None"
    and there: "inode_there fs gd ino" "\<forall>l s. \<not> bd_rerr (ud_dev (ef_io fs)) l s" and bad: "\<not> csum_ok fs ino (inode_bytes (ef_super fs) gd D ino)"
    and victim: "ic_ino (ic_cache ic ! next_slot ic) = old" "\<forall>k < next_slot ic. ic_ino (ic_cache ic ! k) \<noteq> old" "old \<noteq> 0" "old \<le> s_inodes_count (ef_super fs)"
  shows "\<exists>e buf fs' fs''. ext2fs_read_inode2 fs ino bufsize nocsum = Inr (e, buf, fs') \<and>
    ext2fs_read_inode2 fs' old bufsize nocsum' =
      Inr (None, take (min (unat (EXT2_INODE_SIZE (ef_super fs))) bufsize) (inode_bytes (ef_super fs) gd D ino), fs'')"
proof -
  let ?nd = "inode_bytes (ef_super fs) gd D ino"
  have c: "ext2fs_create_inode_cache fs 4 = fs\<lparr>ef_icache := Some ic\<rparr>" "icache_ok (ef_super fs) gd D ic" "fs_ok fs gd D"
    using inv ic(1) by (simp_all add: ext2fs_create_inode_cache_def icache_fs_ok_def)
  have "length (ic_cache ic) = 4" using c(2) by (simp add: icache_ok_def)
  then have slot: "next_slot ic < length (ic_cache ic)" by (simp add: next_slot_def nat_less_iff)
  obtain ch ic1 where r: "ext2fs_read_inode2 fs ino bufsize nocsum =
      Inr (if \<not> flag (ef_flags fs) EXT2_FLAG_IGNORE_CSUM_ERRORS \<and> \<not> nocsum \<and> \<not> csum_ok fs ino ?nd then Some EXT2_ET_INODE_CSUM_INVALID else None,
           take (min (unat (EXT2_INODE_SIZE (ef_super fs))) bufsize) ?nd,
           fs\<lparr>ef_io := ch, ef_icache := Some (slot_filled ic ic1 (csum_ok fs ino ?nd) ino ?nd)\<rparr>)" "represents ch D" "like (ef_io fs) ch"
    by (rule read_inode_miss [OF inv there c(1,2) ic(2)])
  let ?ic = "slot_filled ic ic1 False ino ?nd"
  let ?fs = "fs\<lparr>ef_io := ch, ef_icache := Some ?ic\<rparr>"
  have "cached_inode (ic_cache ?ic) old = Some ?nd"
    using cached_inode_first [of "next_slot ic" "ic_cache ?ic" old] slot victim(1,2) by (simp add: slot_filled_def Let_def)
  then have "ext2fs_read_inode2 ?fs old bufsize nocsum' =
      Inr (None, take (min (unat (EXT2_INODE_SIZE (ef_super fs))) bufsize) ?nd, ext2fs_create_inode_cache ?fs 4)"
    using read_inode_hit [OF fs_ok_io [OF c(3) r(2,3)] victim(3), of "Some ?ic" ?ic ?nd bufsize nocsum'] victim(4)
    by (simp add: ext2fs_create_inode_cache_def)
  then show ?thesis using r(1) bad by auto
qed

text \<open>The small file system with checksums of metadata, which its inodes do not have.\<close>

definition csum_super :: ext2_super_block where
  "csum_super = small_fs_super\<lparr>s_feature_ro_compat := 0x400\<rparr>"

lemma csum_super_like:
  "EXT2_BLOCK_SIZE csum_super = EXT2_BLOCK_SIZE small_fs_super" "EXT2_INODE_SIZE csum_super = EXT2_INODE_SIZE small_fs_super"
  "EXT2_DESC_SIZE csum_super = EXT2_DESC_SIZE small_fs_super" "ext2fs_blocks_count csum_super = ext2fs_blocks_count small_fs_super"
  "ext2fs_has_feature_64bit csum_super = ext2fs_has_feature_64bit small_fs_super" "s_log_block_size csum_super = s_log_block_size small_fs_super"
  "s_inodes_per_group csum_super = s_inodes_per_group small_fs_super" "s_blocks_per_group csum_super = s_blocks_per_group small_fs_super"
  "s_inodes_count csum_super = s_inodes_count small_fs_super" "s_first_data_block csum_super = s_first_data_block small_fs_super"
  "inode_blocks_per_group csum_super = inode_blocks_per_group small_fs_super"
  "ext2fs_has_feature_journal_dev csum_super = ext2fs_has_feature_journal_dev small_fs_super"
  by (code_simp)+

lemma csum_super_geometry:
  "inode_table csum_super = inode_table small_fs_super" "inode_group csum_super = inode_group small_fs_super"
  "inode_offset csum_super = inode_offset small_fs_super" "inode_block csum_super = inode_block small_fs_super"
  "inode_bytes csum_super = inode_bytes small_fs_super" "sizes_ok csum_super = sizes_ok small_fs_super"
  "groups_ok csum_super = groups_ok small_fs_super"
  by (simp_all only: fun_eq_iff simp_thms inode_table_def inode_group_def inode_offset_def inode_block_def inode_bytes_def sizes_ok_def groups_ok_def csum_super_like)

text \<open>For some seed the checksum of inode 2 is 1 instead of 0.\<close>

lemma small_csum: "\<exists>seed. \<not> ext2fs_inode_csum_verify csum_super seed 2 small_inode"
proof -
  have csum: "ext2fs_has_feature_metadata_csum csum_super" by code_simp
  have field: "le16_at small_inode 0x7c = 0" "\<not> list_all (\<lambda>b. b = 0) (take 128 small_inode)" by (simp_all add: le16_at_def small_inode_def)
  obtain seed where "crc32c_bytes seed (le_of_word 4 (2 :: u32) @ le_of_word 4 (le32_at small_inode 0x64) @ take 128 (put_le 2 0x7c (0 :: u16) small_inode)) = 1"
    using crc32c_bytes_surj by blast
  then have "ext2fs_inode_csum csum_super seed 2 small_inode False = 1"
    by (simp add: ext2fs_inode_csum_def ext2fs_crc32c_le_bytes crc32c_bytes_append csum_super_like small_sizes Let_def)
  then have "\<not> ext2fs_inode_csum_verify csum_super seed 2 small_inode"
    using csum field by (simp add: ext2fs_inode_csum_verify_def inode_has_hi_def csum_super_like small_sizes)
  then show ?thesis by blast
qed

definition small_icache :: ext2_inode_cache where
  "small_icache = \<lparr>ic_buffer = [], ic_buffer_blk = 0, ic_cache_last = 3,
     ic_cache = map (\<lambda>k. \<lparr>ic_ino = k, ic_inode = inode_bytes small_fs_super small_desc (byte_block (small_image small_dir) 1024) k\<rparr>) [3, 4, 5, 6]\<rparr>"

lemma small_inodes:
  assumes "k \<in> {2, 3, 4, 5, 6}"
  shows "inode_group small_fs_super k = 0" "inode_block small_fs_super small_desc k = 3"
proof -
  have "inode_group small_fs_super 3 = 0" "inode_group small_fs_super 4 = 0" "inode_group small_fs_super 5 = 0" "inode_group small_fs_super 6 = 0"
    by code_simp+
  then show g: "inode_group small_fs_super k = 0" using assms small_sizes by auto
  have "inode_offset small_fs_super k < 1024" using assms by (auto simp: inode_offset_def small_sizes)
  then show "inode_block small_fs_super small_desc k = 3" by (simp add: inode_block_def g small_table small_checks)
qed

text \<open>With the inodes 3 to 6 in the cache, inode 2 has a bad checksum, and then inode 3 reads as inode 2.\<close>

theorem csum_failure_poisons_cache_witness:
  "\<exists>fs e buf fs' fs''. ext2fs_read_inode2 fs 2 128 False = Inr (e, buf, fs') \<and> ext2fs_read_inode2 fs' 3 128 False = Inr (None, small_inode, fs'')"
proof -
  obtain fs where o: "icache_fs_ok fs small_desc (byte_block (small_image small_dir) 1024)" "ef_super fs = small_fs_super" 
    "bd_rerr (ud_dev (ef_io fs)) = (\<lambda>l s. False)" "\<forall>b n. in_range (ef_io fs) b n \<longleftrightarrow> (unat b + n) * 1024 \<le> 8192"
    using small_opened by metis
  obtain seed where seed: "\<not> ext2fs_inode_csum_verify csum_super seed 2 small_inode" using small_csum by blast
  let ?fs = "fs\<lparr>ef_super := csum_super, ef_csum_seed := seed, ef_icache := Some small_icache\<rparr>" and ?D = "byte_block (small_image small_dir) 1024"
  have fs: "fs_ok fs small_desc ?D" using o(1) by (simp add: icache_fs_ok_def)
  have len: "length (inode_bytes small_fs_super small_desc ?D k) = 128" if "k \<in> {2, 3, 4, 5, 6}" for k
    using length_inode_bytes [OF fs, of k] o(2,4) small_inodes [OF that] by (simp add: small_sizes)
  have "fs_ok ?fs small_desc ?D" using fs o(2) by (simp add: fs_ok_def csum_super_like csum_super_geometry)
  then have inv: "icache_fs_ok ?fs small_desc ?D"
    using len by (auto simp: icache_fs_ok_def icache_ok_def small_icache_def small_sizes csum_super_like csum_super_geometry)
  have there: "inode_there ?fs small_desc 2"
    using o(2,4) small_inodes [of 2] by (simp add: inode_there_def Let_def csum_super_like csum_super_geometry small_sizes small_table word_le_nat_alt word_less_nat_alt)
  have inode: "inode_bytes csum_super small_desc ?D 2 = small_inode"
    using inode_bytes_on_disk [OF small_sizes_ok, of small_desc "small_image small_dir" 2] small_inode_bytes [of small_dir] len [of 2]
    by (simp add: small_checks small_sizes csum_super_geometry)
  have "\<exists>e buf fs' fs''. ext2fs_read_inode2 ?fs 2 128 False = Inr (e, buf, fs') \<and>
     ext2fs_read_inode2 fs' 3 128 False = Inr (None, take (min (unat (EXT2_INODE_SIZE (ef_super ?fs))) 128) (inode_bytes (ef_super ?fs) small_desc ?D 2), fs'')"
  proof (rule csum_failure_poisons_cache [OF inv, where ic = small_icache])
    show "\<not> csum_ok ?fs 2 (inode_bytes (ef_super ?fs) small_desc ?D 2)" using seed inode by simp
  qed (use there o(3) in \<open>auto simp: small_icache_def next_slot_def csum_super_like small_sizes word_le_nat_alt\<close>)
  then show ?thesis using inode by (simp add: csum_super_like small_sizes) blast
qed

text \<open>
  when a block of the inode table cannot be read, the buffer has been overwritten but keeps the
  number of the block it held before. An inode of that earlier block then reads, without an error, as what
  the failed request left in the buffer.
\<close>

theorem failed_read_poisons_buffer:
  assumes "unix_read_blk64 ch True b 1 = (Some e, ch1, data)" "b \<noteq> ic_buffer_blk ic" "0 < len" "off + len \<le> bs" "off' + len \<le> bs"
  shows "\<exists>ic'. copy_inode bs b off len ch ic [] = (Some e, ch1, ic', []) \<and>
    copy_inode bs (ic_buffer_blk ic) off' len ch1 ic' [] = (None, ch1, ic', take len (drop off' data))"
proof (intro exI conjI)
  let ?ic = "ic\<lparr>ic_buffer := data\<rparr>"
  show "copy_inode bs b off len ch ic [] = (Some e, ch1, ?ic, [])" using assms by (simp add: copy_inode.simps [of bs b])
  show "copy_inode bs (ic_buffer_blk ic) off' len ch1 ?ic [] = (None, ch1, ?ic, take len (drop off' data))"
    using assms(3,5) by (subst copy_inode.simps) (simp add: copy_inode.simps [of _ _ 0 0])
qed

definition bad_channel :: io_channel where
  "bad_channel = unix_open_channel False 0 \<lparr>bd_bytes = small_image small_dir, bd_rerr = (\<lambda>l s. l = 4096), bd_werr = (\<lambda>l s. True), bd_fsync = False\<rparr>"

text \<open>Block 4 cannot be read, and inode 2, whose block 3 is in the buffer, reads as zeros.\<close>

lemma bad_read: "unix_read_blk64 bad_channel True 4 1 = (Some EXT2_ET_IO, bad_channel\<lparr>ud_bytes_read := 1024\<rparr>, replicate 1024 0)"
proof -
  have "find_loop (replicate 8 (empty_cache 1024)) 4 0 None None = (None, Some 0)" by (simp add: empty_cache_def numeral_eq_Suc)
  then have "find_cached_block bad_channel 4 = (None, Some 0, bad_channel)"
    by (simp add: find_cached_block_def bad_channel_def unix_open_channel_def CACHE_SIZE_def)
  moreover have "raw_read_blk bad_channel True 4 1 = (Some EXT2_ET_IO, bad_channel\<lparr>ud_bytes_read := 1024\<rparr>, replicate 1024 0)"
    by (simp add: raw_read_blk_def bad_channel_def unix_open_channel_def req_size_def blk_location_def direct_io_def dev_read_def seek_read_def)
  moreover have "\<not> ud_nocache bad_channel" by (simp add: bad_channel_def unix_open_channel_def)
  ultimately show ?thesis by (simp add: unix_read_blk64_def WRITE_DIRECT_SIZE_def read_loop.simps)
qed

theorem failed_read_poisons_buffer_witness:
  "\<exists>ic'. copy_inode 1024 4 0 128 bad_channel (small_icache\<lparr>ic_buffer := byte_block (small_image small_dir) 1024 3, ic_buffer_blk := 3\<rparr>) [] =
      (Some EXT2_ET_IO, bad_channel\<lparr>ud_bytes_read := 1024\<rparr>, ic', []) \<and>
    copy_inode 1024 3 128 128 (bad_channel\<lparr>ud_bytes_read := 1024\<rparr>) ic' [] =
      (None, bad_channel\<lparr>ud_bytes_read := 1024\<rparr>, ic', replicate 128 0)"
  using failed_read_poisons_buffer [OF bad_read, of "small_icache\<lparr>ic_buffer := byte_block (small_image small_dir) 1024 3, ic_buffer_blk := 3\<rparr>" 128 0 1024 128]
  by simp

end
