(* ===== verification/Csum_Seal.thy ===== *)
theory Csum_Seal
  imports Disk_Blocks
begin

text \<open>
  The blocks and descriptors of \<^verbatim>\<open>Csum_Blocks\<close> with their checksums: what the functions that store a checksum leave passes
  the functions that check it, on a file system in order whose cache of inodes is used by both.
\<close>

unbundle bit_operations_syntax

section \<open>The inode a block belongs to\<close>

text \<open>The inode can be read and its own checksum matches.\<close>

definition owner_ok :: "ext2fs \<Rightarrow> byte list \<Rightarrow> disk \<Rightarrow> u32 \<Rightarrow> bool" where
  "owner_ok fs gd D ino \<longleftrightarrow>
     icache_fs_ok fs gd D \<and> inode_there fs gd ino \<and> (\<forall>l s. \<not> bd_rerr (ud_dev (ef_io fs)) l s) \<and> csum_ok fs ino (inode_bytes (ef_super fs) gd D ino)"

text \<open>The part of the checksum that the inode gives.\<close>

definition owner_seed :: "ext2fs \<Rightarrow> byte list \<Rightarrow> disk \<Rightarrow> u32 \<Rightarrow> u32" where
  "owner_seed fs gd D ino = inode_seed fs ino (take (min (unat (EXT2_INODE_SIZE (ef_super fs))) 128) (inode_bytes (ef_super fs) gd D ino))"

lemma owner_read:
  assumes "owner_ok fs gd D ino"
  obtains inode fs1 where "ext2fs_read_inode fs ino = Inr (None, inode, fs1)" "inode_seed fs ino inode = owner_seed fs gd D ino"
    "owner_ok fs1 gd D ino" "same_fs fs fs1" "owner_seed fs1 gd D ino = owner_seed fs gd D ino"
proof -
  let ?nd = "inode_bytes (ef_super fs) gd D ino"
  have o: "icache_fs_ok fs gd D" "inode_there fs gd ino" "\<forall>l s. \<not> bd_rerr (ud_dev (ef_io fs)) l s" "csum_ok fs ino ?nd"
    using assms by (simp_all add: owner_ok_def)
  obtain fs1 where r: "ext2fs_read_inode2 fs ino 128 False = Inr (None, take (min (unat (EXT2_INODE_SIZE (ef_super fs))) 128) ?nd, fs1)"
    "same_fs fs fs1" "icache_fs_ok fs1 gd D"
    using read_inode_spec [OF o(1-3), of False 128] o(4) by metis
  have s: "ef_super fs1 = ef_super fs" "ef_csum_seed fs1 = ef_csum_seed fs" "like (ef_io fs) (ef_io fs1)" using r(2) by (simp_all add: same_fs_def)
  show ?thesis
    by (rule that [of _ fs1])
      (use r o s same_fs_there [OF r(2)] like_geometry(6) [OF s(3)] in
        \<open>simp_all add: ext2fs_read_inode_def owner_seed_def owner_ok_def inode_seed_def\<close>)
qed

lemma owner_blocksize: "owner_ok fs gd D ino \<Longrightarrow> 1024 \<le> unat (ef_blocksize fs)"
  using read_inode_checks [of fs gd D ino] by (simp add: owner_ok_def icache_fs_ok_def inode_there_def Let_def word_less_nat_alt)

section \<open>Extent blocks\<close>

lemma extent_csum:
  assumes "owner_ok fs gd D ino" "EXT3_EXTENT_TAIL_OFFSET eh \<le> length eh"
  obtains fs1 where "ext2fs_extent_block_csum fs ino eh = Inr (Inr (crc32c_bytes (owner_seed fs gd D ino) (take (EXT3_EXTENT_TAIL_OFFSET eh) eh)), fs1)"
    "owner_ok fs1 gd D ino" "same_fs fs fs1" "owner_seed fs1 gd D ino = owner_seed fs gd D ino"
proof -
  obtain inode fs1 where r: "ext2fs_read_inode fs ino = Inr (None, inode, fs1)" "inode_seed fs ino inode = owner_seed fs gd D ino"
    "owner_ok fs1 gd D ino" "same_fs fs fs1" "owner_seed fs1 gd D ino = owner_seed fs gd D ino" by (rule owner_read [OF assms(1)])
  then show ?thesis using assms(2) by (intro that [of fs1]) (simp_all add: ext2fs_extent_block_csum_def ext2fs_crc32c_le_bytes)
qed

lemma tail_offset_put:
  "EXT3_EXTENT_TAIL_OFFSET eh + 4 \<le> length eh \<Longrightarrow> EXT3_EXTENT_TAIL_OFFSET (put_le 4 (EXT3_EXTENT_TAIL_OFFSET eh) v eh) = EXT3_EXTENT_TAIL_OFFSET eh"
  by (simp add: EXT3_EXTENT_TAIL_OFFSET_def eh_max_def le_at_put_le)

lemma extent_seal:
  assumes own: "owner_ok fs gd D ino" and csum: "ext2fs_has_feature_metadata_csum (ef_super fs)" and fits: "EXT3_EXTENT_TAIL_OFFSET eh + 4 \<le> length eh"
  obtains eh' fs' fs'' where "ext2fs_extent_block_csum_set fs ino eh = Inr (None, eh', fs')" "ext2fs_extent_block_csum_verify fs' ino eh' = Inr (True, fs'')"
    "length eh' = length eh" "take (EXT3_EXTENT_TAIL_OFFSET eh) eh' = take (EXT3_EXTENT_TAIL_OFFSET eh) eh" "owner_ok fs'' gd D ino"
proof -
  let ?t = "EXT3_EXTENT_TAIL_OFFSET eh" and ?c = "crc32c_bytes (owner_seed fs gd D ino) (take (EXT3_EXTENT_TAIL_OFFSET eh) eh)"
  obtain fs1 where s: "ext2fs_extent_block_csum fs ino eh = Inr (Inr ?c, fs1)" "owner_ok fs1 gd D ino" "same_fs fs fs1"
    "owner_seed fs1 gd D ino = owner_seed fs gd D ino"
    using extent_csum [OF own, of eh] fits by auto
  let ?e = "put_le 4 ?t ?c eh"
  have t: "EXT3_EXTENT_TAIL_OFFSET ?e = ?t" by (rule tail_offset_put [OF fits])
  obtain fs2 where v: "ext2fs_extent_block_csum fs1 ino ?e = Inr (Inr (crc32c_bytes (owner_seed fs1 gd D ino) (take ?t ?e)), fs2)" "owner_ok fs2 gd D ino"
    using extent_csum [OF s(2), of ?e] fits t by auto
  have "take ?t ?e = take ?t eh" using fits by (simp add: take_put_le)
  moreover have "word_of_le (take 4 (drop ?t ?e)) = ?c" using fits by (simp add: word_of_field)
  moreover have "ext2fs_has_feature_metadata_csum (ef_super fs1)" using csum s(3) by (simp add: same_fs_def)
  ultimately show ?thesis
    by (intro that [of ?e fs1 fs2])
      (use csum s v t fits in \<open>simp_all add: ext2fs_extent_block_csum_set_def ext2fs_extent_block_csum_verify_def\<close>)
qed

section \<open>Directory blocks\<close>

text \<open>A store into the checksum of the tail does not change where the entries end.\<close>

lemma tail_loop_put:
  assumes "stop + 12 \<le> length blk"
  shows "tail_loop (put_le 4 (stop + 8) v blk) stop d = tail_loop blk stop d"
  using assms
proof (induction blk stop d rule: tail_loop.induct)
  case (1 blk stop d)
  show ?case
  proof (cases "d < stop")
    case True
    then have "le16_at (put_le 4 (stop + 8) v blk) (d + 4) = le16_at blk (d + 4)" using 1(2) by (intro le_at_put_le) auto
    then show ?thesis using 1 True by (simp add: tail_loop.simps [of _ stop d] Let_def)
  next
    case False
    then show ?thesis by (simp add: tail_loop.simps [of _ stop d])
  qed
qed

lemma dirent_tail_at: "get_dirent_tail fs blk = Inr t \<Longrightarrow> t = unat (ef_blocksize fs) - 12 \<and> 1024 \<le> unat (ef_blocksize fs)"
  by (auto simp: get_dirent_tail_def Let_def split: if_split_asm option.split_asm)

lemma dirent_tail_put:
  assumes "get_dirent_tail fs blk = Inr t" "length blk = unat (ef_blocksize fs)"
  shows "get_dirent_tail fs (put_le 4 (t + 8) v blk) = Inr t"
proof -
  have t: "t = unat (ef_blocksize fs) - 12" "t + 12 = length blk" using dirent_tail_at [OF assms(1)] assms(2) by auto
  have "tail_loop (put_le 4 (t + 8) v blk) t 0 = tail_loop blk t 0" using t(2) by (intro tail_loop_put) simp
  moreover have "le32_at (put_le 4 (t + 8) v blk) t = le32_at blk t" "le16_at (put_le 4 (t + 8) v blk) (t + 4) = le16_at blk (t + 4)"
    "le16_at (put_le 4 (t + 8) v blk) (t + 6) = le16_at blk (t + 6)" using t(2) by (simp_all add: le_at_put_le)
  ultimately show ?thesis using assms(1) t(1) by (auto simp: get_dirent_tail_def Let_def split: if_split_asm option.splits)
qed

lemma dirent_csum:
  assumes "owner_ok fs gd D ino" "n \<le> length blk"
  obtains fs1 where "ext2fs_dirent_csum fs ino blk n = Inr (Inr (crc32c_bytes (owner_seed fs gd D ino) (take n blk)), fs1)"
    "owner_ok fs1 gd D ino" "same_fs fs fs1" "owner_seed fs1 gd D ino = owner_seed fs gd D ino"
proof -
  obtain inode fs1 where r: "ext2fs_read_inode fs ino = Inr (None, inode, fs1)" "inode_seed fs ino inode = owner_seed fs gd D ino"
    "owner_ok fs1 gd D ino" "same_fs fs fs1" "owner_seed fs1 gd D ino = owner_seed fs gd D ino" by (rule owner_read [OF assms(1)])
  then show ?thesis using assms(2) by (intro that [of fs1]) (simp_all add: ext2fs_dirent_csum_def ext2fs_crc32c_le_bytes)
qed

lemma same_fs_tail: "same_fs fs fs' \<Longrightarrow> get_dirent_tail fs' blk = get_dirent_tail fs blk" "same_fs fs fs' \<Longrightarrow> get_dx_countlimit fs' blk = get_dx_countlimit fs blk"
  by (simp_all add: same_fs_def get_dirent_tail_def get_dx_countlimit_def)

lemma dirent_seal:
  assumes own: "owner_ok fs gd D ino" and tail: "get_dirent_tail fs blk = Inr t" and len: "length blk = unat (ef_blocksize fs)"
  obtains blk' fs' fs'' where "ext2fs_dirent_csum_set fs ino blk = Inr (None, blk', fs')" "ext2fs_dirent_csum_verify fs' ino blk' = Inr (True, fs'')"
    "length blk' = length blk" "get_dirent_tail fs' blk' = Inr t" "take t blk' = take t blk" "same_fs fs fs'"
proof -
  let ?c = "crc32c_bytes (owner_seed fs gd D ino) (take t blk)"
  have t: "t + 12 = length blk" using dirent_tail_at [OF tail] len by auto
  obtain fs1 where s: "ext2fs_dirent_csum fs ino blk t = Inr (Inr ?c, fs1)" "owner_ok fs1 gd D ino" "same_fs fs fs1" "owner_seed fs1 gd D ino = owner_seed fs gd D ino"
    by (rule dirent_csum [OF own, of t blk]) (use t in auto)
  let ?b = "put_le 4 (t + 8) ?c blk"
  have tl: "get_dirent_tail fs1 ?b = Inr t" using dirent_tail_put [OF tail len] same_fs_tail(1) [OF s(3)] by simp
  have tk: "take t ?b = take t blk" using t by (simp add: take_put_le)
  obtain fs2 where v: "ext2fs_dirent_csum fs1 ino ?b t = Inr (Inr ?c, fs2)"
    by (rule dirent_csum [OF s(2), of t ?b]) (use t tk s(4) in auto)
  have "le32_at ?b (t + 8) = ?c" using t by (simp add: le_at_put_same)
  then show ?thesis
    by (intro that [of ?b fs1 fs2]) (use s tail tl tk v t in \<open>simp_all add: ext2fs_dirent_csum_set_def ext2fs_dirent_csum_verify_def\<close>)
qed

text \<open>An index block: the table begins with its limit and count, and ends where its tail begins.\<close>

lemma dx_countlimit_at:
  assumes "get_dx_countlimit fs blk = Inr co"
  shows "co = 8 \<and> unat (le16_at blk 4) = unat (ef_blocksize fs) \<or>
    co = 32 \<and> unat (le16_at blk 4) = 12 \<and> unat (le16_at blk 16) = unat (ef_blocksize fs) - 12"
  using assms by (auto simp: get_dx_countlimit_def Let_def split: if_split_asm)

lemma dx_countlimit_put:
  assumes "get_dx_countlimit fs blk = Inr co" "co + 4 \<le> off" "off + 4 \<le> length blk"
  shows "get_dx_countlimit fs (put_le 4 off v blk) = Inr co"
proof -
  have co: "8 \<le> co" "co \<noteq> 8 \<Longrightarrow> co = 32" using dx_countlimit_at [OF assms(1)] by auto
  then have "le16_at (put_le 4 off v blk) 4 = le16_at blk 4" "le16_at (put_le 4 off v blk) 6 = le16_at blk 6"
    "le16_at (put_le 4 off v blk) co = le16_at blk co" "le16_at (put_le 4 off v blk) (co + 2) = le16_at blk (co + 2)"
    using assms(2,3) by (simp_all add: le_at_put_le)
  moreover have "le16_at (put_le 4 off v blk) 16 = le16_at blk 16" "le32_at (put_le 4 off v blk) 24 = le32_at blk 24" "put_le 4 off v blk ! 29 = blk ! 29"
    if "co = 32" using that assms(2,3) by (simp_all add: le_at_put_le nth_put_le)
  ultimately show ?thesis using assms(1) by (auto simp: get_dx_countlimit_def Let_def split: if_split_asm)
qed

text \<open>Its entries span the block, so that it has no tail of a leaf.\<close>

lemma dx_no_tail:
  assumes "get_dx_countlimit fs blk = Inr co" "1024 \<le> unat (ef_blocksize fs)"
  shows "isl (get_dirent_tail fs blk)"
proof -
  let ?bs = "unat (ef_blocksize fs)"
  have step: "tail_loop blk (?bs - 12) d = (if le16_at blk (d + 4) < 8 \<or> le16_at blk (d + 4) AND 3 \<noteq> 0 then None
      else tail_loop blk (?bs - 12) (d + unat (le16_at blk (d + 4))))" if "d \<le> 12" for d
  proof -
    have "d < ?bs - 12" using that assms(2) by simp
    then show ?thesis by (subst tail_loop.simps) (simp add: Let_def)
  qed
  have stop: "tail_loop blk (?bs - 12) ?bs = Some ?bs"
  proof -
    have "\<not> ?bs < ?bs - 12" by linarith
    then show ?thesis by (subst tail_loop.simps) simp
  qed
  have "tail_loop blk (?bs - 12) 0 \<in> {None, Some ?bs}"
  proof (cases "unat (le16_at blk 4) = ?bs")
    case True
    then show ?thesis using step [of 0] stop by simp
  next
    case False
    then have "unat (le16_at blk 4) = 12" "12 + unat (le16_at blk 16) = ?bs" using dx_countlimit_at [OF assms(1)] assms(2) by auto
    then show ?thesis using step [of 0] step [of 12] stop by simp
  qed
  then show ?thesis using assms(2) by (auto simp: get_dirent_tail_def Let_def)
qed

lemma dx_csum:
  assumes own: "owner_ok fs gd D ino" and dx: "get_dx_countlimit fs blk = Inr co" and len: "length blk = unat (ef_blocksize fs)"
    and fits: "co + unat (le16_at blk co) * 8 \<le> unat (ef_blocksize fs) - 8" and count: "le16_at blk (co + 2) \<le> le16_at blk co"
  obtains fs1 where "ext2fs_dx_csum fs ino blk = Inr (Inr (crc32c_bytes (owner_seed fs gd D ino)
       (take (co + unat (le16_at blk (co + 2)) * 8) blk @ take 4 (drop (co + unat (le16_at blk co) * 8) blk) @ replicate 4 0), co + unat (le16_at blk co) * 8), fs1)"
    "owner_ok fs1 gd D ino" "same_fs fs fs1" "owner_seed fs1 gd D ino = owner_seed fs gd D ino"
proof -
  obtain inode fs1 where r: "ext2fs_read_inode fs ino = Inr (None, inode, fs1)" "inode_seed fs ino inode = owner_seed fs gd D ino"
    "owner_ok fs1 gd D ino" "same_fs fs fs1" "owner_seed fs1 gd D ino = owner_seed fs gd D ino" by (rule owner_read [OF own])
  have bs: "1024 \<le> unat (ef_blocksize fs)" by (rule owner_blocksize [OF own])
  have "unat (le16_at blk (co + 2)) \<le> unat (le16_at blk co)" using count by (simp add: word_le_nat_alt)
  then have "co + unat (le16_at blk (co + 2)) * 8 \<le> length blk" "co + unat (le16_at blk co) * 8 + 4 \<le> length blk" using fits len bs by linarith+
  then show ?thesis using r dx fits
    by (intro that [of fs1]) (simp_all add: ext2fs_dx_csum_def Let_def ext2fs_crc32c_le_bytes crc32c_bytes_append not_less)
qed

lemma dx_seal:
  assumes own: "owner_ok fs gd D ino" and dx: "get_dx_countlimit fs blk = Inr co" and len: "length blk = unat (ef_blocksize fs)"
    and fits: "co + unat (le16_at blk co) * 8 \<le> unat (ef_blocksize fs) - 8" and count: "le16_at blk (co + 2) \<le> le16_at blk co"
  obtains blk' fs' fs'' where "ext2fs_dx_csum_set fs ino blk = Inr (None, blk', fs')" "ext2fs_dx_csum_verify fs' ino blk' = Inr (True, fs'')"
    "length blk' = length blk" "get_dx_countlimit fs' blk' = Inr co" "same_fs fs fs'"
proof -
  let ?t = "co + unat (le16_at blk co) * 8" and ?n = "co + unat (le16_at blk (co + 2)) * 8"
  let ?c = "crc32c_bytes (owner_seed fs gd D ino) (take ?n blk @ take 4 (drop ?t blk) @ replicate 4 0)"
  obtain fs1 where s: "ext2fs_dx_csum fs ino blk = Inr (Inr (?c, ?t), fs1)" "owner_ok fs1 gd D ino" "same_fs fs fs1"
    "owner_seed fs1 gd D ino = owner_seed fs gd D ino" by (rule dx_csum [OF assms])
  have bs: "1024 \<le> unat (ef_blocksize fs)" by (rule owner_blocksize [OF own])
  have t: "?t + 8 \<le> length blk" using fits len bs by linarith
  have n: "?n \<le> ?t" using count by (simp add: word_le_nat_alt)
  let ?b = "put_le 4 (?t + 4) ?c blk"
  have at: "le16_at ?b co = le16_at blk co" "le16_at ?b (co + 2) = le16_at blk (co + 2)" using t by (simp_all add: le_at_put_le)
  have d1: "get_dx_countlimit fs1 ?b = Inr co" using dx_countlimit_put [OF dx, of "?t + 4" ?c] t same_fs_tail(2) [OF s(3)] by simp
  have same: "ef_blocksize fs1 = ef_blocksize fs" using s(3) by (simp add: same_fs_def)
  have bytes: "take ?n ?b = take ?n blk" "take 4 (drop ?t ?b) = take 4 (drop ?t blk)" using t n by (simp_all add: take_put_le field_put_le)
  obtain fs2 where v: "ext2fs_dx_csum fs1 ino ?b = Inr (Inr (?c, ?t), fs2)"
    by (rule dx_csum [OF s(2) d1]) (use t len same fits count at bytes s(4) in simp_all)
  have "le32_at ?b (?t + 4) = ?c" using t by (simp add: le_at_put_same)
  then show ?thesis
    by (intro that [of ?b fs1 fs2]) (use s d1 v t in \<open>simp_all add: ext2fs_dx_csum_set_def ext2fs_dx_csum_verify_def\<close>)
qed

section \<open>Other sealed structures\<close>

interpretation desc_seal: sealed 2 "0x1e" len "desc_csum sb seed grp"
proof
  fix buf :: "byte list" and v :: u16
  assume "length buf = len" "(0x1e :: nat) + 2 \<le> len"
  then show "desc_csum sb seed grp (put_le 2 0x1e v buf) = desc_csum sb seed grp buf"
    by (simp add: desc_csum_def put_le_put_le take_put_le drop_put_le Let_def)
qed simp

interpretation ea_seal: tamper_evident 4 16 "unat (ef_blocksize fs)" "ext2fs_ext_attr_block_csum fs block"
proof
  let ?seed = "crc32c_bytes (ef_csum_seed fs) (le_of_word 8 block)" and ?z = "put_le 4 16 (0 :: u32)"
  fix buf :: "byte list" and v :: u32
  assume "length buf = unat (ef_blocksize fs)" "16 + 4 \<le> unat (ef_blocksize fs)"
  then show "ext2fs_ext_attr_block_csum fs block (put_le 4 16 v buf) = ext2fs_ext_attr_block_csum fs block buf"
    by (simp add: ext2fs_ext_attr_block_csum_def put_le_put_le)
next
  let ?seed = "crc32c_bytes (ef_csum_seed fs) (le_of_word 8 block)" and ?z = "put_le 4 16 (0 :: u32)"
  fix a mid b mid' :: "byte list"
  assume a: "length (a @ mid @ b) = unat (ef_blocksize fs)" "length mid' = length mid" "length mid \<le> 4" "mid' \<noteq> mid"
    "16 + 4 \<le> unat (ef_blocksize fs)" "length a + length mid \<le> 16 \<or> 16 + 4 \<le> length a"
  have "\<exists>x y. \<forall>m. length m = length mid \<longrightarrow> ?z (a @ m @ b) = x @ m @ y"
    using a(6)
  proof
    assume before: "length a + length mid \<le> 16"
    then have "?z (a @ m @ b) = a @ m @ take (16 - length a - length mid) b @ le_of_word 4 (0 :: u32) @ drop (20 - length a - length mid) b"
      if "length m = length mid" for m using that by (simp add: put_le_def)
    then show ?thesis by blast
  next
    assume after: "16 + 4 \<le> length a"
    then have "?z (a @ m @ b) = ?z a @ m @ b" for m by (simp add: put_le_def)
    then show ?thesis by blast
  qed
  then obtain x y where xy: "\<And>m. length m = length mid \<Longrightarrow> ?z (a @ m @ b) = x @ m @ y" by blast
  have diff: "crc32c_bytes ?seed (x @ mid' @ y) \<noteq> crc32c_bytes ?seed (x @ mid @ y)" by (rule crc32c_burst) (use a in simp_all)
  have whole: "take (unat (ef_blocksize fs)) (?z (a @ m @ b)) = x @ m @ y" if "length m = length mid" for m
  proof -
    have "length (?z (a @ m @ b)) = unat (ef_blocksize fs)" using a(1,5) that by simp
    then show ?thesis using xy [OF that] by simp
  qed
  show "ext2fs_ext_attr_block_csum fs block (a @ mid' @ b) \<noteq> ext2fs_ext_attr_block_csum fs block (a @ mid @ b)"
    using diff unfolding ext2fs_ext_attr_block_csum_def ext2fs_crc32c_le_bytes whole [OF a(2)] whole [OF refl] .
qed simp

interpretation mmp_seal: tamper_evident 4 "0x3fc" 1024 "ext2fs_mmp_csum fs"
  unfolding ext2fs_mmp_csum_def [abs_def] using prefix_crc_seal [of "0x3fc" "ef_csum_seed fs"] by simp

text \<open>Blocks of extended attributes and of multi-mount protection: what is stored passes, and a small change does not.\<close>

lemma ea_block_seal:
  assumes "length hdr = unat (ef_blocksize fs)" "20 \<le> unat (ef_blocksize fs)"
  shows "ext2fs_ext_attr_block_csum_verify fs block (ext2fs_ext_attr_block_csum_set fs block hdr)"
  using ea_seal.sealed_verifies [OF assms(1), of block] assms(2)
  by (simp add: ext2fs_ext_attr_block_csum_verify_def ext2fs_ext_attr_block_csum_set_def le32_at_def)

lemma mmp_block_seal: "length mmp = 1024 \<Longrightarrow> ext2fs_mmp_csum_verify fs (ext2fs_mmp_csum_set fs mmp)"
  using mmp_seal.sealed_verifies [of mmp fs] by (simp add: ext2fs_mmp_csum_verify_def ext2fs_mmp_csum_set_def le32_at_def)

lemma ea_block_change_detected:
  assumes "ext2fs_has_feature_metadata_csum (ef_super fs)" "ext2fs_ext_attr_block_csum_verify fs block (a @ mid @ b)"
    "length (a @ mid @ b) = unat (ef_blocksize fs)" "length mid' = length mid" "length mid \<le> 4" "mid' \<noteq> mid" "20 \<le> unat (ef_blocksize fs)"
    "length a + length mid \<le> 16 \<or> 20 \<le> length a"
  shows "\<not> ext2fs_ext_attr_block_csum_verify fs block (a @ mid' @ b)"
  using ea_seal.broken_seal [OF assms(3-6), of block] assms(1,2,7,8) by (simp add: ext2fs_ext_attr_block_csum_verify_def le32_at_def)

section \<open>Group descriptors and bitmaps\<close>

abbreviation desc_at :: "ext2_super_block \<Rightarrow> byte list \<Rightarrow> u32 \<Rightarrow> byte list" where
  "desc_at sb gd grp \<equiv> take (unat (EXT2_DESC_SIZE sb)) (drop (unat grp * unat (EXT2_DESC_SIZE sb)) gd)"

lemma part_put_le:
  "k + n \<le> d \<Longrightarrow> a + d \<le> length buf \<Longrightarrow> take d (drop a (put_le n (a + k) v buf)) = put_le n k v (take d (drop a buf))"
proof -
  assume a: "k + n \<le> d" "a + d \<le> length buf"
  have "drop a (put_le n (a + k) v buf) = put_le n k v (drop a buf)" using a by (simp add: put_le_def drop_take add.assoc [symmetric] add.commute [of _ a])
  moreover have "take d (put_le n k v xs) = put_le n k v (take d xs)" if "d \<le> length xs" for xs
    using a(1) that by (simp add: put_le_def drop_take min.absorb1 min.absorb2)
  ultimately show ?thesis using a by simp
qed

lemma other_desc:
  assumes "grp \<noteq> g" "k + n \<le> unat (EXT2_DESC_SIZE sb)" "unat grp * unat (EXT2_DESC_SIZE sb) + unat (EXT2_DESC_SIZE sb) \<le> length gd"
  shows "desc_at sb (put_le n (unat grp * unat (EXT2_DESC_SIZE sb) + k) v gd) g = desc_at sb gd g"
proof (rule field_put_le)
  let ?d = "unat (EXT2_DESC_SIZE sb)"
  show "unat grp * ?d + k + n \<le> length gd" using assms(2,3) by linarith
  have "unat grp < unat g \<or> unat g < unat grp" using assms(1) by (auto simp: word_unat_eq_iff)
  then show "unat g * ?d + ?d \<le> unat grp * ?d + k \<or> unat grp * ?d + k + n \<le> unat g * ?d"
  proof
    assume "unat grp < unat g"
    then have "(unat grp + 1) * ?d \<le> unat g * ?d" by (intro mult_le_mono1) simp
    then show ?thesis using assms(2) by simp
  next
    assume "unat g < unat grp"
    then have "(unat g + 1) * ?d \<le> unat grp * ?d" by (intro mult_le_mono1) simp
    then show ?thesis by simp
  qed
qed

lemma put_desc_ok:
  assumes "fs_ok fs gd D" "off + 2 \<le> length gd"
  shows "put_desc gd off v fs = Inr (put_le 2 off v gd, fs\<lparr>ef_group_desc := Some (put_le 2 off v gd)\<rparr>)"
    "fs_ok (fs\<lparr>ef_group_desc := Some (put_le 2 off v gd)\<rparr>) (put_le 2 off v gd) D"
  using assms by (simp_all add: put_desc_def fs_ok_def Let_def)

lemma desc_size: "fs_ok fs gd D \<Longrightarrow> 32 \<le> unat (EXT2_DESC_SIZE (ef_super fs))"
  by (simp add: fs_ok_def sizes_ok_def)

text \<open>A store into the descriptor of a group.\<close>

lemma desc_store:
  assumes ok: "fs_ok fs gd D" and g: "unat grp < unat (ef_group_desc_count fs)" and k: "k + 2 \<le> unat (EXT2_DESC_SIZE (ef_super fs))"
  obtains fs' gd' where "put_desc gd (unat grp * unat (EXT2_DESC_SIZE (ef_super fs)) + k) v fs = Inr (gd', fs')" "fs' = fs\<lparr>ef_group_desc := Some gd'\<rparr>"
    "fs_ok fs' gd' D" "desc_at (ef_super fs) gd' grp = put_le 2 k v (desc_at (ef_super fs) gd grp)"
    "\<forall>g. g \<noteq> grp \<longrightarrow> desc_at (ef_super fs) gd' g = desc_at (ef_super fs) gd g"
proof -
  let ?d = "unat (EXT2_DESC_SIZE (ef_super fs))"
  let ?gd = "put_le 2 (unat grp * ?d + k) v gd"
  have fits: "unat grp * ?d + ?d \<le> length gd" by (rule group_desc_at(2) [OF ok g])
  then have "unat grp * ?d + k + 2 \<le> length gd" using k by linarith
  note put = put_desc_ok [OF ok this]
  have "desc_at (ef_super fs) ?gd g = desc_at (ef_super fs) gd g" if "g \<noteq> grp" for g
    by (rule other_desc [OF _ k fits]) (use that in simp)
  then show ?thesis by (intro that [OF put(1) refl put(2) part_put_le [OF k fits]]) simp
qed

lemma le16_desc: "k + 2 \<le> d \<Longrightarrow> word_of_le (take 2 (drop (a + k) gd)) = le16_at (take d (drop a gd)) k"
  by (simp add: le16_at_def drop_take take_take min_def add.commute)

text \<open>Checking and storing the checksum of a bitmap, on the bytes of a descriptor.\<close>

definition bitmap_matches :: "nat \<Rightarrow> nat \<Rightarrow> bool \<Rightarrow> u32 \<Rightarrow> byte list \<Rightarrow> bool" where
  "bitmap_matches lo hi wide crc desc \<longleftrightarrow>
     (if wide then ucast (le16_at desc lo) OR push_bit 16 (ucast (le16_at desc hi)) = crc else ucast (le16_at desc lo) = crc AND 0xFFFF)"

definition bitmap_stored :: "nat \<Rightarrow> nat \<Rightarrow> bool \<Rightarrow> u32 \<Rightarrow> byte list \<Rightarrow> byte list" where
  "bitmap_stored lo hi wide crc desc =
     (let desc1 = put_le 2 lo (ucast (crc AND 0xFFFF) :: u16) desc in if wide then put_le 2 hi (ucast (drop_bit 16 crc) :: u16) desc1 else desc1)"

lemma stored_matches: "lo + 2 \<le> hi \<Longrightarrow> (if wide then hi else lo) + 2 \<le> length desc \<Longrightarrow> bitmap_matches lo hi wide crc (bitmap_stored lo hi wide crc desc)"
  using crc_halves [of crc] crc_low_half [of crc] by (auto simp: bitmap_matches_def bitmap_stored_def Let_def le_at_put_le le_at_put_same)

lemma matches_put:
  "off + 2 \<le> length desc \<Longrightarrow> lo + 2 \<le> off \<or> off + 2 \<le> lo \<Longrightarrow> wide \<Longrightarrow> hi + 2 \<le> off \<or> off + 2 \<le> hi \<Longrightarrow>
   bitmap_matches lo hi wide crc (put_le 2 off v desc) = bitmap_matches lo hi wide crc desc"
  "off + 2 \<le> length desc \<Longrightarrow> lo + 2 \<le> off \<or> off + 2 \<le> lo \<Longrightarrow> \<not> wide \<Longrightarrow>
   bitmap_matches lo hi wide crc (put_le 2 off v desc) = bitmap_matches lo hi wide crc desc"
  by (simp_all add: bitmap_matches_def le_at_put_le)

lemma bitmap_verify:
  assumes ok: "fs_ok fs gd D" and g: "unat grp < unat (ef_group_desc_count fs)" and csum: "ext2fs_has_feature_metadata_csum (ef_super fs)"
    and at: "lo + 2 \<le> 32" "hi + 2 \<le> unat he"
  shows "bitmap_csum_verify lo hi he fs grp bitmap =
    Inr (bitmap_matches lo hi (he \<le> EXT2_DESC_SIZE (ef_super fs)) (ext2fs_crc32c_le 0 (ef_csum_seed fs) bitmap) (desc_at (ef_super fs) gd grp), fs)"
proof -
  let ?d = "unat (EXT2_DESC_SIZE (ef_super fs))"
  have fits: "unat grp * ?d + ?d \<le> length gd" "32 \<le> ?d" using group_desc_at(2) [OF ok g] desc_size [OF ok] by simp_all
  have lo: "lo + 2 \<le> ?d" using fits(2) at(1) by linarith
  have hi: "hi + 2 \<le> ?d" if "he \<le> EXT2_DESC_SIZE (ef_super fs)" using that at(2) by (simp add: word_le_nat_alt)
  show ?thesis using csum group_desc_at(1) [OF ok g] lo hi fits(1)
    by (auto simp: bitmap_csum_verify_def bitmap_matches_def Let_def le16_desc)
qed

lemma bitmap_set:
  assumes ok: "fs_ok fs gd D" and g: "unat grp < unat (ef_group_desc_count fs)" and csum: "ext2fs_has_feature_metadata_csum (ef_super fs)"
    and at: "lo + 2 \<le> 32" "hi + 2 \<le> unat he"
  obtains fs' gd' where "bitmap_csum_set lo hi he fs grp bitmap = Inr fs'" "fs' = fs\<lparr>ef_group_desc := Some gd'\<rparr>" "fs_ok fs' gd' D"
    "desc_at (ef_super fs) gd' grp =
       bitmap_stored lo hi (he \<le> EXT2_DESC_SIZE (ef_super fs)) (ext2fs_crc32c_le 0 (ef_csum_seed fs) bitmap) (desc_at (ef_super fs) gd grp)"
    "\<forall>g. g \<noteq> grp \<longrightarrow> desc_at (ef_super fs) gd' g = desc_at (ef_super fs) gd g"
proof -
  let ?d = "unat (EXT2_DESC_SIZE (ef_super fs))" and ?c = "ext2fs_crc32c_le 0 (ef_csum_seed fs) bitmap"
  have lo: "lo + 2 \<le> ?d" using desc_size [OF ok] at(1) by linarith
  obtain fs1 gd1 where s: "put_desc gd (unat grp * ?d + lo) (ucast (?c AND 0xFFFF)) fs = Inr (gd1, fs1)" "fs1 = fs\<lparr>ef_group_desc := Some gd1\<rparr>"
    "fs_ok fs1 gd1 D" "desc_at (ef_super fs) gd1 grp = put_le 2 lo (ucast (?c AND 0xFFFF) :: u16) (desc_at (ef_super fs) gd grp)"
    "\<forall>g. g \<noteq> grp \<longrightarrow> desc_at (ef_super fs) gd1 g = desc_at (ef_super fs) gd g" by (rule desc_store [OF ok g lo])
  note def = bitmap_csum_set_def bitmap_stored_def Let_def group_desc_at(1) [OF ok g]
  show ?thesis
  proof (cases "he \<le> EXT2_DESC_SIZE (ef_super fs)")
    case True
    have hi: "hi + 2 \<le> unat (EXT2_DESC_SIZE (ef_super fs1))" using True at(2) s(2) by (simp add: word_le_nat_alt)
    have g1: "unat grp < unat (ef_group_desc_count fs1)" "ef_super fs1 = ef_super fs" using g s(2) by simp_all
    obtain fs2 gd2 where t: "put_desc gd1 (unat grp * ?d + hi) (ucast (drop_bit 16 ?c)) fs1 = Inr (gd2, fs2)" "fs2 = fs1\<lparr>ef_group_desc := Some gd2\<rparr>"
      "fs_ok fs2 gd2 D" "desc_at (ef_super fs) gd2 grp = put_le 2 hi (ucast (drop_bit 16 ?c) :: u16) (desc_at (ef_super fs) gd1 grp)"
      "\<forall>g. g \<noteq> grp \<longrightarrow> desc_at (ef_super fs) gd2 g = desc_at (ef_super fs) gd1 g"
      by (rule desc_store [OF s(3) g1(1) hi, unfolded g1(2)])
    show ?thesis by (rule that [of fs2 gd2]) (use True csum s t in \<open>simp_all add: def\<close>)
  next
    case False
    then show ?thesis by (intro that [of fs1 gd1]) (use csum s in \<open>simp_all add: def\<close>)
  qed
qed

lemma desc_verify:
  assumes ok: "fs_ok fs gd D" and g: "unat grp < unat (ef_group_desc_count fs)" and csum: "ext2fs_has_group_desc_csum (ef_super fs)"
  shows "ext2fs_group_desc_csum_verify fs grp =
    Inr (le16_at (desc_at (ef_super fs) gd grp) 0x1e = desc_csum (ef_super fs) (ef_csum_seed fs) grp (desc_at (ef_super fs) gd grp), fs)"
  using csum group_desc_at [OF ok g] desc_size [OF ok]
  by (simp add: ext2fs_group_desc_csum_verify_def ext2fs_bg_checksum_def ext2fs_group_desc_csum_def le16_desc)

lemma desc_set:
  assumes ok: "fs_ok fs gd D" and g: "unat grp < unat (ef_group_desc_count fs)" and csum: "ext2fs_has_group_desc_csum (ef_super fs)"
  obtains fs' gd' where "ext2fs_group_desc_csum_set fs grp = Inr fs'" "fs' = fs\<lparr>ef_group_desc := Some gd'\<rparr>" "fs_ok fs' gd' D"
    "desc_at (ef_super fs) gd' grp =
       put_le 2 0x1e (desc_csum (ef_super fs) (ef_csum_seed fs) grp (desc_at (ef_super fs) gd grp)) (desc_at (ef_super fs) gd grp)"
    "\<forall>g. g \<noteq> grp \<longrightarrow> desc_at (ef_super fs) gd' g = desc_at (ef_super fs) gd g"
proof -
  let ?d = "unat (EXT2_DESC_SIZE (ef_super fs))" and ?desc = "desc_at (ef_super fs) gd grp"
  let ?c = "desc_csum (ef_super fs) (ef_csum_seed fs) grp ?desc"
  have k: "0x1e + 2 \<le> ?d" using desc_size [OF ok] by simp
  obtain fs' gd' where s: "put_desc gd (unat grp * ?d + 0x1e) ?c fs = Inr (gd', fs')" "fs' = fs\<lparr>ef_group_desc := Some gd'\<rparr>" "fs_ok fs' gd' D"
    "desc_at (ef_super fs) gd' grp = put_le 2 0x1e ?c ?desc" "\<forall>g. g \<noteq> grp \<longrightarrow> desc_at (ef_super fs) gd' g = desc_at (ef_super fs) gd g"
    by (rule desc_store [OF ok g k])
  show ?thesis
    by (rule that [of fs' gd'])
      (use s csum group_desc_at [OF ok g] in \<open>simp_all add: ext2fs_group_desc_csum_set_def ext2fs_group_desc_csum_def\<close>)
qed

section \<open>Properties\<close>

text \<open>
  C19: \<open>ext2fs_dir_block_csum_set\<close> returns for every block of a directory whose inode can be read. It
  succeeds when the block has a tail, or is an index block with room for one, and then the block
  passes \<open>ext2fs_dir_block_csum_verify\<close>, also after the reads changed the cache of inodes; otherwise the
  block is left as it was. (In an index block the number of entries must not be above its limit.)
\<close>

theorem dir_block_csum_roundtrip:
  assumes own: "owner_ok fs gd D ino" and len: "length blk = unat (ef_blocksize fs)"
    and csum: "ext2fs_has_feature_metadata_csum (ef_super fs)" "\<not> flag (ef_flags fs) EXT2_FLAG_IGNORE_CSUM_ERRORS"
    and count: "\<forall>co. get_dx_countlimit fs blk = Inr co \<longrightarrow> le16_at blk (co + 2) \<le> le16_at blk co"
  shows "\<exists>e blk' fs'. ext2fs_dir_block_csum_set fs ino blk = Inr (e, blk', fs') \<and> length blk' = length blk \<and>
    (e = None \<longrightarrow> (\<exists>fs''. ext2fs_dir_block_csum_verify fs' ino blk' = Inr (True, fs''))) \<and> (e \<noteq> None \<longrightarrow> blk' = blk) \<and>
    (e = None \<longleftrightarrow> \<not> isl (get_dirent_tail fs blk) \<or>
       (\<exists>co. get_dx_countlimit fs blk = Inr co \<and> co + unat (le16_at blk co) * 8 \<le> unat (ef_blocksize fs) - 8))"
proof (cases "get_dirent_tail fs blk")
  case (Inr t)
  obtain blk' fs' fs'' where s: "ext2fs_dirent_csum_set fs ino blk = Inr (None, blk', fs')" "ext2fs_dirent_csum_verify fs' ino blk' = Inr (True, fs'')"
    "length blk' = length blk" "get_dirent_tail fs' blk' = Inr t" "same_fs fs fs'"
    by (rule dirent_seal [OF own Inr len])
  then show ?thesis using Inr csum by (simp add: ext2fs_dir_block_csum_set_def ext2fs_dir_block_csum_verify_def same_fs_def)
next
  case none: (Inl e)
  show ?thesis
  proof (cases "get_dx_countlimit fs blk")
    case (Inl e')
    then show ?thesis using none csum by (simp add: ext2fs_dir_block_csum_set_def)
  next
    case dx: (Inr co)
    show ?thesis
    proof (cases "co + unat (le16_at blk co) * 8 \<le> unat (ef_blocksize fs) - 8")
      case True
      obtain blk' fs' fs'' where s: "ext2fs_dx_csum_set fs ino blk = Inr (None, blk', fs')" "ext2fs_dx_csum_verify fs' ino blk' = Inr (True, fs'')"
        "length blk' = length blk" "get_dx_countlimit fs' blk' = Inr co" "same_fs fs fs'"
        by (rule dx_seal [OF own dx len True]) (use count dx in auto)
      have "isl (get_dirent_tail fs' blk')"
        by (rule dx_no_tail [OF s(4)]) (use owner_blocksize [OF own] s(5) in \<open>simp add: same_fs_def\<close>)
      then show ?thesis using s dx none csum True by (simp add: ext2fs_dir_block_csum_set_def ext2fs_dir_block_csum_verify_def same_fs_def)
    next
      case False
      then show ?thesis using dx none csum
        by (simp add: ext2fs_dir_block_csum_set_def ext2fs_dx_csum_set_def ext2fs_dx_csum_def Let_def)
    qed
  qed
qed

text \<open>The three stores, one after the other.\<close>

lemma group_csums_set:
  assumes ok: "fs_ok fs gd D" and g: "unat grp < unat (ef_group_desc_count fs)" and csum: "ext2fs_has_feature_metadata_csum (ef_super fs)"
  defines "sb \<equiv> ef_super fs" and "seed \<equiv> ef_csum_seed fs"
  obtains fs1 fs2 fs3 gd2 gd3 where "ext2fs_block_bitmap_csum_set fs grp blocks = Inr fs1" "ext2fs_inode_bitmap_csum_set fs1 grp inodes = Inr fs2"
    "ext2fs_group_desc_csum_set fs2 grp = Inr fs3" "fs_ok fs3 gd3 D" "fs3 = fs\<lparr>ef_group_desc := Some gd3\<rparr>"
    "desc_at sb gd2 grp = bitmap_stored 0x1a 0x3a (0x3c \<le> EXT2_DESC_SIZE sb) (ext2fs_crc32c_le 0 seed inodes)
       (bitmap_stored 0x18 0x38 (0x3a \<le> EXT2_DESC_SIZE sb) (ext2fs_crc32c_le 0 seed blocks) (desc_at sb gd grp))"
    "desc_at sb gd3 grp = put_le 2 0x1e (desc_csum sb seed grp (desc_at sb gd2 grp)) (desc_at sb gd2 grp)"
    "\<forall>g. g \<noteq> grp \<longrightarrow> desc_at sb gd3 g = desc_at sb gd g"
proof -
  have csum1: "ext2fs_has_group_desc_csum sb" using csum by (simp add: ext2fs_has_group_desc_csum_def sb_def)
  obtain fs1 gd1 where 1: "ext2fs_block_bitmap_csum_set fs grp blocks = Inr fs1" "fs1 = fs\<lparr>ef_group_desc := Some gd1\<rparr>" "fs_ok fs1 gd1 D"
    "desc_at sb gd1 grp = bitmap_stored 0x18 0x38 (0x3a \<le> EXT2_DESC_SIZE sb) (ext2fs_crc32c_le 0 seed blocks) (desc_at sb gd grp)"
    "\<forall>g. g \<noteq> grp \<longrightarrow> desc_at sb gd1 g = desc_at sb gd g"
    unfolding ext2fs_block_bitmap_csum_set_def sb_def seed_def
    by (rule bitmap_set [OF ok g csum, where lo = "0x18" and hi = "0x38" and he = "0x3a"]) simp_all
  have f1: "ef_super fs1 = sb" "ef_csum_seed fs1 = seed" "ef_group_desc_count fs1 = ef_group_desc_count fs" using 1(2) by (simp_all add: sb_def seed_def)
  obtain fs2 gd2 where 2: "ext2fs_inode_bitmap_csum_set fs1 grp inodes = Inr fs2" "fs2 = fs1\<lparr>ef_group_desc := Some gd2\<rparr>" "fs_ok fs2 gd2 D"
    "desc_at sb gd2 grp = bitmap_stored 0x1a 0x3a (0x3c \<le> EXT2_DESC_SIZE sb) (ext2fs_crc32c_le 0 seed inodes) (desc_at sb gd1 grp)"
    "\<forall>g. g \<noteq> grp \<longrightarrow> desc_at sb gd2 g = desc_at sb gd1 g"
    unfolding ext2fs_inode_bitmap_csum_set_def
    by (rule bitmap_set [OF 1(3), where grp = grp and lo = "0x1a" and hi = "0x3a" and he = "0x3c" and bitmap = inodes]) (use f1 g csum sb_def in simp_all)
  have f2: "ef_super fs2 = sb" "ef_csum_seed fs2 = seed" "ef_group_desc_count fs2 = ef_group_desc_count fs" using 2(2) f1 by simp_all
  obtain fs3 gd3 where 3: "ext2fs_group_desc_csum_set fs2 grp = Inr fs3" "fs3 = fs2\<lparr>ef_group_desc := Some gd3\<rparr>" "fs_ok fs3 gd3 D"
    "desc_at sb gd3 grp = put_le 2 0x1e (desc_csum sb seed grp (desc_at sb gd2 grp)) (desc_at sb gd2 grp)"
    "\<forall>g. g \<noteq> grp \<longrightarrow> desc_at sb gd3 g = desc_at sb gd2 g"
    by (rule desc_set [OF 2(3), where grp = grp]) (use f2 g csum1 in simp_all)
  show ?thesis by (rule that [OF 1(1) 2(1) 3(1,3) _ _ 3(4)]) (use 1 2 3 in simp_all)
qed

text \<open>
  C20: after the checksums of both bitmaps of a group and then that of its descriptor were stored, all
  three checks succeed, for descriptors with and without the upper halves; and for every other group each of the three checks,
  of its descriptor and of any bytes as its block or inode bitmap, answers as before.
\<close>

theorem group_csums_roundtrip:
  assumes ok: "fs_ok fs gd D" and g: "unat grp < unat (ef_group_desc_count fs)" and csum: "ext2fs_has_feature_metadata_csum (ef_super fs)"
  shows "\<exists>fs1 fs2 fs3. ext2fs_block_bitmap_csum_set fs grp blocks = Inr fs1 \<and> ext2fs_inode_bitmap_csum_set fs1 grp inodes = Inr fs2 \<and>
    ext2fs_group_desc_csum_set fs2 grp = Inr fs3 \<and>
    ext2fs_block_bitmap_csum_verify fs3 grp blocks = Inr (True, fs3) \<and> ext2fs_inode_bitmap_csum_verify fs3 grp inodes = Inr (True, fs3) \<and>
    ext2fs_group_desc_csum_verify fs3 grp = Inr (True, fs3) \<and>
    (\<forall>g. g \<noteq> grp \<longrightarrow> unat g < unat (ef_group_desc_count fs) \<longrightarrow>
      (\<exists>b. ext2fs_group_desc_csum_verify fs g = Inr (b, fs) \<and> ext2fs_group_desc_csum_verify fs3 g = Inr (b, fs3)) \<and>
      (\<forall>bm. (\<exists>b. ext2fs_block_bitmap_csum_verify fs g bm = Inr (b, fs) \<and> ext2fs_block_bitmap_csum_verify fs3 g bm = Inr (b, fs3)) \<and>
            (\<exists>b. ext2fs_inode_bitmap_csum_verify fs g bm = Inr (b, fs) \<and> ext2fs_inode_bitmap_csum_verify fs3 g bm = Inr (b, fs3))))"
proof -
  let ?sb = "ef_super fs" and ?d = "unat (EXT2_DESC_SIZE (ef_super fs))" and ?seed = "ef_csum_seed fs"
  let ?cb = "ext2fs_crc32c_le 0 ?seed blocks" and ?ci = "ext2fs_crc32c_le 0 ?seed inodes"
  let ?wb = "0x3a \<le> EXT2_DESC_SIZE ?sb" and ?wi = "0x3c \<le> EXT2_DESC_SIZE ?sb"
  have csum1: "ext2fs_has_group_desc_csum ?sb" using csum by (simp add: ext2fs_has_group_desc_csum_def)
  obtain fs1 fs2 fs3 gd2 gd3 where s: "ext2fs_block_bitmap_csum_set fs grp blocks = Inr fs1" "ext2fs_inode_bitmap_csum_set fs1 grp inodes = Inr fs2"
    "ext2fs_group_desc_csum_set fs2 grp = Inr fs3" "fs_ok fs3 gd3 D" "fs3 = fs\<lparr>ef_group_desc := Some gd3\<rparr>"
    and d2: "desc_at ?sb gd2 grp = bitmap_stored 0x1a 0x3a ?wi ?ci (bitmap_stored 0x18 0x38 ?wb ?cb (desc_at ?sb gd grp))"
    and d3: "desc_at ?sb gd3 grp = put_le 2 0x1e (desc_csum ?sb ?seed grp (desc_at ?sb gd2 grp)) (desc_at ?sb gd2 grp)"
    and other: "\<forall>g. g \<noteq> grp \<longrightarrow> desc_at ?sb gd3 g = desc_at ?sb gd g"
    by (rule group_csums_set [OF assms])
  have f3: "ef_super fs3 = ?sb" "ef_csum_seed fs3 = ?seed" "ef_group_desc_count fs3 = ef_group_desc_count fs" using s(5) by simp_all
  have g3: "unat grp < unat (ef_group_desc_count fs3)" "ext2fs_has_feature_metadata_csum (ef_super fs3)" "ext2fs_has_group_desc_csum (ef_super fs3)"
    using g csum csum1 f3 by simp_all
  have len: "length (desc_at ?sb gd grp) = ?d" "32 \<le> ?d" using group_desc_at(2) [OF ok g] desc_size [OF ok] by simp_all
  have w: "?wb \<Longrightarrow> 0x3a \<le> ?d" "?wi \<Longrightarrow> 0x3c \<le> ?d" "?wi \<Longrightarrow> ?wb" by (auto simp: word_le_nat_alt)
  let ?d1 = "bitmap_stored 0x18 0x38 ?wb ?cb (desc_at ?sb gd grp)"
  have lens: "length ?d1 = ?d" "length (desc_at ?sb gd2 grp) = ?d" unfolding d2 using len w by (simp_all add: bitmap_stored_def Let_def)
  have "bitmap_matches 0x18 0x38 ?wb ?cb ?d1" by (rule stored_matches) (use len w in auto)
  then have "bitmap_matches 0x18 0x38 ?wb ?cb (desc_at ?sb gd3 grp)"
    unfolding d3 d2 using lens len w by (cases ?wb; cases ?wi) (simp_all add: bitmap_stored_def [of "0x1a"] Let_def matches_put)
  moreover have "bitmap_matches 0x1a 0x3a ?wi ?ci (desc_at ?sb gd2 grp)" unfolding d2 by (rule stored_matches) (use lens len w in auto)
  then have "bitmap_matches 0x1a 0x3a ?wi ?ci (desc_at ?sb gd3 grp)"
    unfolding d3 using lens len w by (cases ?wi) (simp_all add: matches_put)
  moreover have "le16_at (desc_at ?sb gd3 grp) 0x1e = desc_csum ?sb ?seed grp (desc_at ?sb gd3 grp)"
    unfolding d3 using desc_seal.sealed_verifies [OF lens(2), of ?sb ?seed grp] len(2) by (simp add: le16_at_def)
  moreover note bitmap_verify [OF s(4) g3(1,2), of "0x18" "0x38" "0x3a" blocks] bitmap_verify [OF s(4) g3(1,2), of "0x1a" "0x3a" "0x3c" inodes]
    desc_verify [OF s(4) g3(1,3)]
  moreover have "\<exists>b. ext2fs_group_desc_csum_verify fs g = Inr (b, fs) \<and> ext2fs_group_desc_csum_verify fs3 g = Inr (b, fs3)"
    if "g \<noteq> grp" "unat g < unat (ef_group_desc_count fs)" for g
    using desc_verify [OF ok that(2) csum1] desc_verify [OF s(4), of g] that g3(3) f3 other by simp
  moreover have "(\<exists>b. ext2fs_block_bitmap_csum_verify fs g bm = Inr (b, fs) \<and> ext2fs_block_bitmap_csum_verify fs3 g bm = Inr (b, fs3)) \<and>
      (\<exists>b. ext2fs_inode_bitmap_csum_verify fs g bm = Inr (b, fs) \<and> ext2fs_inode_bitmap_csum_verify fs3 g bm = Inr (b, fs3))"
    if "g \<noteq> grp" "unat g < unat (ef_group_desc_count fs)" for g bm
    using bitmap_verify [OF ok that(2) csum] bitmap_verify [OF s(4), of g] that g3(2) f3 other
    by (simp add: ext2fs_block_bitmap_csum_verify_def ext2fs_inode_bitmap_csum_verify_def)
  ultimately show ?thesis
    using s(1-3) f3 by (intro exI [of _ fs1] exI [of _ fs2] exI [of _ fs3]) (simp add: ext2fs_block_bitmap_csum_verify_def ext2fs_inode_bitmap_csum_verify_def)
qed

section \<open>Instances\<close>

text \<open>The small file system with checksums and the empty inode 6, whose checksum need not match.\<close>

lemma csum_fs:
  obtains fs where "owner_ok fs small_desc (byte_block (small_image small_dir) 1024) 6" "ef_super fs = csum_super" "ef_flags fs = 0" "ef_blocksize fs = 1024"
    "ef_group_desc_count fs = 1"
proof -
  let ?D = "byte_block (small_image small_dir) 1024"
  obtain fs where o: "icache_fs_ok fs small_desc ?D" "ef_super fs = small_fs_super" "bd_rerr (ud_dev (ef_io fs)) = (\<lambda>l s. False)"
    "\<forall>b n. in_range (ef_io fs) b n \<longleftrightarrow> (unat b + n) * 1024 \<le> 8192"
    using small_opened by metis
  let ?fs = "fs\<lparr>ef_super := csum_super, ef_flags := 0\<rparr>"
  have "icache_ok csum_super small_desc ?D = icache_ok small_fs_super small_desc ?D" by (simp add: fun_eq_iff icache_ok_def csum_super_like csum_super_geometry)
  then have inv: "icache_fs_ok ?fs small_desc ?D"
    using o(1,2) by (simp add: icache_fs_ok_def fs_ok_def csum_super_like csum_super_geometry flag_def split: option.splits)
  have there: "inode_there ?fs small_desc 6"
    using o(2,4) small_inodes [of 6] by (simp add: inode_there_def Let_def csum_super_like csum_super_geometry small_sizes small_table word_le_nat_alt word_less_nat_alt)
  have "inode_bytes csum_super small_desc ?D 6 = replicate 128 0"
    using small_inodes [of 6] by (simp add: inode_bytes_def inode_offset_def csum_super_geometry small_sizes small_checks byte_block_def small_image_def)
  then have "csum_ok ?fs 6 (inode_bytes (ef_super ?fs) small_desc ?D 6)" by (simp add: ext2fs_inode_csum_verify_def Let_def list_all_iff)
  moreover have "ef_blocksize ?fs = 1024" using o(1,2) by (simp add: icache_fs_ok_def fs_ok_def small_checks)
  moreover have "ef_group_desc_count ?fs = 1"
    using o(1,2) by (auto simp: icache_fs_ok_def fs_ok_def groups_ok_def small_sizes word_unat_eq_iff)
  ultimately show ?thesis using inv there o(3) by (intro that [of ?fs]) (simp_all add: owner_ok_def)
qed

text \<open>A directory block with one entry and a tail.\<close>

definition tailed_block :: "byte list" where
  "tailed_block = [6, 0, 0, 0, 0xF4, 0x03, 1, 2, 46] @ replicate 1003 0 @ [0, 0, 0, 0, 12, 0, 0, 0xDE, 0, 0, 0, 0]"

lemma tailed_block: "length tailed_block = 1024" "ef_blocksize fs = 1024 \<Longrightarrow> get_dirent_tail fs tailed_block = Inr 1012"
  "get_dx_countlimit fs tailed_block = Inr co \<Longrightarrow> ef_blocksize fs = 1024 \<Longrightarrow> False"
proof -
  show len: "length tailed_block = 1024" by (simp add: tailed_block_def)
  have at: "le16_at tailed_block 4 = 1012" "le32_at tailed_block 1012 = 0" "le16_at tailed_block 1016 = 12" "le16_at tailed_block 1018 = 0xDE00"
    by (simp_all add: le16_at_def le32_at_def tailed_block_def)
  have "tail_loop tailed_block 1012 0 = Some 1012" by (simp add: tail_loop.simps [of _ _ 0] tail_loop.simps [of _ _ 1012] at)
  then show "ef_blocksize fs = 1024 \<Longrightarrow> get_dirent_tail fs tailed_block = Inr 1012"
    using at by (simp add: get_dirent_tail_def EXT2_DIR_NAME_LEN_CSUM_def)
  show "get_dx_countlimit fs tailed_block = Inr co \<Longrightarrow> ef_blocksize fs = 1024 \<Longrightarrow> False"
    using dx_countlimit_at [of fs tailed_block co] at by simp
qed

theorem dir_block_csum_roundtrip_witness:
  "\<exists>fs blk' fs' fs''. get_dirent_tail fs tailed_block = Inr 1012 \<and> ext2fs_dir_block_csum_set fs 6 tailed_block = Inr (None, blk', fs') \<and>
     ext2fs_dir_block_csum_verify fs' 6 blk' = Inr (True, fs'')"
proof -
  obtain fs where fs: "owner_ok fs small_desc (byte_block (small_image small_dir) 1024) 6" "ef_super fs = csum_super" "ef_flags fs = 0" "ef_blocksize fs = 1024"
    by (rule csum_fs)
  have "ext2fs_has_feature_metadata_csum csum_super" by code_simp
  with fs tailed_block have "\<exists>e blk' fs'. ext2fs_dir_block_csum_set fs 6 tailed_block = Inr (e, blk', fs') \<and> length blk' = length tailed_block \<and>
    (e = None \<longrightarrow> (\<exists>fs''. ext2fs_dir_block_csum_verify fs' 6 blk' = Inr (True, fs''))) \<and> (e \<noteq> None \<longrightarrow> blk' = tailed_block) \<and>
    (e = None \<longleftrightarrow> \<not> isl (get_dirent_tail fs tailed_block) \<or>
       (\<exists>co. get_dx_countlimit fs tailed_block = Inr co \<and> co + unat (le16_at tailed_block co) * 8 \<le> unat (ef_blocksize fs) - 8))"
    by (intro dir_block_csum_roundtrip) (auto simp: flag_def)
  then show ?thesis using tailed_block(2) [OF fs(4)] by auto
qed

text \<open>The same with two groups: 32 inodes and 8200 blocks.\<close>

definition two_super :: ext2_super_block where
  "two_super = csum_super\<lparr>s_inodes_count := 32, s_blocks_count := 8200\<rparr>"

lemma two_super_like:
  "EXT2_BLOCK_SIZE two_super = 1024" "EXT2_INODE_SIZE two_super = 128" "EXT2_DESC_SIZE two_super = 32" "ext2fs_blocks_count two_super = 8200"
  "ext2fs_has_feature_64bit two_super = False" "s_log_block_size two_super = 0" "s_inodes_per_group two_super = 16" "s_blocks_per_group two_super = 8192"
  "s_inodes_count two_super = 32" "s_first_data_block two_super = 1" "inode_blocks_per_group two_super = 2"
  "ext2fs_has_feature_journal_dev two_super = False" "ext2fs_has_feature_metadata_csum two_super"
  by code_simp+

lemma two_groups_fs:
  obtains fs where "fs_ok fs small_desc (byte_block (small_image small_dir) 1024)" "ef_super fs = two_super" "ef_group_desc_count fs = 2"
proof -
  let ?D = "byte_block (small_image small_dir) 1024"
  obtain fs where fs: "owner_ok fs small_desc ?D 6" "ef_super fs = csum_super" "ef_flags fs = 0" by (rule csum_fs)
  then have ok: "fs_ok fs small_desc ?D" by (simp add: owner_ok_def icache_fs_ok_def)
  then have d: "ef_desc_blocks fs = 1"
    using fs(2) by (simp add: fs_ok_def csum_super_like small_checks word_unat_eq_iff)
  have "sizes_ok two_super" "groups_ok two_super 2 1" by (simp_all add: sizes_ok_def groups_ok_def two_super_like)
  then have "fs_ok (fs\<lparr>ef_super := two_super, ef_group_desc_count := 2\<rparr>) small_desc ?D"
    using ok fs(2,3) d by (simp add: fs_ok_def two_super_like csum_super_like small_checks small_sizes flag_def)
  then show ?thesis by (rule that) simp_all
qed

theorem group_csums_roundtrip_witness:
  "\<exists>fs fs1 fs2 fs3 b. ext2fs_block_bitmap_csum_set fs 0 (replicate 1024 255) = Inr fs1 \<and> ext2fs_inode_bitmap_csum_set fs1 0 [3] = Inr fs2 \<and>
     ext2fs_group_desc_csum_set fs2 0 = Inr fs3 \<and> ext2fs_group_desc_csum_verify fs3 0 = Inr (True, fs3) \<and>
     ext2fs_block_bitmap_csum_verify fs 1 [7] = Inr (b, fs) \<and> ext2fs_block_bitmap_csum_verify fs3 1 [7] = Inr (b, fs3)"
proof -
  obtain fs where fs: "fs_ok fs small_desc (byte_block (small_image small_dir) 1024)" "ef_super fs = two_super" "ef_group_desc_count fs = 2"
    by (rule two_groups_fs)
  then show ?thesis
    using group_csums_roundtrip [of fs small_desc "byte_block (small_image small_dir) 1024" 0 "replicate 1024 255" "[3]"] two_super_like(13)
    by fastforce
qed

end
