(* ===== verification/Crc_Be.thy ===== *)
theory Crc_Be
  imports Crc
begin

text \<open>
  The big-endian checksum of \<^verbatim>\<open>src/e2fsprogs/lib/ext2fs/crc32c.c\<close> (the Ethernet CRC-32, most
  significant bit first) with its tables from \<^verbatim>\<open>gen_crc32ctable.c\<close>, on a little-endian machine.
  The source has one variant for each CRC_BE_BITS; the slicing variants share \<open>crc32_body\<close> with
  crc32c, on a byte-swapped register and with byte-swapped tables. The register is the mirror image
  of a little-endian one, from which the laws of \<open>Crc\<close> carry over.
\<close>

unbundle bit_operations_syntax

section \<open>The generator and the variants\<close>

definition CRCPOLY_BE :: u32 where "CRCPOLY_BE = 0x04c11db7"

definition crc_step_be :: "u32 \<Rightarrow> u32 \<Rightarrow> u32" where
  "crc_step_be poly crc = push_bit 1 crc XOR (if crc AND 0x80000000 \<noteq> 0 then poly else 0)"

definition BE_TABLE_ROWS :: "nat \<Rightarrow> nat" where
  "BE_TABLE_ROWS bits = (if bits > 8 then bits div 8 else 1)"

definition BE_TABLE_SIZE :: "nat \<Rightarrow> nat" where
  "BE_TABLE_SIZE bits = (if bits > 8 then 256 else 2 ^ bits)"

text \<open>The loops of \<open>crc32init_be\<close>: doubling the part of a row that is filled, the row, and the other rows.\<close>

definition double_row :: "nat \<Rightarrow> u32 \<Rightarrow> u32 list \<Rightarrow> u32 list" where
  "double_row i crc tab = fold (\<lambda>j tab. tab[i + j := crc XOR tab ! j]) [0..<i] tab"

function init_row_be :: "nat \<Rightarrow> nat \<Rightarrow> u32 \<Rightarrow> u32 list \<Rightarrow> u32 list" where
  "init_row_be size1 i crc tab =
     (if i < size1 \<and> 0 < i
      then (let crc1 = crc_step_be CRCPOLY_BE crc in init_row_be size1 (2 * i) crc1 (double_row i crc1 tab))
      else tab)"
  by pat_completeness auto
termination
  by (relation "measure (\<lambda>(size1, i, crc, tab). size1 - i)") auto

declare init_row_be.simps [simp del]

definition init_entry_be :: "nat \<Rightarrow> nat \<Rightarrow> u32 \<times> u32 list list \<Rightarrow> u32 \<times> u32 list list" where
  "init_entry_be i j = (\<lambda>(crc, tab). let crc1 = tab ! 0 ! unat (drop_bit 24 crc AND 0xff) XOR push_bit 8 crc in (crc1, tab[j := (tab ! j)[i := crc1]]))"

definition init_column_be :: "nat \<Rightarrow> nat \<Rightarrow> u32 list list \<Rightarrow> u32 list list" where
  "init_column_be rows i tab = snd (fold (init_entry_be i) [1..<rows] (tab ! 0 ! i, tab))"

definition crc32init_be :: "nat \<Rightarrow> u32 list list" where
  "crc32init_be bits =
     (let size1 = BE_TABLE_SIZE bits; rows = BE_TABLE_ROWS bits
      in fold (init_column_be rows) [0..<size1]
           ((replicate rows (replicate 256 0))[0 := init_row_be size1 1 0x80000000 (replicate 256 0)]))"

text \<open>
  The table as the generator prints it: \<open>main\<close> prints as many rows as the little-endian table has, which
  reads past the big-endian table when that has fewer rows, and leaves the rows that are not printed
  zero when it has more. With one bit at a time no table is printed, and none is used. With more than eight bits at a time every entry is byte-swapped by \<open>tobe\<close>.
\<close>

definition crc32table_be :: "nat \<Rightarrow> nat \<Rightarrow> u32 list list res" where
  "crc32table_be le_bits be_bits =
     (if be_bits \<le> 1 then Inr []
      else if BE_TABLE_ROWS be_bits < LE_TABLE_ROWS le_bits then Inl OutOfBounds
      else Inr (map (map (if be_bits > 8 then ext2fs_swab32 else id) \<circ> take (BE_TABLE_SIZE be_bits)) (take (LE_TABLE_ROWS le_bits) (crc32init_be be_bits)) @
                replicate (BE_TABLE_ROWS be_bits - LE_TABLE_ROWS le_bits) (replicate (BE_TABLE_SIZE be_bits) 0)))"

text \<open>\<open>crc32_body\<close> chooses between words and pairs of words by CRC_LE_BITS, here too.\<close>

definition crc32_be_generic :: "nat \<Rightarrow> nat \<Rightarrow> nat \<Rightarrow> u32 \<Rightarrow> byte list \<Rightarrow> u32 list list \<Rightarrow> u32 \<Rightarrow> u32" where
  "crc32_be_generic le_bits be_bits addr crc p tab polynomial =
     (if be_bits = 1 then foldl (\<lambda>crc b. (crc_step_be polynomial ^^ 8) (crc XOR push_bit 24 (ucast b))) crc p
      else if be_bits = 2 then foldl (\<lambda>crc b. ((\<lambda>c. push_bit 2 c XOR tab ! 0 ! unat (drop_bit 30 c)) ^^ 4) (crc XOR push_bit 24 (ucast b))) crc p
      else if be_bits = 4 then foldl (\<lambda>crc b. ((\<lambda>c. push_bit 4 c XOR tab ! 0 ! unat (drop_bit 28 c)) ^^ 2) (crc XOR push_bit 24 (ucast b))) crc p
      else if be_bits = 8 then foldl (\<lambda>crc b. let c = crc XOR push_bit 24 (ucast b) in push_bit 8 c XOR tab ! 0 ! unat (drop_bit 24 c)) crc p
      else ext2fs_swab32 (crc32_body le_bits addr (ext2fs_swab32 crc) p tab))"

definition ext2fs_crc32_be :: "nat \<Rightarrow> u32 \<Rightarrow> byte list \<Rightarrow> u32 res" where
  "ext2fs_crc32_be addr crc p = and_then (crc32table_be 64 64) (\<lambda>tab. Inr (crc32_be_generic 64 64 addr crc p tab CRCPOLY_BE))"

section \<open>The register and its mirror image\<close>

abbreviation bsteps_be :: "nat \<Rightarrow> u32 \<Rightarrow> u32" where
  "bsteps_be k \<equiv> crc_step_be CRCPOLY_BE ^^ k"

definition mirror_poly :: u32 where "mirror_poly = 0xedb88320"

abbreviation msteps :: "nat \<Rightarrow> u32 \<Rightarrow> u32" where
  "msteps k \<equiv> crc_step mirror_poly ^^ k"

interpretation mirror: shift_register mirror_poly
  by unfold_locales (simp add: mirror_poly_def)

lemma reverse_xor: "word_reverse (a XOR b) = word_reverse a XOR word_reverse b" for a b :: u32
  by (rule bit_eqI) (auto simp: bit_simps)

lemma mirror_poly_reverse: "word_reverse mirror_poly = CRCPOLY_BE"
  by code_simp

lemma top_bit: "crc AND 0x80000000 \<noteq> 0 \<longleftrightarrow> bit crc 31" for crc :: u32
  using and_exp_eq_0_iff_not_bit [of crc 31] by simp

lemma reverse_drop: "word_reverse (drop_bit k (word_reverse c)) = push_bit k c" for c :: u32
  by (rule bit_eqI) (auto simp: bit_simps dest: bit_imp_le_length)

lemma step_mirror: "crc_step_be CRCPOLY_BE c = word_reverse (crc_step mirror_poly (word_reverse c))"
proof -
  have "bit (word_reverse c) 0 = bit c 31" by (simp add: bit_word_reverse_iff)
  moreover have "word_reverse (0 :: u32) = 0" by (rule bit_eqI) (auto simp: bit_simps)
  ultimately show ?thesis by (simp add: crc_step_be_def crc_step_def odd_bit top_bit reverse_xor reverse_drop mirror_poly_reverse)
qed

lemma steps_mirror: "bsteps_be k c = word_reverse (msteps k (word_reverse c))"
  by (induction k) (simp_all add: step_mirror)

lemma be_xor: "bsteps_be k (a XOR b) = bsteps_be k a XOR bsteps_be k b"
  by (simp add: steps_mirror reverse_xor mirror.steps_xor)

lemma be_0: "bsteps_be k 0 = 0"
  by (metis be_xor xor_self_eq)

lemma reverse_take: "k \<le> 32 \<Longrightarrow> word_reverse (take_bit k (word_reverse c)) = push_bit (32 - k) (drop_bit (32 - k) c)" for c :: u32
  by (rule bit_eqI) (auto simp: bit_simps dest: bit_imp_le_length)

lemma be_split: "k \<le> 32 \<Longrightarrow> bsteps_be k c = push_bit k c XOR bsteps_be k (push_bit (32 - k) (drop_bit (32 - k) c))"
  using mirror.steps_split [of k "word_reverse c"] reverse_take [of k c] reverse_drop [of k c]
  by (metis steps_mirror reverse_xor word_rev_rev)

section \<open>The tables\<close>

text \<open>The first entries of a row, each the register after \<open>k\<close> steps from its \<open>k\<close> highest bits.\<close>

definition be_row :: "nat \<Rightarrow> nat \<Rightarrow> u32 list \<Rightarrow> bool" where
  "be_row k n row \<longleftrightarrow> (\<forall>v < n. row ! v = bsteps_be k (push_bit (32 - k) (of_nat v)))"

lemma double_row_nth:
  assumes "n \<le> i" "2 * i \<le> length tab" "v < length tab"
  shows "fold (\<lambda>j tab. tab[i + j := crc XOR tab ! j]) [0..<n] tab ! v = (if i \<le> v \<and> v < i + n then crc XOR tab ! (v - i) else tab ! v) \<and>
    length (fold (\<lambda>j tab. tab[i + j := crc XOR tab ! j]) [0..<n] tab) = length tab"
  using assms
proof (induction n arbitrary: v)
  case (Suc n)
  have ih: "fold (\<lambda>j tab. tab[i + j := crc XOR tab ! j]) [0..<n] tab ! w = (if i \<le> w \<and> w < i + n then crc XOR tab ! (w - i) else tab ! w) \<and>
      length (fold (\<lambda>j tab. tab[i + j := crc XOR tab ! j]) [0..<n] tab) = length tab" if "w < length tab" for w
    using Suc that by auto
  show ?case using ih [of v] ih [of n] Suc(2-4) by (auto simp: nth_list_update)
qed auto

lemma length_double_row: "length (double_row i crc tab) = length tab"
proof -
  have "length (fold (\<lambda>j tab. tab[i + j := crc XOR tab ! j]) js tab) = length tab" for js
    by (induction js arbitrary: tab) auto
  then show ?thesis by (simp add: double_row_def)
qed

lemma length_init_row_be: "length (init_row_be size1 i crc tab) = length tab"
  by (induction size1 i crc tab rule: init_row_be.induct) (subst init_row_be.simps, simp add: Let_def length_double_row)

lemma be_steps_exp:
  assumes "m < k" "k \<le> 32"
  shows "bsteps_be k (push_bit (32 - k) (2 ^ m)) = bsteps_be (Suc m) 0x80000000"
proof -
  have r: "bsteps_be (k - Suc m) c = push_bit (k - Suc m) c" if "drop_bit (32 - (k - Suc m)) c = 0" for c
    using be_split [of "k - Suc m" c] that assms by (simp add: be_0)
  have "drop_bit (32 - (k - Suc m)) (push_bit (32 - k) (2 ^ m :: u32)) = 0"
    using assms by (intro bit_eqI) (auto simp: bit_simps)
  then have "bsteps_be (k - Suc m) (push_bit (32 - k) (2 ^ m)) = push_bit (k - Suc m) (push_bit (32 - k) (2 ^ m))" by (rule r)
  also have "\<dots> = 2 ^ (k - Suc m + (32 - k) + m)" by (simp only: push_bit_eq_mult power_add ac_simps)
  also have "k - Suc m + (32 - k) + m = 31" using assms by simp
  finally have "bsteps_be (Suc m + (k - Suc m)) (push_bit (32 - k) (2 ^ m)) = bsteps_be (Suc m) (2 ^ 31)"
    by (simp only: funpow_add o_apply)
  then show ?thesis using assms by simp
qed

lemma double_row_be:
  assumes "be_row k (2 ^ m) tab" "m < k" "k \<le> 8" "2 ^ k \<le> length tab"
  shows "be_row k (2 ^ Suc m) (double_row (2 ^ m) (bsteps_be (Suc m) 0x80000000) tab)"
  unfolding be_row_def
proof (intro allI impI)
  fix v :: nat
  assume v: "v < 2 ^ Suc m"
  have "(2 :: nat) ^ Suc m \<le> 2 ^ k" using assms(2) by (intro power_increasing) auto
  then have l: "2 * 2 ^ m \<le> length tab" "v < length tab" using assms(4) v by simp_all
  show "double_row (2 ^ m) (bsteps_be (Suc m) 0x80000000) tab ! v = bsteps_be k (push_bit (32 - k) (of_nat v))"
  proof (cases "v < 2 ^ m")
    case True
    then show ?thesis using double_row_nth [of "2 ^ m" "2 ^ m" tab v] l assms(1) by (simp add: double_row_def be_row_def)
  next
    case False
    define w where "w = v - 2 ^ m"
    have w: "w < 2 ^ m" "v = 2 ^ m + w" using False v by (simp_all add: w_def)
    have "double_row (2 ^ m) (bsteps_be (Suc m) 0x80000000) tab ! v = bsteps_be (Suc m) 0x80000000 XOR tab ! w"
      using double_row_nth [of "2 ^ m" "2 ^ m" tab v "bsteps_be (Suc m) 0x80000000"] l False v by (simp add: double_row_def w_def)
    also have "\<dots> = bsteps_be k (push_bit (32 - k) (2 ^ m) XOR push_bit (32 - k) (of_nat w))"
      using be_steps_exp [of m k] assms w(1) by (simp add: be_row_def be_xor)
    also have "push_bit (32 - k) (2 ^ m) XOR push_bit (32 - k) (of_nat w) = push_bit (32 - k) (of_nat v :: u32)"
      using nat_join_word [OF w(1), where 'a = 32] w(2) by (simp add: push_bit_xor)
    finally show ?thesis .
  qed
qed

lemma init_row_be_nth:
  assumes "be_row k (2 ^ m) tab" "m \<le> k" "k \<le> 8" "2 ^ k \<le> length tab" "crc = bsteps_be m 0x80000000"
  shows "be_row k (2 ^ k) (init_row_be (2 ^ k) (2 ^ m) crc tab)"
  using assms
proof (induction "k - m" arbitrary: m crc tab)
  case 0
  then show ?case by (subst init_row_be.simps) simp
next
  case (Suc d)
  have m: "m < k" "d = k - Suc m" using Suc(2) by simp_all
  have c: "crc_step_be CRCPOLY_BE crc = bsteps_be (Suc m) 0x80000000" using Suc(7) by simp
  have "be_row k (2 ^ k) (init_row_be (2 ^ k) (2 ^ Suc m) (bsteps_be (Suc m) 0x80000000) (double_row (2 ^ m) (bsteps_be (Suc m) 0x80000000) tab))"
    using Suc(1) [OF m(2)] double_row_be [OF Suc(3) m(1) Suc(5,6)] m(1) Suc(5,6) by (simp add: length_double_row del: funpow.simps)
  then show ?case using m(1) c by (subst init_row_be.simps) (simp add: Let_def del: funpow.simps)
qed

lemma init_row_be_ok: "0 < k \<Longrightarrow> k \<le> 8 \<Longrightarrow> be_row k (2 ^ k) (init_row_be (2 ^ k) 1 0x80000000 (replicate 256 0))"
proof -
  assume k: "0 < k" "k \<le> 8"
  have "(2 :: nat) ^ k \<le> 2 ^ 8" using k(2) by (intro power_increasing) auto
  moreover have "be_row k (2 ^ 0) (replicate 256 0)" by (simp add: be_row_def be_0)
  ultimately show ?thesis using init_row_be_nth [of k 0 "replicate 256 0" "0x80000000"] k by simp
qed


lemma be_row_lookup:
  assumes "be_row k (2 ^ k) row" "k \<le> 32"
  shows "push_bit k c XOR row ! unat (drop_bit (32 - k) c) = bsteps_be k c"
proof -
  have "unat c < 2 ^ k * 2 ^ (32 - k)" using unsigned_less [of c] assms(2) by (simp add: power_add [symmetric])
  then have "drop_bit (32 - k) (unat c) < 2 ^ k" by (simp only: drop_bit_eq_div less_mult_imp_div_less)
  moreover have "unat (drop_bit (32 - k) c) = drop_bit (32 - k) (unat c)" by (rule unat_drop_bit_eq)
  ultimately have "unat (drop_bit (32 - k) c) < 2 ^ k" by simp
  then show ?thesis using assms(1) be_split [OF assms(2), of c] by (simp add: be_row_def)
qed

lemma init_column_be_fill: "init_column_be = fill_column (\<lambda>row crc. row ! unat (drop_bit 24 crc AND 0xff) XOR push_bit 8 crc)"
proof -
  have "init_entry_be = fill_entry (\<lambda>row crc. row ! unat (drop_bit 24 crc AND 0xff) XOR push_bit 8 crc)"
    by (simp add: fun_eq_iff init_entry_be_def fill_entry_def)
  then show ?thesis by (intro ext) (simp only: init_column_be_def fill_column_def)
qed

lemma high_byte: "drop_bit 24 c AND 0xff = drop_bit 24 c" for c :: u32
  by (rule bit_eqI) (auto simp: and_low_bits bit_simps dest: bit_imp_le_length)

lemma crc32init_be_small:
  assumes "0 < bits" "bits \<le> 8"
  shows "be_row bits (2 ^ bits) (crc32init_be bits ! 0)" "length (crc32init_be bits) = 1"
proof -
  have "init_column_be (Suc 0) i tab = tab" for i tab by (simp add: init_column_be_def)
  then have "fold (init_column_be (Suc 0)) is tab = tab" for "is" tab by (induction "is" arbitrary: tab) auto
  then show "be_row bits (2 ^ bits) (crc32init_be bits ! 0)" "length (crc32init_be bits) = 1"
    using assms init_row_be_ok by (simp_all add: crc32init_be_def BE_TABLE_SIZE_def BE_TABLE_ROWS_def Let_def)
qed

lemma crc32init_be_rows:
  assumes "8 < bits"
  shows "length (crc32init_be bits) = bits div 8" "\<forall>r \<in> set (crc32init_be bits). length r = 256"
    and "j < bits div 8 \<Longrightarrow> v < 256 \<Longrightarrow> crc32init_be bits ! j ! v = (bsteps_be 8 ^^ Suc j) (push_bit 24 (of_nat v))"
proof -
  let ?tab = "(replicate (bits div 8) (replicate 256 0))[0 := init_row_be 256 1 0x80000000 (replicate 256 0)]"
  have r: "0 < length ?tab" using assms by simp
  then have 0: "be_row 8 (2 ^ 8) (?tab ! 0)" using init_row_be_ok [of 8] by simp
  have l: "\<forall>r \<in> set ?tab. length r = 256" by (auto simp: length_init_row_be dest!: subsetD [OF set_update_subset_insert])
  have t: "crc32init_be bits = fold (init_column_be (length ?tab)) [0..<256] ?tab"
    using assms by (simp add: crc32init_be_def BE_TABLE_SIZE_def BE_TABLE_ROWS_def Let_def)
  have n: "(\<lambda>crc. ?tab ! 0 ! unat (drop_bit 24 crc AND 0xff) XOR push_bit 8 crc) = bsteps_be 8"
    using be_row_lookup [OF 0] by (simp only: high_byte xor.commute) simp
  have c: "length (crc32init_be bits) = length ?tab \<and> (\<forall>r \<in> set (crc32init_be bits). length r = 256) \<and>
      (\<forall>j < length ?tab. \<forall>v < 256. crc32init_be bits ! j ! v = (bsteps_be 8 ^^ j) (?tab ! 0 ! v))"
    using fill_columns [of "\<lambda>row crc. row ! unat (drop_bit 24 crc AND 0xff) XOR push_bit 8 crc" ?tab "bsteps_be 8" 256, OF n l r order_refl]
    unfolding t init_column_be_fill Let_def by blast
  then show "length (crc32init_be bits) = bits div 8" "\<forall>r \<in> set (crc32init_be bits). length r = 256" by simp_all
  show "crc32init_be bits ! j ! v = (bsteps_be 8 ^^ Suc j) (push_bit 24 (of_nat v))" if "j < bits div 8" "v < 256"
  proof -
    have "?tab ! 0 ! v = bsteps_be 8 (push_bit 24 (of_nat v))" using 0 that(2) by (simp only: be_row_def) simp
    moreover have "crc32init_be bits ! j ! v = (bsteps_be 8 ^^ j) (?tab ! 0 ! v)" using c that by (simp only: length_list_update length_replicate)
    ultimately show ?thesis by (simp only: funpow_Suc_right o_apply)
  qed
qed

section \<open>The byte-swapped register\<close>

definition swapped_step :: "u32 \<Rightarrow> u32" where
  "swapped_step c = ext2fs_swab32 (bsteps_be 8 (ext2fs_swab32 c))"

lemma bytes_eqI:
  fixes a b :: u32
  assumes eq: "\<And>q r. q < 4 \<Longrightarrow> r < 8 \<Longrightarrow> bit a (8 * q + r) = bit b (8 * q + r)"
  shows "a = b"
proof (rule bit_word_eqI)
  fix n
  assume "n < LENGTH(32)"
  then have "n div 8 < 4" "n mod 8 < 8" "n = 8 * (n div 8) + n mod 8" by simp_all
  then show "bit a n = bit b n" using eq by metis
qed

lemma bit_swab_byte: "q < 4 \<Longrightarrow> r < 8 \<Longrightarrow> bit (ext2fs_swab32 w) (8 * q + r) = bit w (8 * (3 - q) + r)"
  using bit_swab32 [of "8 * q + r" w] by simp

lemma swab_swab [simp]: "ext2fs_swab32 (ext2fs_swab32 c) = c"
  by (rule bytes_eqI) (simp add: bit_swab_byte)

lemma swab_xor: "ext2fs_swab32 (a XOR b) = ext2fs_swab32 a XOR ext2fs_swab32 b"
  by (rule bytes_eqI) (simp add: bit_swab_byte bit_xor_iff)

lemma swab_push: "ext2fs_swab32 (push_bit 8 c) = drop_bit 8 (ext2fs_swab32 c)"
proof (rule bytes_eqI)
  fix q r :: nat
  assume r: "q < 4" "r < 8"
  show "bit (ext2fs_swab32 (push_bit 8 c)) (8 * q + r) = bit (drop_bit 8 (ext2fs_swab32 c)) (8 * q + r)"
  proof (cases "q = 3")
    case True
    have "\<not> bit (ext2fs_swab32 c) (8 + (8 * q + r))" using True by (auto dest: bit_imp_le_length)
    then show ?thesis unfolding bit_swab_byte [OF r] using True r by (simp add: bit_drop_bit_eq bit_push_bit_iff)
  next
    case False
    have e: "8 + (8 * q + r) = 8 * Suc q + r" "8 * (3 - q) + r = 8 + (8 * (3 - Suc q) + r)" using False r by simp_all
    have l: "8 * (2 - q) + r < 24" using r by linarith
    have "bit (drop_bit 8 (ext2fs_swab32 c)) (8 * q + r) = bit c (8 * (3 - Suc q) + r)"
      unfolding bit_drop_bit_eq o_apply e(1) using False r by (intro bit_swab_byte) simp_all
    moreover have "bit (ext2fs_swab32 (push_bit 8 c)) (8 * q + r) = bit c (8 * (3 - Suc q) + r)"
      unfolding bit_swab_byte [OF r] e(2) using False r l by (simp add: bit_push_bit_iff)
    ultimately show ?thesis by simp
  qed
qed

lemma swab_take: "push_bit 24 (drop_bit 24 (ext2fs_swab32 c)) = ext2fs_swab32 (take_bit 8 c)"
proof (rule bytes_eqI)
  fix q r :: nat
  assume r: "q < 4" "r < 8"
  then show "bit (push_bit 24 (drop_bit 24 (ext2fs_swab32 c))) (8 * q + r) = bit (ext2fs_swab32 (take_bit 8 c)) (8 * q + r)"
    unfolding bit_swab_byte [OF r] using bit_swab_byte [OF r, of c]
    by (cases "q = 3") (auto simp: bit_drop_bit_eq bit_push_bit_iff bit_take_bit_iff)
qed

interpretation swapped: byte_register swapped_step
proof
  show "swapped_step (a XOR b) = swapped_step a XOR swapped_step b" for a b
    unfolding swapped_step_def swab_xor be_xor ..
  show "swapped_step x = drop_bit 8 x XOR swapped_step (take_bit 8 x)" for x
    using be_split [of 8 "ext2fs_swab32 x"] by (simp add: swapped_step_def swab_xor swab_push swab_take del: funpow.simps)
qed

lemma swab_byte: "ext2fs_swab32 (push_bit 24 (ucast b)) = ucast (b :: byte)"
proof (rule bytes_eqI)
  fix q r :: nat
  assume r: "q < 4" "r < 8"
  have "\<not> bit b (8 * q + r)" if "0 < q" using that by (auto dest: bit_imp_le_length)
  then show "bit (ext2fs_swab32 (push_bit 24 (ucast b))) (8 * q + r) = bit (ucast b :: u32) (8 * q + r)"
    unfolding bit_swab_byte [OF r] using r by (cases "q = 0") (auto simp: bit_push_bit_iff bit_unsigned_iff)
qed

lemma swab_nat: "v < 256 \<Longrightarrow> ext2fs_swab32 (push_bit 24 (of_nat v)) = of_nat v"
  using swab_byte [of "of_nat v"] by (simp add: unsigned_of_nat take_bit_nat_eq_self)

lemma swab_steps: "ext2fs_swab32 ((bsteps_be 8 ^^ k) c) = (swapped_step ^^ k) (ext2fs_swab32 c)"
proof (induction k)
  case (Suc k)
  have "ext2fs_swab32 (bsteps_be 8 d) = swapped_step (ext2fs_swab32 d)" for d by (simp only: swapped_step_def swab_swab)
  then show ?case using Suc by (simp only: funpow.simps o_apply)
qed simp

section \<open>All variants compute the same\<close>

definition crc32_be_bytes :: "u32 \<Rightarrow> byte list \<Rightarrow> u32" where
  "crc32_be_bytes crc p = foldl (\<lambda>crc b. bsteps_be 8 (crc XOR push_bit 24 (ucast b))) crc p"

lemma swapped_bytes: "register_bytes swapped_step (ext2fs_swab32 crc) p = ext2fs_swab32 (crc32_be_bytes crc p)"
proof (induction p arbitrary: crc)
  case (Cons b p)
  have "swapped_step (ext2fs_swab32 crc XOR ucast b) = ext2fs_swab32 (bsteps_be 8 (crc XOR push_bit 24 (ucast b)))"
    using swab_xor [of "ext2fs_swab32 crc" "ucast b"] swab_byte [of b] swab_swab [of "push_bit 24 (ucast b)"] by (simp only: swapped_step_def swab_swab)
  then show ?case using Cons by (simp only: register_bytes_simps crc32_be_bytes_def foldl.simps)
qed (simp add: crc32_be_bytes_def)

lemma crc32table_be_slice:
  assumes "be_bits \<in> {32, 64}" "le_bits \<in> {32, 64}" "le_bits \<le> be_bits"
  shows "\<exists>tab. crc32table_be le_bits be_bits = Inr tab \<and> slice_table swapped_step (le_bits div 8) tab"
proof -
  let ?init = "crc32init_be be_bits"
  have b: "8 < be_bits" "8 < le_bits" "le_bits div 8 \<le> be_bits div 8" using assms by auto
  let ?tab = "map (map ext2fs_swab32 \<circ> take 256) (take (le_bits div 8) ?init) @ replicate (be_bits div 8 - le_bits div 8) (replicate 256 0)"
  have "crc32table_be le_bits be_bits = Inr ?tab"
    using b by (simp add: crc32table_be_def BE_TABLE_ROWS_def LE_TABLE_ROWS_def BE_TABLE_SIZE_def)
  moreover have "slice_table swapped_step (le_bits div 8) ?tab"
    unfolding slice_table_def slice_row_def
  proof (intro allI impI)
    fix j v :: nat
    assume j: "j < le_bits div 8" and v: "v < 256"
    have l: "length ?init = be_bits div 8" "j < length ?init" using crc32init_be_rows(1) [OF b(1)] j b(3) by simp_all
    then have "length (?init ! j) = 256" using crc32init_be_rows(2) [OF b(1)] by simp
    then have "?tab ! j ! v = ext2fs_swab32 (?init ! j ! v)" using l j v b(3) by (simp add: nth_append)
    also have "\<dots> = (swapped_step ^^ Suc j) (of_nat v)"
      using crc32init_be_rows(3) [OF b(1) _ v, of j] l by (simp only: swab_steps swab_nat [OF v])
    finally show "?tab ! j ! v = (swapped_step ^^ Suc j) (of_nat v)" .
  qed
  ultimately show ?thesis by blast
qed

lemma crc32table_be_small:
  assumes "1 < be_bits" "be_bits \<le> 8" "le_bits \<le> 8"
  shows "\<exists>row. crc32table_be le_bits be_bits = Inr [row] \<and> be_row be_bits (2 ^ be_bits) row"
proof -
  let ?init = "crc32init_be be_bits"
  have b: "0 < be_bits" using assms(1) by simp
  have "?init = [?init ! 0]" using crc32init_be_small(2) [OF b assms(2)] by (cases ?init) auto
  then have "take 1 ?init = [?init ! 0]" by (metis take_Suc_Cons take_0 One_nat_def)
  then have "crc32table_be le_bits be_bits = Inr [take (2 ^ be_bits) (?init ! 0)]"
    using assms by (simp add: crc32table_be_def BE_TABLE_ROWS_def LE_TABLE_ROWS_def BE_TABLE_SIZE_def)
  moreover have "be_row be_bits (2 ^ be_bits) (take (2 ^ be_bits) (?init ! 0))"
    using crc32init_be_small(1) [OF b assms(2)] by (simp add: be_row_def)
  ultimately show ?thesis by blast
qed

lemma funpow_be: "(bsteps_be k ^^ n) c = bsteps_be (n * k) c"
  by (induction n) (simp_all add: funpow_add)

lemma crc32_be_generic_small:
  assumes "be_bits \<in> {2, 4, 8}" "be_row be_bits (2 ^ be_bits) row"
  shows "crc32_be_generic le_bits be_bits addr crc p [row] CRCPOLY_BE = crc32_be_bytes crc p"
proof -
  have "be_bits \<le> 32" using assms(1) by auto
  note l = be_row_lookup [OF assms(2) this]
  consider "be_bits = 2" | "be_bits = 4" | "be_bits = 8" using assms(1) by blast
  then show ?thesis
  proof cases
    case 1
    then have "(\<lambda>c. push_bit 2 c XOR row ! unat (drop_bit 30 c)) = bsteps_be 2" using l by (intro ext) simp
    then show ?thesis using 1 by (simp add: crc32_be_generic_def crc32_be_bytes_def funpow_be del: funpow.simps)
  next
    case 2
    then have "(\<lambda>c. push_bit 4 c XOR row ! unat (drop_bit 28 c)) = bsteps_be 4" using l by (intro ext) simp
    then show ?thesis using 2 by (simp add: crc32_be_generic_def crc32_be_bytes_def funpow_be del: funpow.simps)
  next
    case 3
    then have "push_bit 8 c XOR row ! unat (drop_bit 24 c) = bsteps_be 8 c" for c using l [of c] by simp
    then show ?thesis using 3 by (simp add: crc32_be_generic_def crc32_be_bytes_def Let_def del: funpow.simps)
  qed
qed

text \<open>The build takes 64 bits at a time for both checksums.\<close>

lemma ext2fs_crc32_be_bytes: "ext2fs_crc32_be addr crc p = Inr (crc32_be_bytes crc p)"
proof -
  obtain tab where t: "crc32table_be 64 64 = Inr tab" "slice_table swapped_step (64 div 8) tab"
    using crc32table_be_slice [of 64 64] by auto
  then show ?thesis
    using swapped.crc32_body_bytes [OF _ t(2), of addr "ext2fs_swab32 crc" p]
    by (simp add: ext2fs_crc32_be_def crc32_be_generic_def swapped_bytes)
qed

text \<open>With fewer bits at a time for the little-endian checksum the rows that slicing needs are not printed.\<close>

lemma crc32table_be_unprinted:
  assumes "8 < be_bits" "be_bits \<le> 64" "le_bits \<le> 8" "0 < j" "j < be_bits div 8"
  shows "\<exists>tab. crc32table_be le_bits be_bits = Inr tab \<and> tab ! j = replicate 256 0"
proof -
  have "min (length (crc32init_be be_bits)) (Suc 0) = Suc 0" using crc32init_be_rows(1) [OF assms(1)] assms(1) by simp
  moreover have "j - Suc 0 < be_bits div 8 - Suc 0" using assms(4,5) by simp
  ultimately show ?thesis using assms
    by (simp add: crc32table_be_def BE_TABLE_ROWS_def LE_TABLE_ROWS_def BE_TABLE_SIZE_def nth_append)
qed

section \<open>Properties\<close>

text \<open>
  C17: for the supported settings of CRC_BE_BITS and CRC_LE_BITS under which the generator prints enough
  rows, the generator makes a table and the checksum with this table is the bitwise one, at any
  address of the buffer: the register is shifted eight times for each byte, highest bit first.
\<close>

theorem crc32_be_variants_agree:
  assumes "be_bits \<in> {1, 2, 4, 8, 32, 64}" "le_bits \<in> {1, 2, 4, 8, 32, 64}"
    and "if be_bits \<le> 8 then le_bits \<le> 8 else 8 < le_bits \<and> le_bits \<le> be_bits"
  shows "\<exists>tab. crc32table_be le_bits be_bits = Inr tab \<and>
    crc32_be_generic le_bits be_bits addr crc p tab CRCPOLY_BE =
      foldl (\<lambda>crc b. (crc_step_be CRCPOLY_BE ^^ 8) (crc XOR push_bit 24 (ucast b))) crc p"
proof -
  consider "be_bits = 1" | "1 < be_bits" "be_bits \<le> 8" | "8 < be_bits" using assms(1) by fastforce
  then show ?thesis
  proof cases
    case 1
    then show ?thesis by (simp add: crc32table_be_def crc32_be_generic_def)
  next
    case 2
    then have b: "be_bits \<in> {2, 4, 8}" and "le_bits \<le> 8" using assms by auto
    then obtain row where r: "crc32table_be le_bits be_bits = Inr [row]" "be_row be_bits (2 ^ be_bits) row"
      using crc32table_be_small [of be_bits le_bits] 2 by auto
    then show ?thesis using crc32_be_generic_small [OF b r(2), of le_bits addr crc p] unfolding crc32_be_bytes_def by (intro exI conjI)
  next
    case 3
    then have b: "be_bits \<in> {32, 64}" "le_bits \<in> {32, 64}" "le_bits \<le> be_bits" using assms by auto
    then obtain tab where t: "crc32table_be le_bits be_bits = Inr tab" "slice_table swapped_step (le_bits div 8) tab"
      using crc32table_be_slice by blast
    have "crc32_be_generic le_bits be_bits addr crc p tab CRCPOLY_BE = crc32_be_bytes crc p"
      using b(1) swapped.crc32_body_bytes [OF b(2) t(2)] by (auto simp: crc32_be_generic_def swapped_bytes)
    then show ?thesis using t(1) by (simp add: crc32_be_bytes_def del: funpow.simps)
  qed
qed

theorem crc32_be_variants_agree_witness:
  "\<exists>tab. crc32table_be 64 64 = Inr tab \<and> crc32_be_generic 64 64 3 0xFFFFFFFF [0x31] tab CRCPOLY_BE = 0x9EFBCF93"
proof -
  have "foldl (\<lambda>crc b. (crc_step_be CRCPOLY_BE ^^ 8) (crc XOR push_bit 24 (ucast b))) 0xFFFFFFFF [0x31 :: byte] = 0x9EFBCF93" by code_simp
  then show ?thesis using crc32_be_variants_agree [of 64 64 3 "0xFFFFFFFF" "[0x31]"] by simp
qed

end
