(* ===== verification/Inode_Update.thy ===== *)
theory Inode_Update
  imports Disk_Blocks Array_Store
begin

text \<open>
  Writing inodes: through the cache of inodes and the block cache, the tables of the groups behave as an
  array of inodes. Writing one inode changes its bytes in its table and no other inode.
\<close>

unbundle bit_operations_syntax

section \<open>Inodes do not overlap\<close>

text \<open>The tables of different groups have no block in common; the checks of the library do not test this.\<close>

definition valid_ino :: "ext2_super_block \<Rightarrow> u32 \<Rightarrow> bool" where
  "valid_ino sb ino \<longleftrightarrow> ino \<noteq> 0 \<and> ino \<le> s_inodes_count sb"

definition tables_apart :: "ext2_super_block \<Rightarrow> byte list \<Rightarrow> bool" where
  "tables_apart sb gd \<longleftrightarrow>
     (\<forall>a b. valid_ino sb a \<and> valid_ino sb b \<and> inode_group sb a \<noteq> inode_group sb b \<longrightarrow> inode_block sb gd a \<noteq> inode_block sb gd b)"

lemma multiples_apart:
  fixes i b k l :: nat
  assumes "i dvd b" "k \<noteq> l" "k * i div b = l * i div b" "0 < i"
  shows "k * i mod b + i \<le> l * i mod b \<or> l * i mod b + i \<le> k * i mod b"
proof -
  have step: "m * i mod b + i \<le> n * i mod b" if "m < n" "m * i div b = n * i div b" for m n
  proof -
    define q where "q = n * i div b"
    have "(m + 1) * i \<le> n * i" using that(1) by (intro mult_le_mono1) simp
    moreover have "q * b + m * i mod b = m * i" using div_mult_mod_eq [of "m * i" b] that(2) by (simp add: q_def)
    moreover have "q * b + n * i mod b = n * i" using div_mult_mod_eq [of "n * i" b] by (simp add: q_def)
    ultimately show ?thesis unfolding add_mult_distrib by linarith
  qed
  show ?thesis using assms(2,3) step [of k l] step [of l k] by (metis linorder_neqE_nat)
qed

lemma inodes_apart:
  assumes sz: "sizes_ok sb" and p: "0 < unat (s_inodes_per_group sb)" "unat (s_inodes_per_group sb) * unat (EXT2_INODE_SIZE sb) < 2 ^ 32"
    and v: "valid_ino sb a" "valid_ino sb b" "a \<noteq> b" "tables_apart sb gd" and blk: "inode_block sb gd a = inode_block sb gd b"
  shows "inode_offset sb a mod unat (EXT2_BLOCK_SIZE sb) + unat (EXT2_INODE_SIZE sb) \<le> inode_offset sb b mod unat (EXT2_BLOCK_SIZE sb) \<or>
    inode_offset sb b mod unat (EXT2_BLOCK_SIZE sb) + unat (EXT2_INODE_SIZE sb) \<le> inode_offset sb a mod unat (EXT2_BLOCK_SIZE sb)"
proof -
  let ?p = "unat (s_inodes_per_group sb)" and ?i = "unat (EXT2_INODE_SIZE sb)" and ?bs = "unat (EXT2_BLOCK_SIZE sb)"
  let ?k = "\<lambda>ino. (unat ino - 1) mod ?p"
  have grp: "inode_group sb a = inode_group sb b" using v blk by (auto simp: tables_apart_def)
  have pos: "0 < unat a" "0 < unat b" using v by (auto simp: valid_ino_def unat_gt_0)
  have "unat (inode_group sb x) = (unat x - 1) div ?p" if "0 < unat x" for x
    using that by (simp add: inode_group_def unat_div_distrib unat_minus_one unat_gt_0)
  then have "(unat a - 1) div ?p = (unat b - 1) div ?p" using grp pos by metis
  then have ne: "?k a \<noteq> ?k b" using v(3) pos
    by (metis One_nat_def Suc_pred div_mult_mod_eq word_unat_eq_iff)
  have lt: "inode_offset sb x div ?bs < 2 ^ 64" for x
  proof -
    have "inode_offset sb x \<le> ?p * ?i" unfolding inode_offset_def using p(1) by (intro mult_le_mono1) (simp add: less_imp_le)
    then show ?thesis using p(2) by (intro le_less_trans [OF div_le_dividend]) simp
  qed
  have "(of_nat (inode_offset sb a div ?bs) :: u64) = of_nat (inode_offset sb b div ?bs)" using blk grp by (simp add: inode_block_def)
  then have "inode_offset sb a div ?bs = inode_offset sb b div ?bs" using lt [of a] lt [of b]
    by (simp add: word_unat_eq_iff unat_of_nat)
  moreover have "?i dvd ?bs" "0 < ?i" using sz by (auto simp: sizes_ok_def)
  ultimately show ?thesis using multiples_apart [of ?i ?bs "?k a" "?k b"] ne by (simp add: inode_offset_def)
qed

text \<open>The blocks after an inode was stored.\<close>

definition inode_stored :: "ext2_super_block \<Rightarrow> byte list \<Rightarrow> u32 \<Rightarrow> byte list \<Rightarrow> disk \<Rightarrow> disk" where
  "inode_stored sb gd ino nd D =
     (let b = inode_block sb gd ino in D(b := overlay (D b) (inode_offset sb ino mod unat (EXT2_BLOCK_SIZE sb)) nd))"

lemma stored_self:
  assumes "sizes_ok sb" "length (D (inode_block sb gd ino)) = unat (EXT2_BLOCK_SIZE sb)" "length nd = unat (EXT2_INODE_SIZE sb)"
  shows "inode_bytes sb gd (inode_stored sb gd ino nd D) ino = nd"
  using inode_fits [OF assms(1), of ino] assms(2,3) overlay_same [of "inode_offset sb ino mod unat (EXT2_BLOCK_SIZE sb)" nd]
  by (simp add: inode_bytes_def inode_stored_def Let_def)

lemma stored_other:
  assumes "sizes_ok sb" "0 < unat (s_inodes_per_group sb)" "unat (s_inodes_per_group sb) * unat (EXT2_INODE_SIZE sb) < 2 ^ 32"
    "valid_ino sb ino" "valid_ino sb other" "ino \<noteq> other" "tables_apart sb gd"
    and "length (D (inode_block sb gd ino)) = unat (EXT2_BLOCK_SIZE sb)" "length nd = unat (EXT2_INODE_SIZE sb)"
  shows "inode_bytes sb gd (inode_stored sb gd ino nd D) other = inode_bytes sb gd D other"
proof (cases "inode_block sb gd ino = inode_block sb gd other")
  case True
  let ?o = "\<lambda>x. inode_offset sb x mod unat (EXT2_BLOCK_SIZE sb)"
  have "?o other + unat (EXT2_INODE_SIZE sb) \<le> ?o ino \<or> ?o ino + length nd \<le> ?o other"
    using inodes_apart [OF assms(1-7) True] assms(9) by auto
  moreover have "?o ino + length nd \<le> length (D (inode_block sb gd ino))" using inode_fits [OF assms(1), of ino] assms(8,9) by simp
  ultimately show ?thesis using True by (simp add: inode_bytes_def inode_stored_def Let_def overlay_other)
qed (simp add: inode_bytes_def inode_stored_def Let_def)

section \<open>One write\<close>

lemma update_cached_inos [simp]: "map ic_ino (update_cached cs ino bs) = map ic_ino cs"
  by (induction cs) auto

lemma length_update_cached [simp]: "length (update_cached cs ino bs) = length cs"
  by (metis length_map update_cached_inos)

lemma update_cached_entry:
  assumes "distinct (filter (\<lambda>ino. ino \<noteq> 0) (map ic_ino cs))" "ino \<noteq> 0" "c \<in> set (update_cached cs ino bs)"
  shows "(c \<in> set cs \<and> ic_ino c \<noteq> ino) \<or> (\<exists>c' \<in> set cs. ic_ino c' = ino \<and> c = c'\<lparr>ic_inode := bs @ drop (length bs) (ic_inode c')\<rparr>)"
  using assms(1,3)
proof (induction cs)
  case (Cons d cs)
  show ?case
  proof (cases "ic_ino d = ino")
    case True
    then have "ino \<notin> set (map ic_ino cs)" using Cons(2) assms(2) by auto
    then have "ic_ino c' \<noteq> ino" if "c' \<in> set cs" for c' using that by auto
    then show ?thesis using Cons(3) True by auto
  next
    case False
    have "distinct (filter (\<lambda>ino. ino \<noteq> 0) (map ic_ino cs))" using Cons(2) by (auto split: if_split_asm)
    then show ?thesis using Cons(1,3) False by auto
  qed
qed simp

text \<open>The loop over the blocks of the inode is one step, which leaves the new block in the buffer.\<close>

lemma store_inode_spec:
  assumes ok: "fs_ok fs gd D" and there: "inode_there fs gd ino" and buf: "ic_buffer_blk ic \<noteq> 0 \<longrightarrow> ic_buffer ic = D (ic_buffer_blk ic)"
    and dev: "\<forall>l s. \<not> bd_rerr (ud_dev (ef_io fs)) l s" "\<not> ch_writethrough (ef_io fs)" "write_ok (ef_io fs)"
    and len: "length nd = unat (EXT2_INODE_SIZE (ef_super fs))"
  obtains ch ic' where "store_inode (unat (ef_blocksize fs)) (inode_block (ef_super fs) gd ino)
      (inode_offset (ef_super fs) ino mod unat (EXT2_BLOCK_SIZE (ef_super fs))) nd (ef_io fs) ic = (None, ch, ic')"
    "represents ch (inode_stored (ef_super fs) gd ino nd D)" "like (ef_io fs) ch" "ic_cache ic' = ic_cache ic" "ic_cache_last ic' = ic_cache_last ic"
    "ic_buffer ic' = inode_stored (ef_super fs) gd ino nd D (ic_buffer_blk ic')"
proof -
  let ?sb = "ef_super fs" and ?b = "inode_block (ef_super fs) gd ino" and ?bs = "unat (EXT2_BLOCK_SIZE (ef_super fs))"
  let ?o = "inode_offset (ef_super fs) ino mod unat (EXT2_BLOCK_SIZE (ef_super fs))"
  have sz: "sizes_ok ?sb" "ef_blocksize fs = EXT2_BLOCK_SIZE ?sb" "represents (ef_io fs) D" "\<not> ud_nocache (ef_io fs)"
    "ch_block_size (ef_io fs) = ?bs" using ok by (simp_all add: fs_ok_def)
  have i: "?o + length nd \<le> ?bs" "0 < length nd" using inode_fits [OF sz(1), of ino] sz(1) len by (simp_all add: sizes_ok_def)
  then have lt: "\<not> ?bs \<le> ?o" by linarith
  have r: "in_range (ef_io fs) ?b 1" "?b \<noteq> 0" using there by (simp_all add: inode_there_def Let_def)
  have lenb: "length (D ?b) = ?bs" using represents_block_length [OF sz(3) r(1)] sz(5) by simp
  obtain ch1 where rd: "(if ic_buffer_blk ic = ?b then (None, ef_io fs, ic) else (let (e, ch1, data) = unix_read_blk64 (ef_io fs) True ?b 1
      in (e, ch1, if e \<noteq> None then ic\<lparr>ic_buffer := data\<rparr> else ic\<lparr>ic_buffer := data, ic_buffer_blk := ?b\<rparr>))) =
      (None, ch1, ic\<lparr>ic_buffer := D ?b, ic_buffer_blk := ?b\<rparr>)" "represents ch1 D" "like (ef_io fs) ch1"
  proof (cases "ic_buffer_blk ic = ?b")
    case True
    then have "ic = ic\<lparr>ic_buffer := D ?b, ic_buffer_blk := ?b\<rparr>" using buf r(2) by simp
    then show ?thesis using that [of "ef_io fs"] True sz(3) by simp
  next
    case False
    obtain e ch1 data where rd: "unix_read_blk64 (ef_io fs) True ?b 1 = (e, ch1, data)" by (metis prod_cases3)
    have "represents ch1 D \<and> like (ef_io fs) ch1 \<and> e = None \<and> data = D ?b"
      using unix_read_spec [OF sz(3,4) _ rd] dev(1) r(1) by (simp add: read_blocks_def spec_read_def)
    then show ?thesis using that [of ch1] False rd by simp
  qed
  let ?new = "overlay (D ?b) ?o nd"
  have c1: "\<not> ud_nocache ch1" "\<not> ch_writethrough ch1" "write_ok ch1" "in_range ch1 ?b 1" "ch_block_size ch1 = ?bs"
    using like_geometry [OF rd(3)] sz(4,5) dev(2,3) r(1) by simp_all
  obtain ch2 where wr: "unix_write_blk64 ch1 True ?b (int 1) ?new = (None, ch2)" "represents ch2 (disk_write D ?b (chunks (ch_block_size ch1) 1 ?new))" "like ch1 ch2"
    by (rule unix_write_spec [OF rd(2) c1(1-3), of 1 ?b ?new]) (use c1(4,5) lenb i in \<open>auto simp: WRITE_DIRECT_SIZE_def\<close>)
  have "take ?o (D ?b) @ take (length nd) nd @ drop (?o + length nd) (D ?b) = ?new" by (simp add: overlay_def)
  then have run: "store_inode (unat (ef_blocksize fs)) ?b ?o nd (ef_io fs) ic = (None, ch2, ic\<lparr>ic_buffer := ?new, ic_buffer_blk := ?b\<rparr>)"
    using rd(1) wr(1) i lt sz(2) by (subst store_inode.simps) (simp add: store_inode.simps [of _ _ 0 "[]"] Let_def)
  have "disk_write D ?b (chunks (ch_block_size ch1) 1 ?new) = inode_stored ?sb gd ino nd D"
    using lenb i c1(5) by (simp add: inode_stored_def Let_def)
  then show ?thesis by (intro that [OF run]) (use wr(2) like_trans [OF rd(3) wr(3)] in \<open>simp_all add: inode_stored_def Let_def\<close>)
qed

text \<open>What is written: the bytes of the caller, then those of the inode as it was, with the checksum.\<close>

definition written_inode :: "ext2fs \<Rightarrow> u32 \<Rightarrow> byte list \<Rightarrow> bool \<Rightarrow> byte list \<Rightarrow> byte list" where
  "written_inode fs ino inode nocsum old =
     (let bytes = take (unat (EXT2_INODE_SIZE (ef_super fs))) inode; w = bytes @ drop (length bytes) old
      in if nocsum then w else ext2fs_inode_csum_set (ef_super fs) (ef_csum_seed fs) ino w)"

lemma length_csum_set: "128 \<le> length nd \<Longrightarrow> length nd \<noteq> 128 \<longrightarrow> 132 \<le> length nd \<Longrightarrow> EXT2_INODE_SIZE sb > 128 \<longrightarrow> length nd \<noteq> 128 \<Longrightarrow>
    length (ext2fs_inode_csum_set sb seed ino nd) = length nd"
  by (auto simp: ext2fs_inode_csum_set_def Let_def inode_has_hi_def)

lemma dvd_power_of_2: "d dvd 2 ^ k \<Longrightarrow> \<exists>n. d = (2 :: nat) ^ n"
proof (induction k arbitrary: d)
  case 0
  then show ?case by (intro exI [of _ 0]) simp
next
  case (Suc k)
  show ?case
  proof (cases "even d")
    case True
    then obtain e where e: "d = 2 * e" by blast
    then have "e dvd 2 ^ k" using Suc(2) by simp
    then obtain n where "e = 2 ^ n" using Suc(1) by blast
    then show ?thesis using e by (intro exI [of _ "Suc n"]) simp
  next
    case False
    then have "coprime d 2" by simp
    then have "d dvd 2 ^ k" using Suc(2) by (simp add: coprime_dvd_mult_right_iff)
    then show ?thesis by (rule Suc(1))
  qed
qed

lemma inode_size_room:
  assumes "sizes_ok sb"
  shows "128 \<le> unat (EXT2_INODE_SIZE sb)" "unat (EXT2_INODE_SIZE sb) \<noteq> 128 \<Longrightarrow> 132 \<le> unat (EXT2_INODE_SIZE sb)" "EXT2_INODE_SIZE sb > 128 \<longrightarrow> unat (EXT2_INODE_SIZE sb) \<noteq> 128"
proof -
  let ?i = "unat (EXT2_INODE_SIZE sb)"
  show i: "128 \<le> ?i" using assms by (simp add: sizes_ok_def)
  show "EXT2_INODE_SIZE sb > 128 \<longrightarrow> ?i \<noteq> 128" by (auto simp: word_less_nat_alt)
  have "?i dvd unat (EXT2_BLOCK_SIZE sb)" "unat (EXT2_BLOCK_SIZE sb) = 2 ^ (10 + unat (s_log_block_size sb))" using assms unfolding sizes_ok_def by blast+
  then obtain n where n: "?i = 2 ^ n" using dvd_power_of_2 by metis
  assume "?i \<noteq> 128"
  then have "2 ^ 7 < (2 :: nat) ^ n" using i n by simp
  then have "7 < n" by (metis nat_power_less_imp_less zero_less_numeral)
  then have "(2 :: nat) ^ 8 \<le> 2 ^ n" by (intro power_increasing) auto
  then show "132 \<le> ?i" using n by simp
qed

lemma length_written:
  assumes "sizes_ok (ef_super fs)" "length old = unat (EXT2_INODE_SIZE (ef_super fs))"
  shows "length (written_inode fs ino inode nocsum old) = unat (EXT2_INODE_SIZE (ef_super fs))"
  using inode_size_room [OF assms(1)] assms(2) by (auto simp: written_inode_def Let_def length_csum_set)

text \<open>A file system that can be written.\<close>

definition writable :: "ext2fs \<Rightarrow> bool" where
  "writable fs \<longleftrightarrow> flag (ef_flags fs) EXT2_FLAG_RW \<and> (\<forall>l s. \<not> bd_rerr (ud_dev (ef_io fs)) l s) \<and> \<not> ch_writethrough (ef_io fs) \<and> write_ok (ef_io fs)"

lemma writable_like: "writable fs \<Longrightarrow> like (ef_io fs) (ef_io fs') \<Longrightarrow> flag (ef_flags fs') EXT2_FLAG_RW \<Longrightarrow> writable fs'"
  using like_geometry [of "ef_io fs" "ef_io fs'"] by (simp add: writable_def)

text \<open>The cache, in which the entry of the inode has already changed.\<close>

definition icache_but :: "ext2_super_block \<Rightarrow> byte list \<Rightarrow> disk \<Rightarrow> u32 \<Rightarrow> byte list \<Rightarrow> ext2_inode_cache \<Rightarrow> bool" where
  "icache_but sb gd D ino nd ic \<longleftrightarrow> length (ic_cache ic) = 4 \<and> - 1 \<le> ic_cache_last ic \<and>
     (ic_buffer_blk ic \<noteq> 0 \<longrightarrow> ic_buffer ic = D (ic_buffer_blk ic)) \<and>
     (\<forall>c \<in> set (ic_cache ic). length (ic_inode c) = unat (EXT2_INODE_SIZE sb) \<and> ic_ino c \<le> s_inodes_count sb \<and>
        (ic_ino c \<noteq> 0 \<longrightarrow> ic_inode c = (if ic_ino c = ino then nd else inode_bytes sb gd D (ic_ino c)))) \<and>
     distinct (filter (\<lambda>ino. ino \<noteq> 0) (map ic_ino (ic_cache ic)))"

lemma icache_but_same: "icache_ok sb gd D ic \<Longrightarrow> cached_inode (ic_cache ic) ino = None \<Longrightarrow> icache_but sb gd D ino nd ic"
  by (auto simp: icache_ok_def icache_but_def cached_inode_None)

lemma icache_but_update:
  assumes "icache_ok sb gd D ic" "ino \<noteq> 0" "length bs \<le> unat (EXT2_INODE_SIZE sb)"
  shows "icache_but sb gd D ino (bs @ drop (length bs) (inode_bytes sb gd D ino)) (ic\<lparr>ic_cache := update_cached (ic_cache ic) ino bs\<rparr>)"
proof -
  let ?cs = "update_cached (ic_cache ic) ino bs" and ?nd = "bs @ drop (length bs) (inode_bytes sb gd D ino)"
  have ok: "length (ic_inode c) = unat (EXT2_INODE_SIZE sb)" "ic_ino c \<le> s_inodes_count sb" "ic_ino c \<noteq> 0 \<Longrightarrow> ic_inode c = inode_bytes sb gd D (ic_ino c)"
    if "c \<in> set (ic_cache ic)" for c using that assms(1) by (simp_all add: icache_ok_def)
  have dist: "distinct (filter (\<lambda>ino. ino \<noteq> 0) (map ic_ino (ic_cache ic)))" using assms(1) by (simp add: icache_ok_def)
  have "length (ic_inode c) = unat (EXT2_INODE_SIZE sb) \<and> ic_ino c \<le> s_inodes_count sb \<and>
      (ic_ino c \<noteq> 0 \<longrightarrow> ic_inode c = (if ic_ino c = ino then ?nd else inode_bytes sb gd D (ic_ino c)))" if "c \<in> set ?cs" for c
    using update_cached_entry [OF dist assms(2) that]
  proof
    assume "c \<in> set (ic_cache ic) \<and> ic_ino c \<noteq> ino"
    then show ?thesis using ok [of c] by simp
  next
    assume "\<exists>c' \<in> set (ic_cache ic). ic_ino c' = ino \<and> c = c'\<lparr>ic_inode := bs @ drop (length bs) (ic_inode c')\<rparr>"
    then obtain c' where "c' \<in> set (ic_cache ic)" "ic_ino c' = ino" "c = c'\<lparr>ic_inode := bs @ drop (length bs) (ic_inode c')\<rparr>" by blast
    then show ?thesis using ok [of c'] assms(2,3) by simp
  qed
  then show ?thesis using assms(1) dist by (simp add: icache_ok_def icache_but_def)
qed

lemma icache_but_done:
  assumes but: "icache_but sb gd D ino nd ic" and "sizes_ok sb" "0 < unat (s_inodes_per_group sb)" "unat (s_inodes_per_group sb) * unat (EXT2_INODE_SIZE sb) < 2 ^ 32"
    "valid_ino sb ino" "tables_apart sb gd" "length (D (inode_block sb gd ino)) = unat (EXT2_BLOCK_SIZE sb)" "length nd = unat (EXT2_INODE_SIZE sb)"
    and ic: "ic_cache ic' = ic_cache ic" "ic_cache_last ic' = ic_cache_last ic" "ic_buffer ic' = inode_stored sb gd ino nd D (ic_buffer_blk ic')"
  shows "icache_ok sb gd (inode_stored sb gd ino nd D) ic'"
proof -
  let ?D = "inode_stored sb gd ino nd D"
  have "ic_inode c = inode_bytes sb gd ?D (ic_ino c)" if "c \<in> set (ic_cache ic)" "ic_ino c \<noteq> 0" for c
  proof (cases "ic_ino c = ino")
    case True
    then show ?thesis using but that stored_self [of sb D gd ino nd] assms(2,7,8) by (auto simp: icache_but_def)
  next
    case False
    have "valid_ino sb (ic_ino c)" using but that by (auto simp: icache_but_def valid_ino_def)
    then have "inode_bytes sb gd ?D (ic_ino c) = inode_bytes sb gd D (ic_ino c)"
      by (intro stored_other) (use False assms(2-8) in auto)
    then show ?thesis using but that False by (auto simp: icache_but_def)
  qed
  then show ?thesis using but ic by (auto simp: icache_ok_def icache_but_def)
qed

lemma before_write:
  assumes inv: "icache_fs_ok fs gd D" and there: "inode_there fs gd ino" and dev: "\<forall>l s. \<not> bd_rerr (ud_dev (ef_io fs)) l s"
    and csum: "csum_ok fs ino (inode_bytes (ef_super fs) gd D ino) \<or> unat (EXT2_INODE_SIZE (ef_super fs)) \<le> length inode"
  obtains old fs1 where "(if length inode < unat (EXT2_INODE_SIZE (ef_super fs)) then ext2fs_read_inode2 fs ino (unat (EXT2_INODE_SIZE (ef_super fs))) True
      else Inr (None, [], fs)) = Inr (None, old, fs1)" "icache_fs_ok fs1 gd D" "same_fs fs fs1"
    "drop (length (take (unat (EXT2_INODE_SIZE (ef_super fs))) inode)) old =
     drop (length (take (unat (EXT2_INODE_SIZE (ef_super fs))) inode)) (inode_bytes (ef_super fs) gd D ino)"
proof (cases "length inode < unat (EXT2_INODE_SIZE (ef_super fs))")
  case True
  let ?nd = "inode_bytes (ef_super fs) gd D ino"
  have ok: "fs_ok fs gd D" and r: "in_range (ef_io fs) (inode_block (ef_super fs) gd ino) 1"
    using inv there by (simp_all add: icache_fs_ok_def inode_there_def Let_def)
  have "csum_ok fs ino ?nd" using csum True by simp
  then obtain fs1 where "ext2fs_read_inode2 fs ino (unat (EXT2_INODE_SIZE (ef_super fs))) True = Inr (None, ?nd, fs1)" "same_fs fs fs1" "icache_fs_ok fs1 gd D"
    using read_inode_spec [OF inv there dev, of True "unat (EXT2_INODE_SIZE (ef_super fs))"] length_inode_bytes [OF ok r] by auto
  then show ?thesis using True by (intro that [of ?nd fs1]) simp_all
next
  case False
  then show ?thesis using inv length_inode_bytes [of fs gd D ino] there
    by (intro that [of "[]" fs]) (simp_all add: same_fs_refl icache_fs_ok_def inode_there_def Let_def min_def)
qed

lemma flag_changed:
  "flag (f OR EXT2_FLAG_CHANGED) EXT2_FLAG_IMAGE_FILE = flag f EXT2_FLAG_IMAGE_FILE" "flag (f OR EXT2_FLAG_CHANGED) EXT2_FLAG_RW = flag f EXT2_FLAG_RW"
  "flag (f OR EXT2_FLAG_CHANGED) EXT2_FLAG_IGNORE_CSUM_ERRORS = flag f EXT2_FLAG_IGNORE_CSUM_ERRORS"
  by (simp_all add: flag_def EXT2_FLAG_CHANGED_def EXT2_FLAG_IMAGE_FILE_def EXT2_FLAG_RW_def EXT2_FLAG_IGNORE_CSUM_ERRORS_def bit.conj_disj_distrib2)

text \<open>The cache with the bytes of the caller in it.\<close>

lemma cache_updated:
  assumes inv: "icache_fs_ok fs gd D" and ino: "ino \<noteq> 0" and len: "length bs \<le> unat (EXT2_INODE_SIZE (ef_super fs))"
  obtains ic where "(case ef_icache fs of Some ic \<Rightarrow> fs\<lparr>ef_icache := Some (ic\<lparr>ic_cache := update_cached (ic_cache ic) ino bs\<rparr>)\<rparr>
      | None \<Rightarrow> ext2fs_create_inode_cache fs 4) = fs\<lparr>ef_icache := Some ic\<rparr>"
    "icache_but (ef_super fs) gd D ino (bs @ drop (length bs) (inode_bytes (ef_super fs) gd D ino)) ic"
proof (cases "ef_icache fs")
  case None
  obtain ic where ic: "ef_icache (ext2fs_create_inode_cache fs 4) = Some ic" "icache_ok (ef_super fs) gd D ic"
    "ext2fs_create_inode_cache fs 4 = fs\<lparr>ef_icache := Some ic\<rparr>" by (rule create_icache_ok [OF inv])
  have "cached_inode (ic_cache ic) ino = None"
    using ic(1) None ino by (auto simp: ext2fs_create_inode_cache_def ext2fs_flush_icache_def cached_inode_None)
  then show ?thesis using None ic(2,3) by (intro that [of ic]) (simp_all add: icache_but_same)
next
  case (Some ic)
  then have "icache_ok (ef_super fs) gd D ic" using inv by (simp add: icache_fs_ok_def)
  then show ?thesis using Some icache_but_update [OF _ ino len] by (intro that) simp_all
qed

lemma write_inode_spec:
  fixes nocsum :: bool
  assumes inv: "icache_fs_ok fs gd D" and there: "inode_there fs gd ino" and wr: "writable fs"
    and csum: "csum_ok fs ino (inode_bytes (ef_super fs) gd D ino) \<or> unat (EXT2_INODE_SIZE (ef_super fs)) \<le> length inode"
  defines "old \<equiv> inode_bytes (ef_super fs) gd D ino"
  defines "w \<equiv> written_inode fs ino inode nocsum old"
  obtains fs' where "ext2fs_write_inode2 fs ino inode nocsum = Inr (None, fs')" "same_fs (fs\<lparr>ef_flags := ef_flags fs OR EXT2_FLAG_CHANGED\<rparr>) fs'"
    "fs_ok fs' gd (inode_stored (ef_super fs) gd ino w D)"
    "w = written_inode fs ino inode True old \<Longrightarrow> tables_apart (ef_super fs) gd \<Longrightarrow> icache_fs_ok fs' gd (inode_stored (ef_super fs) gd ino w D)"
proof -
  let ?sb = "ef_super fs" and ?i = "unat (EXT2_INODE_SIZE (ef_super fs))" and ?bytes = "take (unat (EXT2_INODE_SIZE (ef_super fs))) inode"
  let ?nd = "?bytes @ drop (length ?bytes) old"
  have rerr: "\<forall>l s. \<not> bd_rerr (ud_dev (ef_io fs)) l s" using wr by (simp add: writable_def)
  have v: "ino \<noteq> 0" "ino \<le> s_inodes_count ?sb" "unat (s_inodes_per_group ?sb) * ?i < 2 ^ 32" "in_range (ef_io fs) (inode_block ?sb gd ino) 1"
    using there by (simp_all add: inode_there_def Let_def)
  have ok: "fs_ok fs gd D" using inv by (simp add: icache_fs_ok_def)
  have sz: "sizes_ok ?sb" "0 < unat (s_inodes_per_group ?sb)" using ok by (simp_all add: fs_ok_def groups_ok_def)
  have lenD: "length (D (inode_block ?sb gd ino)) = unat (EXT2_BLOCK_SIZE ?sb)"
    using represents_block_length [of "ef_io fs" D "inode_block ?sb gd ino"] v(4) ok by (simp add: fs_ok_def)
  have lenold: "length old = ?i" unfolding old_def by (rule length_inode_bytes [OF ok v(4)])
  have lenw: "length w = ?i" unfolding w_def by (rule length_written [OF sz(1) lenold])
  obtain o1 fs1 where r: "(if length inode < ?i then ext2fs_read_inode2 fs ino ?i True else Inr (None, [], fs)) = Inr (None, o1, fs1)"
    "icache_fs_ok fs1 gd D" "same_fs fs fs1" "drop (length ?bytes) o1 = drop (length ?bytes) old"
    unfolding old_def by (rule before_write [OF inv there rerr csum])
  have s1: "ef_super fs1 = ?sb" "ef_flags fs1 = ef_flags fs" "ef_csum_seed fs1 = ef_csum_seed fs" "ef_blocksize fs1 = ef_blocksize fs" "like (ef_io fs) (ef_io fs1)"
    using r(3) by (simp_all add: same_fs_def)
  let ?fs2 = "case ef_icache fs1 of Some ic \<Rightarrow> fs1\<lparr>ef_icache := Some (ic\<lparr>ic_cache := update_cached (ic_cache ic) ino ?bytes\<rparr>)\<rparr> | None \<Rightarrow> ext2fs_create_inode_cache fs1 4"
  obtain ic2 where ic2: "?fs2 = fs1\<lparr>ef_icache := Some ic2\<rparr>" "icache_but ?sb gd D ino ?nd ic2"
    using cache_updated [OF r(2) v(1), of ?bytes] s1(1) unfolding old_def by auto
  let ?f2 = "fs1\<lparr>ef_icache := Some ic2\<rparr>"
  have ok2: "fs_ok ?f2 gd D" using r(2) by (simp add: icache_fs_ok_def fs_ok_def)
  have there2: "inode_there ?f2 gd ino" using same_fs_there [OF r(3), of gd ino] there by (simp add: inode_there_def)
  have wr2: "\<forall>l s. \<not> bd_rerr (ud_dev (ef_io ?f2)) l s" "\<not> ch_writethrough (ef_io ?f2)" "write_ok (ef_io ?f2)"
    using wr like_geometry [OF s1(5)] by (simp_all add: writable_def)
  have buf: "ic_buffer_blk ic2 \<noteq> 0 \<longrightarrow> ic_buffer ic2 = D (ic_buffer_blk ic2)" using ic2(2) by (simp add: icache_but_def)
  obtain ch ic3 where st: "store_inode (unat (ef_blocksize fs)) (inode_block ?sb gd ino) (inode_offset ?sb ino mod unat (EXT2_BLOCK_SIZE ?sb)) w (ef_io fs1) ic2 = (None, ch, ic3)"
    "represents ch (inode_stored ?sb gd ino w D)" "like (ef_io fs1) ch" "ic_cache ic3 = ic_cache ic2" "ic_cache_last ic3 = ic_cache_last ic2"
    "ic_buffer ic3 = inode_stored ?sb gd ino w D (ic_buffer_blk ic3)"
    using store_inode_spec [OF ok2 there2 buf wr2, of w] lenw s1(1,4) by auto
  let ?fs' = "fs1\<lparr>ef_io := ch, ef_icache := Some ic3, ef_flags := ef_flags fs OR EXT2_FLAG_CHANGED\<rparr>"
  have "ext2fs_write_inode2 fs ino inode nocsum = Inr (None, ?fs')"
  proof -
    have w: "(if nocsum then ?nd else ext2fs_inode_csum_set ?sb (ef_csum_seed fs) ino ?nd) = w" by (simp add: w_def written_inode_def Let_def)
    have c: "\<not> ext2fs_has_feature_journal_dev ?sb" "\<not> (ino = 0 \<or> ino > s_inodes_count ?sb)" "flag (ef_flags fs) EXT2_FLAG_RW"
      using ok v(1,2) wr by (simp_all add: fs_ok_def writable_def)
    show ?thesis unfolding ext2fs_write_inode2_def Let_def if_not_P [OF c(1)] if_not_P [OF c(2)] r(1)
      unfolding and_then_Inr prod.case r(4) w ic2(1) location(1) [OF ok2 there2]
      using c(3) st(1) s1(1,2) by simp
  qed
  moreover have "same_fs (fs\<lparr>ef_flags := ef_flags fs OR EXT2_FLAG_CHANGED\<rparr>) ?fs'" using r(3) like_trans [OF s1(5) st(3)] by (simp add: same_fs_def)
  moreover have ok': "fs_ok ?fs' gd (inode_stored ?sb gd ino w D)"
    using fs_ok_io [of ?f2 gd "inode_stored ?sb gd ino w D" ch "Some ic3"] ok2 st(2) like_geometry [OF st(3)] s1(2) by (simp add: fs_ok_def flag_changed)
  moreover have "icache_fs_ok ?fs' gd (inode_stored ?sb gd ino w D)" if "w = written_inode fs ino inode True old" "tables_apart ?sb gd"
  proof -
    have "w = ?nd" using that(1) by (simp add: written_inode_def Let_def)
    then have "icache_ok ?sb gd (inode_stored ?sb gd ino w D) ic3"
      using icache_but_done [OF ic2(2) sz(1,2) v(3) _ that(2) lenD] lenw st(4-6) v(1,2) by (simp add: valid_ino_def)
    then show ?thesis using ok' s1(1) by (simp add: icache_fs_ok_def)
  qed
  ultimately show ?thesis by (rule that)
qed

section \<open>Sequences of reads and writes\<close>

text \<open>A part of an inode is read, its first bytes are written.\<close>

definition inode_view :: "ext2fs \<Rightarrow> byte list \<Rightarrow> nat \<Rightarrow> byte list" where
  "inode_view fs v n = take (min (unat (EXT2_INODE_SIZE (ef_super fs))) n) v"

definition inode_upd :: "ext2fs \<Rightarrow> byte list \<Rightarrow> byte list \<Rightarrow> byte list" where
  "inode_upd fs v bs = (let w = take (unat (EXT2_INODE_SIZE (ef_super fs))) bs in w @ drop (length w) v)"

lemma inode_view_cong: "ef_super fs' = ef_super fs \<Longrightarrow> inode_view fs' = inode_view fs \<and> inode_upd fs' = inode_upd fs"
  by (simp add: inode_view_def inode_upd_def fun_eq_iff)

text \<open>The file system without checksums of metadata as such a store.\<close>

definition stores_inodes :: "ext2fs \<Rightarrow> (u32 \<Rightarrow> byte list) \<Rightarrow> bool" where
  "stores_inodes fs A \<longleftrightarrow> writable fs \<and> \<not> ext2fs_has_feature_metadata_csum (ef_super fs) \<and>
     (\<exists>gd D. icache_fs_ok fs gd D \<and> tables_apart (ef_super fs) gd \<and> (\<forall>ino. valid_ino (ef_super fs) ino \<longrightarrow> A ino = inode_bytes (ef_super fs) gd D ino))"

abbreviation fs_has_inode :: "ext2fs \<Rightarrow> u32 \<Rightarrow> bool" where
  "fs_has_inode fs \<equiv> inode_there fs (the (ef_group_desc fs))"

lemma there_valid: "inode_there fs gd ino \<Longrightarrow> valid_ino (ef_super fs) ino"
  by (simp add: inode_there_def valid_ino_def Let_def)

lemma icache_group_desc: "icache_fs_ok fs gd D \<Longrightarrow> ef_group_desc fs = Some gd"
  by (simp add: icache_fs_ok_def fs_ok_def)

lemma stored_bytes:
  assumes inv: "icache_fs_ok fs gd D" and t: "inode_there fs gd ino" and apart: "tables_apart (ef_super fs) gd" and x: "valid_ino (ef_super fs) x"
    and len: "length nd = unat (EXT2_INODE_SIZE (ef_super fs))"
  shows "inode_bytes (ef_super fs) gd (inode_stored (ef_super fs) gd ino nd D) x = (if x = ino then nd else inode_bytes (ef_super fs) gd D x)"
proof -
  let ?sb = "ef_super fs"
  have ok: "fs_ok fs gd D" using inv by (simp add: icache_fs_ok_def)
  have sz: "sizes_ok ?sb" "0 < unat (s_inodes_per_group ?sb)" using ok by (simp_all add: fs_ok_def groups_ok_def)
  have v: "unat (s_inodes_per_group ?sb) * unat (EXT2_INODE_SIZE ?sb) < 2 ^ 32" "in_range (ef_io fs) (inode_block ?sb gd ino) 1"
    using t by (simp_all add: inode_there_def Let_def)
  have D: "length (D (inode_block ?sb gd ino)) = unat (EXT2_BLOCK_SIZE ?sb)"
    using represents_block_length [of "ef_io fs" D "inode_block ?sb gd ino"] v(2) ok by (simp add: fs_ok_def)
  show ?thesis
    using stored_self [of ?sb D gd ino nd] stored_other [of ?sb ino x gd D nd] sz v(1) D len there_valid [OF t] x apart by auto
qed

interpretation fs_inodes: array_store "\<lambda>fs ino n. ext2fs_read_inode2 fs ino n False" "\<lambda>fs ino bs. ext2fs_write_inode2 fs ino bs False"
  stores_inodes fs_has_inode inode_view inode_upd
proof
  fix fs A ino n
  assume s: "stores_inodes fs A" and t: "fs_has_inode fs ino"
  then obtain gd D where g: "icache_fs_ok fs gd D" "tables_apart (ef_super fs) gd" "\<forall>ino. valid_ino (ef_super fs) ino \<longrightarrow> A ino = inode_bytes (ef_super fs) gd D ino"
    by (auto simp: stores_inodes_def)
  have t: "inode_there fs gd ino" using t icache_group_desc [OF g(1)] by simp
  have w: "writable fs" "\<not> ext2fs_has_feature_metadata_csum (ef_super fs)" using s by (simp_all add: stores_inodes_def)
  have c: "csum_ok fs ino nd" for nd using w(2) by (simp add: ext2fs_inode_csum_verify_def)
  obtain fs' where r: "ext2fs_read_inode2 fs ino n False = Inr (None, take (min (unat (EXT2_INODE_SIZE (ef_super fs))) n) (inode_bytes (ef_super fs) gd D ino), fs')"
    "same_fs fs fs'" "icache_fs_ok fs' gd D"
    using read_inode_spec [OF g(1) t, of False n] w(1) c by (metis writable_def)
  have "writable fs'" by (rule writable_like [OF w(1)]) (use r(2) w(1) in \<open>simp_all add: same_fs_def writable_def\<close>)
  moreover have "fs_has_inode fs' = fs_has_inode fs" using same_fs_there [OF r(2)] r(2) by (auto simp: same_fs_def)
  ultimately show "\<exists>s'. ext2fs_read_inode2 fs ino n False = Inr (None, inode_view fs (A ino) n, s') \<and>
      stores_inodes s' A \<and> fs_has_inode s' = fs_has_inode fs \<and> inode_view s' = inode_view fs \<and> inode_upd s' = inode_upd fs"
    using r g w(2) there_valid [OF t] inode_view_cong [of fs' fs] by (intro exI [of _ fs']) (auto simp: stores_inodes_def same_fs_def inode_view_def)
next
  fix fs A ino bs
  assume s: "stores_inodes fs A" and t: "fs_has_inode fs ino"
  let ?i = "unat (EXT2_INODE_SIZE (ef_super fs))"
  obtain gd D where g: "icache_fs_ok fs gd D" "tables_apart (ef_super fs) gd" "\<forall>ino. valid_ino (ef_super fs) ino \<longrightarrow> A ino = inode_bytes (ef_super fs) gd D ino"
    using s by (auto simp: stores_inodes_def)
  show "\<exists>s'. ext2fs_write_inode2 fs ino bs False = Inr (None, s') \<and> stores_inodes s' (A(ino := inode_upd fs (A ino) bs)) \<and>
      fs_has_inode s' = fs_has_inode fs \<and> inode_view s' = inode_view fs \<and> inode_upd s' = inode_upd fs"
  proof -
    let ?old = "inode_bytes (ef_super fs) gd D ino" and ?w = "take ?i bs @ drop (length (take ?i bs)) (A ino)"
    have upd: "inode_upd fs (A ino) bs = ?w" by (simp add: inode_upd_def)
    let ?D = "inode_stored (ef_super fs) gd ino ?w D"
    have t: "inode_there fs gd ino" using t icache_group_desc [OF g(1)] by simp
    have w: "writable fs" "\<not> ext2fs_has_feature_metadata_csum (ef_super fs)" using s by (simp_all add: stores_inodes_def)
    have A: "A ino = ?old" using g(3) there_valid [OF t] by simp
    have wi: "written_inode fs ino bs nocsum ?old = ?w" for nocsum using w(2) by (simp add: written_inode_def ext2fs_inode_csum_set_def Let_def A)
    have lenw: "length ?w = ?i"
      using length_inode_bytes [of fs gd D ino] g(1) t A by (simp add: icache_fs_ok_def inode_there_def Let_def)
    have c: "csum_ok fs ino nd" for nd using w(2) by (simp add: ext2fs_inode_csum_verify_def)
    obtain fs' where r: "ext2fs_write_inode2 fs ino bs False = Inr (None, fs')" "same_fs (fs\<lparr>ef_flags := ef_flags fs OR EXT2_FLAG_CHANGED\<rparr>) fs'" "icache_fs_ok fs' gd ?D"
      using write_inode_spec [OF g(1) t w(1), of bs False] c g(2) unfolding wi by metis
    have same: "ef_super fs' = ef_super fs" "ef_group_desc fs' = ef_group_desc fs" "like (ef_io fs) (ef_io fs')" "flag (ef_flags fs') EXT2_FLAG_RW"
      using r(2) w(1) by (simp_all add: same_fs_def writable_def flag_changed)
    have "writable fs'" by (rule writable_like [OF w(1) same(3,4)])
    moreover have "fs_has_inode fs' = fs_has_inode fs" using same_fs_there [OF r(2)] same(2) by (auto simp: inode_there_def)
    moreover have "(A(ino := ?w)) x = inode_bytes (ef_super fs) gd ?D x" if "valid_ino (ef_super fs) x" for x
      using stored_bytes [OF g(1) t g(2) that lenw] g(3) that by simp
    ultimately show ?thesis unfolding upd using r(1,3) same(1) g(2) w(2) inode_view_cong [OF same(1)]
      by (intro exI [of _ fs']) (auto simp: stores_inodes_def)
  qed
qed

lemma cached_entry: "cached_inode cs ino = Some nd \<Longrightarrow> \<exists>c \<in> set cs. ic_inode c = nd"
  by (induction cs) (auto split: if_split_asm)

section \<open>Properties\<close>

text \<open>
  C12: on a file system that is open for writing, in order and without checksums of metadata, whose
  inode tables do not overlap, any sequence of reads and writes of inodes behaves as on an array of inodes:
  every operation succeeds, every read returns what the last write left, whole inodes or parts of them,
  and the tables behind the caches end up with the contents of the array.
\<close>

theorem inode_ops_refine_array:
  assumes "stores_inodes fs A" "list_all (\<lambda>op. fs_has_inode fs (op_key op)) ops"
  shows "\<exists>fs'. run_store (\<lambda>fs ino n. ext2fs_read_inode2 fs ino n False) (\<lambda>fs ino bs. ext2fs_write_inode2 fs ino bs False) fs ops =
      Inr (fst (run_array (inode_view fs) (inode_upd fs) A ops), fs') \<and>
    stores_inodes fs' (snd (run_array (inode_view fs) (inode_upd fs) A ops))"
  by (rule fs_inodes.run_refines [OF assms])

text \<open>
  C39: writing an inode on a file system that is not open for writing returns \<open>EXT2_ET_RO_FILSYS\<close>, but
  when the inode is in the cache it has been changed there: it then reads as what was not written, while
  the device still has the old inode.
\<close>

theorem read_only_write_shows:
  assumes inv: "icache_fs_ok fs gd D" and ic: "ef_icache fs = Some ic" "cached_inode (ic_cache ic) ino = Some nd"
    and ino: "ino \<noteq> 0" "ino \<le> s_inodes_count (ef_super fs)" and ro: "\<not> flag (ef_flags fs) EXT2_FLAG_RW"
    and len: "length inode = unat (EXT2_INODE_SIZE (ef_super fs))"
  shows "\<exists>fs'. ext2fs_write_inode2 fs ino inode nocsum = Inr (Some EXT2_ET_RO_FILSYS, fs') \<and>
    ext2fs_read_inode2 fs' ino (length inode) nocsum' = Inr (None, inode, fs') \<and> ef_io fs' = ef_io fs"
proof -
  let ?ic = "ic\<lparr>ic_cache := update_cached (ic_cache ic) ino inode\<rparr>"
  let ?fs = "fs\<lparr>ef_icache := Some ?ic\<rparr>"
  have ok: "fs_ok fs gd D" "icache_ok (ef_super fs) gd D ic" using inv ic(1) by (simp_all add: icache_fs_ok_def)
  have "\<not> ext2fs_has_feature_journal_dev (ef_super fs)" using ok(1) by (simp add: fs_ok_def)
  then have w: "ext2fs_write_inode2 fs ino inode nocsum = Inr (Some EXT2_ET_RO_FILSYS, ?fs)"
    using ic(1) ino ro len by (simp add: ext2fs_write_inode2_def Let_def not_less)
  have "cached_inode (update_cached cs ino inode) ino = Some (inode @ drop (length inode) nd')" if "cached_inode cs ino = Some nd'" for cs nd'
    using that by (induction cs) (auto split: if_split_asm)
  moreover have "length nd = length inode"
    using ok(2) cached_inode_ok [OF ok(2) ino(1) ic(2)] len cached_entry [OF ic(2)] by (auto simp: icache_ok_def)
  ultimately have "cached_inode (ic_cache ?ic) ino = Some inode" using ic(2) by simp
  moreover have "fs_ok ?fs gd D" using ok(1) by (simp add: fs_ok_def)
  ultimately have "ext2fs_read_inode2 ?fs ino (length inode) nocsum' = Inr (None, inode, ?fs)"
    using read_inode_hit [of ?fs gd D ino ?ic inode "length inode" nocsum'] ino len by (simp add: ext2fs_create_inode_cache_def)
  then show ?thesis using w by auto
qed

section \<open>Instances\<close>

text \<open>The small image on a device that can be written.\<close>

definition rw_dev :: blkdev where
  "rw_dev = (small_dev small_dir)\<lparr>bd_werr := (\<lambda>l s. False)\<rparr>"

lemma small_apart: "tables_apart small_fs_super gd"
proof -
  have "inode_group small_fs_super ino = 0" if "valid_ino small_fs_super ino" for ino
  proof -
    have "unat ino - 1 < 16" using that by (auto simp: valid_ino_def small_sizes word_le_nat_alt)
    then show ?thesis using that by (simp add: inode_group_def small_sizes valid_ino_def word_unat_eq_iff unat_div_distrib unat_minus_one)
  qed
  then show ?thesis by (auto simp: tables_apart_def)
qed

lemma small_stores:
  obtains fs where "stores_inodes fs (inode_bytes small_fs_super small_desc (byte_block (small_image small_dir) 1024))" "fs_has_inode fs 2" "ef_super fs = small_fs_super"
proof -
  let ?D = "byte_block (small_image small_dir) 1024"
  obtain fs where o: "icache_fs_ok fs small_desc ?D" "ef_super fs = small_fs_super" "bd_rerr (ud_dev (ef_io fs)) = (\<lambda>l s. False)"
    "\<forall>b n. in_range (ef_io fs) b n \<longleftrightarrow> (unat b + n) * 1024 \<le> 8192" "write_ok (ef_io fs)" "\<not> ch_writethrough (ef_io fs)"
    by (rule opened [where dio = 0 and ?open1.0 = "\<lambda>_. Some rw_dev" and name = "''sda1''" and dev = rw_dev and flags = LSBLKS_FLAGS and groups = 1 and desc_blocks = 1])
      (use small_image_ok [of small_dir] plain_lsblks_flags in \<open>simp_all add: rw_dev_def small_super_bytes small_super_of small_desc_bytes small_checks\<close>)
  let ?fs = "fs\<lparr>ef_flags := EXT2_FLAG_RW\<rparr>"
  have inv: "icache_fs_ok ?fs small_desc ?D" using o(1)
    by (auto simp: icache_fs_ok_def fs_ok_def flag_def EXT2_FLAG_RW_def EXT2_FLAG_IMAGE_FILE_def split: option.splits)
  moreover have "writable ?fs" using o(3,5,6) by (simp add: writable_def flag_def EXT2_FLAG_RW_def)
  moreover have "inode_there ?fs small_desc 2"
    using small_on_disk [of small_dir] o(2,4) by (simp add: inode_on_disk_def inode_there_def Let_def small_checks)
  ultimately show ?thesis using o(2) small_apart small_sizes(9) icache_group_desc [OF inv]
    by (intro that [of ?fs]) (auto simp: stores_inodes_def)
qed

text \<open>Inode 2 is read, its first two bytes are written and it is read again.\<close>

theorem inode_ops_refine_array_witness:
  "\<exists>fs fs' old. length old = 128 \<and>
    run_store (\<lambda>fs ino n. ext2fs_read_inode2 fs ino n False) (\<lambda>fs ino bs. ext2fs_write_inode2 fs ino bs False) fs
      [Read_At 2 128, Write_At 2 [7, 8], Read_At 2 128] = Inr ([(None, Some old), (None, None), (None, Some ([7, 8] @ drop 2 old))], fs')"
proof -
  let ?old = "inode_bytes small_fs_super small_desc (byte_block (small_image small_dir) 1024)"
  obtain fs where fs: "stores_inodes fs ?old" "fs_has_inode fs 2" "ef_super fs = small_fs_super" by (rule small_stores)
  obtain fs0 where fs0: "icache_fs_ok fs0 small_desc (byte_block (small_image small_dir) 1024)" "ef_super fs0 = small_fs_super"
    "\<forall>b n. in_range (ef_io fs0) b n \<longleftrightarrow> (unat b + n) * 1024 \<le> 8192" using small_opened by metis
  have len: "length (?old 2) = 128"
    using length_inode_bytes [of fs0 small_desc "byte_block (small_image small_dir) 1024" 2] fs0 small_inodes [of 2]
    by (simp add: small_sizes icache_fs_ok_def)
  have i128: "unat (EXT2_INODE_SIZE (ef_super fs)) = 128" by (simp add: fs(3) small_sizes)
  let ?ops = "[Read_At 2 128, Write_At 2 [7, 8], Read_At 2 128]"
  obtain fs' where "run_store (\<lambda>fs ino n. ext2fs_read_inode2 fs ino n False) (\<lambda>fs ino bs. ext2fs_write_inode2 fs ino bs False) fs ?ops =
      Inr (fst (run_array (inode_view fs) (inode_upd fs) ?old ?ops), fs')"
    using inode_ops_refine_array [of fs ?old ?ops] fs(1,2) by auto
  then have "run_store (\<lambda>fs ino n. ext2fs_read_inode2 fs ino n False) (\<lambda>fs ino bs. ext2fs_write_inode2 fs ino bs False) fs ?ops =
      Inr ([(None, Some (?old 2)), (None, None), (None, Some ([7, 8] @ drop 2 (?old 2)))], fs')"
    using len unfolding inode_view_def [abs_def] inode_upd_def [abs_def] i128 by (simp add: numeral_2_eq_2 del: run_store.simps)
  then show ?thesis using len by blast
qed

text \<open>Inode 3 is in the cache of the small image, which is open for reading only.\<close>

theorem read_only_write_shows_witness:
  "\<exists>fs fs'. ext2fs_write_inode2 fs 3 (replicate 128 1) False = Inr (Some EXT2_ET_RO_FILSYS, fs') \<and>
    ext2fs_read_inode2 fs' 3 128 False = Inr (None, replicate 128 1, fs') \<and> ef_io fs' = ef_io fs"
proof -
  let ?D = "byte_block (small_image small_dir) 1024"
  obtain fs where o: "icache_fs_ok fs small_desc ?D" "ef_super fs = small_fs_super" "ef_flags fs = LSBLKS_FLAGS"
    "\<forall>b n. in_range (ef_io fs) b n \<longleftrightarrow> (unat b + n) * 1024 \<le> 8192" using small_opened by metis
  let ?fs = "fs\<lparr>ef_icache := Some small_icache\<rparr>"
  have fs: "fs_ok fs small_desc ?D" using o(1) by (simp add: icache_fs_ok_def)
  have len: "length (inode_bytes small_fs_super small_desc ?D k) = 128" if "k \<in> {2, 3, 4, 5, 6}" for k
    using length_inode_bytes [OF fs, of k] o(2,4) small_inodes [OF that] by (simp add: small_sizes)
  have "fs_ok ?fs small_desc ?D" using fs by (simp add: fs_ok_def)
  then have inv: "icache_fs_ok ?fs small_desc ?D"
    using len o(2) by (auto simp: icache_fs_ok_def icache_ok_def small_icache_def small_sizes word_le_nat_alt)
  obtain nd where "cached_inode (ic_cache small_icache) 3 = Some nd" by (simp add: small_icache_def)
  moreover have "\<not> flag LSBLKS_FLAGS EXT2_FLAG_RW" by code_simp
  ultimately obtain fs' where "ext2fs_write_inode2 ?fs 3 (replicate 128 1) False = Inr (Some EXT2_ET_RO_FILSYS, fs')"
    "ext2fs_read_inode2 fs' 3 (length (replicate 128 (1 :: byte))) False = Inr (None, replicate 128 1, fs')" "ef_io fs' = ef_io ?fs"
    using read_only_write_shows [OF inv, of small_icache 3 nd "replicate 128 1" False False] o(2,3)
    by (auto simp: small_sizes word_le_nat_alt)
  then show ?thesis by (intro exI [of _ ?fs] exI [of _ fs']) simp
qed

end
