(* ===== verification/Spec2Isabelle.thy ===== *)
theory Spec2Isabelle
  imports Vectors Hash_Map Atrk_Main Bmap_Update Bmap_Extent Extent_Iterate Csum_Seal Crc_Be Inode_Update
begin

text \<open>
  \<^bold>\<open>atrk-linux\<close>, a detector of rootkits on Linux. It looks for files, processes and ports that the
  running system hides, by comparing what the system lists with what can be found behind its
  back. The program is a multi-call binary (\<^verbatim>\<open>src/src/atrk.c\<close>) whose applets are combined by a
  shell script. This development models the C code of the program and of the part of e2fsprogs
  that it runs, and proves what makes each part correct.

  \<^bold>\<open>Parts and theories\<close>, each theory importing the ones it builds on:

  \<^item> \<open>Prelude\<close>, \<open>Numbers\<close>, \<open>System\<close>: results and faults, C strings and the library functions on them
    (\<open>strtok\<close>, \<open>strstr\<close>, \<open>snprintf\<close>, \<open>fgets\<close>), decimal and hexadecimal text, the operating system as
    the record \<open>os\<close> of its answers, device numbers.
  \<^item> \<open>Vectors\<close> (\<^verbatim>\<open>utils.c\<close>: \<open>struct Vector\<close>) and \<open>Hash_Map\<close> (\<^verbatim>\<open>map.c\<close>, \<^verbatim>\<open>map.h\<close>): the containers, each with its
    invariant, a locale for its contract (\<open>growable\<close>, \<open>dictionary\<close>) and the interpretation that
    discharges it. Allocation may be refused at any time.
  \<^item> \<open>Byte_Order\<close> (\<^verbatim>\<open>fs.h\<close>), \<open>Dir_Entry\<close>, \<open>Ext2_Dir\<close>, \<open>Xfs_Dir\<close> (\<^verbatim>\<open>fs.c\<close>): raw directory blocks. Both parsers are
    shown to invert the on-disk format (XFS directories in data form and in block form); \<open>parse_ext2_dir\<close> is safe on any bytes; \<open>parse_xfs_dir\<close> is not: it
    may run on for ever or read past its buffer, and the theorems say exactly when.
  \<^item> \<open>Text_Utils\<close> (\<^verbatim>\<open>utils.c\<close>), \<open>Blk_Dev\<close> and \<open>Blk_Ranges\<close> (\<^verbatim>\<open>blk.c\<close>, \<^verbatim>\<open>blk.h\<close>): from a path to its device, type,
    parent device and block list, through /sys, /proc, \<open>xfs_bmap\<close>, LVM and \<open>lsblks\<close> or \<open>debugfs\<close>.
  \<^item> \<open>E2fs_Base\<close>, \<open>Unix_Io\<close> (\<^verbatim>\<open>lib/ext2fs/unix_io.c\<close>, \<^verbatim>\<open>io_manager.c\<close>): a device behind a cache of eight blocks, with errors of the
    device. \<open>Raw_Io\<close> (one request, directly or through the bounce buffer), \<open>Block_Cache\<close> (the cache represents a plain
    array of blocks, and every operation keeps that) and \<open>Io_Device\<close> (sequences of requests; the locale
    \<open>block_io\<close> states what a client may rely on, and is interpreted on the channel) carry the proofs.
  \<^item> \<open>Super_Block\<close> (\<^verbatim>\<open>ext2_fs.h\<close>, the checks of \<^verbatim>\<open>openfs.c\<close>), \<open>Open_Fs\<close> (\<^verbatim>\<open>openfs.c\<close>, \<^verbatim>\<open>closefs.c\<close>, \<^verbatim>\<open>blknum.c\<close>) and \<open>Inode\<close> (\<^verbatim>\<open>inode.c\<close>): opening a
    file system, reading and writing its inodes. \<open>Fs_Geometry\<close> shows what the checks guarantee, \<open>Inode_Read\<close> that the
    cache of inodes does not show, \<open>Inode_Update\<close> that reads and writes of inodes behave as on an array (an interpretation of \<open>array_store\<close>), \<open>Open_Read\<close> that opening succeeds on accepted images, and \<open>Disk_Blocks\<close> joins
    them to the record of answers that \<open>Extent\<close> uses, with a small image for the examples.
  \<^item> \<open>Crc\<close> and \<open>Crc_Be\<close> (\<^verbatim>\<open>crc32c.c\<close>, \<^verbatim>\<open>gen_crc32ctable.c\<close>, \<^verbatim>\<open>crc16.c\<close>), \<open>Csum\<close> and \<open>Csum_Blocks\<close> (\<^verbatim>\<open>csum.c\<close>): checksums. The locale \<open>shift_register\<close> has the
    algebra of the bitwise register, from which the table-driven variants follow and the detection of changes
    of up to four bytes; the locale \<open>byte_register\<close> has what slicing needs of a register, for crc32c and for the byte-swapped
    register of the big-endian checksum; the locales \<open>sealed\<close> and \<open>tamper_evident\<close> say what a structure with a stored checksum
    promises, and are interpreted on the superblock, descriptors, blocks of extended attributes and of multi-mount
    protection. \<open>Csum_Seal\<close> shows for the blocks of an inode, the bitmaps and the descriptors that what is stored is accepted.
  \<^item> \<open>Extent\<close> (\<^verbatim>\<open>lib/ext2fs/extent.c\<close>), \<open>Block_Iterate\<close> (\<^verbatim>\<open>block.c\<close>, \<^verbatim>\<open>ind_block.c\<close>), \<open>Lsblks\<close> (\<^verbatim>\<open>stat/lsblks.c\<close>): the blocks
    of an inode. \<open>Block_Walk\<close> and \<open>Extent_Walk\<close> relate the iterations with their explicit state to a
    recursion over the tree of blocks: \<open>lsblks\<close> calls its function on exactly the data blocks in
    the order of the file. \<open>Extent_Search\<close> shows that \<open>ext2fs_extent_goto2\<close> finds the extent of a block in a tree in order.
  \<^item> \<open>Bmap\<close> (\<^verbatim>\<open>bmap.c\<close>): from a logical block to the physical one. \<open>Bmap_Lookup\<close> shows that looking up and listing agree
    on one association list, \<open>Bmap_Update\<close> that setting blocks of an inode without extents changes this list as an array is
    changed. \<open>Extent_Edit\<close> (\<^verbatim>\<open>extent.c\<close>) has the operations that change an extent tree: replace, insert, delete, the keys above, mapping
    a block. For a tree that is one node in the inode, \<open>Extent_Node\<close> reads the node as a list of extents, \<open>Extent_Map\<close> shows
    what the operations on a handle do to this list, \<open>Extent_Set\<close> what it maps after each of the branches of \<open>ext2fs_extent_set_bmap\<close>, and
    \<open>Bmap_Extent\<close> the resulting law of \<open>ext2fs_bmap2\<close>. \<open>Extent_Iterate\<close> (\<^verbatim>\<open>block.c\<close>) has \<open>ext2fs_block_iterate3\<close> for inodes with extents and shows that
    it follows the same mapping. \<open>Array_Store\<close> has the
    locale \<open>array_store\<close>, the contract that sequences of reads and writes behave as on an array, which the inodes and
    the block mappings interpret.
  \<^item> \<open>Keyed_Diff\<close> (a locale for the comparison of two vectors by a key), \<open>Fhf\<close> and \<open>Fhf_Main\<close> (\<^verbatim>\<open>fhf.c\<close>): the
    search for hidden files: the blocks are found, read through the device and through its
    parent, compared, parsed, and the entries that the system does not list are reported.
  \<^item> \<open>Diffs\<close>, \<open>Scan_Applets\<close>, \<open>Proc_Net\<close>, \<open>Tcp_Scan\<close>, \<open>Atrk_Main\<close> (\<^verbatim>\<open>atrk.c\<close>): the other applets and the dispatch.
    \<open>Tcp_Scan\<close> treats the scan as a state that consumes the answers of the kernel and keeps account of the open
    sockets; in \<open>Scan_Applets\<close> the creation and the removal of a file may each fail.
  \<^item> This theory joins \<open>Disk_Blocks\<close> and \<open>Lsblks\<close> to \<open>Fhf_Main\<close>: one theorem on \<open>fhf_main\<close> from the bytes of the device
    to the report, and one on what it reports when the blocks cannot be found.

  \<^bold>\<open>How the code is rendered.\<close> A function that may fail returns \<open>'a res\<close>: \<open>Inl\<close> is a fault (a call of \<open>exit\<close>,
  an access outside a buffer, an uninitialised value, a signed overflow, fuel used up, a run into
  code outside the development) and \<open>Inr\<close> the result, so the absence of faults is something a
  theorem states. Error codes of the program are values like any others. Integers are words of
  their width, or \<open>int\<close> with the bounds tested where they are signed; the data model is LP64. C strings
  are lists without the terminating zero, with the sizes of the buffers kept where they are
  written. Vectors of the clients are lists, with fewer than \<open>2^31\<close> elements; the entry \<open>- 1\<close> of a block
  list marks the start of an extent, as in the code. Functions of the C library are those of
  musl, with which the program is linked (\<open>inet_ntop\<close>, \<open>inet_pton\<close>, \<open>sscanf\<close> are written out for the formats
  in use). What \<open>getopt\<close> extracts from the arguments is an argument.

  \<^bold>\<open>Fuel.\<close> \<open>searchDevDirs\<close> (links may form cycles), \<open>parse_xfs_dir\<close> (it need not advance), \<open>ext2fs_extent_get\<close> and
  \<open>dump_extents\<close> (a tree may be cyclic) take fuel. Theorems say how much is enough: more than the
  longest chain of directories the search can follow, more than the number of records or bytes, or that there is a number from
  which on the result is the same. The scan of ports consumes a list of answers instead.

  \<^bold>\<open>Not modelled:\<close> the shell script and the build; text on stderr; in e2fsprogs, image files,
  multi-mount protection (but its checksum), the update of all descriptors from the inode bitmap, discarding and zeroing blocks,
  the inode scan, allocation and what needs it (splitting a full node of an extent tree, giving back an empty one, new
  blocks of \<open>ext2fs_bmap2\<close>; a run into unmodelled code is
  the fault \<open>Unmodelled\<close>); memory that is freed. Outside \<open>Vectors\<close> and \<open>Hash_Map\<close> allocation succeeds. Descriptors are taken
  to lie below \<open>FD_SETSIZE\<close> and the time-out of the scan to be small enough for its product with 1000.

  \<^bold>\<open>What does not hold.\<close> Several theorems state what the code does where that is not what it means
  to do: the non-termination and the over-read of \<open>parse_xfs_dir\<close>, the file-system type taken from
  after the first hyphen, the failure of \<open>lsblks\<close> that is reported as a clean directory, the
  overflow for files of 2 GiB, the IPv6 address that does not fit its buffer, the scan that
  spins when no socket can be made, the sockets lost when \<open>fcntl\<close> fails, the probe file that stays when it
  cannot be removed, the counting loop that overflows at the largest \<open>int\<close>, the cached
  block that survives a large write, the block that is lost when no entry of the cache can be
  freed, the two ways in which an error makes the cache of inodes answer with the wrong bytes, the
  refused write of an inode that later reads see, the unmapping in an empty extent tree that inserts an extent never filled,
  the failed write of a node that \<open>ext2fs_extent_replace\<close> does not report, and the damaged extent
  tree that \<open>ext2fs_block_iterate3\<close> passes over in silence.
\<close>

section \<open>The blocks of a file\<close>

lemma foldl_lsb_cb: "foldl lsb_cb (bs, Suc n) cs = (bs @ cs, Suc n + length cs)"
  by (induction cs arbitrary: bs n) (simp_all add: lsb_cb_def)

lemma lsb_cb_blocks: "cs \<noteq> [] \<Longrightarrow> foldl lsb_cb (bs, 0) cs = (bs @ - 1 # cs, length cs)"
  by (cases cs) (simp_all add: lsb_cb_def foldl_lsb_cb)

text \<open>What \<open>query_blocks\<close> finds: the device and its parent, the blocks, and the offset in the parent.\<close>

definition found_blocks :: "string \<Rightarrow> stat \<Rightarrow> DeviceInfo \<Rightarrow> DeviceInfo \<Rightarrow> nat \<Rightarrow> u64 list \<Rightarrow> QueryBlocks" where
  "found_blocks fileName st di dip sector bs =
     \<lparr>qb_path = strncpy0 255 fileName, qb_fs = st, qb_dev = di, qb_parent_dev = dip, qb_parentoffset = of_nat sector * 512,
      qb_blkunitsz = int (st_blksize st), qb_blknums = - 1 # bs, qb_blkcount = length bs\<rparr>"

lemma query_blocks_partition:
  assumes st: "os_stat os fileName = Some st" "os_access os ''/sys/block''" "0 < st_blksize st" "st_blksize st < 2 ^ 31"
    and lsblk: "myLsblk fuel os (st_dev st) empty_device empty_device = Inr (0, di, dip)" "di_fstype di \<in> {''ext2'', ''ext3'', ''ext4''}"
      "di_type di = ''part''" "di_dev di = ''/dev/'' @ part" "di_dev dip = ''/dev/'' @ disk"
    and sysfs: "os_text os (''/sys/block/'' @ disk @ ''/'' @ part @ ''/start'') = Some (dec_of_nat sector @ CHR 0x0A # r1)"
      "os_text os (''/sys/block/'' @ disk @ ''/'' @ part @ ''/size'') = Some (dec_of_nat sectors @ CHR 0x0A # r2)"
      "sector < 2 ^ 63" "sectors < 2 ^ 63" "length disk + length part < 1000"
    and blocks: "lsb (di_dev di) (st_ino st) lsb_cb ([], 0) = Inr (err, nums, cnt)"
  shows "query_blocks fuel os lsb fileName empty_qb =
     Inr (0, (found_blocks fileName st di dip sector [])\<lparr>qb_blknums := nums, qb_blkcount := cnt\<rparr>)"
proof -
  have u: "sint (of_nat (st_blksize st) :: u32) = int (st_blksize st)"
    using st(4) by (simp add: signed_of_nat signed_take_bit_int_eq_self)
  have f: "\<not> starts_with ''xfs'' (di_fstype di)" "starts_with ''ext'' (di_fstype di)"
    using lsblk(2) by (auto simp: starts_with_def)
  have q: "query_fs_blocks os lsb fileName st di qb =
      Inr (0, qb\<lparr>qb_blknums := nums, qb_blkcount := cnt, qb_blkunitsz := int (st_blksize st)\<rparr>)" if "qb_blknums qb = []" for qb
    using f u blocks that by (simp add: query_fs_blocks_def ext_get_inode_datablocks_def Let_def)
  note range = volume_range_of_partition [OF sysfs, of 0 0]
  have p: "query_parent_offset os di dip qb = Inr (0, qb\<lparr>qb_parentoffset := of_nat sector * 512\<rparr>)" for qb
    using range lsblk(3-5) by (simp add: query_parent_offset_def)
  show ?thesis
    using st lsblk(1) by (simp add: query_blocks_def q p empty_qb_def found_blocks_def)
qed

section \<open>From the inode to the report\<close>

lemma fhf_from_inode:
  assumes opts: "fhf_options options \<lparr>fo_fileName = None, fo_read_parent = 0, fo_cmp_parent_only = False, fo_output = None, fo_verbose = 0\<rparr> = Inr opts"
      "fo_fileName opts = Some fileName" "fo_output opts = None" "\<not> fo_cmp_parent_only opts"
    and st: "os_stat (fe_os env) fileName = Some st" "os_access (fe_os env) ''/sys/block''" "0 < st_blksize st" "st_blksize st < 2 ^ 31"
    and lsblk: "myLsblk (fe_fuel env) (fe_os env) (st_dev st) empty_device empty_device = Inr (0, di, dip)"
      "di_fstype di \<in> {''ext2'', ''ext3'', ''ext4''}" "di_type di = ''part''" "di_dev di = ''/dev/'' @ part" "di_dev dip = ''/dev/'' @ disk"
    and sysfs: "os_text (fe_os env) (''/sys/block/'' @ disk @ ''/'' @ part @ ''/start'') = Some (dec_of_nat sector @ CHR 0x0A # r1)"
      "os_text (fe_os env) (''/sys/block/'' @ disk @ ''/'' @ part @ ''/size'') = Some (dec_of_nat sectors @ CHR 0x0A # r2)"
      "sector < 2 ^ 54" "sectors < 2 ^ 63" "length disk + length part < 1000"
    and vol: "opener (di_dev di) = Inr (Inr fs)" "fs_read_inode fs (ucast (st_ino st)) = Inr nd" "inode_ok fs (ucast (st_ino st)) nd"
    and nums: "file_blocks fs nd \<noteq> []" "- 1 \<notin> set (file_blocks fs nd)" "length (file_blocks fs nd) * st_blksize st < 2 ^ 31"
    and dev: "os_device (fe_os env) (di_dev di) = Some dev" "list_all (block_readable dev 0 (st_blksize st)) (file_blocks fs nd)"
    and parent: "os_device (fe_os env) (di_dev dip) = Some pdev" "part_of dev (sector * 512) pdev" "length pdev < 2 ^ 63"
    and dir: "st_kind st = S_DIR" "os_readdir (fe_os env) fileName = Some entries"
      "\<forall>d \<in> set entries. CHR 0x00 \<notin> set (d_name d)"
    and recs: "concat (map (block_at dev 0 (st_blksize st)) (file_blocks fs nd)) = concat (map ext2_encode rs)" "list_all ext2_rec_ok rs"
  shows "\<exists>n. \<forall>m. fhf_main (env\<lparr>fe_lsblks := lsblks (n + m) opener code\<rparr>) options =
     Inr (0, \<lparr>io_out = print_details fileName (fo_verbose opts) (found_blocks fileName st di dip sector (file_blocks fs nd)) @
         ''----FHF----'' @ nl @ ''compare_blocks: NODIFF.'' @ nl @
         report_hidden fileName (fo_verbose opts) (hidden_of (map ext2_entry_of (filter ext2_live rs)) entries),
       io_file = None, io_sink = NoSink\<rparr>)"
proof -
  let ?bs = "file_blocks fs nd"
  let ?qb = "found_blocks fileName st di dip sector ?bs"
  obtain n where n: "\<And>m. lsblks (n + m) opener code (di_dev di) (st_ino st) lsb_cb ([], 0) = Inr (0, - 1 # ?bs, length ?bs)"
    using lsblks_file_blocks [of opener "di_dev di" fs "st_ino st" nd code lsb_cb "([], 0)", OF vol] lsb_cb_blocks [OF nums(1), of "[]"] by auto
  have big: "sector < 2 ^ 63" using sysfs(3) by simp
  have q: "query_blocks (fe_fuel env) (fe_os env) (lsblks (n + m) opener code) fileName empty_qb = Inr (0, ?qb)" for m
    using query_blocks_partition [OF st lsblk sysfs(1,2) big sysfs(4,5), of "lsblks (n + m) opener code", OF n] by (simp add: found_blocks_def)
  have off: "unat (of_nat sector * 512 :: u64) = sector * 512" using sysfs(3) by (simp add: unat_word_ariths unat_of_nat)
  have i: "fhf_inspect (env\<lparr>fe_lsblks := l\<rparr>) opts fileName st ?qb io =
     Inr (0, io\<lparr>io_sink := NoSink, io_out := io_out io @ ''----FHF----'' @ nl @ ''compare_blocks: NODIFF.'' @ nl @
       report_hidden fileName (fo_verbose opts) (hidden_of (map ext2_entry_of (filter ext2_live rs)) entries)\<rparr>)" for l io
    by (rule fhf_inspect_hidden [where unit = "st_blksize st" and bs = ?bs and dev = dev and pdev = pdev])
      (use assms off in \<open>simp_all add: found_blocks_def\<close>)
  show ?thesis
    by (intro exI [of _ n] allI) (use opts(1,2) st(1) in \<open>simp add: fhf_main_def Let_def q i put_def\<close>)
qed

section \<open>Properties\<close>

text \<open>
  C1: the whole program on a directory of an ext2, ext3 or ext4 partition, from the bytes of the
  device to the report. The options name the directory and sysfs gives the partition's place on its disk. The
  bytes of the partition have a superblock that \<open>ext2fs_open\<close> accepts, with its descriptors, and the inode
  of the directory lies at its place in the inode table; it maps its blocks with extents or indirect
  blocks, which \<open>lsblks\<close> of e2fsprogs walks. When these blocks hold a sequence of well-formed
  directory records and the disk holds the partition at that place, \<open>fhf_main\<close> returns 0 (there is a fuel
  from which on it does), prints that the two devices agree and then the report of exactly those
  live records whose names the system does not list.
\<close>

theorem fhf_hidden_from_inode:
  assumes opts: "fhf_options options \<lparr>fo_fileName = None, fo_read_parent = 0, fo_cmp_parent_only = False, fo_output = None, fo_verbose = 0\<rparr> = Inr opts"
      "fo_fileName opts = Some fileName" "fo_output opts = None" "\<not> fo_cmp_parent_only opts"
    and st: "os_stat (fe_os env) fileName = Some st" "os_access (fe_os env) ''/sys/block''" "0 < st_blksize st" "st_blksize st < 2 ^ 31"
    and lsblk: "myLsblk (fe_fuel env) (fe_os env) (st_dev st) empty_device empty_device = Inr (0, di, dip)"
      "di_fstype di \<in> {''ext2'', ''ext3'', ''ext4''}" "di_type di = ''part''" "di_dev di = ''/dev/'' @ part" "di_dev dip = ''/dev/'' @ disk"
    and sysfs: "os_text (fe_os env) (''/sys/block/'' @ disk @ ''/'' @ part @ ''/start'') = Some (dec_of_nat sector @ CHR 0x0A # r1)"
      "os_text (fe_os env) (''/sys/block/'' @ disk @ ''/'' @ part @ ''/size'') = Some (dec_of_nat sectors @ CHR 0x0A # r2)"
      "sector < 2 ^ 54" "sectors < 2 ^ 63" "length disk + length part < 1000"
    and vol: "open1 (di_dev di) = Some vol" "bd_bytes vol = dev" "\<forall>l s. \<not> bd_rerr vol l s" "CHR ''?'' \<notin> set part"
      "image_ok LSBLKS_FLAGS dev groups desc_blocks" "sb = super_of (super_bytes dev)" "gd = desc_bytes sb desc_blocks dev"
    and inode: "inode_on_disk dev sb gd (ucast (st_ino st))" "nd = inode_of (disk_inode dev sb gd (ucast (st_ino st)))"
      "lsblks_open open1 code (di_dev di) = Inr (Inr fs)" "inode_ok fs (ucast (st_ino st)) nd"
    and nums: "file_blocks fs nd \<noteq> []" "- 1 \<notin> set (file_blocks fs nd)" "length (file_blocks fs nd) * st_blksize st < 2 ^ 31"
    and dev: "os_device (fe_os env) (di_dev di) = Some dev" "list_all (block_readable dev 0 (st_blksize st)) (file_blocks fs nd)"
    and parent: "os_device (fe_os env) (di_dev dip) = Some pdev" "part_of dev (sector * 512) pdev" "length pdev < 2 ^ 63"
    and dir: "st_kind st = S_DIR" "os_readdir (fe_os env) fileName = Some entries"
      "\<forall>d \<in> set entries. CHR 0x00 \<notin> set (d_name d)"
    and recs: "concat (map (block_at dev 0 (st_blksize st)) (file_blocks fs nd)) = concat (map ext2_encode rs)" "list_all ext2_rec_ok rs"
  shows "\<exists>n. \<forall>m. fhf_main (env\<lparr>fe_lsblks := lsblks (n + m) (lsblks_open open1 code) code\<rparr>) options =
     Inr (0, \<lparr>io_out = print_details fileName (fo_verbose opts) (found_blocks fileName st di dip sector (file_blocks fs nd)) @
         ''----FHF----'' @ nl @ ''compare_blocks: NODIFF.'' @ nl @
         report_hidden fileName (fo_verbose opts) (hidden_of (map ext2_entry_of (filter ext2_live rs)) entries),
       io_file = None, io_sink = NoSink\<rparr>)"
proof (rule fhf_from_inode [where opener = "lsblks_open open1 code", OF opts st lsblk sysfs inode(3) _ inode(4) nums dev parent dir recs])
  have q: "CHR ''?'' \<notin> set (di_dev di)" using vol(4) lsblk(4) by simp
  show "fs_read_inode fs (ucast (st_ino st)) = Inr nd"
    by (rule lsblks_open_image [where ?open1.0 = open1 and dev = vol and code = code,
        OF vol(1) q _ vol(3)]) (use vol(2,5-7) inode(1-3) in auto)
qed

text \<open>The small image with a directory of one record, mapped by the extent of inode 2.\<close>

definition one_rec :: ext2_rec where
  "one_rec = rk_rec\<lparr>r_pad := replicate 1014 0\<rparr>"

definition one_vol :: blkdev where
  "one_vol = small_dev (ext2_encode one_rec)"

lemma one_rec_ok: "length (ext2_encode one_rec) = 1024" "ext2_rec_ok one_rec"
  by (simp_all add: one_rec_def rk_rec_def ext2_rec_len_def ext2_rec_ok_def)

lemma one_image: "length (bd_bytes one_vol) = 8192" "block_at (bd_bytes one_vol) 0 1024 5 = ext2_encode one_rec"
  using one_rec_ok(1) by (simp_all add: one_vol_def small_image_def block_at_def block_offset_def)

definition one_inode :: ext2_inode where
  "one_inode = inode_of small_inode"

lemma one_inode_eval:
  "ext2fs_extent_header_verify (i_block one_inode) 60 = None" "length (i_block one_inode) = 60" "eh_entries (i_block one_inode) = 1"
  "eh_depth (i_block one_inode) = 0" "i_flags one_inode = EXT4_EXTENTS_FL"
  by (simp_all add: one_inode_def inode_of_def small_inode_def node_eval le32_at_def EXT4_EXTENTS_FL_def)

lemma one_file_blocks: "file_blocks fs one_inode = [5]"
  by (simp add: file_blocks_def one_inode_eval leaf_blocks_def leaf_len_def EXT4_EXTENTS_FL_def)
    (simp add: ee_len_def ee_pblk_def node_eval one_inode_def inode_of_def small_inode_def)

text \<open>The system of that directory: \<open>/dev/sda1\<close> starts at sector 1 of \<open>/dev/sda\<close>, and the directory lists nothing.\<close>

definition one_stat :: stat where
  "one_stat = empty_stat\<lparr>st_kind := S_DIR, st_dev := 2049, st_ino := 2, st_blksize := 1024\<rparr>"

definition one_os :: os where
  "one_os = quiet_os\<lparr>os_access := (\<lambda>_. True),
     os_realpath := (\<lambda>p. if p = ''/sys/dev/block/8:1'' then Some ''/sys/block/sda/sda1'' else Some ''/sys/block/sda''),
     os_stat := (\<lambda>p. if p = ''/d'' then Some one_stat else Some (empty_stat\<lparr>st_kind := S_BLK, st_rdev := 2048\<rparr>)),
     os_text := (\<lambda>p. if p = ''/proc/self/mountinfo'' then Some (''25 1 8:1 / / rw - ext4 /dev/sda1 rw'' @ [CHR 0x0A])
                     else Some (dec_of_nat 1 @ CHR 0x0A # [])),
     os_readdir := (\<lambda>_. Some []),
     os_device := (\<lambda>p. if p = ''/dev/sda1'' then Some (bd_bytes one_vol) else Some (replicate 512 0 @ bd_bytes one_vol))\<rparr>"

definition one_dev :: DeviceInfo where
  "one_dev = empty_device\<lparr>di_name := ''sda1'', di_dev := ''/dev/sda1'', di_maj_min := ''8:1'', di_fstype := ''ext4'', di_type := ''part''\<rparr>"

definition one_disk :: DeviceInfo where
  "one_disk = empty_device\<lparr>di_name := ''sda'', di_dev := ''/dev/sda'', di_maj_min := ''8:0'', di_fstype := ''unknown'', di_type := ''part''\<rparr>"

lemma majmin_text_sda: "majmin_text 2048 = ''8:0''"
  by (simp add: majmin_text_def major_def minor_def dec_of_int_def dec_of_nat.simps digit_char_def char_of_def bit_0)

lemma one_path:
  "find_devmm_block_path f one_os ''8:1'' k = Inr (Some (snprintf (k - 1) ''/sys/block/sda/sda1''))"
  "find_devmm_block_path f one_os ''8:0'' k = Inr (Some (snprintf (k - 1) ''/sys/block/sda''))"
  by (simp_all add: find_devmm_block_path_def one_os_def Let_def starts_with_def)

lemma one_line: "fgets_all 512 (''25 1 8:1 / / rw - ext4 /dev/sda1 rw'' @ [CHR 0x0A]) = [''25 1 8:1 / / rw - ext4 /dev/sda1 rw'' @ [CHR 0x0A]]"
  using fgets_all_line [of "''25 1 8:1 / / rw - ext4 /dev/sda1 rw''" 512 "[]"] by simp

lemma one_mounts:
  "mountinfo_loop '' 8:1 '' 32 f [''25 1 8:1 / / rw - ext4 /dev/sda1 rw'' @ [CHR 0x0A]] = Inr (0, ''ext4'')"
  "mountinfo_loop '' 8:0 '' 32 f [''25 1 8:1 / / rw - ext4 /dev/sda1 rw'' @ [CHR 0x0A]] = Inr (- 1, f)"
  by (simp_all add: strtok_def starts_with_def strncpy_def tolower_def)

lemma one_fstype: "get_blkdev_fstype one_os 2049 32 f = Inr (0, ''ext4'')" "get_blkdev_fstype one_os 2048 32 f = Inr (- 1, ''unknown'')"
proof -
  have t: "os_text one_os ''/proc/self/mountinfo'' = Some (''25 1 8:1 / / rw - ext4 /dev/sda1 rw'' @ [CHR 0x0A])"
    "access_file one_os ''/proc/self'' ''mountinfo''" by (simp_all add: one_os_def access_file_def)
  show "get_blkdev_fstype one_os 2049 32 f = Inr (0, ''ext4'')" "get_blkdev_fstype one_os 2048 32 f = Inr (- 1, ''unknown'')"
    unfolding get_blkdev_fstype_def get_blkdev_fstype_from_mountinfo_def t option.case one_line majmin_text_sda1 majmin_text_sda Let_def
    using one_mounts t by simp_all
qed

lemma one_type: "blockpath_type one_os p 32 = (0, ''part'')"
  by (simp add: blockpath_type_def one_os_def Let_def tolower_def)

lemma one_info:
  "get_one_blk_info f one_os 2049 empty_device = Inr (0, one_dev)" "get_one_blk_info f one_os 2048 empty_device = Inr (0, one_disk)"
  by (simp_all add: get_one_blk_info_def sysfs_blkdev_get_path_def find_dev_block_path_def majmin_text_sda1 majmin_text_sda one_path one_fstype
      get_blkdev_type_def one_type strncpy_def one_dev_def one_disk_def after_last_def sysfs_devname_sys_to_dev_def)

lemma one_nodes: "block_nodes ''/sys/block/sda/sda1'' = [''sda'', ''sda1'']"
  by (simp add: block_nodes_def starts_with_def strtok_all.simps strtok_def)

lemma one_parent: "get_blkdev_parent f one_os 2049 p md n = Inr (0, 2048, md)"
proof -
  have "sysfs_blkdev_from_path one_os ''/dev/sda'' p = (0, 2048)"
    by (simp add: sysfs_blkdev_from_path_def one_os_def starts_with_def)
  then show ?thesis by (simp add: get_blkdev_parent_def majmin_text_sda1 one_path one_nodes Let_def)
qed

lemma one_lsblk: "myLsblk f one_os 2049 empty_device empty_device = Inr (0, one_dev, one_disk)"
  by (simp add: myLsblk_def one_info one_parent)

lemma one_dev_fields: "di_dev one_dev = ''/dev/sda1''" "di_fstype one_dev = ''ext4''" "di_type one_dev = ''part''" "di_dev one_disk = ''/dev/sda''"
  by (simp_all add: one_dev_def one_disk_def)

definition one_env :: fhf_env where
  "one_env = rk_env\<lparr>fe_os := one_os\<rparr>"

theorem fhf_hidden_from_inode_witness:
  "\<exists>n. \<forall>m. fhf_main (one_env\<lparr>fe_lsblks := lsblks (n + m) (lsblks_open (\<lambda>_. Some one_vol) (\<lambda>_. 1)) (\<lambda>_. 1)\<rparr>)
       [(CHR ''f'', ''/d'')] =
     Inr (0, \<lparr>io_out = print_details ''/d'' (fo_verbose plain_opts) (found_blocks ''/d'' one_stat one_dev one_disk 1 [5]) @
         ''----FHF----'' @ nl @ ''compare_blocks: NODIFF.'' @ nl @
         report_hidden ''/d'' (fo_verbose plain_opts) (hidden_of (map ext2_entry_of (filter ext2_live [one_rec])) []),
       io_file = None, io_sink = NoSink\<rparr>)"
proof -
  have img: "image_ok LSBLKS_FLAGS (bd_bytes one_vol) 1 1" "super_of (super_bytes (bd_bytes one_vol)) = small_fs_super"
    "desc_bytes small_fs_super 1 (bd_bytes one_vol) = small_desc" "inode_on_disk (bd_bytes one_vol) small_fs_super small_desc 2"
    "inode_of (disk_inode (bd_bytes one_vol) small_fs_super small_desc 2) = one_inode"
    using one_rec_ok(1) by (simp_all add: one_vol_def small_image_ok small_super_bytes small_super_of small_desc_bytes small_on_disk small_inode_bytes one_inode_def)
  have vol: "(\<lambda>_. Some one_vol) ''/dev/sda1'' = Some one_vol" "CHR ''?'' \<notin> set ''/dev/sda1''" "\<forall>l s. \<not> bd_rerr one_vol l s"
    by (simp_all add: one_vol_def)
  obtain fs where fs: "lsblks_open (\<lambda>_. Some one_vol) (\<lambda>_. 1) ''/dev/sda1'' = Inr (Inr fs)"
    "fs_blocksize fs = 1024" "fs_inodes_count fs = 16" "\<not> fs_image_file fs" "fs_ignore_csum fs"
    by (rule lsblks_open_image [where ?open1.0 = "\<lambda>_. Some one_vol" and name = "''/dev/sda1''" and dev = one_vol, OF vol(1,2) img(1) vol(3), unfolded img(2)])
      (use small_checks small_sizes in auto)
  have ino: "ucast (st_ino one_stat) = (2 :: u32)" "st_blksize one_stat = 1024" by (simp_all add: one_stat_def)
  show ?thesis
    unfolding one_file_blocks [of fs, symmetric]
  proof (rule fhf_hidden_from_inode [where part = "''sda1''" and disk = "''sda''" and sectors = 1 and ?r1.0 = "[]" and ?r2.0 = "[]"
        and dev = "bd_bytes one_vol" and pdev = "replicate 512 0 @ bd_bytes one_vol" and vol = one_vol and groups = 1 and desc_blocks = 1])
    show "one_inode = inode_of (disk_inode (bd_bytes one_vol) small_fs_super small_desc (ucast (st_ino one_stat)))"
      by (simp only: ino img)
    show "inode_ok fs (ucast (st_ino one_stat)) one_inode"
      using fs by (simp add: ino inode_ok_def one_inode_eval EXT4_EXTENTS_FL_def plain_fs_def word_le_nat_alt)
    show "list_all (block_readable (bd_bytes one_vol) 0 (st_blksize one_stat)) (file_blocks fs one_inode)"
      by (simp add: ino one_file_blocks block_readable_def block_offset_def one_image)
    show "concat (map (block_at (bd_bytes one_vol) 0 (st_blksize one_stat)) (file_blocks fs one_inode)) = concat (map ext2_encode [one_rec])"
      by (simp add: ino one_file_blocks one_image)
    show "part_of (bd_bytes one_vol) (1 * 512) (replicate 512 0 @ bd_bytes one_vol)" by (simp add: part_of_def)
    show "myLsblk (fe_fuel one_env) (fe_os one_env) (st_dev one_stat) empty_device empty_device = Inr (0, one_dev, one_disk)"
      by (simp add: one_env_def one_stat_def one_lsblk)
  qed (use fs img vol in \<open>simp_all add: one_dev_fields one_file_blocks one_env_def one_os_def one_stat_def rk_env_def plain_opts_def one_rec_ok one_image ino\<close>)
qed

text \<open>
  C35: a failure to find the blocks of an ext directory is reported as a clean directory. On a
  partition of type \<open>part\<close> that sysfs places on its disk, both of which can be opened, and without an output file and the
  option to compare only, when \<open>lsblks\<close> returns (with any error) before it calls back
  (as it does when the file system cannot be opened or the inode not be read), the error is dropped: the list
  of blocks is empty, the two empty dumps agree, \<open>find_hidden_files\<close> returns 1, which is dropped too, and
  \<open>fhf_main\<close> returns 0 having printed that there is no difference and that no hidden files were found,
  whatever the directory holds.
\<close>

theorem fhf_failure_reported_clean:
  assumes opts: "fhf_options options \<lparr>fo_fileName = None, fo_read_parent = 0, fo_cmp_parent_only = False, fo_output = None, fo_verbose = 0\<rparr> = Inr opts"
      "fo_fileName opts = Some fileName" "fo_output opts = None" "\<not> fo_cmp_parent_only opts"
    and st: "os_stat (fe_os env) fileName = Some st" "os_access (fe_os env) ''/sys/block''" "0 < st_blksize st" "st_blksize st < 2 ^ 31"
    and lsblk: "myLsblk (fe_fuel env) (fe_os env) (st_dev st) empty_device empty_device = Inr (0, di, dip)"
      "di_fstype di \<in> {''ext2'', ''ext3'', ''ext4''}" "di_type di = ''part''" "di_dev di = ''/dev/'' @ part" "di_dev dip = ''/dev/'' @ disk"
    and sysfs: "os_text (fe_os env) (''/sys/block/'' @ disk @ ''/'' @ part @ ''/start'') = Some (dec_of_nat sector @ CHR 0x0A # r1)"
      "os_text (fe_os env) (''/sys/block/'' @ disk @ ''/'' @ part @ ''/size'') = Some (dec_of_nat sectors @ CHR 0x0A # r2)"
      "sector < 2 ^ 63" "sectors < 2 ^ 63" "length disk + length part < 1000"
    and dev: "os_device (fe_os env) (di_dev di) = Some dev" "os_device (fe_os env) (di_dev dip) = Some pdev"
    and dir: "st_kind st = S_DIR" "os_readdir (fe_os env) fileName = Some entries"
    and fails: "fe_lsblks env (di_dev di) (st_ino st) lsb_cb ([], 0) = Inr (err, [], 0)"
  shows "fhf_main env options =
     Inr (0, \<lparr>io_out = print_details fileName (fo_verbose opts) ((found_blocks fileName st di dip sector [])\<lparr>qb_blknums := []\<rparr>) @
         ''----FHF----'' @ nl @ ''compare_blocks: NODIFF.'' @ nl @
         ''Found '' @ dec_of_nat (length (listed entries)) @ '' files in path of '' @ fileName @ nl @
         ''Parsed out '' @ dec_of_nat 0 @ '' files in blocks of '' @ fileName @ nl @
         ''No hidden files found in '' @ fileName @ nl,
       io_file = None, io_sink = NoSink\<rparr>)"
proof -
  let ?qb = "(found_blocks fileName st di dip sector [])\<lparr>qb_blknums := []\<rparr>"
  have q: "query_blocks (fe_fuel env) (fe_os env) (fe_lsblks env) fileName empty_qb = Inr (0, ?qb)"
    using query_blocks_partition [OF st lsblk sysfs, of "fe_lsblks env", OF fails] by (simp add: found_blocks_def)
  have k: "known_fstype (di_fstype di)" using lsblk(2) by (auto simp: known_fstype_def)
  have "fhf_inspect env opts fileName st ?qb io =
      Inr (0, io\<lparr>io_sink := NoSink, io_out := io_out io @ ''----FHF----'' @ nl @ ''compare_blocks: NODIFF.'' @ nl @
         ''Found '' @ dec_of_nat (length (listed entries)) @ '' files in path of '' @ fileName @ nl @
         ''Parsed out '' @ dec_of_nat 0 @ '' files in blocks of '' @ fileName @ nl @
         ''No hidden files found in '' @ fileName @ nl\<rparr>)" for io
    using dev dir opts(3,4) k lsblk(5)
    by (simp add: fhf_inspect_def found_blocks_def dump_blocks_def compare_parent_def analyse_data_def open_output_def
        write_sink_def put_def find_hidden_files_def do_dir_def report_hidden_def name_lines_def listed_def)
  then show ?thesis using opts(1,2) st(1) by (simp add: fhf_main_def Let_def q put_def)
qed

text \<open>The directory of the small image again, when \<open>lsblks\<close> cannot open the device.\<close>

theorem fhf_failure_reported_clean_witness:
  "fhf_main (one_env\<lparr>fe_lsblks := lsblks 9 (\<lambda>_. Inr (Inl 2133571347)) (\<lambda>_. 1)\<rparr>) [(CHR ''f'', ''/d'')] =
     Inr (0, \<lparr>io_out = print_details ''/d'' (fo_verbose plain_opts) ((found_blocks ''/d'' one_stat one_dev one_disk 1 [])\<lparr>qb_blknums := []\<rparr>) @
         ''----FHF----'' @ nl @ ''compare_blocks: NODIFF.'' @ nl @
         ''Found '' @ dec_of_nat (length (listed [])) @ '' files in path of '' @ ''/d'' @ nl @
         ''Parsed out '' @ dec_of_nat 0 @ '' files in blocks of '' @ ''/d'' @ nl @ ''No hidden files found in '' @ ''/d'' @ nl,
       io_file = None, io_sink = NoSink\<rparr>)"
proof (rule fhf_failure_reported_clean [where part = "''sda1''" and disk = "''sda''" and sectors = 1 and ?r1.0 = "[]" and ?r2.0 = "[]"
      and dev = "bd_bytes one_vol" and pdev = "replicate 512 0 @ bd_bytes one_vol" and err = 2133571347])
  show "myLsblk (fe_fuel (one_env\<lparr>fe_lsblks := lsblks 9 (\<lambda>_. Inr (Inl 2133571347)) (\<lambda>_. 1)\<rparr>))
      (fe_os (one_env\<lparr>fe_lsblks := lsblks 9 (\<lambda>_. Inr (Inl 2133571347)) (\<lambda>_. 1)\<rparr>)) (st_dev one_stat) empty_device empty_device = Inr (0, one_dev, one_disk)"
    by (simp add: one_env_def one_stat_def one_lsblk)
qed (simp_all add: one_dev_fields one_env_def one_os_def one_stat_def rk_env_def plain_opts_def lsblks_def)

end
